(* ===== verification/Go_Prelude.thy ===== *)
theory Go_Prelude
  imports Main "HOL-Library.AList" "HOL-Library.Sublist"
begin

text \<open>
  Prelude of the development: the parts of Go and of its standard library that the proxy's
  packages use, and the lemmas about them that the component theories share.

  \<^item> A Go \<open>string\<close> and a \<open>[]byte\<close> are both byte sequences; both are \<^typ>\<open>string\<close> (a list of
    8-bit characters), so the conversions \<open>string(b)\<close> and \<open>[]byte(s)\<close> are the identity.
  \<^item> A Go \<open>map[string]V\<close> is an association list. Lookup is \<^const>\<open>map_of\<close>, assignment is
    \<^const>\<open>AList.update\<close>, and ranging over the map visits the list in its order. Go leaves that
    order unspecified; every theorem holds for every list, hence for every order.
  \<^item> An \<open>error\<close> is a value of \<open>goerror\<close>, which keeps what \<open>errors.Is\<close> can see: the tree of
    wrapped errors. A fallible function returns \<open>goerror + 'a\<close>, with \<open>Inl\<close> for the error.
  \<^item> The functions of package \<open>strings\<close> are defined over byte sequences, and characterised by
    \<open>prefix\<close>, \<open>suffix\<close> and concatenation.
\<close>

section \<open>Types\<close>

type_synonym bytes = string
type_synonym 'v gomap = "(string \<times> 'v) list"

text \<open>The gRPC status codes.\<close>

datatype code =
    OK | Canceled | Unknown | InvalidArgument | DeadlineExceeded | NotFound | AlreadyExists
  | PermissionDenied | ResourceExhausted | FailedPrecondition | Aborted | OutOfRange
  | Unimplemented | Internal | Unavailable | DataLoss | Unauthenticated

text \<open>
  Errors. \<open>ErrorString\<close> is \<open>errors.New\<close> or an \<open>fmt.Errorf\<close> with no \<open>%w\<close>; sentinels are
  \<open>ErrorString\<close> constants with texts of their own. \<open>WrapError\<close> is an \<open>fmt.Errorf\<close> with
  \<open>%w\<close> verbs: its text and what it wraps. \<open>JoinError\<close> is \<open>errors.Join\<close>, \<open>StatusError\<close> an
  error made by package \<open>status\<close>. \<open>Rejection\<close> and \<open>PanicError\<close> are the error types of
  \<open>internal/rpc\<close>: a status for the client with a detail for the log, and a recovered panic.
\<close>

datatype goerror =
    ErrorString string
  | WrapError string "goerror list"
  | JoinError "goerror list"
  | StatusError code string
  | Rejection code string string
  | PanicError string

type_synonym 'a result = "goerror + 'a"

text \<open>\<open>errors.Is\<close>: the error itself, or something it wraps.\<close>

fun errors_Is :: "goerror \<Rightarrow> goerror \<Rightarrow> bool" where
  "errors_Is (ErrorString s) t = (ErrorString s = t)"
| "errors_Is (WrapError s es) t = (WrapError s es = t \<or> list_ex (\<lambda>e. errors_Is e t) es)"
| "errors_Is (JoinError es) t = (JoinError es = t \<or> list_ex (\<lambda>e. errors_Is e t) es)"
| "errors_Is (StatusError c s) t = (StatusError c s = t)"
| "errors_Is (Rejection c s d) t = (Rejection c s d = t)"
| "errors_Is (PanicError v) t = (PanicError v = t)"

text \<open>\<open>io.EOF\<close>.\<close>

definition EOF :: goerror where
  "EOF = ErrorString ''EOF''"

text \<open>The text of an error (its \<open>Error\<close> method); the texts of a joined error are lines.\<close>

fun join_lines :: "string list \<Rightarrow> string" where
  "join_lines [] = []"
| "join_lines [l] = l"
| "join_lines (l # ls) = l @ [CHR 0x0A] @ join_lines ls"

fun Error :: "goerror \<Rightarrow> string" where
  "Error (ErrorString s) = s"
| "Error (WrapError s es) = s"
| "Error (JoinError es) = join_lines (map Error es)"
| "Error (StatusError c s) = s"
| "Error (Rejection c s d) = d"
| "Error (PanicError v) = ''panic: '' @ v"

section \<open>Package strings\<close>

definition HasPrefix :: "string \<Rightarrow> string \<Rightarrow> bool" where
  "HasPrefix s p = (take (length p) s = p)"

definition HasSuffix :: "string \<Rightarrow> string \<Rightarrow> bool" where
  "HasSuffix s p = (length p \<le> length s \<and> drop (length s - length p) s = p)"

definition TrimPrefix :: "string \<Rightarrow> string \<Rightarrow> string" where
  "TrimPrefix s p = (if HasPrefix s p then drop (length p) s else s)"

definition TrimSuffix :: "string \<Rightarrow> string \<Rightarrow> string" where
  "TrimSuffix s p = (if HasSuffix s p then take (length s - length p) s else s)"

definition CutPrefix :: "string \<Rightarrow> string \<Rightarrow> string \<times> bool" where
  "CutPrefix s p = (if HasPrefix s p then (drop (length p) s, True) else (s, False))"

fun Contains :: "string \<Rightarrow> string \<Rightarrow> bool" where
  "Contains [] t = HasPrefix [] t"
| "Contains (c # s) t = (HasPrefix (c # s) t \<or> Contains s t)"

text \<open>\<open>strings.Count\<close> of a one-byte substring.\<close>

definition CountChar :: "string \<Rightarrow> char \<Rightarrow> nat" where
  "CountChar s c = length (filter (\<lambda>x. x = c) s)"

text \<open>\<open>strings.Cut\<close> around the first occurrence of a one-byte separator.\<close>

fun CutChar :: "string \<Rightarrow> char \<Rightarrow> string \<times> string \<times> bool" where
  "CutChar [] c = ([], [], False)"
| "CutChar (x # s) c =
     (if x = c then ([], s, True)
      else case CutChar s c of (a, b, ok) \<Rightarrow> (x # a, b, ok))"

text \<open>\<open>strings.LastIndex\<close> of a one-byte substring: \<open>None\<close> for \<open>-1\<close>.\<close>

fun LastIndexChar :: "string \<Rightarrow> char \<Rightarrow> nat option" where
  "LastIndexChar [] c = None"
| "LastIndexChar (x # s) c =
     (case LastIndexChar s c of
        Some i \<Rightarrow> Some (Suc i)
      | None \<Rightarrow> if x = c then Some 0 else None)"

text \<open>\<open>strings.ToLower\<close> on ASCII letters.\<close>

definition lower_char :: "char \<Rightarrow> char" where
  "lower_char c = (if 65 \<le> (of_char c :: nat) \<and> (of_char c :: nat) \<le> 90
                   then char_of (of_char c + 32 :: nat) else c)"

definition ToLower :: "string \<Rightarrow> string" where
  "ToLower s = map lower_char s"

definition EqualFold :: "string \<Rightarrow> string \<Rightarrow> bool" where
  "EqualFold s t = (ToLower s = ToLower t)"

section \<open>Collections of simplification rules\<close>

named_theorems strings_simps \<open>facts about the functions of package strings\<close>
named_theorems go_splits \<open>case splits for errors, options and pairs\<close>

lemmas go_split_rules [go_splits] = sum.splits option.splits prod.splits

section \<open>Lemmas\<close>

subsection \<open>Strings\<close>

lemma HasPrefix_iff [strings_simps]: "HasPrefix s p \<longleftrightarrow> prefix p s"
proof
  assume "HasPrefix s p"
  then have "s = p @ drop (length p) s"
    by (metis HasPrefix_def append_take_drop_id)
  then show "prefix p s" by (metis prefixI)
next
  assume "prefix p s"
  then show "HasPrefix s p" by (auto simp: HasPrefix_def prefix_def)
qed

lemma HasSuffix_iff [strings_simps]: "HasSuffix s p \<longleftrightarrow> suffix p s"
proof
  assume "HasSuffix s p"
  then have "s = take (length s - length p) s @ p"
    by (metis HasSuffix_def append_take_drop_id)
  then show "suffix p s" by (metis suffixI)
next
  assume "suffix p s"
  then show "HasSuffix s p" by (auto simp: HasSuffix_def suffix_def)
qed

lemma HasPrefix_append [simp]: "HasPrefix (p @ s) p"
  by (simp add: HasPrefix_def)

lemma HasSuffix_append [simp]: "HasSuffix (s @ p) p"
  by (simp add: HasSuffix_def)

lemma HasPrefix_Nil [simp]: "HasPrefix s []"
  by (simp add: HasPrefix_def)

lemma TrimPrefix_append [simp]: "TrimPrefix (p @ s) p = s"
  by (simp add: TrimPrefix_def)

lemma TrimSuffix_append [simp]: "TrimSuffix (s @ p) p = s"
  by (simp add: TrimSuffix_def)

lemma Contains_iff [strings_simps]: "Contains s t \<longleftrightarrow> sublist t s"
proof (induction s)
  case Nil
  then show ?case by (auto simp: HasPrefix_iff)
next
  case (Cons c s)
  then show ?case by (auto simp: HasPrefix_iff sublist_Cons_right)
qed

lemma Contains_char [simp]: "Contains s [c] \<longleftrightarrow> c \<in> set s"
  by (induction s) (auto simp: HasPrefix_def)

lemma CountChar_all: "CountChar s c = length s \<longleftrightarrow> set s \<subseteq> {c}"
proof (induction s)
  case (Cons x s)
  have "CountChar s c < Suc (length s)" by (simp add: CountChar_def le_imp_less_Suc)
  then have "CountChar s c \<noteq> Suc (length s)" by simp
  with Cons show ?case by (auto simp: CountChar_def)
qed (simp add: CountChar_def)

lemma CutChar_Some:
  "CutChar s c = (a, b, True) \<Longrightarrow> s = a @ c # b \<and> c \<notin> set a"
proof (induction s arbitrary: a)
  case (Cons x s)
  then show ?case by (auto split: if_splits prod.splits)
qed simp

lemma CutChar_None:
  "CutChar s c = (a, b, False) \<Longrightarrow> a = s \<and> b = [] \<and> c \<notin> set s"
proof (induction s arbitrary: a)
  case (Cons x s)
  then show ?case by (auto split: if_splits prod.splits)
qed simp

lemma CutChar_append [simp]: "c \<notin> set a \<Longrightarrow> CutChar (a @ c # b) c = (a, b, True)"
  by (induction a) auto

lemma LastIndexChar_None [simp]: "LastIndexChar s c = None \<longleftrightarrow> c \<notin> set s"
  by (induction s) (auto split: option.splits)

lemma LastIndexChar_SomeD:
  "LastIndexChar s c = Some i \<Longrightarrow> s = take i s @ c # drop (Suc i) s \<and> c \<notin> set (drop (Suc i) s)"
proof (induction s arbitrary: i)
  case (Cons x s)
  show ?case
  proof (cases "LastIndexChar s c")
    case None
    with Cons.prems show ?thesis by (auto split: if_splits)
  next
    case (Some j)
    with Cons show ?thesis by auto
  qed
qed simp

lemma LastIndexChar_append [simp]:
  "c \<notin> set b \<Longrightarrow> LastIndexChar (a @ c # b) c = Some (length a)"
proof (induction a)
  case Nil
  then show ?case by (auto split: option.splits dest: LastIndexChar_None [THEN iffD2])
qed simp

subsection \<open>Errors\<close>

lemma errors_Is_refl [simp]: "errors_Is e e"
  by (cases e) auto

lemma errors_Is_wrap [simp]: "errors_Is e t \<Longrightarrow> errors_Is (WrapError s [e]) t"
  by simp

subsection \<open>Association lists\<close>

lemma map_of_AList_update [simp]: "map_of (AList.update k v al) = (map_of al)(k \<mapsto> v)"
  by (simp add: AList.update_conv')

lemma fst_set_AList_update [simp]: "fst ` set (AList.update k v al) = insert k (fst ` set al)"
  by (simp add: AList.dom_update)

lemma distinct_AList_update [simp]:
  "distinct (map fst al) \<Longrightarrow> distinct (map fst (AList.update k v al))"
  by (rule AList.distinct_update)

lemma update_fresh: "map_of al k = None \<Longrightarrow> AList.update k v al = al @ [(k, v)]"
  by (induction al) (auto split: if_splits)

lemma map_of_in_ran: "map_of al k = Some v \<Longrightarrow> v \<in> snd ` set al"
  by (force dest: map_of_SomeD)

end
