(* ===== verification/Match.thy ===== *)
theory Match
  imports Go_Prelude
begin

text \<open>
  Package \<open>pkg/match\<close>: the glob matcher of routing rules. \<open>Compile\<close> sorts a pattern into one of
  five kinds and \<open>Match\<close> compares by kind. The specification is \<open>glob\<close>, the usual wildcard
  semantics in which every \<open>*\<close> stands for any string; a compiled pattern agrees with it on
  every input, and \<open>Compile\<close> refuses exactly the patterns with a \<open>*\<close> in the interior.
\<close>

section \<open>The code\<close>

datatype kind = KLiteral | KPrefix | KSuffix | KContains | KAll

record Matcher =
  m_kind :: kind
  m_text :: string

definition Compile :: "string \<Rightarrow> Matcher result" where
  "Compile pattern =
     (let leading = HasPrefix pattern ''*'';
          trailing = HasSuffix pattern ''*'';
          check = (\<lambda>m. if Contains (m_text m) ''*''
                       then Inl (ErrorString (''match: '' @ pattern
                              @ '' has a '' @ ''*'' @ '' outside the leading or trailing position''))
                       else Inr m)
      in if 0 < length pattern \<and> CountChar pattern (CHR ''*'') = length pattern
         then Inr \<lparr>m_kind = KAll, m_text = []\<rparr>
         else if leading \<and> trailing
         then check \<lparr>m_kind = KContains, m_text = drop 1 (take (length pattern - 1) pattern)\<rparr>
         else if leading
         then check \<lparr>m_kind = KSuffix, m_text = TrimPrefix pattern ''*''\<rparr>
         else if trailing
         then check \<lparr>m_kind = KPrefix, m_text = TrimSuffix pattern ''*''\<rparr>
         else check \<lparr>m_kind = KLiteral, m_text = pattern\<rparr>)"

definition Match :: "Matcher \<Rightarrow> string \<Rightarrow> bool" where
  "Match m s =
     (case m_kind m of
        KLiteral \<Rightarrow> s = m_text m
      | KPrefix \<Rightarrow> HasPrefix s (m_text m)
      | KSuffix \<Rightarrow> HasSuffix s (m_text m)
      | KContains \<Rightarrow> Contains s (m_text m)
      | KAll \<Rightarrow> True)"

section \<open>The specification\<close>

text \<open>Wildcard matching: \<open>*\<close> stands for any string, every other byte for itself.\<close>

fun glob :: "string \<Rightarrow> string \<Rightarrow> bool" where
  "glob [] s = (s = [])"
| "glob (p # ps) [] = (p = CHR ''*'' \<and> glob ps [])"
| "glob (p # ps) (c # s) =
     (if p = CHR ''*'' then glob ps (c # s) \<or> glob (p # ps) s
      else p = c \<and> glob ps s)"

text \<open>A \<open>*\<close> that is neither the first nor the last byte of a pattern.\<close>

definition interior_star :: "string \<Rightarrow> bool" where
  "interior_star p \<longleftrightarrow> CHR ''*'' \<in> set (drop 1 (take (length p - 1) p))"

section \<open>Lemmas\<close>

lemma glob_literal_append:
  "CHR ''*'' \<notin> set p \<Longrightarrow> glob (p @ q) s \<longleftrightarrow> (\<exists>t. s = p @ t \<and> glob q t)"
proof (induction p arbitrary: s)
  case (Cons x p)
  then show ?case by (cases s) auto
qed simp

lemma glob_star: "glob (CHR ''*'' # q) s \<longleftrightarrow> (\<exists>u v. s = u @ v \<and> glob q v)"
proof (induction s)
  case (Cons c s)
  have "(\<exists>u v. c # s = u @ v \<and> glob q v) \<longleftrightarrow> glob q (c # s) \<or> (\<exists>u v. s = u @ v \<and> glob q v)"
    by (auto simp: Cons_eq_append_conv)
  with Cons show ?case by simp
qed simp

lemma glob_literal: "CHR ''*'' \<notin> set p \<Longrightarrow> glob p s \<longleftrightarrow> s = p"
  using glob_literal_append [of p "[]" s] by auto

lemma glob_stars: "set p \<subseteq> {CHR ''*''} \<Longrightarrow> p \<noteq> [] \<Longrightarrow> glob p s"
proof (induction p)
  case (Cons x p)
  then show ?case
  proof (cases p)
    case Nil
    with Cons show ?thesis by (auto simp: glob_star)
  next
    case (Cons y q)
    with \<open>set (x # p) \<subseteq> {CHR ''*''}\<close> Cons.IH show ?thesis
      by (auto simp: glob_star intro: exI [of _ "[]"])
  qed
qed simp

lemma star_first: "HasPrefix p ''*'' \<longleftrightarrow> (\<exists>q. p = CHR ''*'' # q)"
  by (cases p) (auto simp: HasPrefix_def)

lemma star_last: "HasSuffix p ''*'' \<longleftrightarrow> (\<exists>q. p = q @ ''*'')"
  by (auto simp: HasSuffix_iff suffix_def)

lemmas glob_simps = glob_star glob_literal glob_literal_append

lemma both_ends:
  assumes "HasPrefix p ''*''" "HasSuffix p ''*''" "\<not> set p \<subseteq> {CHR ''*''}"
  obtains q where "p = CHR ''*'' # q @ ''*''"
proof -
  from assms obtain r where r: "p = CHR ''*'' # r" by (auto simp: star_first)
  with assms(2,3) obtain q where "r = q @ ''*''"
    by (cases r rule: rev_cases) (auto simp: star_last)
  with r that show ?thesis by blast
qed

text \<open>The pattern forms that \<open>Compile\<close> tells apart, with what each compiles to.\<close>

lemma Compile_all: "p \<noteq> [] \<Longrightarrow> set p \<subseteq> {CHR ''*''} \<Longrightarrow> Compile p = Inr \<lparr>m_kind = KAll, m_text = []\<rparr>"
  by (simp add: Compile_def CountChar_all)

text \<open>Every compiled matcher comes from one of the five forms.\<close>

lemma Compile_cases:
  assumes "Compile p = Inr m"
  obtains (All) "p \<noteq> []" "set p \<subseteq> {CHR ''*''}" "m = \<lparr>m_kind = KAll, m_text = []\<rparr>"
    | (Con) q where "p = CHR ''*'' # q @ ''*''" "CHR ''*'' \<notin> set q" "m = \<lparr>m_kind = KContains, m_text = q\<rparr>"
    | (Suf) q where "p = CHR ''*'' # q" "CHR ''*'' \<notin> set q" "m = \<lparr>m_kind = KSuffix, m_text = q\<rparr>"
    | (Pre) q where "p = q @ ''*''" "CHR ''*'' \<notin> set q" "m = \<lparr>m_kind = KPrefix, m_text = q\<rparr>"
    | (Lit) "CHR ''*'' \<notin> set p" "m = \<lparr>m_kind = KLiteral, m_text = p\<rparr>"
proof (cases "p \<noteq> [] \<and> set p \<subseteq> {CHR ''*''}")
  case True
  with assms All show ?thesis by (simp add: Compile_all)
next
  case False
  then have ns: "\<not> (0 < length p \<and> CountChar p (CHR ''*'') = length p)"
    by (auto simp: CountChar_all)
  show ?thesis
  proof (cases "HasPrefix p ''*''"; cases "HasSuffix p ''*''")
    assume ends: "HasPrefix p ''*''" "HasSuffix p ''*''"
    moreover from ends(1) have "p \<noteq> []" by (auto simp: star_first)
    with False ends obtain q where "p = CHR ''*'' # q @ ''*''"
      using both_ends by metis
    ultimately show ?thesis
      using assms ns Con [of q] by (auto simp: Compile_def Let_def split: if_splits)
  next
    assume "HasPrefix p ''*''" "\<not> HasSuffix p ''*''"
    moreover from this obtain q where "p = CHR ''*'' # q" by (auto simp: star_first)
    ultimately show ?thesis
      using assms ns Suf [of q] TrimPrefix_append [of "''*''" q]
      by (auto simp: Compile_def Let_def split: if_splits)
  next
    assume "\<not> HasPrefix p ''*''" "HasSuffix p ''*''"
    moreover from this obtain q where "p = q @ ''*''" by (auto simp: star_last)
    ultimately show ?thesis
      using assms ns Pre [of q] by (auto simp: Compile_def Let_def split: if_splits)
  next
    assume "\<not> HasPrefix p ''*''" "\<not> HasSuffix p ''*''"
    with assms ns Lit show ?thesis by (auto simp: Compile_def Let_def split: if_splits)
  qed
qed

text \<open>Where the interior \<open>*\<close> is, by whether the pattern's ends are one.\<close>

lemma interior_star_iff:
  "interior_star (CHR ''*'' # q @ ''*'') \<longleftrightarrow> CHR ''*'' \<in> set q"
  "p = CHR ''*'' # q \<Longrightarrow> \<not> HasSuffix p ''*'' \<Longrightarrow> interior_star p \<longleftrightarrow> CHR ''*'' \<in> set q"
  "p = q @ ''*'' \<Longrightarrow> \<not> HasPrefix p ''*'' \<Longrightarrow> interior_star p \<longleftrightarrow> CHR ''*'' \<in> set q"
  "\<not> HasPrefix p ''*'' \<Longrightarrow> \<not> HasSuffix p ''*'' \<Longrightarrow> interior_star p \<longleftrightarrow> CHR ''*'' \<in> set p"
proof -
  show "interior_star (CHR ''*'' # q @ ''*'') \<longleftrightarrow> CHR ''*'' \<in> set q"
    by (simp add: interior_star_def)
  show "p = CHR ''*'' # q \<Longrightarrow> \<not> HasSuffix p ''*'' \<Longrightarrow> interior_star p \<longleftrightarrow> CHR ''*'' \<in> set q"
    by (cases q rule: rev_cases) (auto simp: interior_star_def star_last)
  show "p = q @ ''*'' \<Longrightarrow> \<not> HasPrefix p ''*'' \<Longrightarrow> interior_star p \<longleftrightarrow> CHR ''*'' \<in> set q"
    by (cases q) (auto simp: interior_star_def star_first)
  assume "\<not> HasPrefix p ''*''" "\<not> HasSuffix p ''*''"
  then show "interior_star p \<longleftrightarrow> CHR ''*'' \<in> set p"
  proof (cases p)
    case (Cons x q)
    with \<open>\<not> HasPrefix p ''*''\<close> \<open>\<not> HasSuffix p ''*''\<close> show ?thesis
      by (cases q rule: rev_cases) (auto simp: interior_star_def star_first star_last)
  qed (simp add: interior_star_def)
qed

lemma stars_ends: "p \<noteq> [] \<Longrightarrow> set p \<subseteq> {CHR ''*''} \<Longrightarrow> HasPrefix p ''*'' \<and> HasSuffix p ''*''"
proof -
  assume p: "p \<noteq> []" "set p \<subseteq> {CHR ''*''}"
  then have "hd p = CHR ''*''" "last p = CHR ''*''" by (meson hd_in_set last_in_set singletonD subsetD)+
  with p(1) show ?thesis
    by (metis append_butlast_last_id hd_Cons_tl star_first star_last)
qed

lemma Match_iff:
  assumes "Compile p = Inr m"
  shows "Match m s \<longleftrightarrow> glob p s"
  using assms
proof (cases rule: Compile_cases)
  case All
  then show ?thesis by (simp add: Match_def glob_stars)
next
  case (Con q)
  then show ?thesis by (auto simp: Match_def glob_simps Contains_iff sublist_def)
next
  case (Suf q)
  then show ?thesis by (auto simp: Match_def glob_simps HasSuffix_iff suffix_def)
next
  case (Pre q)
  then show ?thesis by (auto simp: Match_def glob_simps HasPrefix_iff prefix_def)
next
  case Lit
  then show ?thesis by (simp add: Match_def glob_literal)
qed

lemma Compile_isl: "isl (Compile p) \<longleftrightarrow> interior_star p \<and> \<not> set p \<subseteq> {CHR ''*''}"
proof (cases "p \<noteq> [] \<and> set p \<subseteq> {CHR ''*''}")
  case True
  then show ?thesis by (simp add: Compile_all)
next
  case False
  then have ns: "\<not> (0 < length p \<and> CountChar p (CHR ''*'') = length p)"
    by (auto simp: CountChar_all)
  show ?thesis
  proof (cases "HasPrefix p ''*''"; cases "HasSuffix p ''*''")
    assume ends: "HasPrefix p ''*''" "HasSuffix p ''*''"
    with False obtain q where q: "p = CHR ''*'' # q @ ''*''"
      using both_ends by (metis HasPrefix_def list.distinct(1) take_Nil)
    with False ends ns show ?thesis
      by (auto simp: Compile_def Let_def interior_star_iff(1))
  next
    assume ends: "HasPrefix p ''*''" "\<not> HasSuffix p ''*''"
    then obtain q where "p = CHR ''*'' # q" by (auto simp: star_first)
    with False ends ns show ?thesis
      using interior_star_iff(2) TrimPrefix_append [of "''*''" q] stars_ends [of p]
      by (auto simp: Compile_def Let_def)
  next
    assume ends: "\<not> HasPrefix p ''*''" "HasSuffix p ''*''"
    then obtain q where "p = q @ ''*''" by (auto simp: star_last)
    with False ends ns show ?thesis
      using interior_star_iff(3) stars_ends [of p] by (auto simp: Compile_def Let_def)
  next
    assume ends: "\<not> HasPrefix p ''*''" "\<not> HasSuffix p ''*''"
    with False ns show ?thesis
      using interior_star_iff(4) stars_ends [of p]
      by (auto simp: Compile_def Let_def interior_star_def)
  qed
qed

section \<open>Properties\<close>

text \<open>A compiled pattern matches exactly the strings that wildcard matching accepts: the
  five-way case analysis of \<open>Compile\<close> and \<open>Match\<close> agrees with the reference semantics in which
  every \<open>*\<close> stands for any string.\<close>

theorem Match_glob:
  assumes "Compile p = Inr m"
  shows "Match m s \<longleftrightarrow> glob p s"
  using assms by (rule Match_iff)

theorem Match_glob_witness:
  "Match \<lparr>m_kind = KPrefix, m_text = ''pay''\<rparr> ''payments'' \<longleftrightarrow> glob ''pay*'' ''payments''"
proof (rule Match_glob)
  show "Compile ''pay*'' = Inr \<lparr>m_kind = KPrefix, m_text = ''pay''\<rparr>" by code_simp
qed

text \<open>\<open>Compile\<close> refuses a pattern exactly when it has a \<open>*\<close> in the interior and is not made
  of \<open>*\<close> alone; every other pattern compiles.\<close>

theorem Compile_rejects: "isl (Compile p) \<longleftrightarrow> interior_star p \<and> \<not> set p \<subseteq> {CHR ''*''}"
  by (rule Compile_isl)

end
