(* ===== verification/Dek.thy ===== *)
theory Dek
  imports Go_Prelude
begin

text \<open>
  \<open>pkg/crypto/dek.go\<close>: Data Encryption Keys. AES-256-GCM and the random source are outside the
  repository; they are the fields of the record \<open>env\<close>, an argument of every operation that uses
  them, and what the code relies on is stated as the predicates \<open>aead_correct\<close>, \<open>aead_auth\<close>
  and \<open>rand_ok\<close>. The environment a call consumes (how many random reads were made, which
  addresses were handed out, how often the clock was read) is the record \<open>world\<close>, threaded
  through the operations.
\<close>

section \<open>The environment\<close>

record world =
  reads :: nat
  ptrs :: nat
  ticks :: nat

text \<open>
  \<open>rand_Read n k\<close> is the result of the \<open>n\<close>-th read of \<open>k\<close> random bytes. \<open>gcm_Seal key nonce pt aad\<close>
  and \<open>gcm_Open key nonce ct aad\<close> are the AEAD of \<open>crypto/cipher\<close> for an AES key; a nil and an
  empty additional data are the same to it.
\<close>

record env =
  rand_Read :: "nat \<Rightarrow> nat \<Rightarrow> bytes result"
  gcm_Seal :: "bytes \<Rightarrow> bytes \<Rightarrow> bytes \<Rightarrow> bytes \<Rightarrow> bytes"
  gcm_Open :: "bytes \<Rightarrow> bytes \<Rightarrow> bytes \<Rightarrow> bytes \<Rightarrow> bytes result"

text \<open>Opening what was sealed under the same key, nonce and additional data gives the plaintext.\<close>

definition aead_correct :: "'a env_scheme \<Rightarrow> bool" where
  "aead_correct e \<longleftrightarrow>
     (\<forall>key nonce pt aad. gcm_Open e key nonce (gcm_Seal e key nonce pt aad) aad = Inr pt)"

text \<open>Opening with other additional data than was sealed fails.\<close>

definition aead_auth :: "'a env_scheme \<Rightarrow> bool" where
  "aead_auth e \<longleftrightarrow>
     (\<forall>key nonce pt aad aad'. aad' \<noteq> aad \<longrightarrow>
        (\<exists>err. gcm_Open e key nonce (gcm_Seal e key nonce pt aad) aad' = Inl err))"

text \<open>The random source answers every read with the number of bytes asked for.\<close>

definition rand_ok :: "'a env_scheme \<Rightarrow> bool" where
  "rand_ok e \<longleftrightarrow> (\<forall>n k. \<exists>b. rand_Read e n k = Inr b \<and> length b = k)"

section \<open>The code\<close>

definition keyBytes :: nat where
  "keyBytes = 32"

definition materialVersion :: nat where
  "materialVersion = 1"

definition nonceSize :: nat where
  "nonceSize = 12"

definition ErrMalformedCipherText :: goerror where
  "ErrMalformedCipherText = ErrorString ''invalid ciphertext, not encrypted with a DEK''"

text \<open>
  A DEK is held by pointer, and the vault compares pointers, so the address is part of the
  value. The AEAD is determined by the key.
\<close>

record DEK =
  dek_ptr :: nat
  dek_key :: bytes

record DEKMaterial =
  Version :: nat
  KEKID :: string
  EncryptedDEK :: string

text \<open>\<open>aes.NewCipher\<close> accepts keys of 16, 24 and 32 bytes; \<open>cipher.NewGCM\<close> accepts every AES block.\<close>

definition dekFromKey :: "bytes \<Rightarrow> 'w world_scheme \<Rightarrow> DEK result \<times> 'w world_scheme" where
  "dekFromKey key w =
     (if length key \<in> {16, 24, 32}
      then (Inr \<lparr>dek_ptr = ptrs w, dek_key = key\<rparr>, w\<lparr>ptrs := Suc (ptrs w)\<rparr>)
      else (Inl (WrapError ''failed to create cipher block: crypto/aes: invalid key size''
                   [ErrorString ''crypto/aes: invalid key size'']), w))"

definition NewDEK :: "'a env_scheme \<Rightarrow> 'w world_scheme \<Rightarrow> DEK result \<times> 'w world_scheme" where
  "NewDEK e w =
     (case rand_Read e (reads w) keyBytes of
        Inl err \<Rightarrow> (Inl (WrapError (''failed to create DEK: '' @ Error err) [err]),
                    w\<lparr>reads := Suc (reads w)\<rparr>)
      | Inr k \<Rightarrow> dekFromKey k (w\<lparr>reads := Suc (reads w)\<rparr>))"

text \<open>\<open>DEK.Encrypt\<close>: the ciphertext is prefixed with the nonce.\<close>

definition DEK_Encrypt :: "'a env_scheme \<Rightarrow> DEK \<Rightarrow> bytes \<Rightarrow> bytes \<Rightarrow> 'w world_scheme \<Rightarrow> bytes result \<times> 'w world_scheme" where
  "DEK_Encrypt e d pt aad w =
     (case rand_Read e (reads w) nonceSize of
        Inl err \<Rightarrow> (Inl (WrapError (''failed to generate nonce: '' @ Error err) [err]),
                    w\<lparr>reads := Suc (reads w)\<rparr>)
      | Inr nonce \<Rightarrow> (Inr (nonce @ gcm_Seal e (dek_key d) nonce pt aad),
                      w\<lparr>reads := Suc (reads w)\<rparr>))"

definition DEK_Decrypt :: "'a env_scheme \<Rightarrow> DEK \<Rightarrow> bytes \<Rightarrow> bytes \<Rightarrow> bytes result" where
  "DEK_Decrypt e d ct aad =
     (if length ct < nonceSize then Inl ErrMalformedCipherText
      else case gcm_Open e (dek_key d) (take nonceSize ct) (drop nonceSize ct) aad of
        Inl err \<Rightarrow> Inl (WrapError (Error ErrMalformedCipherText @ '': '' @ Error err)
                          [ErrMalformedCipherText])
      | Inr pt \<Rightarrow> Inr pt)"

section \<open>Lemmas\<close>

lemma aead_correctD [simp]:
  "aead_correct e \<Longrightarrow> gcm_Open e key nonce (gcm_Seal e key nonce pt aad) aad = Inr pt"
  by (simp add: aead_correct_def)

lemma aead_authD:
  "aead_auth e \<Longrightarrow> aad' \<noteq> aad \<Longrightarrow> \<exists>err. gcm_Open e key nonce (gcm_Seal e key nonce pt aad) aad' = Inl err"
  by (simp add: aead_auth_def)

lemma rand_okE:
  assumes "rand_ok e"
  obtains b where "rand_Read e n k = Inr b" "length b = k"
  using assms by (auto simp: rand_ok_def)

lemma NewDEK_Inr:
  assumes "NewDEK e w = (Inr d, w')"
  shows "dek_ptr d = ptrs w" "ptrs w' = Suc (ptrs w)" "ticks w' = ticks w"
  using assms by (auto simp: NewDEK_def dekFromKey_def split: sum.splits if_splits)

lemma NewDEK_ptrs_le: "NewDEK e w = (r, w') \<Longrightarrow> ptrs w \<le> ptrs w'"
  by (auto simp: NewDEK_def dekFromKey_def split: sum.splits if_splits)

lemma NewDEK_ticks: "NewDEK e w = (r, w') \<Longrightarrow> ticks w' = ticks w"
  by (auto simp: NewDEK_def dekFromKey_def split: sum.splits if_splits)

lemma NewDEK_ok:
  assumes "rand_ok e"
  obtains d w' where "NewDEK e w = (Inr d, w')" "length (dek_key d) = keyBytes"
proof -
  obtain b where "rand_Read e (reads w) keyBytes = Inr b" "length b = keyBytes"
    using assms by (rule rand_okE)
  with that show ?thesis by (simp add: NewDEK_def dekFromKey_def keyBytes_def)
qed

lemma NewDEK_length:
  assumes "rand_ok e" "NewDEK e w = (Inr d, w')"
  shows "length (dek_key d) = keyBytes"
  using NewDEK_ok [OF assms(1), of w] assms(2) by auto

lemma dekFromKey_Inr:
  "length key = keyBytes \<Longrightarrow> dekFromKey key w = (Inr \<lparr>dek_ptr = ptrs w, dek_key = key\<rparr>, w\<lparr>ptrs := Suc (ptrs w)\<rparr>)"
  by (simp add: dekFromKey_def keyBytes_def)

lemma DEK_Encrypt_world: "DEK_Encrypt e d pt aad w = (r, w') \<Longrightarrow> ptrs w' = ptrs w \<and> ticks w' = ticks w"
  by (auto simp: DEK_Encrypt_def split: sum.splits)

text \<open>What a successful \<open>Encrypt\<close> returns, once the random source gives a nonce of the right size.\<close>

lemma DEK_Encrypt_Inr:
  assumes "rand_ok e" "DEK_Encrypt e d pt aad w = (Inr ct, w')"
  obtains nonce where "length nonce = nonceSize" "ct = nonce @ gcm_Seal e (dek_key d) nonce pt aad"
proof -
  obtain b where b: "rand_Read e (reads w) nonceSize = Inr b" "length b = nonceSize"
    using assms(1) by (rule rand_okE)
  with assms(2) that show ?thesis by (simp add: DEK_Encrypt_def)
qed

lemma DEK_Decrypt_Encrypt:
  assumes "aead_correct e" "rand_ok e" "DEK_Encrypt e d pt aad w = (Inr ct, w')"
    and "dek_key d' = dek_key d"
  shows "DEK_Decrypt e d' ct aad = Inr pt"
proof -
  obtain nonce where "length nonce = nonceSize" "ct = nonce @ gcm_Seal e (dek_key d) nonce pt aad"
    using assms(2,3) by (rule DEK_Encrypt_Inr)
  with assms(1,4) show ?thesis by (simp add: DEK_Decrypt_def)
qed

lemma DEK_Decrypt_wrong_aad:
  assumes "aead_auth e" "rand_ok e" "DEK_Encrypt e d pt aad w = (Inr ct, w')"
    and "dek_key d' = dek_key d" "aad' \<noteq> aad"
  obtains err where "DEK_Decrypt e d' ct aad' = Inl err" "errors_Is err ErrMalformedCipherText"
proof -
  obtain nonce where "length nonce = nonceSize" "ct = nonce @ gcm_Seal e (dek_key d) nonce pt aad"
    using assms(2,3) by (rule DEK_Encrypt_Inr)
  moreover obtain err where "gcm_Open e (dek_key d) nonce (gcm_Seal e (dek_key d) nonce pt aad) aad' = Inl err"
    using aead_authD [OF assms(1,5)] by blast
  ultimately show ?thesis
    using that assms(4) by (simp add: DEK_Decrypt_def)
qed

end
