(* ===== verification/Base64.thy ===== *)
theory Base64
  imports Go_Prelude
begin

text \<open>
  The part of Go's \<open>encoding/base64\<close> that \<open>pkg/crypto/kek.go\<close> uses to carry wrapped DEKs:
  \<open>StdEncoding.EncodeToString\<close> and \<open>StdEncoding.DecodeString\<close>, as executable functions over
  byte sequences, with the round trip the key registry rests on and the injectivity that lets
  an encoded DEK serve as a cache key.
\<close>

section \<open>Encoding\<close>

definition alphabet :: string where
  "alphabet = ''ABCDEFGHIJKLMNOPQRSTUVWXYZabcdefghijklmnopqrstuvwxyz0123456789+/''"

definition sym :: "nat \<Rightarrow> char" where
  "sym n = alphabet ! (n mod 64)"

abbreviation byte :: "char \<Rightarrow> nat" where
  "byte c \<equiv> of_char c"

fun EncodeToString :: "bytes \<Rightarrow> string" where
  "EncodeToString [] = []"
| "EncodeToString [a] =
     [sym (byte a div 4), sym (byte a mod 4 * 16), CHR ''='', CHR ''='']"
| "EncodeToString [a, b] =
     [sym (byte a div 4), sym (byte a mod 4 * 16 + byte b div 16),
      sym (byte b mod 16 * 4), CHR ''='']"
| "EncodeToString (a # b # c # xs) =
     sym (byte a div 4) # sym (byte a mod 4 * 16 + byte b div 16) #
     sym (byte b mod 16 * 4 + byte c div 64) # sym (byte c mod 64) # EncodeToString xs"

section \<open>Decoding\<close>

text \<open>\<open>decodeMap\<close>: the value of a symbol, \<open>None\<close> for a byte outside the alphabet.\<close>

fun index_of :: "char \<Rightarrow> string \<Rightarrow> nat option" where
  "index_of c [] = None"
| "index_of c (x # xs) = (if x = c then Some 0 else map_option Suc (index_of c xs))"

definition val :: "char \<Rightarrow> nat option" where
  "val c = index_of c alphabet"

definition CorruptInput :: goerror where
  "CorruptInput = ErrorString ''illegal base64 data''"

text \<open>
  One quantum at a time. Padding ends the input: after it nothing but line ends may follow,
  and those have been dropped before. The last symbol's spare bits are not checked, since
  \<open>StdEncoding\<close> is not strict.
\<close>

fun decode_quanta :: "string \<Rightarrow> bytes result" where
  "decode_quanta [] = Inr []"
| "decode_quanta (a # b # c # d # xs) =
     (case (val a, val b) of
        (Some va, Some vb) \<Rightarrow>
          (if c = CHR ''='' then
             (if d = CHR ''='' \<and> xs = [] then Inr [char_of (va * 4 + vb div 16)]
              else Inl CorruptInput)
           else case val c of
             None \<Rightarrow> Inl CorruptInput
           | Some vc \<Rightarrow>
               (if d = CHR ''='' then
                  (if xs = [] then Inr [char_of (va * 4 + vb div 16), char_of (vb mod 16 * 16 + vc div 4)]
                   else Inl CorruptInput)
                else case val d of
                  None \<Rightarrow> Inl CorruptInput
                | Some vd \<Rightarrow>
                    (case decode_quanta xs of
                       Inl e \<Rightarrow> Inl e
                     | Inr ys \<Rightarrow>
                         Inr (char_of (va * 4 + vb div 16) # char_of (vb mod 16 * 16 + vc div 4) #
                              char_of (vc mod 4 * 64 + vd) # ys))))
      | _ \<Rightarrow> Inl CorruptInput)"
| "decode_quanta _ = Inl CorruptInput"

definition DecodeString :: "string \<Rightarrow> bytes result" where
  "DecodeString s = decode_quanta (filter (\<lambda>c. c \<noteq> CHR 0x0A \<and> c \<noteq> CHR 0x0D) s)"

section \<open>The round trip\<close>

lemma byte_less [simp]: "byte c < 256"
  by (rule nat_of_char_less_256)

lemma byte_div_less [simp]: "byte c div 4 < 64" "byte c div 16 < 16" "byte c div 64 < 4"
  using byte_less [of c] by linarith+

lemma sym_table: "\<forall>n \<in> set [0..<64]. val (alphabet ! n) = Some n
    \<and> alphabet ! n \<noteq> CHR ''='' \<and> alphabet ! n \<noteq> CHR 0x0A \<and> alphabet ! n \<noteq> CHR 0x0D"
  by code_simp

lemma val_sym [simp]: "n < 64 \<Longrightarrow> val (sym n) = Some n"
  using sym_table by (simp add: sym_def)

lemma sym_plain [simp]: "sym n \<noteq> CHR ''=''" "sym n \<noteq> CHR 0x0A" "sym n \<noteq> CHR 0x0D"
  using sym_table by (auto simp: sym_def)

lemma char_of_byte [simp]: "char_of (byte c) = c"
  by (rule char_of_char)

text \<open>The arithmetic of splitting three bytes into four sextets and back.\<close>

lemma sextets:
  fixes x y z :: nat
  assumes "y < 256" "z < 256"
  shows "x div 4 * 4 + (x mod 4 * 16 + y div 16) div 16 = x"
    and "(x mod 4 * 16 + y div 16) mod 16 * 16 + (y mod 16 * 4 + z div 64) div 4 = y"
    and "(y mod 16 * 4 + z div 64) mod 4 * 64 + z mod 64 = z"
proof -
  have *: "y div 16 < 16" "z div 64 < 4" using assms by linarith+
  then have "(x mod 4 * 16 + y div 16) div 16 = x mod 4"
    and "(x mod 4 * 16 + y div 16) mod 16 = y div 16"
    and "(y mod 16 * 4 + z div 64) div 4 = y mod 16"
    and "(y mod 16 * 4 + z div 64) mod 4 = z div 64"
    by simp_all
  then show "x div 4 * 4 + (x mod 4 * 16 + y div 16) div 16 = x"
    and "(x mod 4 * 16 + y div 16) mod 16 * 16 + (y mod 16 * 4 + z div 64) div 4 = y"
    and "(y mod 16 * 4 + z div 64) mod 4 * 64 + z mod 64 = z"
    by simp_all
qed

lemmas byte_sextets [simp] = sextets [OF byte_less byte_less]

lemma sextet_less [simp]:
  "byte a mod 4 * 16 + byte b div 16 < 64"
  "byte b mod 16 * 4 + byte c div 64 < 64"
  "byte a mod 4 * 16 < 64" "byte b mod 16 * 4 < 64"
proof -
  have "byte a mod 4 < 4" "byte b mod 16 < 16" "byte b div 16 < 16" "byte c div 64 < 4" by simp_all
  then show "byte a mod 4 * 16 + byte b div 16 < 64"
    "byte b mod 16 * 4 + byte c div 64 < 64"
    "byte a mod 4 * 16 < 64" "byte b mod 16 * 4 < 64" by linarith+
qed

lemma decode_encode_quanta: "decode_quanta (EncodeToString xs) = Inr xs"
proof (induction xs rule: EncodeToString.induct)
  case (2 a)
  have "byte a div 4 * 4 + byte a mod 4 * 16 div 16 = byte a" by simp
  then show ?case by simp
next
  case (3 a b)
  have "(byte a mod 4 * 16 + byte b div 16) mod 16 * 16 + byte b mod 16 * 4 div 4 = byte b"
    using sextets(2) [of "byte b" 0 "byte a"] by simp
  then show ?case by simp
next
  case (4 a b c xs)
  then show ?case by simp
qed simp

lemma EncodeToString_plain: "c \<in> set (EncodeToString xs) \<Longrightarrow> c \<noteq> CHR 0x0A \<and> c \<noteq> CHR 0x0D"
  by (induction xs rule: EncodeToString.induct) auto

lemma DecodeString_EncodeToString [simp]: "DecodeString (EncodeToString xs) = Inr xs"
proof -
  have "filter (\<lambda>c. c \<noteq> CHR 0x0A \<and> c \<noteq> CHR 0x0D) (EncodeToString xs) = EncodeToString xs"
    using EncodeToString_plain by (simp add: filter_id_conv)
  then show ?thesis by (simp add: DecodeString_def decode_encode_quanta)
qed

lemma EncodeToString_inject [simp]: "EncodeToString xs = EncodeToString ys \<longleftrightarrow> xs = ys"
  by (metis DecodeString_EncodeToString sum.inject(2))

lemma EncodeToString_Nil_iff [simp]: "EncodeToString xs = [] \<longleftrightarrow> xs = []"
  by (cases xs rule: EncodeToString.cases) auto

end
