(* ===== verification/Kek.thy ===== *)
theory Kek
  imports Dek Base64
begin

text \<open>
  \<open>pkg/crypto/kek.go\<close>: Key Encryption Keys and the registry that selects one by namespace for
  wrapping and by key ID for unwrapping. A KEK is an interface implemented outside this package
  (a cloud KMS, an extension server); it is a record of its methods. A call's \<open>context.Context\<close>
  is kept as an argument, so a KEK may answer differently from one call to the next. What the
  registry's clients rely on is \<open>kek_opens\<close>: a KEK asked to unwrap something it wrapped gives
  the bytes back.
\<close>

section \<open>The code\<close>

type_synonym ctx = nat

record KEK =
  ID :: string
  kek_Encrypt :: "ctx \<Rightarrow> string \<Rightarrow> bytes \<Rightarrow> bytes result"
  kek_Decrypt :: "ctx \<Rightarrow> bytes \<Rightarrow> bytes result"
  kek_Close :: "goerror option"

definition ErrUnknownKey :: goerror where
  "ErrUnknownKey = ErrorString ''unknown key''"

text \<open>A call through a nil interface or pointer panics.\<close>

definition nil_panic :: goerror where
  "nil_panic = ErrorString ''panic: invalid memory address or nil pointer dereference''"

record KEKRegistry =
  defaultKey :: "KEK option"
  keks :: "KEK gomap"
  keyIDs :: "KEK gomap"
  decryptOnlyKeys :: "KEK list"
  closed :: bool
  closeErr :: "goerror option"

type_synonym KEKRegistryOption = "KEKRegistry \<Rightarrow> KEKRegistry result"

definition WithDefaultKey :: "KEK option \<Rightarrow> KEKRegistryOption" where
  "WithDefaultKey k r =
     (case k of
        None \<Rightarrow> Inl (ErrorString ''default key must not be nil'')
      | Some k \<Rightarrow> Inr (r\<lparr>defaultKey := Some k\<rparr>))"

definition WithKeyForNamespace :: "string \<Rightarrow> KEK option \<Rightarrow> KEKRegistryOption" where
  "WithKeyForNamespace ns k r =
     (case k of
        None \<Rightarrow> Inl (ErrorString (''key for namespace '' @ ns @ '' must not be nil''))
      | Some k \<Rightarrow>
          (if map_of (keks r) ns \<noteq> None
           then Inl (ErrorString (''key for namespace '' @ ns @ '' already defined''))
           else Inr (r\<lparr>keks := AList.update ns k (keks r)\<rparr>)))"

definition WithDecryptOnlyKey :: "KEK option \<Rightarrow> KEKRegistryOption" where
  "WithDecryptOnlyKey k r =
     (case k of
        None \<Rightarrow> Inl (ErrorString ''decrypt-only key must not be nil'')
      | Some k \<Rightarrow>
          (if list_ex (\<lambda>existing. ID existing = ID k) (decryptOnlyKeys r)
           then Inl (ErrorString (''key already defined: '' @ ID k))
           else Inr (r\<lparr>decryptOnlyKeys := decryptOnlyKeys r @ [k]\<rparr>)))"

fun apply_opts :: "KEKRegistryOption list \<Rightarrow> KEKRegistry \<Rightarrow> KEKRegistry result" where
  "apply_opts [] r = Inr r"
| "apply_opts (opt # opts) r = (case opt r of Inl e \<Rightarrow> Inl e | Inr r' \<Rightarrow> apply_opts opts r')"

text \<open>The closure \<open>add\<close> of \<open>NewKEKRegistry\<close>, and the loops that call it.\<close>

definition add_key :: "KEK \<Rightarrow> KEK gomap \<Rightarrow> KEK gomap result" where
  "add_key k idMap =
     (if map_of idMap (ID k) \<noteq> None then Inl (ErrorString (''duplicate key id: '' @ ID k))
      else Inr (AList.update (ID k) k idMap))"

fun add_keys :: "KEK list \<Rightarrow> KEK gomap \<Rightarrow> KEK gomap result" where
  "add_keys [] idMap = Inr idMap"
| "add_keys (k # ks) idMap = (case add_key k idMap of Inl e \<Rightarrow> Inl e | Inr m \<Rightarrow> add_keys ks m)"

definition emptyRegistry :: KEKRegistry where
  "emptyRegistry = \<lparr>defaultKey = None, keks = [], keyIDs = [], decryptOnlyKeys = [],
                    closed = False, closeErr = None\<rparr>"

definition NewKEKRegistry :: "KEKRegistryOption list \<Rightarrow> KEKRegistry result" where
  "NewKEKRegistry opts =
     (case apply_opts opts emptyRegistry of
        Inl e \<Rightarrow> Inl e
      | Inr r \<Rightarrow>
          (case defaultKey r of
             None \<Rightarrow> Inl (ErrorString ''a default key is required'')
           | Some d \<Rightarrow>
               (case add_key d [] of
                  Inl e \<Rightarrow> Inl e
                | Inr m1 \<Rightarrow>
                    (case add_keys (map snd (keks r)) m1 of
                       Inl e \<Rightarrow> Inl e
                     | Inr m2 \<Rightarrow>
                         (case add_keys (decryptOnlyKeys r) m2 of
                            Inl e \<Rightarrow> Inl e
                          | Inr m3 \<Rightarrow> Inr (r\<lparr>keyIDs := m3\<rparr>))))))"

text \<open>\<open>KEKRegistry.Encrypt\<close>; a nil \<open>dek\<close> is \<open>None\<close>.\<close>

definition registry_Encrypt :: "KEKRegistry \<Rightarrow> ctx \<Rightarrow> string \<Rightarrow> DEK option \<Rightarrow> DEKMaterial result" where
  "registry_Encrypt r c ns dek =
     (case dek of
        None \<Rightarrow> Inl (ErrorString ''dek must not be nil'')
      | Some d \<Rightarrow>
          (case (case map_of (keks r) ns of Some k \<Rightarrow> Some k | None \<Rightarrow> defaultKey r) of
             None \<Rightarrow> Inl nil_panic
           | Some k \<Rightarrow>
               (case kek_Encrypt k c ns (dek_key d) of
                  Inl e \<Rightarrow> Inl (WrapError (''failed to encrypt message in namespace: '' @ ns @ '', '' @ Error e) [e])
                | Inr ct \<Rightarrow> Inr \<lparr>Version = materialVersion, KEKID = ID k,
                                 EncryptedDEK = EncodeToString ct\<rparr>)))"

definition registry_Decrypt :: "KEKRegistry \<Rightarrow> ctx \<Rightarrow> DEKMaterial option \<Rightarrow> 'w world_scheme \<Rightarrow> DEK result \<times> 'w world_scheme" where
  "registry_Decrypt r c m w =
     (case m of
        None \<Rightarrow> (Inl (ErrorString ''dek material must not be nil''), w)
      | Some m \<Rightarrow>
          (case map_of (keyIDs r) (KEKID m) of
             None \<Rightarrow> (Inl (WrapError (Error ErrUnknownKey @ '': '' @ KEKID m) [ErrUnknownKey]), w)
           | Some k \<Rightarrow>
               (case DecodeString (EncryptedDEK m) of
                  Inl e \<Rightarrow> (Inl (WrapError (''failed to decode DEK: '' @ KEKID m @ '', '' @ Error e) [e]), w)
                | Inr ct \<Rightarrow>
                    (case kek_Decrypt k c ct of
                       Inl e \<Rightarrow> (Inl (WrapError (''failed to decrypt using KEK: '' @ KEKID m @ '', '' @ Error e) [e]), w)
                     | Inr key \<Rightarrow>
                         (if length key \<noteq> keyBytes
                          then (Inl (ErrorString (''invalid DEK for KEK: '' @ KEKID m)), w)
                          else dekFromKey key w)))))"

definition holds :: "KEKRegistry \<Rightarrow> string \<Rightarrow> bool" where
  "holds r i = (map_of (keyIDs r) i \<noteq> None)"

text \<open>The loop of \<open>Close\<close> over the ID index.\<close>

fun closeErrs :: "KEK gomap \<Rightarrow> goerror list" where
  "closeErrs [] = []"
| "closeErrs ((i, k) # ks) =
     (case kek_Close k of
        Some e \<Rightarrow> WrapError (''failed to close KEK: '' @ i @ '', '' @ Error e) [e] # closeErrs ks
      | None \<Rightarrow> closeErrs ks)"

text \<open>
  \<open>KEKRegistry.Close\<close>: the first call closes every key of the ID index and joins the errors;
  later calls return the same error. The model also returns the IDs closed by the call.
\<close>

definition registry_Close :: "KEKRegistry \<Rightarrow> goerror option \<times> KEKRegistry \<times> string list" where
  "registry_Close r =
     (if closed r then (closeErr r, r, [])
      else let errs = closeErrs (keyIDs r);
               err = (if errs = [] then None else Some (JoinError errs))
           in (err, r\<lparr>closed := True, closeErr := err\<rparr>, map fst (keyIDs r)))"

section \<open>Abstract view\<close>

text \<open>Every key of the registry, in the order the index is built: default, namespace, decrypt-only.\<close>

definition all_keys :: "KEKRegistry \<Rightarrow> KEK list" where
  "all_keys r = (case defaultKey r of None \<Rightarrow> [] | Some d \<Rightarrow> [d]) @ map snd (keks r) @ decryptOnlyKeys r"

text \<open>The keys that may wrap a new DEK.\<close>

definition active_keys :: "KEKRegistry \<Rightarrow> KEK list" where
  "active_keys r = (case defaultKey r of None \<Rightarrow> [] | Some d \<Rightarrow> [d]) @ map snd (keks r)"

definition registry_wf :: "KEKRegistry \<Rightarrow> bool" where
  "registry_wf r \<longleftrightarrow>
     defaultKey r \<noteq> None \<and> distinct (map ID (all_keys r))
     \<and> keyIDs r = map (\<lambda>k. (ID k, k)) (all_keys r)"

text \<open>Under the context \<open>c\<close>, \<open>k\<close> unwraps whatever it wrapped, under any context and namespace.\<close>

definition kek_opens :: "KEK \<Rightarrow> ctx \<Rightarrow> bool" where
  "kek_opens k c \<longleftrightarrow>
     (\<forall>c' ns d ct. kek_Encrypt k c' ns d = Inr ct \<longrightarrow> kek_Decrypt k c ct = Inr d)"

definition registry_opens :: "KEKRegistry \<Rightarrow> ctx \<Rightarrow> bool" where
  "registry_opens r c \<longleftrightarrow> list_all (\<lambda>k. kek_opens k c) (active_keys r)"

text \<open>A material unwraps to a key: what the vault keeps about every DEK it has wrapped.\<close>

definition unwraps :: "KEKRegistry \<Rightarrow> ctx \<Rightarrow> DEKMaterial \<Rightarrow> bytes \<Rightarrow> bool" where
  "unwraps r c m key \<longleftrightarrow>
     (\<exists>k ct. map_of (keyIDs r) (KEKID m) = Some k \<and> DecodeString (EncryptedDEK m) = Inr ct
        \<and> kek_Decrypt k c ct = Inr key)"

section \<open>Lemmas\<close>

lemma AList_update_new: "map_of al k = None \<Longrightarrow> AList.update k v al = al @ [(k, v)]"
  by (induction al) (auto split: if_splits)

lemma add_keys_Inr_iff:
  "add_keys ks m = Inr m' \<longleftrightarrow>
     distinct (map ID ks) \<and> (\<forall>k\<in>set ks. map_of m (ID k) = None) \<and> m' = m @ map (\<lambda>k. (ID k, k)) ks"
proof (induction ks arbitrary: m)
  case (Cons k ks)
  show ?case
  proof (cases "map_of m (ID k)")
    case None
    then have *: "add_keys (k # ks) m = add_keys ks (m @ [(ID k, k)])"
      by (simp add: add_key_def AList_update_new)
    have "map_of (m @ [(ID k, k)]) (ID k') = None \<longleftrightarrow> map_of m (ID k') = None \<and> ID k' \<noteq> ID k" for k'
      by (auto simp: map_add_def split: option.splits)
    with None show ?thesis unfolding * Cons.IH by (auto simp: image_iff)
  next
    case (Some k')
    then show ?thesis by (simp add: add_key_def)
  qed
qed auto

lemma add_keys_append:
  "add_keys (ks @ ks') m = (case add_keys ks m of Inl e \<Rightarrow> Inl e | Inr m' \<Rightarrow> add_keys ks' m')"
  by (induction ks arbitrary: m) (auto split: sum.splits)

lemma NewKEKRegistry_eq:
  assumes "apply_opts opts emptyRegistry = Inr r" "defaultKey r = Some d"
  shows "NewKEKRegistry opts =
    (case add_keys (all_keys r) [] of Inl e \<Rightarrow> Inl e | Inr m \<Rightarrow> Inr (r\<lparr>keyIDs := m\<rparr>))"
  using assms by (auto simp: NewKEKRegistry_def all_keys_def add_keys_append add_key_def
      split: sum.splits)

lemma all_keys_keyIDs [simp]:
  "all_keys (r\<lparr>keyIDs := m\<rparr>) = all_keys r" "active_keys (r\<lparr>keyIDs := m\<rparr>) = active_keys r"
  by (simp_all add: all_keys_def active_keys_def)

lemma registry_wf_lookup:
  assumes "registry_wf r" "k \<in> set (all_keys r)"
  shows "map_of (keyIDs r) (ID k) = Some k"
  using assms by (auto simp: registry_wf_def comp_def intro!: map_of_is_SomeI)

lemma map_of_index: "map_of (map (\<lambda>k. (ID k, k)) ks) i \<noteq> None \<longleftrightarrow> i \<in> ID ` set ks"
  by (simp add: map_of_eq_None_iff image_image)

lemma active_subset: "set (active_keys r) \<subseteq> set (all_keys r)"
  by (auto simp: active_keys_def all_keys_def)

lemma NewKEKRegistry_Inr:
  assumes "NewKEKRegistry opts = Inr r"
  obtains r0 d where "apply_opts opts emptyRegistry = Inr r0" "defaultKey r0 = Some d"
    "distinct (map ID (all_keys r0))" "r = r0\<lparr>keyIDs := map (\<lambda>k. (ID k, k)) (all_keys r0)\<rparr>"
proof -
  from assms obtain r0 d where r0: "apply_opts opts emptyRegistry = Inr r0" "defaultKey r0 = Some d"
    by (auto simp: NewKEKRegistry_def split: sum.splits option.splits)
  with assms have "distinct (map ID (all_keys r0))" "r = r0\<lparr>keyIDs := map (\<lambda>k. (ID k, k)) (all_keys r0)\<rparr>"
    by (auto simp: NewKEKRegistry_eq add_keys_Inr_iff split: sum.splits)
  with r0 that show ?thesis by blast
qed

lemma NewKEKRegistry_wf: "NewKEKRegistry opts = Inr r \<Longrightarrow> registry_wf r"
  by (erule NewKEKRegistry_Inr) (simp add: registry_wf_def)

text \<open>What a successful wrap returns.\<close>

lemma registry_Encrypt_Inr:
  assumes "registry_Encrypt r c ns (Some d) = Inr m"
  obtains k ct where "k \<in> set (active_keys r)" "kek_Encrypt k c ns (dek_key d) = Inr ct"
    "m = \<lparr>Version = materialVersion, KEKID = ID k, EncryptedDEK = EncodeToString ct\<rparr>"
proof -
  let ?k = "case map_of (keks r) ns of Some k \<Rightarrow> Some k | None \<Rightarrow> defaultKey r"
  from assms obtain k ct where *: "?k = Some k" "kek_Encrypt k c ns (dek_key d) = Inr ct"
    "m = \<lparr>Version = materialVersion, KEKID = ID k, EncryptedDEK = EncodeToString ct\<rparr>"
    by (auto simp: registry_Encrypt_def split: option.splits sum.splits)
  from *(1) have "k \<in> set (active_keys r)"
    by (auto simp: active_keys_def split: option.splits dest: map_of_in_ran)
  with * that show ?thesis by blast
qed

lemma registry_Encrypt_picks:
  assumes "registry_wf r"
  obtains k where "k \<in> set (active_keys r)"
    "(case map_of (keks r) ns of Some k \<Rightarrow> Some k | None \<Rightarrow> defaultKey r) = Some k"
proof (cases "map_of (keks r) ns")
  case None
  with assms that show ?thesis by (auto simp: registry_wf_def active_keys_def)
next
  case (Some k)
  then have "k \<in> set (active_keys r)" by (force simp: active_keys_def dest: map_of_SomeD)
  with Some that show ?thesis by simp
qed

lemma registry_Encrypt_ok:
  assumes "registry_wf r" "\<forall>k\<in>set (active_keys r). \<forall>d. \<exists>ct. kek_Encrypt k c ns d = Inr ct"
  shows "\<exists>m. registry_Encrypt r c ns (Some d) = Inr m"
proof -
  obtain k where k: "k \<in> set (active_keys r)"
    "(case map_of (keks r) ns of Some k \<Rightarrow> Some k | None \<Rightarrow> defaultKey r) = Some k"
    using assms(1) by (rule registry_Encrypt_picks)
  with assms(2) obtain ct where "kek_Encrypt k c ns (dek_key d) = Inr ct" by blast
  with k show ?thesis by (simp add: registry_Encrypt_def)
qed

lemma unwraps_Decrypt:
  assumes "unwraps r c m key" "length key = keyBytes"
  shows "registry_Decrypt r c (Some m) w = (Inr \<lparr>dek_ptr = ptrs w, dek_key = key\<rparr>, w\<lparr>ptrs := Suc (ptrs w)\<rparr>)"
  using assms by (auto simp: unwraps_def registry_Decrypt_def dekFromKey_Inr)

lemma registry_Decrypt_Inr:
  assumes "registry_Decrypt r c (Some m) w = (Inr d, w')"
  shows "unwraps r c m (dek_key d)" "length (dek_key d) = keyBytes"
  using assms by (auto simp: registry_Decrypt_def unwraps_def dekFromKey_def
      split: option.splits sum.splits if_splits)

lemma registry_Encrypt_unwraps:
  assumes "registry_wf r" "registry_opens r c'" "registry_Encrypt r c ns (Some d) = Inr m"
  shows "unwraps r c' m (dek_key d)"
proof -
  obtain k ct where k: "k \<in> set (active_keys r)" "kek_Encrypt k c ns (dek_key d) = Inr ct"
    and m: "m = \<lparr>Version = materialVersion, KEKID = ID k, EncryptedDEK = EncodeToString ct\<rparr>"
    using assms(3) by (rule registry_Encrypt_Inr)
  from k(1) assms(2) have "kek_opens k c'" by (simp add: registry_opens_def list_all_iff)
  with k(2) have "kek_Decrypt k c' ct = Inr (dek_key d)" by (simp add: kek_opens_def)
  moreover from k(1) assms(1) have "map_of (keyIDs r) (ID k) = Some k"
    using active_subset registry_wf_lookup by blast
  ultimately show ?thesis by (simp add: unwraps_def m)
qed

lemma registry_Encrypt_holds:
  assumes "registry_wf r" "registry_Encrypt r c ns (Some d) = Inr m"
  shows "holds r (KEKID m)"
proof -
  obtain k ct where "k \<in> set (active_keys r)" "m = \<lparr>Version = materialVersion, KEKID = ID k, EncryptedDEK = EncodeToString ct\<rparr>"
    using assms(2) by (rule registry_Encrypt_Inr)
  with assms(1) show ?thesis
    using active_subset registry_wf_lookup by (fastforce simp: holds_def)
qed

lemma registry_Decrypt_unknown:
  assumes "\<not> holds r (KEKID m)"
  shows "registry_Decrypt r c (Some m) w = (Inl (WrapError (Error ErrUnknownKey @ '': '' @ KEKID m) [ErrUnknownKey]), w)"
  using assms by (simp add: holds_def registry_Decrypt_def)

lemma registry_Decrypt_ptrs: "registry_Decrypt r c m w = (x, w') \<Longrightarrow> ptrs w \<le> ptrs w' \<and> ticks w' = ticks w"
  by (auto simp: registry_Decrypt_def dekFromKey_def split: option.splits sum.splits if_splits)

text \<open>The options of this package leave the close state alone.\<close>

inductive registry_option :: "KEKRegistryOption \<Rightarrow> bool" where
  "registry_option (WithDefaultKey k)"
| "registry_option (WithKeyForNamespace ns k)"
| "registry_option (WithDecryptOnlyKey k)"

lemma apply_opts_closed:
  "list_all registry_option opts \<Longrightarrow> apply_opts opts r = Inr r' \<Longrightarrow> closed r' = closed r"
proof (induction opts arbitrary: r)
  case (Cons opt opts)
  from Cons.prems obtain r1 where "opt r = Inr r1" "apply_opts opts r1 = Inr r'" "registry_option opt"
    by (auto split: sum.splits)
  then have "closed r1 = closed r"
    by (auto simp: WithDefaultKey_def WithKeyForNamespace_def WithDecryptOnlyKey_def
        elim!: registry_option.cases split: option.splits if_splits)
  with Cons.IH Cons.prems \<open>apply_opts opts r1 = Inr r'\<close> show ?case by simp
qed simp

lemma closeErrs_Nil: "closeErrs ks = [] \<longleftrightarrow> (\<forall>(i, k)\<in>set ks. kek_Close k = None)"
  by (induction ks rule: closeErrs.induct) (auto split: option.splits)

section \<open>Properties\<close>

text \<open>
  A registry is built exactly when every option is accepted, there is a default key and no two
  keys share an ID, across the default, the namespace and the decrypt-only keys; its index then
  resolves the ID of every one of its keys to that key, and no other ID.
\<close>

theorem NewKEKRegistry_iff:
  "NewKEKRegistry opts = Inr r \<longleftrightarrow>
     (\<exists>r0. apply_opts opts emptyRegistry = Inr r0 \<and> defaultKey r0 \<noteq> None \<and> distinct (map ID (all_keys r0))
        \<and> r = r0\<lparr>keyIDs := map (\<lambda>k. (ID k, k)) (all_keys r0)\<rparr>)"
proof
  assume "NewKEKRegistry opts = Inr r"
  then show "\<exists>r0. apply_opts opts emptyRegistry = Inr r0 \<and> defaultKey r0 \<noteq> None \<and> distinct (map ID (all_keys r0))
        \<and> r = r0\<lparr>keyIDs := map (\<lambda>k. (ID k, k)) (all_keys r0)\<rparr>"
    by (rule NewKEKRegistry_Inr) auto
next
  assume "\<exists>r0. apply_opts opts emptyRegistry = Inr r0 \<and> defaultKey r0 \<noteq> None \<and> distinct (map ID (all_keys r0))
        \<and> r = r0\<lparr>keyIDs := map (\<lambda>k. (ID k, k)) (all_keys r0)\<rparr>"
  then obtain r0 d where r0: "apply_opts opts emptyRegistry = Inr r0" "defaultKey r0 = Some d"
    "distinct (map ID (all_keys r0))" "r = r0\<lparr>keyIDs := map (\<lambda>k. (ID k, k)) (all_keys r0)\<rparr>" by auto
  then have "add_keys (all_keys r0) [] = Inr (map (\<lambda>k. (ID k, k)) (all_keys r0))"
    by (simp add: add_keys_Inr_iff)
  with r0 show "NewKEKRegistry opts = Inr r" by (simp add: NewKEKRegistry_eq)
qed

text \<open>
  A decrypt-only key never wraps a new DEK, but still unwraps: whatever a registry wraps
  carries the ID of another key, and material that names the decrypt-only key is handed to it.
\<close>

theorem decryptOnly_never_wraps:
  assumes "NewKEKRegistry opts = Inr r" "k \<in> set (decryptOnlyKeys r)"
  shows "(\<forall>c ns d m. registry_Encrypt r c ns (Some d) = Inr m \<longrightarrow> KEKID m \<noteq> ID k)
    \<and> (\<forall>m c ct key w. KEKID m = ID k \<and> DecodeString (EncryptedDEK m) = Inr ct \<and> kek_Decrypt k c ct = Inr key
          \<and> length key = keyBytes \<longrightarrow> registry_Decrypt r c (Some m) w
        = (Inr \<lparr>dek_ptr = ptrs w, dek_key = key\<rparr>, w\<lparr>ptrs := Suc (ptrs w)\<rparr>))"
proof -
  have wf: "registry_wf r" using assms(1) by (rule NewKEKRegistry_wf)
  then have dist: "distinct (map ID (active_keys r @ decryptOnlyKeys r))"
    by (simp add: registry_wf_def all_keys_def active_keys_def)
  have "KEKID m \<noteq> ID k" if "registry_Encrypt r c ns (Some d) = Inr m" for c ns d m
  proof -
    have "\<exists>k'\<in>set (active_keys r). KEKID m = ID k'"
      using that by (rule registry_Encrypt_Inr) auto
    with dist assms(2) show ?thesis by force
  qed
  moreover have "map_of (keyIDs r) (ID k) = Some k"
    using wf assms(2) by (intro registry_wf_lookup) (simp_all add: all_keys_def)
  ultimately show ?thesis by (auto simp: unwraps_def intro!: unwraps_Decrypt)
qed

text \<open>
  \<open>Close\<close> closes every key of the registry once. The first call closes the keys with the
  registry's IDs, each exactly once, and fails exactly when some key fails to close; every later
  call closes nothing and returns the error of the first.
\<close>

theorem registry_Close_once:
  assumes "list_all registry_option opts" "NewKEKRegistry opts = Inr r" "registry_Close r = (err, r', ids)"
  shows "ids = map ID (all_keys r) \<and> distinct ids
    \<and> (err = None \<longleftrightarrow> (\<forall>k\<in>set (all_keys r). kek_Close k = None))
    \<and> registry_Close r' = (err, r', [])"
proof -
  from assms(2) obtain r0 where r0: "apply_opts opts emptyRegistry = Inr r0" "distinct (map ID (all_keys r0))"
    "r = r0\<lparr>keyIDs := map (\<lambda>k. (ID k, k)) (all_keys r0)\<rparr>"
    by (rule NewKEKRegistry_Inr) auto
  have "\<not> closed r0"
    using r0(1) apply_opts_closed [OF assms(1), of emptyRegistry r0] by (simp add: emptyRegistry_def)
  with assms(3) r0 show ?thesis
    by (auto simp: registry_Close_def Let_def comp_def closeErrs_Nil split: if_splits)
qed

section \<open>Witnesses\<close>

definition ex_key_of :: "string \<Rightarrow> KEK" where
  "ex_key_of i = \<lparr>ID = i, kek_Encrypt = (\<lambda>c ns d. Inr d), kek_Decrypt = (\<lambda>c ct. Inr ct), kek_Close = None\<rparr>"

definition ex_registry_opts :: "KEKRegistryOption list" where
  "ex_registry_opts = [WithDefaultKey (Some (ex_key_of ''a'')), WithKeyForNamespace ''ns'' (Some (ex_key_of ''b'')),
                       WithDecryptOnlyKey (Some (ex_key_of ''old''))]"

definition ex_registry3 :: KEKRegistry where
  "ex_registry3 = \<lparr>defaultKey = Some (ex_key_of ''a''), keks = [(''ns'', ex_key_of ''b'')],
     keyIDs = [(''a'', ex_key_of ''a''), (''b'', ex_key_of ''b''), (''old'', ex_key_of ''old'')],
     decryptOnlyKeys = [ex_key_of ''old''], closed = False, closeErr = None\<rparr>"

lemma ex_registry3_new: "NewKEKRegistry ex_registry_opts = Inr ex_registry3"
  by (simp add: NewKEKRegistry_def ex_registry_opts_def ex_registry3_def WithDefaultKey_def emptyRegistry_def
      WithKeyForNamespace_def WithDecryptOnlyKey_def add_key_def ex_key_of_def)

definition ex_wrapped :: DEKMaterial where
  "ex_wrapped = \<lparr>Version = 1, KEKID = ''b'', EncryptedDEK = EncodeToString ''k''\<rparr>"

theorem decryptOnly_never_wraps_witness:
  "KEKID ex_wrapped \<noteq> ID (ex_key_of ''old'')"
proof -
  have "ex_key_of ''old'' \<in> set (decryptOnlyKeys ex_registry3)" by (simp add: ex_registry3_def)
  moreover have "registry_Encrypt ex_registry3 0 ''ns'' (Some \<lparr>dek_ptr = 0, dek_key = ''k''\<rparr>) = Inr ex_wrapped"
    by (simp add: ex_registry3_def registry_Encrypt_def ex_key_of_def materialVersion_def ex_wrapped_def)
  ultimately show ?thesis using decryptOnly_never_wraps [OF ex_registry3_new] by blast
qed

theorem registry_Close_once_witness:
  "registry_Close (ex_registry3\<lparr>closed := True\<rparr>) = (None, ex_registry3\<lparr>closed := True\<rparr>, [])"
proof -
  have "list_all registry_option ex_registry_opts"
    by (simp add: ex_registry_opts_def registry_option.intros)
  moreover have "registry_Close ex_registry3 = (None, ex_registry3\<lparr>closed := True\<rparr>, [''a'', ''b'', ''old''])"
    by (simp add: registry_Close_def ex_registry3_def ex_key_of_def)
  ultimately show ?thesis using registry_Close_once [OF _ ex_registry3_new] by blast
qed

end
