(* ===== verification/Vault.thy ===== *)
theory Vault
  imports Kek
begin

text \<open>
  \<open>pkg/crypto/vault.go\<close> and \<open>observer.go\<close>: the envelope-encryption vault. A \<open>Vault\<close> keeps one
  sliding DEK per namespace, wraps each DEK once through the key registry, rotates DEKs by the
  clock and caches unwrapped DEKs. This theory has the operations as they run without
  interference, each threading the vault and the world; the theory \<open>Vault_Concurrent\<close> has
  their interleavings.

  \<^item> The LRU cache is a third-party package: the fields \<open>lru_New\<close>, \<open>lru_Get\<close>, \<open>lru_Add\<close> and
    \<open>lru_Len\<close> of the environment, over a type \<open>'c\<close> of caches. \<open>lru_ok\<close> states what the vault relies
    on, with the contents of a cache given by \<open>lru_peek\<close>.
  \<^item> \<open>time.Time\<close> and \<open>time.Duration\<close> are \<^typ>\<open>int\<close> (nanoseconds). \<open>nowFn n\<close> is the \<open>n\<close>-th reading
    of the vault's clock.
  \<^item> The observer is an opaque receiver, \<open>None\<close> for the no-op one; what it is told is appended to
    the world's event log. Durations measured for telemetry are left out of the events.
  \<^item> A slot of \<open>v_keys\<close> stands for the \<open>*slidingDEK\<close> the map holds: slots are never removed or
    replaced, so a pointer to one is its namespace.
\<close>

section \<open>Data\<close>

definition BindingOff :: int where "BindingOff = 0"
definition BindingPermissive :: int where "BindingPermissive = 1"
definition BindingStrict :: int where "BindingStrict = 2"
definition DefaultCacheSize :: int where "DefaultCacheSize = 100"

definition ErrUnbound :: goerror where
  "ErrUnbound = ErrorString ''message is not bound to a namespace''"

definition ErrNamespaceMismatch :: goerror where
  "ErrNamespaceMismatch = ErrorString ''message is bound to a different namespace''"

datatype Operation = OpEncrypt | OpDecrypt
datatype RotationReason = RotationScheduled | RotationOnDemand | RotationInitial

text \<open>
  The closed set of events: a cache access (hit, size), a finished envelope operation
  (operation, namespace, error, whether AES ran, the error of AES), a replaced DEK.
\<close>

datatype Event =
    CacheEvent bool nat
  | EnvelopeEvent Operation string "goerror option" bool "goerror option"
  | RotationEvent string RotationReason

record vworld = world +
  events :: "(nat \<times> Event) list"

record 'c vault_env = env +
  time_Now :: "nat \<Rightarrow> int"
  lru_New :: "int \<Rightarrow> 'c result"
  lru_Get :: "'c \<Rightarrow> string \<Rightarrow> DEK option \<times> 'c"
  lru_Add :: "'c \<Rightarrow> string \<Rightarrow> DEK \<Rightarrow> 'c"
  lru_Len :: "'c \<Rightarrow> nat"

record KeyConfig =
  Duration :: int
  RenewBefore :: int

record Message =
  Ciphertext :: bytes
  KeyMaterial :: "DEKMaterial option"
  Bound :: bool
  Namespace :: string

record slidingDEK =
  sd_key :: DEK
  sd_material :: "DEKMaterial option"
  sd_exp :: int
  sd_dur :: int
  sd_before :: int

text \<open>\<open>cryptoStep\<close>: whether AES ran, and its error.\<close>

record cryptoStep =
  ran :: bool
  step_err :: "goerror option"

record 'c Vault =
  v_keys :: "slidingDEK gomap"
  v_registry :: KEKRegistry
  v_cache :: "'c option"
  v_defaultConfig :: "KeyConfig option"
  v_nowFn :: "nat \<Rightarrow> int"
  v_observer :: "nat option"
  v_binding :: int

record vaultOptions =
  o_config :: "KeyConfig gomap"
  o_defaultConfig :: "KeyConfig option"
  o_nowFn :: "nat \<Rightarrow> int"
  o_cacheSize :: int
  o_observer :: "nat option"
  o_binding :: int
  o_errs :: "goerror list"

type_synonym VaultOption = "vaultOptions \<Rightarrow> vaultOptions"

record openOptions =
  expect :: string
  hasExpect :: bool

fun Operation_String :: "Operation \<Rightarrow> string" where
  "Operation_String OpEncrypt = ''encrypt''"
| "Operation_String OpDecrypt = ''decrypt''"

fun RotationReason_String :: "RotationReason \<Rightarrow> string" where
  "RotationReason_String RotationScheduled = ''scheduled''"
| "RotationReason_String RotationOnDemand = ''on_demand''"
| "RotationReason_String RotationInitial = ''initial''"

section \<open>Options and construction\<close>

text \<open>\<open>KeyConfig.validate\<close>; \<open>None\<close> is a nil error.\<close>

definition KeyConfig_validate :: "KeyConfig \<Rightarrow> goerror option" where
  "KeyConfig_validate c =
     (if Duration c \<le> 0 then Some (ErrorString ''duration must be positive'')
      else if RenewBefore c < 0 \<or> RenewBefore c \<ge> Duration c
      then Some (ErrorString ''renew before must be in [0, duration)'')
      else None)"

definition WithDefaultKeyConfig :: "KeyConfig \<Rightarrow> VaultOption" where
  "WithDefaultKeyConfig cfg vo =
     (case KeyConfig_validate cfg of
        Some err \<Rightarrow> vo\<lparr>o_errs := o_errs vo @ [WrapError (''invalid default key config: '' @ Error err) [err]]\<rparr>
      | None \<Rightarrow> vo\<lparr>o_defaultConfig := Some cfg\<rparr>)"

definition WithKeyConfig :: "string \<Rightarrow> KeyConfig \<Rightarrow> VaultOption" where
  "WithKeyConfig ns cfg vo =
     (if map_of (o_config vo) ns \<noteq> None
      then vo\<lparr>o_errs := o_errs vo @ [ErrorString (''duplicate key config for '' @ ns)]\<rparr>
      else case KeyConfig_validate cfg of
        Some err \<Rightarrow> vo\<lparr>o_errs := o_errs vo @ [WrapError (''key config for '' @ ns @ '': '' @ Error err) [err]]\<rparr>
      | None \<Rightarrow> vo\<lparr>o_config := AList.update ns cfg (o_config vo)\<rparr>)"

definition WithNowFunc :: "(nat \<Rightarrow> int) option \<Rightarrow> VaultOption" where
  "WithNowFunc fn vo =
     (case fn of
        None \<Rightarrow> vo\<lparr>o_errs := o_errs vo @ [ErrorString ''now func must not be nil'']\<rparr>
      | Some f \<Rightarrow> vo\<lparr>o_nowFn := f\<rparr>)"

definition WithCacheSize :: "int \<Rightarrow> VaultOption" where
  "WithCacheSize n vo = vo\<lparr>o_cacheSize := max 0 n\<rparr>"

definition WithObserver :: "nat option \<Rightarrow> VaultOption" where
  "WithObserver ob vo = vo\<lparr>o_observer := ob\<rparr>"

definition WithBindingMode :: "int \<Rightarrow> VaultOption" where
  "WithBindingMode m vo =
     (if m < BindingOff \<or> m > BindingStrict
      then vo\<lparr>o_errs := o_errs vo @ [ErrorString ''unknown binding mode'']\<rparr>
      else vo\<lparr>o_binding := m\<rparr>)"

definition isExpired :: "slidingDEK \<Rightarrow> int \<Rightarrow> bool" where
  "isExpired d now = (sd_exp d - sd_before d < now)"

definition rotate_sd :: "slidingDEK \<Rightarrow> DEK \<Rightarrow> int \<Rightarrow> slidingDEK" where
  "rotate_sd d newKey now = d\<lparr>sd_key := newKey, sd_material := None, sd_exp := now + sd_dur d\<rparr>"

text \<open>A call of the vault's clock.\<close>

definition readClock :: "(nat \<Rightarrow> int) \<Rightarrow> 'w world_scheme \<Rightarrow> int \<times> 'w world_scheme" where
  "readClock now w = (now (ticks w), w\<lparr>ticks := Suc (ticks w)\<rparr>)"

text \<open>\<open>v.observer.Observe\<close>.\<close>

definition Observe :: "'c Vault \<Rightarrow> Event \<Rightarrow> vworld \<Rightarrow> vworld" where
  "Observe v ev w =
     (case v_observer v of None \<Rightarrow> w | Some ob \<Rightarrow> w\<lparr>events := events w @ [(ob, ev)]\<rparr>)"

text \<open>The loop of \<open>NewVault\<close> that gives every configured namespace its first DEK.\<close>

fun initKeys :: "'c vault_env \<Rightarrow> (nat \<Rightarrow> int) \<Rightarrow> KeyConfig gomap \<Rightarrow> slidingDEK gomap \<Rightarrow> vworld
    \<Rightarrow> slidingDEK gomap result \<times> vworld" where
  "initKeys e now [] keys w = (Inr keys, w)"
| "initKeys e now ((k, cfg) # cfgs) keys w =
     (case NewDEK e w of
        (Inl err, w) \<Rightarrow> (Inl err, w)
      | (Inr key, w) \<Rightarrow>
          (let sd = \<lparr>sd_key = key, sd_material = None, sd_exp = 0,
                     sd_dur = Duration cfg, sd_before = RenewBefore cfg\<rparr>;
               (t, w) = readClock now w
           in initKeys e now cfgs (AList.update k (rotate_sd sd key t) keys) w))"

definition defaultOptions :: "'c vault_env \<Rightarrow> vaultOptions" where
  "defaultOptions e = \<lparr>o_config = [], o_defaultConfig = None, o_nowFn = time_Now e,
                       o_cacheSize = DefaultCacheSize, o_observer = None,
                       o_binding = BindingOff, o_errs = []\<rparr>"

definition NewVault :: "'c vault_env \<Rightarrow> KEKRegistry option \<Rightarrow> VaultOption list \<Rightarrow> vworld
    \<Rightarrow> 'c Vault result \<times> vworld" where
  "NewVault e r opts w =
     (case r of
        None \<Rightarrow> (Inl (ErrorString ''registry must not be nil''), w)
      | Some r \<Rightarrow>
          (let vo = fold (\<lambda>opt vo. opt vo) opts (defaultOptions e)
           in if o_errs vo \<noteq> [] then (Inl (JoinError (o_errs vo)), w)
              else case (if o_cacheSize vo > 0
                         then (case lru_New e (o_cacheSize vo) of
                                 Inl err \<Rightarrow> Inl (WrapError (''failed to create DEK cache: '' @ Error err) [err])
                               | Inr c \<Rightarrow> Inr (Some c))
                         else Inr None) of
                Inl err \<Rightarrow> (Inl err, w)
              | Inr cache \<Rightarrow>
                  (case initKeys e (o_nowFn vo) (o_config vo) [] w of
                     (Inl err, w) \<Rightarrow> (Inl err, w)
                   | (Inr keys, w) \<Rightarrow>
                       (Inr \<lparr>v_keys = keys, v_registry = r, v_cache = cache,
                             v_defaultConfig = o_defaultConfig vo, v_nowFn = o_nowFn vo,
                             v_observer = o_observer vo, v_binding = o_binding vo\<rparr>, w))))"

section \<open>Key selection and rotation\<close>

text \<open>
  \<open>createDefaultKey\<close>: the slot for a namespace with no configuration of its own. It returns the
  slot and the rotation to report.
\<close>

definition createDefaultKey :: "'c vault_env \<Rightarrow> 'c Vault \<Rightarrow> KeyConfig \<Rightarrow> string \<Rightarrow> vworld
    \<Rightarrow> (slidingDEK \<times> Event option) result \<times> 'c Vault \<times> vworld" where
  "createDefaultKey e v cfg ns w =
     (case map_of (v_keys v) ns of
        Some key \<Rightarrow> (Inr (key, None), v, w)
      | None \<Rightarrow>
          (case NewDEK e w of
             (Inl err, w) \<Rightarrow>
               (Inl (WrapError (''failed to generate DEK for '' @ ns @ '': '' @ Error err) [err]), v, w)
           | (Inr dek, w) \<Rightarrow>
               (let (t, w) = readClock (v_nowFn v) w;
                    sd = rotate_sd \<lparr>sd_key = dek, sd_material = None, sd_exp = 0,
                                 sd_dur = Duration cfg, sd_before = RenewBefore cfg\<rparr> dek t
                in (Inr (sd, Some (RotationEvent ns RotationInitial)),
                    v\<lparr>v_keys := AList.update ns sd (v_keys v)\<rparr>, w))))"

text \<open>\<open>lookupKey\<close>, with the second expiry check that runs once the write lock is held.\<close>

definition lookupKey :: "'c vault_env \<Rightarrow> 'c Vault \<Rightarrow> string \<Rightarrow> vworld
    \<Rightarrow> (slidingDEK \<times> Event option) result \<times> 'c Vault \<times> vworld" where
  "lookupKey e v ns w =
     (case map_of (v_keys v) ns of
        None \<Rightarrow>
          (case v_defaultConfig v of
             None \<Rightarrow> (Inl (ErrorString (''key not found, ns: '' @ ns)), v, w)
           | Some cfg \<Rightarrow> createDefaultKey e v cfg ns w)
      | Some key \<Rightarrow>
          (let (t, w) = readClock (v_nowFn v) w
           in if \<not> isExpired key t then (Inr (key, None), v, w)
              else let (t, w) = readClock (v_nowFn v) w
                   in if \<not> isExpired key t then (Inr (key, None), v, w)
                      else case NewDEK e w of
                        (Inl err, w) \<Rightarrow>
                          (Inl (WrapError (''failed to generate DEK for '' @ ns @ '': '' @ Error err) [err]), v, w)
                      | (Inr k, w) \<Rightarrow>
                          (let (t, w) = readClock (v_nowFn v) w;
                               key = rotate_sd key k t
                           in (Inr (key, Some (RotationEvent ns RotationOnDemand)),
                               v\<lparr>v_keys := AList.update ns key (v_keys v)\<rparr>, w))))"

definition getOrRefreshKey :: "'c vault_env \<Rightarrow> 'c Vault \<Rightarrow> string \<Rightarrow> vworld
    \<Rightarrow> slidingDEK result \<times> 'c Vault \<times> vworld" where
  "getOrRefreshKey e v ns w =
     (case lookupKey e v ns w of
        (Inl err, v, w) \<Rightarrow> (Inl err, v, w)
      | (Inr (sd, None), v, w) \<Rightarrow> (Inr sd, v, w)
      | (Inr (sd, Some ev), v, w) \<Rightarrow> (Inr sd, v, Observe v ev w))"

section \<open>Seal\<close>

definition aad_prefix :: string where
  "aad_prefix = ''temporal-proxy/ns/v1'' @ [CHR 0x00]"

definition namespaceAAD :: "string \<Rightarrow> bytes" where
  "namespaceAAD ns = aad_prefix @ ns"

definition noStep :: cryptoStep where
  "noStep = \<lparr>ran = False, step_err = None\<rparr>"

text \<open>
  \<open>seal\<close>. The snapshot of the slot is the \<open>sd\<close> that \<open>getOrRefreshKey\<close> returns; the write back
  reads the slot again and touches it only when it still holds the same DEK.
\<close>

definition seal :: "'c vault_env \<Rightarrow> 'c Vault \<Rightarrow> ctx \<Rightarrow> string \<Rightarrow> string \<Rightarrow> bytes \<Rightarrow> vworld
    \<Rightarrow> Message result \<times> cryptoStep \<times> 'c Vault \<times> vworld" where
  "seal e v c ns label data w =
     (case getOrRefreshKey e v ns w of
        (Inl err, v, w) \<Rightarrow> (Inl err, noStep, v, w)
      | (Inr sd, v, w) \<Rightarrow>
          (let dek = sd_key sd;
               material = sd_material sd;
               bound = (v_binding v \<noteq> BindingOff);
               out = \<lparr>Ciphertext = [], KeyMaterial = None, Bound = bound,
                      Namespace = (if bound then label else [])\<rparr>;
               aad = (if bound then namespaceAAD label else [])
           in case DEK_Encrypt e dek data aad w of
                (Inl err, w) \<Rightarrow> (Inl err, \<lparr>ran = True, step_err = Some err\<rparr>, v, w)
              | (Inr ct, w) \<Rightarrow>
                  (let step = \<lparr>ran = True, step_err = None\<rparr>;
                       out = out\<lparr>Ciphertext := ct\<rparr>
                   in case material of
                        Some m \<Rightarrow> (Inr (out\<lparr>KeyMaterial := Some m\<rparr>), step, v, w)
                      | None \<Rightarrow>
                          (case registry_Encrypt (v_registry v) c ns (Some dek) of
                             Inl err \<Rightarrow> (Inl err, step, v, w)
                           | Inr m \<Rightarrow>
                               (case map_of (v_keys v) ns of
                                  None \<Rightarrow> (Inl nil_panic, step, v, w)
                                | Some cur \<Rightarrow>
                                    (if dek_ptr (sd_key cur) = dek_ptr dek
                                     then case sd_material cur of
                                       None \<Rightarrow> (Inr (out\<lparr>KeyMaterial := Some m\<rparr>), step,
                                                v\<lparr>v_keys := AList.update ns (cur\<lparr>sd_material := Some m\<rparr>) (v_keys v)\<rparr>, w)
                                     | Some m' \<Rightarrow> (Inr (out\<lparr>KeyMaterial := Some m'\<rparr>), step, v, w)
                                     else (Inr (out\<lparr>KeyMaterial := Some m\<rparr>), step, v, w)))))))"

text \<open>The error a result carries, \<open>None\<close> for nil.\<close>

definition err_of :: "'a result \<Rightarrow> goerror option" where
  "err_of r = (case r of Inl err \<Rightarrow> Some err | Inr _ \<Rightarrow> None)"

text \<open>\<open>Vault.Seal\<close>; the label is \<open>None\<close> when the call has no \<open>WithLabel\<close>.\<close>

definition Seal :: "'c vault_env \<Rightarrow> 'c Vault \<Rightarrow> ctx \<Rightarrow> string \<Rightarrow> bytes \<Rightarrow> string option \<Rightarrow> vworld
    \<Rightarrow> Message result \<times> 'c Vault \<times> vworld" where
  "Seal e v c ns data label w =
     (let lbl = (case label of None \<Rightarrow> ns | Some l \<Rightarrow> l);
          (msg, step, v, w) = seal e v c ns lbl data w
      in (msg, v, Observe v (EnvelopeEvent OpEncrypt ns (err_of msg) (ran step) (step_err step)) w))"

section \<open>Open\<close>

text \<open>The refusal of strict mode: why a message is refused before any key is touched.\<close>

definition refusal :: "'c Vault \<Rightarrow> Message \<Rightarrow> openOptions \<Rightarrow> goerror option" where
  "refusal v msg oo =
     (if v_binding v = BindingStrict
      then (if \<not> Bound msg then Some ErrUnbound
            else if hasExpect oo \<and> Namespace msg \<noteq> expect oo then Some ErrNamespaceMismatch
            else None)
      else None)"

text \<open>The cache lookup of \<open>open\<close>, with the event it reports.\<close>

definition cacheGet :: "'c vault_env \<Rightarrow> 'c Vault \<Rightarrow> string \<Rightarrow> vworld \<Rightarrow> DEK option \<times> 'c Vault \<times> vworld" where
  "cacheGet e v key w =
     (case v_cache v of
        None \<Rightarrow> (None, v, w)
      | Some c \<Rightarrow>
          (case lru_Get e c key of
             (hit, c) \<Rightarrow>
               (let v = v\<lparr>v_cache := Some c\<rparr>
                in (hit, v, Observe v (CacheEvent (hit \<noteq> None) (lru_Len e c)) w))))"

definition cacheAdd :: "'c vault_env \<Rightarrow> 'c Vault \<Rightarrow> string \<Rightarrow> DEK \<Rightarrow> 'c Vault" where
  "cacheAdd e v key dek =
     (case v_cache v of None \<Rightarrow> v | Some c \<Rightarrow> v\<lparr>v_cache := Some (lru_Add e c key dek)\<rparr>)"

text \<open>The part of \<open>open\<close> that finds the DEK: the cache, and on a miss the registry.\<close>

definition openDEK :: "'c vault_env \<Rightarrow> 'c Vault \<Rightarrow> ctx \<Rightarrow> DEKMaterial \<Rightarrow> vworld
    \<Rightarrow> DEK result \<times> 'c Vault \<times> vworld" where
  "openDEK e v c km w =
     (case cacheGet e v (EncryptedDEK km) w of
        (Some dek, v, w) \<Rightarrow> (Inr dek, v, w)
      | (None, v, w) \<Rightarrow>
          (case registry_Decrypt (v_registry v) c (Some km) w of
             (Inl err, w) \<Rightarrow> (Inl err, v, w)
           | (Inr dek, w) \<Rightarrow> (Inr dek, cacheAdd e v (EncryptedDEK km) dek, w)))"

text \<open>\<open>open\<close>; a nil message is \<open>None\<close>.\<close>

definition vault_open :: "'c vault_env \<Rightarrow> 'c Vault \<Rightarrow> ctx \<Rightarrow> Message option \<Rightarrow> openOptions \<Rightarrow> vworld
    \<Rightarrow> bytes result \<times> cryptoStep \<times> 'c Vault \<times> vworld" where
  "vault_open e v c msg oo w =
     (case msg of
        None \<Rightarrow> (Inl (ErrorString ''message and key material must not be nil''), noStep, v, w)
      | Some msg \<Rightarrow>
        (case KeyMaterial msg of
           None \<Rightarrow> (Inl (ErrorString ''message and key material must not be nil''), noStep, v, w)
         | Some km \<Rightarrow>
           (case refusal v msg oo of
              Some why \<Rightarrow>
                (if \<not> holds (v_registry v) (KEKID km)
                 then (Inl (WrapError (Error ErrUnknownKey @ '': '' @ KEKID km) [ErrUnknownKey]), noStep, v, w)
                 else (Inl why, noStep, v, w))
            | None \<Rightarrow>
              (case openDEK e v c km w of
                 (Inl err, v, w) \<Rightarrow> (Inl err, noStep, v, w)
               | (Inr dek, v, w) \<Rightarrow>
                   (let aad = (if Bound msg then namespaceAAD (Namespace msg) else []);
                        pt = DEK_Decrypt e dek (Ciphertext msg) aad
                    in (pt, \<lparr>ran = True, step_err = err_of pt\<rparr>, v, w))))))"

definition Open :: "'c vault_env \<Rightarrow> 'c Vault \<Rightarrow> ctx \<Rightarrow> Message option \<Rightarrow> string option \<Rightarrow> vworld
    \<Rightarrow> bytes result \<times> 'c Vault \<times> vworld" where
  "Open e v c msg expected w =
     (let oo = (case expected of None \<Rightarrow> \<lparr>expect = [], hasExpect = False\<rparr>
                               | Some ns \<Rightarrow> \<lparr>expect = ns, hasExpect = True\<rparr>);
          (pt, step, v, w) = vault_open e v c msg oo w
      in (pt, v, Observe v (EnvelopeEvent OpDecrypt [] (err_of pt) (ran step) (step_err step)) w))"

section \<open>Refresh\<close>

text \<open>The scan under the read lock: the namespaces whose DEK has expired.\<close>

fun expiredKeys :: "(nat \<Rightarrow> int) \<Rightarrow> slidingDEK gomap \<Rightarrow> vworld \<Rightarrow> string list \<times> vworld" where
  "expiredKeys now [] w = ([], w)"
| "expiredKeys now ((ns, sd) # keys) w =
     (let (t, w) = readClock now w;
          (nss, w') = expiredKeys now keys w
      in (if isExpired sd t then ns # nss else nss, w'))"

text \<open>A new DEK for each of them.\<close>

fun newDEKs :: "'c vault_env \<Rightarrow> string list \<Rightarrow> vworld \<Rightarrow> DEK gomap result \<times> vworld" where
  "newDEKs e [] w = (Inr [], w)"
| "newDEKs e (k # ks) w =
     (case NewDEK e w of
        (Inl err, w) \<Rightarrow> (Inl (WrapError (''failed to create DEK for '' @ k @ '': '' @ Error err) [err]), w)
      | (Inr dek, w) \<Rightarrow>
          (case newDEKs e ks w of
             (Inl err, w) \<Rightarrow> (Inl err, w)
           | (Inr ds, w) \<Rightarrow> (Inr ((k, dek) # ds), w)))"

text \<open>
  The locked region: rotate each key that is still expired, and collect what rotated. Slots are
  never removed, so the lookup of a scanned namespace always finds one.
\<close>

fun rotateKeys :: "(nat \<Rightarrow> int) \<Rightarrow> DEK gomap \<Rightarrow> slidingDEK gomap \<Rightarrow> vworld
    \<Rightarrow> string list \<times> slidingDEK gomap \<times> vworld" where
  "rotateKeys now [] keys w = ([], keys, w)"
| "rotateKeys now ((k, d) # updates) keys w =
     (case map_of keys k of
        None \<Rightarrow> rotateKeys now updates keys w
      | Some sd \<Rightarrow>
          (let (t, w) = readClock now w
           in if isExpired sd t
              then let (t', w) = readClock now w;
                       (rotated, keys, w) = rotateKeys now updates (AList.update k (rotate_sd sd d t') keys) w
                   in (k # rotated, keys, w)
              else rotateKeys now updates keys w))"

fun observeAll :: "'c Vault \<Rightarrow> Event list \<Rightarrow> vworld \<Rightarrow> vworld" where
  "observeAll v [] w = w"
| "observeAll v (ev # evs) w = observeAll v evs (Observe v ev w)"

definition Refresh :: "'c vault_env \<Rightarrow> 'c Vault \<Rightarrow> vworld \<Rightarrow> goerror option \<times> 'c Vault \<times> vworld" where
  "Refresh e v w =
     (let (expKeys, w) = expiredKeys (v_nowFn v) (v_keys v) w
      in case newDEKs e expKeys w of
           (Inl err, w) \<Rightarrow> (Some err, v, w)
         | (Inr updates, w) \<Rightarrow>
             (let (rotated, keys, w) = rotateKeys (v_nowFn v) updates (v_keys v) w;
                  v = v\<lparr>v_keys := keys\<rparr>
              in (None, v, observeAll v (map (\<lambda>ns. RotationEvent ns RotationScheduled) rotated) w)))"

end
