(* ===== verification/Transition.thy ===== *)
theory Transition
  imports Main
begin

text \<open>
  The interface between a step relation and what is proved of its runs. \<open>step_invariant\<close>: an
  invariant that every step keeps holds after any number of steps. \<open>reachable_invariant\<close> adds
  the states a run starts from. The vault, its concurrent version and the connection pool
  provide both.
\<close>

definition runs_from :: "('s \<Rightarrow> bool) \<Rightarrow> ('s \<Rightarrow> 's \<Rightarrow> bool) \<Rightarrow> 's \<Rightarrow> bool" where
  "runs_from start step s \<longleftrightarrow> (\<exists>s0. start s0 \<and> step\<^sup>*\<^sup>* s0 s)"

lemma runs_from_start: "start s \<Longrightarrow> runs_from start step s"
  by (auto simp: runs_from_def)

lemma runs_from_step: "runs_from start step s \<Longrightarrow> step s s' \<Longrightarrow> runs_from start step s'"
  by (auto simp: runs_from_def intro: rtranclp.rtrancl_into_rtrancl)

locale step_invariant =
  fixes step :: "'s \<Rightarrow> 's \<Rightarrow> bool" and I :: "'s \<Rightarrow> bool"
  assumes step_keeps: "I s \<Longrightarrow> step s s' \<Longrightarrow> I s'"
begin

lemma steps_keep: "step\<^sup>*\<^sup>* s s' \<Longrightarrow> I s \<Longrightarrow> I s'"
  by (induction rule: rtranclp_induct) (auto intro: step_keeps)

end

locale reachable_invariant = step_invariant +
  fixes start :: "'s \<Rightarrow> bool"
  assumes start_ok: "start s \<Longrightarrow> I s"
begin

lemma reachable_I: "runs_from start step s \<Longrightarrow> I s"
  using steps_keep start_ok by (auto simp: runs_from_def)

lemma reachable_step: "runs_from start step s \<Longrightarrow> step\<^sup>*\<^sup>* s s' \<Longrightarrow> I s'"
  using steps_keep reachable_I by blast

end

end
