(* ===== verification/Vault_Props.thy ===== *)
theory Vault_Props
  imports Vault Transition
begin

text \<open>
  The invariant of the vault, its preservation by every operation, and the properties of
  sealing, opening and rotation that follow. Hypotheses on code outside the repository are the
  named predicates \<open>aead_correct\<close>, \<open>aead_auth\<close>, \<open>rand_ok\<close>, \<open>lru_ok\<close>, \<open>registry_opens\<close> and
  \<open>registry_unambiguous\<close>.
\<close>

section \<open>What the vault relies on\<close>

text \<open>
  The cache package: \<open>peek\<close> gives the contents of a cache. A new cache is empty, \<open>Get\<close> returns
  what the contents hold and keeps them, and \<open>Add\<close> stores the entry, possibly evicting others.
\<close>

definition lru_ok :: "'c vault_env \<Rightarrow> ('c \<Rightarrow> string \<Rightarrow> DEK option) \<Rightarrow> bool" where
  "lru_ok e peek \<longleftrightarrow>
     (\<forall>n c. lru_New e n = Inr c \<longrightarrow> peek c = Map.empty)
     \<and> (\<forall>c k. fst (lru_Get e c k) = peek c k \<and> peek (snd (lru_Get e c k)) = peek c)
     \<and> (\<forall>c k d. peek (lru_Add e c k d) \<subseteq>\<^sub>m (peek c)(k \<mapsto> d))"

text \<open>
  The keys of a registry authenticate what they unwrap: no two of them, under any contexts,
  unwrap the same bytes to different keys.
\<close>

definition registry_unambiguous :: "KEKRegistry \<Rightarrow> bool" where
  "registry_unambiguous r \<longleftrightarrow>
     (\<forall>m m' c c' a b. EncryptedDEK m = EncryptedDEK m' \<longrightarrow> unwraps r c m a \<longrightarrow> unwraps r c' m' b \<longrightarrow> a = b)"

section \<open>The invariant\<close>

text \<open>
  A slot holds a 256-bit key and a valid schedule, and its material, when there is one, is what
  the registry wrapped that key to in some call.
\<close>

definition slot_ok :: "KEKRegistry \<Rightarrow> slidingDEK \<Rightarrow> bool" where
  "slot_ok r sd \<longleftrightarrow>
     length (dek_key (sd_key sd)) = keyBytes \<and> 0 \<le> sd_before sd \<and> sd_before sd < sd_dur sd
     \<and> (\<forall>m. sd_material sd = Some m \<longrightarrow> (\<exists>c ns. registry_Encrypt r c ns (Some (sd_key sd)) = Inr m))"

definition keys_ok :: "KEKRegistry \<Rightarrow> slidingDEK gomap \<Rightarrow> bool" where
  "keys_ok r keys \<longleftrightarrow>
     distinct (map fst keys) \<and> (\<forall>ns sd. map_of keys ns = Some sd \<longrightarrow> slot_ok r sd)"

definition cache_ok :: "('c \<Rightarrow> string \<Rightarrow> DEK option) \<Rightarrow> KEKRegistry \<Rightarrow> 'c \<Rightarrow> bool" where
  "cache_ok peek r cache \<longleftrightarrow>
     (\<forall>k d. peek cache k = Some d \<longrightarrow>
        (\<exists>m c. EncryptedDEK m = k \<and> unwraps r c m (dek_key d)))"

definition cfg_ok :: "KeyConfig \<Rightarrow> bool" where
  "cfg_ok cfg \<longleftrightarrow> 0 \<le> RenewBefore cfg \<and> RenewBefore cfg < Duration cfg"

definition vault_inv :: "('c \<Rightarrow> string \<Rightarrow> DEK option) \<Rightarrow> 'c Vault \<Rightarrow> bool" where
  "vault_inv peek v \<longleftrightarrow>
     registry_wf (v_registry v)
     \<and> keys_ok (v_registry v) (v_keys v)
     \<and> (\<forall>cfg. v_defaultConfig v = Some cfg \<longrightarrow> cfg_ok cfg)
     \<and> (\<forall>c. v_cache v = Some c \<longrightarrow> cache_ok peek (v_registry v) c)
     \<and> BindingOff \<le> v_binding v \<and> v_binding v \<le> BindingStrict"

text \<open>One call of an operation, whatever its arguments and outcome.\<close>

inductive vault_call :: "'c vault_env \<Rightarrow> 'c Vault \<times> vworld \<Rightarrow> 'c Vault \<times> vworld \<Rightarrow> bool"
  for e :: "'c vault_env" where
  call_seal: "Seal e v c ns data label w = (r, v', w') \<Longrightarrow> vault_call e (v, w) (v', w')"
| call_open: "Open e v c msg expected w = (r, v', w') \<Longrightarrow> vault_call e (v, w) (v', w')"
| call_refresh: "Refresh e v w = (r, v', w') \<Longrightarrow> vault_call e (v, w) (v', w')"

inductive_cases vault_callE: "vault_call e s s'"

text \<open>A vault as \<open>NewVault\<close> builds it over the registry \<open>r\<close> from options of this package.\<close>

inductive vault_option :: "VaultOption \<Rightarrow> bool" where
  "vault_option (WithDefaultKeyConfig cfg)"
| "vault_option (WithKeyConfig ns cfg)"
| "vault_option (WithNowFunc fn)"
| "vault_option (WithCacheSize n)"
| "vault_option (WithObserver ob)"
| "vault_option (WithBindingMode m)"

inductive vault_start :: "'c vault_env \<Rightarrow> KEKRegistry \<Rightarrow> 'c Vault \<times> vworld \<Rightarrow> bool"
  for e :: "'c vault_env" and r where
  "list_all vault_option opts \<Longrightarrow> NewVault e (Some r) opts w = (Inr v, w') \<Longrightarrow> vault_start e r (v, w')"

inductive_cases vault_startE: "vault_start e r s"

text \<open>A vault that has served any sequence of calls since it was built.\<close>

abbreviation vault_reachable :: "'c vault_env \<Rightarrow> KEKRegistry \<Rightarrow> 'c Vault \<times> vworld \<Rightarrow> bool" where
  "vault_reachable e r \<equiv> runs_from (vault_start e r) (vault_call e)"

section \<open>Lemmas\<close>

subsection \<open>What the operations leave alone\<close>

lemma Observe_more [simp]:
  "reads (Observe v ev w) = reads w" "ptrs (Observe v ev w) = ptrs w" "ticks (Observe v ev w) = ticks w"
  by (simp_all add: Observe_def split: option.splits)

lemma createDefaultKey_Inr:
  assumes "createDefaultKey e v cfg ns w = (Inr (sd, ev), v', w')"
  shows "map_of (v_keys v') ns = Some sd"
  using assms by (auto simp: createDefaultKey_def readClock_def Let_def split: option.splits prod.splits sum.splits)

lemma lookupKey_Inr:
  assumes "lookupKey e v ns w = (Inr (sd, ev), v', w')"
  shows "map_of (v_keys v') ns = Some sd"
  using assms
  by (auto simp: lookupKey_def readClock_def createDefaultKey_Inr Let_def
      split: option.splits prod.splits sum.splits if_splits)

lemma lookupKey_frame:
  assumes "lookupKey e v ns w = (r, v', w')"
  shows "v' = v\<lparr>v_keys := v_keys v'\<rparr>"
  using assms
  by (auto simp: lookupKey_def readClock_def createDefaultKey_def Let_def
      split: option.splits prod.splits sum.splits if_splits)

lemma getOrRefreshKey_Inr:
  assumes "getOrRefreshKey e v ns w = (Inr sd, v', w')"
  shows "map_of (v_keys v') ns = Some sd"
  using assms by (auto simp: getOrRefreshKey_def dest: lookupKey_Inr split: prod.splits sum.splits option.splits)

lemma getOrRefreshKey_frame:
  assumes "getOrRefreshKey e v ns w = (r, v', w')"
  shows "v' = v\<lparr>v_keys := v_keys v'\<rparr>"
  using assms
  by (auto simp: getOrRefreshKey_def dest: lookupKey_frame split: prod.splits sum.splits option.splits)


lemma only_keys:
  "v' = v\<lparr>v_keys := k\<rparr> \<Longrightarrow> v_registry v' = v_registry v \<and> v_binding v' = v_binding v
     \<and> v_cache v' = v_cache v \<and> v_observer v' = v_observer v \<and> v_nowFn v' = v_nowFn v
     \<and> v_defaultConfig v' = v_defaultConfig v"
  by simp

lemmas getOrRefreshKey_fields = getOrRefreshKey_frame [THEN only_keys]

subsection \<open>The invariant is kept\<close>

lemma vault_invD:
  assumes "vault_inv peek v"
  shows "registry_wf (v_registry v)" "distinct (map fst (v_keys v))"
    "map_of (v_keys v) ns = Some sd \<Longrightarrow> slot_ok (v_registry v) sd"
    "v_defaultConfig v = Some cfg \<Longrightarrow> cfg_ok cfg"
    "v_cache v = Some c \<Longrightarrow> cache_ok peek (v_registry v) c"
  using assms by (auto simp: vault_inv_def keys_ok_def)

lemma keys_ok_update: "keys_ok r keys \<Longrightarrow> slot_ok r sd \<Longrightarrow> keys_ok r (AList.update ns sd keys)"
  by (simp add: keys_ok_def)

lemma keys_okD: "keys_ok r keys \<Longrightarrow> map_of keys ns = Some sd \<Longrightarrow> slot_ok r sd"
  by (simp add: keys_ok_def)

lemma slot_ok_rotate:
  "length (dek_key d) = keyBytes \<Longrightarrow> 0 \<le> sd_before sd \<Longrightarrow> sd_before sd < sd_dur sd
   \<Longrightarrow> slot_ok r (rotate_sd sd d t)"
  by (simp add: slot_ok_def rotate_sd_def)

lemma slot_ok_rotate' [intro]:
  "slot_ok r sd \<Longrightarrow> length (dek_key d) = keyBytes \<Longrightarrow> slot_ok r (rotate_sd sd d t)"
  by (simp add: slot_ok_def rotate_sd_def)

text \<open>Replacing one slot by a good one keeps the invariant.\<close>

lemma vault_inv_update:
  "vault_inv peek v \<Longrightarrow> slot_ok (v_registry v) sd
   \<Longrightarrow> vault_inv peek (v\<lparr>v_keys := AList.update ns sd (v_keys v)\<rparr>)"
  by (simp add: vault_inv_def keys_ok_update)

lemma createDefaultKey_inv:
  assumes "rand_ok e" "vault_inv peek v" "cfg_ok cfg" "createDefaultKey e v cfg ns w = (r, v', w')"
  shows "vault_inv peek v'"
  using assms NewDEK_length [OF assms(1)]
  by (auto simp: createDefaultKey_def readClock_def Let_def cfg_ok_def
      split: option.splits prod.splits sum.splits intro!: vault_inv_update slot_ok_rotate)

lemma lookupKey_inv:
  assumes "rand_ok e" "vault_inv peek v" "lookupKey e v ns w = (r, v', w')"
  shows "vault_inv peek v'"
  using assms NewDEK_length [OF assms(1)] createDefaultKey_inv [OF assms(1,2)] vault_invD [OF assms(2)]
  by (auto simp: lookupKey_def readClock_def Let_def
      split: option.splits prod.splits sum.splits if_splits intro!: vault_inv_update slot_ok_rotate')

lemma getOrRefreshKey_inv:
  assumes "rand_ok e" "vault_inv peek v" "getOrRefreshKey e v ns w = (r, v', w')"
  shows "vault_inv peek v'"
  using assms lookupKey_inv [OF assms(1,2)]
  by (auto simp: getOrRefreshKey_def split: prod.splits sum.splits option.splits)


subsection \<open>Sealing\<close>

abbreviation seal_aad :: "'c Vault \<Rightarrow> string \<Rightarrow> bytes" where
  "seal_aad v label \<equiv> (if v_binding v \<noteq> BindingOff then namespaceAAD label else [])"

text \<open>
  A successful \<open>seal\<close>: the DEK of the slot encrypted the data, and the material is the slot's,
  or was wrapped now and stored.
\<close>

lemma seal_Inr:
  assumes "seal e v c ns label data w = (Inr msg, step, v', w')"
  obtains sd v1 w1 ct w2 m where
    "getOrRefreshKey e v ns w = (Inr sd, v1, w1)" "map_of (v_keys v1) ns = Some sd"
    "DEK_Encrypt e (sd_key sd) data (seal_aad v label) w1 = (Inr ct, w2)"
    "msg = \<lparr>Ciphertext = ct, KeyMaterial = Some m, Bound = (v_binding v \<noteq> BindingOff),
            Namespace = (if v_binding v \<noteq> BindingOff then label else [])\<rparr>"
    "sd_material sd = Some m \<and> v' = v1
     \<or> sd_material sd = None \<and> registry_Encrypt (v_registry v) c ns (Some (sd_key sd)) = Inr m
       \<and> v' = v1\<lparr>v_keys := AList.update ns (sd\<lparr>sd_material := Some m\<rparr>) (v_keys v1)\<rparr>"
    "step = \<lparr>ran = True, step_err = None\<rparr>"
proof -
  from assms obtain sd v1 w1 where key: "getOrRefreshKey e v ns w = (Inr sd, v1, w1)"
    by (auto simp: seal_def split: prod.splits sum.splits)
  then have slot: "map_of (v_keys v1) ns = Some sd" by (rule getOrRefreshKey_Inr)
  from key have frame: "v_binding v1 = v_binding v" "v_registry v1 = v_registry v"
    by (simp_all add: getOrRefreshKey_fields)
  from assms key slot frame show ?thesis
    by (auto simp: seal_def Let_def split: prod.splits sum.splits option.splits if_splits intro!: that)
qed


lemma seal_inv:
  assumes "rand_ok e" "vault_inv peek v" "seal e v c ns label data w = (r, step, v', w')"
  shows "vault_inv peek v'"
proof (cases r)
  case (Inl err)
  with assms(3) show ?thesis
    using getOrRefreshKey_inv [OF assms(1,2)]
    by (auto simp: seal_def Let_def split: prod.splits sum.splits option.splits if_splits)
next
  case (Inr msg)
  with assms(3) have "seal e v c ns label data w = (Inr msg, step, v', w')" by simp
  then obtain sd v1 w1 ct w2 m where key: "getOrRefreshKey e v ns w = (Inr sd, v1, w1)"
    and slot: "map_of (v_keys v1) ns = Some sd"
    and m: "sd_material sd = Some m \<and> v' = v1
     \<or> sd_material sd = None \<and> registry_Encrypt (v_registry v) c ns (Some (sd_key sd)) = Inr m
       \<and> v' = v1\<lparr>v_keys := AList.update ns (sd\<lparr>sd_material := Some m\<rparr>) (v_keys v1)\<rparr>"
    by (rule seal_Inr)
  from assms(1,2) key have inv1: "vault_inv peek v1" by (rule getOrRefreshKey_inv)
  then have sok: "slot_ok (v_registry v1) sd" using slot by (auto dest: vault_invD)
  from key have reg: "v_registry v1 = v_registry v" by (simp add: getOrRefreshKey_fields)
  from m show ?thesis
  proof
    assume "sd_material sd = Some m \<and> v' = v1"
    with inv1 show ?thesis by simp
  next
    assume new: "sd_material sd = None \<and> registry_Encrypt (v_registry v) c ns (Some (sd_key sd)) = Inr m
       \<and> v' = v1\<lparr>v_keys := AList.update ns (sd\<lparr>sd_material := Some m\<rparr>) (v_keys v1)\<rparr>"
    then have "slot_ok (v_registry v1) (sd\<lparr>sd_material := Some m\<rparr>)"
      using sok reg by (auto simp: slot_ok_def)
    with inv1 new show ?thesis by (simp add: vault_inv_update)
  qed
qed

text \<open>
  The material of a sealed message is what the registry wrapped the sealing key to: it is held,
  and unwraps to that key under every context in which the registry's keys answer.
\<close>

lemma seal_material:
  assumes "rand_ok e" "vault_inv peek v" "seal e v c ns label data w = (Inr msg, step, v', w')"
  obtains d and w1 w2 :: vworld and m c1 ns1 where "KeyMaterial msg = Some m"
    "registry_Encrypt (v_registry v) c1 ns1 (Some d) = Inr m"
    "\<And>c'. registry_opens (v_registry v) c' \<Longrightarrow> unwraps (v_registry v) c' m (dek_key d)"
    "DEK_Encrypt e d data (seal_aad v label) w1 = (Inr (Ciphertext msg), w2)"
    "length (dek_key d) = keyBytes"
proof -
  from assms(3) obtain sd v1 w1 ct w2 m where key: "getOrRefreshKey e v ns w = (Inr sd, v1, w1)"
    and slot: "map_of (v_keys v1) ns = Some sd"
    and enc: "DEK_Encrypt e (sd_key sd) data (seal_aad v label) w1 = (Inr ct, w2)"
    and msg: "msg = \<lparr>Ciphertext = ct, KeyMaterial = Some m, Bound = (v_binding v \<noteq> BindingOff),
            Namespace = (if v_binding v \<noteq> BindingOff then label else [])\<rparr>"
    and m: "sd_material sd = Some m \<and> v' = v1
     \<or> sd_material sd = None \<and> registry_Encrypt (v_registry v) c ns (Some (sd_key sd)) = Inr m
       \<and> v' = v1\<lparr>v_keys := AList.update ns (sd\<lparr>sd_material := Some m\<rparr>) (v_keys v1)\<rparr>"
    by (rule seal_Inr)
  from assms(1,2) key have "vault_inv peek v1" by (rule getOrRefreshKey_inv)
  then have sok: "slot_ok (v_registry v1) sd" using slot by (auto dest: vault_invD)
  from key have reg: "v_registry v1 = v_registry v" by (simp add: getOrRefreshKey_fields)
  have wf: "registry_wf (v_registry v)" using assms(2) by (rule vault_invD)
  from m sok reg obtain c1 ns1 where wrap: "registry_Encrypt (v_registry v) c1 ns1 (Some (sd_key sd)) = Inr m"
    by (auto simp: slot_ok_def)
  then have "registry_opens (v_registry v) c' \<Longrightarrow> unwraps (v_registry v) c' m (dek_key (sd_key sd))" for c'
    using wf by (blast intro: registry_Encrypt_unwraps)
  with enc msg sok wrap show ?thesis
    by (intro that [where d = "sd_key sd" and m = m and ?c1.0 = c1 and ?ns1.0 = ns1]) (simp_all add: slot_ok_def)
qed

subsection \<open>Opening\<close>

lemma lru_ok_Get: "lru_ok e peek \<Longrightarrow> lru_Get e c k = (hit, c') \<Longrightarrow> hit = peek c k \<and> peek c' = peek c"
  by (metis fst_conv lru_ok_def snd_conv)

lemma lru_ok_Add:
  assumes "lru_ok e peek" "peek (lru_Add e c k d) k' = Some d'"
  shows "peek c k' = Some d' \<or> k' = k \<and> d' = d"
proof -
  from assms(1) have "peek (lru_Add e c k d) \<subseteq>\<^sub>m (peek c)(k \<mapsto> d)" by (simp add: lru_ok_def)
  with assms(2) have "((peek c)(k \<mapsto> d)) k' = Some d'" by (metis domI map_le_def)
  then show ?thesis by (auto split: if_splits)
qed

lemma lru_ok_New: "lru_ok e peek \<Longrightarrow> lru_New e n = Inr c \<Longrightarrow> peek c = Map.empty"
  by (simp add: lru_ok_def)

lemma cacheGet_spec:
  assumes "lru_ok e peek" "vault_inv peek v" "cacheGet e v key w = (hit, v', w')"
  shows "vault_inv peek v' \<and> v' = v\<lparr>v_cache := v_cache v'\<rparr>
    \<and> (\<forall>d. hit = Some d \<longrightarrow> (\<exists>m c. EncryptedDEK m = key \<and> unwraps (v_registry v) c m (dek_key d)))"
  using assms
  by (auto simp: cacheGet_def vault_inv_def cache_ok_def Let_def
      split: option.splits prod.splits dest!: lru_ok_Get)

lemma cacheAdd_spec:
  assumes "lru_ok e peek" "vault_inv peek v" "unwraps (v_registry v) c m (dek_key d)"
  shows "vault_inv peek (cacheAdd e v (EncryptedDEK m) d)"
proof (cases "v_cache v")
  case None
  with assms show ?thesis by (simp add: cacheAdd_def)
next
  case (Some cache)
  with assms(2) have "cache_ok peek (v_registry v) cache" by (auto dest: vault_invD)
  then have "cache_ok peek (v_registry v) (lru_Add e cache (EncryptedDEK m) d)"
    unfolding cache_ok_def using lru_ok_Add [OF assms(1)] assms(3) by blast
  with assms(2) Some show ?thesis by (simp add: cacheAdd_def vault_inv_def)
qed


lemma cacheGet_registry: "cacheGet e v key w = (hit, v', w') \<Longrightarrow> v_registry v' = v_registry v"
  by (auto simp: cacheGet_def Let_def split: option.splits prod.splits)

lemma cacheAdd_fields [simp]:
  "v_registry (cacheAdd e v key d) = v_registry v" "v_binding (cacheAdd e v key d) = v_binding v"
  "v_observer (cacheAdd e v key d) = v_observer v" "v_keys (cacheAdd e v key d) = v_keys v"
  by (simp_all add: cacheAdd_def split: option.splits)

lemma openDEK_spec:
  assumes "lru_ok e peek" "vault_inv peek v" "openDEK e v c km w = (r, v', w')"
  shows "vault_inv peek v'"
    and "r = Inr d \<Longrightarrow> \<exists>m c'. EncryptedDEK m = EncryptedDEK km \<and> unwraps (v_registry v) c' m (dek_key d)"
proof -
  obtain hit v1 w1 where get: "cacheGet e v (EncryptedDEK km) w = (hit, v1, w1)"
    by (cases "cacheGet e v (EncryptedDEK km) w") auto
  note spec = cacheGet_spec [OF assms(1,2) get]
  from spec have inv1: "vault_inv peek v1" and reg: "v_registry v1 = v_registry v"
    using cacheGet_registry [OF get] by auto
  have dec: "registry_Decrypt (v_registry v) c (Some km) w1 = (Inr dek, w2) \<Longrightarrow>
      unwraps (v_registry v) c km (dek_key dek)" for dek w2
    by (rule registry_Decrypt_Inr)
  show "vault_inv peek v'"
    using assms(3) get inv1 reg dec cacheAdd_spec [OF assms(1) inv1]
    by (auto simp: openDEK_def split: option.splits prod.splits sum.splits)
  show "r = Inr d \<Longrightarrow> \<exists>m c'. EncryptedDEK m = EncryptedDEK km \<and> unwraps (v_registry v) c' m (dek_key d)"
    using assms(3) get spec reg dec
    by (auto simp: openDEK_def split: option.splits prod.splits sum.splits)
qed

lemma open_inv:
  assumes "lru_ok e peek" "vault_inv peek v" "vault_open e v c msg oo w = (r, step, v', w')"
  shows "vault_inv peek v'"
  using assms(2,3) openDEK_spec(1) [OF assms(1,2)]
  by (auto simp: vault_open_def Let_def split: option.splits prod.splits sum.splits if_splits)

subsection \<open>Refreshing\<close>

lemma newDEKs_length:
  assumes "rand_ok e" "newDEKs e ks w = (Inr ds, w')"
  shows "(k, d) \<in> set ds \<Longrightarrow> length (dek_key d) = keyBytes"
  using assms(2)
proof (induction ks arbitrary: ds w)
  case (Cons k' ks)
  then show ?case
    using NewDEK_length [OF assms(1)] by (auto split: prod.splits sum.splits)
qed simp

lemma rotateKeys_ok:
  assumes "rotateKeys now updates keys w = (rotated, keys', w')"
    and "\<And>k d. (k, d) \<in> set updates \<Longrightarrow> length (dek_key d) = keyBytes" "keys_ok r keys"
  shows "keys_ok r keys'"
  using assms
proof (induction updates arbitrary: rotated keys w)
  case (Cons u updates)
  obtain k d where u: "u = (k, d)" by (cases u)
  have len: "length (dek_key d) = keyBytes" using Cons.prems(2) u by auto
  have IH: "rotateKeys now updates keys1 w1 = (ro, keys', w') \<Longrightarrow> keys_ok r keys1 \<Longrightarrow> keys_ok r keys'"
    for keys1 w1 ro
    using Cons.prems(2) by (intro Cons.IH [of keys1 w1 ro]) auto
  have upd: "keys_ok r (AList.update k (rotate_sd sd d t) keys)" if "map_of keys k = Some sd" for sd t
    using Cons.prems(3) that len by (blast intro: keys_ok_update slot_ok_rotate' keys_okD)
  show ?case
    using Cons.prems(1,3) u IH upd
    by (auto simp: Let_def split: option.splits prod.splits if_splits)
qed simp

lemma Refresh_inv:
  assumes "rand_ok e" "vault_inv peek v" "Refresh e v w = (r, v', w')"
  shows "vault_inv peek v'"
proof -
  obtain ks w1 where scan: "expiredKeys (v_nowFn v) (v_keys v) w = (ks, w1)"
    by (cases "expiredKeys (v_nowFn v) (v_keys v) w")
  show ?thesis
  proof (cases "newDEKs e ks w1")
    case (Pair res w2)
    show ?thesis
    proof (cases res)
      case (Inl err)
      with scan Pair assms(2,3) show ?thesis by (simp add: Refresh_def)
    next
      case (Inr updates)
      obtain ro keys w3 where rot: "rotateKeys (v_nowFn v) updates (v_keys v) w2 = (ro, keys, w3)"
        by (cases "rotateKeys (v_nowFn v) updates (v_keys v) w2") auto
      have "keys_ok (v_registry v) keys"
        using rot newDEKs_length [OF assms(1)] Pair Inr assms(2)
        by (intro rotateKeys_ok [OF rot]) (auto simp: vault_inv_def)
      with scan Pair Inr rot assms(2,3) show ?thesis
        by (auto simp: Refresh_def Let_def vault_inv_def)
    qed
  qed
qed

subsection \<open>Construction\<close>

lemma initKeys_ok:
  assumes "rand_ok e" "initKeys e now cfgs keys w = (Inr keys', w')"
    and "\<And>k cfg. (k, cfg) \<in> set cfgs \<Longrightarrow> cfg_ok cfg" "keys_ok r keys"
  shows "keys_ok r keys'"
  using assms(2-4)
proof (induction cfgs arbitrary: keys w)
  case (Cons u cfgs)
  obtain k cfg where u: "u = (k, cfg)" by (cases u)
  have ok: "cfg_ok cfg" using Cons.prems(2) u by auto
  have IH: "initKeys e now cfgs keys1 w1 = (Inr keys', w') \<Longrightarrow> keys_ok r keys1 \<Longrightarrow> keys_ok r keys'" for keys1 w1
    using Cons.prems(2) by (intro Cons.IH [of keys1 w1]) auto
  from Cons.prems(1) u obtain d w1 where d: "NewDEK e w = (Inr d, w1)"
    by (auto split: prod.splits sum.splits)
  from ok NewDEK_length [OF assms(1) d]
  have "slot_ok r (rotate_sd \<lparr>sd_key = d, sd_material = None, sd_exp = 0,
           sd_dur = Duration cfg, sd_before = RenewBefore cfg\<rparr> d t)" for t
    by (intro slot_ok_rotate) (simp_all add: cfg_ok_def)
  with Cons.prems(1,3) u d IH keys_ok_update show ?case
    by (auto simp: Let_def readClock_def)
qed simp

text \<open>Options only add a valid configuration; the others leave an error behind.\<close>

definition vo_ok :: "vaultOptions \<Rightarrow> bool" where
  "vo_ok vo \<longleftrightarrow>
     (\<forall>k cfg. (k, cfg) \<in> set (o_config vo) \<longrightarrow> cfg_ok cfg)
     \<and> (\<forall>cfg. o_defaultConfig vo = Some cfg \<longrightarrow> cfg_ok cfg)
     \<and> BindingOff \<le> o_binding vo \<and> o_binding vo \<le> BindingStrict"

lemma validate_cfg_ok: "KeyConfig_validate cfg = None \<longleftrightarrow> cfg_ok cfg \<and> 0 < Duration cfg"
  by (auto simp: KeyConfig_validate_def cfg_ok_def)

lemma update_mem: "x \<in> set (AList.update k v al) \<Longrightarrow> x = (k, v) \<or> x \<in> set al"
  by (induction al) (auto split: if_splits)

lemma vault_option_ok: "vault_option opt \<Longrightarrow> vo_ok vo \<Longrightarrow> vo_ok (opt vo)"
  by (induction rule: vault_option.induct)
    (auto simp: vo_ok_def WithDefaultKeyConfig_def WithKeyConfig_def WithNowFunc_def WithCacheSize_def
      WithObserver_def WithBindingMode_def validate_cfg_ok split: option.splits dest: update_mem)

lemma fold_options_ok: "list_all vault_option opts \<Longrightarrow> vo_ok vo \<Longrightarrow> vo_ok (fold (\<lambda>opt vo. opt vo) opts vo)"
  by (induction opts arbitrary: vo) (auto intro: vault_option_ok)

lemma vo_ok_default: "vo_ok (defaultOptions e)"
  by (simp add: vo_ok_def defaultOptions_def BindingOff_def BindingStrict_def)

lemma NewVault_Inr:
  assumes "NewVault e (Some r) opts w = (Inr v, w')"
  defines "vo \<equiv> fold (\<lambda>opt vo. opt vo) opts (defaultOptions e)"
  shows "o_errs vo = []" "v_registry v = r" "v_defaultConfig v = o_defaultConfig vo" "v_binding v = o_binding vo"
    "v_observer v = o_observer vo" "v_nowFn v = o_nowFn vo"
    "initKeys e (o_nowFn vo) (o_config vo) [] w = (Inr (v_keys v), w')"
    "v_cache v = Some c \<Longrightarrow> lru_New e (o_cacheSize vo) = Inr c"
  using assms
  by (auto simp: NewVault_def Let_def split: if_splits prod.splits sum.splits)

lemma NewVault_inv:
  assumes "rand_ok e" "lru_ok e peek" "registry_wf r" "list_all vault_option opts"
    and new: "NewVault e (Some r) opts w = (Inr v, w')"
  shows "vault_inv peek v"
proof -
  have vo: "vo_ok (fold (\<lambda>opt vo. opt vo) opts (defaultOptions e))"
    using assms(4) vo_ok_default by (rule fold_options_ok)
  have "keys_ok r (v_keys v)"
    using vo by (intro initKeys_ok [OF assms(1) NewVault_Inr(7) [OF new]]) (auto simp: vo_ok_def keys_ok_def)
  moreover have "cache_ok peek r c" if "v_cache v = Some c" for c
    using lru_ok_New [OF assms(2) NewVault_Inr(8) [OF new that]] by (simp add: cache_ok_def)
  ultimately show ?thesis
    using vo assms(3) NewVault_Inr(2-4) [OF new] by (auto simp: vault_inv_def vo_ok_def)
qed

section \<open>Runs of the vault\<close>

lemma openDEK_frame: "openDEK e v c km w = (r, v', w') \<Longrightarrow> v' = v\<lparr>v_cache := v_cache v'\<rparr>"
  by (auto simp: openDEK_def cacheGet_def cacheAdd_def Let_def split: option.splits prod.splits sum.splits)

lemma vault_open_frame: "vault_open e v c msg oo w = (r, step, v', w') \<Longrightarrow> v' = v\<lparr>v_cache := v_cache v'\<rparr>"
  by (auto simp: vault_open_def Let_def dest: openDEK_frame split: option.splits prod.splits sum.splits if_splits)

lemma only_cache:
  "v' = v\<lparr>v_cache := k\<rparr> \<Longrightarrow> v_registry v' = v_registry v \<and> v_binding v' = v_binding v
     \<and> v_keys v' = v_keys v \<and> v_observer v' = v_observer v \<and> v_nowFn v' = v_nowFn v
     \<and> v_defaultConfig v' = v_defaultConfig v"
  by simp

lemma seal_fields:
  assumes "seal e v c ns label data w = (r, step, v', w')"
  shows "v_registry v' = v_registry v \<and> v_binding v' = v_binding v
     \<and> v_cache v' = v_cache v \<and> v_observer v' = v_observer v \<and> v_nowFn v' = v_nowFn v
     \<and> v_defaultConfig v' = v_defaultConfig v"
proof -
  obtain k v1 w1 where key: "getOrRefreshKey e v ns w = (k, v1, w1)" by (cases "getOrRefreshKey e v ns w")
  note getOrRefreshKey_fields [OF this]
  moreover from assms key have "v' = v1 \<or> (\<exists>k. v' = v1\<lparr>v_keys := k\<rparr>)"
    by (auto simp: seal_def Let_def split: prod.splits sum.splits option.splits if_splits)
  ultimately show ?thesis by (elim disjE exE) simp_all
qed

lemma Refresh_frame: "Refresh e v w = (r, v', w') \<Longrightarrow> v' = v\<lparr>v_keys := v_keys v'\<rparr>"
  by (auto simp: Refresh_def Let_def split: prod.splits sum.splits)

text \<open>
  What a run keeps: the invariant and the registry. The hypotheses on the environment are part of
  it, so that the relation \<open>vault_call e\<close> keeps it for every \<open>e\<close>.
\<close>

definition vault_run_inv ::
  "'c vault_env \<Rightarrow> ('c \<Rightarrow> string \<Rightarrow> DEK option) \<Rightarrow> KEKRegistry \<Rightarrow> 'c Vault \<times> vworld \<Rightarrow> bool" where
  "vault_run_inv e peek r s \<longleftrightarrow>
     rand_ok e \<and> lru_ok e peek \<and> vault_inv peek (fst s)
     \<and> v_registry (fst s) = r"

lemma Seal_keeps:
  assumes "Seal e v c ns data label w = (r, v', w')"
  shows "v_registry v' = v_registry v" "v_binding v' = v_binding v"
    "rand_ok e \<Longrightarrow> vault_inv peek v \<Longrightarrow> vault_inv peek v'"
proof -
  from assms obtain lbl r' st w1 where s: "seal e v c ns lbl data w = (r', st, v', w1)"
    by (auto simp: Seal_def Let_def split: prod.splits)
  from seal_fields [OF s] show "v_registry v' = v_registry v" "v_binding v' = v_binding v" by blast+
  show "rand_ok e \<Longrightarrow> vault_inv peek v \<Longrightarrow> vault_inv peek v'"
    using s by (blast intro: seal_inv)
qed

lemma Open_keeps:
  assumes "Open e v c msg expected w = (r, v', w')"
  shows "v_registry v' = v_registry v" "v_binding v' = v_binding v"
    "lru_ok e peek \<Longrightarrow> vault_inv peek v \<Longrightarrow> vault_inv peek v'"
proof -
  from assms obtain oo r' st w1 where o1: "vault_open e v c msg oo w = (r', st, v', w1)"
    by (auto simp: Open_def Let_def split: prod.splits)
  from only_cache [OF vault_open_frame [OF this]]
  show "v_registry v' = v_registry v" "v_binding v' = v_binding v" by blast+
  show "lru_ok e peek \<Longrightarrow> vault_inv peek v \<Longrightarrow> vault_inv peek v'"
    using o1 by (blast intro: open_inv)
qed

lemma Refresh_keeps:
  assumes "Refresh e v w = (r, v', w')"
  shows "v_registry v' = v_registry v" "v_binding v' = v_binding v"
  using only_keys [OF Refresh_frame [OF assms]] by blast+

lemma vault_call_keeps:
  assumes "vault_run_inv e peek r s" "vault_call e s s'"
  shows "vault_run_inv e peek r s'"
  using assms(2,1)
  by (cases rule: vault_call.cases)
    (auto simp: vault_run_inv_def Seal_keeps Open_keeps Refresh_keeps intro: Refresh_inv)

interpretation vault_runs: reachable_invariant "vault_call e" "vault_run_inv e peek r"
    "\<lambda>s. rand_ok e \<and> lru_ok e peek \<and> registry_wf r \<and> vault_start e r s"
  for e peek r
proof unfold_locales
  fix s s'
  show "vault_run_inv e peek r s \<Longrightarrow> vault_call e s s' \<Longrightarrow> vault_run_inv e peek r s'"
    by (rule vault_call_keeps)
next
  fix s
  assume "rand_ok e \<and> lru_ok e peek \<and> registry_wf r \<and> vault_start e r s"
  then show "vault_run_inv e peek r s"
    using NewVault_inv [of e peek r] NewVault_Inr(2) by (fastforce simp: vault_run_inv_def elim: vault_startE)
qed

lemma vault_reachable_inv:
  assumes "rand_ok e" "lru_ok e peek" "NewKEKRegistry kopts = Inr r" "vault_reachable e r (v, w)"
  shows "vault_inv peek v" "v_registry v = r"
proof -
  have "runs_from (\<lambda>s. rand_ok e \<and> lru_ok e peek \<and> registry_wf r \<and> vault_start e r s) (vault_call e) (v, w)"
    using assms NewKEKRegistry_wf [OF assms(3)] by (auto simp: runs_from_def)
  then have "vault_run_inv e peek r (v, w)" by (rule vault_runs.reachable_I)
  then show "vault_inv peek v" "v_registry v = r" by (simp_all add: vault_run_inv_def)
qed

end
