(* ===== verification/Vault_Theorems.thy ===== *)
theory Vault_Theorems
  imports Vault_Props
begin

text \<open>
  The properties of the vault (\<open>pkg/crypto/vault.go\<close>): round trip of sealing and opening across
  instances, restarts, rotations and cache states, binding of a message to its namespace, the
  refusals of strict mode, telemetry, and rotation by the clock. The last section has a concrete
  environment in which the hypotheses hold, for the witnesses.
\<close>

section \<open>Lemmas on one call\<close>

abbreviation label_of :: "string \<Rightarrow> string option \<Rightarrow> string" where
  "label_of ns label \<equiv> (case label of None \<Rightarrow> ns | Some l \<Rightarrow> l)"

lemma Seal_Inr:
  assumes "Seal e v c ns data label w = (Inr msg, v', w')"
  obtains step w1 where "seal e v c ns (label_of ns label) data w = (Inr msg, step, v', w1)"
  using assms by (auto simp: Seal_def Let_def split: prod.splits)

lemma seal_message:
  assumes "seal e v c ns label data w = (Inr msg, step, v', w')"
  shows "Bound msg = (v_binding v \<noteq> BindingOff)" "Namespace msg = (if v_binding v \<noteq> BindingOff then label else [])"
  using assms by (rule seal_Inr; simp)+

text \<open>A message whose DEK can be unwrapped is opened with it, from the cache or not.\<close>

lemma openDEK_unwraps:
  assumes "lru_ok e peek" "vault_inv peek v" "registry_unambiguous (v_registry v)"
    and "unwraps (v_registry v) c km key" "length key = keyBytes"
  obtains d v' w' where "openDEK e v c km w = (Inr d, v', w')" "dek_key d = key"
proof -
  obtain hit v1 w1 where get: "cacheGet e v (EncryptedDEK km) w = (hit, v1, w1)"
    by (cases "cacheGet e v (EncryptedDEK km) w") auto
  show ?thesis
  proof (cases hit)
    case None
    with get cacheGet_registry [OF get] unwraps_Decrypt [OF assms(4,5), of w1] that show ?thesis
      by (simp add: openDEK_def)
  next
    case (Some d)
    with cacheGet_spec [OF assms(1,2) get] obtain m c' where
      "EncryptedDEK m = EncryptedDEK km" "unwraps (v_registry v) c' m (dek_key d)" by blast
    with assms(3,4) have "dek_key d = key" unfolding registry_unambiguous_def by metis
    with get Some that show ?thesis by (simp add: openDEK_def)
  qed
qed

lemma openDEK_agrees:
  assumes "lru_ok e peek" "vault_inv peek v" "registry_unambiguous (v_registry v)"
    and "openDEK e v c km w = (Inr d, v', w')" "unwraps (v_registry v) c km key"
  shows "dek_key d = key"
proof -
  from openDEK_spec(2) [OF assms(1,2,4) refl] obtain m c' where
    "EncryptedDEK m = EncryptedDEK km" "unwraps (v_registry v) c' m (dek_key d)" by blast
  with assms(3,5) show ?thesis unfolding registry_unambiguous_def by metis
qed

abbreviation open_opts :: "string option \<Rightarrow> openOptions" where
  "open_opts expected \<equiv> (case expected of None \<Rightarrow> \<lparr>expect = [], hasExpect = False\<rparr>
                               | Some ns \<Rightarrow> \<lparr>expect = ns, hasExpect = True\<rparr>)"

lemma Open_fst: "fst (Open e v c msg expected w) = fst (vault_open e v c msg (open_opts expected) w)"
  by (simp add: Open_def Let_def split: prod.splits)

lemma vault_open_plain:
  assumes "KeyMaterial msg = Some km" "refusal v msg oo = None" "openDEK e v c km w = (Inr d, v', w')"
  shows "fst (vault_open e v c (Some msg) oo w) =
    DEK_Decrypt e d (Ciphertext msg) (if Bound msg then namespaceAAD (Namespace msg) else [])"
  using assms by (simp add: vault_open_def Let_def)

lemma vault_open_fails:
  assumes "KeyMaterial msg = Some km" "openDEK e v c km w = (res, v', w')"
    and "\<And>d. res = Inr d \<Longrightarrow>
      \<exists>err. DEK_Decrypt e d (Ciphertext msg) (if Bound msg then namespaceAAD (Namespace msg) else []) = Inl err"
  shows "\<exists>err. fst (vault_open e v c (Some msg) oo w) = Inl err"
proof (cases "refusal v msg oo")
  case None
  with assms show ?thesis by (cases res) (simp_all add: vault_open_def Let_def)
next
  case (Some why)
  with assms(1) show ?thesis by (simp add: vault_open_def)
qed

lemma namespaceAAD_inj: "namespaceAAD a = namespaceAAD b \<longleftrightarrow> a = b"
  by (simp add: namespaceAAD_def)

lemma namespaceAAD_nonempty [simp]: "namespaceAAD a \<noteq> []" "[] \<noteq> namespaceAAD a"
  by (simp_all add: namespaceAAD_def aad_prefix_def)

section \<open>Round trip\<close>

text \<open>
  Opening gives the plaintext back also when the message travelled in another form, as long as it
  kept the ciphertext, the binding, the key ID and the wrapped key.
\<close>

definition carries :: "Message \<Rightarrow> Message \<Rightarrow> bool" where
  "carries msg' msg \<longleftrightarrow>
     Ciphertext msg' = Ciphertext msg \<and> Bound msg' = Bound msg \<and> (Bound msg \<longrightarrow> Namespace msg' = Namespace msg)
     \<and> map_option (\<lambda>km. (KEKID km, EncryptedDEK km)) (KeyMaterial msg')
       = map_option (\<lambda>km. (KEKID km, EncryptedDEK km)) (KeyMaterial msg)"

lemma carries_refl [simp]: "carries msg msg"
  by (simp add: carries_def)

lemma open_made:
  assumes "aead_correct e" "rand_ok e" "lru_ok e peek" "vault_inv peek v" "registry_unambiguous (v_registry v)"
    and km: "KeyMaterial msg = Some m" "unwraps (v_registry v) c m (dek_key d)" "length (dek_key d) = keyBytes"
    and enc: "DEK_Encrypt e d data (if Bound msg then namespaceAAD (Namespace msg) else []) (wa :: vworld)
        = (Inr (Ciphertext msg), wb)"
    and "carries msg' msg" "refusal v msg' oo = None"
  shows "fst (vault_open e v c (Some msg') oo w) = Inr data"
proof -
  from km assms(10) obtain m' where m': "KeyMaterial msg' = Some m'" "unwraps (v_registry v) c m' (dek_key d)"
    by (auto simp: carries_def unwraps_def)
  obtain d' v3 w3 where "openDEK e v c m' w = (Inr d', v3, w3)" "dek_key d' = dek_key d"
    using openDEK_unwraps [OF assms(3,4,5) m'(2) km(3)] by metis
  then show ?thesis
    using DEK_Decrypt_Encrypt [OF assms(1,2) enc] vault_open_plain [OF m'(1) assms(11)] assms(10)
    by (cases "Bound msg") (simp_all add: carries_def)
qed

lemma seal_open_roundtrip:
  assumes "aead_correct e" "rand_ok e" "lru_ok e peek" "vault_inv peek v" "vault_inv peek v2"
    and reg: "v_registry v2 = v_registry v"
    and "registry_opens (v_registry v) c'" "registry_unambiguous (v_registry v)"
    and seal: "seal e v c ns label data w = (Inr msg, step, v', w')"
    and "carries msg' msg" "refusal v2 msg' oo = None"
  shows "fst (vault_open e v2 c' (Some msg') oo w2) = Inr data"
proof -
  from seal_material [OF assms(2,4) seal] obtain d and wa wb :: vworld and m where
    m: "KeyMaterial msg = Some m" "unwraps (v_registry v) c' m (dek_key d)"
    and enc: "DEK_Encrypt e d data (seal_aad v label) wa = (Inr (Ciphertext msg), wb)"
    and len: "length (dek_key d) = keyBytes"
    using assms(7) by metis
  from enc have "DEK_Encrypt e d data (if Bound msg then namespaceAAD (Namespace msg) else []) wa
      = (Inr (Ciphertext msg), wb)"
    using seal_message [OF seal] by (simp split: if_splits)
  with assms(1-3,5,8,10,11) m len reg show ?thesis by (intro open_made) simp_all
qed

text \<open>
  C1. Sealing and opening round-trip. A message sealed by a vault that has been through any
  sequence of calls is opened to its plaintext by any vault built over the same registry, also
  one built later (a restart) or in another process, whatever calls that one has served: its
  cache may hold the DEK or not, the DEK may have been rotated. In strict mode the sealing vault
  must bind its messages and the expected namespace, if any, must be the label sealed under.
\<close>

theorem Seal_Open_roundtrip:
  assumes env: "aead_correct e" "rand_ok e" "lru_ok e peek"
    and reg: "NewKEKRegistry kopts = Inr r" "registry_opens r c'" "registry_unambiguous r"
    and vaults: "vault_reachable e r (v, w)" "vault_reachable e r (v2, w2)"
    and seal: "Seal e v c ns data label w = (Inr msg, v', w')"
    and strict: "v_binding v2 = BindingStrict \<Longrightarrow>
        v_binding v \<noteq> BindingOff \<and> (expected = None \<or> expected = Some (case label of None \<Rightarrow> ns | Some l \<Rightarrow> l))"
  shows "fst (Open e v2 c' (Some msg) expected w2) = Inr data"
proof -
  note inv = vault_reachable_inv [OF env(2,3) reg(1) vaults(1)] vault_reachable_inv [OF env(2,3) reg(1) vaults(2)]
  from seal obtain step wx where s: "seal e v c ns (label_of ns label) data w = (Inr msg, step, v', wx)"
    by (rule Seal_Inr)
  from strict have "refusal v2 msg (open_opts expected) = None"
    using seal_message [OF s] by (auto simp: refusal_def split: option.splits)
  then show ?thesis
    using seal_open_roundtrip [OF env inv(1,3) _ _ _ s carries_refl] inv reg by (simp add: Open_fst)
qed

text \<open>
  C17. A bound message cannot be moved to another namespace. If the namespace of a sealed message,
  or the flag that says it is bound, is changed so that it no longer names what was sealed,
  every vault over the same registry, in every mode, answers \<open>Open\<close> with an error.
\<close>

theorem Seal_rebind_rejected:
  assumes env: "aead_auth e" "rand_ok e" "lru_ok e peek"
    and reg: "NewKEKRegistry kopts = Inr r" "registry_opens r c'" "registry_unambiguous r"
    and vaults: "vault_reachable e r (v, w)" "vault_reachable e r (v2, w2)"
    and seal: "Seal e v c ns data label w = (Inr msg, v', w')"
    and moved: "(if b then Some n else None) \<noteq> (if Bound msg then Some (Namespace msg) else None)"
  shows "\<exists>err. fst (Open e v2 c' (Some (msg\<lparr>Bound := b, Namespace := n\<rparr>)) expected w2) = Inl err"
proof -
  let ?msg = "msg\<lparr>Bound := b, Namespace := n\<rparr>"
  note inv = vault_reachable_inv [OF env(2,3) reg(1) vaults(1)] vault_reachable_inv [OF env(2,3) reg(1) vaults(2)]
  from seal obtain step wx where s: "seal e v c ns (label_of ns label) data w = (Inr msg, step, v', wx)"
    by (rule Seal_Inr)
  from seal_material [OF env(2) inv(1) s] inv reg(2) obtain d and wa wb :: vworld and m where
    m: "KeyMaterial msg = Some m" "unwraps r c' m (dek_key d)"
    and enc: "DEK_Encrypt e d data (seal_aad v (label_of ns label)) wa = (Inr (Ciphertext msg), wb)"
    by metis
  obtain res v3 w3 where od: "openDEK e v2 c' m w2 = (res, v3, w3)" by (cases "openDEK e v2 c' m w2")
  have "\<exists>err. DEK_Decrypt e d' (Ciphertext msg) (if b then namespaceAAD n else []) = Inl err"
    if "res = Inr d'" for d'
  proof -
    from od that have dk: "dek_key d' = dek_key d"
      using openDEK_agrees [OF env(3) inv(3)] inv(4) reg(3) m(2) by simp
    have "(if b then namespaceAAD n else []) \<noteq> seal_aad v (label_of ns label)"
      using moved seal_message [OF s] by (auto simp: namespaceAAD_inj split: if_splits)
    from DEK_Decrypt_wrong_aad [OF env(1,2) enc dk this] show ?thesis by blast
  qed
  with m(1) show ?thesis unfolding Open_fst
    by (intro vault_open_fails [of _ m, OF _ od]) (simp_all cong: if_cong del: if_split)
qed

text \<open>
  Strict mode refuses before it works. A message that is unbound, or bound to another
  namespace than the caller expects, is refused with \<open>ErrUnbound\<close> or \<open>ErrNamespaceMismatch\<close>,
  or with \<open>ErrUnknownKey\<close> when its KEK is not held, whatever the KEKs, the context and the cache
  would answer; the vault and the cache are unchanged and the one event says AES did not run.
\<close>

theorem Open_strict_refusal:
  assumes "v_binding v = BindingStrict" "KeyMaterial msg = Some km"
    and "\<not> Bound msg \<or> (\<exists>n. expected = Some n \<and> Namespace msg \<noteq> n)"
  defines "err \<equiv> if \<not> holds (v_registry v) (KEKID km)
      then WrapError (Error ErrUnknownKey @ '': '' @ KEKID km) [ErrUnknownKey]
      else if \<not> Bound msg then ErrUnbound else ErrNamespaceMismatch"
  shows "Open e v c (Some msg) expected w =
    (Inl err, v, Observe v (EnvelopeEvent OpDecrypt [] (Some err) False None) w)"
  using assms(1-3)
  by (auto simp: err_def Open_def vault_open_def refusal_def noStep_def err_of_def)

section \<open>Telemetry\<close>

lemma Observe_events:
  "v_observer v = Some ob \<Longrightarrow> events (Observe v ev w) = events w @ [(ob, ev)]"
  by (simp add: Observe_def)

lemma NewDEK_events: "NewDEK e w = (r, w') \<Longrightarrow> events w' = events w"
  by (auto simp: NewDEK_def dekFromKey_def split: sum.splits if_splits)

lemma lookupKey_events:
  assumes "lookupKey e v ns w = (r, v', w')"
  shows "events w' = events w" "r = Inr (sd, Some ev) \<Longrightarrow> \<exists>why. ev = RotationEvent ns why"
  using assms
  by (auto simp: lookupKey_def createDefaultKey_def readClock_def Let_def dest: NewDEK_events
      split: option.splits prod.splits sum.splits if_splits)

lemma getOrRefreshKey_events:
  assumes "getOrRefreshKey e v ns w = (r, v', w')" "v_observer v = Some ob"
  shows "events w' = events w \<or> (\<exists>why. events w' = events w @ [(ob, RotationEvent ns why)])"
proof -
  obtain r1 v1 w1 where l: "lookupKey e v ns w = (r1, v1, w1)" by (cases "lookupKey e v ns w")
  from only_keys [OF lookupKey_frame [OF l]] assms(2) have "v_observer v1 = Some ob" by simp
  with l assms(1) show ?thesis
    using lookupKey_events [OF l]
    by (auto simp: getOrRefreshKey_def Observe_events split: sum.splits option.splits prod.splits)
qed

lemma DEK_Encrypt_events: "DEK_Encrypt e d pt aad w = (r, w') \<Longrightarrow> events w' = events w"
  by (auto simp: DEK_Encrypt_def split: sum.splits)

lemma seal_events:
  assumes "seal e v c ns label data w = (r, step, v', w')" "v_observer v = Some ob"
  shows "events w' = events w \<or> (\<exists>why. events w' = events w @ [(ob, RotationEvent ns why)])"
    "step_err step = Some x \<Longrightarrow> ran step \<and> r = Inl x" "r = Inr msg \<Longrightarrow> ran step"
proof -
  obtain k v1 w1 where key: "getOrRefreshKey e v ns w = (k, v1, w1)" by (cases "getOrRefreshKey e v ns w")
  have "events w' = events w1"
    using assms(1) key
    by (auto simp: seal_def Let_def dest: DEK_Encrypt_events
        split: prod.splits sum.splits option.splits if_splits)
  with getOrRefreshKey_events [OF key assms(2)]
  show "events w' = events w \<or> (\<exists>why. events w' = events w @ [(ob, RotationEvent ns why)])" by auto
  show "step_err step = Some x \<Longrightarrow> ran step \<and> r = Inl x" "r = Inr msg \<Longrightarrow> ran step"
    using assms(1) key
    by (auto simp: seal_def noStep_def Let_def split: prod.splits sum.splits option.splits if_splits)
qed

text \<open>
  Every \<open>Seal\<close> reports exactly one envelope event, last, on every path including failures:
  it names the namespace, carries the error of the call, and an AES error is the call's error.
  The only other event a \<open>Seal\<close> can report is one rotation, before it.
\<close>

theorem Seal_reports_once:
  assumes "Seal e v c ns data label w = (r, v', w')" "v_observer v = Some ob"
  shows "\<exists>rot did cerr. events w' = events w @ rot @ [(ob, EnvelopeEvent OpEncrypt ns (err_of r) did cerr)]
    \<and> (rot = [] \<or> (\<exists>why. rot = [(ob, RotationEvent ns why)]))
    \<and> (cerr \<noteq> None \<longrightarrow> did \<and> err_of r = cerr) \<and> (err_of r = None \<longrightarrow> did)"
proof -
  from assms(1) obtain step w1 where s: "seal e v c ns (label_of ns label) data w = (r, step, v', w1)"
    and w': "w' = Observe v' (EnvelopeEvent OpEncrypt ns (err_of r) (ran step) (step_err step)) w1"
    by (auto simp: Seal_def Let_def split: prod.splits)
  from seal_fields [OF s] assms(2) have ob: "v_observer v' = Some ob" by simp
  have "step_err step \<noteq> None \<longrightarrow> ran step \<and> err_of r = step_err step"
    using seal_events(2) [OF s assms(2)] by (auto simp: err_of_def)
  moreover have "err_of r = None \<longrightarrow> ran step"
    using seal_events(3) [OF s assms(2)] by (auto simp: err_of_def split: sum.splits)
  ultimately show ?thesis
    using seal_events(1) [OF s assms(2)] by (auto simp: w' Observe_events [OF ob])
qed

lemma registry_Decrypt_events: "registry_Decrypt r c m w = (x, w') \<Longrightarrow> events w' = events w"
  by (auto simp: registry_Decrypt_def dekFromKey_def split: option.splits sum.splits if_splits)

lemma cacheGet_events:
  assumes "cacheGet e v key w = (hit, v', w')" "v_observer v = Some ob"
  shows "events w' = events w @ (if v_cache v = None then [] else [(ob, CacheEvent (hit \<noteq> None) (lru_Len e (the (v_cache v'))))])"
  using assms by (auto simp: cacheGet_def Let_def Observe_def split: option.splits prod.splits)

lemma openDEK_events:
  assumes "openDEK e v c km w = (r, v', w')" "v_observer v = Some ob"
  shows "\<exists>ces. events w' = events w @ ces \<and> (ces = [] \<or> (\<exists>hit n. ces = [(ob, CacheEvent hit n)]))"
proof -
  obtain hit v1 w1 where get: "cacheGet e v (EncryptedDEK km) w = (hit, v1, w1)"
    by (cases "cacheGet e v (EncryptedDEK km) w") auto
  have "events w' = events w1"
    using assms(1) get by (auto simp: openDEK_def dest: registry_Decrypt_events split: option.splits prod.splits sum.splits)
  with cacheGet_events [OF get assms(2)] show ?thesis by auto
qed

text \<open>
  Every \<open>Open\<close> reports exactly one envelope event, last and with no namespace, on every path
  including failures; the only other event it can report is one cache access, before it.
\<close>

theorem Open_reports_once:
  assumes "Open e v c msg expected w = (r, v', w')" "v_observer v = Some ob"
  shows "\<exists>ces did cerr. events w' = events w @ ces @ [(ob, EnvelopeEvent OpDecrypt [] (err_of r) did cerr)]
    \<and> (ces = [] \<or> (\<exists>hit n. ces = [(ob, CacheEvent hit n)]))
    \<and> (cerr \<noteq> None \<longrightarrow> did \<and> err_of r = cerr) \<and> (err_of r = None \<longrightarrow> did)"
proof -
  from assms(1) obtain step w1 where o1: "vault_open e v c msg (open_opts expected) w = (r, step, v', w1)"
    and w': "w' = Observe v' (EnvelopeEvent OpDecrypt [] (err_of r) (ran step) (step_err step)) w1"
    by (auto simp: Open_def Let_def split: prod.splits)
  from only_cache [OF vault_open_frame [OF o1]] assms(2) have ob: "v_observer v' = Some ob" by simp
  have "\<exists>ces. events w1 = events w @ ces \<and> (ces = [] \<or> (\<exists>hit n. ces = [(ob, CacheEvent hit n)]))"
    using o1 openDEK_events [OF _ assms(2)]
    by (fastforce simp: vault_open_def Let_def split: option.splits prod.splits sum.splits if_splits)
  moreover have "(step_err step \<noteq> None \<longrightarrow> ran step \<and> err_of r = step_err step) \<and> (err_of r = None \<longrightarrow> ran step)"
    using o1 by (auto simp: vault_open_def noStep_def err_of_def Let_def split: option.splits prod.splits sum.splits if_splits)
  ultimately show ?thesis by (auto simp: w' Observe_events [OF ob])
qed

section \<open>Which DEK seals\<close>

lemma readClock_ticks [simp]: "readClock now w = (t, w') \<longleftrightarrow> t = now (ticks w) \<and> w' = w\<lparr>ticks := Suc (ticks w)\<rparr>"
  by (auto simp: readClock_def)

lemma rotate_current: "sd_before sd < sd_dur sd \<Longrightarrow> \<not> isExpired (rotate_sd sd d t) t"
  by (simp add: isExpired_def rotate_sd_def)

lemma isExpired_later:
  fixes now :: "nat \<Rightarrow> int"
  assumes "mono now" "isExpired sd (now i)" "i < k" "k \<le> j"
  shows "isExpired sd (now j)"
  using monoD [OF assms(1), of i j] assms(2-4) by (simp add: isExpired_def)

lemma isExpired_material [simp]: "isExpired (sd\<lparr>sd_material := m\<rparr>) t = isExpired sd t"
  by (simp add: isExpired_def)

lemma lookupKey_current:
  assumes "vault_inv peek v" "lookupKey e v ns w = (Inr (sd, ev), v', w')"
  shows "\<exists>i. ticks w \<le> i \<and> i < ticks w' \<and> \<not> isExpired sd (v_nowFn v i)"
proof (cases "map_of (v_keys v) ns")
  case None
  then obtain cfg d w1 where cfg: "v_defaultConfig v = Some cfg" "NewDEK e w = (Inr d, w1)"
    and w': "w' = w1\<lparr>ticks := Suc (ticks w1)\<rparr>" "sd = rotate_sd \<lparr>sd_key = d, sd_material = None, sd_exp = 0,
                                 sd_dur = Duration cfg, sd_before = RenewBefore cfg\<rparr> d (v_nowFn v (ticks w1))"
    using assms(2)
    by (auto simp: lookupKey_def createDefaultKey_def readClock_def Let_def split: option.splits prod.splits sum.splits)
  have "cfg_ok cfg" using assms(1) cfg(1) by (auto dest: vault_invD)
  with w' NewDEK_ticks [OF cfg(2)] show ?thesis
    by (intro exI [of _ "ticks w"]) (simp add: rotate_current cfg_ok_def)
next
  case (Some k)
  then have ok: "sd_before k < sd_dur k" using vault_invD(3) [OF assms(1)] by (auto simp: slot_ok_def)
  have "(\<not> isExpired sd (v_nowFn v (ticks w)) \<and> ticks w < ticks w')
      \<or> (\<not> isExpired sd (v_nowFn v (Suc (ticks w))) \<and> Suc (ticks w) < ticks w')
      \<or> (\<not> isExpired sd (v_nowFn v (Suc (Suc (ticks w)))) \<and> Suc (Suc (ticks w)) < ticks w')"
    using assms(2) Some rotate_current [OF ok]
    by (auto simp: lookupKey_def readClock_def Let_def dest!: NewDEK_ticks
        split: option.splits prod.splits sum.splits if_splits)
  then show ?thesis by (meson le_SucI le_refl)
qed

lemma getOrRefreshKey_current:
  assumes "vault_inv peek v" "getOrRefreshKey e v ns w = (Inr sd, v', w')"
  shows "\<exists>i. ticks w \<le> i \<and> i < ticks w' \<and> \<not> isExpired sd (v_nowFn v i)"
  using assms lookupKey_current [OF assms(1)]
  by (fastforce simp: getOrRefreshKey_def split: prod.splits sum.splits option.splits)

text \<open>
  A message is never sealed under an expired DEK: at a clock reading made during the call,
  the DEK of the namespace was within its renewal threshold, it is the key that encrypted the
  data, and the material in the message is the one the vault now keeps for that DEK.
\<close>

theorem Seal_uses_current_DEK:
  assumes "vault_inv peek v" "Seal e v c ns data label w = (Inr msg, v', w')"
  shows "\<exists>sd i w1 w2. map_of (v_keys v') ns = Some sd \<and> KeyMaterial msg = sd_material sd
    \<and> ticks w \<le> i \<and> i < ticks w' \<and> \<not> isExpired sd (v_nowFn v i)
    \<and> DEK_Encrypt e (sd_key sd) data
        (if Bound msg then namespaceAAD (Namespace msg) else []) (w1 :: vworld) = (Inr (Ciphertext msg), w2)"
proof -
  from assms(2) obtain step wx where s: "seal e v c ns (label_of ns label) data w = (Inr msg, step, v', wx)"
    and w': "ticks w' = ticks wx"
    by (auto simp: Seal_def Let_def split: prod.splits)
  from s obtain sd v1 w1 ct w2 m where key: "getOrRefreshKey e v ns w = (Inr sd, v1, w1)"
    and slot: "map_of (v_keys v1) ns = Some sd"
    and enc: "DEK_Encrypt e (sd_key sd) data (seal_aad v (label_of ns label)) w1 = (Inr ct, w2)"
    and msg: "msg = \<lparr>Ciphertext = ct, KeyMaterial = Some m, Bound = (v_binding v \<noteq> BindingOff),
            Namespace = (if v_binding v \<noteq> BindingOff then label_of ns label else [])\<rparr>"
    and m: "sd_material sd = Some m \<and> v' = v1
     \<or> sd_material sd = None \<and> registry_Encrypt (v_registry v) c ns (Some (sd_key sd)) = Inr m
       \<and> v' = v1\<lparr>v_keys := AList.update ns (sd\<lparr>sd_material := Some m\<rparr>) (v_keys v1)\<rparr>"
    by (rule seal_Inr)
  obtain i where i: "ticks w \<le> i" "i < ticks w1" "\<not> isExpired sd (v_nowFn v i)"
    using getOrRefreshKey_current [OF assms(1) key] by blast
  have "ticks wx = ticks w1"
    using s key by (auto simp: seal_def Let_def dest: DEK_Encrypt_world split: prod.splits sum.splits option.splits if_splits)
  with i w' enc msg m slot show ?thesis
    by (intro exI [of _ "sd\<lparr>sd_material := Some m\<rparr>"] exI [of _ i] exI [of _ w1] exI [of _ w2]) auto
qed

text \<open>
  \<open>Seal\<close> succeeds whenever it can: if the namespace has a key or there is a default
  configuration, and the KEKs that wrap answer, every call returns a message. In particular a
  rotated or missing DEK is replaced on demand.
\<close>

theorem Seal_succeeds:
  assumes "rand_ok e" "registry_wf (v_registry v)"
    and "map_of (v_keys v) ns \<noteq> None \<or> v_defaultConfig v \<noteq> None"
    and "\<forall>k\<in>set (active_keys (v_registry v)). \<forall>d. \<exists>ct. kek_Encrypt k c ns d = Inr ct"
  shows "\<exists>msg v' w'. Seal e v c ns data label w = (Inr msg, v', w')"
proof -
  obtain d1 d2 wd1 wd2 where "NewDEK e w = (Inr d1, wd1)"
    "NewDEK e (w\<lparr>ticks := Suc (Suc (ticks w))\<rparr>) = (Inr d2, wd2)"
    using NewDEK_ok [OF assms(1)] by metis
  with assms(3) have "\<exists>sd ev v1 w1. lookupKey e v ns w = (Inr (sd, ev), v1, w1)"
    by (auto simp: lookupKey_def createDefaultKey_def Let_def readClock_def split: option.splits)
  then have "\<exists>sd v1 w1. getOrRefreshKey e v ns w = (Inr sd, v1, w1)"
    by (force simp: getOrRefreshKey_def split: option.splits)
  then obtain sd v1 w1 where key: "getOrRefreshKey e v ns w = (Inr sd, v1, w1)" by blast
  note slot = getOrRefreshKey_Inr [OF key] and fields = getOrRefreshKey_fields [OF key]
  obtain ct w2 where enc: "DEK_Encrypt e (sd_key sd) data (seal_aad v (label_of ns label)) w1 = (Inr ct, w2)"
    using assms(1) by (auto simp: DEK_Encrypt_def elim: rand_okE [of e "reads w1" nonceSize])
  obtain m where wrap: "registry_Encrypt (v_registry v) c ns (Some (sd_key sd)) = Inr m"
    using registry_Encrypt_ok [OF assms(2,4)] by blast
  have "\<exists>msg step v' w'. seal e v c ns (label_of ns label) data w = (Inr msg, step, v', w')"
    using key slot fields enc wrap by (auto simp: seal_def Let_def split: option.splits)
  then show ?thesis by (auto simp: Seal_def Let_def)
qed

section \<open>Scheduled rotation\<close>

lemma expiredKeys_world:
  "expiredKeys now keys w = (nss, w') \<Longrightarrow> w' = w\<lparr>ticks := ticks w + length keys\<rparr>"
  by (induction keys arbitrary: w nss) (fastforce simp: Let_def readClock_def split: prod.splits)+

lemma expiredKeys_spec:
  assumes "expiredKeys now keys w = (nss, w')" "distinct (map fst keys)"
  shows "distinct nss \<and> set nss \<subseteq> fst ` set keys
    \<and> (\<forall>ns sd. map_of keys ns = Some sd \<longrightarrow>
        (\<exists>i. ticks w \<le> i \<and> i < ticks w' \<and> (ns \<in> set nss \<longleftrightarrow> isExpired sd (now i))))"
  using assms
proof (induction keys arbitrary: w nss)
  case (Cons kv keys)
  obtain k s where kv: "kv = (k, s)" by (cases kv)
  obtain nss1 w1 where rec: "expiredKeys now keys (w\<lparr>ticks := Suc (ticks w)\<rparr>) = (nss1, w1)"
    by (cases "expiredKeys now keys (w\<lparr>ticks := Suc (ticks w)\<rparr>)")
  with Cons.prems(1) kv have nss: "nss = (if isExpired s (now (ticks w)) then k # nss1 else nss1)" "w' = w1"
    by (auto simp: Let_def readClock_def)
  have IH: "distinct nss1 \<and> set nss1 \<subseteq> fst ` set keys
    \<and> (\<forall>ns sd. map_of keys ns = Some sd \<longrightarrow>
        (\<exists>i. ticks w \<le> i \<and> i < ticks w1 \<and> (ns \<in> set nss1 \<longleftrightarrow> isExpired sd (now i))))"
    using Cons.IH [of "w\<lparr>ticks := Suc (ticks w)\<rparr>" nss1] Cons.prems(2) rec nss(2) by simp (meson Suc_leD)
  have k: "k \<notin> set nss1" using IH Cons.prems(2) kv by auto
  have "ticks w < ticks w1" using expiredKeys_world [OF rec] by simp
  then show ?case
    using IH k nss kv by auto
qed simp

lemma newDEKs_spec:
  assumes "rand_ok e"
  shows "\<exists>ds w'. newDEKs e ks w = (Inr ds, w') \<and> map fst ds = ks
    \<and> ticks w' = ticks w \<and> events w' = events w \<and> (\<forall>(k, d)\<in>set ds. ptrs w \<le> dek_ptr d)"
proof (induction ks arbitrary: w)
  case (Cons k ks)
  obtain d w1 where d: "NewDEK e w = (Inr d, w1)" using NewDEK_ok [OF assms] by metis
  with Cons.IH [of w1] NewDEK_Inr [OF d] NewDEK_events [OF d] show ?case by (fastforce split: prod.splits)
qed simp

lemma rotateKeys_spec:
  assumes "rotateKeys now updates keys w = (rotated, keys', w')" "distinct (map fst updates)"
    and "\<And>k. k \<in> fst ` set updates \<Longrightarrow> \<exists>sd. map_of keys k = Some sd \<and> (\<forall>j\<ge>ticks w. isExpired sd (now j))"
  shows "rotated = map fst updates \<and> events w' = events w \<and> ticks w \<le> ticks w'
    \<and> (\<forall>ns. (map_of updates ns = None \<longrightarrow> map_of keys' ns = map_of keys ns)
        \<and> (\<forall>d sd. map_of updates ns = Some d \<longrightarrow> map_of keys ns = Some sd \<longrightarrow>
             (\<exists>i. ticks w \<le> i \<and> i < ticks w' \<and> map_of keys' ns = Some (rotate_sd sd d (now i)))))"
  using assms
proof (induction updates arbitrary: keys w rotated)
  case (Cons u updates)
  obtain k d where u: "u = (k, d)" by (cases u)
  obtain s where s: "map_of keys k = Some s" "\<And>j. ticks w \<le> j \<Longrightarrow> isExpired s (now j)"
    using Cons.prems(3) [of k] u by auto
  let ?i = "Suc (ticks w)" and ?w = "w\<lparr>ticks := Suc (Suc (ticks w))\<rparr>"
  let ?keys = "AList.update k (rotate_sd s d (now ?i)) keys"
  obtain ro ke wk where rec: "rotateKeys now updates ?keys ?w = (ro, ke, wk)"
    by (cases "rotateKeys now updates ?keys ?w") auto
  with Cons.prems(1) u s have r: "rotated = k # ro" "keys' = ke" "w' = wk"
    by (auto simp: Let_def readClock_def)
  have k: "k \<notin> fst ` set updates" using Cons.prems(2) u by simp
  have IH: "ro = map fst updates \<and> events w' = events ?w \<and> ticks ?w \<le> ticks w'
    \<and> (\<forall>ns. (map_of updates ns = None \<longrightarrow> map_of keys' ns = map_of ?keys ns)
        \<and> (\<forall>d sd. map_of updates ns = Some d \<longrightarrow> map_of ?keys ns = Some sd \<longrightarrow>
             (\<exists>i. ticks ?w \<le> i \<and> i < ticks w' \<and> map_of keys' ns = Some (rotate_sd sd d (now i)))))"
  proof (rule Cons.IH)
    show "rotateKeys now updates ?keys ?w = (ro, keys', w')" using rec r by simp
    show "distinct (map fst updates)" using Cons.prems(2) by simp
    show "\<exists>sd. map_of ?keys k' = Some sd \<and> (\<forall>j\<ge>ticks ?w. isExpired sd (now j))" if "k' \<in> fst ` set updates" for k'
      using Cons.prems(3) [of k'] that k by (force simp: u)
  qed
  then have IH4: "map_of updates ns = Some d' \<Longrightarrow> map_of ?keys ns = Some sd \<Longrightarrow>
      \<exists>i. ticks ?w \<le> i \<and> i < ticks w' \<and> map_of keys' ns = Some (rotate_sd sd d' (now i))" for ns d' sd by blast
  have kk: "map_of updates k = None" using k by (simp add: map_of_eq_None_iff)
  show ?case
    unfolding r(1) u
  proof (intro conjI allI impI)
    fix ns d' sd
    assume d': "map_of ((k, d) # updates) ns = Some d'" and sd: "map_of keys ns = Some sd"
    show "\<exists>i. ticks w \<le> i \<and> i < ticks w' \<and> map_of keys' ns = Some (rotate_sd sd d' (now i))"
    proof (cases "ns = k")
      case True
      with d' sd s(1) IH kk show ?thesis by (intro exI [of _ ?i]) auto
    next
      case False
      with d' sd IH4 [of ns d' sd] obtain i where "ticks ?w \<le> i" "i < ticks w'" "map_of keys' ns = Some (rotate_sd sd d' (now i))"
        by auto
      then show ?thesis by (intro exI [of _ i]) auto
    qed
  qed (use IH kk in \<open>auto split: if_splits\<close>)
qed simp

lemma observeAll_events:
  "v_observer v = Some ob \<Longrightarrow> events (observeAll v evs w) = events w @ map (Pair ob) evs"
  by (induction evs arbitrary: w) (simp_all add: Observe_events)

lemma observeAll_ticks: "ticks (observeAll v evs w) = ticks w"
  by (induction evs arbitrary: w) simp_all

text \<open>
  \<open>Refresh\<close> rotates exactly the DEKs that reached their renewal threshold. With a clock
  that does not go back, it succeeds, and there is a list of distinct namespaces such that each
  of them had an expired DEK and now has a new one, allocated by this call, with no material
  and a new expiry; the slot of every other namespace was not expired and is untouched; and
  exactly one scheduled rotation is reported for each namespace of the list.
\<close>

theorem Refresh_rotates_expired:
  assumes "rand_ok e" "distinct (map fst (v_keys v))" "mono (v_nowFn v)" "v_observer v = Some ob"
    and "Refresh e v w = (r, v', w')"
  shows "r = None \<and> (\<exists>nss. distinct nss
    \<and> events w' = events w @ map (\<lambda>ns. (ob, RotationEvent ns RotationScheduled)) nss
    \<and> (\<forall>ns sd. map_of (v_keys v) ns = Some sd \<longrightarrow>
        (if ns \<in> set nss
         then (\<exists>i j d. ticks w \<le> i \<and> i \<le> j \<and> j < ticks w' \<and> isExpired sd (v_nowFn v i)
                \<and> ptrs w \<le> dek_ptr d \<and> map_of (v_keys v') ns = Some (rotate_sd sd d (v_nowFn v j)))
         else (\<exists>i. ticks w \<le> i \<and> i < ticks w' \<and> \<not> isExpired sd (v_nowFn v i)) \<and> map_of (v_keys v') ns = Some sd)))"
proof -
  obtain nss w1 where scan: "expiredKeys (v_nowFn v) (v_keys v) w = (nss, w1)"
    by (cases "expiredKeys (v_nowFn v) (v_keys v) w")
  note sc = expiredKeys_spec [OF scan assms(2)]
  obtain ds w2 where ds: "newDEKs e nss w1 = (Inr ds, w2)" "map fst ds = nss" "ticks w2 = ticks w1"
    "events w2 = events w1" "\<And>k d. (k, d) \<in> set ds \<Longrightarrow> ptrs w1 \<le> dek_ptr d"
    using newDEKs_spec [OF assms(1), of nss w1] by fast
  obtain ro keys w3 where rot: "rotateKeys (v_nowFn v) ds (v_keys v) w2 = (ro, keys, w3)"
    by (cases "rotateKeys (v_nowFn v) ds (v_keys v) w2") auto
  have still: "\<exists>sd. map_of (v_keys v) k = Some sd \<and> (\<forall>j\<ge>ticks w2. isExpired sd (v_nowFn v j))"
    if "k \<in> fst ` set ds" for k
  proof -
    from that ds(2) have k: "k \<in> set nss" by force
    with sc obtain sd where sd: "map_of (v_keys v) k = Some sd" by (meson map_of_eq_None_iff not_Some_eq subsetD)
    with sc k obtain i where "i < ticks w1" "isExpired sd (v_nowFn v i)" by blast
    with assms(3) ds(3) sd show ?thesis by (auto intro: isExpired_later)
  qed
  have dist: "distinct (map fst ds)" using sc ds(2) by simp
  note rs = rotateKeys_spec [OF rot dist still]
  from assms(5) scan ds(1) rot have v': "r = None" "v_keys v' = keys"
    "w' = observeAll (v\<lparr>v_keys := keys\<rparr>) (map (\<lambda>ns. RotationEvent ns RotationScheduled) ro) w3"
    by (auto simp: Refresh_def Let_def)
  have ev: "events w' = events w @ map (\<lambda>ns. (ob, RotationEvent ns RotationScheduled)) nss"
    using rs ds assms(4) expiredKeys_world [OF scan] by (simp add: v' observeAll_events comp_def)
  have tk: "ticks w' = ticks w3" "ticks w \<le> ticks w1" "ticks w1 \<le> ticks w3" "ptrs w1 = ptrs w"
    using rs ds(3) expiredKeys_world [OF scan] by (simp_all add: v' observeAll_ticks)
  have "if ns \<in> set nss
         then (\<exists>i j d. ticks w \<le> i \<and> i \<le> j \<and> j < ticks w' \<and> isExpired sd (v_nowFn v i)
                \<and> ptrs w \<le> dek_ptr d \<and> map_of keys ns = Some (rotate_sd sd d (v_nowFn v j)))
         else (\<exists>i. ticks w \<le> i \<and> i < ticks w' \<and> \<not> isExpired sd (v_nowFn v i)) \<and> map_of keys ns = Some sd"
    if sd: "map_of (v_keys v) ns = Some sd" for ns sd
  proof (cases "ns \<in> set nss")
    case True
    then obtain d where d: "map_of ds ns = Some d" using ds(2) by (metis map_of_eq_None_iff not_Some_eq set_map)
    with rs sd obtain j where j: "ticks w2 \<le> j" "j < ticks w3" "map_of keys ns = Some (rotate_sd sd d (v_nowFn v j))"
      by blast
    from sc sd True obtain i where "ticks w \<le> i" "i < ticks w1" "isExpired sd (v_nowFn v i)" by blast
    moreover have "ptrs w \<le> dek_ptr d" using ds(5) map_of_SomeD [OF d] tk(4) by simp
    ultimately show ?thesis
      using True j tk ds(3) by simp (intro exI [of _ i] conjI exI [of _ j] exI [of _ d], simp_all)
  next
    case False
    with ds(2) have "map_of ds ns = None" by (metis map_of_eq_None_iff set_map)
    moreover from sc sd False obtain i where "ticks w \<le> i" "i < ticks w1" "\<not> isExpired sd (v_nowFn v i)" by blast
    ultimately show ?thesis using False rs sd tk by (auto intro!: exI [of _ i])
  qed
  with ev sc v' show ?thesis by blast
qed

section \<open>A concrete environment\<close>

text \<open>
  An environment with a random source that repeats one byte, an AEAD that frames the plaintext
  with its additional data, an unbounded cache and a clock; and KEKs that put a mark before their input.
\<close>

definition ex_frame :: "bytes \<Rightarrow> bytes" where
  "ex_frame aad = replicate (length aad) (CHR ''a'') @ CHR ''.'' # aad"

definition ex_env :: "(string \<times> DEK) list vault_env" where
  "ex_env = \<lparr>rand_Read = (\<lambda>n k. Inr (replicate k (CHR ''r''))),
             gcm_Seal = (\<lambda>key nonce pt aad. ex_frame aad @ pt),
             gcm_Open = (\<lambda>key nonce ct aad.
               if HasPrefix ct (ex_frame aad) then Inr (drop (length (ex_frame aad)) ct)
               else Inl (ErrorString ''cipher: message authentication failed'')),
             time_Now = int, lru_New = (\<lambda>n. Inr []),
             lru_Get = (\<lambda>c k. (map_of c k, c)), lru_Add = (\<lambda>c k d. (k, d) # c), lru_Len = length\<rparr>"

definition ex_kek :: "string \<Rightarrow> KEK" where
  "ex_kek i = \<lparr>ID = i, kek_Encrypt = (\<lambda>c ns d. Inr (CHR ''w'' # d)),
              kek_Decrypt = (\<lambda>c ct. if HasPrefix ct ''w'' then Inr (tl ct) else Inl (ErrorString ''not wrapped'')),
              kek_Close = None\<rparr>"

definition ex_kopts :: "KEKRegistryOption list" where
  "ex_kopts = [WithDefaultKey (Some (ex_kek ''k1''))]"

definition ex_registry :: KEKRegistry where
  "ex_registry = \<lparr>defaultKey = Some (ex_kek ''k1''), keks = [], keyIDs = [(''k1'', ex_kek ''k1'')],
                  decryptOnlyKeys = [], closed = False, closeErr = None\<rparr>"

definition ex_opts :: "VaultOption list" where
  "ex_opts = [WithKeyConfig ''ns'' \<lparr>Duration = 10, RenewBefore = 2\<rparr>, WithBindingMode BindingStrict,
              WithObserver (Some 7)]"

definition ex_world :: vworld where
  "ex_world = \<lparr>reads = 0, ptrs = 0, ticks = 0, events = []\<rparr>"

definition ex_vault :: "(string \<times> DEK) list Vault" where
  "ex_vault = \<lparr>v_keys = [(''ns'', \<lparr>sd_key = \<lparr>dek_ptr = 0, dek_key = replicate 32 (CHR ''r'')\<rparr>,
                 sd_material = None, sd_exp = 10, sd_dur = 10, sd_before = 2\<rparr>)],
               v_registry = ex_registry, v_cache = Some [], v_defaultConfig = None, v_nowFn = int,
               v_observer = Some 7, v_binding = BindingStrict\<rparr>"

definition ex_world1 :: vworld where
  "ex_world1 = \<lparr>reads = 1, ptrs = 1, ticks = 1, events = []\<rparr>"

lemma ex_frame_prefix: "prefix (ex_frame a) (ex_frame b @ pt) \<Longrightarrow> a = b"
proof -
  assume p: "prefix (ex_frame a) (ex_frame b @ pt)"
  have run: "takeWhile (\<lambda>c. c = CHR ''a'') (replicate n (CHR ''a'') @ CHR ''.'' # z) = replicate n (CHR ''a'')" for n z
    by (induction n) auto
  from p obtain z where z: "ex_frame b @ pt = ex_frame a @ z" by (auto simp: prefix_def)
  from arg_cong [OF z, of "\<lambda>s. length (takeWhile (\<lambda>c. c = CHR ''a'') s)"]
  have "length b = length a" by (simp add: ex_frame_def run)
  with z show "a = b" by (simp add: ex_frame_def)
qed

lemma ex_env_ok: "aead_correct ex_env" "aead_auth ex_env" "rand_ok ex_env" "lru_ok ex_env map_of"
proof -
  show "aead_correct ex_env" by (simp add: aead_correct_def ex_env_def HasPrefix_def)
  show "aead_auth ex_env"
    using ex_frame_prefix by (auto simp: aead_auth_def ex_env_def HasPrefix_iff)
  show "rand_ok ex_env" by (simp add: rand_ok_def ex_env_def)
  show "lru_ok ex_env map_of" by (auto simp: lru_ok_def ex_env_def map_le_def)
qed

lemma ex_registry_new: "NewKEKRegistry ex_kopts = Inr ex_registry"
  by (simp add: NewKEKRegistry_def ex_kopts_def emptyRegistry_def WithDefaultKey_def add_key_def ex_registry_def ex_kek_def)

lemma ex_registry_ok: "registry_opens ex_registry c" "registry_unambiguous ex_registry"
  by (auto simp: registry_opens_def ex_registry_def active_keys_def kek_opens_def ex_kek_def
      registry_unambiguous_def unwraps_def HasPrefix_def split: if_splits)

lemma ex_new: "\<forall>opt\<in>set ex_opts. vault_option opt"
    "NewVault ex_env (Some ex_registry) ex_opts ex_world = (Inr ex_vault, ex_world1)"
  by (simp_all add: ex_opts_def vault_option.intros NewVault_def WithKeyConfig_def WithBindingMode_def WithObserver_def
        defaultOptions_def KeyConfig_validate_def BindingOff_def BindingStrict_def DefaultCacheSize_def
        ex_env_def ex_world_def ex_vault_def ex_world1_def NewDEK_def dekFromKey_def keyBytes_def
        rotate_sd_def readClock_def)

lemma ex_start: "vault_reachable ex_env ex_registry (ex_vault, ex_world1)"
  using ex_new by (intro runs_from_start vault_start.intros) (simp_all add: list_all_iff)

definition ex_key :: DEK where
  "ex_key = \<lparr>dek_ptr = 0, dek_key = replicate 32 (CHR ''r'')\<rparr>"

definition ex_material :: DEKMaterial where
  "ex_material = \<lparr>Version = 1, KEKID = ''k1'', EncryptedDEK = EncodeToString (CHR ''w'' # replicate 32 (CHR ''r''))\<rparr>"

definition ex_msg :: Message where
  "ex_msg = \<lparr>Ciphertext = replicate 12 (CHR ''r'') @ ex_frame (namespaceAAD ''ns'') @ ''secret'',
             KeyMaterial = Some ex_material, Bound = True, Namespace = ''ns''\<rparr>"

definition ex_vault2 :: "(string \<times> DEK) list Vault" where
  "ex_vault2 = ex_vault\<lparr>v_keys := [(''ns'', \<lparr>sd_key = ex_key, sd_material = Some ex_material,
                 sd_exp = 10, sd_dur = 10, sd_before = 2\<rparr>)]\<rparr>"

definition ex_world2 :: vworld where
  "ex_world2 = \<lparr>reads = 2, ptrs = 1, ticks = 2, events = [(7, EnvelopeEvent OpEncrypt ''ns'' None True None)]\<rparr>"

lemma ex_Seal: "Seal ex_env ex_vault c ''ns'' ''secret'' None ex_world1 = (Inr ex_msg, ex_vault2, ex_world2)"
  by (simp add: Seal_def seal_def getOrRefreshKey_def lookupKey_def isExpired_def ex_vault_def ex_world1_def
      readClock_def DEK_Encrypt_def ex_env_def nonceSize_def registry_Encrypt_def ex_registry_def ex_kek_def
      ex_msg_def ex_material_def ex_vault2_def ex_world2_def ex_key_def materialVersion_def Observe_def err_of_def
      BindingOff_def BindingStrict_def Let_def)

lemma ex_reachable2: "vault_reachable ex_env ex_registry (ex_vault2, ex_world2)"
  using ex_start vault_call.call_seal [OF ex_Seal] by (rule runs_from_step)

lemma ex_inv: "vault_inv map_of ex_vault" "vault_inv map_of ex_vault2"
  using vault_reachable_inv(1) [OF ex_env_ok(3,4) ex_registry_new] ex_start ex_reachable2 by blast+

theorem Seal_Open_roundtrip_witness:
  "fst (Open ex_env ex_vault2 3 (Some ex_msg) (Some ''ns'') ex_world2) = Inr ''secret''"
  using Seal_Open_roundtrip [OF ex_env_ok(1,3,4) ex_registry_new ex_registry_ok ex_start ex_reachable2 ex_Seal,
      of "Some ''ns''" 3]
  by (simp add: ex_vault_def BindingStrict_def BindingOff_def)

theorem Seal_rebind_rejected_witness:
  "\<exists>err. fst (Open ex_env ex_vault2 3 (Some (ex_msg\<lparr>Bound := True, Namespace := ''other''\<rparr>)) None ex_world2) = Inl err"
  using Seal_rebind_rejected [OF ex_env_ok(2,3,4) ex_registry_new ex_registry_ok ex_start ex_reachable2 ex_Seal,
      of True "''other''" 3 None]
  by (simp add: ex_msg_def)

theorem Open_strict_refusal_witness:
  "Open ex_env ex_vault2 3 (Some (ex_msg\<lparr>Bound := False\<rparr>)) None ex_world2 =
   (Inl ErrUnbound, ex_vault2, Observe ex_vault2 (EnvelopeEvent OpDecrypt [] (Some ErrUnbound) False None) ex_world2)"
  using Open_strict_refusal [of ex_vault2 "ex_msg\<lparr>Bound := False\<rparr>" ex_material None ex_env 3 ex_world2]
  by (simp add: ex_vault2_def ex_vault_def ex_msg_def holds_def ex_registry_def ex_material_def)

theorem Seal_reports_once_witness:
  "\<exists>rot did cerr. events ex_world2 = events ex_world1 @ rot @ [(7, EnvelopeEvent OpEncrypt ''ns'' None did cerr)]"
  using Seal_reports_once [OF ex_Seal, of 7] by (auto simp: ex_vault_def err_of_def)

theorem Open_reports_once_witness:
  "\<exists>ces did cerr err. events (snd (snd (Open ex_env ex_vault2 3 None None ex_world2)))
     = events ex_world2 @ ces @ [(7, EnvelopeEvent OpDecrypt [] (Some err) did cerr)]"
  using Open_reports_once [of ex_env ex_vault2 3 None None ex_world2 _ _ _ 7]
  by (auto simp: ex_vault2_def ex_vault_def Open_def vault_open_def err_of_def noStep_def Observe_def)

theorem Seal_uses_current_DEK_witness:
  "\<exists>sd i. map_of (v_keys ex_vault2) ''ns'' = Some sd \<and> KeyMaterial ex_msg = sd_material sd
     \<and> ticks ex_world1 \<le> i \<and> i < ticks ex_world2 \<and> \<not> isExpired sd (v_nowFn ex_vault i)"
  using Seal_uses_current_DEK [OF ex_inv(1) ex_Seal] by blast

theorem Seal_succeeds_witness:
  "\<exists>msg v' w'. Seal ex_env ex_vault 5 ''ns'' ''more'' None ex_world1 = (Inr msg, v', w')"
  using Seal_succeeds [OF ex_env_ok(3), of ex_vault "''ns''" 5] ex_inv(1)
  by (auto simp: vault_inv_def ex_vault_def ex_registry_def active_keys_def ex_kek_def)

definition ex_late :: vworld where
  "ex_late = ex_world2\<lparr>ticks := 50\<rparr>"

theorem Refresh_rotates_expired_witness:
  "fst (Refresh ex_env ex_vault2 ex_late) = None
   \<and> (\<exists>nss. distinct nss \<and> events (snd (snd (Refresh ex_env ex_vault2 ex_late)))
        = events ex_late @ map (\<lambda>ns. (7, RotationEvent ns RotationScheduled)) nss)"
  using Refresh_rotates_expired [OF ex_env_ok(3), of ex_vault2 7 ex_late]
  by (cases "Refresh ex_env ex_vault2 ex_late") (auto simp: ex_vault2_def ex_vault_def mono_def)

end
