(* ===== verification/Vault_Concurrent.thy ===== *)
theory Vault_Concurrent
  imports Vault_Theorems
begin

text \<open>
  \<open>Vault.Seal\<close> and \<open>Vault.Refresh\<close> as they interleave. The steps of a goroutine are the regions
  the code makes atomic: the read-locked lookup and the write-locked rotation or creation of
  \<open>lookupKey\<close>, the read-locked snapshot, the encryption, joining or starting the singleflight call,
  the write-locked store; the scan, the key generation and the write-locked rotation of
  \<open>Refresh\<close>. The KEK call of a singleflight runs for as long as it likes: its completion is a
  step of its own, which hands one result to every goroutine that waits on the same key. That
  key is the namespace and the address of the DEK, as in the code.

  \<open>Open\<close> is left out: it shares with \<open>Seal\<close> and \<open>Refresh\<close> nothing but the registry, which never
  changes; \<open>Seal\<close> does not touch the cache and \<open>Open\<close> does not touch the keys. Reports to the
  observer happen outside the locks and are left out here as well.
\<close>

section \<open>States\<close>

text \<open>Where a goroutine is; \<open>ns\<close>, \<open>label\<close> and \<open>data\<close> are the arguments of its \<open>Seal\<close>.\<close>

datatype thread =
    TStart string string bytes
  | TRotate string string bytes
  | TCreate string string bytes
  | TSnapshot string string bytes
  | TEncrypt string string bytes DEK "DEKMaterial option"
  | TWrap string string bytes DEK bytes
  | TWait string string bytes DEK bytes
  | TStore string string bytes DEK bytes DEKMaterial
  | TSealed string bytes "Message result"
  | TRefresh
  | TScanned "string list"
  | TUpdate "DEK gomap"
  | TRefreshed "goerror option"

text \<open>The vault, the world, the goroutines, and the KEK calls in flight with what they wrap.\<close>

record 'c cstate =
  c_vault :: "'c Vault"
  c_world :: vworld
  c_threads :: "nat \<rightharpoonup> thread"
  c_flight :: "string \<times> nat \<rightharpoonup> ctx \<times> DEK"

definition setT :: "nat \<Rightarrow> thread \<Rightarrow> 'c cstate \<Rightarrow> 'c cstate" where
  "setT i t s = s\<lparr>c_threads := (c_threads s)(i \<mapsto> t)\<rparr>"

abbreviation clock :: "'c cstate \<Rightarrow> int" where
  "clock s \<equiv> v_nowFn (c_vault s) (ticks (c_world s))"

definition tick :: "'c cstate \<Rightarrow> 'c cstate" where
  "tick s = s\<lparr>c_world := (c_world s)\<lparr>ticks := Suc (ticks (c_world s))\<rparr>\<rparr>"

definition setKey :: "string \<Rightarrow> slidingDEK \<Rightarrow> 'c cstate \<Rightarrow> 'c cstate" where
  "setKey ns sd s = s\<lparr>c_vault := (c_vault s)\<lparr>v_keys := AList.update ns sd (v_keys (c_vault s))\<rparr>\<rparr>"

definition setWorld :: "vworld \<Rightarrow> 'c cstate \<Rightarrow> 'c cstate" where
  "setWorld w s = s\<lparr>c_world := w\<rparr>"

section \<open>Steps\<close>

text \<open>\<open>lookupKey\<close> under the read lock.\<close>

definition startStep :: "nat \<Rightarrow> string \<Rightarrow> string \<Rightarrow> bytes \<Rightarrow> 'c cstate \<Rightarrow> 'c cstate" where
  "startStep i ns label data s =
     (case map_of (v_keys (c_vault s)) ns of
        None \<Rightarrow>
          (case v_defaultConfig (c_vault s) of
             None \<Rightarrow> setT i (TSealed label data (Inl (ErrorString (''key not found, ns: '' @ ns)))) s
           | Some _ \<Rightarrow> setT i (TCreate ns label data) s)
      | Some sd \<Rightarrow>
          (if \<not> isExpired sd (clock s) then setT i (TSnapshot ns label data) (tick s)
           else setT i (TRotate ns label data) (tick s)))"

text \<open>\<open>lookupKey\<close> under the write lock.\<close>

definition rotateStep :: "'c vault_env \<Rightarrow> nat \<Rightarrow> string \<Rightarrow> string \<Rightarrow> bytes \<Rightarrow> 'c cstate \<Rightarrow> 'c cstate" where
  "rotateStep e i ns label data s =
     (case map_of (v_keys (c_vault s)) ns of
        None \<Rightarrow> setT i (TSealed label data (Inl nil_panic)) s
      | Some sd \<Rightarrow>
          (if \<not> isExpired sd (clock s) then setT i (TSnapshot ns label data) (tick s)
           else let s = tick s
                in case NewDEK e (c_world s) of
                  (Inl err, w) \<Rightarrow>
                    setT i (TSealed label data
                      (Inl (WrapError (''failed to generate DEK for '' @ ns @ '': '' @ Error err) [err]))) (setWorld w s)
                | (Inr d, w) \<Rightarrow>
                    (let s = setWorld w s
                     in setT i (TSnapshot ns label data) (setKey ns (rotate_sd sd d (clock s)) (tick s)))))"

text \<open>\<open>createDefaultKey\<close>.\<close>

definition createStep :: "'c vault_env \<Rightarrow> nat \<Rightarrow> string \<Rightarrow> string \<Rightarrow> bytes \<Rightarrow> 'c cstate \<Rightarrow> 'c cstate" where
  "createStep e i ns label data s =
     (case (map_of (v_keys (c_vault s)) ns, v_defaultConfig (c_vault s)) of
        (Some _, _) \<Rightarrow> setT i (TSnapshot ns label data) s
      | (None, None) \<Rightarrow> setT i (TSealed label data (Inl nil_panic)) s
      | (None, Some cfg) \<Rightarrow>
          (case NewDEK e (c_world s) of
             (Inl err, w) \<Rightarrow>
               setT i (TSealed label data
                 (Inl (WrapError (''failed to generate DEK for '' @ ns @ '': '' @ Error err) [err]))) (setWorld w s)
           | (Inr d, w) \<Rightarrow>
               (let s = setWorld w s
                in setT i (TSnapshot ns label data)
                     (setKey ns (rotate_sd \<lparr>sd_key = d, sd_material = None, sd_exp = 0, sd_dur = Duration cfg,
                                         sd_before = RenewBefore cfg\<rparr> d (clock s)) (tick s)))))"

text \<open>The message a \<open>Seal\<close> returns with material \<open>m\<close>.\<close>

definition sealedMsg :: "'c Vault \<Rightarrow> string \<Rightarrow> bytes \<Rightarrow> DEKMaterial \<Rightarrow> Message" where
  "sealedMsg v label ct m =
     \<lparr>Ciphertext = ct, KeyMaterial = Some m, Bound = (v_binding v \<noteq> BindingOff),
      Namespace = (if v_binding v \<noteq> BindingOff then label else [])\<rparr>"

text \<open>The encryption of \<open>seal\<close>, outside the locks.\<close>

definition encryptStep :: "'c vault_env \<Rightarrow> nat \<Rightarrow> string \<Rightarrow> string \<Rightarrow> bytes \<Rightarrow> DEK \<Rightarrow> DEKMaterial option \<Rightarrow> 'c cstate \<Rightarrow> 'c cstate" where
  "encryptStep e i ns label data dek material s =
     (case DEK_Encrypt e dek data (seal_aad (c_vault s) label) (c_world s) of
        (Inl err, w) \<Rightarrow> setT i (TSealed label data (Inl err)) (setWorld w s)
      | (Inr ct, w) \<Rightarrow>
          (case material of
             Some m \<Rightarrow> setT i (TSealed label data (Inr (sealedMsg (c_vault s) label ct m))) (setWorld w s)
           | None \<Rightarrow> setT i (TWrap ns label data dek ct) (setWorld w s)))"

text \<open>The write-locked store at the end of \<open>seal\<close>.\<close>

definition storeStep :: "nat \<Rightarrow> string \<Rightarrow> string \<Rightarrow> bytes \<Rightarrow> DEK \<Rightarrow> bytes \<Rightarrow> DEKMaterial \<Rightarrow> 'c cstate \<Rightarrow> 'c cstate" where
  "storeStep i ns label data dek ct m s =
     (case map_of (v_keys (c_vault s)) ns of
        None \<Rightarrow> setT i (TSealed label data (Inl nil_panic)) s
      | Some cur \<Rightarrow>
          (if dek_ptr (sd_key cur) = dek_ptr dek
           then case sd_material cur of
             None \<Rightarrow> setT i (TSealed label data (Inr (sealedMsg (c_vault s) label ct m)))
                       (setKey ns (cur\<lparr>sd_material := Some m\<rparr>) s)
           | Some m' \<Rightarrow> setT i (TSealed label data (Inr (sealedMsg (c_vault s) label ct m'))) s
           else setT i (TSealed label data (Inr (sealedMsg (c_vault s) label ct m))) s))"

text \<open>A KEK call ends: everyone who waits on its key gets its result.\<close>

definition deliver :: "string \<times> nat \<Rightarrow> DEKMaterial result \<Rightarrow> thread \<Rightarrow> thread" where
  "deliver k res t =
     (case t of
        TWait ns label data dek ct \<Rightarrow>
          (if (ns, dek_ptr dek) = k
           then case res of Inl err \<Rightarrow> TSealed label data (Inl err) | Inr m \<Rightarrow> TStore ns label data dek ct m
           else t)
      | _ \<Rightarrow> t)"

inductive cstep :: "'c vault_env \<Rightarrow> 'c cstate \<Rightarrow> 'c cstate \<Rightarrow> bool" for e :: "'c vault_env" where
  spawn_seal: "c_threads s i = None \<Longrightarrow> cstep e s (setT i (TStart ns label data) s)"
| start: "c_threads s i = Some (TStart ns label data) \<Longrightarrow> cstep e s (startStep i ns label data s)"
| rotate: "c_threads s i = Some (TRotate ns label data) \<Longrightarrow> cstep e s (rotateStep e i ns label data s)"
| create: "c_threads s i = Some (TCreate ns label data) \<Longrightarrow> cstep e s (createStep e i ns label data s)"
| snapshot: "c_threads s i = Some (TSnapshot ns label data) \<Longrightarrow> map_of (v_keys (c_vault s)) ns = Some sd
    \<Longrightarrow> cstep e s (setT i (TEncrypt ns label data (sd_key sd) (sd_material sd)) s)"
| encrypt: "c_threads s i = Some (TEncrypt ns label data dek material)
    \<Longrightarrow> cstep e s (encryptStep e i ns label data dek material s)"
| join: "c_threads s i = Some (TWrap ns label data dek ct) \<Longrightarrow> c_flight s (ns, dek_ptr dek) = Some call
    \<Longrightarrow> cstep e s (setT i (TWait ns label data dek ct) s)"
| lead: "c_threads s i = Some (TWrap ns label data dek ct) \<Longrightarrow> c_flight s (ns, dek_ptr dek) = None
    \<Longrightarrow> cstep e s (setT i (TWait ns label data dek ct) (s\<lparr>c_flight := (c_flight s)((ns, dek_ptr dek) \<mapsto> (c, dek))\<rparr>))"
| call_done: "c_flight s (ns, q) = Some (c, dek)
    \<Longrightarrow> cstep e s (s\<lparr>c_flight := (c_flight s)((ns, q) := None),
          c_threads := (\<lambda>i. map_option (deliver (ns, q) (registry_Encrypt (v_registry (c_vault s)) c ns (Some dek)))
                              (c_threads s i))\<rparr>)"
| store: "c_threads s i = Some (TStore ns label data dek ct m) \<Longrightarrow> cstep e s (storeStep i ns label data dek ct m s)"
| spawn_refresh: "c_threads s i = None \<Longrightarrow> cstep e s (setT i TRefresh s)"
| scan: "c_threads s i = Some TRefresh \<Longrightarrow> expiredKeys (v_nowFn (c_vault s)) (v_keys (c_vault s)) (c_world s) = (nss, w)
    \<Longrightarrow> cstep e s (setT i (TScanned nss) (setWorld w s))"
| generate: "c_threads s i = Some (TScanned nss) \<Longrightarrow> newDEKs e nss (c_world s) = (Inr ds, w)
    \<Longrightarrow> cstep e s (setT i (TUpdate ds) (setWorld w s))"
| generate_fails: "c_threads s i = Some (TScanned nss) \<Longrightarrow> newDEKs e nss (c_world s) = (Inl err, w)
    \<Longrightarrow> cstep e s (setT i (TRefreshed (Some err)) (setWorld w s))"
| update: "c_threads s i = Some (TUpdate ds)
    \<Longrightarrow> rotateKeys (v_nowFn (c_vault s)) ds (v_keys (c_vault s)) (c_world s) = (rotated, keys, w)
    \<Longrightarrow> cstep e s (setT i (TRefreshed None) (setWorld w (s\<lparr>c_vault := (c_vault s)\<lparr>v_keys := keys\<rparr>\<rparr>)))"

section \<open>The invariant\<close>

text \<open>\<open>m\<close> is what the registry wrapped \<open>d\<close> to, in some call.\<close>

definition wrapped :: "KEKRegistry \<Rightarrow> DEKMaterial \<Rightarrow> DEK \<Rightarrow> bool" where
  "wrapped r m d \<longleftrightarrow> (\<exists>c ns. registry_Encrypt r c ns (Some d) = Inr m)"

text \<open>The DEKs a goroutine holds, and those of the whole state.\<close>

fun thread_deks :: "thread \<Rightarrow> DEK set" where
  "thread_deks (TEncrypt _ _ _ d _) = {d}"
| "thread_deks (TWrap _ _ _ d _) = {d}"
| "thread_deks (TWait _ _ _ d _) = {d}"
| "thread_deks (TStore _ _ _ d _ _) = {d}"
| "thread_deks (TUpdate ds) = snd ` set ds"
| "thread_deks _ = {}"

definition deks :: "'c cstate \<Rightarrow> DEK set" where
  "deks s = sd_key ` snd ` set (v_keys (c_vault s)) \<union> (\<Union>t\<in>Map.ran (c_threads s). thread_deks t)
     \<union> snd ` Map.ran (c_flight s)"

text \<open>
  A ciphertext that \<open>d\<close> made of \<open>data\<close>, and what is known of a goroutine: what it has encrypted, and
  that the material it holds is for the DEK it encrypted with.
\<close>

definition made :: "'c vault_env \<Rightarrow> 'c Vault \<Rightarrow> string \<Rightarrow> bytes \<Rightarrow> DEK \<Rightarrow> bytes \<Rightarrow> bool" where
  "made e v label data d ct \<longleftrightarrow>
     length (dek_key d) = keyBytes \<and> (\<exists>w w' :: vworld. DEK_Encrypt e d data (seal_aad v label) w = (Inr ct, w'))"

fun thread_ok :: "'c vault_env \<Rightarrow> 'c Vault \<Rightarrow> thread \<Rightarrow> bool" where
  "thread_ok e v (TEncrypt ns label data d mo) =
     (length (dek_key d) = keyBytes \<and> (\<forall>m. mo = Some m \<longrightarrow> wrapped (v_registry v) m d))"
| "thread_ok e v (TWrap ns label data d ct) = made e v label data d ct"
| "thread_ok e v (TWait ns label data d ct) = made e v label data d ct"
| "thread_ok e v (TStore ns label data d ct m) = (made e v label data d ct \<and> wrapped (v_registry v) m d)"
| "thread_ok e v (TSealed label data (Inr msg)) =
     (\<exists>d m. made e v label data d (Ciphertext msg) \<and> wrapped (v_registry v) m d
        \<and> msg = sealedMsg v label (Ciphertext msg) m)"
| "thread_ok e v (TUpdate ds) = (\<forall>(k, d)\<in>set ds. length (dek_key d) = keyBytes)"
| "thread_ok e v _ = True"

definition cinv :: "'c vault_env \<Rightarrow> ('c \<Rightarrow> string \<Rightarrow> DEK option) \<Rightarrow> 'c cstate \<Rightarrow> bool" where
  "cinv e peek s \<longleftrightarrow>
     rand_ok e \<and> vault_inv peek (c_vault s)
     \<and> (\<forall>d\<in>deks s. dek_ptr d < ptrs (c_world s)) \<and> inj_on dek_ptr (deks s)
     \<and> (\<forall>i t. c_threads s i = Some t \<longrightarrow> thread_ok e (c_vault s) t)
     \<and> (\<forall>ns q c d. c_flight s (ns, q) = Some (c, d) \<longrightarrow> dek_ptr d = q)"

section \<open>Every step keeps the invariant\<close>

lemmas cstate_defs = setT_def tick_def setKey_def setWorld_def

lemma made_cong: "v_binding v' = v_binding v \<Longrightarrow> made e v' label data d ct = made e v label data d ct"
  by (simp add: made_def)

lemma thread_ok_cong:
  "v_registry v' = v_registry v \<Longrightarrow> v_binding v' = v_binding v \<Longrightarrow> thread_ok e v' t = thread_ok e v t"
  by (cases "(e, v', t)" rule: thread_ok.cases) (auto simp: made_def sealedMsg_def)

text \<open>
  What a step has to show: the vault keeps its invariant, new DEKs are freshly allocated, the
  goroutines it changes are right, and flights are filed under the address of their DEK.
\<close>

lemma cinv_intro:
  assumes "cinv e peek s" "vault_inv peek (c_vault s')"
    and "v_registry (c_vault s') = v_registry (c_vault s)" "v_binding (c_vault s') = v_binding (c_vault s)"
    and "deks s' \<subseteq> deks s \<union> N" "inj_on dek_ptr N"
    and "\<And>d. d \<in> N \<Longrightarrow> ptrs (c_world s) \<le> dek_ptr d \<and> dek_ptr d < ptrs (c_world s')"
    and "ptrs (c_world s) \<le> ptrs (c_world s')"
    and "\<And>i t. c_threads s' i = Some t \<Longrightarrow> c_threads s i = Some t \<or> thread_ok e (c_vault s') t"
    and "\<And>ns q c d. c_flight s' (ns, q) = Some (c, d) \<Longrightarrow> dek_ptr d = q"
  shows "cinv e peek s'"
proof -
  have old: "\<And>d. d \<in> deks s \<Longrightarrow> dek_ptr d < ptrs (c_world s)" "inj_on dek_ptr (deks s)"
    using assms(1) by (auto simp: cinv_def)
  then have "inj_on dek_ptr (deks s \<union> N)"
    using assms(6,7) by (fastforce simp: inj_on_Un)
  then have "inj_on dek_ptr (deks s')" using assms(5) by (rule inj_on_subset)
  moreover have "dek_ptr d < ptrs (c_world s')" if "d \<in> deks s'" for d
    using that assms(5,7,8) old(1) by (meson Un_iff less_le_trans subsetD)
  moreover have "thread_ok e (c_vault s') t" if "c_threads s' i = Some t" for i t
    using assms(1) assms(9) [OF that] thread_ok_cong [OF assms(3,4)] by (auto simp: cinv_def)
  ultimately show ?thesis using assms(1,2,10) by (auto simp: cinv_def)
qed

lemma ran_upd: "Map.ran (m(i \<mapsto> t)) \<subseteq> insert t (Map.ran m)"
  by (auto simp: Map.ran_def)

lemma deks_setT: "deks (setT i t s) \<subseteq> deks s \<union> thread_deks t"
  using ran_upd [of "c_threads s" i t] by (fastforce simp: deks_def setT_def)

lemma slot_deks_update:
  "sd_key ` snd ` set (AList.update ns sd keys) \<subseteq> insert (sd_key sd) (sd_key ` snd ` set keys)"
proof -
  have "set (AList.update ns sd keys) \<subseteq> insert (ns, sd) (set keys)" using update_mem by fast
  then show ?thesis by (metis (no_types, lifting) image_insert image_mono snd_conv)
qed

lemma deks_setKey: "deks (setKey ns sd s) \<subseteq> insert (sd_key sd) (deks s)"
  using slot_deks_update [of ns sd "v_keys (c_vault s)"] unfolding deks_def setKey_def by simp blast

lemma deks_world [simp]: "deks (setWorld w s) = deks s" "deks (tick s) = deks s"
  by (simp_all add: deks_def setWorld_def tick_def)

lemma setWorld_fields [simp]:
  "c_vault (setWorld w s) = c_vault s" "c_threads (setWorld w s) = c_threads s" "c_world (setWorld w s) = w"
  by (simp_all add: setWorld_def)

lemma cinv_setT:
  assumes "cinv e peek s" "thread_deks t \<subseteq> deks s" "thread_ok e (c_vault s) t"
  shows "cinv e peek (setT i t s)"
  using assms(1)
proof (rule cinv_intro [where N = "{}"])
  show "deks (setT i t s) \<subseteq> deks s \<union> {}" using deks_setT [of i t s] assms(2) by auto
  show "c_threads (setT i t s) j = Some t' \<Longrightarrow> c_threads s j = Some t' \<or> thread_ok e (c_vault (setT i t s)) t'" for j t'
    using assms(3) by (auto simp: setT_def split: if_splits)
qed (use assms(1) in \<open>auto simp: cinv_def setT_def\<close>)

lemma cinv_world:
  assumes "cinv e peek s" "ptrs (c_world s) \<le> ptrs w"
  shows "cinv e peek (setWorld w s)"
  using assms(1)
proof (rule cinv_intro [where N = "{}"])
  show "deks (setWorld w s) \<subseteq> deks s \<union> {}" by simp
qed (use assms in \<open>auto simp: cinv_def setWorld_def\<close>)

lemma cinv_tick: "cinv e peek s \<Longrightarrow> cinv e peek (tick s)"
  using cinv_world [of e peek s "(c_world s)\<lparr>ticks := Suc (ticks (c_world s))\<rparr>"]
  by (simp add: tick_def setWorld_def)

lemma cinv_slot: "cinv e peek s \<Longrightarrow> map_of (v_keys (c_vault s)) ns = Some sd \<Longrightarrow> slot_ok (v_registry (c_vault s)) sd"
  by (auto simp: cinv_def dest: vault_invD)

lemma slot_dek: "map_of (v_keys (c_vault s)) ns = Some sd \<Longrightarrow> sd_key sd \<in> deks s"
  by (force simp: deks_def dest: map_of_SomeD)

lemma cinv_setKey:
  assumes "cinv e peek s" "slot_ok (v_registry (c_vault s)) sd" "sd_key sd \<in> deks s"
  shows "cinv e peek (setKey ns sd s)"
  using assms(1)
proof (rule cinv_intro [where N = "{}"])
  show "deks (setKey ns sd s) \<subseteq> deks s \<union> {}" using deks_setKey [of ns sd s] assms(3) by auto
qed (use assms in \<open>auto simp: cinv_def setKey_def intro: vault_inv_update\<close>)

text \<open>A slot that gets a newly allocated DEK.\<close>

lemma cinv_newKey:
  assumes "cinv e peek s" "NewDEK e (c_world s) = (Inr d, w)" "slot_ok (v_registry (c_vault s)) sd" "sd_key sd = d"
  shows "cinv e peek (setKey ns sd (tick (setWorld w s)))"
  using assms(1)
proof (rule cinv_intro [where N = "{d}"])
  let ?s = "setKey ns sd (tick (setWorld w s))"
  show "deks ?s \<subseteq> deks s \<union> {d}" using deks_setKey [of ns sd "tick (setWorld w s)"] assms(4) by auto
  show "vault_inv peek (c_vault ?s)"
    using assms(1,3) by (auto simp: cinv_def cstate_defs intro: vault_inv_update)
  show "\<And>d'. d' \<in> {d} \<Longrightarrow> ptrs (c_world s) \<le> dek_ptr d' \<and> dek_ptr d' < ptrs (c_world ?s)"
    "ptrs (c_world s) \<le> ptrs (c_world ?s)"
    using NewDEK_Inr [OF assms(2)] by (auto simp: cstate_defs)
qed (use assms(1) in \<open>auto simp: cinv_def cstate_defs\<close>)

lemma start_keeps: "cinv e peek s \<Longrightarrow> cinv e peek (startStep i ns label data s)"
  by (auto simp: startStep_def cinv_setT cinv_tick split: option.splits)

lemma rotate_keeps:
  assumes "cinv e peek s"
  shows "cinv e peek (rotateStep e i ns label data s)"
proof (cases "map_of (v_keys (c_vault s)) ns")
  case None
  with assms show ?thesis by (simp add: rotateStep_def cinv_setT)
next
  case (Some sd)
  have t: "cinv e peek (tick s)" using assms by (rule cinv_tick)
  obtain r w where new: "NewDEK e (c_world (tick s)) = (r, w)" by (cases "NewDEK e (c_world (tick s))")
  show ?thesis
  proof (cases r)
    case (Inl err)
    with t new NewDEK_ptrs_le [OF new] Some show ?thesis
      by (simp add: rotateStep_def cinv_setT cinv_world)
  next
    case (Inr d)
    have "slot_ok (v_registry (c_vault (tick s))) (rotate_sd sd d z)" for z
      using cinv_slot [OF assms Some] NewDEK_length [of e "c_world (tick s)" d w] assms new Inr
      by (auto simp: cinv_def tick_def)
    then have "cinv e peek (setKey ns (rotate_sd sd d z) (tick (setWorld w (tick s))))" for z
      using t new Inr by (intro cinv_newKey) (auto simp: rotate_sd_def)
    with t new Inr Some show ?thesis by (simp add: rotateStep_def Let_def cinv_setT)
  qed
qed

lemma create_keeps:
  assumes "cinv e peek s"
  shows "cinv e peek (createStep e i ns label data s)"
proof (cases "map_of (v_keys (c_vault s)) ns = None \<and> v_defaultConfig (c_vault s) \<noteq> None")
  case False
  with assms show ?thesis by (auto simp: createStep_def cinv_setT split: option.splits)
next
  case True
  then obtain cfg where cfg: "map_of (v_keys (c_vault s)) ns = None" "v_defaultConfig (c_vault s) = Some cfg" by auto
  have ok: "cfg_ok cfg" "rand_ok e" using assms cfg(2) by (auto simp: cinv_def dest: vault_invD)
  obtain r w where new: "NewDEK e (c_world s) = (r, w)" by (cases "NewDEK e (c_world s)")
  show ?thesis
  proof (cases r)
    case (Inl err)
    with assms new NewDEK_ptrs_le [OF new] cfg show ?thesis by (simp add: createStep_def cinv_setT cinv_world)
  next
    case (Inr d)
    have "slot_ok (v_registry (c_vault s)) (rotate_sd \<lparr>sd_key = d, sd_material = None, sd_exp = 0, sd_dur = Duration cfg,
                                         sd_before = RenewBefore cfg\<rparr> d z)" for z
      using ok NewDEK_length [of e "c_world s" d w] new Inr by (intro slot_ok_rotate) (auto simp: cfg_ok_def)
    then have "cinv e peek (setKey ns (rotate_sd \<lparr>sd_key = d, sd_material = None, sd_exp = 0, sd_dur = Duration cfg,
                                         sd_before = RenewBefore cfg\<rparr> d z) (tick (setWorld w s)))" for z
      using assms new Inr by (intro cinv_newKey) (auto simp: rotate_sd_def)
    with assms new Inr cfg show ?thesis by (simp add: createStep_def Let_def cinv_setT)
  qed
qed

lemma snapshot_keeps:
  assumes "cinv e peek s" "map_of (v_keys (c_vault s)) ns = Some sd"
  shows "cinv e peek (setT i (TEncrypt ns label data (sd_key sd) (sd_material sd)) s)"
  using assms(1)
proof (rule cinv_setT)
  show "thread_deks (TEncrypt ns label data (sd_key sd) (sd_material sd)) \<subseteq> deks s"
    using slot_dek [OF assms(2)] by simp
  show "thread_ok e (c_vault s) (TEncrypt ns label data (sd_key sd) (sd_material sd))"
    using cinv_slot [OF assms] by (auto simp: slot_ok_def wrapped_def)
qed

lemma thread_dek_in: "c_threads s i = Some t \<Longrightarrow> thread_deks t \<subseteq> deks s"
  by (force simp: deks_def intro: ranI)

lemma cinv_thread: "cinv e peek s \<Longrightarrow> c_threads s i = Some t \<Longrightarrow> thread_ok e (c_vault s) t"
  by (auto simp: cinv_def)

lemma encrypt_keeps:
  assumes "cinv e peek s" "c_threads s i = Some (TEncrypt ns label data dek material)"
  shows "cinv e peek (encryptStep e i ns label data dek material s)"
proof -
  obtain r w where enc: "DEK_Encrypt e dek data (seal_aad (c_vault s) label) (c_world s) = (r, w)"
    by (cases "DEK_Encrypt e dek data (seal_aad (c_vault s) label) (c_world s)")
  have w: "cinv e peek (setWorld w s)" using assms(1) DEK_Encrypt_world [OF enc] by (simp add: cinv_world)
  have t: "length (dek_key dek) = keyBytes" "\<And>m. material = Some m \<Longrightarrow> wrapped (v_registry (c_vault s)) m dek"
    using cinv_thread [OF assms] by auto
  have "made e (c_vault s) label data dek ct" if "r = Inr ct" for ct
    using enc that t(1) unfolding made_def by blast
  with enc w t thread_dek_in [OF assms(2)] show ?thesis
    by (auto simp: encryptStep_def sealedMsg_def intro!: cinv_setT split: sum.splits option.splits)
qed

lemma store_keeps:
  assumes "cinv e peek s" "c_threads s i = Some (TStore ns label data dek ct m)"
  shows "cinv e peek (storeStep i ns label data dek ct m s)"
proof (cases "map_of (v_keys (c_vault s)) ns")
  case None
  with assms(1) show ?thesis by (simp add: storeStep_def cinv_setT)
next
  case (Some cur)
  have t: "made e (c_vault s) label data dek ct" "wrapped (v_registry (c_vault s)) m dek"
    using cinv_thread [OF assms] by auto
  have slot: "slot_ok (v_registry (c_vault s)) cur" using assms(1) Some by (rule cinv_slot)
  have same: "sd_key cur = dek" if "dek_ptr (sd_key cur) = dek_ptr dek"
    using that assms(1) slot_dek [OF Some] thread_dek_in [OF assms(2)] by (auto simp: cinv_def dest: inj_onD)
  have finish: "cinv e peek (setT i (TSealed label data (Inr (sealedMsg (c_vault s') label ct m'))) s')"
    if "cinv e peek s'" "wrapped (v_registry (c_vault s)) m' dek" "v_registry (c_vault s') = v_registry (c_vault s)"
      "v_binding (c_vault s') = v_binding (c_vault s)" for s' m'
    using that t(1) made_cong [OF that(4)] by (intro cinv_setT) (auto simp: sealedMsg_def)
  show ?thesis
  proof (cases "dek_ptr (sd_key cur) = dek_ptr dek")
    case False
    with Some finish [OF assms(1) t(2)] show ?thesis by (simp add: storeStep_def)
  next
    case True
    show ?thesis
    proof (cases "sd_material cur")
      case None
      have "cinv e peek (setKey ns (cur\<lparr>sd_material := Some m\<rparr>) s)"
        using assms(1) slot same [OF True] t(2) slot_dek [OF Some]
        by (intro cinv_setKey) (auto simp: slot_ok_def wrapped_def)
      from finish [OF this t(2)] None True Some show ?thesis
        by (simp add: storeStep_def setKey_def sealedMsg_def)
    next
      case (Some m')
      with slot same [OF True] have "wrapped (v_registry (c_vault s)) m' dek"
        by (auto simp: slot_ok_def wrapped_def)
      with finish [OF assms(1)] Some True \<open>map_of (v_keys (c_vault s)) ns = Some cur\<close> show ?thesis
        by (simp add: storeStep_def)
    qed
  qed
qed

lemma call_done_keeps:
  assumes "cinv e peek s" "c_flight s (ns, q) = Some (c, dek)"
  shows "cinv e peek (s\<lparr>c_flight := (c_flight s)((ns, q) := None),
          c_threads := (\<lambda>i. map_option (deliver (ns, q) (registry_Encrypt (v_registry (c_vault s)) c ns (Some dek)))
                              (c_threads s i))\<rparr>)" (is "cinv e peek ?s")
  using assms(1)
proof (rule cinv_intro [where N = "{}"])
  let ?res = "registry_Encrypt (v_registry (c_vault s)) c ns (Some dek)"
  have flight: "dek_ptr dek = q" "dek \<in> deks s"
    using assms by (auto simp: cinv_def deks_def intro!: ranI rev_image_eqI)
  have del: "thread_deks (deliver k res t) \<subseteq> thread_deks t" for k res t
    by (auto simp: deliver_def split: thread.splits sum.splits if_splits)
  show "deks ?s \<subseteq> deks s \<union> {}"
  proof -
    have "(\<Union>t\<in>Map.ran (c_threads ?s). thread_deks t) \<subseteq> (\<Union>t\<in>Map.ran (c_threads s). thread_deks t)"
      using del by (fastforce simp: Map.ran_def)
    moreover have "Map.ran (c_flight ?s) \<subseteq> Map.ran (c_flight s)" by (auto simp: Map.ran_def)
    ultimately show ?thesis unfolding deks_def by simp blast
  qed
  show "c_threads s i = Some t \<or> thread_ok e (c_vault ?s) t" if t: "c_threads ?s i = Some t" for i t
  proof -
    from t obtain t0 where t0: "c_threads s i = Some t0" "t = deliver (ns, q) ?res t0" by auto
    have ok: "thread_ok e (c_vault s) t0" using assms(1) t0(1) by (rule cinv_thread)
    have "d = dek" if "t0 = TWait ns label data d ct" "dek_ptr d = q" for label data d ct
      using that assms(1) flight thread_dek_in [OF t0(1)] by (auto simp: cinv_def dest: inj_onD)
    with ok t0 show ?thesis
      by (auto simp: deliver_def wrapped_def split: thread.splits sum.splits if_splits)
  qed
  show "c_flight ?s (ns', q') = Some (c', d) \<Longrightarrow> dek_ptr d = q'" for ns' q' c' d
    using assms(1) by (auto simp: cinv_def split: if_splits)
qed (use assms(1) in \<open>auto simp: cinv_def\<close>)

lemma lead_keeps:
  assumes "cinv e peek s" "c_threads s i = Some (TWrap ns label data dek ct)"
  shows "cinv e peek (setT i (TWait ns label data dek ct) (s\<lparr>c_flight := (c_flight s)((ns, dek_ptr dek) \<mapsto> (c, dek))\<rparr>))"
proof (rule cinv_setT)
  let ?s = "s\<lparr>c_flight := (c_flight s)((ns, dek_ptr dek) \<mapsto> (c, dek))\<rparr>"
  have dek: "dek \<in> deks s" using thread_dek_in [OF assms(2)] by simp
  have "snd ` Map.ran (c_flight ?s) \<subseteq> insert dek (snd ` Map.ran (c_flight s))"
    using ran_upd [of "c_flight s" "(ns, dek_ptr dek)" "(c, dek)"] by force
  then have "deks ?s \<subseteq> insert dek (deks s)" unfolding deks_def by simp blast
  with dek have sub: "deks ?s \<subseteq> deks s" by auto
  show "cinv e peek ?s"
    using assms(1)
  proof (rule cinv_intro [where N = "{}"])
    show "c_flight ?s (ns', q') = Some (c', d) \<Longrightarrow> dek_ptr d = q'" for ns' q' c' d
      using assms(1) by (auto simp: cinv_def split: if_splits)
  qed (use assms(1) sub in \<open>auto simp: cinv_def\<close>)
  show "thread_deks (TWait ns label data dek ct) \<subseteq> deks ?s"
    using thread_dek_in [of ?s i] assms(2) by simp
  show "thread_ok e (c_vault ?s) (TWait ns label data dek ct)" using cinv_thread [OF assms] by simp
qed

lemma newDEKs_fresh:
  assumes "newDEKs e ks w = (Inr ds, w')"
  shows "inj_on dek_ptr (snd ` set ds) \<and> ptrs w \<le> ptrs w' \<and> (\<forall>(k, d)\<in>set ds. ptrs w \<le> dek_ptr d \<and> dek_ptr d < ptrs w')"
  using assms
proof (induction ks arbitrary: w ds)
  case (Cons k ks)
  then obtain d w1 ds1 where d: "NewDEK e w = (Inr d, w1)" "newDEKs e ks w1 = (Inr ds1, w')" "ds = (k, d) # ds1"
    by (auto split: prod.splits sum.splits)
  from NewDEK_Inr [OF d(1)] Cons.IH [OF d(2)] d(3) show ?case
    by (fastforce simp: inj_on_def)
qed simp

lemma newDEKs_ptrs: "newDEKs e ks w = (r, w') \<Longrightarrow> ptrs w \<le> ptrs w'"
  by (induction ks arbitrary: w r) (auto dest!: NewDEK_ptrs_le split: prod.splits sum.splits intro: le_trans)

lemma generate_keeps:
  assumes "cinv e peek s" "newDEKs e nss (c_world s) = (Inr ds, w)"
  shows "cinv e peek (setT i (TUpdate ds) (setWorld w s))"
  using assms(1)
proof (rule cinv_intro [where N = "snd ` set ds"])
  let ?s = "setT i (TUpdate ds) (setWorld w s)"
  note fresh = newDEKs_fresh [OF assms(2)]
  show "deks ?s \<subseteq> deks s \<union> snd ` set ds" using deks_setT [of i "TUpdate ds" "setWorld w s"] by simp
  show "inj_on dek_ptr (snd ` set ds)" "ptrs (c_world s) \<le> ptrs (c_world ?s)"
    "\<And>d. d \<in> snd ` set ds \<Longrightarrow> ptrs (c_world s) \<le> dek_ptr d \<and> dek_ptr d < ptrs (c_world ?s)"
    using fresh by (auto simp: cstate_defs)
  have "thread_ok e (c_vault s) (TUpdate ds)"
    using newDEKs_length [OF _ assms(2)] assms(1) by (auto simp: cinv_def)
  then show "c_threads ?s j = Some t \<Longrightarrow> c_threads s j = Some t \<or> thread_ok e (c_vault ?s) t" for j t
    by (auto simp: cstate_defs split: if_splits)
qed (use assms(1) in \<open>auto simp: cinv_def cstate_defs\<close>)

lemma rotateKeys_deks:
  assumes "rotateKeys now ds keys w = (rotated, keys', w')"
  shows "sd_key ` snd ` set keys' \<subseteq> sd_key ` snd ` set keys \<union> snd ` set ds \<and> ptrs w' = ptrs w"
  using assms
proof (induction ds arbitrary: keys w rotated)
  case (Cons u ds)
  obtain k d where u: "u = (k, d)" by (cases u)
  show ?case
  proof (cases "map_of keys k")
    case None
    with Cons.prems u have "rotateKeys now ds keys w = (rotated, keys', w')" by simp
    from Cons.IH [OF this] u show ?thesis by (simp, blast)
  next
    case (Some sd)
    let ?w = "w\<lparr>ticks := Suc (ticks w)\<rparr>" and ?w2 = "w\<lparr>ticks := Suc (Suc (ticks w))\<rparr>"
    let ?keys = "AList.update k (rotate_sd sd d (now (Suc (ticks w)))) keys"
    show ?thesis
    proof (cases "isExpired sd (now (ticks w))")
      case False
      with Some Cons.prems u have "rotateKeys now ds keys ?w = (rotated, keys', w')"
        by (simp add: readClock_def)
      from Cons.IH [OF this] u show ?thesis by (simp, blast)
    next
      case True
      with Some Cons.prems u obtain ro where "rotateKeys now ds ?keys ?w2 = (ro, keys', w')"
        by (auto simp: readClock_def split: prod.splits)
      from Cons.IH [OF this] slot_deks_update [of k "rotate_sd sd d (now (Suc (ticks w)))" keys] u
      show ?thesis by (simp add: rotate_sd_def) blast
    qed
  qed
qed auto

lemma update_keeps:
  assumes "cinv e peek s" "c_threads s i = Some (TUpdate ds)"
    and rot: "rotateKeys (v_nowFn (c_vault s)) ds (v_keys (c_vault s)) (c_world s) = (rotated, keys, w)"
  shows "cinv e peek (setT i (TRefreshed None) (setWorld w (s\<lparr>c_vault := (c_vault s)\<lparr>v_keys := keys\<rparr>\<rparr>)))"
    (is "cinv e peek ?s")
  using assms(1)
proof (rule cinv_intro [where N = "{}"])
  have ds: "snd ` set ds \<subseteq> deks s" "\<And>k d. (k, d) \<in> set ds \<Longrightarrow> length (dek_key d) = keyBytes"
    using thread_dek_in [OF assms(2)] cinv_thread [OF assms(1,2)] by auto
  have keys: "keys_ok (v_registry (c_vault s)) keys"
    using assms(1) ds(2) by (intro rotateKeys_ok [OF rot]) (auto simp: cinv_def vault_inv_def)
  then show "vault_inv peek (c_vault ?s)"
    using assms(1) by (auto simp: cinv_def vault_inv_def cstate_defs)
  have "(\<Union>t\<in>Map.ran (c_threads ?s). thread_deks t) \<subseteq> (\<Union>t\<in>Map.ran (c_threads s). thread_deks t)"
    using ran_upd [of "c_threads s" i "TRefreshed None"] by (fastforce simp: setT_def setWorld_def)
  moreover have "sd_key ` snd ` set keys \<subseteq> deks s"
    using rotateKeys_deks [OF rot] ds(1) unfolding deks_def by blast
  ultimately show "deks ?s \<subseteq> deks s \<union> {}" by (auto simp: deks_def cstate_defs)
  show "ptrs (c_world s) \<le> ptrs (c_world ?s)" using rotateKeys_deks [OF rot] by (simp add: cstate_defs)
qed (use assms(1) in \<open>auto simp: cinv_def cstate_defs split: if_splits\<close>)

lemma cstep_keeps:
  assumes "cinv e peek s" "cstep e s s'"
  shows "cinv e peek s'"
  using assms(2)
proof cases
  case (generate_fails i nss err w)
  then show ?thesis using assms(1) newDEKs_ptrs by (auto intro!: cinv_setT cinv_world)
next
  case (scan i nss w)
  then show ?thesis using assms(1) expiredKeys_world [OF scan(3)] by (simp add: cinv_setT cinv_world)
next
  case (join i ns label data dek ct call)
  then show ?thesis using assms(1) thread_dek_in cinv_thread by (fastforce intro!: cinv_setT)
qed (use assms(1) in \<open>auto intro!: cinv_setT start_keeps rotate_keeps create_keeps snapshot_keeps encrypt_keeps
    lead_keeps call_done_keeps store_keeps generate_keeps update_keeps\<close>)

section \<open>Runs\<close>

text \<open>A run starts with a vault that \<open>NewVault\<close> built, no goroutine and no call in flight.\<close>

inductive cstart :: "'c vault_env \<Rightarrow> KEKRegistry \<Rightarrow> 'c cstate \<Rightarrow> bool" for e :: "'c vault_env" and r where
  "list_all vault_option opts \<Longrightarrow> NewVault e (Some r) opts w = (Inr v, w') \<Longrightarrow>
   cstart e r \<lparr>c_vault = v, c_world = w', c_threads = Map.empty, c_flight = Map.empty\<rparr>"

lemma initKeys_fresh:
  assumes "initKeys e now cfgs keys w = (Inr keys', w')"
    and "inj_on dek_ptr (sd_key ` snd ` set keys)" "\<forall>d\<in>sd_key ` snd ` set keys. dek_ptr d < ptrs w"
  shows "inj_on dek_ptr (sd_key ` snd ` set keys') \<and> (\<forall>d\<in>sd_key ` snd ` set keys'. dek_ptr d < ptrs w')"
  using assms
proof (induction cfgs arbitrary: keys w)
  case (Cons u cfgs)
  obtain k cfg where u: "u = (k, cfg)" by (cases u)
  from Cons.prems(1) u obtain d w1 where d: "NewDEK e w = (Inr d, w1)"
    by (auto split: prod.splits sum.splits)
  let ?sd = "rotate_sd \<lparr>sd_key = d, sd_material = None, sd_exp = 0, sd_dur = Duration cfg,
      sd_before = RenewBefore cfg\<rparr> d (now (ticks w1))"
  let ?keys = "AList.update k ?sd keys" and ?w = "w1\<lparr>ticks := Suc (ticks w1)\<rparr>"
  have rec: "initKeys e now cfgs ?keys ?w = (Inr keys', w')"
    using Cons.prems(1) u d by (simp add: readClock_def)
  have sub: "sd_key ` snd ` set ?keys \<subseteq> insert d (sd_key ` snd ` set keys)"
    using slot_deks_update [of k ?sd keys] by (simp add: rotate_sd_def)
  have "inj_on dek_ptr (insert d (sd_key ` snd ` set keys))"
    using Cons.prems(2,3) NewDEK_Inr [OF d] by (fastforce simp: inj_on_insert)
  then have "inj_on dek_ptr (sd_key ` snd ` set ?keys)" using sub by (rule inj_on_subset)
  moreover have "\<forall>x\<in>sd_key ` snd ` set ?keys. dek_ptr x < ptrs ?w"
    using sub Cons.prems(3) NewDEK_Inr [OF d] by (fastforce simp del: AList.update.simps)
  ultimately show ?case using Cons.IH [OF rec] by blast
qed simp

lemma cstart_inv:
  assumes "rand_ok e" "lru_ok e peek" "registry_wf r" "cstart e r s"
  shows "cinv e peek s"
  using assms(4)
proof cases
  case (1 opts w v w')
  have "inj_on dek_ptr (sd_key ` snd ` set (v_keys v)) \<and> (\<forall>d\<in>sd_key ` snd ` set (v_keys v). dek_ptr d < ptrs w')"
    using initKeys_fresh [OF NewVault_Inr(7) [OF 1(3)]] by simp
  with 1 NewVault_inv [OF assms(1-3)] assms(1) show ?thesis by (simp add: cinv_def deks_def)
qed

text \<open>The invariant and the registry, for the interface of runs.\<close>

definition crun :: "'c vault_env \<Rightarrow> ('c \<Rightarrow> string \<Rightarrow> DEK option) \<Rightarrow> KEKRegistry \<Rightarrow> 'c cstate \<Rightarrow> bool" where
  "crun e peek r s \<longleftrightarrow> cinv e peek s \<and> v_registry (c_vault s) = r"

lemma cstep_registry: "cstep e s s' \<Longrightarrow> v_registry (c_vault s') = v_registry (c_vault s)"
  by (cases rule: cstep.cases)
    (auto simp: cstate_defs startStep_def rotateStep_def createStep_def encryptStep_def storeStep_def Let_def
      split: option.splits prod.splits sum.splits)

interpretation concurrent: reachable_invariant "cstep e" "crun e peek r"
    "\<lambda>s. rand_ok e \<and> lru_ok e peek \<and> registry_wf r \<and> cstart e r s"
  for e peek r
proof unfold_locales
  show "crun e peek r s \<Longrightarrow> cstep e s s' \<Longrightarrow> crun e peek r s'" for s s'
    by (auto simp: crun_def cstep_keeps cstep_registry)
next
  show "rand_ok e \<and> lru_ok e peek \<and> registry_wf r \<and> cstart e r s \<Longrightarrow> crun e peek r s" for s
    using cstart_inv [of e peek r s] NewVault_Inr(2) by (fastforce simp: crun_def elim: cstart.cases)
qed

text \<open>
  C5. Sealing is safe under concurrency. In every interleaving of any number of \<open>Seal\<close> and
  \<open>Refresh\<close> calls, whatever DEK is rotated while a KEK call is in flight and whichever
  goroutines share that call, a \<open>Seal\<close> that returns a message returns one that every vault over
  the same registry opens to the data it was given: its material is never that of another DEK.
\<close>

theorem concurrent_Seal_opens:
  assumes env: "aead_correct e" "rand_ok e" "lru_ok e peek"
    and reg: "NewKEKRegistry kopts = Inr r" "registry_opens r c'" "registry_unambiguous r"
    and run: "runs_from (cstart e r) (cstep e) s" "c_threads s i = Some (TSealed label data (Inr msg))"
    and opener: "vault_reachable e r (v2, w2)"
    and strict: "v_binding v2 = BindingStrict \<Longrightarrow>
        v_binding (c_vault s) \<noteq> BindingOff \<and> (expected = None \<or> expected = Some label)"
  shows "fst (Open e v2 c' (Some msg) expected w2) = Inr data"
proof -
  have wf: "registry_wf r" using reg(1) by (rule NewKEKRegistry_wf)
  then have "runs_from (\<lambda>s. rand_ok e \<and> lru_ok e peek \<and> registry_wf r \<and> cstart e r s) (cstep e) s"
    using run(1) env by (auto simp: runs_from_def)
  then have inv: "cinv e peek s" "v_registry (c_vault s) = r"
    using concurrent.reachable_I by (auto simp: crun_def)
  from cinv_thread [OF inv(1) run(2)] obtain d m where
    d: "made e (c_vault s) label data d (Ciphertext msg)" "wrapped r m d"
    and msg: "msg = sealedMsg (c_vault s) label (Ciphertext msg) m"
    by (auto simp: inv(2))
  from d(1) obtain wa wb :: vworld where len: "length (dek_key d) = keyBytes"
    and enc: "DEK_Encrypt e d data (seal_aad (c_vault s) label) wa = (Inr (Ciphertext msg), wb)"
    by (auto simp: made_def simp del: split_paired_Ex)
  have fields: "Bound msg = (v_binding (c_vault s) \<noteq> BindingOff)" "KeyMaterial msg = Some m"
    "Namespace msg = (if v_binding (c_vault s) \<noteq> BindingOff then label else [])"
    by (subst msg, simp add: sealedMsg_def)+
  have "unwraps r c' m (dek_key d)"
    using d(2) wf reg(2) by (auto simp: wrapped_def intro: registry_Encrypt_unwraps)
  moreover have "refusal v2 msg (open_opts expected) = None"
    using strict fields by (auto simp: refusal_def split: option.splits)
  moreover note vault_reachable_inv [OF env(2,3) reg(1) opener]
  moreover have "DEK_Encrypt e d data (if Bound msg then namespaceAAD (Namespace msg) else []) wa
      = (Inr (Ciphertext msg), wb)"
    using enc fields by (simp split: if_splits)
  ultimately show ?thesis
    unfolding Open_fst using env reg(3) fields(2) len by (intro open_made [OF env _ _ _ _ _ _ carries_refl]) simp_all
qed

section \<open>Witness\<close>

text \<open>One goroutine from the start to its message, step by step.\<close>

definition ex_ct :: bytes where
  "ex_ct = Ciphertext ex_msg"

definition ex_c0 :: "(string \<times> DEK) list cstate" where
  "ex_c0 = \<lparr>c_vault = ex_vault, c_world = ex_world1, c_threads = Map.empty, c_flight = Map.empty\<rparr>"

definition ex_c1 :: "(string \<times> DEK) list cstate" where
  "ex_c1 = setT 0 (TStart ''ns'' ''ns'' ''secret'') ex_c0"

definition ex_c2 :: "(string \<times> DEK) list cstate" where
  "ex_c2 = startStep 0 ''ns'' ''ns'' ''secret'' ex_c1"

definition ex_c3 :: "(string \<times> DEK) list cstate" where
  "ex_c3 = setT 0 (TEncrypt ''ns'' ''ns'' ''secret'' ex_key None) ex_c2"

definition ex_c4 :: "(string \<times> DEK) list cstate" where
  "ex_c4 = encryptStep ex_env 0 ''ns'' ''ns'' ''secret'' ex_key None ex_c3"

definition ex_c5 :: "(string \<times> DEK) list cstate" where
  "ex_c5 = setT 0 (TWait ''ns'' ''ns'' ''secret'' ex_key ex_ct) (ex_c4\<lparr>c_flight := (c_flight ex_c4)((''ns'', 0) \<mapsto> (5, ex_key))\<rparr>)"

definition ex_c6 :: "(string \<times> DEK) list cstate" where
  "ex_c6 = ex_c5\<lparr>c_flight := (c_flight ex_c5)((''ns'', 0) := None),
          c_threads := (\<lambda>i. map_option (deliver (''ns'', 0) (registry_Encrypt ex_registry 5 ''ns'' (Some ex_key)))
                              (c_threads ex_c5 i))\<rparr>"

definition ex_c7 :: "(string \<times> DEK) list cstate" where
  "ex_c7 = storeStep 0 ''ns'' ''ns'' ''secret'' ex_key ex_ct ex_material ex_c6"

lemma ex_c2_eq: "ex_c2 = \<lparr>c_vault = ex_vault, c_world = ex_world1\<lparr>ticks := 2\<rparr>,
    c_threads = [0 \<mapsto> TSnapshot ''ns'' ''ns'' ''secret''], c_flight = Map.empty\<rparr>"
  by (simp add: ex_c2_def ex_c1_def ex_c0_def startStep_def cstate_defs ex_vault_def ex_world1_def isExpired_def)

lemma ex_c4_eq: "ex_c4 = \<lparr>c_vault = ex_vault, c_world = ex_world1\<lparr>ticks := 2, reads := 2\<rparr>,
    c_threads = [0 \<mapsto> TWrap ''ns'' ''ns'' ''secret'' ex_key ex_ct], c_flight = Map.empty\<rparr>"
  by (simp add: ex_c4_def ex_c3_def ex_c2_eq encryptStep_def cstate_defs DEK_Encrypt_def ex_env_def ex_ct_def ex_msg_def
      nonceSize_def ex_vault_def ex_world1_def BindingStrict_def BindingOff_def)

lemma ex_wrap: "registry_Encrypt ex_registry c ''ns'' (Some ex_key) = Inr ex_material"
  by (simp add: registry_Encrypt_def ex_registry_def ex_kek_def ex_key_def ex_material_def materialVersion_def)

lemma ex_c6_eq: "ex_c6 = \<lparr>c_vault = ex_vault, c_world = ex_world1\<lparr>ticks := 2, reads := 2\<rparr>,
    c_threads = [0 \<mapsto> TStore ''ns'' ''ns'' ''secret'' ex_key ex_ct ex_material], c_flight = Map.empty\<rparr>"
proof -
  have "dek_ptr ex_key = 0" by (simp add: ex_key_def)
  then show ?thesis by (simp add: ex_c6_def ex_c5_def ex_c4_eq ex_wrap setT_def deliver_def fun_eq_iff)
qed

lemma ex_c7_thread: "c_threads ex_c7 0 = Some (TSealed ''ns'' ''secret'' (Inr ex_msg))" "v_binding (c_vault ex_c7) = BindingStrict"
  by (simp_all add: ex_c7_def ex_c6_eq storeStep_def cstate_defs ex_vault_def ex_key_def sealedMsg_def ex_msg_def ex_ct_def
      BindingStrict_def BindingOff_def)

lemma ex_crun: "runs_from (cstart ex_env ex_registry) (cstep ex_env) ex_c7"
proof -
  obtain opts w where "list_all vault_option opts" "NewVault ex_env (Some ex_registry) opts w = (Inr ex_vault, ex_world1)"
    using ex_new by (auto simp: list_all_iff)
  then have "runs_from (cstart ex_env ex_registry) (cstep ex_env) ex_c0"
    unfolding ex_c0_def by (intro runs_from_start cstart.intros)
  moreover have "cstep ex_env ex_c0 ex_c1" unfolding ex_c1_def by (rule cstep.spawn_seal) (simp add: ex_c0_def)
  moreover have "cstep ex_env ex_c1 ex_c2" unfolding ex_c2_def by (rule cstep.start) (simp add: ex_c1_def setT_def)
  moreover have "cstep ex_env ex_c2 ex_c3"
    using cstep.snapshot [of ex_c2 0 "''ns''" "''ns''" "''secret''" _ ex_env]
    by (simp add: ex_c3_def ex_c2_eq ex_vault_def ex_key_def)
  moreover have "cstep ex_env ex_c3 ex_c4" unfolding ex_c4_def by (rule cstep.encrypt) (simp add: ex_c3_def setT_def)
  moreover have "cstep ex_env ex_c4 ex_c5"
    using cstep.lead [of ex_c4 0 "''ns''" "''ns''" "''secret''" ex_key ex_ct ex_env 5]
    by (simp add: ex_c5_def ex_c4_eq ex_key_def)
  moreover have "cstep ex_env ex_c5 ex_c6"
    using cstep.call_done [of ex_c5 "''ns''" 0 5 ex_key ex_env]
    by (simp add: ex_c6_def ex_c5_def setT_def ex_c4_eq ex_vault_def)
  moreover have "cstep ex_env ex_c6 ex_c7" unfolding ex_c7_def by (rule cstep.store) (simp add: ex_c6_eq)
  ultimately show ?thesis by (meson runs_from_step)
qed

theorem concurrent_Seal_opens_witness:
  "fst (Open ex_env ex_vault2 3 (Some ex_msg) (Some ''ns'') ex_world2) = Inr ''secret''"
  by (rule concurrent_Seal_opens [OF ex_env_ok(1,3,4) ex_registry_new ex_registry_ok ex_crun ex_c7_thread(1) ex_reachable2])
    (simp add: ex_c7_thread BindingStrict_def BindingOff_def)

end
