(* ===== verification/Services.thy ===== *)
theory Services
  imports Go_Prelude "HOL-Library.List_Lexorder" "HOL-Library.Char_ord"
begin

text \<open>
  \<open>internal/services\<close> (the forwardable services and the allowlist) and the method paths of
  \<open>internal/rpc/path.go\<close>. An allowlist is the set of names it admits; the locale \<open>allowlist\<close>
  is the interface the gateway uses, and says what publishing the set and querying it have to do
  with each other.
\<close>

section \<open>Names\<close>

definition WorkflowService :: string where
  "WorkflowService = ''temporal.api.workflowservice.v1.WorkflowService''"

definition OperatorService :: string where
  "OperatorService = ''temporal.api.operatorservice.v1.OperatorService''"

definition Reflection :: string where
  "Reflection = ''grpc.reflection.v1.ServerReflection''"

definition ReflectionV1Alpha :: string where
  "ReflectionV1Alpha = ''grpc.reflection.v1alpha.ServerReflection''"

definition aliases :: "string list gomap" where
  "aliases = [(Reflection, [ReflectionV1Alpha])]"

text \<open>Indexing a Go map of slices: a missing key gives the nil slice.\<close>

definition lookup_all :: "'v list gomap \<Rightarrow> string \<Rightarrow> 'v list" where
  "lookup_all m k = (case map_of m k of None \<Rightarrow> [] | Some vs \<Rightarrow> vs)"

definition Default :: "string list" where
  "Default = [WorkflowService, OperatorService]"

definition Known :: "string list" where
  "Known = [WorkflowService, OperatorService, Reflection]"

definition expand :: "string list \<Rightarrow> string list" where
  "expand names =
     fold (\<lambda>name out. fold (\<lambda>alias out. if List.member out alias then out else out @ [alias]) (lookup_all aliases name) out)
       names names"

definition All :: "string list" where
  "All = expand Known"

text \<open>\<open>Resolve\<close>: \<open>reg\<close> is the linked proto registry, which knows a name as a service, as another
  kind of descriptor, or not at all.\<close>

datatype descriptor = ServiceDescriptor string | OtherDescriptor

definition Resolve_service :: "(string \<Rightarrow> descriptor result) \<Rightarrow> string \<Rightarrow> string result" where
  "Resolve_service reg name =
     (case reg name of
        Inl err \<Rightarrow> Inl (WrapError (''service '' @ name @ '' is not registered: '' @ Error err) [err])
      | Inr (ServiceDescriptor sd) \<Rightarrow> Inr sd
      | Inr OtherDescriptor \<Rightarrow> Inl (ErrorString (name @ '' is not a service'')))"

section \<open>The allowlist\<close>

type_synonym allowSet = "unit gomap"

definition NewAllowlist :: "string list \<Rightarrow> allowSet" where
  "NewAllowlist names = fold (\<lambda>name set. AList.update name () set) (expand names) []"

definition Allows :: "allowSet \<Rightarrow> string \<Rightarrow> bool" where
  "Allows s name = (map_of s name \<noteq> None)"

definition ServiceNames :: "allowSet \<Rightarrow> string list" where
  "ServiceNames s = sort (map fst s)"

section \<open>Method paths\<close>

definition ServiceMethod :: "string \<Rightarrow> string \<times> string \<times> bool" where
  "ServiceMethod fullMethod =
     (let trimmed = TrimPrefix fullMethod ''/''
      in case LastIndexChar trimmed (CHR ''/'') of
           None \<Rightarrow> ([], [], False)
         | Some slash \<Rightarrow> (take slash trimmed, drop (slash + 1) trimmed, True))"

definition Service :: "string \<Rightarrow> string" where
  "Service fullMethod = fst (ServiceMethod fullMethod)"

section \<open>Lemmas\<close>

lemma set_add_new: "set (if List.member out a then out else out @ [a]) = insert a (set out)"
  by auto

lemma set_fold_add:
  "set (fold (\<lambda>a out. if List.member out a then out else out @ [a]) as out) = set out \<union> set as"
proof (induction as arbitrary: out)
  case (Cons a as)
  then show ?case by (simp only: fold.simps comp_def set_add_new) auto
qed simp

lemma set_fold_expand:
  "set (fold (\<lambda>name out. fold (\<lambda>alias out. if List.member out alias then out else out @ [alias]) (f name) out) names out)
   = set out \<union> (\<Union>n\<in>set names. set (f n))"
proof (induction names arbitrary: out)
  case (Cons n ns)
  then show ?case by (simp only: fold.simps comp_def set_fold_add) auto
qed simp

lemma set_expand: "set (expand names) = set names \<union> (\<Union>n\<in>set names. set (lookup_all aliases n))"
  unfolding expand_def set_fold_expand ..

lemma set_aliases: "a \<in> set (lookup_all aliases n) \<longleftrightarrow> n = Reflection \<and> a = ReflectionV1Alpha"
  by (auto simp: lookup_all_def aliases_def)

lemma fst_fold_update:
  "fst ` set (fold (\<lambda>name set. AList.update name v set) names al) = fst ` set al \<union> set names"
  by (induction names arbitrary: al) auto

lemma distinct_fold_update:
  "distinct (map fst al) \<Longrightarrow> distinct (map fst (fold (\<lambda>name set. AList.update name v set) names al))"
  by (induction names arbitrary: al) simp_all

lemma Allows_iff: "Allows (NewAllowlist names) s \<longleftrightarrow> s \<in> set (expand names)"
  unfolding Allows_def NewAllowlist_def by (simp add: map_of_eq_None_iff fst_fold_update)

locale allowlist =
  fixes allows :: "string \<Rightarrow> bool" and names :: "string list"
  assumes names_allowed: "s \<in> set names \<longleftrightarrow> allows s"
    and names_sorted: "sorted names" "distinct names"
begin

lemma names_unique: "sorted xs \<Longrightarrow> distinct xs \<Longrightarrow> (\<forall>s. s \<in> set xs \<longleftrightarrow> allows s) \<Longrightarrow> xs = names"
  using names_allowed names_sorted by (intro sorted_distinct_set_unique) auto

end

interpretation allowed: allowlist "Allows (NewAllowlist ns)" "ServiceNames (NewAllowlist ns)" for ns
proof unfold_locales
  show "s \<in> set (ServiceNames (NewAllowlist ns)) \<longleftrightarrow> Allows (NewAllowlist ns) s" for s
    unfolding Allows_iff by (simp add: ServiceNames_def NewAllowlist_def fst_fold_update)
  show "sorted (ServiceNames (NewAllowlist ns))" by (simp add: ServiceNames_def)
  show "distinct (ServiceNames (NewAllowlist ns))"
    unfolding ServiceNames_def NewAllowlist_def distinct_sort by (rule distinct_fold_update) simp
qed

lemma ServiceMethod_path:
  "CHR ''/'' \<notin> set m \<Longrightarrow> ServiceMethod (''/'' @ s @ ''/'' @ m) = (s, m, True)"
  using LastIndexChar_append [of "CHR ''/''" m s] TrimPrefix_append [of "''/''" "s @ ''/'' @ m"]
  by (simp add: ServiceMethod_def Let_def)

section \<open>Properties\<close>

text \<open>
  The allowlist admits exactly the configured names, plus the superseded reflection service
  when the current one is configured; the relation is one-way. What it publishes is the sorted
  list, without repetition, of exactly the names it admits.
\<close>

theorem NewAllowlist_admits:
  "(Allows (NewAllowlist names) s \<longleftrightarrow> s \<in> set names \<or> s = ReflectionV1Alpha \<and> Reflection \<in> set names)
   \<and> ServiceNames (NewAllowlist names) = sorted_list_of_set {s. Allows (NewAllowlist names) s}"
proof
  show "Allows (NewAllowlist names) s \<longleftrightarrow> s \<in> set names \<or> s = ReflectionV1Alpha \<and> Reflection \<in> set names"
    unfolding Allows_iff by (auto simp: set_expand set_aliases)
  have "finite {s. Allows (NewAllowlist names) s}" by (simp add: Allows_iff)
  then show "ServiceNames (NewAllowlist names) = sorted_list_of_set {s. Allows (NewAllowlist names) s}"
    by (intro allowed.names_unique [symmetric]) simp_all
qed

text \<open>
  Splitting a full method undoes joining: the path of a service and a method without a slash
  splits into the two, with and without the leading slash that gRPC supplies, and a path is
  refused only when no slash is left after the leading one.
\<close>

theorem ServiceMethod_split:
  "(CHR ''/'' \<notin> set m \<longrightarrow> ServiceMethod (''/'' @ s @ ''/'' @ m) = (s, m, True))
   \<and> (CHR ''/'' \<notin> set m \<and> \<not> HasPrefix s ''/'' \<longrightarrow> s \<noteq> [] \<longrightarrow> ServiceMethod (s @ ''/'' @ m) = (s, m, True))
   \<and> (snd (snd (ServiceMethod p)) = False \<longleftrightarrow> CHR ''/'' \<notin> set (TrimPrefix p ''/''))"
proof (intro conjI impI)
  show "ServiceMethod (''/'' @ s @ ''/'' @ m) = (s, m, True)" if "CHR ''/'' \<notin> set m"
    using that by (rule ServiceMethod_path)
  show "ServiceMethod (s @ ''/'' @ m) = (s, m, True)"
    if "CHR ''/'' \<notin> set m \<and> \<not> HasPrefix s ''/''" "s \<noteq> []"
  proof -
    have "TrimPrefix (s @ ''/'' @ m) ''/'' = s @ ''/'' @ m"
      using that by (cases s) (simp_all add: TrimPrefix_def HasPrefix_def)
    with that show ?thesis by (simp add: ServiceMethod_def Let_def)
  qed
  show "snd (snd (ServiceMethod p)) = False \<longleftrightarrow> CHR ''/'' \<notin> set (TrimPrefix p ''/'')"
    unfolding LastIndexChar_None [symmetric] by (auto simp del: LastIndexChar_None simp: ServiceMethod_def Let_def split: option.splits)
qed

theorem ServiceMethod_split_witness:
  "ServiceMethod (''/'' @ WorkflowService @ ''/'' @ ''PollWorkflowTaskQueue'') = (WorkflowService, ''PollWorkflowTaskQueue'', True)
   \<and> ServiceMethod (WorkflowService @ ''/'' @ ''PollWorkflowTaskQueue'') = (WorkflowService, ''PollWorkflowTaskQueue'', True)"
  using ServiceMethod_split [of "''PollWorkflowTaskQueue''" WorkflowService "[]"]
  by (simp add: WorkflowService_def HasPrefix_def)

end
