(* ===== verification/Protoutil.thy ===== *)
theory Protoutil
  imports Services
begin

text \<open>
  \<open>internal/protoutil\<close>: the plan of where a message type carries namespace names (\<open>plan.go\<close>), the
  translator that applies plans and caches them (\<open>translate.go\<close>) and the extractor that reads the
  namespace of an encoded request (\<open>extractor.go\<close>).

  A schema gives the fields of every message type by its full name; protobuf's reflection over a
  message is a tree of field values by name, in which a field is present or not. A plan is a node
  of a graph that may be cyclic: a pointer to a plan is the full name it is built for, and the
  memo of a build maps full names to nodes.
\<close>

section \<open>Descriptors and messages\<close>

datatype Kind = StringKind | MessageKind string | OtherKind

record FieldDescriptor =
  fd_Name :: string
  fd_Kind :: Kind
  fd_IsList :: bool
  fd_MapValue :: "Kind option"

type_synonym schema = "FieldDescriptor list gomap"

datatype pmsg = PMsg string "(string \<times> pval) list"
  and pval = PStr string | PStrs "string list" | PSub pmsg | PSubs "pmsg list" | PMap "(string \<times> pmsg) list" | POther string

section \<open>Plans\<close>

definition namespaceNameOverrides :: "string list gomap" where
  "namespaceNameOverrides = [(''temporal.api.namespace.v1.NamespaceInfo'', [''name''])]"

definition isNamespaceName :: "string \<Rightarrow> FieldDescriptor \<Rightarrow> bool" where
  "isNamespaceName md fd =
     (if fd_Kind fd \<noteq> StringKind then False
      else if HasSuffix (fd_Name fd) ''namespace'' then True
      else List.member (lookup_all namespaceNameOverrides md) (fd_Name fd))"

definition childMessage :: "FieldDescriptor \<Rightarrow> string option" where
  "childMessage fd =
     (case fd_MapValue fd of
        Some (MessageKind v) \<Rightarrow> Some v
      | Some _ \<Rightarrow> None
      | None \<Rightarrow> (case fd_Kind fd of MessageKind md \<Rightarrow> Some md | _ \<Rightarrow> None))"

record nsPlan =
  names :: "FieldDescriptor list"
  children :: "(FieldDescriptor \<times> string) list"

definition emptyPlan :: nsPlan where
  "emptyPlan = \<lparr>names = [], children = []\<rparr>"

definition plan_empty :: "nsPlan \<Rightarrow> bool" where
  "plan_empty p = (names p = [] \<and> children p = [])"

text \<open>\<open>buildNode\<close> and its loop. The node under construction is in the memo while its fields are
  walked, and what it holds is read by no one until then; \<open>None\<close> is running out of fuel.\<close>

fun buildNode :: "nat \<Rightarrow> schema \<Rightarrow> string \<Rightarrow> nsPlan gomap \<Rightarrow> nsPlan gomap option"
  and buildFields :: "nat \<Rightarrow> schema \<Rightarrow> string \<Rightarrow> FieldDescriptor list \<Rightarrow> nsPlan \<Rightarrow> nsPlan gomap \<Rightarrow> (nsPlan \<times> nsPlan gomap) option" where
  "buildNode 0 sch md memo = None"
| "buildNode (Suc n) sch md memo =
     (if map_of memo md \<noteq> None then Some memo
      else case buildFields n sch md (lookup_all sch md) emptyPlan (AList.update md emptyPlan memo) of
             None \<Rightarrow> None
           | Some (p, memo') \<Rightarrow> Some (AList.update md p memo'))"
| "buildFields n sch md [] p memo = Some (p, memo)"
| "buildFields n sch md (fd # fds) p memo =
     (if fd_Kind fd = StringKind \<and> isNamespaceName md fd
      then buildFields n sch md fds (p\<lparr>names := names p @ [fd]\<rparr>) memo
      else case childMessage fd of
             None \<Rightarrow> buildFields n sch md fds p memo
           | Some sub \<Rightarrow>
               (case buildNode n sch sub memo of
                  None \<Rightarrow> None
                | Some memo' \<Rightarrow> buildFields n sch md fds (p\<lparr>children := children p @ [(fd, sub)]\<rparr>) memo'))"

text \<open>\<open>pruneDead\<close>: the set \<open>live\<close>, a round over the memo, the loop until nothing changes.\<close>

definition liveStep :: "string \<times> nsPlan \<Rightarrow> string list \<times> bool \<Rightarrow> string list \<times> bool" where
  "liveStep e st =
     (let (name, p) = e; (live, changed) = st
      in if List.member live name then (live, changed)
         else if list_ex (\<lambda>(fd, sub). List.member live sub) (children p) then (name # live, True)
         else (live, changed))"

definition liveRound :: "nsPlan gomap \<Rightarrow> string list \<Rightarrow> string list \<times> bool" where
  "liveRound memo live = fold liveStep memo (live, False)"

lemma liveStep_mono: "set (fst st) \<subseteq> set (fst (liveStep e st))"
  by (auto simp: liveStep_def Let_def split: prod.splits)

lemma fold_liveStep_mono: "set (fst st) \<subseteq> set (fst (fold liveStep memo st))"
proof (induction memo arbitrary: st)
  case (Cons e memo)
  then show ?case using liveStep_mono by fastforce
qed simp

text \<open>A round that reports a change has made an entry of the memo live.\<close>

lemma fold_liveStep_changed:
  "snd (fold liveStep memo st) \<Longrightarrow> snd st \<or> (\<exists>(n, p)\<in>set memo. n \<notin> set (fst st) \<and> n \<in> set (fst (fold liveStep memo st)))"
proof (induction memo arbitrary: st)
  case (Cons e memo)
  obtain n p where e: "e = (n, p)" by (cases e)
  from Cons.prems Cons.IH [of "liveStep e st"] consider
      "snd (liveStep e st)"
    | n' p' where "(n', p') \<in> set memo" "n' \<notin> set (fst (liveStep e st))" "n' \<in> set (fst (fold liveStep memo (liveStep e st)))"
    by auto
  then show ?case
  proof cases
    case 1
    then have "snd st \<or> n \<notin> set (fst st) \<and> n \<in> set (fst (liveStep e st))"
      by (auto simp: liveStep_def e Let_def split: prod.splits if_splits)
    then show ?thesis using fold_liveStep_mono [of "liveStep e st" memo] e by auto
  next
    case 2
    then show ?thesis using liveStep_mono [of st e] by auto
  qed
qed simp

function liveLoop :: "nsPlan gomap \<Rightarrow> string list \<Rightarrow> string list" where
  "liveLoop memo live =
     (let (live', changed) = liveRound memo live
      in if changed then liveLoop memo live' else live')"
  by pat_completeness auto

termination
proof (relation "measure (\<lambda>(memo, live). card (fst ` set memo - set live))", goal_cases)
  case (2 memo live x live' changed)
  then have c: "fold liveStep memo (live, False) = (live', True)" by (simp add: liveRound_def)
  with fold_liveStep_changed [of memo "(live, False)"] fold_liveStep_mono [of "(live, False)" memo]
  have "fst ` set memo - set live' \<subset> fst ` set memo - set live" by force
  then show ?case by (simp add: psubset_card_mono)
qed simp

declare liveLoop.simps [simp del]

definition pruneDead :: "nsPlan gomap \<Rightarrow> nsPlan gomap" where
  "pruneDead memo =
     (let live = liveLoop memo (map fst (filter (\<lambda>(name, p). names p \<noteq> []) memo))
      in map (\<lambda>(name, p). (name, p\<lparr>children := filter (\<lambda>(fd, sub). List.member live sub) (children p)\<rparr>)) memo)"

text \<open>Fuel for a build: one more than the types that can be met.\<close>

definition type_names :: "schema \<Rightarrow> string \<Rightarrow> string list" where
  "type_names sch md = md # concat (map (\<lambda>(name, fds). name # List.map_filter childMessage fds) sch)"

definition buildPlan :: "schema \<Rightarrow> string \<Rightarrow> nsPlan gomap option" where
  "buildPlan sch md = map_option pruneDead (buildNode (Suc (length (type_names sch md))) sch md [])"

section \<open>Applying a plan\<close>

text \<open>The loop over \<open>names\<close>: a present string, or the strings of a list, empty ones untouched.\<close>

definition rewriteVal :: "(string \<Rightarrow> string) \<Rightarrow> pval \<Rightarrow> pval" where
  "rewriteVal fn v =
     (case v of
        PStr s \<Rightarrow> PStr (if s \<noteq> [] then fn s else s)
      | PStrs ss \<Rightarrow> PStrs (map (\<lambda>s. if s \<noteq> [] then fn s else s) ss)
      | _ \<Rightarrow> v)"

definition nameStep :: "(string \<Rightarrow> string) \<Rightarrow> FieldDescriptor \<Rightarrow> (string \<times> pval) list \<Rightarrow> (string \<times> pval) list" where
  "nameStep fn fd fs =
     (case map_of fs (fd_Name fd) of
        None \<Rightarrow> fs
      | Some v \<Rightarrow> AList.update (fd_Name fd) (rewriteVal fn v) fs)"

text \<open>The loop over \<open>children\<close>, given what the recursive calls make of each field for a plan.\<close>

definition childStep :: "(string \<times> (string \<Rightarrow> pval)) list \<Rightarrow> FieldDescriptor \<times> string \<Rightarrow> (string \<times> pval) list \<Rightarrow> (string \<times> pval) list" where
  "childStep walked c fs =
     (case c of (fd, sub) \<Rightarrow>
        (case (map_of fs (fd_Name fd), map_of walked (fd_Name fd)) of
           (Some _, Some walk) \<Rightarrow> AList.update (fd_Name fd) (walk sub) fs
         | _ \<Rightarrow> fs))"

definition planOf :: "nsPlan gomap \<Rightarrow> string \<Rightarrow> nsPlan" where
  "planOf g name = (case map_of g name of None \<Rightarrow> emptyPlan | Some p \<Rightarrow> p)"

fun apply_plan :: "nsPlan gomap \<Rightarrow> (string \<Rightarrow> string) \<Rightarrow> string \<Rightarrow> pmsg \<Rightarrow> pmsg"
  and apply_val :: "nsPlan gomap \<Rightarrow> (string \<Rightarrow> string) \<Rightarrow> string \<Rightarrow> pval \<Rightarrow> pval" where
  "apply_plan g fn name (PMsg md fs) =
     (let p = planOf g name;
          walked = map (\<lambda>(k, v). (k, \<lambda>sub. apply_val g fn sub v)) fs
      in PMsg md (fold (childStep walked) (children p) (fold (nameStep fn) (names p) fs)))"
| "apply_val g fn sub (PSub m) = PSub (apply_plan g fn sub m)"
| "apply_val g fn sub (PSubs ms) = PSubs (map (apply_plan g fn sub) ms)"
| "apply_val g fn sub (PMap kvs) = PMap (map (\<lambda>(k, m). (k, apply_plan g fn sub m)) kvs)"
| "apply_val g fn sub v = v"

section \<open>The translator\<close>

text \<open>Its cache of plans by message type; every plan is built with a memo of its own.\<close>

type_synonym Translator = "nsPlan gomap gomap"

definition planFor :: "schema \<Rightarrow> Translator \<Rightarrow> string \<Rightarrow> nsPlan gomap \<times> Translator" where
  "planFor sch t md =
     (case map_of t md of
        Some g \<Rightarrow> (g, t)
      | None \<Rightarrow> (case buildPlan sch md of
                  Some g \<Rightarrow> (g, AList.update md g t)
                | None \<Rightarrow> ([], t)))"

definition Translate :: "schema \<Rightarrow> Translator \<Rightarrow> (string \<Rightarrow> string) \<Rightarrow> pmsg \<Rightarrow> pmsg \<times> Translator" where
  "Translate sch t fn m =
     (case m of PMsg md fs \<Rightarrow>
        (let (g, t') = planFor sch t md
         in if \<not> plan_empty (planOf g md) then (apply_plan g fn md m, t') else (m, t')))"

definition IsWarm :: "Translator \<Rightarrow> string \<Rightarrow> bool" where
  "IsWarm t name = (map_of t name \<noteq> None)"

text \<open>\<open>WarmService\<close>: the registry gives a service's methods as pairs of input and output type.\<close>

datatype file_descriptor = MethodsOf "(string \<times> string \<times> string) list" | NotAService

definition WarmService :: "(string \<Rightarrow> file_descriptor result) \<Rightarrow> schema \<Rightarrow> string \<Rightarrow> Translator \<Rightarrow> goerror option \<times> Translator" where
  "WarmService files sch name t =
     (case files name of
        Inl err \<Rightarrow> (Some (WrapError (''protoutil: resolve service '' @ name) [err]), t)
      | Inr NotAService \<Rightarrow> (Some (ErrorString (''protoutil: '' @ name @ '' is not a service'')), t)
      | Inr (MethodsOf ms) \<Rightarrow>
          (None, fold (\<lambda>(meth, input, output) t. snd (planFor sch (snd (planFor sch t input)) output)) ms t))"

section \<open>The extractor\<close>

text \<open>Its cache of request types, a miss included; \<open>types\<close> says which message types are linked, \<open>decode\<close>
  is \<open>proto.Unmarshal\<close> into a type, and \<open>namespacer\<close> the generated accessor where a type has one.\<close>

record ext_env =
  files :: "string \<Rightarrow> file_descriptor result"
  types :: "string \<Rightarrow> bool"
  decode :: "string \<Rightarrow> bytes \<Rightarrow> pmsg result"
  namespacer :: "pmsg \<Rightarrow> string option"

definition resolveInputType :: "ext_env \<Rightarrow> string \<Rightarrow> string option" where
  "resolveInputType e fullMethod =
     (let trimmed = TrimPrefix fullMethod ''/''
      in case LastIndexChar trimmed (CHR ''/'') of
           None \<Rightarrow> None
         | Some slash \<Rightarrow>
             (let svc = take slash trimmed; meth = drop (slash + 1) trimmed
              in case files e svc of
                   Inr (MethodsOf ms) \<Rightarrow>
                     (case map_of ms meth of
                        None \<Rightarrow> None
                      | Some (input, output) \<Rightarrow> if types e input then Some input else None)
                 | _ \<Rightarrow> None))"

definition messageType :: "ext_env \<Rightarrow> string option gomap \<Rightarrow> string \<Rightarrow> string option \<times> string option gomap" where
  "messageType e msgs fullMethod =
     (case map_of msgs fullMethod of
        Some v \<Rightarrow> (v, msgs)
      | None \<Rightarrow> (let mt = resolveInputType e fullMethod in (mt, AList.update fullMethod mt msgs)))"

definition Extract_Namespace :: "ext_env \<Rightarrow> string option gomap \<Rightarrow> string \<Rightarrow> bytes \<Rightarrow> string \<times> string option gomap" where
  "Extract_Namespace e msgs fullMethod payload =
     (let (mt, msgs') = messageType e msgs fullMethod
      in (case mt of
            None \<Rightarrow> []
          | Some ty \<Rightarrow>
              (case decode e ty payload of
                 Inl _ \<Rightarrow> []
               | Inr m \<Rightarrow> (case namespacer e m of None \<Rightarrow> [] | Some ns \<Rightarrow> ns)), msgs'))"

section \<open>What a plan is built to be\<close>

definition child_of :: "string \<Rightarrow> FieldDescriptor \<Rightarrow> (FieldDescriptor \<times> string) option" where
  "child_of md fd = (if isNamespaceName md fd then None else map_option (Pair fd) (childMessage fd))"

definition raw_plan :: "schema \<Rightarrow> string \<Rightarrow> nsPlan" where
  "raw_plan sch md = \<lparr>names = filter (isNamespaceName md) (lookup_all sch md),
     children = List.map_filter (child_of md) (lookup_all sch md)\<rparr>"

text \<open>A memo is complete except for the nodes still under construction.\<close>

definition complete :: "schema \<Rightarrow> string set \<Rightarrow> nsPlan gomap \<Rightarrow> bool" where
  "complete sch opn memo \<longleftrightarrow>
     (\<forall>md p. map_of memo md = Some p \<longrightarrow> md \<notin> opn \<longrightarrow> p = raw_plan sch md \<and> (\<forall>c\<in>set (children p). snd c \<in> fst ` set memo))"

lemma completeD: "complete sch {} memo \<Longrightarrow> map_of memo md = Some p \<Longrightarrow> p = raw_plan sch md \<and> (\<forall>c\<in>set (children p). snd c \<in> fst ` set memo)"
  by (simp add: complete_def)

lemma isNamespaceName_kind: "isNamespaceName md fd \<Longrightarrow> fd_Kind fd = StringKind"
  by (simp add: isNamespaceName_def split: if_splits)

lemma build_complete:
  "buildNode n sch md memo = Some memo' \<Longrightarrow> complete sch opn memo
     \<Longrightarrow> complete sch opn memo' \<and> insert md (fst ` set memo) \<subseteq> fst ` set memo'"
  "buildFields n sch md fds p memo = Some (p', memo') \<Longrightarrow> complete sch opn memo
     \<Longrightarrow> complete sch opn memo' \<and> fst ` set memo \<subseteq> fst ` set memo'
        \<and> names p' = names p @ filter (isNamespaceName md) fds \<and> children p' = children p @ List.map_filter (child_of md) fds
        \<and> (\<forall>c\<in>set (List.map_filter (child_of md) fds). snd c \<in> fst ` set memo')"
proof (induction n sch md memo and n sch md fds p memo arbitrary: memo' opn and p' memo' opn rule: buildNode_buildFields.induct)
  case (2 n sch md memo)
  show ?case
  proof (cases "map_of memo md")
    case (Some p)
    then have "md \<in> fst ` set memo" by (force dest: map_of_SomeD)
    with 2 Some show ?thesis by auto
  next
    case None
    with 2 obtain p memo1 where b: "buildFields n sch md (lookup_all sch md) emptyPlan (AList.update md emptyPlan memo) = Some (p, memo1)"
      and memo': "memo' = AList.update md p memo1" by (auto split: option.splits)
    have "complete sch (insert md opn) (AList.update md emptyPlan memo)" using 2(3) by (auto simp: complete_def)
    from 2 (1) [OF _ b this] None have c: "complete sch (insert md opn) memo1" "insert md (fst ` set memo) \<subseteq> fst ` set memo1"
      and p: "p = raw_plan sch md" "(\<forall>c\<in>set (children p). snd c \<in> fst ` set memo1)"
      by (auto simp: emptyPlan_def raw_plan_def)
    then show ?thesis by (auto simp: complete_def memo' insert_absorb)
  qed
next
  case (4 n sch md fd fds p memo)
  show ?case
  proof (cases "fd_Kind fd = StringKind \<and> isNamespaceName md fd")
    case True
    then have "buildFields n sch md fds (p\<lparr>names := names p @ [fd]\<rparr>) memo = Some (p', memo')" using 4(5) by simp
    from 4(1) [OF True this 4(6)] True show ?thesis by (simp add: child_of_def List.map_filter_simps)
  next
    case False
    then have nn: "\<not> isNamespaceName md fd" using isNamespaceName_kind by blast
    show ?thesis
    proof (cases "childMessage fd")
      case None
      then have "buildFields n sch md fds p memo = Some (p', memo')" using 4(5) False by simp
      from 4(2) [OF False None this 4(6)] None nn show ?thesis by (simp add: child_of_def List.map_filter_simps)
    next
      case (Some sub)
      with 4(5) False obtain memo1 where b: "buildNode n sch sub memo = Some memo1"
        "buildFields n sch md fds (p\<lparr>children := children p @ [(fd, sub)]\<rparr>) memo1 = Some (p', memo')"
        by (auto split: option.splits)
      from 4(3) [OF False Some b(1)] 4(6) have c: "complete sch opn memo1" "insert sub (fst ` set memo) \<subseteq> fst ` set memo1" by blast+
      from 4(4) [OF False Some b c(1)] c(2) nn Some show ?thesis by (auto simp: child_of_def List.map_filter_simps)
    qed
  qed
qed auto

text \<open>A build does not run out of fuel: each nested call has one more type in the memo.\<close>

definition closed_types :: "schema \<Rightarrow> string set \<Rightarrow> bool" where
  "closed_types sch U \<longleftrightarrow> finite U \<and> (\<forall>md\<in>U. \<forall>fd\<in>set (lookup_all sch md). \<forall>sub. childMessage fd = Some sub \<longrightarrow> sub \<in> U)"

lemma build_grows:
  "buildNode n sch md memo = Some memo' \<Longrightarrow> fst ` set memo \<subseteq> fst ` set memo'"
  using build_complete(1) [of n sch md memo memo' UNIV] by (auto simp: complete_def)

lemma card_diff_mono: "finite U \<Longrightarrow> A \<subseteq> B \<Longrightarrow> card (U - B) \<le> card (U - A)"
  by (intro card_mono) auto

lemma build_total:
  "closed_types sch U \<Longrightarrow> md \<in> U \<Longrightarrow> card (U - fst ` set memo) < n \<Longrightarrow> \<exists>memo'. buildNode n sch md memo = Some memo'"
  "closed_types sch U \<Longrightarrow> md \<in> U \<Longrightarrow> set fds \<subseteq> set (lookup_all sch md) \<Longrightarrow> card (U - fst ` set memo) < n
     \<Longrightarrow> \<exists>r. buildFields n sch md fds p memo = Some r"
proof (induction n sch md memo and n sch md fds p memo rule: buildNode_buildFields.induct)
  case (2 n sch md memo)
  show ?case
  proof (cases "map_of memo md")
    case None
    then have new: "md \<in> U - fst ` set memo" using 2 by (auto simp: map_of_eq_None_iff)
    have "finite U" using 2 by (simp add: closed_types_def)
    with new have "card (U - insert md (fst ` set memo)) < card (U - fst ` set memo)"
      by (intro psubset_card_mono) auto
    with 2 None have "\<exists>r. buildFields n sch md (lookup_all sch md) emptyPlan (AList.update md emptyPlan memo) = Some r" by simp
    with None show ?thesis by auto
  qed auto
next
  case (4 n sch md fd fds p memo)
  show ?case
  proof (cases "fd_Kind fd = StringKind \<and> isNamespaceName md fd")
    case True
    with 4 show ?thesis by auto
  next
    case False
    show ?thesis
    proof (cases "childMessage fd")
      case None
      with 4 False show ?thesis by auto
    next
      case (Some sub)
      with 4 have "sub \<in> U" by (auto simp: closed_types_def)
      with 4 False Some obtain memo1 where b: "buildNode n sch sub memo = Some memo1" by blast
      have "card (U - fst ` set memo1) \<le> card (U - fst ` set memo)"
        using build_grows [OF b] 4 by (intro card_diff_mono) (auto simp: closed_types_def)
      with 4(4) [OF False Some b] 4 False Some b show ?thesis by auto
    qed
  qed
qed auto

lemma type_names_closed: "closed_types sch (set (type_names sch md))"
proof -
  have "sub \<in> set (type_names sch md)" if "fd \<in> set (lookup_all sch t)" "childMessage fd = Some sub" for t fd sub
  proof -
    from that(1) obtain fds where fds: "(t, fds) \<in> set sch" "fd \<in> set fds"
      by (cases "map_of sch t") (auto simp: lookup_all_def dest: map_of_SomeD)
    from fds(2) that(2) have "sub \<in> set (List.map_filter childMessage fds)" by (force simp: List.map_filter_def)
    with fds(1) show ?thesis by (auto simp: type_names_def intro!: bexI [of _ "(t, fds)"])
  qed
  then show ?thesis by (auto simp: closed_types_def)
qed

lemma buildNode_total: "\<exists>memo. buildNode (Suc (length (type_names sch md))) sch md [] = Some memo"
proof (rule build_total(1) [OF type_names_closed])
  show "md \<in> set (type_names sch md)" by (simp add: type_names_def)
  show "card (set (type_names sch md) - fst ` set []) < Suc (length (type_names sch md))"
    using card_length [of "type_names sch md"] by simp
qed

section \<open>Pruning keeps what leads to a name\<close>

lemma fold_liveStep_unchanged:
  "\<not> snd (fold liveStep memo st) \<Longrightarrow> fst (fold liveStep memo st) = fst st \<and> \<not> snd st
     \<and> (\<forall>(n, p)\<in>set memo. n \<in> set (fst st) \<or> (\<forall>c\<in>set (children p). snd c \<notin> set (fst st)))"
proof (induction memo arbitrary: st)
  case (Cons e memo)
  obtain n p live changed where e: "e = (n, p)" "st = (live, changed)" by (cases e; cases st)
  have step: "liveStep e st = st" "\<not> changed" "n \<in> set live \<or> (\<forall>c\<in>set (children p). snd c \<notin> set live)"
    if "\<not> snd (liveStep e st)"
    using that by (auto simp: e liveStep_def list_ex_iff split: if_splits)
  from Cons.prems have "\<not> snd (fold liveStep memo (liveStep e st))" by simp
  note IH = Cons.IH [OF this]
  with step have "liveStep e st = st" by blast
  with IH step show ?case by (auto simp: e)
qed simp

lemma liveLoop_ok:
  "set live \<subseteq> set (liveLoop memo live)
   \<and> (\<forall>(n, p)\<in>set memo. n \<in> set (liveLoop memo live) \<or> (\<forall>c\<in>set (children p). snd c \<notin> set (liveLoop memo live)))"
proof (induction memo live rule: liveLoop.induct)
  case (1 memo live)
  obtain live' changed where r: "fold liveStep memo (live, False) = (live', changed)" by (cases "fold liveStep memo (live, False)")
  then have loop: "liveLoop memo live = (if changed then liveLoop memo live' else live')"
    by (simp add: liveLoop.simps [of memo live] liveRound_def)
  from r have mono: "set live \<subseteq> set live'" using fold_liveStep_mono [of "(live, False)" memo] by simp
  show ?case
  proof (cases changed)
    case True
    with 1 [of "(live', changed)" live' changed] r have "set live' \<subseteq> set (liveLoop memo live')"
      "\<forall>(n, p)\<in>set memo. n \<in> set (liveLoop memo live') \<or> (\<forall>c\<in>set (children p). snd c \<notin> set (liveLoop memo live'))"
      by (simp_all add: liveRound_def)
    with True mono show ?thesis unfolding loop by auto
  next
    case False
    with r fold_liveStep_unchanged [of memo "(live, False)"] have "live' = live"
      "\<forall>(n, p)\<in>set memo. n \<in> set live \<or> (\<forall>c\<in>set (children p). snd c \<notin> set live)" by auto
    with False show ?thesis unfolding loop by auto
  qed
qed

text \<open>The finished graph: nodes \<open>D\<close>, of which those outside \<open>L\<close> were pruned.\<close>

definition plan_ok :: "schema \<Rightarrow> nsPlan gomap \<Rightarrow> string set \<Rightarrow> string set \<Rightarrow> bool" where
  "plan_ok sch g L D \<longleftrightarrow>
     (\<forall>t\<in>D. planOf g t = \<lparr>names = filter (isNamespaceName t) (lookup_all sch t),
                children = filter (\<lambda>c. snd c \<in> L) (List.map_filter (child_of t) (lookup_all sch t))\<rparr>
        \<and> (\<forall>c\<in>set (List.map_filter (child_of t) (lookup_all sch t)). snd c \<in> D)
        \<and> (t \<notin> L \<longrightarrow> filter (isNamespaceName t) (lookup_all sch t) = []
              \<and> (\<forall>c\<in>set (List.map_filter (child_of t) (lookup_all sch t)). snd c \<notin> L)))"

lemma pruneDead_ok:
  assumes "complete sch {} memo"
  shows "\<exists>L. plan_ok sch (pruneDead memo) L (fst ` set memo)"
proof -
  define L where "L = set (liveLoop memo (map fst (filter (\<lambda>(name, p). names p \<noteq> []) memo)))"
  have "pruneDead memo = map (\<lambda>(k, v). (k, v\<lparr>children := filter (\<lambda>c. snd c \<in> L) (children v)\<rparr>)) memo"
    unfolding pruneDead_def L_def Let_def by (simp add: case_prod_unfold)
  then have lookup: "map_of (pruneDead memo) t = map_option (\<lambda>p. p\<lparr>children := filter (\<lambda>c. snd c \<in> L) (children p)\<rparr>) (map_of memo t)" for t
    by (simp add: map_of_map)
  have live: "n \<in> L" if "(n, p) \<in> set memo" "names p \<noteq> []" for n p
    using that liveLoop_ok [of "map fst (filter (\<lambda>(name, p). names p \<noteq> []) memo)" memo] unfolding L_def by force
  have dead: "n \<in> L \<or> (\<forall>c\<in>set (children p). snd c \<notin> L)" if "(n, p) \<in> set memo" for n p
    using that liveLoop_ok [of "map fst (filter (\<lambda>(name, p). names p \<noteq> []) memo)" memo] unfolding L_def by blast
  have "plan_ok sch (pruneDead memo) L (fst ` set memo)"
    unfolding plan_ok_def
  proof (rule ballI)
    fix t assume "t \<in> fst ` set memo"
    then obtain p where p: "map_of memo t = Some p" by (metis map_of_eq_None_iff not_None_eq)
    with assms have c: "p = raw_plan sch t" "\<forall>c\<in>set (children p). snd c \<in> fst ` set memo" by (auto dest: completeD)
    from p have "(t, p) \<in> set memo" by (rule map_of_SomeD)
    from live [OF this] dead [OF this] c lookup [of t] p
    show "planOf (pruneDead memo) t = \<lparr>names = filter (isNamespaceName t) (lookup_all sch t),
                children = filter (\<lambda>c. snd c \<in> L) (List.map_filter (child_of t) (lookup_all sch t))\<rparr>
        \<and> (\<forall>c\<in>set (List.map_filter (child_of t) (lookup_all sch t)). snd c \<in> fst ` set memo)
        \<and> (t \<notin> L \<longrightarrow> filter (isNamespaceName t) (lookup_all sch t) = []
              \<and> (\<forall>c\<in>set (List.map_filter (child_of t) (lookup_all sch t)). snd c \<notin> L))"
      by (auto simp: planOf_def raw_plan_def)
  qed
  then show ?thesis by blast
qed

lemma buildPlan_ok:
  obtains g L D where "buildPlan sch md = Some g" "plan_ok sch g L D" "md \<in> D"
proof -
  obtain memo where b: "buildNode (Suc (length (type_names sch md))) sch md [] = Some memo" using buildNode_total by blast
  with build_complete(1) [OF b, of "{}"] have c: "complete sch {} memo" "md \<in> fst ` set memo" by (auto simp: complete_def)
  from pruneDead_ok [OF c(1)] obtain L where "plan_ok sch (pruneDead memo) L (fst ` set memo)" by blast
  with b c(2) show ?thesis by (intro that [of "pruneDead memo" L "fst ` set memo"]) (simp_all add: buildPlan_def del: buildNode.simps)
qed

section \<open>The specification of translation\<close>

text \<open>The strings of a field, renamed; renaming leaves the empty name alone.\<close>

fun map_strings :: "(string \<Rightarrow> string) \<Rightarrow> pval \<Rightarrow> pval" where
  "map_strings f (PStr s) = PStr (f s)"
| "map_strings f (PStrs ss) = PStrs (map f ss)"
| "map_strings f v = v"

definition rename :: "(string \<Rightarrow> string) \<Rightarrow> string \<Rightarrow> string" where
  "rename fn s = (case s of [] \<Rightarrow> [] | _ \<Rightarrow> fn s)"

lemma rewriteVal_spec: "rewriteVal fn v = map_strings (rename fn) v"
  by (cases v) (auto simp: rewriteVal_def rename_def split: list.splits)

text \<open>Rewrite every namespace name of a message, at every depth, following the schema.\<close>

fun translate_spec :: "schema \<Rightarrow> (string \<Rightarrow> string) \<Rightarrow> pmsg \<Rightarrow> pmsg"
  and translate_val :: "schema \<Rightarrow> (string \<Rightarrow> string) \<Rightarrow> pval \<Rightarrow> pval" where
  "translate_spec sch fn (PMsg md fs) =
     PMsg md (map (\<lambda>(k, v). (k,
       case List.find (\<lambda>fd. fd_Name fd = k) (lookup_all sch md) of
         None \<Rightarrow> v
       | Some fd \<Rightarrow>
           if isNamespaceName md fd then map_strings (rename fn) v
           else if childMessage fd = None then v
           else translate_val sch fn v)) fs)"
| "translate_val sch fn (PSub m) = PSub (translate_spec sch fn m)"
| "translate_val sch fn (PSubs ms) = PSubs (map (translate_spec sch fn) ms)"
| "translate_val sch fn (PMap kvs) = PMap (map (\<lambda>(k, m). (k, translate_spec sch fn m)) kvs)"
| "translate_val sch fn v = v"

text \<open>A message of a type of the schema: each field once, and submessages of the declared types.\<close>

fun wt_msg :: "schema \<Rightarrow> string \<Rightarrow> pmsg \<Rightarrow> bool"
  and wt_val :: "schema \<Rightarrow> string option \<Rightarrow> pval \<Rightarrow> bool" where
  "wt_msg sch t (PMsg md fs) \<longleftrightarrow>
     md = t \<and> distinct (map fst fs) \<and> distinct (map fd_Name (lookup_all sch t))
     \<and> (\<forall>(k, v)\<in>set fs. case List.find (\<lambda>fd. fd_Name fd = k) (lookup_all sch t) of
            None \<Rightarrow> False
          | Some fd \<Rightarrow> wt_val sch (childMessage fd) v)"
| "wt_val sch (Some t) (PSub m) \<longleftrightarrow> wt_msg sch t m"
| "wt_val sch (Some t) (PSubs ms) \<longleftrightarrow> (\<forall>m\<in>set ms. wt_msg sch t m)"
| "wt_val sch (Some t) (PMap kvs) \<longleftrightarrow> (\<forall>(k, m)\<in>set kvs. wt_msg sch t m)"
| "wt_val sch (Some t) v \<longleftrightarrow> False"
| "wt_val sch None (PStr s) \<longleftrightarrow> True"
| "wt_val sch None (PStrs ss) \<longleftrightarrow> True"
| "wt_val sch None (POther b) \<longleftrightarrow> True"
| "wt_val sch None v \<longleftrightarrow> False"

section \<open>Applying a plan is translating\<close>

lemma update_as_map:
  "distinct (map fst fs) \<Longrightarrow> map_of fs k = Some v \<Longrightarrow> AList.update k v' fs = map (\<lambda>(k', w). (k', if k' = k then v' else w)) fs"
proof (induction fs)
  case (Cons e fs)
  obtain k0 w where e: "e = (k0, w)" by (cases e)
  show ?case
  proof (cases "k0 = k")
    case True
    with Cons.prems(1) e have "map (\<lambda>(k', w). (k', if k' = k then v' else w)) fs = fs"
      by (intro map_idI) (force simp: image_iff)
    with True e show ?thesis by simp
  next
    case False
    with Cons e show ?thesis by auto
  qed
qed simp

lemma nameStep_map:
  "distinct (map fst fs) \<Longrightarrow> nameStep fn fd fs = map (\<lambda>(k, v). (k, if k = fd_Name fd then rewriteVal fn v else v)) fs"
proof (cases "map_of fs (fd_Name fd)")
  case None
  then have "map (\<lambda>(k, v). (k, if k = fd_Name fd then rewriteVal fn v else v)) fs = fs"
    by (intro map_idI) (force simp: map_of_eq_None_iff)
  with None show ?thesis by (simp add: nameStep_def)
next
  case (Some v)
  assume d: "distinct (map fst fs)"
  have "w = v" if "(fd_Name fd, w) \<in> set fs" for w using map_of_is_SomeI [OF d that] Some by simp
  then show ?thesis by (auto simp: nameStep_def Some update_as_map [OF d Some])
qed

lemma fold_nameStep:
  "distinct (map fst fs) \<Longrightarrow> distinct (map fd_Name ds) \<Longrightarrow>
   fold (nameStep fn) ds fs = map (\<lambda>(k, v). (k, if k \<in> fd_Name ` set ds then rewriteVal fn v else v)) fs"
proof (induction ds arbitrary: fs)
  case (Cons d ds)
  have "map fst (nameStep fn d fs) = map fst fs" using Cons.prems(1) by (simp add: nameStep_map case_prod_unfold)
  with Cons have "fold (nameStep fn) (d # ds) fs
    = map (\<lambda>(k, v). (k, if k \<in> fd_Name ` set ds then rewriteVal fn v else v)) (nameStep fn d fs)" by simp
  also have "\<dots> = map (\<lambda>(k, v). (k, if k \<in> fd_Name ` set (d # ds) then rewriteVal fn v else v)) fs"
    using Cons.prems by (auto simp: nameStep_map)
  finally show ?case .
qed (simp add: case_prod_unfold)

text \<open>The children of a plan by field name.\<close>

definition child_at :: "(FieldDescriptor \<times> string) list \<Rightarrow> string \<Rightarrow> string option" where
  "child_at cs k = map_of (map (\<lambda>c. (fd_Name (fst c), snd c)) cs) k"

lemma childStep_map:
  assumes "distinct (map fst fs)" "map fst walked = map fst fs"
  shows "childStep walked c fs = map (\<lambda>(k, v). (k, if k = fd_Name (fst c) then the (map_of walked k) (snd c) else v)) fs"
proof (cases "map_of fs (fd_Name (fst c))")
  case None
  then have "map (\<lambda>(k, v). (k, if k = fd_Name (fst c) then the (map_of walked k) (snd c) else v)) fs = fs"
    by (intro map_idI) (force simp: map_of_eq_None_iff)
  with None show ?thesis by (simp add: childStep_def case_prod_unfold)
next
  case (Some v)
  moreover from this assms(2) have "map_of walked (fd_Name (fst c)) \<noteq> None"
    unfolding map_of_eq_None_iff by (metis list.set_map map_of_eq_None_iff option.distinct(1))
  ultimately show ?thesis using assms(1) by (auto simp: childStep_def case_prod_unfold update_as_map split: option.splits)
qed

lemma fold_childStep:
  "distinct (map fst fs) \<Longrightarrow> map fst walked = map fst fs \<Longrightarrow> distinct (map (\<lambda>c. fd_Name (fst c)) cs) \<Longrightarrow>
   fold (childStep walked) cs fs = map (\<lambda>(k, v). (k, case child_at cs k of None \<Rightarrow> v | Some sub \<Rightarrow> the (map_of walked k) sub)) fs"
proof (induction cs arbitrary: fs)
  case (Cons c cs)
  have "map fst (childStep walked c fs) = map fst fs" using Cons.prems by (simp add: childStep_map case_prod_unfold)
  with Cons have "fold (childStep walked) (c # cs) fs
    = map (\<lambda>(k, v). (k, case child_at cs k of None \<Rightarrow> v | Some sub \<Rightarrow> the (map_of walked k) sub)) (childStep walked c fs)" by simp
  also have "\<dots> = map (\<lambda>(k, v). (k, case child_at (c # cs) k of None \<Rightarrow> v | Some sub \<Rightarrow> the (map_of walked k) sub)) fs"
  proof -
    have "child_at cs (fd_Name (fst c)) = None" using Cons.prems(3) by (force simp: child_at_def map_of_eq_None_iff)
    then show ?thesis using Cons.prems by (auto simp: childStep_map child_at_def split: option.splits)
  qed
  finally show ?case .
qed (simp add: case_prod_unfold child_at_def)

lemma find_field:
  assumes "distinct (map fd_Name fds)" "List.find (\<lambda>fd. fd_Name fd = k) fds = Some fd"
  shows "fd \<in> set fds" "fd_Name fd = k" "fd' \<in> set fds \<Longrightarrow> fd_Name fd' = k \<Longrightarrow> fd' = fd"
proof -
  show f: "fd \<in> set fds" "fd_Name fd = k" using assms(2) by (auto simp: find_Some_iff)
  show "fd' = fd" if "fd' \<in> set fds" "fd_Name fd' = k"
    using assms(1) f that by (auto simp: distinct_map inj_on_def)
qed

lemma child_at_filter:
  assumes "distinct (map fd_Name fds)" "List.find (\<lambda>fd. fd_Name fd = k) fds = Some fd"
  shows "child_at (filter P (List.map_filter (child_of t) fds)) k
    = (case child_of t fd of None \<Rightarrow> None | Some c \<Rightarrow> if P c then Some (snd c) else None)"
  using assms
proof (induction fds)
  case (Cons d fds)
  have self: "child_of t x = Some c \<Longrightarrow> fst c = x" for x c by (auto simp: child_of_def split: if_splits)
  have none: "child_at (filter P (List.map_filter (child_of t) fds)) (fd_Name d) = None"
    using Cons.prems(1) by (force simp: child_at_def map_of_eq_None_iff List.map_filter_def child_of_def split: if_splits)
  show ?case
  proof (cases "fd_Name d = k")
    case True
    with Cons.prems have "fd = d" by simp
    with True none show ?thesis by (auto simp: List.map_filter_simps child_at_def dest: self split: option.splits)
  next
    case False
    with Cons show ?thesis by (auto simp: List.map_filter_simps child_at_def dest: self split: option.splits)
  qed
qed simp

lemma distinct_children:
  "distinct (map fd_Name fds) \<Longrightarrow> distinct (map (\<lambda>c. fd_Name (fst c)) (filter P (List.map_filter (child_of t) fds)))"
proof (induction fds)
  case (Cons d fds)
  then show ?case by (force simp: List.map_filter_simps List.map_filter_def child_of_def split: option.splits if_splits)
qed (simp add: List.map_filter_simps)

text \<open>In a pruned type there is nothing to translate.\<close>

lemma child_in: "fd \<in> set fds \<Longrightarrow> child_of t fd = Some c \<Longrightarrow> c \<in> set (List.map_filter (child_of t) fds)"
  by (force simp: List.map_filter_def)

lemma child_of_snd: "child_of t fd = Some c \<Longrightarrow> childMessage fd = Some (snd c) \<and> \<not> isNamespaceName t fd"
  by (auto simp: child_of_def split: if_splits)

lemma dead_identity:
  "plan_ok sch g L D \<Longrightarrow> t \<in> D \<Longrightarrow> t \<notin> L \<Longrightarrow> wt_msg sch t m \<Longrightarrow> translate_spec sch fn m = m"
  "plan_ok sch g L D \<Longrightarrow> t \<in> D \<Longrightarrow> t \<notin> L \<Longrightarrow> wt_val sch (Some t) v \<Longrightarrow> translate_val sch fn v = v"
proof (induction sch fn m and sch fn v arbitrary: t and t rule: translate_spec_translate_val.induct)
  case (1 sch fn md fs)
  have md: "md = t" using 1 by simp
  have "(case List.find (\<lambda>fd. fd_Name fd = k) (lookup_all sch t) of None \<Rightarrow> v
      | Some fd \<Rightarrow> if isNamespaceName t fd then map_strings (rename fn) v else if childMessage fd = None then v else translate_val sch fn v) = v"
    if kv: "(k, v) \<in> set fs" for k v
  proof (cases "List.find (\<lambda>fd. fd_Name fd = k) (lookup_all sch t)")
    case (Some fd)
    have fd: "fd \<in> set (lookup_all sch t)" using Some by (auto simp: find_Some_iff)
    have nn: "\<not> isNamespaceName t fd" using 1(2,3,4) fd by (auto simp: plan_ok_def filter_empty_conv)
    show ?thesis
    proof (cases "childMessage fd")
      case (Some sub)
      with nn have "(fd, sub) \<in> set (List.map_filter (child_of t) (lookup_all sch t))"
        using fd by (intro child_in) (auto simp: child_of_def)
      with 1(2,3,4) have "sub \<in> D" "sub \<notin> L" by (force simp: plan_ok_def)+
      moreover have "wt_val sch (Some sub) v"
        using 1(5) kv \<open>List.find _ _ = Some fd\<close> Some by fastforce
      ultimately have "translate_val sch fn v = v"
        using 1(1) [OF kv, of k v fd sub] nn Some \<open>List.find _ _ = Some fd\<close> 1(2) md by auto
      with nn Some \<open>List.find _ _ = Some fd\<close> show ?thesis by simp
    qed (use nn Some in simp)
  qed simp
  then show ?case unfolding translate_spec.simps md by (auto intro!: map_idI)
next
  case (2 sch fn m)
  then show ?case by auto
next
  case (3 sch fn ms)
  then show ?case by (auto intro!: map_idI)
next
  case (4 sch fn kvs)
  then show ?case by (fastforce intro!: map_idI)
qed auto

lemma walked_lookup:
  "distinct (map fst fs) \<Longrightarrow> (k, v) \<in> set fs \<Longrightarrow> map_of (map (\<lambda>(k, v). (k, \<lambda>sub. apply_val g fn sub v)) fs) k = Some (\<lambda>sub. apply_val g fn sub v)"
  by (simp add: map_of_map map_of_is_SomeI)

text \<open>One field: what the two loops make of its value is its translation.\<close>

lemma field_translates:
  assumes "plan_ok sch g L D" "t \<in> D" "distinct (map fd_Name (lookup_all sch t))"
    and f: "List.find (\<lambda>fd. fd_Name fd = k) (lookup_all sch t) = Some fd" and wt: "wt_val sch (childMessage fd) v"
    and IH: "\<And>sub. sub \<in> D \<Longrightarrow> wt_val sch (Some sub) v \<Longrightarrow> apply_val g fn sub v = translate_val sch fn v"
  shows "(case child_at (filter (\<lambda>c. snd c \<in> L) (List.map_filter (child_of t) (lookup_all sch t))) k of
      None \<Rightarrow> if k \<in> fd_Name ` {x \<in> set (lookup_all sch t). isNamespaceName t x} then rewriteVal fn v else v
    | Some sub \<Rightarrow> apply_val g fn sub v)
    = (if isNamespaceName t fd then map_strings (rename fn) v else if childMessage fd = None then v else translate_val sch fn v)"
proof -
  note ff = find_field [OF assms(3) f]
  have isn: "k \<in> fd_Name ` {x \<in> set (lookup_all sch t). isNamespaceName t x} \<longleftrightarrow> isNamespaceName t fd" using ff by blast
  note at = child_at_filter [OF assms(3) f, of "\<lambda>c. snd c \<in> L" t]
  show ?thesis
  proof (cases "child_of t fd")
    case None
    then show ?thesis unfolding at isn by (auto simp: child_of_def rewriteVal_spec split: if_splits)
  next
    case (Some c)
    then have c: "childMessage fd = Some (snd c)" "\<not> isNamespaceName t fd" "snd c \<in> D"
      using child_of_snd child_in [OF ff(1) Some] assms(1,2) by (auto simp: plan_ok_def)
    with wt have "wt_val sch (Some (snd c)) v" by simp
    with c IH [of "snd c"] dead_identity(2) [OF assms(1) c(3), of v fn] show ?thesis
      unfolding at isn by (auto simp: Some)
  qed
qed

lemma apply_translates:
  "plan_ok sch g L D \<Longrightarrow> t \<in> D \<Longrightarrow> wt_msg sch t m \<Longrightarrow> apply_plan g fn t m = translate_spec sch fn m"
  "plan_ok sch g L D \<Longrightarrow> t \<in> D \<Longrightarrow> wt_val sch (Some t) v \<Longrightarrow> apply_val g fn t v = translate_val sch fn v"
proof (induction g fn t m and g fn t v rule: apply_plan_apply_val.induct)
  case (1 g fn t md fs)
  let ?fds = "lookup_all sch t" and ?w = "map (\<lambda>(k, v). (k, \<lambda>sub. apply_val g fn sub v)) fs"
  let ?cs = "filter (\<lambda>c. snd c \<in> L) (List.map_filter (child_of t) ?fds)"
  let ?ns = "map (\<lambda>(k, v). (k, if k \<in> fd_Name ` set (filter (isNamespaceName t) ?fds) then rewriteVal fn v else v)) fs"
  note IH = 1(1) [OF refl _ refl 1(2)] and ok = 1(2,3)
  from 1(4) have md: "md = t" and dfs: "distinct (map fst fs)" and dn: "distinct (map fd_Name ?fds)" by simp_all
  have plan: "planOf g t = \<lparr>names = filter (isNamespaceName t) ?fds, children = ?cs\<rparr>" using ok by (simp add: plan_ok_def)
  have ns: "fold (nameStep fn) (filter (isNamespaceName t) ?fds) fs = ?ns"
    by (rule fold_nameStep [OF dfs]) (simp add: dn distinct_map_filter)
  have keys: "map fst ?ns = map fst fs" "map fst ?w = map fst fs" by (simp_all add: case_prod_unfold)
  have "fold (childStep ?w) ?cs ?ns
    = map (\<lambda>(k, v). (k, case child_at ?cs k of None \<Rightarrow> v | Some sub \<Rightarrow> the (map_of ?w k) sub)) ?ns"
    by (rule fold_childStep) (simp_all only: keys dfs distinct_children [OF dn])
  also have "\<dots> = map (\<lambda>(k, v). (k, case List.find (\<lambda>fd. fd_Name fd = k) ?fds of None \<Rightarrow> v
      | Some fd \<Rightarrow> if isNamespaceName t fd then map_strings (rename fn) v else if childMessage fd = None then v else translate_val sch fn v)) fs"
    unfolding map_map
  proof (rule map_cong [OF refl], clarsimp simp del: wt_msg.simps, goal_cases)
    case (1 k v)
    then obtain fd where "List.find (\<lambda>fd. fd_Name fd = k) ?fds = Some fd" "wt_val sch (childMessage fd) v"
      using \<open>wt_msg sch t (PMsg md fs)\<close> by (fastforce split: option.splits)
    with field_translates [OF ok dn this IH [OF 1]] walked_lookup [OF dfs 1, of g fn] show ?case
      by (cases "child_at ?cs k") (auto split: if_splits)
  qed
  finally show ?case unfolding apply_plan.simps Let_def plan nsPlan.simps ns md translate_spec.simps by simp
qed auto

section \<open>The caches\<close>

definition plans_ok :: "schema \<Rightarrow> Translator \<Rightarrow> bool" where
  "plans_ok sch t \<longleftrightarrow> (\<forall>md g. map_of t md = Some g \<longrightarrow> buildPlan sch md = Some g)"

lemma planFor_ok:
  assumes "plans_ok sch t"
  shows "buildPlan sch md = Some (fst (planFor sch t md)) \<and> plans_ok sch (snd (planFor sch t md)) \<and> IsWarm (snd (planFor sch t md)) md"
  by (rule buildPlan_ok [of sch md])
    (use assms in \<open>auto simp: planFor_def plans_ok_def IsWarm_def split: option.splits\<close>)

lemma Translate_ok:
  assumes "plans_ok sch t" "wt_msg sch md m"
  shows "fst (Translate sch t fn m) = translate_spec sch fn m" "plans_ok sch (snd (Translate sch t fn m))"
    "IsWarm (snd (Translate sch t fn m)) md"
proof -
  obtain fs where m: "m = PMsg md fs" using assms(2) by (cases m) auto
  obtain g t' where gt: "planFor sch t md = (g, t')" by (cases "planFor sch t md")
  with planFor_ok [OF assms(1), of md] have g: "buildPlan sch md = Some g" "plans_ok sch t'" "IsWarm t' md" by auto
  obtain L D where ok: "plan_ok sch g L D" "md \<in> D" using buildPlan_ok [of sch md] g(1) by (metis option.inject)
  have "translate_spec sch fn m = m" if "plan_empty (planOf g md)"
  proof (rule dead_identity(1) [of sch g "{}" "{t \<in> D. t \<notin> L \<or> t = md}"])
    show "plan_ok sch g {} {t \<in> D. t \<notin> L \<or> t = md}"
      using ok that by (fastforce simp: plan_ok_def plan_empty_def filter_empty_conv)
  qed (use ok assms(2) in auto)
  with apply_translates(1) [OF ok assms(2)] gt g show "fst (Translate sch t fn m) = translate_spec sch fn m"
    "plans_ok sch (snd (Translate sch t fn m))" "IsWarm (snd (Translate sch t fn m)) md"
    by (simp_all add: Translate_def m del: apply_plan.simps)
qed

lemma fold_warm:
  "plans_ok sch t \<Longrightarrow> plans_ok sch (fold (\<lambda>(meth, input, output) t. snd (planFor sch (snd (planFor sch t input)) output)) ms t)"
  by (induction ms arbitrary: t) (auto dest: planFor_ok)

lemma planFor_keeps: "IsWarm t x \<Longrightarrow> IsWarm (snd (planFor sch t md)) x"
  by (auto simp: planFor_def IsWarm_def split: option.splits)

lemma fold_warm_keeps:
  "IsWarm t x \<Longrightarrow> IsWarm (fold (\<lambda>(meth, input, output) t. snd (planFor sch (snd (planFor sch t input)) output)) ms t) x"
  by (induction ms arbitrary: t) (auto intro: planFor_keeps)

lemma fold_warm_all:
  "plans_ok sch t \<Longrightarrow> (meth, input, output) \<in> set ms \<Longrightarrow>
   (let t' = fold (\<lambda>(meth, input, output) t. snd (planFor sch (snd (planFor sch t input)) output)) ms t in IsWarm t' input \<and> IsWarm t' output)"
proof (induction ms arbitrary: t)
  case (Cons c ms)
  obtain me i out where c: "c = (me, i, out)" by (cases c)
  let ?t = "snd (planFor sch (snd (planFor sch t i)) out)"
  have "plans_ok sch ?t" "IsWarm ?t i" "IsWarm ?t out" using planFor_ok planFor_keeps Cons.prems(1) by metis+
  with Cons fold_warm_keeps c show ?case by (auto simp: Let_def)
qed simp

text \<open>After a service is warmed, no message of its methods needs a plan built.\<close>

lemma WarmService_warms:
  assumes "plans_ok sch t" "WarmService fls sch name t = (None, t')"
  obtains ms where "fls name = Inr (MethodsOf ms)" "plans_ok sch t'"
    "\<And>meth input output. (meth, input, output) \<in> set ms \<Longrightarrow> IsWarm t' input \<and> IsWarm t' output"
proof -
  from assms(2) obtain ms where ms: "fls name = Inr (MethodsOf ms)"
    and t': "t' = fold (\<lambda>(meth, input, output) t. snd (planFor sch (snd (planFor sch t input)) output)) ms t"
    by (auto simp: WarmService_def split: sum.splits file_descriptor.splits)
  show thesis
  proof (rule that [OF ms])
    show "plans_ok sch t'" unfolding t' by (rule fold_warm [OF assms(1)])
    show "IsWarm t' i \<and> IsWarm t' out" if "(meth, i, out) \<in> set ms" for meth i out
      using fold_warm_all [OF assms(1) that] unfolding t' Let_def .
  qed
qed

text \<open>A request's namespace as the registries give it, without the cache.\<close>

definition namespace_spec :: "ext_env \<Rightarrow> string \<Rightarrow> bytes \<Rightarrow> string" where
  "namespace_spec e fm payload =
     (case resolveInputType e fm of
        None \<Rightarrow> []
      | Some ty \<Rightarrow> (case decode e ty payload of
                     Inl _ \<Rightarrow> []
                   | Inr m \<Rightarrow> (case namespacer e m of None \<Rightarrow> [] | Some ns \<Rightarrow> ns)))"

definition msgs_ok :: "ext_env \<Rightarrow> string option gomap \<Rightarrow> bool" where
  "msgs_ok e msgs \<longleftrightarrow> (\<forall>fm v. map_of msgs fm = Some v \<longrightarrow> v = resolveInputType e fm)"

section \<open>Properties\<close>

text \<open>
  C13. Translation rewrites exactly the namespace names. On a message of a type of the schema, and
  whatever plans are cached, \<open>Translate\<close> gives what a walk of the whole message that follows the
  schema gives: every namespace name, at every depth and under lists and maps, goes through the
  function, empty names and everything else stay. The plans the code builds, with their pruning,
  their sharing and the cycles of recursive types, leave no trace; building always succeeds and
  the cache stays right.
\<close>

theorem Translate_rewrites:
  assumes "plans_ok sch t" "wt_msg sch md m"
  shows "fst (Translate sch t fn m) = translate_spec sch fn m \<and> plans_ok sch (snd (Translate sch t fn m))
    \<and> IsWarm (snd (Translate sch t fn m)) md"
  using Translate_ok [OF assms] by blast

text \<open>A recursive type: a workflow that names its namespace and may have children of its own type,
  and a type that carries no name.\<close>

definition ex_schema :: schema where
  "ex_schema = [(''Wf'', [\<lparr>fd_Name = ''parent_namespace'', fd_Kind = StringKind, fd_IsList = False, fd_MapValue = None\<rparr>,
                           \<lparr>fd_Name = ''children'', fd_Kind = MessageKind ''Wf'', fd_IsList = True, fd_MapValue = None\<rparr>,
                           \<lparr>fd_Name = ''memo'', fd_Kind = MessageKind ''Memo'', fd_IsList = False, fd_MapValue = None\<rparr>]),
                (''Memo'', [\<lparr>fd_Name = ''text'', fd_Kind = StringKind, fd_IsList = False, fd_MapValue = None\<rparr>])]"

definition ex_wf :: pmsg where
  "ex_wf = PMsg ''Wf'' [(''parent_namespace'', PStr ''a''),
     (''children'', PSubs [PMsg ''Wf'' [(''parent_namespace'', PStr ''b'')], PMsg ''Wf'' []]),
     (''memo'', PSub (PMsg ''Memo'' [(''text'', PStr ''a'')]))]"

theorem Translate_rewrites_witness:
  "fst (Translate ex_schema [] (\<lambda>s. s @ ''.x'') ex_wf)
   = PMsg ''Wf'' [(''parent_namespace'', PStr ''a.x''),
       (''children'', PSubs [PMsg ''Wf'' [(''parent_namespace'', PStr ''b.x'')], PMsg ''Wf'' []]),
       (''memo'', PSub (PMsg ''Memo'' [(''text'', PStr ''a'')]))]"
proof -
  have "plans_ok ex_schema []" by (simp add: plans_ok_def)
  moreover have "wt_msg ex_schema ''Wf'' ex_wf" by code_simp
  ultimately have "fst (Translate ex_schema [] (\<lambda>s. s @ ''.x'') ex_wf) = translate_spec ex_schema (\<lambda>s. s @ ''.x'') ex_wf"
    using Translate_rewrites by blast
  also have "\<dots> = PMsg ''Wf'' [(''parent_namespace'', PStr ''a.x''),
       (''children'', PSubs [PMsg ''Wf'' [(''parent_namespace'', PStr ''b.x'')], PMsg ''Wf'' []]),
       (''memo'', PSub (PMsg ''Memo'' [(''text'', PStr ''a'')]))]" by code_simp
  finally show ?thesis .
qed

text \<open>
  The extractor's cache is transparent. Whatever methods have been asked for before, the
  namespace of a request is the one the registries and the decoder give for its method, and empty
  when the method is malformed or unknown, its request type is not linked or carries no namespace,
  or the payload does not decode; a method is resolved once.
\<close>

theorem Extract_cached:
  assumes "msgs_ok e msgs"
  shows "fst (Extract_Namespace e msgs fm payload) = namespace_spec e fm payload
    \<and> msgs_ok e (snd (Extract_Namespace e msgs fm payload))
    \<and> (\<exists>v. map_of (snd (Extract_Namespace e msgs fm payload)) fm = Some v)
    \<and> (CHR ''/'' \<notin> set (TrimPrefix fm ''/'') \<longrightarrow> fst (Extract_Namespace e msgs fm payload) = [])"
proof -
  have "resolveInputType e fm = None" if "CHR ''/'' \<notin> set (TrimPrefix fm ''/'')"
    using that by (simp add: resolveInputType_def Let_def LastIndexChar_None [THEN iffD2])
  with assms show ?thesis
    by (auto simp: Extract_Namespace_def messageType_def namespace_spec_def msgs_ok_def Let_def split: option.splits)
qed

definition ex_ext :: ext_env where
  "ex_ext = \<lparr>files = (\<lambda>s. if s = ''S'' then Inr (MethodsOf [(''M'', ''Wf'', ''Wf'')]) else Inr NotAService), types = (\<lambda>_. True),
     decode = (\<lambda>_ _. Inr ex_wf), namespacer = (\<lambda>_. Some ''a'')\<rparr>"

theorem Extract_cached_witness:
  "fst (Extract_Namespace ex_ext [(''/S/M'', Some ''Wf'')] ''/S/M'' []) = ''a''"
proof -
  have r: "resolveInputType ex_ext ''/S/M'' = Some ''Wf''" by code_simp
  then have "msgs_ok ex_ext [(''/S/M'', Some ''Wf'')]" by (simp add: msgs_ok_def)
  from Extract_cached [OF this, of "''/S/M''" "[]"] r show ?thesis by (simp add: namespace_spec_def ex_ext_def)
qed

end
