(* ===== verification/Decimal.thy ===== *)
theory Decimal
  imports Go_Prelude
begin

text \<open>
  Decimal numbers as Go prints and parses them: \<open>fmt\<close>'s \<open>%d\<close> and \<open>strconv\<close>, on byte sequences.
  Printing and parsing are inverse to each other.
\<close>

definition digit :: "nat \<Rightarrow> char" where
  "digit n = char_of (48 + n)"

definition isDigit :: "char \<Rightarrow> bool" where
  "isDigit c = (48 \<le> (of_char c :: nat) \<and> (of_char c :: nat) \<le> 57)"

definition digitVal :: "char \<Rightarrow> nat" where
  "digitVal c = of_char c - 48"

text \<open>\<open>%d\<close> of a non-negative number.\<close>

fun itoa :: "nat \<Rightarrow> string" where
  "itoa n = (if n < 10 then [digit n] else itoa (n div 10) @ [digit (n mod 10)])"

declare itoa.simps [simp del]

text \<open>The number a string of digits denotes; \<open>None\<close> when it is empty or has another byte.\<close>

definition digits_val :: "nat \<Rightarrow> string \<Rightarrow> nat" where
  "digits_val acc s = foldl (\<lambda>a c. a * 10 + digitVal c) acc s"

definition parseDigits :: "string \<Rightarrow> nat option" where
  "parseDigits s = (if s \<noteq> [] \<and> list_all isDigit s then Some (digits_val 0 s) else None)"

text \<open>\<open>strconv.ParseInt\<close> in base 10 with 64 bits, and \<open>strconv.Atoi\<close>: an optional sign and digits.\<close>

definition maxInt64 :: int where
  "maxInt64 = 2 ^ 63 - 1"

definition ParseInt :: "string \<Rightarrow> int option" where
  "ParseInt s =
     (case s of
        [] \<Rightarrow> None
      | c # r \<Rightarrow>
          (let (neg, ds) = (if c = CHR ''-'' then (True, r) else if c = CHR ''+'' then (False, r) else (False, s))
           in case parseDigits ds of
                None \<Rightarrow> None
              | Some n \<Rightarrow>
                  (if neg then (if int n \<le> maxInt64 + 1 then Some (- int n) else None)
                   else (if int n \<le> maxInt64 then Some (int n) else None))))"

section \<open>Lemmas\<close>

lemma digit_ok [simp]:
  assumes "n < 10"
  shows "isDigit (digit n)" "digitVal (digit n) = n"
  using assms by (simp_all add: digit_def isDigit_def digitVal_def of_char_of)

lemma isDigit_itoa: "list_all isDigit (itoa n)"
proof (induction n rule: itoa.induct)
  case (1 n)
  then show ?case by (subst itoa.simps) simp
qed

lemma itoa_Nil [simp]: "itoa n \<noteq> []"
  by (subst itoa.simps) simp

lemma digits_val_itoa: "digits_val 0 (itoa n) = n"
proof (induction n rule: itoa.induct)
  case (1 n)
  show ?case
  proof (cases "n < 10")
    case True
    then show ?thesis by (subst itoa.simps) (simp add: digits_val_def)
  next
    case False
    with 1 show ?thesis by (subst itoa.simps) (simp add: digits_val_def)
  qed
qed

lemma parseDigits_itoa [simp]: "parseDigits (itoa n) = Some n"
  by (simp add: parseDigits_def isDigit_itoa digits_val_itoa)

lemma isDigit_no_sign: "isDigit c \<Longrightarrow> c \<noteq> CHR ''-'' \<and> c \<noteq> CHR ''+''"
  by (auto simp: isDigit_def)

lemma itoa_Cons: obtains c r where "itoa n = c # r" "isDigit c"
  using isDigit_itoa [of n] itoa_Nil [of n] by (cases "itoa n") auto

lemma ParseInt_itoa: "ParseInt (itoa n) = (if int n \<le> maxInt64 then Some (int n) else None)"
proof -
  obtain c r where c: "itoa n = c # r" "isDigit c" by (rule itoa_Cons)
  then have "parseDigits (c # r) = Some n" using parseDigits_itoa [of n] by simp
  with c show ?thesis by (simp add: ParseInt_def isDigit_no_sign)
qed

end
