(* ===== verification/Validation.thy ===== *)
theory Validation
  imports Decimal
begin

text \<open>
  \<open>pkg/validation\<close>: checks on a value, rules that collect the failures of checks under a field
  name, and the combinators that guard rules and nest them under a path. A \<open>Rule\<close> is a thunk
  without effects; it is the list of errors it returns. \<open>None\<close> is a nil error. A message keeps its
  fixed text; the values some of the checks format into it are left out.

  The locale \<open>validator\<close> is the contract of a \<open>Validate\<close> method: it returns nil exactly on the
  values its node accepts, and otherwise at least one error. The configuration's nodes provide it
  and a parent's proof uses the contracts of its children.
\<close>

section \<open>The code\<close>

record VError =
  Subject :: string
  Field :: string
  VMessage :: string

type_synonym VErrors = "VError list"

text \<open>What a check or a \<open>Validate\<close> method returns: a collection, a single entry, another error.\<close>

datatype verr = AsErrors VErrors | AsError VError | Plain string

type_synonym 'v Check = "'v \<Rightarrow> verr option"
type_synonym Rule = VErrors

definition toErrors :: "string \<Rightarrow> verr \<Rightarrow> VErrors" where
  "toErrors field err =
     (case err of
        AsErrors ves \<Rightarrow> map (\<lambda>e. if Field e = [] then e\<lparr>Field := field\<rparr> else e) ves
      | AsError ve \<Rightarrow> [if Field ve = [] then ve\<lparr>Field := field\<rparr> else ve]
      | Plain msg \<Rightarrow> [\<lparr>Subject = [], Field = field, VMessage = msg\<rparr>])"

definition Validate :: "string \<Rightarrow> Rule list \<Rightarrow> verr option" where
  "Validate subject rules =
     (let errs = concat rules
      in if errs = [] then None
         else Some (AsErrors (map (\<lambda>e. if Subject e = [] then e\<lparr>Subject := subject\<rparr> else e) errs)))"

definition FieldRule :: "string \<Rightarrow> 'v \<Rightarrow> 'v Check list \<Rightarrow> Rule" where
  "FieldRule name v checks =
     concat (map (\<lambda>c. case c v of None \<Rightarrow> [] | Some err \<Rightarrow> toErrors name err) checks)"

subsection \<open>Checks\<close>

definition errInvalidHostPort :: verr where
  "errInvalidHostPort = Plain ''is not a valid host:port''"

text \<open>The last index of a byte, and \<open>net.SplitHostPort\<close>: \<open>None\<close> for an error.\<close>

definition SplitHostPort :: "string \<Rightarrow> (string \<times> string) option" where
  "SplitHostPort s =
     (case LastIndexChar s (CHR '':'') of
        None \<Rightarrow> None
      | Some i \<Rightarrow>
          (if HasPrefix s ''[''
           then let (host, after, found) = CutChar (drop 1 s) (CHR '']'')
                in if \<not> found then None
                   else if length host + 2 \<noteq> i then None
                   else if CHR ''['' \<in> set (drop 1 s) \<or> CHR '']'' \<in> set after then None
                   else Some (host, drop (i + 1) s)
           else let host = take i s
                in if CHR '':'' \<in> set host then None
                   else if CHR ''['' \<in> set s \<or> CHR '']'' \<in> set s then None
                   else Some (host, drop (i + 1) s)))"

definition IsHostPort :: "string Check" where
  "IsHostPort s =
     (case SplitHostPort s of
        None \<Rightarrow> Some errInvalidHostPort
      | Some (host, port) \<Rightarrow>
          (if CHR ''/'' \<in> set host then Some errInvalidHostPort
           else case ParseInt port of
             None \<Rightarrow> Some errInvalidHostPort
           | Some p \<Rightarrow> if p < 0 \<or> p > 65535 then Some errInvalidHostPort else None))"

definition GT :: "int \<Rightarrow> int Check" where
  "GT mark v = (if v \<le> mark then Some (Plain ''not greater than'') else None)"

definition GTE :: "int \<Rightarrow> int Check" where
  "GTE mark v = (if v < mark then Some (Plain ''not greater than or equal to'') else None)"

definition LT :: "int \<Rightarrow> int Check" where
  "LT mark v = (if v \<ge> mark then Some (Plain ''not less than'') else None)"

definition Required :: "'v \<Rightarrow> 'v Check" where
  "Required zero v = (if v = zero then Some (Plain ''is required'') else None)"

text \<open>The loop of \<open>Unique\<close> with its set of seen values.\<close>

fun unique_from :: "'v list \<Rightarrow> 'v list \<Rightarrow> verr option" where
  "unique_from seen [] = None"
| "unique_from seen (v # vs) =
     (if List.member seen v then Some (Plain ''contains duplicate value'') else unique_from (v # seen) vs)"

definition Unique :: "'v list Check" where
  "Unique vs = unique_from [] vs"

subsection \<open>Combinators\<close>

definition When :: "('v \<Rightarrow> bool) \<Rightarrow> 'v Check list \<Rightarrow> 'v Check" where
  "When pred checks v =
     (if \<not> pred v then None
      else let errs = concat (map (\<lambda>c. case c v of None \<Rightarrow> [] | Some err \<Rightarrow> toErrors [] err) checks)
           in if errs = [] then None else Some (AsErrors errs))"

definition WhenFn :: "bool \<Rightarrow> 'v Check list \<Rightarrow> 'v Check" where
  "WhenFn pred checks = When (\<lambda>_. pred) checks"

definition WhenRules :: "bool \<Rightarrow> Rule list \<Rightarrow> Rule" where
  "WhenRules pred rules = (if pred then concat rules else [])"

definition join :: "string \<Rightarrow> string \<Rightarrow> string" where
  "join parent child = (if HasPrefix child ''['' then parent @ child else parent @ ''.'' @ child)"

text \<open>\<open>Nested\<close>, given what the child's \<open>Validate\<close> returned.\<close>

definition Nested :: "string \<Rightarrow> verr option \<Rightarrow> Rule" where
  "Nested subject res =
     (case res of
        None \<Rightarrow> []
      | Some err \<Rightarrow>
          (let errs = toErrors [] err
           in if subject = [] then errs
              else map (\<lambda>e. if Subject e \<noteq> [] then e\<lparr>Subject := join subject (Subject e)\<rparr>
                            else if HasPrefix (Field e) ''['' then e\<lparr>Field := subject @ Field e\<rparr>
                            else e\<lparr>Subject := subject\<rparr>) errs))"

definition WhenNested :: "bool \<Rightarrow> string \<Rightarrow> verr option \<Rightarrow> Rule" where
  "WhenNested pred subject v = WhenRules pred [Nested subject v]"

fun children_from :: "nat \<Rightarrow> string \<Rightarrow> 'v list \<Rightarrow> ('v \<Rightarrow> verr option) \<Rightarrow> Rule" where
  "children_from i name [] validate = []"
| "children_from i name (x # xs) validate =
     Nested (name @ ''['' @ itoa i @ '']'') (validate x) @ children_from (Suc i) name xs validate"

definition Children :: "string \<Rightarrow> 'v list \<Rightarrow> ('v \<Rightarrow> verr option) \<Rightarrow> Rule" where
  "Children name items validate = children_from 0 name items validate"

section \<open>The contract of a check and of a validator\<close>

text \<open>A check of this package never returns an empty collection.\<close>

definition honest :: "verr option \<Rightarrow> bool" where
  "honest r \<longleftrightarrow> (\<forall>err. r = Some err \<longrightarrow> toErrors [] err \<noteq> [])"

lemma toErrors_Nil: "toErrors field err = [] \<longleftrightarrow> toErrors [] err = []"
  by (simp add: toErrors_def split: verr.splits)

lemma honest_simps [simp]: "honest None" "honest (Some (Plain m))" "honest (Some (AsError e))"
  by (simp_all add: honest_def toErrors_def)

lemma Validate_None [simp]: "Validate subject rules = None \<longleftrightarrow> (\<forall>r\<in>set rules. r = [])"
  by (simp add: Validate_def)

lemma Validate_honest [simp]: "honest (Validate subject rules)"
  by (auto simp: Validate_def honest_def toErrors_def Let_def split: if_splits)

lemma FieldRule_Nil:
  assumes "\<And>c. c \<in> set checks \<Longrightarrow> honest (c v)"
  shows "FieldRule name v checks = [] \<longleftrightarrow> (\<forall>c\<in>set checks. c v = None)"
  using assms toErrors_Nil [of name]
  by (fastforce simp: FieldRule_def honest_def split: option.splits)

lemma FieldRule_step [simp]:
  "FieldRule name v [] = []"
  "honest (c v) \<Longrightarrow> FieldRule name v (c # cs) = [] \<longleftrightarrow> c v = None \<and> FieldRule name v cs = []"
  using toErrors_Nil [of name] by (auto simp: FieldRule_def honest_def split: option.splits)

lemma checks_honest [simp]:
  "honest (GT mark i)" "honest (GTE mark i)" "honest (LT mark i)" "honest (Required zero v)" "honest (IsHostPort s)"
  by (simp_all add: GT_def GTE_def LT_def Required_def IsHostPort_def errInvalidHostPort_def split: option.splits prod.splits)

lemma checks_None [simp]:
  "GT mark i = None \<longleftrightarrow> mark < i" "GTE mark i = None \<longleftrightarrow> mark \<le> i" "LT mark i = None \<longleftrightarrow> i < mark"
  "Required zero v = None \<longleftrightarrow> v \<noteq> zero"
  by (auto simp: GT_def GTE_def LT_def Required_def)

lemma unique_from_honest [simp]: "honest (unique_from seen vs)"
  by (induction vs arbitrary: seen) auto

lemma Unique_honest [simp]: "honest (Unique vs)"
  by (simp add: Unique_def)

lemma unique_from_None: "unique_from seen vs = None \<longleftrightarrow> distinct vs \<and> set vs \<inter> set seen = {}"
  by (induction vs arbitrary: seen) auto

lemma Unique_None [simp]: "Unique vs = None \<longleftrightarrow> distinct vs"
  by (simp add: Unique_def unique_from_None)

lemma When_honest [simp]: "honest (When pred checks v)"
  by (auto simp: When_def honest_def Let_def toErrors_def split: if_splits)

lemma When_None:
  assumes "\<And>c. c \<in> set checks \<Longrightarrow> honest (c v)"
  shows "When pred checks v = None \<longleftrightarrow> (pred v \<longrightarrow> (\<forall>c\<in>set checks. c v = None))"
proof -
  have "FieldRule [] v checks = [] \<longleftrightarrow> (\<forall>c\<in>set checks. c v = None)"
    using assms by (intro FieldRule_Nil) auto
  then show ?thesis by (simp add: When_def FieldRule_def Let_def)
qed

lemma WhenRules_Nil [simp]: "WhenRules p rules = [] \<longleftrightarrow> (p \<longrightarrow> (\<forall>r\<in>set rules. r = []))"
  by (auto simp: WhenRules_def)

lemma Nested_Nil: "honest res \<Longrightarrow> Nested subject res = [] \<longleftrightarrow> res = None"
  by (auto simp: Nested_def honest_def Let_def split: option.splits)

lemma children_from_Nil:
  "(\<And>x. x \<in> set xs \<Longrightarrow> honest (validate x)) \<Longrightarrow> children_from i name xs validate = [] \<longleftrightarrow> (\<forall>x\<in>set xs. validate x = None)"
  by (induction xs arbitrary: i) (auto simp: Nested_Nil)

lemma Children_Nil:
  "(\<And>x. x \<in> set xs \<Longrightarrow> honest (validate x)) \<Longrightarrow> Children name xs validate = [] \<longleftrightarrow> (\<forall>x\<in>set xs. validate x = None)"
  by (simp add: Children_def children_from_Nil)

locale validator =
  fixes validate :: "'a \<Rightarrow> verr option" and valid :: "'a \<Rightarrow> bool"
  assumes validate_honest: "honest (validate x)"
    and validate_iff: "validate x = None \<longleftrightarrow> valid x"
begin

lemma nested_valid: "Nested subject (validate x) = [] \<longleftrightarrow> valid x"
  by (simp add: Nested_Nil validate_honest validate_iff)

lemma children_valid: "Children name xs validate = [] \<longleftrightarrow> list_all valid xs"
  by (simp add: Children_Nil validate_honest validate_iff list_all_iff)

text \<open>A failing child is reported on a path below its own segment.\<close>

lemma nested_subject:
  assumes "subject \<noteq> []" "e \<in> set (Nested subject (validate x))"
  shows "prefix subject (Subject e) \<or> prefix subject (Field e)"
  using assms by (auto simp: Nested_def Let_def join_def split: option.splits if_splits)

end

section \<open>Addresses\<close>

lemma SplitHostPort_plain:
  assumes "set host \<inter> {CHR '':'', CHR ''['', CHR '']''} = {}" "set port \<inter> {CHR '':'', CHR ''['', CHR '']''} = {}"
  shows "SplitHostPort (host @ '':'' @ port) = Some (host, port)"
proof -
  have "LastIndexChar (host @ '':'' @ port) (CHR '':'') = Some (length host)"
    using assms(2) by simp
  moreover have "\<not> HasPrefix (host @ '':'' @ port) ''[''"
    using assms(1) by (cases host) (auto simp: HasPrefix_def)
  ultimately show ?thesis using assms by (auto simp: SplitHostPort_def Let_def)
qed

text \<open>
  A plain \<open>host:port\<close> is accepted exactly when its port is a decimal number up to 65535: for
  every host without brackets, colons or slashes, the empty host included, and every number.
\<close>

theorem IsHostPort_plain:
  assumes "set host \<inter> {CHR '':'', CHR ''['', CHR '']'', CHR ''/''} = {}"
  shows "IsHostPort (host @ '':'' @ itoa n) = None \<longleftrightarrow> n \<le> 65535"
proof -
  have "c \<in> set (itoa n) \<Longrightarrow> c \<notin> {CHR '':'', CHR ''['', CHR '']''}" for c
    using isDigit_itoa [of n] by (auto simp: list_all_iff isDigit_def)
  then have "SplitHostPort (host @ '':'' @ itoa n) = Some (host, itoa n)"
    using assms by (intro SplitHostPort_plain) auto
  with assms show ?thesis
    by (auto simp: IsHostPort_def ParseInt_itoa errInvalidHostPort_def maxInt64_def)
qed

theorem IsHostPort_plain_witness:
  "IsHostPort (''localhost'' @ '':'' @ itoa 7233) = None \<longleftrightarrow> (7233 :: nat) \<le> 65535"
  by (rule IsHostPort_plain) auto

end
