(* ===== verification/Cloud.thy ===== *)
theory Cloud
  imports Validation
begin

text \<open>
  \<open>internal/cloud/namespace.go\<close> and \<open>endpoint.go\<close>: the shape of a Temporal Cloud namespace and
  of a Cloud endpoint. The regular expression of a namespace name is written out as a predicate on
  byte sequences.
\<close>

section \<open>The code\<close>

definition nameMinLen :: nat where "nameMinLen = 2"
definition nameMaxLen :: nat where "nameMaxLen = 39"
definition accountIDMinLen :: nat where "accountIDMinLen = 5"
definition accountIDMaxLen :: nat where "accountIDMaxLen = 20"

definition isLower :: "char \<Rightarrow> bool" where
  "isLower c = (97 \<le> (of_char c :: nat) \<and> (of_char c :: nat) \<le> 122)"

text \<open>\<open>^[a-z][a-z0-9-]*[a-z0-9]$\<close>\<close>

definition nsNameRegex :: "string \<Rightarrow> bool" where
  "nsNameRegex s =
     (case s of
        [] \<Rightarrow> False
      | c # r \<Rightarrow>
          isLower c \<and> r \<noteq> [] \<and> list_all (\<lambda>x. isLower x \<or> isDigit x \<or> x = CHR ''-'') (butlast r)
          \<and> (isLower (last r) \<or> isDigit (last r)))"

definition size_check :: "nat \<Rightarrow> nat \<Rightarrow> string Check" where
  "size_check n m s = (if length s < n \<or> length s > m then Some (Plain ''must be between n and m characters'') else None)"

definition accountIDRule :: "string \<Rightarrow> Rule" where
  "accountIDRule i = FieldRule ''account-id'' i [Required [], size_check accountIDMinLen accountIDMaxLen]"

definition ValidateAccountID :: "string \<Rightarrow> verr option" where
  "ValidateAccountID i = Validate [] [accountIDRule i]"

definition ValidateNamespace :: "string \<Rightarrow> verr option" where
  "ValidateNamespace ns =
     (let (name, accountID, found) = CutChar ns (CHR ''.'');
          malformed = (\<not> found \<or> Contains accountID ''.'')
      in Validate []
           [WhenRules malformed
              [[\<lparr>Subject = [], Field = ''id'', VMessage = ''is malformed. Should be <name>.<account-id>''\<rparr>]],
            WhenRules (\<not> malformed)
              [FieldRule ''name'' name
                 [Required [], size_check nameMinLen nameMaxLen,
                  (\<lambda>v. if v \<noteq> ToLower v then Some (Plain ''must be lowercase'') else None),
                  (\<lambda>v. if \<not> nsNameRegex v
                       then Some (Plain ''must begin with a letter, end with a letter or number, and contain only letters, numbers, and the hyphen'')
                       else None)],
               accountIDRule accountID]])"

definition endpointSuffix :: string where
  "endpointSuffix = ''.tmprl.cloud''"

definition APIHostPort :: string where
  "APIHostPort = ''saas-api'' @ endpointSuffix @ '':443''"

definition IsEndpoint :: "string \<Rightarrow> bool" where
  "IsEndpoint hostPort =
     HasSuffix (case SplitHostPort hostPort of None \<Rightarrow> hostPort | Some (h, _) \<Rightarrow> h) endpointSuffix"

section \<open>Properties\<close>

lemma size_check_simps [simp]: "honest (size_check n m s)" "size_check n m s = None \<longleftrightarrow> n \<le> length s \<and> length s \<le> m"
  by (auto simp: size_check_def)

lemma accountIDRule_Nil [simp]: "accountIDRule i = [] \<longleftrightarrow> accountIDMinLen \<le> length i \<and> length i \<le> accountIDMaxLen"
  unfolding accountIDRule_def by (subst FieldRule_Nil) (auto simp: accountIDMinLen_def)

interpretation accountID: validator ValidateAccountID
    "\<lambda>i. accountIDMinLen \<le> length i \<and> length i \<le> accountIDMaxLen"
  by unfold_locales (simp_all add: ValidateAccountID_def)

text \<open>A Cloud namespace: a name label and an account label, with one dot between them.\<close>

definition cloud_namespace :: "string \<Rightarrow> bool" where
  "cloud_namespace ns \<longleftrightarrow>
     (\<exists>name i. ns = name @ ''.'' @ i \<and> CHR ''.'' \<notin> set name \<and> CHR ''.'' \<notin> set i
        \<and> nsNameRegex name \<and> length name \<le> nameMaxLen
        \<and> accountIDMinLen \<le> length i \<and> length i \<le> accountIDMaxLen)"

lemma lower_char_id: "isLower c \<or> isDigit c \<or> c = CHR ''-'' \<Longrightarrow> lower_char c = c"
  by (auto simp: lower_char_def isLower_def isDigit_def)

lemma nsNameRegex_chars: "nsNameRegex s \<Longrightarrow> c \<in> set s \<Longrightarrow> isLower c \<or> isDigit c \<or> c = CHR ''-''"
proof (cases s)
  case (Cons x r)
  assume "nsNameRegex s" "c \<in> set s"
  moreover have "c \<in> set r \<Longrightarrow> c \<in> set (butlast r) \<or> c = last r"
    by (metis append_butlast_last_id empty_iff in_set_conv_decomp list.set(1) rotate1.simps(2) set_ConsD set_rotate1)
  ultimately show ?thesis using Cons by (auto simp: nsNameRegex_def list_all_iff)
qed simp

lemma nsNameRegex_lower: "nsNameRegex s \<Longrightarrow> ToLower s = s"
  unfolding ToLower_def using lower_char_id nsNameRegex_chars by (intro map_idI) metis

lemma nsNameRegex_length: "nsNameRegex s \<Longrightarrow> 2 \<le> length s"
  by (auto simp: nsNameRegex_def Suc_le_eq split: list.splits)

lemma Contains_dot: "Contains s ''.'' \<longleftrightarrow> CHR ''.'' \<in> set s"
  by (induction s) (auto simp: HasPrefix_def)

lemma ValidateNamespace_cut:
  assumes "CHR ''.'' \<notin> set name" "CHR ''.'' \<notin> set i"
  shows "ValidateNamespace (name @ ''.'' @ i) = None \<longleftrightarrow> nsNameRegex name \<and> length name \<le> nameMaxLen
    \<and> accountIDMinLen \<le> length i \<and> length i \<le> accountIDMaxLen"
proof -
  let ?checks = "[Required [], size_check nameMinLen nameMaxLen,
                  (\<lambda>v. if v \<noteq> ToLower v then Some (Plain ''must be lowercase'') else None),
                  (\<lambda>v. if \<not> nsNameRegex v
                       then Some (Plain ''must begin with a letter, end with a letter or number, and contain only letters, numbers, and the hyphen'')
                       else None)]"
  have "FieldRule ''name'' name ?checks = [] \<longleftrightarrow> (\<forall>c\<in>set ?checks. c name = None)"
    by (rule FieldRule_Nil) auto
  also have "\<dots> \<longleftrightarrow> nsNameRegex name \<and> length name \<le> nameMaxLen"
    using nsNameRegex_lower [of name] nsNameRegex_length [of name]
    by (auto simp: nameMinLen_def nsNameRegex_def)
  finally show ?thesis using assms by (auto simp: ValidateNamespace_def Contains_dot Let_def)
qed

lemma ValidateNamespace_iff: "ValidateNamespace ns = None \<longleftrightarrow> cloud_namespace ns"
proof -
  obtain name i found where cut: "CutChar ns (CHR ''.'') = (name, i, found)" by (cases "CutChar ns (CHR ''.'')") auto
  show ?thesis
  proof (cases "found \<and> CHR ''.'' \<notin> set i")
    case False
    then have "ValidateNamespace ns \<noteq> None" using cut by (auto simp: ValidateNamespace_def Contains_dot)
    moreover have "\<not> cloud_namespace ns"
      using False cut by (auto simp: cloud_namespace_def)
    ultimately show ?thesis by simp
  next
    case True
    with cut have ns: "ns = name @ ''.'' @ i" "CHR ''.'' \<notin> set name" by (auto dest: CutChar_Some)
    have "cloud_namespace ns \<longleftrightarrow> nsNameRegex name \<and> length name \<le> nameMaxLen
      \<and> accountIDMinLen \<le> length i \<and> length i \<le> accountIDMaxLen" (is "?l \<longleftrightarrow> ?r")
    proof
      assume ?l
      then obtain name' i' where "ns = name' @ ''.'' @ i'" "CHR ''.'' \<notin> set name'" "nsNameRegex name'"
        "length name' \<le> nameMaxLen" "accountIDMinLen \<le> length i'" "length i' \<le> accountIDMaxLen"
        by (auto simp: cloud_namespace_def)
      with cut show ?r by simp
    qed (use ns True in \<open>auto simp: cloud_namespace_def\<close>)
    with ns True ValidateNamespace_cut [OF ns(2)] show ?thesis by simp
  qed
qed

interpretation cloudNamespace: validator ValidateNamespace cloud_namespace
  by unfold_locales (simp_all add: ValidateNamespace_iff, simp add: ValidateNamespace_def Let_def split: prod.splits)

end
