(* ===== verification/Namespace_Rules.thy ===== *)
theory Namespace_Rules
  imports Cloud
begin

text \<open>
  The namespace part of \<open>internal/config/upstream.go\<close>: the translation between the names workers
  use and the names an upstream knows, its validation and compilation, the rules a Cloud upstream
  adds, and the choice of the rules that give a sealed payload its label.

  The locale \<open>name_map\<close> is what translation promises to its clients (the message translators and
  the codecs): on its domain, the way back undoes the way out. It is interpreted on \<open>Remote\<close> and
  \<open>Local\<close> with the domain the code really has, which leaves out the names that collide with an
  override.
\<close>

section \<open>The code\<close>

record NamespaceMapping =
  nm_Local :: string
  nm_Remote :: string

text \<open>The compiled maps are \<open>None\<close> until \<open>compile\<close> has run.\<close>

record NamespaceRules =
  Prefix :: string
  Suffix :: string
  Overrides :: "NamespaceMapping list"
  localToRemote :: "string gomap option"
  remoteToLocal :: "string gomap option"

record NamespaceConfig =
  Rules :: NamespaceRules
  BindingLabelsFrom :: string

text \<open>The fields of an upstream that this part reads.\<close>

record UpstreamNames =
  u_Name :: string
  u_Cloud :: bool
  u_HostPort :: string
  u_ServerName :: "string option"
  u_Namespaces :: NamespaceConfig

definition not_prepared :: goerror where
  "not_prepared = ErrorString ''panic: config: NamespaceRules used before Config.Prepare''"

definition Local :: "NamespaceRules \<Rightarrow> string \<Rightarrow> string result" where
  "Local r remoteNS =
     (case (localToRemote r, remoteToLocal r) of
        (Some _, Some m) \<Rightarrow>
          Inr (case map_of m remoteNS of
                 Some v \<Rightarrow> v
               | None \<Rightarrow> TrimPrefix (TrimSuffix remoteNS (Suffix r)) (Prefix r))
      | _ \<Rightarrow> Inl not_prepared)"

definition Remote :: "NamespaceRules \<Rightarrow> string \<Rightarrow> string result" where
  "Remote r localNS =
     (case localToRemote r of
        None \<Rightarrow> Inl not_prepared
      | Some m \<Rightarrow>
          Inr (case map_of m localNS of
                 Some v \<Rightarrow> v
               | None \<Rightarrow> Prefix r @ localNS @ Suffix r))"

definition Mapping_Validate :: "NamespaceMapping \<Rightarrow> verr option" where
  "Mapping_Validate m =
     Validate [] [FieldRule ''local'' (nm_Local m) [Required []], FieldRule ''remote'' (nm_Remote m) [Required []]]"

fun override_rules :: "nat \<Rightarrow> NamespaceMapping list \<Rightarrow> Rule list" where
  "override_rules i [] = []"
| "override_rules i (m # ms) = Nested (''overrides['' @ itoa i @ '']'') (Mapping_Validate m) # override_rules (Suc i) ms"

definition Rules_Validate :: "NamespaceRules \<Rightarrow> verr option" where
  "Rules_Validate r =
     (if Overrides r = [] then None
      else Validate []
             (FieldRule ''overrides[local]'' (map nm_Local (Overrides r)) [Unique]
              # FieldRule ''overrides[remote]'' (map nm_Remote (Overrides r)) [Unique]
              # override_rules 0 (Overrides r)))"

definition Config_Validate :: "NamespaceConfig \<Rightarrow> verr option" where
  "Config_Validate c = Validate [] [Nested ''rules'' (Rules_Validate (Rules c))]"

definition Configured :: "NamespaceRules \<Rightarrow> bool" where
  "Configured r = (Prefix r \<noteq> [] \<or> Suffix r \<noteq> [] \<or> Overrides r \<noteq> [])"

definition compile_rules :: "NamespaceRules \<Rightarrow> NamespaceRules" where
  "compile_rules r =
     r\<lparr>localToRemote := Some (fold (\<lambda>m al. AList.update (nm_Local m) (nm_Remote m) al) (Overrides r) []),
       remoteToLocal := Some (fold (\<lambda>m al. AList.update (nm_Remote m) (nm_Local m) al) (Overrides r) [])\<rparr>"

definition reset_rules :: "NamespaceRules \<Rightarrow> NamespaceRules" where
  "reset_rules r = r\<lparr>localToRemote := None, remoteToLocal := None\<rparr>"

text \<open>\<open>IsCloud\<close> and the rules it turns on.\<close>

definition IsCloud :: "UpstreamNames \<Rightarrow> bool" where
  "IsCloud u =
     (u_Cloud u \<or> IsEndpoint (u_HostPort u)
      \<or> (case u_ServerName u of None \<Rightarrow> False | Some sn \<Rightarrow> IsEndpoint sn))"

definition suffix_rule :: "NamespaceRules \<Rightarrow> Rule" where
  "suffix_rule r =
     (let (i, found) = CutPrefix (Suffix r) ''.''
      in if Suffix r = [] \<or> (found \<and> ValidateAccountID i = None) then []
         else [\<lparr>Subject = ''namespaces.rules'', Field = ''suffix'',
                VMessage = ''must be .<account-id> for a Temporal Cloud upstream''\<rparr>])"

fun remote_rules :: "nat \<Rightarrow> NamespaceMapping list \<Rightarrow> Rule" where
  "remote_rules i [] = []"
| "remote_rules i (m # ms) =
     (if nm_Remote m = [] \<or> ValidateNamespace (nm_Remote m) = None then []
      else [\<lparr>Subject = ''namespaces.rules.overrides['' @ itoa i @ '']'', Field = ''remote'',
             VMessage = ''must be a Temporal Cloud namespace (<name>.<account-id>)''\<rparr>])
     @ remote_rules (Suc i) ms"

definition cloudRules :: "UpstreamNames \<Rightarrow> Rule list" where
  "cloudRules u = [suffix_rule (Rules (u_Namespaces u)), remote_rules 0 (Overrides (Rules (u_Namespaces u)))]"

text \<open>\<open>knownUpstream\<close> of \<open>routing.go\<close>.\<close>

definition knownUpstream :: "string list \<Rightarrow> string Check" where
  "knownUpstream known name = (if List.member known name then None else Some (Plain (''references unknown upstream '' @ name)))"

definition BindingRules :: "UpstreamNames list \<Rightarrow> UpstreamNames \<Rightarrow> NamespaceRules" where
  "BindingRules ul u =
     (let from = BindingLabelsFrom (u_Namespaces u)
      in if from \<noteq> []
         then case List.find (\<lambda>x. u_Name x = from) ul of
                Some x \<Rightarrow> Rules (u_Namespaces x)
              | None \<Rightarrow> Rules (u_Namespaces u)
         else Rules (u_Namespaces u))"

text \<open>The map \<open>sets\<close> of \<open>bindingLabelsRule\<close>: the last upstream of a name decides.\<close>

definition sets_labels :: "UpstreamNames list \<Rightarrow> string \<Rightarrow> bool" where
  "sets_labels ul name =
     (case List.find (\<lambda>x. u_Name x = name) (rev ul) of
        None \<Rightarrow> False
      | Some x \<Rightarrow> BindingLabelsFrom (u_Namespaces x) \<noteq> [])"

fun label_errors :: "UpstreamNames list \<Rightarrow> nat \<Rightarrow> UpstreamNames list \<Rightarrow> Rule" where
  "label_errors ul i [] = []"
| "label_errors ul i (u # us) =
     (let from = BindingLabelsFrom (u_Namespaces u);
          msg = (if from = [] then None
                 else case knownUpstream (map u_Name ul) from of
                   Some _ \<Rightarrow> Some (''references unknown upstream '' @ from)
                 | None \<Rightarrow>
                     (if from = u_Name u then Some ''must name another upstream, not this one''
                      else if sets_labels ul from
                      then Some (''references upstream '' @ from @ '', which sets bindingLabelsFrom itself'')
                      else None))
      in (case msg of
            None \<Rightarrow> []
          | Some t \<Rightarrow> [\<lparr>Subject = ''['' @ itoa i @ ''].namespaces'', Field = ''bindingLabelsFrom'', VMessage = t\<rparr>])
         @ label_errors ul (Suc i) us)"

definition bindingLabelsRule :: "UpstreamNames list \<Rightarrow> Rule" where
  "bindingLabelsRule ul = label_errors ul 0 ul"

section \<open>Validation accepts exactly the well-formed rules\<close>

interpretation mapping: validator Mapping_Validate "\<lambda>m. nm_Local m \<noteq> [] \<and> nm_Remote m \<noteq> []"
  by unfold_locales (auto simp: Mapping_Validate_def)

lemma override_rules_Nil: "(\<forall>x\<in>set (override_rules i ms). x = []) \<longleftrightarrow> (\<forall>m\<in>set ms. nm_Local m \<noteq> [] \<and> nm_Remote m \<noteq> [])"
  by (induction ms arbitrary: i) (auto simp: mapping.nested_valid)

definition rules_wf :: "NamespaceRules \<Rightarrow> bool" where
  "rules_wf r \<longleftrightarrow>
     distinct (map nm_Local (Overrides r)) \<and> distinct (map nm_Remote (Overrides r))
     \<and> (\<forall>m\<in>set (Overrides r). nm_Local m \<noteq> [] \<and> nm_Remote m \<noteq> [])"

interpretation rules: validator Rules_Validate rules_wf
  by unfold_locales (auto simp: Rules_Validate_def rules_wf_def override_rules_Nil)

section \<open>The translation contract\<close>

locale name_map =
  fixes out :: "string \<Rightarrow> string" and inn :: "string \<Rightarrow> string" and names :: "string \<Rightarrow> bool"
  assumes inn_out: "names x \<Longrightarrow> inn (out x) = x"
begin

lemma out_inj: "names x \<Longrightarrow> names y \<Longrightarrow> out x = out y \<Longrightarrow> x = y"
  using inn_out by metis

lemma map_inn_out: "list_all names xs \<Longrightarrow> map (inn \<circ> out) xs = xs"
  by (induction xs) (simp_all add: inn_out)

end

text \<open>The names whose plain translation is not the remote of an override.\<close>

definition translatable :: "NamespaceRules \<Rightarrow> string \<Rightarrow> bool" where
  "translatable r x \<longleftrightarrow>
     x \<in> nm_Local ` set (Overrides r) \<or> Prefix r @ x @ Suffix r \<notin> nm_Remote ` set (Overrides r)"

text \<open>Lookup in a map compiled from pairs with distinct keys.\<close>

lemma fold_update_map_of:
  "map_of (fold (\<lambda>m al. AList.update (f m) (g m) al) ms al) = map_of al ++ map_of (rev (map (\<lambda>m. (f m, g m)) ms))"
proof (induction ms arbitrary: al)
  case (Cons m ms)
  show ?case unfolding fold.simps comp_def Cons.IH by (simp add: map_add_def fun_eq_iff split: option.splits)
qed simp

lemma compiled_lookup:
  assumes "distinct (map f ms)"
  shows "map_of (fold (\<lambda>m al. AList.update (f m) (g m) al) ms []) k = Some v \<longleftrightarrow> (\<exists>m\<in>set ms. f m = k \<and> g m = v)"
proof -
  have "distinct (map fst (rev (map (\<lambda>m. (f m, g m)) ms)))" using assms by (simp add: comp_def flip: rev_map)
  then show ?thesis unfolding fold_update_map_of by (auto simp: map_of_eq_Some_iff)
qed

lemma compiled_None:
  "map_of (fold (\<lambda>m al. AList.update (f m) (g m) al) ms []) k = None \<longleftrightarrow> k \<notin> f ` set ms"
  unfolding fold_update_map_of by (simp add: map_of_eq_None_iff image_image)

text \<open>The names as functions, once the rules are compiled.\<close>

definition remote_of :: "NamespaceRules \<Rightarrow> string \<Rightarrow> string" where
  "remote_of r x = (case Remote (compile_rules r) x of Inr y \<Rightarrow> y | Inl _ \<Rightarrow> x)"

definition local_of :: "NamespaceRules \<Rightarrow> string \<Rightarrow> string" where
  "local_of r x = (case Local (compile_rules r) x of Inr y \<Rightarrow> y | Inl _ \<Rightarrow> x)"

lemma Remote_compiled: "Remote (compile_rules r) x = Inr (remote_of r x)"
  by (simp add: remote_of_def Remote_def compile_rules_def)

lemma Local_compiled: "Local (compile_rules r) x = Inr (local_of r x)"
  by (simp add: local_of_def Local_def compile_rules_def)

lemma remote_of_override:
  "rules_wf r \<Longrightarrow> m \<in> set (Overrides r) \<Longrightarrow> remote_of r (nm_Local m) = nm_Remote m"
  using compiled_lookup [of nm_Local "Overrides r" nm_Remote "nm_Local m" "nm_Remote m"]
  by (auto simp: rules_wf_def remote_of_def Remote_def compile_rules_def)

lemma local_of_override:
  "rules_wf r \<Longrightarrow> m \<in> set (Overrides r) \<Longrightarrow> local_of r (nm_Remote m) = nm_Local m"
  using compiled_lookup [of nm_Remote "Overrides r" nm_Local "nm_Remote m" "nm_Local m"]
  by (auto simp: rules_wf_def local_of_def Local_def compile_rules_def)

lemma remote_of_plain: "x \<notin> nm_Local ` set (Overrides r) \<Longrightarrow> remote_of r x = Prefix r @ x @ Suffix r"
  using compiled_None [of nm_Local nm_Remote "Overrides r" x]
  by (simp add: remote_of_def Remote_def compile_rules_def)

lemma local_of_plain:
  "y \<notin> nm_Remote ` set (Overrides r) \<Longrightarrow> local_of r y = TrimPrefix (TrimSuffix y (Suffix r)) (Prefix r)"
  using compiled_None [of nm_Remote nm_Local "Overrides r" y]
  by (simp add: local_of_def Local_def compile_rules_def)

lemma trim_wrap: "TrimPrefix (TrimSuffix (p @ x @ s) s) p = x"
  by (simp add: TrimPrefix_def TrimSuffix_def HasSuffix_def HasPrefix_def)

lemma local_remote: "rules_wf r \<Longrightarrow> translatable r x \<Longrightarrow> local_of r (remote_of r x) = x"
  by (cases "x \<in> nm_Local ` set (Overrides r)")
    (auto simp: translatable_def remote_of_override local_of_override remote_of_plain local_of_plain trim_wrap)

interpretation names: name_map "remote_of r" "local_of r" "\<lambda>x. rules_wf r \<and> translatable r x" for r
  by unfold_locales (simp add: local_remote)

section \<open>Properties\<close>

text \<open>
  Translation is invertible on the names it can tell apart. For rules that pass validation,
  the local name of a remote name is the one it came from, for every override and for every name
  whose prefixed and suffixed form is not the remote name of an override; and two such names
  never share a remote name.
\<close>

theorem Local_Remote_inverse:
  assumes "Rules_Validate r = None" "translatable r x" "translatable r y"
  shows "Remote (compile_rules r) x = Inr (remote_of r x) \<and> Local (compile_rules r) (remote_of r x) = Inr x
    \<and> (remote_of r x = remote_of r y \<longrightarrow> x = y)"
  using assms names.inn_out [of r x] names.out_inj [of r x y]
  by (simp add: Remote_compiled Local_compiled rules.validate_iff)

definition ex_rules :: NamespaceRules where
  "ex_rules = \<lparr>Prefix = ''p-'', Suffix = [], Overrides = [\<lparr>nm_Local = ''a'', nm_Remote = ''p-b''\<rparr>],
               localToRemote = None, remoteToLocal = None\<rparr>"

theorem Local_Remote_inverse_witness:
  "Remote (compile_rules ex_rules) ''a'' = Inr (remote_of ex_rules ''a'')
   \<and> Local (compile_rules ex_rules) (remote_of ex_rules ''a'') = Inr ''a''"
proof -
  have "Rules_Validate ex_rules = None" by (simp add: rules.validate_iff rules_wf_def ex_rules_def)
  moreover have "translatable ex_rules ''a''" by (simp add: translatable_def ex_rules_def)
  ultimately show ?thesis using Local_Remote_inverse [of ex_rules "''a''" "''a''"] by blast
qed

text \<open>
  C30. The side condition is needed, and validation does not ensure it: rules exist that pass
  validation and send two local names to one remote name, so that the local name of the second
  name's remote form is the first name. An override whose remote is the plain translation of
  another name does it.
\<close>

theorem Remote_collision:
  "\<exists>r x y z. Rules_Validate r = None \<and> x \<noteq> y \<and> Remote (compile_rules r) x = Inr z
     \<and> Remote (compile_rules r) y = Inr z \<and> Local (compile_rules r) z = Inr x"
proof -
  have "Rules_Validate ex_rules = None" by (simp add: rules.validate_iff rules_wf_def ex_rules_def)
  moreover have "Remote (compile_rules ex_rules) ''a'' = Inr ''p-b''" "Remote (compile_rules ex_rules) ''b'' = Inr ''p-b''"
    "Local (compile_rules ex_rules) ''p-b'' = Inr ''a''"
    by (simp_all add: Remote_def Local_def compile_rules_def ex_rules_def)
  ultimately show ?thesis by (intro exI [of _ ex_rules] exI [of _ "''a''"] exI [of _ "''b''"] exI [of _ "''p-b''"]) simp
qed

lemma label_errors_Nil:
  "label_errors ul i us = [] \<longleftrightarrow>
     (\<forall>u\<in>set us. let from = BindingLabelsFrom (u_Namespaces u)
        in from \<noteq> [] \<longrightarrow> from \<in> u_Name ` set ul \<and> from \<noteq> u_Name u \<and> \<not> sets_labels ul from)"
  by (induction us arbitrary: i)
    (auto simp: Let_def knownUpstream_def split: option.splits if_splits)

lemma find_distinct:
  assumes "distinct (map u_Name ul)" "x \<in> set ul"
  shows "List.find (\<lambda>y. u_Name y = u_Name x) ul = Some x"
  using assms by (induction ul) (auto simp: image_iff)

text \<open>
  A label is one hop away. In a list whose upstreams have distinct names and that passes the
  check on \<open>bindingLabelsFrom\<close>, the rules that label the payloads of an upstream are those of an
  upstream of the list that takes its labels from no other one: the upstream itself when it names
  none, else the upstream it names.
\<close>

theorem BindingRules_one_hop:
  assumes "distinct (map u_Name ul)" "bindingLabelsRule ul = []" "u \<in> set ul"
  shows "\<exists>x\<in>set ul. BindingRules ul u = Rules (u_Namespaces x) \<and> BindingLabelsFrom (u_Namespaces x) = []
    \<and> (BindingLabelsFrom (u_Namespaces u) = [] \<longrightarrow> x = u)
    \<and> (BindingLabelsFrom (u_Namespaces u) \<noteq> [] \<longrightarrow> u_Name x = BindingLabelsFrom (u_Namespaces u) \<and> x \<noteq> u)"
proof (cases "BindingLabelsFrom (u_Namespaces u) = []")
  case True
  with assms(3) show ?thesis by (auto simp: BindingRules_def)
next
  case False
  with assms(2,3) have src: "BindingLabelsFrom (u_Namespaces u) \<in> u_Name ` set ul"
    "BindingLabelsFrom (u_Namespaces u) \<noteq> u_Name u" "\<not> sets_labels ul (BindingLabelsFrom (u_Namespaces u))"
    by (auto simp: bindingLabelsRule_def label_errors_Nil Let_def)
  then obtain x where x: "x \<in> set ul" "u_Name x = BindingLabelsFrom (u_Namespaces u)" by auto
  have "List.find (\<lambda>y. u_Name y = u_Name x) (rev ul) = Some x" "List.find (\<lambda>y. u_Name y = u_Name x) ul = Some x"
    using assms(1) x(1) by (auto intro!: find_distinct simp flip: rev_map)
  with src(2,3) x False show ?thesis
    by (intro bexI [of _ x]) (auto simp: BindingRules_def sets_labels_def)
qed

definition ex_upstreams :: "UpstreamNames list" where
  "ex_upstreams = [\<lparr>u_Name = ''old'', u_Cloud = False, u_HostPort = ''h:1'', u_ServerName = None,
                    u_Namespaces = \<lparr>Rules = ex_rules, BindingLabelsFrom = ''new''\<rparr>\<rparr>,
                   \<lparr>u_Name = ''new'', u_Cloud = True, u_HostPort = ''h:2'', u_ServerName = None,
                    u_Namespaces = \<lparr>Rules = ex_rules\<lparr>Prefix := []\<rparr>, BindingLabelsFrom = []\<rparr>\<rparr>]"

theorem BindingRules_one_hop_witness:
  "\<exists>x\<in>set ex_upstreams. BindingRules ex_upstreams (hd ex_upstreams) = Rules (u_Namespaces x)
     \<and> BindingLabelsFrom (u_Namespaces x) = []"
  using BindingRules_one_hop [of ex_upstreams "hd ex_upstreams"]
  by (auto simp: ex_upstreams_def bindingLabelsRule_def knownUpstream_def sets_labels_def)

lemma remote_rules_Nil:
  "remote_rules i ms = [] \<longleftrightarrow> (\<forall>m\<in>set ms. nm_Remote m = [] \<or> cloud_namespace (nm_Remote m))"
  by (induction ms arbitrary: i) (auto simp: ValidateNamespace_iff)

lemma suffix_rule_Nil:
  "suffix_rule r = [] \<longleftrightarrow> Suffix r = []
     \<or> (\<exists>i. Suffix r = ''.'' @ i \<and> accountIDMinLen \<le> length i \<and> length i \<le> accountIDMaxLen)"
  by (cases "Suffix r") (auto simp: suffix_rule_def CutPrefix_def HasPrefix_def accountID.validate_iff Let_def)

text \<open>
  On a Cloud upstream every translated name is a Cloud namespace: when the Cloud rules pass
  and a suffix with a one-label account is set, an override's remote is a well-formed Cloud
  namespace, and so is the translation of every name that with the prefix is a valid name label.
\<close>

theorem cloudRules_remote:
  assumes "Rules_Validate (Rules (u_Namespaces u)) = None" "\<forall>x\<in>set (cloudRules u). x = []"
    and "Suffix (Rules (u_Namespaces u)) \<noteq> []" "CHR ''.'' \<notin> set (tl (Suffix (Rules (u_Namespaces u))))"
    and "x \<in> nm_Local ` set (Overrides (Rules (u_Namespaces u)))
      \<or> nsNameRegex (Prefix (Rules (u_Namespaces u)) @ x) \<and> length (Prefix (Rules (u_Namespaces u)) @ x) \<le> nameMaxLen"
  shows "cloud_namespace (remote_of (Rules (u_Namespaces u)) x)"
proof (cases "x \<in> nm_Local ` set (Overrides (Rules (u_Namespaces u)))")
  case True
  then obtain m where m: "m \<in> set (Overrides (Rules (u_Namespaces u)))" "x = nm_Local m" by auto
  have "rules_wf (Rules (u_Namespaces u))" using assms(1) by (simp add: rules.validate_iff)
  with m assms(2) show ?thesis by (auto simp: remote_of_override cloudRules_def remote_rules_Nil rules_wf_def)
next
  case False
  let ?p = "Prefix (Rules (u_Namespaces u))"
  from assms(2,3) obtain i where i: "Suffix (Rules (u_Namespaces u)) = ''.'' @ i" "accountIDMinLen \<le> length i" "length i \<le> accountIDMaxLen"
    by (auto simp: cloudRules_def suffix_rule_Nil)
  from False assms(5) have p: "nsNameRegex (?p @ x)" "length (?p @ x) \<le> nameMaxLen" by auto
  have "CHR ''.'' \<notin> set (?p @ x)"
    using nsNameRegex_chars [OF p(1), of "CHR ''.''"] by (auto simp: isLower_def isDigit_def)
  moreover have "remote_of (Rules (u_Namespaces u)) x = (?p @ x) @ ''.'' @ i"
    using False i(1) by (simp add: remote_of_plain)
  ultimately show ?thesis
    using p i assms(4) unfolding cloud_namespace_def by (intro exI [of _ "?p @ x"] exI [of _ i]) auto
qed

definition ex_cloud :: UpstreamNames where
  "ex_cloud = \<lparr>u_Name = ''cloud'', u_Cloud = True, u_HostPort = ''h:2'', u_ServerName = None,
      u_Namespaces = \<lparr>Rules = \<lparr>Prefix = ''eu-'', Suffix = ''.abcde'', Overrides = [], localToRemote = None,
        remoteToLocal = None\<rparr>, BindingLabelsFrom = []\<rparr>\<rparr>"

theorem cloudRules_remote_witness: "cloud_namespace (remote_of (Rules (u_Namespaces ex_cloud)) ''payments'')"
  by (rule cloudRules_remote)
    (auto simp: ex_cloud_def rules.validate_iff rules_wf_def cloudRules_def suffix_rule_Nil accountIDMinLen_def
      accountIDMaxLen_def nsNameRegex_def isLower_def isDigit_def nameMaxLen_def)

text \<open>
  The check on an account ID accepts IDs that are no label of a Cloud namespace: one with a
  dot in it passes, although no namespace with that account passes the check on namespaces.
\<close>

theorem ValidateAccountID_accepts_dots:
  "ValidateAccountID ''ab.cd'' = None \<and> (\<forall>name. ValidateNamespace (name @ ''.ab.cd'') \<noteq> None)"
proof (intro conjI allI)
  show "ValidateAccountID ''ab.cd'' = None"
    by (simp add: accountID.validate_iff accountIDMinLen_def accountIDMaxLen_def)
  fix name
  have "\<not> cloud_namespace (name @ ''.ab.cd'')"
  proof
    assume "cloud_namespace (name @ ''.ab.cd'')"
    then obtain n i where ni: "name @ ''.ab.cd'' = n @ ''.'' @ i" "CHR ''.'' \<notin> set n" "CHR ''.'' \<notin> set i"
      by (auto simp: cloud_namespace_def)
    have "filter (\<lambda>c. c = CHR ''.'') n = []" "filter (\<lambda>c. c = CHR ''.'') i = []"
      using ni(2,3) by (auto simp: filter_empty_conv)
    with arg_cong [OF ni(1), of "\<lambda>s. length (filter (\<lambda>c. c = CHR ''.'') s)"]
    show False by simp
  qed
  then show "ValidateNamespace (name @ ''.ab.cd'') \<noteq> None" by (simp add: ValidateNamespace_iff)
qed

end
