(* ===== verification/Rpc.thy ===== *)
theory Rpc
  imports Services
begin

text \<open>
  The request context as the gateway uses it: \<open>internal/transport/meta\<close> (the target of a request,
  the namespace header), and from \<open>internal/rpc\<close> the full method of a call, the outgoing metadata
  and the status an error is reported with.

  gRPC's packages \<open>metadata\<close> and \<open>status\<close> are parameters. A context keeps the values this
  program stores in it and, in a component of a type of its own, whatever gRPC keeps there; what
  the code relies on is \<open>metadata_doc\<close> and \<open>status_doc\<close>, read off those packages' documentation.
\<close>

section \<open>gRPC\<close>

type_synonym MD = "string list gomap"

datatype HTTPGroup = HTTPGroupUnspecified | HTTPGroupCodecServer | HTTPGroupPProf | HTTPGroupOther int

record HTTPTarget =
  h_Group :: HTTPGroup
  h_Method :: string
  h_Path :: string

record Target =
  FullName :: string
  Namespace :: string
  HTTP :: "HTTPTarget option"

text \<open>A context: gRPC's part, the entries under \<open>targetKey\<close> and \<open>loopbackKey\<close>.\<close>

record 'g goctx =
  grpc_part :: 'g
  targetKey :: "Target option"
  loopbackKey :: "bool option"

record 'g grpc_api =
  FromOutgoingContext :: "'g \<Rightarrow> MD option"
  NewOutgoingContext :: "'g \<Rightarrow> MD \<Rightarrow> 'g"
  FromIncomingContext :: "'g \<Rightarrow> MD option"
  NewIncomingContext :: "'g \<Rightarrow> MD \<Rightarrow> 'g"
  ServerTransportStream :: "'g \<Rightarrow> string option"
  MD_Get :: "MD \<Rightarrow> string \<Rightarrow> string list"
  MD_Set :: "MD \<Rightarrow> string \<Rightarrow> string list \<Rightarrow> MD"
  MD_Delete :: "MD \<Rightarrow> string \<Rightarrow> MD"

record status_api =
  FromError :: "goerror \<Rightarrow> bool"
  FromContextError :: "goerror \<Rightarrow> code \<times> string"
  status_Code :: "goerror \<Rightarrow> code"

text \<open>Metadata keys are lower case once they have been through gRPC.\<close>

definition lower_keys :: "MD \<Rightarrow> bool" where
  "lower_keys md \<longleftrightarrow> (\<forall>k\<in>fst ` set md. ToLower k = k)"

definition metadata_doc :: "'g grpc_api \<Rightarrow> bool" where
  "metadata_doc api \<longleftrightarrow>
     (\<forall>g md. lower_keys md \<longrightarrow> FromOutgoingContext api (NewOutgoingContext api g md) = Some md)
     \<and> (\<forall>g md. FromOutgoingContext api g = Some md \<longrightarrow> lower_keys md)
     \<and> (\<forall>md k vs. lower_keys md \<longrightarrow> lower_keys (MD_Set api md k vs))
     \<and> (\<forall>md k vs k'. vs \<noteq> [] \<longrightarrow> MD_Get api (MD_Set api md k vs) k' = (if ToLower k' = ToLower k then vs else MD_Get api md k'))
     \<and> (\<forall>md k. lower_keys md \<longrightarrow> MD_Get api md k = lookup_all md (ToLower k))
     \<and> (\<forall>md k. MD_Set api md k [] = md)
     \<and> (\<forall>g md. FromIncomingContext api g = Some md \<longrightarrow> lower_keys md \<and> distinct (map fst md))
     \<and> (\<forall>md k. MD_Delete api md k = filter (\<lambda>e. fst e \<noteq> ToLower k) md)
     \<and> (\<forall>g md. FromIncomingContext api (NewOutgoingContext api g md) = FromIncomingContext api g)
     \<and> (\<forall>g md. ServerTransportStream api (NewOutgoingContext api g md) = ServerTransportStream api g)
     \<and> (\<forall>g md. lower_keys md \<and> distinct (map fst md) \<longrightarrow> FromIncomingContext api (NewIncomingContext api g md) = Some md)
     \<and> (\<forall>g md. FromOutgoingContext api (NewIncomingContext api g md) = FromOutgoingContext api g)
     \<and> (\<forall>g md. ServerTransportStream api (NewIncomingContext api g md) = ServerTransportStream api g)"

text \<open>An error with a status of its own is recognised, and a status built by this program is one.\<close>

definition status_doc :: "status_api \<Rightarrow> bool" where
  "status_doc st \<longleftrightarrow>
     (\<forall>c m. FromError st (StatusError c m)) \<and> (\<forall>c m d. FromError st (Rejection c m d))
     \<and> (\<forall>v. FromError st (PanicError v))
     \<and> (\<forall>c m. status_Code st (StatusError c m) = c) \<and> (\<forall>c m d. status_Code st (Rejection c m d) = c)"

section \<open>internal/transport/meta\<close>

definition NamespaceHeader :: string where
  "NamespaceHeader = ''x-temporal-proxy-namespace''"

definition VersionHeader :: string where
  "VersionHeader = ''x-temporal-proxy-version''"

definition WithTarget :: "'g goctx \<Rightarrow> Target \<Rightarrow> 'g goctx" where
  "WithTarget ctx target = ctx\<lparr>targetKey := Some target\<rparr>"

definition TargetFrom :: "'g goctx \<Rightarrow> Target" where
  "TargetFrom ctx =
     (case targetKey ctx of Some target \<Rightarrow> target | None \<Rightarrow> \<lparr>FullName = [], Namespace = [], HTTP = None\<rparr>)"

definition WithLoopback :: "'g goctx \<Rightarrow> 'g goctx" where
  "WithLoopback ctx = ctx\<lparr>loopbackKey := Some True\<rparr>"

definition IsLoopback :: "'g goctx \<Rightarrow> bool" where
  "IsLoopback ctx = (case loopbackKey ctx of Some b \<Rightarrow> b | None \<Rightarrow> False)"

definition HTTPGroups :: "HTTPGroup list" where
  "HTTPGroups = [HTTPGroupCodecServer, HTTPGroupPProf]"

definition withHeader :: "'g grpc_api \<Rightarrow> 'g goctx \<Rightarrow> string \<Rightarrow> string \<Rightarrow> 'g goctx" where
  "withHeader api ctx key v =
     (let md = (case FromOutgoingContext api (grpc_part ctx) of None \<Rightarrow> [] | Some md \<Rightarrow> md)
      in ctx\<lparr>grpc_part := NewOutgoingContext api (grpc_part ctx) (MD_Set api md key [v])\<rparr>)"

definition WithNamespace :: "'g grpc_api \<Rightarrow> 'g goctx \<Rightarrow> string \<Rightarrow> 'g goctx" where
  "WithNamespace api ctx namespace = withHeader api ctx NamespaceHeader namespace"

definition WithVersion :: "'g grpc_api \<Rightarrow> 'g goctx \<Rightarrow> string \<Rightarrow> 'g goctx" where
  "WithVersion api ctx version = withHeader api ctx VersionHeader version"

definition NamespaceFrom :: "'g grpc_api \<Rightarrow> 'g goctx \<Rightarrow> string" where
  "NamespaceFrom api ctx =
     (case FromOutgoingContext api (grpc_part ctx) of
        None \<Rightarrow> []
      | Some md \<Rightarrow>
          (let vals = MD_Get api md NamespaceHeader
           in if vals = [] then [] else last vals))"

section \<open>internal/rpc\<close>

definition FullMethod :: "'g grpc_api \<Rightarrow> 'g goctx \<Rightarrow> string result" where
  "FullMethod api ctx =
     (case ServerTransportStream api (grpc_part ctx) of
        None \<Rightarrow> Inl (StatusError Internal ''no server transport stream in context'')
      | Some method \<Rightarrow> Inr method)"

definition Reject :: "code \<Rightarrow> string \<Rightarrow> string \<Rightarrow> goerror" where
  "Reject c clientMsg detail = Rejection c clientMsg detail"

definition toStatusError :: "status_api \<Rightarrow> string \<Rightarrow> goerror \<Rightarrow> goerror" where
  "toStatusError st what err =
     (if FromError st err then err
      else let (c, m) = FromContextError st err
           in if c \<noteq> Unknown then StatusError c m
              else StatusError Internal (what @ '': '' @ Error err))"

definition WithOutgoing :: "'g grpc_api \<Rightarrow> 'g goctx \<Rightarrow> (MD \<Rightarrow> MD) \<Rightarrow> 'g goctx" where
  "WithOutgoing api ctx fn =
     (let md = (case FromOutgoingContext api (grpc_part ctx) of None \<Rightarrow> [] | Some md \<Rightarrow> md)
      in ctx\<lparr>grpc_part := NewOutgoingContext api (grpc_part ctx) (fn md)\<rparr>)"

text \<open>The code and message a client sees for an error returned unwrapped to gRPC; \<open>None\<close> for an
  error without a status of its own.\<close>

definition GRPCStatus :: "goerror \<Rightarrow> (code \<times> string) option" where
  "GRPCStatus err =
     (case err of
        StatusError c m \<Rightarrow> Some (c, m)
      | Rejection c m detail \<Rightarrow> Some (c, m)
      | PanicError v \<Rightarrow> Some (Internal, ''internal error'')
      | _ \<Rightarrow> None)"

section \<open>Lemmas\<close>

lemma metadata_docD:
  assumes "metadata_doc api"
  shows "lower_keys md \<Longrightarrow> FromOutgoingContext api (NewOutgoingContext api g md) = Some md"
    and "FromOutgoingContext api g = Some md \<Longrightarrow> lower_keys md"
    and "lower_keys md \<Longrightarrow> lower_keys (MD_Set api md k vs)"
    and "vs \<noteq> [] \<Longrightarrow> MD_Get api (MD_Set api md k vs) k' = (if ToLower k' = ToLower k then vs else MD_Get api md k')"
    and "FromIncomingContext api (NewOutgoingContext api g md) = FromIncomingContext api g"
    and "ServerTransportStream api (NewOutgoingContext api g md) = ServerTransportStream api g"
    and "lower_keys md \<Longrightarrow> MD_Get api md k = lookup_all md (ToLower k)"
    and "FromIncomingContext api g = Some md \<Longrightarrow> lower_keys md \<and> distinct (map fst md)"
    and "MD_Delete api md k = filter (\<lambda>e. fst e \<noteq> ToLower k) md"
    and "MD_Set api md k [] = md"
    and "lower_keys md \<Longrightarrow> distinct (map fst md) \<Longrightarrow> FromIncomingContext api (NewIncomingContext api g md) = Some md"
    and "FromOutgoingContext api (NewIncomingContext api g md) = FromOutgoingContext api g"
    and "ServerTransportStream api (NewIncomingContext api g md) = ServerTransportStream api g"
  using assms unfolding metadata_doc_def by (elim conjE; simp)+

text \<open>The outgoing metadata of a context, empty when it has none.\<close>

definition outgoing :: "'g grpc_api \<Rightarrow> 'g goctx \<Rightarrow> MD" where
  "outgoing api ctx = (case FromOutgoingContext api (grpc_part ctx) of None \<Rightarrow> [] | Some md \<Rightarrow> md)"

lemma outgoing_lower: "metadata_doc api \<Longrightarrow> lower_keys (outgoing api ctx)"
  using metadata_docD(2) [of api "grpc_part ctx"] by (cases "FromOutgoingContext api (grpc_part ctx)") (auto simp: outgoing_def lower_keys_def)

lemma withHeader_outgoing:
  assumes "metadata_doc api"
  shows "FromOutgoingContext api (grpc_part (withHeader api ctx key v)) = Some (MD_Set api (outgoing api ctx) key [v])"
  using metadata_docD(1,3) [OF assms] outgoing_lower [OF assms, of ctx]
  by (simp add: withHeader_def Let_def flip: outgoing_def)

lemma withHeader_get:
  assumes "metadata_doc api"
  shows "MD_Get api (outgoing api (withHeader api ctx key v)) k
    = (if ToLower k = ToLower key then [v] else MD_Get api (outgoing api ctx) k)"
  by (simp add: outgoing_def [of api "withHeader api ctx key v"] withHeader_outgoing [OF assms] metadata_docD(4) [OF assms])

lemma withHeader_rest [simp]:
  "targetKey (withHeader api ctx key v) = targetKey ctx" "loopbackKey (withHeader api ctx key v) = loopbackKey ctx"
  by (simp_all add: withHeader_def Let_def)

lemma WithNamespace_from:
  "metadata_doc api \<Longrightarrow> NamespaceFrom api (WithNamespace api ctx ns) = ns"
  by (simp add: NamespaceFrom_def WithNamespace_def withHeader_outgoing metadata_docD(4))

lemma TargetFrom_simps [simp]:
  "TargetFrom (WithTarget ctx t) = t" "TargetFrom (WithLoopback ctx) = TargetFrom ctx"
  "TargetFrom (withHeader api ctx k v) = TargetFrom ctx" "TargetFrom (WithNamespace api ctx ns) = TargetFrom ctx"
  by (simp_all add: TargetFrom_def WithTarget_def WithLoopback_def WithNamespace_def)

lemma toStatusError_status: "status_doc st \<Longrightarrow> FromError st (toStatusError st what err)"
  by (simp add: toStatusError_def status_doc_def Let_def split: prod.splits)

text \<open>The incoming metadata, and headers taken out of it.\<close>

definition incoming :: "'g grpc_api \<Rightarrow> 'g goctx \<Rightarrow> MD" where
  "incoming api ctx = (case FromIncomingContext api (grpc_part ctx) of None \<Rightarrow> [] | Some md \<Rightarrow> md)"

lemma incoming_wf: "metadata_doc api \<Longrightarrow> lower_keys (incoming api ctx) \<and> distinct (map fst (incoming api ctx))"
  using metadata_docD(8) [of api "grpc_part ctx"] by (cases "FromIncomingContext api (grpc_part ctx)") (auto simp: incoming_def lower_keys_def)

lemma MD_Delete_fold:
  "metadata_doc api \<Longrightarrow> fold (\<lambda>h md. MD_Delete api md h) hs md = filter (\<lambda>e. fst e \<notin> ToLower ` set hs) md"
  by (induction hs arbitrary: md) (auto simp: metadata_docD(9) intro!: filter_cong)

lemma lookup_all_filter: "lookup_all (filter (\<lambda>e. P (fst e)) md) k = (if P k then lookup_all md k else [])"
proof -
  have "map_of (filter (\<lambda>e. P (fst e)) md) k = (if P k then map_of md k else None)"
    by (induction md) auto
  then show ?thesis by (simp add: lookup_all_def)
qed

lemma strip_get:
  assumes "metadata_doc api" "lower_keys md"
  shows "MD_Get api (fold (\<lambda>h md. MD_Delete api md h) hs md) k = (if ToLower k \<in> ToLower ` set hs then [] else MD_Get api md k)"
proof -
  have "lower_keys (filter (\<lambda>e. fst e \<notin> ToLower ` set hs) md)" using assms(2) by (auto simp: lower_keys_def)
  then show ?thesis
    using assms by (simp add: MD_Delete_fold metadata_docD(7) lookup_all_filter [where P = "\<lambda>x. x \<notin> ToLower ` set hs"])
qed

lemma strip_wf:
  assumes "metadata_doc api" "lower_keys md" "distinct (map fst md)"
  shows "lower_keys (fold (\<lambda>h md. MD_Delete api md h) hs md) \<and> distinct (map fst (fold (\<lambda>h md. MD_Delete api md h) hs md))"
  using assms by (auto simp: MD_Delete_fold lower_keys_def distinct_map inj_on_def)

lemma NamespaceHeader_lower [simp]: "ToLower NamespaceHeader = NamespaceHeader"
  by code_simp

lemma headers_differ: "ToLower VersionHeader \<noteq> ToLower NamespaceHeader"
  by (simp add: VersionHeader_def NamespaceHeader_def ToLower_def)

section \<open>A concrete gRPC\<close>

text \<open>The documented behaviour, realised on a pair of metadata maps and a method.\<close>

record ex_grpc =
  g_in :: "MD option"
  g_out :: "MD option"
  g_method :: "string option"

definition lowered :: "MD \<Rightarrow> MD" where
  "lowered md = map (\<lambda>(k, v). (ToLower k, v)) md"

definition ex_api :: "ex_grpc grpc_api" where
  "ex_api = \<lparr>FromOutgoingContext = (\<lambda>g. map_option lowered (g_out g)),
     NewOutgoingContext = (\<lambda>g md. g\<lparr>g_out := Some md\<rparr>), FromIncomingContext = (\<lambda>g. map_option (\<lambda>md. fold (\<lambda>(k, v) al. AList.update (ToLower k) v al) md []) (g_in g)),
     NewIncomingContext = (\<lambda>g md. g\<lparr>g_in := Some md\<rparr>), ServerTransportStream = g_method,
     MD_Get = (\<lambda>md k. lookup_all md (ToLower k)), MD_Set = (\<lambda>md k vs. if vs = [] then md else AList.update (ToLower k) vs md),
     MD_Delete = (\<lambda>md k. filter (\<lambda>e. fst e \<noteq> ToLower k) md)\<rparr>"

definition ex_status :: status_api where
  "ex_status = \<lparr>FromError = (\<lambda>e. GRPCStatus e \<noteq> None), FromContextError = (\<lambda>e. (Unknown, Error e)),
     status_Code = (\<lambda>e. case GRPCStatus e of Some (c, m) \<Rightarrow> c | None \<Rightarrow> Unknown)\<rparr>"

lemma lower_char_idem: "lower_char (lower_char c) = lower_char c"
proof -
  have "((of_char c :: nat) + 32) mod 256 = of_char c + 32" if "(of_char c :: nat) \<le> 90" using that by simp
  then show ?thesis by (simp add: lower_char_def)
qed

lemma ToLower_idem [simp]: "ToLower (ToLower s) = ToLower s"
  by (simp add: ToLower_def lower_char_idem)

lemma lowered_id: "lower_keys md \<Longrightarrow> lowered md = md"
  by (induction md) (auto simp: lowered_def lower_keys_def)

lemma lowering_ok:
  assumes "lower_keys al" "distinct (map fst al)"
  shows "lower_keys (fold (\<lambda>(k, v) al. AList.update (ToLower k) v al) md al)
    \<and> distinct (map fst (fold (\<lambda>(k, v) al. AList.update (ToLower k) v al) md al))"
  using assms
proof (induction md arbitrary: al)
  case (Cons e md)
  have "lower_keys (AList.update (ToLower (fst e)) (snd e) al)" "distinct (map fst (AList.update (ToLower (fst e)) (snd e) al))"
    using Cons.prems by (simp_all add: lower_keys_def)
  from Cons.IH [OF this] show ?case by (simp add: case_prod_unfold)
qed simp

lemma lowering_id:
  "lower_keys md \<Longrightarrow> distinct (map fst (al @ md)) \<Longrightarrow> fold (\<lambda>(k, v) al. AList.update (ToLower k) v al) md al = al @ md"
proof (induction md arbitrary: al)
  case (Cons e md)
  then have "AList.update (ToLower (fst e)) (snd e) al = al @ [e]" by (simp add: lower_keys_def update_fresh map_of_eq_None_iff)
  with Cons show ?case by (simp add: case_prod_unfold lower_keys_def)
qed simp

lemma ex_api_doc: "metadata_doc ex_api"
proof -
  have up: "lower_keys (AList.update (ToLower k) v md)" if "lower_keys md" for k v md
    using that unfolding lower_keys_def by simp
  moreover have "lower_keys (lowered md)" for md by (auto simp: lower_keys_def lowered_def)
  moreover have "lower_keys (fold (\<lambda>(k, v) al. AList.update (ToLower k) v al) md [])
      \<and> distinct (map fst (fold (\<lambda>(k, v) al. AList.update (ToLower k) v al) md []))" for md
    by (rule lowering_ok) (simp_all add: lower_keys_def)
  moreover have "fold (\<lambda>(k, v) al. AList.update (ToLower k) v al) md [] = md" if "lower_keys md" "distinct (map fst md)" for md
    using lowering_id [OF that(1), of "[]"] that(2) by simp
  ultimately show ?thesis
    unfolding metadata_doc_def ex_api_def by (simp add: lowered_id lookup_all_def up) blast
qed

lemma ex_status_doc: "status_doc ex_status"
  by (simp add: status_doc_def ex_status_def GRPCStatus_def)

section \<open>Properties\<close>

text \<open>
  The namespace the router stamps is the one every later stage reads, whatever metadata the
  context carried before, a header of the same name from the client included. The version header
  and every other key keep their values, the target and the loopback mark are untouched, and
  stamping the version afterwards does not disturb the namespace.
\<close>

theorem WithNamespace_overrides:
  assumes "metadata_doc api"
  shows "NamespaceFrom api (WithNamespace api ctx ns) = ns
    \<and> NamespaceFrom api (WithVersion api (WithNamespace api ctx ns) v) = ns
    \<and> (ToLower k \<noteq> ToLower NamespaceHeader \<longrightarrow> MD_Get api (outgoing api (WithNamespace api ctx ns)) k = MD_Get api (outgoing api ctx) k)
    \<and> TargetFrom (WithNamespace api ctx ns) = TargetFrom ctx \<and> IsLoopback (WithNamespace api ctx ns) = IsLoopback ctx"
proof (intro conjI impI)
  show "NamespaceFrom api (WithNamespace api ctx ns) = ns" using assms by (rule WithNamespace_from)
  have out: "MD_Get api (outgoing api (WithNamespace api ctx ns)) NamespaceHeader = [ns]"
    using assms by (simp add: WithNamespace_def withHeader_get)
  then show "NamespaceFrom api (WithVersion api (WithNamespace api ctx ns) v) = ns"
    using assms headers_differ [symmetric]
    by (simp add: NamespaceFrom_def WithVersion_def withHeader_outgoing metadata_docD(4))
  show "MD_Get api (outgoing api (WithNamespace api ctx ns)) k = MD_Get api (outgoing api ctx) k"
    if "ToLower k \<noteq> ToLower NamespaceHeader"
    using assms that by (simp add: WithNamespace_def withHeader_get)
qed (simp_all add: IsLoopback_def WithNamespace_def)

definition ex_ctx :: "ex_grpc goctx" where
  "ex_ctx = \<lparr>grpc_part = \<lparr>g_in = Some [(NamespaceHeader, [''evil''])], g_out = Some [(NamespaceHeader, [''evil''])],
      g_method = Some (''/'' @ WorkflowService @ ''/StartWorkflowExecution'')\<rparr>, targetKey = None, loopbackKey = None\<rparr>"

theorem WithNamespace_overrides_witness:
  "NamespaceFrom ex_api (WithNamespace ex_api ex_ctx ''payments'') = ''payments''
   \<and> NamespaceFrom ex_api (WithVersion ex_api (WithNamespace ex_api ex_ctx ''payments'') ''1.0'') = ''payments''"
  using WithNamespace_overrides [OF ex_api_doc, of ex_ctx "''payments''"] by blast

text \<open>
  Errors reach the caller with a status: whatever went wrong, the error that forwarding
  returns carries a gRPC status; an error that already has one is returned as it is, so a
  rejection and a panic keep their detail from the client, and an error without a status and
  without a context error behind it becomes \<open>Internal\<close>.
\<close>

theorem toStatusError_carries:
  assumes "status_doc st"
  shows "FromError st (toStatusError st what err) \<and> (FromError st err \<longrightarrow> toStatusError st what err = err)
    \<and> GRPCStatus (toStatusError st what (Reject c m detail)) = Some (c, m)
    \<and> GRPCStatus (toStatusError st what (PanicError v)) = Some (Internal, ''internal error'')
    \<and> (\<not> FromError st err \<and> fst (FromContextError st err) = Unknown
         \<longrightarrow> toStatusError st what err = StatusError Internal (what @ '': '' @ Error err))"
  using assms toStatusError_status [OF assms, of what err]
  by (auto simp: toStatusError_def status_doc_def Reject_def GRPCStatus_def split: prod.splits)

theorem toStatusError_carries_witness:
  "FromError ex_status (toStatusError ex_status ''relay'' EOF)
   \<and> GRPCStatus (toStatusError ex_status ''relay'' (Reject Unauthenticated ''denied'' ''bad key'')) = Some (Unauthenticated, ''denied'')"
  using toStatusError_carries [OF ex_status_doc, of "''relay''" EOF Unauthenticated "''denied''" "''bad key''"] by blast

end
