(* ===== verification/Translation.thy ===== *)
theory Translation
  imports Protoutil Namespace_Rules Rpc
begin

text \<open>
  \<open>internal/proxy/translation.go\<close>: the client interceptors that translate the namespace names of
  requests on the way out and those of replies, received messages and error details on the way
  back, and the namespace header the SDK sets.

  They are clients of \<open>name_map\<close>: its lemma that a message comes back as it left is proved once in
  the locale and used for the compiled rules of an upstream.
\<close>

section \<open>The code\<close>

definition temporalNamespaceHeader :: string where
  "temporalNamespaceHeader = ''temporal-namespace''"

text \<open>What a stream carries: a proto message, or something the interceptor does not look into.\<close>

datatype anymsg = ProtoMsg pmsg | NotProto bytes

text \<open>A gRPC status with its typed details, and the parts of gRPC and protobuf that pack them.\<close>

type_synonym anypb = "string \<times> bytes"

record gstatus =
  st_code :: code
  st_message :: string
  st_details :: "anypb list"

record tr_env =
  status_FromError :: "goerror \<Rightarrow> gstatus option"
  status_Err :: "gstatus \<Rightarrow> goerror"
  UnmarshalNew :: "anypb \<Rightarrow> pmsg result"
  anypb_New :: "pmsg \<Rightarrow> anypb result"

definition translateMsg :: "schema \<Rightarrow> Translator \<Rightarrow> (string \<Rightarrow> string) \<Rightarrow> anymsg \<Rightarrow> anymsg \<times> Translator" where
  "translateMsg sch t fn m =
     (case m of
        ProtoMsg pm \<Rightarrow> (case Translate sch t fn pm of (pm', t') \<Rightarrow> (ProtoMsg pm', t'))
      | NotProto b \<Rightarrow> (NotProto b, t))"

text \<open>The loop over the details: the details, whether one changed, and the translator.\<close>

fun translateDetails :: "tr_env \<Rightarrow> schema \<Rightarrow> (string \<Rightarrow> string) \<Rightarrow> anypb list \<Rightarrow> Translator \<Rightarrow> anypb list \<times> bool \<times> Translator" where
  "translateDetails env sch fn [] t = ([], False, t)"
| "translateDetails env sch fn (detail # ds) t =
     (case UnmarshalNew env detail of
        Inl uerr \<Rightarrow> (case translateDetails env sch fn ds t of (ds', changed, t') \<Rightarrow> (detail # ds', changed, t'))
      | Inr msg \<Rightarrow>
          (let (msg', t1) = Translate sch t fn msg
           in if msg = msg' then (case translateDetails env sch fn ds t1 of (ds', changed, t') \<Rightarrow> (detail # ds', changed, t'))
              else case anypb_New env msg' of
                     Inl perr \<Rightarrow> (case translateDetails env sch fn ds t1 of (ds', changed, t') \<Rightarrow> (detail # ds', changed, t'))
                   | Inr repacked \<Rightarrow> (case translateDetails env sch fn ds t1 of (ds', changed, t') \<Rightarrow> (repacked # ds', True, t'))))"

definition translateStatusError :: "tr_env \<Rightarrow> schema \<Rightarrow> Translator \<Rightarrow> goerror \<Rightarrow> (string \<Rightarrow> string) \<Rightarrow> goerror \<times> Translator" where
  "translateStatusError env sch t err fn =
     (case status_FromError env err of
        None \<Rightarrow> (err, t)
      | Some st \<Rightarrow>
          (if st_details st = [] then (err, t)
           else let (ds, changed, t') = translateDetails env sch fn (st_details st) t
                in if \<not> changed then (err, t') else (status_Err env (st\<lparr>st_details := ds\<rparr>), t')))"

definition rewriteNamespaceHeader :: "'g grpc_api \<Rightarrow> 'g goctx \<Rightarrow> (string \<Rightarrow> string) \<Rightarrow> 'g goctx" where
  "rewriteNamespaceHeader api ctx fn =
     (case FromOutgoingContext api (grpc_part ctx) of
        None \<Rightarrow> ctx
      | Some md \<Rightarrow>
          (let vals = MD_Get api md temporalNamespaceHeader
           in if vals = [] then ctx
              else WithOutgoing api ctx (\<lambda>out. MD_Set api out temporalNamespaceHeader (map fn vals))))"

definition unaryClientInterceptor :: "tr_env \<Rightarrow> 'g grpc_api \<Rightarrow> schema \<Rightarrow> Translator \<Rightarrow> (string \<Rightarrow> string) \<Rightarrow> (string \<Rightarrow> string)
    \<Rightarrow> 'g goctx \<Rightarrow> anymsg \<Rightarrow> ('g goctx \<Rightarrow> anymsg \<Rightarrow> anymsg result) \<Rightarrow> anymsg result \<times> Translator" where
  "unaryClientInterceptor env api sch t out inn ctx req invoker =
     (let (req', t1) = translateMsg sch t out req;
          ctx' = rewriteNamespaceHeader api ctx out
      in case invoker ctx' req' of
           Inl err \<Rightarrow> (case translateStatusError env sch t1 err inn of (err', t2) \<Rightarrow> (Inl err', t2))
         | Inr reply \<Rightarrow> (case translateMsg sch t1 inn reply of (reply', t2) \<Rightarrow> (Inr reply', t2)))"

text \<open>Opening a stream, sending and receiving on it.\<close>

definition streamClientInterceptor :: "tr_env \<Rightarrow> 'g grpc_api \<Rightarrow> schema \<Rightarrow> Translator \<Rightarrow> (string \<Rightarrow> string) \<Rightarrow> (string \<Rightarrow> string)
    \<Rightarrow> 'g goctx \<Rightarrow> ('g goctx \<Rightarrow> 'cs result) \<Rightarrow> 'cs result \<times> Translator" where
  "streamClientInterceptor env api sch t out inn ctx streamer =
     (case streamer (rewriteNamespaceHeader api ctx out) of
        Inl err \<Rightarrow> (case translateStatusError env sch t err inn of (err', t2) \<Rightarrow> (Inl err', t2))
      | Inr cs \<Rightarrow> (Inr cs, t))"

definition translating_SendMsg :: "schema \<Rightarrow> Translator \<Rightarrow> (string \<Rightarrow> string) \<Rightarrow> (anymsg \<Rightarrow> goerror option) \<Rightarrow> anymsg \<Rightarrow> goerror option \<times> Translator" where
  "translating_SendMsg sch t out send m = (case translateMsg sch t out m of (m', t') \<Rightarrow> (send m', t'))"

definition translating_RecvMsg :: "tr_env \<Rightarrow> schema \<Rightarrow> Translator \<Rightarrow> (string \<Rightarrow> string) \<Rightarrow> anymsg result \<Rightarrow> anymsg result \<times> Translator" where
  "translating_RecvMsg env sch t inn received =
     (case received of
        Inl err \<Rightarrow> (case translateStatusError env sch t err inn of (err', t') \<Rightarrow> (Inl err', t'))
      | Inr m \<Rightarrow> (case translateMsg sch t inn m of (m', t') \<Rightarrow> (Inr m', t')))"

section \<open>Messages come back as they left\<close>

text \<open>Every namespace name of a message, empty ones aside, has a property.\<close>

definition val_names :: "(string \<Rightarrow> bool) \<Rightarrow> pval \<Rightarrow> bool" where
  "val_names P v =
     (case v of
        PStr s \<Rightarrow> s \<noteq> [] \<longrightarrow> P s
      | PStrs ss \<Rightarrow> \<forall>s\<in>set ss. s \<noteq> [] \<longrightarrow> P s
      | _ \<Rightarrow> True)"

fun names_all :: "schema \<Rightarrow> (string \<Rightarrow> bool) \<Rightarrow> pmsg \<Rightarrow> bool"
  and names_val :: "schema \<Rightarrow> (string \<Rightarrow> bool) \<Rightarrow> pval \<Rightarrow> bool" where
  "names_all sch P (PMsg md fs) \<longleftrightarrow>
     (\<forall>(k, v)\<in>set fs. case List.find (\<lambda>fd. fd_Name fd = k) (lookup_all sch md) of
         None \<Rightarrow> True
       | Some fd \<Rightarrow> if isNamespaceName md fd then val_names P v else childMessage fd = None \<or> names_val sch P v)"
| "names_val sch P (PSub m) \<longleftrightarrow> names_all sch P m"
| "names_val sch P (PSubs ms) \<longleftrightarrow> (\<forall>m\<in>set ms. names_all sch P m)"
| "names_val sch P (PMap kvs) \<longleftrightarrow> (\<forall>(k, m)\<in>set kvs. names_all sch P m)"
| "names_val sch P v \<longleftrightarrow> True"

lemma names_all_mono:
  "names_all sch P m \<Longrightarrow> (\<And>x. x \<noteq> [] \<Longrightarrow> P x \<Longrightarrow> Q x) \<Longrightarrow> names_all sch Q m"
  "names_val sch P v \<Longrightarrow> (\<And>x. x \<noteq> [] \<Longrightarrow> P x \<Longrightarrow> Q x) \<Longrightarrow> names_val sch Q v"
proof (induction sch P m and sch P v rule: names_all_names_val.induct)
  case (1 sch P md fs)
  have vals: "val_names P v \<Longrightarrow> val_names Q v" for v using 1(3) by (auto simp: val_names_def split: pval.splits)
  show ?case unfolding names_all.simps
  proof (clarify)
    fix k v assume kv: "(k, v) \<in> set fs"
    with 1(1) [OF kv, of k v] 1(2,3) vals show "case List.find (\<lambda>fd. fd_Name fd = k) (lookup_all sch md) of None \<Rightarrow> True
       | Some fd \<Rightarrow> if isNamespaceName md fd then val_names Q v else childMessage fd = None \<or> names_val sch Q v"
      by (fastforce split: option.splits if_splits)
  qed
qed fastforce+

lemma rename_back: "(s \<noteq> [] \<Longrightarrow> g (f s) = s \<and> f s \<noteq> []) \<Longrightarrow> rename g (rename f s) = s"
  by (auto simp: rename_def split: list.splits)

lemma strings_back:
  "val_names (\<lambda>x. g (f x) = x \<and> f x \<noteq> []) v \<Longrightarrow> map_strings (rename g) (map_strings (rename f) v) = v"
  by (cases v) (auto simp: val_names_def rename_back intro!: map_idI)

lemma translate_back:
  "names_all sch (\<lambda>x. g (f x) = x \<and> f x \<noteq> []) m \<Longrightarrow> translate_spec sch g (translate_spec sch f m) = m"
  "names_val sch (\<lambda>x. g (f x) = x \<and> f x \<noteq> []) v \<Longrightarrow> translate_val sch g (translate_val sch f v) = v"
proof (induction sch f m and sch f v rule: translate_spec_translate_val.induct)
  case (1 sch f md fs)
  have "(case List.find (\<lambda>fd. fd_Name fd = k) (lookup_all sch md) of None \<Rightarrow> w
     | Some fd \<Rightarrow> if isNamespaceName md fd then map_strings (rename g) w else if childMessage fd = None then w else translate_val sch g w) = v"
    if kv: "(k, v) \<in> set fs" and w: "w = (case List.find (\<lambda>fd. fd_Name fd = k) (lookup_all sch md) of None \<Rightarrow> v
     | Some fd \<Rightarrow> if isNamespaceName md fd then map_strings (rename f) v else if childMessage fd = None then v else translate_val sch f v)" for k v w
  proof (cases "List.find (\<lambda>fd. fd_Name fd = k) (lookup_all sch md)")
    case (Some fd)
    then show ?thesis using 1(1) [OF kv, of k v fd] 1(2) kv w
      by (auto simp: strings_back split: if_splits)
  qed (simp add: w)
  then show ?case by (auto intro!: map_idI)
next
  case (3 sch f ms)
  then show ?case by (auto intro!: map_idI)
next
  case (4 sch f kvs)
  then show ?case by (fastforce intro!: map_idI)
qed auto

lemma wt_rewrite: "wt_val sch ty v \<Longrightarrow> wt_val sch ty (map_strings (rename f) v)"
  by (cases ty; cases v) auto

lemma wt_map_fields:
  assumes "wt_msg sch t (PMsg t fs)"
    and "\<And>k v fd. (k, v) \<in> set fs \<Longrightarrow> List.find (\<lambda>fd. fd_Name fd = k) (lookup_all sch t) = Some fd \<Longrightarrow> wt_val sch (childMessage fd) (h k v)"
  shows "wt_msg sch t (PMsg t (map (\<lambda>(k, v). (k, h k v)) fs))"
proof -
  have "case List.find (\<lambda>fd. fd_Name fd = k) (lookup_all sch t) of None \<Rightarrow> False | Some fd \<Rightarrow> wt_val sch (childMessage fd) (h k v)"
    if "(k, v) \<in> set fs" for k v
    using assms(1) that assms(2) [OF that] by (cases "List.find (\<lambda>fd. fd_Name fd = k) (lookup_all sch t)") auto
  moreover have "map fst (map (\<lambda>(k, v). (k, h k v)) fs) = map fst fs" by (simp add: case_prod_unfold)
  ultimately show ?thesis using assms(1) unfolding wt_msg.simps by (auto simp del: map_map)
qed

lemma wt_translate:
  "wt_msg sch t m \<Longrightarrow> wt_msg sch t (translate_spec sch f m)"
  "wt_val sch (Some t) v \<Longrightarrow> wt_val sch (Some t) (translate_val sch f v)"
proof (induction sch f m and sch f v arbitrary: t and t rule: translate_spec_translate_val.induct)
  case (1 sch f md fs)
  from 1(2) have md: "md = t" by simp
  have fields: "wt_val sch (childMessage fd) (if isNamespaceName t fd then map_strings (rename f) v else if childMessage fd = None then v else translate_val sch f v)"
    if kv: "(k, v) \<in> set fs" and fd: "List.find (\<lambda>fd. fd_Name fd = k) (lookup_all sch t) = Some fd" for k v fd
  proof -
    have wt: "wt_val sch (childMessage fd) v" using 1(2) kv fd by fastforce
    show ?thesis
    proof (cases "childMessage fd")
      case (Some sub)
      with wt wt_rewrite [OF wt] 1(1) [OF kv, of k v fd sub] fd md show ?thesis by auto
    qed (use wt wt_rewrite [OF wt] in auto)
  qed
  show ?case unfolding translate_spec.simps md
    by (rule wt_map_fields) (use 1(2) md fields in \<open>auto simp del: wt_msg.simps\<close>)
qed auto

text \<open>In a translation contract whose remote names are never empty, a message comes back.\<close>

context name_map
begin

lemma message_back:
  "names_all sch (\<lambda>x. names x \<and> out x \<noteq> []) m \<Longrightarrow> translate_spec sch inn (translate_spec sch out m) = m"
  by (rule translate_back(1), erule names_all_mono(1)) (simp add: inn_out)

end

lemma remote_nonempty: "rules_wf r \<Longrightarrow> x \<noteq> [] \<Longrightarrow> remote_of r x \<noteq> []"
  by (cases "x \<in> nm_Local ` set (Overrides r)") (auto simp: remote_of_override remote_of_plain rules_wf_def)

lemma rules_message_back:
  assumes "rules_wf r" "names_all sch (translatable r) m"
  shows "translate_spec sch (local_of r) (translate_spec sch (remote_of r) m) = m"
  by (rule names.message_back [where r = r], rule names_all_mono(1) [OF assms(2)]) (simp_all add: assms(1) remote_nonempty)

lemma translateMsg_proto:
  "translateMsg sch t fn (ProtoMsg m) = (ProtoMsg (fst (Translate sch t fn m)), snd (Translate sch t fn m))"
  by (simp add: translateMsg_def split: prod.splits)

lemma translateDetails_length: "length (fst (translateDetails env sch fn ds t)) = length ds"
proof (induction ds arbitrary: t)
  case (Cons d ds)
  have "translateDetails env sch fn ds t1 = (ds', c, t') \<Longrightarrow> length ds' = length ds" for t1 ds' c t'
    using Cons [of t1] by simp
  then show ?case by (auto simp: Let_def split: sum.splits prod.splits)
qed simp

lemma translateStatusError_cases:
  "fst (translateStatusError env sch t e fn) = e \<or> (\<exists>st ds. status_FromError env e = Some st \<and> length ds = length (st_details st)
     \<and> fst (translateStatusError env sch t e fn) = status_Err env (st\<lparr>st_details := ds\<rparr>))"
proof (cases "status_FromError env e")
  case (Some st)
  obtain ds c t' where d: "translateDetails env sch fn (st_details st) t = (ds, c, t')" by (cases "translateDetails env sch fn (st_details st) t")
  with translateDetails_length [of env sch fn "st_details st" t] have "length ds = length (st_details st)" by simp
  with Some d show ?thesis by (auto simp: translateStatusError_def)
qed (simp add: translateStatusError_def)

section \<open>Properties\<close>

text \<open>
  A message comes back as it left. For rules that pass validation, translating a message out
  with \<open>Remote\<close> and the result back in with \<open>Local\<close>, with whatever plans are cached, gives the
  message, when its namespace names are ones that the rules can tell apart; so an upstream that
  answers with the names it was sent shows its caller the caller's own names.
\<close>

theorem Translate_roundtrip:
  assumes "Rules_Validate r = None" "plans_ok sch t" "wt_msg sch md m" "names_all sch (translatable r) m"
  shows "fst (Translate sch (snd (Translate sch t (remote_of r) m)) (local_of r) (fst (Translate sch t (remote_of r) m))) = m"
proof -
  have "rules_wf r" using assms(1) by (simp add: rules.validate_iff)
  moreover note out = Translate_ok [OF assms(2,3), of "remote_of r"]
  moreover from this have "wt_msg sch md (fst (Translate sch t (remote_of r) m))" using wt_translate(1) [OF assms(3)] by simp
  ultimately show ?thesis
    using Translate_ok(1) [of sch "snd (Translate sch t (remote_of r) m)" md _ "local_of r"] rules_message_back assms(4) by simp
qed

definition ex_rules_apart :: NamespaceRules where
  "ex_rules_apart = ex_rules\<lparr>Overrides := [\<lparr>nm_Local = ''a'', nm_Remote = ''x''\<rparr>]\<rparr>"

theorem Translate_roundtrip_witness:
  "fst (Translate ex_schema (snd (Translate ex_schema [] (remote_of ex_rules_apart) ex_wf)) (local_of ex_rules_apart)
     (fst (Translate ex_schema [] (remote_of ex_rules_apart) ex_wf))) = ex_wf"
proof (rule Translate_roundtrip)
  show "Rules_Validate ex_rules_apart = None" by (simp add: rules.validate_iff rules_wf_def ex_rules_apart_def)
  show "plans_ok ex_schema []" by (simp add: plans_ok_def)
  show "wt_msg ex_schema ''Wf'' ex_wf" by code_simp
  show "names_all ex_schema (translatable ex_rules_apart) ex_wf" by code_simp
qed

lemma rewriteNamespaceHeader_get:
  assumes "metadata_doc api"
  shows "MD_Get api (outgoing api (rewriteNamespaceHeader api ctx fn)) k
    = (if ToLower k = ToLower temporalNamespaceHeader then map fn (MD_Get api (outgoing api ctx) k) else MD_Get api (outgoing api ctx) k)"
proof -
  have same: "MD_Get api md k = MD_Get api md temporalNamespaceHeader"
    if "lower_keys md" "ToLower k = ToLower temporalNamespaceHeader" for md
    using that by (simp add: metadata_docD(7) [OF assms])
  have low: "lower_keys (outgoing api ctx)" using assms by (rule outgoing_lower)
  show ?thesis
  proof (cases "FromOutgoingContext api (grpc_part ctx)")
    case None
    then show ?thesis using metadata_docD(7) [OF assms, of "[]" k]
      by (simp add: rewriteNamespaceHeader_def outgoing_def lookup_all_def lower_keys_def)
  next
    case (Some md)
    then have out: "outgoing api ctx = md" by (simp add: outgoing_def)
    show ?thesis
    proof (cases "MD_Get api md temporalNamespaceHeader = []")
      case True
      with Some same [of md] low out show ?thesis by (auto simp: rewriteNamespaceHeader_def)
    next
      case False
      then have "outgoing api (rewriteNamespaceHeader api ctx fn)
        = MD_Set api md temporalNamespaceHeader (map fn (MD_Get api md temporalNamespaceHeader))"
        using Some low out metadata_docD(1,3) [OF assms]
        by (simp add: rewriteNamespaceHeader_def WithOutgoing_def outgoing_def [of api "_\<lparr>grpc_part := _\<rparr>"] Let_def)
      with False same [of md] low out metadata_docD(4) [OF assms] show ?thesis by simp
    qed
  qed
qed

text \<open>
  What a unary call looks like on both sides. The upstream is called once, with the request
  in which every namespace name is translated out and with the namespace header of the SDK, where
  there is one, translated value by value, every other header unchanged. The caller gets the reply
  with every name translated back; an error comes back as it is, or with its code and message
  unchanged and as many details as it had.
\<close>

theorem unary_translates:
  assumes "plans_ok sch t" "wt_msg sch md req" "metadata_doc api"
    and "\<forall>c reply. invoker c (ProtoMsg (translate_spec sch out req)) = Inr reply \<longrightarrow> (\<exists>ty m. reply = ProtoMsg m \<and> wt_msg sch ty m)"
  shows "\<exists>ctx'. (\<forall>k. MD_Get api (outgoing api ctx') k = (if ToLower k = ToLower temporalNamespaceHeader
            then map out (MD_Get api (outgoing api ctx) k) else MD_Get api (outgoing api ctx) k))
       \<and> (case invoker ctx' (ProtoMsg (translate_spec sch out req)) of
            Inr (ProtoMsg reply) \<Rightarrow> fst (unaryClientInterceptor env api sch t out inn ctx (ProtoMsg req) invoker) = Inr (ProtoMsg (translate_spec sch inn reply))
          | Inr (NotProto b) \<Rightarrow> False
          | Inl err \<Rightarrow> fst (unaryClientInterceptor env api sch t out inn ctx (ProtoMsg req) invoker) = Inl err
              \<or> (\<exists>st ds. status_FromError env err = Some st \<and> length ds = length (st_details st)
                   \<and> fst (unaryClientInterceptor env api sch t out inn ctx (ProtoMsg req) invoker) = Inl (status_Err env (st\<lparr>st_details := ds\<rparr>))))"
    (is "\<exists>ctx'. ?H ctx' \<and> ?R ctx'")
proof (intro exI conjI)
  let ?ctx = "rewriteNamespaceHeader api ctx out"
  show "?H ?ctx" using rewriteNamespaceHeader_get [OF assms(3)] by blast
  note tr = Translate_ok [OF assms(1,2), of out]
  show "?R ?ctx"
  proof (cases "invoker ?ctx (ProtoMsg (translate_spec sch out req))")
    case (Inl e)
    then show ?thesis using translateStatusError_cases [of env sch "snd (Translate sch t out req)" e inn] tr(1)
      by (auto simp: unaryClientInterceptor_def translateMsg_proto split: prod.splits)
  next
    case (Inr reply)
    with assms(4) obtain ty m where "reply = ProtoMsg m" "wt_msg sch ty m" by blast
    with Inr Translate_ok(1) [OF tr(2), of ty m inn] tr(1) show ?thesis
      by (simp add: unaryClientInterceptor_def translateMsg_proto)
  qed
qed

definition ex_tr :: tr_env where
  "ex_tr = \<lparr>status_FromError = (\<lambda>e. case e of StatusError c m \<Rightarrow> Some \<lparr>st_code = c, st_message = m, st_details = []\<rparr> | _ \<Rightarrow> None),
     status_Err = (\<lambda>s. StatusError (st_code s) (st_message s)), UnmarshalNew = (\<lambda>_. Inl EOF), anypb_New = (\<lambda>_. Inl EOF)\<rparr>"

theorem unary_translates_witness:
  "fst (unaryClientInterceptor ex_tr ex_api ex_schema [] (\<lambda>s. s @ ''.x'') (\<lambda>s. ''y'') ex_ctx (ProtoMsg ex_wf) (\<lambda>c m. Inr m))
   = Inr (ProtoMsg (translate_spec ex_schema (\<lambda>s. ''y'') (translate_spec ex_schema (\<lambda>s. s @ ''.x'') ex_wf)))"
proof -
  have "plans_ok ex_schema []" by (simp add: plans_ok_def)
  moreover have wt: "wt_msg ex_schema ''Wf'' ex_wf" by code_simp
  ultimately have "\<exists>ctx'. fst (unaryClientInterceptor ex_tr ex_api ex_schema [] (\<lambda>s. s @ ''.x'') (\<lambda>s. ''y'') ex_ctx (ProtoMsg ex_wf) (\<lambda>c m. Inr m))
      = Inr (ProtoMsg (translate_spec ex_schema (\<lambda>s. ''y'') (translate_spec ex_schema (\<lambda>s. s @ ''.x'') ex_wf)))"
    using unary_translates [of ex_schema "[]" "''Wf''" ex_wf ex_api "\<lambda>c m. Inr m" "\<lambda>s. s @ ''.x''" ex_ctx ex_tr "\<lambda>s. ''y''"]
      ex_api_doc wt_translate(1) [OF wt] by auto
  then show ?thesis by simp
qed

end
