(* ===== verification/Routing.thy ===== *)
theory Routing
  imports Match Namespace_Rules Services
begin

text \<open>
  \<open>internal/config/routing.go\<close> and \<open>internal/config/services.go\<close>: the routing table of the
  configuration, its validation, the check of its references and its compilation into matchers.

  A rule's meaning is stated on its patterns, by wildcard matching: \<open>rule_accepts\<close>. Compilation
  is proved against it, including the lowercasing of metadata keys and the keys it refuses.
\<close>

section \<open>The code\<close>

record RoutingMatch =
  rm_Namespace :: string
  rm_Metadata :: "string gomap"

record ruleMatchers =
  mt_ns :: Matcher
  mt_meta :: "Matcher gomap"

record RoutingRule =
  rr_Upstream :: string
  rr_Match :: RoutingMatch
  matchers :: "ruleMatchers option"

record Routing =
  DefaultUpstream :: string
  SystemUpstream :: string
  RRules :: "RoutingRule list"

text \<open>One round of the loop over the sorted keys, on \<open>errs\<close>, \<open>meta\<close> and \<open>seen\<close>. The message of a
  clash is kept without its quoting.\<close>

definition metaStep :: "string gomap \<Rightarrow> string \<Rightarrow> VErrors \<times> Matcher gomap \<times> string gomap
    \<Rightarrow> VErrors \<times> Matcher gomap \<times> string gomap" where
  "metaStep metadata k st =
     (let (errs, meta, seen) = st; lk = ToLower k
      in case map_of seen lk of
           Some prev \<Rightarrow>
             (errs @ [\<lparr>Subject = [], Field = ''metadata'',
                       VMessage = ''keys '' @ prev @ '' and '' @ k @ '' both map to '' @ lk @ '' when lowercased''\<rparr>], meta, seen)
         | None \<Rightarrow>
             (let seen = AList.update lk k seen
              in case Compile (case map_of metadata k of Some p \<Rightarrow> p | None \<Rightarrow> []) of
                   Inl err \<Rightarrow> (errs @ [\<lparr>Subject = [], Field = ''metadata['' @ k @ '']'', VMessage = Error err\<rparr>], meta, seen)
                 | Inr mm \<Rightarrow> (errs, AList.update lk mm meta, seen)))"

definition compile_match :: "RoutingMatch \<Rightarrow> VErrors + ruleMatchers" where
  "compile_match m =
     (let ns = Compile (if rm_Namespace m \<noteq> [] then rm_Namespace m else ''*'');
          errs = (case ns of Inl err \<Rightarrow> [\<lparr>Subject = [], Field = ''namespace'', VMessage = Error err\<rparr>] | Inr _ \<Rightarrow> []);
          (errs, meta, seen) = fold (metaStep (rm_Metadata m)) (sort (map fst (rm_Metadata m))) (errs, [], [])
      in case ns of
           Inr nsm \<Rightarrow> (if errs \<noteq> [] then Inl errs else Inr \<lparr>mt_ns = nsm, mt_meta = meta\<rparr>)
         | Inl _ \<Rightarrow> Inl errs)"

definition RoutingMatch_Validate :: "RoutingMatch \<Rightarrow> verr option" where
  "RoutingMatch_Validate m =
     Validate []
       [WhenRules (rm_Metadata m = []) [FieldRule ''namespace'' (rm_Namespace m) [Required []]],
        (case compile_match m of Inl errs \<Rightarrow> errs | Inr _ \<Rightarrow> [])]"

definition RoutingRule_Validate :: "RoutingRule \<Rightarrow> verr option" where
  "RoutingRule_Validate r =
     Validate [] [FieldRule ''upstream'' (rr_Upstream r) [Required []], Nested [] (RoutingMatch_Validate (rr_Match r))]"

fun routing_rules :: "nat \<Rightarrow> RoutingRule list \<Rightarrow> Rule list" where
  "routing_rules i [] = []"
| "routing_rules i (r # rs) = Nested (''rules['' @ itoa i @ '']'') (RoutingRule_Validate r) # routing_rules (Suc i) rs"

definition Routing_Validate :: "Routing \<Rightarrow> verr option" where
  "Routing_Validate r = Validate [] (routing_rules 0 (RRules r))"

text \<open>\<open>referentialRules\<close> with its closure \<open>ref\<close>.\<close>

definition refRule :: "string list \<Rightarrow> string \<Rightarrow> string \<Rightarrow> string \<Rightarrow> Rule" where
  "refRule known subject field name =
     (if name = [] then []
      else case knownUpstream known name of
             None \<Rightarrow> []
           | Some err \<Rightarrow> [\<lparr>Subject = subject, Field = field, VMessage = ''references unknown upstream '' @ name\<rparr>])"

fun rule_refs :: "string list \<Rightarrow> nat \<Rightarrow> RoutingRule list \<Rightarrow> Rule list" where
  "rule_refs known i [] = []"
| "rule_refs known i (r # rs) =
     refRule known (''routing.rules['' @ itoa i @ '']'') ''upstream'' (rr_Upstream r) # rule_refs known (Suc i) rs"

definition referentialRules :: "string list \<Rightarrow> Routing \<Rightarrow> Rule list" where
  "referentialRules known r =
     [refRule known ''routing'' ''default'' (DefaultUpstream r), refRule known ''routing'' ''system'' (SystemUpstream r)]
     @ rule_refs known 0 (RRules r)"

text \<open>\<open>compile\<close> stops at the first rule that fails, whose index and errors the error carries, and
  leaves the matchers it has built.\<close>

fun compile_from :: "nat \<Rightarrow> RoutingRule list \<Rightarrow> (nat \<times> VErrors) option \<times> RoutingRule list" where
  "compile_from i [] = (None, [])"
| "compile_from i (r # rs) =
     (case compile_match (rr_Match r) of
        Inl errs \<Rightarrow> (Some (i, errs), r # rs)
      | Inr m \<Rightarrow> (case compile_from (Suc i) rs of (err, rs') \<Rightarrow> (err, r\<lparr>matchers := Some m\<rparr> # rs')))"

definition compile_routing :: "Routing \<Rightarrow> (nat \<times> VErrors) option \<times> Routing" where
  "compile_routing r = (case compile_from 0 (RRules r) of (err, rs) \<Rightarrow> (err, r\<lparr>RRules := rs\<rparr>))"

definition reset_routing :: "Routing \<Rightarrow> Routing" where
  "reset_routing r = r\<lparr>RRules := map (\<lambda>x. x\<lparr>matchers := None\<rparr>) (RRules r)\<rparr>"

definition Matchers :: "RoutingRule \<Rightarrow> ruleMatchers result" where
  "Matchers r =
     (case matchers r of
        None \<Rightarrow> Inl (ErrorString ''panic: config: RoutingRule used before Config.Prepare'')
      | Some m \<Rightarrow> Inr m)"

subsection \<open>Allowed services\<close>

definition Allowed :: "string list \<Rightarrow> string list" where
  "Allowed s = (if s = [] then Default else s)"

definition config_NewAllowlist :: "string list \<Rightarrow> allowSet" where
  "config_NewAllowlist allowedServices = NewAllowlist (Allowed allowedServices)"

text \<open>The loop over the names, given what the registry knows; the hint in the messages is left out.\<close>

definition resolvableServices :: "(string \<Rightarrow> descriptor result) \<Rightarrow> string list Check" where
  "resolvableServices reg names =
     (let errs = concat (map (\<lambda>name.
            if List.member All name then []
            else [\<lparr>Subject = [], Field = [],
                   VMessage = (case Resolve_service reg name of
                                 Inl err \<Rightarrow> Error err
                               | Inr _ \<Rightarrow> name @ '' is registered but not forwardable'')\<rparr>]) names)
      in if errs = [] then None else Some (AsErrors errs))"

definition Services_Validate :: "(string \<Rightarrow> descriptor result) \<Rightarrow> string list \<Rightarrow> verr option" where
  "Services_Validate reg s = Validate [] [FieldRule ''allowedServices'' s [Unique, resolvableServices reg]]"

section \<open>What a rule means\<close>

definition match_ok :: "RoutingMatch \<Rightarrow> bool" where
  "match_ok m \<longleftrightarrow>
     (rm_Namespace m = [] \<or> \<not> isl (Compile (rm_Namespace m)))
     \<and> (\<forall>(k, p)\<in>set (rm_Metadata m). \<not> isl (Compile p))
     \<and> distinct (map (ToLower \<circ> fst) (rm_Metadata m))"

definition rule_accepts :: "RoutingMatch \<Rightarrow> string \<Rightarrow> string list gomap \<Rightarrow> bool" where
  "rule_accepts m ns md \<longleftrightarrow>
     (rm_Namespace m = [] \<or> glob (rm_Namespace m) ns)
     \<and> (\<forall>(k, p)\<in>set (rm_Metadata m). \<exists>v\<in>set (lookup_all md (ToLower k)). glob p v)"

section \<open>The loop over the metadata patterns\<close>

text \<open>What the loop has after a list of keys none of which clashes: an entry per compiled pattern.\<close>

definition loop_ok :: "string gomap \<Rightarrow> string list \<Rightarrow> VErrors \<times> Matcher gomap \<times> string gomap \<Rightarrow> bool" where
  "loop_ok metadata ks st \<longleftrightarrow>
     (let (errs, meta, seen) = st
      in fst ` set seen = ToLower ` set ks \<and> distinct (map fst meta)
         \<and> (errs = [] \<longrightarrow> distinct (map ToLower ks)
              \<and> (\<forall>k\<in>set ks. \<exists>p mm. map_of metadata k = Some p \<and> Compile p = Inr mm \<and> map_of meta (ToLower k) = Some mm)
              \<and> fst ` set meta = ToLower ` set ks))"

lemma metaStep_ok:
  assumes "loop_ok metadata ks st" "map_of metadata k = Some p"
  shows "loop_ok metadata (ks @ [k]) (metaStep metadata k st)"
proof -
  obtain errs meta seen where st: "st = (errs, meta, seen)" by (cases st) auto
  have fresh: "ToLower k \<notin> ToLower ` set ks \<longleftrightarrow> map_of seen (ToLower k) = None"
    using assms(1) by (simp add: loop_ok_def st map_of_eq_None_iff)
  show ?thesis
  proof (cases "map_of seen (ToLower k)")
    case (Some prev)
    moreover from this fresh have "ToLower k \<in> ToLower ` set ks" by auto
    ultimately show ?thesis using assms(1) by (auto simp: loop_ok_def metaStep_def st Let_def insert_absorb)
  next
    case None
    with fresh have "\<forall>k'\<in>set ks. ToLower k' \<noteq> ToLower k" by (metis imageI)
    with None fresh assms show ?thesis
      by (cases "Compile p") (auto simp: loop_ok_def metaStep_def st Let_def)
  qed
qed

lemma fold_metaStep_ok:
  "loop_ok metadata ks0 st \<Longrightarrow> set ks \<subseteq> fst ` set metadata \<Longrightarrow> loop_ok metadata (ks0 @ ks) (fold (metaStep metadata) ks st)"
proof (induction ks arbitrary: ks0 st)
  case (Cons k ks)
  then obtain p where "map_of metadata k = Some p" by (auto simp: map_of_eq_None_iff [of metadata k] dest: weak_map_of_SomeI)
  with Cons.prems have "loop_ok metadata (ks0 @ [k]) (metaStep metadata k st)" by (intro metaStep_ok)
  with Cons.IH [of "ks0 @ [k]" "metaStep metadata k st"] Cons.prems show ?case by simp
qed simp

text \<open>Conversely the loop reports nothing when there is nothing to report.\<close>

lemma fold_metaStep_clean:
  assumes "distinct (map ToLower ks)" "\<forall>k\<in>set ks. \<exists>p. map_of metadata k = Some p \<and> \<not> isl (Compile p)"
    and "ToLower ` set ks \<inter> fst ` set seen = {}"
  shows "fst (fold (metaStep metadata) ks ([], meta, seen)) = []"
  using assms
proof (induction ks arbitrary: meta seen)
  case (Cons k ks)
  then obtain p where "map_of metadata k = Some p" "\<not> isl (Compile p)" by auto
  moreover from this obtain mm where "Compile p = Inr mm" by (cases "Compile p") auto
  ultimately have p: "map_of metadata k = Some p" "Compile p = Inr mm" by blast+
  have "map_of seen (ToLower k) = None" using Cons.prems(3) by (auto simp: map_of_eq_None_iff)
  with p have "metaStep metadata k ([], meta, seen) = ([], AList.update (ToLower k) mm meta, AList.update (ToLower k) k seen)"
    by (simp add: metaStep_def Let_def)
  with Cons show ?case by (auto intro!: Cons.IH)
qed simp

section \<open>Compilation is right\<close>

lemma distinct_map_sort [simp]: "distinct (map f (sort xs)) \<longleftrightarrow> distinct (map f xs)"
  by (simp add: distinct_map)

lemma Compile_star [simp]: "Compile ''*'' = Inr \<lparr>m_kind = KAll, m_text = []\<rparr>"
  by (rule Compile_all) auto

text \<open>The state of the loop at its end, and its errors.\<close>

abbreviation meta_end :: "RoutingMatch \<Rightarrow> VErrors \<Rightarrow> VErrors \<times> Matcher gomap \<times> string gomap" where
  "meta_end m errs \<equiv> fold (metaStep (rm_Metadata m)) (sort (map fst (rm_Metadata m))) (errs, [], [])"

lemma meta_end_ok: "loop_ok (rm_Metadata m) (sort (map fst (rm_Metadata m))) (meta_end m errs)"
proof -
  have "loop_ok (rm_Metadata m) [] (errs, [], [])" by (simp add: loop_ok_def)
  from fold_metaStep_ok [OF this, of "sort (map fst (rm_Metadata m))"] show ?thesis by simp
qed

lemma loop_okD:
  assumes "loop_ok metadata ks st" "fst st = []"
  shows "distinct (map ToLower ks)" "distinct (map fst (fst (snd st)))" "fst ` set (fst (snd st)) = ToLower ` set ks"
    and "k \<in> set ks \<Longrightarrow> \<exists>p mm. map_of metadata k = Some p \<and> Compile p = Inr mm \<and> map_of (fst (snd st)) (ToLower k) = Some mm"
  using assms by (cases st; simp add: loop_ok_def)+

lemma metaStep_keeps: "errs \<noteq> [] \<Longrightarrow> fst (fold (metaStep metadata) ks (errs, meta, seen)) \<noteq> []"
proof (induction ks arbitrary: errs meta seen)
  case (Cons k ks)
  obtain errs' meta' seen' where st: "metaStep metadata k (errs, meta, seen) = (errs', meta', seen')"
    by (cases "metaStep metadata k (errs, meta, seen)") auto
  with Cons.prems have "errs' \<noteq> []" by (auto simp: metaStep_def Let_def split: option.splits sum.splits)
  with st Cons.IH show ?case by simp
qed simp

lemma compile_match_Inr:
  "compile_match m = Inr mm \<longleftrightarrow>
     Compile (if rm_Namespace m \<noteq> [] then rm_Namespace m else ''*'') = Inr (mt_ns mm)
     \<and> fst (meta_end m []) = [] \<and> mt_meta mm = fst (snd (meta_end m []))"
  by (cases mm) (auto simp: compile_match_def Let_def split: sum.splits prod.splits)

lemma compile_match_Inl_ne: "compile_match m = Inl errs \<Longrightarrow> errs \<noteq> []"
proof (cases "Compile (if rm_Namespace m \<noteq> [] then rm_Namespace m else ''*'')")
  case (Inl err)
  moreover have "fst (meta_end m [e]) \<noteq> []" for e by (rule metaStep_keeps) simp
  moreover assume "compile_match m = Inl errs"
  ultimately show ?thesis by (auto simp: compile_match_def Let_def split: prod.splits) (metis fst_conv)
next
  case (Inr c)
  moreover assume "compile_match m = Inl errs"
  ultimately show ?thesis by (auto simp: compile_match_def Let_def split: prod.splits if_splits)
qed

lemma compile_match_iff:
  assumes "distinct (map fst (rm_Metadata m))"
  shows "\<not> isl (compile_match m) \<longleftrightarrow> match_ok m"
proof -
  have pats: "map_of (rm_Metadata m) k = Some p \<longleftrightarrow> (k, p) \<in> set (rm_Metadata m)" for k p
    using assms by (simp add: map_of_eq_Some_iff)
  have end_iff: "fst (meta_end m []) = [] \<longleftrightarrow>
    (\<forall>(k, p)\<in>set (rm_Metadata m). \<not> isl (Compile p)) \<and> distinct (map (ToLower \<circ> fst) (rm_Metadata m))"
    (is "?L \<longleftrightarrow> ?R")
  proof
    assume ?L
    note D = loop_okD [OF meta_end_ok this]
    show ?R
    proof (intro conjI ballI, clarify)
      show "distinct (map (ToLower \<circ> fst) (rm_Metadata m))" using D(1) by simp
      fix k p assume kp: "(k, p) \<in> set (rm_Metadata m)" "isl (Compile p)"
      then have "k \<in> set (sort (map fst (rm_Metadata m)))" by force
      from D(4) [OF this] kp show False by (auto simp: pats map_of_is_SomeI [OF assms kp(1)])
    qed
  next
    assume R: ?R
    then have "\<forall>k\<in>set (sort (map fst (rm_Metadata m))). \<exists>p. map_of (rm_Metadata m) k = Some p \<and> \<not> isl (Compile p)"
      using map_of_is_SomeI [OF assms] by fastforce
    with R show ?L by (intro fold_metaStep_clean) simp_all
  qed
  have ex: "(\<exists>mm. c = Inr (mt_ns mm) \<and> A \<and> mt_meta mm = y) \<longleftrightarrow> \<not> isl c \<and> A" for c :: "Matcher result" and A y
    by (cases c) (auto, metis ruleMatchers.select_convs(1,2))
  have "(\<exists>mm. compile_match m = Inr mm) \<longleftrightarrow> match_ok m"
    unfolding compile_match_Inr ex end_iff match_ok_def by simp
  then show ?thesis by (cases "compile_match m") auto
qed

text \<open>A compiled rule accepts what its patterns mean.\<close>

lemma compiled_accepts:
  assumes "distinct (map fst (rm_Metadata m))" "compile_match m = Inr mm"
  shows "Match (mt_ns mm) ns \<and> (\<forall>(k, c)\<in>set (mt_meta mm). \<exists>v\<in>set (lookup_all md k). Match c v)
    \<longleftrightarrow> rule_accepts m ns md"
proof -
  from assms(2) have c: "Compile (if rm_Namespace m \<noteq> [] then rm_Namespace m else ''*'') = Inr (mt_ns mm)"
    and e: "fst (meta_end m []) = []" and meta: "mt_meta mm = fst (snd (meta_end m []))"
    by (auto simp: compile_match_Inr)
  note D = loop_okD [OF meta_end_ok e, folded meta]
  have "Match (mt_ns mm) ns \<longleftrightarrow> rm_Namespace m = [] \<or> glob (rm_Namespace m) ns"
    using Match_iff [OF c] glob_stars [of "''*''" ns] by (simp split: if_splits)
  moreover have "(\<forall>(k, c)\<in>set (mt_meta mm). P k (Match c)) \<longleftrightarrow> (\<forall>(k, p)\<in>set (rm_Metadata m). P (ToLower k) (glob p))" for P
  proof -
    have fwd: "\<exists>c. Compile p = Inr c \<and> (ToLower k, c) \<in> set (mt_meta mm) \<and> Match c = glob p" if "(k, p) \<in> set (rm_Metadata m)" for k p
      using D(4) [of k] that map_of_is_SomeI [OF assms(1) that] Match_iff by (force dest: map_of_SomeD)
    have bwd: "\<exists>k' p. k = ToLower k' \<and> (k', p) \<in> set (rm_Metadata m) \<and> Match c = glob p" if "(k, c) \<in> set (mt_meta mm)" for k c
    proof -
      have lk: "map_of (mt_meta mm) k = Some c" by (rule map_of_is_SomeI [OF D(2) that])
      from that D(3) obtain k' where k': "k = ToLower k'" "k' \<in> set (sort (map fst (rm_Metadata m)))" by (metis (no_types) fst_conv image_iff)
      from D(4) [OF k'(2)] k'(1) obtain p where "map_of (rm_Metadata m) k' = Some p" "Compile p = Inr c"
        using lk by auto
      with k'(1) Match_iff show ?thesis by (blast dest: map_of_SomeD)
    qed
    show ?thesis
    proof (intro iffI ballI)
      fix x assume L: "\<forall>(k, c)\<in>set (mt_meta mm). P k (Match c)" "x \<in> set (rm_Metadata m)"
      obtain k p where x: "x = (k, p)" by (cases x)
      with fwd L(2) obtain c where "(ToLower k, c) \<in> set (mt_meta mm)" "Match c = glob p" by blast
      with L(1) x show "case x of (k, p) \<Rightarrow> P (ToLower k) (glob p)" by fastforce
    next
      fix x assume R: "\<forall>(k, p)\<in>set (rm_Metadata m). P (ToLower k) (glob p)" "x \<in> set (mt_meta mm)"
      obtain k c where x: "x = (k, c)" by (cases x)
      with bwd R(2) obtain k' p where "k = ToLower k'" "(k', p) \<in> set (rm_Metadata m)" "Match c = glob p" by blast
      with R(1) x show "case x of (k, c) \<Rightarrow> P k (Match c)" by fastforce
    qed
  qed
  from this [of "\<lambda>k f. \<exists>v\<in>set (lookup_all md k). f v"] calculation show ?thesis by (simp add: rule_accepts_def)
qed

section \<open>Validation\<close>

text \<open>A Go map has each key once.\<close>

definition match_wf :: "RoutingMatch \<Rightarrow> bool" where
  "match_wf m \<longleftrightarrow> distinct (map fst (rm_Metadata m))"

definition routing_wf :: "Routing \<Rightarrow> bool" where
  "routing_wf r \<longleftrightarrow> list_all (\<lambda>x. match_wf (rr_Match x)) (RRules r)"

text \<open>The nodes of the table, bottom up; each rests on its child's contract.\<close>

interpretation routing_match: validator RoutingMatch_Validate
  "\<lambda>m. (rm_Namespace m \<noteq> [] \<or> rm_Metadata m \<noteq> []) \<and> \<not> isl (compile_match m)"
proof unfold_locales
  fix m
  show "honest (RoutingMatch_Validate m)" by (simp add: RoutingMatch_Validate_def)
  show "RoutingMatch_Validate m = None \<longleftrightarrow> (rm_Namespace m \<noteq> [] \<or> rm_Metadata m \<noteq> []) \<and> \<not> isl (compile_match m)"
    using compile_match_Inl_ne [of m] by (auto simp: RoutingMatch_Validate_def split: sum.splits)
qed

interpretation routing_rule: validator RoutingRule_Validate
  "\<lambda>r. rr_Upstream r \<noteq> [] \<and> (rm_Namespace (rr_Match r) \<noteq> [] \<or> rm_Metadata (rr_Match r) \<noteq> []) \<and> \<not> isl (compile_match (rr_Match r))"
  by unfold_locales (auto simp: RoutingRule_Validate_def routing_match.nested_valid)

lemma routing_rules_Nil:
  "(\<forall>x\<in>set (routing_rules i rs). x = []) \<longleftrightarrow> (\<forall>r\<in>set rs. RoutingRule_Validate r = None)"
  by (induction rs arbitrary: i) (auto simp: routing_rule.nested_valid routing_rule.validate_iff)

text \<open>What a valid table is, in terms of its patterns.\<close>

definition rule_ok :: "RoutingRule \<Rightarrow> bool" where
  "rule_ok r \<longleftrightarrow> rr_Upstream r \<noteq> [] \<and> (rm_Namespace (rr_Match r) \<noteq> [] \<or> rm_Metadata (rr_Match r) \<noteq> [])
     \<and> match_ok (rr_Match r)"

lemma Routing_Validate_None:
  "routing_wf r \<Longrightarrow> Routing_Validate r = None \<longleftrightarrow> (\<forall>x\<in>set (RRules r). rule_ok x)"
  unfolding Routing_Validate_def Validate_None routing_rules_Nil
  using compile_match_iff by (fastforce simp: routing_wf_def list_all_iff match_wf_def rule_ok_def routing_rule.validate_iff)

lemma compile_from_ok:
  "\<forall>r\<in>set rs. \<not> isl (compile_match (rr_Match r)) \<Longrightarrow>
   compile_from i rs = (None, map (\<lambda>r. r\<lparr>matchers := Some (projr (compile_match (rr_Match r)))\<rparr>) rs)"
  by (induction rs arbitrary: i) (auto split: sum.splits prod.splits)

lemma compile_routing_ok:
  assumes "Routing_Validate r = None"
  shows "compile_routing r =
    (None, r\<lparr>RRules := map (\<lambda>x. x\<lparr>matchers := Some (projr (compile_match (rr_Match x)))\<rparr>) (RRules r)\<rparr>)"
  using assms unfolding Routing_Validate_def Validate_None routing_rules_Nil
  by (simp add: compile_routing_def compile_from_ok routing_rule.validate_iff)

lemma referentialRules_Nil:
  "(\<forall>x\<in>set (referentialRules known r). x = []) \<longleftrightarrow>
     (\<forall>n\<in>insert (DefaultUpstream r) (insert (SystemUpstream r) (rr_Upstream ` set (RRules r))). n = [] \<or> n \<in> set known)"
proof -
  have ref: "refRule known s f n = [] \<longleftrightarrow> n = [] \<or> n \<in> set known" for s f n
    by (simp add: refRule_def knownUpstream_def)
  have "(\<forall>x\<in>set (rule_refs known i rs). x = []) \<longleftrightarrow> (\<forall>r\<in>set rs. rr_Upstream r = [] \<or> rr_Upstream r \<in> set known)" for i rs
    by (induction rs arbitrary: i) (auto simp: ref)
  then show ?thesis by (auto simp: referentialRules_def ref)
qed

lemma resolvable_None [simp]: "resolvableServices reg names = None \<longleftrightarrow> set names \<subseteq> set All"
  by (auto simp: resolvableServices_def Let_def)

lemma resolvable_honest [simp]: "honest (resolvableServices reg names)"
  by (auto simp: resolvableServices_def Let_def honest_def toErrors_def split: if_splits)

interpretation services: validator "Services_Validate reg" "\<lambda>s. distinct s \<and> set s \<subseteq> set All" for reg
  by unfold_locales (auto simp: Services_Validate_def)

section \<open>Properties\<close>

text \<open>
  Validation of the routing table accepts exactly the tables whose rules name an upstream,
  constrain the namespace or the metadata, have patterns with a \<open>*\<close> only at their ends, and have
  no two metadata keys that differ only in case; and a table that passes compiles, leaving
  matchers on every rule that no use will find missing.
\<close>

theorem Routing_Validate_compiles:
  assumes "routing_wf r"
  shows "(Routing_Validate r = None \<longleftrightarrow> (\<forall>x\<in>set (RRules r). rule_ok x))
    \<and> (Routing_Validate r = None \<longrightarrow> fst (compile_routing r) = None
         \<and> (\<forall>x\<in>set (RRules (snd (compile_routing r))). \<not> isl (Matchers x)))"
  using assms by (auto simp: Routing_Validate_None compile_routing_ok Matchers_def)

definition ex_routing :: Routing where
  "ex_routing = \<lparr>DefaultUpstream = ''local'', SystemUpstream = [],
     RRules = [\<lparr>rr_Upstream = ''cloud'', rr_Match = \<lparr>rm_Namespace = ''pay*'', rm_Metadata = [(''X-Tier'', ''gold'')]\<rparr>,
                matchers = None\<rparr>]\<rparr>"

theorem Routing_Validate_compiles_witness: "fst (compile_routing ex_routing) = None"
proof -
  have "\<forall>x\<in>set (RRules ex_routing). rule_ok x" by code_simp
  moreover have "routing_wf ex_routing" by code_simp
  ultimately show ?thesis using Routing_Validate_compiles [of ex_routing] by blast
qed

text \<open>
  The allowed services: a list passes validation exactly when it has no duplicate and only
  forwardable names, whatever else the linked registry knows; the gateway then forwards only
  services of the forwardable set, and forwards the two default ones when none is configured.
\<close>

theorem Services_Validate_allows:
  "(Services_Validate reg s = None \<longleftrightarrow> distinct s \<and> set s \<subseteq> set All)
   \<and> (Services_Validate reg s = None \<longrightarrow> Allows (config_NewAllowlist s) name \<longrightarrow> name \<in> set All)
   \<and> (Allows (config_NewAllowlist []) name \<longleftrightarrow> name \<in> {WorkflowService, OperatorService})"
proof -
  have all: "set All = {WorkflowService, OperatorService, Reflection, ReflectionV1Alpha}"
    by (auto simp: All_def set_expand Known_def set_aliases)
  have "Reflection \<noteq> WorkflowService" "Reflection \<noteq> OperatorService"
    by (simp_all add: WorkflowService_def OperatorService_def Reflection_def)
  then have "set (expand Default) = {WorkflowService, OperatorService}"
    by (auto simp: set_expand Default_def set_aliases)
  moreover have "set (expand s) \<subseteq> set All" if "set s \<subseteq> set All"
    using that by (auto simp: set_expand set_aliases all)
  moreover have "set Default \<subseteq> set All" by (simp add: Default_def all)
  ultimately show ?thesis
    by (auto simp: services.validate_iff config_NewAllowlist_def Allowed_def Allows_iff all)
qed

theorem Services_Validate_allows_witness: "Services_Validate (\<lambda>_. Inr OtherDescriptor) [Reflection] = None"
  using Services_Validate_allows [of "\<lambda>_. Inr OtherDescriptor" "[Reflection]" "[]"]
  by (simp add: All_def set_expand Known_def)

end
