(* ===== verification/Router.thy ===== *)
theory Router
  imports Routing Rpc
begin

text \<open>
  \<open>internal/router\<close>: the mux that picks an upstream, the director that maps it to a handler, the
  interceptor that reads the namespace from the first message, the handler of a routed stream,
  and the pass-through codec.

  The locale \<open>director\<close> is the interface \<open>Director\<close> with the contract its comment states; the
  handler's facts are proved for every director and then hold for \<open>Resolve\<close>.
\<close>

section \<open>The mux\<close>

datatype Outcome = OutcomeMatch | OutcomeDefault | OutcomeSystem | OutcomeUnroutable

record MuxRule =
  upstream :: string
  rule_ns :: Matcher
  rule_meta :: "Matcher gomap"

record Mux =
  mux_def :: string
  mux_sys :: string
  mux_rules :: "MuxRule list"

definition NewMux :: "string \<Rightarrow> string \<Rightarrow> MuxRule list \<Rightarrow> Mux" where
  "NewMux defUpstream sysUpstream rules = \<lparr>mux_def = defUpstream, mux_sys = sysUpstream, mux_rules = rules\<rparr>"

definition matches :: "MuxRule \<Rightarrow> string \<Rightarrow> MD \<Rightarrow> bool" where
  "matches r ns md =
     (if \<not> Match (rule_ns r) ns then False
      else list_all (\<lambda>(key, matcher). list_ex (Match matcher) (lookup_all md key)) (rule_meta r))"

definition outcomeFor :: "string \<Rightarrow> Outcome \<Rightarrow> Outcome" where
  "outcomeFor name oc = (if name = [] then OutcomeUnroutable else oc)"

fun switch_rules :: "MuxRule list \<Rightarrow> string \<Rightarrow> MD \<Rightarrow> (string \<times> Outcome) option" where
  "switch_rules [] ns md = None"
| "switch_rules (rule # rules) ns md =
     (if matches rule ns md then Some (upstream rule, outcomeFor (upstream rule) OutcomeMatch)
      else switch_rules rules ns md)"

definition Switch :: "Mux \<Rightarrow> string \<Rightarrow> MD \<Rightarrow> string \<times> Outcome" where
  "Switch m ns md =
     (case switch_rules (mux_rules m) ns md of
        Some res \<Rightarrow> res
      | None \<Rightarrow>
          (if ns = [] \<and> mux_sys m \<noteq> [] then (mux_sys m, outcomeFor (mux_sys m) OutcomeSystem)
           else (mux_def m, outcomeFor (mux_def m) OutcomeDefault)))"

definition Outcome_String :: "Outcome \<Rightarrow> string" where
  "Outcome_String oc =
     (case oc of
        OutcomeMatch \<Rightarrow> ''match''
      | OutcomeDefault \<Rightarrow> ''default''
      | OutcomeSystem \<Rightarrow> ''system''
      | OutcomeUnroutable \<Rightarrow> ''unroutable'')"

fun muxRules :: "RoutingRule list \<Rightarrow> MuxRule list result" where
  "muxRules [] = Inr []"
| "muxRules (r # rs) =
     (case Matchers r of
        Inl err \<Rightarrow> Inl err
      | Inr m \<Rightarrow>
          (case muxRules rs of
             Inl err \<Rightarrow> Inl err
           | Inr rules \<Rightarrow> Inr (\<lparr>upstream = rr_Upstream r, rule_ns = mt_ns m, rule_meta = mt_meta m\<rparr> # rules)))"

definition MuxFor :: "Routing \<Rightarrow> Mux result" where
  "MuxFor r =
     (case muxRules (RRules r) of
        Inl err \<Rightarrow> Inl err
      | Inr rules \<Rightarrow> Inr (NewMux (DefaultUpstream r) (SystemUpstream r) rules))"

section \<open>The director\<close>

text \<open>What the reporter is told.\<close>

datatype routeEvent = Decision string Outcome | ForwardingError string string

definition upstreamUnknown :: string where
  "upstreamUnknown = ''unknown''"

definition reasonNoHandler :: string where
  "reasonNoHandler = ''no_handler''"

record 'h RouteTarget =
  Upstream :: string
  Handle :: 'h

text \<open>A director: method, namespace and metadata to a target, with the events it reports. Its
  context argument only carries metric labels.\<close>

type_synonym 'h Director = "string \<Rightarrow> string \<Rightarrow> MD \<Rightarrow> 'h RouteTarget result \<times> routeEvent list"

record 'h director_state =
  handlers :: "'h gomap"
  mux :: Mux

definition Resolve :: "'h director_state \<Rightarrow> 'h Director" where
  "Resolve d meth namespace md =
     (let (up, outcome) = Switch (mux d) namespace md
      in if outcome = OutcomeUnroutable
         then (Inl (StatusError FailedPrecondition ''no upstream matched the request and no default is configured''),
               [Decision upstreamUnknown OutcomeUnroutable])
         else case map_of (handlers d) up of
                None \<Rightarrow>
                  (Inl (StatusError Unavailable (''router: no handler for upstream '' @ up)),
                   [Decision up outcome, ForwardingError up reasonNoHandler])
              | Some handle \<Rightarrow> (Inr \<lparr>Upstream = up, Handle = handle\<rparr>, [Decision up outcome]))"

section \<open>The pass-through codec\<close>

text \<open>A message is a frame of raw bytes or a proto message; a destination has the same two kinds,
  or is something no codec reads into.\<close>

datatype 'm msg = Frame bytes | Proto 'm
datatype dest = DFrame | DProto | DOther

text \<open>The proto codec, \<open>proto.Unmarshal\<close>, what the codec says of a destination it does not know,
  and the error gRPC makes of a decoding failure.\<close>

record 'm codec_env =
  proto_Marshal :: "'m \<Rightarrow> bytes result"
  proto_codec_Unmarshal :: "bytes \<Rightarrow> 'm result"
  proto_Unmarshal :: "bytes \<Rightarrow> 'm result"
  bad_dest :: goerror
  recv_error :: "goerror \<Rightarrow> goerror"

definition passthrough_Marshal :: "'m codec_env \<Rightarrow> 'm msg \<Rightarrow> bytes result" where
  "passthrough_Marshal env v = (case v of Frame payload \<Rightarrow> Inr payload | Proto m \<Rightarrow> proto_Marshal env m)"

definition passthrough_Unmarshal :: "'m codec_env \<Rightarrow> bytes \<Rightarrow> dest \<Rightarrow> 'm msg result" where
  "passthrough_Unmarshal env data v =
     (case v of
        DFrame \<Rightarrow> Inr (Frame data)
      | DProto \<Rightarrow> map_sum id Proto (proto_codec_Unmarshal env data)
      | DOther \<Rightarrow> Inl (bad_dest env))"

section \<open>Streams\<close>

text \<open>A server stream: its context, what the n-th read of the wire returns, and how many reads
  have been done. \<open>RecvMsg\<close> of the server decodes with the pass-through codec.\<close>

record 'g ServerStream =
  s_ctx :: "'g goctx"
  s_wire :: "nat \<Rightarrow> bytes result"
  s_pos :: nat

definition stream_RecvMsg :: "'m codec_env \<Rightarrow> dest \<Rightarrow> 'g ServerStream \<Rightarrow> 'm msg result \<times> 'g ServerStream" where
  "stream_RecvMsg env dst ss =
     (case s_wire ss (s_pos ss) of
        Inl err \<Rightarrow> (Inl err, ss\<lparr>s_pos := s_pos ss + 1\<rparr>)
      | Inr data \<Rightarrow> (map_sum (recv_error env) id (passthrough_Unmarshal env data dst), ss\<lparr>s_pos := s_pos ss + 1\<rparr>))"

record 'g replayStream =
  r_stream :: "'g ServerStream"
  r_ctx :: "'g goctx"
  r_first :: "bytes option"
  r_replayed :: bool

definition replay_RecvMsg :: "'m codec_env \<Rightarrow> dest \<Rightarrow> 'g replayStream \<Rightarrow> 'm msg result \<times> 'g replayStream" where
  "replay_RecvMsg env dst s =
     (if r_replayed s
      then (case stream_RecvMsg env dst (r_stream s) of (res, ss) \<Rightarrow> (res, s\<lparr>r_stream := ss\<rparr>))
      else case r_first s of
             None \<Rightarrow> (Inl EOF, s\<lparr>r_replayed := True\<rparr>)
           | Some payload \<Rightarrow>
               ((case dst of
                   DFrame \<Rightarrow> Inr (Frame payload)
                 | DProto \<Rightarrow>
                     (case proto_Unmarshal env payload of
                        Inl err \<Rightarrow> Inl (StatusError Internal (''router: decoding the first request failed: '' @ Error err))
                      | Inr m \<Rightarrow> Inr (Proto m))
                 | DOther \<Rightarrow> Inl (StatusError Internal ''router: cannot replay the first request into'')),
                s\<lparr>r_replayed := True, r_first := None\<rparr>))"

text \<open>\<open>PeekInterceptor\<close>: an error returned to the caller, or the stream the next stage is called
  with.\<close>

definition PeekInterceptor :: "'m codec_env \<Rightarrow> status_api \<Rightarrow> (string \<Rightarrow> bytes \<Rightarrow> string) \<Rightarrow> allowSet \<Rightarrow> string
    \<Rightarrow> 'g ServerStream \<Rightarrow> 'g replayStream result" where
  "PeekInterceptor env st reflector a fullMethod ss =
     (let target = \<lparr>FullName = fullMethod, Namespace = [], HTTP = None\<rparr>
      in if \<not> Allows a (Service fullMethod)
         then Inr \<lparr>r_stream = ss, r_ctx = WithTarget (s_ctx ss) target, r_first = None, r_replayed = True\<rparr>
         else case stream_RecvMsg env DFrame ss of
                (Inl err, ss') \<Rightarrow>
                  (if \<not> errors_Is err EOF then Inl (toStatusError st ''router: reading the first request failed'' err)
                   else Inr \<lparr>r_stream = ss', r_ctx = WithTarget (s_ctx ss') target, r_first = None, r_replayed = False\<rparr>)
              | (Inr first, ss') \<Rightarrow>
                  (let payload = (case first of Frame b \<Rightarrow> b | Proto _ \<Rightarrow> [])
                   in Inr \<lparr>r_stream = ss', r_ctx = WithTarget (s_ctx ss') (target\<lparr>Namespace := reflector fullMethod payload\<rparr>),
                           r_first = Some payload, r_replayed = False\<rparr>))"

section \<open>The handler\<close>

text \<open>\<open>Handler\<close>: an error, or the target whose handler is called and the context of the stream it is
  called with; and the events reported.\<close>

definition Handler :: "'g grpc_api \<Rightarrow> 'h Director \<Rightarrow> allowSet \<Rightarrow> 'g goctx
    \<Rightarrow> ('h RouteTarget \<times> 'g goctx) result \<times> routeEvent list" where
  "Handler api d a ctx =
     (case FullMethod api ctx of
        Inl err \<Rightarrow> (Inl err, [])
      | Inr meth \<Rightarrow>
          (let svc = Service meth
           in if \<not> Allows a svc then (Inl (StatusError Unimplemented (''unknown service '' @ svc)), [])
              else let peeked = TargetFrom ctx
                   in if FullName peeked = []
                      then (Inl (StatusError Internal ''router: no target on the request context''), [])
                      else let inMD = (case FromIncomingContext api (grpc_part ctx) of None \<Rightarrow> [] | Some md \<Rightarrow> md)
                           in case d meth (Namespace peeked) inMD of
                                (Inl err, evs) \<Rightarrow> (Inl err, evs)
                              | (Inr target, evs) \<Rightarrow> (Inr (target, WithNamespace api ctx (Namespace peeked)), evs)))"

section \<open>The route a table means\<close>

definition route_spec :: "Routing \<Rightarrow> string \<Rightarrow> MD \<Rightarrow> string \<times> Outcome" where
  "route_spec r ns md =
     (case List.find (\<lambda>x. rule_accepts (rr_Match x) ns md) (RRules r) of
        Some x \<Rightarrow> (rr_Upstream x, OutcomeMatch)
      | None \<Rightarrow>
          (if ns = [] \<and> SystemUpstream r \<noteq> [] then (SystemUpstream r, OutcomeSystem)
           else (DefaultUpstream r, if DefaultUpstream r = [] then OutcomeUnroutable else OutcomeDefault)))"

lemma switch_rules_find:
  assumes "muxRules (map (\<lambda>x. x\<lparr>matchers := Some (projr (compile_match (rr_Match x)))\<rparr>) rs) = Inr rules"
    and "\<forall>x\<in>set rs. match_wf (rr_Match x) \<and> rule_ok x"
  shows "switch_rules rules ns md =
    map_option (\<lambda>x. (rr_Upstream x, OutcomeMatch)) (List.find (\<lambda>x. rule_accepts (rr_Match x) ns md) rs)"
  using assms
proof (induction rs arbitrary: rules)
  case (Cons x rs)
  let ?c = "projr (compile_match (rr_Match x))"
  from Cons.prems obtain rules' where r: "rules = \<lparr>upstream = rr_Upstream x, rule_ns = mt_ns ?c, rule_meta = mt_meta ?c\<rparr> # rules'"
    "muxRules (map (\<lambda>x. x\<lparr>matchers := Some (projr (compile_match (rr_Match x)))\<rparr>) rs) = Inr rules'"
    by (auto simp: Matchers_def split: sum.splits)
  from Cons.prems(2) have wf: "distinct (map fst (rm_Metadata (rr_Match x)))" and ok: "rule_ok x"
    by (simp_all add: match_wf_def)
  with compile_match_iff [OF wf] have "compile_match (rr_Match x) = Inr ?c"
    by (cases "compile_match (rr_Match x)") (simp_all add: rule_ok_def)
  from compiled_accepts [OF wf this, of ns md]
  have "matches (hd rules) ns md \<longleftrightarrow> rule_accepts (rr_Match x) ns md"
    by (auto simp: r(1) matches_def list_all_iff list_ex_iff)
  with Cons.IH [OF r(2)] Cons.prems(2) ok show ?case by (simp add: r(1) outcomeFor_def rule_ok_def)
qed simp

lemma muxRules_total: "\<forall>r\<in>set rs. \<not> isl (Matchers r) \<Longrightarrow> \<exists>rules. muxRules rs = Inr rules"
proof (induction rs)
  case (Cons r rs)
  then show ?case by (cases "Matchers r") auto
qed simp

lemma MuxFor_Switch:
  assumes "routing_wf r" "Routing_Validate r = None"
  obtains m where "MuxFor (snd (compile_routing r)) = Inr m" "\<And>ns md. Switch m ns md = route_spec r ns md"
proof -
  let ?rs = "map (\<lambda>x. x\<lparr>matchers := Some (projr (compile_match (rr_Match x)))\<rparr>) (RRules r)"
  obtain rules where rules: "muxRules ?rs = Inr rules"
    using muxRules_total [of ?rs] by (auto simp: Matchers_def)
  have ok: "\<forall>x\<in>set (RRules r). match_wf (rr_Match x) \<and> rule_ok x"
    using assms by (simp add: Routing_Validate_None) (simp add: routing_wf_def list_all_iff)
  show ?thesis
  proof (rule that)
    show "MuxFor (snd (compile_routing r)) = Inr (NewMux (DefaultUpstream r) (SystemUpstream r) rules)"
      by (simp add: compile_routing_ok [OF assms(2)] MuxFor_def rules)
    show "Switch (NewMux (DefaultUpstream r) (SystemUpstream r) rules) ns md = route_spec r ns md" for ns md
      using switch_rules_find [OF rules ok, of ns md]
      by (auto simp: Switch_def NewMux_def route_spec_def outcomeFor_def split: option.splits)
  qed
qed

section \<open>The director's contract\<close>

lemma Switch_unroutable: "snd (Switch m ns md) = OutcomeUnroutable \<longleftrightarrow> fst (Switch m ns md) = []"
proof -
  have "switch_rules rs ns md = Some res \<Longrightarrow> snd res = OutcomeUnroutable \<longleftrightarrow> fst res = []" for rs res
    by (induction rs) (auto simp: outcomeFor_def split: if_splits)
  then show ?thesis by (auto simp: Switch_def outcomeFor_def split: option.splits if_splits)
qed

locale director =
  fixes d :: "'h Director"
  assumes target_named: "fst (d meth ns md) = Inr t \<Longrightarrow> Upstream t \<noteq> []"
    and errors_status: "fst (d meth ns md) = Inl err \<Longrightarrow> GRPCStatus err \<noteq> None"
    and decides_once: "\<exists>up oc. filter (\<lambda>e. case e of Decision _ _ \<Rightarrow> True | _ \<Rightarrow> False) (snd (d meth ns md)) = [Decision up oc]"
begin

lemma resolved: "d meth ns md = (Inr t, evs) \<Longrightarrow> Upstream t \<noteq> []" "d meth ns md = (Inl err, evs) \<Longrightarrow> \<exists>c m. GRPCStatus err = Some (c, m)"
  using target_named [of meth ns md t] errors_status [of meth ns md err] by auto

lemma handler_status: "fst (Handler api d a ctx) = Inl err \<Longrightarrow> GRPCStatus err \<noteq> None"
  by (auto simp: Handler_def FullMethod_def Let_def GRPCStatus_def [of "StatusError _ _"]
      dest: resolved split: option.splits if_splits sum.splits prod.splits)

lemma handler_target: "fst (Handler api d a ctx) = Inr (t, ctx') \<Longrightarrow> Upstream t \<noteq> []"
  by (auto simp: Handler_def FullMethod_def Let_def dest: resolved split: option.splits if_splits sum.splits prod.splits)

end

interpretation resolver: director "Resolve d" for d
proof unfold_locales
  fix meth ns md t err
  obtain up oc where sw: "Switch (mux d) ns md = (up, oc)" by (cases "Switch (mux d) ns md")
  show "Upstream t \<noteq> []" if "fst (Resolve d meth ns md) = Inr t"
    using that Switch_unroutable [of "mux d" ns md] by (auto simp: Resolve_def sw split: if_splits option.splits)
  show "GRPCStatus err \<noteq> None" if "fst (Resolve d meth ns md) = Inl err"
    using that by (auto simp: Resolve_def sw GRPCStatus_def split: if_splits option.splits)
  show "\<exists>up oc. filter (\<lambda>e. case e of Decision _ _ \<Rightarrow> True | _ \<Rightarrow> False) (snd (Resolve d meth ns md)) = [Decision up oc]"
    by (auto simp: Resolve_def sw split: option.splits)
qed

section \<open>Replaying the first message\<close>

text \<open>What a sequence of reads returns, on the stream itself and on the stream the interceptor hands on.\<close>

fun stream_reads :: "'m codec_env \<Rightarrow> dest list \<Rightarrow> 'g ServerStream \<Rightarrow> 'm msg result list" where
  "stream_reads env [] ss = []"
| "stream_reads env (dst # ds) ss =
     (case stream_RecvMsg env dst ss of (res, ss') \<Rightarrow> res # stream_reads env ds ss')"

fun replay_reads :: "'m codec_env \<Rightarrow> dest list \<Rightarrow> 'g replayStream \<Rightarrow> 'm msg result list" where
  "replay_reads env [] s = []"
| "replay_reads env (dst # ds) s =
     (case replay_RecvMsg env dst s of (res, s') \<Rightarrow> res # replay_reads env ds s')"

text \<open>What is relied on: gRPC reports the end of the stream as \<open>io.EOF\<close> itself, and
  \<open>proto.Unmarshal\<close> gives what the proto codec gives.\<close>

definition stream_doc :: "'m codec_env \<Rightarrow> 'g ServerStream \<Rightarrow> bool" where
  "stream_doc env ss \<longleftrightarrow>
     (\<forall>err. s_wire ss (s_pos ss) = Inl err \<longrightarrow> errors_Is err EOF \<longrightarrow> err = EOF)
     \<and> (\<forall>b m. proto_codec_Unmarshal env b = Inr m \<longrightarrow> proto_Unmarshal env b = Inr m)"

text \<open>The first read of a peeked stream asks for something the first message can be decoded into.\<close>

definition first_decodes :: "'m codec_env \<Rightarrow> dest list \<Rightarrow> 'g ServerStream \<Rightarrow> bool" where
  "first_decodes env ds ss \<longleftrightarrow>
     (case ds of
        [] \<Rightarrow> True
      | dst # _ \<Rightarrow> (case s_wire ss (s_pos ss) of Inl _ \<Rightarrow> True | Inr b \<Rightarrow> \<not> isl (passthrough_Unmarshal env b dst)))"

lemma replayed_reads: "r_replayed s \<Longrightarrow> replay_reads env ds s = stream_reads env ds (r_stream s)"
proof (induction ds arbitrary: s)
  case (Cons dst ds)
  then show ?case by (auto simp: replay_RecvMsg_def split: prod.splits)
qed simp

lemma peeked_reads:
  assumes "PeekInterceptor env st reflector a fm ss = Inr s" "Allows a (Service fm)" "stream_doc env ss" "first_decodes env ds ss"
  shows "replay_reads env ds s = stream_reads env ds ss"
proof (cases ds)
  case (Cons dst ds')
  show ?thesis
  proof (cases "s_wire ss (s_pos ss)")
    case (Inl err)
    with assms Cons show ?thesis
      by (auto simp: PeekInterceptor_def stream_RecvMsg_def replay_RecvMsg_def replayed_reads stream_doc_def Let_def split: if_splits)
  next
    case (Inr b)
    with assms(1,2) have s: "s = \<lparr>r_stream = ss\<lparr>s_pos := s_pos ss + 1\<rparr>, r_ctx = WithTarget (s_ctx ss)
        \<lparr>FullName = fm, Namespace = reflector fm b, HTTP = None\<rparr>, r_first = Some b, r_replayed = False\<rparr>"
      by (simp add: PeekInterceptor_def stream_RecvMsg_def passthrough_Unmarshal_def Let_def)
    have "fst (replay_RecvMsg env dst s) = fst (stream_RecvMsg env dst ss)"
      using assms(3,4) Inr Cons
      by (cases dst; cases "proto_codec_Unmarshal env b")
        (auto simp: s replay_RecvMsg_def stream_RecvMsg_def passthrough_Unmarshal_def stream_doc_def first_decodes_def)
    moreover have "snd (replay_RecvMsg env dst s) = s\<lparr>r_replayed := True, r_first := None\<rparr>"
      by (simp add: s replay_RecvMsg_def)
    moreover have "snd (stream_RecvMsg env dst ss) = r_stream s" by (simp add: s stream_RecvMsg_def Inr)
    ultimately show ?thesis by (auto simp: Cons replayed_reads split: prod.splits)
  qed
qed simp

section \<open>Properties\<close>

text \<open>
  C7. Routing does what the table says. For a routing table that passes validation, compilation
  and \<open>MuxFor\<close> succeed, and the mux sends every request to the upstream of the first rule whose
  patterns, read as wildcards, accept its namespace and its metadata (header names of the rules
  taken in lower case); with no such rule to the system upstream when the request has no
  namespace and one is set; else to the default. The outcome says which, and that the request is
  unroutable when the chosen name is empty.
\<close>

theorem MuxFor_routes:
  assumes "routing_wf r" "Routing_Validate r = None"
  shows "\<exists>m. MuxFor (snd (compile_routing r)) = Inr m \<and> (\<forall>ns md. Switch m ns md = route_spec r ns md)"
  using assms by (rule MuxFor_Switch) blast

lemma ex_routing_valid: "routing_wf ex_routing" "Routing_Validate ex_routing = None"
proof -
  show wf: "routing_wf ex_routing" by code_simp
  have "\<forall>x\<in>set (RRules ex_routing). rule_ok x" by code_simp
  with wf show "Routing_Validate ex_routing = None" by (simp add: Routing_Validate_None)
qed

theorem MuxFor_routes_witness:
  "\<exists>m. MuxFor (snd (compile_routing ex_routing)) = Inr m
     \<and> Switch m ''payments'' [(''x-tier'', [''silver'', ''gold''])] = (''cloud'', OutcomeMatch)
     \<and> Switch m ''payments'' [(''x-tier'', [''silver''])] = (''local'', OutcomeDefault)"
proof -
  have "route_spec ex_routing ''payments'' [(''x-tier'', [''silver'', ''gold''])] = (''cloud'', OutcomeMatch)"
    "route_spec ex_routing ''payments'' [(''x-tier'', [''silver''])] = (''local'', OutcomeDefault)"
    by code_simp+
  with MuxFor_routes [OF ex_routing_valid] show ?thesis by metis
qed

text \<open>
  C18. A prepared configuration never routes to an upstream that is not there. When the table
  passes validation and its references, and every known upstream has a handler, a request either
  reaches the handler of the upstream the table names, with one decision reported, or fails with
  \<open>FailedPrecondition\<close>, and that exactly when the table leaves it without an upstream; the
  missing-handler error does not occur.
\<close>

theorem Resolve_prepared:
  assumes "routing_wf r" "Routing_Validate r = None" "\<forall>x\<in>set (referentialRules known r). x = []"
    and "MuxFor (snd (compile_routing r)) = Inr (mux d)" "set known \<subseteq> fst ` set (handlers d)"
  shows "(if fst (route_spec r ns md) = []
     then fst (Resolve d meth ns md) = Inl (StatusError FailedPrecondition ''no upstream matched the request and no default is configured'')
     else \<exists>h. map_of (handlers d) (fst (route_spec r ns md)) = Some h
        \<and> Resolve d meth ns md = (Inr \<lparr>Upstream = fst (route_spec r ns md), Handle = h\<rparr>, [Decision (fst (route_spec r ns md)) (snd (route_spec r ns md))]))"
proof -
  have sw: "Switch (mux d) ns md = route_spec r ns md"
    by (rule MuxFor_Switch [OF assms(1,2)]) (use assms(4) in auto)
  have "fst (route_spec r ns md) \<in> insert (DefaultUpstream r) (insert (SystemUpstream r) (rr_Upstream ` set (RRules r)))"
    by (auto simp: route_spec_def find_Some_iff split: option.splits)
  with assms(3) have "fst (route_spec r ns md) = [] \<or> fst (route_spec r ns md) \<in> set known"
    unfolding referentialRules_Nil by blast
  with assms(5) have "fst (route_spec r ns md) \<noteq> [] \<Longrightarrow> map_of (handlers d) (fst (route_spec r ns md)) \<noteq> None"
    unfolding map_of_eq_None_iff by blast
  with Switch_unroutable [of "mux d" ns md] sw show ?thesis
    by (auto simp: Resolve_def Let_def split: prod.splits option.splits)
qed

definition ex_director :: "nat director_state" where
  "ex_director = \<lparr>handlers = [(''local'', 0), (''cloud'', 1)],
     mux = NewMux ''local'' [] [\<lparr>upstream = ''cloud'', rule_ns = \<lparr>m_kind = KPrefix, m_text = ''pay''\<rparr>,
       rule_meta = [(''x-tier'', \<lparr>m_kind = KLiteral, m_text = ''gold''\<rparr>)]\<rparr>]\<rparr>"

theorem Resolve_prepared_witness:
  "Resolve ex_director ''m'' ''orders'' [] = (Inr \<lparr>Upstream = ''local'', Handle = 0\<rparr>, [Decision ''local'' OutcomeDefault])"
proof -
  have "MuxFor (snd (compile_routing ex_routing)) = Inr (mux ex_director)"
    "\<forall>x\<in>set (referentialRules [''local'', ''cloud''] ex_routing). x = []"
    "set [''local'', ''cloud''] \<subseteq> fst ` set (handlers ex_director)"
    "route_spec ex_routing ''orders'' [] = (''local'', OutcomeDefault)"
    "map_of (handlers ex_director) ''local'' = Some 0"
    by code_simp+
  with Resolve_prepared [OF ex_routing_valid, of "[''local'', ''cloud'']" ex_director "''orders''" "[]" "''m''"]
  show ?thesis by simp
qed

text \<open>
  Peeking is invisible. Whatever sequence of destinations the next stages read into, the
  stream that the interceptor hands on returns what the client's own stream would have returned:
  the first message is given back once, a half-close without a message is seen as one, and a
  service that is not forwarded has its stream untouched. For a peeked stream this assumes that
  the first message can be decoded into the first destination.
\<close>

theorem Peek_transparent:
  assumes "PeekInterceptor env st reflector a fm ss = Inr s" "stream_doc env ss"
    and "Allows a (Service fm) \<longrightarrow> first_decodes env ds ss"
  shows "replay_reads env ds s = stream_reads env ds ss"
proof (cases "Allows a (Service fm)")
  case True
  with assms show ?thesis by (intro peeked_reads) auto
next
  case False
  with assms(1) show ?thesis by (auto simp: PeekInterceptor_def Let_def replayed_reads)
qed

definition ex_codec :: "string codec_env" where
  "ex_codec = \<lparr>proto_Marshal = Inr, proto_codec_Unmarshal = Inr, proto_Unmarshal = Inr, bad_dest = EOF, recv_error = id\<rparr>"

definition ex_stream :: "ex_grpc ServerStream" where
  "ex_stream = \<lparr>s_ctx = ex_ctx, s_wire = (\<lambda>n. if n < 2 then Inr (replicate (Suc n) CHR ''x'') else Inl EOF), s_pos = 0\<rparr>"

definition ex_fm :: string where
  "ex_fm = ''/'' @ WorkflowService @ ''/StartWorkflowExecution''"

definition ex_peeked :: "ex_grpc replayStream" where
  "ex_peeked = \<lparr>r_stream = ex_stream\<lparr>s_pos := 1\<rparr>, r_ctx = WithTarget ex_ctx \<lparr>FullName = ex_fm, Namespace = ''payments'', HTTP = None\<rparr>,
     r_first = Some ''x'', r_replayed = False\<rparr>"

lemma ex_allowed: "Allows (NewAllowlist Default) (Service ex_fm)"
proof -
  have "Service ex_fm = WorkflowService"
    using ServiceMethod_path [of "''StartWorkflowExecution''" WorkflowService] by (simp add: Service_def ex_fm_def)
  then show ?thesis by (simp add: Allows_iff set_expand Default_def)
qed

lemma ex_peek: "PeekInterceptor ex_codec ex_status (\<lambda>_ _. ''payments'') (NewAllowlist Default) ex_fm ex_stream = Inr ex_peeked"
  using ex_allowed by (simp add: PeekInterceptor_def stream_RecvMsg_def ex_stream_def ex_peeked_def passthrough_Unmarshal_def Let_def)

theorem Peek_transparent_witness:
  "replay_reads ex_codec [DProto, DFrame, DFrame] ex_peeked = [Inr (Proto ''x''), Inr (Frame ''xx''), Inl EOF]"
proof -
  have "stream_doc ex_codec ex_stream" "first_decodes ex_codec [DProto, DFrame, DFrame] ex_stream"
    by (simp_all add: stream_doc_def first_decodes_def ex_codec_def ex_stream_def passthrough_Unmarshal_def)
  then have "replay_reads ex_codec [DProto, DFrame, DFrame] ex_peeked = stream_reads ex_codec [DProto, DFrame, DFrame] ex_stream"
    by (intro Peek_transparent [OF ex_peek]) auto
  also have "\<dots> = [Inr (Proto ''x''), Inr (Frame ''xx''), Inl EOF]"
    by (simp add: stream_RecvMsg_def ex_stream_def ex_codec_def passthrough_Unmarshal_def)
  finally show ?thesis .
qed

text \<open>
  C8. The gateway routes on what it read. For a forwarded service, the stream that the
  interceptor hands on carries the namespace the reflector found in the first message (none when
  there was no message); the handler asks the director with that namespace and the client's
  metadata; and the chosen handler gets a context whose outgoing namespace is that namespace,
  whatever header the client sent. A service outside the allowlist is answered \<open>Unimplemented\<close>
  with nothing reported and no upstream asked, and every error the handler returns has a status.
\<close>

theorem Handler_routes:
  assumes "PeekInterceptor env st reflector a fm ss = Inr s" "FullMethod api (r_ctx s) = Inr fm" "fm \<noteq> []" "metadata_doc api"
  shows "(if Allows a (Service fm)
     then let ns = (case s_wire ss (s_pos ss) of Inr b \<Rightarrow> reflector fm b | Inl _ \<Rightarrow> []);
              md = (case FromIncomingContext api (grpc_part (s_ctx ss)) of None \<Rightarrow> [] | Some md \<Rightarrow> md)
          in snd (Handler api (Resolve d) a (r_ctx s)) = snd (Resolve d fm ns md)
             \<and> (case fst (Resolve d fm ns md) of
                  Inl err \<Rightarrow> fst (Handler api (Resolve d) a (r_ctx s)) = Inl err
                | Inr t \<Rightarrow> \<exists>ctx. fst (Handler api (Resolve d) a (r_ctx s)) = Inr (t, ctx) \<and> Upstream t \<noteq> []
                             \<and> NamespaceFrom api ctx = ns \<and> TargetFrom ctx = \<lparr>FullName = fm, Namespace = ns, HTTP = None\<rparr>)
     else Handler api (Resolve d) a (r_ctx s) = (Inl (StatusError Unimplemented (''unknown service '' @ Service fm)), []))
    \<and> (\<forall>err. fst (Handler api (Resolve d) a (r_ctx s)) = Inl err \<longrightarrow> GRPCStatus err \<noteq> None)"
proof (cases "Allows a (Service fm)")
  case False
  with assms(2) show ?thesis by (auto simp: Handler_def GRPCStatus_def)
next
  case True
  define ns where "ns = (case s_wire ss (s_pos ss) of Inr b \<Rightarrow> reflector fm b | Inl _ \<Rightarrow> [])"
  have ctx: "r_ctx s = WithTarget (s_ctx ss) \<lparr>FullName = fm, Namespace = ns, HTTP = None\<rparr>"
    using assms(1) True
    by (auto simp: ns_def PeekInterceptor_def stream_RecvMsg_def passthrough_Unmarshal_def Let_def split: sum.splits if_splits)
  then have "TargetFrom (r_ctx s) = \<lparr>FullName = fm, Namespace = ns, HTTP = None\<rparr>" "grpc_part (r_ctx s) = grpc_part (s_ctx ss)"
    by (simp_all add: WithTarget_def TargetFrom_def)
  then show ?thesis
    using True assms(2,3) WithNamespace_from [OF assms(4)] resolver.handler_status [of api d a "r_ctx s"]
      resolver.resolved(1) [of d fm ns]
    by (auto simp: Handler_def Let_def ns_def [symmetric] split: sum.splits prod.splits)
qed

theorem Handler_routes_witness:
  "\<exists>ctx. fst (Handler ex_api (Resolve ex_director) (NewAllowlist Default) (r_ctx ex_peeked)) = Inr (\<lparr>Upstream = ''local'', Handle = 0\<rparr>, ctx)
     \<and> NamespaceFrom ex_api ctx = ''payments''"
proof -
  have "FullMethod ex_api (r_ctx ex_peeked) = Inr ex_fm" "ex_fm \<noteq> []"
    by (simp_all add: FullMethod_def ex_api_def ex_peeked_def ex_ctx_def WithTarget_def ex_fm_def)
  moreover have "fst (Resolve ex_director ex_fm ''payments'' [(NamespaceHeader, [''evil''])]) = Inr \<lparr>Upstream = ''local'', Handle = 0\<rparr>"
    by code_simp
  moreover have "s_wire ex_stream (s_pos ex_stream) = Inr ''x''"
    "FromIncomingContext ex_api (grpc_part (s_ctx ex_stream)) = Some [(NamespaceHeader, [''evil''])]"
    by (simp_all add: ex_stream_def ex_api_def ex_ctx_def)
  ultimately show ?thesis
    using Handler_routes [OF ex_peek _ _ ex_api_doc, of ex_director] ex_allowed by (auto simp: Let_def)
qed

end
