(* ===== verification/Certs.thy ===== *)
theory Certs
  imports Validation
begin

text \<open>
  \<open>pkg/validation/certs\<close>: checks on the certificates and keys of PEM data. PEM, X.509 and the clock
  are outside the repository: an \<open>x509_env\<close> gives \<open>pem.Decode\<close>, \<open>x509.ParseCertificate\<close>,
  \<open>tls.X509KeyPair\<close>, the certificates a pool takes from a bundle, and \<open>sha256\<close>, and the time of a check is an argument. A certificate is a record of what the
  checks read. The three loops over PEM blocks take the length of the data as fuel: \<open>pem_doc\<close> says that
  decoding a block consumes something, and then the fuel is never used up (\<open>parse_loop_fuel\<close>,
  \<open>key_loop_fuel\<close>). A message keeps its fixed text.
\<close>

section \<open>PEM and X.509\<close>

datatype PublicKey = RSA nat | ECDSA nat | OtherKey string

datatype SignatureAlgorithm = SHA1WithRSA | ECDSAWithSHA1 | MD2WithRSA | MD5WithRSA | DSAWithSHA1 | DSAWithSHA256
  | SHA256WithRSA | ECDSAWithSHA256 | OtherAlgorithm nat

record x509Certificate =
  CommonName :: string
  NotBefore :: int
  NotAfter :: int
  c_IsCA :: bool
  RawIssuer :: bytes
  RawSubject :: bytes
  c_SignatureAlgorithm :: SignatureAlgorithm
  c_PublicKey :: PublicKey

record pem_block =
  b_Type :: string
  b_Bytes :: bytes

record x509_env =
  pem_Decode :: "bytes \<Rightarrow> (pem_block \<times> bytes) option"
  ParseCertificate :: "bytes \<Rightarrow> x509Certificate result"
  X509KeyPair :: "bytes \<Rightarrow> bytes \<Rightarrow> bytes list result"
  AppendCertsFromPEM :: "bytes \<Rightarrow> x509Certificate list"
  sha256 :: "bytes \<Rightarrow> bytes"

definition pem_doc :: "x509_env \<Rightarrow> bool" where
  "pem_doc x \<longleftrightarrow> (\<forall>data block rest. pem_Decode x data = Some (block, rest) \<longrightarrow> length rest < length data)"

section \<open>Reading PEM data\<close>

fun parse_loop :: "x509_env \<Rightarrow> nat \<Rightarrow> bytes \<Rightarrow> x509Certificate list \<Rightarrow> x509Certificate list result" where
  "parse_loop x 0 rest parsed = Inr parsed"
| "parse_loop x (Suc n) rest parsed =
     (if rest = [] then Inr parsed
      else case pem_Decode x rest of
        None \<Rightarrow> Inr parsed
      | Some (block, rest) \<Rightarrow>
          (if b_Type block \<noteq> ''CERTIFICATE'' then parse_loop x n rest parsed
           else case ParseCertificate x (b_Bytes block) of
             Inl err \<Rightarrow> Inl (WrapError (''failed to parse certificate: '' @ Error err) [err])
           | Inr cert \<Rightarrow> parse_loop x n rest (parsed @ [cert])))"

definition parsePEM :: "x509_env \<Rightarrow> bytes \<Rightarrow> x509Certificate list result" where
  "parsePEM x data =
     (case parse_loop x (length data) data [] of
        Inl err \<Rightarrow> Inl err
      | Inr parsed \<Rightarrow> if parsed = [] then Inl (ErrorString ''no certificates found in PEM data'') else Inr parsed)"

fun key_loop :: "x509_env \<Rightarrow> nat \<Rightarrow> bytes \<Rightarrow> bool" where
  "key_loop x 0 rest = False"
| "key_loop x (Suc n) rest =
     (if rest = [] then False
      else case pem_Decode x rest of
        None \<Rightarrow> False
      | Some (block, r) \<Rightarrow> if HasSuffix (b_Type block) ''PRIVATE KEY'' then True else key_loop x n r)"

definition ValidatePEMKey :: "x509_env \<Rightarrow> bytes Check" where
  "ValidatePEMKey x data = (if key_loop x (length data) data then None else Some (Plain ''no PRIVATE KEY block found in PEM data''))"

text \<open>A failure that is a \<open>validation.Error\<close>, or wraps one, is recorded as it is; any other under its
  own field.\<close>

definition recorded :: "x509Certificate \<Rightarrow> verr \<Rightarrow> VError" where
  "recorded cert err =
     (case err of
        AsError ve \<Rightarrow> ve
      | AsErrors (ve # _) \<Rightarrow> ve
      | AsErrors [] \<Rightarrow> \<lparr>Subject = CommonName cert, Field = ''unknown'', VMessage = []\<rparr>
      | Plain msg \<Rightarrow> \<lparr>Subject = CommonName cert, Field = ''unknown'', VMessage = msg\<rparr>)"

definition ValidatePEM :: "x509_env \<Rightarrow> x509Certificate Check list \<Rightarrow> bytes Check" where
  "ValidatePEM x checks pemData =
     (if checks = [] then None
      else case parsePEM x pemData of
        Inl err \<Rightarrow> Some (Plain (Error err))
      | Inr parsed \<Rightarrow>
          (let errs = concat (map (\<lambda>cert. concat (map (\<lambda>check. case check cert of None \<Rightarrow> [] | Some vErr \<Rightarrow> [recorded cert vErr]) checks)) parsed)
           in if errs = [] then None else Some (AsErrors errs)))"

type_synonym file_system = "string \<Rightarrow> bytes result"

definition ValidatePEMFile :: "x509_env \<Rightarrow> file_system \<Rightarrow> string \<Rightarrow> x509Certificate Check list \<Rightarrow> verr option" where
  "ValidatePEMFile x fs path checks =
     (case fs path of
        Inl err \<Rightarrow> Some (Plain (''failed to read PEM file: '' @ Error err))
      | Inr data \<Rightarrow> ValidatePEM x checks data)"

definition ValidatePEMKeyFile :: "x509_env \<Rightarrow> file_system \<Rightarrow> string \<Rightarrow> verr option" where
  "ValidatePEMKeyFile x fs path =
     (case fs path of
        Inl err \<Rightarrow> Some (Plain (''failed to read PEM key file: '' @ Error err))
      | Inr data \<Rightarrow> ValidatePEMKey x data)"

section \<open>The checks\<close>

definition NotExpired :: "int \<Rightarrow> x509Certificate Check" where
  "NotExpired now cert =
     (if now < NotBefore cert then Some (AsError \<lparr>Subject = CommonName cert, Field = ''expiry'', VMessage = ''certificate not yet valid''\<rparr>)
      else if NotAfter cert < now then Some (AsError \<lparr>Subject = CommonName cert, Field = ''expiry'', VMessage = ''certificate expired''\<rparr>)
      else None)"

definition IsCA :: "x509Certificate Check" where
  "IsCA cert =
     (if \<not> c_IsCA cert then Some (AsError \<lparr>Subject = CommonName cert, Field = ''is_ca'', VMessage = ''certificate is not a CA''\<rparr>) else None)"

definition weakAlgorithms :: "SignatureAlgorithm list" where
  "weakAlgorithms = [SHA1WithRSA, ECDSAWithSHA1, MD2WithRSA, MD5WithRSA, DSAWithSHA1, DSAWithSHA256]"

datatype suite = ECDHE_RSA_AES_128_CBC_SHA | ECDHE_RSA_AES_256_CBC_SHA | ECDHE_RSA_AES_128_CBC_SHA256
  | ECDHE_RSA_AES_128_GCM_SHA256 | ECDHE_RSA_AES_256_GCM_SHA384 | ECDHE_RSA_CHACHA20_POLY1305_SHA256
  | ECDHE_ECDSA_AES_128_CBC_SHA | ECDHE_ECDSA_AES_256_CBC_SHA | ECDHE_ECDSA_AES_128_CBC_SHA256
  | ECDHE_ECDSA_AES_128_GCM_SHA256 | ECDHE_ECDSA_AES_256_GCM_SHA384 | ECDHE_ECDSA_CHACHA20_POLY1305_SHA256
  | OtherSuite nat

definition suiteKeyTypes :: "(suite \<times> string) list" where
  "suiteKeyTypes =
     [(ECDHE_RSA_AES_128_CBC_SHA, ''rsa''), (ECDHE_RSA_AES_256_CBC_SHA, ''rsa''), (ECDHE_RSA_AES_128_CBC_SHA256, ''rsa''),
      (ECDHE_RSA_AES_128_GCM_SHA256, ''rsa''), (ECDHE_RSA_AES_256_GCM_SHA384, ''rsa''), (ECDHE_RSA_CHACHA20_POLY1305_SHA256, ''rsa''),
      (ECDHE_ECDSA_AES_128_CBC_SHA, ''ecdsa''), (ECDHE_ECDSA_AES_256_CBC_SHA, ''ecdsa''), (ECDHE_ECDSA_AES_128_CBC_SHA256, ''ecdsa''),
      (ECDHE_ECDSA_AES_128_GCM_SHA256, ''ecdsa''), (ECDHE_ECDSA_AES_256_GCM_SHA384, ''ecdsa''), (ECDHE_ECDSA_CHACHA20_POLY1305_SHA256, ''ecdsa'')]"

definition keyTypeOf :: "PublicKey \<Rightarrow> string" where
  "keyTypeOf pub = (case pub of RSA _ \<Rightarrow> ''rsa'' | ECDSA _ \<Rightarrow> ''ecdsa'' | OtherKey _ \<Rightarrow> ''unknown'')"

definition SecureAlgorithm :: "suite list \<Rightarrow> x509Certificate Check" where
  "SecureAlgorithm allowedSuites cert =
     (let selfIssued = (RawIssuer cert = RawSubject cert)
      in if \<not> selfIssued \<and> List.member weakAlgorithms (c_SignatureAlgorithm cert)
         then Some (AsError \<lparr>Subject = CommonName cert, Field = ''signature_algorithm'', VMessage = ''weak signature algorithm''\<rparr>)
         else if allowedSuites = [] then None
         else let allowed = List.map_filter (map_of suiteKeyTypes) allowedSuites
              in if allowed = [] then None
                 else if \<not> List.member allowed (keyTypeOf (c_PublicKey cert))
                 then Some (AsError \<lparr>Subject = CommonName cert, Field = ''key_type'', VMessage = ''incompatible with allowed cipher suites''\<rparr>)
                 else None)"

definition minRSAKeyBits :: nat where "minRSAKeyBits = 2048"
definition minECDSAKeyBits :: nat where "minECDSAKeyBits = 256"

definition SufficientKeySize :: "x509Certificate Check" where
  "SufficientKeySize cert =
     (case c_PublicKey cert of
        RSA bits \<Rightarrow> if bits < minRSAKeyBits
          then Some (AsError \<lparr>Subject = CommonName cert, Field = ''key_size'', VMessage = ''RSA key size below minimum''\<rparr>) else None
      | ECDSA bits \<Rightarrow> if bits < minECDSAKeyBits
          then Some (AsError \<lparr>Subject = CommonName cert, Field = ''key_size'', VMessage = ''ECDSA key size below minimum''\<rparr>) else None
      | OtherKey _ \<Rightarrow> Some (AsError \<lparr>Subject = CommonName cert, Field = ''key_type'', VMessage = ''unsupported public key type''\<rparr>))"

section \<open>The loops end\<close>

lemma parse_loop_fuel:
  "pem_doc x \<Longrightarrow> length data \<le> n \<Longrightarrow> parse_loop x n data parsed = parse_loop x (length data) data parsed"
proof (induction n arbitrary: data parsed rule: less_induct)
  case (less n)
  show ?case
  proof (cases data)
    case (Cons c cs)
    then obtain n' where n: "n = Suc n'" using less.prems by (cases n) auto
    have step: "parse_loop x n' rest p = parse_loop x (length cs) rest p" if "pem_Decode x data = Some (block, rest)" for block rest p
    proof -
      have l: "length rest \<le> length cs" "length rest \<le> n'" using less.prems that Cons n by (fastforce simp: pem_doc_def)+
      have "parse_loop x n' rest p = parse_loop x (length rest) rest p" using less.IH [of n' rest] l n less.prems(1) by simp
      moreover have "parse_loop x (length cs) rest p = parse_loop x (length rest) rest p"
        using less.IH [of "length cs" rest] l less.prems Cons n by simp
      ultimately show ?thesis by simp
    qed
    show ?thesis using n Cons step by (auto split: option.splits sum.splits)
  qed (cases n; simp)
qed

lemma key_loop_fuel: "pem_doc x \<Longrightarrow> length data \<le> n \<Longrightarrow> key_loop x n data = key_loop x (length data) data"
proof (induction n arbitrary: data rule: less_induct)
  case (less n)
  show ?case
  proof (cases data)
    case (Cons c cs)
    then obtain n' where n: "n = Suc n'" using less.prems by (cases n) auto
    have step: "key_loop x n' rest = key_loop x (length cs) rest" if "pem_Decode x data = Some (block, rest)" for block rest
    proof -
      have l: "length rest \<le> length cs" "length rest \<le> n'" using less.prems that Cons n by (fastforce simp: pem_doc_def)+
      then show ?thesis using less.IH [of n' rest] less.IH [of "length cs" rest] less.prems Cons n by simp
    qed
    show ?thesis using n Cons step by (auto split: option.splits)
  qed (cases n; simp)
qed

section \<open>What the checks accept\<close>

definition in_force :: "int \<Rightarrow> x509Certificate \<Rightarrow> bool" where
  "in_force now cert \<longleftrightarrow> NotBefore cert \<le> now \<and> now \<le> NotAfter cert"

definition strong_key :: "PublicKey \<Rightarrow> bool" where
  "strong_key pub \<longleftrightarrow> (case pub of RSA bits \<Rightarrow> 2048 \<le> bits | ECDSA bits \<Rightarrow> 256 \<le> bits | OtherKey _ \<Rightarrow> False)"

definition strong_signature :: "x509Certificate \<Rightarrow> bool" where
  "strong_signature cert \<longleftrightarrow> RawIssuer cert = RawSubject cert \<or> c_SignatureAlgorithm cert \<notin> set weakAlgorithms"

lemma check_None [simp]:
  "NotExpired now cert = None \<longleftrightarrow> in_force now cert"
  "IsCA cert = None \<longleftrightarrow> c_IsCA cert"
  "SufficientKeySize cert = None \<longleftrightarrow> strong_key (c_PublicKey cert)"
  "SecureAlgorithm [] cert = None \<longleftrightarrow> strong_signature cert"
  by (auto simp: NotExpired_def in_force_def IsCA_def SufficientKeySize_def strong_key_def minRSAKeyBits_def minECDSAKeyBits_def
      SecureAlgorithm_def strong_signature_def Let_def split: PublicKey.splits)

lemma SecureAlgorithm_None:
  assumes "''rsa'' \<in> set (List.map_filter (map_of suiteKeyTypes) suites)" "''ecdsa'' \<in> set (List.map_filter (map_of suiteKeyTypes) suites)"
  shows "SecureAlgorithm suites cert = None \<and> strong_key (c_PublicKey cert) \<longleftrightarrow> strong_signature cert \<and> strong_key (c_PublicKey cert)"
  using assms by (auto simp: SecureAlgorithm_def strong_signature_def strong_key_def keyTypeOf_def Let_def split: PublicKey.splits)

lemma ValidatePEM_None:
  assumes "checks \<noteq> []"
  shows "ValidatePEM x checks data = None \<longleftrightarrow> (\<exists>certs. parsePEM x data = Inr certs \<and> (\<forall>cert\<in>set certs. \<forall>check\<in>set checks. check cert = None))"
proof (cases "parsePEM x data")
  case (Inr certs)
  have "(case check cert of None \<Rightarrow> [] | Some vErr \<Rightarrow> [recorded cert vErr]) = [] \<longleftrightarrow> check cert = None" for check cert
    by (simp split: option.split)
  then show ?thesis using assms Inr by (simp add: ValidatePEM_def Let_def)
qed (use assms in \<open>simp add: ValidatePEM_def\<close>)

lemma ValidatePEM_honest [simp]: "honest (ValidatePEM x checks data)"
  by (auto simp: ValidatePEM_def honest_def Let_def toErrors_def split: sum.splits if_splits)

lemma ValidatePEMKey_honest [simp]: "honest (ValidatePEMKey x data)"
  by (simp add: ValidatePEMKey_def)

end
