(* ===== verification/Creds.thy ===== *)
theory Creds
  imports Certs Transition "HOL-Library.List_Lexorder" "HOL-Library.Char_ord"
begin

text \<open>
  \<open>internal/transport/creds\<close>: the TLS credentials of dialers and listeners, the certificate material they
  share, and the reloader that polls it. Materials are shared by pointer, so they live in a heap: a
  credential holds an address, and a connection made after a reload sees the new material. The
  files are a function of the moment, the argument \<open>fs\<close> of every operation that reads them, and so
  is the clock. There is one reloader; what it reports and logs is a list of events, and the polling
  goroutine is the operation \<open>Reloader_tick\<close>, enabled while it runs. An error is a \<open>verr\<close>; where the code wraps
  another error its text is kept.
\<close>

section \<open>options.go and resolve.go\<close>

datatype Mode = ModeInsecure | ModeServerTLS | ModeSystemTLS | ModeCustomCA | ModeMutualTLS

record creds_options =
  insecure :: bool
  o_ca :: string
  o_cert :: string
  o_key :: string
  o_reloader :: bool
  o_credential :: string

type_synonym option_fn = "creds_options \<Rightarrow> creds_options"

definition Insecure :: option_fn where
  "Insecure o1 = o1\<lparr>insecure := True\<rparr>"

definition WithCA :: "string \<Rightarrow> option_fn" where
  "WithCA caFile o1 = o1\<lparr>o_ca := caFile\<rparr>"

definition WithCertificate :: "string \<Rightarrow> string \<Rightarrow> option_fn" where
  "WithCertificate certFile keyFile o1 = o1\<lparr>o_cert := certFile, o_key := keyFile\<rparr>"

text \<open>\<open>present\<close> says that the reloader is not nil.\<close>

definition WithReloader :: "bool \<Rightarrow> string \<Rightarrow> option_fn" where
  "WithReloader present cred o1 = (if \<not> present then o1 else o1\<lparr>o_reloader := True, o_credential := cred\<rparr>)"

definition newOptions :: "option_fn list \<Rightarrow> creds_options" where
  "newOptions opts = fold (\<lambda>opt o1. opt o1) opts
     \<lparr>insecure = False, o_ca = [], o_cert = [], o_key = [], o_reloader = False, o_credential = []\<rparr>"

definition errKeyAndCertRequired :: verr where
  "errKeyAndCertRequired = AsError \<lparr>Subject = [], Field = ''cert'', VMessage = ''certificate and key must be set together''\<rparr>"

definition validateClient :: "creds_options \<Rightarrow> verr option" where
  "validateClient o1 =
     (if insecure o1 then None
      else if (o_cert o1 = []) \<noteq> (o_key o1 = []) then Some errKeyAndCertRequired
      else if (o_cert o1 \<noteq> [] \<or> o_key o1 \<noteq> []) \<and> o_ca o1 = []
      then Some (AsError \<lparr>Subject = [], Field = ''ca'', VMessage = ''certificate authority is required when a client certificate is set''\<rparr>)
      else None)"

definition validateServer :: "creds_options \<Rightarrow> verr option" where
  "validateServer o1 =
     (if insecure o1 then None
      else if (o_cert o1 = []) \<noteq> (o_key o1 = []) then Some errKeyAndCertRequired
      else if o_cert o1 = [] \<or> o_key o1 = []
      then Some (AsError \<lparr>Subject = [], Field = ''cert'', VMessage = ''a server certificate is required''\<rparr>)
      else None)"

definition resolveServer :: "creds_options \<Rightarrow> Mode" where
  "resolveServer o1 = (if insecure o1 then ModeInsecure else if o_ca o1 \<noteq> [] then ModeMutualTLS else ModeServerTLS)"

definition resolveClient :: "creds_options \<Rightarrow> Mode" where
  "resolveClient o1 =
     (if insecure o1 then ModeInsecure
      else if o_cert o1 \<noteq> [] \<or> o_key o1 \<noteq> [] then ModeMutualTLS
      else if o_ca o1 \<noteq> [] then ModeCustomCA
      else ModeSystemTLS)"

section \<open>validate.go\<close>

definition preferredCipherSuites :: "suite list" where
  "preferredCipherSuites = [ECDHE_RSA_AES_256_GCM_SHA384, ECDHE_RSA_AES_128_GCM_SHA256, ECDHE_ECDSA_AES_256_GCM_SHA384, ECDHE_ECDSA_AES_128_GCM_SHA256]"

definition leafChecks :: "x509_env \<Rightarrow> int \<Rightarrow> bytes Check" where
  "leafChecks x now data = ValidatePEM x [NotExpired now, SecureAlgorithm preferredCipherSuites, SufficientKeySize] data"

definition caChecks :: "x509_env \<Rightarrow> int \<Rightarrow> bytes Check" where
  "caChecks x now data = ValidatePEM x [NotExpired now, IsCA, SecureAlgorithm [], SufficientKeySize] data"

definition trustAnchorChecks :: "x509_env \<Rightarrow> int \<Rightarrow> bytes Check" where
  "trustAnchorChecks x now data = ValidatePEM x [NotExpired now, SecureAlgorithm [], SufficientKeySize] data"

record files =
  f_cert :: bytes
  f_key :: bytes
  f_ca :: bytes

definition validateBytes :: "x509_env \<Rightarrow> int \<Rightarrow> Mode \<Rightarrow> files \<Rightarrow> verr option" where
  "validateBytes x now mode f =
     (case mode of
        ModeCustomCA \<Rightarrow> Validate [] [FieldRule ''ca'' (f_ca f) [trustAnchorChecks x now]]
      | ModeServerTLS \<Rightarrow> Validate [] [FieldRule ''cert'' (f_cert f) [leafChecks x now], FieldRule ''key'' (f_key f) [ValidatePEMKey x]]
      | ModeMutualTLS \<Rightarrow> Validate [] [FieldRule ''cert'' (f_cert f) [leafChecks x now], FieldRule ''key'' (f_key f) [ValidatePEMKey x],
                                       FieldRule ''ca'' (f_ca f) [caChecks x now]]
      | _ \<Rightarrow> None)"

section \<open>material.go\<close>

definition read_file :: "file_system \<Rightarrow> string \<Rightarrow> string \<Rightarrow> string \<Rightarrow> VErrors \<times> bytes" where
  "read_file fs field path msg =
     (case fs path of
        Inl err \<Rightarrow> ([\<lparr>Subject = [], Field = field, VMessage = msg @ '': '' @ Error err\<rparr>], [])
      | Inr data \<Rightarrow> ([], data))"

definition readFiles :: "file_system \<Rightarrow> creds_options \<Rightarrow> Mode \<Rightarrow> verr + files" where
  "readFiles fs o1 mode =
     (let (e1, cert) = (if mode = ModeServerTLS \<or> mode = ModeMutualTLS then read_file fs ''cert'' (o_cert o1) ''failed to read PEM file'' else ([], []));
          (e2, key) = (if mode = ModeServerTLS \<or> mode = ModeMutualTLS then read_file fs ''key'' (o_key o1) ''failed to read PEM key file'' else ([], []));
          (e3, ca) = (if mode = ModeCustomCA \<or> mode = ModeMutualTLS then read_file fs ''ca'' (o_ca o1) ''failed to read PEM file'' else ([], []));
          errs = e1 @ e2 @ e3
      in if errs \<noteq> [] then Inl (AsErrors errs) else Inr \<lparr>f_cert = cert, f_key = key, f_ca = ca\<rparr>)"

definition validateMaterial :: "x509_env \<Rightarrow> file_system \<Rightarrow> int \<Rightarrow> creds_options \<Rightarrow> Mode \<Rightarrow> verr option" where
  "validateMaterial x fs now o1 mode =
     (case readFiles fs o1 mode of Inl err \<Rightarrow> Some err | Inr f \<Rightarrow> validateBytes x now mode f)"

text \<open>A certificate to present is its chain and its parsed leaf, a pool the certificates in it. A zero
  time is \<open>None\<close>.\<close>

record snapshot =
  s_cert :: "(bytes list \<times> x509Certificate) option"
  s_pool :: "x509Certificate list option"
  s_sum :: bytes
  certNotAfter :: "int option"
  caNotAfter :: "int option"

text \<open>The length of a file as a big-endian \<open>uint64\<close>.\<close>

definition be64 :: "nat \<Rightarrow> bytes" where
  "be64 n = map (\<lambda>i. char_of (n div 256 ^ i)) [7, 6, 5, 4, 3, 2, 1, 0]"

fun le_bytes :: "nat \<Rightarrow> nat \<Rightarrow> bytes" where
  "le_bytes 0 n = []"
| "le_bytes (Suc k) n = char_of n # (if n < 256 then replicate k (char_of (0 :: nat)) else le_bytes k (n div 256))"

lemma le_bytes_eq: "le_bytes k n = map (\<lambda>i. char_of (n div 256 ^ i)) [0..<k]"
proof (induction k arbitrary: n)
  case (Suc k)
  have "[0..<Suc k] = 0 # map Suc [0..<k]" by (simp add: upt_conv_Cons map_Suc_upt del: upt_Suc)
  moreover have "map (\<lambda>i. char_of (n div 256 ^ Suc i)) [0..<k] = replicate k (char_of (0 :: nat))" if "n < 256"
    using that by (intro nth_equalityI) (auto simp: div_mult2_eq)
  ultimately show ?case using Suc by (simp add: div_mult2_eq comp_def del: upt_Suc)
qed simp

lemma be64_le_bytes [code]: "be64 n = rev (le_bytes 8 n)"
proof -
  have u: "rev [0..<8] = [7, 6, 5, 4, 3, 2, 1, 0 :: nat]" by (simp add: upt_rec)
  show ?thesis unfolding le_bytes_eq be64_def rev_map u ..
qed

definition encodeFiles :: "files \<Rightarrow> bytes" where
  "encodeFiles f = concat (map (\<lambda>b. be64 (length b) @ b) [f_cert f, f_key f, f_ca f])"

definition sumFiles :: "x509_env \<Rightarrow> files \<Rightarrow> bytes" where
  "sumFiles x f = sha256 x (encodeFiles f)"

fun earliest_loop :: "x509_env \<Rightarrow> nat \<Rightarrow> bytes \<Rightarrow> int option \<Rightarrow> verr + int option" where
  "earliest_loop x 0 rest earliest = Inr earliest"
| "earliest_loop x (Suc n) rest earliest =
     (if rest = [] then Inr earliest
      else case pem_Decode x rest of
        None \<Rightarrow> Inr earliest
      | Some (block, rest) \<Rightarrow>
          (if b_Type block \<noteq> ''CERTIFICATE'' then earliest_loop x n rest earliest
           else case ParseCertificate x (b_Bytes block) of
             Inl err \<Rightarrow> Inl (Plain (''failed to parse CA certificate: '' @ Error err))
           | Inr cert \<Rightarrow>
               earliest_loop x n rest
                 (case earliest of None \<Rightarrow> Some (NotAfter cert)
                  | Some e \<Rightarrow> if NotAfter cert < e then Some (NotAfter cert) else Some e)))"

definition earliestNotAfter :: "x509_env \<Rightarrow> bytes \<Rightarrow> verr + int" where
  "earliestNotAfter x bundle =
     (case earliest_loop x (length bundle) bundle None of
        Inl err \<Rightarrow> Inl err
      | Inr None \<Rightarrow> Inl (Plain ''failed to parse CA file: no certificates found'')
      | Inr (Some t) \<Rightarrow> Inr t)"

text \<open>\<open>X509KeyPair\<close> never returns an empty chain; here its first certificate would be the empty one.\<close>

definition load_pair :: "x509_env \<Rightarrow> files \<Rightarrow> verr + (bytes list \<times> x509Certificate)" where
  "load_pair x f =
     (case X509KeyPair x (f_cert f) (f_key f) of
        Inl err \<Rightarrow> Inl (Plain (''failed to load key pair: '' @ Error err))
      | Inr chain \<Rightarrow>
          (case ParseCertificate x (case chain of [] \<Rightarrow> [] | c # _ \<Rightarrow> c) of
             Inl err \<Rightarrow> Inl (Plain (''failed to parse certificate: '' @ Error err))
           | Inr leaf \<Rightarrow> Inr (chain, leaf)))"

definition load_pool :: "x509_env \<Rightarrow> files \<Rightarrow> verr + (x509Certificate list \<times> int)" where
  "load_pool x f =
     (let pool = AppendCertsFromPEM x (f_ca f)
      in if pool = [] then Inl (Plain ''failed to parse CA file: no certificates found'')
         else case earliestNotAfter x (f_ca f) of Inl err \<Rightarrow> Inl err | Inr t \<Rightarrow> Inr (pool, t))"

definition parseMaterial :: "x509_env \<Rightarrow> int \<Rightarrow> Mode \<Rightarrow> files \<Rightarrow> verr + snapshot" where
  "parseMaterial x now mode f =
     (case validateBytes x now mode f of
        Some err \<Rightarrow> Inl err
      | None \<Rightarrow>
          (let s = \<lparr>s_cert = None, s_pool = None, s_sum = sumFiles x f, certNotAfter = None, caNotAfter = None\<rparr>
           in case (if mode = ModeServerTLS \<or> mode = ModeMutualTLS
                    then map_sum id (\<lambda>(chain, leaf). s\<lparr>s_cert := Some (chain, leaf), certNotAfter := Some (NotAfter leaf)\<rparr>) (load_pair x f)
                    else Inr s) of
                Inl err \<Rightarrow> Inl err
              | Inr s \<Rightarrow>
                  (if mode = ModeCustomCA \<or> mode = ModeMutualTLS
                   then map_sum id (\<lambda>(pool, t). s\<lparr>s_pool := Some pool, caNotAfter := Some t\<rparr>) (load_pool x f)
                   else Inr s)))"

record material =
  m_opts :: creds_options
  m_mode :: Mode
  once :: bool
  loadErr :: "verr option"
  cur :: "snapshot option"
  failed :: bool

record reloadResult =
  attempted :: bool
  r_err :: "verr option"
  r_snap :: "snapshot option"

definition reload_fail :: "material \<Rightarrow> verr \<Rightarrow> reloadResult \<times> material" where
  "reload_fail m err = (\<lparr>attempted = True, r_err = Some err, r_snap = cur m\<rparr>, m\<lparr>failed := True\<rparr>)"

definition reload :: "x509_env \<Rightarrow> file_system \<Rightarrow> int \<Rightarrow> material \<Rightarrow> reloadResult \<times> material" where
  "reload x fs now m =
     (case readFiles fs (m_opts m) (m_mode m) of
        Inl err \<Rightarrow> reload_fail m err
      | Inr f \<Rightarrow>
          (if cur m \<noteq> None \<and> \<not> failed m \<and> map_option s_sum (cur m) = Some (sumFiles x f)
           then (\<lparr>attempted = False, r_err = None, r_snap = cur m\<rparr>, m)
           else case parseMaterial x now (m_mode m) f of
             Inl err \<Rightarrow> reload_fail m err
           | Inr s \<Rightarrow> (\<lparr>attempted = True, r_err = None, r_snap = Some s\<rparr>, m\<lparr>cur := Some s, failed := False\<rparr>)))"

definition load :: "x509_env \<Rightarrow> file_system \<Rightarrow> int \<Rightarrow> material \<Rightarrow> verr option \<times> material" where
  "load x fs now m =
     (let m1 = (if once m then m
                else case reload x fs now m of (res, m') \<Rightarrow> m'\<lparr>once := True, loadErr := r_err res\<rparr>)
      in (if cur m1 \<noteq> None then None else loadErr m1, m1))"

section \<open>reloader.go\<close>

datatype materialKey = MaterialKey Mode string string string

record reload_entry =
  e_m :: nat
  credentials :: "string list"
  lastFailure :: string

text \<open>The materials, the entries of the reloader, whether it has been started and whether its loop runs.\<close>

record creds_world =
  heap :: "material list"
  entries :: "(materialKey \<times> reload_entry) list"
  started :: bool
  polling :: bool

datatype creds_event = Attempt string "verr option" | NotAfter_report string string int
  | LogFailed string string verr | LogReloaded string string

definition NewReloader :: creds_world where
  "NewReloader = \<lparr>heap = [], entries = [], started = False, polling = False\<rparr>"

definition new_material :: "creds_options \<Rightarrow> Mode \<Rightarrow> material" where
  "new_material o1 mode = \<lparr>m_opts = o1, m_mode = mode, once = False, loadErr = None, cur = None, failed = False\<rparr>"

definition Reloader_material :: "string \<Rightarrow> creds_options \<Rightarrow> Mode \<Rightarrow> creds_world \<Rightarrow> nat \<times> creds_world" where
  "Reloader_material cred o1 mode w =
     (let key = MaterialKey mode (o_ca o1) (o_cert o1) (o_key o1);
          (e, w) = (case map_of (entries w) key of
                      Some e \<Rightarrow> (e, w)
                    | None \<Rightarrow> (\<lparr>e_m = length (heap w), credentials = [], lastFailure = []\<rparr>, w\<lparr>heap := heap w @ [new_material o1 mode]\<rparr>));
          e = (if List.member (credentials e) cred then e else e\<lparr>credentials := credentials e @ [cred]\<rparr>)
      in (e_m e, w\<lparr>entries := AList.update key e (entries w)\<rparr>))"

definition reads_files :: "Mode \<Rightarrow> bool" where
  "reads_files mode \<longleftrightarrow> mode = ModeCustomCA \<or> mode = ModeMutualTLS \<or> mode = ModeServerTLS"

definition newMaterial :: "creds_options \<Rightarrow> Mode \<Rightarrow> creds_world \<Rightarrow> nat \<times> creds_world" where
  "newMaterial o1 mode w =
     (if reads_files mode \<and> o_reloader o1 then Reloader_material (o_credential o1) o1 mode w
      else (length (heap w), w\<lparr>heap := heap w @ [new_material o1 mode]\<rparr>))"

fun join_comma :: "string list \<Rightarrow> string" where
  "join_comma [] = []"
| "join_comma [s] = s"
| "join_comma (s # ss) = s @ '','' @ join_comma ss"

text \<open>Entries with equal labels keep the order of their registration; the code leaves it open.\<close>

definition labelledEntries :: "creds_world \<Rightarrow> (materialKey \<times> string) list" where
  "labelledEntries w = sort_key snd (map (\<lambda>(key, e). (key, join_comma (sort (credentials e)))) (entries w))"

definition configuredFiles :: "creds_options \<Rightarrow> Mode \<Rightarrow> string" where
  "configuredFiles o1 mode =
     (case mode of
        ModeCustomCA \<Rightarrow> o_ca o1
      | ModeServerTLS \<Rightarrow> o_cert o1 @ '','' @ o_key o1
      | ModeMutualTLS \<Rightarrow> o_cert o1 @ '','' @ o_key o1 @ '','' @ o_ca o1
      | _ \<Rightarrow> [])"

definition reportNotAfter :: "string \<Rightarrow> snapshot option \<Rightarrow> creds_event list" where
  "reportNotAfter label os =
     (case os of
        None \<Rightarrow> []
      | Some s \<Rightarrow>
          (case certNotAfter s of None \<Rightarrow> [] | Some t \<Rightarrow> [NotAfter_report label ''cert'' t])
          @ (case caNotAfter s of None \<Rightarrow> [] | Some t \<Rightarrow> [NotAfter_report label ''ca'' t]))"

text \<open>\<open>load\<close> on the material at an address.\<close>

definition load_at :: "x509_env \<Rightarrow> file_system \<Rightarrow> int \<Rightarrow> nat \<Rightarrow> creds_world \<Rightarrow> verr option \<times> creds_world" where
  "load_at x fs now a w = (case load x fs now (heap w ! a) of (err, m) \<Rightarrow> (err, w\<lparr>heap := (heap w)[a := m]\<rparr>))"

text \<open>The text of a \<open>verr\<close> (its \<open>Error\<close> method).\<close>

definition verr_text :: "verr \<Rightarrow> string" where
  "verr_text err =
     (let line = (\<lambda>e. Subject e @ '': '' @ Field e @ '': '' @ VMessage e)
      in case err of Plain m \<Rightarrow> m | AsError e \<Rightarrow> line e | AsErrors es \<Rightarrow> join_lines (map line es))"

fun start_loop :: "x509_env \<Rightarrow> file_system \<Rightarrow> int \<Rightarrow> (materialKey \<times> string) list \<Rightarrow> creds_world \<Rightarrow> verr option \<times> creds_event list \<times> creds_world" where
  "start_loop x fs now [] w = (None, [], w)"
| "start_loop x fs now ((key, label) # les) w =
     (case map_of (entries w) key of
        None \<Rightarrow> start_loop x fs now les w
      | Some e \<Rightarrow>
          (case load_at x fs now (e_m e) w of
             (Some err, w1) \<Rightarrow> (Some (Plain (''creds: failed to load TLS material for '' @ label @ '': '' @ verr_text err)), [], w1)
           | (None, w1) \<Rightarrow>
               (case start_loop x fs now les w1 of (res, evs, w2) \<Rightarrow> (res, reportNotAfter label (cur (heap w1 ! e_m e)) @ evs, w2))))"

definition Reloader_Start :: "x509_env \<Rightarrow> file_system \<Rightarrow> int \<Rightarrow> creds_world \<Rightarrow> verr option \<times> creds_event list \<times> creds_world" where
  "Reloader_Start x fs now w =
     (if started w then (Some (Plain ''creds: reloader already started''), [], w)
      else case start_loop x fs now (labelledEntries w) w of
        (Some err, evs, w1) \<Rightarrow> (Some err, evs, w1)
      | (None, evs, w1) \<Rightarrow> (None, evs, w1\<lparr>started := True, polling := True\<rparr>))"

text \<open>\<open>Stop\<close>: \<open>res\<close> is what ends the wait, nil for the exit of the loop, otherwise the context's error.\<close>

definition Reloader_Stop :: "verr option \<Rightarrow> creds_world \<Rightarrow> verr option \<times> creds_world" where
  "Reloader_Stop res w = (if \<not> polling w then (None, w) else (res, w\<lparr>polling := False\<rparr>))"

definition tick_entry :: "x509_env \<Rightarrow> file_system \<Rightarrow> int \<Rightarrow> materialKey \<Rightarrow> string \<Rightarrow> reload_entry \<Rightarrow> creds_world \<Rightarrow> creds_event list \<times> creds_world" where
  "tick_entry x fs now key label e w =
     (case reload x fs now (heap w ! e_m e) of
        (res, m) \<Rightarrow>
          (let w1 = w\<lparr>heap := (heap w)[e_m e := m]\<rparr>
           in if \<not> attempted res then ([], w1)
              else let fls = configuredFiles (m_opts m) (m_mode m)
                   in case r_err res of
                        Some err \<Rightarrow>
                          (if verr_text err \<noteq> lastFailure e
                           then ([Attempt label (Some err), LogFailed label fls err],
                                 w1\<lparr>entries := AList.update key (e\<lparr>lastFailure := verr_text err\<rparr>) (entries w1)\<rparr>)
                           else ([Attempt label (Some err)], w1))
                      | None \<Rightarrow>
                          ([Attempt label None, LogReloaded label fls] @ reportNotAfter label (r_snap res),
                           w1\<lparr>entries := AList.update key (e\<lparr>lastFailure := []\<rparr>) (entries w1)\<rparr>)))"

fun tick_loop :: "x509_env \<Rightarrow> file_system \<Rightarrow> int \<Rightarrow> (materialKey \<times> string) list \<Rightarrow> creds_world \<Rightarrow> creds_event list \<times> creds_world" where
  "tick_loop x fs now [] w = ([], w)"
| "tick_loop x fs now ((key, label) # les) w =
     (case map_of (entries w) key of
        None \<Rightarrow> tick_loop x fs now les w
      | Some e \<Rightarrow>
          (case tick_entry x fs now key label e w of
             (evs, w1) \<Rightarrow> (case tick_loop x fs now les w1 of (evs', w2) \<Rightarrow> (evs @ evs', w2))))"

definition Reloader_tick :: "x509_env \<Rightarrow> file_system \<Rightarrow> int \<Rightarrow> creds_world \<Rightarrow> creds_event list \<times> creds_world" where
  "Reloader_tick x fs now w = tick_loop x fs now (labelledEntries w) w"

section \<open>dialer.go, listener.go and transport.go\<close>

record credential =
  cr_opts :: creds_options
  cr_mode :: Mode
  cr_material :: nat

definition NewDialer :: "option_fn list \<Rightarrow> creds_world \<Rightarrow> credential \<times> creds_world" where
  "NewDialer opts w =
     (let o1 = newOptions opts; mode = resolveClient o1
      in case newMaterial o1 mode w of (a, w) \<Rightarrow> (\<lparr>cr_opts = o1, cr_mode = mode, cr_material = a\<rparr>, w))"

definition NewListener :: "option_fn list \<Rightarrow> creds_world \<Rightarrow> credential \<times> creds_world" where
  "NewListener opts w =
     (let o1 = newOptions opts; mode = resolveServer o1
      in case newMaterial o1 mode w of (a, w) \<Rightarrow> (\<lparr>cr_opts = o1, cr_mode = mode, cr_material = a\<rparr>, w))"

definition Dialer_Validate :: "x509_env \<Rightarrow> file_system \<Rightarrow> int \<Rightarrow> credential \<Rightarrow> verr option" where
  "Dialer_Validate x fs now d =
     (case validateClient (cr_opts d) of Some err \<Rightarrow> Some err | None \<Rightarrow> validateMaterial x fs now (cr_opts d) (cr_mode d))"

definition Listener_Validate :: "x509_env \<Rightarrow> file_system \<Rightarrow> int \<Rightarrow> credential \<Rightarrow> verr option" where
  "Listener_Validate x fs now l =
     (case validateServer (cr_opts l) of Some err \<Rightarrow> Some err | None \<Rightarrow> validateMaterial x fs now (cr_opts l) (cr_mode l))"

text \<open>What a connection is made with: nothing, the system roots, or a material read at each handshake.\<close>

datatype dial_creds = InsecureCreds | SystemTLS string | Reloading nat string

definition DialOption :: "x509_env \<Rightarrow> file_system \<Rightarrow> int \<Rightarrow> credential \<Rightarrow> string \<Rightarrow> creds_world \<Rightarrow> (verr + dial_creds) \<times> creds_world" where
  "DialOption x fs now d serverName w =
     (case validateClient (cr_opts d) of
        Some err \<Rightarrow> (Inl err, w)
      | None \<Rightarrow>
          (case cr_mode d of
             ModeInsecure \<Rightarrow> (Inr InsecureCreds, w)
           | ModeSystemTLS \<Rightarrow> (Inr (SystemTLS serverName), w)
           | ModeServerTLS \<Rightarrow> (Inl (Plain ''creds: unreachable dialer mode''), w)
           | _ \<Rightarrow>
               (case load_at x fs now (cr_material d) w of
                  (Some err, w1) \<Rightarrow> (Inl err, w1)
                | (None, w1) \<Rightarrow> (Inr (Reloading (cr_material d) serverName), w1))))"

text \<open>The configuration of a listener: none for plaintext, otherwise one built per handshake from the
  material at an address.\<close>

definition TLSConfig :: "x509_env \<Rightarrow> file_system \<Rightarrow> int \<Rightarrow> credential \<Rightarrow> creds_world \<Rightarrow> (verr + (nat \<times> Mode) option) \<times> creds_world" where
  "TLSConfig x fs now l w =
     (case validateServer (cr_opts l) of
        Some err \<Rightarrow> (Inl err, w)
      | None \<Rightarrow>
          (if cr_mode l = ModeInsecure then (Inr None, w)
           else case load_at x fs now (cr_material l) w of
             (Some err, w1) \<Rightarrow> (Inl err, w1)
           | (None, w1) \<Rightarrow> (Inr (Some (cr_material l, cr_mode l)), w1)))"

definition Encrypted :: "credential \<Rightarrow> bool" where
  "Encrypted l \<longleftrightarrow> cr_mode l \<noteq> ModeInsecure"

text \<open>\<open>ServerOption\<close>: the server runs in plaintext (\<open>None\<close>) or on the configuration.\<close>

definition ServerOption :: "x509_env \<Rightarrow> file_system \<Rightarrow> int \<Rightarrow> credential \<Rightarrow> creds_world \<Rightarrow> (verr + (nat \<times> Mode) option) \<times> creds_world" where
  "ServerOption x fs now l w =
     (case TLSConfig x fs now l w of
        (Inl err, w1) \<Rightarrow> (Inl err, w1)
      | (Inr None, w1) \<Rightarrow> (Inr None, w1)
      | (Inr (Some cfg), w1) \<Rightarrow> (Inr (Some cfg), w1))"

text \<open>TLS 1.2.\<close>

definition minTLSVersion :: nat where "minTLSVersion = 0x0303"

record tls_Config =
  Certificates :: "(bytes list \<times> x509Certificate) list"
  RootCAs :: "x509Certificate list option"
  ClientCAs :: "x509Certificate list option"
  RequireClientCert :: bool
  MinVersion :: nat
  CipherSuites :: "suite list"
  NextProtos :: "string list"
  ServerName :: string

text \<open>Building the configuration dereferences the snapshot and its certificate: \<open>None\<close> is a panic.\<close>

definition serverConfig :: "snapshot option \<Rightarrow> Mode \<Rightarrow> tls_Config option" where
  "serverConfig os mode =
     (case os of
        None \<Rightarrow> None
      | Some s \<Rightarrow>
          (case s_cert s of
             None \<Rightarrow> None
           | Some c \<Rightarrow>
               Some \<lparr>Certificates = [c], RootCAs = None, ClientCAs = (if mode = ModeMutualTLS then s_pool s else None),
                     RequireClientCert = (mode = ModeMutualTLS), MinVersion = minTLSVersion, CipherSuites = preferredCipherSuites,
                     NextProtos = [''h2'', ''http/1.1''], ServerName = []\<rparr>))"

definition clientConfig :: "snapshot option \<Rightarrow> string \<Rightarrow> tls_Config option" where
  "clientConfig os serverName =
     (case os of
        None \<Rightarrow> None
      | Some s \<Rightarrow>
          Some \<lparr>Certificates = (case s_cert s of None \<Rightarrow> [] | Some c \<Rightarrow> [c]), RootCAs = s_pool s, ClientCAs = None,
                RequireClientCert = False, MinVersion = minTLSVersion, CipherSuites = [], NextProtos = [], ServerName = serverName\<rparr>)"

text \<open>The other methods of the dialer's credentials: they serve no server, and a name can be overridden.\<close>

definition ServerHandshake :: "dial_creds \<Rightarrow> verr" where
  "ServerHandshake c = Plain ''creds: reloading credentials are client-only''"

definition OverrideServerName :: "string \<Rightarrow> dial_creds \<Rightarrow> dial_creds" where
  "OverrideServerName name c = (case c of Reloading a _ \<Rightarrow> Reloading a name | _ \<Rightarrow> c)"

text \<open>A handshake, from the material as it is at that moment.\<close>

definition client_handshake :: "creds_world \<Rightarrow> nat \<Rightarrow> string \<Rightarrow> tls_Config option" where
  "client_handshake w a serverName = clientConfig (cur (heap w ! a)) serverName"

definition server_handshake :: "creds_world \<Rightarrow> nat \<Rightarrow> Mode \<Rightarrow> tls_Config option" where
  "server_handshake w a mode = serverConfig (cur (heap w ! a)) mode"

section \<open>Materials evolve\<close>

definition small :: "files \<Rightarrow> bool" where
  "small f \<longleftrightarrow> length (f_cert f) < 2 ^ 64 \<and> length (f_key f) < 2 ^ 64 \<and> length (f_ca f) < 2 ^ 64"

text \<open>A Go slice is shorter than the address space.\<close>

definition fs_ok :: "file_system \<Rightarrow> bool" where
  "fs_ok fs \<longleftrightarrow> (\<forall>path data. fs path = Inr data \<longrightarrow> length data < 2 ^ 64)"

text \<open>The moments of a run: what the files hold and the time it is when an operation runs.\<close>

type_synonym moments = "(file_system \<times> int) set"

definition at_moment :: "moments \<Rightarrow> file_system \<Rightarrow> int \<Rightarrow> bool" where
  "at_moment D fs now \<longleftrightarrow> (fs, now) \<in> D \<and> fs_ok fs"

text \<open>The snapshot in use was parsed, as a whole, from the material's own files as they were at one moment, at which they
  were valid.\<close>

definition material_ok :: "x509_env \<Rightarrow> moments \<Rightarrow> material \<Rightarrow> bool" where
  "material_ok x D m \<longleftrightarrow>
     (\<forall>s. cur m = Some s \<longrightarrow>
        (\<exists>fs now f. at_moment D fs now \<and> readFiles fs (m_opts m) (m_mode m) = Inr f \<and> parseMaterial x now (m_mode m) f = Inr s))
     \<and> (once m \<longrightarrow> cur m \<noteq> None \<or> loadErr m \<noteq> None)"

definition evolves :: "x509_env \<Rightarrow> moments \<Rightarrow> material \<Rightarrow> material \<Rightarrow> bool" where
  "evolves x D m m' \<longleftrightarrow> m_opts m' = m_opts m \<and> m_mode m' = m_mode m
     \<and> (material_ok x D m \<longrightarrow> material_ok x D m') \<and> (cur m \<noteq> None \<longrightarrow> cur m' \<noteq> None)"

lemma evolves_refl [simp]: "evolves x D m m"
  by (simp add: evolves_def)

lemma evolves_trans: "evolves x D m m' \<Longrightarrow> evolves x D m' m'' \<Longrightarrow> evolves x D m m''"
  by (auto simp: evolves_def)

lemma readFiles_small: "fs_ok fs \<Longrightarrow> readFiles fs o1 mode = Inr f \<Longrightarrow> small f"
  by (auto simp: readFiles_def read_file_def fs_ok_def small_def Let_def split: if_splits sum.splits)

lemma reload_cases:
  assumes "reload x fs now m = (res, m')"
  obtains err where "r_err res = Some err" "attempted res" "m' = m\<lparr>failed := True\<rparr>"
  | f where "\<not> attempted res" "r_err res = None" "m' = m" "readFiles fs (m_opts m) (m_mode m) = Inr f" "map_option s_sum (cur m) = Some (sumFiles x f)"
  | f s where "attempted res" "r_err res = None" "readFiles fs (m_opts m) (m_mode m) = Inr f" "parseMaterial x now (m_mode m) f = Inr s"
      "m' = m\<lparr>cur := Some s, failed := False\<rparr>" "r_snap res = Some s"
proof (cases "readFiles fs (m_opts m) (m_mode m)")
  case (Inl err)
  then show ?thesis using assms by (intro that(1)) (auto simp: reload_def reload_fail_def)
next
  case (Inr f)
  show ?thesis
  proof (cases "cur m \<noteq> None \<and> \<not> failed m \<and> map_option s_sum (cur m) = Some (sumFiles x f)")
    case True
    then show ?thesis using assms Inr by (intro that(2) [of f]) (auto simp: reload_def)
  next
    case False
    then have r: "(case parseMaterial x now (m_mode m) f of Inl err \<Rightarrow> reload_fail m err
        | Inr s \<Rightarrow> (\<lparr>attempted = True, r_err = None, r_snap = Some s\<rparr>, m\<lparr>cur := Some s, failed := False\<rparr>)) = (res, m')"
      using assms by (simp only: reload_def Inr sum.case if_False)
    show ?thesis
    proof (cases "parseMaterial x now (m_mode m) f")
      case (Inl err)
      then show ?thesis using r by (intro that(1)) (auto simp: reload_fail_def)
    next
      case p: (Inr s)
      then show ?thesis using r Inr by (intro that(3) [of f s]) auto
    qed
  qed
qed

lemma reload_evolves:
  assumes "reload x fs now m = (res, m')" "at_moment D fs now"
  shows "evolves x D m m'"
  using assms(1)
proof (cases rule: reload_cases)
  case (3 f s)
  then show ?thesis using assms(2) by (auto simp: evolves_def material_ok_def)
qed (auto simp: evolves_def material_ok_def)

lemma load_evolves:
  assumes "load x fs now m = (err, m')" "at_moment D fs now"
  shows "evolves x D m m'" and "material_ok x D m \<Longrightarrow> err = None \<Longrightarrow> cur m' \<noteq> None"
proof -
  obtain res m1 where r: "reload x fs now m = (res, m1)" by (cases "reload x fs now m")
  have ev: "evolves x D m m1" by (rule reload_evolves [OF r assms(2)])
  have none: "cur m1 \<noteq> None" if "r_err res = None"
    using r by (cases rule: reload_cases) (use that in auto)
  have "evolves x D m1 (m1\<lparr>once := True, loadErr := r_err res\<rparr>)"
    using none by (auto simp: evolves_def material_ok_def)
  then show "evolves x D m m'" using assms(1) r evolves_trans [OF ev] by (auto simp: load_def Let_def split: if_splits)
  show "cur m' \<noteq> None" if "material_ok x D m" "err = None"
    using assms(1) r none that by (auto simp: load_def Let_def material_ok_def split: if_splits)
qed

definition heap_evolves :: "x509_env \<Rightarrow> moments \<Rightarrow> material list \<Rightarrow> material list \<Rightarrow> bool" where
  "heap_evolves x D h h' \<longleftrightarrow> length h \<le> length h' \<and> (\<forall>a < length h. evolves x D (h ! a) (h' ! a))
     \<and> (\<forall>a. length h \<le> a \<longrightarrow> a < length h' \<longrightarrow> material_ok x D (h' ! a))"

lemma heap_evolves_refl [simp]: "heap_evolves x D h h"
  by (simp add: heap_evolves_def)

lemma heap_evolves_trans: "heap_evolves x D h h' \<Longrightarrow> heap_evolves x D h' h'' \<Longrightarrow> heap_evolves x D h h''"
  unfolding heap_evolves_def by (metis (no_types, lifting) evolves_def evolves_trans le_trans linorder_not_less order_less_le_trans)

lemma heap_evolves_update: "evolves x D (h ! a) m \<Longrightarrow> heap_evolves x D h (h[a := m])"
  by (cases "a < length h") (auto simp: heap_evolves_def nth_list_update list_update_beyond)

lemma heap_evolves_new: "heap_evolves x D h (h @ [new_material o1 mode])"
  by (auto simp: heap_evolves_def nth_append new_material_def material_ok_def less_Suc_eq)

text \<open>The reloader's entries point to materials of the mode and files they are registered under, and no
  two to the same.\<close>

definition key_of :: "material \<Rightarrow> materialKey" where
  "key_of m = MaterialKey (m_mode m) (o_ca (m_opts m)) (o_cert (m_opts m)) (o_key (m_opts m))"

definition creds_inv :: "x509_env \<Rightarrow> moments \<Rightarrow> creds_world \<Rightarrow> bool" where
  "creds_inv x D w \<longleftrightarrow> (\<forall>a < length (heap w). material_ok x D (heap w ! a))
     \<and> distinct (map fst (entries w))
     \<and> (\<forall>key e. map_of (entries w) key = Some e \<longrightarrow> e_m e < length (heap w) \<and> key_of (heap w ! e_m e) = key)"

lemma creds_invD:
  assumes "creds_inv x D w"
  shows "a < length (heap w) \<Longrightarrow> material_ok x D (heap w ! a)" "distinct (map fst (entries w))"
    "map_of (entries w) key = Some e \<Longrightarrow> e_m e < length (heap w) \<and> key_of (heap w ! e_m e) = key"
  using assms unfolding creds_inv_def by blast+

lemma heap_evolves_ok:
  "heap_evolves x D h h' \<Longrightarrow> \<forall>a < length h. material_ok x D (h ! a) \<Longrightarrow> a < length h' \<Longrightarrow> material_ok x D (h' ! a)"
  unfolding heap_evolves_def evolves_def by (meson linorder_not_less)

lemma heap_evolves_key: "heap_evolves x D h h' \<Longrightarrow> a < length h \<Longrightarrow> a < length h' \<and> key_of (h' ! a) = key_of (h ! a)"
  unfolding heap_evolves_def evolves_def key_of_def by auto

lemma creds_inv_evolves:
  assumes "creds_inv x D w" "heap_evolves x D (heap w) (heap w')" "distinct (map fst (entries w'))"
    "\<And>key e. map_of (entries w') key = Some e \<Longrightarrow> \<exists>e'. map_of (entries w) key = Some e' \<and> e_m e = e_m e'"
  shows "creds_inv x D w'"
  unfolding creds_inv_def
proof (intro conjI allI impI)
  have ok: "\<forall>a < length (heap w). material_ok x D (heap w ! a)" using assms(1) by (simp add: creds_inv_def)
  show "material_ok x D (heap w' ! a)" if "a < length (heap w')" for a by (rule heap_evolves_ok [OF assms(2) ok that])
  show "distinct (map fst (entries w'))" by (rule assms(3))
  fix key e assume "map_of (entries w') key = Some e"
  then obtain e' where e': "map_of (entries w) key = Some e'" "e_m e = e_m e'" using assms(4) by blast
  then have "e_m e' < length (heap w)" "key_of (heap w ! e_m e') = key" using creds_invD(3) [OF assms(1)] by blast+
  then show "e_m e < length (heap w')" "key_of (heap w' ! e_m e) = key"
    using heap_evolves_key [OF assms(2)] e'(2) by auto
qed

section \<open>Runs\<close>

text \<open>Credentials are made and used, and the reloader started, ticked and stopped, in any order; at each
  step the files and the clock are those of one of the moments \<open>D\<close>. The loop of a reloader that was started may still
  finish a tick after \<open>Stop\<close> gave up waiting.\<close>

inductive creds_step :: "x509_env \<Rightarrow> moments \<Rightarrow> creds_world \<Rightarrow> creds_world \<Rightarrow> bool" for x D where
  dialer: "creds_step x D w (snd (NewDialer opts w))"
| listener: "creds_step x D w (snd (NewListener opts w))"
| dial: "at_moment D fs now \<Longrightarrow> creds_step x D w (snd (DialOption x fs now d sn w))"
| listen: "at_moment D fs now \<Longrightarrow> creds_step x D w (snd (TLSConfig x fs now l w))"
| start: "at_moment D fs now \<Longrightarrow> creds_step x D w (snd (snd (Reloader_Start x fs now w)))"
| ticks: "at_moment D fs now \<Longrightarrow> started w \<Longrightarrow> creds_step x D w (snd (Reloader_tick x fs now w))"
| stops: "creds_step x D w (snd (Reloader_Stop res w))"

lemma load_at_evolves:
  assumes "load_at x fs now a w = (err, w')" "at_moment D fs now"
  shows "heap_evolves x D (heap w) (heap w')" "entries w' = entries w"
    and "material_ok x D (heap w ! a) \<Longrightarrow> a < length (heap w) \<Longrightarrow> err = None \<Longrightarrow> cur (heap w' ! a) \<noteq> None"
  using assms load_evolves [OF _ assms(2)] heap_evolves_update
  by (auto simp: load_at_def split: prod.splits)

text \<open>The three loops and \<open>newMaterial\<close> change the heap as \<open>heap_evolves\<close> says and keep the invariant.\<close>

definition keeps :: "x509_env \<Rightarrow> moments \<Rightarrow> creds_world \<Rightarrow> creds_world \<Rightarrow> bool" where
  "keeps x D w w' \<longleftrightarrow> heap_evolves x D (heap w) (heap w') \<and> (creds_inv x D w \<longrightarrow> creds_inv x D w')"

lemma keeps_refl [simp]: "keeps x D w w"
  by (simp add: keeps_def)

lemma keeps_trans: "keeps x D w w' \<Longrightarrow> keeps x D w' w'' \<Longrightarrow> keeps x D w w''"
  using heap_evolves_trans by (auto simp: keeps_def)

lemma load_at_keeps: "load_at x fs now a w = (err, w') \<Longrightarrow> at_moment D fs now \<Longrightarrow> keeps x D w w'"
  using load_at_evolves [of x fs now a w err w' D] creds_inv_evolves [of x D w w'] creds_invD(2) [of x D w] by (auto simp: keeps_def)

lemma start_loop_keeps: "start_loop x fs now les w = (res, evs, w') \<Longrightarrow> at_moment D fs now \<Longrightarrow> keeps x D w w'"
proof (induction x fs now les w arbitrary: res evs w' rule: start_loop.induct)
  case (2 x fs now key label les w)
  show ?case
  proof (cases "map_of (entries w) key")
    case (Some e)
    obtain err w1 where l: "load_at x fs now (e_m e) w = (err, w1)" by (cases "load_at x fs now (e_m e) w")
    have k: "keeps x D w w1" by (rule load_at_keeps [OF l 2(4)])
    obtain res2 evs2 w2 where s: "start_loop x fs now les w1 = (res2, evs2, w2)" by (metis prod.exhaust)
    have "keeps x D w1 w2" if "err = None" using 2(2) [OF Some l [symmetric] that s 2(4)] .
    then show ?thesis using 2(3) Some l s k keeps_trans by (cases err) auto
  qed (use 2 in simp)
qed simp

lemma tick_entry_keeps:
  assumes "tick_entry x fs now key label e w = (evs, w')" "at_moment D fs now" "map_of (entries w) key = Some e"
  shows "keeps x D w w'" "heap w' = (heap w)[e_m e := snd (reload x fs now (heap w ! e_m e))]"
    "map_of (entries w') k = Some e' \<Longrightarrow> \<exists>e0. map_of (entries w) k = Some e0 \<and> e_m e' = e_m e0"
    "map_of (entries w) k = Some e0 \<Longrightarrow> \<exists>e'. map_of (entries w') k = Some e' \<and> e_m e' = e_m e0"
    "fst ` set (entries w') = fst ` set (entries w)"
proof -
  obtain res m where r: "reload x fs now (heap w ! e_m e) = (res, m)" by (cases "reload x fs now (heap w ! e_m e)")
  have e: "key \<in> fst ` set (entries w)" using assms(3) by (force dest: map_of_SomeD)
  have h: "heap w' = (heap w)[e_m e := m]"
    using assms(1) r by (auto simp: tick_entry_def Let_def split: if_splits option.splits)
  have es: "entries w' = entries w \<or> (\<exists>t. entries w' = AList.update key (e\<lparr>lastFailure := t\<rparr>) (entries w))"
    using assms(1) r by (auto simp: tick_entry_def Let_def split: if_splits option.splits)
  show "heap w' = (heap w)[e_m e := snd (reload x fs now (heap w ! e_m e))]" using h r by simp
  show older: "\<exists>e0. map_of (entries w) k = Some e0 \<and> e_m e' = e_m e0" if "map_of (entries w') k = Some e'" for k e'
    using es that assms(3) by (auto split: if_splits)
  show "\<exists>e'. map_of (entries w') k = Some e' \<and> e_m e' = e_m e0" if "map_of (entries w) k = Some e0"
    using es that assms(3) by auto
  show "fst ` set (entries w') = fst ` set (entries w)"
    using es e fst_set_AList_update [of key _ "entries w"] insert_absorb [OF e] by metis
  have ev: "heap_evolves x D (heap w) (heap w')" unfolding h by (intro heap_evolves_update reload_evolves [OF r assms(2)])
  have "distinct (map fst (entries w'))" if "distinct (map fst (entries w))" using es that by auto
  then show "keeps x D w w'" using ev creds_inv_evolves [OF _ ev _ older] by (auto simp: keeps_def dest: creds_invD(2))
qed

lemma tick_loop_keeps: "tick_loop x fs now les w = (evs, w') \<Longrightarrow> at_moment D fs now \<Longrightarrow> keeps x D w w'"
proof (induction x fs now les w arbitrary: evs w' rule: tick_loop.induct)
  case (2 x fs now key label les w)
  show ?case
  proof (cases "map_of (entries w) key")
    case (Some e)
    obtain evs1 w1 where t: "tick_entry x fs now key label e w = (evs1, w1)" by (cases "tick_entry x fs now key label e w")
    obtain evs2 w2 where l: "tick_loop x fs now les w1 = (evs2, w2)" by (cases "tick_loop x fs now les w1")
    have "keeps x D w1 w2" using 2(2) [OF Some t [symmetric] l 2(4)] .
    then show ?thesis using 2(3) Some t l tick_entry_keeps(1) [OF t 2(4) Some] keeps_trans by auto
  qed (use 2 in simp)
qed simp

lemma newMaterial_keeps:
  assumes "newMaterial o1 mode w = (a, w')"
  shows "keeps x D w w'"
    and "creds_inv x D w \<Longrightarrow> a < length (heap w') \<and> key_of (heap w' ! a) = MaterialKey mode (o_ca o1) (o_cert o1) (o_key o1)"
proof -
  let ?key = "MaterialKey mode (o_ca o1) (o_cert o1) (o_key o1)" and ?m = "new_material o1 mode"
  have key: "key_of ?m = ?key" by (simp add: key_of_def new_material_def)
  have "keeps x D w w' \<and> (creds_inv x D w \<longrightarrow> a < length (heap w') \<and> key_of (heap w' ! a) = ?key)"
  proof (cases "reads_files mode \<and> o_reloader o1")
    case False
    then have w': "w' = w\<lparr>heap := heap w @ [?m]\<rparr>" "a = length (heap w)" using assms by (auto simp: newMaterial_def)
    then have ev: "heap_evolves x D (heap w) (heap w')" by (simp add: heap_evolves_new)
    have "creds_inv x D w'" if inv: "creds_inv x D w"
      by (rule creds_inv_evolves [OF inv ev]) (use w' creds_invD(2) [OF inv] in simp_all)
    then show ?thesis using ev w' key by (simp add: keeps_def)
  next
    case True
    then have reg: "Reloader_material (o_credential o1) o1 mode w = (a, w')" using assms by (simp add: newMaterial_def)
    show ?thesis
    proof (cases "map_of (entries w) ?key")
      case (Some e)
      define e1 where "e1 = (if List.member (credentials e) (o_credential o1) then e else e\<lparr>credentials := credentials e @ [o_credential o1]\<rparr>)"
      have w': "w' = w\<lparr>entries := AList.update ?key e1 (entries w)\<rparr>" "e_m e1 = e_m e" "a = e_m e"
        using reg Some unfolding Reloader_material_def Let_def e1_def [symmetric] by (simp_all add: e1_def split: if_splits)
      have "creds_inv x D w'" if inv: "creds_inv x D w"
        by (rule creds_inv_evolves [OF inv]) (use w' Some creds_invD(2) [OF inv] in \<open>auto split: if_splits\<close>)
      moreover have "a < length (heap w') \<and> key_of (heap w' ! a) = ?key" if inv: "creds_inv x D w"
        using creds_invD(3) [OF inv Some] w' by simp
      ultimately show ?thesis using w' by (simp add: keeps_def)
    next
      case None
      define e1 where "e1 = \<lparr>e_m = length (heap w), credentials = [o_credential o1], lastFailure = []\<rparr>"
      have w': "w' = w\<lparr>heap := heap w @ [?m], entries := AList.update ?key e1 (entries w)\<rparr>" "e_m e1 = length (heap w)" "a = length (heap w)"
        using reg None by (auto simp: Reloader_material_def Let_def e1_def)
      have ev: "heap_evolves x D (heap w) (heap w')" using w' by (simp add: heap_evolves_new)
      have "creds_inv x D w'" if inv: "creds_inv x D w"
        unfolding creds_inv_def
      proof (intro conjI allI impI)
        show "material_ok x D (heap w' ! b)" if "b < length (heap w')" for b
          using heap_evolves_ok [OF ev _ that] creds_invD(1) [OF inv] by blast
        show "distinct (map fst (entries w'))" using w' creds_invD(2) [OF inv] by simp
        fix k e assume "map_of (entries w') k = Some e"
        then have "k = ?key \<and> e = e1 \<or> map_of (entries w) k = Some e" using w' by (auto split: if_splits)
        then show "e_m e < length (heap w')" "key_of (heap w' ! e_m e) = k"
          using w' key creds_invD(3) [OF inv, of k e] by (auto simp: nth_append)
      qed
      then show ?thesis using ev w' key by (auto simp: keeps_def)
    qed
  qed
  then show "keeps x D w w'" "creds_inv x D w \<Longrightarrow> a < length (heap w') \<and> key_of (heap w' ! a) = ?key" by blast+
qed

lemma creds_step_keeps: "creds_step x D w w' \<Longrightarrow> keeps x D w w'"
proof (induction rule: creds_step.induct)
  case (dialer w opts)
  obtain a w1 where n: "newMaterial (newOptions opts) (resolveClient (newOptions opts)) w = (a, w1)" by (metis prod.exhaust)
  then show ?case using newMaterial_keeps(1) [OF n] by (simp add: NewDialer_def Let_def)
next
  case (listener w opts)
  obtain a w1 where n: "newMaterial (newOptions opts) (resolveServer (newOptions opts)) w = (a, w1)" by (metis prod.exhaust)
  then show ?case using newMaterial_keeps(1) [OF n] by (simp add: NewListener_def Let_def)
next
  case (dial fs now w d sn)
  obtain err w1 where l: "load_at x fs now (cr_material d) w = (err, w1)" by (metis prod.exhaust)
  then show ?case using load_at_keeps [OF l dial] by (simp add: DialOption_def split: option.split Mode.split)
next
  case (listen fs now w l)
  obtain err w1 where a: "load_at x fs now (cr_material l) w = (err, w1)" by (metis prod.exhaust)
  then show ?case using load_at_keeps [OF a listen] by (simp add: TLSConfig_def split: option.split)
next
  case (start fs now w)
  obtain err evs w1 where s: "start_loop x fs now (labelledEntries w) w = (err, evs, w1)" by (metis prod.exhaust)
  have "keeps x D w (w1\<lparr>started := True, polling := True\<rparr>)"
    using start_loop_keeps [OF s start] by (simp add: keeps_def creds_inv_def)
  then show ?case using start_loop_keeps [OF s start] s by (simp add: Reloader_Start_def split: option.split)
next
  case (ticks fs now w)
  obtain evs w1 where t: "tick_loop x fs now (labelledEntries w) w = (evs, w1)" by (metis prod.exhaust)
  then show ?case using tick_loop_keeps [OF t ticks(1)] by (simp add: Reloader_tick_def)
next
  case (stops w res)
  then show ?case by (simp add: keeps_def Reloader_Stop_def creds_inv_def)
qed

lemma creds_run_keeps: "(creds_step x D)\<^sup>*\<^sup>* w w' \<Longrightarrow> keeps x D w w'"
  by (induction rule: rtranclp_induct) (auto intro: keeps_trans creds_step_keeps)

interpretation creds: reachable_invariant "creds_step x D" "creds_inv x D" "\<lambda>w. w = NewReloader" for x D
  by unfold_locales (use creds_step_keeps in \<open>auto simp: keeps_def creds_inv_def NewReloader_def\<close>)

section \<open>What a snapshot holds\<close>

lemma parseMaterial_Inr:
  assumes "parseMaterial x now mode f = Inr s"
  shows "validateBytes x now mode f = None" "s_sum s = sumFiles x f"
    "mode = ModeServerTLS \<or> mode = ModeMutualTLS \<Longrightarrow> \<exists>c. load_pair x f = Inr c \<and> s_cert s = Some c"
    "mode = ModeCustomCA \<or> mode = ModeMutualTLS \<Longrightarrow> \<exists>pool t. load_pool x f = Inr (pool, t) \<and> s_pool s = Some pool \<and> pool \<noteq> [] \<and> caNotAfter s = Some t"
    "mode = ModeCustomCA \<Longrightarrow> s_cert s = None"
proof -
  have v: "validateBytes x now mode f = None" using assms by (simp add: parseMaterial_def split: option.splits)
  then show "validateBytes x now mode f = None" .
  have pool: "pool \<noteq> []" if "load_pool x f = Inr (pool, t)" for pool t
    using that by (auto simp: load_pool_def Let_def split: if_splits sum.splits)
  show "s_sum s = sumFiles x f"
    "mode = ModeServerTLS \<or> mode = ModeMutualTLS \<Longrightarrow> \<exists>c. load_pair x f = Inr c \<and> s_cert s = Some c"
    "mode = ModeCustomCA \<or> mode = ModeMutualTLS \<Longrightarrow> \<exists>pool t. load_pool x f = Inr (pool, t) \<and> s_pool s = Some pool \<and> pool \<noteq> [] \<and> caNotAfter s = Some t"
    "mode = ModeCustomCA \<Longrightarrow> s_cert s = None"
    using assms v pool
    by (cases mode; cases "load_pair x f"; cases "load_pool x f"; force simp: parseMaterial_def)+
qed

text \<open>Only the checks depend on the clock.\<close>

lemma parseMaterial_time:
  assumes "parseMaterial x now mode f = Inr s" "parseMaterial x now' mode f = Inr s'"
  shows "s = s'"
  using assms parseMaterial_Inr(1) [OF assms(1)] parseMaterial_Inr(1) [OF assms(2)] by (simp add: parseMaterial_def)

section \<open>The sum tells file sets apart\<close>

lemma be64_length [simp]: "length (be64 n) = 8"
  by (simp add: be64_def)

lemma digits_eq:
  assumes "\<And>i. i < k \<Longrightarrow> (n div 256 ^ i) mod 256 = (n' div 256 ^ i) mod (256 :: nat)"
  shows "n mod 256 ^ k = n' mod 256 ^ k"
  using assms
proof (induction k)
  case (Suc k)
  have split: "m mod 256 ^ Suc k = 256 ^ k * (m div 256 ^ k mod 256) + m mod 256 ^ k" for m :: nat
    unfolding power_Suc2 by (rule mod_mult2_eq)
  show ?case unfolding split using Suc by simp
qed simp

lemma be64_inj: "be64 n = be64 n' \<Longrightarrow> n < 2 ^ 64 \<Longrightarrow> n' < 2 ^ 64 \<Longrightarrow> n = n'"
proof -
  assume "be64 n = be64 n'" and small: "n < 2 ^ 64" "n' < 2 ^ 64"
  then have eq: "\<forall>i\<in>set [7, 6, 5, 4, 3, 2, 1, 0]. (char_of (n div 256 ^ i) :: char) = char_of (n' div 256 ^ i)"
    unfolding be64_def by (simp only: map_eq_conv)
  have "(n div 256 ^ i) mod 256 = (n' div 256 ^ i) mod 256" if "i < 8" for i :: nat
  proof -
    have "i \<in> set [7, 6, 5, 4, 3, 2, 1, 0]" using that by (simp add: numeral_eq_Suc less_Suc_eq) auto
    from arg_cong [OF bspec [OF eq this], of "of_char :: char \<Rightarrow> nat"]
    have "(of_char (char_of (n div 256 ^ i) :: char) :: nat) = of_char (char_of (n' div 256 ^ i) :: char)" .
    then show ?thesis by (simp only: of_char_of)
  qed
  then have "n mod 256 ^ 8 = n' mod 256 ^ 8" by (rule digits_eq)
  moreover have "(256 :: nat) ^ 8 = 2 ^ 64" by simp
  ultimately show ?thesis using small by simp
qed

lemma prefixed_inj:
  assumes "be64 (length b) @ b @ r = be64 (length b') @ b' @ r'" "length b < 2 ^ 64" "length b' < 2 ^ 64"
  shows "b = b' \<and> r = r'"
proof -
  have "be64 (length b) = be64 (length b')" "b @ r = b' @ r'" using assms(1) by (simp_all add: append_eq_append_conv)
  then show ?thesis using be64_inj assms(2,3) by (metis append_eq_append_conv)
qed

lemma encodeFiles_inj: "encodeFiles f = encodeFiles f' \<Longrightarrow> small f \<Longrightarrow> small f' \<Longrightarrow> f = f'"
proof -
  assume e: "encodeFiles f = encodeFiles f'" and s: "small f" "small f'"
  have 1: "f_cert f = f_cert f' \<and> be64 (length (f_key f)) @ f_key f @ be64 (length (f_ca f)) @ f_ca f @ []
      = be64 (length (f_key f')) @ f_key f' @ be64 (length (f_ca f')) @ f_ca f' @ []"
    by (rule prefixed_inj) (use e s in \<open>simp_all add: encodeFiles_def small_def\<close>)
  have 2: "f_key f = f_key f' \<and> be64 (length (f_ca f)) @ f_ca f @ [] = be64 (length (f_ca f')) @ f_ca f' @ []"
    by (rule prefixed_inj [OF conjunct2 [OF 1]]) (use s in \<open>simp_all add: small_def\<close>)
  have "f_ca f = f_ca f' \<and> [] = ([] :: bytes)"
    by (rule prefixed_inj [OF conjunct2 [OF 2]]) (use s in \<open>simp_all add: small_def\<close>)
  then show "f = f'" using 1 2 by simp
qed

section \<open>A loaded material stays usable\<close>

lemma readFiles_Inr:
  assumes "readFiles fs o1 mode = Inr f"
  shows "mode = ModeServerTLS \<or> mode = ModeMutualTLS \<Longrightarrow> fs (o_cert o1) = Inr (f_cert f) \<and> fs (o_key o1) = Inr (f_key f)"
    "mode = ModeCustomCA \<or> mode = ModeMutualTLS \<Longrightarrow> fs (o_ca o1) = Inr (f_ca f)"
  using assms by (auto simp: readFiles_def read_file_def Let_def split: if_splits sum.splits prod.splits)

lemma loaded_stays:
  assumes "creds_inv x D w" "a < length (heap w)" "load_at x fs now a w = (None, w')" "at_moment D fs now" "(creds_step x D)\<^sup>*\<^sup>* w' w''"
  obtains snap where "cur (heap w'' ! a) = Some snap" "material_ok x D (heap w'' ! a)" "key_of (heap w'' ! a) = key_of (heap w ! a)"
proof -
  have k: "keeps x D w w'" by (rule load_at_keeps [OF assms(3,4)])
  have k': "keeps x D w' w''" by (rule creds_run_keeps [OF assms(5)])
  have a: "a < length (heap w')" "a < length (heap w'')" using k k' assms(2) by (auto simp: keeps_def heap_evolves_def)
  have "cur (heap w' ! a) \<noteq> None" using load_at_evolves(3) [OF assms(3,4) creds_invD(1) [OF assms(1,2)] assms(2) refl] .
  then have "cur (heap w'' ! a) \<noteq> None" using k' a(1) by (auto simp: keeps_def heap_evolves_def evolves_def)
  then obtain snap where snap: "cur (heap w'' ! a) = Some snap" by blast
  have "creds_inv x D w''" using k k' assms(1) by (simp add: keeps_def)
  then have ok: "material_ok x D (heap w'' ! a)" using creds_invD(1) a(2) by blast
  have "key_of (heap w'' ! a) = key_of (heap w ! a)"
    using heap_evolves_key k k' assms(2) a(1) unfolding keeps_def by metis
  with snap ok show ?thesis by (rule that)
qed

text \<open>A credential made in a run keeps pointing to a material of its mode and of its files.\<close>

lemma made_points:
  assumes "runs_from (\<lambda>w. w = NewReloader) (creds_step x D) w0" "newMaterial o1 mode w0 = (a, w1)" "(creds_step x D)\<^sup>*\<^sup>* w1 w2"
  shows "creds_inv x D w2" "a < length (heap w2)" "key_of (heap w2 ! a) = MaterialKey mode (o_ca o1) (o_cert o1) (o_key o1)"
proof -
  have inv: "creds_inv x D w0" by (rule creds.reachable_I [OF assms(1)])
  have k: "keeps x D w1 w2" by (rule creds_run_keeps [OF assms(3)])
  show "creds_inv x D w2" using inv k newMaterial_keeps(1) [OF assms(2)] by (simp add: keeps_def)
  show "a < length (heap w2)" "key_of (heap w2 ! a) = MaterialKey mode (o_ca o1) (o_cert o1) (o_key o1)"
    using newMaterial_keeps(2) [OF assms(2) inv] k heap_evolves_key [of x D "heap w1" "heap w2" a] by (auto simp: keeps_def)
qed

text \<open>So what a handshake finds was parsed from the files the credential names, as they were at one moment of the run.\<close>

lemma loaded_from:
  assumes "runs_from (\<lambda>w. w = NewReloader) (creds_step x D) w0" "newMaterial o1 mode w0 = (a, w1)" "(creds_step x D)\<^sup>*\<^sup>* w1 w2"
    "load_at x fs now a w2 = (None, w3)" "at_moment D fs now" "(creds_step x D)\<^sup>*\<^sup>* w3 w4"
  obtains snap disk t f where "cur (heap w4 ! a) = Some snap" "(disk, t) \<in> D" "parseMaterial x t mode f = Inr snap"
    "mode = ModeServerTLS \<or> mode = ModeMutualTLS \<longrightarrow> disk (o_cert o1) = Inr (f_cert f) \<and> disk (o_key o1) = Inr (f_key f)"
    "mode = ModeCustomCA \<or> mode = ModeMutualTLS \<longrightarrow> disk (o_ca o1) = Inr (f_ca f)"
proof -
  note made = made_points [OF assms(1-3)]
  obtain snap where snap: "cur (heap w4 ! a) = Some snap" "material_ok x D (heap w4 ! a)" "key_of (heap w4 ! a) = key_of (heap w2 ! a)"
    using loaded_stays [OF made(1,2) assms(4-6)] .
  then have m: "m_mode (heap w4 ! a) = mode" "o_ca (m_opts (heap w4 ! a)) = o_ca o1" "o_cert (m_opts (heap w4 ! a)) = o_cert o1"
      "o_key (m_opts (heap w4 ! a)) = o_key o1"
    using made(3) by (simp_all add: key_of_def)
  obtain disk t f where f: "at_moment D disk t" "readFiles disk (m_opts (heap w4 ! a)) mode = Inr f" "parseMaterial x t mode f = Inr snap"
    using snap(1,2) m(1) by (auto simp: material_ok_def)
  show ?thesis
    using readFiles_Inr [OF f(2)] m f(1,3) by (intro that [OF snap(1), of disk t f]) (simp_all add: at_moment_def)
qed

section \<open>A tick reloads each registered material once\<close>

lemma tick_loop_frame:
  assumes "tick_loop x fs now les w = (evs, w')" "at_moment D fs now"
    "\<And>k label e. (k, label) \<in> set les \<Longrightarrow> map_of (entries w) k = Some e \<Longrightarrow> e_m e \<noteq> a"
  shows "heap w' ! a = heap w ! a"
  using assms
proof (induction x fs now les w arbitrary: evs w' rule: tick_loop.induct)
  case (2 x fs now key label les w)
  show ?case
  proof (cases "map_of (entries w) key")
    case None
    then show ?thesis using 2(1) [OF None] 2(3-5) by auto
  next
    case (Some e)
    obtain evs1 w1 where t: "tick_entry x fs now key label e w = (evs1, w1)" by (cases "tick_entry x fs now key label e w")
    obtain evs2 w2 where l: "tick_loop x fs now les w1 = (evs2, w2)" by (cases "tick_loop x fs now les w1")
    note te = tick_entry_keeps [OF t 2(4) Some]
    have "heap w2 ! a = heap w1 ! a"
    proof (rule 2(2) [OF Some t [symmetric] l 2(4)])
      fix k lb e' assume "(k, lb) \<in> set les" "map_of (entries w1) k = Some e'"
      then show "e_m e' \<noteq> a" using te(3) 2(5) by (metis list.set_intros(2))
    qed
    moreover have "heap w1 ! a = heap w ! a" using te(2) 2(5) [of key label e] Some by simp
    ultimately show ?thesis using 2(3) Some t l by simp
  qed
qed simp

lemma tick_loop_reloads:
  assumes "tick_loop x fs now les w = (evs, w')" "at_moment D fs now" "creds_inv x D w" "distinct (map fst les)"
    "key \<in> fst ` set les" "map_of (entries w) key = Some e"
  shows "heap w' ! e_m e = snd (reload x fs now (heap w ! e_m e))"
  using assms
proof (induction x fs now les w arbitrary: evs w' e rule: tick_loop.induct)
  case (2 x fs now k label les w)
  have addr: "k' = k''" if "map_of (entries w) k' = Some e'" "map_of (entries w) k'' = Some e''" "e_m e' = e_m e''" for k' k'' e' e''
    using creds_invD(3) [OF 2(5)] that by metis
  show ?case
  proof (cases "map_of (entries w) k")
    case None
    then have "key \<in> fst ` set les" using 2(7,8) by auto
    then show ?thesis using 2(1) [OF None _ 2(4,5) _ _ 2(8)] 2(3,6) None by simp
  next
    case (Some e0)
    obtain evs1 w1 where t: "tick_entry x fs now k label e0 w = (evs1, w1)" by (cases "tick_entry x fs now k label e0 w")
    obtain evs2 w2 where l: "tick_loop x fs now les w1 = (evs2, w2)" by (cases "tick_loop x fs now les w1")
    note te = tick_entry_keeps [OF t 2(4) Some]
    have w': "w' = w2" using 2(3) Some t l by simp
    show ?thesis
    proof (cases "key = k")
      case True
      then have e: "e = e0" using Some 2(8) by simp
      have "heap w2 ! e_m e0 = heap w1 ! e_m e0"
      proof (rule tick_loop_frame [OF l 2(4)])
        fix k' lb e' assume "(k', lb) \<in> set les" and m: "map_of (entries w1) k' = Some e'"
        then have "k' \<noteq> k" using 2(6) by force
        then show "e_m e' \<noteq> e_m e0" using te(3) [OF m] addr Some by metis
      qed
      then show ?thesis using te(2) w' e creds_invD(3) [OF 2(5) Some] by simp
    next
      case False
      obtain e' where e': "map_of (entries w1) key = Some e'" "e_m e' = e_m e" using te(4) [OF 2(8)] by blast
      have "key \<in> fst ` set les" using 2(7) False by auto
      moreover have "creds_inv x D w1" using te(1) 2(5) by (simp add: keeps_def)
      ultimately have "heap w2 ! e_m e' = snd (reload x fs now (heap w1 ! e_m e'))"
        using 2(2) [OF Some t [symmetric] l 2(4) _ _ _ e'(1)] 2(6) by simp
      moreover have "e_m e \<noteq> e_m e0" using addr [OF 2(8) Some] False by blast
      ultimately show ?thesis using te(2) w' e'(2) by simp
    qed
  qed
qed simp

lemma labelled_keys: "fst ` set (labelledEntries w) = fst ` set (entries w)"
  by (force simp: labelledEntries_def)

lemma labelled_distinct:
  assumes "distinct (map fst (entries w))"
  shows "distinct (map fst (labelledEntries w))"
proof -
  let ?xs = "map (\<lambda>(key, e). (key, join_comma (sort (credentials e)))) (entries w)"
  have "map fst ?xs = map fst (entries w)" by (induction "entries w") (auto simp: case_prod_beta comp_def)
  then have "distinct (map fst ?xs)" using assms by (simp only:)
  then have "distinct (map fst (sort_key snd ?xs))" by (simp only: distinct_map distinct_sort set_sort)
  then show ?thesis by (simp only: labelledEntries_def)
qed

lemma reload_cur:
  assumes "material_ok x D m" "inj (sha256 x)" "fs_ok fs"
  shows "cur (snd (reload x fs now m)) = (case readFiles fs (m_opts m) (m_mode m) of Inl _ \<Rightarrow> cur m
    | Inr f \<Rightarrow> (case parseMaterial x now (m_mode m) f of Inl _ \<Rightarrow> cur m | Inr snap \<Rightarrow> Some snap))"
proof (cases "readFiles fs (m_opts m) (m_mode m)")
  case (Inr f)
  show ?thesis
  proof (cases "cur m \<noteq> None \<and> \<not> failed m \<and> map_option s_sum (cur m) = Some (sumFiles x f)")
    case True
    then obtain c where c: "cur m = Some c" "s_sum c = sumFiles x f" by auto
    obtain g t where g: "small g" "parseMaterial x t (m_mode m) g = Inr c"
      using assms(1) c(1) readFiles_small by (fastforce simp: material_ok_def at_moment_def)
    have "encodeFiles g = encodeFiles f"
      using c(2) parseMaterial_Inr(2) [OF g(2)] assms(2) by (simp add: sumFiles_def inj_def)
    then have "g = f" using encodeFiles_inj [OF _ g(1) readFiles_small [OF assms(3) Inr]] by blast
    then show ?thesis using True Inr c parseMaterial_time [OF g(2)] by (auto simp: reload_def split: sum.split)
  next
    case False
    then show ?thesis unfolding reload_def Inr sum.case if_not_P [OF False] by (simp add: reload_fail_def split: sum.split)
  qed
qed (simp add: reload_def reload_fail_def)

section \<open>What connections are made with\<close>

lemma ServerOption_TLSConfig: "ServerOption x fs now l w = TLSConfig x fs now l w"
  by (auto simp: ServerOption_def split: prod.split sum.split option.split)

text \<open>What a set of files must hold in each mode.\<close>

definition leaf_ok :: "int \<Rightarrow> x509Certificate \<Rightarrow> bool" where
  "leaf_ok now cert \<longleftrightarrow> in_force now cert \<and> strong_signature cert \<and> strong_key (c_PublicKey cert)"

definition certs_ok :: "x509_env \<Rightarrow> (x509Certificate \<Rightarrow> bool) \<Rightarrow> bytes \<Rightarrow> bool" where
  "certs_ok x P data \<longleftrightarrow> (case parsePEM x data of Inl _ \<Rightarrow> False | Inr certs \<Rightarrow> list_all P certs)"

lemma certs_ok_iff: "certs_ok x P data \<longleftrightarrow> (\<exists>certs. parsePEM x data = Inr certs \<and> (\<forall>cert\<in>set certs. P cert))"
  by (auto simp: certs_ok_def list_all_iff split: sum.split)

lemma pem_checks [simp]:
  "leafChecks x now data = None \<longleftrightarrow> certs_ok x (leaf_ok now) data"
  "caChecks x now data = None \<longleftrightarrow> certs_ok x (\<lambda>c. leaf_ok now c \<and> c_IsCA c) data"
  "trustAnchorChecks x now data = None \<longleftrightarrow> certs_ok x (leaf_ok now) data"
proof -
  have s: "SecureAlgorithm preferredCipherSuites c = None \<and> strong_key (c_PublicKey c) \<longleftrightarrow> strong_signature c \<and> strong_key (c_PublicKey c)" for c
    by (rule SecureAlgorithm_None) (simp_all add: preferredCipherSuites_def suiteKeyTypes_def map_filter_simps)
  then have e: "(in_force now c \<and> SecureAlgorithm preferredCipherSuites c = None \<and> strong_key (c_PublicKey c)) = leaf_ok now c" for c
    by (auto simp: leaf_ok_def)
  show "leafChecks x now data = None \<longleftrightarrow> certs_ok x (leaf_ok now) data"
    by (simp add: leafChecks_def ValidatePEM_None certs_ok_iff e)
  show "caChecks x now data = None \<longleftrightarrow> certs_ok x (\<lambda>c. leaf_ok now c \<and> c_IsCA c) data"
    "trustAnchorChecks x now data = None \<longleftrightarrow> certs_ok x (leaf_ok now) data"
    by (simp_all add: caChecks_def trustAnchorChecks_def ValidatePEM_None certs_ok_iff leaf_ok_def conj_ac)
qed

lemma pem_checks_honest [simp]: "honest (leafChecks x now data)" "honest (caChecks x now data)" "honest (trustAnchorChecks x now data)"
  by (simp_all add: leafChecks_def caChecks_def trustAnchorChecks_def)

text \<open>The validation of a set of files accepts exactly those whose certificates are all in force,
  strongly signed and of sufficient key size, with a private key beside a certificate to present, and,
  for mutual TLS, whose CA bundle holds only CA certificates.\<close>

theorem validateBytes_accepts:
  "validateBytes x now mode f = None \<longleftrightarrow>
     (case mode of
        ModeCustomCA \<Rightarrow> certs_ok x (leaf_ok now) (f_ca f)
      | ModeServerTLS \<Rightarrow> certs_ok x (leaf_ok now) (f_cert f) \<and> ValidatePEMKey x (f_key f) = None
      | ModeMutualTLS \<Rightarrow> certs_ok x (leaf_ok now) (f_cert f) \<and> ValidatePEMKey x (f_key f) = None
          \<and> certs_ok x (\<lambda>c. leaf_ok now c \<and> c_IsCA c) (f_ca f)
      | _ \<Rightarrow> True)"
  by (cases mode) (simp_all add: validateBytes_def)

subsection \<open>An example\<close>

text \<open>A toy X.509: a byte is a block, an upper-case letter a certificate of that name, \<open>k\<close> a private
  key.\<close>

definition ex_cert :: "bytes \<Rightarrow> x509Certificate" where
  "ex_cert b = \<lparr>CommonName = b, NotBefore = 0, NotAfter = 100, c_IsCA = True, RawIssuer = b, RawSubject = b,
     c_SignatureAlgorithm = SHA256WithRSA, c_PublicKey = ECDSA 256\<rparr>"

definition ex_env :: x509_env where
  "ex_env = \<lparr>pem_Decode = (\<lambda>d. case d of [] \<Rightarrow> None | c # r \<Rightarrow> Some (\<lparr>b_Type = (if c = CHR ''k'' then ''PRIVATE KEY'' else ''CERTIFICATE''), b_Bytes = [c]\<rparr>, r)),
     ParseCertificate = (\<lambda>b. Inr (ex_cert b)), X509KeyPair = (\<lambda>c k. Inr (map (\<lambda>ch. [ch]) c)),
     AppendCertsFromPEM = map (\<lambda>c. ex_cert [c]), sha256 = (\<lambda>b. b)\<rparr>"

definition ex_fs :: file_system where
  "ex_fs path = (if path = ''key'' \<or> path = ''key2'' then Inr ''k'' else if path = ''cert'' then Inr ''C'' else if path = ''cert2'' then Inr ''E'' else if path = ''ca'' then Inr ''A'' else Inl (ErrorString ''no such file''))"

definition ex_fs2 :: file_system where
  "ex_fs2 path = (if path = ''cert'' then Inr ''D'' else ex_fs path)"

lemma ex_fs_ok [simp]: "fs_ok ex_fs" "fs_ok ex_fs2"
  by (simp_all add: fs_ok_def ex_fs_def ex_fs2_def)

definition ex_moments :: moments where
  "ex_moments = {(ex_fs, 50), (ex_fs, 55), (ex_fs2, 60)}"

lemma ex_at_moment [simp]: "at_moment ex_moments ex_fs 50" "at_moment ex_moments ex_fs 55" "at_moment ex_moments ex_fs2 60"
  by (simp_all add: at_moment_def ex_moments_def)

text \<open>A mutual TLS listener on a reloader, loaded and then ticked on changed files.\<close>

definition ex_opts :: "option_fn list" where
  "ex_opts = [WithCertificate ''cert'' ''key'', WithCA ''ca'', WithReloader True ''listener'']"

definition ex_w1 :: creds_world where "ex_w1 = snd (NewListener ex_opts NewReloader)"
definition ex_w2 :: creds_world where "ex_w2 = snd (snd (Reloader_Start ex_env ex_fs 50 ex_w1))"
definition ex_w3 :: creds_world where "ex_w3 = snd (Reloader_tick ex_env ex_fs2 60 ex_w2)"

lemma ex_w_steps: "creds_step ex_env ex_moments NewReloader ex_w1" "creds_step ex_env ex_moments ex_w1 ex_w2" "started ex_w2" "creds_step ex_env ex_moments ex_w2 ex_w3"
proof -
  show "creds_step ex_env ex_moments NewReloader ex_w1" unfolding ex_w1_def by (rule creds_step.listener)
  show "creds_step ex_env ex_moments ex_w1 ex_w2" unfolding ex_w2_def by (rule creds_step.start) simp
  show p: "started ex_w2" by code_simp
  show "creds_step ex_env ex_moments ex_w2 ex_w3" unfolding ex_w3_def by (rule creds_step.ticks) (simp_all add: p)
qed

lemma ex_reach: "runs_from (\<lambda>w. w = NewReloader) (creds_step ex_env ex_moments) NewReloader" "runs_from (\<lambda>w. w = NewReloader) (creds_step ex_env ex_moments) ex_w2"
  using ex_w_steps by (blast intro: runs_from_start runs_from_step)+

section \<open>Handshakes\<close>

text \<open>C31. A listener that got a configuration runs in plaintext only when it was made insecure. Otherwise,
  however many operations, ticks and failed reloads follow, each handshake has material: one
  certificate chain and, for mutual TLS, a nonempty pool against which client certificates are required,
  both parsed as a unit from what the listener's own certificate, key and CA paths held at one moment of the run, at
  which the validation accepted it.\<close>

theorem Listener_handshakes:
  assumes "runs_from (\<lambda>w. w = NewReloader) (creds_step x D) w0" "NewListener opts w0 = (l, w1)" "(creds_step x D)\<^sup>*\<^sup>* w1 w2"
    "ServerOption x fs now l w2 = (Inr cfg, w3)" "at_moment D fs now" "(creds_step x D)\<^sup>*\<^sup>* w3 w4"
  shows "case cfg of
      None \<Rightarrow> insecure (newOptions opts)
    | Some (a, mode) \<Rightarrow> \<not> insecure (newOptions opts) \<and>
        (\<exists>conf disk t f chain. server_handshake w4 a mode = Some conf \<and> (disk, t) \<in> D \<and> validateBytes x t mode f = None
           \<and> disk (o_cert (newOptions opts)) = Inr (f_cert f) \<and> disk (o_key (newOptions opts)) = Inr (f_key f)
           \<and> load_pair x f = Inr chain \<and> Certificates conf = [chain]
           \<and> MinVersion conf = minTLSVersion \<and> CipherSuites conf = preferredCipherSuites
           \<and> (if o_ca (newOptions opts) = [] then \<not> RequireClientCert conf
              else RequireClientCert conf \<and> disk (o_ca (newOptions opts)) = Inr (f_ca f) \<and> (\<exists>pool u. load_pool x f = Inr (pool, u) \<and> pool \<noteq> [] \<and> ClientCAs conf = Some pool)))"
proof (cases cfg)
  case None
  then show ?thesis using assms(2,4)
    by (auto simp: ServerOption_TLSConfig TLSConfig_def NewListener_def resolveServer_def Let_def split: prod.splits option.splits if_splits)
next
  case (Some am)
  define mode where "mode = resolveServer (newOptions opts)"
  obtain a where a: "newMaterial (newOptions opts) mode w0 = (a, w1)" "l = \<lparr>cr_opts = newOptions opts, cr_mode = mode, cr_material = a\<rparr>"
    using assms(2) by (auto simp: NewListener_def mode_def Let_def split: prod.splits)
  have m: "cfg = Some (a, mode)" "mode \<noteq> ModeInsecure" "load_at x fs now a w2 = (None, w3)"
    using assms(4) Some a(2) by (auto simp: ServerOption_TLSConfig TLSConfig_def split: prod.splits option.splits if_splits)
  obtain snap disk t f where snap: "cur (heap w4 ! a) = Some snap" "(disk, t) \<in> D" "parseMaterial x t mode f = Inr snap"
      and disk: "mode = ModeServerTLS \<or> mode = ModeMutualTLS \<longrightarrow> disk (o_cert (newOptions opts)) = Inr (f_cert f) \<and> disk (o_key (newOptions opts)) = Inr (f_key f)"
        "mode = ModeCustomCA \<or> mode = ModeMutualTLS \<longrightarrow> disk (o_ca (newOptions opts)) = Inr (f_ca f)"
    by (rule loaded_from [OF assms(1) a(1) assms(3) m(3) assms(5,6)])
  note pm = parseMaterial_Inr [OF snap(3)]
  have mode: "mode = (if o_ca (newOptions opts) \<noteq> [] then ModeMutualTLS else ModeServerTLS)" "\<not> insecure (newOptions opts)"
    using m(2) by (auto simp: mode_def resolveServer_def split: if_splits)
  obtain chain where c: "load_pair x f = Inr chain" "s_cert snap = Some chain" using pm(3) mode(1) by (metis (full_types))
  have "server_handshake w4 a mode = Some \<lparr>Certificates = [chain], RootCAs = None, ClientCAs = (if mode = ModeMutualTLS then s_pool snap else None),
      RequireClientCert = (mode = ModeMutualTLS), MinVersion = minTLSVersion, CipherSuites = preferredCipherSuites, NextProtos = [''h2'', ''http/1.1''], ServerName = []\<rparr>"
    using snap(1) c(2) by (simp add: server_handshake_def serverConfig_def)
  then show ?thesis unfolding m(1) option.case prod.case
    using mode snap(2) pm(1,4) disk c(1)
    by (intro conjI exI [of _ "\<lparr>Certificates = [chain], RootCAs = None, ClientCAs = (if mode = ModeMutualTLS then s_pool snap else None),
        RequireClientCert = (mode = ModeMutualTLS), MinVersion = minTLSVersion, CipherSuites = preferredCipherSuites, NextProtos = [''h2'', ''http/1.1''], ServerName = []\<rparr>"]
        exI [of _ disk] exI [of _ t] exI [of _ f] exI [of _ chain]) (auto split: if_splits)
qed

theorem Listener_handshakes_witness:
  "(\<exists>conf. server_handshake ex_w3 0 ModeMutualTLS = Some conf \<and> RequireClientCert conf)"
proof -
  have c: "fst (ServerOption ex_env ex_fs 55 (fst (NewListener ex_opts NewReloader)) ex_w2) = Inr (Some (0, ModeMutualTLS))"
    "snd (ServerOption ex_env ex_fs 55 (fst (NewListener ex_opts NewReloader)) ex_w2) = ex_w2" by code_simp+
  have "o_ca (newOptions ex_opts) \<noteq> []" by code_simp
  then show ?thesis
    using Listener_handshakes [OF ex_reach(1), of ex_opts "fst (NewListener ex_opts NewReloader)" ex_w1 ex_w2 ex_fs 55 "Some (0, ModeMutualTLS)" ex_w2 ex_w3]
      ex_w_steps c by (auto simp: ex_w1_def prod_eq_iff r_into_rtranclp)
qed

text \<open>C32. A dialer that got its option connects in plaintext only when it was made insecure and against the
  system's roots only when it names no CA; otherwise every later handshake, whatever other credentials share the reloader,
  verifies the server against the nonempty pool parsed from what the dialer's own CA path held at one moment of the run,
  and presents a certificate exactly when one is configured: the one its certificate and key paths held at that moment,
  at which the three were accepted together.\<close>

theorem Dialer_handshakes:
  assumes "runs_from (\<lambda>w. w = NewReloader) (creds_step x D) w0" "NewDialer opts w0 = (d, w1)" "(creds_step x D)\<^sup>*\<^sup>* w1 w2"
    "DialOption x fs now d sn w2 = (Inr c, w3)" "at_moment D fs now" "(creds_step x D)\<^sup>*\<^sup>* w3 w4"
  shows "case c of
      InsecureCreds \<Rightarrow> insecure (newOptions opts)
    | SystemTLS name \<Rightarrow> \<not> insecure (newOptions opts) \<and> o_ca (newOptions opts) = [] \<and> name = sn
    | Reloading a name \<Rightarrow> \<not> insecure (newOptions opts) \<and> o_ca (newOptions opts) \<noteq> [] \<and> name = sn \<and>
        (\<exists>conf disk t f pool u. client_handshake w4 a name = Some conf \<and> (disk, t) \<in> D \<and> validateBytes x t (resolveClient (newOptions opts)) f = None
           \<and> disk (o_ca (newOptions opts)) = Inr (f_ca f) \<and> load_pool x f = Inr (pool, u) \<and> pool \<noteq> [] \<and> RootCAs conf = Some pool \<and> ServerName conf = sn
           \<and> MinVersion conf = minTLSVersion
           \<and> (if o_cert (newOptions opts) = [] then Certificates conf = []
              else disk (o_cert (newOptions opts)) = Inr (f_cert f) \<and> disk (o_key (newOptions opts)) = Inr (f_key f)
                \<and> (\<exists>chain. load_pair x f = Inr chain \<and> Certificates conf = [chain])))"
proof -
  define mode where "mode = resolveClient (newOptions opts)"
  obtain a where a: "newMaterial (newOptions opts) mode w0 = (a, w1)" "d = \<lparr>cr_opts = newOptions opts, cr_mode = mode, cr_material = a\<rparr>"
    using assms(2) by (auto simp: NewDialer_def mode_def Let_def split: prod.splits)
  have v: "validateClient (newOptions opts) = None" using assms(4) a(2) by (auto simp: DialOption_def split: option.splits)
  note mode = mode_def [unfolded resolveClient_def]
  show ?thesis
  proof (cases "mode = ModeCustomCA \<or> mode = ModeMutualTLS")
    case False
    then show ?thesis using assms(4) a(2) v mode
      by (auto simp: DialOption_def validateClient_def split: if_splits)
  next
    case True
    then have m: "c = Reloading a sn" "load_at x fs now a w2 = (None, w3)"
      using assms(4) a(2) v by (auto simp: DialOption_def split: prod.splits option.splits)
    obtain snap disk t f where snap: "cur (heap w4 ! a) = Some snap" "(disk, t) \<in> D" "parseMaterial x t mode f = Inr snap"
      and disk: "mode = ModeServerTLS \<or> mode = ModeMutualTLS \<longrightarrow> disk (o_cert (newOptions opts)) = Inr (f_cert f) \<and> disk (o_key (newOptions opts)) = Inr (f_key f)"
        "mode = ModeCustomCA \<or> mode = ModeMutualTLS \<longrightarrow> disk (o_ca (newOptions opts)) = Inr (f_ca f)"
      by (rule loaded_from [OF assms(1) a(1) assms(3) m(2) assms(5,6)])
    note pm = parseMaterial_Inr [OF snap(3)]
    have o1: "\<not> insecure (newOptions opts)" "o_ca (newOptions opts) \<noteq> []" "mode = (if o_cert (newOptions opts) = [] then ModeCustomCA else ModeMutualTLS)"
      using True v mode by (auto simp: validateClient_def split: if_splits)
    obtain pool u where p: "load_pool x f = Inr (pool, u)" "s_pool snap = Some pool" "pool \<noteq> []" using pm(4) True by blast
    have certs: "if o_cert (newOptions opts) = [] then s_cert snap = None
        else disk (o_cert (newOptions opts)) = Inr (f_cert f) \<and> disk (o_key (newOptions opts)) = Inr (f_key f)
          \<and> (\<exists>chain. load_pair x f = Inr chain \<and> s_cert snap = Some chain)"
      using pm(3,5) o1(3) disk(1) by simp
    define conf where "conf = \<lparr>Certificates = (case s_cert snap of None \<Rightarrow> [] | Some c \<Rightarrow> [c]), RootCAs = s_pool snap, ClientCAs = None,
      RequireClientCert = False, MinVersion = minTLSVersion, CipherSuites = [], NextProtos = [], ServerName = sn\<rparr>"
    have "client_handshake w4 a sn = Some conf" by (simp add: client_handshake_def clientConfig_def snap(1) conf_def)
    moreover have "if o_cert (newOptions opts) = [] then Certificates conf = []
        else disk (o_cert (newOptions opts)) = Inr (f_cert f) \<and> disk (o_key (newOptions opts)) = Inr (f_key f)
          \<and> (\<exists>chain. load_pair x f = Inr chain \<and> Certificates conf = [chain])"
      using certs by (auto simp: conf_def split: if_splits)
    moreover have "RootCAs conf = Some pool" "ServerName conf = sn" "MinVersion conf = minTLSVersion" using p by (simp_all add: conf_def)
    ultimately show ?thesis unfolding m(1) dial_creds.case mode_def [symmetric] using p(1,3) pm(1) o1(1,2) snap(2) mp [OF disk(2) True] by blast
  qed
qed

text \<open>Two dialers with one CA and certificates of their own, on one reloader; the second dials.\<close>

definition ex_dial :: "string \<Rightarrow> string \<Rightarrow> option_fn list" where
  "ex_dial cert key = [WithCertificate cert key, WithCA ''ca'', WithReloader True cert]"

theorem Dialer_handshakes_witness:
  "\<exists>conf. client_handshake (snd (DialOption ex_env ex_fs 55 (fst (NewDialer (ex_dial ''cert'' ''key'') (snd (NewDialer (ex_dial ''cert2'' ''key2'') NewReloader))))
        ''server'' (snd (NewDialer (ex_dial ''cert'' ''key'') (snd (NewDialer (ex_dial ''cert2'' ''key2'') NewReloader)))))) 1 ''server'' = Some conf
      \<and> map fst (Certificates conf) \<in> {[[''C'']], [[''D'']]} \<and> RootCAs conf = Some [ex_cert ''A'']"
proof -
  let ?u = "snd (NewDialer (ex_dial ''cert2'' ''key2'') NewReloader)"
  let ?d = "fst (NewDialer (ex_dial ''cert'' ''key'') ?u)" and ?w = "snd (NewDialer (ex_dial ''cert'' ''key'') ?u)"
  let ?w3 = "snd (DialOption ex_env ex_fs 55 ?d ''server'' ?w)"
  have r: "runs_from (\<lambda>w. w = NewReloader) (creds_step ex_env ex_moments) ?u"
    by (rule runs_from_step [OF ex_reach(1)]) (rule creds_step.dialer)
  have c: "fst (DialOption ex_env ex_fs 55 ?d ''server'' ?w) = Inr (Reloading 1 ''server'')" by code_simp
  have o1: "o_cert (newOptions (ex_dial ''cert'' ''key'')) = ''cert''" "o_ca (newOptions (ex_dial ''cert'' ''key'')) = ''ca''" by code_simp+
  obtain conf disk t f pool u chain where conf: "client_handshake ?w3 1 ''server'' = Some conf" "(disk, t) \<in> ex_moments"
      "disk ''ca'' = Inr (f_ca f)" "load_pool ex_env f = Inr (pool, u)" "RootCAs conf = Some pool"
      "disk ''cert'' = Inr (f_cert f)" "load_pair ex_env f = Inr chain" "Certificates conf = [chain]"
    using Dialer_handshakes [OF r, of "ex_dial ''cert'' ''key''" ?d ?w ?w ex_fs 55 "''server''" "Reloading 1 ''server''" ?w3 ?w3] c o1
    by (auto simp: prod_eq_iff)
  then have f: "f_ca f = ''A''" "f_cert f = ''C'' \<or> f_cert f = ''D''" by (auto simp: ex_moments_def ex_fs2_def ex_fs_def)
  have "pool = AppendCertsFromPEM ex_env (f_ca f)" using conf(4) by (auto simp: load_pool_def Let_def split: if_splits sum.splits)
  moreover have "fst chain = map (\<lambda>ch. [ch]) (f_cert f)" using conf(7) by (auto simp: load_pair_def ex_env_def split: sum.splits)
  ultimately show ?thesis using conf(1,5,8) f by (intro exI [of _ conf]) (auto simp: ex_env_def)
qed

text \<open>C34. A tick of the poll loop brings every registered material up to date: it holds the snapshot of the files
  as they are, unless they cannot be read or are not accepted, when it keeps the one it has.\<close>

theorem tick_current:
  assumes "runs_from (\<lambda>w. w = NewReloader) (creds_step x D) w" "inj (sha256 x)" "at_moment D fs now" "map_of (entries w) key = Some e"
  shows "cur (heap (snd (Reloader_tick x fs now w)) ! e_m e) =
      (let m = heap w ! e_m e
       in case readFiles fs (m_opts m) (m_mode m) of
            Inl _ \<Rightarrow> cur m
          | Inr f \<Rightarrow> (case parseMaterial x now (m_mode m) f of Inl _ \<Rightarrow> cur m | Inr snap \<Rightarrow> Some snap))"
proof -
  have inv: "creds_inv x D w" by (rule creds.reachable_I [OF assms(1)])
  have fs: "fs_ok fs" using assms(3) by (simp add: at_moment_def)
  obtain evs w' where t: "tick_loop x fs now (labelledEntries w) w = (evs, w')" by (metis prod.exhaust)
  have "key \<in> fst ` set (labelledEntries w)" unfolding labelled_keys using assms(4) by (force dest: map_of_SomeD)
  then have "heap w' ! e_m e = snd (reload x fs now (heap w ! e_m e))"
    using tick_loop_reloads [OF t assms(3) inv labelled_distinct [OF creds_invD(2) [OF inv]] _ assms(4)] by blast
  moreover have "material_ok x D (heap w ! e_m e)" using creds_invD [OF inv] assms(4) by blast
  ultimately show ?thesis using reload_cur [OF _ assms(2) fs] t by (simp add: Reloader_tick_def Let_def)
qed

theorem tick_current_witness:
  "map_option certNotAfter (cur (heap (snd (Reloader_tick ex_env ex_fs2 60 ex_w2)) ! 0)) = Some (Some 100)
   \<and> map_option (fst o the o s_cert) (cur (heap (snd (Reloader_tick ex_env ex_fs2 60 ex_w2)) ! 0)) = Some [''D'']"
proof -
  have e: "map_option e_m (map_of (entries ex_w2) (MaterialKey ModeMutualTLS ''ca'' ''cert'' ''key'')) = Some 0" by code_simp
  then obtain en where en: "map_of (entries ex_w2) (MaterialKey ModeMutualTLS ''ca'' ''cert'' ''key'') = Some en" "e_m en = 0" by auto
  have i: "inj (sha256 ex_env)" by (simp add: ex_env_def)
  show ?thesis
    unfolding tick_current [OF ex_reach(2) i ex_at_moment(3) en(1), unfolded en(2)] by code_simp
qed

section \<open>The loop over a CA bundle ends\<close>

lemma earliest_loop_fuel:
  "pem_doc x \<Longrightarrow> length data \<le> n \<Longrightarrow> earliest_loop x n data t = earliest_loop x (length data) data t"
proof (induction n arbitrary: data t rule: less_induct)
  case (less n)
  show ?case
  proof (cases data)
    case (Cons c cs)
    then obtain n' where n: "n = Suc n'" using less.prems by (cases n) auto
    have step: "earliest_loop x n' rest p = earliest_loop x (length cs) rest p" if "pem_Decode x data = Some (block, rest)" for block rest p
    proof -
      have l: "length rest \<le> length cs" "length rest \<le> n'" using less.prems that Cons n by (fastforce simp: pem_doc_def)+
      then show ?thesis using less.IH [of n' rest] less.IH [of "length cs" rest] less.prems Cons n by simp
    qed
    show ?thesis using n Cons step by (auto split: option.splits sum.splits)
  qed (cases n; simp)
qed

end
