(* ===== verification/Auth.thy ===== *)
theory Auth
  imports Rpc Validation
begin

text \<open>
  \<open>internal/auth\<close> and \<open>internal/api/auth.go\<close>: the authenticators (none, a static token, JWTs against
  a key set, an extension server) and the two adapters that put one in front of a gRPC stream and
  of an HTTP route.

  The locale \<open>authenticator\<close> is the interface \<open>Authenticator\<close> with what its comment promises: a
  rejection is an error with a status, and the headers it consumes are named in the form metadata
  uses. The facts about the adapters are proved for every authenticator and hold for the four.

  JWT parsing, the key set and the extension server are not this program's: they are functions of
  the model.
\<close>

section \<open>Authenticators\<close>

record 'g Authenticator =
  Authenticate :: "'g goctx \<Rightarrow> Target \<Rightarrow> MD \<Rightarrow> goerror option"
  SecureHeaders :: "string list"

definition AdmitAll :: "'g Authenticator" where
  "AdmitAll = \<lparr>Authenticate = (\<lambda>_ _ _. None), SecureHeaders = []\<rparr>"

definition defaultHeader :: string where
  "defaultHeader = ''authorization''"

definition canonicalHeader :: "string \<Rightarrow> string" where
  "canonicalHeader h = (if h = [] then defaultHeader else ToLower h)"

definition NoScheme :: string where
  "NoScheme = ''none''"

definition defaultScheme :: string where
  "defaultScheme = ''Bearer''"

definition ResolveScheme :: "string \<Rightarrow> string" where
  "ResolveScheme s = (if s = [] then defaultScheme else if EqualFold s NoScheme then [] else s)"

definition extractToken :: "'g grpc_api \<Rightarrow> MD \<Rightarrow> string \<Rightarrow> string \<Rightarrow> string option" where
  "extractToken api md header scheme =
     (case MD_Get api md header of
        [] \<Rightarrow> None
      | v # _ \<Rightarrow>
          (if scheme = [] then Some v
           else let prefix = scheme @ '' ''
                in if length v < length prefix \<or> \<not> EqualFold (take (length prefix) v) prefix then None
                   else Some (drop (length prefix) v)))"

subsection \<open>A static token\<close>

record StaticTokenAuthenticator =
  st_token :: string
  st_header :: string
  st_scheme :: string

definition NewStaticTokenAuthenticator :: "string \<Rightarrow> string \<Rightarrow> string \<Rightarrow> StaticTokenAuthenticator result" where
  "NewStaticTokenAuthenticator token header scheme =
     (if token = [] then Inl (ErrorString ''auth: static token is required'')
      else Inr \<lparr>st_token = token, st_header = canonicalHeader header, st_scheme = ResolveScheme scheme\<rparr>)"

definition StaticToken_Authenticate :: "'g grpc_api \<Rightarrow> StaticTokenAuthenticator \<Rightarrow> MD \<Rightarrow> goerror option" where
  "StaticToken_Authenticate api a md =
     (case extractToken api md (st_header a) (st_scheme a) of
        None \<Rightarrow> Some (Reject Unauthenticated ''missing or malformed credentials''
                        (''static token: missing or malformed '' @ st_header a @ '' header''))
      | Some got \<Rightarrow>
          (if got \<noteq> st_token a then Some (Reject Unauthenticated ''invalid credentials'' ''static token: value mismatch'')
           else None))"

definition staticToken :: "'g grpc_api \<Rightarrow> StaticTokenAuthenticator \<Rightarrow> 'g Authenticator" where
  "staticToken api a = \<lparr>Authenticate = (\<lambda>_ _ md. StaticToken_Authenticate api a md), SecureHeaders = [st_header a]\<rparr>"

subsection \<open>JWTs\<close>

text \<open>A parsed token is of type \<open>'t\<close>, a key of type \<open>'k\<close>. Of the claims, only the audience is read.\<close>

record parserOptions =
  validMethods :: "string list"
  expirationRequired :: bool
  po_issuer :: "string option"

type_synonym ('t, 'k) keyfunc = "'t \<Rightarrow> 'k result"
type_synonym ('t, 'k) jwt_parser = "('t, 'k) keyfunc \<Rightarrow> parserOptions \<Rightarrow> string \<Rightarrow> (string list result) result"

definition validSigningMethods :: "string list" where
  "validSigningMethods = [''RS256'', ''RS384'', ''RS512'', ''ES256'', ''ES384'', ''ES512'', ''PS256'', ''PS384'', ''PS512'']"

definition errKeysUnavailable :: goerror where
  "errKeysUnavailable = ErrorString ''jwks keyset unavailable''"

text \<open>\<open>jwkset.ErrKeyNotFound\<close>.\<close>

definition ErrKeyNotFound_jwks :: goerror where
  "ErrKeyNotFound_jwks = ErrorString ''key not found''"

definition deferredKeyfunc :: "('t, 'k) keyfunc option \<Rightarrow> ('t, 'k) keyfunc" where
  "deferredKeyfunc ready t = (case ready of None \<Rightarrow> Inl errKeysUnavailable | Some kf \<Rightarrow> kf t)"

definition wrapKeyfunc :: "('t, 'k) keyfunc \<Rightarrow> bool \<Rightarrow> ('t, 'k) keyfunc" where
  "wrapKeyfunc resolve keysPresent t =
     (case resolve t of
        Inr key \<Rightarrow> Inr key
      | Inl err \<Rightarrow>
          (if errors_Is err ErrKeyNotFound_jwks
           then (if \<not> keysPresent then Inl (WrapError (Error errKeysUnavailable @ '': empty keyset'') [errKeysUnavailable]) else Inl err)
           else Inl (WrapError (Error errKeysUnavailable @ '': '' @ Error err) [errKeysUnavailable])))"

record ('t, 'k) JWKSAuthenticator =
  j_keyfn :: "('t, 'k) keyfunc"
  j_audiences :: "string list"
  j_issuer :: string
  j_header :: string
  j_scheme :: string

text \<open>\<open>url.Parse\<close> of the endpoint: scheme and host, or an error.\<close>

definition validateJWKSURL :: "(string \<Rightarrow> (string \<times> string) result) \<Rightarrow> string \<Rightarrow> goerror option" where
  "validateJWKSURL url_Parse rawURL =
     (if rawURL = [] then Some (ErrorString ''auth: jwks url is required'')
      else case url_Parse rawURL of
             Inl err \<Rightarrow> Some (WrapError (''auth: invalid jwks url: '' @ Error err) [err])
           | Inr (scheme, host) \<Rightarrow>
               (if host = [] then Some (ErrorString ''auth: invalid jwks url: must be a valid absolute URL'')
                else if scheme \<noteq> ''https'' then Some (ErrorString ''auth: invalid jwks url: must use https'')
                else None))"

text \<open>\<open>ready\<close> is what the background load has stored so far: the wrapped function of the key set.\<close>

definition NewJWKSAuthenticator :: "(string \<Rightarrow> (string \<times> string) result) \<Rightarrow> ('t, 'k) keyfunc option \<Rightarrow> bool
    \<Rightarrow> string \<Rightarrow> string list \<Rightarrow> string \<Rightarrow> string \<Rightarrow> string \<Rightarrow> ('t, 'k) JWKSAuthenticator result" where
  "NewJWKSAuthenticator url_Parse ready keysPresent rawURL audiences issuer header scheme =
     (case validateJWKSURL url_Parse rawURL of
        Some err \<Rightarrow> Inl err
      | None \<Rightarrow>
          Inr \<lparr>j_keyfn = deferredKeyfunc (map_option (\<lambda>kf. wrapKeyfunc kf keysPresent) ready), j_audiences = audiences,
               j_issuer = issuer, j_header = canonicalHeader header, j_scheme = ResolveScheme scheme\<rparr>)"

definition audienceMatches :: "string list result \<Rightarrow> string list \<Rightarrow> bool" where
  "audienceMatches aud allowed = (case aud of Inl _ \<Rightarrow> False | Inr auds \<Rightarrow> list_ex (\<lambda>got. got \<in> set allowed) auds)"

definition JWKS_Authenticate :: "('t, 'k) jwt_parser \<Rightarrow> 'g grpc_api \<Rightarrow> ('t, 'k) JWKSAuthenticator \<Rightarrow> MD \<Rightarrow> goerror option" where
  "JWKS_Authenticate parse api a md =
     (case extractToken api md (j_header a) (j_scheme a) of
        None \<Rightarrow> Some (Reject Unauthenticated ''missing or malformed credentials''
                        (''jwks: missing or malformed '' @ j_header a @ '' header''))
      | Some raw \<Rightarrow>
          (case parse (j_keyfn a) \<lparr>validMethods = validSigningMethods, expirationRequired = True,
                                   po_issuer = (if j_issuer a \<noteq> [] then Some (j_issuer a) else None)\<rparr> raw of
             Inl err \<Rightarrow>
               (if errors_Is err errKeysUnavailable
                then Some (Reject Unavailable ''authentication temporarily unavailable'' (''jwks: '' @ Error err))
                else Some (Reject Unauthenticated ''invalid credentials'' (''jwks: token verification failed: '' @ Error err)))
           | Inr aud \<Rightarrow>
               (if j_audiences a \<noteq> [] \<and> \<not> audienceMatches aud (j_audiences a)
                then Some (Reject Unauthenticated ''invalid credentials'' ''jwks: audience not allowed'')
                else None)))"

definition jwks :: "('t, 'k) jwt_parser \<Rightarrow> 'g grpc_api \<Rightarrow> ('t, 'k) JWKSAuthenticator \<Rightarrow> 'g Authenticator" where
  "jwks parse api a = \<lparr>Authenticate = (\<lambda>_ _ md. JWKS_Authenticate parse api a md), SecureHeaders = [j_header a]\<rparr>"

subsection \<open>An extension server\<close>

datatype decision = DecisionAllow | DecisionDeny | DecisionOther int

datatype wireGroup = GROUP_CODEC_SERVER | GROUP_PPROF | GROUP_UNSPECIFIED

definition protoHTTPGroup :: "HTTPGroup \<Rightarrow> wireGroup" where
  "protoHTTPGroup g =
     (case g of
        HTTPGroupCodecServer \<Rightarrow> GROUP_CODEC_SERVER
      | HTTPGroupPProf \<Rightarrow> GROUP_PPROF
      | _ \<Rightarrow> GROUP_UNSPECIFIED)"

record wireTarget =
  w_FullName :: string
  w_Namespace :: string
  w_Http :: "(wireGroup \<times> string \<times> string) option"

definition protoTarget :: "Target \<Rightarrow> wireTarget" where
  "protoTarget t =
     \<lparr>w_FullName = FullName t, w_Namespace = Namespace t,
      w_Http = map_option (\<lambda>h. (protoHTTPGroup (h_Group h), h_Method h, h_Path h)) (HTTP t)\<rparr>"

text \<open>The request carries the target and the credentials; the rest of the metadata goes as the
  outgoing metadata of the call. The answer is a decision with a reason, or an error, of which
  \<open>status.Convert\<close> gives code and message.\<close>

type_synonym 'g auth_client = "'g \<Rightarrow> wireTarget \<Rightarrow> (string \<times> string list) list \<Rightarrow> (decision \<times> string) result"

definition clientMessageFor :: "code \<Rightarrow> string" where
  "clientMessageFor c =
     (case c of
        Unauthenticated \<Rightarrow> ''invalid credentials''
      | PermissionDenied \<Rightarrow> ''caller is not permitted''
      | _ \<Rightarrow> ''authentication temporarily unavailable'')"

fun lift_credentials :: "'g grpc_api \<Rightarrow> string list \<Rightarrow> MD \<Rightarrow> (string \<times> string list) list \<times> MD" where
  "lift_credentials api [] fwd = ([], fwd)"
| "lift_credentials api (h # hs) fwd =
     (case lift_credentials api hs (MD_Delete api fwd h) of
        (creds, fwd') \<Rightarrow> ((if MD_Get api fwd h \<noteq> [] then (h, MD_Get api fwd h) # creds else creds), fwd'))"

definition Auth_Authenticate :: "'g grpc_api \<Rightarrow> (goerror \<Rightarrow> code \<times> string) \<Rightarrow> 'g auth_client \<Rightarrow> string list \<Rightarrow> 'g goctx \<Rightarrow> Target \<Rightarrow> MD
    \<Rightarrow> goerror option" where
  "Auth_Authenticate api convert client headers ctx target md =
     (let (creds, fwd) = lift_credentials api headers md
      in case client (NewOutgoingContext api (grpc_part ctx) fwd) (protoTarget target) creds of
           Inl err \<Rightarrow>
             (let (c, m) = convert err in Some (Reject c (clientMessageFor c) (''external auth: '' @ m)))
         | Inr (d, reason) \<Rightarrow>
             (case d of
                DecisionAllow \<Rightarrow> None
              | DecisionDeny \<Rightarrow>
                  Some (Reject PermissionDenied (clientMessageFor PermissionDenied)
                          (''external auth: '' @ (if reason \<noteq> [] then reason else ''denied without a reason'')))
              | DecisionOther n \<Rightarrow>
                  Some (Reject Internal (clientMessageFor Internal) ''external auth: provider returned no usable decision'')))"

definition NewAuth :: "'g grpc_api \<Rightarrow> (goerror \<Rightarrow> code \<times> string) \<Rightarrow> 'g auth_client \<Rightarrow> string list \<Rightarrow> 'g Authenticator" where
  "NewAuth api convert client secureHeaders =
     (let headers = map ToLower secureHeaders
      in \<lparr>Authenticate = Auth_Authenticate api convert client headers, SecureHeaders = headers\<rparr>)"

section \<open>gRPC streams\<close>

datatype logLevel = Warn | Debug

text \<open>What is logged: level, method, code, reason.\<close>

type_synonym rejectionLog = "logLevel \<times> string \<times> code \<times> string"

definition expectedByLoopback :: "status_api \<Rightarrow> 'g goctx \<Rightarrow> goerror \<Rightarrow> bool" where
  "expectedByLoopback st ctx err =
     (if \<not> IsLoopback ctx then False
      else case status_Code st err of
             Unauthenticated \<Rightarrow> True
           | PermissionDenied \<Rightarrow> True
           | _ \<Rightarrow> False)"

text \<open>The context of the stream the handler is called with, or the error returned instead.\<close>

definition StreamServerInterceptor :: "'g grpc_api \<Rightarrow> status_api \<Rightarrow> 'g Authenticator \<Rightarrow> string \<Rightarrow> 'g goctx
    \<Rightarrow> 'g goctx result \<times> rejectionLog list" where
  "StreamServerInterceptor api st a fullMethod ctx =
     (let md = (case FromIncomingContext api (grpc_part ctx) of None \<Rightarrow> [] | Some md \<Rightarrow> md)
      in case Authenticate a ctx (TargetFrom ctx) md of
           Some err \<Rightarrow>
             (Inl err, [(if expectedByLoopback st ctx err then Debug else Warn, fullMethod, status_Code st err, Error err)])
         | None \<Rightarrow>
             (if SecureHeaders a \<noteq> []
              then let stripped = fold (\<lambda>hdr md. MD_Delete api md hdr) (SecureHeaders a) md
                   in (Inr (ctx\<lparr>grpc_part := NewIncomingContext api (grpc_part ctx) stripped\<rparr>), [])
              else (Inr ctx, [])))"

section \<open>HTTP\<close>

text \<open>\<open>http.CanonicalHeaderKey\<close>: the first letter and every letter after a hyphen in upper case; a
  name with a byte that no header name has is left as it is.\<close>

definition isTokenByte :: "char \<Rightarrow> bool" where
  "isTokenByte c =
     (let n = (of_char c :: nat)
      in 48 \<le> n \<and> n \<le> 57 \<or> 65 \<le> n \<and> n \<le> 90 \<or> 97 \<le> n \<and> n \<le> 122
         \<or> n \<in> set [0x21, 0x23, 0x24, 0x25, 0x26, 0x27, 0x2A, 0x2B, 0x2D, 0x2E, 0x5E, 0x5F, 0x60, 0x7C, 0x7E])"

definition upper_char :: "char \<Rightarrow> char" where
  "upper_char c = (if 97 \<le> (of_char c :: nat) \<and> (of_char c :: nat) \<le> 122 then char_of ((of_char c :: nat) - 32) else c)"

fun canonical :: "bool \<Rightarrow> string \<Rightarrow> string" where
  "canonical upper [] = []"
| "canonical upper (c # s) = (if upper then upper_char c else lower_char c) # canonical (c = CHR ''-'') s"

definition CanonicalHeaderKey :: "string \<Rightarrow> string" where
  "CanonicalHeaderKey s = (if list_all isTokenByte s then canonical True s else s)"

type_synonym http_Header = "string list gomap"

definition Header_Get :: "http_Header \<Rightarrow> string \<Rightarrow> string" where
  "Header_Get h key = (case lookup_all h (CanonicalHeaderKey key) of [] \<Rightarrow> [] | v # _ \<Rightarrow> v)"

definition Header_Del :: "http_Header \<Rightarrow> string \<Rightarrow> http_Header" where
  "Header_Del h key = filter (\<lambda>e. fst e \<noteq> CanonicalHeaderKey key) h"

text \<open>A request as the handlers here see it; they extend it with what they put on its context.\<close>

record 'g httpRequest =
  rq_Method :: string
  rq_Path :: string
  rq_Header :: http_Header
  rq_ctx :: "'g goctx"

text \<open>A handler answers with a status and a body, or calls the next one.\<close>

datatype 'r verdict = Answer int string | Next 'r

definition StatusText :: "int \<Rightarrow> string" where
  "StatusText st =
     (if st = 401 then ''Unauthorized'' else if st = 403 then ''Forbidden''
      else if st = 503 then ''Service Unavailable'' else [])"

definition defaultRejectionStatus :: "code \<Rightarrow> int" where
  "defaultRejectionStatus c =
     (case c of
        PermissionDenied \<Rightarrow> 403
      | Unavailable \<Rightarrow> 503
      | DeadlineExceeded \<Rightarrow> 503
      | _ \<Rightarrow> 401)"

definition headerMetadata :: "'g grpc_api \<Rightarrow> http_Header \<Rightarrow> MD" where
  "headerMetadata api h = fold (\<lambda>(key, vs) md. MD_Set api md key vs) h []"

definition HTTPMiddleware :: "'g grpc_api \<Rightarrow> status_api \<Rightarrow> 'g Authenticator \<Rightarrow> HTTPGroup \<Rightarrow> (('g, 'z) httpRequest_scheme \<Rightarrow> string)
    \<Rightarrow> (code \<Rightarrow> int) \<Rightarrow> (('g, 'z) httpRequest_scheme \<Rightarrow> ('g, 'z) httpRequest_scheme verdict \<times> rejectionLog list) result" where
  "HTTPMiddleware api st a grp namespace statusOf =
     (if grp = HTTPGroupUnspecified then Inl (ErrorString ''panic: auth: HTTPMiddleware requires a route group'')
      else Inr (\<lambda>r.
        let target = \<lparr>FullName = [], Namespace = namespace r,
                      HTTP = Some \<lparr>h_Group = grp, h_Method = rq_Method r, h_Path = rq_Path r\<rparr>\<rparr>
        in case Authenticate a (rq_ctx r) target (headerMetadata api (rq_Header r)) of
             Some err \<Rightarrow>
               (let c = status_Code st err; code = statusOf c
                in (Answer code (StatusText code), [(Warn, rq_Method r @ '' '' @ rq_Path r, c, Error err)]))
           | None \<Rightarrow>
               (Next (r\<lparr>rq_ctx := WithTarget (rq_ctx r) target,
                        rq_Header := fold (\<lambda>h hd. Header_Del hd h) (SecureHeaders a) (rq_Header r)\<rparr>), [])))"

section \<open>Choosing an authenticator\<close>

record StaticTokenConfig =
  stc_Token :: string
  stc_Header :: string
  stc_Scheme :: string

record JWKSConfig =
  jc_URL :: string
  jc_Audiences :: "string list"
  jc_Issuer :: string
  jc_Header :: string
  jc_Scheme :: string

record ExternalAuthConfig =
  ec_Name :: string
  ec_CredentialHeaders :: "string list"

record AuthConfig =
  External :: "ExternalAuthConfig option"
  StaticToken :: "StaticTokenConfig option"
  JWKS :: "JWKSConfig option"

definition StaticTokenConfig_Validate :: "StaticTokenConfig \<Rightarrow> verr option" where
  "StaticTokenConfig_Validate c = Validate [] [FieldRule ''token'' (stc_Token c) [Required []]]"

definition JWKSConfig_Validate :: "(string \<Rightarrow> (string \<times> string) result) \<Rightarrow> JWKSConfig \<Rightarrow> verr option" where
  "JWKSConfig_Validate url_Parse c =
     Validate [] [FieldRule ''url'' (jc_URL c)
       [Required [],
        \<lambda>s. case url_Parse s of
              Inl _ \<Rightarrow> Some (Plain ''must be a valid absolute URL'')
            | Inr (scheme, host) \<Rightarrow>
                (if host = [] then Some (Plain ''must be a valid absolute URL'')
                 else if scheme \<noteq> ''https'' then Some (Plain ''must use https'') else None)]]"

definition ExternalAuthConfig_Validate :: "ExternalAuthConfig \<Rightarrow> verr option" where
  "ExternalAuthConfig_Validate c = Validate [] [FieldRule ''name'' (ec_Name c) [Required []]]"

definition AuthConfig_Validate :: "(string \<Rightarrow> (string \<times> string) result) \<Rightarrow> AuthConfig \<Rightarrow> verr option" where
  "AuthConfig_Validate url_Parse a =
     (let n = (if External a \<noteq> None then 1 else 0) + (if StaticToken a \<noteq> None then 1 else 0) + (if JWKS a \<noteq> None then 1 else 0 :: nat)
      in Validate []
           [if n \<noteq> 1 then [\<lparr>Subject = [], Field = [], VMessage = ''exactly one of external, staticToken, or jwks must be set''\<rparr>] else [],
            (case External a of Some c \<Rightarrow> Nested ''external'' (ExternalAuthConfig_Validate c) | None \<Rightarrow> []),
            (case StaticToken a of Some c \<Rightarrow> Nested ''staticToken'' (StaticTokenConfig_Validate c) | None \<Rightarrow> []),
            (case JWKS a of Some c \<Rightarrow> Nested ''jwks'' (JWKSConfig_Validate url_Parse c) | None \<Rightarrow> [])])"

text \<open>What the choice depends on besides the configuration.\<close>

record ('g, 't, 'k) auth_env =
  ae_url_Parse :: "string \<Rightarrow> (string \<times> string) result"
  ae_parser :: "('t, 'k) jwt_parser"
  ae_ready :: "('t, 'k) keyfunc option"
  ae_keysPresent :: bool
  ae_convert :: "goerror \<Rightarrow> code \<times> string"
  ae_conns :: "'g auth_client gomap"

definition Auth_For :: "'g grpc_api \<Rightarrow> ('g, 't, 'k) auth_env \<Rightarrow> AuthConfig option \<Rightarrow> 'g Authenticator result" where
  "Auth_For api env ac =
     (case ac of
        None \<Rightarrow> Inr AdmitAll
      | Some ac \<Rightarrow>
          (case AuthConfig_Validate (ae_url_Parse env) ac of
             Some err \<Rightarrow> Inl (ErrorString ''auth: invalid configuration'')
           | None \<Rightarrow>
               (case (External ac, StaticToken ac, JWKS ac) of
                  (Some ext, _, _) \<Rightarrow>
                    (case map_of (ae_conns env) (ec_Name ext) of
                       None \<Rightarrow> Inl (ErrorString (''auth: external authentication names unknown extension server '' @ ec_Name ext))
                     | Some cc \<Rightarrow> Inr (NewAuth api (ae_convert env) cc (ec_CredentialHeaders ext)))
                | (None, Some c, _) \<Rightarrow>
                    map_sum id (staticToken api) (NewStaticTokenAuthenticator (stc_Token c) (stc_Header c) (stc_Scheme c))
                | (None, None, Some c) \<Rightarrow>
                    map_sum id (jwks (ae_parser env) api)
                      (NewJWKSAuthenticator (ae_url_Parse env) (ae_ready env) (ae_keysPresent env) (jc_URL c) (jc_Audiences c)
                         (jc_Issuer c) (jc_Header c) (jc_Scheme c))
                | (None, None, None) \<Rightarrow> Inl (ErrorString ''panic: nil JWKS configuration''))))"

section \<open>Lemmas\<close>

locale authenticator =
  fixes a :: "'g Authenticator"
  assumes rejects_with_status: "Authenticate a ctx target md = Some err \<Longrightarrow> \<exists>c m d. err = Rejection c m d"
    and headers_lower: "h \<in> set (SecureHeaders a) \<Longrightarrow> ToLower h = h"
begin

text \<open>A stream reaches its handler when the authenticator admits it, without the headers it consumed.\<close>

lemma stream_gate:
  assumes "metadata_doc api"
  shows "case StreamServerInterceptor api st a fullMethod ctx of
      (Inl err, log) \<Rightarrow> Authenticate a ctx (TargetFrom ctx) (incoming api ctx) = Some err \<and> (\<exists>c m. GRPCStatus err = Some (c, m)) \<and> length log = 1
    | (Inr ctx', log) \<Rightarrow> Authenticate a ctx (TargetFrom ctx) (incoming api ctx) = None \<and> log = [] \<and> TargetFrom ctx' = TargetFrom ctx
        \<and> outgoing api ctx' = outgoing api ctx
        \<and> (\<forall>k. MD_Get api (incoming api ctx') k = (if ToLower k \<in> set (SecureHeaders a) then [] else MD_Get api (incoming api ctx) k))"
proof (cases "Authenticate a ctx (TargetFrom ctx) (incoming api ctx)")
  case (Some err)
  then show ?thesis using rejects_with_status [OF Some]
    by (auto simp: StreamServerInterceptor_def incoming_def GRPCStatus_def)
next
  case None
  let ?md = "fold (\<lambda>hdr md. MD_Delete api md hdr) (SecureHeaders a) (incoming api ctx)"
  have lower: "ToLower ` set (SecureHeaders a) = set (SecureHeaders a)" using headers_lower by force
  note wf = incoming_wf [OF assms, of ctx]
  have "FromIncomingContext api (NewIncomingContext api (grpc_part ctx) ?md) = Some ?md"
    using strip_wf [OF assms, of "incoming api ctx" "SecureHeaders a"] wf by (simp add: metadata_docD(11) [OF assms])
  then show ?thesis using None strip_get [OF assms, of "incoming api ctx" "SecureHeaders a"] wf lower
    by (auto simp: StreamServerInterceptor_def incoming_def outgoing_def TargetFrom_def metadata_docD(12) [OF assms])
qed

text \<open>So does a request on an HTTP route, which also carries its target from then on.\<close>

lemma http_gate:
  assumes "HTTPMiddleware api st a grp namespace statusOf = Inr handler" "status_doc st"
  shows "case handler r of
      (Answer code body, log) \<Rightarrow> (\<exists>c m d. code = statusOf c \<and> body = StatusText code \<and> length log = 1
          \<and> Authenticate a (rq_ctx r) \<lparr>FullName = [], Namespace = namespace r, HTTP = Some \<lparr>h_Group = grp, h_Method = rq_Method r, h_Path = rq_Path r\<rparr>\<rparr>
              (headerMetadata api (rq_Header r)) = Some (Rejection c m d))
    | (Next r', log) \<Rightarrow> Authenticate a (rq_ctx r) \<lparr>FullName = [], Namespace = namespace r, HTTP = Some \<lparr>h_Group = grp, h_Method = rq_Method r, h_Path = rq_Path r\<rparr>\<rparr>
              (headerMetadata api (rq_Header r)) = None
        \<and> log = [] \<and> Namespace (TargetFrom (rq_ctx r')) = namespace r \<and> rq_Method r' = rq_Method r
        \<and> (\<forall>h\<in>set (SecureHeaders a). lookup_all (rq_Header r') (CanonicalHeaderKey h) = [])"
proof -
  have del: "lookup_all (fold (\<lambda>h hd. Header_Del hd h) hs hd) k = (if k \<in> CanonicalHeaderKey ` set hs then [] else lookup_all hd k)" for hs hd k
    by (induction hs arbitrary: hd) (auto simp: Header_Del_def lookup_all_filter [where P = "\<lambda>x. x \<noteq> y" for y])
  have code: "status_Code st (Rejection c m d) = c" for c m d using assms(2) by (simp add: status_doc_def)
  show ?thesis
    using assms(1) rejects_with_status
    by (force simp: HTTPMiddleware_def Let_def del code split: if_splits option.splits)
qed

end

lemma canonicalHeader_lower: "ToLower (canonicalHeader h) = canonicalHeader h"
proof -
  have "ToLower defaultHeader = defaultHeader" by code_simp
  then show ?thesis by (simp add: canonicalHeader_def)
qed

interpretation admit_all: authenticator AdmitAll
  by unfold_locales (simp_all add: AdmitAll_def)

interpretation static_token: authenticator "staticToken api (a\<lparr>st_header := canonicalHeader h\<rparr>)" for api a h
  by unfold_locales
    (auto simp: staticToken_def StaticToken_Authenticate_def Reject_def canonicalHeader_lower split: option.splits if_splits)

interpretation jwks_auth: authenticator "jwks parse api (a\<lparr>j_header := canonicalHeader h\<rparr>)" for parse api a h
  by unfold_locales
    (auto simp: jwks_def JWKS_Authenticate_def Reject_def canonicalHeader_lower split: option.splits if_splits sum.splits)

interpretation external: authenticator "NewAuth api convert client headers" for api convert client headers
  by unfold_locales
    (auto simp: NewAuth_def Auth_Authenticate_def Reject_def Let_def split: option.splits prod.splits sum.splits decision.splits)

text \<open>Whatever is configured is one of the four.\<close>

lemma Auth_For_authenticator:
  assumes "Auth_For api env ac = Inr a"
  shows "authenticator a"
proof -
  have st: "authenticator (staticToken api b)" if "NewStaticTokenAuthenticator t h s = Inr b" for t h s b
    using that static_token.authenticator_axioms [where api = api and a = b and h = h] by (auto simp: NewStaticTokenAuthenticator_def split: if_splits)
  have jw: "authenticator (jwks parse api b)" if "NewJWKSAuthenticator u r k url au i h s = Inr b" for u r k url au i h s b parse
    using that jwks_auth.authenticator_axioms [where parse = parse and api = api and a = b and h = h] by (auto simp: NewJWKSAuthenticator_def split: option.splits)
  show ?thesis
    using assms st jw admit_all.authenticator_axioms external.authenticator_axioms
    unfolding Auth_For_def by (auto split: option.splits prod.splits sum.splits simp: map_sum_def)
qed

subsection \<open>Tokens\<close>

lemma EqualFold_length: "EqualFold s t \<Longrightarrow> length s = length t"
  unfolding EqualFold_def ToLower_def by (rule map_eq_imp_length_eq)

lemma extractToken_iff:
  "extractToken api md header scheme = Some got \<longleftrightarrow>
     (\<exists>v vs p. MD_Get api md header = v # vs \<and> v = p @ got \<and> (if scheme = [] then p = [] else EqualFold p (scheme @ '' '')))"
proof (cases "MD_Get api md header")
  case (Cons v vs)
  have "length (take (length (scheme @ '' '')) v) = length (scheme @ '' '')" if "EqualFold (take (length (scheme @ '' '')) v) (scheme @ '' '')"
    using that by (rule EqualFold_length)
  moreover have "p = take (length (scheme @ '' '')) v \<and> got = drop (length (scheme @ '' '')) v"
    if "v = p @ got" "EqualFold p (scheme @ '' '')" for p
    using that EqualFold_length [OF that(2)] by simp
  ultimately show ?thesis using Cons unfolding extractToken_def Let_def
    by (cases "scheme = []") (auto intro!: exI [of _ "take (length (scheme @ '' '')) v"])
qed (simp add: extractToken_def)

text \<open>The credentials that are lifted and what is left.\<close>

lemma lift_credentials_snd: "snd (lift_credentials api hs fwd) = fold (\<lambda>h md. MD_Delete api md h) hs fwd"
  by (induction hs arbitrary: fwd) (auto split: prod.splits, metis snd_conv)

lemma lift_credentials_fst:
  assumes "metadata_doc api" "lower_keys fwd" "distinct hs" "\<forall>h\<in>set hs. ToLower h = h"
  shows "fst (lift_credentials api hs fwd) = map (\<lambda>h. (h, MD_Get api fwd h)) (filter (\<lambda>h. MD_Get api fwd h \<noteq> []) hs)"
  using assms(2-)
proof (induction hs arbitrary: fwd)
  case (Cons h hs)
  let ?f = "MD_Delete api fwd h"
  have low: "lower_keys ?f" using Cons.prems(1) by (auto simp: metadata_docD(9) [OF assms(1)] lower_keys_def)
  have "MD_Get api ?f k = MD_Get api fwd k" if "k \<in> set hs" for k
    using strip_get [OF assms(1) Cons.prems(1), of "[h]" k] that Cons.prems(2,3) by auto
  then have "fst (lift_credentials api hs ?f) = map (\<lambda>h. (h, MD_Get api fwd h)) (filter (\<lambda>h. MD_Get api fwd h \<noteq> []) hs)"
    using Cons.IH [OF low] Cons.prems(2,3) by (auto intro!: map_cong filter_cong)
  then show ?case by (auto split: prod.splits)
qed simp

section \<open>Properties\<close>

text \<open>
  Nothing passes unauthenticated. Whatever authenticator the configuration selects, a stream
  reaches its handler exactly when that authenticator admits it, given its target and metadata;
  the handler then sees none of the headers that carry credentials and every other header, its
  target and its outgoing metadata unchanged. A rejected caller gets an error with a gRPC status,
  and the rejection is logged once.
\<close>

theorem Auth_gate:
  assumes "metadata_doc api" "Auth_For api env ac = Inr a"
  shows "case StreamServerInterceptor api st a fullMethod ctx of
      (Inl err, log) \<Rightarrow> Authenticate a ctx (TargetFrom ctx) (incoming api ctx) = Some err \<and> (\<exists>c m. GRPCStatus err = Some (c, m)) \<and> length log = 1
    | (Inr ctx', log) \<Rightarrow> Authenticate a ctx (TargetFrom ctx) (incoming api ctx) = None \<and> log = [] \<and> TargetFrom ctx' = TargetFrom ctx
        \<and> outgoing api ctx' = outgoing api ctx
        \<and> (\<forall>k. MD_Get api (incoming api ctx') k = (if ToLower k \<in> set (SecureHeaders a) then [] else MD_Get api (incoming api ctx) k))"
  using authenticator.stream_gate [OF Auth_For_authenticator [OF assms(2)] assms(1)] .

definition ex_auth_env :: "(ex_grpc, string, string) auth_env" where
  "ex_auth_env = \<lparr>ae_url_Parse = (\<lambda>u. if HasPrefix u ''https://'' then Inr (''https'', drop 8 u) else Inl (ErrorString ''bad url'')),
     ae_parser = (\<lambda>kf opts raw. map_sum id (\<lambda>k. Inr [k]) (kf raw)), ae_ready = None, ae_keysPresent = False,
     ae_convert = (\<lambda>e. (Unknown, Error e)), ae_conns = []\<rparr>"

definition ex_auth :: AuthConfig where
  "ex_auth = \<lparr>External = None, StaticToken = Some \<lparr>stc_Token = ''s3cret'', stc_Header = [], stc_Scheme = []\<rparr>, JWKS = None\<rparr>"

definition ex_token_auth :: "ex_grpc Authenticator" where
  "ex_token_auth = staticToken ex_api \<lparr>st_token = ''s3cret'', st_header = ''authorization'', st_scheme = ''Bearer''\<rparr>"

definition ex_stream :: "ex_grpc goctx" where
  "ex_stream = \<lparr>grpc_part = \<lparr>g_in = Some [(''authorization'', [''bearer s3cret'']), (''x-id'', [''7''])], g_out = None, g_method = None\<rparr>,
     targetKey = None, loopbackKey = None\<rparr>"

lemma ex_Auth_For: "Auth_For ex_api ex_auth_env (Some ex_auth) = Inr ex_token_auth"
proof -
  have "AuthConfig_Validate (ae_url_Parse ex_auth_env) ex_auth = None"
    by (simp add: AuthConfig_Validate_def ex_auth_def Validate_def Nested_def StaticTokenConfig_Validate_def FieldRule_def Required_def)
  then show ?thesis
    by (simp add: Auth_For_def ex_auth_def NewStaticTokenAuthenticator_def ex_token_auth_def canonicalHeader_def defaultHeader_def
        ResolveScheme_def defaultScheme_def)
qed

theorem Auth_gate_witness:
  "\<exists>ctx'. StreamServerInterceptor ex_api ex_status ex_token_auth ''m'' ex_stream = (Inr ctx', [])
     \<and> MD_Get ex_api (incoming ex_api ctx') ''authorization'' = [] \<and> MD_Get ex_api (incoming ex_api ctx') ''x-id'' = [''7'']"
proof -
  have "Authenticate ex_token_auth ex_stream (TargetFrom ex_stream) (incoming ex_api ex_stream) = None" by code_simp
  with Auth_gate [OF ex_api_doc ex_Auth_For, where st = ex_status and fullMethod = "''m''" and ctx = ex_stream]
  obtain ctx' where *: "StreamServerInterceptor ex_api ex_status ex_token_auth ''m'' ex_stream = (Inr ctx', [])"
    "\<forall>k. MD_Get ex_api (incoming ex_api ctx') k = (if ToLower k \<in> set (SecureHeaders ex_token_auth) then [] else MD_Get ex_api (incoming ex_api ex_stream) k)"
    by (auto split: prod.splits sum.splits)
  have "ToLower ''authorization'' \<in> set (SecureHeaders ex_token_auth)" "ToLower ''x-id'' \<notin> set (SecureHeaders ex_token_auth)"
    "MD_Get ex_api (incoming ex_api ex_stream) ''x-id'' = [''7'']" by code_simp+
  with * show ?thesis by simp
qed

text \<open>
  The static token admits exactly the callers that present it: the first value of the header
  is the scheme in any case, a space and the configured token, or the bare token where the scheme
  is \<open>none\<close>. The token is never empty, so an empty header never passes, and what a rejected caller
  is told does not depend on the token.
\<close>

theorem StaticToken_admits:
  assumes "NewStaticTokenAuthenticator token header scheme = Inr a"
  shows "(StaticToken_Authenticate api a md = None \<longleftrightarrow>
      (\<exists>v vs p. MD_Get api md (canonicalHeader header) = v # vs \<and> v = p @ token
         \<and> (if ResolveScheme scheme = [] then p = [] else EqualFold p (ResolveScheme scheme @ '' ''))))
    \<and> token \<noteq> []
    \<and> (\<forall>err. StaticToken_Authenticate api a md = Some err \<longrightarrow>
         GRPCStatus err \<in> {Some (Unauthenticated, ''missing or malformed credentials''), Some (Unauthenticated, ''invalid credentials'')})"
proof -
  have a: "a = \<lparr>st_token = token, st_header = canonicalHeader header, st_scheme = ResolveScheme scheme\<rparr>" "token \<noteq> []"
    using assms by (auto simp: NewStaticTokenAuthenticator_def split: if_splits)
  have "StaticToken_Authenticate api a md = None \<longleftrightarrow> extractToken api md (canonicalHeader header) (ResolveScheme scheme) = Some token"
    using a by (auto simp: StaticToken_Authenticate_def split: option.splits)
  with a show ?thesis unfolding extractToken_iff
    by (auto simp: StaticToken_Authenticate_def Reject_def GRPCStatus_def split: option.splits if_splits)
qed

theorem StaticToken_admits_witness:
  "StaticToken_Authenticate ex_api \<lparr>st_token = ''s3cret'', st_header = ''authorization'', st_scheme = ''Bearer''\<rparr>
     [(''authorization'', [''BEARER s3cret''])] = None"
proof -
  let ?a = "\<lparr>st_token = ''s3cret'', st_header = ''authorization'', st_scheme = ''Bearer''\<rparr>"
  have new: "NewStaticTokenAuthenticator ''s3cret'' [] [] = Inr ?a"
    by (simp add: NewStaticTokenAuthenticator_def canonicalHeader_def defaultHeader_def ResolveScheme_def defaultScheme_def)
  have "MD_Get ex_api [(''authorization'', [''BEARER s3cret''])] (canonicalHeader []) = [''BEARER '' @ ''s3cret'']"
    "EqualFold ''BEARER '' (ResolveScheme [] @ '' '')" "ResolveScheme [] \<noteq> []" by code_simp+
  then show ?thesis using StaticToken_admits [OF new, of ex_api "[(''authorization'', [''BEARER s3cret''])]"] by fastforce
qed

text \<open>What the JWT library documents: a token is accepted only with a key the key function gave.\<close>

definition jwt_doc :: "('t, 'k) jwt_parser \<Rightarrow> bool" where
  "jwt_doc parse \<longleftrightarrow> (\<forall>kf opts raw aud. parse kf opts raw = Inr aud \<longrightarrow> (\<exists>t k. kf t = Inr k))"

text \<open>
  Authentication fails closed. A JWT is admitted only if the library verified it with a key of
  the key set, restricted to asymmetric algorithms and with an expiry, and its audience is allowed;
  before the key set has been loaded nobody is. An extension server admits only by an explicit
  allow; it is asked with the caller's credentials lifted out of the metadata, in the configured
  order, and none of them left in it; an error keeps its code.
\<close>

theorem Auth_fails_closed:
  assumes "jwt_doc parse" "NewJWKSAuthenticator url_Parse ready keysPresent rawURL audiences issuer header scheme = Inr a"
    and "metadata_doc api" "distinct (map ToLower hs)" "lower_keys md"
  shows "(JWKS_Authenticate parse api a md = None \<longrightarrow>
        ready \<noteq> None \<and> (\<exists>raw aud t k. extractToken api md (j_header a) (j_scheme a) = Some raw \<and> the ready t = Inr k
          \<and> parse (j_keyfn a) \<lparr>validMethods = validSigningMethods, expirationRequired = True, po_issuer = (if issuer \<noteq> [] then Some issuer else None)\<rparr> raw = Inr aud
          \<and> (audiences = [] \<or> audienceMatches aud audiences)))
    \<and> (Authenticate (NewAuth api convert client hs) ctx target md = None \<longleftrightarrow>
        (\<exists>reason. client (NewOutgoingContext api (grpc_part ctx) (fold (\<lambda>h md. MD_Delete api md h) (map ToLower hs) md)) (protoTarget target)
           (map (\<lambda>h. (h, MD_Get api md h)) (filter (\<lambda>h. MD_Get api md h \<noteq> []) (map ToLower hs))) = Inr (DecisionAllow, reason)))"
proof (intro conjI impI)
  have a: "j_keyfn a = deferredKeyfunc (map_option (\<lambda>kf. wrapKeyfunc kf keysPresent) ready)" "j_audiences a = audiences" "j_issuer a = issuer"
    using assms(2) by (auto simp: NewJWKSAuthenticator_def split: option.splits)
  have key: "\<exists>kf. ready = Some kf \<and> kf t = Inr k" if "j_keyfn a t = Inr k" for t k
    using that unfolding a by (auto simp: deferredKeyfunc_def wrapKeyfunc_def split: option.splits sum.splits if_splits)
  assume "JWKS_Authenticate parse api a md = None"
  then obtain raw aud where r: "extractToken api md (j_header a) (j_scheme a) = Some raw"
      "parse (j_keyfn a) \<lparr>validMethods = validSigningMethods, expirationRequired = True, po_issuer = (if issuer \<noteq> [] then Some issuer else None)\<rparr> raw = Inr aud"
      "audiences = [] \<or> audienceMatches aud audiences"
    unfolding JWKS_Authenticate_def a(2,3) by (auto split: option.splits sum.splits if_splits)
  then obtain t k where "j_keyfn a t = Inr k" using assms(1) unfolding jwt_doc_def by blast
  from key [OF this] obtain kf where "ready = Some kf" "kf t = Inr k" by blast
  with r show "ready \<noteq> None" "\<exists>raw aud t k. extractToken api md (j_header a) (j_scheme a) = Some raw \<and> the ready t = Inr k
      \<and> parse (j_keyfn a) \<lparr>validMethods = validSigningMethods, expirationRequired = True, po_issuer = (if issuer \<noteq> [] then Some issuer else None)\<rparr> raw = Inr aud
      \<and> (audiences = [] \<or> audienceMatches aud audiences)" by auto
next
  have "fst (lift_credentials api (map ToLower hs) md) = map (\<lambda>h. (h, MD_Get api md h)) (filter (\<lambda>h. MD_Get api md h \<noteq> []) (map ToLower hs))"
    using lift_credentials_fst [OF assms(3,5,4)] by simp
  then show "Authenticate (NewAuth api convert client hs) ctx target md = None \<longleftrightarrow>
        (\<exists>reason. client (NewOutgoingContext api (grpc_part ctx) (fold (\<lambda>h md. MD_Delete api md h) (map ToLower hs) md)) (protoTarget target)
           (map (\<lambda>h. (h, MD_Get api md h)) (filter (\<lambda>h. MD_Get api md h \<noteq> []) (map ToLower hs))) = Inr (DecisionAllow, reason))"
    using lift_credentials_snd [of api "map ToLower hs" md]
    by (auto simp: NewAuth_def Auth_Authenticate_def Let_def split: prod.splits sum.splits decision.splits)
qed

text \<open>A key set with one key, whose tokens name their audience; and a server that allows one key.\<close>

definition ex_parse :: "(string, string) jwt_parser" where
  "ex_parse kf opts raw = map_sum id (\<lambda>k. Inr [k]) (kf raw)"

definition ex_keys :: "(string, string) keyfunc" where
  "ex_keys t = (if t = ''jwt'' then Inr ''aud'' else Inl ErrKeyNotFound_jwks)"

definition ex_jwks :: "(string, string) keyfunc option \<Rightarrow> (string, string) JWKSAuthenticator" where
  "ex_jwks ready = \<lparr>j_keyfn = deferredKeyfunc (map_option (\<lambda>kf. wrapKeyfunc kf True) ready), j_audiences = [''aud''], j_issuer = [],
     j_header = ''authorization'', j_scheme = ''Bearer''\<rparr>"

definition ex_client :: "ex_grpc auth_client" where
  "ex_client g target creds = (if creds = [(''x-key'', [''k1''])] then Inr (DecisionAllow, []) else Inr (DecisionDeny, []))"

definition ex_creds :: MD where
  "ex_creds = [(''authorization'', [''Bearer jwt'']), (''x-key'', [''k1''])]"

lemma ex_NewJWKS:
  "NewJWKSAuthenticator (\<lambda>u. Inr (''https'', u)) ready True ''idp'' [''aud''] [] [] [] = Inr (ex_jwks ready)"
  by (simp add: NewJWKSAuthenticator_def validateJWKSURL_def ex_jwks_def canonicalHeader_def defaultHeader_def ResolveScheme_def defaultScheme_def)

theorem Auth_fails_closed_witness:
  "JWKS_Authenticate ex_parse ex_api (ex_jwks (Some ex_keys)) ex_creds = None \<and> JWKS_Authenticate ex_parse ex_api (ex_jwks None) ex_creds \<noteq> None
   \<and> Authenticate (NewAuth ex_api (\<lambda>e. (Unknown, [])) ex_client [''X-Key'']) ex_ctx (TargetFrom ex_ctx) ex_creds = None"
proof (intro conjI)
  have doc: "jwt_doc ex_parse" unfolding jwt_doc_def ex_parse_def by (metis map_sum.simps(1) sum.collapse(2) sum.disc(1) sum.exhaust_sel sum.simps(4) Inr_not_Inl)
  have hs: "distinct (map ToLower [''X-Key''])" by simp
  have low: "lower_keys ex_creds" unfolding lower_keys_def by code_simp
  show "JWKS_Authenticate ex_parse ex_api (ex_jwks (Some ex_keys)) ex_creds = None" by code_simp
  note closed = Auth_fails_closed [OF doc ex_NewJWKS ex_api_doc hs low]
  show "JWKS_Authenticate ex_parse ex_api (ex_jwks None) ex_creds \<noteq> None" using closed [where ready = None] by blast
  have "map (\<lambda>h. (h, MD_Get ex_api ex_creds h)) (filter (\<lambda>h. MD_Get ex_api ex_creds h \<noteq> []) (map ToLower [''X-Key''])) = [(''x-key'', [''k1''])]"
    by code_simp
  then show "Authenticate (NewAuth ex_api (\<lambda>e. (Unknown, [])) ex_client [''X-Key'']) ex_ctx (TargetFrom ex_ctx) ex_creds = None"
    using closed [where ready = None and client = ex_client and ctx = ex_ctx and target = "TargetFrom ex_ctx"] by (simp add: ex_client_def)
qed

end
