(* ===== verification/Go_Strings.thy ===== *)
theory Go_Strings
  imports Go_Prelude
begin

text \<open>
  More of package \<open>strings\<close>: trimming of white space and of a cut set, splitting at a byte, and
  searching. White space is \<open>unicode.IsSpace\<close>; over byte sequences, a space is one of the UTF-8
  encodings below, at the front or at the end. Invalid encodings are never spaces.
\<close>

definition spaces :: "string list" where
  "spaces = map (\<lambda>n. [char_of n]) [9, 10, 11, 12, 13, 32 :: nat]
     @ map (map char_of) [[0xC2, 0x85], [0xC2, 0xA0], [0xE1, 0x9A, 0x80 :: nat]]
     @ map (\<lambda>n. map char_of [0xE2, 0x80, n]) ([0x80..<0x8B] @ [0xA8, 0xA9, 0xAF :: nat])
     @ map (map char_of) [[0xE2, 0x81, 0x9F], [0xE3, 0x80, 0x80 :: nat]]"

text \<open>Drop prefixes of a list for as long as there is one.\<close>

function trimFront :: "string list \<Rightarrow> string \<Rightarrow> string" where
  "trimFront ps s =
     (case find (\<lambda>p. p \<noteq> [] \<and> HasPrefix s p) ps of
        None \<Rightarrow> s
      | Some p \<Rightarrow> trimFront ps (drop (length p) s))"
  by pat_completeness auto
termination
proof (relation "measure (\<lambda>(ps, s). length s)", goal_cases)
  case (2 ps s p)
  then have "p \<noteq> [] \<and> HasPrefix s p" by (auto simp: find_Some_iff)
  then have "p \<noteq> []" "s \<noteq> []" by (auto simp: HasPrefix_def)
  then show ?case by simp
qed simp

declare trimFront.simps [simp del]

definition TrimSpace :: "string \<Rightarrow> string" where
  "TrimSpace s = rev (trimFront (map rev spaces) (rev (trimFront spaces s)))"

text \<open>\<open>strings.TrimLeft\<close> with a cut set of ASCII bytes.\<close>

definition TrimLeft :: "string \<Rightarrow> char set \<Rightarrow> string" where
  "TrimLeft s cutset = dropWhile (\<lambda>c. c \<in> cutset) s"

text \<open>\<open>strings.ContainsAny\<close> with ASCII bytes.\<close>

definition ContainsAny :: "string \<Rightarrow> char list \<Rightarrow> bool" where
  "ContainsAny s chars = list_ex (\<lambda>c. c \<in> set chars) s"

text \<open>\<open>strings.Split\<close> at a one-byte separator.\<close>

fun SplitChar :: "string \<Rightarrow> char \<Rightarrow> string list" where
  "SplitChar [] c = [[]]"
| "SplitChar (x # s) c =
     (if x = c then [] # SplitChar s c
      else case SplitChar s c of [] \<Rightarrow> [[x]] | w # ws \<Rightarrow> (x # w) # ws)"

text \<open>\<open>strings.Index\<close>: \<open>None\<close> for \<open>-1\<close>.\<close>

fun Index :: "string \<Rightarrow> string \<Rightarrow> nat option" where
  "Index [] t = (if t = [] then Some 0 else None)"
| "Index (c # s) t = (if HasPrefix (c # s) t then Some 0 else map_option Suc (Index s t))"

section \<open>Lemmas\<close>

lemma trimFront_id: "find (\<lambda>p. p \<noteq> [] \<and> HasPrefix s p) ps = None \<Longrightarrow> trimFront ps s = s"
  by (subst trimFront.simps) simp

lemma trimFront_Nil [simp]: "trimFront ps [] = []"
  by (rule trimFront_id) (auto simp: find_None_iff HasPrefix_def)

text \<open>A byte that is in no space keeps a string from being trimmed.\<close>

lemma trimFront_keep:
  assumes "\<forall>p\<in>set ps. p \<noteq> [] \<longrightarrow> hd p \<noteq> c"
  shows "trimFront ps (c # s) = c # s"
proof (rule trimFront_id)
  have "\<not> (p \<noteq> [] \<and> HasPrefix (c # s) p)" if "p \<in> set ps" for p
    using assms that by (cases p) (auto simp: HasPrefix_def)
  then show "find (\<lambda>p. p \<noteq> [] \<and> HasPrefix (c # s) p) ps = None" by (auto simp: find_None_iff)
qed

definition visible :: "char \<Rightarrow> bool" where
  "visible c \<longleftrightarrow> 33 \<le> (of_char c :: nat) \<and> (of_char c :: nat) \<le> 126"

lemma spaces_ends:
  "list_all (\<lambda>p. p \<noteq> [] \<and> \<not> visible (hd p) \<and> \<not> visible (last p)) spaces"
  by code_simp

lemma TrimSpace_visible:
  assumes "s \<noteq> [] \<Longrightarrow> visible (hd s) \<and> visible (last s)"
  shows "TrimSpace s = s"
proof (cases "s = []")
  case False
  then have "s = hd s # tl s" "rev s = last s # rev (butlast s)"
    by (simp, metis append_butlast_last_id rev_append rev_singleton_conv append_Cons append_Nil)
  moreover have "trimFront spaces (hd s # tl s) = hd s # tl s"
    using spaces_ends assms [OF False] by (intro trimFront_keep) (auto simp: list_all_iff)
  moreover have "trimFront (map rev spaces) (last s # rev (butlast s)) = last s # rev (butlast s)"
    using spaces_ends assms [OF False] by (intro trimFront_keep) (auto simp: list_all_iff hd_rev)
  ultimately show ?thesis unfolding TrimSpace_def by (metis rev_rev_ident)
qed (simp add: TrimSpace_def)

text \<open>For evaluation: most strings have nothing to trim.\<close>

lemma TrimSpace_code [code]:
  "TrimSpace s =
     (if s = [] \<or> visible (hd s) \<and> visible (last s) then s
      else rev (trimFront (map rev spaces) (rev (trimFront spaces s))))"
  using TrimSpace_visible [of s] by (auto simp: TrimSpace_def)

lemma SplitChar_ne [simp]: "SplitChar s c \<noteq> []"
  by (cases s) (auto split: list.splits)

end
