(* ===== verification/Bytesize.thy ===== *)
theory Bytesize
  imports Go_Strings Decimal "HOL-Library.Word" "HOL-Library.Signed_Division"
begin

text \<open>
  \<open>internal/config/bytesize.go\<close>: sizes with a unit. A \<open>ByteSize\<close> is an \<open>int64\<close>, hence a word of 64
  bits read as a signed number; the product of number and unit is taken on words, where it would
  wrap around. The properties say that it never does, and that printing and parsing are inverse.
\<close>

section \<open>Definitions\<close>

type_synonym ByteSize = "64 word"

definition byteUnitOrder :: "string list" where
  "byteUnitOrder = [''GiB'', ''GB'', ''MiB'', ''MB'', ''KiB'', ''KB'']"

definition byteUnits :: "int gomap" where
  "byteUnits = [('''', 1), (''B'', 1), (''KB'', 1000), (''MB'', 1000000), (''GB'', 1000000000),
     (''KiB'', 2 ^ 10), (''MiB'', 2 ^ 20), (''GiB'', 2 ^ 30)]"

definition errInvalidByteSize :: goerror where
  "errInvalidByteSize = ErrorString ''invalid byte size''"

definition digits :: "char set" where
  "digits = set ''0123456789''"

text \<open>The error values; the size quoted in a message is left out.\<close>

definition errWholeNumber :: goerror where
  "errWholeNumber = WrapError ''expected a whole number with an optional unit, like 128MiB'' [errInvalidByteSize]"

definition errUnknownUnit :: goerror where
  "errUnknownUnit = WrapError ''unknown unit, expected one of B, KB, MB, GB, KiB, MiB, GiB'' [errInvalidByteSize]"

definition errOverflows :: goerror where
  "errOverflows = WrapError ''overflows a 64-bit size'' [errInvalidByteSize]"

definition ParseByteSize :: "string \<Rightarrow> ByteSize result" where
  "ParseByteSize s0 =
     (let s = TrimSpace s0;
          rest = TrimLeft s digits;
          num = take (length s - length rest) s;
          unit = TrimSpace rest
      in if num = [] then Inl errWholeNumber
         else case map_of byteUnits unit of
                None \<Rightarrow> (if ContainsAny unit ''.-'' then Inl errWholeNumber else Inl errUnknownUnit)
              | Some mult \<Rightarrow>
                  (case ParseInt num of
                     None \<Rightarrow> Inl errOverflows
                   | Some n \<Rightarrow>
                       (if n > maxInt64 sdiv mult then Inl errOverflows
                        else Inr (word_of_int n * word_of_int mult))))"

text \<open>\<open>UnmarshalYAML\<close>, given what decoding the node as a string returned.\<close>

definition UnmarshalYAML :: "string result \<Rightarrow> ByteSize \<Rightarrow> goerror option \<times> ByteSize" where
  "UnmarshalYAML decoded b =
     (case decoded of
        Inl err \<Rightarrow> (Some err, b)
      | Inr s \<Rightarrow> (case ParseByteSize s of Inl err \<Rightarrow> (Some err, b) | Inr parsed \<Rightarrow> (None, parsed)))"

text \<open>\<open>%d\<close> of a signed number.\<close>

definition fmt_d :: "int \<Rightarrow> string" where
  "fmt_d n = (if n < 0 then ''-'' @ itoa (nat (- n)) else itoa (nat n))"

fun format_units :: "string list \<Rightarrow> ByteSize \<Rightarrow> string" where
  "format_units [] b = fmt_d (sint b) @ ''B''"
| "format_units (unit # units) b =
     (case map_of byteUnits unit of
        Some mult \<Rightarrow>
          (if b \<noteq> 0 \<and> sint b smod mult = 0 then fmt_d (sint b sdiv mult) @ unit else format_units units b)
      | None \<Rightarrow> format_units units b)"

definition ByteSize_String :: "ByteSize \<Rightarrow> string" where
  "ByteSize_String b = format_units byteUnitOrder b"

section \<open>Lemmas\<close>

lemma digits_isDigit: "c \<in> digits \<longleftrightarrow> isDigit c"
proof -
  have "\<forall>c. c \<in> digits \<longleftrightarrow> isDigit c" by code_simp
  then show ?thesis by blast
qed

lemma byteUnits_bounds: "map_of byteUnits u = Some m \<Longrightarrow> 1 \<le> m \<and> m \<le> 2 ^ 30"
  by (auto simp: byteUnits_def split: if_splits)

lemma byteUnits_name:
  "map_of byteUnits u = Some m \<Longrightarrow> list_all (\<lambda>c. visible c \<and> \<not> isDigit c) u"
  by (auto simp: byteUnits_def visible_def isDigit_def split: if_splits)

text \<open>The number in front and what follows it.\<close>

lemma TrimLeft_digits: "TrimLeft s digits = dropWhile isDigit s"
  by (simp add: TrimLeft_def digits_isDigit)

lemma take_digits: "take (length s - length (dropWhile P s)) s = takeWhile P s"
  by (metis add_diff_cancel_right' append_eq_conv_conj length_append takeWhile_dropWhile_id)

lemma ParseInt_digits:
  assumes "ds \<noteq> []" "list_all isDigit ds"
  shows "ParseInt ds = (if int (digits_val 0 ds) \<le> maxInt64 then Some (int (digits_val 0 ds)) else None)"
proof -
  obtain c r where c: "ds = c # r" using assms(1) by (cases ds) auto
  with assms have "parseDigits ds = Some (digits_val 0 ds)" "isDigit c" by (auto simp: parseDigits_def)
  with c show ?thesis by (simp add: ParseInt_def isDigit_no_sign)
qed

text \<open>The guard of the code is exact.\<close>

lemma le_sdiv_iff:
  assumes "0 \<le> M" "1 \<le> (m :: int)"
  shows "n \<le> M sdiv m \<longleftrightarrow> n * m \<le> M"
proof -
  have "M sdiv m = M div m" using assms by (auto simp: signed_divide_int_def sgn_if)
  moreover have "n * m \<le> M" if "n \<le> M div m"
  proof -
    have "n * m \<le> (M div m) * m" using that assms(2) by (simp add: mult_right_mono)
    also have "\<dots> \<le> M" using assms(2) by (metis add.commute div_mult_mod_eq le_add_same_cancel2 pos_mod_sign zero_less_one_class.zero_less_one order.strict_trans2)
    finally show ?thesis .
  qed
  moreover have "n \<le> M div m" if "n * m \<le> M"
    using zdiv_mono1 [OF that, of m] assms(2) by simp
  ultimately show ?thesis by auto
qed

lemma sint_small: "0 \<le> x \<Longrightarrow> x \<le> maxInt64 \<Longrightarrow> sint (word_of_int x :: ByteSize) = x"
  by (simp add: int_word_sint maxInt64_def)

lemma of_int_eq_iff: "sint (word_of_int x :: ByteSize) = x \<Longrightarrow> word_of_int x = (b :: ByteSize) \<longleftrightarrow> sint b = x"
  by auto

lemma sint_bounds: "sint (b :: ByteSize) \<le> maxInt64" "- maxInt64 - 1 \<le> sint b"
  using sint_lt [of b] sint_ge [of b] by (simp_all add: maxInt64_def)

lemma ParseByteSize_split:
  "ParseByteSize s =
     (let num = takeWhile isDigit (TrimSpace s); unit = TrimSpace (dropWhile isDigit (TrimSpace s)) in
      if num = [] then Inl errWholeNumber
      else case map_of byteUnits unit of
             None \<Rightarrow> (if ContainsAny unit ''.-'' then Inl errWholeNumber else Inl errUnknownUnit)
           | Some mult \<Rightarrow>
               (if int (digits_val 0 num) * mult \<le> maxInt64 then Inr (word_of_int (int (digits_val 0 num) * mult))
                else Inl errOverflows))"
proof -
  let ?num = "takeWhile isDigit (TrimSpace s)"
  let ?v = "int (digits_val 0 ?num)"
  have "(case ParseInt ?num of None \<Rightarrow> Inl errOverflows
           | Some n \<Rightarrow> if n > maxInt64 sdiv mult then Inl errOverflows else Inr (word_of_int n * word_of_int mult :: ByteSize))
      = (if ?v * mult \<le> maxInt64 then Inr (word_of_int (?v * mult)) else Inl errOverflows)"
    if "?num \<noteq> []" "map_of byteUnits unit = Some mult" for unit mult
  proof -
    have m: "1 \<le> mult" using byteUnits_bounds [OF that(2)] by simp
    have "?v * 1 \<le> ?v * mult" using m by (intro mult_left_mono) simp_all
    then have big: "?v * mult \<le> maxInt64 \<Longrightarrow> ?v \<le> maxInt64" by simp
    have "ParseInt ?num = (if ?v \<le> maxInt64 then Some ?v else None)"
      using that(1) by (intro ParseInt_digits) (auto simp: list_all_iff dest: set_takeWhileD)
    then show ?thesis using le_sdiv_iff [OF _ m, of maxInt64 ?v] big by (auto simp: maxInt64_def not_less)
  qed
  then show ?thesis
    unfolding ParseByteSize_def Let_def TrimLeft_digits take_digits
    by (cases "?num = []"; cases "map_of byteUnits (TrimSpace (dropWhile isDigit (TrimSpace s)))") simp_all
qed

lemma format_units_shape:
  assumes "b = 0 \<or> 0 < sint b" "set units \<subseteq> set byteUnitOrder"
  shows "\<exists>n unit mult. format_units units b = itoa n @ unit \<and> map_of byteUnits unit = Some mult \<and> sint b = int n * mult"
  using assms(2)
proof (induction units)
  case Nil
  have "fmt_d (sint b) = itoa (nat (sint b))" "0 \<le> sint b" using assms(1) by (auto simp: fmt_d_def)
  then show ?case by (intro exI [of _ "nat (sint b)"] exI [of _ "''B''"] exI [of _ 1]) (simp add: byteUnits_def)
next
  case (Cons unit units)
  show ?case
  proof (cases "\<exists>mult. map_of byteUnits unit = Some mult \<and> b \<noteq> 0 \<and> sint b smod mult = 0")
    case True
    then obtain mult where m: "map_of byteUnits unit = Some mult" "b \<noteq> 0" "sint b smod mult = 0" by blast
    have pos: "0 < sint b" "1 \<le> mult" using assms(1) m byteUnits_bounds by auto
    then have q: "sint b sdiv mult = sint b div mult" "sint b mod mult = 0" using m(3)
      by (auto simp: signed_divide_int_def signed_modulo_int_def sgn_if minus_div_mult_eq_mod)
    then have "sint b = (sint b div mult) * mult" by (metis add.right_neutral div_mult_mod_eq)
    moreover have "0 \<le> sint b div mult" using pos by (simp add: pos_imp_zdiv_nonneg_iff)
    ultimately show ?thesis using m q
      by (intro exI [of _ "nat (sint b div mult)"] exI [of _ unit] exI [of _ mult]) (simp add: fmt_d_def)
  next
    case False
    then have "format_units (unit # units) b = format_units units b" by (auto split: option.split)
    with Cons show ?thesis by simp
  qed
qed

text \<open>A number followed by a unit is read as their product.\<close>

lemma ParseByteSize_number:
  assumes "map_of byteUnits unit = Some mult" "int n * mult \<le> maxInt64"
  shows "ParseByteSize (itoa n @ unit) = Inr (word_of_int (int n * mult))"
proof -
  have u: "list_all (\<lambda>c. visible c \<and> \<not> isDigit c) unit" using assms(1) by (rule byteUnits_name)
  have vis: "list_all visible (itoa n @ unit)"
    using u isDigit_itoa [of n] by (auto simp: list_all_iff isDigit_def visible_def)
  then have t: "TrimSpace (itoa n @ unit) = itoa n @ unit"
    by (intro TrimSpace_visible) (metis hd_in_set last_in_set list_all_iff)
  have "TrimSpace unit = unit" using u by (intro TrimSpace_visible) (metis hd_in_set last_in_set list_all_iff)
  moreover have "takeWhile isDigit (itoa n @ unit) = itoa n" "dropWhile isDigit (itoa n @ unit) = unit"
    using isDigit_itoa [of n] u by (cases unit; auto simp: list_all_iff)+
  ultimately show ?thesis using assms t by (simp add: ParseByteSize_split digits_val_itoa)
qed

section \<open>Properties\<close>

text \<open>
  A parsed size is exact. Parsing succeeds on exactly those strings that are, up to white
  space around the number and the unit, a decimal number and a known unit whose product fits a signed 64-bit number;
  the size returned is that product as an integer, so it is never negative and never wrapped
  around. Every failure is an \<open>errInvalidByteSize\<close>.
\<close>

theorem ParseByteSize_exact:
  "(ParseByteSize s = Inr b \<longleftrightarrow>
      (\<exists>mult. takeWhile isDigit (TrimSpace s) \<noteq> [] \<and> map_of byteUnits (TrimSpace (dropWhile isDigit (TrimSpace s))) = Some mult
         \<and> int (digits_val 0 (takeWhile isDigit (TrimSpace s))) * mult < 2 ^ 63
         \<and> sint b = int (digits_val 0 (takeWhile isDigit (TrimSpace s))) * mult))
   \<and> (\<forall>err. ParseByteSize s = Inl err \<longrightarrow> errors_Is err errInvalidByteSize)"
  (is "(?parse \<longleftrightarrow> (\<exists>mult. ?num \<noteq> [] \<and> ?unit = Some mult \<and> ?v * mult < 2 ^ 63 \<and> sint b = ?v * mult)) \<and> ?err")
proof
  have fits: "?v * mult \<le> maxInt64 \<longleftrightarrow> ?v * mult < 2 ^ 63" for mult by (auto simp: maxInt64_def)
  have "word_of_int (?v * mult) = b \<longleftrightarrow> sint b = ?v * mult" if "?unit = Some mult" "?v * mult \<le> maxInt64" for mult
  proof -
    have "0 \<le> ?v * mult" using byteUnits_bounds [OF that(1)] by simp
    then show ?thesis using that(2) by (intro of_int_eq_iff sint_small)
  qed
  then show "?parse \<longleftrightarrow> (\<exists>mult. ?num \<noteq> [] \<and> ?unit = Some mult \<and> ?v * mult < 2 ^ 63 \<and> sint b = ?v * mult)"
    unfolding ParseByteSize_split Let_def fits [symmetric] by (auto split: option.split)
  show ?err
    by (auto simp: ParseByteSize_split Let_def errWholeNumber_def errUnknownUnit_def errOverflows_def split: option.splits if_splits)
qed

theorem ParseByteSize_exact_witness:
  "ParseByteSize ''128MiB'' = Inr (128 * 2 ^ 20)
   \<and> ParseByteSize ''9223372036854775808'' = Inl errOverflows \<and> errors_Is errOverflows errInvalidByteSize"
proof (intro conjI)
  have trim: "TrimSpace ''128MiB'' = ''128MiB''" "TrimSpace ''MiB'' = ''MiB''" "TrimSpace ''9223372036854775808'' = ''9223372036854775808''"
    "TrimSpace [] = []"
    by (rule TrimSpace_visible; simp add: visible_def)+
  have "sint (128 * 2 ^ 20 :: ByteSize) = 134217728" by simp
  then show "ParseByteSize ''128MiB'' = Inr (128 * 2 ^ 20)"
    using ParseByteSize_exact [of "''128MiB''" "128 * 2 ^ 20"] trim
    by (simp add: isDigit_def byteUnits_def digits_val_def digitVal_def)
  show big: "ParseByteSize ''9223372036854775808'' = Inl errOverflows"
    using trim by (simp add: ParseByteSize_split isDigit_def byteUnits_def digits_val_def digitVal_def maxInt64_def)
  show "errors_Is errOverflows errInvalidByteSize"
    using ParseByteSize_exact [of "''9223372036854775808''"] big by blast
qed

text \<open>
  Printing and parsing a size are inverse: the text \<open>String\<close> gives for a size that is not
  negative parses, to that size.
\<close>

theorem ByteSize_roundtrip:
  assumes "0 \<le> sint b"
  shows "ParseByteSize (ByteSize_String b) = Inr b"
proof -
  have "b = 0 \<or> 0 < sint b" using assms by (metis order_le_less signed_eq_0_iff)
  then obtain n unit mult where *: "ByteSize_String b = itoa n @ unit" "map_of byteUnits unit = Some mult" "sint b = int n * mult"
    using format_units_shape [of b byteUnitOrder] by (auto simp: ByteSize_String_def)
  then have "ParseByteSize (ByteSize_String b) = Inr (word_of_int (sint b))"
    using ParseByteSize_number sint_bounds(1) [of b] by simp
  then show ?thesis by simp
qed

theorem ByteSize_roundtrip_witness:
  "ByteSize_String (128 * 2 ^ 20) = ''128MiB'' \<and> ParseByteSize (ByteSize_String (128 * 2 ^ 20)) = Inr (128 * 2 ^ 20)"
proof
  show "ByteSize_String (128 * 2 ^ 20) = ''128MiB''" by code_simp
  show "ParseByteSize (ByteSize_String (128 * 2 ^ 20)) = Inr (128 * 2 ^ 20)" by (rule ByteSize_roundtrip) simp
qed

end
