(* ===== verification/Pool.thy ===== *)
theory Pool
  imports Go_Prelude Transition
begin

text \<open>
  \<open>internal/transport/connect/pool.go\<close>: the pool of client connections. A connection is a number,
  its address; the state remembers what each was created with and which have been closed.
  \<open>grpc.NewClient\<close> and \<open>ClientConn.Close\<close> are gRPC's: whether they fail is a parameter. \<open>Set\<close> is
  only called with a connection that exists.

  The operations come twice: \<open>ConnOrCreate\<close> as it runs alone, and its atomic regions (the
  read-locked lookup, the dial, the write-locked registration, closing a loser, the second lookup)
  as the steps of a goroutine, interleaved with those of any number of others and with \<open>Close\<close>.
\<close>

section \<open>The pool\<close>

record 'o client =
  cl_target :: string
  cl_opts :: "'o list"

record 'o pool =
  conns :: "nat gomap"
  closeOnce :: bool
  closeErr :: "goerror option"
  clients :: "'o client list"
  closed :: "nat list"

record 'o dial_env =
  NewClient_err :: "string \<Rightarrow> 'o list \<Rightarrow> goerror option"
  Close_err :: "nat \<Rightarrow> goerror option"

definition ErrDuplicateKey :: goerror where
  "ErrDuplicateKey = ErrorString ''key already defined''"

definition ErrKeyNotFound :: goerror where
  "ErrKeyNotFound = ErrorString ''no connection for key''"

definition NewPool :: "'o pool" where
  "NewPool = \<lparr>conns = [], closeOnce = False, closeErr = None, clients = [], closed = []\<rparr>"

text \<open>\<open>grpc.NewClient\<close> and \<open>conn.Close\<close>.\<close>

definition NewClient :: "'o dial_env \<Rightarrow> string \<Rightarrow> 'o list \<Rightarrow> 'o pool \<Rightarrow> nat result \<times> 'o pool" where
  "NewClient env target opts p =
     (case NewClient_err env target opts of
        Some err \<Rightarrow> (Inl err, p)
      | None \<Rightarrow> (Inr (length (clients p)), p\<lparr>clients := clients p @ [\<lparr>cl_target = target, cl_opts = opts\<rparr>]\<rparr>))"

definition Close_conn :: "'o dial_env \<Rightarrow> nat \<Rightarrow> 'o pool \<Rightarrow> goerror option \<times> 'o pool" where
  "Close_conn env cn p = (Close_err env cn, p\<lparr>closed := cn # closed p\<rparr>)"

definition Pool_Conn :: "string \<Rightarrow> 'o pool \<Rightarrow> nat result" where
  "Pool_Conn key p =
     (case map_of (conns p) key of
        None \<Rightarrow> Inl (WrapError (Error ErrKeyNotFound @ '': '' @ key) [ErrKeyNotFound])
      | Some cn \<Rightarrow> Inr cn)"

definition Pool_Set :: "string \<Rightarrow> nat \<Rightarrow> 'o pool \<Rightarrow> goerror option \<times> 'o pool" where
  "Pool_Set key cn p =
     (case map_of (conns p) key of
        Some _ \<Rightarrow> (Some (WrapError (Error ErrDuplicateKey @ '': '' @ key) [ErrDuplicateKey]), p)
      | None \<Rightarrow> (None, p\<lparr>conns := AList.update key cn (conns p)\<rparr>))"

definition connect_failed :: "string \<Rightarrow> goerror \<Rightarrow> goerror" where
  "connect_failed target err = WrapError (''failed to connect to '' @ target @ '', '' @ Error err) [err]"

definition ConnOrCreate :: "'o dial_env \<Rightarrow> string \<Rightarrow> string \<Rightarrow> 'o list \<Rightarrow> 'o pool \<Rightarrow> nat result \<times> 'o pool" where
  "ConnOrCreate env key target opts p =
     (case Pool_Conn key p of
        Inr cn \<Rightarrow> (Inr cn, p)
      | Inl _ \<Rightarrow>
          (case NewClient env target opts p of
             (Inl err, p) \<Rightarrow> (Inl (connect_failed target err), p)
           | (Inr cn, p) \<Rightarrow>
               (case Pool_Set key cn p of
                  (None, p) \<Rightarrow> (Inr cn, p)
                | (Some err, p) \<Rightarrow>
                    (if errors_Is err ErrDuplicateKey
                     then case Close_conn env cn p of (_, p) \<Rightarrow> (Pool_Conn key p, p)
                     else (Inl err, p)))))"

text \<open>\<open>errors.Join\<close> of the errors that are not nil.\<close>

definition errors_Join :: "goerror list \<Rightarrow> goerror option" where
  "errors_Join errs = (if errs = [] then None else Some (JoinError errs))"

fun close_all :: "'o dial_env \<Rightarrow> nat list \<Rightarrow> 'o pool \<Rightarrow> goerror list \<times> 'o pool" where
  "close_all env [] p = ([], p)"
| "close_all env (cn # cns) p =
     (case Close_conn env cn p of
        (err, p) \<Rightarrow>
          (case close_all env cns p of
             (errs, p) \<Rightarrow> ((case err of None \<Rightarrow> errs | Some e \<Rightarrow> e # errs), p)))"

definition Pool_Close :: "'o dial_env \<Rightarrow> 'o pool \<Rightarrow> goerror option \<times> 'o pool" where
  "Pool_Close env p =
     (if closeOnce p then (closeErr p, p)
      else case close_all env (map snd (conns p)) p of
             (errs, p) \<Rightarrow> (errors_Join errs, p\<lparr>closeOnce := True, closeErr := errors_Join errs\<rparr>))"

section \<open>Goroutines\<close>

datatype coc_at = CLookup | CDial | CSet nat | CClose nat | CReread | CDone "nat result"

record 'o caller =
  ca_key :: string
  ca_target :: string
  ca_opts :: "'o list"
  ca_at :: coc_at

text \<open>The next atomic region of a \<open>ConnOrCreate\<close>.\<close>

definition coc_step :: "'o dial_env \<Rightarrow> 'o caller \<Rightarrow> 'o pool \<Rightarrow> coc_at \<times> 'o pool" where
  "coc_step env c p =
     (case ca_at c of
        CLookup \<Rightarrow> (case Pool_Conn (ca_key c) p of Inr cn \<Rightarrow> (CDone (Inr cn), p) | Inl _ \<Rightarrow> (CDial, p))
      | CDial \<Rightarrow>
          (case NewClient env (ca_target c) (ca_opts c) p of
             (Inl err, p) \<Rightarrow> (CDone (Inl (connect_failed (ca_target c) err)), p)
           | (Inr cn, p) \<Rightarrow> (CSet cn, p))
      | CSet cn \<Rightarrow>
          (case Pool_Set (ca_key c) cn p of
             (None, p) \<Rightarrow> (CDone (Inr cn), p)
           | (Some err, p) \<Rightarrow> (if errors_Is err ErrDuplicateKey then (CClose cn, p) else (CDone (Inl err), p)))
      | CClose cn \<Rightarrow> (case Close_conn env cn p of (_, p) \<Rightarrow> (CReread, p))
      | CReread \<Rightarrow> (CDone (Pool_Conn (ca_key c) p), p)
      | CDone res \<Rightarrow> (CDone res, p))"

record 'o pool_state =
  ps_pool :: "'o pool"
  callers :: "nat \<rightharpoonup> 'o caller"

inductive pool_step :: "'o dial_env \<Rightarrow> 'o pool_state \<Rightarrow> 'o pool_state \<Rightarrow> bool" for env where
  call: "callers s i = None \<Longrightarrow>
    pool_step env s (s\<lparr>callers := (callers s)(i \<mapsto> \<lparr>ca_key = key, ca_target = target, ca_opts = opts, ca_at = CLookup\<rparr>)\<rparr>)"
| advance: "callers s i = Some c \<Longrightarrow> (\<nexists>res. ca_at c = CDone res) \<Longrightarrow> coc_step env c (ps_pool s) = (at, p)
    \<Longrightarrow> pool_step env s (s\<lparr>ps_pool := p, callers := (callers s)(i \<mapsto> c\<lparr>ca_at := at\<rparr>)\<rparr>)"
| shut: "Pool_Close env (ps_pool s) = (err, p) \<Longrightarrow> pool_step env s (s\<lparr>ps_pool := p\<rparr>)"

inductive_cases pool_stepE: "pool_step env s s'"

definition pool_start :: "'o pool_state" where
  "pool_start = \<lparr>ps_pool = NewPool, callers = Map.empty\<rparr>"

section \<open>Invariant\<close>

text \<open>The connection a goroutine has created and nobody else knows of.\<close>

definition held :: "coc_at \<Rightarrow> nat option" where
  "held at = (case at of CSet cn \<Rightarrow> Some cn | CClose cn \<Rightarrow> Some cn | _ \<Rightarrow> None)"

definition dialed_for :: "(nat \<rightharpoonup> 'o caller) \<Rightarrow> string \<Rightarrow> 'o client \<Rightarrow> bool" where
  "dialed_for cs key cl \<longleftrightarrow>
     (\<exists>i c. cs i = Some c \<and> ca_key c = key \<and> cl = \<lparr>cl_target = ca_target c, cl_opts = ca_opts c\<rparr>)"

text \<open>The pool on its own: one connection per key and one key per connection, and a registered
  connection is open until the pool is closed.\<close>

definition conns_ok :: "'o pool \<Rightarrow> bool" where
  "conns_ok p \<longleftrightarrow>
     distinct (map fst (conns p)) \<and> distinct (map snd (conns p)) \<and> (\<forall>cn\<in>set (map snd (conns p)). cn < length (clients p))
     \<and> (\<forall>cn\<in>set (closed p). cn < length (clients p))
     \<and> (\<not> closeOnce p \<longrightarrow> set (map snd (conns p)) \<inter> set (closed p) = {})"

definition caller_ok :: "'o pool \<Rightarrow> 'o caller \<Rightarrow> bool" where
  "caller_ok p c \<longleftrightarrow>
     (case ca_at c of
        CSet cn \<Rightarrow> cn < length (clients p) \<and> clients p ! cn = \<lparr>cl_target = ca_target c, cl_opts = ca_opts c\<rparr>
      | CClose cn \<Rightarrow> cn < length (clients p) \<and> ca_key c \<in> dom (map_of (conns p))
      | CReread \<Rightarrow> ca_key c \<in> dom (map_of (conns p))
      | CDone (Inr cn) \<Rightarrow> map_of (conns p) (ca_key c) = Some cn
      | CDone (Inl err) \<Rightarrow> (\<exists>e. err = connect_failed (ca_target c) e)
      | _ \<Rightarrow> True)
     \<and> (\<forall>cn. held (ca_at c) = Some cn \<longrightarrow> cn \<notin> snd ` set (conns p) \<union> set (closed p))"

definition pool_inv :: "'o pool_state \<Rightarrow> bool" where
  "pool_inv s \<longleftrightarrow>
     conns_ok (ps_pool s) \<and> (\<forall>i c. callers s i = Some c \<longrightarrow> caller_ok (ps_pool s) c)
     \<and> (\<forall>i j c d cn. callers s i = Some c \<longrightarrow> callers s j = Some d \<longrightarrow> held (ca_at c) = Some cn \<longrightarrow> held (ca_at d) = Some cn \<longrightarrow> i = j)
     \<and> (\<forall>cn < length (clients (ps_pool s)). cn \<in> snd ` set (conns (ps_pool s)) \<union> set (closed (ps_pool s))
          \<or> (\<exists>i c. callers s i = Some c \<and> held (ca_at c) = Some cn))
     \<and> (\<forall>(key, cn)\<in>set (conns (ps_pool s)). dialed_for (callers s) key (clients (ps_pool s) ! cn))"

abbreviation used :: "'o pool \<Rightarrow> nat set" where
  "used p \<equiv> snd ` set (conns p) \<union> set (closed p)"

lemma pool_invD:
  assumes "pool_inv s"
  shows "conns_ok (ps_pool s)" "callers s i = Some c \<Longrightarrow> caller_ok (ps_pool s) c"
    "callers s i = Some c \<Longrightarrow> callers s j = Some d \<Longrightarrow> held (ca_at c) = Some cn \<Longrightarrow> held (ca_at d) = Some cn \<Longrightarrow> i = j"
    "cn < length (clients (ps_pool s)) \<Longrightarrow> cn \<in> used (ps_pool s) \<or> (\<exists>i c. callers s i = Some c \<and> held (ca_at c) = Some cn)"
    "(key, cn) \<in> set (conns (ps_pool s)) \<Longrightarrow> dialed_for (callers s) key (clients (ps_pool s) ! cn)"
  using assms unfolding pool_inv_def by blast+

lemma pool_invI:
  assumes "conns_ok (ps_pool s)" "\<And>i c. callers s i = Some c \<Longrightarrow> caller_ok (ps_pool s) c"
    "\<And>i j c d cn. callers s i = Some c \<Longrightarrow> callers s j = Some d \<Longrightarrow> held (ca_at c) = Some cn \<Longrightarrow> held (ca_at d) = Some cn \<Longrightarrow> i = j"
    "\<And>cn. cn < length (clients (ps_pool s)) \<Longrightarrow> cn \<in> used (ps_pool s) \<or> (\<exists>i c. callers s i = Some c \<and> held (ca_at c) = Some cn)"
    "\<And>key cn. (key, cn) \<in> set (conns (ps_pool s)) \<Longrightarrow> dialed_for (callers s) key (clients (ps_pool s) ! cn)"
  shows "pool_inv s"
  using assms unfolding pool_inv_def by blast

lemma caller_ok_held: "caller_ok p c \<Longrightarrow> held (ca_at c) = Some cn \<Longrightarrow> cn < length (clients p) \<and> cn \<notin> used p"
  unfolding caller_ok_def held_def by (auto split: coc_at.splits)

lemma caller_ok_mono:
  assumes "caller_ok p c" "clients p' = clients p @ xs" "map_of (conns p) \<subseteq>\<^sub>m map_of (conns p')"
    "\<And>cn. held (ca_at c) = Some cn \<Longrightarrow> cn \<notin> used p' - used p"
  shows "caller_ok p' c"
proof -
  have keep: "k \<in> dom (map_of (conns p))" if "map_of (conns p) k = Some v" for k v using that by auto
  have "dom (map_of (conns p)) \<subseteq> dom (map_of (conns p'))" using assms(3) by (rule map_le_implies_dom_le)
  moreover have "map_of (conns p') k = Some v" if "map_of (conns p) k = Some v" for k v
    using assms(3) keep [OF that] that unfolding map_le_def by metis
  ultimately show ?thesis
    using assms(1,2,4) unfolding caller_ok_def held_def
    by (cases "ca_at c") (auto simp: nth_append split: sum.splits)
qed

text \<open>What a region may do: keep every registration, use up the connection it holds and no
  other, and hand on the connection it makes.\<close>

lemma pool_inv_advance:
  assumes inv: "pool_inv s" and c: "callers s i = Some c" and p: "conns_ok p'" "caller_ok p' (c\<lparr>ca_at := at\<rparr>)"
    and grows: "clients p' = clients (ps_pool s) @ xs" "map_of (conns (ps_pool s)) \<subseteq>\<^sub>m map_of (conns p')" "used (ps_pool s) \<subseteq> used p'"
    and uses: "\<And>cn. cn \<in> used p' - used (ps_pool s) \<Longrightarrow> held (ca_at c) = Some cn"
    and made: "\<And>cn. length (clients (ps_pool s)) \<le> cn \<Longrightarrow> cn < length (clients p') \<Longrightarrow> held at = Some cn"
    and holds: "\<And>cn. held at = Some cn \<Longrightarrow> held (ca_at c) = Some cn \<or> length (clients (ps_pool s)) \<le> cn"
    and gone: "\<And>cn. held (ca_at c) = Some cn \<Longrightarrow> held at = Some cn \<or> cn \<in> used p'"
    and reg: "\<And>k cn. (k, cn) \<in> set (conns p') \<Longrightarrow> (k, cn) \<in> set (conns (ps_pool s))
        \<or> k = ca_key c \<and> clients p' ! cn = \<lparr>cl_target = ca_target c, cl_opts = ca_opts c\<rparr>"
  shows "pool_inv (s\<lparr>ps_pool := p', callers := (callers s)(i \<mapsto> c\<lparr>ca_at := at\<rparr>)\<rparr>)" (is "pool_inv ?s'")
proof -
  have others: "caller_ok p' d" if "callers s j = Some d" "j \<noteq> i" for j d
  proof (rule caller_ok_mono [OF pool_invD(2) [OF inv that(1)] grows(1,2)])
    show "cn \<notin> used p' - used (ps_pool s)" if "held (ca_at d) = Some cn" for cn
      using uses [of cn] pool_invD(3) [OF inv \<open>callers s j = Some d\<close> c that] \<open>j \<noteq> i\<close> by blast
  qed
  have "i = j" if "callers s j = Some d" "held at = Some cn" "held (ca_at d) = Some cn" for j d cn
    using holds [OF that(2)] pool_invD(3) [OF inv c that(1) _ that(3)] caller_ok_held [OF pool_invD(2) [OF inv that(1)] that(3)] by auto
  then have unique: "j = k" if "callers ?s' j = Some d" "callers ?s' k = Some e" "held (ca_at d) = Some cn" "held (ca_at e) = Some cn"
    for j k d e cn using that pool_invD(3) [OF inv] by (auto split: if_splits)
  have leak: "cn \<in> used p' \<or> (\<exists>j d. callers ?s' j = Some d \<and> held (ca_at d) = Some cn)" if "cn < length (clients p')" for cn
  proof (cases "cn < length (clients (ps_pool s))")
    case True
    from pool_invD(4) [OF inv this] show ?thesis
    proof
      assume "\<exists>j d. callers s j = Some d \<and> held (ca_at d) = Some cn"
      then obtain j d where "callers s j = Some d" "held (ca_at d) = Some cn" by blast
      then show ?thesis using gone [of cn] c by (cases "j = i") (auto intro!: exI [of _ j])
    qed (use grows(3) in blast)
  next
    case False
    then show ?thesis using made [of cn] that by (auto intro!: exI [of _ i])
  qed
  have dial: "dialed_for (callers ?s') k (clients p' ! cn)" if "(k, cn) \<in> set (conns p')" for k cn
    using reg [OF that]
  proof
    assume old: "(k, cn) \<in> set (conns (ps_pool s))"
    then have "cn < length (clients (ps_pool s))" using pool_invD(1) [OF inv] by (force simp: conns_ok_def)
    moreover from pool_invD(5) [OF inv old] obtain j d where "callers s j = Some d" "ca_key d = k"
      "clients (ps_pool s) ! cn = \<lparr>cl_target = ca_target d, cl_opts = ca_opts d\<rparr>" unfolding dialed_for_def by blast
    ultimately show ?thesis using c grows(1) unfolding dialed_for_def
      by (cases "j = i") (auto simp: nth_append intro!: exI [of _ j])
  next
    assume "k = ca_key c \<and> clients p' ! cn = \<lparr>cl_target = ca_target c, cl_opts = ca_opts c\<rparr>"
    then show ?thesis unfolding dialed_for_def by (auto intro!: exI [of _ i])
  qed
  have pool: "ps_pool ?s' = p'" by simp
  show ?thesis
  proof (rule pool_invI, unfold pool)
    show "caller_ok p' d" if "callers ?s' j = Some d" for j d
      using that p(2) others [of j d] by (cases "j = i") simp_all
  qed (rule p(1) leak dial; assumption | erule (3) unique)+
qed

lemma conns_ok_client: "conns_ok p \<Longrightarrow> conns_ok (p\<lparr>clients := clients p @ xs\<rparr>)"
  by (auto simp: conns_ok_def)

lemma conns_ok_register:
  assumes "conns_ok p" "map_of (conns p) key = None" "cn < length (clients p)" "cn \<notin> used p"
  shows "conns_ok (p\<lparr>conns := AList.update key cn (conns p)\<rparr>)"
  using assms unfolding conns_ok_def update_fresh [OF assms(2)] by (auto simp: map_of_eq_None_iff)

lemma conns_ok_drop: "conns_ok p \<Longrightarrow> cn < length (clients p) \<Longrightarrow> cn \<notin> used p \<Longrightarrow> conns_ok (p\<lparr>closed := cn # closed p\<rparr>)"
  by (auto simp: conns_ok_def)

lemma conns_ok_inj:
  assumes "conns_ok p" "map_of (conns p) k = Some cn" "map_of (conns p) l = Some cn"
  shows "k = l"
  using assms(1) assms(2,3) [THEN map_of_SomeD] unfolding conns_ok_def distinct_map inj_on_def
  by (metis prod.inject snd_conv)

lemma advance_inv:
  assumes inv: "pool_inv s" and c: "callers s i = Some c" and st: "coc_step env c (ps_pool s) = (at, p)"
  shows "pool_inv (s\<lparr>ps_pool := p, callers := (callers s)(i \<mapsto> c\<lparr>ca_at := at\<rparr>)\<rparr>)"
proof -
  note ok = pool_invD(1) [OF inv] and cok = pool_invD(2) [OF inv c]
  show ?thesis
  proof (cases "ca_at c")
    case CLookup
    then have "p = ps_pool s" "at = CDial \<or> (\<exists>cn. at = CDone (Inr cn) \<and> map_of (conns p) (ca_key c) = Some cn)"
      using st by (auto simp: coc_step_def Pool_Conn_def split: option.splits sum.splits)
    then show ?thesis using ok CLookup
      by (intro pool_inv_advance [OF inv c, where xs = "[]"]) (auto simp: caller_ok_def held_def)
  next
    case CDial
    show ?thesis
    proof (cases "NewClient_err env (ca_target c) (ca_opts c)")
      case None
      then have p: "p = ps_pool s\<lparr>clients := clients (ps_pool s) @ [\<lparr>cl_target = ca_target c, cl_opts = ca_opts c\<rparr>]\<rparr>"
          "at = CSet (length (clients (ps_pool s)))"
        using st CDial by (auto simp: coc_step_def NewClient_def)
      have "length (clients (ps_pool s)) \<notin> used (ps_pool s)" using ok by (auto simp: conns_ok_def)
      with p show ?thesis using conns_ok_client [OF ok] CDial
        by (intro pool_inv_advance [OF inv c, where xs = "[\<lparr>cl_target = ca_target c, cl_opts = ca_opts c\<rparr>]"]) (auto simp: caller_ok_def held_def)
    next
      case (Some err)
      then have "p = ps_pool s" "at = CDone (Inl (connect_failed (ca_target c) err))"
        using st CDial by (auto simp: coc_step_def NewClient_def)
      then show ?thesis using ok CDial
        by (intro pool_inv_advance [OF inv c, where xs = "[]"]) (auto simp: caller_ok_def held_def)
    qed
  next
    case (CSet cn)
    then have cn: "cn < length (clients (ps_pool s))" "cn \<notin> used (ps_pool s)"
      "clients (ps_pool s) ! cn = \<lparr>cl_target = ca_target c, cl_opts = ca_opts c\<rparr>"
      using cok by (auto simp: caller_ok_def held_def)
    show ?thesis
    proof (cases "map_of (conns (ps_pool s)) (ca_key c)")
      case None
      then have p: "p = ps_pool s\<lparr>conns := AList.update (ca_key c) cn (conns (ps_pool s))\<rparr>" "at = CDone (Inr cn)"
        using st CSet by (auto simp: coc_step_def Pool_Set_def)
      with cn show ?thesis using conns_ok_register [OF ok None] CSet None
        by (intro pool_inv_advance [OF inv c, where xs = "[]"])
          (auto simp: caller_ok_def held_def update_fresh map_le_def dom_def map_add_def)
    next
      case (Some old)
      then have "p = ps_pool s" "at = CClose cn"
        using st CSet by (auto simp: coc_step_def Pool_Set_def)
      with Some cn show ?thesis using ok CSet
        by (intro pool_inv_advance [OF inv c, where xs = "[]"]) (auto simp: caller_ok_def held_def)
    qed
  next
    case (CClose cn)
    then have cn: "cn < length (clients (ps_pool s))" "cn \<notin> used (ps_pool s)" "ca_key c \<in> dom (map_of (conns (ps_pool s)))"
      using cok by (auto simp: caller_ok_def held_def)
    have "p = ps_pool s\<lparr>closed := cn # closed (ps_pool s)\<rparr>" "at = CReread"
      using st CClose by (auto simp: coc_step_def Close_conn_def)
    with cn show ?thesis using conns_ok_drop [OF ok cn(1,2)] CClose
      by (intro pool_inv_advance [OF inv c, where xs = "[]"]) (auto simp: caller_ok_def held_def)
  next
    case CReread
    then obtain cn where "map_of (conns (ps_pool s)) (ca_key c) = Some cn" using cok by (auto simp: caller_ok_def)
    with st CReread have "p = ps_pool s" "at = CDone (Inr cn)" "map_of (conns p) (ca_key c) = Some cn"
      by (auto simp: coc_step_def Pool_Conn_def)
    then show ?thesis using ok CReread
      by (intro pool_inv_advance [OF inv c, where xs = "[]"]) (auto simp: caller_ok_def held_def)
  next
    case (CDone res)
    then have "p = ps_pool s" "at = CDone res" using st by (auto simp: coc_step_def)
    then show ?thesis using ok cok CDone
      by (intro pool_inv_advance [OF inv c, where xs = "[]"]) (auto simp: caller_ok_def held_def split: sum.splits)
  qed
qed

lemma close_all_eq:
  "close_all env cns p = (List.map_filter (Close_err env) cns, p\<lparr>closed := rev cns @ closed p\<rparr>)"
  by (induction cns arbitrary: p) (auto simp: Close_conn_def List.map_filter_def split: option.splits)

lemma Pool_Close_eq:
  "Pool_Close env p =
     (if closeOnce p then (closeErr p, p)
      else let err = errors_Join (List.map_filter (Close_err env) (map snd (conns p)))
           in (err, p\<lparr>closed := rev (map snd (conns p)) @ closed p, closeOnce := True, closeErr := err\<rparr>))"
  by (simp add: Pool_Close_def close_all_eq Let_def)

lemma shut_inv:
  assumes "pool_inv s" "Pool_Close env (ps_pool s) = (err, p)"
  shows "pool_inv (s\<lparr>ps_pool := p\<rparr>)"
proof (cases "closeOnce (ps_pool s)")
  case True
  with assms show ?thesis by (cases s) (auto simp: Pool_Close_eq)
next
  case False
  then have p: "conns p = conns (ps_pool s)" "clients p = clients (ps_pool s)" "closeOnce p"
      "set (closed p) = snd ` set (conns (ps_pool s)) \<union> set (closed (ps_pool s))"
    using assms(2) [symmetric] by (simp_all add: Pool_Close_eq Let_def)
  show ?thesis
  proof (rule pool_invI)
    show "conns_ok (ps_pool (s\<lparr>ps_pool := p\<rparr>))" using pool_invD(1) [OF assms(1)] p by (auto simp: conns_ok_def)
    show "caller_ok (ps_pool (s\<lparr>ps_pool := p\<rparr>)) c" if "callers (s\<lparr>ps_pool := p\<rparr>) i = Some c" for i c
    proof (rule caller_ok_mono [of "ps_pool s" c _ "[]"])
      show "caller_ok (ps_pool s) c" using pool_invD(2) [OF assms(1), of i c] that by simp
      have "used p = used (ps_pool s)" using p by auto
      then show "cn \<notin> used (ps_pool (s\<lparr>ps_pool := p\<rparr>)) - used (ps_pool s)" for cn by simp
    qed (simp_all add: p)
    show "cn \<in> used (ps_pool (s\<lparr>ps_pool := p\<rparr>)) \<or> (\<exists>i c. callers (s\<lparr>ps_pool := p\<rparr>) i = Some c \<and> held (ca_at c) = Some cn)"
      if "cn < length (clients (ps_pool (s\<lparr>ps_pool := p\<rparr>)))" for cn
      using pool_invD(4) [OF assms(1), of cn] that p by auto
    show "i = j" if "callers (s\<lparr>ps_pool := p\<rparr>) i = Some c" "callers (s\<lparr>ps_pool := p\<rparr>) j = Some d"
      "held (ca_at c) = Some cn" "held (ca_at d) = Some cn" for i j c d cn
      using pool_invD(3) [OF assms(1), of i c j d cn] that by simp
  qed (use pool_invD(5) [OF assms(1)] p in simp)
qed

lemma dialed_for_spawn: "dialed_for cs key cl \<Longrightarrow> cs i = None \<Longrightarrow> dialed_for (cs(i \<mapsto> c)) key cl"
  unfolding dialed_for_def by (metis fun_upd_other option.distinct(1))

lemma call_inv:
  assumes "pool_inv s" "callers s i = None" "ca_at c = CLookup"
  shows "pool_inv (s\<lparr>callers := (callers s)(i \<mapsto> c)\<rparr>)"
proof (rule pool_invI)
  have new: "held (ca_at c) = None" using assms(3) by (simp add: held_def)
  show "caller_ok (ps_pool (s\<lparr>callers := (callers s)(i \<mapsto> c)\<rparr>)) d" if "callers (s\<lparr>callers := (callers s)(i \<mapsto> c)\<rparr>) j = Some d" for j d
    using that pool_invD(2) [OF assms(1), of j d] assms(3) by (auto simp: caller_ok_def held_def split: if_splits)
  show "j = k" if "callers (s\<lparr>callers := (callers s)(i \<mapsto> c)\<rparr>) j = Some d" "callers (s\<lparr>callers := (callers s)(i \<mapsto> c)\<rparr>) k = Some e"
      "held (ca_at d) = Some cn" "held (ca_at e) = Some cn" for j k d e cn
    using that pool_invD(3) [OF assms(1)] new by (auto split: if_splits)
  show "cn \<in> used (ps_pool (s\<lparr>callers := (callers s)(i \<mapsto> c)\<rparr>))
      \<or> (\<exists>j d. callers (s\<lparr>callers := (callers s)(i \<mapsto> c)\<rparr>) j = Some d \<and> held (ca_at d) = Some cn)"
    if "cn < length (clients (ps_pool (s\<lparr>callers := (callers s)(i \<mapsto> c)\<rparr>)))" for cn
    using pool_invD(4) [OF assms(1), of cn] that assms(2) by simp (metis fun_upd_other option.distinct(1))
  show "dialed_for (callers (s\<lparr>callers := (callers s)(i \<mapsto> c)\<rparr>)) key (clients (ps_pool (s\<lparr>callers := (callers s)(i \<mapsto> c)\<rparr>)) ! cn)"
    if "(key, cn) \<in> set (conns (ps_pool (s\<lparr>callers := (callers s)(i \<mapsto> c)\<rparr>)))" for key cn
    using pool_invD(5) [OF assms(1), of key cn] that assms(2) by (simp add: dialed_for_spawn)
qed (use pool_invD(1) [OF assms(1)] in simp)

lemma pool_step_inv: "pool_inv s \<Longrightarrow> pool_step env s s' \<Longrightarrow> pool_inv s'"
  by (erule pool_stepE) (auto intro: call_inv advance_inv shut_inv)

interpretation pool: reachable_invariant "pool_step env" pool_inv "\<lambda>s. s = pool_start" for env
proof unfold_locales
  show "pool_inv s" if "s = pool_start" for s :: "'a pool_state"
    using that by (simp add: pool_start_def NewPool_def pool_inv_def conns_ok_def)
qed (rule pool_step_inv)

text \<open>Alone, a goroutine does what \<open>ConnOrCreate\<close> does.\<close>

definition coc_run :: "'o dial_env \<Rightarrow> nat \<Rightarrow> 'o caller \<Rightarrow> 'o pool \<Rightarrow> coc_at \<times> 'o pool" where
  "coc_run env n c p = ((\<lambda>(at, p). coc_step env (c\<lparr>ca_at := at\<rparr>) p) ^^ n) (ca_at c, p)"

lemma coc_run_alone:
  assumes "ca_at c = CLookup"
  shows "coc_run env 5 c p = map_prod CDone id (ConnOrCreate env (ca_key c) (ca_target c) (ca_opts c) p)"
  using assms
  by (cases "map_of (conns p) (ca_key c)"; cases "NewClient_err env (ca_target c) (ca_opts c)")
    (simp_all add: coc_run_def numeral_eq_Suc coc_step_def ConnOrCreate_def Pool_Conn_def Pool_Set_def NewClient_def)

section \<open>Properties\<close>

text \<open>
  C15. Racing for a connection. In every interleaving of any number of \<open>ConnOrCreate\<close> calls with each
  other and with \<open>Close\<close>: two callers get the same connection exactly when they asked for the same
  key; the connection returned is the one registered, was dialed by a caller of that key with that
  caller's target and options, and is open as long as the pool has not been closed; the only error
  is a failed dial; and once the callers have returned, every connection that was ever dialed is
  registered or has been closed, so none is leaked.
\<close>

theorem ConnOrCreate_race:
  assumes "(pool_step env)\<^sup>*\<^sup>* pool_start s"
  shows "(\<forall>i j c d cn dn. callers s i = Some c \<longrightarrow> callers s j = Some d \<longrightarrow> ca_at c = CDone (Inr cn) \<longrightarrow> ca_at d = CDone (Inr dn)
            \<longrightarrow> (cn = dn \<longleftrightarrow> ca_key c = ca_key d))
    \<and> (\<forall>i c cn. callers s i = Some c \<longrightarrow> ca_at c = CDone (Inr cn)
            \<longrightarrow> Pool_Conn (ca_key c) (ps_pool s) = Inr cn \<and> dialed_for (callers s) (ca_key c) (clients (ps_pool s) ! cn)
              \<and> (\<not> closeOnce (ps_pool s) \<longrightarrow> cn \<notin> set (closed (ps_pool s))))
    \<and> (\<forall>i c err. callers s i = Some c \<longrightarrow> ca_at c = CDone (Inl err) \<longrightarrow> (\<exists>e. err = connect_failed (ca_target c) e))
    \<and> ((\<forall>i c. callers s i = Some c \<longrightarrow> (\<exists>res. ca_at c = CDone res))
         \<longrightarrow> (\<forall>cn < length (clients (ps_pool s)). cn \<in> snd ` set (conns (ps_pool s)) \<or> cn \<in> set (closed (ps_pool s))))"
proof -
  have inv: "pool_inv s" using pool.reachable_I [of env s] assms by (auto simp: runs_from_def)
  have reg: "map_of (conns (ps_pool s)) (ca_key c) = Some cn" if "callers s i = Some c" "ca_at c = CDone (Inr cn)" for i c cn
    using pool_invD(2) [OF inv that(1)] that(2) by (simp add: caller_ok_def)
  have conns: "\<not> closeOnce (ps_pool s) \<Longrightarrow> snd ` set (conns (ps_pool s)) \<inter> set (closed (ps_pool s)) = {}"
    using pool_invD(1) [OF inv] by (auto simp: conns_ok_def)
  note same = conns_ok_inj [OF pool_invD(1) [OF inv]]
  show ?thesis
  proof (intro conjI allI impI)
    show "cn = dn \<longleftrightarrow> ca_key c = ca_key d" if "callers s i = Some c" "callers s j = Some d" "ca_at c = CDone (Inr cn)" "ca_at d = CDone (Inr dn)"
      for i j c d cn dn using reg [OF that(1,3)] reg [OF that(2,4)] same by auto
    fix i c cn assume c: "callers s i = Some c" "ca_at c = CDone (Inr cn)"
    show "Pool_Conn (ca_key c) (ps_pool s) = Inr cn" using reg [OF c] by (simp add: Pool_Conn_def)
    show "dialed_for (callers s) (ca_key c) (clients (ps_pool s) ! cn)" using pool_invD(5) [OF inv] reg [OF c] by (meson map_of_SomeD)
    show "cn \<notin> set (closed (ps_pool s))" if "\<not> closeOnce (ps_pool s)" using conns [OF that] reg [OF c] by (force dest: map_of_SomeD)
  next
    show "\<exists>e. err = connect_failed (ca_target c) e" if "callers s i = Some c" "ca_at c = CDone (Inl err)" for i c err
      using pool_invD(2) [OF inv that(1)] that(2) by (simp add: caller_ok_def)
    show "cn \<in> snd ` set (conns (ps_pool s)) \<or> cn \<in> set (closed (ps_pool s))"
      if "\<forall>i c. callers s i = Some c \<longrightarrow> (\<exists>res. ca_at c = CDone res)" "cn < length (clients (ps_pool s))" for cn
      using pool_invD(4) [OF inv that(2)] that(1) by (force simp: held_def)
  qed
qed

definition ex_dial :: "nat dial_env" where
  "ex_dial = \<lparr>NewClient_err = (\<lambda>target opts. if target = [] then Some (ErrorString ''no target'') else None), Close_err = (\<lambda>_. None)\<rparr>"

text \<open>Two callers of one key both miss and both dial; the first to register wins, the other closes
  its own connection and takes the winner's.\<close>

definition ex_caller :: "coc_at \<Rightarrow> nat caller" where
  "ex_caller at = \<lparr>ca_key = ''k'', ca_target = ''h:1'', ca_opts = [], ca_at = at\<rparr>"

definition ex_pool :: "(string \<times> nat) list \<Rightarrow> nat \<Rightarrow> nat list \<Rightarrow> nat pool" where
  "ex_pool cs n cl = \<lparr>conns = cs, closeOnce = False, closeErr = None,
     clients = replicate n \<lparr>cl_target = ''h:1'', cl_opts = []\<rparr>, closed = cl\<rparr>"

definition ex_at :: "nat pool \<Rightarrow> coc_at \<Rightarrow> coc_at \<Rightarrow> nat pool_state" where
  "ex_at p at at' = \<lparr>ps_pool = p, callers = [0 \<mapsto> ex_caller at, 1 \<mapsto> ex_caller at']\<rparr>"

lemma ex_advance:
  assumes "coc_step ex_dial (ex_caller at) p = (at', p')" "\<nexists>res. at = CDone res"
  shows "pool_step ex_dial (ex_at p at b) (ex_at p' at' b)" "pool_step ex_dial (ex_at p b at) (ex_at p' b at')"
  using pool_step.advance [of "ex_at p at b" 0 "ex_caller at" ex_dial at' p'] pool_step.advance [of "ex_at p b at" 1 "ex_caller at" ex_dial at' p'] assms
  by (simp_all add: ex_at_def ex_caller_def fun_upd_twist)

lemma ex_spawn: "(pool_step ex_dial)\<^sup>*\<^sup>* pool_start (ex_at (ex_pool [] 0 []) CLookup CLookup)"
proof -
  let ?s = "\<lparr>ps_pool = NewPool, callers = [0 \<mapsto> ex_caller CLookup]\<rparr>"
  have "pool_step ex_dial pool_start ?s" using pool_step.call [of pool_start 0 ex_dial] by (simp add: pool_start_def ex_caller_def)
  moreover have "pool_step ex_dial ?s (ex_at (ex_pool [] 0 []) CLookup CLookup)"
    using pool_step.call [of ?s 1 ex_dial] by (simp add: ex_at_def ex_caller_def ex_pool_def NewPool_def)
  ultimately show ?thesis by (rule converse_rtranclp_into_rtranclp [OF _ r_into_rtranclp])
qed

lemma ex_race: "(pool_step ex_dial)\<^sup>*\<^sup>* pool_start (ex_at (ex_pool [(''k'', 0)] 2 [1]) (CDone (Inr 0)) (CDone (Inr 0)))"
proof -
  note coc = coc_step_def ex_caller_def Pool_Conn_def Pool_Set_def NewClient_def Close_conn_def ex_dial_def ex_pool_def
  have "pool_step ex_dial (ex_at (ex_pool [] 0 []) CLookup CLookup) (ex_at (ex_pool [] 0 []) CDial CLookup)"
    by (rule ex_advance) (simp_all add: coc)
  moreover have "pool_step ex_dial (ex_at (ex_pool [] 0 []) CDial CLookup) (ex_at (ex_pool [] 0 []) CDial CDial)"
    by (rule ex_advance) (simp_all add: coc)
  moreover have "pool_step ex_dial (ex_at (ex_pool [] 0 []) CDial CDial) (ex_at (ex_pool [] 1 []) (CSet 0) CDial)"
    by (rule ex_advance) (simp_all add: coc)
  moreover have "pool_step ex_dial (ex_at (ex_pool [] 1 []) (CSet 0) CDial) (ex_at (ex_pool [] 2 []) (CSet 0) (CSet 1))"
    by (rule ex_advance) (simp_all add: coc numeral_2_eq_2)
  moreover have "pool_step ex_dial (ex_at (ex_pool [] 2 []) (CSet 0) (CSet 1)) (ex_at (ex_pool [(''k'', 0)] 2 []) (CDone (Inr 0)) (CSet 1))"
    by (rule ex_advance) (simp_all add: coc)
  moreover have "pool_step ex_dial (ex_at (ex_pool [(''k'', 0)] 2 []) (CDone (Inr 0)) (CSet 1)) (ex_at (ex_pool [(''k'', 0)] 2 []) (CDone (Inr 0)) (CClose 1))"
    by (rule ex_advance) (simp_all add: coc)
  moreover have "pool_step ex_dial (ex_at (ex_pool [(''k'', 0)] 2 []) (CDone (Inr 0)) (CClose 1)) (ex_at (ex_pool [(''k'', 0)] 2 [1]) (CDone (Inr 0)) CReread)"
    by (rule ex_advance) (simp_all add: coc)
  moreover have "pool_step ex_dial (ex_at (ex_pool [(''k'', 0)] 2 [1]) (CDone (Inr 0)) CReread) (ex_at (ex_pool [(''k'', 0)] 2 [1]) (CDone (Inr 0)) (CDone (Inr 0)))"
    by (rule ex_advance) (simp_all add: coc)
  ultimately show ?thesis using ex_spawn by (meson rtranclp.rtrancl_into_rtrancl)
qed

theorem ConnOrCreate_race_witness:
  "Pool_Conn ''k'' (ex_pool [(''k'', 0)] 2 [1]) = Inr 0
   \<and> {..< length (clients (ex_pool [(''k'', 0)] 2 [1]))} \<subseteq> snd ` set [(''k'', 0)] \<union> set [1]"
proof
  let ?s = "ex_at (ex_pool [(''k'', 0)] 2 [1]) (CDone (Inr 0)) (CDone (Inr 0))"
  have c: "callers ?s 0 = Some (ex_caller (CDone (Inr 0)))" by (simp add: ex_at_def)
  have "Pool_Conn (ca_key (ex_caller (CDone (Inr 0)))) (ps_pool ?s) = Inr 0"
    using ConnOrCreate_race [OF ex_race, THEN conjunct2, THEN conjunct1, rule_format, OF c] by (simp add: ex_caller_def)
  then show "Pool_Conn ''k'' (ex_pool [(''k'', 0)] 2 [1]) = Inr 0" by (simp add: ex_at_def ex_caller_def)
  have "\<forall>i c. callers ?s i = Some c \<longrightarrow> (\<exists>res. ca_at c = CDone res)" by (auto simp: ex_at_def ex_caller_def split: if_splits)
  with ConnOrCreate_race [OF ex_race]
  have "\<forall>cn < length (clients (ps_pool ?s)). cn \<in> snd ` set (conns (ps_pool ?s)) \<or> cn \<in> set (closed (ps_pool ?s))" by blast
  then show "{..< length (clients (ex_pool [(''k'', 0)] 2 [1]))} \<subseteq> snd ` set [(''k'', 0)] \<union> set [1]"
    by (auto simp: ex_at_def ex_pool_def)
qed

end
