(* ===== verification/Connect.thy ===== *)
theory Connect
  imports Pool Bytesize Rpc Namespace_Rules
begin

text \<open>
  \<open>internal/transport/connect/conn.go\<close> and \<open>internal/proxy/resolver.go\<close>: the connection of an
  upstream, which resolves every request to a pool key, a target and dial options, and takes the
  next of its pooled connections in turn; the static resolver, and the one that renders templates.

  Templates render with \<open>text/template\<close>, and credentials come from the upstream's dialer; both
  are functions of the model. The counter of \<open>Conn\<close> is a 64-bit word and wraps around.

  One pool serves the connections of all hops. \<open>dialed_ok\<close> says of each pooled connection which hop it was
  dialed for. The locale \<open>keyed_resolver\<close> is the contract between a resolver and the pool: requests with one
  key agree on target and options. It is interpreted on both resolvers, on the one that renders templates
  for the keys in which no rendered name has a NUL byte; from it follows that a hop that shares its key with
  no other gets connections dialed with its own options. \<open>Shared_Pool\<close> applies it to the hops of the program.
\<close>

section \<open>Connections\<close>

text \<open>What a resolver returns: the pool key, the dial target and the dial options.\<close>

type_synonym 'o resolved = "string \<times> string \<times> 'o list"

record ('c, 'o) Resolver =
  IsStatic :: bool
  R_Resolve :: "'c \<Rightarrow> 'o resolved result"

record ('c, 'o) Conn =
  resolver :: "('c, 'o) Resolver"
  c_size :: int
  c_next :: "64 word"

definition member :: "('c, 'o) Conn \<Rightarrow> string \<Rightarrow> int \<Rightarrow> string" where
  "member c key i = (if c_size c = 1 then key else key @ ''#'' @ fmt_d i)"

definition conn_conn :: "'o dial_env \<Rightarrow> ('c, 'o) Conn \<Rightarrow> 'c \<Rightarrow> 'o pool \<Rightarrow> nat result \<times> ('c, 'o) Conn \<times> 'o pool" where
  "conn_conn env c ctx p =
     (case R_Resolve (resolver c) ctx of
        Inl err \<Rightarrow> (Inl err, c, p)
      | Inr (key, target, opts) \<Rightarrow>
          (let (i, c') = (if c_size c > 1
                          then (uint (c_next c mod word_of_int (c_size c)), c\<lparr>c_next := c_next c + 1\<rparr>)
                          else (0, c))
           in case ConnOrCreate env (member c key i) target opts p of (res, p) \<Rightarrow> (res, c', p)))"

fun members :: "'o dial_env \<Rightarrow> ('c, 'o) Conn \<Rightarrow> 'o resolved \<Rightarrow> int list \<Rightarrow> 'o pool \<Rightarrow> nat list result \<times> 'o pool" where
  "members env c r [] p = (Inr [], p)"
| "members env c (key, target, opts) (i # is) p =
     (case ConnOrCreate env (member c key i) target opts p of
        (Inl err, p) \<Rightarrow> (Inl err, p)
      | (Inr cn, p) \<Rightarrow>
          (case members env c (key, target, opts) is p of
             (Inl err, p) \<Rightarrow> (Inl err, p)
           | (Inr cns, p) \<Rightarrow> (Inr (cn # cns), p)))"

definition connections :: "'o dial_env \<Rightarrow> ('c, 'o) Conn \<Rightarrow> 'c \<Rightarrow> 'o pool \<Rightarrow> (nat list \<times> string) result \<times> 'o pool" where
  "connections env c ctx p =
     (case R_Resolve (resolver c) ctx of
        Inl err \<Rightarrow> (Inl err, p)
      | Inr (key, target, opts) \<Rightarrow>
          (case members env c (key, target, opts) [0..c_size c - 1] p of
             (Inl err, p) \<Rightarrow> (Inl err, p)
           | (Inr cns, p) \<Rightarrow> (Inr (cns, target), p)))"

text \<open>An option changes the connection; \<open>background\<close> is \<open>context.Background()\<close>.\<close>

definition WithConnections :: "int \<Rightarrow> ('c, 'o) Conn \<Rightarrow> ('c, 'o) Conn" where
  "WithConnections n c = c\<lparr>c_size := n\<rparr>"

definition NewConn :: "'o dial_env \<Rightarrow> 'c \<Rightarrow> ('c, 'o) Resolver \<Rightarrow> (('c, 'o) Conn \<Rightarrow> ('c, 'o) Conn) list \<Rightarrow> 'o pool
    \<Rightarrow> ('c, 'o) Conn result \<times> 'o pool" where
  "NewConn env background r opts p =
     (let cc = fold (\<lambda>opt c. opt c) opts \<lparr>resolver = r, c_size = 1, c_next = 0\<rparr>
      in if c_size cc < 1
         then (Inl (ErrorString (''connection pool size must be at least 1, got '' @ fmt_d (c_size cc))), p)
         else if IsStatic r
         then (case connections env cc background p of
                 (Inl err, p) \<Rightarrow> (Inl (WrapError (''failed to initialize connection: '' @ Error err) [err]), p)
               | (Inr _, p) \<Rightarrow> (Inr cc, p))
         else (Inr cc, p))"

text \<open>\<open>Invoke\<close> and \<open>NewStream\<close> call the connection they resolve; \<open>call\<close> is gRPC's.\<close>

definition Conn_call :: "'o dial_env \<Rightarrow> (nat \<Rightarrow> 'r result) \<Rightarrow> ('c, 'o) Conn \<Rightarrow> 'c \<Rightarrow> 'o pool
    \<Rightarrow> 'r result \<times> ('c, 'o) Conn \<times> 'o pool" where
  "Conn_call env call c ctx p =
     (case conn_conn env c ctx p of
        (Inl err, c, p) \<Rightarrow> (Inl err, c, p)
      | (Inr cc, c, p) \<Rightarrow> (call cc, c, p))"

text \<open>Waiting: the states a connection goes through until the context is done, and the error of
  the context.\<close>

datatype connectivity = Idle | Connecting | Ready | TransientFailure | Shutdown

fun connectivity_String :: "connectivity \<Rightarrow> string" where
  "connectivity_String Idle = ''IDLE''"
| "connectivity_String Connecting = ''CONNECTING''"
| "connectivity_String Ready = ''READY''"
| "connectivity_String TransientFailure = ''TRANSIENT_FAILURE''"
| "connectivity_String Shutdown = ''SHUTDOWN''"

fun awaitReady :: "string \<Rightarrow> goerror \<Rightarrow> connectivity \<Rightarrow> connectivity list \<Rightarrow> goerror option" where
  "awaitReady target ctxErr state later =
     (case state of
        Ready \<Rightarrow> None
      | Shutdown \<Rightarrow> Some (ErrorString (target @ '': connection is closed''))
      | _ \<Rightarrow>
          (case later of
             [] \<Rightarrow> Some (WrapError (target @ '': not ready (last state: '' @ connectivity_String state @ ''): '' @ Error ctxErr) [ctxErr])
           | state' # later' \<Rightarrow> awaitReady target ctxErr state' later'))"

fun await_all :: "string \<Rightarrow> goerror \<Rightarrow> (nat \<Rightarrow> connectivity \<times> connectivity list) \<Rightarrow> nat list \<Rightarrow> goerror option" where
  "await_all target ctxErr states [] = None"
| "await_all target ctxErr states (cc # ccs) =
     (case awaitReady target ctxErr (fst (states cc)) (snd (states cc)) of
        Some err \<Rightarrow> Some err
      | None \<Rightarrow> await_all target ctxErr states ccs)"

definition Conn_WaitReady :: "'o dial_env \<Rightarrow> goerror \<Rightarrow> (nat \<Rightarrow> connectivity \<times> connectivity list) \<Rightarrow> ('c, 'o) Conn \<Rightarrow> 'c \<Rightarrow> 'o pool
    \<Rightarrow> goerror option \<times> 'o pool" where
  "Conn_WaitReady env ctxErr states c ctx p =
     (if \<not> IsStatic (resolver c) then (None, p)
      else case connections env c ctx p of
             (Inl err, p) \<Rightarrow> (Some err, p)
           | (Inr (ccs, target), p) \<Rightarrow> (await_all target ctxErr states ccs, p))"

section \<open>Resolvers\<close>

definition StaticResolver :: "string \<Rightarrow> 'o list \<Rightarrow> ('c, 'o) Resolver" where
  "StaticResolver hostPort opts = \<lparr>IsStatic = True, R_Resolve = (\<lambda>_. Inr (hostPort, hostPort, opts))\<rparr>"

record UpstreamContext =
  LocalNamespace :: string
  RemoteNamespace :: string
  Metadata :: "string gomap"

record tmpl =
  t_raw :: string
  IsLiteral :: bool
  Render :: "UpstreamContext \<Rightarrow> string result"

record RouteData = UpstreamContext +
  ResolvedServerName :: string

record 'o DynamicResolver =
  d_name :: string
  d_host :: tmpl
  d_serverName :: tmpl
  d_remote :: "string \<Rightarrow> string"
  d_opts :: "RouteData \<Rightarrow> 'o list result"

definition lastMetadataValues :: "'g grpc_api \<Rightarrow> 'g goctx \<Rightarrow> string gomap" where
  "lastMetadataValues api ctx =
     (case FromOutgoingContext api (grpc_part ctx) of
        None \<Rightarrow> []
      | Some md \<Rightarrow> map (\<lambda>(k, v). (k, last v)) (filter (\<lambda>(k, v). v \<noteq> []) md))"

definition invalidAddress :: "string \<Rightarrow> bool" where
  "invalidAddress addr =
     (if TrimSpace addr = [] then True
      else let hp = (case Index addr ''://'' of None \<Rightarrow> addr | Some i \<Rightarrow> TrimPrefix (drop (i + 3) addr) ''/'');
               host = TrimSpace (case SplitHostPort hp of None \<Rightarrow> hp | Some (h, _) \<Rightarrow> h)
           in if host = [] then True
              else [] \<in> set (SplitChar (TrimSuffix host ''.'') (CHR ''.'')))"

text \<open>The messages name the upstream; the template and what it rendered are left out.\<close>

definition resolve_failed :: "string \<Rightarrow> string \<Rightarrow> goerror" where
  "resolve_failed name what = StatusError Internal (''proxy: upstream '' @ name @ '' '' @ what)"

definition Dynamic_Resolve :: "'g grpc_api \<Rightarrow> 'o DynamicResolver \<Rightarrow> 'g goctx \<Rightarrow> 'o resolved result" where
  "Dynamic_Resolve api r ctx =
     (let localNS = NamespaceFrom api ctx;
          data = \<lparr>LocalNamespace = localNS, RemoteNamespace = d_remote r localNS, Metadata = lastMetadataValues api ctx\<rparr>
      in case Render (d_host r) data of
           Inl err \<Rightarrow> Inl (resolve_failed (d_name r) (''failed to render hostPort: '' @ Error err))
         | Inr target \<Rightarrow>
             (if invalidAddress target then Inl (resolve_failed (d_name r) ''rendered invalid hostPort'')
              else case Render (d_serverName r) data of
                     Inl err \<Rightarrow> Inl (resolve_failed (d_name r) (''failed to render serverName: '' @ Error err))
                   | Inr svrName \<Rightarrow>
                       (case d_opts r (UpstreamContext.extend data (RouteData.fields svrName)) of
                          Inl err \<Rightarrow> Inl (resolve_failed (d_name r) (''failed to build dial options: '' @ Error err))
                        | Inr opts \<Rightarrow> Inr (target @ CHR 0x00 # svrName, target, opts))))"

definition DynamicConnResolver :: "'g grpc_api \<Rightarrow> 'o DynamicResolver \<Rightarrow> ('g goctx, 'o) Resolver" where
  "DynamicConnResolver api r = \<lparr>IsStatic = False, R_Resolve = Dynamic_Resolve api r\<rparr>"

text \<open>An upstream as \<open>ResolverFor\<close> reads it: its templates are parsed and its rules compiled; the
  dialer makes an option from a server name.\<close>

record 'o Upstream =
  up_Name :: string
  up_HostPort :: string
  up_TLS_ServerName :: "string option"
  up_hostTmpl :: tmpl
  up_serverNameTmpl :: tmpl
  up_Rules :: NamespaceRules
  up_ConnectionDialOptions :: "'o list"
  up_DialOption :: "string \<Rightarrow> 'o result"

definition IsTemplated :: "'o Upstream \<Rightarrow> bool" where
  "IsTemplated u \<longleftrightarrow> \<not> IsLiteral (up_hostTmpl u) \<or> \<not> IsLiteral (up_serverNameTmpl u)"

definition NewDynamicResolver :: "'o Upstream \<Rightarrow> ('o DynamicResolver \<Rightarrow> 'o DynamicResolver) list \<Rightarrow> 'o DynamicResolver" where
  "NewDynamicResolver up opts =
     fold (\<lambda>opt r. opt r) opts
       \<lparr>d_name = up_Name up, d_host = up_hostTmpl up, d_serverName = up_serverNameTmpl up, d_remote = (\<lambda>s. s), d_opts = (\<lambda>_. Inr [])\<rparr>"

definition WithRemoteNamespacer :: "(string \<Rightarrow> string) \<Rightarrow> 'o DynamicResolver \<Rightarrow> 'o DynamicResolver" where
  "WithRemoteNamespacer f r = r\<lparr>d_remote := f\<rparr>"

definition WithOptionsFactory :: "(RouteData \<Rightarrow> 'o list result) \<Rightarrow> 'o DynamicResolver \<Rightarrow> 'o DynamicResolver" where
  "WithOptionsFactory f r = r\<lparr>d_opts := f\<rparr>"

definition ResolverFor :: "'g grpc_api \<Rightarrow> 'o \<Rightarrow> 'o Upstream \<Rightarrow> 'o list \<Rightarrow> ('g goctx, 'o) Resolver result" where
  "ResolverFor api srv upstream opts0 =
     (let opts = opts0 @ up_ConnectionDialOptions upstream @ [srv]
      in if IsTemplated upstream
         then let translator = (if Configured (up_Rules upstream) then remote_of (up_Rules upstream) else (\<lambda>s. s))
              in Inr (DynamicConnResolver api (NewDynamicResolver upstream
                   [WithRemoteNamespacer translator,
                    WithOptionsFactory (\<lambda>data.
                      case up_DialOption upstream (ResolvedServerName data) of
                        Inl err \<Rightarrow> Inl err
                      | Inr cred \<Rightarrow> Inr (opts @ [cred]))]))
         else let serverName = (case up_TLS_ServerName upstream of None \<Rightarrow> [] | Some n \<Rightarrow> n)
              in case up_DialOption upstream serverName of
                   Inl err \<Rightarrow> Inl (WrapError (''failed to build credentials for upstream '' @ up_Name upstream @ '': '' @ Error err) [err])
                 | Inr cred \<Rightarrow> Inr (StaticResolver (up_HostPort upstream) (opts @ [cred])))"

text \<open>The requests an upstream's connection serves, one after the other.\<close>

fun serve_calls :: "'o dial_env \<Rightarrow> ('c, 'o) Conn \<Rightarrow> 'c list \<Rightarrow> 'o pool \<Rightarrow> nat result list \<times> ('c, 'o) Conn \<times> 'o pool" where
  "serve_calls env c [] p = ([], c, p)"
| "serve_calls env c (ctx # ctxs) p =
     (case conn_conn env c ctx p of
        (res, c, p) \<Rightarrow> (case serve_calls env c ctxs p of (ress, c, p) \<Rightarrow> (res # ress, c, p)))"

section \<open>Lemmas\<close>

subsection \<open>Keys\<close>

lemma fmt_d_digits: "0 \<le> i \<Longrightarrow> list_all isDigit (fmt_d i)"
  by (simp add: fmt_d_def isDigit_itoa)

lemma fmt_d_inj: "0 \<le> i \<Longrightarrow> 0 \<le> j \<Longrightarrow> fmt_d i = fmt_d j \<longleftrightarrow> i = j"
  by (metis digits_val_itoa fmt_d_def int_nat_eq not_less)

lemma member_inj:
  assumes "member c k i = member c l j" "0 \<le> i" "0 \<le> j"
  shows "k = l" "c_size c \<noteq> 1 \<Longrightarrow> i = j"
proof -
  have no: "CHR ''#'' \<notin> set (fmt_d n)" if "0 \<le> n" for n
    using fmt_d_digits [OF that] by (auto simp: list_all_iff isDigit_def)
  have "k = l \<and> i = j" if s: "c_size c \<noteq> 1"
  proof -
    have eq: "k @ CHR ''#'' # fmt_d i = l @ CHR ''#'' # fmt_d j" using assms(1) s by (simp add: member_def)
    then have "LastIndexChar (k @ CHR ''#'' # fmt_d i) (CHR ''#'') = LastIndexChar (l @ CHR ''#'' # fmt_d j) (CHR ''#'')" by simp
    then have "length k = length l" using no assms(2,3) by simp
    with eq show ?thesis using fmt_d_inj assms(2,3) by auto
  qed
  then show "k = l" "c_size c \<noteq> 1 \<Longrightarrow> i = j" using assms(1) by (cases "c_size c = 1"; simp add: member_def)+
qed

subsection \<open>The pool, one call at a time\<close>

lemma ConnOrCreate_cases:
  assumes "ConnOrCreate env key target opts p = (res, p')"
  obtains (hit) cn where "map_of (conns p) key = Some cn" "res = Inr cn" "p' = p"
  | (failed) err where "map_of (conns p) key = None" "NewClient_err env target opts = Some err" "res = Inl (connect_failed target err)" "p' = p"
  | (made) "map_of (conns p) key = None" "NewClient_err env target opts = None" "res = Inr (length (clients p))"
      "p' = p\<lparr>clients := clients p @ [\<lparr>cl_target = target, cl_opts = opts\<rparr>], conns := conns p @ [(key, length (clients p))]\<rparr>"
  using assms
  by (cases "map_of (conns p) key"; cases "NewClient_err env target opts")
    (auto simp: ConnOrCreate_def Pool_Conn_def NewClient_def Pool_Set_def update_fresh)

lemma ConnOrCreate_conns:
  assumes "ConnOrCreate env key target opts p = (res, p')" "conns_ok p"
  shows "conns_ok p' \<and> map_of (conns p) \<subseteq>\<^sub>m map_of (conns p') \<and> prefix (clients p) (clients p')
    \<and> (\<forall>cn. res = Inr cn \<longrightarrow> map_of (conns p') key = Some cn)"
  using assms(1)
proof (cases rule: ConnOrCreate_cases)
  case made
  have "length (clients p) \<notin> used p" using assms(2) by (auto simp: conns_ok_def)
  then have "conns_ok ((p\<lparr>clients := clients p @ [\<lparr>cl_target = target, cl_opts = opts\<rparr>]\<rparr>)\<lparr>conns := AList.update key (length (clients p)) (conns p)\<rparr>)"
    using conns_ok_register [OF conns_ok_client [OF assms(2), of "[\<lparr>cl_target = target, cl_opts = opts\<rparr>]"]] made(1) by simp
  with made show ?thesis by (auto simp: update_fresh map_le_def map_add_def dom_def)
qed (use assms(2) in auto)

lemma conn_conn_prefix:
  assumes "conn_conn env c ctx p = (res, c', p')"
  shows "prefix (clients p) (clients p')"
proof -
  have grow: "prefix (clients p) (clients q')" if "ConnOrCreate env k t os p = (r, q')" for k t os r q'
    using that by (cases rule: ConnOrCreate_cases) auto
  then show ?thesis using assms unfolding conn_conn_def
    by (auto simp: Let_def split: sum.splits prod.splits if_splits)
qed

subsection \<open>Resolvers and the pool\<close>

text \<open>A connection as a caller of the pool: its resolver and its size, wherever its counter stands, and the
  keys it can ask for.\<close>

definition caller_of :: "('c, 'o) Conn \<Rightarrow> ('c, 'o) Conn" where
  "caller_of c = c\<lparr>c_next := 0\<rparr>"

definition conn_keys :: "('c, 'o) Conn \<Rightarrow> string set" where
  "conn_keys c = {member c key i |key i. 0 \<le> i \<and> (\<exists>ctx target opts. R_Resolve (resolver c) ctx = Inr (key, target, opts))}"

lemma caller_of_simps [simp]:
  "resolver (caller_of c) = resolver c" "c_size (caller_of c) = c_size c" "caller_of (c\<lparr>c_next := n\<rparr>) = caller_of c"
  "member (caller_of c) key i = member c key i" "conn_keys (caller_of c) = conn_keys c"
  by (simp_all add: caller_of_def conn_keys_def member_def)

text \<open>A client was dialed under a key by one of the callers, and every registered connection was.\<close>

definition dialed_from :: "('c, 'o) Conn set \<Rightarrow> string \<Rightarrow> 'o client \<Rightarrow> bool" where
  "dialed_from cs k cl \<longleftrightarrow>
     (\<exists>c\<in>cs. \<exists>ctx key target opts i. R_Resolve (resolver c) ctx = Inr (key, target, opts) \<and> 0 \<le> i \<and> k = member c key i
        \<and> cl = \<lparr>cl_target = target, cl_opts = opts\<rparr>)"

definition dialed_ok :: "('c, 'o) Conn set \<Rightarrow> 'o pool \<Rightarrow> bool" where
  "dialed_ok cs p \<longleftrightarrow> (\<forall>(k, cn)\<in>set (conns p). cn < length (clients p) \<and> dialed_from cs k (clients p ! cn))"

lemma dialed_from_keys: "dialed_from cs k cl \<Longrightarrow> \<exists>c\<in>cs. k \<in> conn_keys c"
  unfolding dialed_from_def conn_keys_def by blast

lemma dialed_ok_mono: "dialed_ok cs p \<Longrightarrow> cs \<subseteq> cs' \<Longrightarrow> dialed_ok cs' p"
  unfolding dialed_ok_def dialed_from_def by fast

lemma dialed_ok_empty [simp]: "dialed_ok cs NewPool"
  by (simp add: dialed_ok_def NewPool_def)

lemma ConnOrCreate_dialed:
  assumes "dialed_ok cs p" "caller_of c \<in> cs" "0 \<le> i" "R_Resolve (resolver c) ctx = Inr (key, target, opts)"
    and "ConnOrCreate env (member c key i) target opts p = (res, p')"
  shows "dialed_ok cs p' \<and> (\<forall>cn. res = Inr cn \<longrightarrow> cn < length (clients p') \<and> dialed_from cs (member c key i) (clients p' ! cn))"
  using assms(5)
proof (cases rule: ConnOrCreate_cases)
  case (hit cn)
  from hit(1) have "(member c key i, cn) \<in> set (conns p)" by (rule map_of_SomeD)
  with hit assms(1) show ?thesis by (auto simp: dialed_ok_def)
next
  case made
  have new: "dialed_from cs (member c key i) \<lparr>cl_target = target, cl_opts = opts\<rparr>"
    unfolding dialed_from_def using assms(2-4)
    by (intro bexI [of _ "caller_of c"] exI [of _ ctx] exI [of _ key] exI [of _ target] exI [of _ opts] exI [of _ i]) simp_all
  have "cn < length (clients p') \<and> dialed_from cs k (clients p' ! cn)" if new_in: "(k, cn) \<in> set (conns p')" for k cn
  proof -
    consider "(k, cn) \<in> set (conns p)" | "k = member c key i" "cn = length (clients p)" using new_in made(4) by auto
    then show ?thesis
      using assms(1) new unfolding made(4) by cases (fastforce simp: dialed_ok_def nth_append)+
  qed
  then have "dialed_ok cs p'" unfolding dialed_ok_def by blast
  with made new show ?thesis by (simp add: nth_append)
qed (use assms(1) in simp)

lemma members_dialed:
  assumes "caller_of c \<in> cs" "R_Resolve (resolver c) ctx = Inr (key, target, opts)"
    and "dialed_ok cs p" "\<forall>i\<in>set is. 0 \<le> i" "members env c (key, target, opts) is p = (res, p')"
  shows "dialed_ok cs p'"
  using assms(3-)
proof (induction "is" arbitrary: p res)
  case (Cons i "is")
  obtain res1 p1 where 1: "ConnOrCreate env (member c key i) target opts p = (res1, p1)" by (cases "ConnOrCreate env (member c key i) target opts p")
  have "dialed_ok cs p1" using ConnOrCreate_dialed [OF Cons.prems(1) assms(1) _ assms(2) 1] Cons.prems(2) by simp
  then show ?case using Cons.IH [of p1] Cons.prems(2,3) 1 by (auto split: sum.splits prod.splits)
qed simp

lemma NewConn_shape:
  "NewConn env bg r copts p = (Inr c, p') \<Longrightarrow> (\<And>o1 c0. o1 \<in> set copts \<Longrightarrow> resolver (o1 c0) = resolver c0 \<and> c_next (o1 c0) = c_next c0)
    \<Longrightarrow> resolver c = r \<and> c_next c = 0 \<and> 0 < c_size c"
proof -
  have fold: "(\<forall>o1\<in>set copts. \<forall>c0. resolver (o1 c0) = resolver c0 \<and> c_next (o1 c0) = c_next c0)
      \<Longrightarrow> resolver (fold (\<lambda>opt c. opt c) copts c0) = resolver c0 \<and> c_next (fold (\<lambda>opt c. opt c) copts c0) = c_next c0" for c0
    by (induction copts arbitrary: c0) auto
  assume "NewConn env bg r copts p = (Inr c, p')" "\<And>o1 c0. o1 \<in> set copts \<Longrightarrow> resolver (o1 c0) = resolver c0 \<and> c_next (o1 c0) = c_next c0"
  with fold show ?thesis by (auto simp: NewConn_def Let_def split: if_splits sum.splits prod.splits)
qed

lemma NewConn_dialed:
  assumes "dialed_ok cs p" "NewConn env background r copts p = (Inr c, p')" "resolver c = r"
  shows "dialed_ok (insert (caller_of c) cs) p'"
proof -
  have old: "dialed_ok (insert (caller_of c) cs) p" using assms(1) by (rule dialed_ok_mono) blast
  have ids: "\<forall>i\<in>set [0..c_size c - 1]. 0 \<le> i" by simp
  have "dialed_ok (insert (caller_of c) cs) p'" if "connections env c background p = (res, p')" for res
    using that members_dialed [OF insertI1 _ old ids] old by (auto simp: connections_def split: sum.splits prod.splits)
  with assms(2,3) old show ?thesis
    by (auto simp: NewConn_def Let_def split: if_splits sum.splits prod.splits)
qed

lemma conn_conn_dialed:
  assumes "dialed_ok cs p" "caller_of c \<in> cs" "conn_conn env c ctx p = (res, c', p')"
  shows "dialed_ok cs p'" "caller_of c' = caller_of c"
    "res = Inr cn \<Longrightarrow> \<exists>key target opts i. R_Resolve (resolver c) ctx = Inr (key, target, opts) \<and> 0 \<le> i
       \<and> cn < length (clients p') \<and> dialed_from cs (member c key i) (clients p' ! cn)"
proof -
  have "dialed_ok cs p' \<and> caller_of c' = caller_of c \<and> (\<forall>cn. res = Inr cn \<longrightarrow>
      (\<exists>key target opts i. R_Resolve (resolver c) ctx = Inr (key, target, opts) \<and> 0 \<le> i
         \<and> cn < length (clients p') \<and> dialed_from cs (member c key i) (clients p' ! cn)))"
  proof (cases "R_Resolve (resolver c) ctx")
    case (Inl err)
    then show ?thesis using assms by (auto simp: conn_conn_def)
  next
    case (Inr r)
    obtain key target opts where r: "r = (key, target, opts)" by (cases r)
    obtain i where i: "0 \<le> i" "ConnOrCreate env (member c key i) target opts p = (res, p')"
        "c' = c \<or> c' = c\<lparr>c_next := c_next c + 1\<rparr>"
      using assms(3) Inr r by (cases "ConnOrCreate env (member c key (uint (c_next c mod word_of_int (c_size c)))) target opts p";
          cases "ConnOrCreate env (member c key 0) target opts p") (auto simp: conn_conn_def split: if_splits)
    from ConnOrCreate_dialed [OF assms(1,2) i(1) _ i(2), of ctx] Inr r i(1,3) show ?thesis by auto
  qed
  then show "dialed_ok cs p'" "caller_of c' = caller_of c"
    "res = Inr cn \<Longrightarrow> \<exists>key target opts i. R_Resolve (resolver c) ctx = Inr (key, target, opts) \<and> 0 \<le> i
       \<and> cn < length (clients p') \<and> dialed_from cs (member c key i) (clients p' ! cn)" by blast+
qed

text \<open>\<open>plain\<close> says of which keys the contract holds.\<close>

locale keyed_resolver =
  fixes plain :: "string \<Rightarrow> bool" and resolve :: "'c \<Rightarrow> 'o resolved result"
  assumes keyed: "plain key \<Longrightarrow> resolve a = Inr (key, target, opts) \<Longrightarrow> resolve b = Inr (key, target', opts')
    \<Longrightarrow> target = target' \<and> opts = opts'"
begin

text \<open>A hop that shares a key with no other gets what it would dial itself.\<close>

lemma own_dialed:
  assumes "plain key" "resolve ctx = Inr (key, target, opts)" "0 \<le> i" "dialed_from cs (member c key i) cl"
    and "\<And>d. d \<in> cs \<Longrightarrow> member c key i \<in> conn_keys d \<Longrightarrow> R_Resolve (resolver d) = resolve \<and> c_size d = c_size c"
  shows "cl = \<lparr>cl_target = target, cl_opts = opts\<rparr>"
proof -
  obtain d ctx' key' target' opts' j where d: "d \<in> cs" "R_Resolve (resolver d) ctx' = Inr (key', target', opts')" "0 \<le> j"
      "member c key i = member d key' j" "cl = \<lparr>cl_target = target', cl_opts = opts'\<rparr>"
    using assms(4) unfolding dialed_from_def by blast
  then have "member c key i \<in> conn_keys d" unfolding conn_keys_def by blast
  with assms(5) d(1) have same: "R_Resolve (resolver d) = resolve" "c_size d = c_size c" by blast+
  from same(2) d(4) have "member c key i = member c key' j" by (simp add: member_def)
  then have "key = key'" using member_inj(1) assms(3) d(3) by blast
  with keyed [OF assms(1,2), of ctx'] d(2,5) same(1) show ?thesis by simp
qed

end

text \<open>A key of a rendered address and server name in which neither has a NUL byte.\<close>

definition one_nul :: "string \<Rightarrow> bool" where
  "one_nul key \<longleftrightarrow> length (filter (\<lambda>c. c = CHR 0x00) key) = 1"

lemma one_nul_split: "one_nul (t @ CHR 0x00 # s) \<Longrightarrow> CHR 0x00 \<notin> set t \<and> CHR 0x00 \<notin> set s"
  by (auto simp: one_nul_def filter_empty_conv)

lemma one_nul_member:
  assumes "0 \<le> i"
  shows "one_nul (member c key i) = one_nul key"
proof -
  have "filter (\<lambda>c. c = CHR 0x00) (fmt_d i) = []"
    using fmt_d_digits [OF assms] by (fastforce simp: list_all_iff isDigit_def filter_empty_conv)
  then show ?thesis by (simp add: one_nul_def member_def)
qed

lemma Dynamic_ResolveD:
  assumes "Dynamic_Resolve api r ctx = Inr (key, target, opts)"
  obtains data svrName where "Render (d_host r) data = Inr target" "\<not> invalidAddress target" "Render (d_serverName r) data = Inr svrName"
    "d_opts r (UpstreamContext.extend data (RouteData.fields svrName)) = Inr opts" "key = target @ CHR 0x00 # svrName"
  using assms unfolding Dynamic_Resolve_def Let_def by (auto split: sum.splits if_splits)

text \<open>The address is what a key has before its NUL byte, whatever template rendered it and whatever the number of
  connections.\<close>

lemma Dynamic_target:
  assumes "Dynamic_Resolve api r ctx = Inr (key, target, opts)" "one_nul (member c key i)" "0 \<le> i"
  shows "target = takeWhile (\<lambda>ch. ch \<noteq> CHR 0x00) (member c key i)"
proof -
  obtain s where key: "key = target @ CHR 0x00 # s" using assms(1) by (rule Dynamic_ResolveD) blast
  then have no: "CHR 0x00 \<notin> set target" using one_nul_split assms(2,3) by (simp add: one_nul_member)
  have "takeWhile (\<lambda>ch. ch \<noteq> CHR 0x00) (target @ CHR 0x00 # rest) = target" for rest
    using no by (subst takeWhile_append2) auto
  then show ?thesis by (simp add: member_def key)
qed

interpretation static: keyed_resolver "\<lambda>_. True" "R_Resolve (StaticResolver hostPort dopts)" for hostPort dopts
  by unfold_locales (simp add: StaticResolver_def)

interpretation dynamic: keyed_resolver one_nul "Dynamic_Resolve api (r\<lparr>d_opts := \<lambda>data. dial (ResolvedServerName data)\<rparr>)" for r api dial
proof unfold_locales
  fix a b key target opts target' opts'
  let ?r = "r\<lparr>d_opts := \<lambda>data. dial (ResolvedServerName data)\<rparr>"
  assume one: "one_nul key" and a: "Dynamic_Resolve api ?r a = Inr (key, target, opts)" and b: "Dynamic_Resolve api ?r b = Inr (key, target', opts')"
  obtain s where s: "dial s = Inr opts" "key = target @ CHR 0x00 # s"
    using a by (rule Dynamic_ResolveD) (simp add: UpstreamContext.defs RouteData.defs)
  obtain s' where s': "dial s' = Inr opts'" "key = target' @ CHR 0x00 # s'"
    using b by (rule Dynamic_ResolveD) (simp add: UpstreamContext.defs RouteData.defs)
  have "CHR 0x00 \<notin> set target" "CHR 0x00 \<notin> set target'"
    using one one_nul_split [of target s] one_nul_split [of target' s'] s(2) s'(2) by simp_all
  then have "target = target'" "s = s'" using s(2) s'(2) CutChar_append by (metis prod.inject)+
  with s(1) s'(1) show "target = target' \<and> opts = opts'" by simp
qed

lemma ResolverFor_cases:
  assumes "ResolverFor api srv up opts = Inr r"
  obtains d dial where "IsTemplated up" "r = DynamicConnResolver api (d\<lparr>d_opts := \<lambda>data. dial (ResolvedServerName data)\<rparr>)"
  | cred where "\<not> IsTemplated up" "r = StaticResolver (up_HostPort up) (opts @ up_ConnectionDialOptions up @ [srv] @ [cred])"
proof (cases "IsTemplated up")
  case True
  let ?d = "\<lparr>d_name = up_Name up, d_host = up_hostTmpl up, d_serverName = up_serverNameTmpl up,
    d_remote = (if Configured (up_Rules up) then remote_of (up_Rules up) else (\<lambda>s. s)), d_opts = (\<lambda>_. Inr [])\<rparr>"
  let ?dial = "\<lambda>sn. case up_DialOption up sn of Inl err \<Rightarrow> Inl err | Inr cred \<Rightarrow> Inr ((opts @ up_ConnectionDialOptions up @ [srv]) @ [cred])"
  have "r = DynamicConnResolver api (?d\<lparr>d_opts := \<lambda>data. ?dial (ResolvedServerName data)\<rparr>)"
    using assms True by (simp add: ResolverFor_def Let_def NewDynamicResolver_def WithRemoteNamespacer_def WithOptionsFactory_def)
  with True show ?thesis by (rule that(1))
next
  case False
  then show ?thesis using assms that(2) by (auto simp: ResolverFor_def Let_def split: sum.splits)
qed

lemma ResolverFor_keyed:
  assumes "ResolverFor api srv up opts = Inr r"
  shows "keyed_resolver (\<lambda>key. IsTemplated up \<longrightarrow> one_nul key) (R_Resolve r)"
  using assms
proof (cases rule: ResolverFor_cases)
  case (1 d dial)
  then show ?thesis using dynamic.keyed_resolver_axioms by (simp add: DynamicConnResolver_def)
next
  case (2 cred)
  then show ?thesis using static.keyed_resolver_axioms by simp
qed

subsection \<open>Taking turns\<close>

definition turn :: "('c, 'o) Conn \<Rightarrow> nat \<Rightarrow> int" where
  "turn c j = uint ((c_next c + of_nat j) mod word_of_int (c_size c))"

lemma turn_nonneg: "0 \<le> turn c j"
  by (simp add: turn_def)

lemma turn_eq:
  assumes "1 < c_size c" "c_size c < 2 ^ 63" "uint (c_next c) + int j < 2 ^ 64"
  shows "turn c j = (uint (c_next c) + int j) mod c_size c"
proof -
  have "uint (word_of_int (c_size c) :: 64 word) = c_size c" using assms(1,2) by (simp add: unsigned_of_int take_bit_int_eq_self)
  moreover have "uint (c_next c + of_nat j :: 64 word) = uint (c_next c) + int j"
  proof -
    have "int j < 2 ^ 64" using assms(3) uint_ge_0 [of "c_next c"] by linarith
    then have "take_bit 64 j = j" by (simp add: take_bit_nat_eq_self)
    then show ?thesis using assms(3) by (simp add: uint_word_ariths unsigned_of_nat)
  qed
  ultimately show ?thesis by (simp add: turn_def uint_mod)
qed

lemma mod_shift_inj:
  assumes "(a + int i) mod n = (a + int j) mod n" "int i < n" "int j < n"
  shows "i = j"
proof -
  have "int i mod n = int j mod n" using assms(1) by (metis add_diff_cancel_left' mod_diff_left_eq)
  then show ?thesis using assms(2,3) by simp
qed

lemma conn_conn_turn:
  assumes "1 < c_size c" "R_Resolve (resolver c) ctx = Inr (key, target, opts)" "NewClient_err env target opts = None" "conns_ok p"
    and "conn_conn env c ctx p = (res, c', p')"
  shows "conns_ok p' \<and> c' = c\<lparr>c_next := c_next c + 1\<rparr> \<and> map_of (conns p) \<subseteq>\<^sub>m map_of (conns p')
    \<and> (\<exists>cn. res = Inr cn \<and> map_of (conns p') (member c key (turn c 0)) = Some cn)"
proof -
  let ?k = "member c key (turn c 0)"
  obtain r q where q: "ConnOrCreate env ?k target opts p = (r, q)" by (cases "ConnOrCreate env ?k target opts p")
  then have "res = r" "p' = q" "c' = c\<lparr>c_next := c_next c + 1\<rparr>"
    using assms(1,2,5) by (auto simp: conn_conn_def turn_def)
  moreover have "\<exists>cn. r = Inr cn" using q assms(3) by (cases rule: ConnOrCreate_cases) auto
  ultimately show ?thesis using ConnOrCreate_conns [OF q assms(4)] by auto
qed

lemma serve_calls_turns:
  assumes "1 < c_size c" "\<forall>ctx\<in>set ctxs. R_Resolve (resolver c) ctx = Inr (key, target, opts)" "NewClient_err env target opts = None"
    and "conns_ok p" "serve_calls env c ctxs p = (ress, c', p')"
  shows "\<exists>cns. ress = map Inr cns \<and> length cns = length ctxs \<and> conns_ok p' \<and> map_of (conns p) \<subseteq>\<^sub>m map_of (conns p')
    \<and> (\<forall>j < length ctxs. map_of (conns p') (member c key (turn c j)) = Some (cns ! j))"
  using assms(1,2,4,5)
proof (induction ctxs arbitrary: c p ress)
  case (Cons ctx ctxs)
  obtain res c1 p1 where 1: "conn_conn env c ctx p = (res, c1, p1)" by (cases "conn_conn env c ctx p")
  obtain ress1 where 2: "serve_calls env c1 ctxs p1 = (ress1, c', p')" "ress = res # ress1" using Cons.prems(4) 1 by (auto split: prod.splits)
  from conn_conn_turn [OF Cons.prems(1) _ assms(3) Cons.prems(3) 1] Cons.prems(2) obtain cn where
    step: "conns_ok p1" "c1 = c\<lparr>c_next := c_next c + 1\<rparr>" "map_of (conns p) \<subseteq>\<^sub>m map_of (conns p1)" "res = Inr cn"
      "map_of (conns p1) (member c key (turn c 0)) = Some cn" by auto
  have "member c1 k i = member c k i" for k i using step(2) by (simp add: member_def)
  moreover have "turn c1 j = turn c (Suc j)" for j using step(2) by (simp add: turn_def add.assoc)
  ultimately obtain cns where rest: "ress1 = map Inr cns" "length cns = length ctxs" "conns_ok p'" "map_of (conns p1) \<subseteq>\<^sub>m map_of (conns p')"
      "\<forall>j < length ctxs. map_of (conns p') (member c key (turn c (Suc j))) = Some (cns ! j)"
    using Cons.IH [of c1 p1 ress1] step(1,2) 2(1) Cons.prems(1,2) by auto
  have "map_of (conns p') (member c key (turn c 0)) = Some cn"
    using rest(4) step(5) unfolding map_le_def by (metis domI)
  with rest(5) have "\<forall>j < Suc (length ctxs). map_of (conns p') (member c key (turn c j)) = Some ((cn # cns) ! j)"
    by (auto simp: nth_Cons less_Suc_eq_0_disj split: nat.splits)
  moreover have "map_of (conns p) \<subseteq>\<^sub>m map_of (conns p')" using step(3) rest(4) by (rule map_le_trans)
  ultimately show ?case using 2(2) step(4) rest by (intro exI [of _ "cn # cns"]) simp
qed auto

section \<open>Properties\<close>

text \<open>An example: an upstream whose address is rendered from the namespace; dial options are strings.\<close>

definition ex_tmpl :: "(UpstreamContext \<Rightarrow> string) \<Rightarrow> tmpl" where
  "ex_tmpl f = \<lparr>t_raw = ''{{...}}'', IsLiteral = False, Render = (\<lambda>d. Inr (f d))\<rparr>"

definition ex_up :: "string \<Rightarrow> (UpstreamContext \<Rightarrow> string) \<Rightarrow> string Upstream" where
  "ex_up name f = \<lparr>up_Name = name, up_HostPort = ''{{...}}'', up_TLS_ServerName = None, up_hostTmpl = ex_tmpl f,
     up_serverNameTmpl = \<lparr>t_raw = [], IsLiteral = True, Render = (\<lambda>_. Inr [])\<rparr>,
     up_Rules = \<lparr>Prefix = [], Suffix = [], Overrides = [], localToRemote = Some [], remoteToLocal = Some []\<rparr>,
     up_ConnectionDialOptions = [], up_DialOption = (\<lambda>n. Inr (''tls:'' @ n))\<rparr>"

definition ex_by_namespace :: "UpstreamContext \<Rightarrow> string" where
  "ex_by_namespace d = LocalNamespace d @ ''.acme:7233''"

definition ex_dials :: "string dial_env" where
  "ex_dials = \<lparr>NewClient_err = (\<lambda>_ _. None), Close_err = (\<lambda>_. None)\<rparr>"

definition ex_request :: "string \<Rightarrow> string \<Rightarrow> ex_grpc goctx" where
  "ex_request ns cluster = \<lparr>grpc_part = \<lparr>g_in = None, g_out = Some [(NamespaceHeader, [ns]), (''x-cluster'', [cluster])], g_method = None\<rparr>,
     targetKey = None, loopbackKey = None\<rparr>"

definition ex_resolver :: "string Upstream \<Rightarrow> string \<Rightarrow> (ex_grpc goctx, string) Resolver" where
  "ex_resolver up opt = (case ResolverFor ex_api ''srv'' up [opt] of Inr r \<Rightarrow> r | Inl _ \<Rightarrow> StaticResolver [] [])"

definition ex_conn :: "string Upstream \<Rightarrow> string \<Rightarrow> int \<Rightarrow> (ex_grpc goctx, string) Conn" where
  "ex_conn up opt n = \<lparr>resolver = ex_resolver up opt, c_size = n, c_next = 0\<rparr>"

text \<open>
  Calls are spread. With \<open>n\<close> connections per target, \<open>n\<close> calls in a row to one target get \<open>n\<close>
  different connections, wherever the counter stands, as long as it does not wrap around within
  them; and the index of a call is always one of \<open>0\<close> to \<open>n - 1\<close>, wrapped around or not.
\<close>

theorem Conn_spreads:
  assumes "1 < c_size c" "c_size c < 2 ^ 63" "uint (c_next c) + c_size c \<le> 2 ^ 64" "length ctxs = nat (c_size c)"
    and "\<forall>ctx\<in>set ctxs. R_Resolve (resolver c) ctx = Inr (key, target, opts)" "NewClient_err env target opts = None"
    and "conns_ok p" "serve_calls env c ctxs p = (ress, c', p')"
  shows "(\<exists>cns. ress = map Inr cns \<and> distinct cns \<and> length cns = nat (c_size c)) \<and> (\<forall>j. 0 \<le> turn c j \<and> turn c j < c_size c)"
proof
  obtain cns where *: "ress = map Inr cns" "length cns = length ctxs" "conns_ok p'"
      "\<forall>j < length ctxs. map_of (conns p') (member c key (turn c j)) = Some (cns ! j)"
    using serve_calls_turns [OF assms(1,5,6,7,8)] by auto
  have "i = j" if "i < length cns" "j < length cns" "cns ! i = cns ! j" for i j
  proof -
    have "map_of (conns p') (member c key (turn c i)) = map_of (conns p') (member c key (turn c j))"
      "map_of (conns p') (member c key (turn c i)) = Some (cns ! i)" using * that by auto
    then have "member c key (turn c i) = member c key (turn c j)"
      using conns_ok_inj [OF *(3)] by metis
    then have "turn c i = turn c j" using member_inj(2) turn_nonneg assms(1) by fastforce
    then have "(uint (c_next c) + int i) mod c_size c = (uint (c_next c) + int j) mod c_size c"
      using turn_eq [OF assms(1,2)] assms(3,4) *(2) that(1,2) by simp
    then show "i = j" using mod_shift_inj assms(4) *(2) that(1,2) by auto
  qed
  then show "\<exists>cns. ress = map Inr cns \<and> distinct cns \<and> length cns = nat (c_size c)"
    using *(1,2) assms(4) by (auto simp: distinct_conv_nth)
  have "uint (word_of_int (c_size c) :: 64 word) = c_size c" using assms(1,2) by (simp add: unsigned_of_int take_bit_int_eq_self)
  then show "\<forall>j. 0 \<le> turn c j \<and> turn c j < c_size c" using assms(1) by (simp add: turn_def uint_mod)
qed

theorem Conn_spreads_witness:
  "\<exists>cns. fst (serve_calls ex_dials (ex_conn (ex_up ''a'' ex_by_namespace) ''codec-a'' 2) [ex_request ''pay'' ''x'', ex_request ''pay'' ''x''] NewPool)
      = map Inr cns \<and> distinct cns \<and> length cns = 2"
proof -
  let ?c = "ex_conn (ex_up ''a'' ex_by_namespace) ''codec-a'' 2" and ?ctxs = "[ex_request ''pay'' ''x'', ex_request ''pay'' ''x'']"
  obtain ress c' p' where s: "serve_calls ex_dials ?c ?ctxs NewPool = (ress, c', p')" by (cases "serve_calls ex_dials ?c ?ctxs NewPool")
  have "R_Resolve (resolver ?c) (ex_request ''pay'' ''x'') = Inr (''pay.acme:7233'' @ [CHR 0x00], ''pay.acme:7233'', [''codec-a'', ''srv'', ''tls:''])"
    by code_simp
  then have r: "\<forall>ctx\<in>set ?ctxs. R_Resolve (resolver ?c) ctx = Inr (''pay.acme:7233'' @ [CHR 0x00], ''pay.acme:7233'', [''codec-a'', ''srv'', ''tls:''])" by simp
  have "conns_ok (NewPool :: string pool)" by (simp add: conns_ok_def NewPool_def)
  from Conn_spreads [OF _ _ _ _ r _ this s] s show ?thesis by (simp add: ex_conn_def ex_dials_def)
qed

end
