(* ===== verification/Srv.thy ===== *)
theory Srv
  imports Decimal Transition "HOL-Library.List_Lexorder" "HOL-Library.Char_ord"
begin

text \<open>
  \<open>internal/transport/resolve/srv.go\<close>: the resolver for \<open>srv:///\<close> targets. \<open>url.Parse\<close> and gRPC's
  \<open>Target.Endpoint\<close> are parameters; a \<open>URL\<close> has the parts the code reads. The goroutine that owns the
  lookups is a step relation over the clock: the timer is the time \<open>due\<close>, and a lookup takes some
  time and returns what DNS says. The clock counts from Go's zero time.
\<close>

section \<open>Targets\<close>

record URL =
  url_Scheme :: string
  url_Host :: string
  url_Opaque :: string
  url_Path :: string
  url_String :: string

definition srv_Scheme :: string where
  "srv_Scheme = ''srv''"

definition ErrInvalidTarget :: goerror where
  "ErrInvalidTarget = ErrorString ''invalid srv target''"

definition errNoRecords :: goerror where
  "errNoRecords = ErrorString ''no usable SRV records''"

definition IsTarget :: "string \<Rightarrow> bool" where
  "IsTarget target = HasPrefix target (srv_Scheme @ '':'')"

definition invalid_target :: "string \<Rightarrow> string \<Rightarrow> goerror" where
  "invalid_target raw why = WrapError (Error ErrInvalidTarget @ '' '' @ raw @ '': '' @ why) [ErrInvalidTarget]"

definition recordName :: "(URL \<Rightarrow> string) \<Rightarrow> URL \<Rightarrow> string result" where
  "recordName Endpoint u =
     (if url_Host u \<noteq> [] \<or> url_Opaque u \<noteq> []
      then Inl (invalid_target (url_String u) ''use srv:///<name>; a DNS server authority is not supported'')
      else let name = Endpoint u
           in if name = [] then Inl (invalid_target (url_String u) ''missing SRV record name'')
              else if CHR '':'' \<in> set name \<or> CHR ''/'' \<in> set name
              then Inl (invalid_target (url_String u) ''want a bare SRV record name; ports come from the records'')
              else Inr name)"

definition ParseTarget :: "(string \<Rightarrow> URL result) \<Rightarrow> (URL \<Rightarrow> string) \<Rightarrow> string \<Rightarrow> string result" where
  "ParseTarget url_Parse Endpoint target =
     (case url_Parse target of
        Inl err \<Rightarrow> Inl (invalid_target target (Error err))
      | Inr u \<Rightarrow>
          (if url_Scheme u \<noteq> srv_Scheme then Inl (invalid_target target ''scheme must be srv'')
           else recordName Endpoint u))"

text \<open>\<open>OverrideAuthority\<close>: its loop drops one label a round.\<close>

function strip_labels :: "string \<Rightarrow> string \<Rightarrow> string" where
  "strip_labels name rest =
     (if HasPrefix rest ''_''
      then case CutChar rest (CHR ''.'') of
             (_, after, ok) \<Rightarrow> if \<not> ok then name else strip_labels name after
      else if rest = [] then name else rest)"
  by auto
termination
  by (relation "measure (\<lambda>(_, rest). length rest)") (auto dest!: CutChar_Some [OF sym])

definition OverrideAuthority :: "string \<Rightarrow> string" where
  "OverrideAuthority name = strip_labels name (TrimSuffix name ''.'')"

section \<open>Records\<close>

record SRV =
  srv_Target :: string
  srv_Port :: nat

definition JoinHostPort :: "string \<Rightarrow> string \<Rightarrow> string" where
  "JoinHostPort host port =
     (if CHR '':'' \<in> set host then ''['' @ host @ '']:'' @ port else host @ '':'' @ port)"

text \<open>An endpoint is its single address. \<open>slices.Compact\<close> is \<^const>\<open>remdups_adj\<close>.\<close>

definition srv_endpoints :: "SRV list \<Rightarrow> string list" where
  "srv_endpoints records =
     (let addrs = concat (map (\<lambda>rec. let host = TrimSuffix (srv_Target rec) ''.''
            in if host = [] then [] else [JoinHostPort host (itoa (srv_Port rec))]) records)
      in remdups_adj (sort addrs))"

section \<open>The resolver\<close>

record Builder =
  b_refresh :: int
  b_minGap :: int

definition defaultRefresh :: int where "defaultRefresh = 30 * 10 ^ 9"
definition defaultMinGap :: int where "defaultMinGap = 5 * 10 ^ 9"

definition NewSRVBuilder :: Builder where
  "NewSRVBuilder = \<lparr>b_refresh = defaultRefresh, b_minGap = defaultMinGap\<rparr>"

text \<open>What the \<open>ClientConn\<close> is told.\<close>

datatype cc_event = ReportError goerror | UpdateState "string list"

record srvResolver =
  r_name :: string
  r_refresh :: int
  r_minGap :: int
  clock :: int
  last_lookup :: int
  due :: int
  resolveNow :: bool
  cancelled :: bool
  exited :: bool
  lookups :: "(int \<times> int) list"
  told :: "cc_event list"

text \<open>\<open>Build\<close>, at time \<open>now\<close>: the service config is fixed and \<open>sc_err\<close> says whether gRPC refuses it.\<close>

definition Build :: "(URL \<Rightarrow> string) \<Rightarrow> goerror option \<Rightarrow> int \<Rightarrow> Builder \<Rightarrow> URL \<Rightarrow> srvResolver result" where
  "Build Endpoint sc_err now b target =
     (case recordName Endpoint target of
        Inl err \<Rightarrow> Inl err
      | Inr name \<Rightarrow>
          (case sc_err of
             Some err \<Rightarrow> Inl (WrapError (''srv: parse service config: '' @ Error err) [err])
           | None \<Rightarrow>
               Inr \<lparr>r_name = name, r_refresh = b_refresh b, r_minGap = b_minGap b, clock = now, last_lookup = 0, due = now,
                    resolveNow = False, cancelled = False, exited = False, lookups = [], told = []\<rparr>))"

definition Close :: "srvResolver \<Rightarrow> srvResolver" where
  "Close r = r\<lparr>cancelled := True\<rparr>"

definition ResolveNow :: "srvResolver \<Rightarrow> srvResolver" where
  "ResolveNow r = r\<lparr>resolveNow := True\<rparr>"

text \<open>\<open>resolve\<close>, given what the lookup returned; \<open>r\<close> is the state when it has.\<close>

definition resolve :: "SRV list result \<Rightarrow> srvResolver \<Rightarrow> bool \<times> srvResolver" where
  "resolve res r =
     (if cancelled r then (False, r)
      else let fail = (\<lambda>err. (False, r\<lparr>told := told r @ [ReportError (WrapError (''srv: lookup '' @ r_name r @ '': '' @ Error err) [err])]\<rparr>))
           in case res of
                Inl err \<Rightarrow> fail err
              | Inr records \<Rightarrow>
                  (let eps = srv_endpoints records
                   in if eps = [] then fail errNoRecords else (True, r\<lparr>told := told r @ [UpdateState eps]\<rparr>)))"

text \<open>The two rounds of the loop of \<open>run\<close>: a request for an early lookup, and the timer. The lookup takes
  \<open>d\<close>, and may be cancelled meanwhile.\<close>

definition run_early :: "srvResolver \<Rightarrow> srvResolver" where
  "run_early r =
     (let soon = last_lookup r + r_minGap r
      in r\<lparr>resolveNow := False, due := (if soon < due r then soon else due r)\<rparr>)"

definition run_timer :: "SRV list result \<Rightarrow> int \<Rightarrow> bool \<Rightarrow> srvResolver \<Rightarrow> srvResolver" where
  "run_timer res d cancel r =
     (let r1 = r\<lparr>clock := clock r + d, cancelled := (cancelled r \<or> cancel), lookups := lookups r @ [(clock r, clock r + d)]\<rparr>;
          (ok, r2) = resolve res r1;
          wait = (if ok then r_refresh r2 else r_minGap r2)
      in r2\<lparr>last_lookup := clock r2, due := clock r2 + wait\<rparr>)"

inductive srv_step :: "srvResolver \<Rightarrow> srvResolver \<Rightarrow> bool" where
  passes: "0 \<le> d \<Longrightarrow> srv_step r (r\<lparr>clock := clock r + d\<rparr>)"
| asks: "srv_step r (ResolveNow r)"
| closes: "srv_step r (Close r)"
| early: "\<not> exited r \<Longrightarrow> resolveNow r \<Longrightarrow> srv_step r (run_early r)"
| timer: "\<not> exited r \<Longrightarrow> due r \<le> clock r \<Longrightarrow> 0 \<le> d \<Longrightarrow> srv_step r (run_timer res d cancel r)"
| exits: "\<not> exited r \<Longrightarrow> cancelled r \<Longrightarrow> srv_step r (r\<lparr>exited := True\<rparr>)"

section \<open>The endpoints of a record set\<close>

lemma set_srv_endpoints:
  "set (srv_endpoints records) =
     {JoinHostPort (TrimSuffix (srv_Target rec) ''.'') (itoa (srv_Port rec)) | rec. rec \<in> set records \<and> TrimSuffix (srv_Target rec) ''.'' \<noteq> []}"
  by (auto simp: srv_endpoints_def Let_def)

lemma compact_sorted: "sorted (xs :: 'a :: linorder list) \<Longrightarrow> sorted (remdups_adj xs) \<and> distinct (remdups_adj xs)"
proof
  assume s: "sorted xs"
  then show "sorted (remdups_adj xs)" by (rule sorted_remdups_adj)
  show "distinct (remdups_adj xs)" using s by (induction xs rule: remdups_adj.induct) (auto simp: order.antisym)
qed

section \<open>The schedule\<close>

text \<open>Lookups do not overlap, and between the end of one and the start of the next the minimum gap passes.\<close>

fun spaced :: "int \<Rightarrow> (int \<times> int) list \<Rightarrow> bool" where
  "spaced gap [] = True"
| "spaced gap [l] = (fst l \<le> snd l)"
| "spaced gap (l # l' # ls) = (fst l \<le> snd l \<and> snd l + gap \<le> fst l' \<and> spaced gap (l' # ls))"

lemma spaced_snoc:
  "spaced gap (ls @ [l]) \<longleftrightarrow> spaced gap ls \<and> fst l \<le> snd l \<and> (ls \<noteq> [] \<longrightarrow> snd (last ls) + gap \<le> fst l)"
  by (induction gap ls rule: spaced.induct) auto

definition srv_inv :: "srvResolver \<Rightarrow> bool" where
  "srv_inv r \<longleftrightarrow> r_minGap r \<le> r_refresh r \<and> spaced (r_minGap r) (lookups r)
     \<and> (lookups r \<noteq> [] \<longrightarrow> last_lookup r = snd (last (lookups r)) \<and> last_lookup r \<le> clock r
          \<and> last_lookup r + r_minGap r \<le> due r \<and> due r \<le> last_lookup r + r_refresh r)
     \<and> (\<forall>eps. UpdateState eps \<in> set (told r) \<longrightarrow> eps \<noteq> [] \<and> sorted eps \<and> distinct eps)"

definition srv_start :: "srvResolver \<Rightarrow> bool" where
  "srv_start r \<longleftrightarrow> (\<exists>Endpoint sc_err now b target. Build Endpoint sc_err now b target = Inr r \<and> b_minGap b \<le> b_refresh b)"

lemma resolve_frame:
  assumes "resolve res r = (ok, r')"
  obtains ev where "r' = r\<lparr>told := told r @ ev\<rparr>" "\<And>eps. UpdateState eps \<in> set ev \<Longrightarrow> eps \<noteq> [] \<and> sorted eps \<and> distinct eps"
proof (cases "cancelled r")
  case True
  then show ?thesis using assms by (intro that [of "[]"]) (auto simp: resolve_def)
next
  case False
  have eps: "sorted (srv_endpoints rs) \<and> distinct (srv_endpoints rs)" for rs
    by (simp add: srv_endpoints_def Let_def compact_sorted)
  show ?thesis
  proof (cases res)
    case (Inl err)
    then show ?thesis using assms False by (intro that) (auto simp: resolve_def)
  next
    case (Inr rs)
    then show ?thesis using assms False eps [of rs]
      by (cases "srv_endpoints rs = []") (intro that, auto simp: resolve_def Let_def)+
  qed
qed

lemma srv_step_inv: "srv_step r r' \<Longrightarrow> srv_inv r \<Longrightarrow> srv_inv r'"
proof (induction rule: srv_step.induct)
  case (timer r d res cancel)
  define r1 where "r1 = r\<lparr>clock := clock r + d, cancelled := (cancelled r \<or> cancel), lookups := lookups r @ [(clock r, clock r + d)]\<rparr>"
  obtain ok r2 where r2: "resolve res r1 = (ok, r2)" by (cases "resolve res r1")
  obtain ev where ev: "r2 = r1\<lparr>told := told r1 @ ev\<rparr>" "\<And>eps. UpdateState eps \<in> set ev \<Longrightarrow> eps \<noteq> [] \<and> sorted eps \<and> distinct eps"
    using resolve_frame [OF r2] by blast
  have "run_timer res d cancel r = r2\<lparr>last_lookup := clock r2, due := clock r2 + (if ok then r_refresh r2 else r_minGap r2)\<rparr>"
    using r2 by (simp add: run_timer_def Let_def flip: r1_def)
  then show ?case using timer ev by (auto simp: srv_inv_def r1_def spaced_snoc)
qed (auto simp: srv_inv_def ResolveNow_def Close_def run_early_def Let_def)

interpretation srv: reachable_invariant srv_step srv_inv srv_start
proof unfold_locales
  show "srv_inv r'" if "srv_inv r" "srv_step r r'" for r r' using srv_step_inv that by blast
  show "srv_inv r" if "srv_start r" for r
  proof -
    from that [unfolded srv_start_def] obtain Endpoint sc_err now b target where b: "Build Endpoint sc_err now b target = Inr r" "b_minGap b \<le> b_refresh b"
      by (elim exE conjE)
    then show ?thesis by (cases "recordName Endpoint target"; cases sc_err) (auto simp: srv_inv_def Build_def)
  qed
qed

text \<open>C35. What the resolver does, over any run of clock, callers and lookups: it never looks up twice within the
  minimum gap, however often \<open>ResolveNow\<close> is called or lookups fail; after a lookup the next is due within
  the refresh interval; and the connection is only ever given a nonempty, sorted list of distinct backends.\<close>

theorem srv_schedule:
  assumes "runs_from srv_start srv_step r"
  shows "spaced (r_minGap r) (lookups r)
    \<and> (lookups r \<noteq> [] \<longrightarrow> snd (last (lookups r)) + r_minGap r \<le> due r \<and> due r \<le> snd (last (lookups r)) + r_refresh r)
    \<and> (\<forall>eps. UpdateState eps \<in> set (told r) \<longrightarrow> eps \<noteq> [] \<and> sorted eps \<and> distinct eps)"
  using srv.reachable_I [OF assms] by (auto simp: srv_inv_def)

definition ex_srv :: srvResolver where
  "ex_srv = run_early (ResolveNow (run_timer (Inr [\<lparr>srv_Target = ''b.'', srv_Port = 2\<rparr>, \<lparr>srv_Target = ''a.'', srv_Port = 1\<rparr>]) 7 False
     (projr (Build url_Path None 100 NewSRVBuilder \<lparr>url_Scheme = ''srv'', url_Host = [], url_Opaque = [], url_Path = ''x'', url_String = ''srv:///x''\<rparr>))))"

theorem srv_schedule_witness:
  "due ex_srv = 107 + defaultMinGap \<and> told ex_srv = [UpdateState [''a:1'', ''b:2'']] \<and> spaced defaultMinGap (lookups ex_srv)"
proof -
  define u where "u = \<lparr>url_Scheme = ''srv'', url_Host = [], url_Opaque = [], url_Path = ''x'', url_String = ''srv:///x''\<rparr>"
  define r0 where "r0 = projr (Build url_Path None 100 NewSRVBuilder u)"
  have b: "Build url_Path None 100 NewSRVBuilder u = Inr r0" unfolding r0_def u_def by code_simp
  then have "srv_start r0" unfolding srv_start_def
    by (intro exI [of _ url_Path] exI [of _ None] exI [of _ 100] exI [of _ NewSRVBuilder] exI [of _ u])
       (simp add: NewSRVBuilder_def defaultRefresh_def defaultMinGap_def)
  then have run0: "runs_from srv_start srv_step r0" by (rule runs_from_start)
  define r1 where "r1 = run_timer (Inr [\<lparr>srv_Target = ''b.'', srv_Port = 2\<rparr>, \<lparr>srv_Target = ''a.'', srv_Port = 1\<rparr>]) 7 False r0"
  have "\<not> exited r0" "due r0 \<le> clock r0" unfolding r0_def u_def by code_simp+
  then have "srv_step r0 r1" unfolding r1_def by (rule srv_step.timer) simp
  from runs_from_step [OF runs_from_step [OF run0 this] srv_step.asks]
  have run2: "runs_from srv_start srv_step (ResolveNow r1)" .
  have "\<not> exited (ResolveNow r1)" "resolveNow (ResolveNow r1)" unfolding r1_def r0_def u_def by code_simp+
  from runs_from_step [OF run2 srv_step.early [OF this]]
  have "runs_from srv_start srv_step (run_early (ResolveNow r1))" .
  then have "spaced (r_minGap ex_srv) (lookups ex_srv)"
    using srv_schedule unfolding ex_srv_def r1_def r0_def u_def by blast
  moreover have "r_minGap ex_srv = defaultMinGap" "due ex_srv = 107 + defaultMinGap" "told ex_srv = [UpdateState [''a:1'', ''b:2'']]"
    by code_simp+
  ultimately show ?thesis by simp
qed

text \<open>Once closed, the resolver tells the connection nothing more, also when a lookup was under way.\<close>

lemma closed_silent: "srv_step\<^sup>*\<^sup>* r r' \<Longrightarrow> cancelled r \<Longrightarrow> cancelled r' \<and> told r' = told r"
proof (induction rule: rtranclp_induct)
  case (step r1 r2)
  then have c: "cancelled r1" "told r1 = told r" by simp_all
  from step(2) c show ?case
    by cases (auto simp: ResolveNow_def Close_def run_early_def run_timer_def resolve_def Let_def)
qed simp

text \<open>The endpoints of a record set: one per host and port, without those of a service that is not
  offered.\<close>

theorem srv_endpoints_exact:
  "sorted (srv_endpoints records) \<and> distinct (srv_endpoints records)
   \<and> set (srv_endpoints records) =
     {JoinHostPort (TrimSuffix (srv_Target rec) ''.'') (itoa (srv_Port rec)) | rec.
        rec \<in> set records \<and> TrimSuffix (srv_Target rec) ''.'' \<noteq> []}"
  using set_srv_endpoints by (simp add: srv_endpoints_def Let_def compact_sorted)

text \<open>The name a connection is verified under is the record's name without its leading underscore
  labels and trailing dot, or the whole name when nothing else is left.\<close>

lemma strip_labels_cases:
  "strip_labels name rest = name \<or> (strip_labels name rest \<noteq> [] \<and> \<not> HasPrefix (strip_labels name rest) ''_'' \<and> suffix (strip_labels name rest) rest)"
proof (induction name rest rule: strip_labels.induct)
  case (1 name rest)
  show ?case
  proof (cases "HasPrefix rest ''_''")
    case True
    obtain a b ok where cut: "CutChar rest (CHR ''.'') = (a, b, ok)" by (metis prod.exhaust)
    show ?thesis
    proof (cases ok)
      case ok: True
      then have "suffix b rest" using cut CutChar_Some by (fastforce simp: suffix_def)
      then show ?thesis using 1 [OF True cut [symmetric] refl] ok True cut
        by (simp del: strip_labels.simps add: strip_labels.simps [of name rest]) (blast intro: suffix_order.trans)
    qed (use True cut in simp)
  qed simp
qed

theorem OverrideAuthority_name:
  "OverrideAuthority name = name
   \<or> (OverrideAuthority name \<noteq> [] \<and> \<not> HasPrefix (OverrideAuthority name) ''_'' \<and> suffix (OverrideAuthority name) (TrimSuffix name ''.''))"
  unfolding OverrideAuthority_def by (rule strip_labels_cases)

end
