(* ===== verification/Config_Sections.thy ===== *)
theory Config_Sections
  imports Creds Auth Routing Bytesize Connect Srv
begin

text \<open>
  \<open>internal/config\<close>, the sections that describe servers and connections: \<open>listen.go\<close>, \<open>connection.go\<close>,
  \<open>health.go\<close>, \<open>extensions.go\<close>, \<open>http.go\<close>, \<open>codecserver.go\<close>, \<open>pprof.go\<close> and what \<open>auth.go\<close> has besides the
  authenticators. Each section is a record with its \<open>Validate\<close>; for each, the locale \<open>validator\<close> is
  interpreted with a predicate that says in terms of the values what the section accepts, and a
  parent's proof rests on the contracts of its children.

  What validation reads besides the configuration is the record \<open>config_env\<close>: the certificate files, the
  clock, the linked registry, \<open>url.Parse\<close>, gRPC's \<open>Target.Endpoint\<close> and \<open>text/template\<close>, which gives for
  a text whether it has no action, and its rendering. Durations are nanoseconds.
\<close>

record config_env =
  ce_x509 :: x509_env
  ce_files :: file_system
  ce_now :: int
  ce_registry :: "string \<Rightarrow> descriptor result"
  ce_url :: "string \<Rightarrow> URL result"
  ce_Endpoint :: "URL \<Rightarrow> string"
  ce_template :: "string \<Rightarrow> (bool \<times> (UpstreamContext \<Rightarrow> string result)) result"

text \<open>\<open>cmp.Or\<close> of two values.\<close>

definition cmp_Or :: "'a \<Rightarrow> 'a \<Rightarrow> 'a \<Rightarrow> 'a" where
  "cmp_Or zero a b = (if a \<noteq> zero then a else b)"

section \<open>listen.go\<close>

record tlsConfig =
  t_CA :: string
  t_Cert :: string
  t_Key :: string
  t_ServerName :: string

record ListenConfig =
  l_HostPort :: string
  l_Insecure :: bool
  l_TLS :: "tlsConfig option"

definition credsOptions :: "tlsConfig option \<Rightarrow> option_fn list" where
  "credsOptions tls =
     (case tls of
        None \<Rightarrow> []
      | Some t \<Rightarrow>
          (if t_CA t \<noteq> [] then [WithCA (t_CA t)] else [])
          @ (if t_Cert t \<noteq> [] \<or> t_Key t \<noteq> [] then [WithCertificate (t_Cert t) (t_Key t)] else []))"

definition tls_listener :: "tlsConfig option \<Rightarrow> option_fn list \<Rightarrow> creds_world \<Rightarrow> credential \<times> creds_world" where
  "tls_listener tls opts w =
     (if tls = None then NewListener (Insecure # opts) w else NewListener (credsOptions tls @ opts) w)"

definition tls_dialer :: "tlsConfig option \<Rightarrow> option_fn list \<Rightarrow> creds_world \<Rightarrow> credential \<times> creds_world" where
  "tls_dialer tls opts w = NewDialer (credsOptions tls @ opts) w"

definition ListenConfig_Listener :: "ListenConfig \<Rightarrow> option_fn list \<Rightarrow> creds_world \<Rightarrow> credential \<times> creds_world" where
  "ListenConfig_Listener l opts w =
     (if l_Insecure l then NewListener (Insecure # opts) w else tls_listener (l_TLS l) opts w)"

definition ListenConfig_Dialer :: "ListenConfig \<Rightarrow> option_fn list \<Rightarrow> creds_world \<Rightarrow> credential \<times> creds_world" where
  "ListenConfig_Dialer l opts w =
     (if l_Insecure l then NewDialer (Insecure # opts) w else tls_dialer (l_TLS l) opts w)"

text \<open>The two checks make a credential of their own and validate it; no reloader knows it.\<close>

definition tlsConfig_Validate :: "config_env \<Rightarrow> tlsConfig \<Rightarrow> verr option" where
  "tlsConfig_Validate E t =
     Listener_Validate (ce_x509 E) (ce_files E) (ce_now E) (fst (tls_listener (Some t) [] NewReloader))"

definition validateOutbound :: "config_env \<Rightarrow> tlsConfig \<Rightarrow> Rule" where
  "validateOutbound E t =
     Nested ''tls'' (Dialer_Validate (ce_x509 E) (ce_files E) (ce_now E) (fst (tls_dialer (Some t) [] NewReloader)))"

definition insecureRule :: "ListenConfig \<Rightarrow> Rule" where
  "insecureRule l =
     WhenRules (l_Insecure l \<and> l_TLS l \<noteq> None)
       [[\<lparr>Subject = [], Field = ''insecure'', VMessage = ''cannot be set together with tls''\<rparr>]]"

text \<open>The rule for a TLS block that may be absent.\<close>

definition when_tls :: "ListenConfig \<Rightarrow> (tlsConfig \<Rightarrow> Rule) \<Rightarrow> Rule" where
  "when_tls l rule = (case l_TLS l of None \<Rightarrow> WhenRules False [] | Some t \<Rightarrow> WhenRules True [rule t])"

definition ListenConfig_Validate :: "config_env \<Rightarrow> ListenConfig \<Rightarrow> verr option" where
  "ListenConfig_Validate E l =
     Validate []
       [FieldRule ''hostPort'' (l_HostPort l) [IsHostPort],
        when_tls l (\<lambda>t. Nested ''tls'' (tlsConfig_Validate E t)),
        insecureRule l]"

section \<open>connection.go\<close>

definition defaultMaxResponseSize :: ByteSize where "defaultMaxResponseSize = 134217728"
definition defaultKeepAliveTime :: int where "defaultKeepAliveTime = 30 * 10 ^ 9"
definition defaultKeepAliveTimeout :: int where "defaultKeepAliveTimeout = 15 * 10 ^ 9"
definition defaultMaxConnections :: int where "defaultMaxConnections = 32"
definition defaultTemplatedMaxConnections :: int where "defaultTemplatedMaxConnections = 32"
definition maxResponseSizeLimit :: ByteSize where "maxResponseSizeLimit = 2147483648"
definition maxConnectionsLimit :: int where "maxConnectionsLimit = 65"
definition minKeepAliveTime :: int where "minKeepAliveTime = 10 * 10 ^ 9"

record KeepAliveConfig =
  ka_Time :: int
  ka_Timeout :: int

record ConnectionConfig =
  cn_MaxResponseSize :: ByteSize
  cn_MaxConnections :: int
  cn_KeepAlive :: KeepAliveConfig

definition ResponseLimit :: "ConnectionConfig \<Rightarrow> ByteSize" where
  "ResponseLimit c = cmp_Or 0 (cn_MaxResponseSize c) defaultMaxResponseSize"

definition PoolSize :: "bool \<Rightarrow> ConnectionConfig \<Rightarrow> int" where
  "PoolSize templated c =
     (if templated then cmp_Or 0 (cn_MaxConnections c) defaultTemplatedMaxConnections
      else cmp_Or 0 (cn_MaxConnections c) defaultMaxConnections)"

definition PingTime :: "KeepAliveConfig \<Rightarrow> int" where
  "PingTime k = cmp_Or 0 (ka_Time k) defaultKeepAliveTime"

definition PingTimeout :: "KeepAliveConfig \<Rightarrow> int" where
  "PingTimeout k = cmp_Or 0 (ka_Timeout k) defaultKeepAliveTimeout"

definition KeepAliveConfig_Validate :: "KeepAliveConfig \<Rightarrow> verr option" where
  "KeepAliveConfig_Validate k =
     Validate [] [FieldRule ''time'' (PingTime k) [GTE minKeepAliveTime], FieldRule ''timeout'' (PingTimeout k) [GT 0]]"

text \<open>Sizes are compared as signed 64-bit numbers.\<close>

definition ConnectionConfig_Validate :: "ConnectionConfig \<Rightarrow> verr option" where
  "ConnectionConfig_Validate c =
     Validate []
       [FieldRule ''maxResponseSize'' (sint (ResponseLimit c)) [GT 0, LT (sint maxResponseSizeLimit)],
        FieldRule ''maxConnections'' (PoolSize False c) [GT 0, LT maxConnectionsLimit],
        Nested ''keepAlive'' (KeepAliveConfig_Validate (cn_KeepAlive c))]"

section \<open>health.go\<close>

definition defaultHealthInterval :: int where "defaultHealthInterval = 30 * 10 ^ 9"
definition defaultHealthTimeout :: int where "defaultHealthTimeout = 5 * 10 ^ 9"

record Health =
  h_Interval :: int
  h_Timeout :: int

definition CheckInterval :: "Health \<Rightarrow> int" where
  "CheckInterval h = cmp_Or 0 (h_Interval h) defaultHealthInterval"

definition CheckTimeout :: "Health \<Rightarrow> int" where
  "CheckTimeout h = cmp_Or 0 (h_Timeout h) defaultHealthTimeout"

definition Health_Validate :: "Health \<Rightarrow> verr option" where
  "Health_Validate h =
     Validate []
       [FieldRule ''interval'' (CheckInterval h) [GT 0],
        FieldRule ''timeout'' (CheckTimeout h) [GT 0, WhenFn (CheckInterval h > 0) [LT (CheckInterval h)]]]"

section \<open>auth.go: credentials and references\<close>

record StaticCredentialConfig =
  sc_APIKey :: string
  sc_Header :: string
  sc_Scheme :: string

record CredentialConfig =
  cc_Static :: "StaticCredentialConfig option"

definition StaticCredentialConfig_Validate :: "StaticCredentialConfig \<Rightarrow> verr option" where
  "StaticCredentialConfig_Validate c = Validate [] [FieldRule ''apiKey'' (sc_APIKey c) [Required []]]"

definition CredentialConfig_Validate :: "CredentialConfig \<Rightarrow> verr option" where
  "CredentialConfig_Validate c =
     Validate []
       [if cc_Static c = None then [\<lparr>Subject = [], Field = ''static'', VMessage = ''is required''\<rparr>] else [],
        (case cc_Static c of None \<Rightarrow> [] | Some s \<Rightarrow> WhenRules True [Nested ''static'' (StaticCredentialConfig_Validate s)])]"

definition auth_referentialRules :: "string \<Rightarrow> string list \<Rightarrow> AuthConfig option \<Rightarrow> Rule list" where
  "auth_referentialRules subject known a =
     (case Option.bind a External of
        None \<Rightarrow> []
      | Some ext \<Rightarrow>
          (if ec_Name ext = [] then []
           else [if List.member known (ec_Name ext) then []
                 else [\<lparr>Subject = subject, Field = ''name'', VMessage = ''unknown extension server: '' @ ec_Name ext\<rparr>]]))"

text \<open>\<open>AuthConfig.Validate\<close> and \<open>url.Parse\<close> of this configuration.\<close>

definition auth_Validate :: "config_env \<Rightarrow> AuthConfig \<Rightarrow> verr option" where
  "auth_Validate E = AuthConfig_Validate (\<lambda>s. map_sum id (\<lambda>u. (url_Scheme u, url_Host u)) (ce_url E s))"

section \<open>extensions.go\<close>

record ExtensionServer =
  es_Name :: string
  es_Listen :: ListenConfig
  es_Credentials :: "CredentialConfig option"

text \<open>\<open>isTemplated\<close> of \<open>upstream.go\<close>.\<close>

definition isTemplated :: "string \<Rightarrow> bool" where
  "isTemplated s \<longleftrightarrow> Contains s ''{{'' \<and> Contains s ''}}''"

definition isLiteralHostPort :: "string Check" where
  "isLiteralHostPort s =
     (if isTemplated s then Some (Plain ''must be a literal host:port; templates are not resolved for extension servers'')
      else IsHostPort s)"

text \<open>The rules on optional credentials that extension servers and upstreams share.\<close>

definition credential_rules :: "string \<Rightarrow> CredentialConfig option \<Rightarrow> ListenConfig \<Rightarrow> Rule list" where
  "credential_rules msg cc l =
     [case cc of None \<Rightarrow> WhenRules False [] | Some c \<Rightarrow> WhenRules True [Nested ''credentials'' (CredentialConfig_Validate c)],
      WhenRules (cc \<noteq> None \<and> l_Insecure l) [[\<lparr>Subject = [], Field = ''credentials'', VMessage = msg\<rparr>]]]"

definition ExtensionServer_Validate :: "config_env \<Rightarrow> ExtensionServer \<Rightarrow> verr option" where
  "ExtensionServer_Validate E s =
     Validate []
       ([FieldRule ''name'' (es_Name s) [Required []],
         FieldRule ''hostPort'' (l_HostPort (es_Listen s)) [isLiteralHostPort],
         when_tls (es_Listen s) (validateOutbound E)]
        @ credential_rules ''requires TLS to the extension server'' (es_Credentials s) (es_Listen s)
        @ [insecureRule (es_Listen s)])"

definition ExtensionServerList_Validate :: "config_env \<Rightarrow> ExtensionServer list \<Rightarrow> verr option" where
  "ExtensionServerList_Validate E sl =
     Validate []
       [FieldRule ''[name]'' (map es_Name sl) [Unique],
        FieldRule ''[hostPort]'' (map (\<lambda>s. l_HostPort (es_Listen s)) sl) [Unique],
        Children [] sl (ExtensionServer_Validate E)]"

section \<open>http.go, codecserver.go and pprof.go\<close>

record CORSConfig =
  Origins :: "string list"
  CORS_Credentials :: bool

record CodecServer =
  cs_Enabled :: bool
  cs_CORS :: CORSConfig
  cs_Auth :: "AuthConfig option"

record PProf =
  pp_Enabled :: bool
  pp_Auth :: "AuthConfig option"

record HTTP =
  http_Listen :: ListenConfig
  http_CodecServer :: CodecServer
  http_PProf :: PProf

definition CodecServer_Validate :: "config_env \<Rightarrow> CodecServer \<Rightarrow> verr option" where
  "CodecServer_Validate E c =
     (if \<not> cs_Enabled c then None
      else Validate []
        [WhenRules (CORS_Credentials (cs_CORS c) \<and> Origins (cs_CORS c) = [])
           [[\<lparr>Subject = ''cors'', Field = ''origins'', VMessage = ''origins is required when credentials is enabled''\<rparr>]],
         WhenRules (List.member (Origins (cs_CORS c)) ''*'')
           [[\<lparr>Subject = ''cors'', Field = ''origins'', VMessage = ''must not contain *; list the real origins allowed to reach this codec server''\<rparr>]],
         (case cs_Auth c of None \<Rightarrow> WhenRules False [] | Some a \<Rightarrow> WhenNested True ''auth'' (auth_Validate E a))])"

definition PProf_Validate :: "config_env \<Rightarrow> PProf \<Rightarrow> verr option" where
  "PProf_Validate E p =
     (if \<not> pp_Enabled p then None
      else Validate [] [case pp_Auth p of None \<Rightarrow> WhenRules False [] | Some a \<Rightarrow> WhenNested True ''auth'' (auth_Validate E a)])"

text \<open>A route group as the interface \<open>routeGroup\<close> shows it, with its name.\<close>

record namedGroup =
  g_name :: string
  g_Validate :: "verr option"
  g_enabled :: bool
  g_authConfig :: "AuthConfig option"

definition http_groups :: "config_env \<Rightarrow> HTTP \<Rightarrow> namedGroup list" where
  "http_groups E h =
     [\<lparr>g_name = ''codecServer'', g_Validate = CodecServer_Validate E (http_CodecServer h),
       g_enabled = cs_Enabled (http_CodecServer h), g_authConfig = cs_Auth (http_CodecServer h)\<rparr>,
      \<lparr>g_name = ''pprof'', g_Validate = PProf_Validate E (http_PProf h),
       g_enabled = pp_Enabled (http_PProf h), g_authConfig = pp_Auth (http_PProf h)\<rparr>]"

subsection \<open>Addresses\<close>

text \<open>\<open>net.ParseIP\<close>, to the bytes of the address: four decimal fields without leading zeros, or eight
  groups of at most four hexadecimal digits, one run of zero groups left out and the last two written
  as an IPv4 address if need be; no zone.\<close>

definition ipv4_field :: "string \<Rightarrow> nat option" where
  "ipv4_field s =
     (if s = [] \<or> \<not> list_all isDigit s \<or> (length s > 1 \<and> hd s = CHR ''0'') then None
      else case parseDigits s of Some n \<Rightarrow> if n \<le> 255 then Some n else None | None \<Rightarrow> None)"

definition parse_ipv4 :: "string \<Rightarrow> nat list option" where
  "parse_ipv4 s =
     (let fs = map ipv4_field (SplitChar s (CHR ''.''))
      in if length fs = 4 \<and> None \<notin> set fs then Some (map the fs) else None)"

definition hex_val :: "char \<Rightarrow> nat option" where
  "hex_val c =
     (let n = of_char c :: nat
      in if 48 \<le> n \<and> n \<le> 57 then Some (n - 48)
         else if 97 \<le> n \<and> n \<le> 102 then Some (n - 87)
         else if 65 \<le> n \<and> n \<le> 70 then Some (n - 55) else None)"

text \<open>The loop over the groups, on what is left, the bytes so far and the place of the zero run; a round
  adds two bytes, so eight rounds are enough.\<close>

fun ipv6_loop :: "nat \<Rightarrow> string \<Rightarrow> nat list \<Rightarrow> nat option \<Rightarrow> (string \<times> nat list \<times> nat option) option" where
  "ipv6_loop 0 s ip ellipsis = Some (s, ip, ellipsis)"
| "ipv6_loop (Suc n) s ip ellipsis =
     (let digits = takeWhile (\<lambda>c. hex_val c \<noteq> None) s; rest = drop (length digits) s
      in if digits = [] \<or> length digits > 4 then None
         else if HasPrefix rest ''.''
         then (if (ellipsis = None \<and> length ip \<noteq> 12) \<or> length ip > 12 then None
               else case parse_ipv4 s of None \<Rightarrow> None | Some ip4 \<Rightarrow> Some ([], ip @ ip4, ellipsis))
         else let acc = foldl (\<lambda>a c. 16 * a + the (hex_val c)) 0 digits; ip = ip @ [acc div 256, acc mod 256]
              in if rest = [] then Some ([], ip, ellipsis)
                 else if hd rest \<noteq> CHR '':'' \<or> length rest = 1 then None
                 else if HasPrefix (tl rest) '':''
                 then (if ellipsis \<noteq> None then None
                       else if drop 2 rest = [] then Some ([], ip, Some (length ip))
                       else ipv6_loop n (drop 2 rest) ip (Some (length ip)))
                 else ipv6_loop n (tl rest) ip ellipsis)"

definition parse_ipv6 :: "string \<Rightarrow> nat list option" where
  "parse_ipv6 s0 =
     (let (s, ellipsis) = (if HasPrefix s0 ''::'' then (drop 2 s0, Some 0) else (s0, None))
      in if ellipsis \<noteq> None \<and> s = [] then Some (replicate 16 0)
         else case ipv6_loop 8 s [] ellipsis of
           None \<Rightarrow> None
         | Some (rest, ip, ellipsis) \<Rightarrow>
             (if rest \<noteq> [] then None
              else if length ip < 16
              then (case ellipsis of
                      None \<Rightarrow> None
                    | Some e \<Rightarrow> Some (take e ip @ replicate (16 - length ip) 0 @ drop e ip))
              else if ellipsis \<noteq> None then None else Some ip))"

definition ParseIP :: "string \<Rightarrow> nat list option" where
  "ParseIP s =
     (case List.find (\<lambda>c. c \<in> set ''.:%'') s of
        None \<Rightarrow> None
      | Some c \<Rightarrow> if c = CHR ''.'' then parse_ipv4 s
                 else if c = CHR '':'' \<and> CHR ''%'' \<notin> set s then parse_ipv6 s else None)"

text \<open>\<open>IP.IsLoopback\<close>: \<open>127.0.0.0/8\<close>, also as an IPv4-mapped address, and \<open>::1\<close>.\<close>

definition IP_IsLoopback :: "nat list \<Rightarrow> bool" where
  "IP_IsLoopback ip \<longleftrightarrow>
     (length ip = 4 \<and> ip ! 0 = 127)
     \<or> (length ip = 16 \<and> take 12 ip = replicate 10 0 @ [255, 255] \<and> ip ! 12 = 127)
     \<or> ip = replicate 15 0 @ [1]"

definition isLoopback :: "string \<Rightarrow> bool" where
  "isLoopback hostPort =
     (case SplitHostPort hostPort of
        None \<Rightarrow> False
      | Some (host, _) \<Rightarrow>
          (if host = [] then False
           else if host = ''localhost'' then True
           else case ParseIP host of None \<Rightarrow> False | Some ip \<Rightarrow> IP_IsLoopback ip))"

definition validateGroups :: "config_env \<Rightarrow> ListenConfig \<Rightarrow> namedGroup list \<Rightarrow> verr option" where
  "validateGroups E listen groups =
     (let enabled = filter g_enabled groups;
          authed = list_ex (\<lambda>g. g_authConfig g \<noteq> None) enabled
      in if enabled = [] then None
         else let loopback = isLoopback (l_HostPort listen)
              in Validate []
                   ([FieldRule ''hostPort'' (l_HostPort listen) [Required [], IsHostPort]]
                    @ map (\<lambda>g. WhenRules (\<not> loopback \<and> g_authConfig g = None)
                        [[\<lparr>Subject = g_name g, Field = ''auth'', VMessage = ''auth is required unless hostPort is loopback''\<rparr>]]) enabled
                    @ [WhenRules (\<not> loopback \<and> authed \<and> l_TLS listen = None)
                        [[\<lparr>Subject = [], Field = ''tls'', VMessage = ''tls is required when auth is configured and hostPort is not loopback''\<rparr>]]]
                    @ map (\<lambda>g. Nested (g_name g) (g_Validate g)) enabled
                    @ [when_tls listen (\<lambda>t. Nested ''tls'' (tlsConfig_Validate E t)), insecureRule listen]))"

definition HTTP_Validate :: "config_env \<Rightarrow> HTTP \<Rightarrow> verr option" where
  "HTTP_Validate E h = validateGroups E (http_Listen h) (http_groups E h)"

definition HTTP_referentialRules :: "config_env \<Rightarrow> string list \<Rightarrow> HTTP \<Rightarrow> Rule list" where
  "HTTP_referentialRules E known h =
     concat (map (\<lambda>g. if g_enabled g then auth_referentialRules (''http.'' @ g_name g @ ''.auth.external'') known (g_authConfig g) else [])
       (http_groups E h))"

section \<open>What the sections accept\<close>

lemma validateBytes_honest [simp]: "honest (validateBytes x now mode f)"
  by (simp add: validateBytes_def split: Mode.split)

lemma validateMaterial_honest [simp]: "honest (validateMaterial x fs now o1 mode)"
proof (cases "readFiles fs o1 mode")
  case (Inl err)
  then show ?thesis by (auto simp: readFiles_def honest_def validateMaterial_def Let_def toErrors_def split: if_splits prod.splits)
qed (simp add: validateMaterial_def)

lemma creds_honest [simp]: "honest (Listener_Validate x fs now l)" "honest (Dialer_Validate x fs now l)"
  by (auto simp: Listener_Validate_def Dialer_Validate_def validateServer_def validateClient_def errKeyAndCertRequired_def split: option.split)

text \<open>The options of a TLS block.\<close>

lemma credsOptions_fields:
  "newOptions (credsOptions (Some t)) =
     \<lparr>insecure = False, o_ca = t_CA t, o_cert = t_Cert t, o_key = t_Key t, o_reloader = False, o_credential = []\<rparr>"
  by (simp add: newOptions_def credsOptions_def WithCA_def WithCertificate_def)

text \<open>A TLS block a listener accepts has a certificate and its key; one a dialer accepts has both or neither,
  and a CA when it has a certificate. The files the block names are valid in the mode they give.\<close>

definition files_ok :: "config_env \<Rightarrow> Mode \<Rightarrow> tlsConfig \<Rightarrow> bool" where
  "files_ok E mode t \<longleftrightarrow> validateMaterial (ce_x509 E) (ce_files E) (ce_now E) (newOptions (credsOptions (Some t))) mode = None"

definition inbound_ok :: "config_env \<Rightarrow> tlsConfig \<Rightarrow> bool" where
  "inbound_ok E t \<longleftrightarrow> t_Cert t \<noteq> [] \<and> t_Key t \<noteq> [] \<and> files_ok E (if t_CA t = [] then ModeServerTLS else ModeMutualTLS) t"

definition outbound_ok :: "config_env \<Rightarrow> tlsConfig \<Rightarrow> bool" where
  "outbound_ok E t \<longleftrightarrow> (t_Cert t = []) = (t_Key t = []) \<and> (t_Cert t \<noteq> [] \<longrightarrow> t_CA t \<noteq> [])
     \<and> files_ok E (if t_Cert t \<noteq> [] then ModeMutualTLS else if t_CA t \<noteq> [] then ModeCustomCA else ModeSystemTLS) t"

interpretation tls_in: validator "tlsConfig_Validate E" "inbound_ok E" for E
proof unfold_locales
  fix t
  show "honest (tlsConfig_Validate E t)" by (simp add: tlsConfig_Validate_def)
  have "fst (tls_listener (Some t) [] NewReloader) = \<lparr>cr_opts = newOptions (credsOptions (Some t)),
      cr_mode = resolveServer (newOptions (credsOptions (Some t))), cr_material = 0\<rparr>"
    by (simp add: tls_listener_def NewListener_def Let_def newMaterial_def NewReloader_def credsOptions_fields)
  then show "tlsConfig_Validate E t = None \<longleftrightarrow> inbound_ok E t"
    by (auto simp: tlsConfig_Validate_def Listener_Validate_def inbound_ok_def files_ok_def validateServer_def resolveServer_def credsOptions_fields)
qed

lemma validateOutbound_Nil [simp]: "validateOutbound E t = [] \<longleftrightarrow> outbound_ok E t"
proof -
  have "fst (tls_dialer (Some t) [] NewReloader) = \<lparr>cr_opts = newOptions (credsOptions (Some t)),
      cr_mode = resolveClient (newOptions (credsOptions (Some t))), cr_material = 0\<rparr>"
    by (simp add: tls_dialer_def NewDialer_def Let_def newMaterial_def NewReloader_def credsOptions_fields)
  then show ?thesis
    by (auto simp: validateOutbound_def Nested_Nil Dialer_Validate_def outbound_ok_def files_ok_def validateClient_def resolveClient_def credsOptions_fields
        errKeyAndCertRequired_def)
qed

lemma when_tls_Nil [simp]: "when_tls l rule = [] \<longleftrightarrow> pred_option (\<lambda>t. rule t = []) (l_TLS l)"
  by (simp add: when_tls_def pred_option_def split: option.split)

text \<open>Plaintext is asked for without a TLS block.\<close>

definition plain_ok :: "ListenConfig \<Rightarrow> bool" where
  "plain_ok l \<longleftrightarrow> \<not> (l_Insecure l \<and> l_TLS l \<noteq> None)"

lemma insecureRule_Nil [simp]: "insecureRule l = [] \<longleftrightarrow> plain_ok l"
  by (auto simp: insecureRule_def plain_ok_def)

definition listen_ok :: "config_env \<Rightarrow> ListenConfig \<Rightarrow> bool" where
  "listen_ok E l \<longleftrightarrow> IsHostPort (l_HostPort l) = None \<and> pred_option (inbound_ok E) (l_TLS l) \<and> plain_ok l"

interpretation listen: validator "ListenConfig_Validate E" "listen_ok E" for E
  by unfold_locales (simp_all add: ListenConfig_Validate_def listen_ok_def tls_in.nested_valid)

definition connection_ok :: "ConnectionConfig \<Rightarrow> bool" where
  "connection_ok c \<longleftrightarrow> 0 < sint (ResponseLimit c) \<and> sint (ResponseLimit c) < 2 ^ 31
     \<and> 1 \<le> PoolSize False c \<and> PoolSize False c \<le> 64
     \<and> minKeepAliveTime \<le> PingTime (cn_KeepAlive c) \<and> 0 < PingTimeout (cn_KeepAlive c)"

interpretation keepAlive: validator KeepAliveConfig_Validate "\<lambda>k. minKeepAliveTime \<le> PingTime k \<and> 0 < PingTimeout k"
  by unfold_locales (simp_all add: KeepAliveConfig_Validate_def)

interpretation connection: validator ConnectionConfig_Validate connection_ok
  by unfold_locales
    (auto simp: ConnectionConfig_Validate_def connection_ok_def keepAlive.nested_valid maxResponseSizeLimit_def maxConnectionsLimit_def)

interpretation health: validator Health_Validate
  "\<lambda>h. 0 < CheckTimeout h \<and> CheckTimeout h < CheckInterval h"
proof unfold_locales
  fix h
  show "honest (Health_Validate h)" by (simp add: Health_Validate_def)
  show "Health_Validate h = None \<longleftrightarrow> 0 < CheckTimeout h \<and> CheckTimeout h < CheckInterval h"
    using When_None [of "[LT (CheckInterval h)]" "CheckTimeout h" "\<lambda>_. True"] When_None [of "[LT (CheckInterval h)]" "CheckTimeout h" "\<lambda>_. False"]
    by (auto simp: Health_Validate_def WhenFn_def)
qed

interpretation credential: validator CredentialConfig_Validate
  "\<lambda>c. \<exists>s. cc_Static c = Some s \<and> sc_APIKey s \<noteq> []"
  by unfold_locales (auto simp: CredentialConfig_Validate_def StaticCredentialConfig_Validate_def Nested_Nil split: option.split)

lemma credential_rules_Nil [simp]:
  "(\<forall>r\<in>set (credential_rules msg cc l). r = []) \<longleftrightarrow>
     pred_option (\<lambda>c. \<exists>s. cc_Static c = Some s \<and> sc_APIKey s \<noteq> []) cc \<and> \<not> (cc \<noteq> None \<and> l_Insecure l)"
  by (cases cc) (auto simp: credential_rules_def credential.nested_valid)

definition extension_ok :: "config_env \<Rightarrow> ExtensionServer \<Rightarrow> bool" where
  "extension_ok E s \<longleftrightarrow> es_Name s \<noteq> [] \<and> \<not> isTemplated (l_HostPort (es_Listen s)) \<and> IsHostPort (l_HostPort (es_Listen s)) = None
     \<and> pred_option (outbound_ok E) (l_TLS (es_Listen s)) \<and> plain_ok (es_Listen s)
     \<and> pred_option (\<lambda>c. \<exists>k. cc_Static c = Some k \<and> sc_APIKey k \<noteq> []) (es_Credentials s)
     \<and> \<not> (es_Credentials s \<noteq> None \<and> l_Insecure (es_Listen s))"

lemma isLiteralHostPort_simps [simp]:
  "honest (isLiteralHostPort s)" "isLiteralHostPort s = None \<longleftrightarrow> \<not> isTemplated s \<and> IsHostPort s = None"
  by (simp_all add: isLiteralHostPort_def)

interpretation extension: validator "ExtensionServer_Validate E" "extension_ok E" for E
proof unfold_locales
  fix s
  show "honest (ExtensionServer_Validate E s)" by (simp add: ExtensionServer_Validate_def)
  show "ExtensionServer_Validate E s = None \<longleftrightarrow> extension_ok E s"
    unfolding ExtensionServer_Validate_def Validate_None set_append ball_Un credential_rules_Nil
    by (auto simp: extension_ok_def)
qed

interpretation extensions: validator "ExtensionServerList_Validate E"
  "\<lambda>sl. distinct (map es_Name sl) \<and> distinct (map (\<lambda>s. l_HostPort (es_Listen s)) sl) \<and> list_all (extension_ok E) sl" for E
  by unfold_locales (simp_all add: ExtensionServerList_Validate_def extension.children_valid)

text \<open>An authenticator is chosen exactly once and configured.\<close>

definition auth_ok :: "config_env \<Rightarrow> AuthConfig \<Rightarrow> bool" where
  "auth_ok E a \<longleftrightarrow>
     (case (External a, StaticToken a, JWKS a) of
        (Some ext, None, None) \<Rightarrow> ec_Name ext \<noteq> []
      | (None, Some st, None) \<Rightarrow> stc_Token st \<noteq> []
      | (None, None, Some j) \<Rightarrow> (\<exists>u. ce_url E (jc_URL j) = Inr u \<and> url_Host u \<noteq> [] \<and> url_Scheme u = ''https'') \<and> jc_URL j \<noteq> []
      | _ \<Rightarrow> False)"

interpretation jwks_config: validator "JWKSConfig_Validate p"
  "\<lambda>c. jc_URL c \<noteq> [] \<and> (\<exists>host. p (jc_URL c) = Inr (''https'', host) \<and> host \<noteq> [])" for p
proof unfold_locales
  fix c
  define chk where "chk = (\<lambda>s. case p s of Inl _ \<Rightarrow> Some (Plain ''must be a valid absolute URL'')
            | Inr (scheme, host) \<Rightarrow> (if host = [] then Some (Plain ''must be a valid absolute URL'')
                 else if scheme \<noteq> ''https'' then Some (Plain ''must use https'') else None))"
  have h [simp]: "honest (chk s)" for s by (simp add: chk_def split: sum.split prod.split)
  show "honest (JWKSConfig_Validate p c)" by (simp add: JWKSConfig_Validate_def)
  have "JWKSConfig_Validate p c = None \<longleftrightarrow> jc_URL c \<noteq> [] \<and> chk (jc_URL c) = None"
    unfolding JWKSConfig_Validate_def chk_def [symmetric] by simp
  then show "JWKSConfig_Validate p c = None \<longleftrightarrow> jc_URL c \<noteq> [] \<and> (\<exists>host. p (jc_URL c) = Inr (''https'', host) \<and> host \<noteq> [])"
    by (auto simp: chk_def split: sum.splits prod.splits if_splits)
qed

interpretation auth: validator "auth_Validate E" "auth_ok E" for E
proof unfold_locales
  fix a
  show "honest (auth_Validate E a)" by (simp add: auth_Validate_def AuthConfig_Validate_def Let_def)
  have st: "StaticTokenConfig_Validate c = None \<longleftrightarrow> stc_Token c \<noteq> []" "honest (StaticTokenConfig_Validate c)"
    "ExternalAuthConfig_Validate e = None \<longleftrightarrow> ec_Name e \<noteq> []" "honest (ExternalAuthConfig_Validate e)" for c e
    by (simp_all add: StaticTokenConfig_Validate_def ExternalAuthConfig_Validate_def)
  have url: "(\<exists>host. map_sum id (\<lambda>u. (url_Scheme u, url_Host u)) (ce_url E s) = Inr (''https'', host) \<and> host \<noteq> [])
      \<longleftrightarrow> (\<exists>u. ce_url E s = Inr u \<and> url_Host u \<noteq> [] \<and> url_Scheme u = ''https'')" for s
    by (cases "ce_url E s") auto
  show "auth_Validate E a = None \<longleftrightarrow> auth_ok E a"
    by (cases "External a"; cases "StaticToken a"; cases "JWKS a")
      (simp_all add: auth_Validate_def AuthConfig_Validate_def auth_ok_def Let_def Nested_Nil st jwks_config.nested_valid url conj_comms(1) [of "jc_URL _ \<noteq> []"])
qed

lemma auth_referentialRules_Nil:
  "(\<forall>r\<in>set (auth_referentialRules subject known a). r = []) \<longleftrightarrow>
     (\<forall>ext. Option.bind a External = Some ext \<longrightarrow> ec_Name ext \<noteq> [] \<longrightarrow> ec_Name ext \<in> set known)"
  by (cases "Option.bind a External") (auto simp: auth_referentialRules_def)

text \<open>A route group: on, its callers authenticated or the listener on loopback; CORS names its origins.\<close>

definition codec_server_ok :: "config_env \<Rightarrow> CodecServer \<Rightarrow> bool" where
  "codec_server_ok E c \<longleftrightarrow> (cs_Enabled c \<longrightarrow> (CORS_Credentials (cs_CORS c) \<longrightarrow> Origins (cs_CORS c) \<noteq> [])
     \<and> ''*'' \<notin> set (Origins (cs_CORS c)) \<and> pred_option (auth_ok E) (cs_Auth c))"

interpretation codec_server: validator "CodecServer_Validate E" "codec_server_ok E" for E
  by unfold_locales
    (auto simp: CodecServer_Validate_def codec_server_ok_def WhenNested_def auth.nested_valid pred_option_def split: option.split)

interpretation pprof: validator "PProf_Validate E" "\<lambda>p. pp_Enabled p \<longrightarrow> pred_option (auth_ok E) (pp_Auth p)" for E
  by unfold_locales (auto simp: PProf_Validate_def WhenNested_def auth.nested_valid pred_option_def split: option.split)

definition served_auths :: "HTTP \<Rightarrow> AuthConfig option set" where
  "served_auths h = (if cs_Enabled (http_CodecServer h) then {cs_Auth (http_CodecServer h)} else {})
     \<union> (if pp_Enabled (http_PProf h) then {pp_Auth (http_PProf h)} else {})"

definition http_ok :: "config_env \<Rightarrow> HTTP \<Rightarrow> bool" where
  "http_ok E h \<longleftrightarrow> (served_auths h \<noteq> {} \<longrightarrow>
     l_HostPort (http_Listen h) \<noteq> [] \<and> listen_ok E (http_Listen h)
     \<and> codec_server_ok E (http_CodecServer h) \<and> (pp_Enabled (http_PProf h) \<longrightarrow> pred_option (auth_ok E) (pp_Auth (http_PProf h)))
     \<and> (\<not> isLoopback (l_HostPort (http_Listen h)) \<longrightarrow> None \<notin> served_auths h \<and> l_TLS (http_Listen h) \<noteq> None))"

interpretation http: validator "HTTP_Validate E" "http_ok E" for E
proof unfold_locales
  fix h
  show "honest (HTTP_Validate E h)" by (auto simp: HTTP_Validate_def validateGroups_def Let_def)
  show "HTTP_Validate E h = None \<longleftrightarrow> http_ok E h"
    by (cases "cs_Enabled (http_CodecServer h)"; cases "pp_Enabled (http_PProf h)")
      (auto simp: HTTP_Validate_def validateGroups_def http_groups_def http_ok_def served_auths_def Let_def
        codec_server.nested_valid pprof.nested_valid tls_in.nested_valid listen_ok_def codec_server_ok_def)
qed

lemma HTTP_referentialRules_Nil:
  "(\<forall>r\<in>set (HTTP_referentialRules E known h). r = []) \<longleftrightarrow>
     (\<forall>a\<in>served_auths h. \<forall>ext. Option.bind a External = Some ext \<longrightarrow> ec_Name ext \<noteq> [] \<longrightarrow> ec_Name ext \<in> set known)"
proof -
  have "set (HTTP_referentialRules E known h) =
      (if cs_Enabled (http_CodecServer h) then set (auth_referentialRules ''http.codecServer.auth.external'' known (cs_Auth (http_CodecServer h))) else {})
      \<union> (if pp_Enabled (http_PProf h) then set (auth_referentialRules ''http.pprof.auth.external'' known (pp_Auth (http_PProf h))) else {})"
    by (simp add: HTTP_referentialRules_def http_groups_def)
  then show ?thesis unfolding served_auths_def using auth_referentialRules_Nil by (simp only: ball_Un if_bool_eq_conj) auto
qed

end
