(* ===== verification/Config_Keys.thy ===== *)
theory Config_Keys
  imports Config_Sections Vault
begin

text \<open>
  \<open>internal/config/encryption.go\<close> and \<open>internal/config/metrics.go\<close>: the key policies of payload encryption and
  the labels of the published metrics. A key URI is a parsed \<open>URL\<close>. Go maps are visited in the sorted order
  of their keys, as the code does. The messages that quote a URI, a pattern or a prefix keep their
  fixed text.
\<close>

section \<open>encryption.go\<close>

definition extensionKeyScheme :: string where
  "extensionKeyScheme = ''extension''"

definition NamespaceBindingOff :: string where "NamespaceBindingOff = ''off''"
definition NamespaceBindingPermissive :: string where "NamespaceBindingPermissive = ''permissive''"
definition NamespaceBindingStrict :: string where "NamespaceBindingStrict = ''strict''"

definition DefaultSchemes :: "string list" where
  "DefaultSchemes = [''awskms'', ''azurekeyvault'', ''gcpkms'', ''testing'']"

definition validKeySchemes :: "string list" where
  "validKeySchemes = DefaultSchemes @ [extensionKeyScheme]"

record KeyPolicy =
  kp_URI :: URL
  kp_DecryptURIs :: "URL list"
  kp_Duration :: int
  kp_RenewBefore :: int

record Encryption =
  e_Enabled :: bool
  e_Failures :: bool
  e_CacheSize :: "int option"
  e_Default :: "KeyPolicy option"
  e_Overrides :: "KeyPolicy gomap"
  e_SkipEncodings :: "string list"
  e_NamespaceBinding :: string

definition DEKCacheSize :: "Encryption option \<Rightarrow> int" where
  "DEKCacheSize eo = (case Option.bind eo e_CacheSize of None \<Rightarrow> DefaultCacheSize | Some n \<Rightarrow> n)"

definition NamespaceBinding_Mode :: "string \<Rightarrow> int result" where
  "NamespaceBinding_Mode b =
     (if b = [] then Inl (ErrorString ''mode is not set, expected one of off, permissive, strict'')
      else if b = NamespaceBindingOff then Inr BindingOff
      else if b = NamespaceBindingPermissive then Inr BindingPermissive
      else if b = NamespaceBindingStrict then Inr BindingStrict
      else Inl (ErrorString (''unknown mode '' @ b @ '', expected one of off, permissive, strict'')))"

definition validKeyURIRef :: "URL Check" where
  "validKeyURIRef u =
     (if \<not> List.member validKeySchemes (ToLower (url_Scheme u)) then Some (Plain ''invalid key URI'')
      else if EqualFold (url_Scheme u) extensionKeyScheme \<and> url_Host u = []
      then Some (Plain ''extension key URI must name an extension server'')
      else None)"

definition nonBlankEncoding :: "string Check" where
  "nonBlankEncoding s = (if s = [] then Some (Plain ''must not be blank'') else None)"

definition KeyPolicy_Validate :: "KeyPolicy \<Rightarrow> verr option" where
  "KeyPolicy_Validate p =
     Validate []
       [FieldRule ''uri'' (kp_URI p) [validKeyURIRef],
        Children ''decryptURIs'' (kp_DecryptURIs p) validKeyURIRef,
        FieldRule ''duration'' (kp_Duration p) [GT 0],
        FieldRule ''renewBefore'' (kp_RenewBefore p) [GTE 0, LT (kp_Duration p)]]"

text \<open>The check of \<open>namespaceBinding\<close>.\<close>

definition binding_check :: "Encryption \<Rightarrow> string Check" where
  "binding_check e b =
     (if b = []
      then (if e_Default e = None then None else Some (Plain ''required when encryption keys are configured''))
      else case NamespaceBinding_Mode b of Inl err \<Rightarrow> Some (Plain (Error err)) | Inr _ \<Rightarrow> None)"

definition failures_check :: "Encryption \<Rightarrow> bool Check" where
  "failures_check e on = (if on \<and> \<not> e_Enabled e then Some (Plain ''requires encryption to be enabled'') else None)"

definition override_subject :: "string \<Rightarrow> string" where
  "override_subject ns = ''overrides['' @ ns @ '']''"

definition Encryption_Validate :: "Encryption \<Rightarrow> verr option" where
  "Encryption_Validate e =
     Validate []
       ([FieldRule ''cacheSize'' (DEKCacheSize (Some e)) [GTE 0],
         FieldRule ''namespaceBinding'' (e_NamespaceBinding e) [binding_check e],
         WhenRules (e_Enabled e) [FieldRule ''default'' (e_Default e) [Required None]],
         FieldRule ''failures'' (e_Failures e) [failures_check e],
         (case e_Default e of None \<Rightarrow> WhenRules False [] | Some p \<Rightarrow> WhenNested True ''default'' (KeyPolicy_Validate p))]
        @ concat (map (\<lambda>ns. case map_of (e_Overrides e) ns of
              None \<Rightarrow> []
            | Some policy \<Rightarrow> [FieldRule (override_subject ns) ns [Required []], Nested (override_subject ns) (KeyPolicy_Validate policy)])
            (sort (map fst (e_Overrides e))))
        @ [FieldRule ''skipEncodings'' (e_SkipEncodings e) [Unique],
           Children ''skipEncodings'' (e_SkipEncodings e) nonBlankEncoding])"

definition RequireKey :: "Encryption \<Rightarrow> verr option" where
  "RequireKey e =
     Validate ''encryption''
       [FieldRule ''default'' (e_Default e)
          [\<lambda>p. if p = None then Some (Plain ''a key is required when encryption is required'') else None]]"

definition extensionRef :: "string \<Rightarrow> string \<Rightarrow> URL \<Rightarrow> string list \<Rightarrow> Rule" where
  "extensionRef subject field u known =
     (if \<not> EqualFold (url_Scheme u) extensionKeyScheme \<or> url_Host u = [] then []
      else if List.member known (url_Host u) then []
      else [\<lparr>Subject = subject, Field = field, VMessage = ''unknown extension server: '' @ url_Host u\<rparr>])"

fun decrypt_refs :: "string list \<Rightarrow> string \<Rightarrow> nat \<Rightarrow> URL list \<Rightarrow> Rule list" where
  "decrypt_refs known subject i [] = []"
| "decrypt_refs known subject i (u # us) =
     extensionRef subject (''decryptURIs['' @ itoa i @ '']'') u known # decrypt_refs known subject (Suc i) us"

definition policy_refs :: "string list \<Rightarrow> string \<Rightarrow> KeyPolicy \<Rightarrow> Rule list" where
  "policy_refs known subject p = extensionRef subject ''uri'' (kp_URI p) known # decrypt_refs known subject 0 (kp_DecryptURIs p)"

definition encryption_referentialRules :: "string list \<Rightarrow> Encryption \<Rightarrow> Rule list" where
  "encryption_referentialRules known e =
     (case e_Default e of None \<Rightarrow> [] | Some p \<Rightarrow> policy_refs known ''encryption.default'' p)
     @ concat (map (\<lambda>ns. case map_of (e_Overrides e) ns of
           None \<Rightarrow> [] | Some p \<Rightarrow> policy_refs known (''encryption.overrides['' @ ns @ '']'') p)
         (sort (map fst (e_Overrides e))))"

section \<open>metrics.go\<close>

definition binaryHeaderSuffix :: string where "binaryHeaderSuffix = ''-bin''"
definition reservedHeaderPrefix :: string where "reservedHeaderPrefix = ''grpc-''"
definition reservedLabelPrefix :: string where "reservedLabelPrefix = ''__''"
definition promReservedLabels :: "string list" where "promReservedLabels = [''le'', ''quantile'']"

definition isAlpha :: "char \<Rightarrow> bool" where
  "isAlpha c \<longleftrightarrow> (let n = of_char c :: nat in 65 \<le> n \<and> n \<le> 90 \<or> 97 \<le> n \<and> n \<le> 122)"

definition mdKeyRegex :: "string \<Rightarrow> bool" where
  "mdKeyRegex s \<longleftrightarrow> s \<noteq> [] \<and> list_all (\<lambda>c. isAlpha c \<or> isDigit c \<or> c \<in> set ''._-'') s"

definition promLabelRegex :: "string \<Rightarrow> bool" where
  "promLabelRegex s \<longleftrightarrow> s \<noteq> [] \<and> (isAlpha (hd s) \<or> hd s = CHR ''_'') \<and> list_all (\<lambda>c. isAlpha c \<or> isDigit c \<or> c = CHR ''_'') (tl s)"

record MetricLabel =
  ml_Header :: string
  ml_Name :: string

record MetricLabels =
  mls_Namespace :: bool
  mls_Fixed :: "string gomap"
  mls_Metadata :: "MetricLabel list"

record Metrics =
  me_HostPort :: string
  me_Namespace :: string
  me_Labels :: MetricLabels

definition ParseMetricLabel :: "string \<Rightarrow> MetricLabel result" where
  "ParseMetricLabel v =
     (case CutChar v (CHR '':'') of
        (hdr, name, ok) \<Rightarrow>
          (if \<not> ok then Inl (ErrorString ''invalid metric label: format: <header>:<name>'')
           else Inr \<lparr>ml_Header = TrimSpace hdr, ml_Name = TrimSpace name\<rparr>))"

definition MetricLabel_UnmarshalYAML :: "string result \<Rightarrow> MetricLabel \<Rightarrow> goerror option \<times> MetricLabel" where
  "MetricLabel_UnmarshalYAML decoded l =
     (case decoded of
        Inl err \<Rightarrow> (Some err, l)
      | Inr s \<Rightarrow> (case ParseMetricLabel s of Inl err \<Rightarrow> (Some err, l) | Inr label \<Rightarrow> (None, label)))"

definition match_check :: "(string \<Rightarrow> bool) \<Rightarrow> string Check" where
  "match_check r s = (if s = [] \<or> r s then None else Some (Plain ''is not valid''))"

definition textualHeader :: "string Check" where
  "textualHeader s = (if HasSuffix (ToLower s) binaryHeaderSuffix then Some (Plain ''must not end with -bin'') else None)"

definition unreservedHeader :: "string Check" where
  "unreservedHeader s = (if HasPrefix (ToLower s) reservedHeaderPrefix then Some (Plain ''must not begin with grpc-'') else None)"

definition unusedByMetadata :: "MetricLabel list \<Rightarrow> string Check" where
  "unusedByMetadata metadata s =
     (if list_ex (\<lambda>m. ml_Name m = s) metadata then Some (Plain ''must not also name a metadata label'') else None)"

definition nonEmptyValue :: "string Check" where
  "nonEmptyValue s = (if s = [] then Some (Plain ''must have a value'') else None)"

definition unreservedLabel :: "string Check" where
  "unreservedLabel s =
     (if HasPrefix s reservedLabelPrefix then Some (Plain ''must not begin with __'')
      else if List.member promReservedLabels s then Some (Plain ''must not be a name Prometheus reserves'')
      else None)"

definition MetricLabel_Validate :: "MetricLabel \<Rightarrow> verr option" where
  "MetricLabel_Validate l =
     Validate []
       [FieldRule ''header'' (ml_Header l) [Required [], match_check mdKeyRegex, unreservedHeader, textualHeader],
        FieldRule ''name'' (ml_Name l) [Required [], match_check promLabelRegex, unreservedLabel]]"

definition MetricLabels_Validate :: "MetricLabels \<Rightarrow> verr option" where
  "MetricLabels_Validate l =
     Validate []
       ([FieldRule ''metadata[name]'' (map ml_Name (mls_Metadata l)) [Unique],
         Children ''metadata'' (mls_Metadata l) MetricLabel_Validate]
        @ concat (map (\<lambda>name. let subject = ''fixed['' @ name @ '']'' in
            [FieldRule subject name [match_check promLabelRegex, unreservedLabel, unusedByMetadata (mls_Metadata l)],
             FieldRule subject (case map_of (mls_Fixed l) name of None \<Rightarrow> [] | Some v \<Rightarrow> v) [nonEmptyValue]])
            (sort (map fst (mls_Fixed l)))))"

definition Metrics_Validate :: "Metrics \<Rightarrow> verr option" where
  "Metrics_Validate m =
     Validate []
       [FieldRule ''hostPort'' (me_HostPort m) [IsHostPort],
        FieldRule ''namespace'' (me_Namespace m) [Required []],
        Nested ''labels'' (MetricLabels_Validate (me_Labels m))]"

section \<open>What the sections accept\<close>

lemma key_checks [simp]:
  "honest (validKeyURIRef u)" "honest (nonBlankEncoding s)" "honest (binding_check e b)" "honest (failures_check e on)"
  "nonBlankEncoding s = None \<longleftrightarrow> s \<noteq> []" "failures_check e on = None \<longleftrightarrow> (on \<longrightarrow> e_Enabled e)"
  by (simp_all add: validKeyURIRef_def nonBlankEncoding_def binding_check_def failures_check_def split: sum.split)

definition uri_ok :: "URL \<Rightarrow> bool" where
  "uri_ok u \<longleftrightarrow> ToLower (url_Scheme u) \<in> set validKeySchemes
     \<and> (EqualFold (url_Scheme u) extensionKeyScheme \<longrightarrow> url_Host u \<noteq> [])"

lemma validKeyURIRef_None [simp]: "validKeyURIRef u = None \<longleftrightarrow> uri_ok u"
  by (auto simp: validKeyURIRef_def uri_ok_def)

definition policy_ok :: "KeyPolicy \<Rightarrow> bool" where
  "policy_ok p \<longleftrightarrow> uri_ok (kp_URI p) \<and> list_all uri_ok (kp_DecryptURIs p)
     \<and> 0 \<le> kp_RenewBefore p \<and> kp_RenewBefore p < kp_Duration p"

interpretation policy: validator KeyPolicy_Validate policy_ok
  by unfold_locales (auto simp: KeyPolicy_Validate_def policy_ok_def Children_Nil list_all_iff)

text \<open>A setting of the binding mode that the vault knows.\<close>

definition binding_ok :: "string \<Rightarrow> bool" where
  "binding_ok b \<longleftrightarrow> (\<exists>m. NamespaceBinding_Mode b = Inr m)"

lemma NamespaceBinding_Mode_Inr: "NamespaceBinding_Mode b = Inr m \<Longrightarrow> BindingOff \<le> m \<and> m \<le> BindingStrict"
  by (auto simp: NamespaceBinding_Mode_def BindingOff_def BindingPermissive_def BindingStrict_def split: if_splits)

lemma binding_check_None: "binding_check e b = None \<longleftrightarrow> (if b = [] then e_Default e = None else binding_ok b)"
  by (auto simp: binding_check_def binding_ok_def split: sum.split)

definition encryption_ok :: "Encryption \<Rightarrow> bool" where
  "encryption_ok e \<longleftrightarrow> 0 \<le> DEKCacheSize (Some e)
     \<and> (if e_NamespaceBinding e = [] then e_Default e = None else binding_ok (e_NamespaceBinding e))
     \<and> (e_Enabled e \<longrightarrow> e_Default e \<noteq> None) \<and> (e_Failures e \<longrightarrow> e_Enabled e)
     \<and> pred_option policy_ok (e_Default e)
     \<and> (\<forall>ns p. map_of (e_Overrides e) ns = Some p \<longrightarrow> ns \<noteq> [] \<and> policy_ok p)
     \<and> distinct (e_SkipEncodings e) \<and> [] \<notin> set (e_SkipEncodings e)"

text \<open>A loop over the sorted keys of a map.\<close>

lemma ball_concat_keys:
  "(\<forall>r\<in>set (concat (map (\<lambda>k. case map_of m k of None \<Rightarrow> [] | Some v \<Rightarrow> f k v) (sort (map fst m)))). P r) \<longleftrightarrow>
     (\<forall>k v. map_of m k = Some v \<longrightarrow> (\<forall>r\<in>set (f k v). P r))"
proof -
  have dom: "k \<in> fst ` set m" if "map_of m k = Some v" for k v using that by (force dest: map_of_SomeD)
  have "(\<forall>r\<in>set (concat (map (\<lambda>k. case map_of m k of None \<Rightarrow> [] | Some v \<Rightarrow> f k v) (sort (map fst m)))). P r) \<longleftrightarrow>
      (\<forall>k\<in>fst ` set m. \<forall>r\<in>set (case map_of m k of None \<Rightarrow> [] | Some v \<Rightarrow> f k v). P r)"
    by simp
  also have "\<dots> \<longleftrightarrow> (\<forall>k v. map_of m k = Some v \<longrightarrow> (\<forall>r\<in>set (f k v). P r))"
  proof (intro iffI allI ballI impI)
    fix k v r
    assume a: "\<forall>k\<in>fst ` set m. \<forall>r\<in>set (case map_of m k of None \<Rightarrow> [] | Some v \<Rightarrow> f k v). P r" "map_of m k = Some v" "r \<in> set (f k v)"
    then show "P r" using bspec [OF a(1) dom [OF a(2)]] by simp
  next
    fix k r
    assume a: "\<forall>k v. map_of m k = Some v \<longrightarrow> (\<forall>r\<in>set (f k v). P r)" "r \<in> set (case map_of m k of None \<Rightarrow> [] | Some v \<Rightarrow> f k v)"
    then show "P r" by (cases "map_of m k") auto
  qed
  finally show ?thesis .
qed

interpretation encryption: validator Encryption_Validate encryption_ok
proof unfold_locales
  fix e
  show "honest (Encryption_Validate e)" by (simp add: Encryption_Validate_def)
  show "Encryption_Validate e = None \<longleftrightarrow> encryption_ok e"
    unfolding Encryption_Validate_def Validate_None set_append ball_Un ball_concat_keys
    by (auto simp: encryption_ok_def binding_check_None policy.nested_valid Children_Nil WhenNested_def split: option.splits)
qed

text \<open>The extension servers a policy's key URIs name.\<close>

definition named_servers :: "KeyPolicy \<Rightarrow> string set" where
  "named_servers p = {url_Host u | u. u \<in> set (kp_URI p # kp_DecryptURIs p) \<and> EqualFold (url_Scheme u) extensionKeyScheme \<and> url_Host u \<noteq> []}"

lemma extensionRef_Nil [simp]:
  "extensionRef subject field u known = [] \<longleftrightarrow> (EqualFold (url_Scheme u) extensionKeyScheme \<and> url_Host u \<noteq> [] \<longrightarrow> url_Host u \<in> set known)"
  by (auto simp: extensionRef_def)

lemma policy_refs_Nil: "(\<forall>r\<in>set (policy_refs known subject p). r = []) \<longleftrightarrow> named_servers p \<subseteq> set known"
proof -
  have "(\<forall>r\<in>set (decrypt_refs known subject i us). r = []) \<longleftrightarrow>
      (\<forall>u\<in>set us. EqualFold (url_Scheme u) extensionKeyScheme \<and> url_Host u \<noteq> [] \<longrightarrow> url_Host u \<in> set known)" for i us
    by (induction us arbitrary: i) auto
  then show ?thesis by (auto simp: policy_refs_def named_servers_def)
qed

lemma encryption_referentialRules_Nil:
  "(\<forall>r\<in>set (encryption_referentialRules known e). r = []) \<longleftrightarrow>
     pred_option (\<lambda>p. named_servers p \<subseteq> set known) (e_Default e)
     \<and> (\<forall>ns p. map_of (e_Overrides e) ns = Some p \<longrightarrow> named_servers p \<subseteq> set known)"
  unfolding encryption_referentialRules_def set_append ball_Un ball_concat_keys policy_refs_Nil
  using policy_refs_Nil [of known "''encryption.default''"] by (cases "e_Default e") (simp_all add: Ball_def)

text \<open>A label a metadata header is reported under, and the fixed ones.\<close>

definition label_name_ok :: "string \<Rightarrow> bool" where
  "label_name_ok s \<longleftrightarrow> promLabelRegex s \<and> \<not> prefix ''__'' s \<and> s \<notin> {''le'', ''quantile''}"

definition label_ok :: "MetricLabel \<Rightarrow> bool" where
  "label_ok l \<longleftrightarrow> mdKeyRegex (ml_Header l) \<and> \<not> prefix ''grpc-'' (ToLower (ml_Header l)) \<and> \<not> suffix ''-bin'' (ToLower (ml_Header l))
     \<and> label_name_ok (ml_Name l)"

lemma label_checks [simp]:
  "honest (match_check r s)" "honest (textualHeader s)" "honest (unreservedHeader s)" "honest (unusedByMetadata md s)"
  "honest (nonEmptyValue s)" "honest (unreservedLabel s)"
  "match_check r s = None \<longleftrightarrow> s = [] \<or> r s" "textualHeader s = None \<longleftrightarrow> \<not> suffix ''-bin'' (ToLower s)"
  "unreservedHeader s = None \<longleftrightarrow> \<not> prefix ''grpc-'' (ToLower s)" "unusedByMetadata md s = None \<longleftrightarrow> s \<notin> ml_Name ` set md"
  "nonEmptyValue s = None \<longleftrightarrow> s \<noteq> []" "unreservedLabel s = None \<longleftrightarrow> \<not> prefix ''__'' s \<and> s \<notin> {''le'', ''quantile''}"
  by (auto simp: match_check_def textualHeader_def unreservedHeader_def unusedByMetadata_def nonEmptyValue_def unreservedLabel_def
      HasPrefix_iff HasSuffix_iff binaryHeaderSuffix_def reservedHeaderPrefix_def reservedLabelPrefix_def promReservedLabels_def list_ex_iff)

interpretation metric_label: validator MetricLabel_Validate label_ok
  by unfold_locales (auto simp: MetricLabel_Validate_def label_ok_def label_name_ok_def mdKeyRegex_def promLabelRegex_def)

definition labels_ok :: "MetricLabels \<Rightarrow> bool" where
  "labels_ok l \<longleftrightarrow> list_all label_ok (mls_Metadata l) \<and> distinct (map ml_Name (mls_Metadata l))
     \<and> (\<forall>(name, v)\<in>set (mls_Fixed l). (name = [] \<or> label_name_ok name) \<and> name \<notin> ml_Name ` set (mls_Metadata l)
          \<and> map_of (mls_Fixed l) name \<noteq> Some [])"

lemma fixed_rules_Nil:
  "(\<forall>r\<in>set (concat (map (\<lambda>name. let subject = ''fixed['' @ name @ '']'' in
            [FieldRule subject name [match_check promLabelRegex, unreservedLabel, unusedByMetadata md],
             FieldRule subject (case map_of fixed name of None \<Rightarrow> [] | Some v \<Rightarrow> v) [nonEmptyValue]]) (sort (map fst fixed)))). r = []) \<longleftrightarrow>
     (\<forall>(name, v)\<in>set fixed. (name = [] \<or> label_name_ok name) \<and> name \<notin> ml_Name ` set md \<and> map_of fixed name \<noteq> Some [])"
proof -
  have mem: "\<exists>w. map_of fixed name = Some w" if "(name, v) \<in> set fixed" for name v using that weak_map_of_SomeI by force
  have "(\<forall>name\<in>fst ` set fixed. (name = [] \<or> promLabelRegex name) \<and> (\<not> prefix ''__'' name \<and> name \<notin> {''le'', ''quantile''})
       \<and> name \<notin> ml_Name ` set md \<and> (case map_of fixed name of None \<Rightarrow> [] | Some v \<Rightarrow> v) \<noteq> []) \<longleftrightarrow>
     (\<forall>(name, v)\<in>set fixed. (name = [] \<or> label_name_ok name) \<and> name \<notin> ml_Name ` set md \<and> map_of fixed name \<noteq> Some [])"
    using mem by (fastforce simp: label_name_ok_def promLabelRegex_def)
  then show ?thesis by (simp add: Let_def)
qed

interpretation labels: validator MetricLabels_Validate labels_ok
proof unfold_locales
  fix l
  show "honest (MetricLabels_Validate l)" by (simp add: MetricLabels_Validate_def)
  show "MetricLabels_Validate l = None \<longleftrightarrow> labels_ok l"
    unfolding MetricLabels_Validate_def Validate_None set_append ball_Un fixed_rules_Nil
    by (auto simp: labels_ok_def metric_label.children_valid)
qed

definition metrics_ok :: "Metrics \<Rightarrow> bool" where
  "metrics_ok m \<longleftrightarrow> IsHostPort (me_HostPort m) = None \<and> me_Namespace m \<noteq> [] \<and> labels_ok (me_Labels m)"

interpretation metrics: validator Metrics_Validate metrics_ok
  by unfold_locales (auto simp: Metrics_Validate_def metrics_ok_def labels.nested_valid)

end
