(* ===== verification/Config.thy ===== *)
theory Config
  imports Config_Keys
begin

text \<open>
  \<open>internal/config\<close>: the upstreams (\<open>upstream.go\<close>, with the parsing of their templates by
  \<open>internal/template\<close>), the Cloud API block (\<open>cloudapi.go\<close>) and the whole configuration (\<open>config.go\<close>), which is
  prepared by resetting its compiled state, filling defaults, validating and compiling. Preparing
  modifies the configuration in place; here it returns it.

  The validation of namespaces, routing, services, authentication and the other sections is that of
  their theories; this one composes them. YAML is a parameter of \<open>Load\<close>.
\<close>

section \<open>Templates\<close>

definition probeMeta :: "string gomap" where
  "probeMeta = [(''dc'', ''probe''), (''x-cluster'', ''probe'')]"

definition upstream_probe :: UpstreamContext where
  "upstream_probe = \<lparr>LocalNamespace = ''probe'', RemoteNamespace = ''probe'', Metadata = probeMeta\<rparr>"

text \<open>\<open>Render\<close> and \<open>IsLiteral\<close> of a template whose text is \<open>raw\<close>.\<close>

definition template_Render :: "string \<Rightarrow> (UpstreamContext \<Rightarrow> string result) \<Rightarrow> UpstreamContext \<Rightarrow> string result" where
  "template_Render raw exec ctx =
     (case exec ctx of
        Inl err \<Rightarrow> Inl (WrapError (''template: render '' @ raw @ '': '' @ Error err) [err])
      | Inr s \<Rightarrow> Inr s)"

definition template_IsLiteral :: "string \<Rightarrow> bool \<Rightarrow> bool" where
  "template_IsLiteral raw only_text \<longleftrightarrow> (if Contains raw ''{{'' then False else only_text)"

definition template_parse :: "config_env \<Rightarrow> string \<Rightarrow> UpstreamContext \<Rightarrow> tmpl result" where
  "template_parse E s probe =
     (case ce_template E s of
        Inl err \<Rightarrow> Inl (WrapError (''template: parse '' @ s @ '': '' @ Error err) [err])
      | Inr (only_text, exec) \<Rightarrow>
          (let t = \<lparr>t_raw = s, IsLiteral = template_IsLiteral s only_text, Render = template_Render s exec\<rparr>
           in case Render t probe of Inl err \<Rightarrow> Inl err | Inr _ \<Rightarrow> Inr t))"

definition ParseUpstream :: "config_env \<Rightarrow> string \<Rightarrow> tmpl result" where
  "ParseUpstream E s = template_parse E s upstream_probe"

section \<open>upstream.go\<close>

record ConfigUpstream =
  cu_Name :: string
  cu_Cloud :: bool
  cu_Listen :: ListenConfig
  cu_Namespaces :: NamespaceConfig
  cu_Credentials :: "CredentialConfig option"
  cu_Connection :: ConnectionConfig
  cu_hostTmpl :: "tmpl option"
  cu_serverNameTmpl :: "tmpl option"

text \<open>What the namespace rules read of an upstream.\<close>

definition upstream_names :: "ConfigUpstream \<Rightarrow> UpstreamNames" where
  "upstream_names u =
     \<lparr>u_Name = cu_Name u, u_Cloud = cu_Cloud u, u_HostPort = l_HostPort (cu_Listen u),
      u_ServerName = map_option t_ServerName (l_TLS (cu_Listen u)), u_Namespaces = cu_Namespaces u\<rparr>"

definition server_name :: "ConfigUpstream \<Rightarrow> string" where
  "server_name u = (case l_TLS (cu_Listen u) of None \<Rightarrow> [] | Some t \<Rightarrow> t_ServerName t)"

definition parseTemplates :: "config_env \<Rightarrow> ConfigUpstream \<Rightarrow> tmpl option \<times> tmpl option \<times> VErrors" where
  "parseTemplates E u =
     (let host = ParseUpstream E (l_HostPort (cu_Listen u)); sn = ParseUpstream E (server_name u);
          errs = (case host of Inl err \<Rightarrow> [\<lparr>Subject = [], Field = ''hostPort'', VMessage = Error err\<rparr>] | Inr _ \<Rightarrow> [])
            @ (case sn of Inl err \<Rightarrow> [\<lparr>Subject = ''tls'', Field = ''serverName'', VMessage = Error err\<rparr>] | Inr _ \<Rightarrow> [])
      in (case host of Inl _ \<Rightarrow> None | Inr t \<Rightarrow> Some t, case sn of Inl _ \<Rightarrow> None | Inr t \<Rightarrow> Some t, errs))"

definition hasLiteralHostPort :: "config_env \<Rightarrow> ConfigUpstream \<Rightarrow> bool" where
  "hasLiteralHostPort E u = (case ParseUpstream E (l_HostPort (cu_Listen u)) of Inl _ \<Rightarrow> False | Inr t \<Rightarrow> IsLiteral t)"

definition upstreamHostPort :: "config_env \<Rightarrow> string Check" where
  "upstreamHostPort E s =
     (if IsTarget s
      then (case ParseTarget (ce_url E) (ce_Endpoint E) s of Inl err \<Rightarrow> Some (Plain (Error err)) | Inr _ \<Rightarrow> None)
      else IsHostPort s)"

definition ConfigUpstream_Validate :: "config_env \<Rightarrow> ConfigUpstream \<Rightarrow> verr option" where
  "ConfigUpstream_Validate E u =
     Validate []
       ([FieldRule ''name'' (cu_Name u) [Required []],
         (case parseTemplates E u of (_, _, errs) \<Rightarrow> errs),
         WhenRules (hasLiteralHostPort E u) [FieldRule ''hostPort'' (l_HostPort (cu_Listen u)) [upstreamHostPort E]],
         when_tls (cu_Listen u) (validateOutbound E),
         Nested ''namespaces'' (Config_Validate (cu_Namespaces u)),
         Nested ''connection'' (ConnectionConfig_Validate (cu_Connection u))]
        @ credential_rules ''requires TLS to the upstream'' (cu_Credentials u) (cu_Listen u)
        @ [insecureRule (cu_Listen u),
           WhenRules (IsCloud (upstream_names u)) (cloudRules (upstream_names u))])"

definition UpstreamList_Validate :: "config_env \<Rightarrow> ConfigUpstream list \<Rightarrow> verr option" where
  "UpstreamList_Validate E ul =
     Validate []
       [FieldRule ''[name]'' (map cu_Name ul) [Unique],
        FieldRule ''[hostPort]'' (map (\<lambda>u. l_HostPort (cu_Listen u)) ul) [Unique],
        Children [] ul (ConfigUpstream_Validate E),
        bindingLabelsRule (map upstream_names ul)]"

text \<open>\<open>compile\<close>, \<open>reset\<close>, and the accessor that panics before the first.\<close>

definition Upstream_compile :: "config_env \<Rightarrow> ConfigUpstream \<Rightarrow> VErrors option \<times> ConfigUpstream" where
  "Upstream_compile E u =
     (case parseTemplates E u of
        (host, sn, errs) \<Rightarrow>
          (if errs \<noteq> [] then (Some errs, u)
           else (None, u\<lparr>cu_hostTmpl := host, cu_serverNameTmpl := sn,
                         cu_Namespaces := (cu_Namespaces u)\<lparr>Rules := compile_rules (Rules (cu_Namespaces u))\<rparr>\<rparr>)))"

definition Upstream_reset :: "ConfigUpstream \<Rightarrow> ConfigUpstream" where
  "Upstream_reset u =
     u\<lparr>cu_hostTmpl := None, cu_serverNameTmpl := None,
       cu_Namespaces := (cu_Namespaces u)\<lparr>Rules := reset_rules (Rules (cu_Namespaces u))\<rparr>\<rparr>"

definition Templates :: "ConfigUpstream \<Rightarrow> (tmpl \<times> tmpl option) result" where
  "Templates u =
     (case cu_hostTmpl u of
        None \<Rightarrow> Inl (ErrorString ''panic: config: Upstream used before Config.Prepare'')
      | Some h \<Rightarrow> Inr (h, cu_serverNameTmpl u))"

section \<open>cloudapi.go\<close>

record CloudAPI =
  ca_Listen :: ListenConfig
  ca_Credentials :: "CredentialConfig option"

definition no_rules :: NamespaceConfig where
  "no_rules = \<lparr>Rules = \<lparr>Prefix = [], Suffix = [], Overrides = [], localToRemote = None, remoteToLocal = None\<rparr>, BindingLabelsFrom = []\<rparr>"

definition zero_Connection :: ConnectionConfig where
  "zero_Connection = \<lparr>cn_MaxResponseSize = 0, cn_MaxConnections = 0, cn_KeepAlive = \<lparr>ka_Time = 0, ka_Timeout = 0\<rparr>\<rparr>"

text \<open>\<open>upstream\<close>: the control plane for \<open>src\<close>, not compiled.\<close>

definition CloudAPI_upstream :: "CloudAPI \<Rightarrow> ConfigUpstream \<Rightarrow> ConfigUpstream" where
  "CloudAPI_upstream c src =
     \<lparr>cu_Name = cu_Name src @ ''/cloud-api'', cu_Cloud = True,
      cu_Listen = \<lparr>l_HostPort = (if l_HostPort (ca_Listen c) \<noteq> [] then l_HostPort (ca_Listen c) else APIHostPort),
                   l_Insecure = l_Insecure (ca_Listen c), l_TLS = l_TLS (ca_Listen c)\<rparr>,
      cu_Namespaces = no_rules,
      cu_Credentials = (if ca_Credentials c \<noteq> None then ca_Credentials c else cu_Credentials src),
      cu_Connection = cu_Connection src, cu_hostTmpl = None, cu_serverNameTmpl = None\<rparr>"

definition CloudAPI_Upstream :: "config_env \<Rightarrow> CloudAPI \<Rightarrow> ConfigUpstream \<Rightarrow> VErrors + ConfigUpstream" where
  "CloudAPI_Upstream E c src =
     (case Upstream_compile E (CloudAPI_upstream c src) of (Some errs, _) \<Rightarrow> Inl errs | (None, up) \<Rightarrow> Inr up)"

definition IsSaasAPI :: "CloudAPI \<Rightarrow> bool" where
  "IsSaasAPI c \<longleftrightarrow> (if l_HostPort (ca_Listen c) = [] then True else IsEndpoint (l_HostPort (ca_Listen c)))"

definition CloudAPI_IsZero :: "CloudAPI \<Rightarrow> bool" where
  "CloudAPI_IsZero c \<longleftrightarrow> c = \<lparr>ca_Listen = \<lparr>l_HostPort = [], l_Insecure = False, l_TLS = None\<rparr>, ca_Credentials = None\<rparr>"

definition cloudApi_src :: ConfigUpstream where
  "cloudApi_src =
     \<lparr>cu_Name = ''cloudApi'', cu_Cloud = False, cu_Listen = \<lparr>l_HostPort = [], l_Insecure = False, l_TLS = None\<rparr>,
      cu_Namespaces = no_rules, cu_Credentials = None, cu_Connection = zero_Connection, cu_hostTmpl = None, cu_serverNameTmpl = None\<rparr>"

definition CloudAPI_Validate :: "config_env \<Rightarrow> CloudAPI \<Rightarrow> verr option" where
  "CloudAPI_Validate E c = ConfigUpstream_Validate E (CloudAPI_upstream c cloudApi_src)"

record APITranslations =
  at_CloudAPI :: CloudAPI

definition APITranslations_Validate :: "config_env \<Rightarrow> APITranslations \<Rightarrow> verr option" where
  "APITranslations_Validate E t = Validate [] [Nested ''cloudApi'' (CloudAPI_Validate E (at_CloudAPI t))]"

section \<open>config.go\<close>

record Config =
  c_Listen :: ListenConfig
  c_APITranslations :: APITranslations
  c_AllowedServices :: "string list"
  c_Auth :: "AuthConfig option"
  c_Encryption :: Encryption
  c_ExtensionServers :: "ExtensionServer list"
  c_Health :: Health
  c_HTTP :: HTTP
  c_Metrics :: Metrics
  c_Routing :: Routing
  c_Upstreams :: "ConfigUpstream list"
  c_RetiredCodecServer :: bool

definition Config_validate :: "config_env \<Rightarrow> Config \<Rightarrow> verr option" where
  "Config_validate E c =
     (let known = map cu_Name (c_Upstreams c); knownExtensions = map es_Name (c_ExtensionServers c)
      in Validate []
           ([FieldRule ''upstreams'' (c_Upstreams c)
               [\<lambda>us. if us = [] then Some (Plain ''at least one upstream is required'') else None],
             Nested [] (ListenConfig_Validate E (c_Listen c)),
             Nested [] (Services_Validate (ce_registry E) (c_AllowedServices c)),
             WhenRules (c_RetiredCodecServer c)
               [[\<lparr>Subject = [], Field = ''codecServer'', VMessage = ''moved to http.codecServer, with hostPort, insecure, and tls set on http itself''\<rparr>]],
             Nested ''encryption'' (Encryption_Validate (c_Encryption c)),
             Nested ''extensionServers'' (ExtensionServerList_Validate E (c_ExtensionServers c)),
             Nested ''health'' (Health_Validate (c_Health c)),
             Nested ''http'' (HTTP_Validate E (c_HTTP c)),
             Nested ''metrics'' (Metrics_Validate (c_Metrics c)),
             Nested ''routing'' (Routing_Validate (c_Routing c)),
             (case c_Auth c of None \<Rightarrow> WhenRules False [] | Some a \<Rightarrow> WhenRules True [Nested ''auth'' (auth_Validate E a)]),
             Nested ''apiTranslations'' (APITranslations_Validate E (c_APITranslations c)),
             Nested ''upstreams'' (UpstreamList_Validate E (c_Upstreams c))]
            @ auth_referentialRules ''auth.external'' knownExtensions (c_Auth c)
            @ HTTP_referentialRules E knownExtensions (c_HTTP c)
            @ referentialRules known (c_Routing c)
            @ encryption_referentialRules knownExtensions (c_Encryption c)))"

datatype prepare_error = Invalid verr | UpstreamFailed nat VErrors | RoutingFailed nat VErrors

text \<open>The loop of \<open>compile\<close> over the upstreams stops at the first that fails.\<close>

fun compile_upstreams :: "config_env \<Rightarrow> nat \<Rightarrow> ConfigUpstream list \<Rightarrow> prepare_error option \<times> ConfigUpstream list" where
  "compile_upstreams E i [] = (None, [])"
| "compile_upstreams E i (u # us) =
     (case Upstream_compile E u of
        (Some errs, u') \<Rightarrow> (Some (UpstreamFailed i errs), u' # us)
      | (None, u') \<Rightarrow> (case compile_upstreams E (Suc i) us of (err, us') \<Rightarrow> (err, u' # us')))"

definition Config_compile :: "config_env \<Rightarrow> Config \<Rightarrow> prepare_error option \<times> Config" where
  "Config_compile E c =
     (case compile_upstreams E 0 (c_Upstreams c) of
        (Some err, us) \<Rightarrow> (Some err, c\<lparr>c_Upstreams := us\<rparr>)
      | (None, us) \<Rightarrow>
          (case compile_routing (c_Routing c) of
             (Some (i, errs), r) \<Rightarrow> (Some (RoutingFailed i errs), c\<lparr>c_Upstreams := us, c_Routing := r\<rparr>)
           | (None, r) \<Rightarrow> (None, c\<lparr>c_Upstreams := us, c_Routing := r\<rparr>)))"

definition Config_reset :: "Config \<Rightarrow> Config" where
  "Config_reset c = c\<lparr>c_Upstreams := map Upstream_reset (c_Upstreams c), c_Routing := reset_routing (c_Routing c)\<rparr>"

definition applyDefaults :: "Config \<Rightarrow> Config" where
  "applyDefaults c =
     c\<lparr>c_AllowedServices := Allowed (c_AllowedServices c),
       c_Metrics := (c_Metrics c)\<lparr>me_HostPort := cmp_Or [] (me_HostPort (c_Metrics c)) '':9090'',
                                  me_Namespace := cmp_Or [] (me_Namespace (c_Metrics c)) ''tmprl_proxy''\<rparr>\<rparr>"

definition Prepare :: "config_env \<Rightarrow> Config \<Rightarrow> prepare_error option \<times> Config" where
  "Prepare E c0 =
     (let c = applyDefaults (Config_reset c0)
      in case Config_validate E c of
           Some err \<Rightarrow> (Some (Invalid err), c)
         | None \<Rightarrow>
             (case Config_compile E c of
                (Some err, c') \<Rightarrow> (Some err, Config_reset c')
              | (None, c') \<Rightarrow> (None, c')))"

text \<open>\<open>Load\<close> and \<open>LoadFile\<close>: \<open>subst_env\<close> is \<open>os.Expand\<close> over the environment, \<open>yaml\<close> decodes a document.\<close>

definition Load :: "config_env \<Rightarrow> (string \<Rightarrow> string) \<Rightarrow> (string \<Rightarrow> Config result) \<Rightarrow> bytes result \<Rightarrow> (goerror + prepare_error) + Config" where
  "Load E subst_env yaml data =
     (case data of
        Inl err \<Rightarrow> Inl (Inl err)
      | Inr d \<Rightarrow>
          (case yaml (subst_env d) of
             Inl err \<Rightarrow> Inl (Inl err)
           | Inr cfg \<Rightarrow> (case Prepare E cfg of (Some err, _) \<Rightarrow> Inl (Inr err) | (None, c) \<Rightarrow> Inr c)))"

definition LoadFile :: "config_env \<Rightarrow> (string \<Rightarrow> string) \<Rightarrow> (string \<Rightarrow> Config result) \<Rightarrow> string \<Rightarrow> (goerror + prepare_error) + Config" where
  "LoadFile E subst_env yaml path = Load E subst_env yaml (ce_files E path)"

section \<open>What is accepted\<close>

lemma upstreamHostPort_honest [simp]: "honest (upstreamHostPort E s)"
  by (simp add: upstreamHostPort_def split: sum.split)

text \<open>The dial target of an upstream: a template that renders, a host and port, or an SRV record.\<close>

definition target_ok :: "config_env \<Rightarrow> ConfigUpstream \<Rightarrow> bool" where
  "target_ok E u \<longleftrightarrow>
     (\<exists>h sn. ParseUpstream E (l_HostPort (cu_Listen u)) = Inr h \<and> ParseUpstream E (server_name u) = Inr sn
        \<and> (IsLiteral h \<longrightarrow> upstreamHostPort E (l_HostPort (cu_Listen u)) = None))"

lemma parseTemplates_ok:
  "snd (snd (parseTemplates E u)) = [] \<longleftrightarrow>
     (\<exists>h sn. ParseUpstream E (l_HostPort (cu_Listen u)) = Inr h \<and> ParseUpstream E (server_name u) = Inr sn
        \<and> parseTemplates E u = (Some h, Some sn, []))"
  by (auto simp: parseTemplates_def Let_def split: sum.split)

definition upstream_ok :: "config_env \<Rightarrow> ConfigUpstream \<Rightarrow> bool" where
  "upstream_ok E u \<longleftrightarrow> cu_Name u \<noteq> [] \<and> target_ok E u
     \<and> pred_option (outbound_ok E) (l_TLS (cu_Listen u)) \<and> plain_ok (cu_Listen u)
     \<and> rules_wf (Rules (cu_Namespaces u)) \<and> connection_ok (cu_Connection u)
     \<and> pred_option (\<lambda>c. \<exists>k. cc_Static c = Some k \<and> sc_APIKey k \<noteq> []) (cu_Credentials u)
     \<and> \<not> (cu_Credentials u \<noteq> None \<and> l_Insecure (cu_Listen u))
     \<and> (IsCloud (upstream_names u) \<longrightarrow> (\<forall>r\<in>set (cloudRules (upstream_names u)). r = []))"

interpretation ns_config: validator Config_Validate "\<lambda>c. rules_wf (Rules c)"
  by unfold_locales (simp_all add: Config_Validate_def rules.nested_valid)

lemma template_rules:
  "(case parseTemplates E u of (_, _, errs) \<Rightarrow> errs) = []
     \<and> WhenRules (hasLiteralHostPort E u) [FieldRule ''hostPort'' (l_HostPort (cu_Listen u)) [upstreamHostPort E]] = []
   \<longleftrightarrow> target_ok E u"
  by (cases "ParseUpstream E (l_HostPort (cu_Listen u))"; cases "ParseUpstream E (server_name u)")
    (auto simp: target_ok_def hasLiteralHostPort_def parseTemplates_def Let_def)

interpretation upstream: validator "ConfigUpstream_Validate E" "upstream_ok E" for E
proof unfold_locales
  fix u
  show "honest (ConfigUpstream_Validate E u)" by (simp add: ConfigUpstream_Validate_def)
  have "ConfigUpstream_Validate E u = None \<longleftrightarrow>
      cu_Name u \<noteq> [] \<and> ((case parseTemplates E u of (_, _, errs) \<Rightarrow> errs) = []
        \<and> WhenRules (hasLiteralHostPort E u) [FieldRule ''hostPort'' (l_HostPort (cu_Listen u)) [upstreamHostPort E]] = [])
      \<and> pred_option (outbound_ok E) (l_TLS (cu_Listen u)) \<and> rules_wf (Rules (cu_Namespaces u)) \<and> connection_ok (cu_Connection u)
      \<and> (pred_option (\<lambda>c. \<exists>k. cc_Static c = Some k \<and> sc_APIKey k \<noteq> []) (cu_Credentials u) \<and> \<not> (cu_Credentials u \<noteq> None \<and> l_Insecure (cu_Listen u)))
      \<and> plain_ok (cu_Listen u) \<and> (IsCloud (upstream_names u) \<longrightarrow> (\<forall>r\<in>set (cloudRules (upstream_names u)). r = []))"
    unfolding ConfigUpstream_Validate_def Validate_None set_append ball_Un credential_rules_Nil
    by (simp del: WhenRules_Nil add: WhenRules_Nil [of "IsCloud _"] ns_config.nested_valid connection.nested_valid conj_assoc)
  then show "ConfigUpstream_Validate E u = None \<longleftrightarrow> upstream_ok E u"
    unfolding template_rules upstream_ok_def by blast
qed

definition upstreams_ok :: "config_env \<Rightarrow> ConfigUpstream list \<Rightarrow> bool" where
  "upstreams_ok E ul \<longleftrightarrow> distinct (map cu_Name ul) \<and> distinct (map (\<lambda>u. l_HostPort (cu_Listen u)) ul)
     \<and> list_all (upstream_ok E) ul \<and> bindingLabelsRule (map upstream_names ul) = []"

interpretation upstreams: validator "UpstreamList_Validate E" "upstreams_ok E" for E
  by unfold_locales (simp_all add: UpstreamList_Validate_def upstreams_ok_def upstream.children_valid)

interpretation cloud_api: validator "APITranslations_Validate E" "\<lambda>t. upstream_ok E (CloudAPI_upstream (at_CloudAPI t) cloudApi_src)" for E
  by unfold_locales (simp_all add: APITranslations_Validate_def CloudAPI_Validate_def upstream.nested_valid)

text \<open>The names other parts of a configuration refer to.\<close>

definition references_ok :: "Config \<Rightarrow> bool" where
  "references_ok c \<longleftrightarrow>
     (\<forall>a\<in>insert (c_Auth c) (served_auths (c_HTTP c)). \<forall>ext. Option.bind a External = Some ext \<longrightarrow> ec_Name ext \<noteq> [] \<longrightarrow>
        ec_Name ext \<in> es_Name ` set (c_ExtensionServers c))
     \<and> (\<forall>n\<in>insert (DefaultUpstream (c_Routing c)) (insert (SystemUpstream (c_Routing c)) (rr_Upstream ` set (RRules (c_Routing c)))).
          n = [] \<or> n \<in> cu_Name ` set (c_Upstreams c))
     \<and> pred_option (\<lambda>p. named_servers p \<subseteq> es_Name ` set (c_ExtensionServers c)) (e_Default (c_Encryption c))
     \<and> (\<forall>ns p. map_of (e_Overrides (c_Encryption c)) ns = Some p \<longrightarrow> named_servers p \<subseteq> es_Name ` set (c_ExtensionServers c))"

definition config_ok :: "config_env \<Rightarrow> Config \<Rightarrow> bool" where
  "config_ok E c \<longleftrightarrow> c_Upstreams c \<noteq> [] \<and> listen_ok E (c_Listen c)
     \<and> distinct (c_AllowedServices c) \<and> set (c_AllowedServices c) \<subseteq> set All \<and> \<not> c_RetiredCodecServer c
     \<and> encryption_ok (c_Encryption c)
     \<and> distinct (map es_Name (c_ExtensionServers c)) \<and> distinct (map (\<lambda>s. l_HostPort (es_Listen s)) (c_ExtensionServers c))
     \<and> list_all (extension_ok E) (c_ExtensionServers c)
     \<and> 0 < CheckTimeout (c_Health c) \<and> CheckTimeout (c_Health c) < CheckInterval (c_Health c)
     \<and> http_ok E (c_HTTP c) \<and> metrics_ok (c_Metrics c) \<and> Routing_Validate (c_Routing c) = None
     \<and> pred_option (auth_ok E) (c_Auth c)
     \<and> upstream_ok E (CloudAPI_upstream (at_CloudAPI (c_APITranslations c)) cloudApi_src)
     \<and> upstreams_ok E (c_Upstreams c) \<and> references_ok c"

lemma routing_nested: "Nested subject (Routing_Validate r) = [] \<longleftrightarrow> Routing_Validate r = None"
  by (simp add: Nested_Nil Routing_Validate_def)

interpretation config: validator "Config_validate E" "config_ok E" for E
proof unfold_locales
  fix c
  show "honest (Config_validate E c)" by (simp add: Config_validate_def Let_def)
  show "Config_validate E c = None \<longleftrightarrow> config_ok E c"
    unfolding Config_validate_def Let_def Validate_None set_append ball_Un
      auth_referentialRules_Nil HTTP_referentialRules_Nil referentialRules_Nil encryption_referentialRules_Nil
    by (cases "c_Auth c")
      (simp_all add: config_ok_def references_ok_def listen.nested_valid services.nested_valid encryption.nested_valid
        extensions.nested_valid health.nested_valid http.nested_valid metrics.nested_valid routing_nested auth.nested_valid
        cloud_api.nested_valid upstreams.nested_valid conj_assoc)
qed

section \<open>Preparing\<close>

text \<open>The compiled state of a configuration, and its absence.\<close>

definition upstream_prepared :: "config_env \<Rightarrow> ConfigUpstream \<Rightarrow> bool" where
  "upstream_prepared E u \<longleftrightarrow>
     (\<exists>h sn. ParseUpstream E (l_HostPort (cu_Listen u)) = Inr h \<and> ParseUpstream E (server_name u) = Inr sn
        \<and> Templates u = Inr (h, Some sn))
     \<and> (\<exists>r. Rules (cu_Namespaces u) = compile_rules r)"

definition prepared :: "config_env \<Rightarrow> Config \<Rightarrow> bool" where
  "prepared E c \<longleftrightarrow> list_all (upstream_prepared E) (c_Upstreams c) \<and> list_all (\<lambda>r. \<not> isl (Matchers r)) (RRules (c_Routing c))"

definition compiled_nothing :: "Config \<Rightarrow> bool" where
  "compiled_nothing c \<longleftrightarrow> Config_reset c = c"

lemma reset_idem [simp]: "Config_reset (Config_reset c) = Config_reset c"
  by (simp add: Config_reset_def Upstream_reset_def reset_rules_def reset_routing_def comp_def)

lemma applyDefaults_reset [simp]: "Config_reset (applyDefaults c) = applyDefaults (Config_reset c)"
  by (simp add: Config_reset_def applyDefaults_def)

lemma applyDefaults_idem [simp]: "applyDefaults (applyDefaults c) = applyDefaults c"
  by (simp add: applyDefaults_def cmp_Or_def Allowed_def)

lemma Upstream_compile_ok:
  assumes "target_ok E u"
  obtains u' where "Upstream_compile E u = (None, u')" "upstream_prepared E u'" "Upstream_reset u' = Upstream_reset u"
proof -
  obtain h sn where h: "ParseUpstream E (l_HostPort (cu_Listen u)) = Inr h" "ParseUpstream E (server_name u) = Inr sn"
    using assms by (auto simp: target_ok_def)
  define u' where "u' = u\<lparr>cu_hostTmpl := Some h, cu_serverNameTmpl := Some sn,
                         cu_Namespaces := (cu_Namespaces u)\<lparr>Rules := compile_rules (Rules (cu_Namespaces u))\<rparr>\<rparr>"
  have "Upstream_compile E u = (None, u')" using h by (simp add: Upstream_compile_def parseTemplates_def u'_def)
  moreover have "upstream_prepared E u'"
    using h by (auto simp: upstream_prepared_def u'_def Templates_def server_name_def)
  moreover have "Upstream_reset u' = Upstream_reset u"
    by (simp add: Upstream_reset_def u'_def reset_rules_def compile_rules_def)
  ultimately show ?thesis using that by blast
qed

lemma compile_upstreams_ok:
  "list_all (target_ok E) us \<Longrightarrow>
     \<exists>us'. compile_upstreams E i us = (None, us') \<and> list_all (upstream_prepared E) us' \<and> map Upstream_reset us' = map Upstream_reset us"
proof (induction us arbitrary: i)
  case (Cons u us)
  obtain u' where "Upstream_compile E u = (None, u')" "upstream_prepared E u'" "Upstream_reset u' = Upstream_reset u"
    using Upstream_compile_ok Cons.prems by (metis list.pred_inject(2))
  moreover obtain us' where "compile_upstreams E (Suc i) us = (None, us')" "list_all (upstream_prepared E) us'" "map Upstream_reset us' = map Upstream_reset us"
    using Cons by fastforce
  ultimately show ?case by auto
qed simp

text \<open>What compilation of a valid configuration gives; it cannot fail.\<close>

lemma Config_compile_ok:
  assumes "config_ok E c"
  obtains c' where "Config_compile E c = (None, c')" "prepared E c'" "Config_reset c' = Config_reset c"
proof -
  have "list_all (target_ok E) (c_Upstreams c)"
    using assms by (auto simp: config_ok_def upstreams_ok_def upstream_ok_def list_all_iff)
  then obtain us' where us': "compile_upstreams E 0 (c_Upstreams c) = (None, us')" "list_all (upstream_prepared E) us'"
    "map Upstream_reset us' = map Upstream_reset (c_Upstreams c)" using compile_upstreams_ok by blast
  have r: "Routing_Validate (c_Routing c) = None" using assms by (simp add: config_ok_def)
  define r' where "r' = (c_Routing c)\<lparr>RRules := map (\<lambda>x. x\<lparr>matchers := Some (projr (compile_match (rr_Match x)))\<rparr>) (RRules (c_Routing c))\<rparr>"
  have r': "compile_routing (c_Routing c) = (None, r')" using compile_routing_ok [OF r] by (simp add: r'_def)
  have "list_all (\<lambda>r. \<not> isl (Matchers r)) (RRules r')" "reset_routing r' = reset_routing (c_Routing c)"
    by (auto simp: r'_def list_all_iff Matchers_def reset_routing_def)
  then show ?thesis
    using us' r' that [of "c\<lparr>c_Upstreams := us', c_Routing := r'\<rparr>"] by (simp add: Config_compile_def prepared_def Config_reset_def)
qed

lemma Prepare_eq:
  "Prepare E c =
     (if config_ok E (applyDefaults (Config_reset c)) then (None, snd (Config_compile E (applyDefaults (Config_reset c))))
      else (Some (Invalid (the (Config_validate E (applyDefaults (Config_reset c))))), applyDefaults (Config_reset c)))"
proof (cases "config_ok E (applyDefaults (Config_reset c))")
  case True
  then obtain c' where "Config_compile E (applyDefaults (Config_reset c)) = (None, c')" by (rule Config_compile_ok)
  then show ?thesis using True by (simp add: Prepare_def Let_def config.validate_iff [THEN iffD2])
next
  case False
  then obtain err where "Config_validate E (applyDefaults (Config_reset c)) = Some err" using config.validate_iff by (metis not_Some_eq)
  then show ?thesis using False by (simp add: Prepare_def Let_def)
qed

lemma Prepare_reset: "Config_reset (snd (Prepare E c)) = applyDefaults (Config_reset c)"
proof (cases "config_ok E (applyDefaults (Config_reset c))")
  case True
  then obtain c' where "Config_compile E (applyDefaults (Config_reset c)) = (None, c')" "Config_reset c' = Config_reset (applyDefaults (Config_reset c))"
    by (rule Config_compile_ok)
  then show ?thesis using True by (simp add: Prepare_eq)
qed (simp add: Prepare_eq)

section \<open>An example\<close>

text \<open>Templates without actions, URLs that are bare hosts.\<close>

definition ex_config_env :: config_env where
  "ex_config_env = \<lparr>ce_x509 = ex_env, ce_files = ex_fs, ce_now = 50, ce_registry = (\<lambda>_. Inr OtherDescriptor),
     ce_url = (\<lambda>s. Inl (ErrorString ''no url'')), ce_Endpoint = url_Path,
     ce_template = (\<lambda>s. Inr (True, \<lambda>_. Inr s))\<rparr>"

definition plain_listen :: "string \<Rightarrow> ListenConfig" where
  "plain_listen hp = \<lparr>l_HostPort = hp, l_Insecure = False, l_TLS = None\<rparr>"

definition ex_credential :: CredentialConfig where
  "ex_credential = \<lparr>cc_Static = Some \<lparr>sc_APIKey = ''secret'', sc_Header = [], sc_Scheme = []\<rparr>\<rparr>"

definition ex_cloud_up :: ConfigUpstream where
  "ex_cloud_up = \<lparr>cu_Name = ''frontend'', cu_Cloud = True, cu_Listen = plain_listen ''h:1'', cu_Namespaces = no_rules,
     cu_Credentials = Some ex_credential, cu_Connection = zero_Connection, cu_hostTmpl = None, cu_serverNameTmpl = None\<rparr>"

definition ex_config :: "bool \<Rightarrow> Config" where
  "ex_config api_insecure =
     \<lparr>c_Listen = plain_listen '':1'',
      c_APITranslations = \<lparr>at_CloudAPI = \<lparr>ca_Listen = \<lparr>l_HostPort = ''x:2'', l_Insecure = api_insecure, l_TLS = None\<rparr>, ca_Credentials = None\<rparr>\<rparr>,
      c_AllowedServices = [], c_Auth = None,
      c_Encryption = \<lparr>e_Enabled = False, e_Failures = False, e_CacheSize = None, e_Default = None, e_Overrides = [], e_SkipEncodings = [], e_NamespaceBinding = []\<rparr>,
      c_ExtensionServers = [], c_Health = \<lparr>h_Interval = 0, h_Timeout = 0\<rparr>,
      c_HTTP = \<lparr>http_Listen = \<lparr>l_HostPort = ''h:3'', l_Insecure = False, l_TLS = Some \<lparr>t_CA = [], t_Cert = ''cert'', t_Key = ''key'', t_ServerName = []\<rparr>\<rparr>,
        http_CodecServer = \<lparr>cs_Enabled = True, cs_CORS = \<lparr>Origins = [], CORS_Credentials = False\<rparr>,
          cs_Auth = Some \<lparr>External = None, StaticToken = Some \<lparr>stc_Token = ''t'', stc_Header = [], stc_Scheme = []\<rparr>, JWKS = None\<rparr>\<rparr>,
        http_PProf = \<lparr>pp_Enabled = False, pp_Auth = None\<rparr>\<rparr>,
      c_Metrics = \<lparr>me_HostPort = [], me_Namespace = [], me_Labels = \<lparr>mls_Namespace = False, mls_Fixed = [], mls_Metadata = []\<rparr>\<rparr>,
      c_Routing = \<lparr>DefaultUpstream = ''frontend'', SystemUpstream = [], RRules = []\<rparr>,
      c_Upstreams = [ex_cloud_up], c_RetiredCodecServer = False\<rparr>"

lemma ex_config_prepared: "fst (Prepare ex_config_env (ex_config b)) = None"
  by (cases b) (simp_all only:, code_simp+)

section \<open>Properties\<close>

text \<open>C21. Preparing succeeds exactly on the configurations whose sections are all acceptable and whose references
  exist; then every upstream has its templates and its namespace maps and every routing rule its
  matchers, so that no later use panics. On an error no compiled state is left behind. Preparing again,
  also a configuration already prepared, gives the same result.\<close>

theorem Prepare_decides:
  "(fst (Prepare E c) = None \<longleftrightarrow> config_ok E (applyDefaults (Config_reset c)))
   \<and> (if fst (Prepare E c) = None then prepared E (snd (Prepare E c)) else compiled_nothing (snd (Prepare E c)))
   \<and> Prepare E (snd (Prepare E c)) = Prepare E c"
proof (intro conjI)
  show "fst (Prepare E c) = None \<longleftrightarrow> config_ok E (applyDefaults (Config_reset c))" by (simp add: Prepare_eq)
  show "if fst (Prepare E c) = None then prepared E (snd (Prepare E c)) else compiled_nothing (snd (Prepare E c))"
  proof (cases "config_ok E (applyDefaults (Config_reset c))")
    case True
    then obtain c' where "Config_compile E (applyDefaults (Config_reset c)) = (None, c')" "prepared E c'" by (rule Config_compile_ok)
    then show ?thesis using True by (simp add: Prepare_eq)
  qed (simp add: Prepare_eq compiled_nothing_def)
  show "Prepare E (snd (Prepare E c)) = Prepare E c"
    unfolding Prepare_eq [of E "snd (Prepare E c)"] Prepare_reset applyDefaults_idem by (simp add: Prepare_eq [of E c])
qed

text \<open>The credential an entry dials or serves with, made as the serving site makes it: a reloader may
  know it.\<close>

lemma newOptions_append_reloader: "insecure (newOptions (opts @ [WithReloader p cred])) = insecure (newOptions opts)"
  by (simp add: newOptions_def WithReloader_def)

lemma dialer_mode:
  "cr_mode (fst (ListenConfig_Dialer l [WithReloader p cred] w)) = ModeInsecure \<longleftrightarrow> l_Insecure l"
proof -
  have "\<not> insecure (newOptions (credsOptions t))" for t
    by (simp add: newOptions_def credsOptions_def WithCA_def WithCertificate_def split: option.split)
  moreover have "insecure (newOptions (Insecure # [WithReloader p cred]))" by (simp add: newOptions_def Insecure_def WithReloader_def)
  ultimately show ?thesis
    by (simp add: ListenConfig_Dialer_def tls_dialer_def NewDialer_def resolveClient_def newOptions_append_reloader Let_def split: prod.split)
qed

lemma listener_mode:
  "Encrypted (fst (ListenConfig_Listener l [WithReloader p cred] w)) \<longleftrightarrow> \<not> l_Insecure l \<and> l_TLS l \<noteq> None"
proof -
  have "\<not> insecure (newOptions (credsOptions (Some t)))" for t by (simp add: credsOptions_fields)
  moreover have "insecure (newOptions (Insecure # [WithReloader p cred]))" by (simp add: newOptions_def Insecure_def WithReloader_def)
  ultimately show ?thesis
    by (auto simp: Encrypted_def ListenConfig_Listener_def tls_listener_def NewListener_def resolveServer_def newOptions_append_reloader Let_def split: prod.split)
qed

lemma prepared_fields:
  assumes "fst (Prepare E c) = None"
  defines "c' \<equiv> snd (Prepare E c)" and "c0 \<equiv> applyDefaults (Config_reset c)"
  shows "config_ok E c0" "c_ExtensionServers c' = c_ExtensionServers c0" "c_HTTP c' = c_HTTP c0" "c_Encryption c' = c_Encryption c0"
    "u \<in> set (c_Upstreams c') \<Longrightarrow> \<exists>u0\<in>set (c_Upstreams c0). cu_Listen u = cu_Listen u0 \<and> cu_Credentials u = cu_Credentials u0"
proof -
  show "config_ok E c0" using assms(1) by (simp add: Prepare_eq c0_def split: if_splits)
  have r: "Config_reset c' = c0" unfolding c'_def c0_def by (rule Prepare_reset)
  then show "c_ExtensionServers c' = c_ExtensionServers c0" "c_HTTP c' = c_HTTP c0" "c_Encryption c' = c_Encryption c0"
    by (auto simp: Config_reset_def)
  show "\<exists>u0\<in>set (c_Upstreams c0). cu_Listen u = cu_Listen u0 \<and> cu_Credentials u = cu_Credentials u0" if "u \<in> set (c_Upstreams c')"
  proof (rule bexI [of _ "Upstream_reset u"])
    show "Upstream_reset u \<in> set (c_Upstreams c0)" using r that by (auto simp: Config_reset_def)
  qed (simp add: Upstream_reset_def)
qed

text \<open>C27. Secrets travel encrypted. In a configuration that was prepared, an upstream or an extension server with
  credentials is never dialed in plaintext; and when a group of HTTP routes is served beyond
  loopback, every served group authenticates its callers and the listener encrypts.\<close>

theorem Prepare_secure:
  assumes "fst (Prepare E c) = None"
  shows "(\<forall>u\<in>set (c_Upstreams (snd (Prepare E c))). cu_Credentials u \<noteq> None \<longrightarrow>
        cr_mode (fst (ListenConfig_Dialer (cu_Listen u) [WithReloader p cred] w)) \<noteq> ModeInsecure)
    \<and> (\<forall>s\<in>set (c_ExtensionServers (snd (Prepare E c))). es_Credentials s \<noteq> None \<longrightarrow>
        cr_mode (fst (ListenConfig_Dialer (es_Listen s) [WithReloader p cred] w)) \<noteq> ModeInsecure)
    \<and> (let h = c_HTTP (snd (Prepare E c))
       in served_auths h \<noteq> {} \<and> \<not> isLoopback (l_HostPort (http_Listen h)) \<longrightarrow>
          None \<notin> served_auths h \<and> Encrypted (fst (ListenConfig_Listener (http_Listen h) [WithReloader p cred] w)))"
proof (intro conjI ballI impI)
  note pf = prepared_fields [OF assms]
  show "cr_mode (fst (ListenConfig_Dialer (cu_Listen u) [WithReloader p cred] w)) \<noteq> ModeInsecure"
    if "u \<in> set (c_Upstreams (snd (Prepare E c)))" "cu_Credentials u \<noteq> None" for u
    using pf(1) pf(5) [OF that(1)] that(2) by (auto simp: dialer_mode config_ok_def upstreams_ok_def upstream_ok_def list_all_iff)
  show "cr_mode (fst (ListenConfig_Dialer (es_Listen s) [WithReloader p cred] w)) \<noteq> ModeInsecure"
    if "s \<in> set (c_ExtensionServers (snd (Prepare E c)))" "es_Credentials s \<noteq> None" for s
    using pf(1,2) that by (auto simp: dialer_mode config_ok_def extension_ok_def list_all_iff)
  show "let h = c_HTTP (snd (Prepare E c)) in served_auths h \<noteq> {} \<and> \<not> isLoopback (l_HostPort (http_Listen h)) \<longrightarrow>
          None \<notin> served_auths h \<and> Encrypted (fst (ListenConfig_Listener (http_Listen h) [WithReloader p cred] w))"
    using pf(1,3) by (auto simp: listener_mode Let_def config_ok_def http_ok_def listen_ok_def plain_ok_def)
qed

lemma Upstream_reset_fields:
  "cu_Cloud (Upstream_reset u) = cu_Cloud u" "cu_Name (Upstream_reset u) = cu_Name u" "cu_Credentials (Upstream_reset u) = cu_Credentials u"
  "cu_Connection (Upstream_reset u) = cu_Connection u" "cu_Listen (Upstream_reset u) = cu_Listen u"
  by (simp_all add: Upstream_reset_def)

lemma ex_config_result:
  obtains u where "c_Upstreams (snd (Prepare ex_config_env (ex_config b))) = [u]" "Upstream_reset u = ex_cloud_up"
    "c_HTTP (snd (Prepare ex_config_env (ex_config b))) = c_HTTP (ex_config b)"
    "c_APITranslations (snd (Prepare ex_config_env (ex_config b))) = c_APITranslations (ex_config b)"
proof -
  define c' where "c' = snd (Prepare ex_config_env (ex_config b))"
  have r: "Config_reset c' = applyDefaults (Config_reset (ex_config b))" unfolding c'_def by (rule Prepare_reset)
  have e: "Upstream_reset ex_cloud_up = ex_cloud_up" by (simp add: Upstream_reset_def ex_cloud_up_def no_rules_def reset_rules_def)
  have "map Upstream_reset (c_Upstreams c') = [ex_cloud_up]"
    using arg_cong [OF r, of c_Upstreams] e by (simp add: Config_reset_def applyDefaults_def ex_config_def)
  then obtain u where "c_Upstreams c' = [u]" "Upstream_reset u = ex_cloud_up" by auto
  moreover have "c_HTTP c' = c_HTTP (ex_config b)" "c_APITranslations c' = c_APITranslations (ex_config b)"
    using arg_cong [OF r, of c_HTTP] arg_cong [OF r, of c_APITranslations] by (simp_all add: Config_reset_def applyDefaults_def)
  ultimately show ?thesis using that unfolding c'_def by blast
qed

theorem Prepare_secure_witness:
  "cr_mode (fst (ListenConfig_Dialer (cu_Listen ex_cloud_up) [WithReloader True ''frontend''] NewReloader)) \<noteq> ModeInsecure
   \<and> Encrypted (fst (ListenConfig_Listener (http_Listen (c_HTTP (ex_config False))) [WithReloader True ''frontend''] NewReloader))"
proof -
  obtain u where u: "c_Upstreams (snd (Prepare ex_config_env (ex_config False))) = [u]" "Upstream_reset u = ex_cloud_up"
    "c_HTTP (snd (Prepare ex_config_env (ex_config False))) = c_HTTP (ex_config False)" by (rule ex_config_result)
  have c: "cu_Listen u = cu_Listen ex_cloud_up" "cu_Credentials u \<noteq> None"
    using Upstream_reset_fields [of u] unfolding u(2) by (simp_all add: ex_cloud_up_def) (metis option.discI)
  have h: "served_auths (c_HTTP (ex_config False)) \<noteq> {}" "\<not> isLoopback (l_HostPort (http_Listen (c_HTTP (ex_config False))))" by code_simp+
  show ?thesis
    using Prepare_secure [OF ex_config_prepared [of False], of True "''frontend''" NewReloader] u c h by (auto simp: Let_def)
qed

text \<open>C39. The check of the Cloud API block does not see the credentials the block inherits: a configuration is
  accepted although a Cloud upstream's control plane is then given that upstream's API key on an
  insecure hop.\<close>

theorem CloudAPI_inherits_insecure:
  "\<exists>E c u api. fst (Prepare E c) = None \<and> u \<in> set (c_Upstreams (snd (Prepare E c))) \<and> IsCloud (upstream_names u)
     \<and> CloudAPI_Upstream E (at_CloudAPI (c_APITranslations (snd (Prepare E c)))) u = Inr api
     \<and> cu_Credentials api \<noteq> None \<and> l_Insecure (cu_Listen api)"
proof -
  obtain u where u: "c_Upstreams (snd (Prepare ex_config_env (ex_config True))) = [u]" "Upstream_reset u = ex_cloud_up"
    "c_APITranslations (snd (Prepare ex_config_env (ex_config True))) = c_APITranslations (ex_config True)" by (rule ex_config_result)
  have up: "cu_Cloud u" "cu_Name u = cu_Name ex_cloud_up" "cu_Credentials u = cu_Credentials ex_cloud_up" "cu_Connection u = cu_Connection ex_cloud_up"
    using Upstream_reset_fields [of u] unfolding u(2) by (simp_all add: ex_cloud_up_def)
  then have "CloudAPI_upstream c u = CloudAPI_upstream c ex_cloud_up" for c by (simp add: CloudAPI_upstream_def)
  then have render: "CloudAPI_Upstream ex_config_env c u = CloudAPI_Upstream ex_config_env c ex_cloud_up" for c by (simp add: CloudAPI_Upstream_def)
  define api where "api = projr (CloudAPI_Upstream ex_config_env (at_CloudAPI (c_APITranslations (ex_config True))) ex_cloud_up)"
  have "CloudAPI_Upstream ex_config_env (at_CloudAPI (c_APITranslations (ex_config True))) ex_cloud_up = Inr api"
    unfolding api_def by (rule sum.collapse(2) [symmetric]) code_simp
  moreover have "cu_Credentials api \<noteq> None" "l_Insecure (cu_Listen api)" unfolding api_def by code_simp+
  moreover have "IsCloud (upstream_names u)" using up by (simp add: IsCloud_def upstream_names_def)
  ultimately show ?thesis using ex_config_prepared [of True] u render
    by (intro exI [of _ ex_config_env] exI [of _ "ex_config True"] exI [of _ u] exI [of _ api]) simp
qed

text \<open>A fixed metric label may have an empty name: the check on names leaves the empty one to a check that
  is not there.\<close>

theorem empty_fixed_label:
  "MetricLabels_Validate \<lparr>mls_Namespace = ns, mls_Fixed = [([], ''v'')], mls_Metadata = []\<rparr> = None \<and> \<not> promLabelRegex []"
  by (simp add: labels.validate_iff labels_ok_def promLabelRegex_def)

end
