(* ===== verification/Pump.thy ===== *)
theory Pump
  imports Rpc Transition
begin

text \<open>
  \<open>internal/rpc/pump.go\<close>: one goroutine per direction and the goroutine of \<open>Forward\<close>, which waits
  on the two channels. A state holds where each goroutine is, the two one-place channels, what is
  still to come from the caller and from the upstream, and what each has been sent. The step
  relation interleaves the three goroutines in every order; a direction may fail at every call and
  panic at every point.

  The streams are gRPC's: \<open>pump_env\<close> says which errors their calls may return, and \<open>pump_doc\<close>
  that \<open>io.EOF\<close> means the end of the stream on the calls that read or answer, as documented;
  sending to the upstream may also fail with \<open>io.EOF\<close>: \<open>SendMsg\<close> returns it when the upstream has
  ended the stream, whose status \<open>RecvMsg\<close> then reports. \<open>sendBroken\<close> records that a \<open>SendMsg\<close> to the
  upstream has failed.
\<close>

section \<open>State\<close>

datatype 'm req_at = ReqRecv | ReqSend 'm | ReqDone
datatype 'm resp_at = RespHeader | RespSendHeader | RespRecv | RespSend 'm | RespDone

text \<open>\<open>Forward\<close> waits with a number of rounds left, or has returned.\<close>

datatype fwd_at = Waiting nat | Returned "goerror option"

record 'm pump =
  p_req :: "'m req_at"
  p_resp :: "'m resp_at"
  p_main :: fwd_at
  reqErr :: "goerror option"
  respErr :: "goerror option"
  toCome :: "'m list"
  responses :: "'m list"
  upSent :: "'m list"
  downSent :: "'m list"
  closedSend :: bool
  sendBroken :: bool
  headerSent :: bool
  trailerSet :: bool

record pump_env =
  pe_status :: status_api
  server_err :: "goerror \<Rightarrow> bool"
  client_err :: "goerror \<Rightarrow> bool"
  send_err :: "goerror \<Rightarrow> bool"

definition pump_doc :: "pump_env \<Rightarrow> bool" where
  "pump_doc env \<longleftrightarrow> (\<forall>e. server_err env e \<or> client_err env e \<longrightarrow> \<not> errors_Is e EOF)"

text \<open>The state in which \<open>Forward\<close> has started both directions.\<close>

definition pump_start :: "'m list \<Rightarrow> 'm list \<Rightarrow> 'm pump" where
  "pump_start reqs resps =
     \<lparr>p_req = ReqRecv, p_resp = RespHeader, p_main = Waiting 2, reqErr = None, respErr = None, toCome = reqs, responses = resps,
      upSent = [], downSent = [], closedSend = False, sendBroken = False, headerSent = False, trailerSet = False\<rparr>"

section \<open>Steps\<close>

text \<open>The goroutine of \<open>requests\<close>: \<open>ss.RecvMsg\<close>, then \<open>cs.SendMsg\<close>.\<close>

inductive req_step :: "pump_env \<Rightarrow> 'm pump \<Rightarrow> 'm pump \<Rightarrow> bool" for env where
  recv: "p_req s = ReqRecv \<Longrightarrow> toCome s = m # ms \<Longrightarrow> req_step env s (s\<lparr>p_req := ReqSend m, toCome := ms\<rparr>)"
| half_close: "p_req s = ReqRecv \<Longrightarrow> toCome s = [] \<Longrightarrow> req_step env s (s\<lparr>p_req := ReqDone, reqErr := Some EOF\<rparr>)"
| recv_fails: "p_req s = ReqRecv \<Longrightarrow> server_err env e \<Longrightarrow> req_step env s (s\<lparr>p_req := ReqDone, reqErr := Some e\<rparr>)"
| send: "p_req s = ReqSend m \<Longrightarrow> req_step env s (s\<lparr>p_req := ReqRecv, upSent := upSent s @ [m]\<rparr>)"
| send_fails: "p_req s = ReqSend m \<Longrightarrow> send_err env e \<Longrightarrow> req_step env s (s\<lparr>p_req := ReqDone, reqErr := Some e, sendBroken := True\<rparr>)"
| panic: "p_req s \<noteq> ReqDone \<Longrightarrow> req_step env s (s\<lparr>p_req := ReqDone, reqErr := Some (PanicError v)\<rparr>)"

text \<open>The goroutine of \<open>responses\<close>: \<open>cs.Header\<close>, \<open>ss.SendHeader\<close>, then \<open>cs.RecvMsg\<close> and
  \<open>ss.SendMsg\<close>.\<close>

inductive resp_step :: "pump_env \<Rightarrow> 'm pump \<Rightarrow> 'm pump \<Rightarrow> bool" for env where
  header: "p_resp s = RespHeader \<Longrightarrow> resp_step env s (s\<lparr>p_resp := RespSendHeader\<rparr>)"
| header_fails: "p_resp s = RespHeader \<Longrightarrow> client_err env e \<Longrightarrow> resp_step env s (s\<lparr>p_resp := RespDone, respErr := Some e\<rparr>)"
| send_header: "p_resp s = RespSendHeader \<Longrightarrow> resp_step env s (s\<lparr>p_resp := RespRecv, headerSent := True\<rparr>)"
| send_header_fails: "p_resp s = RespSendHeader \<Longrightarrow> server_err env e \<Longrightarrow> resp_step env s (s\<lparr>p_resp := RespDone, respErr := Some e\<rparr>)"
| recv: "p_resp s = RespRecv \<Longrightarrow> responses s = m # ms \<Longrightarrow> resp_step env s (s\<lparr>p_resp := RespSend m, responses := ms\<rparr>)"
| completed: "p_resp s = RespRecv \<Longrightarrow> responses s = [] \<Longrightarrow> resp_step env s (s\<lparr>p_resp := RespDone, respErr := Some EOF\<rparr>)"
| recv_fails: "p_resp s = RespRecv \<Longrightarrow> client_err env e \<Longrightarrow> resp_step env s (s\<lparr>p_resp := RespDone, respErr := Some e\<rparr>)"
| send: "p_resp s = RespSend m \<Longrightarrow> resp_step env s (s\<lparr>p_resp := RespRecv, downSent := downSent s @ [m]\<rparr>)"
| send_fails: "p_resp s = RespSend m \<Longrightarrow> server_err env e \<Longrightarrow> resp_step env s (s\<lparr>p_resp := RespDone, respErr := Some e\<rparr>)"
| panic: "p_resp s \<noteq> RespDone \<Longrightarrow> resp_step env s (s\<lparr>p_resp := RespDone, respErr := Some (PanicError v)\<rparr>)"

definition defensive :: goerror where
  "defensive = StatusError Internal ''forwarding ended without completion''"

text \<open>\<open>Forward\<close>: the select takes whichever channel has a value.\<close>

inductive main_step :: "pump_env \<Rightarrow> 'm pump \<Rightarrow> 'm pump \<Rightarrow> bool" for env where
  close_send: "p_main s = Waiting (Suc n) \<Longrightarrow> reqErr s = Some e \<Longrightarrow> errors_Is e EOF
    \<Longrightarrow> main_step env s (s\<lparr>p_main := Waiting n, reqErr := None, closedSend := True\<rparr>)"
| req_failed: "p_main s = Waiting (Suc n) \<Longrightarrow> reqErr s = Some e \<Longrightarrow> \<not> errors_Is e EOF
    \<Longrightarrow> main_step env s (s\<lparr>p_main := Returned (Some (toStatusError (pe_status env) ''forwarding the request stream failed'' e)), reqErr := None\<rparr>)"
| resp_ended: "p_main s = Waiting (Suc n) \<Longrightarrow> respErr s = Some e \<Longrightarrow> errors_Is e EOF
    \<Longrightarrow> main_step env s (s\<lparr>p_main := Returned None, respErr := None, trailerSet := True\<rparr>)"
| resp_failed: "p_main s = Waiting (Suc n) \<Longrightarrow> respErr s = Some e \<Longrightarrow> \<not> errors_Is e EOF
    \<Longrightarrow> main_step env s (s\<lparr>p_main := Returned (Some (toStatusError (pe_status env) ''forwarding response stream failed'' e)),
          respErr := None, trailerSet := True\<rparr>)"
| exhausted: "p_main s = Waiting 0 \<Longrightarrow> main_step env s (s\<lparr>p_main := Returned (Some defensive)\<rparr>)"

definition pump_step :: "pump_env \<Rightarrow> 'm pump \<Rightarrow> 'm pump \<Rightarrow> bool" where
  "pump_step env s s' \<longleftrightarrow> req_step env s s' \<or> resp_step env s s' \<or> main_step env s s'"

inductive_cases req_stepE: "req_step env s s'"
inductive_cases resp_stepE: "resp_step env s s'"
inductive_cases main_stepE: "main_step env s s'"

section \<open>Invariant\<close>

definition req_flight :: "'m pump \<Rightarrow> 'm list" where
  "req_flight s = (case p_req s of ReqSend m \<Rightarrow> [m] | _ \<Rightarrow> [])"

definition resp_flight :: "'m pump \<Rightarrow> 'm list" where
  "resp_flight s = (case p_resp s of RespSend m \<Rightarrow> [m] | _ \<Rightarrow> [])"

text \<open>Requests: what was sent is a prefix, nothing is lost while the direction runs, and an \<open>io.EOF\<close>
  on the channel means the end or a send that failed, which left a request undelivered.\<close>

definition req_inv :: "'m list \<Rightarrow> 'm pump \<Rightarrow> bool" where
  "req_inv reqs s \<longleftrightarrow>
     prefix (upSent s) reqs
     \<and> (p_req s \<noteq> ReqDone \<longrightarrow> upSent s @ req_flight s @ toCome s = reqs \<and> reqErr s = None \<and> \<not> sendBroken s)
     \<and> (\<forall>e. reqErr s = Some e \<longrightarrow> errors_Is e EOF \<longrightarrow> upSent s = reqs \<or> sendBroken s)
     \<and> (closedSend s \<longrightarrow> p_req s = ReqDone \<and> reqErr s = None \<and> (upSent s = reqs \<or> sendBroken s))
     \<and> (sendBroken s \<longrightarrow> strict_prefix (upSent s) reqs)"

definition resp_inv :: "'m list \<Rightarrow> 'm pump \<Rightarrow> bool" where
  "resp_inv resps s \<longleftrightarrow>
     prefix (downSent s) resps \<and> (p_resp s \<noteq> RespDone \<longrightarrow> downSent s @ resp_flight s @ responses s = resps \<and> respErr s = None)
     \<and> (case p_resp s of
            RespHeader \<Rightarrow> downSent s = []
          | RespSendHeader \<Rightarrow> downSent s = []
          | RespDone \<Rightarrow> downSent s = [] \<or> headerSent s
          | _ \<Rightarrow> headerSent s)
     \<and> (\<forall>e. respErr s = Some e \<longrightarrow> errors_Is e EOF \<longrightarrow> downSent s = resps \<and> headerSent s)"

definition main_inv :: "pump_env \<Rightarrow> 'm list \<Rightarrow> 'm pump \<Rightarrow> bool" where
  "main_inv env resps s \<longleftrightarrow>
     (case p_main s of
        Waiting n \<Rightarrow> n = (if closedSend s then 1 else 2) \<and> \<not> trailerSet s
          \<and> (p_req s = ReqDone \<longrightarrow> closedSend s \<or> reqErr s \<noteq> None) \<and> (p_resp s = RespDone \<longrightarrow> respErr s \<noteq> None)
      | Returned None \<Rightarrow> downSent s = resps \<and> headerSent s \<and> trailerSet s \<and> p_resp s = RespDone
      | Returned (Some err) \<Rightarrow> \<exists>what e. err = toStatusError (pe_status env) what e \<and> \<not> errors_Is e EOF)"

definition pump_inv :: "pump_env \<Rightarrow> 'm list \<Rightarrow> 'm list \<Rightarrow> 'm pump \<Rightarrow> bool" where
  "pump_inv env reqs resps s \<longleftrightarrow> req_inv reqs s \<and> resp_inv resps s \<and> main_inv env resps s"

lemma EOF_neq: "PanicError v \<noteq> EOF" "errors_Is (PanicError v) EOF = False"
  by (simp_all add: EOF_def)

text \<open>A direction keeps its own invariant and does not touch the other's.\<close>

lemma req_step_req: "req_step env s s' \<Longrightarrow> pump_doc env \<Longrightarrow> req_inv reqs s \<Longrightarrow> req_inv reqs s'"
  by (erule req_stepE; cases "closedSend s")
    (auto simp: req_inv_def req_flight_def pump_doc_def EOF_neq strict_prefix_def)

lemma req_step_resp: "req_step env s s' \<Longrightarrow> resp_inv resps s' = resp_inv resps s"
  by (erule req_stepE) (simp_all add: resp_inv_def resp_flight_def cong: resp_at.case_cong)

lemma req_step_main: "req_step env s s' \<Longrightarrow> main_inv env resps s \<Longrightarrow> main_inv env resps s'"
  by (erule req_stepE) (simp_all add: main_inv_def split: fwd_at.splits option.splits)

lemma resp_step_resp: "resp_step env s s' \<Longrightarrow> pump_doc env \<Longrightarrow> resp_inv resps s \<Longrightarrow> resp_inv resps s'"
  by (erule resp_stepE; cases "p_resp s") (auto simp: resp_inv_def resp_flight_def pump_doc_def EOF_neq)

lemma resp_step_req: "resp_step env s s' \<Longrightarrow> req_inv reqs s' = req_inv reqs s"
  by (erule resp_stepE) (simp_all add: req_inv_def req_flight_def)

lemma resp_step_main: "resp_step env s s' \<Longrightarrow> main_inv env resps s \<Longrightarrow> main_inv env resps s'"
  by (erule resp_stepE) (auto simp: main_inv_def split: fwd_at.splits option.splits)

lemma main_step_inv: "main_step env s s' \<Longrightarrow> pump_inv env reqs resps s \<Longrightarrow> pump_inv env reqs resps s'"
  unfolding pump_inv_def
proof (erule main_stepE, goal_cases)
  case (1 n e)
  then show ?case by (auto simp: req_inv_def resp_inv_def main_inv_def req_flight_def resp_flight_def split: if_splits cong: resp_at.case_cong)
next
  case (2 n e)
  then show ?case by (auto simp: req_inv_def resp_inv_def main_inv_def req_flight_def resp_flight_def cong: resp_at.case_cong)
next
  case (3 n e)
  then have "p_resp s = RespDone" by (auto simp: resp_inv_def)
  with 3 show ?case by (auto simp: req_inv_def resp_inv_def main_inv_def req_flight_def resp_flight_def cong: resp_at.case_cong)
next
  case (4 n e)
  then show ?case by (auto simp: req_inv_def resp_inv_def main_inv_def req_flight_def resp_flight_def cong: resp_at.case_cong)
next
  case 5
  then show ?case by (auto simp: main_inv_def split: if_splits)
qed

lemma pump_step_inv:
  "pump_step env s s' \<Longrightarrow> pump_doc env \<Longrightarrow> pump_inv env reqs resps s \<Longrightarrow> pump_inv env reqs resps s'"
  unfolding pump_step_def
  using req_step_req [of env s s' reqs] req_step_resp [of env s s' resps] req_step_main [of env s s' resps]
    resp_step_resp [of env s s' resps] resp_step_req [of env s s' reqs] resp_step_main [of env s s' resps] main_step_inv [of env s s' reqs resps]
  by (auto simp: pump_inv_def)

interpretation pump: reachable_invariant "pump_step env" "\<lambda>s. pump_doc env \<longrightarrow> pump_inv env reqs resps s"
  "\<lambda>s. s = pump_start reqs resps" for env reqs resps
proof unfold_locales
  fix s s' :: "'a pump"
  show "pump_doc env \<longrightarrow> pump_inv env reqs resps s'" if "pump_doc env \<longrightarrow> pump_inv env reqs resps s" "pump_step env s s'"
    using that pump_step_inv by blast
  show "pump_doc env \<longrightarrow> pump_inv env reqs resps s" if "s = pump_start reqs resps"
    using that by (simp add: pump_start_def pump_inv_def req_inv_def resp_inv_def main_inv_def req_flight_def resp_flight_def)
qed

section \<open>Forwarding ends\<close>

text \<open>Every step uses up something: a message, a place in a goroutine, a value of a channel.\<close>

definition pump_measure :: "'m pump \<Rightarrow> nat" where
  "pump_measure s =
     (case p_req s of ReqRecv \<Rightarrow> 2 * length (toCome s) + 2 | ReqSend _ \<Rightarrow> 2 * length (toCome s) + 3 | ReqDone \<Rightarrow> 0)
     + (case p_resp s of RespHeader \<Rightarrow> 2 * length (responses s) + 4 | RespSendHeader \<Rightarrow> 2 * length (responses s) + 3
          | RespRecv \<Rightarrow> 2 * length (responses s) + 2 | RespSend _ \<Rightarrow> 2 * length (responses s) + 3 | RespDone \<Rightarrow> 0)
     + (if reqErr s = None then 0 else 1) + (if respErr s = None then 0 else 1)
     + (case p_main s of Waiting n \<Rightarrow> n + 1 | Returned _ \<Rightarrow> 0)"

lemma pump_step_measure:
  assumes "pump_step env s s'"
  shows "pump_measure s' < pump_measure s"
  using assms unfolding pump_step_def
proof (elim disjE)
  show "req_step env s s' \<Longrightarrow> ?thesis"
    by (erule req_stepE; cases "p_req s") (auto simp: pump_measure_def cong: resp_at.case_cong)
  show "resp_step env s s' \<Longrightarrow> ?thesis"
    by (erule resp_stepE; cases "p_resp s") (auto simp: pump_measure_def cong: req_at.case_cong)
  show "main_step env s s' \<Longrightarrow> ?thesis"
    by (erule main_stepE) (auto simp: pump_measure_def cong: req_at.case_cong resp_at.case_cong)
qed

lemma pump_progress:
  assumes "pump_inv env reqs resps s" "p_main s = Waiting n"
  shows "\<exists>s'. pump_step env s s'"
proof (cases "p_resp s = RespDone")
  case True
  with assms obtain e where "respErr s = Some e" "n = 1 \<or> n = 2" by (auto simp: pump_inv_def main_inv_def split: if_splits)
  moreover from this(2) obtain k where "n = Suc k" by auto
  ultimately show ?thesis using assms(2) by (metis main_step.resp_ended main_step.resp_failed pump_step_def)
next
  case False
  then show ?thesis by (metis resp_step.panic pump_step_def)
qed

section \<open>Properties\<close>

text \<open>
  C14. Forwarding keeps the order and loses nothing silently. At every moment of every
  interleaving, failures and panics included, what the upstream has been sent is a prefix of the
  caller's messages, what the caller has been sent is a prefix of the upstream's, and no response
  goes out before the header. When \<open>Forward\<close> returns no error, the caller has all the responses,
  the header and the trailer. When \<open>Forward\<close> has closed the upstream's send side, the upstream has all
  the requests, or a \<open>SendMsg\<close> to it has failed and a request is left over. So a call that ends without an error
  leaves requests undelivered only when the upstream completed before the caller had half-closed, or had
  broken off the request stream.
\<close>

theorem Forward_delivers:
  assumes "pump_doc env" "(pump_step env)\<^sup>*\<^sup>* (pump_start reqs resps) s"
  shows "prefix (upSent s) reqs \<and> prefix (downSent s) resps \<and> (downSent s \<noteq> [] \<longrightarrow> headerSent s)
    \<and> (p_main s = Returned None \<longrightarrow> downSent s = resps \<and> headerSent s \<and> trailerSet s)
    \<and> (closedSend s \<longrightarrow> upSent s = reqs \<or> sendBroken s) \<and> (sendBroken s \<longrightarrow> strict_prefix (upSent s) reqs)"
proof -
  have "pump_inv env reqs resps s"
    using assms pump.reachable_I [of reqs resps env s] by (auto simp: runs_from_def)
  then show ?thesis
    by (auto simp: pump_inv_def req_inv_def resp_inv_def main_inv_def split: resp_at.splits)
qed

definition ex_pump_env :: pump_env where
  "ex_pump_env = \<lparr>pe_status = ex_status, server_err = (\<lambda>e. e = StatusError Unavailable ''gone''),
     client_err = (\<lambda>e. e = StatusError NotFound ''no''), send_err = (\<lambda>e. e = EOF)\<rparr>"

lemma ex_pump_doc: "pump_doc ex_pump_env"
  by (simp add: pump_doc_def ex_pump_env_def EOF_def)

lemma step_then:
  "req_step env s t \<Longrightarrow> (pump_step env)\<^sup>*\<^sup>* t u \<Longrightarrow> (pump_step env)\<^sup>*\<^sup>* s u"
  "resp_step env s t \<Longrightarrow> (pump_step env)\<^sup>*\<^sup>* t u \<Longrightarrow> (pump_step env)\<^sup>*\<^sup>* s u"
  "main_step env s t \<Longrightarrow> (pump_step env)\<^sup>*\<^sup>* t u \<Longrightarrow> (pump_step env)\<^sup>*\<^sup>* s u"
  by (auto simp: pump_step_def intro: converse_rtranclp_into_rtranclp)

text \<open>A run with one request and one response, in which the caller half-closes before the answer.\<close>

lemma ex_pump_run:
  "\<exists>s. (pump_step ex_pump_env)\<^sup>*\<^sup>* (pump_start [''q''] [''r'']) s \<and> p_main s = Returned None \<and> closedSend s \<and> \<not> sendBroken s"
  apply (intro exI conjI)
    apply (rule step_then(1) [OF req_step.recv [where m = "''q''" and ms = "[]"]], simp add: pump_start_def, simp add: pump_start_def)
    apply (rule step_then(1) [OF req_step.send [where m = "''q''"]], simp)
    apply (rule step_then(1) [OF req_step.half_close], simp, simp)
    apply (rule step_then(3) [OF main_step.close_send [where n = 1 and e = EOF]], simp add: pump_start_def, simp, simp)
    apply (rule step_then(2) [OF resp_step.header], simp add: pump_start_def)
    apply (rule step_then(2) [OF resp_step.send_header], simp)
    apply (rule step_then(2) [OF resp_step.recv [where m = "''r''" and ms = "[]"]], simp, simp add: pump_start_def)
    apply (rule step_then(2) [OF resp_step.send [where m = "''r''"]], simp)
    apply (rule step_then(2) [OF resp_step.completed], simp, simp)
    apply (rule step_then(3) [OF main_step.resp_ended [where n = 0 and e = EOF]], simp, simp, simp)
    apply (rule rtranclp.rtrancl_refl)
   apply (simp_all add: pump_start_def)
  done

theorem Forward_delivers_witness:
  "\<exists>s. (pump_step ex_pump_env)\<^sup>*\<^sup>* (pump_start [''q''] [''r'']) s \<and> p_main s = Returned None
     \<and> upSent s = [''q''] \<and> downSent s = [''r''] \<and> headerSent s \<and> trailerSet s"
  using ex_pump_run Forward_delivers [OF ex_pump_doc, of "[''q'']" "[''r'']"] by blast

text \<open>
  C19. Forwarding ends. Every run of the pump is finite, whatever the interleaving; a run can only
  stop once \<open>Forward\<close> has returned; the branch after the loop, which the code calls defensive, is
  never reached; and an error that \<open>Forward\<close> returns carries a gRPC status.
\<close>

theorem Forward_returns:
  assumes "pump_doc env" "status_doc (pe_status env)" "(pump_step env)\<^sup>*\<^sup>* (pump_start reqs resps) s"
  shows "wfP (\<lambda>t' t. pump_step env t t') \<and> ((\<nexists>s'. pump_step env s s') \<longrightarrow> (\<exists>res. p_main s = Returned res))
    \<and> p_main s \<noteq> Waiting 0 \<and> (\<forall>err. p_main s = Returned (Some err) \<longrightarrow> FromError (pe_status env) err)"
proof (intro conjI impI allI)
  have inv: "pump_inv env reqs resps s"
    using assms(1,3) pump.reachable_I [of reqs resps env s] by (auto simp: runs_from_def)
  show "wfP (\<lambda>t' t. pump_step env t t')"
    by (rule wfp_if_convertible_to_nat [of _ pump_measure]) (rule pump_step_measure)
  show "\<exists>res. p_main s = Returned res" if "\<nexists>s'. pump_step env s s'"
    using pump_progress [OF inv] that by (cases "p_main s") auto
  show "p_main s \<noteq> Waiting 0" using inv by (auto simp: pump_inv_def main_inv_def split: if_splits)
  show "FromError (pe_status env) err" if "p_main s = Returned (Some err)" for err
    using inv that toStatusError_status [OF assms(2)] by (auto simp: pump_inv_def main_inv_def)
qed

theorem Forward_returns_witness: "wfP (\<lambda>t' t :: string pump. pump_step ex_pump_env t t') \<and> p_main (pump_start [''q''] [''r'']) \<noteq> Waiting 0"
proof -
  have "status_doc (pe_status ex_pump_env)" by (simp add: ex_pump_env_def ex_status_doc)
  from Forward_returns [OF ex_pump_doc this, of "[''q'']" "[''r'']" "pump_start [''q''] [''r'']"] show ?thesis by blast
qed

end
