(* ===== verification/Forward.thy ===== *)
theory Forward
  imports Rpc Pump
begin

text \<open>
  \<open>internal/proxy/forward.go\<close>: a stream is forwarded by a method found in the registries, with the
  caller's metadata as outgoing metadata; a unary call relays one message each way, a streaming
  call is left to the pump of the theory \<open>Pump\<close>. The registries, the upstream's \<open>Invoke\<close> and the
  calls on the caller's stream are parameters.
\<close>

section \<open>The code\<close>

definition transportHeaders :: "string list" where
  "transportHeaders = [''user-agent'', '':authority'', ''content-type'']"

record method_desc =
  md_Input :: string
  md_Output :: string
  IsStreamingClient :: bool
  IsStreamingServer :: bool

record methodInfo =
  mi_desc :: method_desc
  mi_in :: string
  mi_out :: string

text \<open>The registry of services, the methods of a service, and the registry of types.\<close>

record fwd_env =
  fe_registry :: "string \<Rightarrow> descriptor result"
  fe_Methods :: "string \<Rightarrow> string \<Rightarrow> method_desc option"
  FindMessageByName :: "string \<Rightarrow> string result"

definition resolveMethod :: "fwd_env \<Rightarrow> string \<Rightarrow> methodInfo option" where
  "resolveMethod env fullMethod =
     (let (service, meth, ok) = ServiceMethod fullMethod
      in if \<not> ok then None
         else case Resolve_service (fe_registry env) service of
                Inl _ \<Rightarrow> None
              | Inr sd \<Rightarrow>
                  (case fe_Methods env sd meth of
                     None \<Rightarrow> None
                   | Some md \<Rightarrow>
                       (case FindMessageByName env (md_Input md) of
                          Inl _ \<Rightarrow> None
                        | Inr i \<Rightarrow>
                            (case FindMessageByName env (md_Output md) of
                               Inl _ \<Rightarrow> None
                             | Inr out \<Rightarrow> Some \<lparr>mi_desc = md, mi_in = i, mi_out = out\<rparr>))))"

definition lookup :: "fwd_env \<Rightarrow> string \<Rightarrow> methodInfo gomap \<Rightarrow> methodInfo option \<times> methodInfo gomap" where
  "lookup env fullMethod methods =
     (case map_of methods fullMethod of
        Some v \<Rightarrow> (Some v, methods)
      | None \<Rightarrow>
          (case resolveMethod env fullMethod of
             None \<Rightarrow> (None, methods)
           | Some mi \<Rightarrow> (Some mi, AList.update fullMethod mi methods)))"

definition forwardContext :: "'g grpc_api \<Rightarrow> 'g goctx \<Rightarrow> 'g goctx" where
  "forwardContext api ctx =
     (case FromIncomingContext api (grpc_part ctx) of
        None \<Rightarrow> ctx
      | Some md \<Rightarrow>
          (let inc = fold (\<lambda>key md. MD_Delete api md key) transportHeaders md
           in if inc = [] then ctx
              else WithOutgoing api ctx (\<lambda>out.
                     fold (\<lambda>(k, v) out. if MD_Get api out k = [] then MD_Set api out k v else out) inc out)))"

text \<open>What \<open>Handle\<close> does with a stream: an error, or one of the two ways to forward.\<close>

datatype 'g handling = Rejected goerror | Unary "'g goctx" string methodInfo | Streaming "'g goctx" string methodInfo

definition Forwarder_Handle :: "fwd_env \<Rightarrow> 'g grpc_api \<Rightarrow> 'g goctx \<Rightarrow> methodInfo gomap \<Rightarrow> 'g handling \<times> methodInfo gomap" where
  "Forwarder_Handle env api ctx methods =
     (case FullMethod api ctx of
        Inl err \<Rightarrow> (Rejected err, methods)
      | Inr meth \<Rightarrow>
          (case lookup env meth methods of
             (None, methods) \<Rightarrow> (Rejected (StatusError Unimplemented (''unknown method '' @ meth)), methods)
           | (Some info, methods) \<Rightarrow>
               (let ctx = forwardContext api ctx
                in (if IsStreamingClient (mi_desc info) \<or> IsStreamingServer (mi_desc info)
                    then Streaming ctx meth info else Unary ctx meth info, methods))))"

text \<open>One unary call: the calls on the caller's stream, and the upstream's answer, which comes with
  its header and trailer whether it failed or not.\<close>

record 'm unary_io =
  io_RecvMsg :: "'m result"
  io_Invoke :: "'m \<Rightarrow> goerror option \<times> 'm \<times> MD \<times> MD"
  io_SetHeader :: "MD \<Rightarrow> goerror option"
  io_SendMsg :: "'m \<Rightarrow> goerror option"

text \<open>What the caller got.\<close>

record 'm relayed =
  re_trailer :: "MD option"
  re_header :: "MD option"
  re_msg :: "'m option"

definition forward_unary :: "status_api \<Rightarrow> 'm unary_io \<Rightarrow> goerror option \<times> 'm relayed" where
  "forward_unary st io =
     (let none = \<lparr>re_trailer = None, re_header = None, re_msg = None\<rparr>
      in case io_RecvMsg io of
           Inl err \<Rightarrow> (Some (toStatusError st ''proxy: reading the request failed'' err), none)
         | Inr req \<Rightarrow>
             (let (callErr, resp, header, trailer) = io_Invoke io req;
                  got = none\<lparr>re_trailer := (if trailer \<noteq> [] then Some trailer else None)\<rparr>
              in case callErr of
                   Some err \<Rightarrow> (Some err, got)
                 | None \<Rightarrow>
                     (case (if header \<noteq> [] then io_SetHeader io header else None) of
                        Some err \<Rightarrow> (Some (toStatusError st ''proxy: relaying the response header failed'' err), got)
                      | None \<Rightarrow>
                          (let got = got\<lparr>re_header := (if header \<noteq> [] then Some header else None)\<rparr>
                           in case io_SendMsg io resp of
                                Some err \<Rightarrow> (Some (toStatusError st ''proxy: sending the response failed'' err), got)
                              | None \<Rightarrow> (None, got\<lparr>re_msg := Some resp\<rparr>)))))"

section \<open>Lemmas\<close>

subsection \<open>The cache\<close>

definition methods_ok :: "fwd_env \<Rightarrow> methodInfo gomap \<Rightarrow> bool" where
  "methods_ok env methods \<longleftrightarrow> (\<forall>fm mi. map_of methods fm = Some mi \<longrightarrow> resolveMethod env fm = Some mi)"

lemma lookup_ok:
  "methods_ok env methods \<Longrightarrow> fst (lookup env fm methods) = resolveMethod env fm \<and> methods_ok env (snd (lookup env fm methods))"
  by (auto simp: lookup_def methods_ok_def split: option.splits)

subsection \<open>Metadata\<close>

text \<open>Adding what is not there yet.\<close>

lemma merge_get:
  assumes "metadata_doc api" "lower_keys inc" "distinct (map fst inc)" "lower_keys out"
  shows "lower_keys (fold (\<lambda>(k, v) out. if MD_Get api out k = [] then MD_Set api out k v else out) inc out)
    \<and> MD_Get api (fold (\<lambda>(k, v) out. if MD_Get api out k = [] then MD_Set api out k v else out) inc out) key
        = (if MD_Get api out key \<noteq> [] then MD_Get api out key else MD_Get api inc key)"
  using assms(2-)
proof (induction inc arbitrary: out)
  case Nil
  then show ?case using assms(1) by (simp add: metadata_docD(7) lookup_all_def)
next
  case (Cons e inc)
  obtain k v where e: "e = (k, v)" by (cases e)
  let ?out = "if MD_Get api out k = [] then MD_Set api out k v else out"
  have inc: "lower_keys inc" "distinct (map fst inc)" "ToLower k = k" "map_of inc k = None"
    using Cons.prems(1,2) e by (auto simp: lower_keys_def map_of_eq_None_iff)
  have low: "lower_keys ?out" using Cons.prems(3) metadata_docD(3) [OF assms(1)] by simp
  have get: "MD_Get api inc key = (if ToLower key = k then [] else MD_Get api (e # inc) key)" "MD_Get api (e # inc) k = v"
    using e inc(3,4) metadata_docD(7) [OF assms(1)] Cons.prems(1) inc(1)
    by (auto simp: lookup_all_def split: option.splits)
  have "MD_Get api ?out key = (if ToLower key = k \<and> MD_Get api out k = [] then v else MD_Get api out key)"
  proof (cases "v = []")
    case True
    then show ?thesis using metadata_docD(7,10) [OF assms(1)] Cons.prems(3) inc(3) by auto
  next
    case False
    then show ?thesis using metadata_docD(4) [OF assms(1), of v out k key] inc(3) by auto
  qed
  moreover have "MD_Get api (e # inc) key = MD_Get api (e # inc) k" "MD_Get api out key = MD_Get api out k" if "ToLower key = k"
    using that metadata_docD(7) [OF assms(1)] Cons.prems(1,3) inc(3) by simp_all
  ultimately show ?case using Cons.IH [OF inc(1,2) low] e get by auto
qed

lemma transportHeaders_lower: "ToLower ` set transportHeaders = set transportHeaders"
  by code_simp

lemma forwardContext_get:
  assumes "metadata_doc api"
  shows "MD_Get api (outgoing api (forwardContext api ctx)) k =
    (if MD_Get api (outgoing api ctx) k \<noteq> [] then MD_Get api (outgoing api ctx) k
     else if ToLower k \<in> set transportHeaders then [] else MD_Get api (incoming api ctx) k)"
proof (cases "FromIncomingContext api (grpc_part ctx)")
  case None
  then show ?thesis using assms by (simp add: forwardContext_def incoming_def metadata_docD(7) lower_keys_def lookup_all_def)
next
  case (Some md)
  let ?inc = "fold (\<lambda>key md. MD_Delete api md key) transportHeaders md"
  have md: "incoming api ctx = md" "lower_keys md" "distinct (map fst md)"
    using Some metadata_docD(8) [OF assms Some] by (simp_all add: incoming_def)
  have inc: "lower_keys ?inc" "distinct (map fst ?inc)" using strip_wf [OF assms md(2,3)] by auto
  have get: "MD_Get api ?inc k = (if ToLower k \<in> set transportHeaders then [] else MD_Get api md k)" for k
    using strip_get [OF assms md(2), of transportHeaders] by (simp add: transportHeaders_lower)
  show ?thesis
  proof (cases "?inc = []")
    case True
    then have "MD_Get api ?inc k = []" using metadata_docD(7) [OF assms, of "[]" k] by (simp add: lower_keys_def lookup_all_def)
    with True get [of k] Some md show ?thesis by (auto simp: forwardContext_def Let_def)
  next
    case False
    let ?m = "fold (\<lambda>(k, v) out. if MD_Get api out k = [] then MD_Set api out k v else out) ?inc (outgoing api ctx)"
    have merged: "lower_keys ?m" "MD_Get api ?m k = (if MD_Get api (outgoing api ctx) k \<noteq> [] then MD_Get api (outgoing api ctx) k else MD_Get api ?inc k)"
      using merge_get [OF assms inc outgoing_lower [OF assms]] by blast+
    have "outgoing api (forwardContext api ctx) = ?m"
      using False Some metadata_docD(1) [OF assms merged(1)]
      by (simp add: forwardContext_def WithOutgoing_def outgoing_def Let_def)
    then show ?thesis using merged(2) get md(1) by simp
  qed
qed

section \<open>Properties\<close>

text \<open>
  What the upstream sees of the caller's headers. Forwarding adds the caller's headers to the
  outgoing metadata, except those that describe the inbound connection, and never displaces a value
  that is already there. In particular the namespace the router stamped is the one the upstream's
  interceptors and templates read, whatever header of that name the caller sent.
\<close>

theorem forwardContext_headers:
  assumes "metadata_doc api"
  shows "MD_Get api (outgoing api (forwardContext api ctx)) k =
      (if MD_Get api (outgoing api ctx) k \<noteq> [] then MD_Get api (outgoing api ctx) k
       else if ToLower k \<in> set transportHeaders then [] else MD_Get api (incoming api ctx) k)
    \<and> NamespaceFrom api (forwardContext api (WithNamespace api ctx ns)) = ns"
proof
  let ?c = "WithNamespace api ctx ns"
  have ns: "MD_Get api (outgoing api ?c) NamespaceHeader = [ns]" using assms by (simp add: WithNamespace_def withHeader_get)
  then have "MD_Get api (outgoing api (forwardContext api ?c)) NamespaceHeader = [ns]" using forwardContext_get [OF assms, of ?c NamespaceHeader] by simp
  moreover from this have "FromOutgoingContext api (grpc_part (forwardContext api ?c)) \<noteq> None"
    using metadata_docD(7) [OF assms, of "[]" NamespaceHeader] by (auto simp: outgoing_def lower_keys_def lookup_all_def split: option.splits)
  ultimately show "NamespaceFrom api (forwardContext api ?c) = ns" by (auto simp: NamespaceFrom_def outgoing_def)
qed (rule forwardContext_get [OF assms])

theorem forwardContext_headers_witness:
  "MD_Get ex_api (outgoing ex_api (forwardContext ex_api (ex_ctx\<lparr>grpc_part := \<lparr>g_in = Some [(''User-Agent'', [''x'']), (''Tenant'', [''t''])], g_out = None, g_method = None\<rparr>\<rparr>))) ''tenant'' = [''t'']
   \<and> NamespaceFrom ex_api (forwardContext ex_api (WithNamespace ex_api ex_ctx ''payments'')) = ''payments''"
proof
  let ?c = "ex_ctx\<lparr>grpc_part := \<lparr>g_in = Some [(''User-Agent'', [''x'']), (''Tenant'', [''t''])], g_out = None, g_method = None\<rparr>\<rparr>"
  have "MD_Get ex_api (outgoing ex_api ?c) ''tenant'' = []" "ToLower ''tenant'' \<notin> set transportHeaders" "MD_Get ex_api (incoming ex_api ?c) ''tenant'' = [''t'']"
    by code_simp+
  then show "MD_Get ex_api (outgoing ex_api (forwardContext ex_api ?c)) ''tenant'' = [''t'']"
    using forwardContext_headers [OF ex_api_doc, of ?c "''tenant''"] by simp
  show "NamespaceFrom ex_api (forwardContext ex_api (WithNamespace ex_api ex_ctx ''payments'')) = ''payments''"
    using forwardContext_headers [OF ex_api_doc, of ex_ctx] by blast
qed

text \<open>
  A unary call is relayed. The upstream is called with the message the caller sent and with
  nothing before it was read; its trailer reaches the caller whether it failed or not, its header
  and its answer only on success, the header first; its error is returned unchanged and every
  failure of the caller's stream as an error with a status. No error means that the caller has the
  answer.
\<close>

theorem unary_relays:
  assumes "status_doc st" "io_RecvMsg io = Inr req" "io_Invoke io req = (callErr, resp, header, trailer)"
  shows "case forward_unary st io of (res, got) \<Rightarrow>
    re_trailer got = (if trailer \<noteq> [] then Some trailer else None)
    \<and> (callErr \<noteq> None \<longrightarrow> res = callErr \<and> re_header got = None \<and> re_msg got = None)
    \<and> (callErr = None \<longrightarrow> (\<forall>err. res = Some err \<longrightarrow> FromError st err \<and> re_msg got = None))
    \<and> (res = None \<longrightarrow> callErr = None \<and> re_msg got = Some resp \<and> re_header got = (if header \<noteq> [] then Some header else None))"
proof (cases callErr)
  case (Some err)
  then show ?thesis using assms(2,3) by (simp add: forward_unary_def Let_def)
next
  case None
  then show ?thesis using assms(2,3) toStatusError_status [OF assms(1)]
    by (cases "if header \<noteq> [] then io_SetHeader io header else None"; cases "io_SendMsg io resp")
      (simp_all add: forward_unary_def Let_def)
qed

theorem unary_relays_witness:
  "case forward_unary ex_status \<lparr>io_RecvMsg = Inr ''q'', io_Invoke = (\<lambda>q. (None, q @ ''!'', [], [(''t'', [''1''])])),
       io_SetHeader = (\<lambda>_. None), io_SendMsg = (\<lambda>_. None)\<rparr> of (res, got) \<Rightarrow>
     res = None \<and> re_msg got = Some ''q!'' \<and> re_trailer got = Some [(''t'', [''1''])]"
proof -
  let ?io = "\<lparr>io_RecvMsg = Inr ''q'', io_Invoke = (\<lambda>q. (None, q @ ''!'', [], [(''t'', [''1''])])), io_SetHeader = (\<lambda>_. None), io_SendMsg = (\<lambda>_. None)\<rparr>"
  have "fst (forward_unary ex_status ?io) = None" by (simp add: forward_unary_def)
  with unary_relays [OF ex_status_doc, of ?io "''q''" None "''q!''" "[]" "[(''t'', [''1''])]"] show ?thesis
    by (auto split: prod.splits)
qed

end
