(* ===== verification/Method_Translation.thy ===== *)
theory Method_Translation
  imports Rpc "HOL-Library.Word"
begin

text \<open>
  \<open>internal/cloud/translation\<close>, the mechanism (\<open>translation.go\<close>, \<open>interceptor.go\<close>): one unary method
  stands in for another. A Go interface value of type \<open>proto.Message\<close> is a value of a type \<open>'m\<close>; the
  generic functions get, for each message type they are instantiated with, an \<open>mtype\<close>: the type
  assertion, the conversion to the interface, the empty message and the name. A reply is filled in
  place, so a call returns the reply after the call. What a call does to the world outside is the
  state \<open>'s\<close> that the invoker threads; a call that is not made leaves it alone.

  The locale \<open>message_type\<close> is the law of an \<open>mtype\<close>; the locale \<open>adaptation\<close> is the contract between
  the interceptor and a translation made by \<open>Adapt\<close>.
\<close>

section \<open>Messages\<close>

record ('m, 'a) mtype =
  nameOf :: string
  asserted :: "'m \<Rightarrow> 'a option"
  message :: "'a \<Rightarrow> 'm"
  newMessage :: 'a

text \<open>An argument of a call: a message, or a value of another Go type.\<close>

type_synonym 'm any = "string + 'm"

type_synonym ('g, 'm, 's) sendFunc = "'g goctx \<Rightarrow> 'm \<Rightarrow> 'm \<Rightarrow> 's \<Rightarrow> (goerror option \<times> 'm) \<times> 's"
type_synonym ('g, 'm, 's) invoker = "'g goctx \<Rightarrow> string \<Rightarrow> 'm any \<Rightarrow> 'm any \<Rightarrow> 's \<Rightarrow> (goerror option \<times> 'm any) \<times> 's"

section \<open>Translations\<close>

record ('g, 'm, 's) Translation =
  t_from :: string
  t_to :: string
  t_call :: "'g goctx \<Rightarrow> 'm \<Rightarrow> 'm \<Rightarrow> ('g, 'm, 's) sendFunc \<Rightarrow> 's \<Rightarrow> (goerror option \<times> 'm) \<times> 's"
  t_headers :: "string gomap"

definition wanted :: "string \<Rightarrow> string \<Rightarrow> string \<Rightarrow> goerror" where
  "wanted from what name = ErrorString (''translation: '' @ from @ '' wanted a '' @ name @ '' '' @ what)"

text \<open>The upstream's reply keeps the type it was allocated with, so reading it back never misses.\<close>

definition Adapt :: "status_api \<Rightarrow> ('m, 'req) mtype \<Rightarrow> ('m, 'upreq) mtype \<Rightarrow> ('m, 'upresp) mtype \<Rightarrow> ('m, 'resp) mtype
    \<Rightarrow> string \<Rightarrow> string \<Rightarrow> ('req \<Rightarrow> 'upreq result) \<Rightarrow> ('req \<Rightarrow> 'upresp \<Rightarrow> 'resp \<Rightarrow> 'resp result) \<Rightarrow> ('g, 'm, 's) Translation" where
  "Adapt st Req UpReq UpResp Resp from to request response =
     \<lparr>t_from = from, t_to = to,
      t_call = (\<lambda>ctx m out send s.
        (case asserted Req m of
           None \<Rightarrow> ((Some (toStatusError st ''translation: adapting the request failed'' (wanted from ''request'' (nameOf Req))), out), s)
         | Some req \<Rightarrow>
             (case request req of
                Inl err \<Rightarrow> ((Some (toStatusError st ''translation: adapting the request failed'' err), out), s)
              | Inr upReq \<Rightarrow>
                  (case send ctx (message UpReq upReq) (message UpResp (newMessage UpResp)) s of
                     ((Some err, _), s') \<Rightarrow> ((Some err, out), s')
                   | ((None, filled), s') \<Rightarrow>
                       (let upstream = (case asserted UpResp filled of None \<Rightarrow> newMessage UpResp | Some u \<Rightarrow> u)
                        in case asserted Resp out of
                             None \<Rightarrow> ((Some (toStatusError st ''translation: adapting the reply failed'' (wanted from ''reply'' (nameOf Resp))), out), s')
                           | Some reply \<Rightarrow>
                               (case response req upstream reply of
                                  Inl err \<Rightarrow> ((Some (toStatusError st ''translation: adapting the reply failed'' err), out), s')
                                | Inr reply' \<Rightarrow> ((None, message Resp reply'), s'))))))),
      t_headers = []\<rparr>"

definition Answer :: "status_api \<Rightarrow> ('m, 'req) mtype \<Rightarrow> ('m, 'resp) mtype \<Rightarrow> string \<Rightarrow> ('req \<Rightarrow> 'resp \<Rightarrow> 'resp result)
    \<Rightarrow> ('g, 'm, 's) Translation" where
  "Answer st Req Resp from answer =
     \<lparr>t_from = from, t_to = [],
      t_call = (\<lambda>ctx m out send s.
        (case asserted Req m of
           None \<Rightarrow> ((Some (toStatusError st ''translation: answering the request failed'' (wanted from ''request'' (nameOf Req))), out), s)
         | Some req \<Rightarrow>
             (case asserted Resp out of
                None \<Rightarrow> ((Some (toStatusError st ''translation: answering the request failed'' (wanted from ''reply'' (nameOf Resp))), out), s)
              | Some reply \<Rightarrow>
                  (case answer req reply of
                     Inl err \<Rightarrow> ((Some (toStatusError st ''translation: answering the request failed'' err), out), s)
                   | Inr reply' \<Rightarrow> ((None, message Resp reply'), s))))),
      t_headers = []\<rparr>"

definition WithHeader :: "string \<Rightarrow> string \<Rightarrow> ('g, 'm, 's) Translation \<Rightarrow> ('g, 'm, 's) Translation" where
  "WithHeader key v t = t\<lparr>t_headers := AList.update key v (t_headers t)\<rparr>"

section \<open>The registry\<close>

text \<open>A nil \<open>*Registry\<close> is \<open>None\<close>; the text of an error leaves out the index or the name it quotes.\<close>

type_synonym ('g, 'm, 's) registry = "('g, 'm, 's) Translation gomap"

definition canonical_method :: "string \<Rightarrow> string result" where
  "canonical_method fullMethod =
     (let (service, meth, ok) = ServiceMethod fullMethod
      in if \<not> ok \<or> service = [] \<or> meth = [] then Inl (ErrorString ''translation: not a gRPC full method'')
         else Inr (''/'' @ service @ ''/'' @ meth))"

fun register :: "('g, 'm, 's) Translation option list \<Rightarrow> ('g, 'm, 's) registry \<Rightarrow> ('g, 'm, 's) registry result" where
  "register [] byMethod = Inr byMethod"
| "register (None # ts) byMethod = Inl (ErrorString ''translation: nil translation'')"
| "register (Some t # ts) byMethod =
     (case canonical_method (t_from t) of
        Inl err \<Rightarrow> Inl err
      | Inr from \<Rightarrow>
          (case (if t_to t = [] then Inr []
                 else case canonical_method (t_to t) of
                        Inl err \<Rightarrow> Inl err
                      | Inr to \<Rightarrow> if from = to then Inl (ErrorString (''translation: '' @ from @ '' translates onto itself'')) else Inr to) of
             Inl err \<Rightarrow> Inl err
           | Inr to \<Rightarrow>
               (if map_of byMethod from \<noteq> None then Inl (ErrorString (''translation: '' @ from @ '' is translated twice''))
                else register ts (AList.update from (t\<lparr>t_from := from, t_to := to\<rparr>) byMethod))))"

definition NewRegistry :: "('g, 'm, 's) Translation option list \<Rightarrow> ('g, 'm, 's) registry result" where
  "NewRegistry ts = register ts []"

definition Registry_Lookup :: "('g, 'm, 's) registry option \<Rightarrow> string \<Rightarrow> ('g, 'm, 's) Translation option" where
  "Registry_Lookup r fullMethod = (case r of None \<Rightarrow> None | Some byMethod \<Rightarrow> map_of byMethod fullMethod)"

definition Registry_Methods :: "('g, 'm, 's) registry option \<Rightarrow> string list" where
  "Registry_Methods r = (case r of None \<Rightarrow> [] | Some byMethod \<Rightarrow> map fst byMethod)"

section \<open>The interceptor\<close>

definition stamp :: "'g grpc_api \<Rightarrow> ('g, 'm, 's) Translation \<Rightarrow> 'g goctx \<Rightarrow> 'g goctx" where
  "stamp api t ctx =
     (if t_headers t = [] then ctx
      else WithOutgoing api ctx (\<lambda>md. fold (\<lambda>(key, v) md. MD_Set api md key [v]) (t_headers t) md))"

text \<open>\<open>invoke\<close>: \<open>via\<close> is the connection of the option \<open>Via\<close>, \<open>invoker\<close> the rest of the chain.\<close>

definition invoke :: "('g, 'm, 's) invoker option \<Rightarrow> 'g goctx \<Rightarrow> ('g, 'm, 's) Translation \<Rightarrow> 'm any \<Rightarrow> 'm any \<Rightarrow> ('g, 'm, 's) invoker
    \<Rightarrow> 's \<Rightarrow> (goerror option \<times> 'm any) \<times> 's" where
  "invoke via ctx t req reply invoker s =
     (case via of Some cc \<Rightarrow> cc ctx (t_to t) req reply s | None \<Rightarrow> invoker ctx (t_to t) req reply s)"

definition sending :: "'g grpc_api \<Rightarrow> ('g, 'm, 's) invoker option \<Rightarrow> ('g, 'm, 's) Translation \<Rightarrow> ('g, 'm, 's) invoker \<Rightarrow> ('g, 'm, 's) sendFunc" where
  "sending api via t invoker ctx req reply s =
     (case invoke via (stamp api t ctx) t (Inr req) (Inr reply) invoker s of
        ((err, filled), s') \<Rightarrow> ((err, case filled of Inl _ \<Rightarrow> reply | Inr m \<Rightarrow> m), s'))"

definition method_unaryClientInterceptor :: "'g grpc_api \<Rightarrow> ('g, 'm, 's) registry option \<Rightarrow> ('g, 'm, 's) invoker option
    \<Rightarrow> 'g goctx \<Rightarrow> string \<Rightarrow> 'm any \<Rightarrow> 'm any \<Rightarrow> ('g, 'm, 's) invoker \<Rightarrow> 's \<Rightarrow> (goerror option \<times> 'm any) \<times> 's" where
  "method_unaryClientInterceptor api r via ctx meth req reply invoker s =
     (case Registry_Lookup r meth of
        None \<Rightarrow> invoker ctx meth req reply s
      | Some t \<Rightarrow>
          (case (req, reply) of
             (Inr m, Inr out) \<Rightarrow>
               (case t_call t ctx m out (sending api via t invoker) s of ((err, out'), s') \<Rightarrow> ((err, Inr out'), s'))
           | _ \<Rightarrow> invoker ctx meth req reply s))"

section \<open>The registry indexes its translations\<close>

text \<open>What \<open>canonical\<close> makes of a method, when it is one.\<close>

definition is_full_method :: "string \<Rightarrow> bool" where
  "is_full_method p \<longleftrightarrow> (\<exists>m. canonical_method p = Inr m)"

definition canon :: "string \<Rightarrow> string" where
  "canon p = (case canonical_method p of Inl _ \<Rightarrow> [] | Inr m \<Rightarrow> m)"

definition indexed :: "('g, 'm, 's) Translation \<Rightarrow> ('g, 'm, 's) Translation" where
  "indexed t = t\<lparr>t_from := canon (t_from t), t_to := (if t_to t = [] then [] else canon (t_to t))\<rparr>"

definition well_formed :: "('g, 'm, 's) Translation option \<Rightarrow> bool" where
  "well_formed ot \<longleftrightarrow> (case ot of None \<Rightarrow> False | Some t \<Rightarrow>
     is_full_method (t_from t)
     \<and> (t_to t = [] \<or> is_full_method (t_to t) \<and> canon (t_to t) \<noteq> canon (t_from t)))"

lemma canonical_iff: "canonical_method p = Inr m \<longleftrightarrow> is_full_method p \<and> m = canon p"
  by (auto simp: is_full_method_def canon_def)

lemma canonical_Inl: "canonical_method p = Inl e \<Longrightarrow> \<not> is_full_method p"
  by (auto simp: is_full_method_def)

lemma register_step:
  assumes "well_formed (Some t)" "map_of byMethod (canon (t_from t)) = None"
  shows "register (Some t # ts) byMethod = register ts (byMethod @ [(canon (t_from t), indexed t)])"
  using assms by (auto simp: well_formed_def indexed_def is_full_method_def canon_def update_fresh)

lemma register_refuses:
  assumes "\<not> well_formed (Some t) \<or> map_of byMethod (canon (t_from t)) \<noteq> None"
  shows "\<exists>e. register (Some t # ts) byMethod = Inl e"
  using assms
  by (cases "canonical_method (t_from t)"; cases "canonical_method (t_to t)")
    (auto simp: well_formed_def is_full_method_def canon_def)

lemma register_iff:
  assumes "distinct (map fst byMethod)"
  shows "register ots byMethod = Inr r \<longleftrightarrow>
    list_all well_formed ots \<and> distinct (map fst byMethod @ map (canon \<circ> t_from \<circ> the) ots)
    \<and> r = byMethod @ map (\<lambda>ot. (canon (t_from (the ot)), indexed (the ot))) ots"
  using assms
proof (induction ots arbitrary: byMethod)
  case (Cons ot ots)
  show ?case
  proof (cases ot)
    case None
    then show ?thesis by (simp add: well_formed_def)
  next
    case (Some t)
    let ?f = "canon (t_from t)"
    show ?thesis
    proof (cases "well_formed (Some t) \<and> map_of byMethod ?f = None")
      case True
      then have "register (ot # ots) byMethod = register ots (byMethod @ [(?f, indexed t)])"
        using register_step [of t byMethod ots] Some by simp
      moreover have "distinct (map fst (byMethod @ [(?f, indexed t)]))"
        using Cons.prems True by (auto simp: map_of_eq_None_iff)
      ultimately show ?thesis using Cons.IH True Some by (auto simp: map_of_eq_None_iff)
    next
      case False
      then show ?thesis using register_refuses [of t byMethod ots] Some
        by (auto simp: map_of_eq_None_iff)
    qed
  qed
qed auto

section \<open>The contracts\<close>

text \<open>The interface value of a message type is asserted back to what it was made from, and to nothing else.\<close>

locale message_type =
  fixes T :: "('m, 'a) mtype"
  assumes asserted_message: "asserted T (message T x) = Some x"
    and message_asserted: "asserted T m = Some x \<Longrightarrow> message T x = m"
begin

lemma asserted_iff: "asserted T m = Some x \<longleftrightarrow> m = message T x"
  using asserted_message message_asserted by blast

end

text \<open>A translation whose conversions never fail, as all compiled-in ones: \<open>f\<close> and \<open>g\<close> are what they
  compute. On messages of its types the call is one send of the converted request, and its reply or
  its error is what the caller gets.\<close>

locale adaptation =
  Req: message_type Req + UpResp: message_type UpResp + Resp: message_type Resp
  for Req :: "('m, 'req) mtype" and UpResp :: "('m, 'upresp) mtype" and Resp :: "('m, 'resp) mtype" +
  fixes UpReq :: "('m, 'upreq) mtype" and request :: "'req \<Rightarrow> 'upreq result"
    and response :: "'req \<Rightarrow> 'upresp \<Rightarrow> 'resp \<Rightarrow> 'resp result" and f g
  assumes request_total: "request r = Inr (f r)"
    and response_total: "response r u p = Inr (g r u p)"
begin

lemma call_sends:
  "t_call (Adapt st Req UpReq UpResp Resp from to request response) ctx (message Req r) (message Resp p) send s
   = (case send ctx (message UpReq (f r)) (message UpResp (newMessage UpResp)) s of
        ((Some err, _), s') \<Rightarrow> ((Some err, message Resp p), s')
      | ((None, filled), s') \<Rightarrow>
          ((None, message Resp (g r (case asserted UpResp filled of None \<Rightarrow> newMessage UpResp | Some u \<Rightarrow> u) p)), s'))"
  by (simp add: Adapt_def Req.asserted_message Resp.asserted_message request_total response_total Let_def
      split: prod.splits option.splits)

end

text \<open>What a translation may do with the connection, whatever messages it is given: nothing, or one
  send; and an error of that send is what the call returns.\<close>

definition sends_at_most_once :: "('g, 'm, 's) Translation \<Rightarrow> bool" where
  "sends_at_most_once t \<longleftrightarrow>
     (\<forall>ctx m out send s. case t_call t ctx m out send s of ((err, out'), s') \<Rightarrow>
        s' = s \<or> (\<exists>req reply. s' = snd (send ctx req reply s)
          \<and> (\<forall>e. fst (fst (send ctx req reply s)) = Some e \<longrightarrow> err = Some e \<and> out' = out)))"

lemma sends_at_most_onceD:
  "sends_at_most_once t \<Longrightarrow> t_call t ctx m out send s = ((err, out'), s') \<Longrightarrow>
   s' = s \<or> (\<exists>req reply. s' = snd (send ctx req reply s)
     \<and> (\<forall>e. fst (fst (send ctx req reply s)) = Some e \<longrightarrow> err = Some e \<and> out' = out))"
  unfolding sends_at_most_once_def by (fastforce split: prod.splits)

lemma Adapt_once: "sends_at_most_once (WithHeader k v (Adapt st Req UpReq UpResp Resp from to request response))"
  (is "sends_at_most_once ?t")
  unfolding sends_at_most_once_def
proof (intro allI)
  fix ctx :: "'a goctx" and m out :: 'b and send :: "('a, 'b, 'c) sendFunc" and s :: 'c
  let ?once = "\<lambda>res. case res of ((err, out'), s') \<Rightarrow> s' = s \<or> (\<exists>req reply. s' = snd (send ctx req reply s)
          \<and> (\<forall>e. fst (fst (send ctx req reply s)) = Some e \<longrightarrow> err = Some e \<and> out' = out))"
  show "?once (t_call ?t ctx m out send s)"
  proof (cases "\<exists>req upReq. asserted Req m = Some req \<and> request req = Inr upReq")
    case True
    then obtain req upReq where r: "asserted Req m = Some req" "request req = Inr upReq" by blast
    let ?snd = "send ctx (message UpReq upReq) (message UpResp (newMessage UpResp)) s"
    obtain err filled s' where snd: "?snd = ((err, filled), s')" by (metis prod.exhaust)
    have "snd (t_call ?t ctx m out send s) = s' \<and> (\<forall>e. err = Some e \<longrightarrow> fst (t_call ?t ctx m out send s) = (Some e, out))"
      by (cases err) (simp_all add: WithHeader_def Adapt_def r snd Let_def split: option.split sum.split)
    moreover obtain err' out' s2 where res: "t_call ?t ctx m out send s = ((err', out'), s2)" by (metis prod.exhaust)
    ultimately have "s2 = snd ?snd \<and> (\<forall>e. fst (fst ?snd) = Some e \<longrightarrow> err' = Some e \<and> out' = out)" using snd by simp
    then show ?thesis unfolding res prod.case by blast
  next
    case False
    then show ?thesis by (auto simp: WithHeader_def Adapt_def split: option.split sum.split)
  qed
qed

lemma Answer_silent: "snd (t_call (Answer st Req Resp from answer) ctx m out send s) = s"
  by (simp add: Answer_def split: option.splits sum.splits)

section \<open>The interceptor\<close>

lemma interceptor_passes:
  "Registry_Lookup r meth = None \<Longrightarrow> method_unaryClientInterceptor api r via ctx meth req reply invoker s = invoker ctx meth req reply s"
  by (simp add: method_unaryClientInterceptor_def)

lemma interceptor_translates:
  "Registry_Lookup r meth = Some t \<Longrightarrow>
   method_unaryClientInterceptor api r via ctx meth (Inr m) (Inr out) invoker s
   = (case t_call t ctx m out (sending api via t invoker) s of ((err, out'), s') \<Rightarrow> ((err, Inr out'), s'))"
  by (simp add: method_unaryClientInterceptor_def)

lemma stamp_header:
  assumes "metadata_doc api" "t_headers t = [(k, v)]"
  shows "MD_Get api (outgoing api (stamp api t ctx)) k' = (if ToLower k' = ToLower k then [v] else MD_Get api (outgoing api ctx) k')"
proof -
  have "stamp api t ctx = withHeader api ctx k v" using assms(2) by (simp add: stamp_def withHeader_def WithOutgoing_def Let_def)
  then show ?thesis using withHeader_get [OF assms(1)] by simp
qed

section \<open>Properties\<close>

text \<open>
  A mapping mistake surfaces when the registry is built. It is accepted exactly if no entry is nil, every
  name is a full method, no translation is onto itself and no method is translated twice, with and
  without the leading slash being the same method; then each translation is found under the
  canonical name of the method it replaces, and nothing else is.
\<close>

theorem NewRegistry_indexes:
  "(NewRegistry ots = Inr r \<longleftrightarrow>
      list_all well_formed ots \<and> distinct (map (canon \<circ> t_from \<circ> the) ots)
      \<and> r = map (\<lambda>ot. (canon (t_from (the ot)), indexed (the ot))) ots)
   \<and> (NewRegistry ots = Inr r \<longrightarrow>
        (\<forall>t. Registry_Lookup (Some r) meth = Some t \<longleftrightarrow> (\<exists>ot\<in>set ots. t = indexed (the ot) \<and> canon (t_from (the ot)) = meth)))"
proof -
  have iff: "NewRegistry ots = Inr r \<longleftrightarrow>
      list_all well_formed ots \<and> distinct (map (canon \<circ> t_from \<circ> the) ots)
      \<and> r = map (\<lambda>ot. (canon (t_from (the ot)), indexed (the ot))) ots"
    using register_iff [of "[]" ots r] by (simp add: NewRegistry_def)
  have "map_of r meth = Some t \<longleftrightarrow> (\<exists>ot\<in>set ots. t = indexed (the ot) \<and> canon (t_from (the ot)) = meth)"
    if "NewRegistry ots = Inr r" for t
  proof -
    have "distinct (map fst r)" using that iff by (simp add: comp_def)
    then have "map_of r meth = Some t \<longleftrightarrow> (meth, t) \<in> set r" by simp
    then show ?thesis using that iff by auto
  qed
  with iff show ?thesis by (simp add: Registry_Lookup_def)
qed

theorem NewRegistry_indexes_witness:
  "\<exists>r. NewRegistry [Some \<lparr>t_from = ''a.S/M'', t_to = ''/b.S/N'', t_call = (\<lambda>ctx m out send s. ((None, out), s)), t_headers = []\<rparr>] = Inr r
     \<and> map_option t_to (Registry_Lookup (Some (r :: (unit, string, nat) registry)) ''/a.S/M'') = Some ''/b.S/N''"
proof -
  let ?t = "\<lparr>t_from = ''a.S/M'', t_to = ''/b.S/N'', t_call = (\<lambda>ctx m out send s. ((None, out), s)), t_headers = []\<rparr> :: (unit, string, nat) Translation"
  have c: "canonical_method ''a.S/M'' = Inr ''/a.S/M''" "canonical_method ''/b.S/N'' = Inr ''/b.S/N''" by code_simp+
  then have "list_all well_formed [Some ?t]" "canon ''a.S/M'' = ''/a.S/M''" "canon ''/b.S/N'' = ''/b.S/N''"
    by (simp_all add: well_formed_def is_full_method_def canon_def)
  then show ?thesis
    using NewRegistry_indexes [of "[Some ?t]" "[(''/a.S/M'', indexed ?t)]" "''/a.S/M''"]
    by (auto simp: indexed_def Registry_Lookup_def)
qed

end
