(* ===== verification/Cloud_Methods.thy ===== *)
theory Cloud_Methods
  imports Method_Translation Cloud
begin

text \<open>
  \<open>internal/cloud/translation\<close>, the compiled-in mappings (\<open>namespaces.go\<close>, \<open>nexus.go\<close>,
  \<open>searchattributes.go\<close>, \<open>answers.go\<close>, \<open>mappings.go\<close>), and the diagnostic interceptor of
  \<open>internal/proxy/cloudns.go\<close>. The generated message types are records of the fields the mappings
  read or write; a submessage that may be missing is an option, and its getters give the zero value.
  An enum has a constructor per name the code uses and one for other numbers. \<open>int32\<close> and \<open>int64\<close> are
  words. The name and value of the version header come from the Cloud SDK and are parameters.
\<close>

section \<open>Messages\<close>

datatype ResourceState = RS_UNSPECIFIED | RS_ACTIVATING | RS_ACTIVATION_FAILED | RS_ACTIVE | RS_UPDATING | RS_UPDATE_FAILED
  | RS_DELETING | RS_DELETE_FAILED | RS_DELETED | RS_SUSPENDED | RS_EXPIRED | RS_Other int

datatype NamespaceState = NS_UNSPECIFIED | NS_REGISTERED | NS_DEPRECATED | NS_DELETED

datatype SearchAttributeType = SA_UNSPECIFIED | SA_TEXT | SA_KEYWORD | SA_INT | SA_DOUBLE | SA_BOOL | SA_DATETIME | SA_KEYWORD_LIST | SA_Other int

datatype IndexedValueType = IV_UNSPECIFIED | IV_TEXT | IV_KEYWORD | IV_INT | IV_DOUBLE | IV_BOOL | IV_DATETIME | IV_KEYWORD_LIST

record NamespaceSpec =
  RetentionDays :: "32 word"
  Replicas :: "string list"
  SearchAttributes :: "SearchAttributeType gomap"

record cloudNamespace =
  cn_Namespace :: string
  cn_Spec :: "NamespaceSpec option"
  cn_State :: ResourceState
  cn_Tags :: "string gomap"

record DescribeNamespaceResponse =
  dn_Name :: string
  dn_State :: NamespaceState
  dn_Data :: "string gomap"
  dn_RetentionTtl :: "64 word option"
  dn_IsGlobalNamespace :: bool

record WorkerTargetSpec =
  wt_NamespaceId :: string
  wt_TaskQueue :: string

record cloudEndpoint =
  ce_Id :: string
  ce_CreatedTime :: "string option"
  ce_LastModifiedTime :: "string option"
  ce_State :: ResourceState
  ce_Name :: string
  ce_Description :: string
  ce_Worker :: "WorkerTargetSpec option"

record nexusEndpointMsg =
  ne_Id :: string
  ne_CreatedTime :: "string option"
  ne_LastModifiedTime :: "string option"
  ne_Name :: string
  ne_Description :: string
  ne_Target :: "(string \<times> string) option"

record ListNamespacesRequest =
  ln_PageSize :: "32 word"
  ln_NextPageToken :: bytes
  ln_IncludeDeleted :: "bool option"

record ListNamespacesResponse =
  lr_Namespaces :: "DescribeNamespaceResponse list"
  lr_NextPageToken :: bytes

record GetNamespacesRequest =
  gn_PageSize :: "32 word"
  gn_PageToken :: string

record GetNamespacesResponse =
  gr_Namespaces :: "cloudNamespace list"
  gr_NextPageToken :: string

record ListNexusEndpointsRequest =
  xl_PageSize :: "32 word"
  xl_NextPageToken :: bytes
  xl_Name :: string

record ListNexusEndpointsResponse =
  xr_Endpoints :: "nexusEndpointMsg list"
  xr_NextPageToken :: bytes

record GetNexusEndpointsRequest =
  xg_PageSize :: "32 word"
  xg_PageToken :: string
  xg_Name :: string

record GetNexusEndpointsResponse =
  xgr_Endpoints :: "cloudEndpoint list"
  xgr_NextPageToken :: string

record ListSearchAttributesResponse =
  CustomAttributes :: "IndexedValueType gomap"
  SystemAttributes :: "IndexedValueType gomap"
  StorageSchema :: "string gomap"

text \<open>A \<open>proto.Message\<close> of one of these types, with the types that have one field written out; the last
  constructor stands for the other message types, by name and contents.\<close>

datatype cloud_msg =
    M_ListNamespacesRequest ListNamespacesRequest | M_ListNamespacesResponse ListNamespacesResponse
  | M_GetNamespacesRequest GetNamespacesRequest | M_GetNamespacesResponse GetNamespacesResponse
  | M_ListSearchAttributesRequest string | M_ListSearchAttributesResponse ListSearchAttributesResponse
  | M_GetNamespaceRequest string | M_GetNamespaceResponse "cloudNamespace option"
  | M_ListNexusEndpointsRequest ListNexusEndpointsRequest | M_ListNexusEndpointsResponse ListNexusEndpointsResponse
  | M_GetNexusEndpointsRequest GetNexusEndpointsRequest | M_GetNexusEndpointsResponse GetNexusEndpointsResponse
  | M_GetNexusEndpointRequest string | M_GetNexusEndpointResponse "nexusEndpointMsg option"
  | M_CloudGetNexusEndpointRequest string | M_CloudGetNexusEndpointResponse "cloudEndpoint option"
  | M_Other string bytes

definition ListNamespacesRequest_t :: "(cloud_msg, ListNamespacesRequest) mtype" where
  "ListNamespacesRequest_t = \<lparr>nameOf = ''temporal.api.workflowservice.v1.ListNamespacesRequest'',
     asserted = (\<lambda>m. case m of M_ListNamespacesRequest x \<Rightarrow> Some x | _ \<Rightarrow> None), message = M_ListNamespacesRequest,
     newMessage = \<lparr>ln_PageSize = 0, ln_NextPageToken = [], ln_IncludeDeleted = None\<rparr>\<rparr>"

definition ListNamespacesResponse_t :: "(cloud_msg, ListNamespacesResponse) mtype" where
  "ListNamespacesResponse_t = \<lparr>nameOf = ''temporal.api.workflowservice.v1.ListNamespacesResponse'',
     asserted = (\<lambda>m. case m of M_ListNamespacesResponse x \<Rightarrow> Some x | _ \<Rightarrow> None), message = M_ListNamespacesResponse,
     newMessage = \<lparr>lr_Namespaces = [], lr_NextPageToken = []\<rparr>\<rparr>"

definition GetNamespacesRequest_t :: "(cloud_msg, GetNamespacesRequest) mtype" where
  "GetNamespacesRequest_t = \<lparr>nameOf = ''temporal.api.cloud.cloudservice.v1.GetNamespacesRequest'',
     asserted = (\<lambda>m. case m of M_GetNamespacesRequest x \<Rightarrow> Some x | _ \<Rightarrow> None), message = M_GetNamespacesRequest,
     newMessage = \<lparr>gn_PageSize = 0, gn_PageToken = []\<rparr>\<rparr>"

definition GetNamespacesResponse_t :: "(cloud_msg, GetNamespacesResponse) mtype" where
  "GetNamespacesResponse_t = \<lparr>nameOf = ''temporal.api.cloud.cloudservice.v1.GetNamespacesResponse'',
     asserted = (\<lambda>m. case m of M_GetNamespacesResponse x \<Rightarrow> Some x | _ \<Rightarrow> None), message = M_GetNamespacesResponse,
     newMessage = \<lparr>gr_Namespaces = [], gr_NextPageToken = []\<rparr>\<rparr>"

definition ListSearchAttributesRequest_t :: "(cloud_msg, string) mtype" where
  "ListSearchAttributesRequest_t = \<lparr>nameOf = ''temporal.api.operatorservice.v1.ListSearchAttributesRequest'',
     asserted = (\<lambda>m. case m of M_ListSearchAttributesRequest x \<Rightarrow> Some x | _ \<Rightarrow> None), message = M_ListSearchAttributesRequest,
     newMessage = []\<rparr>"

definition ListSearchAttributesResponse_t :: "(cloud_msg, ListSearchAttributesResponse) mtype" where
  "ListSearchAttributesResponse_t = \<lparr>nameOf = ''temporal.api.operatorservice.v1.ListSearchAttributesResponse'',
     asserted = (\<lambda>m. case m of M_ListSearchAttributesResponse x \<Rightarrow> Some x | _ \<Rightarrow> None), message = M_ListSearchAttributesResponse,
     newMessage = \<lparr>CustomAttributes = [], SystemAttributes = [], StorageSchema = []\<rparr>\<rparr>"

definition GetNamespaceRequest_t :: "(cloud_msg, string) mtype" where
  "GetNamespaceRequest_t = \<lparr>nameOf = ''temporal.api.cloud.cloudservice.v1.GetNamespaceRequest'',
     asserted = (\<lambda>m. case m of M_GetNamespaceRequest x \<Rightarrow> Some x | _ \<Rightarrow> None), message = M_GetNamespaceRequest, newMessage = []\<rparr>"

definition GetNamespaceResponse_t :: "(cloud_msg, cloudNamespace option) mtype" where
  "GetNamespaceResponse_t = \<lparr>nameOf = ''temporal.api.cloud.cloudservice.v1.GetNamespaceResponse'',
     asserted = (\<lambda>m. case m of M_GetNamespaceResponse x \<Rightarrow> Some x | _ \<Rightarrow> None), message = M_GetNamespaceResponse, newMessage = None\<rparr>"

definition ListNexusEndpointsRequest_t :: "(cloud_msg, ListNexusEndpointsRequest) mtype" where
  "ListNexusEndpointsRequest_t = \<lparr>nameOf = ''temporal.api.operatorservice.v1.ListNexusEndpointsRequest'',
     asserted = (\<lambda>m. case m of M_ListNexusEndpointsRequest x \<Rightarrow> Some x | _ \<Rightarrow> None), message = M_ListNexusEndpointsRequest,
     newMessage = \<lparr>xl_PageSize = 0, xl_NextPageToken = [], xl_Name = []\<rparr>\<rparr>"

definition ListNexusEndpointsResponse_t :: "(cloud_msg, ListNexusEndpointsResponse) mtype" where
  "ListNexusEndpointsResponse_t = \<lparr>nameOf = ''temporal.api.operatorservice.v1.ListNexusEndpointsResponse'',
     asserted = (\<lambda>m. case m of M_ListNexusEndpointsResponse x \<Rightarrow> Some x | _ \<Rightarrow> None), message = M_ListNexusEndpointsResponse,
     newMessage = \<lparr>xr_Endpoints = [], xr_NextPageToken = []\<rparr>\<rparr>"

definition GetNexusEndpointsRequest_t :: "(cloud_msg, GetNexusEndpointsRequest) mtype" where
  "GetNexusEndpointsRequest_t = \<lparr>nameOf = ''temporal.api.cloud.cloudservice.v1.GetNexusEndpointsRequest'',
     asserted = (\<lambda>m. case m of M_GetNexusEndpointsRequest x \<Rightarrow> Some x | _ \<Rightarrow> None), message = M_GetNexusEndpointsRequest,
     newMessage = \<lparr>xg_PageSize = 0, xg_PageToken = [], xg_Name = []\<rparr>\<rparr>"

definition GetNexusEndpointsResponse_t :: "(cloud_msg, GetNexusEndpointsResponse) mtype" where
  "GetNexusEndpointsResponse_t = \<lparr>nameOf = ''temporal.api.cloud.cloudservice.v1.GetNexusEndpointsResponse'',
     asserted = (\<lambda>m. case m of M_GetNexusEndpointsResponse x \<Rightarrow> Some x | _ \<Rightarrow> None), message = M_GetNexusEndpointsResponse,
     newMessage = \<lparr>xgr_Endpoints = [], xgr_NextPageToken = []\<rparr>\<rparr>"

definition GetNexusEndpointRequest_t :: "(cloud_msg, string) mtype" where
  "GetNexusEndpointRequest_t = \<lparr>nameOf = ''temporal.api.operatorservice.v1.GetNexusEndpointRequest'',
     asserted = (\<lambda>m. case m of M_GetNexusEndpointRequest x \<Rightarrow> Some x | _ \<Rightarrow> None), message = M_GetNexusEndpointRequest, newMessage = []\<rparr>"

definition GetNexusEndpointResponse_t :: "(cloud_msg, nexusEndpointMsg option) mtype" where
  "GetNexusEndpointResponse_t = \<lparr>nameOf = ''temporal.api.operatorservice.v1.GetNexusEndpointResponse'',
     asserted = (\<lambda>m. case m of M_GetNexusEndpointResponse x \<Rightarrow> Some x | _ \<Rightarrow> None), message = M_GetNexusEndpointResponse, newMessage = None\<rparr>"

definition CloudGetNexusEndpointRequest_t :: "(cloud_msg, string) mtype" where
  "CloudGetNexusEndpointRequest_t = \<lparr>nameOf = ''temporal.api.cloud.cloudservice.v1.GetNexusEndpointRequest'',
     asserted = (\<lambda>m. case m of M_CloudGetNexusEndpointRequest x \<Rightarrow> Some x | _ \<Rightarrow> None), message = M_CloudGetNexusEndpointRequest, newMessage = []\<rparr>"

definition CloudGetNexusEndpointResponse_t :: "(cloud_msg, cloudEndpoint option) mtype" where
  "CloudGetNexusEndpointResponse_t = \<lparr>nameOf = ''temporal.api.cloud.cloudservice.v1.GetNexusEndpointResponse'',
     asserted = (\<lambda>m. case m of M_CloudGetNexusEndpointResponse x \<Rightarrow> Some x | _ \<Rightarrow> None), message = M_CloudGetNexusEndpointResponse, newMessage = None\<rparr>"

text \<open>The interface types \<open>proto.Message\<close> and \<open>resetable\<close>: every message is asserted to them.\<close>

definition Message_t :: "(cloud_msg, cloud_msg) mtype" where
  "Message_t = \<lparr>nameOf = [], asserted = Some, message = (\<lambda>m. m), newMessage = M_Other [] []\<rparr>"

lemmas cloud_types = ListNamespacesRequest_t_def ListNamespacesResponse_t_def GetNamespacesRequest_t_def GetNamespacesResponse_t_def
  ListSearchAttributesRequest_t_def ListSearchAttributesResponse_t_def GetNamespaceRequest_t_def GetNamespaceResponse_t_def
  ListNexusEndpointsRequest_t_def ListNexusEndpointsResponse_t_def GetNexusEndpointsRequest_t_def GetNexusEndpointsResponse_t_def
  GetNexusEndpointRequest_t_def GetNexusEndpointResponse_t_def CloudGetNexusEndpointRequest_t_def CloudGetNexusEndpointResponse_t_def

text \<open>The generated \<open>Reset\<close>.\<close>

definition Reset :: "cloud_msg \<Rightarrow> cloud_msg" where
  "Reset m = (case m of
       M_ListNamespacesRequest _ \<Rightarrow> M_ListNamespacesRequest (newMessage ListNamespacesRequest_t)
     | M_ListNamespacesResponse _ \<Rightarrow> M_ListNamespacesResponse (newMessage ListNamespacesResponse_t)
     | M_GetNamespacesRequest _ \<Rightarrow> M_GetNamespacesRequest (newMessage GetNamespacesRequest_t)
     | M_GetNamespacesResponse _ \<Rightarrow> M_GetNamespacesResponse (newMessage GetNamespacesResponse_t)
     | M_ListSearchAttributesRequest _ \<Rightarrow> M_ListSearchAttributesRequest []
     | M_ListSearchAttributesResponse _ \<Rightarrow> M_ListSearchAttributesResponse (newMessage ListSearchAttributesResponse_t)
     | M_GetNamespaceRequest _ \<Rightarrow> M_GetNamespaceRequest [] | M_GetNamespaceResponse _ \<Rightarrow> M_GetNamespaceResponse None
     | M_ListNexusEndpointsRequest _ \<Rightarrow> M_ListNexusEndpointsRequest (newMessage ListNexusEndpointsRequest_t)
     | M_ListNexusEndpointsResponse _ \<Rightarrow> M_ListNexusEndpointsResponse (newMessage ListNexusEndpointsResponse_t)
     | M_GetNexusEndpointsRequest _ \<Rightarrow> M_GetNexusEndpointsRequest (newMessage GetNexusEndpointsRequest_t)
     | M_GetNexusEndpointsResponse _ \<Rightarrow> M_GetNexusEndpointsResponse (newMessage GetNexusEndpointsResponse_t)
     | M_GetNexusEndpointRequest _ \<Rightarrow> M_GetNexusEndpointRequest [] | M_GetNexusEndpointResponse _ \<Rightarrow> M_GetNexusEndpointResponse None
     | M_CloudGetNexusEndpointRequest _ \<Rightarrow> M_CloudGetNexusEndpointRequest []
     | M_CloudGetNexusEndpointResponse _ \<Rightarrow> M_CloudGetNexusEndpointResponse None
     | M_Other name _ \<Rightarrow> M_Other name [])"

section \<open>namespaces.go\<close>

definition cloudService :: string where
  "cloudService = ''temporal.api.cloud.cloudservice.v1.CloudService''"

definition listNamespacesMethod :: string where
  "listNamespacesMethod = ''/'' @ WorkflowService @ ''/ListNamespaces''"

definition getNamespacesMethod :: string where
  "getNamespacesMethod = ''/'' @ cloudService @ ''/GetNamespaces''"

definition cloudPageLimit :: "32 word" where
  "cloudPageLimit = 1000"

text \<open>\<open>24 * time.Hour\<close>, in nanoseconds.\<close>

definition hoursPerDay :: "64 word" where
  "hoursPerDay = 24 * 3600000000000"

text \<open>Go's \<open>min\<close> on \<open>int32\<close>.\<close>

definition min_int32 :: "32 word \<Rightarrow> 32 word \<Rightarrow> 32 word" where
  "min_int32 a b = (if sint b < sint a then b else a)"

definition listNamespacesRequest :: "ListNamespacesRequest \<Rightarrow> GetNamespacesRequest result" where
  "listNamespacesRequest req =
     Inr \<lparr>gn_PageSize = min_int32 (ln_PageSize req) cloudPageLimit, gn_PageToken = ln_NextPageToken req\<rparr>"

definition namespaceState :: "ResourceState \<Rightarrow> NamespaceState" where
  "namespaceState state =
     (case state of
        RS_ACTIVATING \<Rightarrow> NS_REGISTERED | RS_ACTIVATION_FAILED \<Rightarrow> NS_REGISTERED | RS_ACTIVE \<Rightarrow> NS_REGISTERED
      | RS_UPDATING \<Rightarrow> NS_REGISTERED | RS_UPDATE_FAILED \<Rightarrow> NS_REGISTERED
      | RS_DELETING \<Rightarrow> NS_DELETED | RS_DELETE_FAILED \<Rightarrow> NS_DELETED | RS_DELETED \<Rightarrow> NS_DELETED
      | RS_SUSPENDED \<Rightarrow> NS_DEPRECATED | RS_EXPIRED \<Rightarrow> NS_DEPRECATED
      | _ \<Rightarrow> NS_UNSPECIFIED)"

definition GetSpec :: "cloudNamespace \<Rightarrow> NamespaceSpec" where
  "GetSpec ns = (case cn_Spec ns of None \<Rightarrow> \<lparr>RetentionDays = 0, Replicas = [], SearchAttributes = []\<rparr> | Some spec \<Rightarrow> spec)"

definition describeNamespace :: "cloudNamespace \<Rightarrow> NamespaceState \<Rightarrow> DescribeNamespaceResponse" where
  "describeNamespace ns state =
     (let spec = GetSpec ns; days = RetentionDays spec
      in \<lparr>dn_Name = cn_Namespace ns, dn_State = state, dn_Data = cn_Tags ns,
          dn_RetentionTtl = (if 0 < sint days then Some (word_of_int (sint days) * hoursPerDay) else None),
          dn_IsGlobalNamespace = (1 < length (Replicas spec))\<rparr>)"

definition listNamespacesResponse :: "ListNamespacesRequest \<Rightarrow> GetNamespacesResponse \<Rightarrow> ListNamespacesResponse \<Rightarrow> ListNamespacesResponse result" where
  "listNamespacesResponse req up reply =
     (let includeDeleted = (ln_IncludeDeleted req = Some True);
          namespaces = fold (\<lambda>ns out. let state = namespaceState (cn_State ns)
            in if state = NS_DELETED \<and> \<not> includeDeleted then out else out @ [describeNamespace ns state]) (gr_Namespaces up) []
      in Inr (reply\<lparr>lr_Namespaces := namespaces, lr_NextPageToken := gr_NextPageToken up\<rparr>))"

definition listNamespaces :: "status_api \<Rightarrow> string \<Rightarrow> string \<Rightarrow> ('g, cloud_msg, 's) Translation" where
  "listNamespaces st hdr ver = WithHeader hdr ver
     (Adapt st ListNamespacesRequest_t GetNamespacesRequest_t GetNamespacesResponse_t ListNamespacesResponse_t
        listNamespacesMethod getNamespacesMethod listNamespacesRequest listNamespacesResponse)"

section \<open>answers.go\<close>

definition getClusterInfoMethod :: string where
  "getClusterInfoMethod = ''/'' @ WorkflowService @ ''/GetClusterInfo''"

definition resetReply :: "cloud_msg \<Rightarrow> cloud_msg \<Rightarrow> cloud_msg result" where
  "resetReply req reply = Inr (Reset reply)"

definition getClusterInfo :: "status_api \<Rightarrow> ('g, cloud_msg, 's) Translation" where
  "getClusterInfo st = Answer st Message_t Message_t getClusterInfoMethod resetReply"

section \<open>searchattributes.go\<close>

definition listSearchAttributesMethod :: string where
  "listSearchAttributesMethod = ''/'' @ OperatorService @ ''/ListSearchAttributes''"

definition getNamespaceMethod :: string where
  "getNamespaceMethod = ''/'' @ cloudService @ ''/GetNamespace''"

definition indexedValueType :: "SearchAttributeType \<Rightarrow> IndexedValueType" where
  "indexedValueType typ =
     (case typ of
        SA_TEXT \<Rightarrow> IV_TEXT | SA_KEYWORD \<Rightarrow> IV_KEYWORD | SA_INT \<Rightarrow> IV_INT | SA_DOUBLE \<Rightarrow> IV_DOUBLE | SA_BOOL \<Rightarrow> IV_BOOL
      | SA_DATETIME \<Rightarrow> IV_DATETIME | SA_KEYWORD_LIST \<Rightarrow> IV_KEYWORD_LIST
      | _ \<Rightarrow> IV_UNSPECIFIED)"

definition listSearchAttributesRequest :: "string \<Rightarrow> string result" where
  "listSearchAttributesRequest ns = Inr ns"

definition systemAttributes :: "IndexedValueType gomap" where
  "systemAttributes =
     [(''BatcherNamespace'', IV_KEYWORD),
      (''BatcherUser'', IV_KEYWORD),
      (''BinaryChecksums'', IV_KEYWORD_LIST),
      (''BuildIds'', IV_KEYWORD_LIST),
      (''CloseTime'', IV_DATETIME),
      (''ExecutionDuration'', IV_INT),
      (''ExecutionStatus'', IV_KEYWORD),
      (''ExecutionTime'', IV_DATETIME),
      (''HistoryLength'', IV_INT),
      (''HistorySizeBytes'', IV_INT),
      (''ParentRunId'', IV_KEYWORD),
      (''ParentWorkflowId'', IV_KEYWORD),
      (''RootRunId'', IV_KEYWORD),
      (''RootWorkflowId'', IV_KEYWORD),
      (''RunId'', IV_KEYWORD),
      (''StartTime'', IV_DATETIME),
      (''StateTransitionCount'', IV_INT),
      (''TaskQueue'', IV_KEYWORD),
      (''TemporalChangeVersion'', IV_KEYWORD_LIST),
      (''TemporalExternalPayloadCount'', IV_INT),
      (''TemporalExternalPayloadSizeBytes'', IV_INT),
      (''TemporalNamespaceDivision'', IV_KEYWORD),
      (''TemporalPauseInfo'', IV_KEYWORD_LIST),
      (''TemporalReportedProblems'', IV_KEYWORD_LIST),
      (''TemporalSchedulePaused'', IV_BOOL),
      (''TemporalScheduledById'', IV_KEYWORD),
      (''TemporalScheduledStartTime'', IV_DATETIME),
      (''TemporalUsedWorkerDeploymentVersions'', IV_KEYWORD_LIST),
      (''TemporalWorkerDeployment'', IV_KEYWORD),
      (''TemporalWorkerDeploymentVersion'', IV_KEYWORD),
      (''TemporalWorkflowVersioningBehavior'', IV_KEYWORD),
      (''WorkflowId'', IV_KEYWORD),
      (''WorkflowType'', IV_KEYWORD)]"

definition listSearchAttributesResponse :: "string \<Rightarrow> cloudNamespace option \<Rightarrow> ListSearchAttributesResponse
    \<Rightarrow> ListSearchAttributesResponse result" where
  "listSearchAttributesResponse req up reply =
     (let attrs = (case up of None \<Rightarrow> [] | Some ns \<Rightarrow> SearchAttributes (GetSpec ns));
          custom = fold (\<lambda>(name, typ) custom. AList.update name (indexedValueType typ) custom) attrs []
      in Inr ((newMessage ListSearchAttributesResponse_t)\<lparr>CustomAttributes := custom, SystemAttributes := systemAttributes\<rparr>))"

definition listSearchAttributes :: "status_api \<Rightarrow> string \<Rightarrow> string \<Rightarrow> ('g, cloud_msg, 's) Translation" where
  "listSearchAttributes st hdr ver = WithHeader hdr ver
     (Adapt st ListSearchAttributesRequest_t GetNamespaceRequest_t GetNamespaceResponse_t ListSearchAttributesResponse_t
        listSearchAttributesMethod getNamespaceMethod listSearchAttributesRequest listSearchAttributesResponse)"

section \<open>nexus.go\<close>

definition listNexusEndpointsMethod :: string where
  "listNexusEndpointsMethod = ''/'' @ OperatorService @ ''/ListNexusEndpoints''"

definition getNexusEndpointMethod :: string where
  "getNexusEndpointMethod = ''/'' @ OperatorService @ ''/GetNexusEndpoint''"

definition getNexusEndpointsMethod :: string where
  "getNexusEndpointsMethod = ''/'' @ cloudService @ ''/GetNexusEndpoints''"

definition getCloudNexusEndpointMethod :: string where
  "getCloudNexusEndpointMethod = ''/'' @ cloudService @ ''/GetNexusEndpoint''"

definition listNexusEndpointsRequest :: "ListNexusEndpointsRequest \<Rightarrow> GetNexusEndpointsRequest result" where
  "listNexusEndpointsRequest req =
     Inr \<lparr>xg_PageSize = min_int32 (xl_PageSize req) cloudPageLimit, xg_PageToken = xl_NextPageToken req, xg_Name = xl_Name req\<rparr>"

definition nexusEndpoint :: "cloudEndpoint option \<Rightarrow> nexusEndpointMsg" where
  "nexusEndpoint ep =
     (case ep of
        None \<Rightarrow> \<lparr>ne_Id = [], ne_CreatedTime = None, ne_LastModifiedTime = None, ne_Name = [], ne_Description = [], ne_Target = None\<rparr>
      | Some ep \<Rightarrow>
          \<lparr>ne_Id = ce_Id ep, ne_CreatedTime = ce_CreatedTime ep, ne_LastModifiedTime = ce_LastModifiedTime ep,
           ne_Name = ce_Name ep, ne_Description = ce_Description ep,
           ne_Target = map_option (\<lambda>w. (wt_NamespaceId w, wt_TaskQueue w)) (ce_Worker ep)\<rparr>)"

definition listNexusEndpointsResponse :: "ListNexusEndpointsRequest \<Rightarrow> GetNexusEndpointsResponse \<Rightarrow> ListNexusEndpointsResponse
    \<Rightarrow> ListNexusEndpointsResponse result" where
  "listNexusEndpointsResponse req up reply =
     (let endpoints = fold (\<lambda>ep out. if ce_State ep = RS_DELETED then out else out @ [nexusEndpoint (Some ep)]) (xgr_Endpoints up) []
      in Inr (reply\<lparr>xr_Endpoints := endpoints, xr_NextPageToken := xgr_NextPageToken up\<rparr>))"

definition getNexusEndpointRequest :: "string \<Rightarrow> string result" where
  "getNexusEndpointRequest ident = Inr ident"

definition getNexusEndpointResponse :: "string \<Rightarrow> cloudEndpoint option \<Rightarrow> nexusEndpointMsg option \<Rightarrow> nexusEndpointMsg option result" where
  "getNexusEndpointResponse req up reply = Inr (Some (nexusEndpoint up))"

definition listNexusEndpoints :: "status_api \<Rightarrow> string \<Rightarrow> string \<Rightarrow> ('g, cloud_msg, 's) Translation" where
  "listNexusEndpoints st hdr ver = WithHeader hdr ver
     (Adapt st ListNexusEndpointsRequest_t GetNexusEndpointsRequest_t GetNexusEndpointsResponse_t ListNexusEndpointsResponse_t
        listNexusEndpointsMethod getNexusEndpointsMethod listNexusEndpointsRequest listNexusEndpointsResponse)"

definition getNexusEndpoint :: "status_api \<Rightarrow> string \<Rightarrow> string \<Rightarrow> ('g, cloud_msg, 's) Translation" where
  "getNexusEndpoint st hdr ver = WithHeader hdr ver
     (Adapt st GetNexusEndpointRequest_t CloudGetNexusEndpointRequest_t CloudGetNexusEndpointResponse_t GetNexusEndpointResponse_t
        getNexusEndpointMethod getCloudNexusEndpointMethod getNexusEndpointRequest getNexusEndpointResponse)"

section \<open>mappings.go\<close>

definition defaultRegistry :: "status_api \<Rightarrow> string \<Rightarrow> string \<Rightarrow> ('g, cloud_msg, 's) registry result" where
  "defaultRegistry st hdr ver =
     NewRegistry [Some (listNamespaces st hdr ver), Some (getClusterInfo st), Some (listSearchAttributes st hdr ver),
                  Some (listNexusEndpoints st hdr ver), Some (getNexusEndpoint st hdr ver)]"

section \<open>internal/proxy/cloudns.go\<close>

text \<open>What is logged: method, local and remote namespace, error. \<open>log\<close> says whether there is a logger.\<close>

type_synonym cloudns_log = "string \<times> string \<times> string \<times> verr"

definition logNonCloudNamespace :: "'g grpc_api \<Rightarrow> 'g goctx \<Rightarrow> bool \<Rightarrow> string \<Rightarrow> (string \<Rightarrow> string) \<Rightarrow> cloudns_log list" where
  "logNonCloudNamespace api ctx log meth out =
     (if \<not> log then []
      else let localNS = NamespaceFrom api ctx
           in if localNS = [] then []
              else let remoteNS = out localNS
                   in case ValidateNamespace remoteNS of
                        None \<Rightarrow> []
                      | Some err \<Rightarrow> [(meth, localNS, remoteNS, err)])"

definition cloudNamespaceInterceptor :: "'g grpc_api \<Rightarrow> (string \<Rightarrow> string) \<Rightarrow> bool \<Rightarrow> 'g goctx \<Rightarrow> string \<Rightarrow> ('g goctx \<Rightarrow> string \<Rightarrow> 'r) \<Rightarrow> 'r \<times> cloudns_log list" where
  "cloudNamespaceInterceptor api out log ctx meth invoker = (invoker ctx meth, logNonCloudNamespace api ctx log meth out)"

section \<open>The mappings are adaptations\<close>

lemma fold_collect: "fold (\<lambda>x out. if P x then out else out @ [h x]) xs acc = acc @ map h (filter (\<lambda>x. \<not> P x) xs)"
  by (induction xs arbitrary: acc) auto

text \<open>The conversions, without the loops.\<close>

definition listed :: "bool \<Rightarrow> cloudNamespace list \<Rightarrow> DescribeNamespaceResponse list" where
  "listed includeDeleted nss = map (\<lambda>ns. describeNamespace ns (namespaceState (cn_State ns)))
     (filter (\<lambda>ns. \<not> (namespaceState (cn_State ns) = NS_DELETED \<and> \<not> includeDeleted)) nss)"

definition live_endpoints :: "cloudEndpoint list \<Rightarrow> nexusEndpointMsg list" where
  "live_endpoints eps = map (\<lambda>ep. nexusEndpoint (Some ep)) (filter (\<lambda>ep. ce_State ep \<noteq> RS_DELETED) eps)"

lemma listNamespacesResponse_listed:
  "listNamespacesResponse req up reply
   = Inr (reply\<lparr>lr_Namespaces := listed (ln_IncludeDeleted req = Some True) (gr_Namespaces up), lr_NextPageToken := gr_NextPageToken up\<rparr>)"
  unfolding listNamespacesResponse_def listed_def Let_def
  using fold_collect [of "\<lambda>ns. namespaceState (cn_State ns) = NS_DELETED \<and> ln_IncludeDeleted req \<noteq> Some True"
      "\<lambda>ns. describeNamespace ns (namespaceState (cn_State ns))" "gr_Namespaces up" "[]"]
  by (simp only: append_Nil)

lemma listNexusEndpointsResponse_live:
  "listNexusEndpointsResponse req up reply
   = Inr (reply\<lparr>xr_Endpoints := live_endpoints (xgr_Endpoints up), xr_NextPageToken := xgr_NextPageToken up\<rparr>)"
  using fold_collect [of "\<lambda>ep. ce_State ep = RS_DELETED" "\<lambda>ep. nexusEndpoint (Some ep)" "xgr_Endpoints up" "[]"]
  by (simp add: listNexusEndpointsResponse_def live_endpoints_def Let_def)

interpretation list_ns: adaptation ListNamespacesRequest_t GetNamespacesResponse_t ListNamespacesResponse_t
    GetNamespacesRequest_t listNamespacesRequest listNamespacesResponse
    "\<lambda>req. \<lparr>gn_PageSize = min_int32 (ln_PageSize req) cloudPageLimit, gn_PageToken = ln_NextPageToken req\<rparr>"
    "\<lambda>req up reply. reply\<lparr>lr_Namespaces := listed (ln_IncludeDeleted req = Some True) (gr_Namespaces up), lr_NextPageToken := gr_NextPageToken up\<rparr>"
  by unfold_locales (auto simp: cloud_types listNamespacesRequest_def listNamespacesResponse_listed split: cloud_msg.splits)

interpretation list_attrs: adaptation ListSearchAttributesRequest_t GetNamespaceResponse_t ListSearchAttributesResponse_t
    GetNamespaceRequest_t listSearchAttributesRequest listSearchAttributesResponse "\<lambda>ns. ns"
    "\<lambda>req up reply. \<lparr>CustomAttributes = fold (\<lambda>(name, typ) out. AList.update name (indexedValueType typ) out)
       (case up of None \<Rightarrow> [] | Some ns \<Rightarrow> SearchAttributes (GetSpec ns)) [], SystemAttributes = systemAttributes, StorageSchema = []\<rparr>"
  by unfold_locales
    (auto simp: cloud_types listSearchAttributesRequest_def listSearchAttributesResponse_def Let_def split: cloud_msg.splits)

interpretation list_nexus: adaptation ListNexusEndpointsRequest_t GetNexusEndpointsResponse_t ListNexusEndpointsResponse_t
    GetNexusEndpointsRequest_t listNexusEndpointsRequest listNexusEndpointsResponse
    "\<lambda>req. \<lparr>xg_PageSize = min_int32 (xl_PageSize req) cloudPageLimit, xg_PageToken = xl_NextPageToken req, xg_Name = xl_Name req\<rparr>"
    "\<lambda>req up reply. reply\<lparr>xr_Endpoints := live_endpoints (xgr_Endpoints up), xr_NextPageToken := xgr_NextPageToken up\<rparr>"
  by unfold_locales (auto simp: cloud_types listNexusEndpointsRequest_def listNexusEndpointsResponse_live split: cloud_msg.splits)

interpretation get_nexus: adaptation GetNexusEndpointRequest_t CloudGetNexusEndpointResponse_t GetNexusEndpointResponse_t
    CloudGetNexusEndpointRequest_t getNexusEndpointRequest getNexusEndpointResponse "\<lambda>x. x" "\<lambda>req up reply. Some (nexusEndpoint up)"
  by unfold_locales (auto simp: cloud_types getNexusEndpointRequest_def getNexusEndpointResponse_def split: cloud_msg.splits)

section \<open>The shipped registry\<close>

lemma canonical_shipped:
  "canonical_method listNamespacesMethod = Inr listNamespacesMethod" "canonical_method getNamespacesMethod = Inr getNamespacesMethod"
  "canonical_method getClusterInfoMethod = Inr getClusterInfoMethod"
  "canonical_method listSearchAttributesMethod = Inr listSearchAttributesMethod" "canonical_method getNamespaceMethod = Inr getNamespaceMethod"
  "canonical_method listNexusEndpointsMethod = Inr listNexusEndpointsMethod" "canonical_method getNexusEndpointsMethod = Inr getNexusEndpointsMethod"
  "canonical_method getNexusEndpointMethod = Inr getNexusEndpointMethod" "canonical_method getCloudNexusEndpointMethod = Inr getCloudNexusEndpointMethod"
  by code_simp+

lemmas method_names = listNamespacesMethod_def getNamespacesMethod_def getClusterInfoMethod_def listSearchAttributesMethod_def
  getNamespaceMethod_def listNexusEndpointsMethod_def getNexusEndpointsMethod_def getNexusEndpointMethod_def getCloudNexusEndpointMethod_def
  cloudService_def WorkflowService_def OperatorService_def

lemmas shipped_defs = listNamespaces_def getClusterInfo_def listSearchAttributes_def listNexusEndpoints_def getNexusEndpoint_def

lemma distinct_methods: "distinct [listNamespacesMethod, getClusterInfoMethod, listSearchAttributesMethod, listNexusEndpointsMethod, getNexusEndpointMethod]"
  by code_simp

lemma shipped_from_to:
  "t_from (listNamespaces st hdr ver) = listNamespacesMethod" "t_to (listNamespaces st hdr ver) = getNamespacesMethod"
  "t_from (getClusterInfo st) = getClusterInfoMethod" "t_to (getClusterInfo st) = []"
  "t_from (listSearchAttributes st hdr ver) = listSearchAttributesMethod" "t_to (listSearchAttributes st hdr ver) = getNamespaceMethod"
  "t_from (listNexusEndpoints st hdr ver) = listNexusEndpointsMethod" "t_to (listNexusEndpoints st hdr ver) = getNexusEndpointsMethod"
  "t_from (getNexusEndpoint st hdr ver) = getNexusEndpointMethod" "t_to (getNexusEndpoint st hdr ver) = getCloudNexusEndpointMethod"
  by (simp_all add: shipped_defs WithHeader_def Adapt_def Answer_def)

lemma canon_shipped:
  "canon listNamespacesMethod = listNamespacesMethod" "canon getNamespacesMethod = getNamespacesMethod"
  "canon getClusterInfoMethod = getClusterInfoMethod"
  "canon listSearchAttributesMethod = listSearchAttributesMethod" "canon getNamespaceMethod = getNamespaceMethod"
  "canon listNexusEndpointsMethod = listNexusEndpointsMethod" "canon getNexusEndpointsMethod = getNexusEndpointsMethod"
  "canon getNexusEndpointMethod = getNexusEndpointMethod" "canon getCloudNexusEndpointMethod = getCloudNexusEndpointMethod"
  using canonical_shipped by (simp_all add: canon_def)

lemma onto_cloud_differs:
  "getNamespacesMethod \<noteq> listNamespacesMethod" "getNamespaceMethod \<noteq> listSearchAttributesMethod"
  "getNexusEndpointsMethod \<noteq> listNexusEndpointsMethod" "getCloudNexusEndpointMethod \<noteq> getNexusEndpointMethod"
  by code_simp+

lemma defaultRegistry_value:
  "defaultRegistry st hdr ver
   = Inr [(listNamespacesMethod, listNamespaces st hdr ver), (getClusterInfoMethod, getClusterInfo st),
          (listSearchAttributesMethod, listSearchAttributes st hdr ver), (listNexusEndpointsMethod, listNexusEndpoints st hdr ver),
          (getNexusEndpointMethod, getNexusEndpoint st hdr ver)]"
proof -
  have same: "indexed t = t" if "canon (t_from t) = t_from t" "t_to t = [] \<or> canon (t_to t) = t_to t" for t :: "('a, cloud_msg, 'b) Translation"
    using that by (auto simp: indexed_def)
  show ?thesis
    unfolding defaultRegistry_def NewRegistry_def
    using distinct_methods
    by (subst register_iff)
      (simp_all add: well_formed_def is_full_method_def canonical_shipped canon_shipped shipped_from_to onto_cloud_differs same)
qed

lemma shipped_call:
  assumes "map_of r meth = Some t" "defaultRegistry st hdr ver = Inr r"
  shows "(\<forall>ctx m out send s. snd (t_call t ctx m out send s) = s)
    \<or> sends_at_most_once t \<and> t_headers t = [(hdr, ver)] \<and> HasPrefix (t_to t) (''/'' @ cloudService @ ''/'')"
proof -
  have once: "sends_at_most_once (listNamespaces st hdr ver :: ('a, cloud_msg, 'b) Translation)"
    "sends_at_most_once (listSearchAttributes st hdr ver :: ('a, cloud_msg, 'b) Translation)"
    "sends_at_most_once (listNexusEndpoints st hdr ver :: ('a, cloud_msg, 'b) Translation)"
    "sends_at_most_once (getNexusEndpoint st hdr ver :: ('a, cloud_msg, 'b) Translation)"
    by (simp_all add: shipped_defs Adapt_once)
  have headers: "t_headers (listNamespaces st hdr ver :: ('a, cloud_msg, 'b) Translation) = [(hdr, ver)]"
    "t_headers (listSearchAttributes st hdr ver :: ('a, cloud_msg, 'b) Translation) = [(hdr, ver)]"
    "t_headers (listNexusEndpoints st hdr ver :: ('a, cloud_msg, 'b) Translation) = [(hdr, ver)]"
    "t_headers (getNexusEndpoint st hdr ver :: ('a, cloud_msg, 'b) Translation) = [(hdr, ver)]"
    by (simp_all add: shipped_defs WithHeader_def Adapt_def)
  have cloud: "HasPrefix getNamespacesMethod (''/'' @ cloudService @ ''/'')" "HasPrefix getNamespaceMethod (''/'' @ cloudService @ ''/'')"
    "HasPrefix getNexusEndpointsMethod (''/'' @ cloudService @ ''/'')" "HasPrefix getCloudNexusEndpointMethod (''/'' @ cloudService @ ''/'')"
    by code_simp+
  have silent: "\<forall>ctx m out send s. snd (t_call (getClusterInfo st :: ('a, cloud_msg, 'b) Translation) ctx m out send s) = s"
    by (simp add: getClusterInfo_def Answer_silent)
  have "t \<in> {listNamespaces st hdr ver, getClusterInfo st, listSearchAttributes st hdr ver, listNexusEndpoints st hdr ver, getNexusEndpoint st hdr ver}"
    using assms by (auto simp: defaultRegistry_value split: if_splits)
  then show ?thesis using once headers cloud silent by (auto simp: shipped_from_to)
qed

section \<open>Paging\<close>

text \<open>A client that follows the page tokens, at most \<open>n\<close> pages far: a page lists items and names the next.\<close>

fun paged :: "nat \<Rightarrow> (string \<Rightarrow> 's \<Rightarrow> ('a list \<times> string) option \<times> 's) \<Rightarrow> string \<Rightarrow> 's \<Rightarrow> 'a list option \<times> 's" where
  "paged 0 page token s = (None, s)"
| "paged (Suc n) page token s =
     (case page token s of
        (None, s1) \<Rightarrow> (None, s1)
      | (Some (xs, next), s1) \<Rightarrow>
          if next = [] then (Some xs, s1)
          else case paged n page next s1 of (None, s2) \<Rightarrow> (None, s2) | (Some ys, s2) \<Rightarrow> (Some (xs @ ys), s2))"

lemma paged_image:
  assumes page: "\<And>token s. page' token s = map_prod (map_option (map_prod F id)) id (page token s)"
    and F: "\<And>xs ys. F (xs @ ys) = F xs @ F ys"
  shows "paged n page' token s = map_prod (map_option F) id (paged n page token s)"
proof (induction n arbitrary: token s)
  case (Suc n)
  obtain res s1 where "page token s = (res, s1)" by (cases "page token s")
  moreover obtain rest s2 where "paged n page (snd (the res)) s1 = (rest, s2)" by (metis prod.exhaust)
  ultimately show ?case using page [of token s] by (cases res; cases rest) (auto simp: Suc.IH F)
qed simp

text \<open>gRPC fills the reply it was given in place: it stays a message of its type.\<close>

definition in_place :: "('g, cloud_msg, 's) invoker \<Rightarrow> bool" where
  "in_place up \<longleftrightarrow>
     (\<forall>ctx meth req m s. \<exists>m'. snd (fst (up ctx meth req (Inr m) s)) = Inr m' \<and> Reset m' = Reset m)"

text \<open>One page as the caller of \<open>ListNamespaces\<close> gets it through the interceptor, and as Cloud answers
  \<open>GetNamespaces\<close>.\<close>

definition client_page :: "'g grpc_api \<Rightarrow> ('g, cloud_msg, 's) registry \<Rightarrow> ('g, cloud_msg, 's) invoker option \<Rightarrow> ('g, cloud_msg, 's) invoker
    \<Rightarrow> 'g goctx \<Rightarrow> 32 word \<Rightarrow> bool \<Rightarrow> string \<Rightarrow> 's \<Rightarrow> (DescribeNamespaceResponse list \<times> string) option \<times> 's" where
  "client_page api r via invoker ctx psize incl token s =
     (case method_unaryClientInterceptor api (Some r) via ctx listNamespacesMethod
         (Inr (M_ListNamespacesRequest \<lparr>ln_PageSize = psize, ln_NextPageToken = token, ln_IncludeDeleted = Some incl\<rparr>))
         (Inr (M_ListNamespacesResponse (newMessage ListNamespacesResponse_t))) invoker s of
        ((None, Inr (M_ListNamespacesResponse reply)), s') \<Rightarrow> (Some (lr_Namespaces reply, lr_NextPageToken reply), s')
      | (_, s') \<Rightarrow> (None, s'))"

definition cloud_page :: "('g, cloud_msg, 's) invoker \<Rightarrow> 'g goctx \<Rightarrow> 32 word \<Rightarrow> string \<Rightarrow> 's \<Rightarrow> (cloudNamespace list \<times> string) option \<times> 's" where
  "cloud_page up ctx psize token s =
     (case up ctx getNamespacesMethod (Inr (M_GetNamespacesRequest \<lparr>gn_PageSize = psize, gn_PageToken = token\<rparr>))
         (Inr (M_GetNamespacesResponse (newMessage GetNamespacesResponse_t))) s of
        ((None, Inr (M_GetNamespacesResponse reply)), s') \<Rightarrow> (Some (gr_Namespaces reply, gr_NextPageToken reply), s')
      | (_, s') \<Rightarrow> (None, s'))"

lemma Reset_GetNamespacesResponse: "Reset m = Reset (M_GetNamespacesResponse u) \<longleftrightarrow> (\<exists>v. m = M_GetNamespacesResponse v)"
  by (cases m) (simp_all add: Reset_def)

lemma client_page_cloud:
  assumes "defaultRegistry st hdr ver = Inr r" "in_place (case via of None \<Rightarrow> invoker | Some cc \<Rightarrow> cc)"
  shows "client_page api r via invoker ctx psize incl token s
    = map_prod (map_option (map_prod (listed incl) id)) id
        (cloud_page (case via of None \<Rightarrow> invoker | Some cc \<Rightarrow> cc) (withHeader api ctx hdr ver) (min_int32 psize cloudPageLimit) token s)"
proof -
  let ?up = "case via of None \<Rightarrow> invoker | Some cc \<Rightarrow> cc" and ?t = "listNamespaces st hdr ver"
  let ?u = "M_GetNamespacesResponse (newMessage GetNamespacesResponse_t)"
  let ?q = "M_GetNamespacesRequest \<lparr>gn_PageSize = min_int32 psize cloudPageLimit, gn_PageToken = token\<rparr>"
  have look: "Registry_Lookup (Some r) listNamespacesMethod = Some ?t"
    using assms(1) by (auto simp: Registry_Lookup_def defaultRegistry_value)
  have stamped: "stamp api ?t ctx = withHeader api ctx hdr ver"
    by (simp add: stamp_def listNamespaces_def WithHeader_def Adapt_def withHeader_def WithOutgoing_def Let_def)
  obtain err filled s' where up: "?up (withHeader api ctx hdr ver) getNamespacesMethod (Inr ?q) (Inr ?u) s = ((err, filled), s')"
    by (metis prod.exhaust)
  obtain v where v: "filled = Inr (M_GetNamespacesResponse v)"
    using assms(2) [unfolded in_place_def, rule_format, of "withHeader api ctx hdr ver" getNamespacesMethod "Inr ?q" ?u s] up
    by (auto simp: Reset_GetNamespacesResponse)
  have send: "sending api via ?t invoker ctx ?q ?u s = ((err, M_GetNamespacesResponse v), s')"
    using up v by (cases via) (simp_all add: sending_def invoke_def stamped shipped_from_to)
  have call: "t_call ?t = t_call (Adapt st ListNamespacesRequest_t GetNamespacesRequest_t GetNamespacesResponse_t ListNamespacesResponse_t
        listNamespacesMethod getNamespacesMethod listNamespacesRequest listNamespacesResponse)"
    by (simp add: listNamespaces_def WithHeader_def)
  have msgs: "message ListNamespacesRequest_t = M_ListNamespacesRequest" "message ListNamespacesResponse_t = M_ListNamespacesResponse"
    "message GetNamespacesRequest_t = M_GetNamespacesRequest" "message GetNamespacesResponse_t = M_GetNamespacesResponse"
    "asserted GetNamespacesResponse_t (M_GetNamespacesResponse v) = Some v"
    by (simp_all add: cloud_types)
  show ?thesis
    unfolding client_page_def cloud_page_def up interceptor_translates [OF look] call
    using list_ns.call_sends [of st listNamespacesMethod getNamespacesMethod ctx
        "\<lparr>ln_PageSize = psize, ln_NextPageToken = token, ln_IncludeDeleted = Some incl\<rparr>" "newMessage ListNamespacesResponse_t"
        "sending api via ?t invoker" s]
    by (simp add: msgs send v split: option.splits)
qed

section \<open>Properties\<close>

text \<open>
  C33. Calls are replaced only as the mapping says. The compiled-in registry is accepted. A method it
  does not translate, and a call whose arguments are not messages, is invoked as it came. For a
  method it translates at most one call goes out: to a method of \<open>CloudService\<close>, over the
  connection of \<open>Via\<close> where there is one, with the pinned version as the only value of the version header and every other
  header as it was. An error of that call is returned as it arrived, and the caller's reply is left alone.
\<close>

theorem Cloud_calls:
  assumes "metadata_doc api" "defaultRegistry st hdr ver = Inr r"
    and run_def: "run = method_unaryClientInterceptor api (Some r) via ctx meth req reply invoker s"
    and up_def: "up = (case via of None \<Rightarrow> invoker | Some cc \<Rightarrow> cc)"
  shows "(meth \<notin> set (Registry_Methods (Some r)) \<longrightarrow> run = invoker ctx meth req reply s)
    \<and> (isl req \<or> isl reply \<longrightarrow> run = invoker ctx meth req reply s)
    \<and> (meth \<in> set (Registry_Methods (Some r)) \<and> \<not> isl req \<and> \<not> isl reply \<longrightarrow>
        snd run = s
        \<or> (\<exists>to ctx' m out. HasPrefix to (''/'' @ cloudService @ ''/'') \<and> snd run = snd (up ctx' to (Inr m) (Inr out) s)
             \<and> (\<forall>k. MD_Get api (outgoing api ctx') k = (if ToLower k = ToLower hdr then [ver] else MD_Get api (outgoing api ctx) k))
             \<and> (\<forall>e. fst (fst (up ctx' to (Inr m) (Inr out) s)) = Some e \<longrightarrow> fst run = (Some e, reply))))"
proof (intro conjI impI)
  show "run = invoker ctx meth req reply s" if "meth \<notin> set (Registry_Methods (Some r))"
    unfolding run_def by (rule interceptor_passes) (use that in \<open>simp add: Registry_Lookup_def Registry_Methods_def map_of_eq_None_iff\<close>)
  show "run = invoker ctx meth req reply s" if "isl req \<or> isl reply"
    using that by (auto simp: run_def method_unaryClientInterceptor_def isl_def split: option.splits sum.splits)
  assume "meth \<in> set (Registry_Methods (Some r)) \<and> \<not> isl req \<and> \<not> isl reply"
  then obtain t m out where t: "map_of r meth = Some t" and io: "req = Inr m" "reply = Inr out"
    by (cases req; cases reply) (auto simp: Registry_Methods_def dest: weak_map_of_SomeI)
  have run: "run = (case t_call t ctx m out (sending api via t invoker) s of ((err, out'), s') \<Rightarrow> ((err, Inr out'), s'))"
    unfolding run_def io by (rule interceptor_translates) (simp add: Registry_Lookup_def t)
  from shipped_call [OF t assms(2)] show "snd run = s \<or> (\<exists>to ctx' m out. HasPrefix to (''/'' @ cloudService @ ''/'') \<and> snd run = snd (up ctx' to (Inr m) (Inr out) s)
             \<and> (\<forall>k. MD_Get api (outgoing api ctx') k = (if ToLower k = ToLower hdr then [ver] else MD_Get api (outgoing api ctx) k))
             \<and> (\<forall>e. fst (fst (up ctx' to (Inr m) (Inr out) s)) = Some e \<longrightarrow> fst run = (Some e, reply)))"
  proof (elim disjE conjE)
    assume "\<forall>ctx m out send s. snd (t_call t ctx m out send s) = s"
    then show ?thesis using run by (metis (no_types, lifting) case_prod_beta snd_conv)
  next
    assume once: "sends_at_most_once t" and h: "t_headers t = [(hdr, ver)]" and to: "HasPrefix (t_to t) (''/'' @ cloudService @ ''/'')"
    have send: "snd (sending api via t invoker ctx q u s) = snd (up (stamp api t ctx) (t_to t) (Inr q) (Inr u) s)"
      "fst (fst (sending api via t invoker ctx q u s)) = fst (fst (up (stamp api t ctx) (t_to t) (Inr q) (Inr u) s))" for q u
      by (cases via; simp add: sending_def invoke_def up_def split: prod.splits)+
    obtain err out' s' where call: "t_call t ctx m out (sending api via t invoker) s = ((err, out'), s')" by (metis prod.exhaust)
    have "s' = s \<or> (\<exists>q u. s' = snd (up (stamp api t ctx) (t_to t) (Inr q) (Inr u) s)
        \<and> (\<forall>e. fst (fst (up (stamp api t ctx) (t_to t) (Inr q) (Inr u) s)) = Some e \<longrightarrow> err = Some e \<and> out' = out))"
      using sends_at_most_onceD [OF once call] send by simp
    then show ?thesis
    proof (elim disjE exE conjE)
      fix q u
      assume "s' = snd (up (stamp api t ctx) (t_to t) (Inr q) (Inr u) s)"
        and "\<forall>e. fst (fst (up (stamp api t ctx) (t_to t) (Inr q) (Inr u) s)) = Some e \<longrightarrow> err = Some e \<and> out' = out"
      then have "HasPrefix (t_to t) (''/'' @ cloudService @ ''/'') \<and> snd run = snd (up (stamp api t ctx) (t_to t) (Inr q) (Inr u) s)
             \<and> (\<forall>k. MD_Get api (outgoing api (stamp api t ctx)) k = (if ToLower k = ToLower hdr then [ver] else MD_Get api (outgoing api ctx) k))
             \<and> (\<forall>e. fst (fst (up (stamp api t ctx) (t_to t) (Inr q) (Inr u) s)) = Some e \<longrightarrow> fst run = (Some e, reply))"
        using run call to stamp_header [OF assms(1) h, where ctx = ctx] io by simp
      then show ?thesis by blast
    qed (simp add: run call)
  qed
qed

text \<open>A Cloud that has one namespace and refuses a page size above the limit; its state counts calls.\<close>

definition ex_cloud :: "(ex_grpc, cloud_msg, nat) invoker" where
  "ex_cloud ctx meth req reply n =
     (case reply of
        Inr (M_GetNamespacesResponse u) \<Rightarrow>
          (case req of
             Inr (M_GetNamespacesRequest q) \<Rightarrow>
               (if 1000 < sint (gn_PageSize q) then ((Some (StatusError InvalidArgument ''page size''), reply), Suc n)
                else if gn_PageToken q = []
                then ((None, Inr (M_GetNamespacesResponse \<lparr>gr_Namespaces =
                  [\<lparr>cn_Namespace = ''a.x1'', cn_Spec = Some \<lparr>RetentionDays = 30, Replicas = [''r''], SearchAttributes = []\<rparr>, cn_State = RS_ACTIVE, cn_Tags = []\<rparr>,
                   \<lparr>cn_Namespace = ''b.x1'', cn_Spec = None, cn_State = RS_DELETED, cn_Tags = []\<rparr>], gr_NextPageToken = ''p2''\<rparr>)), Suc n)
                else ((None, Inr (M_GetNamespacesResponse \<lparr>gr_Namespaces =
                  [\<lparr>cn_Namespace = ''c.x1'', cn_Spec = None, cn_State = RS_SUSPENDED, cn_Tags = []\<rparr>], gr_NextPageToken = []\<rparr>)), Suc n))
           | _ \<Rightarrow> ((Some (StatusError PermissionDenied ''denied''), reply), Suc n))
      | _ \<Rightarrow> ((Some (StatusError PermissionDenied ''denied''), reply), Suc n))"

definition ex_frontend :: "(ex_grpc, cloud_msg, nat) invoker" where
  "ex_frontend ctx meth req reply n = ((Some (StatusError PermissionDenied meth), reply), n)"

definition ex_caller_ctx :: "ex_grpc goctx" where
  "ex_caller_ctx = \<lparr>grpc_part = \<lparr>g_in = None, g_out = Some [(''v'', [''old''])], g_method = None\<rparr>, targetKey = None, loopbackKey = None\<rparr>"

definition ex_registry_cloud :: "(ex_grpc, cloud_msg, nat) registry" where
  "ex_registry_cloud =
     [(listNamespacesMethod, listNamespaces ex_status ''V'' ''1''), (getClusterInfoMethod, getClusterInfo ex_status),
      (listSearchAttributesMethod, listSearchAttributes ex_status ''V'' ''1''), (listNexusEndpointsMethod, listNexusEndpoints ex_status ''V'' ''1''),
      (getNexusEndpointMethod, getNexusEndpoint ex_status ''V'' ''1'')]"

lemma ex_defaultRegistry: "defaultRegistry ex_status ''V'' ''1'' = Inr ex_registry_cloud"
  by (simp add: ex_registry_cloud_def defaultRegistry_value)

lemma ex_cloud_in_place: "in_place ex_cloud"
  unfolding in_place_def
proof (intro allI)
  fix ctx meth req m s
  show "\<exists>m'. snd (fst (ex_cloud ctx meth req (Inr m) s)) = Inr m' \<and> Reset m' = Reset m"
    by (cases m) (simp_all add: ex_cloud_def Reset_def split: sum.split cloud_msg.split)
qed

theorem Cloud_calls_witness:
  "method_unaryClientInterceptor ex_api (Some ex_registry_cloud) (Some ex_cloud) ex_caller_ctx ''/temporal.api.workflowservice.v1.WorkflowService/StartWorkflowExecution''
     (Inr (M_Other ''q'' [])) (Inr (M_Other ''p'' [])) ex_frontend 0
   = ((Some (StatusError PermissionDenied ''/temporal.api.workflowservice.v1.WorkflowService/StartWorkflowExecution''), Inr (M_Other ''p'' [])), 0)"
proof -
  have "''/temporal.api.workflowservice.v1.WorkflowService/StartWorkflowExecution'' \<notin> set (Registry_Methods (Some ex_registry_cloud))"
    unfolding Registry_Methods_def ex_registry_cloud_def by (simp add: method_names)
  with Cloud_calls [OF ex_api_doc ex_defaultRegistry refl refl, of "''/temporal.api.workflowservice.v1.WorkflowService/StartWorkflowExecution''"]
  show ?thesis unfolding ex_frontend_def by blast
qed

text \<open>
  Listing namespaces page by page. A client that follows the page tokens of
  \<open>ListNamespaces\<close> through the proxy sees what it would see following those of Cloud's
  \<open>GetNamespaces\<close>: the same pages in the same order and the same end, with every namespace described once
  and those being deleted left out unless asked for. No page asks Cloud for more than its limit.
\<close>

theorem ListNamespaces_pages:
  assumes "defaultRegistry st hdr ver = Inr r" "up = (case via of None \<Rightarrow> invoker | Some cc \<Rightarrow> cc)" "in_place up"
  shows "paged n (client_page api r via invoker ctx psize incl) token s
      = map_prod (map_option (\<lambda>nss. map (\<lambda>ns. describeNamespace ns (namespaceState (cn_State ns)))
            (filter (\<lambda>ns. namespaceState (cn_State ns) = NS_DELETED \<longrightarrow> incl) nss))) id
          (paged n (cloud_page up (withHeader api ctx hdr ver) (min_int32 psize cloudPageLimit)) token s)
    \<and> sint (min_int32 psize cloudPageLimit) \<le> 1000"
proof
  have listed: "listed incl = (\<lambda>nss. map (\<lambda>ns. describeNamespace ns (namespaceState (cn_State ns)))
            (filter (\<lambda>ns. namespaceState (cn_State ns) = NS_DELETED \<longrightarrow> incl) nss))"
    by (simp add: fun_eq_iff listed_def)
  show "paged n (client_page api r via invoker ctx psize incl) token s
      = map_prod (map_option (\<lambda>nss. map (\<lambda>ns. describeNamespace ns (namespaceState (cn_State ns)))
            (filter (\<lambda>ns. namespaceState (cn_State ns) = NS_DELETED \<longrightarrow> incl) nss))) id
          (paged n (cloud_page up (withHeader api ctx hdr ver) (min_int32 psize cloudPageLimit)) token s)"
    unfolding listed [symmetric] using assms(3) unfolding assms(2)
    by (intro paged_image client_page_cloud [OF assms(1)]) (simp_all add: listed_def)
  show "sint (min_int32 psize cloudPageLimit) \<le> 1000"
    by (auto simp: min_int32_def cloudPageLimit_def)
qed

theorem ListNamespaces_pages_witness:
  "map_option (map dn_Name) (fst (paged 5 (client_page ex_api ex_registry_cloud (Some ex_cloud) ex_frontend ex_caller_ctx 5000 False) [] 0))
   = Some [''a.x1'', ''c.x1'']"
proof -
  let ?lim = "min_int32 5000 cloudPageLimit"
  have lim: "?lim = 1000" by (simp add: min_int32_def cloudPageLimit_def)
  have "fst (paged 5 (cloud_page ex_cloud (withHeader ex_api ex_caller_ctx ''V'' ''1'') 1000) [] 0)
      = Some [\<lparr>cn_Namespace = ''a.x1'', cn_Spec = Some \<lparr>RetentionDays = 30, Replicas = [''r''], SearchAttributes = []\<rparr>, cn_State = RS_ACTIVE, cn_Tags = []\<rparr>,
              \<lparr>cn_Namespace = ''b.x1'', cn_Spec = None, cn_State = RS_DELETED, cn_Tags = []\<rparr>,
              \<lparr>cn_Namespace = ''c.x1'', cn_Spec = None, cn_State = RS_SUSPENDED, cn_Tags = []\<rparr>]"
    by (simp add: numeral_eq_Suc cloud_page_def ex_cloud_def)
  with ListNamespaces_pages [OF ex_defaultRegistry, where up = ex_cloud and via = "Some ex_cloud" and invoker = ex_frontend and n = 5
      and api = ex_api and ctx = ex_caller_ctx and psize = 5000 and incl = False and token = "[]" and s = 0]
  show ?thesis unfolding lim by (simp add: ex_cloud_in_place describeNamespace_def Let_def namespaceState_def)
qed

text \<open>
  Retention is carried over exactly. A namespace with a positive retention of at most
  106751 days, about 292 years, is described with that many days in nanoseconds, and one for which
  Cloud reports none is described without. Above the bound the 64-bit product wraps.
\<close>

theorem describeNamespace_retention:
  assumes "days = RetentionDays (GetSpec ns)"
  shows "(dn_RetentionTtl (describeNamespace ns state) = None \<longleftrightarrow> sint days \<le> 0)
    \<and> (0 < sint days \<and> sint days \<le> 106751 \<longrightarrow>
        (\<exists>d. dn_RetentionTtl (describeNamespace ns state) = Some d \<and> sint d = sint days * 86400 * 10 ^ 9))
    \<and> (sint days = 106752 \<longrightarrow> (\<exists>d. dn_RetentionTtl (describeNamespace ns state) = Some d \<and> sint d < 0))"
proof (intro conjI impI)
  show "dn_RetentionTtl (describeNamespace ns state) = None \<longleftrightarrow> sint days \<le> 0"
    using assms by (auto simp: describeNamespace_def Let_def)
  have ttl: "dn_RetentionTtl (describeNamespace ns state) = Some (word_of_int (sint days * 86400000000000))" if "0 < sint days"
  proof -
    have "word_of_int (sint days) * hoursPerDay = word_of_int (sint days * 86400000000000)"
      unfolding of_int_mult by (simp add: hoursPerDay_def)
    then show ?thesis using that assms by (simp only: describeNamespace_def Let_def DescribeNamespaceResponse.simps if_True)
  qed
  show "\<exists>d. dn_RetentionTtl (describeNamespace ns state) = Some d \<and> sint d = sint days * 86400 * 10 ^ 9"
    if "0 < sint days \<and> sint days \<le> 106751"
  proof -
    have "sint (word_of_int x :: 64 word) = x" if "0 \<le> x" "x < 2 ^ 63" for x using that by (simp add: int_word_sint)
    moreover have "0 \<le> sint days * 86400000000000" "sint days * 86400000000000 < 2 ^ 63" using that by simp_all
    ultimately have "sint (word_of_int (sint days * 86400000000000) :: 64 word) = sint days * 86400000000000" by blast
    then show ?thesis using ttl that by auto
  qed
  show "\<exists>d. dn_RetentionTtl (describeNamespace ns state) = Some d \<and> sint d < 0" if "sint days = 106752"
    using ttl that by simp
qed

theorem describeNamespace_retention_witness:
  "\<exists>d. dn_RetentionTtl (describeNamespace \<lparr>cn_Namespace = ''a.x1'', cn_Spec = Some \<lparr>RetentionDays = 30, Replicas = [], SearchAttributes = []\<rparr>,
      cn_State = RS_ACTIVE, cn_Tags = []\<rparr> NS_REGISTERED) = Some d \<and> sint d = 2592000 * 10 ^ 9"
  using describeNamespace_retention [OF refl, of "\<lparr>cn_Namespace = ''a.x1'', cn_Spec = Some \<lparr>RetentionDays = 30, Replicas = [], SearchAttributes = []\<rparr>,
      cn_State = RS_ACTIVE, cn_Tags = []\<rparr>" NS_REGISTERED] by (simp add: GetSpec_def)

end
