(* ===== verification/Outbound.thy ===== *)
theory Outbound
  imports Config Forward Translation Cloud_Methods
begin

text \<open>
  What an outbound connection is dialed with: the proxy's own credentials (\<open>internal/auth/outbound\<close>), its version
  (\<open>internal/proxy/version.go\<close>), the limits of the connection block (\<open>internal/proxy/connection.go\<close>), and the three places that
  put a connection together: an upstream's forwarder and the Cloud API beside it (\<open>internal/dataplane/dataplane.go\<close>) and an
  extension server (\<open>internal/api/fx.go\<close>).

  A dial option is a value of \<open>dialOption\<close> that says what it installs; \<open>unary_chain\<close> and \<open>stream_chain_of\<close> are the interceptors gRPC
  chains, the first outermost, and \<open>intercept_ctx\<close> the context each calls the next with. The bodies of the translating
  interceptors are in \<open>Translation\<close>, those of the codecs in \<open>Proxy_Codec\<close> and those of the methods in \<open>Method_Translation\<close>.
  Resolvers, connections and the pool are those of \<open>Connect\<close> and \<open>Pool\<close>, the transport credentials those of \<open>Creds\<close>.
\<close>

section \<open>internal/auth/outbound\<close>

record StaticCredentialProvider =
  cp_header :: string
  cp_value :: string

definition outbound_defaultHeader :: string where
  "outbound_defaultHeader = ''authorization''"

definition outbound_canonicalHeader :: "string \<Rightarrow> string" where
  "outbound_canonicalHeader h = (if h = [] then outbound_defaultHeader else ToLower h)"

definition NewStaticCredentialProvider :: "string \<Rightarrow> string \<Rightarrow> string \<Rightarrow> StaticCredentialProvider result" where
  "NewStaticCredentialProvider apiKey header scheme0 =
     (if apiKey = [] then Inl (ErrorString ''auth: api key is required'')
      else let scheme = ResolveScheme scheme0;
               v = (if scheme \<noteq> [] then scheme @ '' '' @ apiKey else apiKey)
           in Inr \<lparr>cp_header = outbound_canonicalHeader header, cp_value = v\<rparr>)"

definition GetRequestMetadata :: "StaticCredentialProvider \<Rightarrow> string gomap" where
  "GetRequestMetadata p = [(cp_header p, cp_value p)]"

definition RequireTransportSecurity :: "StaticCredentialProvider \<Rightarrow> bool" where
  "RequireTransportSecurity p = True"

definition CredentialProviderFor :: "CredentialConfig option \<Rightarrow> StaticCredentialProvider option result" where
  "CredentialProviderFor cfg =
     (case cfg of
        None \<Rightarrow> Inr None
      | Some c \<Rightarrow>
          (case cc_Static c of
             Some s \<Rightarrow>
               (case NewStaticCredentialProvider (sc_APIKey s) (sc_Header s) (sc_Scheme s) of
                  Inl err \<Rightarrow> Inl err
                | Inr cp \<Rightarrow> Inr (Some cp))
           | None \<Rightarrow> Inl (ErrorString ''auth: a credentials block was configured but no provider (static) was selected'')))"

text \<open>Client interceptors and dial options, by what they do. A codec interceptor has the rules that name its binding
  labels, and method translation the name of the connection translated calls go over.\<close>

datatype client_interceptor =
    TranslateNames NamespaceRules
  | CheckCloudNames NamespaceRules string
  | StampVersion string
  | StripHeader string
  | PayloadCodec "NamespaceRules option"
  | TranslateMethods string

datatype dialOption =
    ChainUnary client_interceptor
  | ChainStream client_interceptor
  | PerRPCCredentials StaticCredentialProvider
  | MaxCallRecvMsgSize int
  | KeepaliveParams int int
  | SRVResolvers
  | TransportCredentials dial_creds

definition outbound_DialOptions :: "StaticCredentialProvider \<Rightarrow> dialOption list" where
  "outbound_DialOptions cp =
     [PerRPCCredentials cp]
     @ (if cp_header cp \<noteq> [] then [ChainUnary (StripHeader (cp_header cp)), ChainStream (StripHeader (cp_header cp))] else [])"

definition stripOutgoingHeader :: "'g grpc_api \<Rightarrow> 'g goctx \<Rightarrow> string \<Rightarrow> 'g goctx" where
  "stripOutgoingHeader api ctx header =
     (case FromOutgoingContext api (grpc_part ctx) of
        None \<Rightarrow> ctx
      | Some _ \<Rightarrow> WithOutgoing api ctx (\<lambda>md. MD_Delete api md header))"

text \<open>The interceptors around an invoker, or a streamer, that takes the context.\<close>

definition stripOutgoing :: "'g grpc_api \<Rightarrow> string \<Rightarrow> ('g goctx \<Rightarrow> 'r) \<Rightarrow> 'g goctx \<Rightarrow> 'r" where
  "stripOutgoing api header invoker ctx = invoker (stripOutgoingHeader api ctx header)"

section \<open>version.go, connection.go and the interceptors of an upstream\<close>

definition VersionDialOptions :: "string \<Rightarrow> dialOption list" where
  "VersionDialOptions version =
     (if version = [] then [] else [ChainUnary (StampVersion version), ChainStream (StampVersion version)])"

definition versionInterceptor :: "'g grpc_api \<Rightarrow> string \<Rightarrow> ('g goctx \<Rightarrow> 'r) \<Rightarrow> 'g goctx \<Rightarrow> 'r" where
  "versionInterceptor api version invoker ctx = invoker (WithVersion api ctx version)"

definition ConnectionDialOptions :: "ConnectionConfig \<Rightarrow> dialOption list" where
  "ConnectionDialOptions c =
     [MaxCallRecvMsgSize (sint (ResponseLimit c)), KeepaliveParams (PingTime (cn_KeepAlive c)) (PingTimeout (cn_KeepAlive c))]"

definition TranslationDialOptions :: "NamespaceRules \<Rightarrow> dialOption list" where
  "TranslationDialOptions rules = [ChainUnary (TranslateNames rules), ChainStream (TranslateNames rules)]"

definition CloudNamespaceDialOptions :: "NamespaceRules \<Rightarrow> string \<Rightarrow> dialOption list" where
  "CloudNamespaceDialOptions rules name = [ChainUnary (CheckCloudNames rules name), ChainStream (CheckCloudNames rules name)]"

definition translation_DialOptions :: "string \<Rightarrow> dialOption list" where
  "translation_DialOptions via = [ChainUnary (TranslateMethods via)]"

text \<open>The interceptors gRPC chains for unary calls and for streams, the credentials of a call, and the context that reaches the transport. The codecs and
  the check of names pass it on; so does method translation, for a method it does not translate.\<close>

fun unary_chain :: "dialOption list \<Rightarrow> client_interceptor list" where
  "unary_chain [] = []"
| "unary_chain (ChainUnary i # opts) = i # unary_chain opts"
| "unary_chain (_ # opts) = unary_chain opts"

fun stream_chain_of :: "dialOption list \<Rightarrow> client_interceptor list" where
  "stream_chain_of [] = []"
| "stream_chain_of (ChainStream i # opts) = i # stream_chain_of opts"
| "stream_chain_of (_ # opts) = stream_chain_of opts"

fun per_rpc :: "dialOption list \<Rightarrow> StaticCredentialProvider list" where
  "per_rpc [] = []"
| "per_rpc (PerRPCCredentials p # opts) = p # per_rpc opts"
| "per_rpc (_ # opts) = per_rpc opts"

definition intercept_ctx :: "'g grpc_api \<Rightarrow> client_interceptor \<Rightarrow> 'g goctx \<Rightarrow> 'g goctx" where
  "intercept_ctx api i ctx =
     (case i of
        TranslateNames rules \<Rightarrow> rewriteNamespaceHeader api ctx (remote_of rules)
      | StampVersion v \<Rightarrow> versionInterceptor api v id ctx
      | StripHeader h \<Rightarrow> stripOutgoing api h id ctx
      | CheckCloudNames _ _ \<Rightarrow> ctx
      | PayloadCodec _ \<Rightarrow> ctx
      | TranslateMethods _ \<Rightarrow> ctx)"

definition wire_ctx :: "'g grpc_api \<Rightarrow> client_interceptor list \<Rightarrow> 'g goctx \<Rightarrow> 'g goctx" where
  "wire_ctx api chain ctx = fold (intercept_ctx api) chain ctx"

section \<open>Putting a connection together\<close>

text \<open>What the assembly calls outside the program, the build's version, and whether a reloader was given.\<close>

record 'g assembly =
  as_config :: config_env
  as_api :: "'g grpc_api"
  as_status :: status_api
  as_dial :: "dialOption dial_env"
  as_background :: "'g goctx"
  as_visitors :: "goerror option"
  as_cloudHeader :: string
  as_cloudVersion :: string
  as_version :: string
  as_reloader :: bool

text \<open>The TLS material known so far and the pooled connections.\<close>

record dial_state =
  ds_creds :: creds_world
  ds_pool :: "dialOption pool"

type_synonym 'g conn = "('g goctx, dialOption) Conn"

definition verr_error :: "verr \<Rightarrow> goerror" where
  "verr_error err = ErrorString (verr_text err)"

definition dialed :: "'g assembly \<Rightarrow> credential \<Rightarrow> string \<Rightarrow> creds_world \<Rightarrow> dialOption result \<times> creds_world" where
  "dialed A d serverName w =
     (case DialOption (ce_x509 (as_config A)) (ce_files (as_config A)) (ce_now (as_config A)) d serverName w of
        (Inl err, w') \<Rightarrow> (Inl (verr_error err), w')
      | (Inr c, w') \<Rightarrow> (Inr (TransportCredentials c), w'))"

text \<open>An upstream as \<open>Connect\<close> has it. A templated one asks its dialer again for every request; here it does so with the
  material of the moment it was put together.\<close>

definition upstream_view :: "'g assembly \<Rightarrow> credential \<Rightarrow> creds_world \<Rightarrow> ConfigUpstream \<Rightarrow> dialOption Upstream result" where
  "upstream_view A d w u =
     (case Templates u of
        Inl err \<Rightarrow> Inl err
      | Inr (_, None) \<Rightarrow> Inl (ErrorString ''panic: nil template'')
      | Inr (host, Some sn) \<Rightarrow>
          Inr \<lparr>up_Name = cu_Name u, up_HostPort = l_HostPort (cu_Listen u), up_TLS_ServerName = map_option t_ServerName (l_TLS (cu_Listen u)),
               up_hostTmpl = host, up_serverNameTmpl = sn, up_Rules = Rules (cu_Namespaces u),
               up_ConnectionDialOptions = ConnectionDialOptions (cu_Connection u), up_DialOption = (\<lambda>name. fst (dialed A d name w))\<rparr>)"

definition proxy_ResolverFor :: "'g assembly \<Rightarrow> ConfigUpstream \<Rightarrow> dialOption list \<Rightarrow> string \<Rightarrow> creds_world
    \<Rightarrow> (('g goctx, dialOption) Resolver \<times> bool) result \<times> creds_world" where
  "proxy_ResolverFor A u opts label w0 =
     (case ListenConfig_Dialer (cu_Listen u) [WithReloader (as_reloader A) label] w0 of
        (d, w) \<Rightarrow>
          (case upstream_view A d w u of
             Inl err \<Rightarrow> (Inl err, w)
           | Inr up \<Rightarrow>
               (map_sum id (\<lambda>r. (r, IsTemplated up)) (ResolverFor (as_api A) SRVResolvers up opts),
                if IsTemplated up then w else snd (dialed A d (server_name u) w))))"

definition keyedResolver :: "string \<Rightarrow> ('c, 'o) Resolver \<Rightarrow> ('c, 'o) Resolver" where
  "keyedResolver key r =
     r\<lparr>R_Resolve := (\<lambda>ctx. case R_Resolve r ctx of Inl err \<Rightarrow> Inl err | Inr (_, target, opts) \<Rightarrow> Inr (key, target, opts))\<rparr>"

definition credential_opts :: "StaticCredentialProvider option \<Rightarrow> dialOption list" where
  "credential_opts cp = (case cp of None \<Rightarrow> [] | Some p \<Rightarrow> outbound_DialOptions p)"

text \<open>\<open>cloudAPIConn\<close>: the connection, and the methods it logs as translated and as answered.\<close>

definition cloudAPIConn :: "'g assembly \<Rightarrow> Config \<Rightarrow> ConfigUpstream \<Rightarrow> dial_state
    \<Rightarrow> (string \<times> 'g conn \<times> string list) result \<times> dial_state" where
  "cloudAPIConn A cfg up s =
     (case (defaultRegistry (as_status A) (as_cloudHeader A) (as_cloudVersion A) :: ('g, cloud_msg, unit) registry result) of
        Inl err \<Rightarrow> (Inl (WrapError (''failed to build method translations: '' @ Error err) [err]), s)
      | Inr reg \<Rightarrow>
          (case CloudAPI_Upstream (as_config A) (at_CloudAPI (c_APITranslations cfg)) up of
             Inl errs \<Rightarrow> (Inl (verr_error (AsErrors errs)), s)
           | Inr api \<Rightarrow>
               (case CredentialProviderFor (cu_Credentials api) of
                  Inl err \<Rightarrow> (Inl (WrapError (''invalid credentials for the Cloud API of upstream '' @ cu_Name up @ '': '' @ Error err) [err]), s)
                | Inr cp \<Rightarrow>
                    (case proxy_ResolverFor A api (credential_opts cp) ''cloud_api'' (ds_creds s) of
                       (Inl err, w) \<Rightarrow> (Inl (WrapError (''failed to resolve the Cloud API of upstream '' @ cu_Name up @ '': '' @ Error err) [err]), s\<lparr>ds_creds := w\<rparr>)
                     | (Inr (res, _), w) \<Rightarrow>
                         (case NewConn (as_dial A) (as_background A) (keyedResolver (cu_Name api) res) [] (ds_pool s) of
                            (Inl err, p) \<Rightarrow> (Inl (WrapError (''failed to create the Cloud API client of upstream '' @ cu_Name up @ '': '' @ Error err) [err]),
                                             \<lparr>ds_creds = w, ds_pool = p\<rparr>)
                          | (Inr conn, p) \<Rightarrow>
                              (let (answered, translated) =
                                     partition (\<lambda>m. case Registry_Lookup (Some reg) m of Some t \<Rightarrow> t_to t = [] | None \<Rightarrow> False) (Registry_Methods (Some reg))
                               in (Inr (cu_Name api, conn,
                                     (if \<not> IsSaasAPI (at_CloudAPI (c_APITranslations cfg)) then [''the configured Cloud API is not a Temporal Cloud endpoint''] else [])
                                     @ [''translating methods to the Cloud API''] @ translated
                                     @ (if answered \<noteq> [] then ''answering methods Cloud cannot serve'' # answered else [])),
                                   \<lparr>ds_creds = w, ds_pool = p\<rparr>)))))))"

text \<open>A forwarder: its connection, whether it is opened before serving, and the Cloud API's connection.\<close>

record 'g forwarder =
  fw_conn :: "'g conn"
  fw_ready :: bool
  fw_cloudAPI :: "'g conn option"

definition base_opts :: "'g assembly \<Rightarrow> ConfigUpstream \<Rightarrow> dialOption list" where
  "base_opts A up =
     (let rules = Rules (cu_Namespaces up)
      in (if Configured rules then TranslationDialOptions rules else [])
         @ (if IsCloud (upstream_names up) then CloudNamespaceDialOptions rules (cu_Name up) @ VersionDialOptions (as_version A) else []))"

definition codec_rules :: "Config \<Rightarrow> ConfigUpstream \<Rightarrow> NamespaceRules option" where
  "codec_rules cfg up =
     (let labels = BindingRules (map upstream_names (c_Upstreams cfg)) (upstream_names up)
      in if Configured labels then Some labels else None)"

text \<open>The end of \<open>newUpstreamForwarder\<close>: the resolver, the connection and the forwarder over it.\<close>

definition forwarder_over :: "'g assembly \<Rightarrow> ConfigUpstream \<Rightarrow> dialOption list \<Rightarrow> 'g conn option \<Rightarrow> dial_state \<Rightarrow> 'g forwarder result \<times> dial_state" where
  "forwarder_over A up dialOpts api s =
     (case proxy_ResolverFor A up dialOpts (''upstream/'' @ cu_Name up) (ds_creds s) of
        (Inl err, w) \<Rightarrow> (Inl err, s\<lparr>ds_creds := w\<rparr>)
      | (Inr (res, templated), w) \<Rightarrow>
          (case NewConn (as_dial A) (as_background A) res [WithConnections (PoolSize templated (cu_Connection up))] (ds_pool s) of
             (Inl err, p) \<Rightarrow> (Inl err, \<lparr>ds_creds = w, ds_pool = p\<rparr>)
           | (Inr conn, p) \<Rightarrow> (Inr \<lparr>fw_conn = conn, fw_ready = IsStatic res, fw_cloudAPI = api\<rparr>, \<lparr>ds_creds = w, ds_pool = p\<rparr>)))"

definition newUpstreamForwarder :: "'g assembly \<Rightarrow> Config \<Rightarrow> ConfigUpstream \<Rightarrow> dial_state \<Rightarrow> 'g forwarder result \<times> dial_state" where
  "newUpstreamForwarder A cfg up s =
     (case CredentialProviderFor (cu_Credentials up) of
        Inl err \<Rightarrow> (Inl (WrapError (''invalid credentials for upstream '' @ cu_Name up @ '': '' @ Error err) [err]), s)
      | Inr cp \<Rightarrow>
          (case as_visitors A of
             Some err \<Rightarrow> (Inl (WrapError (''failed to build codec interceptor for upstream '' @ cu_Name up @ '': '' @ Error err) [err]), s)
           | None \<Rightarrow>
               (let dialOpts = base_opts A up @ credential_opts cp @ [ChainUnary (PayloadCodec (codec_rules cfg up))]
                in if IsCloud (upstream_names up)
                   then (case cloudAPIConn A cfg up s of
                           (Inl err, s) \<Rightarrow> (Inl err, s)
                         | (Inr (via, conn, _), s) \<Rightarrow> forwarder_over A up (dialOpts @ translation_DialOptions via) (Some conn) s)
                   else forwarder_over A up dialOpts None s)))"

text \<open>\<open>internal/api/fx.go\<close>: extension servers share the pool under a prefix of their own.\<close>

definition extensionKeyPrefix :: string where
  "extensionKeyPrefix = ''extension:''"

definition extensionConn :: "'g assembly \<Rightarrow> ExtensionServer \<Rightarrow> dial_state \<Rightarrow> 'g conn result \<times> dial_state" where
  "extensionConn A es s =
     (case CredentialProviderFor (es_Credentials es) of
        Inl err \<Rightarrow> (Inl (WrapError (''invalid credentials for extension server '' @ es_Name es @ '': '' @ Error err) [err]), s)
      | Inr cp \<Rightarrow>
          (let serverName = (case l_TLS (es_Listen es) of None \<Rightarrow> [] | Some t \<Rightarrow> t_ServerName t);
               (d, w) = ListenConfig_Dialer (es_Listen es) [WithReloader (as_reloader A) (''extension/'' @ es_Name es)] (ds_creds s)
           in case dialed A d serverName w of
                (Inl err, w) \<Rightarrow> (Inl (WrapError (''failed to build credentials for extension server '' @ es_Name es @ '': '' @ Error err) [err]), s\<lparr>ds_creds := w\<rparr>)
              | (Inr cred, w) \<Rightarrow>
                  (let hp = l_HostPort (es_Listen es); opts = credential_opts cp @ [cred]
                   in case NewConn (as_dial A) (as_background A) (keyedResolver (extensionKeyPrefix @ hp) (StaticResolver hp opts)) [] (ds_pool s) of
                        (res, p) \<Rightarrow> (res, \<lparr>ds_creds = w, ds_pool = p\<rparr>))))"

text \<open>The provider of the module: a connection per extension server, the first error ending it.\<close>

fun extension_conns :: "'g assembly \<Rightarrow> ExtensionServer list \<Rightarrow> 'g conn gomap \<Rightarrow> dial_state \<Rightarrow> 'g conn gomap result \<times> dial_state" where
  "extension_conns A [] out s = (Inr out, s)"
| "extension_conns A (es # ess) out s =
     (case extensionConn A es s of
        (Inl err, s) \<Rightarrow> (Inl err, s)
      | (Inr conn, s) \<Rightarrow> extension_conns A ess (AList.update (es_Name es) conn out) s)"

section \<open>Lemmas\<close>

subsection \<open>Chains\<close>

lemma unary_chain_append [simp]: "unary_chain (xs @ ys) = unary_chain xs @ unary_chain ys"
  by (induction xs rule: unary_chain.induct) simp_all

lemma stream_chain_append [simp]: "stream_chain_of (xs @ ys) = stream_chain_of xs @ stream_chain_of ys"
  by (induction xs rule: stream_chain_of.induct) simp_all

lemma per_rpc_append [simp]: "per_rpc (xs @ ys) = per_rpc xs @ per_rpc ys"
  by (induction xs rule: per_rpc.induct) simp_all

lemma wire_ctx_simps [simp]:
  "wire_ctx api [] ctx = ctx" "wire_ctx api (i # is) ctx = wire_ctx api is (intercept_ctx api i ctx)"
  "wire_ctx api (is @ js) ctx = wire_ctx api js (wire_ctx api is ctx)"
  by (simp_all add: wire_ctx_def)

lemmas dial_option_defs = TranslationDialOptions_def CloudNamespaceDialOptions_def VersionDialOptions_def
  outbound_DialOptions_def translation_DialOptions_def ConnectionDialOptions_def

subsection \<open>Headers\<close>

lemma WithOutgoing_outgoing:
  assumes "metadata_doc api" "lower_keys (fn (outgoing api ctx))"
  shows "outgoing api (WithOutgoing api ctx fn) = fn (outgoing api ctx)"
  using assms(2) metadata_docD(1) [OF assms(1)] by (simp add: WithOutgoing_def Let_def outgoing_def)

lemma strip_outgoing_get:
  assumes "metadata_doc api"
  shows "MD_Get api (outgoing api (stripOutgoingHeader api ctx h)) k = (if ToLower k = ToLower h then [] else MD_Get api (outgoing api ctx) k)"
proof (cases "FromOutgoingContext api (grpc_part ctx)")
  case None
  then show ?thesis using metadata_docD(7) [OF assms, of "[]" k] by (simp add: stripOutgoingHeader_def outgoing_def lower_keys_def lookup_all_def)
next
  case (Some md)
  have low: "lower_keys (MD_Delete api (outgoing api ctx) h)"
    using outgoing_lower [OF assms, of ctx] by (auto simp: metadata_docD(9) [OF assms] lower_keys_def)
  with WithOutgoing_outgoing [OF assms, where fn = "\<lambda>md. MD_Delete api md h"] strip_get [OF assms outgoing_lower [OF assms, of ctx], where hs = "[h]" and k = k] Some show ?thesis
    by (simp add: stripOutgoingHeader_def)
qed

lemma rewrite_outgoing_get:
  assumes "metadata_doc api"
  shows "MD_Get api (outgoing api (rewriteNamespaceHeader api ctx fn)) k =
    (if ToLower k = temporalNamespaceHeader then map fn (MD_Get api (outgoing api ctx) k) else MD_Get api (outgoing api ctx) k)"
proof -
  have t: "ToLower temporalNamespaceHeader = temporalNamespaceHeader" by code_simp
  have same: "MD_Get api (outgoing api ctx) k = MD_Get api (outgoing api ctx) temporalNamespaceHeader" if "ToLower k = temporalNamespaceHeader"
    using that t metadata_docD(7) [OF assms outgoing_lower [OF assms]] by simp
  show ?thesis
  proof (cases "FromOutgoingContext api (grpc_part ctx)")
    case None
    then show ?thesis using metadata_docD(7) [OF assms, of "[]" k] by (simp add: rewriteNamespaceHeader_def outgoing_def lower_keys_def lookup_all_def)
  next
    case (Some md)
    then have md: "outgoing api ctx = md" by (simp add: outgoing_def)
    show ?thesis
    proof (cases "MD_Get api md temporalNamespaceHeader = []")
      case True
      then show ?thesis using Some md same by (auto simp: rewriteNamespaceHeader_def)
    next
      case False
      have "lower_keys (MD_Set api (outgoing api ctx) temporalNamespaceHeader (map fn (MD_Get api md temporalNamespaceHeader)))"
        by (rule metadata_docD(3) [OF assms outgoing_lower [OF assms]])
      from WithOutgoing_outgoing [OF assms, where fn = "\<lambda>out. MD_Set api out temporalNamespaceHeader (map fn (MD_Get api md temporalNamespaceHeader))", OF this] False Some md t same show ?thesis
        by (simp add: rewriteNamespaceHeader_def metadata_docD(4) [OF assms])
    qed
  qed
qed

lemma intercept_get:
  assumes "metadata_doc api"
  shows "MD_Get api (outgoing api (intercept_ctx api i ctx)) k =
    (case i of
       TranslateNames rules \<Rightarrow> if ToLower k = temporalNamespaceHeader then map (remote_of rules) (MD_Get api (outgoing api ctx) k) else MD_Get api (outgoing api ctx) k
     | StampVersion v \<Rightarrow> if ToLower k = ToLower VersionHeader then [v] else MD_Get api (outgoing api ctx) k
     | StripHeader h \<Rightarrow> if ToLower k = ToLower h then [] else MD_Get api (outgoing api ctx) k
     | _ \<Rightarrow> MD_Get api (outgoing api ctx) k)"
  using assms by (cases i) (simp_all add: intercept_ctx_def versionInterceptor_def stripOutgoing_def rewrite_outgoing_get strip_outgoing_get
      WithVersion_def withHeader_get)

lemma cp_header_ok:
  assumes "CredentialProviderFor cfg = Inr (Some cp)"
  shows "cp_header cp \<noteq> [] \<and> ToLower (cp_header cp) = cp_header cp"
proof -
  have *: "outbound_canonicalHeader h \<noteq> [] \<and> ToLower (outbound_canonicalHeader h) = outbound_canonicalHeader h" for h
  proof (cases "h = []")
    case True
    have "ToLower outbound_defaultHeader = outbound_defaultHeader" by code_simp
    with True show ?thesis by (simp add: outbound_canonicalHeader_def outbound_defaultHeader_def)
  next
    case False
    then show ?thesis using canonicalHeader_lower [of h] by (simp add: outbound_canonicalHeader_def canonicalHeader_def ToLower_def)
  qed
  show ?thesis using assms *
    by (auto simp: CredentialProviderFor_def NewStaticCredentialProvider_def Let_def split: option.splits sum.splits if_splits)
qed

subsection \<open>The options of a connection\<close>

lemma map_sum_eq_Inr: "map_sum f g x = Inr y \<longleftrightarrow> (\<exists>z. x = Inr z \<and> g z = y)"
  by (cases x) auto

lemma proxy_ResolverFor_opts:
  assumes "proxy_ResolverFor A u opts0 label w = (Inr (res, t), w')" "R_Resolve res ctx = Inr (key, target, opts)"
  obtains c where "opts = opts0 @ ConnectionDialOptions (cu_Connection u) @ [SRVResolvers, TransportCredentials c]"
proof -
  obtain d w1 up where up: "upstream_view A d w1 u = Inr up" "ResolverFor (as_api A) SRVResolvers up opts0 = Inr res"
    using assms(1) by (auto simp: proxy_ResolverFor_def split: prod.splits sum.splits simp: map_sum_eq_Inr)
  from up(1) have conn: "up_ConnectionDialOptions up = ConnectionDialOptions (cu_Connection u)" "up_DialOption up = (\<lambda>name. fst (dialed A d name w1))"
    by (auto simp: upstream_view_def split: sum.splits option.splits)
  have cred: "\<exists>c. o1 = TransportCredentials c" if "up_DialOption up sn = Inr o1" for sn o1
    using that conn(2) by (auto simp: dialed_def split: prod.splits sum.splits)
  from up(2) assms(2) obtain sn o1 where "up_DialOption up sn = Inr o1" "opts = (opts0 @ up_ConnectionDialOptions up @ [SRVResolvers]) @ [o1]"
    by (auto simp: ResolverFor_def Let_def DynamicConnResolver_def NewDynamicResolver_def WithRemoteNamespacer_def WithOptionsFactory_def StaticResolver_def
          Dynamic_Resolve_def UpstreamContext.defs RouteData.defs split: if_splits sum.splits)
  with cred conn(1) that show thesis by fastforce
qed

lemma NewConn_resolver:
  "NewConn env bg r copts p = (Inr c, p') \<Longrightarrow> (\<And>o1 c0. o1 \<in> set copts \<Longrightarrow> resolver (o1 c0) = resolver c0) \<Longrightarrow> resolver c = r"
proof -
  have fold: "(\<forall>o1\<in>set copts. \<forall>c0. resolver (o1 c0) = resolver c0) \<Longrightarrow> resolver (fold (\<lambda>opt c. opt c) copts c0) = resolver c0" for c0
    by (induction copts arbitrary: c0) auto
  assume "NewConn env bg r copts p = (Inr c, p')" "\<And>o1 c0. o1 \<in> set copts \<Longrightarrow> resolver (o1 c0) = resolver c0"
  with fold show ?thesis by (auto simp: NewConn_def Let_def split: if_splits sum.splits prod.splits)
qed

lemma CloudAPI_Upstream_name: "CloudAPI_Upstream E c up = Inr api \<Longrightarrow> cu_Name api = cu_Name up @ ''/cloud-api''"
  by (auto simp: CloudAPI_Upstream_def Upstream_compile_def CloudAPI_upstream_def split: prod.splits option.splits if_splits)

lemma cloudAPIConn_cases:
  assumes "cloudAPIConn A cfg up s = (Inr (via, conn, logs), s')"
  obtains api cp res t w p where "CloudAPI_Upstream (as_config A) (at_CloudAPI (c_APITranslations cfg)) up = Inr api"
    "CredentialProviderFor (cu_Credentials api) = Inr cp"
    "proxy_ResolverFor A api (credential_opts cp) ''cloud_api'' (ds_creds s) = (Inr (res, t), w)"
    "NewConn (as_dial A) (as_background A) (keyedResolver (cu_Name api) res) [] (ds_pool s) = (Inr conn, p)" "via = cu_Name api"
proof -
  obtain reg where reg: "(defaultRegistry (as_status A) (as_cloudHeader A) (as_cloudVersion A) :: ('a, cloud_msg, unit) registry result) = Inr reg"
    using assms by (cases "defaultRegistry (as_status A) (as_cloudHeader A) (as_cloudVersion A) :: ('a, cloud_msg, unit) registry result") (simp_all add: cloudAPIConn_def)
  obtain api where api: "CloudAPI_Upstream (as_config A) (at_CloudAPI (c_APITranslations cfg)) up = Inr api"
    using assms by (cases "CloudAPI_Upstream (as_config A) (at_CloudAPI (c_APITranslations cfg)) up") (simp_all add: cloudAPIConn_def reg)
  obtain cp where cp: "CredentialProviderFor (cu_Credentials api) = Inr cp"
    using assms by (cases "CredentialProviderFor (cu_Credentials api)") (simp_all add: cloudAPIConn_def reg api)
  obtain r w where r: "proxy_ResolverFor A api (credential_opts cp) ''cloud_api'' (ds_creds s) = (r, w)" by fastforce
  obtain res t where rt: "r = Inr (res, t)" using assms by (cases r) (auto simp: cloudAPIConn_def reg api cp r)
  obtain c p where c: "NewConn (as_dial A) (as_background A) (keyedResolver (cu_Name api) res) [] (ds_pool s) = (c, p)" by fastforce
  have "c = Inr conn \<and> via = cu_Name api" using assms by (cases c) (simp_all add: cloudAPIConn_def reg api cp r rt c Let_def split: prod.splits)
  with api cp r rt c that show thesis by blast
qed

lemma cloudAPIConn_via: "cloudAPIConn A cfg up s = (Inr (via, conn, logs), s') \<Longrightarrow> via = cu_Name up @ ''/cloud-api''"
  by (erule cloudAPIConn_cases) (simp add: CloudAPI_Upstream_name)

text \<open>The options of an upstream's connection, from the outside in.\<close>

lemma newUpstreamForwarder_opts:
  assumes "newUpstreamForwarder A cfg up s = (Inr fw, s')" "R_Resolve (resolver (fw_conn fw)) ctx = Inr (key, target, opts)"
  obtains cp c where "CredentialProviderFor (cu_Credentials up) = Inr cp"
    "opts = base_opts A up @ credential_opts cp @ [ChainUnary (PayloadCodec (codec_rules cfg up))]
       @ (if IsCloud (upstream_names up) then translation_DialOptions (cu_Name up @ ''/cloud-api'') else [])
       @ ConnectionDialOptions (cu_Connection up) @ [SRVResolvers, TransportCredentials c]"
proof -
  obtain cp where cp: "CredentialProviderFor (cu_Credentials up) = Inr cp" "as_visitors A = None"
    using assms(1) by (auto simp: newUpstreamForwarder_def split: sum.splits option.splits)
  define opts0 where "opts0 = base_opts A up @ credential_opts cp @ [ChainUnary (PayloadCodec (codec_rules cfg up))]
       @ (if IsCloud (upstream_names up) then translation_DialOptions (cu_Name up @ ''/cloud-api'') else [])"
  obtain api s1 where "forwarder_over A up opts0 api s1 = (Inr fw, s')"
    using assms(1) by (auto simp: newUpstreamForwarder_def cp opts0_def Let_def dest!: cloudAPIConn_via split: sum.splits prod.splits if_splits)
  then obtain res t w p' where r: "proxy_ResolverFor A up opts0 (''upstream/'' @ cu_Name up) (ds_creds s1) = (Inr (res, t), w)"
      "NewConn (as_dial A) (as_background A) res [WithConnections (PoolSize t (cu_Connection up))] (ds_pool s1) = (Inr (fw_conn fw), p')"
    by (auto simp: forwarder_over_def split: sum.splits prod.splits)
  have "resolver (fw_conn fw) = res" by (rule NewConn_resolver [OF r(2)]) (auto simp: WithConnections_def)
  from proxy_ResolverFor_opts [OF r(1), of ctx key target opts] assms(2) this obtain c
    where "opts = opts0 @ ConnectionDialOptions (cu_Connection up) @ [SRVResolvers, TransportCredentials c]" by auto
  with cp(1) that show thesis by (auto simp: opts0_def)
qed

subsection \<open>Pool keys\<close>

text \<open>The shapes of the keys a connection takes from the pool.\<close>

definition static_key :: "string \<Rightarrow> string \<Rightarrow> bool" where
  "static_key hp k \<longleftrightarrow> k = hp \<or> (\<exists>i\<ge>0. k = hp @ ''#'' @ fmt_d i)"

lemma ParseInt_shape:
  assumes "ParseInt port = Some n"
  shows "CHR ''#'' \<notin> set port \<and> port \<noteq> [] \<and> isDigit (last port)"
proof -
  obtain c r where port: "port = c # r" using assms by (cases port) (simp_all add: ParseInt_def)
  define ds where "ds = (if c = CHR ''-'' \<or> c = CHR ''+'' then r else port)"
  have "parseDigits ds \<noteq> None" using assms by (auto simp: ParseInt_def port ds_def Let_def split: option.splits if_splits)
  then have d: "CHR ''#'' \<notin> set ds" "ds \<noteq> []" "isDigit (last ds)"
    by (auto simp: parseDigits_def list_all_iff isDigit_def split: if_splits)
  then show ?thesis by (auto simp: ds_def port split: if_splits)
qed

lemma IsHostPort_shape:
  assumes "IsHostPort hp = None"
  obtains host port where "hp = host @ CHR '':'' # port" "CHR '':'' \<notin> set port" "CHR ''#'' \<notin> set port" "port \<noteq> []" "isDigit (last port)"
    "CHR '':'' \<notin> set host \<or> HasPrefix hp ''[''"
proof -
  obtain host port n where h: "SplitHostPort hp = Some (host, port)" "ParseInt port = Some n"
    using assms by (auto simp: IsHostPort_def errInvalidHostPort_def split: option.splits prod.splits if_splits)
  then obtain i where i: "LastIndexChar hp (CHR '':'') = Some i" "port = drop (Suc i) hp" "CHR '':'' \<notin> set (take i hp) \<or> HasPrefix hp ''[''"
    by (auto simp: SplitHostPort_def Let_def split: option.splits if_splits prod.splits)
  show thesis
    using that [of "take i hp" port] LastIndexChar_SomeD [OF i(1)] ParseInt_shape [OF h(2)] i(2,3) by auto
qed

lemma last_sep_eq:
  assumes "a @ c # b = a' @ (c :: char) # b'" "c \<notin> set b" "c \<notin> set b'"
  shows "a = a' \<and> b = b'"
proof -
  have "length a = length a'" using LastIndexChar_append [of c b a] LastIndexChar_append [of c b' a'] assms by (metis option.inject)
  with assms(1) show ?thesis by simp
qed

lemma digits_no_sep: "0 \<le> i \<Longrightarrow> CHR '':'' \<notin> set (fmt_d i) \<and> CHR ''#'' \<notin> set (fmt_d i) \<and> fmt_d i \<noteq> [] \<and> isDigit (last (fmt_d i))"
  using fmt_d_digits [of i] by (auto simp: list_all_iff isDigit_def fmt_d_def)

text \<open>A key with a member number is no plain key, even under a prefix.\<close>

lemma numbered_key:
  assumes "IsHostPort hp = None" "IsHostPort hp' = None" "0 \<le> i"
  shows "pre @ hp \<noteq> hp' @ ''#'' @ fmt_d i"
proof
  assume eq: "pre @ hp = hp' @ ''#'' @ fmt_d i"
  from IsHostPort_shape [OF assms(1)] obtain h p where p: "hp = h @ CHR '':'' # p" "CHR '':'' \<notin> set p" "CHR ''#'' \<notin> set p" by metis
  from IsHostPort_shape [OF assms(2)] obtain h' p' where p': "hp' = h' @ CHR '':'' # p'" "CHR '':'' \<notin> set p'" by metis
  have "(pre @ h) @ CHR '':'' # p = h' @ CHR '':'' # (p' @ ''#'' @ fmt_d i)" using eq p p' by simp
  then have "p = p' @ ''#'' @ fmt_d i" using last_sep_eq [of "pre @ h" "CHR '':''" p h' "p' @ ''#'' @ fmt_d i"] p(2) p'(2) digits_no_sep [OF assms(3)] by simp
  with p(3) show False by simp
qed

lemma static_keys_apart:
  assumes "IsHostPort hp = None" "IsHostPort hp' = None" "static_key hp k" "static_key hp' k"
  shows "hp = hp'"
proof -
  consider "k = hp" "k = hp'" | i where "0 \<le> i" "hp = hp' @ ''#'' @ fmt_d i" | i where "0 \<le> i" "hp' = hp @ ''#'' @ fmt_d i"
    | i j where "0 \<le> i" "0 \<le> j" "hp @ ''#'' @ fmt_d i = hp' @ ''#'' @ fmt_d j"
    using assms(3,4) unfolding static_key_def by metis
  then show ?thesis
  proof cases
    case 2
    then show ?thesis using numbered_key [OF assms(1,2) 2(1), of "[]"] by simp
  next
    case 3
    then show ?thesis using numbered_key [OF assms(2,1) 3(1), of "[]"] by simp
  next
    case 4
    then show ?thesis using last_sep_eq [of hp "CHR ''#''" "fmt_d i" hp' "fmt_d j"] digits_no_sep by simp
  qed simp
qed

lemma static_not_extension:
  assumes "IsHostPort hp = None" "IsHostPort hp' = None" "static_key hp k"
  shows "k \<noteq> extensionKeyPrefix @ hp'"
proof
  assume k: "k = extensionKeyPrefix @ hp'"
  show False
  proof (cases "k = hp")
    case True
    from IsHostPort_shape [OF assms(1)] obtain h p where p: "hp = h @ CHR '':'' # p" "CHR '':'' \<notin> set p" "CHR '':'' \<notin> set h \<or> HasPrefix hp ''[''" by metis
    from IsHostPort_shape [OF assms(2)] obtain h' p' where p': "hp' = h' @ CHR '':'' # p'" "CHR '':'' \<notin> set p'" by metis
    have "(extensionKeyPrefix @ h') @ CHR '':'' # p' = h @ CHR '':'' # p" using True k p p' by simp
    then have "h = extensionKeyPrefix @ h'" using last_sep_eq p(2) p'(2) by metis
    with p(1,3) show False by (simp add: extensionKeyPrefix_def HasPrefix_def)
  next
    case False
    then obtain i where "0 \<le> i" "extensionKeyPrefix @ hp' = hp @ ''#'' @ fmt_d i" using assms(3) k by (auto simp: static_key_def)
    with numbered_key [OF assms(2,1)] show False by blast
  qed
qed

lemma static_last: "IsHostPort hp = None \<Longrightarrow> static_key hp k \<Longrightarrow> k \<noteq> [] \<and> isDigit (last k)"
  using IsHostPort_shape [of hp] digits_no_sep by (fastforce simp: static_key_def)

lemma NewConn_single:
  assumes "NewConn env bg (keyedResolver key r) [] p = (Inr c, p')"
  shows "conn_keys c \<subseteq> {key}"
proof -
  have "c = \<lparr>resolver = keyedResolver key r, c_size = 1, c_next = 0\<rparr>"
    using assms by (auto simp: NewConn_def Let_def split: if_splits sum.splits prod.splits)
  moreover have "k = key" if "R_Resolve (keyedResolver key r) ctx = Inr (k, target, opts)" for k ctx target opts
    using that by (cases "R_Resolve r ctx") (auto simp: keyedResolver_def)
  ultimately show ?thesis by (auto simp: conn_keys_def member_def)
qed

lemma cloudAPI_keys: "cloudAPIConn A cfg up s = (Inr (via, conn, logs), s') \<Longrightarrow> conn_keys conn \<subseteq> {cu_Name up @ ''/cloud-api''}"
  by (erule cloudAPIConn_cases) (auto dest!: NewConn_single CloudAPI_Upstream_name)

lemma extension_keys: "extensionConn A es s = (Inr conn, s') \<Longrightarrow> conn_keys conn \<subseteq> {extensionKeyPrefix @ l_HostPort (es_Listen es)}"
  by (auto simp: extensionConn_def Let_def dest!: NewConn_single split: sum.splits prod.splits)

lemma forwarder_over_keys:
  assumes "forwarder_over A up opts api s = (Inr fw, s')" "k \<in> conn_keys (fw_conn fw)"
  shows "fw_cloudAPI fw = api \<and> (if fw_ready fw then static_key (l_HostPort (cu_Listen up)) k else CHR 0x00 \<in> set k)"
proof -
  obtain res t w p' where r: "proxy_ResolverFor A up opts (''upstream/'' @ cu_Name up) (ds_creds s) = (Inr (res, t), w)"
      "NewConn (as_dial A) (as_background A) res [WithConnections (PoolSize t (cu_Connection up))] (ds_pool s) = (Inr (fw_conn fw), p')"
      "fw_ready fw = IsStatic res" "fw_cloudAPI fw = api"
    using assms(1) by (auto simp: forwarder_over_def split: sum.splits prod.splits)
  have res: "resolver (fw_conn fw) = res" by (rule NewConn_resolver [OF r(2)]) (auto simp: WithConnections_def)
  obtain d w1 v where v: "upstream_view A d w1 up = Inr v" "ResolverFor (as_api A) SRVResolvers v opts = Inr res"
    using r(1) by (auto simp: proxy_ResolverFor_def map_sum_eq_Inr split: prod.splits sum.splits)
  from v(1) have hp: "up_HostPort v = l_HostPort (cu_Listen up)" by (auto simp: upstream_view_def split: sum.splits option.splits)
  obtain key i ctx target o1 where k: "k = member (fw_conn fw) key i" "0 \<le> i" "R_Resolve res ctx = Inr (key, target, o1)"
    using assms(2) res by (auto simp: conn_keys_def)
  have "if IsStatic res then key = up_HostPort v else CHR 0x00 \<in> set key"
    using v(2) k(3) by (auto simp: ResolverFor_def Let_def DynamicConnResolver_def NewDynamicResolver_def WithRemoteNamespacer_def WithOptionsFactory_def
        StaticResolver_def Dynamic_Resolve_def split: if_splits sum.splits)
  with k r(3,4) hp show ?thesis by (auto simp: member_def static_key_def split: if_splits)
qed

lemma forwarder_keys:
  assumes "newUpstreamForwarder A cfg up s = (Inr fw, s')"
  shows "\<forall>k\<in>conn_keys (fw_conn fw). if fw_ready fw then static_key (l_HostPort (cu_Listen up)) k else CHR 0x00 \<in> set k"
    and "fw_cloudAPI fw = Some c \<Longrightarrow> conn_keys c \<subseteq> {cu_Name up @ ''/cloud-api''}"
proof -
  obtain opts api s1 where "forwarder_over A up opts api s1 = (Inr fw, s')"
      and api: "\<And>c. api = Some c \<Longrightarrow> conn_keys c \<subseteq> {cu_Name up @ ''/cloud-api''}"
    using assms by (auto simp: newUpstreamForwarder_def Let_def dest!: cloudAPI_keys split: sum.splits prod.splits if_splits option.splits)
  note over = forwarder_over_keys [OF this(1)]
  then show "\<forall>k\<in>conn_keys (fw_conn fw). if fw_ready fw then static_key (l_HostPort (cu_Listen up)) k else CHR 0x00 \<in> set k" by blast
  have "fw_cloudAPI fw = api" using \<open>forwarder_over A up opts api s1 = (Inr fw, s')\<close> by (auto simp: forwarder_over_def split: sum.splits prod.splits)
  then show "fw_cloudAPI fw = Some c \<Longrightarrow> conn_keys c \<subseteq> {cu_Name up @ ''/cloud-api''}" using api by blast
qed

text \<open>Names without a zero byte, and a host and port where it is not a template.\<close>

definition plain_hop :: "ConfigUpstream \<Rightarrow> bool \<Rightarrow> bool" where
  "plain_hop up static \<longleftrightarrow> CHR 0x00 \<notin> set (cu_Name up) \<and> CHR 0x00 \<notin> set (l_HostPort (cu_Listen up))
     \<and> (static \<longrightarrow> IsHostPort (l_HostPort (cu_Listen up)) = None)"

lemma static_no_zero: "static_key hp k \<Longrightarrow> CHR 0x00 \<notin> set hp \<Longrightarrow> CHR 0x00 \<notin> set k"
  using fmt_d_digits by (fastforce simp: static_key_def list_all_iff isDigit_def)

section \<open>Properties\<close>

text \<open>
  C16. Which hops share no pooled connection. The pool returns the first connection dialed for a key and ignores the
  options of later callers, so sharing a key would send one hop's requests under the credentials of another. Two upstreams with
  different host:ports share no key when at least one of them is not templated; the Cloud API beside an upstream shares none
  with an upstream, with another upstream's Cloud API or with an extension server; and an extension server shares none with an
  upstream. A host and port that is not a template is one that \<open>IsHostPort\<close> accepts (a target with a scheme is not
  covered), and configured names have no NUL byte. Two templated upstreams are left out: they can share.
\<close>

theorem pool_keys_apart:
  assumes "newUpstreamForwarder A cfg up s = (Inr fw, s')" "newUpstreamForwarder A cfg up2 t = (Inr fw2, t')" "extensionConn A es v = (Inr ec, v')"
    and "plain_hop up (fw_ready fw)" "plain_hop up2 (fw_ready fw2)" "CHR 0x00 \<notin> set (l_HostPort (es_Listen es))" "IsHostPort (l_HostPort (es_Listen es)) = None"
    and "cu_Name up \<noteq> cu_Name up2" "l_HostPort (cu_Listen up) \<noteq> l_HostPort (cu_Listen up2)"
  shows "(fw_ready fw \<or> fw_ready fw2 \<longrightarrow> conn_keys (fw_conn fw) \<inter> conn_keys (fw_conn fw2) = {})
    \<and> (\<forall>c. fw_cloudAPI fw = Some c \<longrightarrow>
         conn_keys c \<inter> (conn_keys (fw_conn fw) \<union> conn_keys (fw_conn fw2) \<union> conn_keys ec) = {}
         \<and> (\<forall>c2. fw_cloudAPI fw2 = Some c2 \<longrightarrow> conn_keys c \<inter> conn_keys c2 = {}))
    \<and> conn_keys ec \<inter> conn_keys (fw_conn fw) = {}"
proof -
  let ?hp = "l_HostPort (cu_Listen up)" and ?hp2 = "l_HostPort (cu_Listen up2)" and ?ehp = "l_HostPort (es_Listen es)"
  note k1 = forwarder_keys [OF assms(1)] and k2 = forwarder_keys [OF assms(2)] and ke = extension_keys [OF assms(3)]
  have ok: "CHR 0x00 \<notin> set ?hp" "CHR 0x00 \<notin> set ?hp2" "CHR 0x00 \<notin> set (cu_Name up)"
      "fw_ready fw \<Longrightarrow> IsHostPort ?hp = None" "fw_ready fw2 \<Longrightarrow> IsHostPort ?hp2 = None"
    using assms(4,5) by (simp_all add: plain_hop_def)
  have last_api: "\<not> isDigit (last (n @ ''/cloud-api''))" for n by (simp add: isDigit_def)
  have last_ext: "isDigit (last (extensionKeyPrefix @ ?ehp))" using static_last [OF assms(7), of ?ehp] by (simp add: static_key_def)
  have shape: "fw_ready fw \<and> static_key ?hp k \<or> \<not> fw_ready fw \<and> CHR 0x00 \<in> set k" if "k \<in> conn_keys (fw_conn fw)" for k
    using k1(1) that by (metis (full_types))
  have shape2: "fw_ready fw2 \<and> static_key ?hp2 k \<or> \<not> fw_ready fw2 \<and> CHR 0x00 \<in> set k" if "k \<in> conn_keys (fw_conn fw2)" for k
    using k2(1) that by (metis (full_types))
  have static: "k \<noteq> cu_Name up @ ''/cloud-api''" if "static_key hp k" "IsHostPort hp = None" for hp k
    using static_last [OF that(2,1)] last_api by metis
  have zero: "CHR 0x00 \<notin> set (cu_Name up @ ''/cloud-api'')" "CHR 0x00 \<notin> set (extensionKeyPrefix @ ?ehp)"
    using ok(3) assms(6) by (simp_all add: extensionKeyPrefix_def)
  have cloud: "cu_Name up @ ''/cloud-api'' \<noteq> k" if "k \<in> conn_keys (fw_conn fw) \<union> conn_keys (fw_conn fw2)" for k
    using that shape [of k] shape2 [of k] static [OF _ ok(4)] static [OF _ ok(5)] zero(1) by blast
  have two: False if "k \<in> conn_keys (fw_conn fw)" "k \<in> conn_keys (fw_conn fw2)" "fw_ready fw \<or> fw_ready fw2" for k
    using that(3) shape [OF that(1)] shape2 [OF that(2)] static_keys_apart [OF ok(4,5), of k] static_no_zero [OF _ ok(1), of k] static_no_zero [OF _ ok(2), of k] assms(9)
    by blast
  have ext: "extensionKeyPrefix @ ?ehp \<noteq> k" if "k \<in> conn_keys (fw_conn fw)" for k
    using shape [OF that] static_not_extension [OF ok(4) assms(7), of k] zero(2) by blast
  show ?thesis
  proof (intro conjI allI impI)
    show "conn_keys (fw_conn fw) \<inter> conn_keys (fw_conn fw2) = {}" if "fw_ready fw \<or> fw_ready fw2" using two that by blast
    show "conn_keys ec \<inter> conn_keys (fw_conn fw) = {}" using ke ext by blast
    fix c assume c: "fw_cloudAPI fw = Some c"
    have "extensionKeyPrefix @ ?ehp \<noteq> cu_Name up @ ''/cloud-api''" using last_ext last_api by metis
    then show "conn_keys c \<inter> (conn_keys (fw_conn fw) \<union> conn_keys (fw_conn fw2) \<union> conn_keys ec) = {}"
      using k1(2) [OF c] ke cloud by blast
    fix c2 assume "fw_cloudAPI fw2 = Some c2"
    with k2(2) k1(2) [OF c] assms(8) show "conn_keys c \<inter> conn_keys c2 = {}" by fastforce
  qed
qed

text \<open>
  C10. What an upstream sees in the headers of a call. The connection carries the configured credential and no other, and a value
  the caller sent in the credential's header is gone, for unary calls and for streams. Cloud upstreams are told the
  version of the proxy, whatever the caller claims; the namespace header has its values translated where
  rules are configured; and every other header arrives as it was forwarded.
\<close>

theorem wire_headers:
  assumes "metadata_doc (as_api A)" "newUpstreamForwarder A cfg up s = (Inr fw, s')"
    and "R_Resolve (resolver (fw_conn fw)) ctx = Inr (key, target, opts)"
    and "chain = unary_chain opts \<or> chain = stream_chain_of opts"
  shows "\<exists>cp. CredentialProviderFor (cu_Credentials up) = Inr cp
    \<and> per_rpc opts = (case cp of None \<Rightarrow> [] | Some p \<Rightarrow> [p])
    \<and> (\<forall>call k. MD_Get (as_api A) (outgoing (as_api A) (wire_ctx (as_api A) chain call)) k =
         (if map_option cp_header cp = Some (ToLower k) then []
          else if IsCloud (upstream_names up) \<and> as_version A \<noteq> [] \<and> ToLower k = VersionHeader then [as_version A]
          else if Configured (Rules (cu_Namespaces up)) \<and> ToLower k = temporalNamespaceHeader
          then map (remote_of (Rules (cu_Namespaces up))) (MD_Get (as_api A) (outgoing (as_api A) call) k)
          else MD_Get (as_api A) (outgoing (as_api A) call) k))"
proof -
  have low: "ToLower VersionHeader = VersionHeader" "VersionHeader \<noteq> temporalNamespaceHeader" by code_simp+
  from newUpstreamForwarder_opts [OF assms(2,3)] obtain cp c where cp: "CredentialProviderFor (cu_Credentials up) = Inr cp"
    and opts: "opts = base_opts A up @ credential_opts cp @ [ChainUnary (PayloadCodec (codec_rules cfg up))]
       @ (if IsCloud (upstream_names up) then translation_DialOptions (cu_Name up @ ''/cloud-api'') else [])
       @ ConnectionDialOptions (cu_Connection up) @ [SRVResolvers, TransportCredentials c]" .
  have header: "cp_header p \<noteq> [] \<and> ToLower (cp_header p) = cp_header p" if "cp = Some p" for p using cp_header_ok cp that by blast
  have "per_rpc opts = (case cp of None \<Rightarrow> [] | Some p \<Rightarrow> [p])"
    by (auto simp: opts base_opts_def credential_opts_def dial_option_defs Let_def split: option.split)
  moreover have front: "stream_chain_of (base_opts A up @ credential_opts cp) = unary_chain (base_opts A up @ credential_opts cp)"
    by (cases cp) (simp_all add: base_opts_def credential_opts_def dial_option_defs Let_def)
  obtain ends where ends: "chain = unary_chain (base_opts A up @ credential_opts cp) @ ends"
      "\<And>i. i \<in> set ends \<Longrightarrow> \<exists>r v. i = PayloadCodec r \<or> i = TranslateMethods v"
  proof (cases "chain = unary_chain opts")
    case True
    then show thesis using that [of "PayloadCodec (codec_rules cfg up) # (if IsCloud (upstream_names up) then [TranslateMethods (cu_Name up @ ''/cloud-api'')] else [])"]
      by (auto simp: opts dial_option_defs split: if_splits)
  next
    case False
    then show thesis using assms(4) front that [of "[]"] by (simp add: opts dial_option_defs split: if_splits)
  qed
  have "wire_ctx (as_api A) is call = call" if "\<forall>i\<in>set is. \<exists>r v. i = PayloadCodec r \<or> i = TranslateMethods v" for "is" call
    using that
  proof (induction "is")
    case (Cons i "is")
    then have "intercept_ctx (as_api A) i call = call" by (auto simp: intercept_ctx_def)
    with Cons show ?case by simp
  qed simp
  then have "wire_ctx (as_api A) chain call = wire_ctx (as_api A) (unary_chain (base_opts A up @ credential_opts cp)) call" for call
    using ends by simp
  moreover have "MD_Get (as_api A) (outgoing (as_api A) (wire_ctx (as_api A) (unary_chain (base_opts A up @ credential_opts cp)) call)) k =
         (if map_option cp_header cp = Some (ToLower k) then []
          else if IsCloud (upstream_names up) \<and> as_version A \<noteq> [] \<and> ToLower k = VersionHeader then [as_version A]
          else if Configured (Rules (cu_Namespaces up)) \<and> ToLower k = temporalNamespaceHeader
          then map (remote_of (Rules (cu_Namespaces up))) (MD_Get (as_api A) (outgoing (as_api A) call) k)
          else MD_Get (as_api A) (outgoing (as_api A) call) k)" for call k
    using header low
    by (cases cp) (auto simp: base_opts_def credential_opts_def dial_option_defs Let_def intercept_get [OF assms(1)])
  ultimately show ?thesis using cp by auto
qed

section \<open>Witnesses\<close>

definition ex_assembly :: "ex_grpc assembly" where
  "ex_assembly = \<lparr>as_config = ex_config_env, as_api = ex_api, as_status = ex_status,
     as_dial = \<lparr>NewClient_err = (\<lambda>_ _. None), Close_err = (\<lambda>_. None)\<rparr>, as_background = ex_ctx, as_visitors = None,
     as_cloudHeader = ''v'', as_cloudVersion = ''1'', as_version = ''1.2'', as_reloader = True\<rparr>"

definition ex_dial_state :: dial_state where
  "ex_dial_state = \<lparr>ds_creds = NewReloader, ds_pool = NewPool\<rparr>"

definition ex_hop :: "bool \<Rightarrow> string \<Rightarrow> string \<Rightarrow> ConfigUpstream" where
  "ex_hop cloud name hp =
     snd (Upstream_compile ex_config_env
       \<lparr>cu_Name = name, cu_Cloud = cloud, cu_Listen = plain_listen hp, cu_Namespaces = no_rules,
        cu_Credentials = Some ex_credential, cu_Connection = zero_Connection, cu_hostTmpl = None, cu_serverNameTmpl = None\<rparr>)"

definition ex_extension :: ExtensionServer where
  "ex_extension = \<lparr>es_Name = ''keys'', es_Listen = plain_listen ''h:1'', es_Credentials = None\<rparr>"

lemma ex_forwarders:
  "\<not> isl (fst (newUpstreamForwarder ex_assembly (ex_config False) (ex_hop False ''a'' ''h:1'') ex_dial_state))"
  "\<not> isl (fst (newUpstreamForwarder ex_assembly (ex_config False) (ex_hop True ''b'' ''g:2'') ex_dial_state))"
  "\<not> isl (fst (extensionConn ex_assembly ex_extension ex_dial_state))"
  by code_simp+

lemma ex_plain_hop: "plain_hop (ex_hop False ''a'' ''h:1'') b" "plain_hop (ex_hop True ''b'' ''g:2'') b"
  by (cases b; code_simp)+

theorem pool_keys_apart_witness:
  "\<exists>fw fw2 ec s t v. newUpstreamForwarder ex_assembly (ex_config False) (ex_hop True ''b'' ''g:2'') ex_dial_state = (Inr fw, s)
     \<and> newUpstreamForwarder ex_assembly (ex_config False) (ex_hop False ''a'' ''h:1'') ex_dial_state = (Inr fw2, t)
     \<and> extensionConn ex_assembly ex_extension ex_dial_state = (Inr ec, v)
     \<and> conn_keys ec \<inter> conn_keys (fw_conn fw) = {}"
proof -
  from ex_forwarders obtain fw fw2 ec s t v where
    "newUpstreamForwarder ex_assembly (ex_config False) (ex_hop True ''b'' ''g:2'') ex_dial_state = (Inr fw, s)"
    "newUpstreamForwarder ex_assembly (ex_config False) (ex_hop False ''a'' ''h:1'') ex_dial_state = (Inr fw2, t)"
    "extensionConn ex_assembly ex_extension ex_dial_state = (Inr ec, v)"
    by (metis isl_def prod.collapse sum.exhaust_sel)
  note fws = this
  have "CHR 0x00 \<notin> set (l_HostPort (es_Listen ex_extension))" "IsHostPort (l_HostPort (es_Listen ex_extension)) = None"
    "cu_Name (ex_hop True ''b'' ''g:2'') \<noteq> cu_Name (ex_hop False ''a'' ''h:1'')"
    "l_HostPort (cu_Listen (ex_hop True ''b'' ''g:2'')) \<noteq> l_HostPort (cu_Listen (ex_hop False ''a'' ''h:1''))" by code_simp+
  from pool_keys_apart [OF fws ex_plain_hop(2) ex_plain_hop(1) this] fws show ?thesis by blast
qed

definition ex_call :: "ex_grpc goctx" where
  "ex_call = ex_ctx\<lparr>grpc_part := \<lparr>g_in = None, g_out = Some [(''authorization'', [''stolen'']), (VersionHeader, [''fake''])], g_method = None\<rparr>\<rparr>"

theorem wire_headers_witness:
  "\<exists>fw s opts. newUpstreamForwarder ex_assembly (ex_config False) (ex_hop True ''b'' ''g:2'') ex_dial_state = (Inr fw, s)
     \<and> R_Resolve (resolver (fw_conn fw)) ex_ctx = Inr (''g:2'', ''g:2'', opts)
     \<and> per_rpc opts = [\<lparr>cp_header = ''authorization'', cp_value = ''Bearer secret''\<rparr>]
     \<and> MD_Get ex_api (outgoing ex_api (wire_ctx ex_api (unary_chain opts) ex_call)) ''Authorization'' = []
     \<and> MD_Get ex_api (outgoing ex_api (wire_ctx ex_api (unary_chain opts) ex_call)) VersionHeader = [''1.2'']"
proof -
  let ?up = "ex_hop True ''b'' ''g:2''"
  obtain fw s where fw: "newUpstreamForwarder ex_assembly (ex_config False) ?up ex_dial_state = (Inr fw, s)"
    using ex_forwarders(2) by (metis isl_def prod.collapse sum.exhaust_sel)
  have "map_sum id (\<lambda>fw. case R_Resolve (resolver (fw_conn fw)) ex_ctx of Inr (key, target, _) \<Rightarrow> (key, target) | Inl _ \<Rightarrow> ([], []))
      (fst (newUpstreamForwarder ex_assembly (ex_config False) ?up ex_dial_state)) = Inr (''g:2'', ''g:2'')" by code_simp
  then obtain opts where opts: "R_Resolve (resolver (fw_conn fw)) ex_ctx = Inr (''g:2'', ''g:2'', opts)"
    by (auto simp: fw split: sum.splits prod.splits)
  have facts: "CredentialProviderFor (cu_Credentials ?up) = Inr (Some \<lparr>cp_header = ''authorization'', cp_value = ''Bearer secret''\<rparr>)"
    "IsCloud (upstream_names ?up)" "ToLower ''Authorization'' = ''authorization''" "ToLower VersionHeader = VersionHeader" "VersionHeader \<noteq> ''authorization''" by code_simp+
  have "metadata_doc (as_api ex_assembly)" by (simp add: ex_assembly_def ex_api_doc)
  from wire_headers [OF this fw opts, of "unary_chain opts"] facts fw opts show ?thesis
    by (intro exI [of _ fw] exI [of _ s] exI [of _ opts]) (auto simp: ex_assembly_def split: if_splits)
qed

end
