(* ===== verification/Shared_Pool.thy ===== *)
theory Shared_Pool
  imports Outbound
begin

text \<open>
  The pool as the whole program uses it: one \<open>Pool\<close> (\<open>internal/transport/connect/pool.go\<close>) is given to the connections of all
  upstreams, of the Cloud APIs beside them (\<open>internal/dataplane/dataplane.go\<close>) and of the extension servers
  (\<open>internal/api/fx.go\<close>). A state holds the hops that have been built, each with its connection as it is now, and the state they
  share; a step builds a hop, makes a call over one, waits for one, or changes the TLS material. A build that fails ends the
  program, so it is no step. Calls are atomic here; how they interleave inside \<open>ConnOrCreate\<close> is in \<open>Pool\<close>.
\<close>

section \<open>Hops\<close>

record 'g hops =
  h_ups :: "(ConfigUpstream \<times> 'g forwarder) list"
  h_exts :: "(ExtensionServer \<times> 'g conn) list"
  h_state :: dial_state

definition no_hops :: "creds_world \<Rightarrow> 'g hops" where
  "no_hops w = \<lparr>h_ups = [], h_exts = [], h_state = \<lparr>ds_creds = w, ds_pool = NewPool\<rparr>\<rparr>"

inductive hop_step :: "'g assembly \<Rightarrow> Config \<Rightarrow> 'g hops \<Rightarrow> 'g hops \<Rightarrow> bool" for A cfg where
  extension: "extensionConn A es (h_state h) = (Inr c, s) \<Longrightarrow>
    hop_step A cfg h (h\<lparr>h_exts := h_exts h @ [(es, c)], h_state := s\<rparr>)"
| upstream: "newUpstreamForwarder A cfg up (h_state h) = (Inr fw, s) \<Longrightarrow>
    hop_step A cfg h (h\<lparr>h_ups := h_ups h @ [(up, fw)], h_state := s\<rparr>)"
| call: "i < length (h_ups h) \<Longrightarrow> h_ups h ! i = (up, fw) \<Longrightarrow> conn_conn (as_dial A) (fw_conn fw) ctx (ds_pool (h_state h)) = (res, c, p) \<Longrightarrow>
    hop_step A cfg h (h\<lparr>h_ups := (h_ups h)[i := (up, fw\<lparr>fw_conn := c\<rparr>)], h_state := (h_state h)\<lparr>ds_pool := p\<rparr>\<rparr>)"
| call_api: "i < length (h_ups h) \<Longrightarrow> h_ups h ! i = (up, fw) \<Longrightarrow> fw_cloudAPI fw = Some a \<Longrightarrow>
    conn_conn (as_dial A) a ctx (ds_pool (h_state h)) = (res, c, p) \<Longrightarrow>
    hop_step A cfg h (h\<lparr>h_ups := (h_ups h)[i := (up, fw\<lparr>fw_cloudAPI := Some c\<rparr>)], h_state := (h_state h)\<lparr>ds_pool := p\<rparr>\<rparr>)"
| call_ext: "i < length (h_exts h) \<Longrightarrow> h_exts h ! i = (es, e) \<Longrightarrow> conn_conn (as_dial A) e ctx (ds_pool (h_state h)) = (res, c, p) \<Longrightarrow>
    hop_step A cfg h (h\<lparr>h_exts := (h_exts h)[i := (es, c)], h_state := (h_state h)\<lparr>ds_pool := p\<rparr>\<rparr>)"
| await: "i < length (h_ups h) \<Longrightarrow> h_ups h ! i = (up, fw) \<Longrightarrow>
    Conn_WaitReady (as_dial A) ctxErr states (fw_conn fw) ctx (ds_pool (h_state h)) = (res, p) \<Longrightarrow>
    hop_step A cfg h (h\<lparr>h_state := (h_state h)\<lparr>ds_pool := p\<rparr>\<rparr>)"
| reload: "hop_step A cfg h (h\<lparr>h_state := (h_state h)\<lparr>ds_creds := w\<rparr>\<rparr>)"

section \<open>Every pooled connection was dialed by one of the hops\<close>

definition fw_callers :: "ConfigUpstream \<times> 'g forwarder \<Rightarrow> 'g conn set" where
  "fw_callers h = insert (caller_of (fw_conn (snd h))) (caller_of ` set_option (fw_cloudAPI (snd h)))"

definition hop_callers :: "'g hops \<Rightarrow> 'g conn set" where
  "hop_callers h = \<Union> (set (map fw_callers (h_ups h))) \<union> set (map (\<lambda>(es, c). caller_of c) (h_exts h))"

text \<open>A hop as it was built, with counters that have moved on.\<close>

definition upstream_hop :: "'g assembly \<Rightarrow> Config \<Rightarrow> ConfigUpstream \<times> 'g forwarder \<Rightarrow> bool" where
  "upstream_hop A cfg h \<longleftrightarrow> (\<exists>fw s s'. newUpstreamForwarder A cfg (fst h) s = (Inr fw, s') \<and> fw_ready (snd h) = fw_ready fw
     \<and> caller_of (fw_conn (snd h)) = caller_of (fw_conn fw) \<and> map_option caller_of (fw_cloudAPI (snd h)) = map_option caller_of (fw_cloudAPI fw))"

definition extension_hop :: "'g assembly \<Rightarrow> ExtensionServer \<times> 'g conn \<Rightarrow> bool" where
  "extension_hop A h \<longleftrightarrow> (\<exists>c s s'. extensionConn A (fst h) s = (Inr c, s') \<and> caller_of (snd h) = caller_of c)"

definition hop_inv :: "'g assembly \<Rightarrow> Config \<Rightarrow> 'g hops \<Rightarrow> bool" where
  "hop_inv A cfg h \<longleftrightarrow> dialed_ok (hop_callers h) (ds_pool (h_state h))
     \<and> (\<forall>u\<in>set (h_ups h). upstream_hop A cfg u) \<and> (\<forall>e\<in>set (h_exts h). extension_hop A e)"

lemma cloudAPIConn_pool:
  assumes "cloudAPIConn A cfg up s = (Inr (via, conn, logs), s')"
  shows "\<exists>r. NewConn (as_dial A) (as_background A) r [] (ds_pool s) = (Inr conn, ds_pool s')"
proof -
  obtain reg where reg: "(defaultRegistry (as_status A) (as_cloudHeader A) (as_cloudVersion A) :: ('a, cloud_msg, unit) registry result) = Inr reg"
    using assms by (cases "defaultRegistry (as_status A) (as_cloudHeader A) (as_cloudVersion A) :: ('a, cloud_msg, unit) registry result") (simp_all add: cloudAPIConn_def)
  obtain api cp res t w p where c: "CloudAPI_Upstream (as_config A) (at_CloudAPI (c_APITranslations cfg)) up = Inr api"
    "CredentialProviderFor (cu_Credentials api) = Inr cp"
    "proxy_ResolverFor A api (credential_opts cp) ''cloud_api'' (ds_creds s) = (Inr (res, t), w)"
    "NewConn (as_dial A) (as_background A) (keyedResolver (cu_Name api) res) [] (ds_pool s) = (Inr conn, p)"
    using assms by (rule cloudAPIConn_cases)
  then have "ds_pool s' = p" using assms by (auto simp: cloudAPIConn_def reg Let_def split: prod.splits)
  with c(4) show ?thesis by blast
qed

lemma newUpstreamForwarder_cases:
  assumes "newUpstreamForwarder A cfg up s = (Inr fw, s')"
  obtains opts s1 where "forwarder_over A up opts (fw_cloudAPI fw) s1 = (Inr fw, s')"
    "fw_cloudAPI fw = None \<and> s1 = s \<or> (\<exists>via c logs. fw_cloudAPI fw = Some c \<and> cloudAPIConn A cfg up s = (Inr (via, c, logs), s1))"
proof -
  obtain opts api s1 where f: "forwarder_over A up opts api s1 = (Inr fw, s')"
      "api = None \<and> s1 = s \<or> (\<exists>via c logs. api = Some c \<and> cloudAPIConn A cfg up s = (Inr (via, c, logs), s1))"
    using assms by (auto simp: newUpstreamForwarder_def Let_def split: sum.splits prod.splits if_splits option.splits)
  have "fw_cloudAPI fw = api" using f(1) by (auto simp: forwarder_over_def split: sum.splits prod.splits)
  with f that [of opts s1] show ?thesis by simp
qed

lemma forwarder_over_conn:
  assumes "forwarder_over A up opts api s = (Inr fw, s')"
  obtains v where "ResolverFor (as_api A) SRVResolvers v opts = Inr (resolver (fw_conn fw))" "fw_ready fw \<longleftrightarrow> \<not> IsTemplated v"
    "NewConn (as_dial A) (as_background A) (resolver (fw_conn fw)) [WithConnections (PoolSize (IsTemplated v) (cu_Connection up))] (ds_pool s)
       = (Inr (fw_conn fw), ds_pool s')"
    "up_HostPort v = l_HostPort (cu_Listen up)"
proof -
  obtain res t w where r: "proxy_ResolverFor A up opts (''upstream/'' @ cu_Name up) (ds_creds s) = (Inr (res, t), w)"
      "NewConn (as_dial A) (as_background A) res [WithConnections (PoolSize t (cu_Connection up))] (ds_pool s) = (Inr (fw_conn fw), ds_pool s')"
      "fw_ready fw = IsStatic res"
    using assms by (auto simp: forwarder_over_def split: sum.splits prod.splits)
  have res: "resolver (fw_conn fw) = res" by (rule NewConn_resolver [OF r(2)]) (auto simp: WithConnections_def)
  obtain d w1 v where v: "upstream_view A d w1 up = Inr v" "ResolverFor (as_api A) SRVResolvers v opts = Inr res" "t = IsTemplated v"
    using r(1) by (auto simp: proxy_ResolverFor_def map_sum_eq_Inr split: prod.splits sum.splits)
  have "IsStatic res \<longleftrightarrow> \<not> IsTemplated v"
    using v(2) by (cases rule: ResolverFor_cases) (simp_all add: DynamicConnResolver_def StaticResolver_def)
  moreover have "up_HostPort v = l_HostPort (cu_Listen up)" using v(1) by (auto simp: upstream_view_def split: sum.splits option.splits)
  ultimately show ?thesis using that r v res by blast
qed

lemma newUpstreamForwarder_dialed:
  assumes "newUpstreamForwarder A cfg up s = (Inr fw, s')" "dialed_ok cs (ds_pool s)"
  shows "dialed_ok (fw_callers (up, fw) \<union> cs) (ds_pool s')"
proof -
  obtain opts s1 where f: "forwarder_over A up opts (fw_cloudAPI fw) s1 = (Inr fw, s')"
    "fw_cloudAPI fw = None \<and> s1 = s \<or> (\<exists>via c logs. fw_cloudAPI fw = Some c \<and> cloudAPIConn A cfg up s = (Inr (via, c, logs), s1))"
    using assms(1) by (rule newUpstreamForwarder_cases)
  have api: "dialed_ok (caller_of ` set_option (fw_cloudAPI fw) \<union> cs) (ds_pool s1)"
    using f(2)
  proof
    assume "\<exists>via c logs. fw_cloudAPI fw = Some c \<and> cloudAPIConn A cfg up s = (Inr (via, c, logs), s1)"
    then obtain c r where c: "fw_cloudAPI fw = Some c" "NewConn (as_dial A) (as_background A) r [] (ds_pool s) = (Inr c, ds_pool s1)"
      using cloudAPIConn_pool by blast
    moreover have "resolver c = r" by (rule NewConn_resolver [OF c(2)]) simp
    ultimately show ?thesis using NewConn_dialed [OF assms(2) c(2)] by simp
  qed (use assms(2) in simp)
  obtain n where "NewConn (as_dial A) (as_background A) (resolver (fw_conn fw)) [WithConnections n] (ds_pool s1) = (Inr (fw_conn fw), ds_pool s')"
    by (rule forwarder_over_conn [OF f(1)]) (rule that)
  from NewConn_dialed [OF api this refl] show ?thesis by (simp add: fw_callers_def)
qed

lemma extensionConn_dialed:
  assumes "extensionConn A es s = (Inr c, s')" "dialed_ok cs (ds_pool s)"
  shows "dialed_ok (insert (caller_of c) cs) (ds_pool s')"
proof -
  obtain r where r: "NewConn (as_dial A) (as_background A) r [] (ds_pool s) = (Inr c, ds_pool s')"
    using assms(1) by (auto simp: extensionConn_def Let_def split: sum.splits prod.splits)
  have "resolver c = r" by (rule NewConn_resolver [OF r]) simp
  with NewConn_dialed [OF assms(2) r] show ?thesis by simp
qed

text \<open>Calls move counters only.\<close>

lemma map_update_same: "i < length xs \<Longrightarrow> f y = f (xs ! i) \<Longrightarrow> map f (xs[i := y]) = map f xs"
  by (metis list_update_id map_update)

lemma upstream_hop_moved:
  "upstream_hop A cfg (up, fw) \<Longrightarrow> caller_of c = caller_of (fw_conn fw) \<Longrightarrow> upstream_hop A cfg (up, fw\<lparr>fw_conn := c\<rparr>)"
  "upstream_hop A cfg (up, fw) \<Longrightarrow> fw_cloudAPI fw = Some a \<Longrightarrow> caller_of c = caller_of a \<Longrightarrow> upstream_hop A cfg (up, fw\<lparr>fw_cloudAPI := Some c\<rparr>)"
  "extension_hop A (es, e) \<Longrightarrow> caller_of c = caller_of e \<Longrightarrow> extension_hop A (es, c)"
  by (fastforce simp: upstream_hop_def extension_hop_def)+

lemma fw_callers_moved:
  "caller_of c = caller_of (fw_conn fw) \<Longrightarrow> fw_callers (up, fw\<lparr>fw_conn := c\<rparr>) = fw_callers (up, fw)"
  "fw_cloudAPI fw = Some a \<Longrightarrow> caller_of c = caller_of a \<Longrightarrow> fw_callers (up, fw\<lparr>fw_cloudAPI := Some c\<rparr>) = fw_callers (up, fw)"
  by (simp_all add: fw_callers_def)

lemma hop_callers_mem:
  "i < length (h_ups h) \<Longrightarrow> h_ups h ! i = (up, fw) \<Longrightarrow> fw_callers (up, fw) \<subseteq> hop_callers h"
  "i < length (h_exts h) \<Longrightarrow> h_exts h ! i = (es, c) \<Longrightarrow> caller_of c \<in> hop_callers h"
  unfolding hop_callers_def by (force dest: nth_mem)+

lemma set_update_ball: "\<forall>x\<in>set xs. P x \<Longrightarrow> P y \<Longrightarrow> \<forall>x\<in>set (xs[i := y]). P x"
  using set_update_subset_insert [of xs i y] by blast

lemma WaitReady_dialed:
  assumes "Conn_WaitReady env ctxErr states c ctx p = (res, p')" "dialed_ok cs p" "caller_of c \<in> cs"
  shows "dialed_ok cs p'"
proof -
  have ids: "\<forall>i\<in>set [0..c_size c - 1]. 0 \<le> i" by simp
  show ?thesis using assms(1,2) members_dialed [OF assms(3) _ assms(2) ids]
    by (auto simp: Conn_WaitReady_def connections_def split: if_splits sum.splits prod.splits)
qed

lemma hop_step_keeps:
  assumes "hop_step A cfg h h'" "hop_inv A cfg h"
  shows "hop_inv A cfg h'"
  using assms
proof (cases rule: hop_step.cases)
  case (extension es c s)
  from extensionConn_dialed [OF extension(2)] assms(2) have "dialed_ok (insert (caller_of c) (hop_callers h)) (ds_pool s)" by (simp add: hop_inv_def)
  moreover have "extension_hop A (es, c)" using extension(2) by (auto simp: extension_hop_def)
  ultimately show ?thesis using extension(1) assms(2) by (simp add: hop_inv_def hop_callers_def)
next
  case (upstream up fw s)
  from newUpstreamForwarder_dialed [OF upstream(2)] assms(2) have "dialed_ok (fw_callers (up, fw) \<union> hop_callers h) (ds_pool s)" by (simp add: hop_inv_def)
  moreover have "upstream_hop A cfg (up, fw)" using upstream(2) by (auto simp: upstream_hop_def)
  ultimately show ?thesis using upstream(1) assms(2) by (simp add: hop_inv_def hop_callers_def Un_assoc)
next
  case (call i up fw ctx res c p)
  have m: "caller_of (fw_conn fw) \<in> hop_callers h" "upstream_hop A cfg (up, fw)"
    using hop_callers_mem(1) [OF call(2,3)] assms(2) nth_mem [OF call(2)] call(3) by (auto simp: fw_callers_def hop_inv_def)
  note d = conn_conn_dialed [OF _ m(1) call(4)]
  have "map fw_callers ((h_ups h)[i := (up, fw\<lparr>fw_conn := c\<rparr>)]) = map fw_callers (h_ups h)"
    using d(2) assms(2) call(2,3) by (intro map_update_same) (auto simp: fw_callers_moved hop_inv_def)
  then have "hop_callers h' = hop_callers h" using call(1) by (simp add: hop_callers_def)
  moreover have "\<forall>u\<in>set ((h_ups h)[i := (up, fw\<lparr>fw_conn := c\<rparr>)]). upstream_hop A cfg u"
    using assms(2) d(2) upstream_hop_moved(1) [OF m(2)] by (intro set_update_ball) (simp_all add: hop_inv_def)
  ultimately show ?thesis using call(1) assms(2) d(1) by (simp add: hop_inv_def)
next
  case (call_api i up fw a ctx res c p)
  have m: "caller_of a \<in> hop_callers h" "upstream_hop A cfg (up, fw)"
    using hop_callers_mem(1) [OF call_api(2,3)] assms(2) nth_mem [OF call_api(2)] call_api(3,4) by (auto simp: fw_callers_def hop_inv_def)
  note d = conn_conn_dialed [OF _ m(1) call_api(5)]
  have "map fw_callers ((h_ups h)[i := (up, fw\<lparr>fw_cloudAPI := Some c\<rparr>)]) = map fw_callers (h_ups h)"
    using d(2) assms(2) call_api(2-4) by (intro map_update_same) (auto simp: fw_callers_moved hop_inv_def)
  then have "hop_callers h' = hop_callers h" using call_api(1) by (simp add: hop_callers_def)
  moreover have "\<forall>u\<in>set ((h_ups h)[i := (up, fw\<lparr>fw_cloudAPI := Some c\<rparr>)]). upstream_hop A cfg u"
    using assms(2) d(2) upstream_hop_moved(2) [OF m(2) call_api(4)] by (intro set_update_ball) (simp_all add: hop_inv_def)
  ultimately show ?thesis using call_api(1) assms(2) d(1) by (simp add: hop_inv_def)
next
  case (call_ext i es e ctx res c p)
  have m: "caller_of e \<in> hop_callers h" "extension_hop A (es, e)"
    using hop_callers_mem(2) [OF call_ext(2,3)] assms(2) nth_mem [OF call_ext(2)] call_ext(3) by (auto simp: hop_inv_def)
  note d = conn_conn_dialed [OF _ m(1) call_ext(4)]
  have "map (\<lambda>(es, c). caller_of c) ((h_exts h)[i := (es, c)]) = map (\<lambda>(es, c). caller_of c) (h_exts h)"
    using d(2) assms(2) call_ext(2,3) by (intro map_update_same) (auto simp: hop_inv_def)
  then have "hop_callers h' = hop_callers h" using call_ext(1) by (simp add: hop_callers_def)
  moreover have "\<forall>e\<in>set ((h_exts h)[i := (es, c)]). extension_hop A e"
    using assms(2) d(2) upstream_hop_moved(3) [OF m(2)] by (intro set_update_ball) (simp_all add: hop_inv_def)
  ultimately show ?thesis using call_ext(1) assms(2) d(1) by (simp add: hop_inv_def)
next
  case (await i up fw ctxErr states ctx res p)
  have "caller_of (fw_conn fw) \<in> hop_callers h" using hop_callers_mem(1) [OF await(2,3)] by (auto simp: fw_callers_def)
  with WaitReady_dialed [OF await(4)] assms(2) await(1) show ?thesis by (simp add: hop_inv_def hop_callers_def)
next
  case (reload w)
  then show ?thesis using assms(2) by (simp add: hop_inv_def hop_callers_def)
qed

interpretation hops: reachable_invariant "hop_step A cfg" "hop_inv A cfg" "\<lambda>h. \<exists>w. h = no_hops w" for A cfg
proof unfold_locales
  show "hop_inv A cfg h'" if "hop_inv A cfg h" "hop_step A cfg h h'" for h h' using hop_step_keeps [OF that(2,1)] .
  show "hop_inv A cfg h" if "\<exists>w. h = no_hops w" for h using that by (auto simp: no_hops_def hop_inv_def)
qed

section \<open>What a hop's keys are\<close>

lemma same_caller:
  assumes "caller_of c = caller_of d"
  shows "conn_keys c = conn_keys d" "resolver c = resolver d"
  using arg_cong [OF assms, of conn_keys] arg_cong [OF assms, of resolver] by simp_all

lemma upstream_hop_keys:
  assumes "upstream_hop A cfg (up, fw)"
  shows "k \<in> conn_keys (fw_conn fw) \<Longrightarrow> if fw_ready fw then static_key (l_HostPort (cu_Listen up)) k else CHR 0x00 \<in> set k"
    and "fw_cloudAPI fw = Some c \<Longrightarrow> k \<in> conn_keys c \<Longrightarrow> k = cu_Name up @ ''/cloud-api''"
proof -
  obtain fw0 s s' where f: "newUpstreamForwarder A cfg up s = (Inr fw0, s')" "fw_ready fw = fw_ready fw0"
      "caller_of (fw_conn fw) = caller_of (fw_conn fw0)" "map_option caller_of (fw_cloudAPI fw) = map_option caller_of (fw_cloudAPI fw0)"
    using assms by (auto simp: upstream_hop_def)
  show "k \<in> conn_keys (fw_conn fw) \<Longrightarrow> if fw_ready fw then static_key (l_HostPort (cu_Listen up)) k else CHR 0x00 \<in> set k"
    unfolding same_caller(1) [OF f(3)] f(2) using forwarder_keys(1) [OF f(1)] by blast
  assume c: "fw_cloudAPI fw = Some c" "k \<in> conn_keys c"
  then obtain c0 where c0: "fw_cloudAPI fw0 = Some c0" "caller_of c = caller_of c0" using f(4) by (cases "fw_cloudAPI fw0") auto
  then show "k = cu_Name up @ ''/cloud-api''" using forwarder_keys(2) [OF f(1) c0(1)] c(2) same_caller(1) [OF c0(2)] by blast
qed

lemma extension_hop_keys:
  assumes "extension_hop A (es, c)" "k \<in> conn_keys c"
  shows "k = extensionKeyPrefix @ l_HostPort (es_Listen es)"
proof -
  obtain c0 s s' where f: "extensionConn A es s = (Inr c0, s')" "caller_of c = caller_of c0" using assms(1) by (auto simp: extension_hop_def)
  then show ?thesis using extension_keys [OF f(1)] assms(2) same_caller(1) [OF f(2)] by blast
qed

lemma upstream_hop_resolver:
  assumes "upstream_hop A cfg (up, fw)"
  obtains v opts where "ResolverFor (as_api A) SRVResolvers v opts = Inr (resolver (fw_conn fw))" "fw_ready fw \<longleftrightarrow> \<not> IsTemplated v"
proof -
  obtain fw0 s s' where f: "newUpstreamForwarder A cfg up s = (Inr fw0, s')" "fw_ready fw = fw_ready fw0"
      "caller_of (fw_conn fw) = caller_of (fw_conn fw0)" using assms by (auto simp: upstream_hop_def)
  note r = same_caller(2) [OF f(3)]
  obtain opts s1 where o1: "forwarder_over A up opts (fw_cloudAPI fw0) s1 = (Inr fw0, s')" using f(1) by (rule newUpstreamForwarder_cases)
  obtain v where "ResolverFor (as_api A) SRVResolvers v opts = Inr (resolver (fw_conn fw0))" "fw_ready fw0 \<longleftrightarrow> \<not> IsTemplated v"
    by (rule forwarder_over_conn [OF o1]) (rule that)
  with that r f(2) show ?thesis by simp
qed

text \<open>Configured names have no NUL byte, the host and port of a hop that is no template is one, and no two upstreams have the
  same.\<close>

definition plain_hops :: "'g hops \<Rightarrow> bool" where
  "plain_hops h \<longleftrightarrow> (\<forall>(up, fw)\<in>set (h_ups h). plain_hop up (fw_ready fw)) \<and> distinct (map (\<lambda>(up, fw). l_HostPort (cu_Listen up)) (h_ups h))
     \<and> (\<forall>(es, c)\<in>set (h_exts h). CHR 0x00 \<notin> set (l_HostPort (es_Listen es)) \<and> IsHostPort (l_HostPort (es_Listen es)) = None)"

text \<open>Only upstreams of the same kind can ask for a key of an upstream, and only itself for a key of one that is not templated.\<close>

lemma hop_keys_apart:
  assumes inv: "hop_inv A cfg h" "plain_hops h" and up: "(up, fw) \<in> set (h_ups h)" and d: "d \<in> hop_callers h" "k \<in> conn_keys d" "k \<in> conn_keys (fw_conn fw)"
  obtains up' fw' where "(up', fw') \<in> set (h_ups h)" "d = caller_of (fw_conn fw')" "fw_ready fw' = fw_ready fw" "fw_ready fw \<Longrightarrow> fw' = fw"
proof -
  let ?hp = "l_HostPort (cu_Listen up)"
  have hop: "upstream_hop A cfg u" if "u \<in> set (h_ups h)" for u using inv(1) that by (simp add: hop_inv_def)
  have plain: "plain_hop (fst u) (fw_ready (snd u))" if "u \<in> set (h_ups h)" for u using inv(2) that by (auto simp: plain_hops_def)
  have shape: "if fw_ready fw then static_key ?hp k else CHR 0x00 \<in> set k" using upstream_hop_keys(1) [OF hop [OF up] d(3)] .
  have hp: "CHR 0x00 \<notin> set ?hp" "fw_ready fw \<Longrightarrow> IsHostPort ?hp = None" using plain [OF up] by (simp_all add: plain_hop_def)
  have no_api: "k \<noteq> n @ ''/cloud-api''" if "CHR 0x00 \<notin> set n" for n
  proof (cases "fw_ready fw")
    case True
    then have "isDigit (last k)" using static_last [OF hp(2)] shape by simp
    then show ?thesis by (auto simp: isDigit_def)
  next
    case False
    then show ?thesis using shape that by auto
  qed
  have no_ext: "k \<noteq> extensionKeyPrefix @ ehp" if "CHR 0x00 \<notin> set ehp" "IsHostPort ehp = None" for ehp
  proof (cases "fw_ready fw")
    case True
    then show ?thesis using static_not_extension [OF hp(2) that(2)] shape by simp
  next
    case False
    then show ?thesis using shape that(1) by (auto simp: extensionKeyPrefix_def)
  qed
  consider (ext) es c where "(es, c) \<in> set (h_exts h)" "d = caller_of c" | (api) up' fw' c where "(up', fw') \<in> set (h_ups h)" "fw_cloudAPI fw' = Some c" "d = caller_of c"
    | (ups) up' fw' where "(up', fw') \<in> set (h_ups h)" "d = caller_of (fw_conn fw')"
    using d(1) by (auto simp: hop_callers_def fw_callers_def)
  then show ?thesis
  proof cases
    case ext
    then have "extension_hop A (es, c)" "k \<in> conn_keys c" using inv(1) d(2) by (simp_all add: hop_inv_def)
    then have "k = extensionKeyPrefix @ l_HostPort (es_Listen es)" by (rule extension_hop_keys)
    moreover have "CHR 0x00 \<notin> set (l_HostPort (es_Listen es)) \<and> IsHostPort (l_HostPort (es_Listen es)) = None"
      using ext(1) inv(2) unfolding plain_hops_def by blast
    ultimately show ?thesis using no_ext by blast
  next
    case api
    then have "k = cu_Name up' @ ''/cloud-api''" using upstream_hop_keys(2) [OF hop [OF api(1)] api(2)] d(2) by simp
    then show ?thesis using no_api plain [OF api(1)] by (auto simp: plain_hop_def)
  next
    case ups
    let ?hp' = "l_HostPort (cu_Listen up')"
    have shape': "if fw_ready fw' then static_key ?hp' k else CHR 0x00 \<in> set k"
      using upstream_hop_keys(1) [OF hop [OF ups(1)]] ups(2) d(2) by simp
    have hp': "CHR 0x00 \<notin> set ?hp'" "fw_ready fw' \<Longrightarrow> IsHostPort ?hp' = None" using plain [OF ups(1)] by (simp_all add: plain_hop_def)
    have same: "fw_ready fw' = fw_ready fw" using shape shape' static_no_zero [OF _ hp(1)] static_no_zero [OF _ hp'(1)] by (metis (full_types))
    have "fw' = fw" if "fw_ready fw"
    proof -
      have "?hp = ?hp'" using static_keys_apart [OF hp(2) hp'(2)] shape shape' same that by simp
      moreover have "inj_on (\<lambda>(up, fw). l_HostPort (cu_Listen up)) (set (h_ups h))" using inv(2) by (simp add: plain_hops_def distinct_map)
      ultimately show ?thesis using up ups(1) by (auto simp: inj_on_def)
    qed
    with ups same that show ?thesis by blast
  qed
qed

text \<open>What a call of an upstream was given: the address is the one rendered, and the options are the hop's own when no other
  upstream of its kind can ask for the key.\<close>

lemma templated_target:
  assumes inv: "hop_inv A cfg h" "plain_hops h" "(up, fw) \<in> set (h_ups h)" "\<not> fw_ready fw"
    and r: "R_Resolve (resolver (fw_conn fw)) ctx = Inr (key, target, opts)" "0 \<le> i" "one_nul key"
      "dialed_from (hop_callers h) (member (fw_conn fw) key i) cl"
  shows "cl_target cl = target"
proof -
  let ?k = "member (fw_conn fw) key i"
  have dynamic: "\<exists>q. R_Resolve (resolver (fw_conn fw)) = Dynamic_Resolve (as_api A) q" if u: "(up, fw) \<in> set (h_ups h)" "\<not> fw_ready fw" for up fw
  proof -
    have "upstream_hop A cfg (up, fw)" using inv(1) u(1) by (simp add: hop_inv_def)
    then obtain v os where v: "ResolverFor (as_api A) SRVResolvers v os = Inr (resolver (fw_conn fw))" "fw_ready fw \<longleftrightarrow> \<not> IsTemplated v"
      by (rule upstream_hop_resolver)
    show ?thesis using v(2) u(2) by (cases rule: ResolverFor_cases [OF v(1)]) (auto simp: DynamicConnResolver_def)
  qed
  have k: "?k \<in> conn_keys (fw_conn fw)" using r(1,2) unfolding conn_keys_def by blast
  obtain d ctx' key' target' opts' j where d: "d \<in> hop_callers h" "R_Resolve (resolver d) ctx' = Inr (key', target', opts')" "0 \<le> j"
      "?k = member d key' j" "cl = \<lparr>cl_target = target', cl_opts = opts'\<rparr>"
    using r(4) unfolding dialed_from_def by blast
  then have "?k \<in> conn_keys d" unfolding conn_keys_def by blast
  then obtain up' fw' where u: "(up', fw') \<in> set (h_ups h)" "d = caller_of (fw_conn fw')" "\<not> fw_ready fw'"
    using hop_keys_apart [OF inv(1-3) d(1) _ k] inv(4) by metis
  obtain q q' where q: "R_Resolve (resolver (fw_conn fw)) = Dynamic_Resolve (as_api A) q" "R_Resolve (resolver (fw_conn fw')) = Dynamic_Resolve (as_api A) q'"
    using dynamic [OF inv(3,4)] dynamic [OF u(1,3)] by blast
  have one: "one_nul ?k" using r(2,3) by (simp add: one_nul_member)
  have "target = takeWhile (\<lambda>ch. ch \<noteq> CHR 0x00) ?k" using Dynamic_target [OF r(1) [unfolded q(1)] one r(2)] .
  moreover have "target' = takeWhile (\<lambda>ch. ch \<noteq> CHR 0x00) ?k"
    using Dynamic_target [of "as_api A" q' ctx' key' target' opts' d j] d(2-4) u(2) q(2) one by simp
  ultimately show ?thesis using d(5) by simp
qed

lemma own_options:
  assumes inv: "hop_inv A cfg h" "plain_hops h" "(up, fw) \<in> set (h_ups h)"
    and r: "R_Resolve (resolver (fw_conn fw)) ctx = Inr (key, target, opts)" "0 \<le> i" "dialed_from (hop_callers h) (member (fw_conn fw) key i) cl"
    and only: "fw_ready fw \<or> one_nul key \<and> (\<forall>(up', fw')\<in>set (h_ups h). \<not> fw_ready fw' \<longrightarrow> fw' = fw)"
  shows "cl = \<lparr>cl_target = target, cl_opts = opts\<rparr>"
proof -
  have "upstream_hop A cfg (up, fw)" using inv(1,3) by (simp add: hop_inv_def)
  then obtain v os where v: "ResolverFor (as_api A) SRVResolvers v os = Inr (resolver (fw_conn fw))" "fw_ready fw \<longleftrightarrow> \<not> IsTemplated v"
    by (rule upstream_hop_resolver)
  have k: "member (fw_conn fw) key i \<in> conn_keys (fw_conn fw)" using r(1,2) unfolding conn_keys_def by blast
  show ?thesis
  proof (rule keyed_resolver.own_dialed [OF ResolverFor_keyed [OF v(1)] _ r(1,2,3)])
    show "IsTemplated v \<longrightarrow> one_nul key" using only v(2) by blast
    fix d assume "d \<in> hop_callers h" "member (fw_conn fw) key i \<in> conn_keys d"
    with k obtain up' fw' where "(up', fw') \<in> set (h_ups h)" "d = caller_of (fw_conn fw')" "fw_ready fw' = fw_ready fw" "fw_ready fw \<Longrightarrow> fw' = fw"
      using hop_keys_apart [OF inv] by metis
    moreover from this only have "fw' = fw" by auto
    ultimately show "R_Resolve (resolver d) = R_Resolve (resolver (fw_conn fw)) \<and> c_size d = c_size (fw_conn fw)" by simp
  qed
qed

section \<open>Properties\<close>

text \<open>
  C20. A request goes where it resolves to, over the pool that all hops share. Build any upstreams, Cloud API connections and
  extension connections on one pool, make any calls over them in any order, and then a call to an upstream. The connection
  it gets is one the pool has dialed. If the upstream is not templated, it was dialed to the target and with the very options
  (credentials, codecs, translation, TLS) that this request resolves to. If it is templated and neither the
  address nor the server name it rendered has a NUL byte, the connection was dialed to the address the request
  rendered; and when no other upstream is templated, also with the options the request resolves to. The configured
  names are those of \<open>plain_hops\<close>: no NUL byte, distinct host:ports, and a host and port where there is no template.
\<close>

theorem Conn_reaches_target:
  assumes "(hop_step A cfg)\<^sup>*\<^sup>* (no_hops w) h" "plain_hops h" "(up, fw) \<in> set (h_ups h)"
    and "conn_conn (as_dial A) (fw_conn fw) ctx (ds_pool (h_state h)) = (Inr cn, c', p')"
  shows "\<exists>key target opts. R_Resolve (resolver (fw_conn fw)) ctx = Inr (key, target, opts) \<and> cn < length (clients p')
    \<and> (fw_ready fw \<longrightarrow> clients p' ! cn = \<lparr>cl_target = target, cl_opts = opts\<rparr>)
    \<and> (\<not> fw_ready fw \<and> one_nul key \<longrightarrow> cl_target (clients p' ! cn) = target)
    \<and> (\<not> fw_ready fw \<and> one_nul key \<and> (\<forall>(up', fw')\<in>set (h_ups h). \<not> fw_ready fw' \<longrightarrow> fw' = fw) \<longrightarrow>
         clients p' ! cn = \<lparr>cl_target = target, cl_opts = opts\<rparr>)"
proof -
  have inv: "hop_inv A cfg h" using assms(1) hops.reachable_I [of A cfg h] by (auto simp: runs_from_def)
  then have dial: "dialed_ok (hop_callers h) (ds_pool (h_state h))" by (simp add: hop_inv_def)
  have "caller_of (fw_conn fw) \<in> hop_callers h" using assms(3) by (force simp: hop_callers_def fw_callers_def)
  from conn_conn_dialed(3) [OF dial this assms(4) refl]
  obtain key target opts i where r: "R_Resolve (resolver (fw_conn fw)) ctx = Inr (key, target, opts)" "0 \<le> i" "cn < length (clients p')"
      "dialed_from (hop_callers h) (member (fw_conn fw) key i) (clients p' ! cn)" by blast
  from own_options [OF inv assms(2,3) r(1,2,4)] templated_target [OF inv assms(2,3) _ r(1,2) _ r(4)] r(1,3) show ?thesis by blast
qed

text \<open>A new connection starts with its first pooled connection.\<close>

lemma first_call:
  assumes "c_next c = 0" "R_Resolve (resolver c) ctx = Inr (key, target, opts)" "conn_conn env c ctx p = (res, c', p')"
  shows "ConnOrCreate env (member c key 0) target opts p = (res, p')"
  using assms by (cases "ConnOrCreate env (member c key 0) target opts p") (auto simp: conn_conn_def split: if_splits)

lemma forwarder_fresh:
  assumes "newUpstreamForwarder A cfg up s = (Inr fw, s')"
  shows "c_next (fw_conn fw) = 0"
proof -
  obtain opts s1 where "forwarder_over A up opts (fw_cloudAPI fw) s1 = (Inr fw, s')" using assms by (rule newUpstreamForwarder_cases)
  then obtain n where "NewConn (as_dial A) (as_background A) (resolver (fw_conn fw)) [WithConnections n] (ds_pool s1) = (Inr (fw_conn fw), ds_pool s')"
    by (rule forwarder_over_conn) (rule that)
  then have "resolver (fw_conn fw) = resolver (fw_conn fw) \<and> c_next (fw_conn fw) = 0 \<and> 0 < c_size (fw_conn fw)"
    by (rule NewConn_shape) (auto simp: WithConnections_def)
  then show ?thesis by blast
qed

lemma ConnOrCreate_known: "map_of (conns p) k = Some cn \<Longrightarrow> ConnOrCreate env k target opts p = (Inr cn, p)"
  by (simp add: ConnOrCreate_def Pool_Conn_def)

lemma ConnOrCreate_new:
  assumes "map_of (conns p) k = None" "ConnOrCreate env k target opts p = (Inr cn, p')"
  shows "map_of (conns p') k = Some cn" "cn < length (clients p')" "clients p' ! cn = \<lparr>cl_target = target, cl_opts = opts\<rparr>"
  using assms by (auto simp: ConnOrCreate_def Pool_Conn_def NewClient_def Pool_Set_def update_conv split: option.splits)

text \<open>
  C40. The pool's keys do not say which upstream a connection was dialed for. Take two upstreams with equally many pooled
  connections and requests of theirs that resolve to one key, as two templates that render the same address and server name do. Once the first has made
  its call, the first call of the second, whatever happened to the pool in between, is given the first one's connection: with the first one's namespace
  translation, credentials and payload codec, whatever options it resolves to itself.
\<close>

theorem Dynamic_shared_connection:
  assumes "newUpstreamForwarder A cfg up1 s1 = (Inr fw1, s1')" "newUpstreamForwarder A cfg up2 s2 = (Inr fw2, s2')"
    and "c_size (fw_conn fw1) = c_size (fw_conn fw2)"
    and "R_Resolve (resolver (fw_conn fw1)) ctx1 = Inr (key, target1, opts1)" "R_Resolve (resolver (fw_conn fw2)) ctx2 = Inr (key, target2, opts2)"
    and "map_of (conns p) (member (fw_conn fw1) key 0) = None" "conn_conn (as_dial A) (fw_conn fw1) ctx1 p = (Inr cn, c1, p1)"
    and "map_of (conns p1) \<subseteq>\<^sub>m map_of (conns p2)" "prefix (clients p1) (clients p2)"
    and "conn_conn (as_dial A) (fw_conn fw2) ctx2 p2 = (res, c2, p3)"
  shows "res = Inr cn \<and> cn < length (clients p3) \<and> clients p3 ! cn = \<lparr>cl_target = target1, cl_opts = opts1\<rparr>
    \<and> (\<exists>cp. CredentialProviderFor (cu_Credentials up1) = Inr cp
          \<and> prefix (base_opts A up1 @ credential_opts cp @ [ChainUnary (PayloadCodec (codec_rules cfg up1))]) opts1)"
proof -
  let ?k = "member (fw_conn fw1) key 0"
  have same: "member (fw_conn fw2) key 0 = ?k" using assms(3) by (simp add: member_def)
  have "ConnOrCreate (as_dial A) ?k target1 opts1 p = (Inr cn, p1)" by (rule first_call [OF forwarder_fresh [OF assms(1)] assms(4,7)])
  then have p1: "map_of (conns p1) ?k = Some cn" "cn < length (clients p1)" "clients p1 ! cn = \<lparr>cl_target = target1, cl_opts = opts1\<rparr>"
    by (rule ConnOrCreate_new [OF assms(6)])+
  then have "map_of (conns p2) ?k = Some cn" using assms(8) by (metis domI map_le_def)
  moreover have "ConnOrCreate (as_dial A) ?k target2 opts2 p2 = (res, p3)"
    using first_call [OF forwarder_fresh [OF assms(2)] assms(5,10)] same by simp
  ultimately have "res = Inr cn" "p3 = p2" by (simp_all add: ConnOrCreate_known)
  moreover have "cn < length (clients p2)" "clients p2 ! cn = clients p1 ! cn" using assms(9) p1(2) by (auto simp: prefix_def nth_append)
  moreover obtain cp c where "CredentialProviderFor (cu_Credentials up1) = Inr cp"
    "opts1 = base_opts A up1 @ credential_opts cp @ [ChainUnary (PayloadCodec (codec_rules cfg up1))]
       @ (if IsCloud (upstream_names up1) then translation_DialOptions (cu_Name up1 @ ''/cloud-api'') else [])
       @ ConnectionDialOptions (cu_Connection up1) @ [SRVResolvers, TransportCredentials c]"
    using assms(1,4) by (rule newUpstreamForwarder_opts)
  ultimately show ?thesis using p1(3) by auto
qed

section \<open>Witnesses\<close>

text \<open>A template engine that knows two actions: the namespace, and a header.\<close>

definition ex_render :: "string \<Rightarrow> UpstreamContext \<Rightarrow> string" where
  "ex_render s d = (if s = ''{{ns}}:7'' then LocalNamespace d @ '':7''
     else (case map_of (Metadata d) ''x-cluster'' of None \<Rightarrow> ''none'' | Some v \<Rightarrow> v) @ '':7'')"

definition ex_tmpl_assembly :: "ex_grpc assembly" where
  "ex_tmpl_assembly = ex_assembly\<lparr>as_config := ex_config_env\<lparr>ce_template :=
     (\<lambda>s. if HasPrefix s ''{{'' then Inr (False, \<lambda>d. Inr (ex_render s d)) else Inr (True, \<lambda>_. Inr s))\<rparr>\<rparr>"

definition ex_hop_config :: "string \<Rightarrow> string \<Rightarrow> string \<Rightarrow> ConfigUpstream" where
  "ex_hop_config name hp key =
     \<lparr>cu_Name = name, cu_Cloud = False, cu_Listen = plain_listen hp, cu_Namespaces = no_rules,
      cu_Credentials = Some \<lparr>cc_Static = Some \<lparr>sc_APIKey = key, sc_Header = [], sc_Scheme = []\<rparr>\<rparr>,
      cu_Connection = zero_Connection, cu_hostTmpl = None, cu_serverNameTmpl = None\<rparr>"

definition ex_shared_config :: Config where
  "ex_shared_config = (ex_config False)\<lparr>c_Upstreams := [ex_hop_config ''frontend'' ''{{ns}}:7'' ''first'', ex_hop_config ''other'' ''{{cluster}}:7'' ''second'']\<rparr>"

lemma ex_shared_prepared: "fst (Prepare (as_config ex_tmpl_assembly) ex_shared_config) = None"
  by code_simp

definition ex_shared :: Config where
  "ex_shared = snd (Prepare (as_config ex_tmpl_assembly) ex_shared_config)"

text \<open>Both upstreams, and requests of theirs that render the same address.\<close>

definition ex_same_key :: "dialOption pool \<Rightarrow> ex_grpc conn \<Rightarrow> dialOption resolved result \<Rightarrow> dialOption resolved result \<Rightarrow> bool" where
  "ex_same_key p c r1 r2 = (case r1 of Inl _ \<Rightarrow> False | Inr (key1, t1, o1) \<Rightarrow> (case r2 of Inl _ \<Rightarrow> False | Inr (key2, t2, o2) \<Rightarrow>
     key1 = key2 \<and> map cp_value (per_rpc o1) = [''Bearer first''] \<and> map cp_value (per_rpc o2) = [''Bearer second'']
     \<and> map_of (conns p) (member c key1 0) = None))"

definition ex_two_calls :: "Config \<Rightarrow> bool" where
  "ex_two_calls cfg =
     (case newUpstreamForwarder ex_tmpl_assembly cfg (c_Upstreams cfg ! 0) ex_dial_state of
        (Inr fw1, s1) \<Rightarrow>
          (case newUpstreamForwarder ex_tmpl_assembly cfg (c_Upstreams cfg ! 1) s1 of
             (Inr fw2, s2) \<Rightarrow>
               c_size (fw_conn fw1) = c_size (fw_conn fw2)
               \<and> ex_same_key (ds_pool s2) (fw_conn fw1) (R_Resolve (resolver (fw_conn fw1)) (ex_request ''pay'' ''x'')) (R_Resolve (resolver (fw_conn fw2)) (ex_request ''ops'' ''pay''))
               \<and> \<not> isl (fst (conn_conn (as_dial ex_tmpl_assembly) (fw_conn fw1) (ex_request ''pay'' ''x'') (ds_pool s2)))
           | _ \<Rightarrow> False)
      | _ \<Rightarrow> False)"

lemma case_InrE:
  assumes "case r of (Inr v, s) \<Rightarrow> P v s | _ \<Rightarrow> False"
  obtains v s where "r = (Inr v, s)" "P v s"
  using assms by (cases r; cases "fst r") auto

lemma ex_shared_calls: "ex_two_calls ex_shared"
  by code_simp

theorem Dynamic_shared_connection_witness:
  "fst (Prepare (as_config ex_tmpl_assembly) ex_shared_config) = None
   \<and> (\<exists>fw1 s1 fw2 s2 cn c1 p1 c2 p3 key target opts2.
        newUpstreamForwarder ex_tmpl_assembly ex_shared (c_Upstreams ex_shared ! 0) ex_dial_state = (Inr fw1, s1)
        \<and> newUpstreamForwarder ex_tmpl_assembly ex_shared (c_Upstreams ex_shared ! 1) s1 = (Inr fw2, s2)
        \<and> conn_conn (as_dial ex_tmpl_assembly) (fw_conn fw1) (ex_request ''pay'' ''x'') (ds_pool s2) = (Inr cn, c1, p1)
        \<and> conn_conn (as_dial ex_tmpl_assembly) (fw_conn fw2) (ex_request ''ops'' ''pay'') p1 = (Inr cn, c2, p3)
        \<and> R_Resolve (resolver (fw_conn fw2)) (ex_request ''ops'' ''pay'') = Inr (key, target, opts2)
        \<and> map cp_value (per_rpc opts2) = [''Bearer second''] \<and> map cp_value (per_rpc (cl_opts (clients p3 ! cn))) = [''Bearer first''])"
proof -
  obtain fw1 s1 fw2 s2 where f: "newUpstreamForwarder ex_tmpl_assembly ex_shared (c_Upstreams ex_shared ! 0) ex_dial_state = (Inr fw1, s1)"
      "newUpstreamForwarder ex_tmpl_assembly ex_shared (c_Upstreams ex_shared ! 1) s1 = (Inr fw2, s2)"
      "c_size (fw_conn fw1) = c_size (fw_conn fw2)"
    and res: "ex_same_key (ds_pool s2) (fw_conn fw1) (R_Resolve (resolver (fw_conn fw1)) (ex_request ''pay'' ''x'')) (R_Resolve (resolver (fw_conn fw2)) (ex_request ''ops'' ''pay''))"
    and c: "\<not> isl (fst (conn_conn (as_dial ex_tmpl_assembly) (fw_conn fw1) (ex_request ''pay'' ''x'') (ds_pool s2)))"
    using ex_shared_calls unfolding ex_two_calls_def by (elim case_InrE conjE) (rule that)
  obtain key t1 o1 t2 o2 where r1: "R_Resolve (resolver (fw_conn fw1)) (ex_request ''pay'' ''x'') = Inr (key, t1, o1)"
    and r2: "R_Resolve (resolver (fw_conn fw2)) (ex_request ''ops'' ''pay'') = Inr (key, t2, o2)" and none: "map_of (conns (ds_pool s2)) (member (fw_conn fw1) key 0) = None"
    and v: "map cp_value (per_rpc o1) = [''Bearer first'']" "map cp_value (per_rpc o2) = [''Bearer second'']"
    using res by (cases "R_Resolve (resolver (fw_conn fw1)) (ex_request ''pay'' ''x'')"; cases "R_Resolve (resolver (fw_conn fw2)) (ex_request ''ops'' ''pay'')") (auto simp: ex_same_key_def)
  obtain cn c1 p1 where p1: "conn_conn (as_dial ex_tmpl_assembly) (fw_conn fw1) (ex_request ''pay'' ''x'') (ds_pool s2) = (Inr cn, c1, p1)"
    using c by (metis isl_def prod.collapse sum.exhaust_sel)
  obtain res c2 p3 where p3: "conn_conn (as_dial ex_tmpl_assembly) (fw_conn fw2) (ex_request ''ops'' ''pay'') p1 = (res, c2, p3)" by (metis prod.exhaust)
  from Dynamic_shared_connection [OF f r1 r2 none p1 map_le_refl prefix_order.refl p3] have e: "res = Inr cn" "cl_opts (clients p3 ! cn) = o1" by simp_all
  have "map cp_value (per_rpc (cl_opts (clients p3 ! cn))) = [''Bearer first'']" using v(1) e(2) by simp
  with f(1,2) r2 p1 p3 [unfolded e(1)] v(2) ex_shared_prepared show ?thesis by simp
qed

text \<open>A static upstream and a templated one, and a call to the latter.\<close>

definition ex_one_call :: "Config \<Rightarrow> bool" where
  "ex_one_call cfg =
     (case newUpstreamForwarder ex_tmpl_assembly cfg (ex_hop False ''a'' ''h:1'') ex_dial_state of
        (Inr fw, s) \<Rightarrow> fw_ready fw
          \<and> (case newUpstreamForwarder ex_tmpl_assembly cfg (c_Upstreams cfg ! 0) s of
               (Inr fw1, s1) \<Rightarrow> \<not> fw_ready fw1
                 \<and> (case R_Resolve (resolver (fw_conn fw1)) (ex_request ''pay'' ''x'') of
                      Inl _ \<Rightarrow> False
                    | Inr (key, t, opts) \<Rightarrow> one_nul key \<and> t = ''pay:7'' \<and> map cp_value (per_rpc opts) = [''Bearer first''])
                 \<and> \<not> isl (fst (conn_conn (as_dial ex_tmpl_assembly) (fw_conn fw1) (ex_request ''pay'' ''x'') (ds_pool s1)))
             | _ \<Rightarrow> False)
      | _ \<Rightarrow> False)"

definition ex_plain_ups :: "ConfigUpstream \<Rightarrow> ConfigUpstream \<Rightarrow> bool" where
  "ex_plain_ups u v \<longleftrightarrow> plain_hop u True \<and> plain_hop v False \<and> l_HostPort (cu_Listen u) \<noteq> l_HostPort (cu_Listen v)"

lemma ex_hops: "ex_one_call ex_shared" "ex_plain_ups (ex_hop False ''a'' ''h:1'') (c_Upstreams ex_shared ! 0)"
  by code_simp+

theorem Conn_reaches_target_witness:
  "\<exists>fw s fw1 s1 cn c' p' key opts.
     newUpstreamForwarder ex_tmpl_assembly ex_shared (ex_hop False ''a'' ''h:1'') ex_dial_state = (Inr fw, s)
     \<and> newUpstreamForwarder ex_tmpl_assembly ex_shared (c_Upstreams ex_shared ! 0) s = (Inr fw1, s1)
     \<and> conn_conn (as_dial ex_tmpl_assembly) (fw_conn fw1) (ex_request ''pay'' ''x'') (ds_pool s1) = (Inr cn, c', p')
     \<and> clients p' ! cn = \<lparr>cl_target = ''pay:7'', cl_opts = opts\<rparr> \<and> map cp_value (per_rpc opts) = [''Bearer first'']"
proof -
  let ?up = "ex_hop False ''a'' ''h:1''" and ?up1 = "c_Upstreams ex_shared ! 0"
  obtain fw s fw1 s1 where x: "newUpstreamForwarder ex_tmpl_assembly ex_shared ?up ex_dial_state = (Inr fw, s)" "fw_ready fw"
      "newUpstreamForwarder ex_tmpl_assembly ex_shared ?up1 s = (Inr fw1, s1)" "\<not> fw_ready fw1"
    and res: "case R_Resolve (resolver (fw_conn fw1)) (ex_request ''pay'' ''x'') of Inl _ \<Rightarrow> False
        | Inr (key, t, opts) \<Rightarrow> one_nul key \<and> t = ''pay:7'' \<and> map cp_value (per_rpc opts) = [''Bearer first'']"
      "\<not> isl (fst (conn_conn (as_dial ex_tmpl_assembly) (fw_conn fw1) (ex_request ''pay'' ''x'') (ds_pool s1)))"
    using ex_hops(1) unfolding ex_one_call_def by (elim case_InrE conjE) (rule that)
  obtain key opts where r1: "R_Resolve (resolver (fw_conn fw1)) (ex_request ''pay'' ''x'') = Inr (key, ''pay:7'', opts)" "one_nul key" "map cp_value (per_rpc opts) = [''Bearer first'']"
    using res(1) by (cases "R_Resolve (resolver (fw_conn fw1)) (ex_request ''pay'' ''x'')") auto
  obtain cn c' p' where p': "conn_conn (as_dial ex_tmpl_assembly) (fw_conn fw1) (ex_request ''pay'' ''x'') (ds_pool s1) = (Inr cn, c', p')"
    using res(2) by (metis isl_def prod.collapse sum.exhaust_sel)
  let ?h = "\<lparr>h_ups = [(?up, fw), (?up1, fw1)], h_exts = [], h_state = s1\<rparr>"
  have "hop_step ex_tmpl_assembly ex_shared (no_hops NewReloader) \<lparr>h_ups = [(?up, fw)], h_exts = [], h_state = s\<rparr>"
    using hop_step.upstream [of ex_tmpl_assembly ex_shared ?up "no_hops NewReloader"] x(1) by (simp add: no_hops_def ex_dial_state_def)
  moreover have "hop_step ex_tmpl_assembly ex_shared \<lparr>h_ups = [(?up, fw)], h_exts = [], h_state = s\<rparr> ?h"
    using hop_step.upstream [of ex_tmpl_assembly ex_shared ?up1 "\<lparr>h_ups = [(?up, fw)], h_exts = [], h_state = s\<rparr>"] x(3) by simp
  ultimately have run: "(hop_step ex_tmpl_assembly ex_shared)\<^sup>*\<^sup>* (no_hops NewReloader) ?h" by auto
  have "plain_hops ?h" using ex_hops(2) x(2,4) by (simp add: plain_hops_def ex_plain_ups_def)
  from Conn_reaches_target [OF run this, of ?up1 fw1 "ex_request ''pay'' ''x''" cn c' p'] p' x r1 show ?thesis by auto
qed

end
