(* ===== verification/Codec.thy ===== *)
theory Codec
  imports Vault
begin

text \<open>
  \<open>pkg/codec\<close>: the encryption codec (\<open>encryptor.go\<close>) and the chain codecs are applied in
  (\<open>chain.go\<close>). A \<open>Cipher\<close> is an interface; it is a record of its methods over a state \<open>'s\<close> that
  holds whatever they change. Serialisation of a \<open>common.Payload\<close> is generated code outside the
  repository: the record \<open>wire_env\<close>, with \<open>marshal_ok\<close> as what the codec relies on. Payload
  pointers are not nil, as in every list decoded from the wire.

  The locale \<open>stateful_codec\<close> is the contract of a codec: decoding what was encoded restores it,
  in every good state. \<open>sealing_cipher\<close> is what the encryptor needs of a cipher; the theory of
  the proxy's codecs interprets it on the cipher bound to the vault.
\<close>

section \<open>The code\<close>

record Payload =
  Metadata :: "string \<rightharpoonup> bytes"
  Data :: bytes

record wire_env =
  Marshal :: "Payload \<Rightarrow> bytes result"
  Unmarshal :: "bytes \<Rightarrow> Payload result"

text \<open>A payload that was serialised is restored exactly.\<close>

definition marshal_ok :: "wire_env \<Rightarrow> bool" where
  "marshal_ok we \<longleftrightarrow> (\<forall>p b. Marshal we p = Inr b \<longrightarrow> Unmarshal we b = Inr p)"

definition MetadataEncoding :: string where "MetadataEncoding = ''encoding''"
definition MetadataEncryptionKeyID :: string where "MetadataEncryptionKeyID = ''encryption-key-id''"
definition MetadataEncryptionDEK :: string where "MetadataEncryptionDEK = ''encryption-dek''"
definition MetadataEncryptionNamespace :: string where "MetadataEncryptionNamespace = ''encryption-namespace''"
definition EncryptionEncoding :: string where "EncryptionEncoding = ''binary/encrypted''"
definition SkipOpEncrypt :: string where "SkipOpEncrypt = ''encrypt''"
definition SkipOpDecrypt :: string where "SkipOpDecrypt = ''decrypt''"

lemmas metadata_keys = MetadataEncoding_def MetadataEncryptionKeyID_def MetadataEncryptionDEK_def
  MetadataEncryptionNamespace_def

record 's Cipher =
  cipher_Encrypt :: "bytes \<Rightarrow> 's \<Rightarrow> Message result \<times> 's"
  cipher_Decrypt :: "Message \<Rightarrow> 's \<Rightarrow> bytes result \<times> 's"

text \<open>An encryptor; its skip set is a list without blank entries.\<close>

record 's Encryptor =
  e_cipher :: "'s Cipher"
  e_skip :: "string list"
  e_onSkip :: "(string \<Rightarrow> string \<Rightarrow> 's \<Rightarrow> 's) option"

type_synonym 's EncryptorOption = "'s Encryptor \<Rightarrow> 's Encryptor"

definition NewEncryptor :: "'s Cipher \<Rightarrow> 's EncryptorOption list \<Rightarrow> 's Encryptor" where
  "NewEncryptor c opts = fold (\<lambda>opt e. opt e) opts \<lparr>e_cipher = c, e_skip = [], e_onSkip = None\<rparr>"

definition WithSkipEncodings :: "string list \<Rightarrow> 's EncryptorOption" where
  "WithSkipEncodings encodings e = e\<lparr>e_skip := filter (\<lambda>enc. enc \<noteq> []) encodings\<rparr>"

definition WithSkipObserver :: "(string \<Rightarrow> string \<Rightarrow> 's \<Rightarrow> 's) option \<Rightarrow> 's EncryptorOption" where
  "WithSkipObserver fn e = e\<lparr>e_onSkip := fn\<rparr>"

text \<open>A metadata entry as a string: empty when it is missing.\<close>

definition entry :: "Payload \<Rightarrow> string \<Rightarrow> string" where
  "entry p k = (case Metadata p k of None \<Rightarrow> [] | Some v \<Rightarrow> v)"

definition skips :: "'s Encryptor \<Rightarrow> string \<Rightarrow> bool" where
  "skips e enc = List.member (e_skip e) enc"

definition skipped :: "'s Encryptor \<Rightarrow> string \<Rightarrow> string \<Rightarrow> 's \<Rightarrow> 's" where
  "skipped e op enc s = (case e_onSkip e of None \<Rightarrow> s | Some f \<Rightarrow> f op enc s)"

text \<open>The body of the loop of \<open>Encode\<close>.\<close>

definition encodeOne :: "wire_env \<Rightarrow> 's Encryptor \<Rightarrow> Payload \<Rightarrow> 's \<Rightarrow> Payload result \<times> 's" where
  "encodeOne we e p s =
     (if e_skip e \<noteq> [] \<and> skips e (entry p MetadataEncoding)
      then (Inr p, skipped e SkipOpEncrypt (entry p MetadataEncoding) s)
      else case Marshal we p of
        Inl err \<Rightarrow> (Inl (WrapError (''failed to marshal payload: '' @ Error err) [err]), s)
      | Inr data \<Rightarrow>
          (case cipher_Encrypt (e_cipher e) data s of
             (Inl err, s) \<Rightarrow> (Inl (WrapError (''failed to encrypt payload: '' @ Error err) [err]), s)
           | (Inr msg, s) \<Rightarrow>
               (case KeyMaterial msg of
                  None \<Rightarrow> (Inl nil_panic, s)
                | Some km \<Rightarrow>
                    (let md = [MetadataEncoding \<mapsto> EncryptionEncoding, MetadataEncryptionKeyID \<mapsto> KEKID km,
                               MetadataEncryptionDEK \<mapsto> EncryptedDEK km];
                         md = (if Bound msg then md(MetadataEncryptionNamespace \<mapsto> Namespace msg) else md)
                     in (Inr \<lparr>Metadata = md, Data = Ciphertext msg\<rparr>, s)))))"

text \<open>The message \<open>Decode\<close> reads off a payload; it carries no material version.\<close>

definition messageOf :: "Payload \<Rightarrow> Message" where
  "messageOf p =
     \<lparr>Ciphertext = Data p,
      KeyMaterial = Some \<lparr>Version = 0, KEKID = entry p MetadataEncryptionKeyID,
                          EncryptedDEK = entry p MetadataEncryptionDEK\<rparr>,
      Bound = (Metadata p MetadataEncryptionNamespace \<noteq> None),
      Namespace = entry p MetadataEncryptionNamespace\<rparr>"

text \<open>The body of the loop of \<open>Decode\<close>.\<close>

definition decodeOne :: "wire_env \<Rightarrow> 's Encryptor \<Rightarrow> Payload \<Rightarrow> 's \<Rightarrow> Payload result \<times> 's" where
  "decodeOne we e p s =
     (if entry p MetadataEncoding \<noteq> EncryptionEncoding then (Inr p, s)
      else if entry p MetadataEncryptionKeyID = [] \<or> entry p MetadataEncryptionDEK = [] then (Inr p, s)
      else case cipher_Decrypt (e_cipher e) (messageOf p) s of
        (Inl err, s) \<Rightarrow>
          (if skips e EncryptionEncoding \<and> errors_Is err ErrUnknownKey
           then (Inr p, skipped e SkipOpDecrypt EncryptionEncoding s)
           else (Inl (WrapError (''failed to decrypt payload: '' @ Error err) [err]), s))
      | (Inr pt, s) \<Rightarrow>
          (case Unmarshal we pt of
             Inl err \<Rightarrow> (Inl (WrapError (''failed to unmarshal payload: '' @ Error err) [err]), s)
           | Inr og \<Rightarrow> (Inr og, s)))"

text \<open>A loop that fills a result slice and returns at the first error.\<close>

fun traverse :: "('a \<Rightarrow> 's \<Rightarrow> 'b result \<times> 's) \<Rightarrow> 'a list \<Rightarrow> 's \<Rightarrow> 'b list result \<times> 's" where
  "traverse f [] s = (Inr [], s)"
| "traverse f (x # xs) s =
     (case f x s of
        (Inl err, s) \<Rightarrow> (Inl err, s)
      | (Inr y, s) \<Rightarrow>
          (case traverse f xs s of
             (Inl err, s) \<Rightarrow> (Inl err, s)
           | (Inr ys, s) \<Rightarrow> (Inr (y # ys), s)))"

definition Encryptor_Encode :: "wire_env \<Rightarrow> 's Encryptor \<Rightarrow> Payload list \<Rightarrow> 's \<Rightarrow> Payload list result \<times> 's" where
  "Encryptor_Encode we e = traverse (encodeOne we e)"

definition Encryptor_Decode :: "wire_env \<Rightarrow> 's Encryptor \<Rightarrow> Payload list \<Rightarrow> 's \<Rightarrow> Payload list result \<times> 's" where
  "Encryptor_Decode we e = traverse (decodeOne we e)"

section \<open>Chains\<close>

record 's Codec =
  codec_Encode :: "Payload list \<Rightarrow> 's \<Rightarrow> Payload list result \<times> 's"
  codec_Decode :: "Payload list \<Rightarrow> 's \<Rightarrow> Payload list result \<times> 's"

record 's options =
  op_cipher :: "'s Cipher option"
  op_encryptor :: "'s EncryptorOption list"

type_synonym 's Option = "'s options \<Rightarrow> 's options"

definition encryptorCodec :: "wire_env \<Rightarrow> 's Encryptor \<Rightarrow> 's Codec" where
  "encryptorCodec we e = \<lparr>codec_Encode = Encryptor_Encode we e, codec_Decode = Encryptor_Decode we e\<rparr>"

definition NewChain :: "wire_env \<Rightarrow> 's Option list \<Rightarrow> 's Codec list" where
  "NewChain we opts =
     (let vo = fold (\<lambda>opt vo. opt vo) opts \<lparr>op_cipher = None, op_encryptor = []\<rparr>
      in case op_cipher vo of
           None \<Rightarrow> []
         | Some c \<Rightarrow> [encryptorCodec we (NewEncryptor c (op_encryptor vo))])"

definition WithCipher :: "'s Cipher option \<Rightarrow> 's Option" where
  "WithCipher c vo = (if c \<noteq> None then vo\<lparr>op_cipher := c\<rparr> else vo)"

definition WithEncryptorOptions :: "'s EncryptorOption list \<Rightarrow> 's Option" where
  "WithEncryptorOptions opts vo = vo\<lparr>op_encryptor := op_encryptor vo @ opts\<rparr>"

fun Chain_Encode :: "'s Codec list \<Rightarrow> Payload list \<Rightarrow> 's \<Rightarrow> Payload list result \<times> 's" where
  "Chain_Encode [] payloads s = (Inr payloads, s)"
| "Chain_Encode (cd # codecs) payloads s =
     (case codec_Encode cd payloads s of
        (Inl err, s) \<Rightarrow> (Inl err, s)
      | (Inr payloads, s) \<Rightarrow> Chain_Encode codecs payloads s)"

fun decode_all :: "'s Codec list \<Rightarrow> Payload list \<Rightarrow> 's \<Rightarrow> Payload list result \<times> 's" where
  "decode_all [] payloads s = (Inr payloads, s)"
| "decode_all (cd # codecs) payloads s =
     (case codec_Decode cd payloads s of
        (Inl err, s) \<Rightarrow> (Inl err, s)
      | (Inr payloads, s) \<Rightarrow> decode_all codecs payloads s)"

text \<open>\<open>Chain.Decode\<close> runs the codecs backward.\<close>

definition Chain_Decode :: "'s Codec list \<Rightarrow> Payload list \<Rightarrow> 's \<Rightarrow> Payload list result \<times> 's" where
  "Chain_Decode codecs = decode_all (rev codecs)"

section \<open>The contract of a codec\<close>

locale stateful_codec =
  fixes enc :: "'a \<Rightarrow> 's \<Rightarrow> 'b result \<times> 's" and dec :: "'b \<Rightarrow> 's \<Rightarrow> 'a result \<times> 's"
    and good :: "'s \<Rightarrow> bool" and fits :: "'a \<Rightarrow> bool"
  assumes enc_good: "good s \<Longrightarrow> enc x s = (r, s') \<Longrightarrow> good s'"
    and dec_good: "good s \<Longrightarrow> dec y s = (q, s') \<Longrightarrow> good s'"
    and roundtrip: "good s \<Longrightarrow> fits x \<Longrightarrow> enc x s = (Inr y, s1) \<Longrightarrow> good s2 \<Longrightarrow> \<exists>s3. dec y s2 = (Inr x, s3)"
begin

lemma traverse_enc_good: "good s \<Longrightarrow> traverse enc xs s = (r, s') \<Longrightarrow> good s'"
  by (induction xs arbitrary: s r) (auto dest: enc_good split: prod.splits sum.splits)

lemma traverse_dec_good: "good s \<Longrightarrow> traverse dec ys s = (r, s') \<Longrightarrow> good s'"
  by (induction ys arbitrary: s r) (auto dest: dec_good split: prod.splits sum.splits)

lemma traverse_roundtrip:
  "good s \<Longrightarrow> list_all fits xs \<Longrightarrow> traverse enc xs s = (Inr ys, s1) \<Longrightarrow> good s2 \<Longrightarrow>
   \<exists>s3. traverse dec ys s2 = (Inr xs, s3)"
proof (induction xs arbitrary: s ys s2)
  case (Cons x xs)
  then obtain y ys' sa where y: "enc x s = (Inr y, sa)" "traverse enc xs sa = (Inr ys', s1)" "ys = y # ys'"
    by (auto split: prod.splits sum.splits)
  obtain sb where sb: "dec y s2 = (Inr x, sb)"
    using roundtrip [OF Cons.prems(1) _ y(1) Cons.prems(4)] Cons.prems(2) by auto
  have "good sa" "good sb" using enc_good dec_good y(1) sb Cons.prems by blast+
  with Cons.IH [OF _ _ y(2)] Cons.prems(2) obtain sc where "traverse dec ys' sb = (Inr xs, sc)" by auto
  with sb y(3) show ?case by simp
qed simp

text \<open>A codec of elements gives a codec of lists.\<close>

lemma lists_codec: "stateful_codec (traverse enc) (traverse dec) good (list_all fits)"
  by unfold_locales (blast intro: traverse_enc_good traverse_dec_good traverse_roundtrip)+

end

text \<open>Codecs compose: what the first puts out must be in the domain of the second.\<close>

lemma codec_compose:
  assumes "stateful_codec enc dec good fits" "stateful_codec enc' dec' good fits'"
    and "\<And>x s y s1. good s \<Longrightarrow> fits x \<Longrightarrow> enc x s = (Inr y, s1) \<Longrightarrow> fits' y"
  shows "stateful_codec
     (\<lambda>x s. case enc x s of (Inl err, s) \<Rightarrow> (Inl err, s) | (Inr y, s) \<Rightarrow> enc' y s)
     (\<lambda>z s. case dec' z s of (Inl err, s) \<Rightarrow> (Inl err, s) | (Inr y, s) \<Rightarrow> dec y s) good fits"
proof
  fix s x r s'
  assume *: "good s" "(case enc x s of (Inl err, s) \<Rightarrow> (Inl err, s) | (Inr y, s) \<Rightarrow> enc' y s) = (r, s')"
  obtain u sa where u: "enc x s = (u, sa)" by (cases "enc x s")
  with * have "good sa" using stateful_codec.enc_good [OF assms(1)] by blast
  with * u show "good s'"
    by (cases u) (auto dest: stateful_codec.enc_good [OF assms(2)])
next
  fix s y q s'
  assume *: "good s" "(case dec' y s of (Inl err, s) \<Rightarrow> (Inl err, s) | (Inr y, s) \<Rightarrow> dec y s) = (q, s')"
  obtain u sa where u: "dec' y s = (u, sa)" by (cases "dec' y s")
  with * have "good sa" using stateful_codec.dec_good [OF assms(2)] by blast
  with * u show "good s'"
    by (cases u) (auto dest: stateful_codec.dec_good [OF assms(1)])
next
  fix s x z s1 s2
  assume *: "good s" "fits x" "good s2"
    "(case enc x s of (Inl err, s) \<Rightarrow> (Inl err, s) | (Inr y, s) \<Rightarrow> enc' y s) = (Inr z, s1)"
  then obtain y sa where y: "enc x s = (Inr y, sa)" "enc' y sa = (Inr z, s1)"
    by (auto split: prod.splits sum.splits)
  then have "good sa" "fits' y" using * assms(3) stateful_codec.enc_good [OF assms(1)] by blast+
  then obtain sb where sb: "dec' z s2 = (Inr y, sb)"
    using stateful_codec.roundtrip [OF assms(2)] y(2) *(3) by blast
  then have "good sb" using stateful_codec.dec_good [OF assms(2)] *(3) by blast
  with stateful_codec.roundtrip [OF assms(1) *(1,2) y(1)] sb
  show "\<exists>s3. (case dec' z s2 of (Inl err, s) \<Rightarrow> (Inl err, s) | (Inr y, s) \<Rightarrow> dec y s) = (Inr x, s3)" by auto
qed

text \<open>A chain of codecs that all keep one domain is a codec on it.\<close>

lemma Chain_Encode_Cons:
  "Chain_Encode (cd # cds) = (\<lambda>x s. case codec_Encode cd x s of (Inl err, s) \<Rightarrow> (Inl err, s) | (Inr y, s) \<Rightarrow> Chain_Encode cds y s)"
  by (intro ext) simp

lemma decode_all_append:
  "decode_all (cds @ [cd]) = (\<lambda>z s. case decode_all cds z s of (Inl err, s) \<Rightarrow> (Inl err, s) | (Inr y, s) \<Rightarrow> codec_Decode cd y s)"
proof (intro ext)
  fix z s
  show "decode_all (cds @ [cd]) z s = (case decode_all cds z s of (Inl err, s) \<Rightarrow> (Inl err, s) | (Inr y, s) \<Rightarrow> codec_Decode cd y s)"
    by (induction cds arbitrary: z s) (auto split: prod.splits sum.splits)
qed

lemma chain_codec:
  assumes "\<And>cd. cd \<in> set cds \<Longrightarrow> stateful_codec (codec_Encode cd) (codec_Decode cd) good fits"
    and "\<And>cd x s y s1. cd \<in> set cds \<Longrightarrow> good s \<Longrightarrow> fits x \<Longrightarrow> codec_Encode cd x s = (Inr y, s1) \<Longrightarrow> fits y"
  shows "stateful_codec (Chain_Encode cds) (Chain_Decode cds) good fits"
  using assms
proof (induction cds)
  case Nil
  show ?case by unfold_locales (auto simp: Chain_Decode_def)
next
  case (Cons cd cds)
  have "stateful_codec (Chain_Encode cds) (Chain_Decode cds) good fits"
    by (rule Cons.IH) (meson Cons.prems list.set_intros)+
  with Cons.prems show ?case
    unfolding Chain_Encode_Cons Chain_Decode_def rev.simps decode_all_append
    by (intro codec_compose [where fits' = fits]) (simp_all, metis)
qed

section \<open>The encryptor is a codec\<close>

text \<open>
  What the encryptor needs of a cipher: opening a sealed message, less the material version that
  the payload does not carry, gives the data back; and a sealed message names its key and holds
  wrapped bytes.
\<close>

definition onWire :: "Message \<Rightarrow> Message" where
  "onWire m = m\<lparr>KeyMaterial := map_option (\<lambda>km. km\<lparr>Version := 0\<rparr>) (KeyMaterial m),
               Namespace := (if Bound m then Namespace m else [])\<rparr>"

locale sealing_cipher =
  stateful_codec enc "\<lambda>m. dec (onWire m)" good "\<lambda>_. True"
  for enc :: "bytes \<Rightarrow> 's \<Rightarrow> Message result \<times> 's" and dec :: "Message \<Rightarrow> 's \<Rightarrow> bytes result \<times> 's"
    and good :: "'s \<Rightarrow> bool" +
  assumes dec_any_good: "good s \<Longrightarrow> dec m s = (q, s') \<Longrightarrow> good s'"
    and material: "good s \<Longrightarrow> enc d s = (Inr m, s1) \<Longrightarrow>
      \<exists>km. KeyMaterial m = Some km \<and> KEKID km \<noteq> [] \<and> EncryptedDEK km \<noteq> []"
begin

lemma encode_good:
  assumes "e_cipher e = \<lparr>cipher_Encrypt = enc, cipher_Decrypt = dec'\<rparr>"
    and "\<And>op encoding s. good s \<Longrightarrow> good (skipped e op encoding s)"
    and "good s" "encodeOne we e p s = (r, s')"
  shows "good s'"
  using assms
  by (auto simp: encodeOne_def Let_def dest: enc_good
      split: if_splits sum.splits prod.splits option.splits)

lemma decode_good:
  assumes "e_cipher e = \<lparr>cipher_Encrypt = enc', cipher_Decrypt = dec\<rparr>"
    and "\<And>op encoding s. good s \<Longrightarrow> good (skipped e op encoding s)"
    and "good s" "decodeOne we e p s = (r, s')"
  shows "good s'"
  using assms
  by (auto simp: decodeOne_def dest: dec_any_good split: if_splits sum.splits prod.splits)

lemma messageOf_sealed:
  assumes "KeyMaterial m = Some km"
  shows "messageOf \<lparr>Metadata = (let md = [MetadataEncoding \<mapsto> EncryptionEncoding, MetadataEncryptionKeyID \<mapsto> KEKID km,
                               MetadataEncryptionDEK \<mapsto> EncryptedDEK km]
                     in if Bound m then md(MetadataEncryptionNamespace \<mapsto> Namespace m) else md),
                    Data = Ciphertext m\<rparr> = onWire m"
  using assms by (simp add: messageOf_def onWire_def entry_def metadata_keys Let_def)

lemma encryptor_roundtrip:
  assumes e: "e_cipher e = \<lparr>cipher_Encrypt = enc, cipher_Decrypt = dec'\<rparr>"
    and e': "e_cipher e' = \<lparr>cipher_Encrypt = enc', cipher_Decrypt = dec\<rparr>"
    and we: "marshal_ok we"
    and p: "skips e EncryptionEncoding \<Longrightarrow> entry p MetadataEncoding \<noteq> EncryptionEncoding"
    and run: "good s" "encodeOne we e p s = (Inr q, s1)" "good s2"
  shows "\<exists>s3. decodeOne we e' q s2 = (Inr p, s3)"
proof (cases "e_skip e \<noteq> [] \<and> skips e (entry p MetadataEncoding)")
  case True
  with p run have "q = p" "entry p MetadataEncoding \<noteq> EncryptionEncoding"
    by (auto simp: encodeOne_def)
  then show ?thesis by (simp add: decodeOne_def)
next
  case False
  with run e obtain data m km where m: "Marshal we p = Inr data" "enc data s = (Inr m, s1)" "KeyMaterial m = Some km"
    and q: "q = \<lparr>Metadata = (let md = [MetadataEncoding \<mapsto> EncryptionEncoding, MetadataEncryptionKeyID \<mapsto> KEKID km,
                               MetadataEncryptionDEK \<mapsto> EncryptedDEK km]
                     in if Bound m then md(MetadataEncryptionNamespace \<mapsto> Namespace m) else md),
                    Data = Ciphertext m\<rparr>"
    by (auto simp: encodeOne_def Let_def split: if_splits sum.splits prod.splits option.splits)
  have "messageOf q = onWire m" unfolding q using m(3) by (rule messageOf_sealed)
  moreover have "entry q MetadataEncoding = EncryptionEncoding" "entry q MetadataEncryptionKeyID = KEKID km"
    "entry q MetadataEncryptionDEK = EncryptedDEK km"
    by (simp_all add: q entry_def metadata_keys Let_def)
  moreover have "KEKID km \<noteq> []" "EncryptedDEK km \<noteq> []" using material [OF run(1) m(2)] m(3) by auto
  moreover obtain s3 where "dec (onWire m) s2 = (Inr data, s3)"
    using roundtrip [OF run(1) _ m(2) run(3)] by auto
  moreover have "Unmarshal we data = Inr p" using we m(1) by (simp add: marshal_ok_def)
  ultimately show ?thesis using e' by (simp add: decodeOne_def)
qed

text \<open>
  The payloads that survive the round trip are all but those already under the encryption
  encoding, when that encoding is listed as skipped.
\<close>

lemma encryptor_codec:
  assumes "e_cipher e = \<lparr>cipher_Encrypt = enc, cipher_Decrypt = dec'\<rparr>"
    and "e_cipher e' = \<lparr>cipher_Encrypt = enc', cipher_Decrypt = dec\<rparr>"
    and "marshal_ok we"
    and "\<And>op encoding s. good s \<Longrightarrow> good (skipped e op encoding s)"
    and "\<And>op encoding s. good s \<Longrightarrow> good (skipped e' op encoding s)"
  shows "stateful_codec (encodeOne we e) (decodeOne we e') good
     (\<lambda>p. skips e EncryptionEncoding \<longrightarrow> entry p MetadataEncoding \<noteq> EncryptionEncoding)"
  using encode_good [OF assms(1,4)] decode_good [OF assms(2,5)] encryptor_roundtrip [OF assms(1-3)]
  by unfold_locales blast+

end

end
