(* ===== verification/Proxy_Codec.thy ===== *)
theory Proxy_Codec
  imports Codec Vault_Theorems
begin

text \<open>
  \<open>internal/proxy/encryption.go\<close> and \<open>codec.go\<close>: the cipher that binds the vault to a request,
  the codecs applied to every payload in both directions, and the rule for payloads under a Nexus
  field that crosses namespaces. The state is the vault, its world and what was reported.

  The walk over a protobuf message that calls the visitor and its context hook is third-party
  code; \<open>markCrossing\<close> and the visitor are modelled, and a walk is the list of messages from the
  root to a payload.
\<close>

section \<open>The cipher\<close>

text \<open>The reports of \<open>Reporter\<close>: a vault operation with its result label, and the counters.\<close>

datatype report =
    VaultOp string string string
  | UnboundOpen string
  | NamespaceMismatch string
  | PayloadSkipped string string string

record 'c pstate =
  ps_vault :: "'c Vault"
  ps_world :: vworld
  ps_reports :: "report list"

record scope =
  s_ns :: string
  s_label :: string
  s_check :: bool

definition resultLabel :: "goerror option \<Rightarrow> string" where
  "resultLabel err =
     (case err of
        None \<Rightarrow> ''success''
      | Some err \<Rightarrow>
          (if errors_Is err ErrUnknownKey then ''unknown_key''
           else if errors_Is err ErrUnbound then ''unbound''
           else if errors_Is err ErrNamespaceMismatch then ''mismatch''
           else ''error''))"

definition tell :: "report \<Rightarrow> 'c pstate \<Rightarrow> 'c pstate" where
  "tell r st = st\<lparr>ps_reports := ps_reports st @ [r]\<rparr>"

definition cipherEncrypt :: "'c vault_env \<Rightarrow> ctx \<Rightarrow> scope \<Rightarrow> bytes \<Rightarrow> 'c pstate \<Rightarrow> Message result \<times> 'c pstate" where
  "cipherEncrypt e c s data st =
     (case Seal e (ps_vault st) c (s_ns s) data (Some (s_label s)) (ps_world st) of
        (msg, v, w) \<Rightarrow>
          (msg, tell (VaultOp ''encrypt'' (resultLabel (err_of msg)) (s_ns s))
                  (st\<lparr>ps_vault := v, ps_world := w\<rparr>)))"

definition cipherDecrypt :: "'c vault_env \<Rightarrow> ctx \<Rightarrow> scope \<Rightarrow> Message \<Rightarrow> 'c pstate \<Rightarrow> bytes result \<times> 'c pstate" where
  "cipherDecrypt e c s m st =
     (let st = (if \<not> Bound m then tell (UnboundOpen (s_ns s)) st
                else if s_check s \<and> Namespace m \<noteq> s_label s then tell (NamespaceMismatch (s_ns s)) st
                else st);
          expected = (if s_check s then Some (s_label s) else None)
      in case Open e (ps_vault st) c (Some m) expected (ps_world st) of
           (pt, v, w) \<Rightarrow>
             (pt, tell (VaultOp ''decrypt'' (resultLabel (err_of pt)) (s_ns s))
                    (st\<lparr>ps_vault := v, ps_world := w\<rparr>)))"

definition cipher :: "'c vault_env \<Rightarrow> ctx \<Rightarrow> scope \<Rightarrow> 'c pstate Cipher" where
  "cipher e c s = \<lparr>cipher_Encrypt = cipherEncrypt e c s, cipher_Decrypt = cipherDecrypt e c s\<rparr>"

section \<open>The codecs\<close>

text \<open>The options; \<open>HasVault\<close> and \<open>HasReporter\<close> say whether the interface fields are set.\<close>

record CodecOptions =
  HasVault :: bool
  Encrypt :: bool
  EncodeFailures :: bool
  SkipEncodings :: "string list"
  HasReporter :: bool

type_synonym 'c codecOpt = "ctx \<Rightarrow> scope \<Rightarrow> 'c pstate Option"

record 'c Codecs =
  inbound :: "'c codecOpt list"
  outbound :: "'c codecOpt list"
  encodeFailures :: bool
  restoreFailures :: bool

definition enc_opt :: "'c vault_env \<Rightarrow> 'c codecOpt" where
  "enc_opt e c s = WithCipher (Some (cipher e c s))"

definition skip_opt :: "string list \<Rightarrow> 'c codecOpt" where
  "skip_opt encodings c s =
     WithEncryptorOptions [WithSkipEncodings encodings,
       WithSkipObserver (Some (\<lambda>op encoding. tell (PayloadSkipped op encoding (s_ns s))))]"

definition NewCodecs :: "'c vault_env \<Rightarrow> CodecOptions \<Rightarrow> 'c Codecs result" where
  "NewCodecs e opts =
     (if Encrypt opts \<and> \<not> HasVault opts then Inl (ErrorString ''proxy: encryption requires a vault'')
      else if EncodeFailures opts \<and> \<not> Encrypt opts
      then Inl (ErrorString ''proxy: failure encoding requires encryption'')
      else if HasVault opts \<and> \<not> HasReporter opts then Inl (ErrorString ''proxy: a vault requires a reporter'')
      else
        (let c = \<lparr>inbound = [], outbound = [], encodeFailures = EncodeFailures opts,
                  restoreFailures = HasVault opts\<rparr>
         in if HasVault opts
            then let c = c\<lparr>inbound := inbound c @ [enc_opt e]\<rparr>;
                     c = (if Encrypt opts then c\<lparr>outbound := outbound c @ [enc_opt e]\<rparr> else c)
                 in if SkipEncodings opts \<noteq> []
                    then let c = c\<lparr>inbound := inbound c @ [skip_opt (SkipEncodings opts)]\<rparr>
                         in Inr (if Encrypt opts then c\<lparr>outbound := outbound c @ [skip_opt (SkipEncodings opts)]\<rparr> else c)
                    else Inr c
            else Inr c))"

definition apply_codecs :: "wire_env \<Rightarrow> ctx \<Rightarrow> scope \<Rightarrow> 'c codecOpt list
    \<Rightarrow> ('c pstate Codec list \<Rightarrow> Payload list \<Rightarrow> 'c pstate \<Rightarrow> Payload list result \<times> 'c pstate)
    \<Rightarrow> Payload list \<Rightarrow> 'c pstate \<Rightarrow> Payload list result \<times> 'c pstate" where
  "apply_codecs we c s opts fn payloads = fn (NewChain we (map (\<lambda>opt. opt c s) opts)) payloads"

definition Codecs_Decode :: "wire_env \<Rightarrow> 'c Codecs \<Rightarrow> ctx \<Rightarrow> string \<Rightarrow> string \<Rightarrow> Payload list
    \<Rightarrow> 'c pstate \<Rightarrow> Payload list result \<times> 'c pstate" where
  "Codecs_Decode we cs c local remote payloads =
     apply_codecs we c \<lparr>s_ns = local, s_label = remote, s_check = (remote \<noteq> [])\<rparr> (inbound cs) Chain_Decode payloads"

definition Codecs_Encode :: "wire_env \<Rightarrow> 'c Codecs \<Rightarrow> ctx \<Rightarrow> string \<Rightarrow> string \<Rightarrow> Payload list
    \<Rightarrow> 'c pstate \<Rightarrow> Payload list result \<times> 'c pstate" where
  "Codecs_Encode we cs c local remote payloads =
     apply_codecs we c \<lparr>s_ns = local, s_label = remote, s_check = False\<rparr> (outbound cs) Chain_Encode payloads"

definition remoteName :: "(string \<Rightarrow> string) option \<Rightarrow> string \<Rightarrow> string" where
  "remoteName remote ns = (case remote of None \<Rightarrow> ns | Some f \<Rightarrow> if ns = [] then ns else f ns)"

section \<open>Payloads that cross namespaces\<close>

text \<open>The message types \<open>crossingOf\<close> names.\<close>

datatype msgType =
    StartOperationRequest | NexusOperationCompletedEventAttributes | NexusOperationFailedEventAttributes
  | NexusOperationCanceledEventAttributes | NexusOperationCancelRequestFailedEventAttributes
  | NexusOperationTimedOutEventAttributes | PendingNexusOperationInfo | NexusOperationCancellationInfo
  | NexusOperationExecutionInfo | NexusOperationExecutionCancellationInfo
  | DescribeNexusOperationExecutionResponse | PollNexusOperationExecutionResponse | OtherMessage

text \<open>A message: its address, its type, and the address of what a getter returns (\<open>None\<close> for nil).\<close>

record ProtoMessage =
  m_ptr :: nat
  m_type :: msgType
  m_get :: "string \<Rightarrow> nat option"

record crossing =
  cr_all :: bool
  cr_parts :: "nat option list"

text \<open>\<open>None\<close> is the nil slice of the default case.\<close>

definition crossingOf :: "ProtoMessage \<Rightarrow> nat option list option" where
  "crossingOf m =
     (case m_type m of
        StartOperationRequest \<Rightarrow> Some [m_get m ''Payload'']
      | NexusOperationCompletedEventAttributes \<Rightarrow> Some [m_get m ''Result'']
      | NexusOperationFailedEventAttributes \<Rightarrow> Some [m_get m ''Failure'']
      | NexusOperationCanceledEventAttributes \<Rightarrow> Some [m_get m ''Failure'']
      | NexusOperationCancelRequestFailedEventAttributes \<Rightarrow> Some [m_get m ''Failure'']
      | NexusOperationTimedOutEventAttributes \<Rightarrow> Some [m_get m ''Failure'']
      | PendingNexusOperationInfo \<Rightarrow> Some [m_get m ''CancellationInfo'', m_get m ''LastAttemptFailure'']
      | NexusOperationCancellationInfo \<Rightarrow> Some [m_get m ''LastAttemptFailure'']
      | NexusOperationExecutionInfo \<Rightarrow> Some [m_get m ''CancellationInfo'', m_get m ''LastAttemptFailure'']
      | NexusOperationExecutionCancellationInfo \<Rightarrow> Some [m_get m ''LastAttemptFailure'']
      | DescribeNexusOperationExecutionResponse \<Rightarrow> Some [m_get m ''Result'', m_get m ''Failure'']
      | PollNexusOperationExecutionResponse \<Rightarrow> Some [m_get m ''Result'', m_get m ''Failure'']
      | OtherMessage \<Rightarrow> None)"

text \<open>\<open>markCrossing\<close> on the value of the context; a context without one has the zero value.\<close>

definition markCrossing :: "crossing \<Rightarrow> ProtoMessage \<Rightarrow> crossing" where
  "markCrossing c m =
     (if cr_all c then c
      else if List.member (cr_parts c) (Some (m_ptr m)) then \<lparr>cr_all = True, cr_parts = []\<rparr>
      else case crossingOf m of
        Some parts \<Rightarrow> \<lparr>cr_all = False, cr_parts = parts\<rparr>
      | None \<Rightarrow> c)"

text \<open>\<open>crosses\<close>; the payloads are given by their addresses.\<close>

definition crosses :: "crossing \<Rightarrow> nat list \<Rightarrow> bool" where
  "crosses c payloads =
     (cr_all c \<or> (case payloads of [p] \<Rightarrow> List.member (cr_parts c) (Some p) | _ \<Rightarrow> False))"

text \<open>
  The visitor of \<open>visitPayloads\<close>: \<open>ns\<close> is the request's namespace, \<open>cr\<close> the crossing of the
  visitor's context, \<open>ptrs\<close> the addresses of the payloads. With no options the direction is left
  alone.
\<close>

definition visitPayloads :: "wire_env \<Rightarrow> 'c codecOpt list
    \<Rightarrow> ('c pstate Codec list \<Rightarrow> Payload list \<Rightarrow> 'c pstate \<Rightarrow> Payload list result \<times> 'c pstate)
    \<Rightarrow> (string \<Rightarrow> string) option
    \<Rightarrow> (ctx \<Rightarrow> string \<Rightarrow> crossing \<Rightarrow> nat list \<Rightarrow> Payload list \<Rightarrow> 'c pstate \<Rightarrow> Payload list result \<times> 'c pstate) option" where
  "visitPayloads we opts fn remote =
     (if opts = [] then None
      else Some (\<lambda>c ns cr ptrs payloads.
        apply_codecs we c \<lparr>s_ns = ns, s_label = remoteName remote ns, s_check = \<not> crosses cr ptrs\<rparr> opts fn payloads))"

text \<open>\<open>chainUnary\<close>: interceptors as functions from an invoker to an invoker, over a call \<open>'a\<close>.\<close>

definition chainUnary :: "(('a \<Rightarrow> 'r) \<Rightarrow> 'a \<Rightarrow> 'r) \<Rightarrow> (('a \<Rightarrow> 'r) \<Rightarrow> 'a \<Rightarrow> 'r) \<Rightarrow> ('a \<Rightarrow> 'r) \<Rightarrow> 'a \<Rightarrow> 'r" where
  "chainUnary outer inner invoker call = outer (\<lambda>call. inner invoker call) call"

section \<open>The vault's cipher keeps the codec contract\<close>

text \<open>Every key that wraps has an ID and never wraps to nothing.\<close>

definition keks_named :: "KEKRegistry \<Rightarrow> bool" where
  "keks_named r \<longleftrightarrow>
     (\<forall>k\<in>set (active_keys r). ID k \<noteq> [] \<and> (\<forall>c ns d. kek_Encrypt k c ns d \<noteq> Inr []))"

text \<open>
  The states in which what scope \<open>s\<close> seals is opened under scope \<open>s'\<close> and context \<open>c\<close>: the vault
  has its invariant and its configuration, the hypotheses on the environment hold, and \<open>s'\<close>
  expects no other label than that of \<open>s\<close>.
\<close>

definition codec_good :: "'c vault_env \<Rightarrow> ('c \<Rightarrow> string \<Rightarrow> DEK option) \<Rightarrow> KEKRegistry \<Rightarrow> int \<Rightarrow> ctx
    \<Rightarrow> scope \<Rightarrow> scope \<Rightarrow> 'c pstate \<Rightarrow> bool" where
  "codec_good e peek r b c s s' st \<longleftrightarrow>
     aead_correct e \<and> rand_ok e \<and> lru_ok e peek \<and> registry_opens r c \<and> registry_unambiguous r \<and> keks_named r
     \<and> vault_inv peek (ps_vault st) \<and> v_registry (ps_vault st) = r \<and> v_binding (ps_vault st) = b
     \<and> (s_check s' \<longrightarrow> s_label s' = s_label s)"

lemma codec_good_tell [simp]: "codec_good e peek r b c s s' (tell x st) = codec_good e peek r b c s s' st"
  by (simp add: codec_good_def tell_def)

lemma tell_fields [simp]: "ps_vault (tell x st) = ps_vault st" "ps_world (tell x st) = ps_world st"
  by (simp_all add: tell_def)

lemma cipherEncrypt_good:
  "codec_good e peek r b c s s' st \<Longrightarrow> cipherEncrypt e c1 s1 d st = (q, st') \<Longrightarrow> codec_good e peek r b c s s' st'"
  by (auto simp: cipherEncrypt_def codec_good_def tell_def Seal_keeps split: prod.splits)

lemma cipherDecrypt_good:
  "codec_good e peek r b c s s' st \<Longrightarrow> cipherDecrypt e c1 s1 m st = (q, st') \<Longrightarrow> codec_good e peek r b c s s' st'"
  by (auto simp: cipherDecrypt_def codec_good_def tell_def Let_def Open_keeps split: prod.splits if_splits)

lemma carries_onWire: "carries (onWire m) m"
  by (auto simp: carries_def onWire_def option.map_comp comp_def)

lemma onWire_fields [simp]: "Bound (onWire m) = Bound m" "Namespace (onWire m) = (if Bound m then Namespace m else [])"
  by (simp_all add: onWire_def)

lemma cipherDecrypt_fst:
  "fst (cipherDecrypt e c s m st) =
     fst (Open e (ps_vault st) c (Some m) (if s_check s then Some (s_label s) else None) (ps_world st))"
  unfolding cipherDecrypt_def Let_def by (simp add: case_prod_beta)

lemma cipher_roundtrip:
  assumes good: "codec_good e peek r b c s s' st" "codec_good e peek r b c s s' st2"
    and enc: "cipherEncrypt e c1 s d st = (Inr m, st1)"
  shows "\<exists>st3. cipherDecrypt e c s' (onWire m) st2 = (Inr d, st3)"
proof -
  from enc obtain v w where "Seal e (ps_vault st) c1 (s_ns s) d (Some (s_label s)) (ps_world st) = (Inr m, v, w)"
    by (auto simp: cipherEncrypt_def split: prod.splits)
  then obtain step w1 where sl: "seal e (ps_vault st) c1 (s_ns s) (s_label s) d (ps_world st) = (Inr m, step, v, w1)"
    by (auto elim: Seal_Inr)
  let ?exp = "if s_check s' then Some (s_label s') else None"
  have ref: "refusal (ps_vault st2) (onWire m) (open_opts ?exp) = None"
    using good seal_message [OF sl] by (auto simp: refusal_def codec_good_def BindingOff_def BindingStrict_def)
  have "fst (Open e (ps_vault st2) c (Some (onWire m)) ?exp w2) = Inr d" for w2
    unfolding Open_fst using good ref
    by (intro seal_open_roundtrip [where v = "ps_vault st" and peek = peek, OF _ _ _ _ _ _ _ _ sl carries_onWire])
      (simp_all add: codec_good_def)
  then have "fst (cipherDecrypt e c s' (onWire m) st2) = Inr d" by (simp only: cipherDecrypt_fst)
  then show ?thesis by (cases "cipherDecrypt e c s' (onWire m) st2") simp
qed

lemma cipher_material:
  assumes "codec_good e peek r b c s s' st" "cipherEncrypt e c1 s d st = (Inr m, st1)"
  shows "\<exists>km. KeyMaterial m = Some km \<and> KEKID km \<noteq> [] \<and> EncryptedDEK km \<noteq> []"
proof -
  from assms(2) obtain v w where "Seal e (ps_vault st) c1 (s_ns s) d (Some (s_label s)) (ps_world st) = (Inr m, v, w)"
    by (auto simp: cipherEncrypt_def split: prod.splits)
  then obtain step w1 where sl: "seal e (ps_vault st) c1 (s_ns s) (s_label s) d (ps_world st) = (Inr m, step, v, w1)"
    by (auto elim: Seal_Inr)
  from assms(1) have good: "rand_ok e" "vault_inv peek (ps_vault st)" "v_registry (ps_vault st) = r" "keks_named r"
    by (simp_all add: codec_good_def)
  obtain d' c2 ns2 km where km: "KeyMaterial m = Some km" "registry_Encrypt r c2 ns2 (Some d') = Inr km"
    using seal_material [OF good(1,2) sl] good(3) by metis
  obtain k ct where "k \<in> set (active_keys r)" "kek_Encrypt k c2 ns2 (dek_key d') = Inr ct"
    "km = \<lparr>Version = materialVersion, KEKID = ID k, EncryptedDEK = EncodeToString ct\<rparr>"
    using km(2) by (rule registry_Encrypt_Inr)
  with good(4) km(1) show ?thesis by (auto simp: keks_named_def)
qed

interpretation vault_cipher: sealing_cipher "cipherEncrypt e c1 s" "cipherDecrypt e c s'" "codec_good e peek r b c s s'"
  for e c1 c s s' peek r b
  by unfold_locales
    (blast intro: cipherEncrypt_good cipherDecrypt_good cipher_roundtrip cipher_material)+

section \<open>What the codecs do to payloads\<close>

text \<open>The encryptor that the options build for a request.\<close>

definition encryptorFor :: "'c vault_env \<Rightarrow> CodecOptions \<Rightarrow> ctx \<Rightarrow> scope \<Rightarrow> 'c pstate Encryptor" where
  "encryptorFor e opts c s =
     \<lparr>e_cipher = cipher e c s, e_skip = filter (\<lambda>x. x \<noteq> []) (SkipEncodings opts),
      e_onSkip = (if SkipEncodings opts = [] then None
                  else Some (\<lambda>op encoding. tell (PayloadSkipped op encoding (s_ns s))))\<rparr>"

lemma NewCodecs_chains:
  assumes "NewCodecs e opts = Inr cs"
  shows "NewChain we (map (\<lambda>opt. opt c s) (outbound cs)) =
      (if Encrypt opts then [encryptorCodec we (encryptorFor e opts c s)] else [])"
    and "NewChain we (map (\<lambda>opt. opt c s) (inbound cs)) =
      (if HasVault opts then [encryptorCodec we (encryptorFor e opts c s)] else [])"
    and "Encrypt opts \<Longrightarrow> HasVault opts"
  using assms
  by (auto simp: NewCodecs_def Let_def NewChain_def enc_opt_def skip_opt_def WithCipher_def WithEncryptorOptions_def
      NewEncryptor_def WithSkipEncodings_def WithSkipObserver_def encryptorFor_def split: if_splits)

lemma Codecs_Encode_eq:
  assumes "NewCodecs e opts = Inr cs"
  shows "Codecs_Encode we cs c local remote ps st =
    (if Encrypt opts
     then traverse (encodeOne we (encryptorFor e opts c \<lparr>s_ns = local, s_label = remote, s_check = False\<rparr>)) ps st
     else (Inr ps, st))"
  by (simp add: Codecs_Encode_def apply_codecs_def NewCodecs_chains [OF assms] encryptorCodec_def Encryptor_Encode_def
      split: prod.splits sum.splits)

lemma Codecs_Decode_eq:
  assumes "NewCodecs e opts = Inr cs"
  shows "Codecs_Decode we cs c local remote ps st =
    (if HasVault opts
     then traverse (decodeOne we (encryptorFor e opts c \<lparr>s_ns = local, s_label = remote, s_check = remote \<noteq> []\<rparr>)) ps st
     else (Inr ps, st))"
  by (simp add: Codecs_Decode_def apply_codecs_def NewCodecs_chains [OF assms] encryptorCodec_def Encryptor_Decode_def
      Chain_Decode_def split: prod.splits sum.splits)

lemma encryptorFor_skipped_good:
  "codec_good e peek r b c s s' st \<Longrightarrow> codec_good e peek r b c s s' (skipped (encryptorFor e opts c1 s1) op enc st)"
  by (simp add: skipped_def encryptorFor_def)

lemma encryptorFor_cipher:
  "e_cipher (encryptorFor e opts c s) = \<lparr>cipher_Encrypt = cipherEncrypt e c s, cipher_Decrypt = cipherDecrypt e c s\<rparr>"
  by (simp add: encryptorFor_def cipher_def)

lemmas encryptorFor_codec = vault_cipher.encryptor_codec
  [OF encryptorFor_cipher encryptorFor_cipher _ encryptorFor_skipped_good encryptorFor_skipped_good,
   THEN stateful_codec.traverse_roundtrip]

lemma Codecs_inverse:
  assumes env: "aead_correct e" "rand_ok e" "lru_ok e peek" "marshal_ok we"
    and reg: "NewKEKRegistry kopts = Inr r" "registry_opens r c'" "registry_unambiguous r" "keks_named r"
    and codecs: "NewCodecs e opts = Inr cs" "Encrypt opts"
    and states: "vault_reachable e r (ps_vault st, ps_world st)" "vault_reachable e r (ps_vault st2, ps_world st2)"
      "v_binding (ps_vault st2) = v_binding (ps_vault st)"
    and payloads: "EncryptionEncoding \<in> set (SkipEncodings opts) \<Longrightarrow>
      \<forall>p\<in>set ps. entry p MetadataEncoding \<noteq> EncryptionEncoding"
    and enc: "Codecs_Encode we cs c local remote ps st = (Inr qs, st1)"
    and remote': "remote' = [] \<or> remote' = remote"
  shows "fst (Codecs_Decode we cs c' local' remote' qs st2) = Inr ps"
proof -
  let ?s = "\<lparr>s_ns = local, s_label = remote, s_check = False\<rparr>"
    and ?s' = "\<lparr>s_ns = local', s_label = remote', s_check = remote' \<noteq> []\<rparr>"
  have good: "codec_good e peek r (v_binding (ps_vault st)) c' ?s ?s' st"
    "codec_good e peek r (v_binding (ps_vault st)) c' ?s ?s' st2"
    using env reg remote' states vault_reachable_inv [OF env(2,3) reg(1) states(1)]
      vault_reachable_inv [OF env(2,3) reg(1) states(2)]
    by (auto simp: codec_good_def)
  have "list_all (\<lambda>p. skips (encryptorFor e opts c ?s) EncryptionEncoding \<longrightarrow> entry p MetadataEncoding \<noteq> EncryptionEncoding) ps"
    using payloads by (auto simp: skips_def encryptorFor_def list_all_iff)
  from encryptorFor_codec [OF env(4) _ _ good(1) this _ good(2)] enc
  obtain st3 where "traverse (decodeOne we (encryptorFor e opts c' ?s')) qs st2 = (Inr ps, st3)"
    unfolding Codecs_Encode_eq [OF codecs(1)] using codecs(2) by auto
  with NewCodecs_chains(3) [OF codecs] show ?thesis by (simp add: Codecs_Decode_eq [OF codecs(1)])
qed

text \<open>
  C2. Payloads survive the proxy. What the codecs encode for a namespace bound to a remote name
  is decoded to the same payloads, metadata included, by the codecs of the same options in every
  later or other state of a vault over the same registry and binding mode, whether or not the
  reader names the remote, for every list of payloads except those that already carry the
  encryption encoding while that encoding is listed as skipped.
\<close>

theorem Codecs_roundtrip:
  assumes env: "aead_correct e" "rand_ok e" "lru_ok e peek" "marshal_ok we"
    and reg: "NewKEKRegistry kopts = Inr r" "registry_opens r c'" "registry_unambiguous r" "keks_named r"
    and codecs: "NewCodecs e opts = Inr cs" "Encrypt opts"
    and states: "vault_reachable e r (ps_vault st, ps_world st)" "vault_reachable e r (ps_vault st2, ps_world st2)"
      "v_binding (ps_vault st2) = v_binding (ps_vault st)"
    and payloads: "EncryptionEncoding \<in> set (SkipEncodings opts) \<Longrightarrow>
      \<forall>p\<in>set ps. entry p MetadataEncoding \<noteq> EncryptionEncoding"
    and enc: "Codecs_Encode we cs c local remote ps st = (Inr qs, st1)"
    and remote': "remote' = [] \<or> remote' = remote"
  shows "fst (Codecs_Decode we cs c' local' remote' qs st2) = Inr ps"
  using assms by (rule Codecs_inverse)

text \<open>What one payload becomes.\<close>

definition sealed_as :: "Payload \<Rightarrow> bool" where
  "sealed_as q \<longleftrightarrow> Metadata q MetadataEncoding = Some EncryptionEncoding
     \<and> Map.dom (Metadata q) \<subseteq> {MetadataEncoding, MetadataEncryptionKeyID, MetadataEncryptionDEK, MetadataEncryptionNamespace}"

lemma encodeOne_Inr:
  assumes "encodeOne we e p s = (Inr q, s')"
  shows "q = p \<and> skips e (entry p MetadataEncoding) \<or> sealed_as q \<and>
    (\<exists>data m s1 km. Marshal we p = Inr data \<and> cipher_Encrypt (e_cipher e) data s = (Inr m, s1) \<and> KeyMaterial m = Some km
       \<and> Data q = Ciphertext m \<and> entry q MetadataEncryptionKeyID = KEKID km \<and> entry q MetadataEncryptionDEK = EncryptedDEK km)"
proof (cases "e_skip e \<noteq> [] \<and> skips e (entry p MetadataEncoding)")
  case True
  with assms show ?thesis by (simp add: encodeOne_def)
next
  case False
  with assms obtain data m s1 km where m: "Marshal we p = Inr data" "cipher_Encrypt (e_cipher e) data s = (Inr m, s1)"
    "KeyMaterial m = Some km"
    and q: "q = \<lparr>Metadata = (let md = [MetadataEncoding \<mapsto> EncryptionEncoding, MetadataEncryptionKeyID \<mapsto> KEKID km,
                               MetadataEncryptionDEK \<mapsto> EncryptedDEK km]
                     in if Bound m then md(MetadataEncryptionNamespace \<mapsto> Namespace m) else md),
                    Data = Ciphertext m\<rparr>"
    by (auto simp: encodeOne_def Let_def split: if_splits sum.splits prod.splits option.splits)
  have "sealed_as q" by (simp add: q sealed_as_def Let_def metadata_keys)
  moreover have "entry q MetadataEncryptionKeyID = KEKID km" "entry q MetadataEncryptionDEK = EncryptedDEK km"
    by (simp_all add: q entry_def metadata_keys Let_def)
  ultimately show ?thesis using m q by auto
qed

lemma traverse_list_all2:
  assumes "traverse f xs s = (Inr ys, s')" "\<And>x y s s'. f x s = (Inr y, s') \<Longrightarrow> R x y"
  shows "list_all2 R xs ys"
  using assms(1)
proof (induction xs arbitrary: s ys)
  case (Cons x xs)
  then show ?case using assms(2) by (auto split: prod.splits sum.splits)
qed simp

text \<open>
  C36. With encryption on, nothing leaves in the clear unless it was listed: every payload the
  codecs return is either a payload under a listed non-blank encoding, forwarded as it was, or a
  sealed one, which carries the ciphertext and no metadata beyond the four entries of the sealed
  format.
\<close>

theorem Codecs_Encode_seals:
  assumes "NewCodecs e opts = Inr cs" "Encrypt opts"
    and "Codecs_Encode we cs c local remote ps st = (Inr qs, st')"
  shows "list_all2 (\<lambda>p q. q = p \<and> entry p MetadataEncoding \<in> set (SkipEncodings opts) - {[]}
      \<or> sealed_as q \<and> (\<exists>data m s1 s2. Marshal we p = Inr data \<and> Data q = Ciphertext m
          \<and> cipherEncrypt e c \<lparr>s_ns = local, s_label = remote, s_check = False\<rparr> data s1 = (Inr m, s2))) ps qs"
  using assms(3) unfolding Codecs_Encode_eq [OF assms(1)] if_P [OF assms(2)]
  by (rule traverse_list_all2) (auto dest!: encodeOne_Inr simp: skips_def encryptorFor_def cipher_def)

text \<open>A payload that the decoder hands to the vault.\<close>

definition ours :: "Payload \<Rightarrow> bool" where
  "ours p \<longleftrightarrow> entry p MetadataEncoding = EncryptionEncoding \<and> entry p MetadataEncryptionKeyID \<noteq> [] \<and> entry p MetadataEncryptionDEK \<noteq> []"

lemma decodeOne_strict:
  assumes "decodeOne we (encryptorFor e opts c s) p st = (Inr q, st')"
    and "v_binding (ps_vault st) = BindingStrict" "s_check s"
  shows "Metadata p MetadataEncryptionNamespace = Some (s_label s)
    \<or> q = p \<and> (\<not> ours p \<or> EncryptionEncoding \<in> set (SkipEncodings opts) \<and> \<not> holds (v_registry (ps_vault st)) (entry p MetadataEncryptionKeyID))"
proof (cases "Metadata p MetadataEncryptionNamespace = Some (s_label s) \<or> \<not> ours p")
  case True
  then show ?thesis using assms(1) by (auto simp: ours_def decodeOne_def split: if_splits)
next
  case False
  obtain r st1 where dec: "cipherDecrypt e c s (messageOf p) st = (r, st1)" by (cases "cipherDecrypt e c s (messageOf p) st")
  have "refusal (ps_vault st) (messageOf p) (open_opts (Some (s_label s))) = Some ErrUnbound
      \<or> refusal (ps_vault st) (messageOf p) (open_opts (Some (s_label s))) = Some ErrNamespaceMismatch"
    using False assms(2) by (auto simp: refusal_def messageOf_def entry_def split: option.splits)
  then have "\<exists>err. r = Inl err \<and> (errors_Is err ErrUnknownKey \<longrightarrow> \<not> holds (v_registry (ps_vault st)) (entry p MetadataEncryptionKeyID))"
    using dec cipherDecrypt_fst [of e c s "messageOf p" st] assms(3) unfolding Open_fst
    by (auto simp: vault_open_def messageOf_def ErrUnbound_def ErrNamespaceMismatch_def ErrUnknownKey_def)
  moreover have "skips (encryptorFor e opts c s) EncryptionEncoding \<Longrightarrow> EncryptionEncoding \<in> set (SkipEncodings opts)"
    by (auto simp: skips_def encryptorFor_def split: if_splits)
  ultimately show ?thesis using assms(1) dec False
    by (auto simp: ours_def decodeOne_def encryptorFor_cipher split: if_splits)
qed

lemma decodeOne_keeps:
  assumes "decodeOne we (encryptorFor e opts c s) p st = (r, st')"
  shows "v_binding (ps_vault st') = v_binding (ps_vault st) \<and> v_registry (ps_vault st') = v_registry (ps_vault st)"
proof -
  have "v_binding (ps_vault st1) = v_binding (ps_vault st) \<and> v_registry (ps_vault st1) = v_registry (ps_vault st)"
    if "cipherDecrypt e c s m st = (q, st1)" for m q st1
    using that by (auto simp: cipherDecrypt_def Let_def Open_keeps split: prod.splits if_splits)
  moreover have "ps_vault (skipped (encryptorFor e opts c s) op enc st1) = ps_vault st1" for op enc st1
    by (simp add: skipped_def encryptorFor_def)
  ultimately show ?thesis
    using assms by (fastforce simp: decodeOne_def encryptorFor_cipher split: if_splits prod.splits sum.splits)
qed

text \<open>
  C6. Strict binding holds for every payload of a response. When the vault is strict and the
  reader names the remote namespace, every payload of a list that decodes is bound to that
  namespace, or comes out as it went in because it is no sealed payload of ours, or because sealed
  payloads are listed as skipped and the registry does not have its key.
\<close>

theorem Codecs_Decode_strict:
  assumes "NewCodecs e opts = Inr cs" "HasVault opts" "v_binding (ps_vault st) = BindingStrict" "remote \<noteq> []"
    and "Codecs_Decode we cs c local remote ps st = (Inr qs, st')"
  shows "list_all2 (\<lambda>p q. Metadata p MetadataEncryptionNamespace = Some remote
    \<or> q = p \<and> (\<not> ours p \<or> EncryptionEncoding \<in> set (SkipEncodings opts) \<and> \<not> holds (v_registry (ps_vault st)) (entry p MetadataEncryptionKeyID))) ps qs"
proof -
  let ?s = "\<lparr>s_ns = local, s_label = remote, s_check = True\<rparr>"
  from assms have "traverse (decodeOne we (encryptorFor e opts c ?s)) ps st = (Inr qs, st')"
    by (simp add: Codecs_Decode_eq)
  with assms(3) show ?thesis
  proof (induction ps arbitrary: qs st)
    case (Cons p ps)
    then obtain q qs' st1 where q: "decodeOne we (encryptorFor e opts c ?s) p st = (Inr q, st1)" "qs = q # qs'"
      "traverse (decodeOne we (encryptorFor e opts c ?s)) ps st1 = (Inr qs', st')"
      by (auto split: prod.splits sum.splits)
    from decodeOne_keeps [OF q(1)] Cons.prems(1) Cons.IH [OF _ q(3)] decodeOne_strict [OF q(1)] q(2)
    show ?case by simp
  qed simp
qed

text \<open>
  Payloads that are not ours pass through untouched and cost nothing: decoding a list in
  which every payload lacks the encryption encoding, or the key ID, or the wrapped key, returns
  it unchanged, with no call to the vault, no report and no error.
\<close>

theorem Codecs_Decode_passthrough:
  assumes "NewCodecs e opts = Inr cs"
    and "\<forall>p\<in>set ps. entry p MetadataEncoding \<noteq> EncryptionEncoding
          \<or> entry p MetadataEncryptionKeyID = [] \<or> entry p MetadataEncryptionDEK = []"
  shows "Codecs_Decode we cs c local remote ps st = (Inr ps, st)"
proof -
  have "traverse (decodeOne we (encryptorFor e opts c s)) ps st = (Inr ps, st)" for s
    using assms(2) by (induction ps) (auto simp: decodeOne_def)
  then show ?thesis by (simp add: Codecs_Decode_eq [OF assms(1)])
qed

section \<open>Crossing\<close>

abbreviation no_crossing :: crossing where
  "no_crossing \<equiv> \<lparr>cr_all = False, cr_parts = []\<rparr>"

lemma markCrossing_cases:
  "markCrossing c m = c \<or> (\<not> cr_all c \<and> Some (m_ptr m) \<in> set (cr_parts c) \<and> markCrossing c m = \<lparr>cr_all = True, cr_parts = []\<rparr>)
   \<or> (\<not> cr_all c \<and> (\<exists>parts. crossingOf m = Some parts \<and> markCrossing c m = \<lparr>cr_all = False, cr_parts = parts\<rparr>))"
  by (auto simp: markCrossing_def split: option.splits)

lemma foldl_markCrossing:
  "(cr_all (foldl markCrossing no_crossing path) \<longrightarrow>
      (\<exists>n\<in>set path. \<exists>m\<in>set path. \<exists>parts. crossingOf n = Some parts \<and> Some (m_ptr m) \<in> set parts))
   \<and> (\<forall>x\<in>set (cr_parts (foldl markCrossing no_crossing path)). \<exists>n\<in>set path. \<exists>parts. crossingOf n = Some parts \<and> x \<in> set parts)"
proof (induction path rule: rev_induct)
  case (snoc m path)
  show ?case
    using snoc.IH markCrossing_cases [of "foldl markCrossing no_crossing path" m]
    by (elim disjE conjE exE) (simp; blast)+
qed simp

lemma foldl_markCrossing_all:
  "cr_all c \<Longrightarrow> foldl markCrossing c path = c"
  by (induction path) (auto simp: markCrossing_def)

text \<open>
  Only what crosses is exempt. A payload is compared with the request's namespace unless it,
  or a message it sits under, is one of the fields \<open>crossingOf\<close> names of a Nexus message above it;
  and everything under such a field directly below its Nexus message is exempt, however deep.
\<close>

theorem crosses_only_nexus:
  "(crosses (foldl markCrossing no_crossing path) [p] \<longrightarrow>
      (\<exists>n\<in>set path. \<exists>parts. crossingOf n = Some parts
          \<and> (Some p \<in> set parts \<or> (\<exists>m\<in>set path. Some (m_ptr m) \<in> set parts))))
   \<and> (\<forall>pre n m post parts ps. path = pre @ n # m # post \<longrightarrow> crossingOf n = Some parts
        \<longrightarrow> Some (m_ptr m) \<in> set parts \<longrightarrow> crosses (foldl markCrossing no_crossing path) ps)"
proof (intro conjI impI allI)
  assume "crosses (foldl markCrossing no_crossing path) [p]"
  then show "\<exists>n\<in>set path. \<exists>parts. crossingOf n = Some parts
          \<and> (Some p \<in> set parts \<or> (\<exists>m\<in>set path. Some (m_ptr m) \<in> set parts))"
    using foldl_markCrossing [of path] by (auto simp: crosses_def) blast+
next
  fix pre n m post parts ps
  assume *: "path = pre @ n # m # post" "crossingOf n = Some parts"
    "Some (m_ptr m) \<in> set parts"
  let ?c = "foldl markCrossing no_crossing pre"
  have "cr_all (markCrossing (markCrossing ?c n) m)"
    using * by (auto simp: markCrossing_def)
  then show "crosses (foldl markCrossing no_crossing path) ps"
    using * by (simp add: crosses_def foldl_markCrossing_all)
qed

section \<open>Witnesses\<close>

text \<open>A serialiser for payloads whose only metadata is the plain JSON encoding.\<close>

definition ex_wire :: wire_env where
  "ex_wire = \<lparr>Marshal = (\<lambda>p. if Metadata p = [MetadataEncoding \<mapsto> ''json/plain''] then Inr (Data p)
                            else Inl (ErrorString ''unsupported'')),
              Unmarshal = (\<lambda>b. Inr \<lparr>Metadata = [MetadataEncoding \<mapsto> ''json/plain''], Data = b\<rparr>)\<rparr>"

definition ex_payload :: Payload where
  "ex_payload = \<lparr>Metadata = [MetadataEncoding \<mapsto> ''json/plain''], Data = ''secret''\<rparr>"

definition ex_codec_opts :: CodecOptions where
  "ex_codec_opts = \<lparr>HasVault = True, Encrypt = True, EncodeFailures = False, SkipEncodings = [], HasReporter = True\<rparr>"

definition ex_codecs :: "(string \<times> DEK) list Codecs" where
  "ex_codecs = \<lparr>inbound = [enc_opt ex_env], outbound = [enc_opt ex_env], encodeFailures = False, restoreFailures = True\<rparr>"

definition ex_state1 :: "(string \<times> DEK) list pstate" where
  "ex_state1 = \<lparr>ps_vault = ex_vault, ps_world = ex_world1, ps_reports = []\<rparr>"

definition ex_state2 :: "(string \<times> DEK) list pstate" where
  "ex_state2 = \<lparr>ps_vault = ex_vault2, ps_world = ex_world2, ps_reports = [VaultOp ''encrypt'' ''success'' ''ns'']\<rparr>"

definition ex_sealed :: Payload where
  "ex_sealed = \<lparr>Metadata = [MetadataEncoding \<mapsto> EncryptionEncoding, MetadataEncryptionKeyID \<mapsto> ''k1'',
      MetadataEncryptionDEK \<mapsto> EncryptedDEK ex_material, MetadataEncryptionNamespace \<mapsto> ''ns''],
      Data = Ciphertext ex_msg\<rparr>"

lemma ex_marshal: "marshal_ok ex_wire"
  by (auto simp: marshal_ok_def ex_wire_def)

lemma ex_codecs_new: "NewCodecs ex_env ex_codec_opts = Inr ex_codecs"
  by (simp add: NewCodecs_def ex_codec_opts_def ex_codecs_def)

lemma ex_named: "keks_named ex_registry"
  by (simp add: keks_named_def ex_registry_def active_keys_def ex_kek_def)

lemma ex_Encode:
  "Codecs_Encode ex_wire ex_codecs 0 ''ns'' ''ns'' [ex_payload] ex_state1 = (Inr [ex_sealed], ex_state2)"
proof -
  have "Seal ex_env ex_vault 0 ''ns'' ''secret'' (Some ''ns'') ex_world1 = (Inr ex_msg, ex_vault2, ex_world2)"
    using ex_Seal [of 0] by (simp add: Seal_def)
  then show ?thesis
    by (simp add: Codecs_Encode_eq [OF ex_codecs_new] ex_codec_opts_def encodeOne_def encryptorFor_def ex_payload_def
        ex_wire_def cipher_def cipherEncrypt_def ex_state1_def ex_state2_def tell_def resultLabel_def err_of_def
        ex_msg_def ex_material_def ex_sealed_def)
qed

theorem Codecs_roundtrip_witness:
  "fst (Codecs_Decode ex_wire ex_codecs 4 ''ns'' ''ns'' [ex_sealed] ex_state2) = Inr [ex_payload]"
proof -
  have *: "vault_reachable ex_env ex_registry (ps_vault ex_state1, ps_world ex_state1)"
    "vault_reachable ex_env ex_registry (ps_vault ex_state2, ps_world ex_state2)"
    "v_binding (ps_vault ex_state2) = v_binding (ps_vault ex_state1)" "Encrypt ex_codec_opts"
    using ex_start ex_reachable2 by (simp_all add: ex_state1_def ex_state2_def ex_vault2_def ex_codec_opts_def)
  show ?thesis
    by (rule Codecs_roundtrip [OF ex_env_ok(1,3,4) ex_marshal ex_registry_new ex_registry_ok ex_named ex_codecs_new
          *(4) *(1-3) _ ex_Encode]) (simp_all add: ex_codec_opts_def)
qed

theorem Codecs_Encode_seals_witness:
  "Codecs_Encode ex_wire ex_codecs 0 ''ns'' ''ns'' [ex_payload] ex_state1 = (Inr [ex_sealed], ex_state2) \<and> ex_payload \<noteq> ex_sealed
     \<and> sealed_as ex_sealed \<and> (\<exists>m s1 s2. Data ex_sealed = Ciphertext m
        \<and> cipherEncrypt ex_env 0 \<lparr>s_ns = ''ns'', s_label = ''ns'', s_check = False\<rparr> ''secret'' s1 = (Inr m, s2))"
proof -
  have "ex_payload \<noteq> ex_sealed" by (auto simp: ex_payload_def ex_sealed_def ex_msg_def)
  moreover have "Marshal ex_wire ex_payload = Inr ''secret''" by (simp add: ex_wire_def ex_payload_def)
  ultimately show ?thesis
    using Codecs_Encode_seals [OF ex_codecs_new _ ex_Encode] ex_Encode by (simp add: ex_codec_opts_def)
qed

text \<open>The sealed payload, decoded in strict mode for its own namespace and for another.\<close>

lemma ex_strict: "v_binding (ps_vault ex_state2) = BindingStrict"
  by (simp add: ex_state2_def ex_vault2_def ex_vault_def)

lemma ex_Decode: "fst (Codecs_Decode ex_wire ex_codecs 4 ''ns'' ''ns'' [ex_sealed] ex_state2) = Inr [ex_payload]"
  by (rule Codecs_inverse [OF ex_env_ok(1,3,4) ex_marshal ex_registry_new ex_registry_ok ex_named ex_codecs_new _ _ _ _ _ ex_Encode])
    (use ex_start ex_reachable2 in \<open>simp_all add: ex_state1_def ex_state2_def ex_vault2_def ex_codec_opts_def\<close>)

theorem Codecs_Decode_strict_witness:
  "(\<exists>st'. Codecs_Decode ex_wire ex_codecs 4 ''ns'' ''ns'' [ex_sealed] ex_state2 = (Inr [ex_payload], st')) \<and> ex_payload \<noteq> ex_sealed
     \<and> Metadata ex_sealed MetadataEncryptionNamespace = Some ''ns''
     \<and> (\<exists>err st'. Codecs_Decode ex_wire ex_codecs 4 ''ns'' ''other'' [ex_sealed] ex_state2 = (Inl err, st'))"
proof (intro conjI)
  show ne: "ex_payload \<noteq> ex_sealed" by (auto simp: ex_payload_def ex_sealed_def ex_msg_def)
  show "\<exists>st'. Codecs_Decode ex_wire ex_codecs 4 ''ns'' ''ns'' [ex_sealed] ex_state2 = (Inr [ex_payload], st')"
    using ex_Decode by (metis prod.collapse)
  then obtain st' where "Codecs_Decode ex_wire ex_codecs 4 ''ns'' ''ns'' [ex_sealed] ex_state2 = (Inr [ex_payload], st')" ..
  from Codecs_Decode_strict [OF ex_codecs_new _ ex_strict _ this] ne
  show "Metadata ex_sealed MetadataEncryptionNamespace = Some ''ns''" by (simp add: ex_codec_opts_def)
  show "\<exists>err st'. Codecs_Decode ex_wire ex_codecs 4 ''ns'' ''other'' [ex_sealed] ex_state2 = (Inl err, st')"
  proof (cases "Codecs_Decode ex_wire ex_codecs 4 ''ns'' ''other'' [ex_sealed] ex_state2")
    case (Pair r st')
    have "ours ex_sealed" "Metadata ex_sealed MetadataEncryptionNamespace \<noteq> Some ''other''"
      by (simp_all add: ours_def ex_sealed_def entry_def metadata_keys ex_material_def)
    with Pair Codecs_Decode_strict [OF ex_codecs_new _ ex_strict, of "''other''" ex_wire 4 "''ns''" "[ex_sealed]" _ st'] show ?thesis
      by (cases r) (auto simp: ex_codec_opts_def list_all2_Cons1)
  qed
qed

theorem Codecs_Decode_passthrough_witness:
  "Codecs_Decode ex_wire ex_codecs 4 ''ns'' ''other'' [ex_payload] ex_state2 = (Inr [ex_payload], ex_state2)"
  by (rule Codecs_Decode_passthrough [OF ex_codecs_new])
    (simp add: ex_payload_def entry_def EncryptionEncoding_def)

definition ex_nexus :: "ProtoMessage list" where
  "ex_nexus = [\<lparr>m_ptr = 1, m_type = StartOperationRequest, m_get = (\<lambda>_. Some 2)\<rparr>,
               \<lparr>m_ptr = 2, m_type = OtherMessage, m_get = (\<lambda>_. None)\<rparr>]"

theorem crosses_only_nexus_witness:
  "crosses (foldl markCrossing no_crossing ex_nexus) [8, 9]"
proof -
  have "ex_nexus = [] @ ex_nexus ! 0 # ex_nexus ! 1 # []" "crossingOf (ex_nexus ! 0) = Some [Some 2]"
    "Some (m_ptr (ex_nexus ! 1)) \<in> set [Some (2 :: nat)]"
    by (simp_all add: ex_nexus_def crossingOf_def)
  with crosses_only_nexus [of ex_nexus 8] show ?thesis by blast
qed

end
