(* ===== verification/Codec_Server.thy ===== *)
theory Codec_Server
  imports Auth Proxy_Codec Namespace_Rules
begin

text \<open>
  \<open>internal/codecserver\<close>: the HTTP front of the payload codecs. The handlers are wrapped as in the
  code: CORS outermost, then the routes; on each route the report, the namespace, authentication,
  and last the handler that reads the body. The codecs are the \<open>Codecs\<close> of \<open>Proxy_Codec\<close>; a
  handler takes them as functions on a state.

  From \<open>net/http\<close> come the routes and the reader that bounds a body. A request carries the segments
  of its path, unescaped; a path that is not clean is redirected by the mux before any of this and
  is not modelled. \<open>protojson\<close> is a parameter. Of a response the model keeps the status, the body
  and the headers that are set here.
\<close>

section \<open>Requests and responses\<close>

record resolvedNamespace =
  rn_name :: string
  rn_sent :: string
  rn_named :: bool

record 'g codecRequest = "'g httpRequest" +
  rq_segments :: "string list"
  rq_PathValue :: string
  rq_Body :: "bytes result"
  namespaceKey :: "resolvedNamespace option"

record response =
  rs_status :: int
  rs_body :: string
  rs_header :: "(string \<times> string) list"

text \<open>What the handlers report and log besides the rejections of the authenticator.\<close>

datatype server_event = Request string int | TransformFailed string string goerror | AuthRejected rejectionLog

type_synonym ('g, 's) http_handler = "'g codecRequest \<Rightarrow> 's \<Rightarrow> response \<times> server_event list \<times> 's"

definition defaultMaxBodyBytes :: int where
  "defaultMaxBodyBytes = 4 * 2 ^ 20"

definition contentTypeJSON :: string where "contentTypeJSON = ''application/json''"
definition namespaceHeader :: string where "namespaceHeader = ''X-Namespace''"
definition encodeRoute :: string where "encodeRoute = ''/encode''"
definition decodeRoute :: string where "decodeRoute = ''/decode''"
definition downloadRoute :: string where "downloadRoute = ''/download''"

record 'g server_options =
  so_auth :: "'g Authenticator option"
  so_origins :: "string list"
  so_credentials :: bool
  so_maxBodyBytes :: int
  so_namespaceRequired :: bool
  so_decodeNamespaceRequired :: bool

definition default_options :: "'g server_options" where
  "default_options = \<lparr>so_auth = None, so_origins = [], so_credentials = False, so_maxBodyBytes = defaultMaxBodyBytes,
     so_namespaceRequired = False, so_decodeNamespaceRequired = False\<rparr>"

definition WithMaxBodyBytes :: "int \<Rightarrow> 'g server_options \<Rightarrow> 'g server_options" where
  "WithMaxBodyBytes n so = (if n > 0 then so\<lparr>so_maxBodyBytes := n\<rparr> else so)"

definition fail :: "int \<Rightarrow> string \<Rightarrow> response" where
  "fail status message = \<lparr>rs_status = status, rs_body = message @ [CHR 0x0A], rs_header = [(''Content-Type'', ''text/plain; charset=utf-8'')]\<rparr>"

section \<open>Namespaces\<close>

type_synonym OverrideMap = "string gomap"

definition OverrideMap_Local :: "OverrideMap \<Rightarrow> string \<Rightarrow> string" where
  "OverrideMap_Local m remote = (case map_of m remote of Some local \<Rightarrow> local | None \<Rightarrow> remote)"

definition policyNamespaces :: "'p gomap \<Rightarrow> string list" where
  "policyNamespaces overrides = sort (map fst overrides)"

text \<open>One upstream, for the policy namespaces in order.\<close>

fun override_locals :: "string list \<Rightarrow> NamespaceRules \<Rightarrow> string list \<Rightarrow> OverrideMap \<Rightarrow> OverrideMap result" where
  "override_locals keyed rules [] out = Inr out"
| "override_locals keyed rules (local # locals) out =
     (let remote = remote_of rules local
      in if remote = local then override_locals keyed rules locals out
         else if remote \<in> set keyed
         then Inl (ErrorString (''codecserver: '' @ remote @ '' is both an encryption override and the remote name of '' @ local))
         else case map_of out remote of
                Some prev \<Rightarrow>
                  (if prev \<noteq> local
                   then Inl (ErrorString (''codecserver: remote namespace '' @ remote @ '' maps to both '' @ prev @ '' and '' @ local))
                   else override_locals keyed rules locals (AList.update remote local out))
              | None \<Rightarrow> override_locals keyed rules locals (AList.update remote local out))"

fun override_upstreams :: "string list \<Rightarrow> NamespaceRules list \<Rightarrow> OverrideMap \<Rightarrow> OverrideMap result" where
  "override_upstreams locals [] out = Inr out"
| "override_upstreams locals (rules # rs) out =
     (if \<not> Configured rules then override_upstreams locals rs out
      else case override_locals locals rules locals out of
             Inl err \<Rightarrow> Inl err
           | Inr out \<Rightarrow> override_upstreams locals rs out)"

definition NewOverrideMap :: "'p gomap \<Rightarrow> NamespaceRules list \<Rightarrow> OverrideMap result" where
  "NewOverrideMap overrides upstreams =
     (let locals = policyNamespaces overrides
      in if locals = [] then Inr [] else override_upstreams locals upstreams [])"

definition namespace :: "(string \<Rightarrow> string) \<Rightarrow> 'g codecRequest \<Rightarrow> resolvedNamespace" where
  "namespace localName r =
     (let sent = (if rq_PathValue r = [] then Header_Get (rq_Header r) namespaceHeader else rq_PathValue r)
      in if sent = [] then \<lparr>rn_name = [], rn_sent = [], rn_named = False\<rparr>
         else \<lparr>rn_name = localName sent, rn_sent = sent, rn_named = True\<rparr>)"

text \<open>Reading what \<open>resolveNamespace\<close> stored panics where nothing was stored.\<close>

definition requestNamespace :: "'g codecRequest \<Rightarrow> resolvedNamespace result" where
  "requestNamespace r =
     (case namespaceKey r of
        None \<Rightarrow> Inl (ErrorString ''panic: codecserver: request reached a route without a resolved namespace'')
      | Some ns \<Rightarrow> Inr ns)"

definition namespaceName :: "'g codecRequest \<Rightarrow> string" where
  "namespaceName r = (case requestNamespace r of Inl _ \<Rightarrow> [] | Inr ns \<Rightarrow> rn_name ns)"

section \<open>Routes\<close>

definition panic_response :: response where
  "panic_response = \<lparr>rs_status = 0, rs_body = [], rs_header = []\<rparr>"

definition prologue :: "bool \<Rightarrow> 'g codecRequest \<Rightarrow> response + resolvedNamespace" where
  "prologue namespaceRequired r =
     (case requestNamespace r of
        Inl _ \<Rightarrow> Inl panic_response
      | Inr ns \<Rightarrow>
          (if namespaceRequired \<and> \<not> rn_named ns
           then Inl (fail 400 (''a namespace is required: send it as the '' @ namespaceHeader @ '' header or in the request path''))
           else Inr ns))"

text \<open>\<open>io.ReadAll\<close> of \<open>http.MaxBytesReader\<close>.\<close>

definition ReadAll_Max :: "int \<Rightarrow> bytes result \<Rightarrow> bytes result" where
  "ReadAll_Max n body =
     (case body of
        Inl err \<Rightarrow> Inl err
      | Inr b \<Rightarrow> if int (length b) > n then Inl (ErrorString ''http: request body too large'') else Inr b)"

record json_env =
  protojson_Unmarshal :: "bytes \<Rightarrow> Payload list result"
  protojson_Marshal :: "Payload list \<Rightarrow> bytes result"

type_synonym 's transform = "string \<Rightarrow> string \<Rightarrow> Payload list \<Rightarrow> 's \<Rightarrow> Payload list result \<times> 's"

definition payloads :: "json_env \<Rightarrow> 'g server_options \<Rightarrow> string \<Rightarrow> 's transform \<Rightarrow> bool \<Rightarrow> ('g, 's) http_handler" where
  "payloads js so route fn namespaceRequired r s =
     (case prologue namespaceRequired r of
        Inl resp \<Rightarrow> (resp, [], s)
      | Inr ns \<Rightarrow>
          (let ct = Header_Get (rq_Header r) ''Content-Type''
           in if \<not> HasPrefix ct contentTypeJSON
              then (fail 400 (''expected content-type '' @ contentTypeJSON @ '', got '' @ ct), [], s)
              else case ReadAll_Max (so_maxBodyBytes so) (rq_Body r) of
                     Inl err \<Rightarrow> (fail 400 (''failed to read request body: '' @ Error err), [], s)
                   | Inr body \<Rightarrow>
                       (case protojson_Unmarshal js body of
                          Inl err \<Rightarrow> (fail 400 (''failed to parse payloads: '' @ Error err), [], s)
                        | Inr ins \<Rightarrow>
                            (case fn (rn_name ns) (rn_sent ns) ins s of
                               (Inl err, s) \<Rightarrow> (fail 400 ''failed to transform payloads'', [TransformFailed route (rn_name ns) err], s)
                             | (Inr outs, s) \<Rightarrow>
                                 (case protojson_Marshal js outs of
                                    Inl err \<Rightarrow> (fail 400 (''failed to serialize payloads: '' @ Error err), [], s)
                                  | Inr res \<Rightarrow> (\<lparr>rs_status = 200, rs_body = res, rs_header = [(''Content-Type'', contentTypeJSON)]\<rparr>, [], s))))))"

definition download :: "('g, 's) http_handler" where
  "download r s =
     (case prologue False r of
        Inl resp \<Rightarrow> (resp, [], s)
      | Inr _ \<Rightarrow> (fail 400 ''all payloads must be storage references'', [], s))"

definition rejectionStatus :: "code \<Rightarrow> int" where
  "rejectionStatus c = (if c = PermissionDenied then 403 else 401)"

text \<open>\<open>authenticate\<close>: the middleware, or nothing.\<close>

definition authenticate :: "'g grpc_api \<Rightarrow> status_api \<Rightarrow> 'g server_options \<Rightarrow> ('g, 's) http_handler \<Rightarrow> ('g, 's) http_handler" where
  "authenticate api st so next r s =
     (case so_auth so of
        None \<Rightarrow> next r s
      | Some a \<Rightarrow>
          (case HTTPMiddleware api st a HTTPGroupCodecServer namespaceName rejectionStatus of
             Inl _ \<Rightarrow> (panic_response, [], s)
           | Inr mw \<Rightarrow>
               (case mw r of
                  (Answer code body, log) \<Rightarrow> (fail code body, map AuthRejected log, s)
                | (Next r, log) \<Rightarrow> (case next r s of (resp, evs, s) \<Rightarrow> (resp, map AuthRejected log @ evs, s)))))"

definition resolveNamespace :: "(string \<Rightarrow> string) \<Rightarrow> ('g, 's) http_handler \<Rightarrow> ('g, 's) http_handler" where
  "resolveNamespace localName next r s = next (r\<lparr>namespaceKey := Some (namespace localName r)\<rparr>) s"

definition instrument :: "string \<Rightarrow> ('g, 's) http_handler \<Rightarrow> ('g, 's) http_handler" where
  "instrument route next r s = (case next r s of (resp, evs, s) \<Rightarrow> (resp, evs @ [Request route (rs_status resp)], s))"

text \<open>The mux: \<open>POST /route\<close> and \<open>POST /{ns}/route\<close>.\<close>

definition serve_mux :: "(string \<times> ('g, 's) http_handler) list \<Rightarrow> ('g, 's) http_handler" where
  "serve_mux routes r s =
     (let hit = (case rq_segments r of
                   [x] \<Rightarrow> map_option (\<lambda>h. (h, [])) (map_of routes (CHR ''/'' # x))
                 | [ns, x] \<Rightarrow> if ns = [] then None else map_option (\<lambda>h. (h, ns)) (map_of routes (CHR ''/'' # x))
                 | _ \<Rightarrow> None)
      in case hit of
           None \<Rightarrow> (fail 404 ''404 page not found'', [], s)
         | Some (h, ns) \<Rightarrow>
             (if rq_Method r \<noteq> ''POST'' then ((fail 405 ''Method Not Allowed'')\<lparr>rs_header := [(''Allow'', ''POST'')]\<rparr>, [], s)
              else h (r\<lparr>rq_PathValue := ns\<rparr>) s))"

definition allowedHeaders :: string where
  "allowedHeaders = ''Content-Type, X-Namespace, Authorization, Authorization-Extras''"

definition cors :: "string list \<Rightarrow> bool \<Rightarrow> ('g, 's) http_handler \<Rightarrow> ('g, 's) http_handler" where
  "cors origins credentials next =
     (if origins = [] then next
      else (\<lambda>r s.
        let origin = Header_Get (rq_Header r) ''Origin'';
            hdrs = (''Vary'', ''Origin'') #
              (if origin \<in> set origins
               then [(''Access-Control-Allow-Origin'', origin), (''Access-Control-Allow-Methods'', ''POST, OPTIONS''),
                     (''Access-Control-Allow-Headers'', allowedHeaders)] @
                    (if credentials then [(''Access-Control-Allow-Credentials'', ''true'')] else [])
               else [])
        in if rq_Method r = ''OPTIONS'' then (\<lparr>rs_status = 204, rs_body = [], rs_header = hdrs\<rparr>, [], s)
           else case next r s of (resp, evs, s) \<Rightarrow> (resp\<lparr>rs_header := hdrs @ rs_header resp\<rparr>, evs, s)))"

definition codec_Handler :: "'g grpc_api \<Rightarrow> status_api \<Rightarrow> json_env \<Rightarrow> 's transform \<Rightarrow> 's transform \<Rightarrow> (string \<Rightarrow> string)
    \<Rightarrow> 'g server_options \<Rightarrow> ('g, 's) http_handler" where
  "codec_Handler api st js enc dec localName so =
     (let routes = [(encodeRoute, payloads js so encodeRoute enc (so_namespaceRequired so)),
                    (decodeRoute, payloads js so decodeRoute dec (so_decodeNamespaceRequired so)),
                    (downloadRoute, download)];
          served = map (\<lambda>(path, fn). (path, instrument path (resolveNamespace localName (authenticate api st so fn)))) routes
      in cors (so_origins so) (so_credentials so) (serve_mux served))"

section \<open>Lemmas\<close>

subsection \<open>The layers\<close>

lemma fail_status [simp]: "rs_status (fail code msg) = code"
  by (simp add: fail_def)

text \<open>The three routes; \<open>served\<close> is a route with its wrapping.\<close>

definition served :: "'g grpc_api \<Rightarrow> status_api \<Rightarrow> (string \<Rightarrow> string) \<Rightarrow> 'g server_options \<Rightarrow> string \<Rightarrow> ('g, 's) http_handler \<Rightarrow> ('g, 's) http_handler" where
  "served api st localName so path fn = instrument path (resolveNamespace localName (authenticate api st so fn))"

definition codec_routes :: "json_env \<Rightarrow> 's transform \<Rightarrow> 's transform \<Rightarrow> 'g server_options \<Rightarrow> (string \<times> ('g, 's) http_handler) list" where
  "codec_routes js enc dec so =
     [(encodeRoute, payloads js so encodeRoute enc (so_namespaceRequired so)),
      (decodeRoute, payloads js so decodeRoute dec (so_decodeNamespaceRequired so)), (downloadRoute, download)]"

lemma codec_Handler_eq:
  "codec_Handler api st js enc dec localName so =
     cors (so_origins so) (so_credentials so)
       (serve_mux (map (\<lambda>(path, fn). (path, served api st localName so path fn)) (codec_routes js enc dec so)))"
  by (simp add: codec_Handler_def served_def codec_routes_def)

lemma map_of_served:
  "map_of (map (\<lambda>(path, fn). (path, g path fn)) routes) k = map_option (g k) (map_of routes k)"
  by (induction routes) auto

lemma cors_outer:
  assumes "rq_Method r \<noteq> ''OPTIONS''"
  shows "\<exists>hdrs. cors origins cred next r s = (case next r s of (resp, evs, s') \<Rightarrow> (resp\<lparr>rs_header := hdrs\<rparr>, evs, s'))"
proof (cases "next r s")
  case (fields resp evs s')
  show ?thesis
  proof (cases "origins = []")
    case True
    have "resp\<lparr>rs_header := rs_header resp\<rparr> = resp" by simp
    with True fields show ?thesis by (auto simp: cors_def intro!: exI [of _ "rs_header resp"])
  next
    case False
    with assms fields show ?thesis by (auto simp: cors_def Let_def)
  qed
qed

text \<open>Authentication on a route: what the authenticator is asked, and what the handler behind it
  gets.\<close>

definition codec_target :: "'g codecRequest \<Rightarrow> Target" where
  "codec_target r = \<lparr>FullName = [], Target.Namespace = namespaceName r,
     HTTP = Some \<lparr>h_Group = HTTPGroupCodecServer, h_Method = rq_Method r, h_Path = rq_Path r\<rparr>\<rparr>"

definition admitted :: "'g Authenticator \<Rightarrow> 'g codecRequest \<Rightarrow> 'g codecRequest" where
  "admitted a r = r\<lparr>rq_ctx := WithTarget (rq_ctx r) (codec_target r),
     rq_Header := fold (\<lambda>h hd. Header_Del hd h) (SecureHeaders a) (rq_Header r)\<rparr>"

lemma authenticate_Some:
  assumes "so_auth so = Some a"
  shows "authenticate api st so next r s =
    (case Authenticate a (rq_ctx r) (codec_target r) (headerMetadata api (rq_Header r)) of
       Some err \<Rightarrow> (let code = rejectionStatus (status_Code st err)
                    in (fail code (StatusText code), [AuthRejected (Warn, rq_Method r @ '' '' @ rq_Path r, status_Code st err, Error err)], s))
     | None \<Rightarrow> next (admitted a r) s)"
  using assms unfolding authenticate_def HTTPMiddleware_def Let_def codec_target_def [symmetric] admitted_def
  by (auto split: option.splits prod.splits)

lemma authenticate_None: "so_auth so = None \<Longrightarrow> authenticate api st so next = next"
  by (intro ext) (simp add: authenticate_def)

lemma admitted_key [simp]: "namespaceKey (admitted a r) = namespaceKey r" "rq_Body (admitted a r) = rq_Body r"
  by (simp_all add: admitted_def)

text \<open>A request to a route, with or without the namespace in the path.\<close>

definition addresses :: "'g codecRequest \<Rightarrow> string \<Rightarrow> string \<Rightarrow> bool" where
  "addresses r path ns \<longleftrightarrow>
     rq_Method r = ''POST'' \<and> (\<exists>x. path = CHR ''/'' # x \<and> (rq_segments r = [x] \<and> ns = [] \<or> rq_segments r = [ns, x] \<and> ns \<noteq> []))"

lemma Handler_served:
  assumes "addresses r path ns" "map_of (codec_routes js enc dec so) path = Some fn"
  shows "\<exists>hdrs. codec_Handler api st js enc dec localName so r s =
    (case served api st localName so path fn (r\<lparr>rq_PathValue := ns\<rparr>) s of (resp, evs, s) \<Rightarrow> (resp\<lparr>rs_header := hdrs\<rparr>, evs, s))"
proof -
  let ?mux = "serve_mux (map (\<lambda>(path, fn). (path, served api st localName so path fn)) (codec_routes js enc dec so))"
  have mux: "?mux r s
      = served api st localName so path fn (r\<lparr>rq_PathValue := ns\<rparr>) s"
    using assms unfolding addresses_def serve_mux_def by (auto simp: map_of_served)
  have "rq_Method r \<noteq> ''OPTIONS''" using assms(1) by (auto simp: addresses_def)
  from cors_outer [OF this, of "so_origins so" "so_credentials so" ?mux s]
  obtain hdrs where "cors (so_origins so) (so_credentials so) ?mux r s = (case ?mux r s of (resp, evs, s') \<Rightarrow> (resp\<lparr>rs_header := hdrs\<rparr>, evs, s'))" ..
  with mux show ?thesis unfolding codec_Handler_eq by auto
qed

text \<open>Whether a request passes authentication, and the header it has then.\<close>

definition with_ns :: "(string \<Rightarrow> string) \<Rightarrow> string \<Rightarrow> 'g codecRequest \<Rightarrow> 'g codecRequest" where
  "with_ns localName ns r = r\<lparr>rq_PathValue := ns, namespaceKey := Some (namespace localName (r\<lparr>rq_PathValue := ns\<rparr>))\<rparr>"

definition passes :: "'g grpc_api \<Rightarrow> 'g server_options \<Rightarrow> 'g codecRequest \<Rightarrow> bool" where
  "passes api so r = (case so_auth so of None \<Rightarrow> True
     | Some a \<Rightarrow> Authenticate a (rq_ctx r) (codec_target r) (headerMetadata api (rq_Header r)) = None)"

definition behind_auth :: "'g server_options \<Rightarrow> 'g codecRequest \<Rightarrow> 'g codecRequest" where
  "behind_auth so r = (case so_auth so of None \<Rightarrow> r | Some a \<Rightarrow> admitted a r)"

lemma behind_auth_key [simp]: "namespaceKey (behind_auth so r) = namespaceKey r" "rq_Body (behind_auth so r) = rq_Body r"
  by (simp_all add: behind_auth_def split: option.split)

lemma Handler_passes:
  assumes "addresses r path ns" "map_of (codec_routes js enc dec so) path = Some fn" "passes api so (with_ns localName ns r)"
  shows "\<exists>hdrs. codec_Handler api st js enc dec localName so r s =
    (case fn (behind_auth so (with_ns localName ns r)) s of (resp, evs, s) \<Rightarrow> (resp\<lparr>rs_header := hdrs\<rparr>, evs @ [Request path (rs_status resp)], s))"
proof -
  have "served api st localName so path fn (r\<lparr>rq_PathValue := ns\<rparr>) s =
    (case fn (behind_auth so (with_ns localName ns r)) s of (resp, evs, s) \<Rightarrow> (resp, evs @ [Request path (rs_status resp)], s))"
    using assms(3) by (cases "so_auth so")
      (simp_all add: served_def instrument_def resolveNamespace_def with_ns_def authenticate_None authenticate_Some passes_def behind_auth_def)
  with Handler_served [OF assms(1,2), of api st localName s] show ?thesis
    by (cases "fn (behind_auth so (with_ns localName ns r)) s") auto
qed

lemma Handler_200:
  assumes "addresses r path ns" "map_of (codec_routes js enc dec so) path = Some fn"
    and "codec_Handler api st js enc dec localName so r s = (resp, evs, s')" "rs_status resp = 200"
  shows "passes api so (with_ns localName ns r)"
proof (cases "so_auth so")
  case (Some a)
  then show ?thesis
    using Handler_served [OF assms(1,2), of api st localName s] assms(3,4)
    by (auto simp: passes_def served_def instrument_def resolveNamespace_def authenticate_Some with_ns_def [symmetric] rejectionStatus_def Let_def
        split: option.splits if_splits)
qed (simp add: passes_def)

text \<open>A payload route that answers 200 has transformed what it read.\<close>

lemma payloads_200:
  assumes "payloads js so route fn req r s = (resp, evs, s')" "namespaceKey r = Some ns" "rq_Body r = Inr body" "protojson_Unmarshal js body = Inr ins"
    and "rs_status resp = 200"
  shows "\<exists>outs. fn (rn_name ns) (rn_sent ns) ins s = (Inr outs, s') \<and> protojson_Marshal js outs = Inr (rs_body resp)"
  using assms
  by (auto simp: payloads_def prologue_def requestNamespace_def ReadAll_Max_def Let_def split: if_splits sum.splits prod.splits)

subsection \<open>Status codes\<close>

definition codec_statuses :: "int set" where
  "codec_statuses = {200, 204, 400, 401, 403, 404, 405}"

text \<open>A handler that has its namespace answers with one of them.\<close>

definition answers_ok :: "('g, 's) http_handler \<Rightarrow> bool" where
  "answers_ok h \<longleftrightarrow> (\<forall>r s. namespaceKey r \<noteq> None \<longrightarrow> rs_status (fst (h r s)) \<in> codec_statuses)"

lemma payloads_ok: "answers_ok (payloads js so route fn req)"
  unfolding answers_ok_def codec_statuses_def
  by (auto simp: payloads_def prologue_def requestNamespace_def Let_def split: sum.splits option.splits prod.splits if_splits)

lemma download_ok: "answers_ok download"
  unfolding answers_ok_def codec_statuses_def by (auto simp: download_def prologue_def requestNamespace_def)

lemma rejectionStatus_ok: "rejectionStatus c \<in> codec_statuses"
  by (simp add: rejectionStatus_def codec_statuses_def)

lemma authenticate_ok:
  assumes "answers_ok next"
  shows "answers_ok (authenticate api st so next)"
  unfolding answers_ok_def
proof (intro allI impI)
  fix r :: "'a codecRequest" and s
  assume "namespaceKey r \<noteq> None"
  then show "rs_status (fst (authenticate api st so next r s)) \<in> codec_statuses"
    using assms rejectionStatus_ok by (cases "so_auth so")
      (auto simp: authenticate_Some authenticate_None answers_ok_def Let_def split: option.split)
qed

lemma served_ok:
  assumes "answers_ok fn"
  shows "rs_status (fst (served api st localName so path fn r s)) \<in> codec_statuses"
proof -
  have "rs_status (fst (authenticate api st so fn (r\<lparr>namespaceKey := Some (namespace localName r)\<rparr>) s)) \<in> codec_statuses"
    using authenticate_ok [OF assms, of api st so] by (simp add: answers_ok_def)
  then show ?thesis by (auto simp: served_def instrument_def resolveNamespace_def split: prod.splits)
qed

lemma routes_ok: "(path, fn) \<in> set (codec_routes js enc dec so) \<Longrightarrow> answers_ok fn"
  using payloads_ok download_ok by (auto simp: codec_routes_def)

lemma serve_mux_ok:
  assumes "\<And>path h r s. (path, h) \<in> set routes \<Longrightarrow> rs_status (fst (h r s)) \<in> codec_statuses"
  shows "rs_status (fst (serve_mux routes r s)) \<in> codec_statuses"
  using assms unfolding serve_mux_def
  by (auto simp: Let_def codec_statuses_def dest!: map_of_SomeD split: list.splits option.splits if_splits)

subsection \<open>Names\<close>

text \<open>What is in the map: the remote names of policy namespaces, none of which is a policy
  namespace itself.\<close>

definition override_ok :: "string list \<Rightarrow> OverrideMap \<Rightarrow> bool" where
  "override_ok locals m \<longleftrightarrow> (\<forall>remote local. map_of m remote = Some local \<longrightarrow> local \<in> set locals \<and> remote \<notin> set locals)"

lemma override_locals_ok:
  assumes "override_locals keyed rules locals out = Inr m" "override_ok keyed out" "set locals \<subseteq> set keyed"
  shows "override_ok keyed m \<and> map_of out \<subseteq>\<^sub>m map_of m
    \<and> (\<forall>local\<in>set locals. remote_of rules local \<noteq> local \<longrightarrow> map_of m (remote_of rules local) = Some local)"
  using assms
proof (induction locals arbitrary: out)
  case (Cons l ls)
  let ?r = "remote_of rules l"
  show ?case
  proof (cases "?r = l")
    case True
    with Cons show ?thesis by (auto simp: Let_def)
  next
    case False
    then have new: "?r \<notin> set keyed" "override_locals keyed rules ls (AList.update ?r l out) = Inr m" "map_of out ?r \<in> {None, Some l}"
      using Cons.prems(1) by (auto simp: Let_def split: if_splits option.splits)
    have "override_ok keyed (AList.update ?r l out)" using Cons.prems(2,3) new(1) by (auto simp: override_ok_def)
    from Cons.IH [OF new(2) this] Cons.prems(3)
    have IH: "override_ok keyed m" "(map_of out)(?r \<mapsto> l) \<subseteq>\<^sub>m map_of m"
      "\<forall>local\<in>set ls. remote_of rules local \<noteq> local \<longrightarrow> map_of m (remote_of rules local) = Some local" by (auto simp: fun_upd_def)
    from IH(2) have "map_of m ?r = Some l" by (metis domI fun_upd_same map_le_def)
    moreover have "map_of out \<subseteq>\<^sub>m (map_of out)(?r \<mapsto> l)" using new(3) by (auto simp: map_le_def)
    ultimately show ?thesis using IH map_le_trans by auto
  qed
qed auto

lemma override_upstreams_ok:
  assumes "override_upstreams locals rs out = Inr m" "override_ok locals out"
  shows "override_ok locals m \<and> map_of out \<subseteq>\<^sub>m map_of m
    \<and> (\<forall>rules\<in>set rs. Configured rules \<longrightarrow> (\<forall>local\<in>set locals. remote_of rules local \<noteq> local \<longrightarrow> map_of m (remote_of rules local) = Some local))"
  using assms
proof (induction rs arbitrary: out)
  case (Cons rules rs)
  show ?case
  proof (cases "Configured rules")
    case True
    then obtain out1 where 1: "override_locals locals rules locals out = Inr out1" "override_upstreams locals rs out1 = Inr m"
      using Cons.prems(1) by (auto split: sum.splits)
    note a = override_locals_ok [OF 1(1) Cons.prems(2) subset_refl]
    note b = Cons.IH [OF 1(2)]
    have "map_of m k = Some v" if "map_of out1 k = Some v" for k v
      using that a b unfolding map_le_def by (metis domI)
    with a b map_le_trans show ?thesis by auto
  next
    case False
    with Cons show ?thesis by auto
  qed
qed auto

section \<open>Properties\<close>

text \<open>
  The codec server never answers with a server error. Whatever the request, the configuration,
  the authenticator and the codecs do, the status is 200, 204, or one of 400, 401, 403, 404 and
  405, so a browser never retries; in particular no handler is reached without a resolved
  namespace, which would panic. A codec that fails is answered with a fixed text, and its error
  goes to the log only.
\<close>

theorem Codec_never_5xx:
  "rs_status (fst (codec_Handler api st js enc dec localName so r s)) \<in> {200, 204, 400, 401, 403, 404, 405}
   \<and> (prologue req r = Inr ns \<and> fn (rn_name ns) (rn_sent ns) ins s = (Inl err, s') \<and> rq_Body r = Inr body \<and> int (length body) \<le> so_maxBodyBytes so
        \<and> protojson_Unmarshal js body = Inr ins \<and> HasPrefix (Header_Get (rq_Header r) ''Content-Type'') contentTypeJSON
      \<longrightarrow> payloads js so route fn req r s = (fail 400 ''failed to transform payloads'', [TransformFailed route (rn_name ns) err], s'))"
proof
  let ?mux = "serve_mux (map (\<lambda>(path, fn). (path, served api st localName so path fn)) (codec_routes js enc dec so))"
  have "rs_status (fst (?mux r s)) \<in> codec_statuses"
    by (rule serve_mux_ok) (auto dest: routes_ok intro: served_ok)
  then show "rs_status (fst (codec_Handler api st js enc dec localName so r s)) \<in> {200, 204, 400, 401, 403, 404, 405}"
    unfolding codec_Handler_eq cors_def Let_def
    by (auto simp: codec_statuses_def split: prod.split)
qed (simp add: payloads_def ReadAll_Max_def)

text \<open>
  C12. A route acts on the namespace that was authorized. With an authenticator configured, a
  request to a route is rejected with 401 or 403, before its body or its content type is looked at
  and with the codecs untouched, exactly when the authenticator rejects it; it is asked about the
  local name of the namespace in the path or, without one, in the header. When it admits the
  request, the codecs are applied under that very name, even if the header that named it is one the
  authenticator strips.
\<close>

theorem Codec_authorized:
  assumes "so_auth so = Some a" "addresses r path ns" "map_of (codec_routes js enc dec so) path = Some fn"
    and named: "named = namespace localName (r\<lparr>rq_PathValue := ns\<rparr>)"
    and target: "target = \<lparr>FullName = [], Target.Namespace = rn_name named,
     HTTP = Some \<lparr>h_Group = HTTPGroupCodecServer, h_Method = rq_Method r, h_Path = rq_Path r\<rparr>\<rparr>"
  shows "\<exists>resp evs s'. codec_Handler api st js enc dec localName so r s = (resp, evs, s')
    \<and> (case Authenticate a (rq_ctx r) target (headerMetadata api (rq_Header r)) of
         Some err \<Rightarrow> rs_status resp = (if status_Code st err = PermissionDenied then 403 else 401) \<and> s' = s
       | None \<Rightarrow> (\<exists>r'. namespaceKey r' = Some named \<and> rq_Body r' = rq_Body r
             \<and> rs_status resp = rs_status (fst (fn r' s)) \<and> rs_body resp = rs_body (fst (fn r' s)) \<and> s' = snd (snd (fn r' s))))"
proof -
  let ?r = "r\<lparr>rq_PathValue := ns, namespaceKey := Some named\<rparr>"
  have t: "codec_target ?r = target" "rq_Header ?r = rq_Header r" "rq_ctx ?r = rq_ctx r"
    by (simp_all add: codec_target_def target namespaceName_def requestNamespace_def)
  have served: "served api st localName so path fn (r\<lparr>rq_PathValue := ns\<rparr>) s = instrument path (\<lambda>_. authenticate api st so fn ?r) (r\<lparr>rq_PathValue := ns\<rparr>) s"
    by (simp add: served_def instrument_def resolveNamespace_def named)
  obtain hdrs where H: "codec_Handler api st js enc dec localName so r s =
    (case served api st localName so path fn (r\<lparr>rq_PathValue := ns\<rparr>) s of (resp, evs, s) \<Rightarrow> (resp\<lparr>rs_header := hdrs\<rparr>, evs, s))"
    using Handler_served [OF assms(2,3)] by blast
  show ?thesis
  proof (cases "Authenticate a (rq_ctx r) target (headerMetadata api (rq_Header r))")
    case (Some err)
    then show ?thesis unfolding H served using assms(1)
      by (simp add: instrument_def authenticate_Some t rejectionStatus_def Let_def)
  next
    case None
    obtain resp evs s' where fn: "fn (admitted a ?r) s = (resp, evs, s')" by (cases "fn (admitted a ?r) s")
    with None show ?thesis unfolding H served using assms(1)
      by (auto simp: instrument_def authenticate_Some t intro!: exI [of _ "admitted a ?r"])
  qed
qed

text \<open>
  Names sent to the codec server find their policy. When the map can be built, a namespace with
  a policy of its own is known by its local name and by every remote name that a translating
  upstream gives it, and all of them lead to it; no name leads to another namespace's policy.
\<close>

theorem OverrideMap_finds_policy:
  assumes "NewOverrideMap overrides upstreams = Inr m" "local \<in> fst ` set overrides"
  shows "OverrideMap_Local m local = local
    \<and> (\<forall>rules\<in>set upstreams. Configured rules \<longrightarrow> OverrideMap_Local m (remote_of rules local) = local)
    \<and> (\<forall>name. OverrideMap_Local m name \<noteq> name \<longrightarrow> OverrideMap_Local m name \<in> fst ` set overrides \<and> name \<notin> fst ` set overrides)"
proof -
  have locals: "set (policyNamespaces overrides) = fst ` set overrides" by (simp add: policyNamespaces_def)
  then have "policyNamespaces overrides \<noteq> []" using assms(2) by auto
  then have "override_upstreams (policyNamespaces overrides) upstreams [] = Inr m" using assms(1) by (simp add: NewOverrideMap_def)
  from override_upstreams_ok [OF this] have *: "override_ok (policyNamespaces overrides) m"
    "\<forall>rules\<in>set upstreams. Configured rules \<longrightarrow> (\<forall>local\<in>fst ` set overrides. remote_of rules local \<noteq> local \<longrightarrow> map_of m (remote_of rules local) = Some local)"
    by (simp_all add: override_ok_def locals)
  have self: "OverrideMap_Local m local = local"
    using *(1) assms(2) locals by (auto simp: OverrideMap_Local_def override_ok_def split: option.splits)
  moreover have "OverrideMap_Local m (remote_of rules local) = local" if "rules \<in> set upstreams" "Configured rules" for rules
  proof (cases "remote_of rules local = local")
    case False
    then have "map_of m (remote_of rules local) = Some local" using *(2) that assms(2) by blast
    then show ?thesis by (simp only: OverrideMap_Local_def option.case)
  qed (use self in simp)
  moreover have "OverrideMap_Local m name \<in> fst ` set overrides \<and> name \<notin> fst ` set overrides" if "OverrideMap_Local m name \<noteq> name" for name
    using that *(1) locals by (auto simp: OverrideMap_Local_def override_ok_def split: option.splits)
  ultimately show ?thesis by blast
qed

text \<open>What \<open>protojson\<close> documents: it reads what it wrote.\<close>

definition json_doc :: "json_env \<Rightarrow> bool" where
  "json_doc js \<longleftrightarrow> (\<forall>ps b. protojson_Marshal js ps = Inr b \<longrightarrow> protojson_Unmarshal js b = Inr ps)"

text \<open>
  C4. Encoding and decoding over HTTP. What \<open>/encode\<close> answered, posted to \<open>/decode\<close> of the same
  server at any later time, under the same namespace or under none, is answered with the payloads
  that were encoded, as long as the request passes authentication, is JSON and fits the limit.
\<close>

theorem Codec_http_roundtrip:
  assumes env: "aead_correct e" "rand_ok e" "lru_ok e peek" "marshal_ok we" "json_doc js"
    and reg: "NewKEKRegistry kopts = Inr r" "registry_opens r c'" "registry_unambiguous r" "keks_named r"
    and codecs: "NewCodecs e opts = Inr cs" "Encrypt opts"
    and states: "vault_reachable e r (ps_vault st1, ps_world st1)" "vault_reachable e r (ps_vault st2, ps_world st2)"
      "v_binding (ps_vault st2) = v_binding (ps_vault st1)"
    and payloads: "EncryptionEncoding \<in> set (SkipEncodings opts) \<Longrightarrow> \<forall>p\<in>set ps. entry p MetadataEncoding \<noteq> EncryptionEncoding"
    and r1: "addresses r1 encodeRoute n1" "rq_Body r1 = Inr b1" "protojson_Unmarshal js b1 = Inr ps" "protojson_Marshal js ps = Inr b"
    and encoded: "codec_Handler api st js (Codecs_Encode we cs c) (Codecs_Decode we cs c') localName so r1 st1 = (resp1, evs1, st1')"
      "rs_status resp1 = 200"
    and r2: "addresses r2 decodeRoute n2" "rq_Body r2 = Inr (rs_body resp1)" "int (length (rs_body resp1)) \<le> so_maxBodyBytes so"
      "passes api so (with_ns localName n2 r2)"
      "HasPrefix (Header_Get (rq_Header (behind_auth so (with_ns localName n2 r2))) ''Content-Type'') contentTypeJSON"
    and names: "ns1 = namespace localName (r1\<lparr>rq_PathValue := n1\<rparr>)" "ns2 = namespace localName (r2\<lparr>rq_PathValue := n2\<rparr>)"
      "rn_sent ns2 = [] \<or> rn_sent ns2 = rn_sent ns1" "so_decodeNamespaceRequired so \<longrightarrow> rn_named ns2"
  shows "\<exists>resp2 evs2 st2'. codec_Handler api st js (Codecs_Encode we cs c) (Codecs_Decode we cs c') localName so r2 st2 = (resp2, evs2, st2')
    \<and> rs_status resp2 = 200 \<and> protojson_Unmarshal js (rs_body resp2) = Inr ps"
proof -
  let ?routes = "codec_routes js (Codecs_Encode we cs c) (Codecs_Decode we cs c') so"
  have enc: "map_of ?routes encodeRoute = Some (payloads js so encodeRoute (Codecs_Encode we cs c) (so_namespaceRequired so))"
    and dec: "map_of ?routes decodeRoute = Some (payloads js so decodeRoute (Codecs_Decode we cs c') (so_decodeNamespaceRequired so))"
    by (simp_all add: codec_routes_def encodeRoute_def decodeRoute_def downloadRoute_def)
  obtain resp evs where p: "payloads js so encodeRoute (Codecs_Encode we cs c) (so_namespaceRequired so) (behind_auth so (with_ns localName n1 r1)) st1
      = (resp, evs, st1')" "rs_status resp = 200" "rs_body resp = rs_body resp1"
    using Handler_passes [OF r1(1) enc Handler_200 [OF r1(1) enc encoded], where st = st and s = st1] encoded
    by (cases "payloads js so encodeRoute (Codecs_Encode we cs c) (so_namespaceRequired so) (behind_auth so (with_ns localName n1 r1)) st1") auto
  have "namespaceKey (behind_auth so (with_ns localName n1 r1)) = Some ns1" "rq_Body (behind_auth so (with_ns localName n1 r1)) = Inr b1"
    using r1(2) names(1) by (simp_all add: with_ns_def)
  from payloads_200 [OF p(1) this r1(3) p(2)] p(3) obtain outs where
    outs: "Codecs_Encode we cs c (rn_name ns1) (rn_sent ns1) ps st1 = (Inr outs, st1')" "protojson_Marshal js outs = Inr (rs_body resp1)" by auto
  from Codecs_inverse [OF env(1-4) reg codecs states payloads outs(1) names(3)]
  have d: "fst (Codecs_Decode we cs c' (rn_name ns2) (rn_sent ns2) outs st2) = Inr ps" by blast
  have "protojson_Unmarshal js (rs_body resp1) = Inr outs" "protojson_Unmarshal js b = Inr ps" using env(5) outs(2) r1(4) by (auto simp: json_doc_def)
  then have "payloads js so decodeRoute (Codecs_Decode we cs c') (so_decodeNamespaceRequired so) (behind_auth so (with_ns localName n2 r2)) st2
      = (\<lparr>rs_status = 200, rs_body = b, rs_header = [(''Content-Type'', contentTypeJSON)]\<rparr>, [], snd (Codecs_Decode we cs c' (rn_name ns2) (rn_sent ns2) outs st2))"
    using r2(2,3,5) d r1(4) names(2,4)
    by (cases "Codecs_Decode we cs c' (rn_name ns2) (rn_sent ns2) outs st2")
      (auto simp: payloads_def prologue_def requestNamespace_def ReadAll_Max_def with_ns_def [of _ _ r2])
  with Handler_passes [OF r2(1) dec r2(4), where st = st and s = st2] \<open>protojson_Unmarshal js b = Inr ps\<close> show ?thesis by auto
qed

subsection \<open>Witnesses\<close>

text \<open>A toy JSON with one payload, which is sealed or is not.\<close>

definition ex_json :: json_env where
  "ex_json = \<lparr>protojson_Unmarshal = (\<lambda>b. if b = ''sealed'' then Inr [ex_sealed] else if b = ''plain'' then Inr [ex_payload] else Inl (ErrorString ''bad json'')),
     protojson_Marshal = (\<lambda>ps. if ps = [ex_sealed] then Inr ''sealed'' else if ps = [ex_payload] then Inr ''plain'' else Inl (ErrorString ''unsupported''))\<rparr>"

definition ex_so :: "ex_grpc server_options" where
  "ex_so = default_options\<lparr>so_auth := Some ex_token_auth, so_origins := [''https://ui'']\<rparr>"

definition ex_post :: "string list \<Rightarrow> string \<Rightarrow> ex_grpc codecRequest" where
  "ex_post segments body = \<lparr>rq_Method = ''POST'', rq_Path = ''/'', rq_Header = [(''Content-Type'', [''application/json'']), (''Authorization'', [''Bearer s3cret''])],
     rq_ctx = ex_ctx, rq_segments = segments, rq_PathValue = [], rq_Body = Inr body, namespaceKey = None\<rparr>"

lemma ex_json_doc: "json_doc ex_json"
proof -
  have "Metadata ex_sealed MetadataEncryptionKeyID \<noteq> Metadata ex_payload MetadataEncryptionKeyID"
    by (simp add: ex_sealed_def ex_payload_def MetadataEncoding_def MetadataEncryptionKeyID_def MetadataEncryptionDEK_def MetadataEncryptionNamespace_def)
  then have "ex_sealed \<noteq> ex_payload" by auto
  then show ?thesis by (auto simp: json_doc_def ex_json_def split: if_splits)
qed

lemma ex_passes: "passes ex_api ex_so (with_ns (\<lambda>x. x) ns (ex_post segments body))"
proof -
  have h: "headerMetadata ex_api [(''Content-Type'', [''application/json'']), (''Authorization'', [''Bearer s3cret''])]
      = [(''content-type'', [''application/json'']), (''authorization'', [''Bearer s3cret''])]" by code_simp
  have "StaticToken_Authenticate ex_api \<lparr>st_token = ''s3cret'', st_header = ''authorization'', st_scheme = ''Bearer''\<rparr>
      [(''content-type'', [''application/json'']), (''authorization'', [''Bearer s3cret''])] = None" by code_simp
  with h show ?thesis by (simp add: passes_def ex_so_def default_options_def with_ns_def ex_post_def ex_token_auth_def staticToken_def)
qed

lemma ex_content_type:
  "HasPrefix (Header_Get (rq_Header (behind_auth ex_so (with_ns (\<lambda>x. x) ns (ex_post segments body)))) ''Content-Type'') contentTypeJSON"
proof -
  have "HasPrefix (Header_Get (fold (\<lambda>h hd. Header_Del hd h) (SecureHeaders ex_token_auth)
      [(''Content-Type'', [''application/json'']), (''Authorization'', [''Bearer s3cret''])]) ''Content-Type'') contentTypeJSON" by code_simp
  then show ?thesis by (simp add: behind_auth_def ex_so_def default_options_def admitted_def with_ns_def ex_post_def)
qed

abbreviation ex_server :: "(ex_grpc, (string \<times> DEK) list pstate) http_handler" where
  "ex_server \<equiv> codec_Handler ex_api ex_status ex_json (Codecs_Encode ex_wire ex_codecs 0) (Codecs_Decode ex_wire ex_codecs 4) (\<lambda>x. x) ex_so"

lemma ex_addresses:
  "addresses (ex_post [''ns'', ''encode''] body) encodeRoute ''ns''" "addresses (ex_post [''ns'', ''decode''] body) decodeRoute ''ns''"
  by (simp_all add: addresses_def ex_post_def encodeRoute_def decodeRoute_def)

lemma ex_names: "namespace (\<lambda>x. x) (ex_post segments body\<lparr>rq_PathValue := ''ns''\<rparr>) = \<lparr>rn_name = ''ns'', rn_sent = ''ns'', rn_named = True\<rparr>"
  by (simp add: namespace_def Let_def)

lemma ex_encoded:
  "\<exists>resp evs. ex_server (ex_post [''ns'', ''encode''] ''plain'') ex_state1 = (resp, evs, ex_state2) \<and> rs_status resp = 200 \<and> rs_body resp = ''sealed''"
proof -
  have m: "map_of (codec_routes ex_json (Codecs_Encode ex_wire ex_codecs 0) (Codecs_Decode ex_wire ex_codecs 4) ex_so) encodeRoute
      = Some (payloads ex_json ex_so encodeRoute (Codecs_Encode ex_wire ex_codecs 0) False)"
    by (simp add: codec_routes_def ex_so_def default_options_def)
  let ?r = "behind_auth ex_so (with_ns (\<lambda>x. x) ''ns'' (ex_post [''ns'', ''encode''] ''plain''))"
  have "namespaceKey ?r = Some \<lparr>rn_name = ''ns'', rn_sent = ''ns'', rn_named = True\<rparr>" "rq_Body ?r = Inr ''plain''"
    by (simp_all add: with_ns_def ex_names, simp add: ex_post_def)
  then have "payloads ex_json ex_so encodeRoute (Codecs_Encode ex_wire ex_codecs 0) False ?r ex_state1
      = (\<lparr>rs_status = 200, rs_body = ''sealed'', rs_header = [(''Content-Type'', contentTypeJSON)]\<rparr>, [], ex_state2)"
    using ex_content_type [of "''ns''" "[''ns'', ''encode'']" "''plain''"]
    by (simp add: payloads_def prologue_def requestNamespace_def ReadAll_Max_def ex_so_def default_options_def defaultMaxBodyBytes_def ex_json_def ex_Encode)
  with Handler_passes [OF ex_addresses(1) [of "''plain''"] m ex_passes, where st = ex_status and s = ex_state1] show ?thesis by auto
qed

theorem Codec_http_roundtrip_witness:
  "\<exists>resp evs st. ex_server (ex_post [''ns'', ''decode''] ''sealed'') ex_state2 = (resp, evs, st) \<and> rs_status resp = 200
     \<and> protojson_Unmarshal ex_json (rs_body resp) = Inr [ex_payload]"
proof -
  have *: "vault_reachable ex_env ex_registry (ps_vault ex_state1, ps_world ex_state1)"
    "vault_reachable ex_env ex_registry (ps_vault ex_state2, ps_world ex_state2)"
    "v_binding (ps_vault ex_state2) = v_binding (ps_vault ex_state1)" "Encrypt ex_codec_opts" "SkipEncodings ex_codec_opts = []"
    using ex_start ex_reachable2 by (simp_all add: ex_state1_def ex_state2_def ex_vault2_def ex_codec_opts_def)
  obtain resp evs where enc: "ex_server (ex_post [''ns'', ''encode''] ''plain'') ex_state1 = (resp, evs, ex_state2)" "rs_status resp = 200" "rs_body resp = ''sealed''"
    using ex_encoded by blast
  have js: "rq_Body (ex_post [''ns'', ''encode''] ''plain'') = Inr ''plain''" "protojson_Unmarshal ex_json ''plain'' = Inr [ex_payload]"
    "protojson_Marshal ex_json [ex_payload] = Inr (if ex_payload = ex_sealed then ''sealed'' else ''plain'')"
    by (auto simp: ex_post_def ex_json_def)
  show ?thesis
    by (rule Codec_http_roundtrip [OF ex_env_ok(1,3,4) ex_marshal ex_json_doc ex_registry_new ex_registry_ok ex_named ex_codecs_new *(4) *(1-3) _
          ex_addresses(1) js enc(1,2) ex_addresses(2) _ _ ex_passes ex_content_type refl refl])
      (simp_all add: *(5) enc(3) ex_names, simp_all add: ex_post_def ex_so_def default_options_def defaultMaxBodyBytes_def)
qed

theorem Codec_never_5xx_witness:
  "payloads ex_json ex_so decodeRoute (\<lambda>_ _ _ st. (Inl (ErrorString ''kms: denied on arn:aws:kms''), st)) False
     (with_ns (\<lambda>x. x) ''ns'' (ex_post [''ns'', ''decode''] ''sealed'')) ex_state2
   = (fail 400 ''failed to transform payloads'', [TransformFailed decodeRoute ''ns'' (ErrorString ''kms: denied on arn:aws:kms'')], ex_state2)"
proof -
  let ?r = "with_ns (\<lambda>x. x) ''ns'' (ex_post [''ns'', ''decode''] ''sealed'')"
  have ct: "HasPrefix (Header_Get [(''Content-Type'', [''application/json'']), (''Authorization'', [''Bearer s3cret''])] ''Content-Type'') contentTypeJSON"
    by code_simp
  have p: "prologue False ?r = Inr \<lparr>rn_name = ''ns'', rn_sent = ''ns'', rn_named = True\<rparr>"
    by (simp add: prologue_def requestNamespace_def with_ns_def ex_names)
  show ?thesis
    using Codec_never_5xx [of ex_api ex_status ex_json _ _ "\<lambda>x. x" ex_so ?r ex_state2 False _ "\<lambda>_ _ _ st. (Inl (ErrorString ''kms: denied on arn:aws:kms''), st)"
        "[ex_sealed]" "ErrorString ''kms: denied on arn:aws:kms''" ex_state2 "''sealed''" decodeRoute, THEN conjunct2] p ct
    by (simp add: with_ns_def ex_post_def ex_so_def default_options_def defaultMaxBodyBytes_def ex_json_def)
qed

theorem Codec_authorized_witness:
  "\<exists>resp evs st. ex_server (ex_post [''ns'', ''decode''] ''sealed'') ex_state2 = (resp, evs, st)
     \<and> (\<exists>r'. namespaceKey r' = Some \<lparr>rn_name = ''ns'', rn_sent = ''ns'', rn_named = True\<rparr>
          \<and> rs_status resp = rs_status (fst (payloads ex_json ex_so decodeRoute (Codecs_Decode ex_wire ex_codecs 4) False r' ex_state2)))"
proof -
  let ?r = "ex_post [''ns'', ''decode''] ''sealed''"
  have m: "map_of (codec_routes ex_json (Codecs_Encode ex_wire ex_codecs 0) (Codecs_Decode ex_wire ex_codecs 4) ex_so) decodeRoute
      = Some (payloads ex_json ex_so decodeRoute (Codecs_Decode ex_wire ex_codecs 4) False)"
    by (simp add: codec_routes_def ex_so_def default_options_def encodeRoute_def decodeRoute_def)
  have auth: "so_auth ex_so = Some ex_token_auth" by (simp add: ex_so_def)
  let ?t = "\<lparr>FullName = [], Target.Namespace = ''ns'', HTTP = Some \<lparr>h_Group = HTTPGroupCodecServer, h_Method = rq_Method ?r, h_Path = rq_Path ?r\<rparr>\<rparr>"
  have "Authenticate ex_token_auth (rq_ctx ?r) ?t (headerMetadata ex_api (rq_Header ?r)) = None"
    using ex_passes [of "''ns''" "[''ns'', ''decode'']" "''sealed''"] by (simp add: passes_def auth codec_target_def with_ns_def namespaceName_def requestNamespace_def ex_names)
  with Codec_authorized [OF auth ex_addresses(2) m ex_names [symmetric], where st = ex_status and s = ex_state2 and api = ex_api and target = ?t]
  show ?thesis by fastforce
qed

definition ex_policies :: "unit gomap" where
  "ex_policies = [(''pay'', ()), (''ops'', ())]"

theorem OverrideMap_finds_policy_witness:
  "\<exists>m. NewOverrideMap ex_policies [ex_rules] = Inr m \<and> OverrideMap_Local m (remote_of ex_rules ''ops'') = ''ops''"
proof -
  have "map_sum (\<lambda>_. ()) (\<lambda>_. ()) (NewOverrideMap ex_policies [ex_rules]) = Inr ()" by code_simp
  then obtain m where m: "NewOverrideMap ex_policies [ex_rules] = Inr m" by (cases "NewOverrideMap ex_policies [ex_rules]") auto
  have p: "''ops'' \<in> fst ` set ex_policies" "Configured ex_rules" "ex_rules \<in> set [ex_rules]"
    by (simp_all add: ex_policies_def Configured_def ex_rules_def)
  from OverrideMap_finds_policy [OF m p(1), THEN conjunct2, THEN conjunct1, THEN bspec, OF p(3), THEN mp, OF p(2)] m show ?thesis by blast
qed

end
