(* ===== verification/Kms.thy ===== *)
theory Kms
  imports Config Vault_Theorems
begin

text \<open>
  \<open>pkg/crypto/keys.go\<close>, \<open>internal/kms/keys.go\<close>, \<open>internal/kms/fx.go\<close> and \<open>internal/api/kms.go\<close>: opening the configured
  keys by the scheme of their URIs, and building the key registry and the vault from the
  configuration's key policies.

  The cloud key drivers (\<open>secrets.OpenKeeper\<close>), \<open>url.Parse\<close> and the client stubs of an extension server are
  parameters. An opened key is a handle beside its \<open>KEK\<close>; the state has the handles that are open and
  what was logged. Metering returns what the key returns, with the report beside it. Contexts and
  the times of the reports are left out.
\<close>

section \<open>pkg/crypto/keys.go\<close>

record Keeper =
  keeper_Encrypt :: "ctx \<Rightarrow> bytes \<Rightarrow> bytes result"
  keeper_Decrypt :: "ctx \<Rightarrow> bytes \<Rightarrow> bytes result"
  keeper_Close :: "goerror option"

definition testingScheme :: string where
  "testingScheme = ''testing://''"

definition cutPrefixFold :: "string \<Rightarrow> string \<Rightarrow> string \<times> bool" where
  "cutPrefixFold s p =
     (if length s < length p \<or> \<not> EqualFold (take (length p) s) p then ([], False) else (drop (length p) s, True))"

definition safeKeyURI :: "string \<Rightarrow> string" where
  "safeKeyURI uri =
     (case cutPrefixFold uri testingScheme of
        (after, ok) \<Rightarrow> if ok \<and> after \<noteq> [] then testingScheme @ ''<redacted>'' else uri)"

text \<open>\<open>strings.ReplaceAll\<close> of a nonempty text.\<close>

function ReplaceAll :: "string \<Rightarrow> string \<Rightarrow> string \<Rightarrow> string" where
  "ReplaceAll [] t new = []"
| "ReplaceAll (c # s) t new =
     (if t \<noteq> [] \<and> HasPrefix (c # s) t then new @ ReplaceAll (drop (length t) (c # s)) t new else c # ReplaceAll s t new)"
  by pat_completeness auto
termination by (relation "measure (\<lambda>(s, _, _). length s)") (auto simp: HasPrefix_def split: nat.splits)

text \<open>A \<open>CloudKey\<close> as the \<open>KEK\<close> it is.\<close>

definition CloudKey :: "Keeper \<Rightarrow> string \<Rightarrow> KEK" where
  "CloudKey kp i = \<lparr>ID = i, kek_Encrypt = (\<lambda>c _ dek. keeper_Encrypt kp c dek), kek_Decrypt = keeper_Decrypt kp, kek_Close = keeper_Close kp\<rparr>"

definition NewCloudKey :: "(string \<Rightarrow> Keeper result) \<Rightarrow> string \<Rightarrow> KEK result" where
  "NewCloudKey OpenKeeper uri =
     (let (opn, material) = (case cutPrefixFold uri testingScheme of (after, ok) \<Rightarrow> if ok then (''base64key://'' @ after, after) else (uri, []))
      in case OpenKeeper opn of
           Inl err \<Rightarrow>
             (if material \<noteq> []
              then Inl (ErrorString (''failed to create key for uri: '' @ safeKeyURI uri @ '', '' @ ReplaceAll (Error err) material ''<redacted>''))
              else Inl (WrapError (''failed to create key for uri: '' @ safeKeyURI uri @ '', '' @ Error err) [err]))
         | Inr kp \<Rightarrow> Inr (CloudKey kp opn))"

type_synonym KeyFactoryFunc = "string \<Rightarrow> KEK result"
type_synonym KeyFactoryFuncs = "KeyFactoryFunc gomap"

definition WithKeyFactoryFuncForScheme :: "string \<Rightarrow> KeyFactoryFunc \<Rightarrow> KeyFactoryFuncs \<Rightarrow> KeyFactoryFuncs" where
  "WithKeyFactoryFuncForScheme scheme fn kf = AList.update (ToLower scheme) fn kf"

definition NewKeyFactory :: "(string \<Rightarrow> Keeper result) \<Rightarrow> (KeyFactoryFuncs \<Rightarrow> KeyFactoryFuncs) list \<Rightarrow> KeyFactoryFuncs" where
  "NewKeyFactory OpenKeeper opts =
     fold (\<lambda>opt f. opt f) opts (fold (\<lambda>s f. AList.update s (NewCloudKey OpenKeeper) f) DefaultSchemes [])"

text \<open>\<open>Create\<close>: of an error of \<open>url.Parse\<close>, which quotes the URI, only the reason is kept.\<close>

definition url_reason :: "goerror \<Rightarrow> goerror" where
  "url_reason err = (case err of WrapError _ [r] \<Rightarrow> r | _ \<Rightarrow> err)"

definition KeyFactory_Create :: "(string \<Rightarrow> URL result) \<Rightarrow> KeyFactoryFuncs \<Rightarrow> string \<Rightarrow> KEK result" where
  "KeyFactory_Create url_Parse f uri =
     (case url_Parse uri of
        Inl err \<Rightarrow> Inl (WrapError (''failed to parse URI: '' @ safeKeyURI uri @ '', '' @ Error (url_reason err)) [url_reason err])
      | Inr u \<Rightarrow>
          (case map_of f (url_Scheme u) of
             None \<Rightarrow> Inl (ErrorString (''key factory not found for scheme: '' @ url_Scheme u))
           | Some fn \<Rightarrow> fn uri))"

section \<open>internal/api/kms.go and internal/kms/keys.go\<close>

text \<open>The client of an extension server: its two calls.\<close>

record kms_client =
  client_Encrypt :: "ctx \<Rightarrow> string \<Rightarrow> bytes \<Rightarrow> bytes result"
  client_Decrypt :: "ctx \<Rightarrow> bytes \<Rightarrow> bytes result"

definition NewKMS :: "string \<Rightarrow> kms_client \<Rightarrow> KEK" where
  "NewKMS i cc =
     \<lparr>ID = i,
      kek_Encrypt = (\<lambda>c ns pt. case client_Encrypt cc c ns pt of
         Inl err \<Rightarrow> Inl (WrapError (''failed to encrypt DEK, id: '' @ i @ '', err: '' @ Error err) [err]) | Inr ct \<Rightarrow> Inr ct),
      kek_Decrypt = (\<lambda>c ct. case client_Decrypt cc c ct of
         Inl err \<Rightarrow> Inl (WrapError (''failed to decrypt DEK, id: '' @ i @ '', err: '' @ Error err) [err]) | Inr pt \<Rightarrow> Inr pt),
      kek_Close = None\<rparr>"

definition ExtensionScheme :: string where
  "ExtensionScheme = ''extension''"

definition providerMap :: "string gomap" where
  "providerMap = [(''awskms'', ''aws''), (''gcpkms'', ''gcp''), (''azurekeyvault'', ''azure''), (''base64key'', ''testing''), (''testing'', ''testing'')]"

definition ProviderForScheme :: "string \<Rightarrow> string" where
  "ProviderForScheme scheme0 =
     (let scheme = ToLower scheme0 in case map_of providerMap scheme of Some p \<Rightarrow> p | None \<Rightarrow> scheme)"

definition newExtensionKeyFunc :: "(string \<Rightarrow> URL result) \<Rightarrow> kms_client gomap \<Rightarrow> KeyFactoryFunc" where
  "newExtensionKeyFunc url_Parse cs uri =
     (case url_Parse uri of
        Inl err \<Rightarrow> Inl (WrapError (''failed to parse URI: '' @ uri @ '', '' @ Error err) [err])
      | Inr u \<Rightarrow>
          (if url_Host u = [] then Inl (ErrorString (''extension key URI must name an extension server: '' @ uri))
           else case map_of cs (url_Host u) of
             None \<Rightarrow> Inl (ErrorString (''unknown extension server '' @ url_Host u @ '' in key URI: '' @ uri))
           | Some conn \<Rightarrow> Inr (NewKMS (url_String u) conn)))"

text \<open>What opening keys depends on.\<close>

record key_env =
  OpenKeeper :: "string \<Rightarrow> Keeper result"
  key_url :: "string \<Rightarrow> URL result"
  key_conns :: "kms_client gomap"

definition kms_NewKeyFactory :: "key_env \<Rightarrow> KeyFactoryFuncs" where
  "kms_NewKeyFactory K =
     NewKeyFactory (OpenKeeper K) [WithKeyFactoryFuncForScheme ExtensionScheme (newExtensionKeyFunc (key_url K) (key_conns K))]"

text \<open>A key with the provider its operations are reported under.\<close>

definition kms_Create :: "key_env \<Rightarrow> string \<Rightarrow> (KEK \<times> string) result" where
  "kms_Create K uri =
     (case KeyFactory_Create (key_url K) (kms_NewKeyFactory K) uri of
        Inl err \<Rightarrow> Inl (WrapError (''error creating KEK: '' @ Error err) [err])
      | Inr k \<Rightarrow> Inr (k, ProviderForScheme (fst (CutChar uri (CHR '':'')))))"

datatype kek_event = KEKOp string string string

definition kms_resultLabel :: "goerror option \<Rightarrow> string" where
  "kms_resultLabel err = (if err \<noteq> None then ''error'' else ''success'')"

definition metered_Encrypt :: "KEK \<Rightarrow> string \<Rightarrow> ctx \<Rightarrow> string \<Rightarrow> bytes \<Rightarrow> bytes result \<times> kek_event" where
  "metered_Encrypt k provider c ns b =
     (let res = kek_Encrypt k c ns b in (res, KEKOp provider ''wrap'' (kms_resultLabel (err_of res))))"

definition metered_Decrypt :: "KEK \<Rightarrow> string \<Rightarrow> ctx \<Rightarrow> bytes \<Rightarrow> bytes result \<times> kek_event" where
  "metered_Decrypt k provider c b =
     (let res = kek_Decrypt k c b in (res, KEKOp provider ''unwrap'' (kms_resultLabel (err_of res))))"

definition safeKeyString :: "string \<Rightarrow> string" where
  "safeKeyString uri =
     (if length uri < length testingScheme \<or> \<not> EqualFold (take (length testingScheme) uri) testingScheme then uri
      else testingScheme @ ''<redacted>'')"

section \<open>internal/kms/fx.go\<close>

text \<open>The handles of the keys that are open, the next handle, and the URIs logged.\<close>

record key_world =
  kw_open :: "nat list"
  kw_next :: nat
  kw_log :: "string list"

definition mkKey :: "key_env \<Rightarrow> URL \<Rightarrow> key_world \<Rightarrow> (nat \<times> KEK) result \<times> key_world" where
  "mkKey K uri w =
     (let w = w\<lparr>kw_log := kw_log w @ [safeKeyString (url_String uri)]\<rparr>
      in case kms_Create K (url_String uri) of
           Inl err \<Rightarrow> (Inl err, w)
         | Inr (k, _) \<Rightarrow> (Inr (kw_next w, k), w\<lparr>kw_open := kw_open w @ [kw_next w], kw_next := Suc (kw_next w)\<rparr>))"

text \<open>The loop of \<open>createKEKs\<close>; on an error the deferred function closes what it opened.\<close>

fun createKEKs_loop :: "key_env \<Rightarrow> URL list \<Rightarrow> (nat \<times> KEK) list \<Rightarrow> key_world \<Rightarrow> (nat \<times> KEK) list result \<times> key_world" where
  "createKEKs_loop K [] keys w = (Inr keys, w)"
| "createKEKs_loop K (u # us) keys w =
     (case mkKey K u w of
        (Inl err, w) \<Rightarrow> (Inl err, w\<lparr>kw_open := filter (\<lambda>h. h \<notin> fst ` set keys) (kw_open w)\<rparr>)
      | (Inr k, w) \<Rightarrow> createKEKs_loop K us (keys @ [k]) w)"

definition createKEKs :: "key_env \<Rightarrow> KeyPolicy \<Rightarrow> key_world \<Rightarrow> (nat \<times> KEK) list result \<times> key_world" where
  "createKEKs K p w = createKEKs_loop K (kp_URI p # kp_DecryptURIs p) [] w"

definition keyPolicyRegistryOpts :: "key_env \<Rightarrow> KeyPolicy \<Rightarrow> string \<Rightarrow> bool \<Rightarrow> key_world \<Rightarrow> KEKRegistryOption list result \<times> key_world" where
  "keyPolicyRegistryOpts K p ns asDefault w =
     (case createKEKs K p w of
        (Inl err, w) \<Rightarrow> (Inl err, w)
      | (Inr keys, w) \<Rightarrow>
          (Inr ((if asDefault then WithDefaultKey (Some (snd (keys ! 0))) else WithKeyForNamespace ns (Some (snd (keys ! 0))))
                # map (\<lambda>k. WithDecryptOnlyKey (Some (snd k))) (tl keys)), w))"

definition defaultNamespace :: string where
  "defaultNamespace = ''default''"

fun override_opts :: "key_env \<Rightarrow> KeyPolicy gomap \<Rightarrow> string list \<Rightarrow> KEKRegistryOption list \<Rightarrow> key_world \<Rightarrow> KEKRegistryOption list result \<times> key_world" where
  "override_opts K overrides [] opts w = (Inr opts, w)"
| "override_opts K overrides (ns # nss) opts w =
     (case map_of overrides ns of
        None \<Rightarrow> override_opts K overrides nss opts w
      | Some policy \<Rightarrow>
          (case keyPolicyRegistryOpts K policy ns False w of
             (Inl err, w) \<Rightarrow> (Inl err, w)
           | (Inr res, w) \<Rightarrow> override_opts K overrides nss (opts @ res) w))"

definition createKEKRegistry :: "key_env \<Rightarrow> Encryption \<Rightarrow> key_world \<Rightarrow> KEKRegistry result \<times> key_world" where
  "createKEKRegistry K e w =
     (case (case e_Default e of None \<Rightarrow> (Inr [], w) | Some dp \<Rightarrow> keyPolicyRegistryOpts K dp defaultNamespace True w) of
        (Inl err, w) \<Rightarrow> (Inl err, w)
      | (Inr opts, w) \<Rightarrow>
          (case override_opts K (e_Overrides e) (sort (map fst (e_Overrides e))) opts w of
             (Inl err, w) \<Rightarrow> (Inl err, w)
           | (Inr opts, w) \<Rightarrow>
               (case NewKEKRegistry opts of
                  Inl err \<Rightarrow> (Inl (WrapError (''failed to create KEK registry: '' @ Error err) [err]), w)
                | Inr r \<Rightarrow> (Inr r, w))))"

definition policy_config :: "KeyPolicy \<Rightarrow> KeyConfig" where
  "policy_config p = \<lparr>Duration = kp_Duration p, RenewBefore = kp_RenewBefore p\<rparr>"

definition vault_options :: "Encryption \<Rightarrow> int \<Rightarrow> nat option \<Rightarrow> VaultOption list" where
  "vault_options e mode reporter =
     [WithCacheSize (DEKCacheSize (Some e)), WithObserver reporter, WithBindingMode mode]
     @ (case e_Default e of None \<Rightarrow> [] | Some dp \<Rightarrow> [WithDefaultKeyConfig (policy_config dp)])
     @ concat (map (\<lambda>ns. case map_of (e_Overrides e) ns of None \<Rightarrow> [] | Some p \<Rightarrow> [WithKeyConfig ns (policy_config p)])
         (sort (map fst (e_Overrides e))))"

definition createVault :: "'c vault_env \<Rightarrow> Encryption \<Rightarrow> KEKRegistry \<Rightarrow> nat option \<Rightarrow> vworld \<Rightarrow> 'c Vault result \<times> vworld" where
  "createVault e enc r reporter w =
     (case NamespaceBinding_Mode (e_NamespaceBinding enc) of
        Inl err \<Rightarrow> (Inl (WrapError (''invalid encryption.namespaceBinding: '' @ Error err) [err]), w)
      | Inr mode \<Rightarrow>
          (case NewVault e (Some r) (vault_options enc mode reporter) w of
             (Inl err, w) \<Rightarrow> (Inl (WrapError (''failed to create crypto vault: '' @ Error err) [err]), w)
           | (Inr v, w) \<Rightarrow> (Inr v, w)))"

text \<open>The provider of the vault: none without a default policy. When the vault cannot be built the registry
  is closed, and with it the keys opened for it.\<close>

definition provideVault :: "key_env \<Rightarrow> 'c vault_env \<Rightarrow> Encryption \<Rightarrow> nat option \<Rightarrow> key_world \<Rightarrow> vworld
    \<Rightarrow> 'c Vault option result \<times> key_world \<times> vworld" where
  "provideVault K e enc reporter kw w =
     (if e_Default enc = None then (Inr None, kw, w)
      else case createKEKRegistry K enc kw of
        (Inl err, kw') \<Rightarrow> (Inl err, kw', w)
      | (Inr r, kw') \<Rightarrow>
          (case createVault e enc r reporter w of
             (Inl err, w) \<Rightarrow> (Inl err, kw'\<lparr>kw_open := filter (\<lambda>h. h < kw_next kw) (kw_open kw')\<rparr>, w)
           | (Inr v, w) \<Rightarrow> (Inr (Some v), kw', w)))"

text \<open>The rotation loop: a refresh at once and one at each of \<open>n\<close> ticks; errors are logged, and do not stop
  it.\<close>

fun runRotation :: "'c vault_env \<Rightarrow> nat \<Rightarrow> 'c Vault \<Rightarrow> vworld \<Rightarrow> goerror list \<times> 'c Vault \<times> vworld" where
  "runRotation e n v w =
     (case Refresh e v w of
        (err, v, w) \<Rightarrow>
          (let logged = (case err of None \<Rightarrow> [] | Some er \<Rightarrow> [er])
           in case n of
                0 \<Rightarrow> (logged, v, w)
              | Suc m \<Rightarrow> (case runRotation e m v w of (errs, v, w) \<Rightarrow> (logged @ errs, v, w))))"

section \<open>Opening keys\<close>

definition kw_ok :: "key_world \<Rightarrow> bool" where
  "kw_ok w \<longleftrightarrow> (\<forall>h\<in>set (kw_open w). h < kw_next w)"

lemma mkKey_frame:
  assumes "mkKey K u w = (res, w')" "kw_ok w"
  shows "res = Inl err \<Longrightarrow> kw_open w' = kw_open w" "kw_ok w'"
    "res = Inr hk \<Longrightarrow> kw_open w' = kw_open w @ [fst hk] \<and> fst hk = kw_next w \<and> (\<exists>pr. kms_Create K (url_String u) = Inr (snd hk, pr))"
  using assms by (auto simp: mkKey_def Let_def kw_ok_def simp flip: less_Suc_eq_le simp: less_Suc_eq split: sum.splits prod.splits)

lemma createKEKs_loop_frame:
  assumes "createKEKs_loop K us keys w = (res, w')" "kw_ok w" "kw_open w = base @ map fst keys" "fst ` set keys \<inter> set base = {}"
  shows "kw_ok w' \<and> (case res of
      Inl err \<Rightarrow> kw_open w' = base
    | Inr ks \<Rightarrow> kw_open w' = base @ map fst ks \<and> fst ` set ks \<inter> set base = {}
        \<and> (\<exists>new. ks = keys @ new \<and> list_all2 (\<lambda>u k. \<exists>pr. kms_Create K (url_String u) = Inr (snd k, pr)) us new))"
  using assms
proof (induction us arbitrary: keys w)
  case Nil
  then show ?case by auto
next
  case (Cons u us)
  obtain r1 w1 where mk: "mkKey K u w = (r1, w1)" by (cases "mkKey K u w")
  note fr = mkKey_frame [OF mk Cons.prems(2)]
  show ?case
  proof (cases r1)
    case (Inl err)
    have o1: "kw_open w1 = base @ map fst keys" using fr(1) [OF Inl] Cons.prems(3) by simp
    have "filter (\<lambda>h. h \<notin> fst ` set keys) (kw_open w1) = base"
      using Cons.prems(4) unfolding o1 filter_append by (auto simp: filter_id_conv filter_empty_conv)
    moreover have "kw_ok (w1\<lparr>kw_open := base\<rparr>)" using fr(2) o1 by (simp add: kw_ok_def)
    ultimately show ?thesis using Cons.prems(1) mk Inl by auto
  next
    case (Inr hk)
    note new = fr(3) [OF Inr]
    have fresh: "fst hk \<notin> set base" using new Cons.prems(2,3) by (auto simp: kw_ok_def)
    have "createKEKs_loop K us (keys @ [hk]) w1 = (res, w')" using Cons.prems(1) mk Inr by simp
    from Cons.IH [OF this fr(2)] new Cons.prems(3,4) fresh show ?thesis
      by (cases res) auto
  qed
qed

lemma createKEKs_frame:
  assumes "createKEKs K p w = (res, w')" "kw_ok w"
  shows "kw_ok w'" "res = Inl err \<Longrightarrow> kw_open w' = kw_open w"
    "res = Inr ks \<Longrightarrow> list_all2 (\<lambda>u k. \<exists>pr. kms_Create K (url_String u) = Inr (snd k, pr)) (kp_URI p # kp_DecryptURIs p) ks"
  using createKEKs_loop_frame [OF assms(1) [unfolded createKEKs_def] assms(2), of "kw_open w"] by (cases res; auto)+

section \<open>What the registry is given\<close>

datatype key_use = AsDefault KEK | ForNamespace string KEK | DecryptOnly KEK

fun use_opt :: "key_use \<Rightarrow> KEKRegistryOption" where
  "use_opt (AsDefault k) = WithDefaultKey (Some k)"
| "use_opt (ForNamespace ns k) = WithKeyForNamespace ns (Some k)"
| "use_opt (DecryptOnly k) = WithDecryptOnlyKey (Some k)"

primrec namespace_keys :: "key_use list \<Rightarrow> KEK gomap" where
  "namespace_keys [] = []"
| "namespace_keys (u # us) = (case u of ForNamespace ns k \<Rightarrow> [(ns, k)] | _ \<Rightarrow> []) @ namespace_keys us"

primrec decrypt_keys :: "key_use list \<Rightarrow> KEK list" where
  "decrypt_keys [] = []"
| "decrypt_keys (u # us) = (case u of DecryptOnly k \<Rightarrow> [k] | _ \<Rightarrow> []) @ decrypt_keys us"

primrec default_keys :: "key_use list \<Rightarrow> KEK list" where
  "default_keys [] = []"
| "default_keys (u # us) = (case u of AsDefault k \<Rightarrow> [k] | _ \<Rightarrow> []) @ default_keys us"

lemma uses_append [simp]:
  "namespace_keys (us @ vs) = namespace_keys us @ namespace_keys vs" "decrypt_keys (us @ vs) = decrypt_keys us @ decrypt_keys vs"
  "default_keys (us @ vs) = default_keys us @ default_keys vs"
  by (induction us) simp_all

lemma uses_decrypt_only [simp]:
  "namespace_keys (map (\<lambda>u. DecryptOnly (f u)) us) = []" "default_keys (map (\<lambda>u. DecryptOnly (f u)) us) = []"
  "decrypt_keys (map (\<lambda>u. DecryptOnly (f u)) us) = map f us"
  by (induction us) simp_all

text \<open>A list of uses is accepted when no namespace and no decrypt-only ID occurs twice.\<close>

lemma apply_uses:
  assumes "distinct (map fst (keks r))" "distinct (map ID (decryptOnlyKeys r))"
  shows "apply_opts (map use_opt us) r = Inr r' \<longleftrightarrow>
     distinct (map fst (keks r @ namespace_keys us)) \<and> distinct (map ID (decryptOnlyKeys r @ decrypt_keys us))
     \<and> r' = r\<lparr>keks := keks r @ namespace_keys us, decryptOnlyKeys := decryptOnlyKeys r @ decrypt_keys us,
              defaultKey := (if default_keys us = [] then defaultKey r else Some (last (default_keys us)))\<rparr>"
  using assms
proof (induction us arbitrary: r)
  case Nil
  then show ?case by auto
next
  case (Cons u us)
  show ?case
  proof (cases u)
    case (AsDefault k)
    with Cons.IH [of "r\<lparr>defaultKey := Some k\<rparr>"] Cons.prems show ?thesis by (simp add: WithDefaultKey_def)
  next
    case (ForNamespace ns k)
    show ?thesis
    proof (cases "map_of (keks r) ns = None")
      case True
      then have "ns \<notin> fst ` set (keks r)" by (simp add: map_of_eq_None_iff)
      with True ForNamespace Cons.IH [of "r\<lparr>keks := keks r @ [(ns, k)]\<rparr>"] Cons.prems show ?thesis
        by (simp add: WithKeyForNamespace_def update_fresh)
    next
      case False
      then have "ns \<in> fst ` set (keks r)" by (simp add: map_of_eq_None_iff)
      with False ForNamespace show ?thesis by (auto simp: WithKeyForNamespace_def)
    qed
  next
    case (DecryptOnly k)
    show ?thesis
    proof (cases "ID k \<in> ID ` set (decryptOnlyKeys r)")
      case True
      then have "list_ex (\<lambda>x. ID x = ID k) (decryptOnlyKeys r)" by (auto simp: list_ex_iff)
      with True DecryptOnly show ?thesis by (auto simp: WithDecryptOnlyKey_def)
    next
      case False
      then have "\<not> list_ex (\<lambda>x. ID x = ID k) (decryptOnlyKeys r)" unfolding list_ex_iff by (metis imageI)
      with False DecryptOnly Cons.IH [of "r\<lparr>decryptOnlyKeys := decryptOnlyKeys r @ [k]\<rparr>"] Cons.prems show ?thesis
        by (simp add: WithDecryptOnlyKey_def)
    qed
  qed
qed

lemma NewKEKRegistry_uses:
  "NewKEKRegistry (map use_opt us) = Inr r \<longleftrightarrow>
     default_keys us \<noteq> [] \<and> distinct (map fst (namespace_keys us))
     \<and> distinct (map ID (last (default_keys us) # map snd (namespace_keys us) @ decrypt_keys us))
     \<and> r = \<lparr>defaultKey = Some (last (default_keys us)), keks = namespace_keys us,
            keyIDs = map (\<lambda>k. (ID k, k)) (last (default_keys us) # map snd (namespace_keys us) @ decrypt_keys us),
            decryptOnlyKeys = decrypt_keys us, closed = False, closeErr = None\<rparr>"
  unfolding NewKEKRegistry_iff by (subst apply_uses) (auto simp: emptyRegistry_def all_keys_def)

text \<open>The key a URI opens.\<close>

definition opened :: "key_env \<Rightarrow> URL \<Rightarrow> KEK option" where
  "opened K u = (case kms_Create K (url_String u) of Inl _ \<Rightarrow> None | Inr (k, _) \<Rightarrow> Some k)"

definition key_at :: "key_env \<Rightarrow> URL \<Rightarrow> KEK" where
  "key_at K u = the (opened K u)"

definition policy_uris :: "KeyPolicy \<Rightarrow> URL list" where
  "policy_uris p = kp_URI p # kp_DecryptURIs p"

definition policy_opens :: "key_env \<Rightarrow> KeyPolicy \<Rightarrow> bool" where
  "policy_opens K p \<longleftrightarrow> list_all (\<lambda>u. opened K u \<noteq> None) (policy_uris p)"

definition policy_uses :: "key_env \<Rightarrow> bool \<Rightarrow> string \<Rightarrow> KeyPolicy \<Rightarrow> key_use list" where
  "policy_uses K asDefault ns p =
     (if asDefault then AsDefault (key_at K (kp_URI p)) else ForNamespace ns (key_at K (kp_URI p)))
     # map (\<lambda>u. DecryptOnly (key_at K u)) (kp_DecryptURIs p)"

lemma mkKey_cases:
  obtains (fails) err w' where "opened K u = None" "mkKey K u w = (Inl err, w')"
  | (opens) w' where "opened K u \<noteq> None" "mkKey K u w = (Inr (kw_next w, key_at K u), w')"
  by (cases "kms_Create K (url_String u)") (auto simp: mkKey_def opened_def key_at_def Let_def)

lemma createKEKs_loop_result:
  "(\<exists>err. fst (createKEKs_loop K us keys w) = Inl err) \<and> list_ex (\<lambda>u. opened K u = None) us
   \<or> (\<exists>ks. fst (createKEKs_loop K us keys w) = Inr (keys @ ks) \<and> map snd ks = map (key_at K) us) \<and> list_all (\<lambda>u. opened K u \<noteq> None) us"
proof (induction us arbitrary: keys w)
  case Nil
  then show ?case by simp
next
  case (Cons u us)
  show ?case
  proof (cases rule: mkKey_cases [of K u w])
    case fails
    then show ?thesis by simp
  next
    case (opens w')
    with Cons.IH [of "keys @ [(kw_next w, key_at K u)]" w'] show ?thesis by auto
  qed
qed

lemma keyPolicyRegistryOpts_iff:
  "fst (keyPolicyRegistryOpts K p ns asDefault w) = Inr opts \<longleftrightarrow>
     policy_opens K p \<and> opts = map use_opt (policy_uses K asDefault ns p)"
proof -
  obtain res w' where c: "createKEKs K p w = (res, w')" by (cases "createKEKs K p w")
  from createKEKs_loop_result [of K "policy_uris p" "[]" w] consider
    err where "res = Inl err" "\<not> policy_opens K p"
  | ks where "res = Inr ks" "map snd ks = map (key_at K) (policy_uris p)" "policy_opens K p"
    using c by (auto simp: createKEKs_def policy_uris_def policy_opens_def list_ex_iff list_all_iff)
  then show ?thesis
  proof cases
    case (2 ks)
    then obtain k ks' where ks: "ks = k # ks'" "snd k = key_at K (kp_URI p)" "map snd ks' = map (key_at K) (kp_DecryptURIs p)"
      by (auto simp: policy_uris_def)
    have "map (\<lambda>k. WithDecryptOnlyKey (Some (snd k))) ks' = map (\<lambda>k. WithDecryptOnlyKey (Some k)) (map snd ks')" by simp
    then have "map (\<lambda>k. WithDecryptOnlyKey (Some (snd k))) ks' = map use_opt (map (\<lambda>u. DecryptOnly (key_at K u)) (kp_DecryptURIs p))"
      unfolding ks(3) by simp
    with 2 ks c show ?thesis by (auto simp: keyPolicyRegistryOpts_def policy_uses_def)
  qed (use c in \<open>simp add: keyPolicyRegistryOpts_def\<close>)
qed

lemma override_opts_iff:
  "list_all (\<lambda>ns. map_of ov ns \<noteq> None) nss \<Longrightarrow>
   fst (override_opts K ov nss opts w) = Inr res \<longleftrightarrow>
     list_all (\<lambda>ns. policy_opens K (the (map_of ov ns))) nss
     \<and> res = opts @ map use_opt (concat (map (\<lambda>ns. policy_uses K False ns (the (map_of ov ns))) nss))"
proof (induction nss arbitrary: opts w)
  case Nil
  then show ?case by auto
next
  case (Cons ns nss)
  then obtain p where p: "map_of ov ns = Some p" by auto
  obtain r1 w1 where k: "keyPolicyRegistryOpts K p ns False w = (r1, w1)" by (cases "keyPolicyRegistryOpts K p ns False w")
  note iff = keyPolicyRegistryOpts_iff [of K p ns False w, unfolded k]
  show ?case
  proof (cases r1)
    case (Inl err)
    then show ?thesis using p k iff by auto
  next
    case (Inr o1)
    then show ?thesis using p k iff [of o1] Cons.IH [of "opts @ o1" w1] Cons.prems by auto
  qed
qed

text \<open>The override policies in the order they are opened, and the registry they give.\<close>

definition sorted_overrides :: "Encryption \<Rightarrow> KeyPolicy gomap" where
  "sorted_overrides e = map (\<lambda>ns. (ns, the (map_of (e_Overrides e) ns))) (sort (map fst (e_Overrides e)))"

definition configured_keys :: "key_env \<Rightarrow> KeyPolicy \<Rightarrow> KeyPolicy gomap \<Rightarrow> KEK list" where
  "configured_keys K dp ovs =
     key_at K (kp_URI dp) # map (\<lambda>(_, p). key_at K (kp_URI p)) ovs
     @ map (key_at K) (concat (map kp_DecryptURIs (dp # map snd ovs)))"

definition registry_of :: "key_env \<Rightarrow> KeyPolicy \<Rightarrow> KeyPolicy gomap \<Rightarrow> KEKRegistry" where
  "registry_of K dp ovs =
     \<lparr>defaultKey = Some (key_at K (kp_URI dp)), keks = map (\<lambda>(ns, p). (ns, key_at K (kp_URI p))) ovs,
      keyIDs = map (\<lambda>k. (ID k, k)) (configured_keys K dp ovs),
      decryptOnlyKeys = map (key_at K) (concat (map kp_DecryptURIs (dp # map snd ovs))), closed = False, closeErr = None\<rparr>"

lemma fst_sorted_overrides [simp]: "map fst (sorted_overrides e) = sort (map fst (e_Overrides e))"
  by (simp add: sorted_overrides_def o_def)

lemma sorted_overrides_policies:
  "list_all (\<lambda>ns. P (the (map_of (e_Overrides e) ns))) (sort (map fst (e_Overrides e))) \<longleftrightarrow> list_all P (map snd (sorted_overrides e))"
  "concat (map (\<lambda>ns. policy_uses K b ns (the (map_of (e_Overrides e) ns))) (sort (map fst (e_Overrides e))))
     = concat (map (\<lambda>(ns, p). policy_uses K b ns p) (sorted_overrides e))"
  by (simp_all add: sorted_overrides_def list_all_iff o_def)

lemma override_uses [simp]:
  "namespace_keys (concat (map (\<lambda>(ns, p). policy_uses K False ns p) ovs)) = map (\<lambda>(ns, p). (ns, key_at K (kp_URI p))) ovs"
  "decrypt_keys (concat (map (\<lambda>(ns, p). policy_uses K False ns p) ovs)) = map (key_at K) (concat (map kp_DecryptURIs (map snd ovs)))"
  "default_keys (concat (map (\<lambda>(ns, p). policy_uses K False ns p) ovs)) = []"
  by (induction ovs) (auto simp: policy_uses_def)

definition default_uses :: "key_env \<Rightarrow> Encryption \<Rightarrow> key_use list" where
  "default_uses K e = (case e_Default e of None \<Rightarrow> [] | Some dp \<Rightarrow> policy_uses K True defaultNamespace dp)"

lemma createKEKRegistry_uses:
  "fst (createKEKRegistry K e w) = Inr r \<longleftrightarrow>
     pred_option (policy_opens K) (e_Default e) \<and> list_all (policy_opens K) (map snd (sorted_overrides e))
     \<and> NewKEKRegistry (map use_opt (default_uses K e @ concat (map (\<lambda>(ns, p). policy_uses K False ns p) (sorted_overrides e)))) = Inr r"
proof -
  obtain r1 w1 where d: "(case e_Default e of None \<Rightarrow> (Inr [], w) | Some dp \<Rightarrow> keyPolicyRegistryOpts K dp defaultNamespace True w) = (r1, w1)"
    by fastforce
  have d_iff: "r1 = Inr opts \<longleftrightarrow> pred_option (policy_opens K) (e_Default e) \<and> opts = map use_opt (default_uses K e)" for opts
  proof (cases "e_Default e")
    case None
    then show ?thesis using d by (auto simp: default_uses_def)
  next
    case (Some dp)
    then have "r1 = fst (keyPolicyRegistryOpts K dp defaultNamespace True w)" using d by simp
    with Some show ?thesis by (simp add: keyPolicyRegistryOpts_iff default_uses_def)
  qed
  have dom: "list_all (\<lambda>ns. map_of (e_Overrides e) ns \<noteq> None) (sort (map fst (e_Overrides e)))"
    by (auto simp: list_all_iff map_of_eq_None_iff)
  note o_iff = override_opts_iff [OF dom, unfolded sorted_overrides_policies]
  show ?thesis
  proof (cases r1)
    case (Inl err)
    then show ?thesis using d d_iff by (auto simp: createKEKRegistry_def)
  next
    case (Inr opts)
    obtain r2 w2 where o2: "override_opts K (e_Overrides e) (sort (map fst (e_Overrides e))) opts w1 = (r2, w2)" by fastforce
    have o2_iff: "r2 = Inr res \<longleftrightarrow> list_all (policy_opens K) (map snd (sorted_overrides e))
        \<and> res = opts @ map use_opt (concat (map (\<lambda>(ns, p). policy_uses K False ns p) (sorted_overrides e)))" for res
      using o_iff [of K opts w1 res] o2 by simp
    have dflt: "pred_option (policy_opens K) (e_Default e)" "opts = map use_opt (default_uses K e)" using Inr d_iff by simp_all
    show ?thesis
    proof (cases r2)
      case (Inl err)
      then have "\<not> list_all (policy_opens K) (map snd (sorted_overrides e))" using o2_iff by blast
      then show ?thesis using Inl Inr d o2 by (simp add: createKEKRegistry_def)
    next
      case (Inr res)
      then have res: "list_all (policy_opens K) (map snd (sorted_overrides e))"
        "res = map use_opt (default_uses K e @ concat (map (\<lambda>(ns, p). policy_uses K False ns p) (sorted_overrides e)))"
        using o2_iff [of res] dflt(2) by simp_all
      have "fst (createKEKRegistry K e w) = Inr r \<longleftrightarrow> NewKEKRegistry res = Inr r"
        using Inr \<open>r1 = Inr opts\<close> d o2 by (simp add: createKEKRegistry_def split: sum.split)
      then show ?thesis unfolding res(2) using res(1) dflt(1) by simp
    qed
  qed
qed

text \<open>An example: three keys that open, and a URI that does not.\<close>

definition ex_url :: "string \<Rightarrow> URL" where
  "ex_url s = \<lparr>url_Scheme = fst (CutChar s (CHR '':'')), url_Host = [], url_Opaque = [], url_Path = [], url_String = s\<rparr>"

definition ex_key_env :: key_env where
  "ex_key_env = \<lparr>OpenKeeper = (\<lambda>s. if HasSuffix s ''bad'' then Inl (ErrorString ''no key'')
        else Inr \<lparr>keeper_Encrypt = (\<lambda>_ b. Inr b), keeper_Decrypt = (\<lambda>_ b. Inr b), keeper_Close = None\<rparr>),
     key_url = (\<lambda>s. Inr (ex_url s)), key_conns = []\<rparr>"

definition ex_policy :: "string \<Rightarrow> string list \<Rightarrow> KeyPolicy" where
  "ex_policy uri ds = \<lparr>kp_URI = ex_url uri, kp_DecryptURIs = map ex_url ds, kp_Duration = 60, kp_RenewBefore = 5\<rparr>"

definition ex_default :: KeyPolicy where
  "ex_default = ex_policy ''awskms:///a'' [''testing://b'']"

definition ex_encryption :: "string \<Rightarrow> Encryption" where
  "ex_encryption uri = \<lparr>e_Enabled = True, e_Failures = False, e_CacheSize = Some 2, e_Default = Some ex_default,
     e_Overrides = [(''ns'', ex_policy uri [])], e_SkipEncodings = [], e_NamespaceBinding = NamespaceBindingStrict\<rparr>"

lemma ex_opens:
  "policy_opens ex_key_env ex_default" "policy_opens ex_key_env (ex_policy ''gcpkms://c'' [])"
  "\<not> policy_opens ex_key_env (ex_policy ''gcpkms://bad'' [])"
  "map ID (configured_keys ex_key_env ex_default [(''ns'', ex_policy ''gcpkms://c'' [])]) = [''awskms:///a'', ''gcpkms://c'', ''base64key://b'']"
  by code_simp+

lemma ex_overrides: "sorted_overrides (ex_encryption uri) = [(''ns'', ex_policy uri [])]" "e_Default (ex_encryption uri) = Some ex_default"
  "distinct (map fst (e_Overrides (ex_encryption uri)))"
  by (simp_all add: sorted_overrides_def ex_encryption_def)

text \<open>
  The key registry of a configuration is built exactly when it has a default key policy, every URI
  it names opens, and no two of the keys share an ID. It then encrypts the namespaces that have an
  override under the key of the override's URI, and the others under the key of the default's, and holds the keys
  of all the decrypt URIs for decryption only.
\<close>

theorem createKEKRegistry_iff:
  assumes "distinct (map fst (e_Overrides e))"
  shows "fst (createKEKRegistry K e w) = Inr r \<longleftrightarrow>
     (\<exists>dp. e_Default e = Some dp \<and> list_all (policy_opens K) (dp # map snd (sorted_overrides e))
        \<and> distinct (map ID (configured_keys K dp (sorted_overrides e))) \<and> r = registry_of K dp (sorted_overrides e))"
proof -
  have "map fst (map (\<lambda>(ns, p). (ns, key_at K (kp_URI p))) (sorted_overrides e)) = map fst (sorted_overrides e)"
    unfolding map_map by (rule map_cong) auto
  then have ns: "distinct (map fst (map (\<lambda>(ns, p). (ns, key_at K (kp_URI p))) (sorted_overrides e)))"
    using assms by simp
  show ?thesis
  proof (cases "e_Default e")
    case None
    then show ?thesis by (simp add: createKEKRegistry_uses NewKEKRegistry_uses default_uses_def)
  next
    case (Some dp)
    have d: "default_keys (default_uses K e) = [key_at K (kp_URI dp)]" "namespace_keys (default_uses K e) = []"
      "decrypt_keys (default_uses K e) = map (key_at K) (kp_DecryptURIs dp)"
      using Some by (simp_all add: default_uses_def policy_uses_def)
    have k: "configured_keys K dp (sorted_overrides e) = key_at K (kp_URI dp)
        # map snd (map (\<lambda>(ns, p). (ns, key_at K (kp_URI p))) (sorted_overrides e))
        @ map (key_at K) (kp_DecryptURIs dp) @ map (key_at K) (concat (map kp_DecryptURIs (map snd (sorted_overrides e))))"
      by (simp add: configured_keys_def case_prod_beta)
    have "fst (createKEKRegistry K e w) = Inr r \<longleftrightarrow> (policy_opens K dp \<and> list_all (policy_opens K) (map snd (sorted_overrides e)))
        \<and> distinct (map ID (configured_keys K dp (sorted_overrides e))) \<and> r = registry_of K dp (sorted_overrides e)"
      unfolding createKEKRegistry_uses NewKEKRegistry_uses
      unfolding uses_append override_uses d registry_of_def k list.map concat.simps map_append append_Nil append_Nil2 last.simps Some option.pred_inject
      using ns by simp
    then show ?thesis using Some by simp
  qed
qed

theorem createKEKRegistry_iff_witness:
  "fst (createKEKRegistry ex_key_env (ex_encryption ''gcpkms://c'') \<lparr>kw_open = [], kw_next = 0, kw_log = []\<rparr>)
     = Inr (registry_of ex_key_env ex_default [(''ns'', ex_policy ''gcpkms://c'' [])])"
  using createKEKRegistry_iff [OF ex_overrides(3), of ex_key_env] ex_opens ex_overrides by simp

section \<open>The vault\<close>

text \<open>The options of the configured lifetimes, none of which is refused.\<close>

lemma fold_key_configs:
  assumes "distinct (map fst (o_config vo @ cfgs))" "list_all (\<lambda>(_, c). KeyConfig_validate c = None) cfgs"
  shows "fold (\<lambda>opt vo. opt vo) (map (\<lambda>(ns, c). WithKeyConfig ns c) cfgs) vo = vo\<lparr>o_config := o_config vo @ cfgs\<rparr>"
  using assms
proof (induction cfgs arbitrary: vo)
  case Nil
  then show ?case by simp
next
  case (Cons nc cfgs)
  obtain ns c where nc: "nc = (ns, c)" by (cases nc)
  have "map_of (o_config vo) ns = None" using Cons.prems(1) nc by (auto simp: map_of_eq_None_iff)
  then have "WithKeyConfig ns c vo = vo\<lparr>o_config := o_config vo @ [nc]\<rparr>"
    using Cons.prems(2) nc by (simp add: WithKeyConfig_def update_fresh)
  then show ?case using Cons.IH [of "vo\<lparr>o_config := o_config vo @ [nc]\<rparr>"] Cons.prems nc by simp
qed

definition configured_vault :: "'c vault_env \<Rightarrow> Encryption \<Rightarrow> KeyPolicy \<Rightarrow> int \<Rightarrow> nat option \<Rightarrow> vaultOptions" where
  "configured_vault e enc dp mode reporter =
     \<lparr>o_config = map (\<lambda>(ns, p). (ns, policy_config p)) (sorted_overrides enc), o_defaultConfig = Some (policy_config dp),
      o_nowFn = time_Now e, o_cacheSize = DEKCacheSize (Some enc), o_observer = reporter, o_binding = mode, o_errs = []\<rparr>"

lemma policy_config_valid: "policy_ok p \<Longrightarrow> KeyConfig_validate (policy_config p) = None"
  by (auto simp: policy_ok_def KeyConfig_validate_def policy_config_def)

lemma encryption_policies_ok:
  assumes "encryption_ok enc"
  shows "list_all policy_ok (map snd (sorted_overrides enc))"
proof -
  have "policy_ok (the (map_of (e_Overrides enc) ns))" if "ns \<in> fst ` set (e_Overrides enc)" for ns
    using that assms by (cases "map_of (e_Overrides enc) ns") (auto simp: map_of_eq_None_iff encryption_ok_def)
  then show ?thesis by (auto simp: sorted_overrides_def list_all_iff)
qed

lemma fold_vault_options:
  assumes "encryption_ok enc" "e_Default enc = Some dp" "distinct (map fst (e_Overrides enc))"
    "NamespaceBinding_Mode (e_NamespaceBinding enc) = Inr mode"
  shows "fold (\<lambda>opt vo. opt vo) (vault_options enc mode reporter) (defaultOptions e) = configured_vault e enc dp mode reporter"
proof -
  have cfgs: "concat (map (\<lambda>ns. case map_of (e_Overrides enc) ns of None \<Rightarrow> [] | Some p \<Rightarrow> [WithKeyConfig ns (policy_config p)]) nss)
      = map (\<lambda>(ns, c). WithKeyConfig ns c) (map (\<lambda>ns. (ns, policy_config (the (map_of (e_Overrides enc) ns)))) nss)"
    if "set nss \<subseteq> fst ` set (e_Overrides enc)" for nss
    using that by (induction nss) (auto simp: map_of_eq_None_iff split: option.split)
  let ?cfgs = "map (\<lambda>(ns, p). (ns, policy_config p)) (sorted_overrides enc)"
  have "?cfgs = map (\<lambda>ns. (ns, policy_config (the (map_of (e_Overrides enc) ns)))) (sort (map fst (e_Overrides enc)))"
    by (simp add: sorted_overrides_def)
  then have opts: "vault_options enc mode reporter = [WithCacheSize (DEKCacheSize (Some enc)), WithObserver reporter, WithBindingMode mode,
      WithDefaultKeyConfig (policy_config dp)] @ map (\<lambda>(ns, c). WithKeyConfig ns c) ?cfgs"
    using cfgs [of "sort (map fst (e_Overrides enc))"] assms(2) by (simp add: vault_options_def)
  have "map fst ?cfgs = map fst (sorted_overrides enc)" unfolding map_map by (rule map_cong) auto
  then have "distinct (map fst ?cfgs)" using assms(3) by simp
  moreover have "list_all (\<lambda>(_, c). KeyConfig_validate c = None) ?cfgs"
    using encryption_policies_ok [OF assms(1)] by (auto simp: list_all_iff policy_config_valid)
  moreover have "policy_ok dp" "0 \<le> DEKCacheSize (Some enc)" using assms(1,2) by (simp_all add: encryption_ok_def)
  ultimately show ?thesis
    using NamespaceBinding_Mode_Inr [OF assms(4)] unfolding opts fold_append comp_apply
    by (subst fold_key_configs)
      (simp_all add: WithCacheSize_def WithObserver_def WithBindingMode_def WithDefaultKeyConfig_def policy_config_valid
        defaultOptions_def configured_vault_def)
qed

text \<open>With random bytes to read every configured namespace gets its first DEK, with its configured lifetime.\<close>

lemma initKeys_total:
  assumes "rand_ok e" "distinct (map fst keys @ map fst cfgs)"
  shows "\<exists>new w'. initKeys e now cfgs keys w = (Inr (keys @ new), w')
    \<and> map (\<lambda>(ns, sd). (ns, sd_dur sd, sd_before sd)) new = map (\<lambda>(ns, c). (ns, Duration c, RenewBefore c)) cfgs"
  using assms(2)
proof (induction cfgs arbitrary: keys w)
  case Nil
  then show ?case by simp
next
  case (Cons u cfgs)
  obtain k cfg where u: "u = (k, cfg)" by (cases u)
  obtain d w1 where d: "NewDEK e w = (Inr d, w1)" using assms(1) by (rule NewDEK_ok)
  let ?sd = "rotate_sd \<lparr>sd_key = d, sd_material = None, sd_exp = 0, sd_dur = Duration cfg, sd_before = RenewBefore cfg\<rparr> d (now (ticks w1))"
  have "map_of keys k = None" using Cons.prems u by (auto simp: map_of_eq_None_iff)
  then have "initKeys e now (u # cfgs) keys w = initKeys e now cfgs (keys @ [(k, ?sd)]) (w1\<lparr>ticks := Suc (ticks w1)\<rparr>)"
    using u d by (simp add: readClock_def update_fresh)
  then show ?case using Cons.IH [of "keys @ [(k, ?sd)]" "w1\<lparr>ticks := Suc (ticks w1)\<rparr>"] Cons.prems u
    by (auto simp: rotate_sd_def)
qed

lemma vault_options_known: "list_all vault_option (vault_options enc mode reporter)"
  by (auto simp: vault_options_def list_all_iff vault_option.intros split: option.splits)

text \<open>What \<open>NewVault\<close> is relied on for: an LRU cache of any positive size.\<close>

definition lru_total :: "'c vault_env \<Rightarrow> bool" where
  "lru_total e \<longleftrightarrow> (\<forall>n > 0. \<exists>c. lru_New e n = Inr c)"

lemma createVault_builds:
  assumes "encryption_ok enc" "e_Default enc = Some dp" "distinct (map fst (e_Overrides enc))" "rand_ok e" "lru_total e"
  obtains v w' mode where "createVault e enc r reporter w = (Inr v, w')" "vault_start e r (v, w')" "v_registry v = r"
    "NamespaceBinding_Mode (e_NamespaceBinding enc) = Inr mode" "v_binding v = mode"
    "v_defaultConfig v = Some (policy_config dp)" "v_cache v = None \<longleftrightarrow> DEKCacheSize (Some enc) = 0"
    "map (\<lambda>(ns, sd). (ns, sd_dur sd, sd_before sd)) (v_keys v)
       = map (\<lambda>(ns, p). (ns, kp_Duration p, kp_RenewBefore p)) (sorted_overrides enc)"
proof -
  obtain mode where m: "NamespaceBinding_Mode (e_NamespaceBinding enc) = Inr mode"
    using assms(1,2) by (auto simp: encryption_ok_def binding_ok_def split: if_splits)
  note vo = fold_vault_options [OF assms(1-3) m, of reporter e]
  let ?cfgs = "map (\<lambda>(ns, p). (ns, policy_config p)) (sorted_overrides enc)"
  have "map fst ?cfgs = map fst (sorted_overrides enc)" unfolding map_map by (rule map_cong) auto
  then have "distinct (map fst [] @ map fst ?cfgs)" using assms(3) by simp
  from initKeys_total [OF assms(4) this, of "time_Now e" w] obtain keys w' where
    k: "initKeys e (time_Now e) ?cfgs [] w = (Inr keys, w')"
      "map (\<lambda>(ns, sd). (ns, sd_dur sd, sd_before sd)) keys = map (\<lambda>(ns, c). (ns, Duration c, RenewBefore c)) ?cfgs" by auto
  obtain cache where c: "(if DEKCacheSize (Some enc) > 0
        then (case lru_New e (DEKCacheSize (Some enc)) of
                Inl err \<Rightarrow> Inl (WrapError (''failed to create DEK cache: '' @ Error err) [err]) | Inr c \<Rightarrow> Inr (Some c))
        else Inr None) = Inr cache" "cache = None \<longleftrightarrow> DEKCacheSize (Some enc) \<le> 0"
    using assms(5) by (cases "DEKCacheSize (Some enc) > 0") (fastforce simp: lru_total_def)+
  have new: "NewVault e (Some r) (vault_options enc mode reporter) w = (Inr \<lparr>v_keys = keys, v_registry = r, v_cache = cache,
      v_defaultConfig = Some (policy_config dp), v_nowFn = time_Now e, v_observer = reporter, v_binding = mode\<rparr>, w')"
    using k(1) c(1) by (auto simp: NewVault_def vo configured_vault_def Let_def split: if_splits sum.splits)
  show ?thesis
  proof (rule that [OF _ _ _ m])
    show "createVault e enc r reporter w = (Inr \<lparr>v_keys = keys, v_registry = r, v_cache = cache,
      v_defaultConfig = Some (policy_config dp), v_nowFn = time_Now e, v_observer = reporter, v_binding = mode\<rparr>, w')"
      by (simp add: createVault_def m new)
  qed (use c(2) k(2) assms(1) vault_start.intros [OF vault_options_known new]
      in \<open>auto simp: encryption_ok_def policy_config_def case_prod_beta\<close>)
qed

text \<open>
  C28. The vault of a validated encryption section: it is built exactly when every key URI opens and no
  two keys share an ID. It is then a vault as \<open>NewVault\<close> starts it, over the registry of the configured keys,
  with the configured binding mode, without a cache only when its size is set to zero, with the default policy's
  lifetime as the default, and a slot for each override with the lifetime of that override.
\<close>

theorem provideVault_ok:
  assumes "encryption_ok enc" "e_Default enc = Some dp" "distinct (map fst (e_Overrides enc))" "rand_ok e" "lru_total e"
  shows "if list_all (policy_opens K) (dp # map snd (sorted_overrides enc)) \<and> distinct (map ID (configured_keys K dp (sorted_overrides enc)))
    then \<exists>v kw' w'. provideVault K e enc reporter kw w = (Inr (Some v), kw', w')
      \<and> vault_start e (registry_of K dp (sorted_overrides enc)) (v, w')
      \<and> NamespaceBinding_Mode (e_NamespaceBinding enc) = Inr (v_binding v)
      \<and> v_defaultConfig v = Some (policy_config dp) \<and> (v_cache v = None \<longleftrightarrow> DEKCacheSize (Some enc) = 0)
      \<and> map (\<lambda>(ns, sd). (ns, sd_dur sd, sd_before sd)) (v_keys v)
          = map (\<lambda>(ns, p). (ns, kp_Duration p, kp_RenewBefore p)) (sorted_overrides enc)
    else \<exists>err kw'. provideVault K e enc reporter kw w = (Inl err, kw', w)"
proof -
  obtain res kw' where r: "createKEKRegistry K enc kw = (res, kw')" by (cases "createKEKRegistry K enc kw")
  note iff = createKEKRegistry_iff [OF assms(3), of K kw, unfolded r fst_conv assms(2)]
  let ?r = "registry_of K dp (sorted_overrides enc)"
  show ?thesis
  proof (cases "list_all (policy_opens K) (dp # map snd (sorted_overrides enc)) \<and> distinct (map ID (configured_keys K dp (sorted_overrides enc)))")
    case True
    then have "res = Inr ?r" using iff [of ?r] by simp
    moreover obtain v w' mode where v: "createVault e enc ?r reporter w = (Inr v, w')" "vault_start e ?r (v, w')" "v_registry v = ?r"
      "NamespaceBinding_Mode (e_NamespaceBinding enc) = Inr mode" "v_binding v = mode"
      "v_defaultConfig v = Some (policy_config dp)" "v_cache v = None \<longleftrightarrow> DEKCacheSize (Some enc) = 0"
      "map (\<lambda>(ns, sd). (ns, sd_dur sd, sd_before sd)) (v_keys v)
         = map (\<lambda>(ns, p). (ns, kp_Duration p, kp_RenewBefore p)) (sorted_overrides enc)"
      using createVault_builds [OF assms(1-5)] .
    ultimately have "provideVault K e enc reporter kw w = (Inr (Some v), kw', w')"
      using r assms(2) by (simp add: provideVault_def)
    with v show ?thesis unfolding if_P [OF True] by (intro exI [of _ v] exI [of _ kw'] exI [of _ w']) simp
  next
    case False
    obtain err where "res = Inl err" using iff False by (cases res) auto
    with r assms(2) have "provideVault K e enc reporter kw w = (Inl err, kw', w)" by (simp add: provideVault_def)
    then show ?thesis unfolding if_not_P [OF False] by blast
  qed
qed

lemma ex_encryption_ok: "encryption_ok (ex_encryption ''gcpkms://c'')" "lru_total Vault_Theorems.ex_env"
proof -
  have "policy_ok ex_default" "policy_ok (ex_policy ''gcpkms://c'' [])" "NamespaceBinding_Mode NamespaceBindingStrict = Inr BindingStrict"
    by code_simp+
  then show "encryption_ok (ex_encryption ''gcpkms://c'')"
    by (auto simp: encryption_ok_def ex_encryption_def DEKCacheSize_def binding_ok_def NamespaceBindingStrict_def split: if_splits)
  show "lru_total Vault_Theorems.ex_env" by (simp add: lru_total_def Vault_Theorems.ex_env_def)
qed

theorem provideVault_ok_witness:
  "\<exists>v kw' w'. provideVault ex_key_env Vault_Theorems.ex_env (ex_encryption ''gcpkms://c'') None \<lparr>kw_open = [], kw_next = 0, kw_log = []\<rparr> ex_world
       = (Inr (Some v), kw', w') \<and> v_defaultConfig v = Some (policy_config ex_default)"
  using provideVault_ok [OF ex_encryption_ok(1) ex_overrides(2,3) Vault_Theorems.ex_env_ok(3) ex_encryption_ok(2),
      of ex_key_env None "\<lparr>kw_open = [], kw_next = 0, kw_log = []\<rparr>" ex_world] ex_opens ex_overrides(1) by auto

text \<open>\<open>createKEKs\<close> closes what it opened when a key of the policy fails to open.\<close>

lemma keyPolicyRegistryOpts_frame:
  assumes "keyPolicyRegistryOpts K p ns asDefault w = (res, w')" "kw_ok w"
  shows "kw_ok w' \<and> (\<exists>hs. kw_open w' = kw_open w @ hs \<and> length hs = (case res of Inl _ \<Rightarrow> 0 | Inr _ \<Rightarrow> length (policy_uris p)))"
proof -
  obtain ks w1 where c: "createKEKs K p w = (ks, w1)" by (cases "createKEKs K p w")
  note fr = createKEKs_loop_frame [OF c [unfolded createKEKs_def] assms(2), of "kw_open w"]
  show ?thesis
  proof (cases ks)
    case (Inl err)
    then show ?thesis using assms(1) c fr by (auto simp: keyPolicyRegistryOpts_def)
  next
    case (Inr keys)
    then have "kw_ok w1" "kw_open w1 = kw_open w @ map fst keys" "length keys = length (policy_uris p)"
      using fr by (auto simp: policy_uris_def dest: list_all2_lengthD)
    then show ?thesis using assms(1) c Inr by (auto simp: keyPolicyRegistryOpts_def)
  qed
qed

lemma override_opts_frame:
  assumes "override_opts K ov nss opts w = (res, w')" "kw_ok w"
  shows "\<exists>hs. kw_open w' = kw_open w @ hs"
  using assms
proof (induction nss arbitrary: opts w)
  case Nil
  then show ?case by simp
next
  case (Cons ns nss)
  show ?case
  proof (cases "map_of ov ns")
    case None
    then show ?thesis using Cons by simp
  next
    case (Some p)
    obtain r1 w1 where k: "keyPolicyRegistryOpts K p ns False w = (r1, w1)" by (cases "keyPolicyRegistryOpts K p ns False w")
    note fr = keyPolicyRegistryOpts_frame [OF k Cons.prems(2)]
    show ?thesis
    proof (cases r1)
      case (Inl err)
      then show ?thesis using Some k fr Cons.prems(1) by auto
    next
      case (Inr o1)
      then have "override_opts K ov nss (opts @ o1) w1 = (res, w')" using Some k Cons.prems(1) by simp
      from Cons.IH [OF this] fr show ?thesis by auto
    qed
  qed
qed

text \<open>
  When the default policy's keys opened and building the registry failed after that, on an override's key or on a
  key ID that two keys share, the keys opened until then stay open: nothing holds them, and no hook closes them.
\<close>

theorem createKEKRegistry_leaks:
  assumes "kw_ok w" "e_Default e = Some dp" "policy_opens K dp" "createKEKRegistry K e w = (Inl err, w')"
  shows "\<exists>hs. kw_open w' = kw_open w @ hs \<and> length (policy_uris dp) \<le> length hs"
proof -
  obtain r1 w1 where d: "keyPolicyRegistryOpts K dp defaultNamespace True w = (r1, w1)" by (cases "keyPolicyRegistryOpts K dp defaultNamespace True w")
  obtain opts where r1: "r1 = Inr opts" using keyPolicyRegistryOpts_iff [of K dp defaultNamespace True w] d assms(3) by simp
  obtain hs1 where h1: "kw_ok w1" "kw_open w1 = kw_open w @ hs1" "length hs1 = length (policy_uris dp)"
    using keyPolicyRegistryOpts_frame [OF d assms(1)] r1 by auto
  obtain r2 w2 where o2: "override_opts K (e_Overrides e) (sort (map fst (e_Overrides e))) opts w1 = (r2, w2)" by fastforce
  have "w2 = w'" using assms(2,4) d r1 o2 by (auto simp: createKEKRegistry_def split: sum.splits)
  with override_opts_frame [OF o2 h1(1)] h1 show ?thesis by auto
qed

theorem createKEKRegistry_leaks_witness:
  "\<exists>err w' hs. createKEKRegistry ex_key_env (ex_encryption ''gcpkms://bad'') \<lparr>kw_open = [], kw_next = 0, kw_log = []\<rparr> = (Inl err, w')
     \<and> kw_open w' = hs \<and> 2 \<le> length hs"
proof -
  let ?w = "\<lparr>kw_open = [], kw_next = 0, kw_log = []\<rparr>"
  obtain res w' where r: "createKEKRegistry ex_key_env (ex_encryption ''gcpkms://bad'') ?w = (res, w')" by fastforce
  have "\<not> isl res \<Longrightarrow> False"
    using createKEKRegistry_uses [of ex_key_env "ex_encryption ''gcpkms://bad''" ?w] r ex_opens(3) ex_overrides(1) by (cases res) auto
  then obtain err where "res = Inl err" by (cases res) auto
  with createKEKRegistry_leaks [OF _ ex_overrides(2) ex_opens(1), of ?w "''gcpkms://bad''" err w'] r show ?thesis
    by (auto simp: kw_ok_def policy_uris_def ex_default_def ex_policy_def numeral_2_eq_2)
qed

end
