(* ===== verification/Ext_Kit.thy ===== *)
theory Ext_Kit
  imports Kms Auth
begin

text \<open>
  \<open>pkg/ext\<close> and \<open>pkg/api/ext/v1\<close>: the kit for extension servers, which wrap the proxy's data encryption keys and decide about its
  callers. The key wrapper seals keys with an AEAD, the seal wrapper frames what a key service sealed; the two
  services answer the proxy, behind the guard and the plaintext warning that \<open>Serve\<close> installs.

  The AEAD constructors of the standard library and of \<open>x/crypto\<close>, protobuf, the key lookup and the key service are
  parameters; so are gRPC's packages, as in \<open>Rpc\<close>. The random bytes a call reads are a function of its context.
\<close>

section \<open>pkg/validation/errors.go and key\_material.go\<close>

definition VError_Error :: "VError \<Rightarrow> string" where
  "VError_Error e = Subject e @ '': '' @ Field e @ '': '' @ VMessage e"

definition VErrors_Error :: "VErrors \<Rightarrow> string" where
  "VErrors_Error ves = (if ves = [] then [] else join_lines (map VError_Error ves))"

type_synonym CipherID = int

record KeyMaterial =
  km_EncryptedDek :: bytes
  km_Version :: string
  km_Namespace :: string
  km_Opaque :: bytes
  km_Nonce :: bytes
  km_Cipher :: CipherID

definition CIPHER_UNSPECIFIED :: CipherID where "CIPHER_UNSPECIFIED = 0"
definition CipherAES256GCM :: CipherID where "CipherAES256GCM = 1"
definition CipherChaCha20Poly1305 :: CipherID where "CipherChaCha20Poly1305 = 2"
definition CipherXChaCha20Poly1305 :: CipherID where "CipherXChaCha20Poly1305 = 3"

record AEAD =
  NonceSize :: nat
  aead_Seal :: "bytes \<Rightarrow> bytes \<Rightarrow> bytes \<Rightarrow> bytes"
  aead_Open :: "bytes \<Rightarrow> bytes \<Rightarrow> bytes \<Rightarrow> bytes result"

type_synonym CipherFunc = "bytes \<Rightarrow> AEAD result"

record ext_env =
  ext_aes :: "bytes \<Rightarrow> bytes result"
  ext_gcm :: CipherFunc
  ext_chacha :: CipherFunc
  ext_xchacha :: CipherFunc
  proto_Marshal :: "KeyMaterial \<Rightarrow> bytes result"
  proto_Unmarshal :: "bytes \<Rightarrow> KeyMaterial result"
  ext_rand :: "ctx \<Rightarrow> nat \<Rightarrow> bytes"
  ext_status :: status_api

definition nonempty_dek :: "bytes Check" where
  "nonempty_dek v = (if v = [] then Some (Plain ''must not be empty'') else None)"

definition KeyMaterial_Validate :: "KeyMaterial \<Rightarrow> goerror option" where
  "KeyMaterial_Validate km =
     (case Validate [] [FieldRule ''encrypted_dek'' (km_EncryptedDek km) [nonempty_dek]] of
        None \<Rightarrow> None
      | Some err \<Rightarrow> Some (ErrorString (VErrors_Error (toErrors [] err))))"

definition UnmarshalKeyMaterial :: "ext_env \<Rightarrow> bytes \<Rightarrow> KeyMaterial result" where
  "UnmarshalKeyMaterial E raw =
     (case proto_Unmarshal E raw of
        Inl err \<Rightarrow> Inl (WrapError (''failed to unmarshal key material: '' @ Error err) [err])
      | Inr km \<Rightarrow> Inr km)"

definition KeyMaterial_Marshal :: "ext_env \<Rightarrow> KeyMaterial \<Rightarrow> bytes result" where
  "KeyMaterial_Marshal E km =
     (case KeyMaterial_Validate km of
        Some err \<Rightarrow> Inl err
      | None \<Rightarrow>
          (case proto_Marshal E km of
             Inl err \<Rightarrow> Inl (WrapError (''failed to marshal key material: '' @ Error err) [err])
           | Inr packed \<Rightarrow> Inr packed))"

section \<open>binding.go\<close>

text \<open>\<open>binary.BigEndian.AppendUint16\<close> and \<open>AppendUint32\<close> append two and four bytes.\<close>

fun be :: "nat \<Rightarrow> nat \<Rightarrow> bytes" where
  "be 0 n = []"
| "be (Suc k) n = be k (n div 256) @ [char_of (n mod 256)]"

definition bindingContext :: "CipherID \<Rightarrow> string \<Rightarrow> string \<Rightarrow> bytes \<Rightarrow> bytes result" where
  "bindingContext c namespace version opaque =
     (if length version > 65535 then Inl (ErrorString (''key version is too long: '' @ itoa (length version) @ '' bytes''))
      else if length namespace > 65535
      then Inl (StatusError InvalidArgument (''namespace is too long: '' @ itoa (length namespace) @ '' bytes''))
      else if length opaque > 4294967295 then Inl (ErrorString (''opaque is too long: '' @ itoa (length opaque) @ '' bytes''))
      else Inr (be 4 (nat (c mod 2 ^ 32)) @ be 2 (length version) @ version @ be 2 (length namespace) @ namespace
                @ be 4 (length opaque) @ opaque))"

definition BindingContext :: "string \<Rightarrow> string \<Rightarrow> bytes \<Rightarrow> bytes result" where
  "BindingContext namespace version opaque = bindingContext CIPHER_UNSPECIFIED namespace version opaque"

definition additionalData :: "KeyMaterial \<Rightarrow> bytes result" where
  "additionalData km = bindingContext (km_Cipher km) (km_Namespace km) (km_Version km) (km_Opaque km)"

section \<open>cipher.go\<close>

definition ext_keyBytes :: nat where "ext_keyBytes = 32"
definition minCustomCipherID :: int where "minCustomCipherID = 128"

text \<open>\<open>String\<close> of the generated enumeration; a number without a name prints as itself.\<close>

definition Cipher_String :: "CipherID \<Rightarrow> string" where
  "Cipher_String c =
     (if c = CIPHER_UNSPECIFIED then ''CIPHER_UNSPECIFIED''
      else if c = CipherAES256GCM then ''CIPHER_AES_256_GCM''
      else if c = CipherChaCha20Poly1305 then ''CIPHER_CHACHA20_POLY1305''
      else if c = CipherXChaCha20Poly1305 then ''CIPHER_XCHACHA20_POLY1305''
      else (if c < 0 then ''-'' @ itoa (nat (- c)) else itoa (nat c)))"

text \<open>\<open>None\<close> is the panic.\<close>

definition MustCipherID :: "int \<Rightarrow> CipherID option" where
  "MustCipherID i = (if i < minCustomCipherID \<or> i > 2147483647 then None else Some i)"

definition checkKeySize :: "string \<Rightarrow> bytes \<Rightarrow> goerror option" where
  "checkKeySize name key =
     (if length key \<noteq> ext_keyBytes
      then Some (ErrorString (name @ '' needs a '' @ itoa ext_keyBytes @ ''-byte key, got '' @ itoa (length key))) else None)"

definition NewAES256GCM :: "ext_env \<Rightarrow> CipherFunc" where
  "NewAES256GCM E key =
     (case checkKeySize ''AES-256-GCM'' key of
        Some err \<Rightarrow> Inl err
      | None \<Rightarrow>
          (case ext_aes E key of
             Inl err \<Rightarrow> Inl (WrapError (''failed to create an AES cipher: '' @ Error err) [err])
           | Inr block \<Rightarrow>
               (case ext_gcm E block of
                  Inl err \<Rightarrow> Inl (WrapError (''failed to create AES-256-GCM: '' @ Error err) [err])
                | Inr aead \<Rightarrow> Inr aead)))"

definition NewChaCha20Poly1305 :: "ext_env \<Rightarrow> CipherFunc" where
  "NewChaCha20Poly1305 E key =
     (case checkKeySize ''ChaCha20-Poly1305'' key of
        Some err \<Rightarrow> Inl err
      | None \<Rightarrow>
          (case ext_chacha E key of
             Inl err \<Rightarrow> Inl (WrapError (''failed to create ChaCha20-Poly1305: '' @ Error err) [err])
           | Inr aead \<Rightarrow> Inr aead))"

definition NewXChaCha20Poly1305 :: "ext_env \<Rightarrow> CipherFunc" where
  "NewXChaCha20Poly1305 E key =
     (case checkKeySize ''XChaCha20-Poly1305'' key of
        Some err \<Rightarrow> Inl err
      | None \<Rightarrow>
          (case ext_xchacha E key of
             Inl err \<Rightarrow> Inl (WrapError (''failed to create XChaCha20-Poly1305: '' @ Error err) [err])
           | Inr aead \<Rightarrow> Inr aead))"

definition defaultCiphers :: "ext_env \<Rightarrow> (CipherID \<times> CipherFunc) list" where
  "defaultCiphers E =
     [(CipherAES256GCM, NewAES256GCM E), (CipherChaCha20Poly1305, NewChaCha20Poly1305 E), (CipherXChaCha20Poly1305, NewXChaCha20Poly1305 E)]"

section \<open>keywrap.go\<close>

record KeyRequest =
  kr_Namespace :: string
  kr_Version :: string

record Key =
  key_Bytes :: bytes
  key_Version :: string

type_synonym KeyLookup = "ctx \<Rightarrow> KeyRequest \<Rightarrow> Key result"

text \<open>The interface \<open>KMS\<close>.\<close>

record KMS =
  Wrap :: "ctx \<Rightarrow> string \<Rightarrow> bytes \<Rightarrow> bytes result"
  Unwrap :: "ctx \<Rightarrow> bytes \<Rightarrow> bytes result"

record keyWrapper =
  kw_lookup :: KeyLookup
  kw_cipher :: CipherID
  kw_ciphers :: "(CipherID \<times> CipherFunc) list"

type_synonym KeyWrapperOption = "keyWrapper \<Rightarrow> keyWrapper result"

definition WithCipher :: "CipherID \<Rightarrow> KeyWrapperOption" where
  "WithCipher i w = Inr (w\<lparr>kw_cipher := i\<rparr>)"

definition WithCipherFunc :: "CipherID \<Rightarrow> CipherFunc option \<Rightarrow> KeyWrapperOption" where
  "WithCipherFunc i fn w =
     (case fn of
        None \<Rightarrow> Inl (ErrorString (''cipher func for '' @ Cipher_String i @ '' must not be nil''))
      | Some f \<Rightarrow>
          (if i \<le> 0 then Inl (ErrorString (''cipher id must be positive, got '' @ Cipher_String i))
           else Inr (w\<lparr>kw_ciphers := AList.update i f (kw_ciphers w)\<rparr>)))"

fun wrapper_opts :: "KeyWrapperOption list \<Rightarrow> keyWrapper \<Rightarrow> keyWrapper result" where
  "wrapper_opts [] w = Inr w"
| "wrapper_opts (opt # opts) w = (case opt w of Inl err \<Rightarrow> Inl err | Inr w \<Rightarrow> wrapper_opts opts w)"

definition NewKeyWrapper :: "ext_env \<Rightarrow> KeyLookup option \<Rightarrow> KeyWrapperOption list \<Rightarrow> keyWrapper result" where
  "NewKeyWrapper E lookup opts =
     (case lookup of
        None \<Rightarrow> Inl (ErrorString ''a key lookup is required'')
      | Some l \<Rightarrow>
          (case wrapper_opts opts \<lparr>kw_lookup = l, kw_cipher = CipherAES256GCM, kw_ciphers = defaultCiphers E\<rparr> of
             Inl err \<Rightarrow> Inl err
           | Inr w \<Rightarrow>
               (if map_of (kw_ciphers w) (kw_cipher w) = None
                then Inl (ErrorString (''no cipher registered for: '' @ Cipher_String (kw_cipher w))) else Inr w)))"

definition wrapper_aead :: "keyWrapper \<Rightarrow> CipherID \<Rightarrow> bytes \<Rightarrow> AEAD result" where
  "wrapper_aead w i key =
     (case map_of (kw_ciphers w) i of
        None \<Rightarrow> Inl (StatusError InvalidArgument (''no cipher registered for: '' @ Cipher_String i))
      | Some newAEAD \<Rightarrow> newAEAD key)"

definition keyWrapper_Wrap :: "ext_env \<Rightarrow> keyWrapper \<Rightarrow> ctx \<Rightarrow> string \<Rightarrow> bytes \<Rightarrow> bytes result" where
  "keyWrapper_Wrap E w c namespace dek =
     (case kw_lookup w c \<lparr>kr_Namespace = namespace, kr_Version = []\<rparr> of
        Inl err \<Rightarrow> Inl (WrapError (''failed to look up a sealing key: '' @ Error err) [err])
      | Inr key \<Rightarrow>
          (case wrapper_aead w (kw_cipher w) (key_Bytes key) of
             Inl err \<Rightarrow> Inl err
           | Inr aead \<Rightarrow>
               (let km = \<lparr>km_EncryptedDek = [], km_Version = key_Version key, km_Namespace = namespace, km_Opaque = [],
                          km_Nonce = ext_rand E c (NonceSize aead), km_Cipher = kw_cipher w\<rparr>
                in case additionalData km of
                     Inl err \<Rightarrow> Inl err
                   | Inr ad \<Rightarrow>
                       (case KeyMaterial_Marshal E (km\<lparr>km_EncryptedDek := aead_Seal aead (km_Nonce km) dek ad\<rparr>) of
                          Inl err \<Rightarrow> Inl (WrapError (''failed to pack key material: '' @ Error err) [err])
                        | Inr packed \<Rightarrow> Inr packed))))"

definition keyWrapper_Unwrap :: "ext_env \<Rightarrow> keyWrapper \<Rightarrow> ctx \<Rightarrow> bytes \<Rightarrow> bytes result" where
  "keyWrapper_Unwrap E w c ciphertext =
     (case UnmarshalKeyMaterial E ciphertext of
        Inl err \<Rightarrow> Inl err
      | Inr km \<Rightarrow>
          (case KeyMaterial_Validate km of
             Some err \<Rightarrow> Inl (WrapError (''invalid key material: '' @ Error err) [err])
           | None \<Rightarrow>
               (if km_Cipher km = CIPHER_UNSPECIFIED then Inl (StatusError InvalidArgument ''key material names no cipher'')
                else case kw_lookup w c \<lparr>kr_Namespace = km_Namespace km, kr_Version = km_Version km\<rparr> of
                  Inl err \<Rightarrow> Inl (WrapError (''failed to look up an opening key: '' @ Error err) [err])
                | Inr key \<Rightarrow>
                    (case wrapper_aead w (km_Cipher km) (key_Bytes key) of
                       Inl err \<Rightarrow> Inl err
                     | Inr aead \<Rightarrow>
                         (if length (km_Nonce km) \<noteq> NonceSize aead
                          then Inl (StatusError InvalidArgument (''key material carries a '' @ itoa (length (km_Nonce km)) @ ''-byte nonce, want '' @ itoa (NonceSize aead)))
                          else case additionalData km of
                            Inl err \<Rightarrow> Inl err
                          | Inr ad \<Rightarrow>
                              (case aead_Open aead (km_Nonce km) (km_EncryptedDek km) ad of
                                 Inl _ \<Rightarrow> Inl (StatusError InvalidArgument ''failed to open key material'')
                               | Inr dek \<Rightarrow> Inr dek))))))"

definition keyWrapper_KMS :: "ext_env \<Rightarrow> keyWrapper \<Rightarrow> KMS" where
  "keyWrapper_KMS E w = \<lparr>Wrap = keyWrapper_Wrap E w, Unwrap = keyWrapper_Unwrap E w\<rparr>"

section \<open>sealwrap.go\<close>

record SealRequest =
  sr_Namespace :: string
  sr_DEK :: bytes

record SealedKey =
  sk_Ciphertext :: bytes
  sk_Version :: string
  sk_Opaque :: bytes

record OpenRequest =
  or_Namespace :: string
  or_Version :: string
  or_Opaque :: bytes
  or_Ciphertext :: bytes

record KeySealer =
  sealer_Seal :: "ctx \<Rightarrow> SealRequest \<Rightarrow> SealedKey result"
  sealer_Open :: "ctx \<Rightarrow> OpenRequest \<Rightarrow> bytes result"

definition NewSealWrapper :: "KeySealer option \<Rightarrow> KeySealer result" where
  "NewSealWrapper s = (case s of None \<Rightarrow> Inl (ErrorString ''a key sealer is required'') | Some s \<Rightarrow> Inr s)"

definition sealWrapper_Wrap :: "ext_env \<Rightarrow> KeySealer \<Rightarrow> ctx \<Rightarrow> string \<Rightarrow> bytes \<Rightarrow> bytes result" where
  "sealWrapper_Wrap E s c namespace dek =
     (case sealer_Seal s c \<lparr>sr_Namespace = namespace, sr_DEK = dek\<rparr> of
        Inl err \<Rightarrow> Inl (WrapError (''failed to seal the DEK: '' @ Error err) [err])
      | Inr sealed \<Rightarrow>
          (if sk_Ciphertext sealed = [] then Inl (StatusError Internal ''the key service sealed the DEK into no ciphertext'')
           else case BindingContext namespace (sk_Version sealed) (sk_Opaque sealed) of
             Inl err \<Rightarrow> Inl err
           | Inr _ \<Rightarrow>
               (case KeyMaterial_Marshal E \<lparr>km_EncryptedDek = sk_Ciphertext sealed, km_Version = sk_Version sealed, km_Namespace = namespace,
                       km_Opaque = sk_Opaque sealed, km_Nonce = [], km_Cipher = CIPHER_UNSPECIFIED\<rparr> of
                  Inl err \<Rightarrow> Inl (WrapError (''failed to pack key material: '' @ Error err) [err])
                | Inr packed \<Rightarrow> Inr packed)))"

definition sealWrapper_Unwrap :: "ext_env \<Rightarrow> KeySealer \<Rightarrow> ctx \<Rightarrow> bytes \<Rightarrow> bytes result" where
  "sealWrapper_Unwrap E s c ciphertext =
     (case UnmarshalKeyMaterial E ciphertext of
        Inl err \<Rightarrow> Inl err
      | Inr km \<Rightarrow>
          (case KeyMaterial_Validate km of
             Some err \<Rightarrow> Inl (WrapError (''invalid key material: '' @ Error err) [err])
           | None \<Rightarrow>
               (if km_Cipher km \<noteq> CIPHER_UNSPECIFIED
                then Inl (StatusError InvalidArgument (''key material names cipher '' @ Cipher_String (km_Cipher km) @ '', so this wrapper did not seal it''))
                else if km_Nonce km \<noteq> [] then Inl (StatusError InvalidArgument ''key material carries a nonce, which this wrapper never writes'')
                else case sealer_Open s c \<lparr>or_Namespace = km_Namespace km, or_Version = km_Version km, or_Opaque = km_Opaque km, or_Ciphertext = km_EncryptedDek km\<rparr> of
                  Inl err \<Rightarrow> Inl (WrapError (''failed to open key material: '' @ Error err) [err])
                | Inr dek \<Rightarrow>
                    (if dek = [] then Inl (StatusError Internal ''the key service opened the material into no DEK'') else Inr dek))))"

definition sealWrapper_KMS :: "ext_env \<Rightarrow> KeySealer \<Rightarrow> KMS" where
  "sealWrapper_KMS E s = \<lparr>Wrap = sealWrapper_Wrap E s, Unwrap = sealWrapper_Unwrap E s\<rparr>"

section \<open>kms.go\<close>

definition implError :: "status_api \<Rightarrow> goerror \<Rightarrow> code \<Rightarrow> string \<Rightarrow> goerror" where
  "implError st err c msg =
     (if FromError st err \<and> status_Code st err \<noteq> OK then err else StatusError c (msg @ '': '' @ Error err))"

text \<open>The service with no implementation answers as the generated one does.\<close>

definition kmsService_Encrypt :: "ext_env \<Rightarrow> KMS option \<Rightarrow> ctx \<Rightarrow> string \<Rightarrow> bytes \<Rightarrow> bytes result" where
  "kmsService_Encrypt E impl c namespace plaintext =
     (case impl of
        None \<Rightarrow> Inl (StatusError Unimplemented ''method Encrypt not implemented'')
      | Some k \<Rightarrow>
          (if namespace = [] then Inl (StatusError InvalidArgument ''namespace is required'')
           else case Wrap k c namespace plaintext of
             Inl err \<Rightarrow> Inl (implError (ext_status E) err Internal ''failed to wrap key material'')
           | Inr ct \<Rightarrow> Inr ct))"

definition kmsService_Decrypt :: "ext_env \<Rightarrow> KMS option \<Rightarrow> ctx \<Rightarrow> bytes \<Rightarrow> bytes result" where
  "kmsService_Decrypt E impl c ciphertext =
     (case impl of
        None \<Rightarrow> Inl (StatusError Unimplemented ''method Decrypt not implemented'')
      | Some k \<Rightarrow>
          (case Unwrap k c ciphertext of
             Inl err \<Rightarrow> Inl (implError (ext_status E) err InvalidArgument ''failed to unwrap key material'')
           | Inr pt \<Rightarrow> Inr pt))"

section \<open>auth.go\<close>

definition bearerScheme :: string where "bearerScheme = ''Bearer ''"
definition healthPrefix :: string where "healthPrefix = ''/grpc.health.v1.Health/''"

definition healthCheckMethods :: "string list" where
  "healthCheckMethods = [''/grpc.health.v1.Health/Check'', ''/grpc.health.v1.Health/Watch'', ''/temporal.api.workflowservice.v1.WorkflowService/GetSystemInfo'']"

definition IsHealthCheckMethod :: "string \<Rightarrow> bool" where
  "IsHealthCheckMethod full = (full \<in> set healthCheckMethods)"

text \<open>Of a response, the decision and the reason.\<close>

type_synonym AuthResponse = "decision \<times> string"

definition Allow :: AuthResponse where "Allow = (DecisionAllow, [])"

definition Deny :: "string \<Rightarrow> AuthResponse" where
  "Deny reason = (DecisionDeny, reason)"

fun BearerToken :: "(string \<times> string list) list \<Rightarrow> string \<Rightarrow> string result" where
  "BearerToken [] header = Inl (StatusError Unauthenticated (''no credential presented on '' @ ToLower header))"
| "BearerToken ((h, vals) # creds) header =
     (let hdr = ToLower header
      in if \<not> EqualFold h hdr then BearerToken creds header
         else case vals of
           [v] \<Rightarrow>
             (if length v < length bearerScheme \<or> \<not> EqualFold (take (length bearerScheme) v) bearerScheme
              then Inl (StatusError Unauthenticated (hdr @ '' is not a Bearer credential''))
              else let tok = drop (length bearerScheme) v
                   in if tok = [] then Inl (StatusError Unauthenticated (hdr @ '' carries no token'')) else Inr tok)
         | _ \<Rightarrow> Inl (StatusError Unauthenticated (hdr @ '' carries '' @ itoa (length vals) @ '' values, want exactly one'')))"

text \<open>An implementation may return neither a response nor an error.\<close>

type_synonym 'g Auth = "'g \<Rightarrow> wireTarget \<Rightarrow> (string \<times> string list) list \<Rightarrow> AuthResponse option result"

definition authService_Auth :: "'g Auth option \<Rightarrow> 'g auth_client" where
  "authService_Auth impl ctx target creds =
     (case impl of
        None \<Rightarrow> Inl (StatusError Unimplemented ''method Auth not implemented'')
      | Some a \<Rightarrow>
          (case a ctx target creds of
             Inl err \<Rightarrow> Inl err
           | Inr None \<Rightarrow> Inl (StatusError Internal ''auth: implementation returned no response and no error'')
           | Inr (Some resp) \<Rightarrow> Inr resp))"

text \<open>A unary handler, and an interceptor, which is given the full method of the call.\<close>

type_synonym ('g, 'q, 'p) handler = "'g goctx \<Rightarrow> 'q \<Rightarrow> 'p result"
type_synonym ('g, 'q, 'p) interceptor = "string \<Rightarrow> ('g, 'q, 'p) handler \<Rightarrow> ('g, 'q, 'p) handler"

definition unaryGuard :: "'g grpc_api \<Rightarrow> string \<Rightarrow> (string \<Rightarrow> bool) \<Rightarrow> ('g, 'q, 'p) interceptor" where
  "unaryGuard api hdr check fullMethod handler ctx req =
     (if HasPrefix fullMethod healthPrefix then handler ctx req
      else case FromIncomingContext api (grpc_part ctx) of
        None \<Rightarrow> Inl (StatusError Unauthenticated ''missing metadata'')
      | Some md \<Rightarrow>
          (case MD_Get api md hdr of
             [got] \<Rightarrow> (if \<not> check got then Inl (StatusError Unauthenticated ''invalid credentials'') else handler ctx req)
           | _ \<Rightarrow> Inl (StatusError Unauthenticated ''missing credentials'')))"

section \<open>plaintext.go\<close>

text \<open>What a peer's connection says about its security: no information, a level, or information without a level.\<close>

datatype SecurityLevel = NoSecurity | IntegrityOnly | PrivacyAndIntegrity | InvalidSecurityLevel
datatype AuthInfo = NoAuthInfo | CommonAuthInfo SecurityLevel | OtherAuthInfo

definition isPlaintext :: "AuthInfo option \<Rightarrow> bool" where
  "isPlaintext peer =
     (case peer of
        None \<Rightarrow> False
      | Some NoAuthInfo \<Rightarrow> True
      | Some (CommonAuthInfo l) \<Rightarrow> l = NoSecurity
      | Some OtherAuthInfo \<Rightarrow> False)"

definition plaintextMessage :: string where
  "plaintextMessage = ''Serving in plaintext. Supply credentials via WithServerOption for production use.''"

text \<open>The closure \<open>warn\<close> over the calls that arrive, by their peers: what is logged, once.\<close>

fun plaintextWarning :: "bool \<Rightarrow> AuthInfo option list \<Rightarrow> string list" where
  "plaintextWarning warned [] = []"
| "plaintextWarning warned (p # ps) =
     (if isPlaintext p \<and> \<not> warned then plaintextMessage # plaintextWarning True ps else plaintextWarning warned ps)"

section \<open>server.go\<close>

text \<open>A gRPC server option is an interceptor of unary calls in the chain, or another setting.\<close>

datatype ('g, 'q, 'p) ServerOption = ChainUnaryInterceptor "('g, 'q, 'p) interceptor" | OtherServerOption string

record ('g, 'q, 'p) options =
  o_authHeader :: string
  o_authCheck :: "(string \<Rightarrow> bool) option"
  o_hostPort :: string
  o_listener :: "string option"
  o_auth :: "'g Auth option"
  o_kms :: "KMS option"
  o_shutdownTimeout :: int
  o_serverOptions :: "('g, 'q, 'p) ServerOption list"

definition defaultServeOptions :: "('g, 'q, 'p) options" where
  "defaultServeOptions =
     \<lparr>o_authHeader = [], o_authCheck = None, o_hostPort = '':8900'', o_listener = None, o_auth = None, o_kms = None,
      o_shutdownTimeout = 5000000000,
      o_serverOptions = [OtherServerOption ''insecure credentials'', OtherServerOption ''128 concurrent streams'',
        OtherServerOption ''1 MiB receive limit'', OtherServerOption ''keepalive enforcement'', OtherServerOption ''keepalive parameters'']\<rparr>"

definition WithAddr :: "string \<Rightarrow> ('g, 'q, 'p) options \<Rightarrow> ('g, 'q, 'p) options" where
  "WithAddr hostPort sv = sv\<lparr>o_hostPort := hostPort\<rparr>"

definition WithAuth :: "'g Auth option \<Rightarrow> ('g, 'q, 'p) options \<Rightarrow> ('g, 'q, 'p) options" where
  "WithAuth a sv = sv\<lparr>o_auth := a\<rparr>"

definition WithListener :: "string option \<Rightarrow> ('g, 'q, 'p) options \<Rightarrow> ('g, 'q, 'p) options" where
  "WithListener lis sv = sv\<lparr>o_listener := lis\<rparr>"

definition WithKMS :: "KMS option \<Rightarrow> ('g, 'q, 'p) options \<Rightarrow> ('g, 'q, 'p) options" where
  "WithKMS k sv = sv\<lparr>o_kms := k\<rparr>"

definition WithServerAuth :: "string \<Rightarrow> (string \<Rightarrow> bool) option \<Rightarrow> ('g, 'q, 'p) options \<Rightarrow> ('g, 'q, 'p) options" where
  "WithServerAuth header check sv = sv\<lparr>o_authHeader := header, o_authCheck := check\<rparr>"

definition WithServerOption :: "('g, 'q, 'p) ServerOption list \<Rightarrow> ('g, 'q, 'p) options \<Rightarrow> ('g, 'q, 'p) options" where
  "WithServerOption opts sv = sv\<lparr>o_serverOptions := o_serverOptions sv @ opts\<rparr>"

definition WithShutdownTimeout :: "int \<Rightarrow> ('g, 'q, 'p) options \<Rightarrow> ('g, 'q, 'p) options" where
  "WithShutdownTimeout t sv = sv\<lparr>o_shutdownTimeout := max 50000000 t\<rparr>"

text \<open>What \<open>Serve\<close> runs: the options, with the guard before those given, and the plaintext warning, which passes every call on,
  before all.\<close>

definition warnUnary :: "('g, 'q, 'p) interceptor" where
  "warnUnary fullMethod handler = handler"

definition Serve :: "'g grpc_api \<Rightarrow> (('g, 'q, 'p) options \<Rightarrow> ('g, 'q, 'p) options) list \<Rightarrow> ('g, 'q, 'p) options result" where
  "Serve api opts =
     (let sOpts = fold (\<lambda>opt sv. opt sv) opts defaultServeOptions
      in case (case o_authCheck sOpts of
                 None \<Rightarrow> Inr sOpts
               | Some check \<Rightarrow>
                   (if o_authHeader sOpts = [] then Inl (ErrorString ''a header name is required to guard this server'')
                    else Inr (sOpts\<lparr>o_serverOptions := ChainUnaryInterceptor (unaryGuard api (o_authHeader sOpts) check) # o_serverOptions sOpts\<rparr>))) of
           Inl err \<Rightarrow> Inl err
         | Inr sOpts \<Rightarrow> Inr (sOpts\<lparr>o_serverOptions := ChainUnaryInterceptor warnUnary # o_serverOptions sOpts\<rparr>))"

text \<open>gRPC runs the chained interceptors in the order of the options, the first outermost.\<close>

fun chain :: "('g, 'q, 'p) ServerOption list \<Rightarrow> ('g, 'q, 'p) interceptor" where
  "chain [] fullMethod handler = handler"
| "chain (ChainUnaryInterceptor i # opts) fullMethod handler = i fullMethod (chain opts fullMethod handler)"
| "chain (OtherServerOption _ # opts) fullMethod handler = chain opts fullMethod handler"

text \<open>\<open>runServer\<close>, given how listening ends, what comes first (an error of the server or the end of the context) and
  whether the drain ends in time: what it returns and what it does, in order.\<close>

datatype served = ServeFailed goerror | ContextDone
datatype server_act = Listening string | LogStarting | LogStartupError goerror | LogShutdown | HealthShutdown | GracefulStop | LogStopped | LogForced | ForceStop

definition runServer :: "(string \<Rightarrow> goerror option) \<Rightarrow> ('g, 'q, 'p) options \<Rightarrow> served \<Rightarrow> bool \<Rightarrow> goerror option \<times> server_act list" where
  "runServer listen sv first drained =
     (case (case o_listener sv of Some lis \<Rightarrow> Inr lis | None \<Rightarrow> (case listen (o_hostPort sv) of Some err \<Rightarrow> Inl err | None \<Rightarrow> Inr (o_hostPort sv))) of
        Inl err \<Rightarrow> (Some err, [])
      | Inr lis \<Rightarrow>
          (case first of
             ServeFailed err \<Rightarrow> (Some err, [Listening lis, LogStarting, LogStartupError err])
           | ContextDone \<Rightarrow>
               (None, [Listening lis, LogStarting, LogShutdown, HealthShutdown, GracefulStop] @ (if drained then [LogStopped] else [LogForced, ForceStop]))))"

section \<open>The binding of the fields in the clear\<close>

lemma length_be [simp]: "length (be k n) = k"
  by (induction k arbitrary: n) simp_all

lemma be_inj: "be k m = be k n \<Longrightarrow> m < 256 ^ k \<Longrightarrow> n < 256 ^ k \<Longrightarrow> m = n"
proof (induction k arbitrary: m n)
  case 0
  then show ?case by simp
next
  case (Suc k)
  then have parts: "be k (m div 256) = be k (n div 256)" "(char_of (m mod 256) :: char) = char_of (n mod 256)" by simp_all
  have "m div 256 = n div 256" using Suc.prems(2,3) by (intro Suc.IH [OF parts(1)]) (simp_all add: less_mult_imp_div_less mult.commute)
  moreover have "m mod 256 = n mod 256"
    using arg_cong [OF parts(2), of "of_char :: char \<Rightarrow> nat"] by simp
  ultimately show ?case by (metis div_mult_mod_eq)
qed

text \<open>A field after its length is read back unambiguously.\<close>

lemma field_inj:
  assumes "be k (length x) @ x @ xs = be k (length y) @ y @ ys" "length x < 256 ^ k" "length y < 256 ^ k"
  shows "x = y \<and> xs = ys"
proof -
  have "be k (length x) = be k (length y)" "x @ xs = y @ ys" using assms(1) by simp_all
  with be_inj [OF this(1) assms(2,3)] show ?thesis by simp
qed

definition int32 :: "int \<Rightarrow> bool" where
  "int32 c \<longleftrightarrow> - (2 ^ 31) \<le> c \<and> c < 2 ^ 31"

lemma uint32_inj:
  assumes "int32 c" "int32 c'" "nat (c mod 2 ^ 32) = nat (c' mod 2 ^ 32)"
  shows "c = c'"
proof -
  have "c mod 2 ^ 32 = c' mod 2 ^ 32" using assms(3) by simp
  then obtain q where q: "c - c' = 2 ^ 32 * q" by (metis mod_eq_dvd_iff dvd_def)
  have "- (2 ^ 32) < c - c'" "c - c' < 2 ^ 32" using assms(1,2) by (simp_all add: int32_def)
  then have "q < 1" "- 1 < q" unfolding q by simp_all
  with q show ?thesis by simp
qed

lemma bindingContext_inj:
  assumes "int32 c" "int32 c'" "bindingContext c ns v p = Inr ad" "bindingContext c' ns' v' p' = Inr ad"
  shows "c = c' \<and> ns = ns' \<and> v = v' \<and> p = p'"
proof -
  have bounds: "length v < 256 ^ 2" "length v' < 256 ^ 2" "length ns < 256 ^ 2" "length ns' < 256 ^ 2" "length p < 256 ^ 4" "length p' < 256 ^ 4"
    using assms(3,4) by (auto simp: bindingContext_def split: if_splits)
  have eq: "be 4 (nat (c mod 2 ^ 32)) @ be 2 (length v) @ v @ be 2 (length ns) @ ns @ be 4 (length p) @ p @ []
      = be 4 (nat (c' mod 2 ^ 32)) @ be 2 (length v') @ v' @ be 2 (length ns') @ ns' @ be 4 (length p') @ p' @ []"
    using assms(3,4) by (auto simp: bindingContext_def split: if_splits)
  then have "be 4 (nat (c mod 2 ^ 32)) = be 4 (nat (c' mod 2 ^ 32))"
    and rest: "be 2 (length v) @ v @ be 2 (length ns) @ ns @ be 4 (length p) @ p @ []
      = be 2 (length v') @ v' @ be 2 (length ns') @ ns' @ be 4 (length p') @ p' @ []" by simp_all
  then have "nat (c mod 2 ^ 32) = nat (c' mod 2 ^ 32)" by (elim be_inj) (simp_all add: nat_less_iff)
  then have "c = c'" using assms(1,2) by (intro uint32_inj)
  moreover have 1: "v = v' \<and> be 2 (length ns) @ ns @ be 4 (length p) @ p @ [] = be 2 (length ns') @ ns' @ be 4 (length p') @ p' @ []"
    using field_inj [OF rest bounds(1,2)] .
  moreover have 2: "ns = ns' \<and> be 4 (length p) @ p @ [] = be 4 (length p') @ p' @ []"
    using field_inj [OF conjunct2 [OF 1] bounds(3,4)] .
  moreover have "p = p'" using field_inj [OF conjunct2 [OF 2] bounds(5,6)] by simp
  ultimately show ?thesis by simp
qed

section \<open>Key wrappers\<close>

text \<open>The options of this package; identifiers of ciphers are 32-bit integers.\<close>

inductive wrapper_option :: "KeyWrapperOption \<Rightarrow> bool" where
  "int32 i \<Longrightarrow> wrapper_option (WithCipher i)"
| "int32 i \<Longrightarrow> wrapper_option (WithCipherFunc i fn)"

definition wrapper_ok :: "keyWrapper \<Rightarrow> bool" where
  "wrapper_ok w \<longleftrightarrow> int32 (kw_cipher w) \<and> (\<forall>i f. map_of (kw_ciphers w) i = Some f \<longrightarrow> 0 < i)"

lemma wrapper_opts_ok:
  assumes "list_all wrapper_option opts" "wrapper_opts opts w = Inr w'" "wrapper_ok w"
  shows "wrapper_ok w' \<and> kw_lookup w' = kw_lookup w"
  using assms
proof (induction opts arbitrary: w)
  case Nil
  then show ?case by simp
next
  case (Cons opt opts)
  then obtain w1 where w1: "opt w = Inr w1" "wrapper_opts opts w1 = Inr w'" by (auto split: sum.splits)
  have "wrapper_option opt" using Cons.prems(1) by simp
  then have "wrapper_ok w1 \<and> kw_lookup w1 = kw_lookup w"
    using w1(1) Cons.prems(3)
    by cases (auto simp: WithCipher_def WithCipherFunc_def wrapper_ok_def split: option.splits if_splits)
  with Cons.IH [OF _ w1(2)] Cons.prems(1) show ?case by simp
qed

lemma NewKeyWrapper_ok:
  assumes "NewKeyWrapper E (Some l) opts = Inr w" "list_all wrapper_option opts"
  shows "int32 (kw_cipher w)" "0 < kw_cipher w" "kw_lookup w = l"
proof -
  let ?w0 = "\<lparr>kw_lookup = l, kw_cipher = CipherAES256GCM, kw_ciphers = defaultCiphers E\<rparr>"
  have w: "wrapper_opts opts ?w0 = Inr w" "map_of (kw_ciphers w) (kw_cipher w) \<noteq> None"
    using assms(1) by (auto simp: NewKeyWrapper_def split: sum.splits if_splits)
  have "wrapper_ok ?w0"
    by (auto simp: wrapper_ok_def int32_def defaultCiphers_def split: if_splits) (simp_all add: CipherAES256GCM_def CipherChaCha20Poly1305_def CipherXChaCha20Poly1305_def)
  from wrapper_opts_ok [OF assms(2) w(1) this] w(2) show "int32 (kw_cipher w)" "0 < kw_cipher w" "kw_lookup w = l"
    by (auto simp: wrapper_ok_def)
qed

text \<open>What is relied on. Protobuf reads back what it wrote, and a cipher on the wire is a 32-bit integer; a
  read of random bytes has the length asked for; the registered AEADs open what they sealed, and one
  given other additional data than another sealed with does not open.\<close>

definition material_doc :: "ext_env \<Rightarrow> bool" where
  "material_doc E \<longleftrightarrow> (\<forall>km b. proto_Marshal E km = Inr b \<longrightarrow> proto_Unmarshal E b = Inr km)
     \<and> (\<forall>b km. proto_Unmarshal E b = Inr km \<longrightarrow> int32 (km_Cipher km)) \<and> (\<forall>c n. length (ext_rand E c n) = n)"

definition built :: "keyWrapper \<Rightarrow> AEAD \<Rightarrow> bool" where
  "built w a \<longleftrightarrow> (\<exists>i f key. map_of (kw_ciphers w) i = Some f \<and> f key = Inr a)"

definition aeads_open :: "keyWrapper \<Rightarrow> bool" where
  "aeads_open w \<longleftrightarrow> (\<forall>a nonce pt ad. built w a \<longrightarrow> aead_Open a nonce (aead_Seal a nonce pt ad) ad = Inr pt)"

definition aeads_authentic :: "keyWrapper \<Rightarrow> keyWrapper \<Rightarrow> bool" where
  "aeads_authentic w w' \<longleftrightarrow> (\<forall>a b nonce nonce' pt ad ad'. built w a \<and> built w' b \<and> ad' \<noteq> ad \<longrightarrow>
     (\<exists>err. aead_Open b nonce' (aead_Seal a nonce pt ad) ad' = Inl err))"

lemma wrapper_aead_built: "wrapper_aead w i key = Inr a \<Longrightarrow> built w a"
  by (auto simp: wrapper_aead_def built_def split: option.splits)

lemma KeyMaterial_Validate_None: "KeyMaterial_Validate km = None \<longleftrightarrow> km_EncryptedDek km \<noteq> []"
  by (auto simp: KeyMaterial_Validate_def Validate_def FieldRule_def nonempty_dek_def toErrors_def)

lemma KeyMaterial_Validate_ok: "km_EncryptedDek km \<noteq> [] \<Longrightarrow> KeyMaterial_Validate km = None"
  by (simp add: KeyMaterial_Validate_None)

text \<open>What a wrapped key is: the material with its clear fields, and what binds them.\<close>

lemma keyWrapper_WrapE:
  assumes "keyWrapper_Wrap E w c ns dek = Inr ct" "material_doc E"
  obtains key a ad km where "kw_lookup w c \<lparr>kr_Namespace = ns, kr_Version = []\<rparr> = Inr key"
    "wrapper_aead w (kw_cipher w) (key_Bytes key) = Inr a" "proto_Unmarshal E ct = Inr km" "additionalData km = Inr ad"
    "km_EncryptedDek km = aead_Seal a (km_Nonce km) dek ad" "km_EncryptedDek km \<noteq> []" "km_Version km = key_Version key" "km_Namespace km = ns"
    "km_Cipher km = kw_cipher w" "length (km_Nonce km) = NonceSize a"
proof -
  obtain key where k: "kw_lookup w c \<lparr>kr_Namespace = ns, kr_Version = []\<rparr> = Inr key"
    using assms(1) by (auto simp: keyWrapper_Wrap_def split: sum.splits)
  moreover obtain a where a: "wrapper_aead w (kw_cipher w) (key_Bytes key) = Inr a"
    using assms(1) k by (auto simp: keyWrapper_Wrap_def split: sum.splits)
  moreover define km0 where "km0 = \<lparr>km_EncryptedDek = [], km_Version = key_Version key, km_Namespace = ns, km_Opaque = [],
      km_Nonce = ext_rand E c (NonceSize a), km_Cipher = kw_cipher w\<rparr>"
  moreover obtain ad where ad: "additionalData km0 = Inr ad"
    and m: "KeyMaterial_Marshal E (km0\<lparr>km_EncryptedDek := aead_Seal a (km_Nonce km0) dek ad\<rparr>) = Inr ct"
    using assms(1) k a by (auto simp: keyWrapper_Wrap_def km0_def Let_def split: sum.splits)
  moreover have "proto_Marshal E (km0\<lparr>km_EncryptedDek := aead_Seal a (km_Nonce km0) dek ad\<rparr>) = Inr ct" "aead_Seal a (km_Nonce km0) dek ad \<noteq> []"
    using m by (auto simp: KeyMaterial_Marshal_def split: option.splits sum.splits dest: KeyMaterial_Validate_None [THEN iffD1])
  ultimately show ?thesis using assms(2)
    by (intro that [of key a "km0\<lparr>km_EncryptedDek := aead_Seal a (km_Nonce km0) dek ad\<rparr>" ad]) (auto simp: material_doc_def additionalData_def)
qed

text \<open>A wrapped key is unwrapped by every wrapper that still knows its cipher and whose lookup still answers for
  its version, whatever cipher that wrapper seals with itself and however often its key was rotated since.\<close>

lemma keyWrapper_unwraps:
  assumes "material_doc E" "aeads_open w" "NewKeyWrapper E (Some l) opts = Inr w" "list_all wrapper_option opts"
    and "keyWrapper_Wrap E w c ns dek = Inr ct"
    and "map_of (kw_ciphers w') (kw_cipher w) = map_of (kw_ciphers w) (kw_cipher w)"
    and "\<And>key. l c \<lparr>kr_Namespace = ns, kr_Version = []\<rparr> = Inr key \<Longrightarrow>
      \<exists>key'. kw_lookup w' c' \<lparr>kr_Namespace = ns, kr_Version = key_Version key\<rparr> = Inr key' \<and> key_Bytes key' = key_Bytes key"
  shows "keyWrapper_Unwrap E w' c' ct = Inr dek"
proof -
  obtain key a ad km where w: "kw_lookup w c \<lparr>kr_Namespace = ns, kr_Version = []\<rparr> = Inr key"
    "wrapper_aead w (kw_cipher w) (key_Bytes key) = Inr a" "proto_Unmarshal E ct = Inr km" "additionalData km = Inr ad"
    "km_EncryptedDek km = aead_Seal a (km_Nonce km) dek ad" "km_EncryptedDek km \<noteq> []" "km_Version km = key_Version key" "km_Namespace km = ns"
    "km_Cipher km = kw_cipher w" "length (km_Nonce km) = NonceSize a" by (rule keyWrapper_WrapE [OF assms(5,1)])
  note new = NewKeyWrapper_ok [OF assms(3,4)]
  obtain key' where k': "kw_lookup w' c' \<lparr>kr_Namespace = ns, kr_Version = key_Version key\<rparr> = Inr key'" "key_Bytes key' = key_Bytes key"
    using assms(7) w(1) new(3) by auto
  have a': "wrapper_aead w' (km_Cipher km) (key_Bytes key') = Inr a"
    using w(2,9) k'(2) assms(6) by (simp add: wrapper_aead_def split: option.splits)
  have "aead_Open a (km_Nonce km) (km_EncryptedDek km) ad = Inr dek"
    using assms(2) wrapper_aead_built [OF w(2)] w(5) by (simp add: aeads_open_def)
  moreover have "KeyMaterial_Validate km = None" using w(6) by (simp add: KeyMaterial_Validate_None)
  moreover have "km_Cipher km \<noteq> CIPHER_UNSPECIFIED" using w(9) new(2) by (simp add: CIPHER_UNSPECIFIED_def)
  ultimately show ?thesis
    using w k' a' by (simp add: keyWrapper_Unwrap_def UnmarshalKeyMaterial_def)
qed

text \<open>
  Relabelled key material does not open: with the sealed key of a wrapped key but another namespace,
  version, cipher or opaque part in the clear, unwrapping fails, under every wrapper.
\<close>

theorem keyWrapper_relabel:
  assumes "material_doc E" "aeads_authentic w w'" "NewKeyWrapper E (Some l) opts = Inr w" "list_all wrapper_option opts"
    and "keyWrapper_Wrap E w c ns dek = Inr ct" "proto_Unmarshal E ct = Inr km" "proto_Unmarshal E ct' = Inr km'"
    and "km_EncryptedDek km' = km_EncryptedDek km"
    and "(km_Cipher km', km_Namespace km', km_Version km', km_Opaque km') \<noteq> (km_Cipher km, km_Namespace km, km_Version km, km_Opaque km)"
  shows "\<exists>err. keyWrapper_Unwrap E w' c' ct' = Inl err"
proof -
  obtain key a ad km0 where w0: "kw_lookup w c \<lparr>kr_Namespace = ns, kr_Version = []\<rparr> = Inr key" "wrapper_aead w (kw_cipher w) (key_Bytes key) = Inr a"
    "proto_Unmarshal E ct = Inr km0" "additionalData km0 = Inr ad" "km_EncryptedDek km0 = aead_Seal a (km_Nonce km0) dek ad"
    by (rule keyWrapper_WrapE [OF assms(5,1)]) blast
  then have "km0 = km" using assms(6) by simp
  note w = w0(2,4,5) [unfolded this]
  have r: "int32 (km_Cipher km)" "int32 (km_Cipher km')" using assms(1,6,7) by (auto simp: material_doc_def)
  have "aead_Open b (km_Nonce km') (km_EncryptedDek km') ad' \<noteq> Inr pt"
    if "additionalData km' = Inr ad'" "wrapper_aead w' i k = Inr b" for b ad' i k pt
  proof -
    have "ad' \<noteq> ad" using bindingContext_inj [OF r(2,1)] that(1) w(2) assms(9) by (auto simp: additionalData_def)
    with assms(2) wrapper_aead_built [OF w(1)] wrapper_aead_built [OF that(2)] show ?thesis
      unfolding aeads_authentic_def assms(8) w(3) by (metis Inl_Inr_False)
  qed
  then show ?thesis
    by (auto simp: keyWrapper_Unwrap_def UnmarshalKeyMaterial_def assms(7) split: sum.split option.split)
qed

section \<open>Through the service\<close>

text \<open>The client of an extension server whose KMS is \<open>impl\<close>, and what \<open>KeyLookup\<close> asks of a lookup: that it answers for every
  version it ever reported, with the key it reported then.\<close>

definition served_client :: "ext_env \<Rightarrow> KMS option \<Rightarrow> kms_client" where
  "served_client E impl = \<lparr>client_Encrypt = kmsService_Encrypt E impl, client_Decrypt = kmsService_Decrypt E impl\<rparr>"

definition lookup_keeps :: "KeyLookup \<Rightarrow> bool" where
  "lookup_keeps l \<longleftrightarrow> (\<forall>c c' ns key. l c \<lparr>kr_Namespace = ns, kr_Version = []\<rparr> = Inr key \<longrightarrow>
     (\<exists>key'. l c' \<lparr>kr_Namespace = ns, kr_Version = key_Version key\<rparr> = Inr key' \<and> key_Bytes key' = key_Bytes key))"

text \<open>A KEK over an implementation that unwraps what it wrapped opens whatever it sealed.\<close>

lemma kek_opens_served:
  assumes "\<And>c' ns dek ct. Wrap impl c' ns dek = Inr ct \<Longrightarrow> Unwrap impl c ct = Inr dek"
  shows "kek_opens (NewKMS i (served_client E (Some impl))) c"
  using assms
  by (auto simp: kek_opens_def NewKMS_def served_client_def kmsService_Encrypt_def kmsService_Decrypt_def split: sum.splits if_splits)

text \<open>An example: an AEAD that frames the plaintext with its additional data, a framing of key material, and a lookup whose
  current key depends on the call but that knows both versions.\<close>

definition ex_unframe :: "bytes \<Rightarrow> bytes \<times> bytes" where
  "ex_unframe s = (let n = length (takeWhile (\<lambda>c. c = CHR ''a'') s); r = drop (Suc n) s in (take n r, drop n r))"

lemma ex_unframe [simp]: "ex_unframe (ex_frame x @ z) = (x, z)"
proof -
  have "takeWhile (\<lambda>c. c = CHR ''a'') (replicate n (CHR ''a'') @ CHR ''.'' # y) = replicate n (CHR ''a'')" for n y
    by (induction n) auto
  then show ?thesis by (simp add: ex_unframe_def ex_frame_def)
qed

lemma ex_unframe_end [simp]: "ex_unframe (ex_frame x) = (x, [])"
  using ex_unframe [of x "[]"] by simp

definition ex_aead :: AEAD where
  "ex_aead = \<lparr>NonceSize = 2, aead_Seal = (\<lambda>nonce pt ad. ex_frame ad @ pt),
     aead_Open = (\<lambda>nonce ct ad. if HasPrefix ct (ex_frame ad) then Inr (drop (length (ex_frame ad)) ct) else Inl (ErrorString ''not authentic''))\<rparr>"

definition ex_pack :: "KeyMaterial \<Rightarrow> bytes result" where
  "ex_pack km = (if 0 \<le> km_Cipher km \<and> int32 (km_Cipher km)
     then Inr (ex_frame (km_EncryptedDek km) @ ex_frame (km_Version km) @ ex_frame (km_Namespace km) @ ex_frame (km_Opaque km)
               @ ex_frame (km_Nonce km) @ ex_frame (replicate (nat (km_Cipher km)) (CHR ''c'')) @ [])
     else Inl (ErrorString ''cannot pack''))"

definition ex_unpack :: "bytes \<Rightarrow> KeyMaterial result" where
  "ex_unpack b0 =
     (let (e, b1) = ex_unframe b0; (v, b2) = ex_unframe b1; (n, b3) = ex_unframe b2; (p, b4) = ex_unframe b3; (no, b5) = ex_unframe b4; (c, b6) = ex_unframe b5
      in if int32 (int (length c))
         then Inr \<lparr>km_EncryptedDek = e, km_Version = v, km_Namespace = n, km_Opaque = p, km_Nonce = no, km_Cipher = int (length c)\<rparr>
         else Inl (ErrorString ''cannot unpack''))"

definition ex_ext :: ext_env where
  "ex_ext = \<lparr>ext_aes = Inr, ext_gcm = (\<lambda>_. Inr ex_aead), ext_chacha = (\<lambda>_. Inr ex_aead), ext_xchacha = (\<lambda>_. Inr ex_aead),
     proto_Marshal = ex_pack, proto_Unmarshal = ex_unpack, ext_rand = (\<lambda>c n. replicate n (CHR ''r'')), ext_status = ex_status\<rparr>"

definition ex_lookup :: KeyLookup where
  "ex_lookup c rq =
     (let v = (if kr_Version rq \<noteq> [] then kr_Version rq else if c < 5 then ''1'' else ''2'')
      in if v = ''1'' then Inr \<lparr>key_Bytes = replicate 32 (CHR ''k''), key_Version = v\<rparr>
         else if v = ''2'' then Inr \<lparr>key_Bytes = replicate 32 (CHR ''l''), key_Version = v\<rparr>
         else Inl (StatusError NotFound ''no such version''))"

definition ex_wrapper :: keyWrapper where
  "ex_wrapper = \<lparr>kw_lookup = ex_lookup, kw_cipher = CipherChaCha20Poly1305, kw_ciphers = defaultCiphers ex_ext\<rparr>"

lemma ex_wrapper_new:
  "NewKeyWrapper ex_ext (Some ex_lookup) [WithCipher CipherChaCha20Poly1305] = Inr ex_wrapper" "list_all wrapper_option [WithCipher CipherChaCha20Poly1305]"
  by (simp_all add: NewKeyWrapper_def WithCipher_def ex_wrapper_def defaultCiphers_def wrapper_option.intros int32_def CipherChaCha20Poly1305_def CipherAES256GCM_def)

lemma ex_built: "built ex_wrapper b \<Longrightarrow> b = ex_aead"
  by (auto simp: built_def ex_wrapper_def defaultCiphers_def ex_ext_def NewAES256GCM_def NewChaCha20Poly1305_def NewXChaCha20Poly1305_def
      split: if_splits option.splits)

lemmas ex_ext_eval = keyWrapper_Wrap_def sealWrapper_Wrap_def ex_wrapper_def ex_lookup_def wrapper_aead_def defaultCiphers_def NewChaCha20Poly1305_def
  checkKeySize_def ext_keyBytes_def additionalData_def BindingContext_def bindingContext_def KeyMaterial_Marshal_def ex_ext_def ex_aead_def ex_pack_def
  int32_def CipherChaCha20Poly1305_def CipherAES256GCM_def CIPHER_UNSPECIFIED_def ex_frame_def KeyMaterial_Validate_ok

lemma ex_ext_ok: "material_doc ex_ext" "aeads_open ex_wrapper" "aeads_authentic ex_wrapper ex_wrapper" "lookup_keeps ex_lookup"
proof -
  show "material_doc ex_ext"
    by (auto simp: material_doc_def ex_ext_def ex_pack_def ex_unpack_def Let_def split: if_splits prod.splits)
  show "aeads_open ex_wrapper" by (auto simp: aeads_open_def ex_aead_def HasPrefix_def dest!: ex_built)
  show "aeads_authentic ex_wrapper ex_wrapper"
    using ex_frame_prefix by (auto simp: aeads_authentic_def ex_aead_def HasPrefix_iff dest!: ex_built)
  show "lookup_keeps ex_lookup" by (auto simp: lookup_keeps_def ex_lookup_def Let_def split: if_splits)
qed

theorem keyWrapper_relabel_witness:
  "\<exists>ct km err. keyWrapper_Wrap ex_ext ex_wrapper 3 ''ns'' ''dek'' = Inr ct \<and> ex_unpack ct = Inr km
     \<and> (case ex_pack (km\<lparr>km_Namespace := ''other''\<rparr>) of Inl _ \<Rightarrow> False | Inr ct' \<Rightarrow> keyWrapper_Unwrap ex_ext ex_wrapper 3 ct' = Inl err)"
proof -
  have w: "\<not> isl (keyWrapper_Wrap ex_ext ex_wrapper 3 ''ns'' ''dek'')" by (simp add: ex_ext_eval)
  then obtain ct where ct: "keyWrapper_Wrap ex_ext ex_wrapper 3 ''ns'' ''dek'' = Inr ct" by (cases "keyWrapper_Wrap ex_ext ex_wrapper 3 ''ns'' ''dek''") auto
  obtain km where km: "proto_Unmarshal ex_ext ct = Inr km" "km_Namespace km = ''ns''" "km_Cipher km = CipherChaCha20Poly1305"
    using ct ex_ext_ok(1) by (rule keyWrapper_WrapE) (simp add: ex_wrapper_def)
  obtain ct' where ct': "proto_Marshal ex_ext (km\<lparr>km_Namespace := ''other''\<rparr>) = Inr ct'"
    using km(3) by (auto simp: ex_ext_def ex_pack_def int32_def CipherChaCha20Poly1305_def)
  then have "proto_Unmarshal ex_ext ct' = Inr (km\<lparr>km_Namespace := ''other''\<rparr>)" using ex_ext_ok(1) by (simp add: material_doc_def)
  from keyWrapper_relabel [OF ex_ext_ok(1,3) ex_wrapper_new ct km(1) this] km(2) obtain err where
    "keyWrapper_Unwrap ex_ext ex_wrapper 3 ct' = Inl err" by auto
  with ct km(1) ct' show ?thesis by (auto simp: ex_ext_def)
qed

text \<open>
  C25. An extension server built with the kit is a key the vault can rely on: the key encryption key that the proxy makes
  of its connection opens whatever it wrapped, in any namespace and any earlier call, when the key wrapper's lookup
  keeps the versions it reported.
\<close>

theorem extension_kek_opens:
  assumes "material_doc E" "NewKeyWrapper E (Some l) opts = Inr w" "list_all wrapper_option opts" "aeads_open w" "lookup_keeps l"
  shows "kek_opens (NewKMS i (served_client E (Some (keyWrapper_KMS E w)))) c"
proof (rule kek_opens_served)
  show "Unwrap (keyWrapper_KMS E w) c ct = Inr dek" if "Wrap (keyWrapper_KMS E w) c' ns dek = Inr ct" for c' ns dek ct
    using that assms(5) NewKeyWrapper_ok(3) [OF assms(2,3)] unfolding keyWrapper_KMS_def KMS.simps
    by (intro keyWrapper_unwraps [OF assms(1,4,2,3)]) (auto simp: lookup_keeps_def)
qed

theorem extension_kek_opens_witness:
  "kek_opens (NewKMS ''extension://e'' (served_client ex_ext (Some (keyWrapper_KMS ex_ext ex_wrapper)))) 9
   \<and> \<not> isl (kek_Encrypt (NewKMS ''extension://e'' (served_client ex_ext (Some (keyWrapper_KMS ex_ext ex_wrapper)))) 3 ''ns'' ''dek'')"
proof -
  have "\<not> isl (kek_Encrypt (NewKMS ''extension://e'' (served_client ex_ext (Some (keyWrapper_KMS ex_ext ex_wrapper)))) 3 ''ns'' ''dek'')"
    by (simp add: NewKMS_def served_client_def kmsService_Encrypt_def keyWrapper_KMS_def ex_ext_eval)
  with extension_kek_opens [OF ex_ext_ok(1) ex_wrapper_new ex_ext_ok(2,4)] show ?thesis by blast
qed

text \<open>What a sealer promises: it opens what it sealed, given back what it reported.\<close>

definition sealer_ok :: "KeySealer \<Rightarrow> bool" where
  "sealer_ok s \<longleftrightarrow> (\<forall>c c' ns dek k. sealer_Seal s c \<lparr>sr_Namespace = ns, sr_DEK = dek\<rparr> = Inr k \<longrightarrow>
     sealer_Open s c' \<lparr>or_Namespace = ns, or_Version = sk_Version k, or_Opaque = sk_Opaque k, or_Ciphertext = sk_Ciphertext k\<rparr> = Inr dek)"

lemma sealWrapper_WrapE:
  assumes "sealWrapper_Wrap E s c ns dek = Inr ct" "material_doc E"
  obtains k where "sealer_Seal s c \<lparr>sr_Namespace = ns, sr_DEK = dek\<rparr> = Inr k" "sk_Ciphertext k \<noteq> []"
    "proto_Unmarshal E ct = Inr \<lparr>km_EncryptedDek = sk_Ciphertext k, km_Version = sk_Version k, km_Namespace = ns,
       km_Opaque = sk_Opaque k, km_Nonce = [], km_Cipher = CIPHER_UNSPECIFIED\<rparr>"
  using assms by (auto simp: sealWrapper_Wrap_def KeyMaterial_Marshal_def material_doc_def split: sum.splits if_splits option.splits)

text \<open>
  The two wrappers cannot be confused. A seal wrapper opens what a seal wrapper framed, unless the key is empty; a key wrapper
  refuses it as material without a cipher; and a seal wrapper refuses what a key wrapper sealed.
\<close>

theorem wrappers_apart:
  assumes "material_doc E" "NewKeyWrapper E (Some l) opts = Inr w" "list_all wrapper_option opts" "sealer_ok s"
  shows "(sealWrapper_Wrap E s c ns dek = Inr ct \<longrightarrow>
      sealWrapper_Unwrap E s c' ct = (if dek = [] then Inl (StatusError Internal ''the key service opened the material into no DEK'') else Inr dek)
      \<and> keyWrapper_Unwrap E w c' ct = Inl (StatusError InvalidArgument ''key material names no cipher''))
    \<and> (keyWrapper_Wrap E w c ns dek = Inr ct \<longrightarrow> (\<exists>m. sealWrapper_Unwrap E s c' ct = Inl (StatusError InvalidArgument m)))"
proof (intro conjI impI)
  assume "sealWrapper_Wrap E s c ns dek = Inr ct"
  then obtain k where k: "sealer_Seal s c \<lparr>sr_Namespace = ns, sr_DEK = dek\<rparr> = Inr k" "sk_Ciphertext k \<noteq> []"
    "proto_Unmarshal E ct = Inr \<lparr>km_EncryptedDek = sk_Ciphertext k, km_Version = sk_Version k, km_Namespace = ns,
       km_Opaque = sk_Opaque k, km_Nonce = [], km_Cipher = CIPHER_UNSPECIFIED\<rparr>" using assms(1) by (rule sealWrapper_WrapE)
  have v: "KeyMaterial_Validate \<lparr>km_EncryptedDek = sk_Ciphertext k, km_Version = sk_Version k, km_Namespace = ns,
       km_Opaque = sk_Opaque k, km_Nonce = [], km_Cipher = CIPHER_UNSPECIFIED\<rparr> = None" using k(2) by (simp add: KeyMaterial_Validate_None)
  have "sealer_Open s c' \<lparr>or_Namespace = ns, or_Version = sk_Version k, or_Opaque = sk_Opaque k, or_Ciphertext = sk_Ciphertext k\<rparr> = Inr dek"
    using assms(4) k(1) by (simp add: sealer_ok_def)
  then show "sealWrapper_Unwrap E s c' ct = (if dek = [] then Inl (StatusError Internal ''the key service opened the material into no DEK'') else Inr dek)"
    using k v by (simp add: sealWrapper_Unwrap_def UnmarshalKeyMaterial_def)
  show "keyWrapper_Unwrap E w c' ct = Inl (StatusError InvalidArgument ''key material names no cipher'')"
    using k v by (simp add: keyWrapper_Unwrap_def UnmarshalKeyMaterial_def)
next
  assume "keyWrapper_Wrap E w c ns dek = Inr ct"
  then obtain km where km: "proto_Unmarshal E ct = Inr km" "km_EncryptedDek km \<noteq> []" "km_Cipher km = kw_cipher w"
    using assms(1) by (rule keyWrapper_WrapE)
  moreover have "KeyMaterial_Validate km = None" using km(2) by (simp add: KeyMaterial_Validate_None)
  moreover have "km_Cipher km \<noteq> CIPHER_UNSPECIFIED" using NewKeyWrapper_ok(2) [OF assms(2,3)] km(3) by (simp add: CIPHER_UNSPECIFIED_def)
  ultimately show "\<exists>m. sealWrapper_Unwrap E s c' ct = Inl (StatusError InvalidArgument m)"
    by (simp add: sealWrapper_Unwrap_def UnmarshalKeyMaterial_def)
qed

section \<open>The guard and the decision\<close>

lemma Serve_InrE:
  assumes "Serve api opts = Inr sv" "o_authCheck sv = Some check"
  obtains rest where "o_authHeader sv \<noteq> []"
    "o_serverOptions sv = ChainUnaryInterceptor warnUnary # ChainUnaryInterceptor (unaryGuard api (o_authHeader sv) check) # rest"
  using assms by (auto simp: Serve_def Let_def split: option.splits sum.splits if_splits)

text \<open>
  A guarded extension server: unless the method is one of the health service, a call gets to the interceptors given
  in options and to the service only when the configured header has exactly one value and the check
  accepts it; any other call ends as unauthenticated.
\<close>

theorem Serve_guards:
  assumes "Serve api opts = Inr sv" "o_authCheck sv = Some check" "\<not> HasPrefix fullMethod healthPrefix"
  shows "\<exists>rest. o_authHeader sv \<noteq> [] \<and> o_serverOptions sv = ChainUnaryInterceptor warnUnary # ChainUnaryInterceptor (unaryGuard api (o_authHeader sv) check) # rest
    \<and> (if \<exists>md v. FromIncomingContext api (grpc_part ctx) = Some md \<and> MD_Get api md (o_authHeader sv) = [v] \<and> check v
       then chain (o_serverOptions sv) fullMethod handler ctx req = chain rest fullMethod handler ctx req
       else \<exists>m. chain (o_serverOptions sv) fullMethod handler ctx req = Inl (StatusError Unauthenticated m))"
proof -
  obtain rest where r: "o_authHeader sv \<noteq> []"
    "o_serverOptions sv = ChainUnaryInterceptor warnUnary # ChainUnaryInterceptor (unaryGuard api (o_authHeader sv) check) # rest"
    using assms(1,2) by (rule Serve_InrE)
  show ?thesis
    using r assms(3) by (intro exI [of _ rest]) (auto simp: warnUnary_def unaryGuard_def split: option.splits list.splits)
qed

text \<open>
  A caller of the proxy gets past an extension server of the kit exactly when its implementation answered with a response
  whose decision is to allow: no implementation, an error, no answer and every other decision deny.
\<close>

theorem extension_auth_admits:
  "Auth_Authenticate api convert (authService_Auth impl) headers ctx target md = None \<longleftrightarrow>
     (\<exists>a reason. impl = Some a \<and> (case lift_credentials api headers md of (creds, fwd) \<Rightarrow>
        a (NewOutgoingContext api (grpc_part ctx) fwd) (protoTarget target) creds = Inr (Some (DecisionAllow, reason))))"
  by (auto simp: Auth_Authenticate_def authService_Auth_def split: prod.splits option.splits sum.splits decision.splits)

text \<open>The warning is logged once, when a call in plaintext has come.\<close>

lemma plaintextWarning_once:
  "plaintextWarning warned ps = (if \<not> warned \<and> list_ex isPlaintext ps then [plaintextMessage] else [])"
  by (induction ps arbitrary: warned) auto

text \<open>Examples of the wrappers and of the guard.\<close>

definition ex_sealer :: KeySealer where
  "ex_sealer = \<lparr>sealer_Seal = (\<lambda>c rq. Inr \<lparr>sk_Ciphertext = CHR ''s'' # sr_DEK rq, sk_Version = ''7'', sk_Opaque = []\<rparr>),
     sealer_Open = (\<lambda>c rq. Inr (tl (or_Ciphertext rq)))\<rparr>"

theorem wrappers_apart_witness:
  "\<exists>ct. sealWrapper_Wrap ex_ext ex_sealer 1 ''ns'' ''dek'' = Inr ct \<and> sealWrapper_Unwrap ex_ext ex_sealer 2 ct = Inr ''dek''
     \<and> keyWrapper_Unwrap ex_ext ex_wrapper 2 ct = Inl (StatusError InvalidArgument ''key material names no cipher'')"
proof -
  have "\<not> isl (sealWrapper_Wrap ex_ext ex_sealer 1 ''ns'' ''dek'')" by (simp add: ex_ext_eval ex_sealer_def)
  then obtain ct where "sealWrapper_Wrap ex_ext ex_sealer 1 ''ns'' ''dek'' = Inr ct" by (cases "sealWrapper_Wrap ex_ext ex_sealer 1 ''ns'' ''dek''") auto
  moreover have "sealer_ok ex_sealer" by (simp add: sealer_ok_def ex_sealer_def)
  ultimately show ?thesis using wrappers_apart [OF ex_ext_ok(1) ex_wrapper_new, of ex_sealer 1 "''ns''" "''dek''" ct 2] by auto
qed

definition ex_serve :: "((ex_grpc, unit, string) options \<Rightarrow> (ex_grpc, unit, string) options) list" where
  "ex_serve = [WithServerAuth ''authorization'' (Some (\<lambda>v. v = ''secret'')), WithServerOption [OtherServerOption ''stats'']]"

theorem Serve_guards_witness:
  "\<exists>sv m. Serve ex_api ex_serve = Inr sv
     \<and> chain (o_serverOptions sv) ''/api.kms.v1.EncryptionService/Decrypt'' (\<lambda>_ _. Inr ''reached'') ex_ctx () = Inl (StatusError Unauthenticated m)"
proof -
  obtain sv where sv: "Serve ex_api ex_serve = Inr sv" "o_authCheck sv = Some (\<lambda>v. v = ''secret'')" "o_authHeader sv = ''authorization''"
    by (auto simp: Serve_def ex_serve_def WithServerAuth_def WithServerOption_def defaultServeOptions_def)
  have "\<not> HasPrefix ''/api.kms.v1.EncryptionService/Decrypt'' healthPrefix" by code_simp
  moreover have no: "\<not> (\<exists>md v. FromIncomingContext ex_api (grpc_part ex_ctx) = Some md \<and> MD_Get ex_api md (o_authHeader sv) = [v] \<and> v = ''secret'')"
    using sv(3) by (auto simp: ex_api_def ex_ctx_def NamespaceHeader_def ToLower_def lookup_all_def lower_char_def)
  ultimately obtain m where "chain (o_serverOptions sv) ''/api.kms.v1.EncryptionService/Decrypt'' (\<lambda>_ _. Inr ''reached'') ex_ctx () = Inl (StatusError Unauthenticated m)"
    using Serve_guards [OF sv(1,2), of "''/api.kms.v1.EncryptionService/Decrypt''" ex_ctx "\<lambda>_ _. Inr ''reached''" "()"] unfolding if_not_P [OF no] by blast
  with sv(1) show ?thesis by blast
qed

end
