(* ===== verification/Failures.thy ===== *)
theory Failures
  imports Proxy_Codec
begin

text \<open>
  \<open>pkg/codec/failure.go\<close> and the place that \<open>internal/proxy/codec.go\<close> gives it: on the way out the text of a failure moves into a payload before the
  payload codecs run, on the way back it is restored after they ran. The walk over a message that finds its failures
  and payloads is third-party code; here is what it does to one failure. \<open>encoding/json\<close> is an argument.
\<close>

section \<open>Model\<close>

record encodedFailure =
  ef_Message :: string
  ef_StackTrace :: string

record Failure =
  fl_Message :: string
  fl_StackTrace :: string
  fl_EncodedAttributes :: "Payload option"

record failure_json =
  json_Marshal :: "encodedFailure \<Rightarrow> bytes result"
  json_Unmarshal :: "bytes \<Rightarrow> encodedFailure result"

definition encodedFailureMessage :: string where
  "encodedFailureMessage = ''Encoded failure''"

definition EncodeFailure :: "failure_json \<Rightarrow> Failure \<Rightarrow> Failure result" where
  "EncodeFailure js f =
     (if fl_EncodedAttributes f \<noteq> None then Inr f
      else case json_Marshal js \<lparr>ef_Message = fl_Message f, ef_StackTrace = fl_StackTrace f\<rparr> of
             Inl err \<Rightarrow> Inl (WrapError (''codec: failed to encode failure attributes: '' @ Error err) [err])
           | Inr data \<Rightarrow>
               Inr (f\<lparr>fl_EncodedAttributes := Some \<lparr>Metadata = [MetadataEncoding \<mapsto> ''json/plain''], Data = data\<rparr>,
                      fl_Message := encodedFailureMessage, fl_StackTrace := []\<rparr>))"

definition RestoreFailure :: "failure_json \<Rightarrow> Failure \<Rightarrow> Failure result" where
  "RestoreFailure js f =
     (case fl_EncodedAttributes f of
        None \<Rightarrow> Inr f
      | Some attrs \<Rightarrow>
          (if entry attrs MetadataEncoding \<noteq> ''json/plain'' then Inr f
           else case json_Unmarshal js (Data attrs) of
                  Inl _ \<Rightarrow> Inr f
                | Inr ef \<Rightarrow> Inr (f\<lparr>fl_Message := ef_Message ef, fl_StackTrace := ef_StackTrace ef\<rparr>)))"

definition visitFailures :: "bool \<Rightarrow> (Failure \<Rightarrow> Failure result) \<Rightarrow> Failure \<Rightarrow> Failure result" where
  "visitFailures on fn f = (if \<not> on then Inr f else fn f)"

text \<open>The payload visitor at a failure: its encoded attributes.\<close>

definition visit_attributes :: "(Payload list \<Rightarrow> 's \<Rightarrow> Payload list result \<times> 's) \<Rightarrow> Failure \<Rightarrow> 's \<Rightarrow> Failure result \<times> 's" where
  "visit_attributes fn f st =
     (case fl_EncodedAttributes f of
        None \<Rightarrow> (Inr f, st)
      | Some p \<Rightarrow>
          (case fn [p] st of
             (Inl err, st) \<Rightarrow> (Inl err, st)
           | (Inr qs, st) \<Rightarrow> (Inr (f\<lparr>fl_EncodedAttributes := Some (hd qs)\<rparr>), st)))"

text \<open>\<open>chainUnary(failures, payloads)\<close>: the failures first on a request, and last on a response.\<close>

definition send_failure :: "failure_json \<Rightarrow> wire_env \<Rightarrow> 'c Codecs \<Rightarrow> ctx \<Rightarrow> string \<Rightarrow> string \<Rightarrow> Failure \<Rightarrow> 'c pstate \<Rightarrow> Failure result \<times> 'c pstate" where
  "send_failure js we cs c local remote f st =
     (case visitFailures (encodeFailures cs) (EncodeFailure js) f of
        Inl err \<Rightarrow> (Inl err, st)
      | Inr f \<Rightarrow> visit_attributes (Codecs_Encode we cs c local remote) f st)"

definition receive_failure :: "failure_json \<Rightarrow> wire_env \<Rightarrow> 'c Codecs \<Rightarrow> ctx \<Rightarrow> string \<Rightarrow> string \<Rightarrow> Failure \<Rightarrow> 'c pstate \<Rightarrow> Failure result \<times> 'c pstate" where
  "receive_failure js we cs c local remote f st =
     (case visit_attributes (Codecs_Decode we cs c local remote) f st of
        (Inl err, st) \<Rightarrow> (Inl err, st)
      | (Inr f, st) \<Rightarrow> (visitFailures (restoreFailures cs) (RestoreFailure js) f, st))"

section \<open>Lemmas\<close>

lemma NewCodecs_failures: "NewCodecs e opts = Inr cs \<Longrightarrow> encodeFailures cs = EncodeFailures opts \<and> restoreFailures cs = HasVault opts \<and> (Encrypt opts \<longrightarrow> HasVault opts)"
  by (auto simp: NewCodecs_def Let_def split: if_splits)

lemma Codecs_Encode_one:
  assumes "NewCodecs e opts = Inr cs" "Encrypt opts" "Codecs_Encode we cs c local remote [p] st = (Inr qs, st')"
  obtains q where "qs = [q]" "q = p \<and> entry p MetadataEncoding \<in> set (SkipEncodings opts) \<or> sealed_as q"
proof -
  obtain q where q: "qs = [q]" "encodeOne we (encryptorFor e opts c \<lparr>s_ns = local, s_label = remote, s_check = False\<rparr>) p st = (Inr q, st')"
    using assms(3) unfolding Codecs_Encode_eq [OF assms(1)] if_P [OF assms(2)] by (auto split: prod.splits sum.splits)
  show thesis by (rule that [OF q(1)]) (use encodeOne_Inr [OF q(2)] in \<open>auto simp: skips_def encryptorFor_def\<close>)
qed

section \<open>Properties\<close>

text \<open>
  C26. The text of a failure does not leave the proxy in the clear, and comes back. With failure encoding on, a failure that had no encoded attributes is sent with the
  placeholder for its message, without a stack trace, and with attributes that are sealed, unless the operator lists \<open>json/plain\<close> as an encoding to skip; and what the proxy
  receives of it, in every later or other state of a vault over the same registry and binding mode, has the message and the stack trace it had.
\<close>

theorem failure_roundtrip:
  assumes env: "aead_correct e" "rand_ok e" "lru_ok e peek" "marshal_ok we"
    and reg: "NewKEKRegistry kopts = Inr r" "registry_opens r c'" "registry_unambiguous r" "keks_named r"
    and codecs: "NewCodecs e opts = Inr cs" "Encrypt opts" "EncodeFailures opts"
    and states: "vault_reachable e r (ps_vault st, ps_world st)" "vault_reachable e r (ps_vault st2, ps_world st2)"
      "v_binding (ps_vault st2) = v_binding (ps_vault st)"
    and f: "fl_EncodedAttributes f = None" "\<And>data. json_Marshal js \<lparr>ef_Message = fl_Message f, ef_StackTrace = fl_StackTrace f\<rparr> = Inr data \<Longrightarrow>
        json_Unmarshal js data = Inr \<lparr>ef_Message = fl_Message f, ef_StackTrace = fl_StackTrace f\<rparr>"
    and sent: "send_failure js we cs c local remote f st = (Inr g, st1)"
    and remote': "remote' = [] \<or> remote' = remote"
  shows "fl_Message g = ''Encoded failure'' \<and> fl_StackTrace g = []
    \<and> (''json/plain'' \<in> set (SkipEncodings opts) \<or> (\<exists>p. fl_EncodedAttributes g = Some p \<and> sealed_as p))
    \<and> (\<exists>f'. fst (receive_failure js we cs c' local' remote' g st2) = Inr f' \<and> fl_Message f' = fl_Message f \<and> fl_StackTrace f' = fl_StackTrace f)"
proof -
  note cs = NewCodecs_failures [OF codecs(1)]
  obtain data where data: "json_Marshal js \<lparr>ef_Message = fl_Message f, ef_StackTrace = fl_StackTrace f\<rparr> = Inr data"
    using sent f(1) cs codecs(3) by (auto simp: send_failure_def visitFailures_def EncodeFailure_def split: sum.splits)
  let ?p = "\<lparr>Metadata = [MetadataEncoding \<mapsto> ''json/plain''], Data = data\<rparr>"
  have p: "entry ?p MetadataEncoding = ''json/plain''" by (simp add: entry_def)
  obtain qs where qs: "Codecs_Encode we cs c local remote [?p] st = (Inr qs, st1)"
      "g = f\<lparr>fl_EncodedAttributes := Some (hd qs), fl_Message := encodedFailureMessage, fl_StackTrace := []\<rparr>"
    using sent f(1) cs codecs(3) data
    by (auto simp: send_failure_def visitFailures_def EncodeFailure_def visit_attributes_def split: prod.splits sum.splits)
  obtain q where q: "qs = [q]" "q = ?p \<and> entry ?p MetadataEncoding \<in> set (SkipEncodings opts) \<or> sealed_as q"
    by (rule Codecs_Encode_one [OF codecs(1,2) qs(1)])
  have "fst (Codecs_Decode we cs c' local' remote' qs st2) = Inr [?p]"
    by (rule Codecs_inverse [OF env reg codecs(1,2) states _ qs(1) remote']) (simp add: p EncryptionEncoding_def)
  then obtain st3 where "Codecs_Decode we cs c' local' remote' [q] st2 = (Inr [?p], st3)" using q(1) by (metis prod.collapse)
  then have "fst (receive_failure js we cs c' local' remote' g st2) = Inr (g\<lparr>fl_EncodedAttributes := Some ?p, fl_Message := fl_Message f, fl_StackTrace := fl_StackTrace f\<rparr>)"
    using qs(2) q(1) cs codecs(2) f(2) [OF data] p
    by (simp add: receive_failure_def visit_attributes_def visitFailures_def RestoreFailure_def)
  then show ?thesis using qs(2) q p by (auto simp: encodedFailureMessage_def)
qed

section \<open>Witness\<close>

definition ex_failure :: Failure where
  "ex_failure = \<lparr>fl_Message = ''card declined'', fl_StackTrace = ''main.go:7'', fl_EncodedAttributes = None\<rparr>"

definition ex_failure_json :: failure_json where
  "ex_failure_json = \<lparr>json_Marshal = (\<lambda>_. Inr ''secret''), json_Unmarshal = (\<lambda>_. Inr \<lparr>ef_Message = ''card declined'', ef_StackTrace = ''main.go:7''\<rparr>)\<rparr>"

definition ex_failure_opts :: CodecOptions where
  "ex_failure_opts = ex_codec_opts\<lparr>EncodeFailures := True\<rparr>"

definition ex_failure_codecs :: "(string \<times> DEK) list Codecs" where
  "ex_failure_codecs = ex_codecs\<lparr>encodeFailures := True\<rparr>"

lemma ex_failure_sent:
  "NewCodecs ex_env ex_failure_opts = Inr ex_failure_codecs"
  "send_failure ex_failure_json ex_wire ex_failure_codecs 0 ''ns'' ''ns'' ex_failure ex_state1
     = (Inr \<lparr>fl_Message = ''Encoded failure'', fl_StackTrace = [], fl_EncodedAttributes = Some ex_sealed\<rparr>, ex_state2)"
proof -
  show "NewCodecs ex_env ex_failure_opts = Inr ex_failure_codecs"
    by (simp add: NewCodecs_def ex_failure_opts_def ex_failure_codecs_def ex_codec_opts_def ex_codecs_def)
  have "Codecs_Encode ex_wire ex_failure_codecs = Codecs_Encode ex_wire ex_codecs"
    by (intro ext) (simp add: Codecs_Encode_def ex_failure_codecs_def)
  then show "send_failure ex_failure_json ex_wire ex_failure_codecs 0 ''ns'' ''ns'' ex_failure ex_state1
     = (Inr \<lparr>fl_Message = ''Encoded failure'', fl_StackTrace = [], fl_EncodedAttributes = Some ex_sealed\<rparr>, ex_state2)"
    using ex_Encode
    by (simp add: send_failure_def visitFailures_def EncodeFailure_def visit_attributes_def ex_failure_def ex_failure_json_def
        encodedFailureMessage_def ex_payload_def) (simp add: ex_failure_codecs_def)
qed

theorem failure_roundtrip_witness:
  "\<exists>f. fst (receive_failure ex_failure_json ex_wire ex_failure_codecs 4 ''ns'' ''ns''
       \<lparr>fl_Message = ''Encoded failure'', fl_StackTrace = [], fl_EncodedAttributes = Some ex_sealed\<rparr> ex_state2) = Inr f
     \<and> fl_Message f = ''card declined'' \<and> fl_StackTrace f = ''main.go:7''"
proof -
  have st: "vault_reachable ex_env ex_registry (ps_vault ex_state1, ps_world ex_state1)"
    "vault_reachable ex_env ex_registry (ps_vault ex_state2, ps_world ex_state2)"
    "v_binding (ps_vault ex_state2) = v_binding (ps_vault ex_state1)"
    using ex_start ex_reachable2 by (simp_all add: ex_state1_def ex_state2_def ex_vault2_def)
  have opts: "Encrypt ex_failure_opts" "EncodeFailures ex_failure_opts" "fl_EncodedAttributes ex_failure = None"
    by (simp_all add: ex_failure_opts_def ex_codec_opts_def ex_failure_def)
  have json: "json_Unmarshal ex_failure_json data = Inr \<lparr>ef_Message = fl_Message ex_failure, ef_StackTrace = fl_StackTrace ex_failure\<rparr>" for data
    by (simp add: ex_failure_json_def ex_failure_def)
  from failure_roundtrip [OF ex_env_ok(1,3,4) ex_marshal ex_registry_new ex_registry_ok ex_named ex_failure_sent(1) opts(1,2) st opts(3) json ex_failure_sent(2), where local' = "''ns''" and remote' = "''ns''" and c' = 4]
  show ?thesis by (simp add: ex_failure_def)
qed

end
