(* ===== verification/Http_Server.thy ===== *)
theory Http_Server
  imports Codec_Server Config
begin

text \<open>
  \<open>internal/httpserver\<close>, \<open>internal/pprofserver\<close> and \<open>internal/codecserver/fx.go\<close>: the HTTP server beside the gateway. Each
  group of routes is built from its configuration behind its own authenticator, and the server mounts them on one mux, on the
  listener of the \<open>http\<close> section.

  The patterns mounted here have neither methods nor wildcards, so \<open>serve_routes\<close> is \<open>http.ServeMux\<close> for exact and
  subtree patterns: the longest match wins, a path that lacks the final slash of a subtree is redirected. The handlers of
  \<open>net/http/pprof\<close> are a parameter, as are the ways in which listening, serving and draining end. The order in which fx hands
  over the routes is unspecified: a property holds for every order.
\<close>

section \<open>The mux\<close>

type_synonym ('g, 's) mux_routes = "(string \<times> ('g, 's) http_handler) list"

definition mux_matches :: "string \<Rightarrow> string \<Rightarrow> bool" where
  "mux_matches pattern path \<longleftrightarrow> path = pattern \<or> HasSuffix pattern ''/'' \<and> HasPrefix path pattern"

fun mux_find :: "('g, 's) mux_routes \<Rightarrow> string \<Rightarrow> (string \<times> ('g, 's) http_handler) option" where
  "mux_find [] path = None"
| "mux_find ((pattern, h) # routes) path =
     (case mux_find routes path of
        None \<Rightarrow> if mux_matches pattern path then Some (pattern, h) else None
      | Some (pattern', h') \<Rightarrow>
          if mux_matches pattern path \<and> length pattern > length pattern' then Some (pattern, h) else Some (pattern', h'))"

definition redirect :: "string \<Rightarrow> response" where
  "redirect path = \<lparr>rs_status = 307, rs_body = [], rs_header = [(''Location'', path)]\<rparr>"

definition serve_routes :: "('g, 's) mux_routes \<Rightarrow> ('g, 's) http_handler" where
  "serve_routes routes r s =
     (let path = rq_Path r; slashed = path @ ''/'';
          lacks = (\<not> HasSuffix path ''/'' \<and> List.member (map fst routes) slashed)
      in case mux_find routes path of
           None \<Rightarrow> (if lacks then redirect slashed else fail 404 ''404 page not found'', [], s)
         | Some (pattern, h) \<Rightarrow> if pattern \<noteq> path \<and> lacks then (redirect slashed, [], s) else h r s)"

section \<open>internal/httpserver\<close>

record ('g, 's) Route =
  rt_Pattern :: string
  rt_Handler :: "('g, 's) http_handler"

record ('g, 's) http_Server =
  hs_handler :: "('g, 's) http_handler"
  hs_TLSConfig :: "(nat \<times> Mode) option"
  hs_readHeaderTimeout :: int
  hs_readTimeout :: int
  hs_hostPort :: string
  hs_abort :: bool
  hs_addr :: "string option"

text \<open>In nanoseconds.\<close>

definition readHeaderTimeout :: int where "readHeaderTimeout = 5 * 10 ^ 9"
definition readTimeout :: int where "readTimeout = 10 * 10 ^ 9"

definition http_New :: "string \<Rightarrow> ('g, 's) http_handler \<Rightarrow> (nat \<times> Mode) option \<Rightarrow> bool \<Rightarrow> ('g, 's) http_Server" where
  "http_New hostPort h tlsCfg abort =
     \<lparr>hs_handler = h, hs_TLSConfig = tlsCfg, hs_readHeaderTimeout = readHeaderTimeout, hs_readTimeout = readTimeout,
      hs_hostPort = hostPort, hs_abort = abort, hs_addr = None\<rparr>"

text \<open>\<open>Start\<close>, given how listening ended, and what its goroutine does when serving ended: the entries of the log and the call of
  the abort function.\<close>

definition http_ErrServerClosed :: goerror where
  "http_ErrServerClosed = ErrorString ''http: Server closed''"

definition http_Start :: "string result \<Rightarrow> ('g, 's) http_Server \<Rightarrow> goerror option \<times> ('g, 's) http_Server" where
  "http_Start lis svr = (case lis of Inl err \<Rightarrow> (Some err, svr) | Inr addr \<Rightarrow> (None, svr\<lparr>hs_addr := Some addr\<rparr>))"

definition http_served :: "('g, 's) http_Server \<Rightarrow> goerror option \<Rightarrow> string list \<times> goerror option" where
  "http_served svr ended =
     (case ended of
        None \<Rightarrow> ([], None)
      | Some err \<Rightarrow>
          (if errors_Is err http_ErrServerClosed then ([], None)
           else ([''HTTP server stopped serving''], if hs_abort svr then Some err else None)))"

definition http_Stop :: "goerror option \<Rightarrow> goerror option" where
  "http_Stop shutdown =
     (case shutdown of
        None \<Rightarrow> None
      | Some err \<Rightarrow> if errors_Is err http_ErrServerClosed then None else Some err)"

text \<open>Two groups with one pattern make \<open>Handle\<close> panic.\<close>

definition http_newFromParams :: "config_env \<Rightarrow> bool \<Rightarrow> Config \<Rightarrow> ('g, 's) Route list \<Rightarrow> creds_world \<Rightarrow> ('g, 's) http_Server option result \<times> creds_world" where
  "http_newFromParams E reloader cfg routes w =
     (if routes = [] then (Inr None, w)
      else let listen = http_Listen (c_HTTP cfg)
       in case ListenConfig_Listener listen [WithReloader reloader ''http''] w of
            (l, w) \<Rightarrow>
          (case TLSConfig (ce_x509 E) (ce_files E) (ce_now E) l w of
             (Inl err, w) \<Rightarrow> (Inl (ErrorString (verr_text err)), w)
           | (Inr tlsCfg, w) \<Rightarrow>
               (if \<not> distinct (map rt_Pattern routes) then (Inl (ErrorString ''panic: pattern conflicts with pattern''), w)
                else (Inr (Some (http_New (l_HostPort listen) (serve_routes (map (\<lambda>rt. (rt_Pattern rt, rt_Handler rt)) routes)) tlsCfg True)), w))))"

section \<open>internal/metrics/server.go\<close>

text \<open>The handler over the registry is a parameter.\<close>

definition metrics_newServer :: "('g, 's) http_handler \<Rightarrow> Config \<Rightarrow> ('g, 's) http_Server result" where
  "metrics_newServer h cfg =
     (if me_HostPort (c_Metrics cfg) = [] then Inl (ErrorString ''metrics addr not set'')
      else Inr (http_New (me_HostPort (c_Metrics cfg)) (serve_routes [(''/metrics'', h)]) None True))"

section \<open>internal/pprofserver\<close>

definition pprof_route :: string where
  "pprof_route = ''/debug/pprof/''"

definition newHandler :: "(string \<Rightarrow> ('g, 's) http_handler) \<Rightarrow> ('g, 's) http_handler" where
  "newHandler profile =
     serve_routes [(pprof_route, profile ''Index''), (pprof_route @ ''cmdline'', profile ''Cmdline''), (pprof_route @ ''profile'', profile ''Profile''),
       (pprof_route @ ''symbol'', profile ''Symbol''), (pprof_route @ ''trace'', profile ''Trace'')]"

text \<open>A middleware in front of a handler.\<close>

definition wrap_handler :: "('g codecRequest \<Rightarrow> 'g codecRequest verdict \<times> rejectionLog list) \<Rightarrow> ('g, 's) http_handler \<Rightarrow> ('g, 's) http_handler" where
  "wrap_handler mw next r s =
     (case mw r of
        (Answer code body, log) \<Rightarrow> (fail code body, map AuthRejected log, s)
      | (Next r, log) \<Rightarrow> (case next r s of (resp, evs, s) \<Rightarrow> (resp, map AuthRejected log @ evs, s)))"

text \<open>The routes of the group and the warnings.\<close>

definition pprof_newFromParams :: "'g grpc_api \<Rightarrow> status_api \<Rightarrow> ('g, 't, 'k) auth_env \<Rightarrow> (string \<Rightarrow> ('g, 's) http_handler) \<Rightarrow> Config
    \<Rightarrow> (('g, 's) Route list \<times> string list) result" where
  "pprof_newFromParams api st aenv profile c =
     (let cfg = http_PProf (c_HTTP c)
      in if \<not> pp_Enabled cfg then Inr ([], [])
         else case pp_Auth cfg of
                None \<Rightarrow> Inr ([\<lparr>rt_Pattern = pprof_route, rt_Handler = newHandler profile\<rparr>],
                  [''Pprof routes are running without authentication, which is only allowed on a loopback bind''])
              | Some ac \<Rightarrow>
                  (case Auth_For api aenv (Some ac) of
                     Inl err \<Rightarrow> Inl err
                   | Inr authn \<Rightarrow>
                       (case HTTPMiddleware api st authn HTTPGroupPProf (\<lambda>_. []) defaultRejectionStatus of
                          Inl err \<Rightarrow> Inl err
                        | Inr mw \<Rightarrow> Inr ([\<lparr>rt_Pattern = pprof_route, rt_Handler = wrap_handler mw (newHandler profile)\<rparr>], []))))"

section \<open>internal/codecserver/fx.go\<close>

definition codec_WithAuth :: "'g Authenticator option \<Rightarrow> 'g Codec_Server.server_options \<Rightarrow> 'g Codec_Server.server_options" where
  "codec_WithAuth a so = so\<lparr>so_auth := a\<rparr>"

definition WithCORS :: "string list \<Rightarrow> bool \<Rightarrow> 'g Codec_Server.server_options \<Rightarrow> 'g Codec_Server.server_options" where
  "WithCORS origins cred so = so\<lparr>so_origins := origins, so_credentials := cred\<rparr>"

definition WithNamespaceRequired :: "bool \<Rightarrow> 'g Codec_Server.server_options \<Rightarrow> 'g Codec_Server.server_options" where
  "WithNamespaceRequired required so = so\<lparr>so_namespaceRequired := required\<rparr>"

definition WithDecodeNamespaceRequired :: "bool \<Rightarrow> 'g Codec_Server.server_options \<Rightarrow> 'g Codec_Server.server_options" where
  "WithDecodeNamespaceRequired required so = so\<lparr>so_decodeNamespaceRequired := required\<rparr>"

definition codec_opts :: "Config \<Rightarrow> 'g Authenticator option \<Rightarrow> ('g Codec_Server.server_options \<Rightarrow> 'g Codec_Server.server_options) list" where
  "codec_opts c authn =
     (let cfg = http_CodecServer (c_HTTP c); strict = (e_NamespaceBinding (c_Encryption c) = NamespaceBindingStrict)
      in [WithCORS (Origins (cs_CORS cfg)) (CORS_Credentials (cs_CORS cfg)),
          WithNamespaceRequired (e_Overrides (c_Encryption c) \<noteq> [] \<or> strict),
          WithDecodeNamespaceRequired strict]
         @ (case authn of None \<Rightarrow> [] | Some a \<Rightarrow> [codec_WithAuth (Some a)]))"

definition codec_newFromParams :: "'g grpc_api \<Rightarrow> status_api \<Rightarrow> ('g, 't, 'k) auth_env \<Rightarrow> json_env \<Rightarrow> 's transform \<Rightarrow> 's transform \<Rightarrow> Config
    \<Rightarrow> (('g, 's) Route list \<times> string list) result" where
  "codec_newFromParams api st aenv js enc dec c =
     (let cfg = http_CodecServer (c_HTTP c);
          mounted = (\<lambda>overrides authn. [\<lparr>rt_Pattern = ''/'', rt_Handler = codec_Handler api st js enc dec (OverrideMap_Local overrides)
                      (fold (\<lambda>f. f) (codec_opts c authn) default_options)\<rparr>]);
          keyless = (if e_Default (c_Encryption c) = None
                     then [''Codec server is enabled but no encryption keys are configured, so payloads pass through unchanged''] else [])
      in if \<not> cs_Enabled cfg then Inr ([], [])
         else case NewOverrideMap (e_Overrides (c_Encryption c)) (map (\<lambda>up. Rules (cu_Namespaces up)) (c_Upstreams c)) of
                Inl err \<Rightarrow> Inl err
              | Inr overrides \<Rightarrow>
                  (case cs_Auth cfg of
                     Some ac \<Rightarrow>
                       (case Auth_For api aenv (Some ac) of
                          Inl err \<Rightarrow> Inl err
                        | Inr authn \<Rightarrow> Inr (mounted overrides (Some authn), keyless))
                   | None \<Rightarrow> Inr (mounted overrides None,
                       ''Codec server is running without authentication, which is only allowed on a loopback bind'' # keyless)))"

section \<open>Lemmas\<close>

subsection \<open>The mux\<close>

lemma mux_find_SomeD:
  "mux_find routes path = Some (pattern, h) \<Longrightarrow> (pattern, h) \<in> set routes \<and> mux_matches pattern path"
  by (induction routes arbitrary: pattern h) (auto split: option.splits if_splits)

lemma mux_find_longest:
  "mux_find routes path = Some (pattern, h) \<Longrightarrow> (pattern', h') \<in> set routes \<Longrightarrow> mux_matches pattern' path \<Longrightarrow> length pattern' \<le> length pattern"
proof (induction routes arbitrary: pattern h)
  case (Cons rt routes)
  show ?case
  proof (cases "mux_find routes path")
    case None
    then have "\<not> mux_matches pattern' path" if "(pattern', h') \<in> set routes" for pattern' h'
      using that by (induction routes) (auto split: option.splits if_splits)
    with None Cons.prems show ?thesis by (cases rt) (auto split: if_splits)
  next
    case (Some ph)
    then show ?thesis using Cons.IH Cons.prems by (cases rt; cases ph) (fastforce split: if_splits)
  qed
qed simp

lemma serve_routes_cases:
  assumes "serve_routes routes r s = (resp, evs, s')"
  shows "rs_status resp \<noteq> 200 \<and> s' = s
    \<or> (\<exists>pattern h. mux_find routes (rq_Path r) = Some (pattern, h) \<and> h r s = (resp, evs, s'))"
  using assms by (auto simp: serve_routes_def redirect_def Let_def split: option.splits if_splits)

subsection \<open>A request that was not admitted\<close>

definition http_admits :: "'g grpc_api \<Rightarrow> 'g Authenticator \<Rightarrow> HTTPGroup \<Rightarrow> 'g codecRequest \<Rightarrow> bool" where
  "http_admits api a grp r \<longleftrightarrow> (\<exists>ns. Authenticate a (rq_ctx r) \<lparr>FullName = [], Namespace = ns, HTTP = Some \<lparr>h_Group = grp, h_Method = rq_Method r, h_Path = rq_Path r\<rparr>\<rparr>
        (headerMetadata api (rq_Header r)) = None)"

lemma http_admitsI:
  "Authenticate a (rq_ctx r) \<lparr>FullName = [], Namespace = ns, HTTP = Some \<lparr>h_Group = grp, h_Method = rq_Method r, h_Path = rq_Path r\<rparr>\<rparr>
     (headerMetadata api (rq_Header r)) = None \<Longrightarrow> http_admits api a grp r"
  unfolding http_admits_def by blast

lemma http_admits_cong: "http_admits api a grp (r\<lparr>rq_PathValue := ns\<rparr>) = http_admits api a grp r"
    "http_admits api a grp (r\<lparr>namespaceKey := k\<rparr>) = http_admits api a grp r"
  by (simp_all add: http_admits_def)

text \<open>A handler that acts, answering 200 or changing the state, only on what the authenticator admits for the group.\<close>

definition guarded :: "'g grpc_api \<Rightarrow> 'g Authenticator \<Rightarrow> HTTPGroup \<Rightarrow> ('g, 's) http_handler \<Rightarrow> bool" where
  "guarded api a grp h \<longleftrightarrow> (\<forall>r s resp evs s'. h r s = (resp, evs, s') \<longrightarrow> rs_status resp = 200 \<or> s' \<noteq> s \<longrightarrow> http_admits api a grp r)"

lemma guarded_pprof:
  assumes "HTTPMiddleware api st a HTTPGroupPProf (\<lambda>_. []) defaultRejectionStatus = Inr mw"
  shows "guarded api a HTTPGroupPProf (wrap_handler mw next)"
proof -
  have st: "defaultRejectionStatus c \<noteq> 200" for c by (simp add: defaultRejectionStatus_def split: code.split)
  have "http_admits api a HTTPGroupPProf r" if "wrap_handler mw next r s = (resp, evs, s')" "rs_status resp = 200 \<or> s' \<noteq> s" for r s resp evs s'
    using that assms st
    by (cases "Authenticate a (rq_ctx r) \<lparr>FullName = [], Namespace = [], HTTP = Some \<lparr>h_Group = HTTPGroupPProf, h_Method = rq_Method r, h_Path = rq_Path r\<rparr>\<rparr>
        (headerMetadata api (rq_Header r))") (auto simp: wrap_handler_def HTTPMiddleware_def Let_def http_admitsI)
  then show ?thesis unfolding guarded_def by blast
qed

lemma guarded_authenticate:
  assumes "so_auth so = Some a"
  shows "guarded api a HTTPGroupCodecServer (authenticate api st so fn)"
  unfolding guarded_def authenticate_Some [OF assms] codec_target_def
  by (auto simp: Let_def rejectionStatus_def split: option.splits if_splits intro: http_admitsI)

lemma guarded_served:
  assumes "so_auth so = Some a" "served api st localName so path fn (r\<lparr>rq_PathValue := ns\<rparr>) s = (resp, evs, s')" "rs_status resp = 200 \<or> s' \<noteq> s"
  shows "http_admits api a HTTPGroupCodecServer r"
proof -
  let ?r = "r\<lparr>rq_PathValue := ns, namespaceKey := Some (namespace localName (r\<lparr>rq_PathValue := ns\<rparr>))\<rparr>"
  obtain evs' where "authenticate api st so fn ?r s = (resp, evs', s')"
    using assms(2) by (auto simp: served_def instrument_def resolveNamespace_def split: prod.splits)
  then have "http_admits api a HTTPGroupCodecServer ?r"
    using guarded_authenticate [OF assms(1), of api st fn] assms(3) unfolding guarded_def by blast
  then show ?thesis by (simp add: http_admits_cong)
qed

lemma guarded_codec:
  assumes "so_auth so = Some a"
  shows "guarded api a HTTPGroupCodecServer (codec_Handler api st js enc dec localName so)"
proof -
  let ?mux = "serve_mux (map (\<lambda>(path, fn). (path, served api st localName so path fn)) (codec_routes js enc dec so))"
  have mux: "(rs_status resp \<noteq> 200 \<and> s' = s) \<or> (\<exists>path fn ns. served api st localName so path fn (r\<lparr>rq_PathValue := ns\<rparr>) s = (resp, evs, s'))"
    if "?mux r s = (resp, evs, s')" for r s resp evs s'
    using that by (auto simp: serve_mux_def Let_def map_of_served split: option.splits if_splits list.splits)
  have "guarded api a HTTPGroupCodecServer ?mux" unfolding guarded_def
  proof (intro allI impI)
    fix r s resp evs s'
    assume *: "?mux r s = (resp, evs, s')" "rs_status resp = 200 \<or> s' \<noteq> s"
    with mux obtain path fn ns where "served api st localName so path fn (r\<lparr>rq_PathValue := ns\<rparr>) s = (resp, evs, s')" by blast
    then show "http_admits api a HTTPGroupCodecServer r" using *(2) by (rule guarded_served [OF assms])
  qed
  then show ?thesis
    unfolding codec_Handler_eq guarded_def cors_def by (auto simp: Let_def split: prod.splits)
qed

lemma codec_opts_auth: "so_auth (fold (\<lambda>f. f) (codec_opts c (Some a)) default_options) = Some a"
  by (simp add: codec_opts_def codec_WithAuth_def Let_def)

lemma http_newFromParams_Some:
  assumes "http_newFromParams E rel cfg routes w = (Inr (Some svr), w')"
  obtains l w1 w2 where "ListenConfig_Listener (http_Listen (c_HTTP cfg)) [WithReloader rel ''http''] w = (l, w1)"
    "TLSConfig (ce_x509 E) (ce_files E) (ce_now E) l w1 = (Inr (hs_TLSConfig svr), w2)"
    "hs_handler svr = serve_routes (map (\<lambda>rt. (rt_Pattern rt, rt_Handler rt)) routes)" "routes \<noteq> []"
  using assms by (auto simp: http_newFromParams_def http_New_def Let_def split: if_splits prod.splits sum.splits)

text \<open>What the two groups mount, with an authenticator configured for each that is enabled.\<close>

lemma codec_mounted:
  assumes "codec_newFromParams api st aenv js enc dec cfg = Inr (rs, warn)" "rt \<in> set rs"
    and "cs_Enabled (http_CodecServer (c_HTTP cfg)) \<Longrightarrow> cs_Auth (http_CodecServer (c_HTTP cfg)) \<noteq> None"
  shows "cs_Enabled (http_CodecServer (c_HTTP cfg)) \<and> rt_Pattern rt = ''/''
    \<and> (\<exists>a. Auth_For api aenv (cs_Auth (http_CodecServer (c_HTTP cfg))) = Inr a \<and> guarded api a HTTPGroupCodecServer (rt_Handler rt))"
  using assms by (auto simp: codec_newFromParams_def Let_def guarded_codec codec_opts_auth split: if_splits sum.splits option.splits)

lemma pprof_mounted:
  assumes "pprof_newFromParams api st aenv profile cfg = Inr (rs, warn)" "rt \<in> set rs"
    and "pp_Enabled (http_PProf (c_HTTP cfg)) \<Longrightarrow> pp_Auth (http_PProf (c_HTTP cfg)) \<noteq> None"
  shows "pp_Enabled (http_PProf (c_HTTP cfg)) \<and> rt_Pattern rt = pprof_route
    \<and> (\<exists>a. Auth_For api aenv (pp_Auth (http_PProf (c_HTTP cfg))) = Inr a \<and> guarded api a HTTPGroupPProf (rt_Handler rt))"
  using assms by (auto simp: pprof_newFromParams_def Let_def guarded_pprof split: if_splits sum.splits option.splits)

lemma TLSConfig_encrypted: "TLSConfig x fs now l w = (Inr t, w') \<Longrightarrow> Encrypted l \<Longrightarrow> t \<noteq> None"
  by (auto simp: TLSConfig_def Encrypted_def split: option.splits prod.splits)

text \<open>A prepared configuration that serves beyond loopback.\<close>

lemma prepared_http:
  assumes "Prepare E c = (None, cfg)" "\<not> isLoopback (l_HostPort (http_Listen (c_HTTP cfg)))" "served_auths (c_HTTP cfg) \<noteq> {}"
  shows "None \<notin> served_auths (c_HTTP cfg)" "Encrypted (fst (ListenConfig_Listener (http_Listen (c_HTTP cfg)) [WithReloader p cred] w))"
proof -
  have "config_ok E (applyDefaults (Config_reset c))" "c_HTTP cfg = c_HTTP (applyDefaults (Config_reset c))"
    using prepared_fields(1,3) [of E c] assms(1) by simp_all
  then show "None \<notin> served_auths (c_HTTP cfg)" "Encrypted (fst (ListenConfig_Listener (http_Listen (c_HTTP cfg)) [WithReloader p cred] w))"
    using assms(2,3) by (auto simp: listener_mode config_ok_def http_ok_def listen_ok_def plain_ok_def)
qed

text \<open>A prepared configuration always has an address for the metrics.\<close>

lemma prepared_metrics: "\<exists>svr. metrics_newServer h (snd (Prepare E c)) = Inr svr \<and> hs_hostPort svr \<noteq> []"
proof -
  have "c_Metrics (snd (Prepare E c)) = c_Metrics (applyDefaults (Config_reset c))"
    using arg_cong [OF Prepare_reset [of E c], of c_Metrics] by (simp add: Config_reset_def)
  then show ?thesis by (auto simp: metrics_newServer_def applyDefaults_def cmp_Or_def http_New_def)
qed

section \<open>Properties\<close>

text \<open>
  C11. No HTTP route acts for a caller it did not authenticate. On a prepared configuration, the server over the routes of both groups, in
  whatever order they are handed over, that listens beyond loopback serves over TLS; and a request that it
  answers with 200, or that changes the state of the codecs, was admitted, with its method and its path, by the authenticator that the
  configuration gives the group whose route it reached: the profiles below \<open>/debug/pprof/\<close> when they are enabled, the codec server otherwise.
\<close>

theorem http_guarded:
  assumes "Prepare E c = (None, cfg)" "\<not> isLoopback (l_HostPort (http_Listen (c_HTTP cfg)))"
    and "codec_newFromParams api st aenv js enc dec cfg = Inr (rs1, warn1)" "pprof_newFromParams api st aenv profile cfg = Inr (rs2, warn2)"
    and "set routes = set rs1 \<union> set rs2" "http_newFromParams E rel cfg routes w = (Inr (Some svr), w')"
    and "hs_handler svr r s = (resp, evs, s')"
  shows "hs_TLSConfig svr \<noteq> None
    \<and> (rs_status resp = 200 \<or> s' \<noteq> s \<longrightarrow>
        (if pp_Enabled (http_PProf (c_HTTP cfg)) \<and> HasPrefix (rq_Path r) pprof_route
         then \<exists>a. Auth_For api aenv (pp_Auth (http_PProf (c_HTTP cfg))) = Inr a \<and> http_admits api a HTTPGroupPProf r
         else \<exists>a. Auth_For api aenv (cs_Auth (http_CodecServer (c_HTTP cfg))) = Inr a \<and> http_admits api a HTTPGroupCodecServer r))"
proof (intro conjI impI)
  let ?h = "c_HTTP cfg"
  obtain l w1 w2 where l: "ListenConfig_Listener (http_Listen ?h) [WithReloader rel ''http''] w = (l, w1)"
      "TLSConfig (ce_x509 E) (ce_files E) (ce_now E) l w1 = (Inr (hs_TLSConfig svr), w2)"
      "hs_handler svr = serve_routes (map (\<lambda>rt. (rt_Pattern rt, rt_Handler rt)) routes)" "routes \<noteq> []"
    by (rule http_newFromParams_Some [OF assms(6)])
  have "served_auths ?h \<noteq> {}"
    using assms(3-5) l(4) by (cases "cs_Enabled (http_CodecServer ?h)"; cases "pp_Enabled (http_PProf ?h)")
      (auto simp: served_auths_def codec_newFromParams_def pprof_newFromParams_def Let_def)
  note ok = prepared_http [OF assms(1,2) this]
  show "hs_TLSConfig svr \<noteq> None" using TLSConfig_encrypted [OF l(2)] ok(2) [of rel "''http''" w] l(1) by simp
  note codec = codec_mounted [OF assms(3)] and pprof = pprof_mounted [OF assms(4)]
  have auths: "cs_Enabled (http_CodecServer ?h) \<Longrightarrow> cs_Auth (http_CodecServer ?h) \<noteq> None" "pp_Enabled (http_PProf ?h) \<Longrightarrow> pp_Auth (http_PProf ?h) \<noteq> None"
    using ok(1) unfolding served_auths_def by (metis Un_iff insertI1)+
  assume acts: "rs_status resp = 200 \<or> s' \<noteq> s"
  then obtain pattern h where h: "mux_find (map (\<lambda>rt. (rt_Pattern rt, rt_Handler rt)) routes) (rq_Path r) = Some (pattern, h)" "h r s = (resp, evs, s')"
    using serve_routes_cases [OF assms(7) [unfolded l(3)]] by auto
  obtain rt where rt: "rt \<in> set rs1 \<union> set rs2" "pattern = rt_Pattern rt" "h = rt_Handler rt" "mux_matches pattern (rq_Path r)"
    using mux_find_SomeD [OF h(1)] assms(5) by auto
  show "if pp_Enabled (http_PProf ?h) \<and> HasPrefix (rq_Path r) pprof_route
         then \<exists>a. Auth_For api aenv (pp_Auth (http_PProf ?h)) = Inr a \<and> http_admits api a HTTPGroupPProf r
         else \<exists>a. Auth_For api aenv (cs_Auth (http_CodecServer ?h)) = Inr a \<and> http_admits api a HTTPGroupCodecServer r"
  proof (cases "rt \<in> set rs2")
    case True
    have "HasPrefix (rq_Path r) pprof_route" using pprof [OF True auths(2)] rt(2,4) by (auto simp: mux_matches_def HasPrefix_def)
    with pprof [OF True auths(2)] acts h(2) rt(3) show ?thesis by (auto simp: guarded_def)
  next
    case False
    then have rs1: "rt \<in> set rs1" using rt(1) by simp
    have "\<not> (pp_Enabled (http_PProf ?h) \<and> HasPrefix (rq_Path r) pprof_route)"
    proof
      assume pp: "pp_Enabled (http_PProf ?h) \<and> HasPrefix (rq_Path r) pprof_route"
      then obtain rt' where rt': "rt' \<in> set rs2"
        using assms(4) by (auto simp: pprof_newFromParams_def Let_def split: if_splits sum.splits option.splits)
      have "length (rt_Pattern rt') \<le> length pattern"
        by (rule mux_find_longest [OF h(1), of _ "rt_Handler rt'"])
          (use rt' assms(5) pprof [OF rt' auths(2)] pp in \<open>auto simp: mux_matches_def HasSuffix_def pprof_route_def intro!: rev_image_eqI [of rt']\<close>)
      then show False using pprof [OF rt' auths(2)] codec [OF rs1 auths(1)] rt(2) by (simp add: pprof_route_def)
    qed
    then show ?thesis using codec [OF rs1 auths(1)] acts h(2) rt(3) by (auto simp: guarded_def)
  qed
qed

section \<open>Witness\<close>

definition ex_http_config :: Config where
  "ex_http_config = (ex_config False)\<lparr>c_HTTP := (c_HTTP (ex_config False))\<lparr>http_PProf := \<lparr>pp_Enabled = True, pp_Auth = Some ex_auth\<rparr>\<rparr>\<rparr>"

definition ex_profile :: "string \<Rightarrow> (ex_grpc, unit) http_handler" where
  "ex_profile name r s = (\<lparr>rs_status = 200, rs_body = name, rs_header = []\<rparr>, [], s)"

definition ex_http_json :: json_env where
  "ex_http_json = \<lparr>protojson_Unmarshal = (\<lambda>_. Inl (ErrorString ''bad json'')), protojson_Marshal = (\<lambda>_. Inl (ErrorString ''unsupported''))\<rparr>"

definition ex_heap :: "ex_grpc codecRequest" where
  "ex_heap = (ex_post [''debug'', ''pprof'', ''heap''] [])\<lparr>rq_Method := ''GET'', rq_Path := ''/debug/pprof/heap''\<rparr>"

definition ex_codec_routes :: "((ex_grpc, unit) Route list \<times> string list) result" where
  "ex_codec_routes = codec_newFromParams ex_api ex_status ex_auth_env ex_http_json (\<lambda>_ _ ps s. (Inr ps, s)) (\<lambda>_ _ ps s. (Inr ps, s)) ex_http_config"

definition ex_pprof_routes :: "((ex_grpc, unit) Route list \<times> string list) result" where
  "ex_pprof_routes = pprof_newFromParams ex_api ex_status ex_auth_env ex_profile ex_http_config"

definition ex_http_server :: "(ex_grpc, unit) http_Server option result \<times> creds_world" where
  "ex_http_server = http_newFromParams ex_config_env True ex_http_config (fst (projr ex_codec_routes) @ fst (projr ex_pprof_routes)) NewReloader"

text \<open>Preparation leaves what the three constructors read as it was.\<close>

lemma newFromParams_cong:
  assumes "c_HTTP c = c_HTTP d" "c_Encryption c = c_Encryption d"
  shows "pprof_newFromParams api st aenv profile c = pprof_newFromParams api st aenv profile d"
    "http_newFromParams E rel c routes w = http_newFromParams E rel d routes w"
    "e_Overrides (c_Encryption d) = [] \<Longrightarrow> codec_newFromParams api st aenv js enc dec c = codec_newFromParams api st aenv js enc dec d"
  using assms by (simp_all add: pprof_newFromParams_def http_newFromParams_def codec_newFromParams_def codec_opts_def NewOverrideMap_def policyNamespaces_def Let_def)

lemma not_isl_Inr: "\<not> isl x \<longleftrightarrow> (\<exists>a b. x = Inr (a, b))"
  by (cases x) auto

lemma ex_http_prepared: "fst (Prepare ex_config_env ex_http_config) = None"
  by code_simp

lemma ex_http_built: "\<not> isl ex_codec_routes" "\<not> isl ex_pprof_routes" "\<not> isLoopback (l_HostPort (http_Listen (c_HTTP ex_http_config)))"
  by code_simp+

lemma ex_http_serves: "case fst ex_http_server of Inr (Some svr) \<Rightarrow> rs_status (fst (hs_handler svr ex_heap ())) = 200 | _ \<Rightarrow> False"
  by code_simp

theorem http_guarded_witness:
  "\<exists>svr w. ex_http_server = (Inr (Some svr), w)
     \<and> hs_TLSConfig svr \<noteq> None \<and> rs_status (fst (hs_handler svr ex_heap ())) = 200 \<and> http_admits ex_api ex_token_auth HTTPGroupPProf ex_heap"
proof -
  define cfg where "cfg = snd (Prepare ex_config_env ex_http_config)"
  have prep: "Prepare ex_config_env ex_http_config = (None, cfg)" using ex_http_prepared by (metis cfg_def prod.collapse)
  have kept: "c_HTTP cfg = c_HTTP ex_http_config" "c_Encryption cfg = c_Encryption ex_http_config" "e_Overrides (c_Encryption ex_http_config) = []"
    using prepared_fields(3,4) [OF ex_http_prepared] by (simp_all add: cfg_def Config_reset_def applyDefaults_def ex_http_config_def ex_config_def)
  obtain rs1 w1 rs2 w2 where rs: "ex_codec_routes = Inr (rs1, w1)" "ex_pprof_routes = Inr (rs2, w2)"
    using ex_http_built(1,2) by (auto simp: not_isl_Inr)
  note built = newFromParams_cong [OF kept(1,2)]
  obtain res w where res: "ex_http_server = (res, w)" by (metis prod.exhaust)
  obtain svr where svr: "ex_http_server = (Inr (Some svr), w)" "rs_status (fst (hs_handler svr ex_heap ())) = 200"
    using ex_http_serves unfolding res by (auto split: sum.splits option.splits)
  obtain resp evs where h: "hs_handler svr ex_heap () = (resp, evs, ())" by (metis prod.exhaust unit.exhaust)
  have "pp_Enabled (http_PProf (c_HTTP cfg))" "HasPrefix (rq_Path ex_heap) pprof_route" "pp_Auth (http_PProf (c_HTTP cfg)) = Some ex_auth"
    by (simp_all add: kept ex_http_config_def ex_heap_def HasPrefix_def pprof_route_def)
  then show ?thesis
    using http_guarded [OF prep _ built(3) [OF kept(3), THEN trans, OF rs(1) [unfolded ex_codec_routes_def]]
        built(1) [THEN trans, OF rs(2) [unfolded ex_pprof_routes_def]] _ built(2) [THEN trans, OF svr(1) [unfolded ex_http_server_def]] h]
      svr h ex_http_built(3) by (intro exI [of _ svr] exI [of _ w]) (simp add: kept(1) rs ex_Auth_For)
qed

end
