(* ===== verification/Server.thy ===== *)
theory Server
  imports Auth Transition
begin

text \<open>
  \<open>internal/server\<close>: the gRPC server of the gateway with its health service, the periodic check that drives it, the
  liveness check that calls the server itself, the recovery of panics and the reporter's interceptor.

  gRPC's health server is a parameter: the record \<open>health_api\<close>, with \<open>health_doc\<close> as what its documentation says. The
  loop of \<open>runHealthCheck\<close> and \<open>Stop\<close> run in goroutines of their own; \<open>server_step\<close> has their interleavings, with the
  writes of the single entries as single steps. Stream interceptors are functions around the rest of
  the chain, whatever it returns.
\<close>

section \<open>The health service\<close>

datatype serving = SERVING | NOT_SERVING | SERVICE_UNKNOWN

record 'h health_api =
  health_NewServer :: 'h
  SetServingStatus :: "string \<Rightarrow> serving \<Rightarrow> 'h \<Rightarrow> 'h"
  health_Shutdown :: "'h \<Rightarrow> 'h"
  health_status :: "'h \<Rightarrow> string \<Rightarrow> serving option"
  health_down :: "'h \<Rightarrow> bool"

text \<open>After \<open>Shutdown\<close> no status is \<open>SERVING\<close> and setting one is ignored.\<close>

definition health_doc :: "'h health_api \<Rightarrow> bool" where
  "health_doc A \<longleftrightarrow> \<not> health_down A (health_NewServer A) \<and> (\<forall>h. health_down A (health_Shutdown A h))
     \<and> (\<forall>h n s. health_down A h \<longrightarrow> SetServingStatus A n s h = h)
     \<and> (\<forall>h n s. \<not> health_down A h \<longrightarrow> \<not> health_down A (SetServingStatus A n s h) \<and> health_status A (SetServingStatus A n s h) = (health_status A h)(n \<mapsto> s))
     \<and> (\<forall>h n. health_down A h \<longrightarrow> health_status A h n \<noteq> Some SERVING)"

section \<open>Options and construction\<close>

type_synonym ('g, 'r) stream_interceptor = "string \<Rightarrow> ('g goctx \<Rightarrow> 'r) \<Rightarrow> 'g goctx \<Rightarrow> 'r"

datatype ('g, 'r) grpcOption = GCreds string | GChainStream "('g, 'r) stream_interceptor list" | GUnknownService "'g goctx \<Rightarrow> 'r" | GServerCodec string

record ('g, 'r) server_options =
  so_creds :: "string result"
  so_encrypted :: bool
  so_loopback :: "(int \<times> int) option"
  so_healthServices :: "string list"
  so_shutdownTimeout :: int
  so_streamInterceptors :: "('g, 'r) stream_interceptor list"
  so_unknownHandler :: "('g goctx \<Rightarrow> 'r) option"
  so_serverCodec :: "string option"

type_synonym ('g, 'r) serverOption = "('g, 'r) server_options \<Rightarrow> ('g, 'r) server_options"

definition defaultShutdownTimeout :: int where "defaultShutdownTimeout = 5 * 10 ^ 9"
definition minShutdownTimeout :: int where "minShutdownTimeout = 50 * 10 ^ 6"

definition server_WithCredentials :: "string result \<Rightarrow> bool \<Rightarrow> ('g, 'r) serverOption" where
  "server_WithCredentials cr enc sv = sv\<lparr>so_creds := cr, so_encrypted := enc\<rparr>"

definition WithStreamInterceptor :: "('g, 'r) stream_interceptor list \<Rightarrow> ('g, 'r) serverOption" where
  "WithStreamInterceptor ins sv = sv\<lparr>so_streamInterceptors := so_streamInterceptors sv @ ins\<rparr>"

definition WithUnknownServiceHandler :: "('g goctx \<Rightarrow> 'r) \<Rightarrow> ('g, 'r) serverOption" where
  "WithUnknownServiceHandler h sv = sv\<lparr>so_unknownHandler := Some h\<rparr>"

definition WithServerCodec :: "string \<Rightarrow> ('g, 'r) serverOption" where
  "WithServerCodec c sv = sv\<lparr>so_serverCodec := Some c\<rparr>"

definition WithLoopbackHealthCheck :: "int \<Rightarrow> int \<Rightarrow> ('g, 'r) serverOption" where
  "WithLoopbackHealthCheck interval timeout sv = sv\<lparr>so_loopback := Some (interval, timeout)\<rparr>"

definition WithHealthServices :: "string list \<Rightarrow> ('g, 'r) serverOption" where
  "WithHealthServices names sv = sv\<lparr>so_healthServices := so_healthServices sv @ names\<rparr>"

definition server_WithShutdownTimeout :: "int \<Rightarrow> ('g, 'r) serverOption" where
  "server_WithShutdownTimeout d sv = sv\<lparr>so_shutdownTimeout := max minShutdownTimeout d\<rparr>"

definition serverOptions :: "('g, 'r) server_options \<Rightarrow> string \<Rightarrow> ('g, 'r) grpcOption list" where
  "serverOptions sv cr =
     [GCreds cr]
     @ (if so_streamInterceptors sv \<noteq> [] then [GChainStream (so_streamInterceptors sv)] else [])
     @ (case so_unknownHandler sv of None \<Rightarrow> [] | Some h \<Rightarrow> [GUnknownService h])
     @ (case so_serverCodec sv of None \<Rightarrow> [] | Some c \<Rightarrow> [GServerCodec c])"

section \<open>The liveness check\<close>

definition markLoopback :: "('g, 'r) stream_interceptor" where
  "markLoopback meth handler ctx = handler (WithLoopback ctx)"

definition newLoopbackServer :: "('g, 'r) server_options \<Rightarrow> ('g, 'r) grpcOption list" where
  "newLoopbackServer sv = GChainStream [markLoopback] # serverOptions sv ''insecure''"

definition context_DeadlineExceeded :: goerror where
  "context_DeadlineExceeded = ErrorString ''context deadline exceeded''"

definition answered :: "status_api \<Rightarrow> goerror \<Rightarrow> bool" where
  "answered st err =
     (if errors_Is err context_DeadlineExceeded then False
      else if \<not> FromError st err then False
      else case status_Code st err of DeadlineExceeded \<Rightarrow> False | Unavailable \<Rightarrow> False | _ \<Rightarrow> True)"

definition statusFor :: "status_api \<Rightarrow> goerror option \<Rightarrow> serving" where
  "statusFor st err =
     (case err of None \<Rightarrow> SERVING | Some e \<Rightarrow> if answered st e then SERVING else NOT_SERVING)"

text \<open>\<open>watchOnce\<close> and \<open>Status\<close>, given what opening the stream and reading from it return: the status, and the level logged at.\<close>

definition watchOnce :: "goerror option \<Rightarrow> goerror option \<Rightarrow> goerror option" where
  "watchOnce opn recv = (case opn of Some err \<Rightarrow> Some err | None \<Rightarrow> recv)"

definition loopback_Status :: "status_api \<Rightarrow> goerror option \<Rightarrow> serving \<times> logLevel option" where
  "loopback_Status st err =
     (statusFor st err, (case err of None \<Rightarrow> None | Some e \<Rightarrow> if answered st e then Some Debug else Some Warn))"

section \<open>The server\<close>

text \<open>Where the goroutine of \<open>runHealthCheck\<close> is: not started, writing the entries, waiting, or done.\<close>

datatype hcheck = HCIdle | HCSetting "string list" | HCWaiting | HCExited

record ('h, 'g, 'r) Server =
  sv_grpc :: "('g, 'r) grpcOption list"
  sv_loopbackSvr :: "('g, 'r) grpcOption list option"
  sv_health :: 'h
  sv_healthServices :: "string list"
  sv_shutdownTimeout :: int
  sv_cancelFunc :: bool
  sv_cancelled :: bool
  sv_stopped :: bool
  hc_at :: hcheck
  hc_next :: serving

definition defaultServer :: "('g, 'r) server_options" where
  "defaultServer = \<lparr>so_creds = Inr ''insecure'', so_encrypted = False, so_loopback = None, so_healthServices = [],
     so_shutdownTimeout = defaultShutdownTimeout, so_streamInterceptors = [], so_unknownHandler = None, so_serverCodec = None\<rparr>"

definition server_New :: "'h health_api \<Rightarrow> ('g, 'r) serverOption list \<Rightarrow> ('h, 'g, 'r) Server result" where
  "server_New A sopts =
     (let opts = fold (\<lambda>opt sv. opt sv) sopts defaultServer
      in case so_creds opts of
           Inl err \<Rightarrow> Inl err
         | Inr svrCreds \<Rightarrow>
             Inr \<lparr>sv_grpc = serverOptions opts svrCreds, sv_loopbackSvr = map_option (\<lambda>_. newLoopbackServer opts) (so_loopback opts),
                  sv_health = fold (\<lambda>name. SetServingStatus A name SERVING) (so_healthServices opts) (health_NewServer A),
                  sv_healthServices = so_healthServices opts, sv_shutdownTimeout = so_shutdownTimeout opts, sv_cancelFunc = False,
                  sv_cancelled = False, sv_stopped = False, hc_at = HCIdle, hc_next = SERVING\<rparr>)"

text \<open>What \<open>Start\<close> does before it serves: it keeps the cancel function, warns about a plaintext listener and starts the health check.\<close>

definition server_Start :: "bool \<Rightarrow> ('h, 'g, 'r) Server \<Rightarrow> ('h, 'g, 'r) Server \<times> string list" where
  "server_Start encrypted s =
     (s\<lparr>sv_cancelFunc := True, hc_at := HCSetting ([] # sv_healthServices s), hc_next := SERVING\<rparr>,
      (if encrypted then [] else [''Running with insecure credentials. Configure TLS for production use.'']) @ [''Starting the server''])"

text \<open>The first part of \<open>Stop\<close>, and the drain, given how it ends: in time, or with the error of the context if that ended it.\<close>

definition Stop_begin :: "'h health_api \<Rightarrow> ('h, 'g, 'r) Server \<Rightarrow> ('h, 'g, 'r) Server" where
  "Stop_begin A s = s\<lparr>sv_health := health_Shutdown A (sv_health s), sv_cancelled := (sv_cancelled s \<or> sv_cancelFunc s), sv_stopped := True\<rparr>"

datatype drain = Drained | GaveUp "goerror option"
datatype stop_act = SvLoopbackStop | SvGracefulStop | SvLog string | SvStop

definition Stop_drain :: "('h, 'g, 'r) Server \<Rightarrow> drain \<Rightarrow> goerror option \<times> stop_act list" where
  "Stop_drain s d =
     (None, (if sv_loopbackSvr s \<noteq> None then [SvLoopbackStop] else []) @ [SvGracefulStop]
        @ (case d of
             Drained \<Rightarrow> [SvLog ''Server stopped cleanly'']
           | GaveUp ctxErr \<Rightarrow>
               [SvLog (''Drain ended with calls in flight. Dropping them: '' @ (case ctxErr of None \<Rightarrow> ''shutdown timeout'' | Some err \<Rightarrow> ''stop context: '' @ Error err)), SvStop]))"

text \<open>The goroutine of \<open>runHealthCheck\<close> beside \<open>Start\<close>, \<open>Stop\<close> and the end of the context.\<close>

inductive server_step :: "'h health_api \<Rightarrow> ('h, 'g, 'r) Server \<Rightarrow> ('h, 'g, 'r) Server \<Rightarrow> bool"
  for A where
  start: "hc_at s = HCIdle \<Longrightarrow> server_step A s (fst (server_Start enc s))"
| set_status: "hc_at s = HCSetting (n # ns) \<Longrightarrow>
    server_step A s (s\<lparr>sv_health := SetServingStatus A n (hc_next s) (sv_health s), hc_at := HCSetting ns\<rparr>)"
| waits: "hc_at s = HCSetting [] \<Longrightarrow> server_step A s (s\<lparr>hc_at := HCWaiting\<rparr>)"
| ticks: "hc_at s = HCWaiting \<Longrightarrow> server_step A s (s\<lparr>hc_next := st, hc_at := HCSetting ([] # sv_healthServices s)\<rparr>)"
| exits: "hc_at s = HCWaiting \<Longrightarrow> sv_cancelled s \<Longrightarrow> server_step A s (s\<lparr>sv_health := health_Shutdown A (sv_health s), hc_at := HCExited\<rparr>)"
| stop: "server_step A s (Stop_begin A s)"
| ends: "server_step A s (s\<lparr>sv_cancelled := True\<rparr>)"

section \<open>Panics and the reporter\<close>

text \<open>\<open>errors.As\<close> for a \<open>PanicError\<close>: the first one in the tree.\<close>

fun as_panic :: "goerror \<Rightarrow> string option" where
  "as_panic (PanicError v) = Some v"
| "as_panic (WrapError s es) = Option.bind (List.find (\<lambda>r. r \<noteq> None) (map as_panic es)) id"
| "as_panic (JoinError es) = Option.bind (List.find (\<lambda>r. r \<noteq> None) (map as_panic es)) id"
| "as_panic _ = None"

text \<open>How the rest of the chain ends. The interceptor's result, what it logs, and the methods the handler is told of.\<close>

datatype outcome = Returned "goerror option" | Panicked string

definition recoveryInterceptor :: "bool \<Rightarrow> string \<Rightarrow> outcome \<Rightarrow> goerror option \<times> (string \<times> string) list \<times> string list" where
  "recoveryInterceptor hasFn meth out =
     (let err = (case out of Panicked p \<Rightarrow> Some (PanicError p) | Returned err \<Rightarrow> err)
      in case Option.bind err as_panic of
           None \<Rightarrow> (err, [], [])
         | Some v \<Rightarrow> (Some (PanicError v), [(meth, v)], if hasFn then [meth] else []))"

definition Reporter_StreamInterceptor :: "status_api \<Rightarrow> string \<Rightarrow> goerror option \<Rightarrow> goerror option \<times> (string \<times> code)" where
  "Reporter_StreamInterceptor st meth err = (err, (meth, case err of None \<Rightarrow> OK | Some e \<Rightarrow> status_Code st e))"

section \<open>Lemmas\<close>

text \<open>The chain of a list of options, as gRPC runs it: the first interceptor outermost.\<close>

fun stream_chain :: "('g, 'r) stream_interceptor list \<Rightarrow> ('g, 'r) stream_interceptor" where
  "stream_chain [] meth handler = handler"
| "stream_chain (i # is) meth handler = i meth (stream_chain is meth handler)"

fun served_chain :: "('g, 'r) grpcOption list \<Rightarrow> ('g, 'r) stream_interceptor list" where
  "served_chain [] = []"
| "served_chain (GChainStream is # opts) = is @ served_chain opts"
| "served_chain (_ # opts) = served_chain opts"

lemma served_chain_options [simp]: "served_chain (serverOptions sv cr) = so_streamInterceptors sv"
  by (auto simp: serverOptions_def split: option.splits)

text \<open>The server of the liveness check runs the interceptors of the real one, on a marked context.\<close>

lemma loopback_chain:
  "stream_chain (served_chain (newLoopbackServer sv)) meth handler ctx
     = stream_chain (served_chain (serverOptions sv cr)) meth handler (WithLoopback ctx)"
  by (simp add: newLoopbackServer_def markLoopback_def)

subsection \<open>The entries of the health service\<close>

text \<open>The entries the loop has written in this round.\<close>

definition written :: "('h, 'g, 'r) Server \<Rightarrow> string set" where
  "written s = (case hc_at s of
      HCSetting ns \<Rightarrow> set ([] # sv_healthServices s) - set ns
    | HCWaiting \<Rightarrow> set ([] # sv_healthServices s)
    | _ \<Rightarrow> {})"

definition server_inv :: "'h health_api \<Rightarrow> ('h, 'g, 'r) Server \<Rightarrow> bool" where
  "server_inv A s \<longleftrightarrow> (sv_stopped s \<longrightarrow> health_down A (sv_health s))
     \<and> (\<not> health_down A (sv_health s) \<longrightarrow> (\<forall>n\<in>written s. health_status A (sv_health s) n = Some (hc_next s)))"

definition server_start :: "'h health_api \<Rightarrow> ('h, 'g, 'r) Server \<Rightarrow> bool" where
  "server_start A s \<longleftrightarrow> (\<exists>sopts. server_New A sopts = Inr s)"

lemma health_docD:
  assumes "health_doc A"
  shows "health_down A (health_Shutdown A h)" "health_down A h \<Longrightarrow> SetServingStatus A n s h = h"
    "\<not> health_down A h \<Longrightarrow> \<not> health_down A (SetServingStatus A n s h)"
    "\<not> health_down A h \<Longrightarrow> health_status A (SetServingStatus A n s h) = (health_status A h)(n \<mapsto> s)"
    "health_down A h \<Longrightarrow> health_status A h n \<noteq> Some SERVING"
  using assms by (simp_all add: health_doc_def)

lemma server_step_inv:
  assumes "health_doc A"
  shows "server_step A s s' \<Longrightarrow> server_inv A s \<Longrightarrow> server_inv A s'"
proof (induction rule: server_step.induct)
  case (set_status s n ns)
  show ?case
  proof (cases "health_down A (sv_health s)")
    case True
    then show ?thesis using set_status health_docD(2) [OF assms] by (simp add: server_inv_def)
  next
    case False
    then show ?thesis using set_status health_docD(3,4) [OF assms False]
      by (auto simp: server_inv_def written_def)
  qed
qed (use health_docD(1) [OF assms] in \<open>auto simp: server_inv_def written_def server_Start_def Stop_begin_def cong: hcheck.case_cong\<close>)

text \<open>The invariant of the runs over a health server that does what it documents.\<close>

lemma server_New_idle:
  assumes "server_New A sopts = Inr s"
  shows "\<not> sv_stopped s" "hc_at s = HCIdle"
  using assms by (cases "so_creds (fold (\<lambda>opt sv. opt sv) sopts defaultServer)"; auto simp: server_New_def Let_def)+

lemma server_start_inv: "server_start A s \<Longrightarrow> server_inv A s"
  by (auto simp: server_start_def server_inv_def written_def dest: server_New_idle)

interpretation server: reachable_invariant "server_step A" "\<lambda>s. health_doc A \<longrightarrow> server_inv A s" "server_start A" for A
  by unfold_locales (blast intro: server_step_inv server_start_inv)+

section \<open>Properties\<close>

text \<open>
  C24. The health service of the gateway, over every interleaving of the check's loop with \<open>Start\<close> and \<open>Stop\<close>: once
  \<open>Stop\<close> was called no service is reported as serving, also not by a refresh that was under way; and while it
  waits between two checks, every configured service and the unnamed one report what the last check found.
\<close>

theorem health_consistent:
  assumes "health_doc A" "runs_from (server_start A) (server_step A) s"
  shows "(sv_stopped s \<longrightarrow> (\<forall>n. health_status A (sv_health s) n \<noteq> Some SERVING))
    \<and> (hc_at s = HCWaiting \<and> \<not> health_down A (sv_health s) \<longrightarrow>
        (\<forall>n\<in>set ([] # sv_healthServices s). health_status A (sv_health s) n = Some (hc_next s)))"
  using server.reachable_I [OF assms(2)] assms(1) health_docD(5) [OF assms(1)] by (auto simp: server_inv_def written_def)

definition ex_health :: "((string \<times> serving) list \<times> bool) health_api" where
  "ex_health = \<lparr>health_NewServer = ([([], SERVING)], False),
     SetServingStatus = (\<lambda>n s (m, d). if d then (m, d) else (AList.update n s m, d)),
     health_Shutdown = (\<lambda>(m, d). (map (\<lambda>(n, _). (n, NOT_SERVING)) m, True)),
     health_status = (\<lambda>(m, d) n. if d then map_option (\<lambda>_. NOT_SERVING) (map_of m n) else map_of m n), health_down = snd\<rparr>"

lemma ex_health_ok: "health_doc ex_health"
  by (auto simp: health_doc_def ex_health_def fun_eq_iff)

definition ex_server :: "((string \<times> serving) list \<times> bool, unit, unit) Server" where
  "ex_server = (case server_New ex_health [WithHealthServices [''svc''], WithLoopbackHealthCheck 30 5] of Inr s \<Rightarrow> s)"

definition ex_served :: "((string \<times> serving) list \<times> bool, unit, unit) Server" where
  "ex_served = (fst (server_Start True ex_server))\<lparr>sv_health := SetServingStatus ex_health ''svc'' SERVING (SetServingStatus ex_health [] SERVING (sv_health ex_server)),
     hc_at := HCWaiting\<rparr>"

lemma ex_served_run: "runs_from (server_start ex_health) (server_step ex_health) (Stop_begin ex_health ex_served)"
proof -
  let ?s1 = "fst (server_Start True ex_server)"
  let ?s2 = "?s1\<lparr>sv_health := SetServingStatus ex_health [] SERVING (sv_health ex_server), hc_at := HCSetting [''svc'']\<rparr>"
  let ?s3 = "?s2\<lparr>sv_health := SetServingStatus ex_health ''svc'' SERVING (sv_health ?s2), hc_at := HCSetting []\<rparr>"
  have new: "server_New ex_health [WithHealthServices [''svc''], WithLoopbackHealthCheck 30 5] = Inr ex_server"
    by (simp add: ex_server_def server_New_def Let_def WithHealthServices_def WithLoopbackHealthCheck_def defaultServer_def)
  have "sv_healthServices ex_server = [''svc'']"
    by (simp add: ex_server_def server_New_def Let_def WithHealthServices_def WithLoopbackHealthCheck_def defaultServer_def)
  with new server_New_idle [OF new] have s: "hc_at ex_server = HCIdle" "sv_healthServices ex_server = [''svc'']" "server_start ex_health ex_server"
    by (auto simp: server_start_def)
  have 1: "server_step ex_health ex_server ?s1" using s(1) by (rule server_step.start)
  have 2: "server_step ex_health ?s1 ?s2"
    using server_step.set_status [of ?s1 "[]" "[''svc'']" ex_health] s by (simp add: server_Start_def)
  have 3: "server_step ex_health ?s2 ?s3"
    using server_step.set_status [of ?s2 "''svc''" "[]" ex_health] by (simp add: server_Start_def)
  have 4: "server_step ex_health ?s3 ex_served"
    using server_step.waits [of ?s3 ex_health] by (simp add: ex_served_def)
  have "(server_step ex_health)\<^sup>*\<^sup>* ex_server (Stop_begin ex_health ex_served)"
    by (rule converse_rtranclp_into_rtranclp, rule 1, rule converse_rtranclp_into_rtranclp, rule 2, rule converse_rtranclp_into_rtranclp, rule 3,
        rule converse_rtranclp_into_rtranclp, rule 4, rule r_into_rtranclp, rule server_step.stop)
  with s(3) show ?thesis by (auto simp: runs_from_def)
qed

theorem health_consistent_witness:
  "health_status ex_health (sv_health ex_served) ''svc'' = Some SERVING
   \<and> health_status ex_health (sv_health (Stop_begin ex_health ex_served)) ''svc'' \<noteq> Some SERVING"
proof -
  have "health_status ex_health (sv_health ex_served) ''svc'' = Some SERVING" by code_simp
  with health_consistent [OF ex_health_ok ex_served_run] show ?thesis by (simp add: Stop_begin_def)
qed

text \<open>
  A panic in the handler, or one that forwarding recovered and returned, wrapped or not, reaches the caller as the generic internal
  status and never as its text; it is logged once with its method. Every other result is passed on unchanged and
  nothing is logged.
\<close>

theorem recovery_generic:
  "case recoveryInterceptor hasFn meth out of (err, logged, told) \<Rightarrow>
     (if \<exists>v. out = Panicked v \<or> (\<exists>e. out = Returned (Some e) \<and> as_panic e = Some v)
      then (\<exists>e v. err = Some e \<and> GRPCStatus e = Some (Internal, ''internal error'') \<and> logged = [(meth, v)]) \<and> told = (if hasFn then [meth] else [])
      else out = Returned err \<and> logged = [] \<and> told = [])"
  by (cases out) (auto simp: recoveryInterceptor_def Let_def GRPCStatus_def split: option.splits bind_splits)

text \<open>
  The liveness check takes a rejection for an answer unless its code is \<open>Unavailable\<close> or \<open>DeadlineExceeded\<close>: an authenticator that cannot reach its
  extension server rejects the check with \<open>Unavailable\<close>, and the gateway then reports itself as not serving.
\<close>

theorem loopback_rejection:
  assumes "status_doc st"
  shows "statusFor st (Some (Rejection c m d)) = (if c \<in> {Unavailable, DeadlineExceeded} then NOT_SERVING else SERVING)"
proof -
  have "FromError st (Rejection c m d)" "status_Code st (Rejection c m d) = c" using assms by (simp_all add: status_doc_def)
  then show ?thesis by (cases c) (simp_all add: statusFor_def answered_def context_DeadlineExceeded_def)
qed

end
