(* ===== verification/Metrics_Reporters.thy ===== *)
theory Metrics_Reporters
  imports Server Router Kms Codec_Server "HOL-Library.Sublist"
begin

text \<open>
  \<open>internal/metrics\<close> (\<open>labels.go\<close>, \<open>factory.go\<close>) and the reporters of \<open>internal/router\<close>, \<open>internal/server\<close>, \<open>internal/proxy\<close>,
  \<open>internal/codecserver\<close> and \<open>internal/kms\<close>: what each of them counts, under which labels. A reporter emits a list of updates of
  labelled series; how a series adds up is Prometheus's business. The values of durations are left out: a histogram gets a sample.

  Prometheus is a parameter: whether a registration panics, and whether a series can be had for a list of label values. What is
  relied on (\<open>metrics_doc\<close>) is documented: a series is had exactly for as many values as the collector has labels, each valid UTF-8,
  and \<open>WithLabelValues\<close> panics otherwise.
\<close>

section \<open>UTF-8\<close>

text \<open>\<open>utf8.ValidString\<close>: the ranges of the bytes that follow a leading byte.\<close>

definition rune_tail :: "nat \<Rightarrow> (nat \<times> nat) list option" where
  "rune_tail b =
     (let c = (0x80, 0xBF)
      in if b < 0x80 then Some []
         else if 0xC2 \<le> b \<and> b \<le> 0xDF then Some [c]
         else if b = 0xE0 then Some [(0xA0, 0xBF), c]
         else if b = 0xED then Some [(0x80, 0x9F), c]
         else if 0xE1 \<le> b \<and> b \<le> 0xEF then Some [c, c]
         else if b = 0xF0 then Some [(0x90, 0xBF), c, c]
         else if 0xF1 \<le> b \<and> b \<le> 0xF3 then Some [c, c, c]
         else if b = 0xF4 then Some [(0x80, 0x8F), c, c]
         else None)"

fun tail_ok :: "(nat \<times> nat) list \<Rightarrow> string \<Rightarrow> string option" where
  "tail_ok [] s = Some s"
| "tail_ok (_ # _) [] = None"
| "tail_ok ((lo, hi) # rs) (c # s) = (if lo \<le> of_char c \<and> of_char c \<le> hi then tail_ok rs s else None)"

lemma tail_ok_shape: "tail_ok rs s = Some s' \<Longrightarrow> s' = drop (length rs) s \<and> length rs \<le> length s"
  by (induction rs s rule: tail_ok.induct) (auto split: if_splits)

function ValidString :: "string \<Rightarrow> bool" where
  "ValidString [] = True"
| "ValidString (c # s) =
     (case rune_tail (of_char c) of
        None \<Rightarrow> False
      | Some rs \<Rightarrow> (case tail_ok rs s of None \<Rightarrow> False | Some s' \<Rightarrow> ValidString s'))"
  by pat_completeness auto
termination by (relation "measure length") (auto dest: tail_ok_shape)

section \<open>internal/metrics/labels.go\<close>

definition maxLabelValueLen :: nat where "maxLabelValueLen = 256"

record MetadataLabels =
  mdl_names :: "string list"
  mdl_headers :: "string list"

definition NewMetadataLabels :: "MetricLabel list \<Rightarrow> MetadataLabels" where
  "NewMetadataLabels cfg = \<lparr>mdl_names = map ml_Name cfg, mdl_headers = map (\<lambda>l. ToLower (ml_Header l)) cfg\<rparr>"

function drop_partial :: "string \<Rightarrow> string" where
  "drop_partial v = (if v \<noteq> [] \<and> \<not> ValidString v then drop_partial (butlast v) else v)"
  by pat_completeness auto
termination by (relation "measure length") (auto simp del: ValidString.simps)

declare drop_partial.simps [simp del]

definition labelValue :: "string list \<Rightarrow> string" where
  "labelValue vals =
     (if vals = [] then []
      else let v = last vals
       in if \<not> ValidString v then []
          else if length v > maxLabelValueLen then drop_partial (take maxLabelValueLen v) else v)"

definition AppendValues :: "'g grpc_api \<Rightarrow> MetadataLabels \<Rightarrow> 'g goctx \<Rightarrow> string list \<Rightarrow> string list" where
  "AppendValues api l ctx dst =
     (if mdl_headers l = [] then dst
      else dst @ map (\<lambda>h. labelValue (MD_Get api (incoming api ctx) h)) (mdl_headers l))"

section \<open>internal/metrics/factory.go\<close>

datatype vec_kind = CounterVec | HistogramVec | GaugeVec

record vec =
  v_kind :: vec_kind
  v_namespace :: string
  v_subsystem :: string
  v_name :: string
  v_labels :: "string list"

datatype panic_value = PanicErr goerror | PanicOther string

record metrics_env =
  pr_Register :: "vec list \<Rightarrow> vec \<Rightarrow> panic_value option"
  pr_WithLabelValues :: "vec \<Rightarrow> string list \<Rightarrow> panic_value option"
  code_String :: "code \<Rightarrow> string"

definition metrics_doc :: "metrics_env \<Rightarrow> bool" where
  "metrics_doc E \<longleftrightarrow>
     (\<forall>v lvs. pr_WithLabelValues E v lvs = None \<longleftrightarrow> length lvs = length (v_labels v) \<and> list_all ValidString lvs)
     \<and> (\<forall>c. ValidString (code_String E c))"

record Factory =
  f_namespace :: string
  f_subsystem :: string

definition metrics_New :: "string \<Rightarrow> Factory" where
  "metrics_New ns = \<lparr>f_namespace = ns, f_subsystem = []\<rparr>"

definition ForSubsystem :: "Factory \<Rightarrow> string \<Rightarrow> Factory" where
  "ForSubsystem f subsys = \<lparr>f_namespace = f_namespace f, f_subsystem = subsys\<rparr>"

text \<open>What may panic, in sequence, and the call that stops at a panic.\<close>

definition andThen :: "(panic_value + 'a) \<Rightarrow> ('a \<Rightarrow> panic_value + 'b) \<Rightarrow> panic_value + 'b" where
  "andThen x k = (case x of Inl p \<Rightarrow> Inl p | Inr y \<Rightarrow> k y)"

text \<open>A new collector, on a registry that holds the collectors registered so far.\<close>

definition register :: "metrics_env \<Rightarrow> vec_kind \<Rightarrow> Factory \<Rightarrow> string \<Rightarrow> string list \<Rightarrow> vec list \<Rightarrow> panic_value + (vec \<times> vec list)" where
  "register E kind f name labels regs =
     (let v = \<lparr>v_kind = kind, v_namespace = f_namespace f, v_subsystem = f_subsystem f, v_name = name, v_labels = labels\<rparr>
      in case pr_Register E regs v of Some p \<Rightarrow> Inl p | None \<Rightarrow> Inr (v, v # regs))"

definition NewCounter :: "metrics_env \<Rightarrow> Factory \<Rightarrow> string \<Rightarrow> string list \<Rightarrow> vec list \<Rightarrow> panic_value + (vec \<times> vec list)" where
  "NewCounter E f = register E CounterVec f"

definition NewHistogram :: "metrics_env \<Rightarrow> Factory \<Rightarrow> string \<Rightarrow> string list \<Rightarrow> vec list \<Rightarrow> panic_value + (vec \<times> vec list)" where
  "NewHistogram E f = register E HistogramVec f"

definition NewGauge :: "metrics_env \<Rightarrow> Factory \<Rightarrow> string \<Rightarrow> vec list \<Rightarrow> panic_value + (vec \<times> vec list)" where
  "NewGauge E f name = register E GaugeVec f name []"

text \<open>A series, and what happens to it.\<close>

type_synonym series = "vec \<times> string list"

datatype emission = Inc series | Sample series | SetGauge vec nat

definition WithLabelValues :: "metrics_env \<Rightarrow> vec \<Rightarrow> string list \<Rightarrow> panic_value + series" where
  "WithLabelValues E v lvs = (case pr_WithLabelValues E v lvs of Some p \<Rightarrow> Inl p | None \<Rightarrow> Inr (v, lvs))"

text \<open>The reference: an emission under its labels, without a handle.\<close>

definition emit :: "metrics_env \<Rightarrow> (series \<Rightarrow> emission) \<Rightarrow> vec \<Rightarrow> string list \<Rightarrow> panic_value + emission list" where
  "emit E how v lvs = andThen (WithLabelValues E v lvs) (\<lambda>s. Inr [how s])"

text \<open>An emission through the handle of its key, if it has one.\<close>

definition emit_by :: "metrics_env \<Rightarrow> ('k \<times> series) list \<Rightarrow> 'k \<Rightarrow> (series \<Rightarrow> emission) \<Rightarrow> vec \<Rightarrow> string list \<Rightarrow> panic_value + emission list" where
  "emit_by E handles key how v lvs = (case map_of handles key of Some s \<Rightarrow> Inr [how s] | None \<Rightarrow> emit E how v lvs)"

text \<open>Handles for a list of keys with their label values.\<close>

fun resolve_handles :: "metrics_env \<Rightarrow> vec \<Rightarrow> ('k \<times> string list) list \<Rightarrow> ('k \<times> series) list \<Rightarrow> panic_value + ('k \<times> series) list" where
  "resolve_handles E v [] hs = Inr hs"
| "resolve_handles E v ((key, lvs) # ks) hs = andThen (WithLabelValues E v lvs) (\<lambda>s. resolve_handles E v ks (AList.update key s hs))"

section \<open>The reporters\<close>

subsection \<open>internal/router/reporter.go\<close>

record router_Reporter =
  rr_decisions :: vec
  rr_errors :: vec
  rr_decHandle :: "((string \<times> Outcome) \<times> series) list"
  rr_errHandle :: "((string \<times> string) \<times> series) list"
  rr_labels :: MetadataLabels

definition decision_values :: "string \<Rightarrow> Outcome \<Rightarrow> string list" where
  "decision_values up oc = [up, Outcome_String oc]"

text \<open>The loop over the upstreams.\<close>

fun router_handles :: "metrics_env \<Rightarrow> string list \<Rightarrow> router_Reporter \<Rightarrow> panic_value + router_Reporter" where
  "router_handles E [] r = Inr r"
| "router_handles E (up # ups) r =
     andThen (resolve_handles E (rr_decisions r) (map (\<lambda>oc. ((up, oc), decision_values up oc)) [OutcomeMatch, OutcomeDefault, OutcomeSystem]) (rr_decHandle r)) (\<lambda>dh.
     andThen (resolve_handles E (rr_errors r) (map (\<lambda>reason. ((up, reason), [up, reason])) [reasonNoHandler]) (rr_errHandle r)) (\<lambda>eh.
     router_handles E ups (r\<lparr>rr_decHandle := dh, rr_errHandle := eh\<rparr>)))"

definition router_NewReporter :: "metrics_env \<Rightarrow> Factory \<Rightarrow> string list \<Rightarrow> MetadataLabels \<Rightarrow> vec list \<Rightarrow> panic_value + (router_Reporter \<times> vec list)" where
  "router_NewReporter E f upstreams labels regs =
     andThen (NewCounter E f ''decisions_total'' ([''upstream'', ''outcome''] @ mdl_names labels) regs) (\<lambda>(decisions, regs).
     andThen (NewCounter E f ''forwarding_errors_total'' ([''upstream'', ''reason''] @ mdl_names labels) regs) (\<lambda>(errors, regs).
     let r = \<lparr>rr_decisions = decisions, rr_errors = errors, rr_decHandle = [], rr_errHandle = [], rr_labels = labels\<rparr>
     in if mdl_names labels \<noteq> [] then Inr (r, regs)
        else andThen (router_handles E upstreams r) (\<lambda>r.
             andThen (resolve_handles E decisions [((upstreamUnknown, OutcomeUnroutable), decision_values upstreamUnknown OutcomeUnroutable)] (rr_decHandle r)) (\<lambda>dh.
             Inr (r\<lparr>rr_decHandle := dh\<rparr>, regs)))))"

definition router_Decision :: "metrics_env \<Rightarrow> 'g grpc_api \<Rightarrow> router_Reporter \<Rightarrow> 'g goctx \<Rightarrow> string \<Rightarrow> Outcome \<Rightarrow> panic_value + emission list" where
  "router_Decision E api r ctx up oc =
     emit_by E (rr_decHandle r) (up, oc) Inc (rr_decisions r) (decision_values up oc @ AppendValues api (rr_labels r) ctx [])"

definition router_ForwardingError :: "metrics_env \<Rightarrow> 'g grpc_api \<Rightarrow> router_Reporter \<Rightarrow> 'g goctx \<Rightarrow> string \<Rightarrow> string \<Rightarrow> panic_value + emission list" where
  "router_ForwardingError E api r ctx up reason =
     emit_by E (rr_errHandle r) (up, reason) Inc (rr_errors r) ([up, reason] @ AppendValues api (rr_labels r) ctx [])"

definition router_report :: "metrics_env \<Rightarrow> 'g grpc_api \<Rightarrow> router_Reporter \<Rightarrow> 'g goctx \<Rightarrow> routeEvent \<Rightarrow> panic_value + emission list" where
  "router_report E api r ctx ev =
     (case ev of
        Decision up oc \<Rightarrow> router_Decision E api r ctx up oc
      | ForwardingError up reason \<Rightarrow> router_ForwardingError E api r ctx up reason)"

subsection \<open>internal/server/reporter.go\<close>

record server_Reporter =
  sr_duration :: vec
  sr_requests :: vec
  sr_panics :: vec
  sr_labels :: MetadataLabels

definition server_NewReporter :: "metrics_env \<Rightarrow> Factory \<Rightarrow> MetadataLabels \<Rightarrow> vec list \<Rightarrow> panic_value + (server_Reporter \<times> vec list)" where
  "server_NewReporter E f labels regs =
     andThen (NewHistogram E f ''request_duration_seconds'' ([''method''] @ mdl_names labels) regs) (\<lambda>(duration, regs).
     andThen (NewCounter E f ''requests_total'' ([''method'', ''code''] @ mdl_names labels) regs) (\<lambda>(requests, regs).
     andThen (NewCounter E f ''panics_total'' ([''method''] @ mdl_names labels) regs) (\<lambda>(panics, regs).
     Inr (\<lparr>sr_duration = duration, sr_requests = requests, sr_panics = panics, sr_labels = labels\<rparr>, regs))))"

definition server_Panic :: "metrics_env \<Rightarrow> 'g grpc_api \<Rightarrow> server_Reporter \<Rightarrow> 'g goctx \<Rightarrow> string \<Rightarrow> panic_value + emission list" where
  "server_Panic E api r ctx meth = emit E Inc (sr_panics r) ([meth] @ AppendValues api (sr_labels r) ctx [])"

definition server_Observe :: "metrics_env \<Rightarrow> 'g grpc_api \<Rightarrow> server_Reporter \<Rightarrow> 'g goctx \<Rightarrow> string \<Rightarrow> code \<Rightarrow> panic_value + emission list" where
  "server_Observe E api r ctx meth c =
     (let labels = AppendValues api (sr_labels r) ctx []
      in andThen (emit E Sample (sr_duration r) ([meth] @ labels)) (\<lambda>sampled.
         andThen (emit E Inc (sr_requests r) ([meth, code_String E c] @ labels)) (\<lambda>counted. Inr (sampled @ counted))))"

subsection \<open>internal/proxy/reporter.go\<close>

record proxy_Reporter =
  pr_ops :: vec
  pr_duration :: vec
  pr_skipped :: vec
  pr_unbound :: vec
  pr_mismatches :: vec
  pr_namespaceLabels :: bool
  pr_labels :: MetadataLabels

text \<open>The options are the two that are passed, \<open>WithMetadataLabels\<close> and \<open>WithNamespaceLabels\<close>.\<close>

definition proxy_NewReporter :: "metrics_env \<Rightarrow> Factory \<Rightarrow> MetadataLabels \<Rightarrow> bool \<Rightarrow> vec list \<Rightarrow> panic_value + (proxy_Reporter \<times> vec list)" where
  "proxy_NewReporter E f labels namespaceLabels regs =
     andThen (NewCounter E f ''vault_ops_total'' ([''operation'', ''result'', ''namespace''] @ mdl_names labels) regs) (\<lambda>(ops, regs).
     andThen (NewHistogram E f ''vault_ops_duration_seconds'' ([''operation'', ''namespace''] @ mdl_names labels) regs) (\<lambda>(duration, regs).
     andThen (NewCounter E f ''payloads_skipped_total'' ([''operation'', ''encoding'', ''namespace''] @ mdl_names labels) regs) (\<lambda>(skipped, regs).
     andThen (NewCounter E f ''vault_unbound_opens_total'' ([''namespace''] @ mdl_names labels) regs) (\<lambda>(unbound, regs).
     andThen (NewCounter E f ''vault_namespace_mismatches_total'' ([''namespace''] @ mdl_names labels) regs) (\<lambda>(mismatches, regs).
     Inr (\<lparr>pr_ops = ops, pr_duration = duration, pr_skipped = skipped, pr_unbound = unbound, pr_mismatches = mismatches,
           pr_namespaceLabels = namespaceLabels, pr_labels = labels\<rparr>, regs))))))"

definition nsLabel :: "proxy_Reporter \<Rightarrow> string \<Rightarrow> string" where
  "nsLabel r ns = (if pr_namespaceLabels r then ns else [])"

definition proxy_report :: "metrics_env \<Rightarrow> 'g grpc_api \<Rightarrow> proxy_Reporter \<Rightarrow> 'g goctx \<Rightarrow> report \<Rightarrow> panic_value + emission list" where
  "proxy_report E api r ctx rep =
     (let labels = AppendValues api (pr_labels r) ctx []
      in case rep of
           VaultOp operation res ns \<Rightarrow>
             andThen (emit E Inc (pr_ops r) ([operation, res, nsLabel r ns] @ labels)) (\<lambda>counted.
             andThen (emit E Sample (pr_duration r) ([operation, nsLabel r ns] @ labels)) (\<lambda>sampled. Inr (counted @ sampled)))
         | PayloadSkipped operation encoding ns \<Rightarrow> emit E Inc (pr_skipped r) ([operation, encoding, nsLabel r ns] @ labels)
         | UnboundOpen ns \<Rightarrow> emit E Inc (pr_unbound r) ([nsLabel r ns] @ labels)
         | NamespaceMismatch ns \<Rightarrow> emit E Inc (pr_mismatches r) ([nsLabel r ns] @ labels))"

subsection \<open>internal/codecserver/reporter.go\<close>

record codec_Reporter =
  cr_requests :: vec
  cr_duration :: vec

definition codec_NewReporter :: "metrics_env \<Rightarrow> Factory \<Rightarrow> vec list \<Rightarrow> panic_value + (codec_Reporter \<times> vec list)" where
  "codec_NewReporter E f regs =
     andThen (NewCounter E f ''requests_total'' [''route'', ''code''] regs) (\<lambda>(requests, regs).
     andThen (NewHistogram E f ''request_duration_seconds'' [''route''] regs) (\<lambda>(duration, regs).
     Inr (\<lparr>cr_requests = requests, cr_duration = duration\<rparr>, regs)))"

definition codec_Request :: "metrics_env \<Rightarrow> codec_Reporter \<Rightarrow> string \<Rightarrow> int \<Rightarrow> panic_value + emission list" where
  "codec_Request E r route c =
     andThen (emit E Inc (cr_requests r) [route, fmt_d c]) (\<lambda>counted.
     andThen (emit E Sample (cr_duration r) [route]) (\<lambda>sampled. Inr (counted @ sampled)))"

subsection \<open>internal/kms/reporter.go\<close>

record kms_Reporter =
  kr_kekOps :: vec
  kr_kekOpDur :: vec
  kr_dekOps :: vec
  kr_dekOpDur :: vec
  kr_dekRotations :: vec
  kr_cacheHits :: series
  kr_cacheMisses :: series
  kr_cacheSize :: vec
  kr_kekOpHandle :: "((string \<times> string \<times> string) \<times> series) list"
  kr_kekDurHandle :: "((string \<times> string) \<times> series) list"
  kr_dekOpHandle :: "((string \<times> string) \<times> series) list"
  kr_dekDurHandle :: "(string \<times> series) list"
  kr_dekRotationHandle :: "(string \<times> series) list"

definition kms_results :: "string list" where "kms_results = [''success'', ''error'']"

fun kek_handles :: "metrics_env \<Rightarrow> (string \<times> string) list \<Rightarrow> kms_Reporter \<Rightarrow> panic_value + kms_Reporter" where
  "kek_handles E [] r = Inr r"
| "kek_handles E ((p, op) # ks) r =
     andThen (resolve_handles E (kr_kekOpDur r) [((p, op), [p, op])] (kr_kekDurHandle r)) (\<lambda>dh.
     andThen (resolve_handles E (kr_kekOps r) (map (\<lambda>res. ((p, op, res), [p, op, res])) kms_results) (kr_kekOpHandle r)) (\<lambda>oh.
     kek_handles E ks (r\<lparr>kr_kekDurHandle := dh, kr_kekOpHandle := oh\<rparr>)))"

fun dek_handles :: "metrics_env \<Rightarrow> string list \<Rightarrow> kms_Reporter \<Rightarrow> panic_value + kms_Reporter" where
  "dek_handles E [] r = Inr r"
| "dek_handles E (op # ops) r =
     andThen (resolve_handles E (kr_dekOpDur r) [(op, [op])] (kr_dekDurHandle r)) (\<lambda>dh.
     andThen (resolve_handles E (kr_dekOps r) (map (\<lambda>res. ((op, res), [op, res])) kms_results) (kr_dekOpHandle r)) (\<lambda>oh.
     dek_handles E ops (r\<lparr>kr_dekDurHandle := dh, kr_dekOpHandle := oh\<rparr>)))"

definition kms_collectors :: "metrics_env \<Rightarrow> Factory \<Rightarrow> vec list \<Rightarrow> panic_value + (kms_Reporter \<times> vec list)" where
  "kms_collectors E f regs =
     andThen (NewCounter E f ''kek_ops_total'' [''provider'', ''operation'', ''result''] regs) (\<lambda>(kekOps, regs).
     andThen (NewHistogram E f ''kek_ops_duration_seconds'' [''provider'', ''operation''] regs) (\<lambda>(kekOpDur, regs).
     andThen (NewHistogram E f ''dek_ops_duration_seconds'' [''operation''] regs) (\<lambda>(dekOpDur, regs).
     andThen (NewCounter E f ''dek_ops_total'' [''operation'', ''result''] regs) (\<lambda>(dekOps, regs).
     andThen (NewCounter E f ''dek_rotations_total'' [''reason''] regs) (\<lambda>(dekRotations, regs).
     andThen (NewCounter E f ''dek_cache_hits_total'' [] regs) (\<lambda>(hits, regs).
     andThen (WithLabelValues E hits []) (\<lambda>cacheHits.
     andThen (NewCounter E f ''dek_cache_misses_total'' [] regs) (\<lambda>(misses, regs).
     andThen (WithLabelValues E misses []) (\<lambda>cacheMisses.
     andThen (NewGauge E f ''dek_cache_size'' regs) (\<lambda>(cacheSize, regs).
     Inr (\<lparr>kr_kekOps = kekOps, kr_kekOpDur = kekOpDur, kr_dekOps = dekOps, kr_dekOpDur = dekOpDur, kr_dekRotations = dekRotations,
           kr_cacheHits = cacheHits, kr_cacheMisses = cacheMisses, kr_cacheSize = cacheSize, kr_kekOpHandle = [], kr_kekDurHandle = [],
           kr_dekOpHandle = [], kr_dekDurHandle = [], kr_dekRotationHandle = []\<rparr>, regs)))))))))))"

text \<open>\<open>recover\<close> in a constructor of reporters: a panic becomes an error that wraps its cause.\<close>

definition recovered :: "string \<Rightarrow> panic_value + 'a \<Rightarrow> 'a result" where
  "recovered msg x =
     (case x of
        Inl p \<Rightarrow> (let cause = (case p of PanicErr err \<Rightarrow> err | PanicOther s \<Rightarrow> ErrorString s) in Inl (WrapError (msg @ Error cause) [cause]))
      | Inr y \<Rightarrow> Inr y)"

definition kms_NewReporter :: "metrics_env \<Rightarrow> Factory \<Rightarrow> vec list \<Rightarrow> (kms_Reporter \<times> vec list) result" where
  "kms_NewReporter E f regs =
     recovered ''kms: registering metrics panicked, is another reporter using this registry, or a configured metrics.labels entry colliding with a collector's own label: ''
       (andThen (kms_collectors E f regs) (\<lambda>(r, regs).
        andThen (kek_handles E (List.product [''aws'', ''gcp'', ''azure'', ''testing''] [''wrap'', ''unwrap'']) r) (\<lambda>r.
        andThen (dek_handles E [''encrypt'', ''decrypt''] r) (\<lambda>r.
        andThen (resolve_handles E (kr_dekRotations r) (map (\<lambda>reason. (reason, [reason])) [''scheduled'', ''on_demand'', ''initial'']) []) (\<lambda>h.
        Inr (r\<lparr>kr_dekRotationHandle := h\<rparr>, regs))))))"

definition kms_KEKOp :: "metrics_env \<Rightarrow> kms_Reporter \<Rightarrow> kek_event \<Rightarrow> panic_value + emission list" where
  "kms_KEKOp E r ev =
     (case ev of KEKOp provider operation res \<Rightarrow>
        andThen (emit_by E (kr_kekOpHandle r) (provider, operation, res) Inc (kr_kekOps r) [provider, operation, res]) (\<lambda>counted.
        andThen (emit_by E (kr_kekDurHandle r) (provider, operation) Sample (kr_kekOpDur r) [provider, operation]) (\<lambda>sampled. Inr (counted @ sampled))))"

definition countDEKOp :: "metrics_env \<Rightarrow> kms_Reporter \<Rightarrow> string \<Rightarrow> string \<Rightarrow> panic_value + emission list" where
  "countDEKOp E r op res = emit_by E (kr_dekOpHandle r) (op, res) Inc (kr_dekOps r) [op, res]"

definition observeDEKDur :: "metrics_env \<Rightarrow> kms_Reporter \<Rightarrow> string \<Rightarrow> panic_value + emission list" where
  "observeDEKDur E r op = emit_by E (kr_dekDurHandle r) op Sample (kr_dekOpDur r) [op]"

definition envelopeOp :: "metrics_env \<Rightarrow> kms_Reporter \<Rightarrow> Operation \<Rightarrow> bool \<Rightarrow> goerror option \<Rightarrow> panic_value + emission list" where
  "envelopeOp E r opr did cryptoErr =
     (if \<not> did then Inr []
      else let op = Operation_String opr
       in andThen (countDEKOp E r op (kms_resultLabel cryptoErr)) (\<lambda>counted.
          andThen (observeDEKDur E r op) (\<lambda>sampled. Inr (counted @ sampled))))"

definition cacheAccess :: "kms_Reporter \<Rightarrow> bool \<Rightarrow> nat \<Rightarrow> panic_value + emission list" where
  "cacheAccess r hit n = Inr [Inc (if hit then kr_cacheHits r else kr_cacheMisses r), SetGauge (kr_cacheSize r) n]"

definition rotated :: "metrics_env \<Rightarrow> kms_Reporter \<Rightarrow> RotationReason \<Rightarrow> panic_value + emission list" where
  "rotated E r reason = (let s = RotationReason_String reason in emit_by E (kr_dekRotationHandle r) s Inc (kr_dekRotations r) [s])"

definition kms_Observe :: "metrics_env \<Rightarrow> kms_Reporter \<Rightarrow> Event \<Rightarrow> panic_value + emission list" where
  "kms_Observe E r ev =
     (case ev of
        EnvelopeEvent op _ _ did cryptoErr \<Rightarrow> envelopeOp E r op did cryptoErr
      | CacheEvent hit n \<Rightarrow> cacheAccess r hit n
      | RotationEvent _ reason \<Rightarrow> rotated E r reason)"

section \<open>Lemmas\<close>

subsection \<open>Label values\<close>

lemma ValidString_append_tail:
  "tail_ok rs s = Some s' \<Longrightarrow> length rs \<le> n \<Longrightarrow> tail_ok rs (take n s) = Some (take (n - length rs) s')"
  by (induction rs s arbitrary: n rule: tail_ok.induct) (auto simp: take_Cons' split: if_splits)

lemma rune_tail_short: "rune_tail b = Some rs \<Longrightarrow> length rs \<le> 3"
  by (auto simp: rune_tail_def Let_def split: if_splits)

text \<open>A cut through a valid string is at most three bytes past a valid one.\<close>

lemma ValidString_cut: "ValidString v \<Longrightarrow> \<exists>m. n \<le> m + 3 \<and> m \<le> n \<and> ValidString (take m v)"
proof (induction v arbitrary: n rule: ValidString.induct)
  case (2 c s)
  obtain rs s' where rs: "rune_tail (of_char c) = Some rs" "tail_ok rs s = Some s'" "ValidString s'"
    using "2.prems" by (auto split: option.splits)
  show ?case
  proof (cases "Suc (length rs) \<le> n")
    case True
    obtain m where m: "n - Suc (length rs) \<le> m + 3" "m \<le> n - Suc (length rs)" "ValidString (take m s')"
      using "2.IH" [OF rs(1) rs(2) rs(3)] by blast
    have "tail_ok rs (take (m + length rs) s) = Some (take m s')"
      using ValidString_append_tail [OF rs(2), of "m + length rs"] by simp
    then have "ValidString (take (Suc (m + length rs)) (c # s))" using rs(1) m(3) by simp
    then show ?thesis using m True by (intro exI [of _ "Suc (m + length rs)"]) linarith
  next
    case False
    then show ?thesis using rune_tail_short [OF rs(1)] by (intro exI [of _ 0]) auto
  qed
next
  case 1
  show ?case by (rule exI [of _ n]) simp
qed

lemma drop_partial_prefix:
  "ValidString (drop_partial v) \<and> prefix (drop_partial v) v \<and> (\<forall>m. ValidString (take m v) \<longrightarrow> min m (length v) \<le> length (drop_partial v))"
proof (induction v rule: drop_partial.induct)
  case (1 v)
  show ?case
  proof (cases "v \<noteq> [] \<and> \<not> ValidString v")
    case True
    note IH = "1.IH" [OF True]
    have d: "drop_partial v = drop_partial (butlast v)" using True by (subst drop_partial.simps) simp
    have "min m (length v) \<le> length (drop_partial v)" if "ValidString (take m v)" for m
    proof -
      have "m < length v" using that True by (metis linorder_not_less take_all)
      then have "take m (butlast v) = take m v" by (simp add: take_butlast)
      with that have "min m (length (butlast v)) \<le> length (drop_partial (butlast v))" using IH by metis
      with \<open>m < length v\<close> show ?thesis by (simp add: d min_def split: if_splits)
    qed
    moreover have "prefix (drop_partial v) v" using IH d prefix_order.trans prefixeq_butlast by metis
    ultimately show ?thesis using IH d by metis
  next
    case False
    then have "drop_partial v = v" by (subst drop_partial.simps) (simp only: if_False)
    with False show ?thesis by auto
  qed
qed

lemma drop_partial_take:
  assumes "ValidString v" "n \<le> length v"
  shows "n \<le> length (drop_partial (take n v)) + 3"
proof -
  obtain m where m: "n \<le> m + 3" "m \<le> n" "ValidString (take m v)" using ValidString_cut [OF assms(1)] by blast
  then have "ValidString (take m (take n v))" by (simp add: min_def)
  with drop_partial_prefix [of "take n v"] have "min m (length (take n v)) \<le> length (drop_partial (take n v))" by blast
  with m assms(2) show ?thesis by simp
qed

lemma labelValue_valid [simp]: "ValidString (labelValue vals)"
  using drop_partial_prefix by (auto simp: labelValue_def Let_def)

lemma AppendValues_valid [simp]: "list_all ValidString (AppendValues api l ctx []) \<and> length (AppendValues api l ctx []) = length (mdl_headers l)"
  by (simp add: AppendValues_def list_all_iff)

lemma NewMetadataLabels_length [simp]: "length (mdl_headers (NewMetadataLabels cfg)) = length (mdl_names (NewMetadataLabels cfg))"
  by (simp add: NewMetadataLabels_def)

subsection \<open>Handles\<close>

text \<open>A handle stands for the series of its labels, which can be had.\<close>

definition handles_ok :: "metrics_env \<Rightarrow> vec \<Rightarrow> ('k \<Rightarrow> string list) \<Rightarrow> ('k \<times> series) list \<Rightarrow> bool" where
  "handles_ok E v labels hs \<longleftrightarrow> (\<forall>key s. map_of hs key = Some s \<longrightarrow> s = (v, labels key) \<and> pr_WithLabelValues E v (labels key) = None)"

lemma handles_okD: "handles_ok E v labels hs \<Longrightarrow> map_of hs key = Some s \<Longrightarrow> s = (v, labels key) \<and> pr_WithLabelValues E v (labels key) = None"
  unfolding handles_ok_def by blast

lemma handles_ok_Nil [simp]: "handles_ok E v labels []"
  by (simp add: handles_ok_def)

lemma andThen_Inr: "andThen x k = Inr y \<longleftrightarrow> (\<exists>z. x = Inr z \<and> k z = Inr y)"
  by (auto simp: andThen_def split: sum.splits)

lemma resolve_handles_ok:
  "resolve_handles E v ks hs = Inr hs' \<Longrightarrow> handles_ok E v labels hs \<Longrightarrow> \<forall>(key, lvs)\<in>set ks. lvs = labels key \<Longrightarrow> handles_ok E v labels hs'"
proof (induction E v ks hs rule: resolve_handles.induct)
  case (2 E v key lvs ks hs)
  obtain s where s: "WithLabelValues E v lvs = Inr s" "resolve_handles E v ks (AList.update key s hs) = Inr hs'"
    using "2.prems"(1) by (auto simp: andThen_Inr)
  then have "s = (v, lvs)" "pr_WithLabelValues E v lvs = None" by (auto simp: WithLabelValues_def split: option.splits)
  moreover have "lvs = labels key" using "2.prems"(3) by simp
  ultimately have "handles_ok E v labels (AList.update key s hs)"
    unfolding handles_ok_def by (auto simp: update_conv' dest!: handles_okD [OF "2.prems"(2)] split: if_splits)
  with "2.IH" [OF s(2)] "2.prems"(3) show ?case by simp
qed simp

lemma emit_by_handles:
  assumes "handles_ok E v labels hs" "lvs = labels key \<or> map_of hs key = None"
  shows "emit_by E hs key how v lvs = emit E how v lvs"
proof (cases "map_of hs key")
  case (Some s)
  then show ?thesis using handles_okD [OF assms(1) Some] assms(2) by (simp add: emit_by_def emit_def WithLabelValues_def andThen_def)
qed (simp add: emit_by_def)

lemma register_labels: "register E kind f name labels regs = Inr (v, regs') \<Longrightarrow> v_labels v = labels"
  by (auto simp: register_def Let_def split: option.splits)

lemmas new_collector_defs = NewCounter_def NewHistogram_def NewGauge_def

subsection \<open>The router's reporter\<close>

definition router_ok :: "metrics_env \<Rightarrow> router_Reporter \<Rightarrow> bool" where
  "router_ok E r \<longleftrightarrow> handles_ok E (rr_decisions r) (\<lambda>(up, oc). decision_values up oc) (rr_decHandle r)
     \<and> handles_ok E (rr_errors r) (\<lambda>(up, reason). [up, reason]) (rr_errHandle r)"

lemma router_handles_ok:
  "router_handles E ups r = Inr r' \<Longrightarrow> router_ok E r \<Longrightarrow>
    router_ok E r' \<and> rr_decisions r' = rr_decisions r \<and> rr_errors r' = rr_errors r \<and> rr_labels r' = rr_labels r"
proof (induction E ups r rule: router_handles.induct)
  case (2 E up ups r)
  obtain dh eh where h: "resolve_handles E (rr_decisions r) (map (\<lambda>oc. ((up, oc), decision_values up oc)) [OutcomeMatch, OutcomeDefault, OutcomeSystem]) (rr_decHandle r) = Inr dh"
      "resolve_handles E (rr_errors r) (map (\<lambda>reason. ((up, reason), [up, reason])) [reasonNoHandler]) (rr_errHandle r) = Inr eh"
      "router_handles E ups (r\<lparr>rr_decHandle := dh, rr_errHandle := eh\<rparr>) = Inr r'"
    using "2.prems"(1) by (auto simp: andThen_Inr)
  have "router_ok E (r\<lparr>rr_decHandle := dh, rr_errHandle := eh\<rparr>)"
    using resolve_handles_ok [OF h(1)] resolve_handles_ok [OF h(2)] "2.prems"(2) by (auto simp: router_ok_def)
  with "2.IH" [OF h(3)] show ?case by simp
qed simp

lemma router_NewReporter_ok:
  assumes "router_NewReporter E f ups labels regs = Inr (r, regs')"
  shows "router_ok E r \<and> rr_labels r = labels \<and> (mdl_names labels = [] \<or> rr_decHandle r = [] \<and> rr_errHandle r = [])
    \<and> v_labels (rr_decisions r) = [''upstream'', ''outcome''] @ mdl_names labels \<and> v_labels (rr_errors r) = [''upstream'', ''reason''] @ mdl_names labels"
proof -
  obtain dv rs1 ev rs2 where v: "NewCounter E f ''decisions_total'' ([''upstream'', ''outcome''] @ mdl_names labels) regs = Inr (dv, rs1)"
      "NewCounter E f ''forwarding_errors_total'' ([''upstream'', ''reason''] @ mdl_names labels) rs1 = Inr (ev, rs2)"
    using assms by (auto simp: router_NewReporter_def andThen_Inr)
  let ?r = "\<lparr>rr_decisions = dv, rr_errors = ev, rr_decHandle = [], rr_errHandle = [], rr_labels = labels\<rparr>"
  have names: "v_labels dv = [''upstream'', ''outcome''] @ mdl_names labels" "v_labels ev = [''upstream'', ''reason''] @ mdl_names labels"
    using v register_labels unfolding new_collector_defs by blast+
  have ok: "router_ok E ?r" by (simp add: router_ok_def)
  show ?thesis
  proof (cases "mdl_names labels = []")
    case True
    then obtain r1 dh where r1: "router_handles E ups ?r = Inr r1" "r = r1\<lparr>rr_decHandle := dh\<rparr>"
        "resolve_handles E dv [((upstreamUnknown, OutcomeUnroutable), decision_values upstreamUnknown OutcomeUnroutable)] (rr_decHandle r1) = Inr dh"
      using assms v by (auto simp: router_NewReporter_def andThen_Inr Let_def simp del: resolve_handles.simps)
    with router_handles_ok [OF r1(1) ok] resolve_handles_ok [OF r1(3), of "\<lambda>(up, oc). decision_values up oc"] True names show ?thesis
      by (auto simp: router_ok_def)
  next
    case False
    then show ?thesis using assms v names ok by (auto simp: router_NewReporter_def andThen_Inr Let_def)
  qed
qed

lemma AppendValues_none: "mdl_names (NewMetadataLabels cfg) = [] \<Longrightarrow> AppendValues api (NewMetadataLabels cfg) ctx [] = []"
  by (simp add: NewMetadataLabels_def AppendValues_def)

lemma router_report_emits:
  assumes "router_NewReporter E f ups (NewMetadataLabels cfg) regs = Inr (r, regs')"
  shows "router_Decision E api r ctx up oc = emit E Inc (rr_decisions r) (decision_values up oc @ AppendValues api (NewMetadataLabels cfg) ctx [])"
    "router_ForwardingError E api r ctx up reason = emit E Inc (rr_errors r) ([up, reason] @ AppendValues api (NewMetadataLabels cfg) ctx [])"
proof -
  note ok = router_NewReporter_ok [OF assms]
  have "mdl_names (NewMetadataLabels cfg) = [] \<or> map_of (rr_decHandle r) (up, oc) = None" "mdl_names (NewMetadataLabels cfg) = [] \<or> map_of (rr_errHandle r) (up, reason) = None"
    using ok by auto
  then show "router_Decision E api r ctx up oc = emit E Inc (rr_decisions r) (decision_values up oc @ AppendValues api (NewMetadataLabels cfg) ctx [])"
    "router_ForwardingError E api r ctx up reason = emit E Inc (rr_errors r) ([up, reason] @ AppendValues api (NewMetadataLabels cfg) ctx [])"
    using ok unfolding router_Decision_def router_ForwardingError_def router_ok_def
    by (auto intro!: emit_by_handles [where labels = "\<lambda>(up, oc). decision_values up oc"] emit_by_handles [where labels = "\<lambda>(up, reason). [up, reason]"] simp: AppendValues_none)
qed

lemma emit_doc:
  "metrics_doc E \<Longrightarrow> length lvs = length (v_labels v) \<Longrightarrow> list_all ValidString lvs \<Longrightarrow> emit E how v lvs = Inr [how (v, lvs)]"
  "metrics_doc E \<Longrightarrow> \<not> list_all ValidString lvs \<Longrightarrow> \<exists>p. emit E how v lvs = Inl p"
  by (auto simp: metrics_doc_def emit_def WithLabelValues_def andThen_def split: option.splits)

subsection \<open>The server's reporter\<close>

lemma server_NewReporter_labels:
  assumes "server_NewReporter E f labels regs = Inr (r, regs')"
  shows "sr_labels r = labels \<and> v_labels (sr_duration r) = [''method''] @ mdl_names labels
    \<and> v_labels (sr_requests r) = [''method'', ''code''] @ mdl_names labels \<and> v_labels (sr_panics r) = [''method''] @ mdl_names labels"
  using assms by (auto simp: server_NewReporter_def andThen_Inr new_collector_defs dest!: register_labels)

lemma server_reports:
  assumes "server_NewReporter E f (NewMetadataLabels cfg) regs = Inr (r, regs')" "metrics_doc E"
  shows "ValidString meth \<Longrightarrow> server_Observe E api r ctx meth c =
      Inr [Sample (sr_duration r, meth # AppendValues api (sr_labels r) ctx []), Inc (sr_requests r, meth # code_String E c # AppendValues api (sr_labels r) ctx [])]"
    "ValidString meth \<Longrightarrow> server_Panic E api r ctx meth = Inr [Inc (sr_panics r, meth # AppendValues api (sr_labels r) ctx [])]"
    "\<not> ValidString meth \<Longrightarrow> \<exists>p. server_Observe E api r ctx meth c = Inl p"
proof -
  note r = server_NewReporter_labels [OF assms(1)]
  have code: "ValidString (code_String E c)" using assms(2) by (simp add: metrics_doc_def)
  show "ValidString meth \<Longrightarrow> server_Observe E api r ctx meth c =
      Inr [Sample (sr_duration r, meth # AppendValues api (sr_labels r) ctx []), Inc (sr_requests r, meth # code_String E c # AppendValues api (sr_labels r) ctx [])]"
    using r code by (simp add: server_Observe_def Let_def emit_doc(1) [OF assms(2)] andThen_def)
  show "ValidString meth \<Longrightarrow> server_Panic E api r ctx meth = Inr [Inc (sr_panics r, meth # AppendValues api (sr_labels r) ctx [])]"
    using r by (simp add: server_Panic_def emit_doc(1) [OF assms(2)])
  show "\<exists>p. server_Observe E api r ctx meth c = Inl p" if "\<not> ValidString meth"
    using emit_doc(2) [OF assms(2), of "[meth] @ AppendValues api (sr_labels r) ctx []" Sample "sr_duration r"] that
    by (auto simp: server_Observe_def Let_def andThen_def)
qed

subsection \<open>The key service's reporter\<close>

definition kms_ok :: "metrics_env \<Rightarrow> kms_Reporter \<Rightarrow> bool" where
  "kms_ok E r \<longleftrightarrow> handles_ok E (kr_kekOps r) (\<lambda>(p, op, res). [p, op, res]) (kr_kekOpHandle r)
     \<and> handles_ok E (kr_kekOpDur r) (\<lambda>(p, op). [p, op]) (kr_kekDurHandle r)
     \<and> handles_ok E (kr_dekOps r) (\<lambda>(op, res). [op, res]) (kr_dekOpHandle r)
     \<and> handles_ok E (kr_dekOpDur r) (\<lambda>op. [op]) (kr_dekDurHandle r)
     \<and> handles_ok E (kr_dekRotations r) (\<lambda>reason. [reason]) (kr_dekRotationHandle r)"

text \<open>The collectors of a reporter with their labels.\<close>

definition kms_vecs :: "kms_Reporter \<Rightarrow> (vec \<times> vec \<times> vec \<times> vec \<times> vec) \<times> series \<times> series \<times> vec" where
  "kms_vecs r = ((kr_kekOps r, kr_kekOpDur r, kr_dekOps r, kr_dekOpDur r, kr_dekRotations r), kr_cacheHits r, kr_cacheMisses r, kr_cacheSize r)"

lemma kek_handles_ok: "kek_handles E ks r = Inr r' \<Longrightarrow> kms_ok E r \<Longrightarrow> kms_ok E r' \<and> kms_vecs r' = kms_vecs r"
proof (induction E ks r rule: kek_handles.induct)
  case (2 E p op ks r)
  obtain dh oh where h: "resolve_handles E (kr_kekOpDur r) [((p, op), [p, op])] (kr_kekDurHandle r) = Inr dh"
      "resolve_handles E (kr_kekOps r) (map (\<lambda>res. ((p, op, res), [p, op, res])) kms_results) (kr_kekOpHandle r) = Inr oh"
      "kek_handles E ks (r\<lparr>kr_kekDurHandle := dh, kr_kekOpHandle := oh\<rparr>) = Inr r'"
    using "2.prems"(1) by (auto simp: andThen_Inr simp del: resolve_handles.simps)
  have "kms_ok E (r\<lparr>kr_kekDurHandle := dh, kr_kekOpHandle := oh\<rparr>)"
    using resolve_handles_ok [OF h(1)] resolve_handles_ok [OF h(2)] "2.prems"(2) by (auto simp: kms_ok_def)
  with "2.IH" [OF h(3)] show ?case by (simp add: kms_vecs_def)
qed simp

lemma dek_handles_ok: "dek_handles E ops r = Inr r' \<Longrightarrow> kms_ok E r \<Longrightarrow> kms_ok E r' \<and> kms_vecs r' = kms_vecs r"
proof (induction E ops r rule: dek_handles.induct)
  case (2 E op ops r)
  obtain dh oh where h: "resolve_handles E (kr_dekOpDur r) [(op, [op])] (kr_dekDurHandle r) = Inr dh"
      "resolve_handles E (kr_dekOps r) (map (\<lambda>res. ((op, res), [op, res])) kms_results) (kr_dekOpHandle r) = Inr oh"
      "dek_handles E ops (r\<lparr>kr_dekDurHandle := dh, kr_dekOpHandle := oh\<rparr>) = Inr r'"
    using "2.prems"(1) by (auto simp: andThen_Inr simp del: resolve_handles.simps)
  have "kms_ok E (r\<lparr>kr_dekDurHandle := dh, kr_dekOpHandle := oh\<rparr>)"
    using resolve_handles_ok [OF h(1)] resolve_handles_ok [OF h(2)] "2.prems"(2) by (auto simp: kms_ok_def)
  with "2.IH" [OF h(3)] show ?case by (simp add: kms_vecs_def)
qed simp

definition kms_labels :: "kms_Reporter \<Rightarrow> string list list" where
  "kms_labels r = map v_labels [kr_kekOps r, kr_kekOpDur r, kr_dekOps r, kr_dekOpDur r, kr_dekRotations r, fst (kr_cacheHits r), fst (kr_cacheMisses r)]
     @ [snd (kr_cacheHits r), snd (kr_cacheMisses r)]"

lemma kms_collectors_ok:
  assumes "kms_collectors E f regs = Inr (r, regs')"
  shows "kms_ok E r \<and> kms_labels r = [[''provider'', ''operation'', ''result''], [''provider'', ''operation''], [''operation'', ''result''],
    [''operation''], [''reason''], [], [], [], []]"
  using assms
  by (auto simp: kms_collectors_def andThen_Inr new_collector_defs WithLabelValues_def kms_ok_def kms_labels_def dest!: register_labels split: option.splits)

lemma kms_NewReporter_ok:
  assumes "kms_NewReporter E f regs = Inr (r, regs')"
  shows "kms_ok E r \<and> kms_labels r = [[''provider'', ''operation'', ''result''], [''provider'', ''operation''], [''operation'', ''result''],
    [''operation''], [''reason''], [], [], [], []]"
proof -
  obtain r1 rs1 r2 r3 h where r: "kms_collectors E f regs = Inr (r1, rs1)"
      "kek_handles E (List.product [''aws'', ''gcp'', ''azure'', ''testing''] [''wrap'', ''unwrap'']) r1 = Inr r2" "dek_handles E [''encrypt'', ''decrypt''] r2 = Inr r3"
      "resolve_handles E (kr_dekRotations r3) (map (\<lambda>reason. (reason, [reason])) [''scheduled'', ''on_demand'', ''initial'']) [] = Inr h" "r = r3\<lparr>kr_dekRotationHandle := h\<rparr>"
    using assms by (auto simp: kms_NewReporter_def recovered_def andThen_Inr Let_def simp del: resolve_handles.simps kek_handles.simps dek_handles.simps product.simps split: sum.splits)
  note k1 = kms_collectors_ok [OF r(1)]
  note k2 = kek_handles_ok [OF r(2) conjunct1 [OF k1]]
  note k3 = dek_handles_ok [OF r(3) conjunct1 [OF k2]]
  have "handles_ok E (kr_dekRotations r3) (\<lambda>reason. [reason]) h" by (rule resolve_handles_ok [OF r(4)]) auto
  with k1 k2 k3 r(5) show ?thesis by (auto simp: kms_ok_def kms_labels_def kms_vecs_def)
qed

text \<open>The label values that a vault or a metered key gives.\<close>

lemma plain_labels_valid:
  "ValidString (Operation_String op)" "ValidString (RotationReason_String why)" "ValidString (kms_resultLabel err)" "ValidString (Outcome_String oc)"
  "ValidString reasonNoHandler" "ValidString upstreamUnknown"
proof -
  have "list_all ValidString [''encrypt'', ''decrypt'', ''scheduled'', ''on_demand'', ''initial'', ''success'', ''error'', ''match'', ''default'', ''system'', ''unroutable'',
      reasonNoHandler, upstreamUnknown]" by code_simp
  then show "ValidString (Operation_String op)" "ValidString (RotationReason_String why)" "ValidString (kms_resultLabel err)" "ValidString (Outcome_String oc)"
    "ValidString reasonNoHandler" "ValidString upstreamUnknown"
    by (cases op; cases why; cases oc; simp add: kms_resultLabel_def Outcome_String_def del: ValidString.simps)+
qed

section \<open>Properties\<close>

text \<open>
  C37. The value of a metadata label, which the caller supplies. It is always valid UTF-8, which Prometheus insists on, and never longer than 256 bytes; it is a
  prefix of the last value of the header. A last value that is not valid UTF-8 gives the empty label, one of at most 256 bytes itself, and of a longer
  one at least 253 bytes are kept: only a character that the cut would split is lost.
\<close>

theorem labelValue_bounds:
  "ValidString (labelValue vals) \<and> length (labelValue vals) \<le> 256
   \<and> (if vals = [] then labelValue vals = []
      else prefix (labelValue vals) (last vals)
        \<and> (if \<not> ValidString (last vals) then labelValue vals = []
           else if length (last vals) \<le> 256 then labelValue vals = last vals
           else 253 \<le> length (labelValue vals)))"
proof (cases "vals \<noteq> [] \<and> ValidString (last vals) \<and> 256 < length (last vals)")
  case True
  let ?v = "take 256 (last vals)"
  have v: "labelValue vals = drop_partial ?v" using True by (simp add: labelValue_def maxLabelValueLen_def)
  have p: "prefix (drop_partial ?v) ?v" "256 \<le> length (drop_partial ?v) + 3"
    using drop_partial_prefix drop_partial_take [of "last vals" 256] True by auto
  then have "length (drop_partial ?v) \<le> 256" "prefix (drop_partial ?v) (last vals)"
    using prefix_length_le [OF p(1)] take_is_prefix prefix_order.trans by (auto, blast)
  with v p True labelValue_valid [of vals] show ?thesis by auto
next
  case False
  then show ?thesis using labelValue_valid [of vals] by (auto simp: labelValue_def maxLabelValueLen_def)
qed

text \<open>
  C29. The reporters count what they are told. The counters that are looked up once, at construction, are those that the labels
  of an event name: a routing decision or a failure goes to the series of its upstream and its outcome or reason, with the labels of the request, whether or not there is a
  handle for it; and no event of a vault makes its reporter panic: it counts each encryption and decryption that ran once, under the result of that step alone, each
  access of the cache once, and each rotation once, under its reason.
\<close>

theorem reporters_exact:
  assumes "router_NewReporter E f ups (NewMetadataLabels cfg) regs = Inr (r, regs')" "kms_NewReporter E kf kregs = Inr (k, kregs')" "metrics_doc E"
  shows "router_report E api r ctx ev =
      (case ev of
         Decision up oc \<Rightarrow> emit E Inc (rr_decisions r) ([up, Outcome_String oc] @ AppendValues api (NewMetadataLabels cfg) ctx [])
       | ForwardingError up reason \<Rightarrow> emit E Inc (rr_errors r) ([up, reason] @ AppendValues api (NewMetadataLabels cfg) ctx []))
    \<and> kms_Observe E k vev = Inr
      (case vev of
         EnvelopeEvent op ns err did cerr \<Rightarrow>
           (if did then [Inc (kr_dekOps k, [Operation_String op, kms_resultLabel cerr]), Sample (kr_dekOpDur k, [Operation_String op])] else [])
       | CacheEvent hit n \<Rightarrow> [Inc (if hit then kr_cacheHits k else kr_cacheMisses k), SetGauge (kr_cacheSize k) n]
       | RotationEvent ns why \<Rightarrow> [Inc (kr_dekRotations k, [RotationReason_String why])])"
proof
  show "router_report E api r ctx ev =
      (case ev of
         Decision up oc \<Rightarrow> emit E Inc (rr_decisions r) ([up, Outcome_String oc] @ AppendValues api (NewMetadataLabels cfg) ctx [])
       | ForwardingError up reason \<Rightarrow> emit E Inc (rr_errors r) ([up, reason] @ AppendValues api (NewMetadataLabels cfg) ctx []))"
    using router_report_emits [OF assms(1), of api ctx] by (simp add: router_report_def decision_values_def split: routeEvent.split)
  note k = kms_NewReporter_ok [OF assms(2)]
  have labels: "v_labels (kr_dekOps k) = [''operation'', ''result'']" "v_labels (kr_dekOpDur k) = [''operation'']" "v_labels (kr_dekRotations k) = [''reason'']"
    using k by (simp_all add: kms_labels_def)
  have "countDEKOp E k (Operation_String op) (kms_resultLabel cerr) = Inr [Inc (kr_dekOps k, [Operation_String op, kms_resultLabel cerr])]" for op cerr
    unfolding countDEKOp_def by (subst emit_by_handles [where labels = "\<lambda>(op, res). [op, res]"])
      (use k labels assms(3) plain_labels_valid in \<open>auto simp: kms_ok_def emit_doc\<close>)
  moreover have "observeDEKDur E k (Operation_String op) = Inr [Sample (kr_dekOpDur k, [Operation_String op])]" for op
    unfolding observeDEKDur_def by (subst emit_by_handles [where labels = "\<lambda>op. [op]"])
      (use k labels assms(3) plain_labels_valid in \<open>auto simp: kms_ok_def emit_doc\<close>)
  moreover have "rotated E k why = Inr [Inc (kr_dekRotations k, [RotationReason_String why])]" for why
    unfolding rotated_def Let_def by (subst emit_by_handles [where labels = "\<lambda>reason. [reason]"])
      (use k labels assms(3) plain_labels_valid in \<open>auto simp: kms_ok_def emit_doc\<close>)
  ultimately show "kms_Observe E k vev = Inr
      (case vev of
         EnvelopeEvent op ns err did cerr \<Rightarrow>
           (if did then [Inc (kr_dekOps k, [Operation_String op, kms_resultLabel cerr]), Sample (kr_dekOpDur k, [Operation_String op])] else [])
       | CacheEvent hit n \<Rightarrow> [Inc (if hit then kr_cacheHits k else kr_cacheMisses k), SetGauge (kr_cacheSize k) n]
       | RotationEvent ns why \<Rightarrow> [Inc (kr_dekRotations k, [RotationReason_String why])])"
    by (auto simp: kms_Observe_def envelopeOp_def cacheAccess_def andThen_def Let_def split: Event.split)
qed

section \<open>Witnesses\<close>

text \<open>A registry that refuses a name twice.\<close>

definition ex_metrics :: metrics_env where
  "ex_metrics = \<lparr>pr_Register = (\<lambda>regs v. if list_ex (\<lambda>w. v_name w = v_name v \<and> v_subsystem w = v_subsystem v) regs then Some (PanicErr (ErrorString ''duplicate'')) else None),
     pr_WithLabelValues = (\<lambda>v lvs. if length lvs = length (v_labels v) \<and> list_all ValidString lvs then None else Some (PanicErr (ErrorString ''bad labels''))),
     code_String = (\<lambda>_. ''OK'')\<rparr>"

lemma ex_metrics_doc: "metrics_doc ex_metrics"
proof -
  have "ValidString ''OK''" by code_simp
  then show ?thesis by (simp add: metrics_doc_def ex_metrics_def del: ValidString.simps)
qed

lemma ex_reporters:
  "\<not> isl (router_NewReporter ex_metrics (ForSubsystem (metrics_New ''p'') ''router'') [''a''] (NewMetadataLabels []) [])"
  "\<not> isl (kms_NewReporter ex_metrics (ForSubsystem (metrics_New ''p'') ''encryption'') [])"
  by code_simp+

theorem reporters_exact_witness:
  "\<exists>r k regs kregs. router_NewReporter ex_metrics (ForSubsystem (metrics_New ''p'') ''router'') [''a''] (NewMetadataLabels []) [] = Inr (r, regs)
     \<and> kms_NewReporter ex_metrics (ForSubsystem (metrics_New ''p'') ''encryption'') [] = Inr (k, kregs)
     \<and> router_report ex_metrics ex_api r ex_ctx (Decision ''a'' OutcomeMatch) = emit ex_metrics Inc (rr_decisions r) [''a'', ''match'']
     \<and> kms_Observe ex_metrics k (RotationEvent ''ns'' RotationInitial) = Inr [Inc (kr_dekRotations k, [''initial''])]"
proof -
  obtain r regs k kregs where rk: "router_NewReporter ex_metrics (ForSubsystem (metrics_New ''p'') ''router'') [''a''] (NewMetadataLabels []) [] = Inr (r, regs)"
      "kms_NewReporter ex_metrics (ForSubsystem (metrics_New ''p'') ''encryption'') [] = Inr (k, kregs)"
    using ex_reporters by (metis prod.exhaust sum.collapse(2))
  from reporters_exact [OF rk ex_metrics_doc, of ex_api ex_ctx "Decision ''a'' OutcomeMatch" "RotationEvent ''ns'' RotationInitial"] rk show ?thesis
    by (simp add: Outcome_String_def AppendValues_def NewMetadataLabels_def)
qed

end
