(* ===== verification/Dataplane.thy ===== *)
theory Dataplane
  imports Outbound Metrics_Reporters
begin

text \<open>
  \<open>internal/dataplane/dataplane.go\<close> and \<open>reporters.go\<close>: the request path put together. \<open>dataplane_New\<close> prepares the configuration, builds a forwarder for
  every upstream (\<open>Outbound\<close>), the codecs (\<open>Proxy_Codec\<close>), the mux (\<open>Router\<close>) and the gateway with its chain of stream
  interceptors (\<open>Server\<close>): the reporter, the recovery of panics, the peek at the first message and the authentication, in
  front of the routing handler. \<open>gateway_serve\<close> runs a stream through that chain.

  How forwarding a routed stream ends is an input (its parts are in \<open>Forward\<close> and \<open>Pump\<close>); Prometheus is a parameter, as in
  \<open>Metrics_Reporters\<close>. Loggers and the registry of message types are left out, except for the warnings of \<open>New\<close>.
\<close>

section \<open>A stream on the gateway\<close>

text \<open>What became of a stream: how the chain ended, the forwarder that was called with its context and stream, and what
  was reported on the way.\<close>

record 'g gw_result =
  gw_end :: outcome
  gw_called :: "(string \<times> 'g goctx \<times> 'g replayStream) option"
  gw_rejections :: "rejectionLog list"
  gw_events :: "routeEvent list"
  gw_panics :: "(string \<times> string) list"
  gw_observed :: "(string \<times> code) list"
  gw_emitted :: "emission list"

type_synonym 'g gw_stream = "'g replayStream \<Rightarrow> 'g gw_result"
type_synonym 'g gw_interceptor = "('g, 'g gw_stream) stream_interceptor"

definition gw_refused :: "goerror \<Rightarrow> rejectionLog list \<Rightarrow> routeEvent list \<Rightarrow> emission list \<Rightarrow> 'g gw_result" where
  "gw_refused err rej evs em =
     \<lparr>gw_end = Returned (Some err), gw_called = None, gw_rejections = rej, gw_events = evs, gw_panics = [], gw_observed = [], gw_emitted = em\<rparr>"

definition panic_text :: "panic_value \<Rightarrow> string" where
  "panic_text p = (case p of PanicErr err \<Rightarrow> Error err | PanicOther s \<Rightarrow> s)"

text \<open>The interceptors and the handler, as the server chains them. A report whose labels Prometheus refuses panics in the stage
  that makes it.\<close>

definition report_stage :: "metrics_env \<Rightarrow> 'g grpc_api \<Rightarrow> server_Reporter \<Rightarrow> status_api \<Rightarrow> 'g gw_interceptor" where
  "report_stage E api sr st meth handler ctx rs =
     (let r = handler ctx rs
      in case gw_end r of
           Panicked _ \<Rightarrow> r
         | Returned err \<Rightarrow>
             (case Reporter_StreamInterceptor st meth err of
                (err', obs) \<Rightarrow>
                  (case server_Observe E api sr ctx (fst obs) (snd obs) of
                     Inl p \<Rightarrow> r\<lparr>gw_end := Panicked (panic_text p)\<rparr>
                   | Inr em \<Rightarrow> r\<lparr>gw_end := Returned err', gw_observed := gw_observed r @ [obs], gw_emitted := gw_emitted r @ em\<rparr>)))"

fun report_panics :: "metrics_env \<Rightarrow> 'g grpc_api \<Rightarrow> server_Reporter \<Rightarrow> 'g goctx \<Rightarrow> string list \<Rightarrow> panic_value + emission list" where
  "report_panics E api sr ctx [] = Inr []"
| "report_panics E api sr ctx (meth # ms) =
     andThen (server_Panic E api sr ctx meth) (\<lambda>em. andThen (report_panics E api sr ctx ms) (\<lambda>em'. Inr (em @ em')))"

definition recovery_stage :: "metrics_env \<Rightarrow> 'g grpc_api \<Rightarrow> server_Reporter \<Rightarrow> 'g gw_interceptor" where
  "recovery_stage E api sr meth handler ctx rs =
     (let r = handler ctx rs
      in case recoveryInterceptor True meth (gw_end r) of
           (err, logged, ms) \<Rightarrow>
             (let r = r\<lparr>gw_end := Returned err, gw_panics := gw_panics r @ logged\<rparr>
              in case report_panics E api sr ctx ms of
                   Inl p \<Rightarrow> r\<lparr>gw_end := Panicked (panic_text p)\<rparr>
                 | Inr em \<Rightarrow> r\<lparr>gw_emitted := gw_emitted r @ em\<rparr>))"

definition peek_stage :: "'m codec_env \<Rightarrow> status_api \<Rightarrow> (string \<Rightarrow> bytes \<Rightarrow> string) \<Rightarrow> allowSet \<Rightarrow> 'g gw_interceptor" where
  "peek_stage env st extractor a meth handler ctx rs =
     (case PeekInterceptor env st extractor a meth ((r_stream rs)\<lparr>s_ctx := ctx\<rparr>) of
        Inl err \<Rightarrow> gw_refused err [] [] []
      | Inr rs' \<Rightarrow> handler (r_ctx rs') rs')"

definition auth_stage :: "'g grpc_api \<Rightarrow> status_api \<Rightarrow> 'g Authenticator \<Rightarrow> 'g gw_interceptor" where
  "auth_stage api st au meth handler ctx rs =
     (case StreamServerInterceptor api st au meth ctx of
        (Inl err, rej) \<Rightarrow> gw_refused err rej [] []
      | (Inr ctx', _) \<Rightarrow> handler ctx' rs)"

fun report_events :: "metrics_env \<Rightarrow> 'g grpc_api \<Rightarrow> router_Reporter \<Rightarrow> 'g goctx \<Rightarrow> routeEvent list \<Rightarrow> panic_value + emission list" where
  "report_events E api rr ctx [] = Inr []"
| "report_events E api rr ctx (ev # evs) =
     andThen (router_report E api rr ctx ev) (\<lambda>em. andThen (report_events E api rr ctx evs) (\<lambda>em'. Inr (em @ em')))"

definition handler_stage :: "metrics_env \<Rightarrow> 'g grpc_api \<Rightarrow> router_Reporter \<Rightarrow> ('g forwarder \<Rightarrow> 'g goctx \<Rightarrow> 'g replayStream \<Rightarrow> outcome)
    \<Rightarrow> 'g forwarder director_state \<Rightarrow> allowSet \<Rightarrow> 'g goctx \<Rightarrow> 'g gw_stream" where
  "handler_stage E api rr ends d a ctx rs =
     (case Handler api (Resolve d) a ctx of
        (res, evs) \<Rightarrow>
          (case report_events E api rr ctx evs of
             Inl p \<Rightarrow> \<lparr>gw_end = Panicked (panic_text p), gw_called = None, gw_rejections = [], gw_events = evs, gw_panics = [], gw_observed = [], gw_emitted = []\<rparr>
           | Inr em \<Rightarrow>
               (case res of
                  Inl err \<Rightarrow> gw_refused err [] evs em
                | Inr (t, ctx') \<Rightarrow>
                    \<lparr>gw_end = ends (Handle t) ctx' rs, gw_called = Some (RouteTarget.Upstream t, ctx', rs), gw_rejections = [], gw_events = evs,
                     gw_panics = [], gw_observed = [], gw_emitted = em\<rparr>)))"

section \<open>Options and checks\<close>

record 'g dp_options =
  do_extractor :: "(string \<Rightarrow> bytes \<Rightarrow> string) option"
  do_translator :: bool
  do_pool :: bool
  do_metrics :: "Factory option"
  do_allowlist :: "allowSet option"
  do_auth :: "'g Authenticator option"
  do_vault :: bool
  do_abort :: bool

type_synonym 'g dpOption = "'g dp_options \<Rightarrow> 'g dp_options"

definition dp_defaults :: "'g dp_options" where
  "dp_defaults = \<lparr>do_extractor = None, do_translator = False, do_pool = False, do_metrics = None, do_allowlist = None, do_auth = None,
     do_vault = False, do_abort = False\<rparr>"

definition WithExtractor :: "(string \<Rightarrow> bytes \<Rightarrow> string) option \<Rightarrow> 'g dpOption" where
  "WithExtractor e opts = opts\<lparr>do_extractor := e\<rparr>"

definition WithTranslator :: "bool \<Rightarrow> 'g dpOption" where
  "WithTranslator present opts = opts\<lparr>do_translator := present\<rparr>"

definition WithPool :: "bool \<Rightarrow> 'g dpOption" where
  "WithPool present opts = opts\<lparr>do_pool := present\<rparr>"

definition WithMetrics :: "Factory option \<Rightarrow> 'g dpOption" where
  "WithMetrics f opts = opts\<lparr>do_metrics := f\<rparr>"

definition WithAllowlist :: "allowSet option \<Rightarrow> 'g dpOption" where
  "WithAllowlist al opts = opts\<lparr>do_allowlist := al\<rparr>"

definition dp_WithAuth :: "'g Authenticator option \<Rightarrow> 'g dpOption" where
  "dp_WithAuth au opts = opts\<lparr>do_auth := au\<rparr>"

definition WithVault :: "bool \<Rightarrow> 'g dpOption" where
  "WithVault present opts = opts\<lparr>do_vault := present\<rparr>"

definition WithAbort :: "bool \<Rightarrow> 'g dpOption" where
  "WithAbort present opts = opts\<lparr>do_abort := present\<rparr>"

definition dp_apply :: "'g dpOption list \<Rightarrow> 'g dp_options" where
  "dp_apply opts = fold (\<lambda>f. f) opts dp_defaults"

lemmas dp_option_defs = dp_defaults_def WithExtractor_def WithTranslator_def WithPool_def WithMetrics_def WithAllowlist_def dp_WithAuth_def
  WithVault_def WithAbort_def dp_apply_def

definition validate :: "bool \<Rightarrow> Config option \<Rightarrow> 'g dp_options \<Rightarrow> goerror option" where
  "validate hasCtx cfg opts =
     (if \<not> hasCtx then Some (ErrorString ''dataplane: ctx is required'')
      else if cfg = None then Some (ErrorString ''dataplane: cfg is required'')
      else if do_extractor opts = None then Some (ErrorString ''dataplane: WithExtractor is required'')
      else if \<not> do_translator opts then Some (ErrorString ''dataplane: WithTranslator is required'')
      else if \<not> do_pool opts then Some (ErrorString ''dataplane: WithPool is required'')
      else if do_metrics opts = None then Some (ErrorString ''dataplane: WithMetrics is required'')
      else if do_allowlist opts = None then Some (ErrorString ''dataplane: WithAllowlist is required'')
      else if do_auth opts = None then Some (ErrorString ''dataplane: WithAuth is required'')
      else None)"

record reporters =
  rp_router :: router_Reporter
  rp_server :: server_Reporter
  rp_encryption :: "proxy_Reporter option"

definition newReporters :: "metrics_env \<Rightarrow> Factory \<Rightarrow> Config \<Rightarrow> bool \<Rightarrow> vec list \<Rightarrow> (reporters \<times> vec list) result" where
  "newReporters E f cfg encryption regs =
     recovered ''dataplane: registering metrics panicked, is another dataplane using this registry, or a configured metrics.labels entry colliding with a collector's own label: ''
       (let names = map cu_Name (c_Upstreams cfg);
            labels = NewMetadataLabels (mls_Metadata (me_Labels (c_Metrics cfg)))
        in andThen (router_NewReporter E (ForSubsystem f ''router'') names labels regs) (\<lambda>(rr, regs).
           andThen (server_NewReporter E (ForSubsystem f ''server'') labels regs) (\<lambda>(sr, regs).
           if \<not> encryption then Inr (\<lparr>rp_router = rr, rp_server = sr, rp_encryption = None\<rparr>, regs)
           else andThen (proxy_NewReporter E (ForSubsystem f ''encryption'') labels (mls_Namespace (me_Labels (c_Metrics cfg))) regs) (\<lambda>(pr, regs).
                Inr (\<lparr>rp_router = rr, rp_server = sr, rp_encryption = Some pr\<rparr>, regs)))))"

definition translates :: "Config \<Rightarrow> bool" where
  "translates cfg = list_ex (\<lambda>up. IsCloud (upstream_names up)) (c_Upstreams cfg)"

section \<open>Assembly\<close>

record ('g, 'm, 'h, 'c) dp_env =
  de_assembly :: "'g assembly"
  de_codec :: "'m codec_env"
  de_health :: "'h health_api"
  de_vault :: "'c vault_env"
  de_metrics :: metrics_env
  de_registered :: "vec list"
  de_ends :: "'g forwarder \<Rightarrow> 'g goctx \<Rightarrow> 'g replayStream \<Rightarrow> outcome"

record ('g, 'h, 'c) Dataplane =
  dp_gateway :: "('h, 'g, 'g gw_stream) Server"
  dp_hostPort :: string
  dp_ready :: "'g conn list"
  dp_codecs :: "'c Codecs"
  dp_hasAbort :: bool
  dp_warnings :: "string list"
  dp_registered :: "vec list"

definition codec_options :: "Config \<Rightarrow> bool \<Rightarrow> CodecOptions" where
  "codec_options cfg hasVault =
     \<lparr>HasVault = hasVault, Encrypt = e_Enabled (c_Encryption cfg), EncodeFailures = e_Failures (c_Encryption cfg),
      SkipEncodings = e_SkipEncodings (c_Encryption cfg), HasReporter = hasVault\<rparr>"

definition new_warnings :: "Config \<Rightarrow> bool \<Rightarrow> string list" where
  "new_warnings cfg hasVault =
     (if \<not> CloudAPI_IsZero (at_CloudAPI (c_APITranslations cfg)) \<and> \<not> translates cfg
      then [''apiTranslations is configured but no upstream is Temporal Cloud, so no method will be translated''] else [])
     @ (if e_SkipEncodings (c_Encryption cfg) \<noteq> [] \<and> \<not> hasVault
        then [''encryption.skipEncodings is set but no encryption keys are configured, so it has no effect''] else [])"

fun build_upstreams :: "'g assembly \<Rightarrow> Config \<Rightarrow> ConfigUpstream list \<Rightarrow> 'g conn list \<Rightarrow> 'g forwarder gomap \<Rightarrow> dial_state
    \<Rightarrow> ('g conn list \<times> 'g forwarder gomap) result \<times> dial_state" where
  "build_upstreams A cfg [] ready hs s = (Inr (ready, hs), s)"
| "build_upstreams A cfg (up # ups) ready hs s =
     (case newUpstreamForwarder A cfg up s of
        (Inl err, s) \<Rightarrow> (Inl err, s)
      | (Inr fw, s) \<Rightarrow>
          build_upstreams A cfg ups (if fw_ready fw then ready @ [fw_conn fw] else ready) (AList.update (cu_Name up) fw hs) s)"

text \<open>The credentials of the listener, as the server asks for them.\<close>

definition listener_creds :: "config_env \<Rightarrow> credential \<Rightarrow> creds_world \<Rightarrow> string result \<times> creds_world" where
  "listener_creds E l w =
     (case ServerOption (ce_x509 E) (ce_files E) (ce_now E) l w of
        (Inl err, w) \<Rightarrow> (Inl (verr_error err), w)
      | (Inr None, w) \<Rightarrow> (Inr ''insecure'', w)
      | (Inr (Some _), w) \<Rightarrow> (Inr ''tls'', w))"

definition gateway_options :: "('g, 'm, 'h, 'c) dp_env \<Rightarrow> Config \<Rightarrow> reporters \<Rightarrow> (string \<Rightarrow> bytes \<Rightarrow> string) \<Rightarrow> allowSet \<Rightarrow> 'g Authenticator
    \<Rightarrow> 'g forwarder director_state \<Rightarrow> string result \<Rightarrow> bool \<Rightarrow> ('g, 'g gw_stream) serverOption list" where
  "gateway_options env cfg reps extractor al au d svrCreds encrypted =
     (let A = de_assembly env
      in [server_WithCredentials svrCreds encrypted,
          WithServerCodec ''proto'',
          WithHealthServices (ServiceNames al),
          WithLoopbackHealthCheck (CheckInterval (c_Health cfg)) (CheckTimeout (c_Health cfg)),
          WithStreamInterceptor [report_stage (de_metrics env) (as_api A) (rp_server reps) (as_status A)],
          WithStreamInterceptor [recovery_stage (de_metrics env) (as_api A) (rp_server reps)],
          WithStreamInterceptor [peek_stage (de_codec env) (as_status A) extractor al],
          WithStreamInterceptor [auth_stage (as_api A) (as_status A) au],
          WithUnknownServiceHandler (handler_stage (de_metrics env) (as_api A) (rp_router reps) (de_ends env) d al)])"

text \<open>\<open>New\<close>, from the reporters on, for a prepared configuration.\<close>

definition assemble :: "('g, 'm, 'h, 'c) dp_env \<Rightarrow> Factory \<Rightarrow> Config \<Rightarrow> (string \<Rightarrow> bytes \<Rightarrow> string) \<Rightarrow> allowSet \<Rightarrow> 'g Authenticator \<Rightarrow> bool \<Rightarrow> bool \<Rightarrow> dial_state
    \<Rightarrow> ('g, 'h, 'c) Dataplane result \<times> dial_state" where
  "assemble env f cfg extractor al au hasVault hasAbort s =
     (case newReporters (de_metrics env) f cfg hasVault (de_registered env) of
        Inl err \<Rightarrow> (Inl err, s)
      | Inr (reps, regs) \<Rightarrow>
     (case NewCodecs (de_vault env) (codec_options cfg hasVault) of
        Inl err \<Rightarrow> (Inl (WrapError (''failed to build payload codecs: '' @ Error err) [err]), s)
      | Inr codecs \<Rightarrow>
     (case MuxFor (c_Routing cfg) of
        Inl err \<Rightarrow> (Inl err, s)
      | Inr mx \<Rightarrow>
     (case build_upstreams (de_assembly env) cfg (c_Upstreams cfg) [] [] s of
        (Inl err, s) \<Rightarrow> (Inl err, s)
      | (Inr (ready, hs), s) \<Rightarrow>
     (case ListenConfig_Listener (c_Listen cfg) [WithReloader (as_reloader (de_assembly env)) ''gateway''] (ds_creds s) of
        (l, w) \<Rightarrow>
     (case listener_creds (as_config (de_assembly env)) l w of
        (svrCreds, w) \<Rightarrow>
     (case server_New (de_health env) (gateway_options env cfg reps extractor al au \<lparr>handlers = hs, mux = mx\<rparr> svrCreds (Encrypted l)) of
        Inl err \<Rightarrow> (Inl (WrapError (''failed to create server: '' @ Error err) [err]), s\<lparr>ds_creds := w\<rparr>)
      | Inr gateway \<Rightarrow>
          (Inr \<lparr>dp_gateway = gateway, dp_hostPort = l_HostPort (c_Listen cfg), dp_ready = ready, dp_codecs = codecs,
                dp_hasAbort = hasAbort, dp_warnings = new_warnings cfg hasVault, dp_registered = regs\<rparr>, s\<lparr>ds_creds := w\<rparr>))))))))"

text \<open>The text of an error of \<open>Prepare\<close>.\<close>

definition prepare_text :: "prepare_error \<Rightarrow> string" where
  "prepare_text err =
     (case err of
        Invalid e \<Rightarrow> verr_text e
      | UpstreamFailed i errs \<Rightarrow> ''upstreams['' @ fmt_d (int i) @ '']: '' @ verr_text (AsErrors errs)
      | RoutingFailed i errs \<Rightarrow> ''routing: rules['' @ fmt_d (int i) @ '']: '' @ verr_text (AsErrors errs))"

definition dataplane_New :: "('g, 'm, 'h, 'c) dp_env \<Rightarrow> bool \<Rightarrow> Config option \<Rightarrow> 'g dp_options \<Rightarrow> dial_state
    \<Rightarrow> ('g, 'h, 'c) Dataplane result \<times> dial_state" where
  "dataplane_New env hasCtx cfg0 opts s =
     (case validate hasCtx cfg0 opts of
        Some err \<Rightarrow> (Inl err, s)
      | None \<Rightarrow>
          (case (cfg0, do_extractor opts, do_metrics opts, do_allowlist opts, do_auth opts) of
             (Some cfg1, Some extractor, Some f, Some al, Some au) \<Rightarrow>
               (case Prepare (as_config (de_assembly env)) cfg1 of
                  (Some err, _) \<Rightarrow> (Inl (WrapError (''invalid configuration: '' @ prepare_text err) [ErrorString (prepare_text err)]), s)
                | (None, cfg) \<Rightarrow>
                    (if (e_Enabled (c_Encryption cfg) \<or> e_Default (c_Encryption cfg) \<noteq> None) \<and> \<not> do_vault opts
                     then (Inl (ErrorString ''encryption is enabled or keys are configured, but no vault was provided''), s)
                     else assemble env f cfg extractor al au (do_vault opts) (do_abort opts) s))
           | _ \<Rightarrow> (Inl (ErrorString ''dataplane: unreachable''), s)))"

text \<open>A stream of a service that is not registered on the server: through the chain to the handler.\<close>

fun unknown_handler :: "('g, 'r) grpcOption list \<Rightarrow> ('g goctx \<Rightarrow> 'r) option" where
  "unknown_handler [] = None"
| "unknown_handler (GUnknownService h # opts) = Some h"
| "unknown_handler (_ # opts) = unknown_handler opts"

definition accepted :: "'g ServerStream \<Rightarrow> 'g replayStream" where
  "accepted ss = \<lparr>r_stream = ss, r_ctx = s_ctx ss, r_first = None, r_replayed = True\<rparr>"

definition gateway_serve :: "('g, 'h, 'c) Dataplane \<Rightarrow> string \<Rightarrow> 'g ServerStream \<Rightarrow> 'g gw_result option" where
  "gateway_serve dp meth ss =
     (let opts = sv_grpc (dp_gateway dp)
      in map_option (\<lambda>h. stream_chain (served_chain opts) meth h (s_ctx ss) (accepted ss)) (unknown_handler opts))"

section \<open>Lemmas\<close>

subsection \<open>The table of a prepared configuration\<close>

lemma route_spec_reset [simp]: "route_spec (reset_routing r) = route_spec r"
proof -
  have "List.find (\<lambda>x. rule_accepts (rr_Match x) ns md) (map (\<lambda>x. x\<lparr>matchers := None\<rparr>) rs)
      = map_option (\<lambda>x. x\<lparr>matchers := None\<rparr>) (List.find (\<lambda>x. rule_accepts (rr_Match x) ns md) rs)" for rs :: "RoutingRule list" and ns md
    by (induction rs) simp_all
  then show ?thesis by (intro ext) (simp add: route_spec_def reset_routing_def split: option.split)
qed

lemma prepared_config:
  assumes "Prepare E c = (None, c')"
  shows "config_ok E (applyDefaults (Config_reset c))" "c_Routing c' = snd (compile_routing (reset_routing (c_Routing c)))"
    "map cu_Name (c_Upstreams c') = map cu_Name (c_Upstreams c)"
proof -
  let ?c0 = "applyDefaults (Config_reset c)"
  show ok: "config_ok E ?c0" using assms by (simp add: Prepare_eq split: if_splits)
  then obtain c1 where c1: "Config_compile E ?c0 = (None, c1)" "Config_reset c1 = Config_reset ?c0" by (rule Config_compile_ok)
  have c': "c' = c1" using assms ok c1(1) by (simp add: Prepare_eq)
  show "c_Routing c' = snd (compile_routing (reset_routing (c_Routing c)))"
    using c1(1) c' by (auto simp: Config_compile_def applyDefaults_def Config_reset_def split: prod.splits option.splits)
  have "map cu_Name (c_Upstreams c1) = map cu_Name (map Upstream_reset (c_Upstreams c1))" for c1 by (simp add: Upstream_reset_def)
  moreover have "c_Upstreams (Config_reset c') = c_Upstreams (Config_reset ?c0)" using c1(2) c' by simp
  then have "map Upstream_reset (c_Upstreams c') = map Upstream_reset (c_Upstreams c)"
    by (simp add: Config_reset_def applyDefaults_def Upstream_reset_def reset_rules_def comp_def)
  ultimately show "map cu_Name (c_Upstreams c') = map cu_Name (c_Upstreams c)" by metis
qed

lemma prepared_switch:
  assumes "Prepare E c = (None, c')" "routing_wf (c_Routing c)" "MuxFor (c_Routing c') = Inr m"
  shows "Switch m ns md = route_spec (c_Routing c) ns md"
proof -
  let ?r = "reset_routing (c_Routing c)"
  have "routing_wf ?r" using assms(2) by (simp add: routing_wf_def reset_routing_def list_all_iff)
  moreover have "Routing_Validate ?r = None"
    using prepared_config(1) [OF assms(1)] by (simp add: config_ok_def applyDefaults_def Config_reset_def)
  ultimately show ?thesis
    by (rule MuxFor_Switch) (use assms(3) prepared_config(2) [OF assms(1)] in simp)
qed

subsection \<open>What \<open>New\<close> builds\<close>

lemma build_upstreams_frame:
  assumes "build_upstreams A cfg ups ready hs s = (Inr (ready', hs'), s')"
  shows "fst ` set hs' = fst ` set hs \<union> cu_Name ` set ups
    \<and> (\<forall>name fw. map_of hs' name = Some fw \<longrightarrow> map_of hs name = Some fw
        \<or> (\<exists>up\<in>set ups. name = cu_Name up \<and> (\<exists>t t'. newUpstreamForwarder A cfg up t = (Inr fw, t'))))
    \<and> (\<exists>cs. ready' = ready @ cs)"
  using assms
proof (induction ups arbitrary: ready hs s)
  case (Cons up ups)
  obtain fw t where fw: "newUpstreamForwarder A cfg up s = (Inr fw, t)"
      "build_upstreams A cfg ups (if fw_ready fw then ready @ [fw_conn fw] else ready) (AList.update (cu_Name up) fw hs) t = (Inr (ready', hs'), s')"
    using Cons.prems by (auto split: prod.splits sum.splits)
  note IH = Cons.IH [OF fw(2)]
  have names: "fst ` set hs' = fst ` set hs \<union> cu_Name ` set (up # ups)" using IH by (auto simp: fst_set_AList_update)
  have "map_of hs name = Some f \<or> (\<exists>u\<in>set (up # ups). name = cu_Name u \<and> (\<exists>t t'. newUpstreamForwarder A cfg u t = (Inr f, t')))"
    if "map_of hs' name = Some f" for name f
  proof -
    have "map_of (AList.update (cu_Name up) fw hs) name = Some f
        \<or> (\<exists>u\<in>set ups. name = cu_Name u \<and> (\<exists>t t'. newUpstreamForwarder A cfg u t = (Inr f, t')))" using that IH by blast
    then show ?thesis using fw(1) by (cases "name = cu_Name up") (auto simp: update_conv')
  qed
  moreover have "\<exists>cs. ready' = ready @ cs" using IH by (auto split: if_splits)
  ultimately show ?case using names by blast
qed simp

lemma unknown_options [simp]: "unknown_handler (serverOptions sv cr) = so_unknownHandler sv"
  by (auto simp: serverOptions_def split: option.splits)

lemma gateway_chain:
  assumes "server_New H (gateway_options env cfg reps ex al au d cr enc) = Inr sv"
  shows "served_chain (sv_grpc sv) =
      [report_stage (de_metrics env) (as_api (de_assembly env)) (rp_server reps) (as_status (de_assembly env)),
       recovery_stage (de_metrics env) (as_api (de_assembly env)) (rp_server reps), peek_stage (de_codec env) (as_status (de_assembly env)) ex al,
       auth_stage (as_api (de_assembly env)) (as_status (de_assembly env)) au]
    \<and> unknown_handler (sv_grpc sv) = Some (handler_stage (de_metrics env) (as_api (de_assembly env)) (rp_router reps) (de_ends env) d al)"
  using assms
  by (auto simp: server_New_def gateway_options_def Let_def server_WithCredentials_def WithServerCodec_def WithHealthServices_def
      WithLoopbackHealthCheck_def WithStreamInterceptor_def WithUnknownServiceHandler_def defaultServer_def split: sum.splits)

lemma assembleE:
  assumes "assemble env f cfg ex al au hv ha s = (Inr dp, s')"
  obtains reps mx ready hs t cr enc where "newReporters (de_metrics env) f cfg hv (de_registered env) = Inr (reps, dp_registered dp)"
    "NewCodecs (de_vault env) (codec_options cfg hv) = Inr (dp_codecs dp)" "MuxFor (c_Routing cfg) = Inr mx"
    "build_upstreams (de_assembly env) cfg (c_Upstreams cfg) [] [] s = (Inr (ready, hs), t)"
    "server_New (de_health env) (gateway_options env cfg reps ex al au \<lparr>handlers = hs, mux = mx\<rparr> cr enc) = Inr (dp_gateway dp)"
    "dp_ready dp = ready" "dp_hostPort dp = l_HostPort (c_Listen cfg)"
proof -
  obtain reps regs where reps: "newReporters (de_metrics env) f cfg hv (de_registered env) = Inr (reps, regs)"
    using assms by (cases "newReporters (de_metrics env) f cfg hv (de_registered env)") (auto simp: assemble_def)
  obtain codecs where codecs: "NewCodecs (de_vault env) (codec_options cfg hv) = Inr codecs"
    using assms by (cases "NewCodecs (de_vault env) (codec_options cfg hv)") (simp_all add: assemble_def reps)
  obtain mx where mx: "MuxFor (c_Routing cfg) = Inr mx"
    using assms by (cases "MuxFor (c_Routing cfg)") (simp_all add: assemble_def reps codecs)
  obtain b t where b: "build_upstreams (de_assembly env) cfg (c_Upstreams cfg) [] [] s = (b, t)" by fastforce
  obtain ready hs where built: "b = Inr (ready, hs)"
    using assms by (cases b) (auto simp: assemble_def reps codecs mx b)
  obtain l w where l: "ListenConfig_Listener (c_Listen cfg) [WithReloader (as_reloader (de_assembly env)) ''gateway''] (ds_creds t) = (l, w)" by fastforce
  obtain cr w' where cr: "listener_creds (as_config (de_assembly env)) l w = (cr, w')" by fastforce
  obtain sv where sv: "server_New (de_health env) (gateway_options env cfg reps ex al au \<lparr>handlers = hs, mux = mx\<rparr> cr (Encrypted l)) = Inr sv"
    using assms by (cases "server_New (de_health env) (gateway_options env cfg reps ex al au \<lparr>handlers = hs, mux = mx\<rparr> cr (Encrypted l))")
      (simp_all add: assemble_def reps codecs mx b built l cr)
  have "dp_gateway dp = sv" "dp_codecs dp = codecs" "dp_ready dp = ready" "dp_hostPort dp = l_HostPort (c_Listen cfg)" "dp_registered dp = regs"
    using assms by (auto simp: assemble_def reps codecs mx b built l cr sv)
  with reps codecs mx b built sv that show thesis by metis
qed

lemma newReporters_server:
  assumes "newReporters E f cfg enc regs = Inr (reps, regs')"
  obtains regs1 regs2 where "server_NewReporter E (ForSubsystem f ''server'') (NewMetadataLabels (mls_Metadata (me_Labels (c_Metrics cfg)))) regs1 = Inr (rp_server reps, regs2)"
  using assms by (auto simp: newReporters_def recovered_def andThen_Inr Let_def split: sum.splits if_splits)

lemma dataplane_NewE:
  assumes "dataplane_New env hasCtx cfg0 opts s = (Inr dp, s')"
  obtains cfg1 ex f al au cfg where "cfg0 = Some cfg1" "do_extractor opts = Some ex" "do_allowlist opts = Some al" "do_auth opts = Some au"
    "Prepare (as_config (de_assembly env)) cfg1 = (None, cfg)"
    "e_Enabled (c_Encryption cfg) \<or> e_Default (c_Encryption cfg) \<noteq> None \<longrightarrow> do_vault opts"
    "assemble env f cfg ex al au (do_vault opts) (do_abort opts) s = (Inr dp, s')"
  using assms by (auto simp: dataplane_New_def split: option.splits prod.splits if_splits)


subsection \<open>The chain\<close>

text \<open>A stream that passes the peek carries the target it read.\<close>

definition peeked_namespace :: "(string \<Rightarrow> bytes \<Rightarrow> string) \<Rightarrow> string \<Rightarrow> 'g ServerStream \<Rightarrow> string" where
  "peeked_namespace ex meth ss = (case s_wire ss (s_pos ss) of Inr b \<Rightarrow> ex meth b | Inl _ \<Rightarrow> [])"

lemma Peek_ctx:
  assumes "PeekInterceptor env st ex al meth ss = Inr rs"
  shows "\<exists>ns. r_ctx rs = WithTarget (s_ctx ss) \<lparr>FullName = meth, Namespace = ns, HTTP = None\<rparr>
    \<and> (Allows al (Service meth) \<longrightarrow> ns = peeked_namespace ex meth ss)"
  using assms
  by (auto simp: peeked_namespace_def PeekInterceptor_def stream_RecvMsg_def passthrough_Unmarshal_def Let_def split: sum.splits if_splits)

text \<open>The two outer stages report and recover; what was called stays as it was. Both need a method that can be a label.\<close>

definition sr_built :: "metrics_env \<Rightarrow> server_Reporter \<Rightarrow> bool" where
  "sr_built E sr \<longleftrightarrow> metrics_doc E \<and> (\<exists>f cfg regs regs'. server_NewReporter E f (NewMetadataLabels cfg) regs = Inr (sr, regs'))"

lemma recovery_stage_ok:
  assumes "sr_built E sr" "ValidString meth"
  shows "\<exists>err. gw_end (recovery_stage E api sr meth h ctx rs) = Returned err
    \<and> gw_observed (recovery_stage E api sr meth h ctx rs) = gw_observed (h ctx rs) \<and> gw_called (recovery_stage E api sr meth h ctx rs) = gw_called (h ctx rs)
    \<and> (case gw_end (h ctx rs) of Returned None \<Rightarrow> True | _ \<Rightarrow> err \<noteq> None)"
proof -
  obtain f cfg regs regs' where sr: "server_NewReporter E f (NewMetadataLabels cfg) regs = Inr (sr, regs')" "metrics_doc E"
    using assms(1) unfolding sr_built_def by blast
  obtain em where "server_Panic E api sr ctx meth = Inr em" using server_reports(2) [OF sr assms(2)] by blast
  then show ?thesis
    by (auto simp: recovery_stage_def recoveryInterceptor_def Let_def andThen_def split: prod.splits outcome.splits option.splits)
qed

lemma outer_stages:
  assumes "sr_built E sr" "ValidString meth"
  shows "\<exists>err. gw_end (report_stage E api sr st meth (recovery_stage E api sr meth h) ctx rs) = Returned err
    \<and> gw_observed (report_stage E api sr st meth (recovery_stage E api sr meth h) ctx rs) = gw_observed (h ctx rs) @ [(meth, case err of None \<Rightarrow> OK | Some e \<Rightarrow> status_Code st e)]
    \<and> gw_called (report_stage E api sr st meth (recovery_stage E api sr meth h) ctx rs) = gw_called (h ctx rs)
    \<and> (case gw_end (h ctx rs) of Returned None \<Rightarrow> True | _ \<Rightarrow> err \<noteq> None)"
proof -
  obtain f cfg regs regs' where sr: "server_NewReporter E f (NewMetadataLabels cfg) regs = Inr (sr, regs')" "metrics_doc E"
    using assms(1) unfolding sr_built_def by blast
  obtain err where err: "gw_end (recovery_stage E api sr meth h ctx rs) = Returned err" "gw_observed (recovery_stage E api sr meth h ctx rs) = gw_observed (h ctx rs)"
      "gw_called (recovery_stage E api sr meth h ctx rs) = gw_called (h ctx rs)" "case gw_end (h ctx rs) of Returned None \<Rightarrow> True | _ \<Rightarrow> err \<noteq> None"
    using recovery_stage_ok [OF assms] by blast
  then show ?thesis
    by (simp add: report_stage_def Reporter_StreamInterceptor_def Let_def server_reports(1) [OF sr assms(2)])
qed

text \<open>Without one, they panic.\<close>

lemma report_stage_panics:
  assumes "sr_built E sr" "\<not> ValidString meth"
  shows "\<exists>p. gw_end (report_stage E api sr st meth h ctx rs) = Panicked p"
proof -
  obtain f cfg regs regs' where sr: "server_NewReporter E f (NewMetadataLabels cfg) regs = Inr (sr, regs')" "metrics_doc E"
    using assms(1) unfolding sr_built_def by blast
  have "\<exists>p. server_Observe E api sr ctx meth c = Inl p" for c using server_reports(3) [OF sr assms(2)] by blast
  then show ?thesis
    by (cases "gw_end (h ctx rs)") (auto simp: report_stage_def Reporter_StreamInterceptor_def Let_def split: sum.splits, metis sum.distinct(1))
qed

text \<open>The inner stages: the forwarder is called on what was peeked, authenticated and routed, or not at all.\<close>

definition routed_stream :: "('g, 'm, 'h, 'c) dp_env \<Rightarrow> (string \<Rightarrow> bytes \<Rightarrow> string) \<Rightarrow> allowSet \<Rightarrow> 'g Authenticator \<Rightarrow> (string \<Rightarrow> MD \<Rightarrow> string) \<Rightarrow> string \<Rightarrow> 'g ServerStream
    \<Rightarrow> string \<Rightarrow> 'g goctx \<Rightarrow> 'g replayStream \<Rightarrow> bool" where
  "routed_stream env ex al au route meth ss up ctx' rs \<longleftrightarrow>
     (let api = as_api (de_assembly env); ns = peeked_namespace ex meth ss; target = \<lparr>FullName = meth, Namespace = ns, HTTP = None\<rparr>
      in Allows al (Service meth)
         \<and> PeekInterceptor (de_codec env) (as_status (de_assembly env)) ex al meth ss = Inr rs
         \<and> Authenticate au (WithTarget (s_ctx ss) target) target (incoming api (s_ctx ss)) = None
         \<and> (\<forall>k. MD_Get api (incoming api ctx') k = (if ToLower k \<in> set (SecureHeaders au) then [] else MD_Get api (incoming api (s_ctx ss)) k))
         \<and> up = route ns (incoming api ctx') \<and> NamespaceFrom api ctx' = ns \<and> TargetFrom ctx' = target)"

lemma incoming_WithNamespace: "metadata_doc api \<Longrightarrow> incoming api (WithNamespace api ctx ns) = incoming api ctx"
  by (simp add: incoming_def WithNamespace_def withHeader_def Let_def metadata_docD(5))

lemma handler_stage_called:
  assumes "metadata_doc api" "handler_stage E api rr ends d al ctx rs = r"
  shows "gw_observed r = [] \<and> (case gw_called r of
      None \<Rightarrow> gw_end r \<noteq> Returned None
    | Some (up, ctx', rs') \<Rightarrow> rs' = rs \<and> (\<exists>meth. FullMethod api ctx = Inr meth \<and> Allows al (Service meth))
        \<and> up = fst (Switch (mux d) (Target.Namespace (TargetFrom ctx)) (incoming api ctx)) \<and> map_of (handlers d) up \<noteq> None
        \<and> ctx' = WithNamespace api ctx (Target.Namespace (TargetFrom ctx)))"
proof (cases "Handler api (Resolve d) al ctx")
  case (Pair res evs)
  show ?thesis
  proof (cases "report_events E api rr ctx evs")
    case (Inl p)
    then show ?thesis using assms(2) Pair by (auto simp: handler_stage_def)
  next
    case (Inr em)
    then show ?thesis using assms(2) Pair
      by (auto simp: handler_stage_def Handler_def gw_refused_def Resolve_def Let_def incoming_def split: sum.splits prod.splits if_splits option.splits)
  qed
qed

lemma inner_stages:
  assumes "authenticator au" and doc: "metadata_doc (as_api (de_assembly env))" and meth: "FullMethod (as_api (de_assembly env)) (s_ctx ss) = Inr meth"
    and r: "peek_stage (de_codec env) (as_status (de_assembly env)) ex al meth
        (auth_stage (as_api (de_assembly env)) (as_status (de_assembly env)) au meth (handler_stage E (as_api (de_assembly env)) rr ends d al)) (s_ctx ss) (accepted ss) = r"
  shows "gw_observed r = [] \<and> (case gw_called r of
      None \<Rightarrow> gw_end r \<noteq> Returned None
    | Some (up, ctx', rs) \<Rightarrow> routed_stream env ex al au (\<lambda>ns md. fst (Switch (mux d) ns md)) meth ss up ctx' rs \<and> map_of (handlers d) up \<noteq> None)"
proof (cases "PeekInterceptor (de_codec env) (as_status (de_assembly env)) ex al meth ss")
  case (Inl err)
  then show ?thesis using r by (auto simp: peek_stage_def accepted_def gw_refused_def)
next
  case (Inr rs)
  let ?api = "as_api (de_assembly env)"
  obtain ns where ns: "r_ctx rs = WithTarget (s_ctx ss) \<lparr>FullName = meth, Namespace = ns, HTTP = None\<rparr>"
      "Allows al (Service meth) \<Longrightarrow> ns = peeked_namespace ex meth ss" using Peek_ctx [OF Inr] by blast
  have part: "grpc_part (r_ctx rs) = grpc_part (s_ctx ss)" by (simp add: ns(1) WithTarget_def)
  then have inc: "incoming ?api (r_ctx rs) = incoming ?api (s_ctx ss)" by (simp add: incoming_def)
  obtain res rej where a: "StreamServerInterceptor ?api (as_status (de_assembly env)) au meth (r_ctx rs) = (res, rej)" by fastforce
  show ?thesis
  proof (cases res)
    case (Inl err)
    then show ?thesis using r Inr a by (auto simp: peek_stage_def accepted_def auth_stage_def gw_refused_def)
  next
    case res: (Inr ctx)
    from authenticator.stream_gate [OF assms(1) doc, where st = "as_status (de_assembly env)" and fullMethod = meth and ctx = "r_ctx rs"]
    have gate: "Authenticate au (r_ctx rs) (TargetFrom (r_ctx rs)) (incoming ?api (s_ctx ss)) = None" "TargetFrom ctx = TargetFrom (r_ctx rs)"
      "\<And>k. MD_Get ?api (incoming ?api ctx) k = (if ToLower k \<in> set (SecureHeaders au) then [] else MD_Get ?api (incoming ?api (s_ctx ss)) k)"
      unfolding a res by (simp_all add: inc)
    have "FullMethod ?api ctx = Inr meth"
      using a res meth by (auto simp: StreamServerInterceptor_def Let_def FullMethod_def part metadata_docD(13) [OF doc] split: option.splits if_splits)
    moreover have "handler_stage E ?api rr ends d al ctx rs = r" using r Inr a res by (simp add: peek_stage_def accepted_def auth_stage_def)
    note handler_stage_called [OF doc this]
    ultimately show ?thesis using Inr gate ns
      by (auto simp: routed_stream_def Let_def incoming_WithNamespace [OF doc] WithNamespace_from [OF doc] split: option.splits)
  qed
qed

lemma built_chain:
  assumes "dataplane_New env hasCtx (Some cfg) opts s = (Inr dp, s')" "metrics_doc (de_metrics env)"
    and "do_extractor opts = Some ex" "do_allowlist opts = Some al" "do_auth opts = Some au"
  obtains cfg' mx hs and reps :: reporters where "Prepare (as_config (de_assembly env)) cfg = (None, cfg')" "MuxFor (c_Routing cfg') = Inr mx"
    "fst ` set hs = cu_Name ` set (c_Upstreams cfg)" "sr_built (de_metrics env) (rp_server reps)"
    "gateway_serve dp meth ss = Some (report_stage (de_metrics env) (as_api (de_assembly env)) (rp_server reps) (as_status (de_assembly env)) meth
       (recovery_stage (de_metrics env) (as_api (de_assembly env)) (rp_server reps) meth
         (peek_stage (de_codec env) (as_status (de_assembly env)) ex al meth (auth_stage (as_api (de_assembly env)) (as_status (de_assembly env)) au meth
            (handler_stage (de_metrics env) (as_api (de_assembly env)) (rp_router reps) (de_ends env) \<lparr>handlers = hs, mux = mx\<rparr> al)))) (s_ctx ss) (accepted ss))"
proof -
  obtain cfg1 ex' f al' au' cfg' where "Some cfg = Some cfg1" "do_extractor opts = Some ex'" "do_allowlist opts = Some al'" "do_auth opts = Some au'"
    and n: "Prepare (as_config (de_assembly env)) cfg1 = (None, cfg')" "assemble env f cfg' ex' al' au' (do_vault opts) (do_abort opts) s = (Inr dp, s')"
    by (rule dataplane_NewE [OF assms(1)])
  then have cfg': "Prepare (as_config (de_assembly env)) cfg = (None, cfg')" "assemble env f cfg' ex al au (do_vault opts) (do_abort opts) s = (Inr dp, s')"
    using assms(3-5) by simp_all
  obtain reps mx hs ready t cr enc where b: "MuxFor (c_Routing cfg') = Inr mx"
      "build_upstreams (de_assembly env) cfg' (c_Upstreams cfg') [] [] s = (Inr (ready, hs), t)"
      "server_New (de_health env) (gateway_options env cfg' reps ex al au \<lparr>handlers = hs, mux = mx\<rparr> cr enc) = Inr (dp_gateway dp)"
      "newReporters (de_metrics env) f cfg' (do_vault opts) (de_registered env) = Inr (reps, dp_registered dp)"
    by (rule assembleE [OF cfg'(2)]) blast
  have names: "fst ` set hs = cu_Name ` set (c_Upstreams cfg)"
    using build_upstreams_frame [OF b(2)] prepared_config(3) [OF cfg'(1)] by (metis list.set_map sup_bot_left image_empty list.set(1))
  have built: "sr_built (de_metrics env) (rp_server reps)"
    using newReporters_server [OF b(4)] assms(2) unfolding sr_built_def by metis
  show thesis by (rule that [OF cfg'(1) b(1) names built]) (simp add: gateway_serve_def gateway_chain [OF b(3)])
qed

section \<open>Properties\<close>

text \<open>
  C3. What the gateway does with a stream. For a data plane that \<open>New\<close> built, every stream of a service the server does not serve itself, under a method name that
  is valid UTF-8, ends with exactly one request recorded under its status, also when a stage panicked. A forwarder is called only for a
  service that is allowed, on a request that the authenticator admitted for the very namespace that was read from its first
  message; it is the forwarder of the upstream that the routing table names for that namespace and for the headers
  left after the credential was taken out; and it gets the stream from its first message on. In every other case the caller gets an error.
\<close>

theorem gateway_request:
  assumes "dataplane_New env hasCtx (Some cfg) opts s = (Inr dp, s')" "metrics_doc (de_metrics env)" "metadata_doc (as_api (de_assembly env))" "routing_wf (c_Routing cfg)"
    and "do_extractor opts = Some ex" "do_allowlist opts = Some al" "do_auth opts = Some au" "Auth_For (as_api (de_assembly env)) aenv ac = Inr au"
    and "FullMethod (as_api (de_assembly env)) (s_ctx ss) = Inr meth" "ValidString meth"
  shows "\<exists>r err. gateway_serve dp meth ss = Some r \<and> gw_end r = Returned err
    \<and> gw_observed r = [(meth, case err of None \<Rightarrow> OK | Some e \<Rightarrow> status_Code (as_status (de_assembly env)) e)]
    \<and> (case gw_called r of
         None \<Rightarrow> err \<noteq> None
       | Some (up, ctx', rs) \<Rightarrow> routed_stream env ex al au (\<lambda>ns md. fst (route_spec (c_Routing cfg) ns md)) meth ss up ctx' rs
           \<and> up \<in> cu_Name ` set (c_Upstreams cfg))"
proof -
  let ?api = "as_api (de_assembly env)" and ?st = "as_status (de_assembly env)" and ?E = "de_metrics env"
  obtain cfg' mx hs and reps :: reporters where c: "Prepare (as_config (de_assembly env)) cfg = (None, cfg')" "MuxFor (c_Routing cfg') = Inr mx"
      "fst ` set hs = cu_Name ` set (c_Upstreams cfg)" "sr_built ?E (rp_server reps)"
    and serve: "gateway_serve dp meth ss = Some (report_stage ?E ?api (rp_server reps) ?st meth (recovery_stage ?E ?api (rp_server reps) meth
         (peek_stage (de_codec env) ?st ex al meth (auth_stage ?api ?st au meth
            (handler_stage ?E ?api (rp_router reps) (de_ends env) \<lparr>handlers = hs, mux = mx\<rparr> al)))) (s_ctx ss) (accepted ss))"
    by (rule built_chain [OF assms(1,2,5-7)])
  have switch: "Switch mx ns md = route_spec (c_Routing cfg) ns md" for ns md
    by (rule prepared_switch [OF c(1) assms(4) c(2)])
  define h where "h = peek_stage (de_codec env) ?st ex al meth (auth_stage ?api ?st au meth (handler_stage ?E ?api (rp_router reps) (de_ends env) \<lparr>handlers = hs, mux = mx\<rparr> al))"
  define r where "r = report_stage ?E ?api (rp_server reps) ?st meth (recovery_stage ?E ?api (rp_server reps) meth h) (s_ctx ss) (accepted ss)"
  note inner = inner_stages [OF Auth_For_authenticator [OF assms(8)] assms(3,9) h_def [THEN fun_cong, THEN fun_cong, symmetric]]
  obtain err where err: "gw_end r = Returned err" "gw_called r = gw_called (h (s_ctx ss) (accepted ss))"
      "gw_observed r = gw_observed (h (s_ctx ss) (accepted ss)) @ [(meth, case err of None \<Rightarrow> OK | Some e \<Rightarrow> status_Code ?st e)]"
      "case gw_end (h (s_ctx ss) (accepted ss)) of Returned None \<Rightarrow> True | _ \<Rightarrow> err \<noteq> None"
    unfolding r_def using outer_stages [OF c(4) assms(10)] by blast
  have "err \<noteq> None" if "gw_end (h (s_ctx ss) (accepted ss)) \<noteq> Returned None" using that err(4) by (auto split: outcome.splits option.splits)
  then have "case gw_called r of None \<Rightarrow> err \<noteq> None
       | Some (up, ctx', rs) \<Rightarrow> routed_stream env ex al au (\<lambda>ns md. fst (route_spec (c_Routing cfg) ns md)) meth ss up ctx' rs \<and> up \<in> cu_Name ` set (c_Upstreams cfg)"
    using inner err(2) c(3) by (auto simp: switch map_of_eq_None_iff split: option.splits)
  with serve err(1,3) inner show ?thesis unfolding r_def h_def by auto
qed

text \<open>
  C38. A method name that is not valid UTF-8 stops the proxy. The reporter is the outermost stage, outside the recovery of panics, and takes the method
  for a label, so that whatever the other stages answer, the stream of such a method ends in a panic that nothing recovers.
\<close>

theorem invalid_method_panics:
  assumes "dataplane_New env hasCtx (Some cfg) opts s = (Inr dp, s')" "metrics_doc (de_metrics env)" "\<not> ValidString meth"
    and "do_extractor opts = Some ex" "do_allowlist opts = Some al" "do_auth opts = Some au"
  shows "\<exists>r p. gateway_serve dp meth ss = Some r \<and> gw_end r = Panicked p"
proof -
  obtain hs mx and reps :: reporters where "sr_built (de_metrics env) (rp_server reps)"
    and serve: "gateway_serve dp meth ss = Some (report_stage (de_metrics env) (as_api (de_assembly env)) (rp_server reps) (as_status (de_assembly env)) meth
       (recovery_stage (de_metrics env) (as_api (de_assembly env)) (rp_server reps) meth
         (peek_stage (de_codec env) (as_status (de_assembly env)) ex al meth (auth_stage (as_api (de_assembly env)) (as_status (de_assembly env)) au meth
            (handler_stage (de_metrics env) (as_api (de_assembly env)) (rp_router reps) (de_ends env) \<lparr>handlers = hs, mux = mx\<rparr> al)))) (s_ctx ss) (accepted ss))"
    by (rule built_chain [OF assms(1,2,4-6)])
  with report_stage_panics [OF _ assms(3)] show ?thesis by metis
qed


section \<open>Witnesses\<close>

definition ex_dp_env :: "(ex_grpc, string, (string \<times> serving) list \<times> bool, (string \<times> DEK) list) dp_env" where
  "ex_dp_env = \<lparr>de_assembly = ex_assembly, de_codec = ex_codec, de_health = ex_health, de_vault = Vault_Theorems.ex_env, de_metrics = ex_metrics, de_registered = [],
     de_ends = (\<lambda>_ _ _. Returned None)\<rparr>"

definition ex_dp_options :: "bool \<Rightarrow> ex_grpc dp_options" where
  "ex_dp_options v = dp_apply [WithExtractor (Some (\<lambda>_ _. ''payments'')), WithTranslator True, WithPool True, WithMetrics (Some (metrics_New ''proxy'')),
     WithAllowlist (Some (NewAllowlist Default)), dp_WithAuth (Some ex_token_auth), WithVault v, WithAbort True]"

definition ex_gw_stream :: "ex_grpc ServerStream" where
  "ex_gw_stream = \<lparr>s_ctx = Auth.ex_stream\<lparr>grpc_part := (grpc_part Auth.ex_stream)\<lparr>g_method := Some ex_fm\<rparr>\<rparr>,
     s_wire = (\<lambda>n. if n < 1 then Inr ''x'' else Inl EOF), s_pos = 0\<rparr>"

lemma ex_dataplane:
  "case fst (dataplane_New ex_dp_env True (Some (ex_config False)) (ex_dp_options False) ex_dial_state) of
     Inr dp \<Rightarrow> map_option (\<lambda>r. map_option fst (gw_called r)) (gateway_serve dp ex_fm ex_gw_stream) = Some (Some ''frontend'')
   | Inl _ \<Rightarrow> False"
  by code_simp


theorem gateway_request_witness:
  "\<exists>dp s r ctx rs. dataplane_New ex_dp_env True (Some (ex_config False)) (ex_dp_options False) ex_dial_state = (Inr dp, s)
     \<and> gateway_serve dp ex_fm ex_gw_stream = Some r \<and> gw_called r = Some (''frontend'', ctx, rs)
     \<and> NamespaceFrom ex_api ctx = ''payments'' \<and> MD_Get ex_api (incoming ex_api ctx) ''authorization'' = []"
proof -
  obtain dp s where dp: "dataplane_New ex_dp_env True (Some (ex_config False)) (ex_dp_options False) ex_dial_state = (Inr dp, s)"
    using ex_dataplane by (cases "dataplane_New ex_dp_env True (Some (ex_config False)) (ex_dp_options False) ex_dial_state") (auto split: sum.splits)
  have called: "map_option (\<lambda>r. map_option fst (gw_called r)) (gateway_serve dp ex_fm ex_gw_stream) = Some (Some ''frontend'')"
    using ex_dataplane by (simp add: dp)
  have api: "as_api (de_assembly ex_dp_env) = ex_api" by (simp add: ex_dp_env_def ex_assembly_def)
  have "metrics_doc (de_metrics ex_dp_env)" by (simp add: ex_dp_env_def ex_metrics_doc)
  moreover have "ValidString ex_fm" "routing_wf (c_Routing (ex_config False))" "FullMethod ex_api (s_ctx ex_gw_stream) = Inr ex_fm"
    "ToLower ''authorization'' \<in> set (SecureHeaders ex_token_auth)" by code_simp+
  moreover have "s_wire ex_gw_stream (s_pos ex_gw_stream) = Inr ''x''" by (simp add: ex_gw_stream_def)
  ultimately show ?thesis
    using gateway_request [OF dp, unfolded api, OF _ ex_api_doc _ _ _ _ ex_Auth_For, of "\<lambda>_ _. ''payments''" "NewAllowlist Default" ex_gw_stream ex_fm] called dp
    by (auto simp: ex_dp_options_def dp_option_defs routed_stream_def api peeked_namespace_def Let_def)
qed


theorem invalid_method_panics_witness:
  "\<exists>dp s r p. dataplane_New ex_dp_env True (Some (ex_config False)) (ex_dp_options False) ex_dial_state = (Inr dp, s)
     \<and> gateway_serve dp [CHR 0xFF] ex_gw_stream = Some r \<and> gw_end r = Panicked p"
proof -
  obtain dp s where dp: "dataplane_New ex_dp_env True (Some (ex_config False)) (ex_dp_options False) ex_dial_state = (Inr dp, s)"
    using ex_dataplane by (cases "dataplane_New ex_dp_env True (Some (ex_config False)) (ex_dp_options False) ex_dial_state") (auto split: sum.splits)
  have "metrics_doc (de_metrics ex_dp_env)" by (simp add: ex_dp_env_def ex_metrics_doc)
  moreover have "\<not> ValidString [CHR 0xFF]" by code_simp
  ultimately show ?thesis using invalid_method_panics [OF dp, of "[CHR 0xFF]"] dp by (fastforce simp: ex_dp_options_def dp_option_defs)
qed

end
