(* ===== verification/Lifecycle.thy ===== *)
theory Lifecycle
  imports Go_Prelude Pool Transition
begin

text \<open>
  \<open>internal/dataplane/lifecycle.go\<close>: starting and stopping the data plane. \<open>Start\<close> waits for the upstreams, binds the listener and
  serves it from a goroutine of its own; \<open>Stop\<close> drains the gateway and closes the listener; a start that fails rolls back; a gateway
  that stops by itself is reported once through the abort function.

  \<open>lc_step\<close> has \<open>Start\<close>, any number of callers of \<open>Stop\<close> and the serving goroutine interleave between the regions
  under the mutex. What is outside is an input of a step: whether the upstreams came up, whether the address could be bound, how the gateway's \<open>Start\<close>
  and \<open>Stop\<close> end, and when gRPC closes a listener it serves.
\<close>

section \<open>Model\<close>

text \<open>Where \<open>Start\<close> is: not called, listening but not yet registered, rolling back, or returned.\<close>

datatype start_at = StNew | StBound nat | StRolling goerror | StReturned "goerror option"

text \<open>Where the serving goroutine is: not started, serving, returned from the gateway, about to abort, or over.\<close>

datatype serve_at = SvNone | SvServing | SvEnded "goerror option" | SvAborting goerror | SvOver

text \<open>Where a caller of \<open>Stop\<close> is: it has taken the listener, it has drained the gateway, or it has returned.\<close>

datatype stop_at = StopTaken "nat option" | StopDrained "nat option" "goerror list" | StopReturned "goerror option"

record lifecycle =
  lc_abort :: bool
  lc_abortOnce :: bool
  lc_aborted :: "goerror list"
  lc_addr :: "nat option"
  lc_lis :: "nat option"
  lc_stopping :: bool
  lc_open :: "nat set"
  lc_bound :: nat
  lc_start :: start_at
  lc_serve :: serve_at
  lc_stops :: "nat \<rightharpoonup> stop_at"
  lc_logged :: "goerror list"

definition lc_new :: "bool \<Rightarrow> lifecycle" where
  "lc_new abort = \<lparr>lc_abort = abort, lc_abortOnce = False, lc_aborted = [], lc_addr = None, lc_lis = None, lc_stopping = False, lc_open = {}, lc_bound = 0,
     lc_start = StNew, lc_serve = SvNone, lc_stops = Map.empty, lc_logged = []\<rparr>"

definition net_ErrClosed :: goerror where
  "net_ErrClosed = ErrorString ''use of closed network connection''"

text \<open>The locked regions and the calls between them.\<close>

definition start_failed :: "string \<Rightarrow> goerror \<Rightarrow> lifecycle \<Rightarrow> lifecycle" where
  "start_failed what err s = s\<lparr>lc_start := StRolling (WrapError (what @ '': '' @ Error err) [err])\<rparr>"

definition start_listens :: "lifecycle \<Rightarrow> lifecycle" where
  "start_listens s = s\<lparr>lc_start := StBound (lc_bound s), lc_open := insert (lc_bound s) (lc_open s), lc_bound := Suc (lc_bound s)\<rparr>"

definition start_registers :: "nat \<Rightarrow> lifecycle \<Rightarrow> lifecycle" where
  "start_registers n s = s\<lparr>lc_lis := Some n, lc_addr := Some n, lc_start := StReturned None, lc_serve := SvServing\<rparr>"

definition stop_takes :: "nat \<Rightarrow> lifecycle \<Rightarrow> lifecycle" where
  "stop_takes i s = s\<lparr>lc_stopping := True, lc_lis := None, lc_stops := (lc_stops s)(i \<mapsto> StopTaken (lc_lis s))\<rparr>"

definition stop_drains :: "nat \<Rightarrow> nat option \<Rightarrow> goerror option \<Rightarrow> lifecycle \<Rightarrow> lifecycle" where
  "stop_drains i lis err s = s\<lparr>lc_stops := (lc_stops s)(i \<mapsto> StopDrained lis (case err of None \<Rightarrow> [] | Some e \<Rightarrow> [e]))\<rparr>"

definition stop_closes :: "nat \<Rightarrow> nat option \<Rightarrow> goerror list \<Rightarrow> goerror option \<Rightarrow> lifecycle \<Rightarrow> lifecycle" where
  "stop_closes i lis errs closedErr s =
     (case lis of
        None \<Rightarrow> s\<lparr>lc_stops := (lc_stops s)(i \<mapsto> StopReturned (errors_Join errs))\<rparr>
      | Some n \<Rightarrow>
          s\<lparr>lc_open := lc_open s - {n},
            lc_stops := (lc_stops s)(i \<mapsto> StopReturned (errors_Join
              (errs @ (case closedErr of Some e \<Rightarrow> if errors_Is e net_ErrClosed then [] else [e] | None \<Rightarrow> []))))\<rparr>)"

definition rollback_returns :: "goerror \<Rightarrow> goerror option \<Rightarrow> lifecycle \<Rightarrow> lifecycle" where
  "rollback_returns cause stopErr s =
     s\<lparr>lc_start := StReturned (Some (case stopErr of None \<Rightarrow> cause | Some e \<Rightarrow> JoinError [cause, e]))\<rparr>"

definition serve_reads :: "goerror option \<Rightarrow> lifecycle \<Rightarrow> lifecycle" where
  "serve_reads err s =
     (case err of
        None \<Rightarrow> s\<lparr>lc_serve := SvOver\<rparr>
      | Some e \<Rightarrow> if lc_stopping s then s\<lparr>lc_serve := SvOver\<rparr> else s\<lparr>lc_serve := SvAborting e, lc_logged := lc_logged s @ [e]\<rparr>)"

definition serve_aborts :: "goerror \<Rightarrow> lifecycle \<Rightarrow> lifecycle" where
  "serve_aborts e s =
     (if lc_abortOnce s then s\<lparr>lc_serve := SvOver\<rparr>
      else s\<lparr>lc_serve := SvOver, lc_abortOnce := True,
             lc_aborted := lc_aborted s @ (if lc_abort s then [WrapError (''gateway stopped serving: '' @ Error e) [e]] else [])\<rparr>)"

text \<open>The rollback of a start calls \<open>Stop\<close> as caller \<open>0\<close>; the others have positive numbers.\<close>

inductive lc_step :: "lifecycle \<Rightarrow> lifecycle \<Rightarrow> bool" where
  not_ready: "lc_start s = StNew \<Longrightarrow> lc_step s (start_failed ''upstream connection not ready'' err s)"
| not_bound: "lc_start s = StNew \<Longrightarrow> lc_step s (start_failed ''failed to create listener'' err s)"
| listens: "lc_start s = StNew \<Longrightarrow> lc_step s (start_listens s)"
| registers: "lc_start s = StBound n \<Longrightarrow> lc_step s (start_registers n s)"
| rolls_back: "lc_start s = StRolling cause \<Longrightarrow> lc_stops s 0 = None \<Longrightarrow> lc_step s (stop_takes 0 s)"
| rolled_back: "lc_start s = StRolling cause \<Longrightarrow> lc_stops s 0 = Some (StopReturned err) \<Longrightarrow> lc_step s (rollback_returns cause err s)"
| takes: "0 < i \<Longrightarrow> lc_stops s i = None \<Longrightarrow> lc_step s (stop_takes i s)"
| drains: "lc_stops s i = Some (StopTaken lis) \<Longrightarrow> lc_step s (stop_drains i lis err s)"
| closes: "lc_stops s i = Some (StopDrained lis errs) \<Longrightarrow> lc_step s (stop_closes i lis errs closedErr s)"
| grpc_closes: "lc_serve s \<noteq> SvNone \<Longrightarrow> lc_addr s = Some n \<Longrightarrow> lc_step s (s\<lparr>lc_open := lc_open s - {n}\<rparr>)"
| serve_ends: "lc_serve s = SvServing \<Longrightarrow> lc_step s (s\<lparr>lc_serve := SvEnded err\<rparr>)"
| reads: "lc_serve s = SvEnded err \<Longrightarrow> lc_step s (serve_reads err s)"
| aborts: "lc_serve s = SvAborting e \<Longrightarrow> lc_step s (serve_aborts e s)"

inductive_cases lc_stepE: "lc_step s s'"

abbreviation lc_reachable :: "lifecycle \<Rightarrow> bool" where
  "lc_reachable \<equiv> runs_from (\<lambda>s. \<exists>a. s = lc_new a) lc_step"

section \<open>Lemmas\<close>

lemmas lc_ops = start_failed_def start_listens_def start_registers_def stop_takes_def stop_drains_def stop_closes_def rollback_returns_def
  serve_reads_def serve_aborts_def

text \<open>Who holds a listener.\<close>

definition holds :: "nat \<Rightarrow> stop_at \<Rightarrow> bool" where
  "holds n at = (case at of StopTaken lis \<Rightarrow> lis = Some n | StopDrained lis _ \<Rightarrow> lis = Some n | StopReturned _ \<Rightarrow> False)"

definition stops_hold :: "(nat \<rightharpoonup> stop_at) \<Rightarrow> nat \<Rightarrow> bool" where
  "stops_hold m n \<longleftrightarrow> (\<exists>i at. m i = Some at \<and> holds n at)"

definition held_listener :: "lifecycle \<Rightarrow> nat \<Rightarrow> bool" where
  "held_listener s n \<longleftrightarrow> lc_lis s = Some n \<or> lc_start s = StBound n \<or> stops_hold (lc_stops s) n"

text \<open>How often the abort function is called, by where the goroutine is.\<close>

definition abort_ok :: "lifecycle \<Rightarrow> bool" where
  "abort_ok s \<longleftrightarrow>
     (case lc_serve s of
        SvAborting e \<Rightarrow> \<not> lc_abortOnce s \<and> lc_aborted s = [] \<and> lc_logged s = [e]
      | SvOver \<Rightarrow> lc_aborted s = (if lc_abort s then map (\<lambda>e. WrapError (''gateway stopped serving: '' @ Error e) [e]) (lc_logged s) else []) \<and> length (lc_logged s) \<le> 1
      | _ \<Rightarrow> \<not> lc_abortOnce s \<and> lc_aborted s = [] \<and> lc_logged s = [])"

definition lc_inv :: "lifecycle \<Rightarrow> bool" where
  "lc_inv s \<longleftrightarrow> abort_ok s \<and> (lc_serve s = SvNone \<and> lc_lis s = None \<or> lc_start s = StReturned None)
     \<and> (\<forall>n\<in>lc_open s. held_listener s n) \<and> (\<forall>i. lc_stops s i \<noteq> None \<longrightarrow> lc_stopping s)"

lemma holds_simps [simp]:
  "holds n (StopTaken lis) \<longleftrightarrow> lis = Some n" "holds n (StopDrained lis errs) \<longleftrightarrow> lis = Some n" "\<not> holds n (StopReturned err)"
  by (simp_all add: holds_def)

lemma stop_update_holds:
  assumes "stops_hold m n" "\<And>at. m i = Some at \<Longrightarrow> holds n at \<Longrightarrow> holds n new"
  shows "stops_hold (m(i \<mapsto> new)) n"
proof -
  from assms(1) obtain j at where j: "m j = Some at" "holds n at" by (auto simp: stops_hold_def)
  have "\<exists>i' at. (m(i \<mapsto> new)) i' = Some at \<and> holds n at"
  proof (cases "j = i")
    case True
    with j assms(2) show ?thesis by (intro exI [of _ i] exI [of _ new]) simp
  next
    case False
    with j show ?thesis by (intro exI [of _ j] exI [of _ at]) simp
  qed
  then show ?thesis by (simp add: stops_hold_def)
qed

lemma held_take:
  assumes "lc_stops s i = None" "held_listener s n"
  shows "held_listener (stop_takes i s) n"
proof (cases "lc_lis s = Some n")
  case True
  then have "stops_hold ((lc_stops s)(i \<mapsto> StopTaken (lc_lis s))) n" unfolding stops_hold_def
    by (intro exI [of _ i] exI [of _ "StopTaken (lc_lis s)"]) simp
  then show ?thesis by (simp add: held_listener_def stop_takes_def)
next
  case False
  then show ?thesis using assms stop_update_holds [of "lc_stops s" n i "StopTaken (lc_lis s)"] by (auto simp: held_listener_def stop_takes_def)
qed

lemma held_drain:
  assumes "lc_stops s i = Some (StopTaken lis)" "held_listener s n"
  shows "held_listener (stop_drains i lis err s) n"
  using assms stop_update_holds [of "lc_stops s" n i "StopDrained lis (case err of None \<Rightarrow> [] | Some e \<Rightarrow> [e])"]
  by (auto simp: held_listener_def stop_drains_def)

lemma held_close:
  assumes "lc_stops s i = Some (StopDrained lis errs)" "held_listener s n" "lis \<noteq> Some n"
  shows "held_listener (stop_closes i lis errs e s) n"
proof -
  have "\<exists>r. lc_stops (stop_closes i lis errs e s) = (lc_stops s)(i \<mapsto> StopReturned r) \<and> lc_lis (stop_closes i lis errs e s) = lc_lis s
      \<and> lc_start (stop_closes i lis errs e s) = lc_start s" by (auto simp: stop_closes_def split: option.split)
  then obtain r where r: "lc_stops (stop_closes i lis errs e s) = (lc_stops s)(i \<mapsto> StopReturned r)" "lc_lis (stop_closes i lis errs e s) = lc_lis s"
      "lc_start (stop_closes i lis errs e s) = lc_start s" by blast
  show ?thesis unfolding held_listener_def r
    using assms stop_update_holds [of "lc_stops s" n i "StopReturned r"] by (auto simp: held_listener_def)
qed

lemma lc_step_held:
  assumes "lc_step s s'" "\<forall>n\<in>lc_open s. held_listener s n" "lc_lis s = None \<or> lc_start s = StReturned None"
  shows "\<forall>n\<in>lc_open s'. held_listener s' n"
  using assms(1)
proof (cases rule: lc_step.cases)
  case (closes i lis errs e)
  have "n \<in> lc_open s \<and> lis \<noteq> Some n" if "n \<in> lc_open s'" for n
    using that closes(1) by (auto simp: stop_closes_def split: option.splits)
  then show ?thesis using assms(2) held_close [OF closes(2)] closes(1) by blast
next
  case (rolls_back cause)
  have "lc_open s' = lc_open s" by (simp add: rolls_back(1) stop_takes_def)
  then show ?thesis using assms(2) held_take [OF rolls_back(3)] rolls_back(1) by blast
next
  case (takes i)
  have "lc_open s' = lc_open s" by (simp add: takes(1) stop_takes_def)
  then show ?thesis using assms(2) held_take [OF takes(3)] takes(1) by blast
next
  case (drains i lis err)
  have "lc_open s' = lc_open s" by (simp add: drains(1) stop_drains_def)
  then show ?thesis using assms(2) held_drain [OF drains(2)] drains(1) by blast
qed (use assms(2,3) in \<open>auto simp: lc_ops held_listener_def split: option.splits\<close>)

lemma lc_step_abort:
  assumes "lc_step s s'" "abort_ok s" "lc_serve s = SvNone \<and> lc_lis s = None \<or> lc_start s = StReturned None"
  shows "abort_ok s' \<and> (lc_serve s' = SvNone \<and> lc_lis s' = None \<or> lc_start s' = StReturned None)"
  using assms by (cases rule: lc_step.cases) (auto simp: lc_ops abort_ok_def split: option.splits serve_at.splits)

interpretation lc: reachable_invariant lc_step lc_inv "\<lambda>s. \<exists>a. s = lc_new a"
proof unfold_locales
  fix s s' assume inv: "lc_inv s" and step: "lc_step s s'"
  have "\<forall>i. lc_stops s' i \<noteq> None \<longrightarrow> lc_stopping s'"
    using step inv by (cases rule: lc_step.cases) (auto simp: lc_inv_def lc_ops split: option.splits if_splits)
  then show "lc_inv s'" using lc_step_held [OF step] lc_step_abort [OF step] inv by (auto simp: lc_inv_def)
qed (auto simp: lc_inv_def lc_new_def abort_ok_def)

text \<open>Once \<open>Start\<close> has returned and \<open>Stop\<close> has taken the listener, the slot stays empty.\<close>

definition lc_taken :: "nat \<Rightarrow> lifecycle \<Rightarrow> bool" where
  "lc_taken i s \<longleftrightarrow> (\<exists>err. lc_start s = StReturned err) \<and> (lc_stops s i \<noteq> None \<longrightarrow> lc_lis s = None)"

interpretation taken: step_invariant lc_step "lc_taken i" for i
proof unfold_locales
  fix s s' assume "lc_taken i s" "lc_step s s'"
  from this(2,1) show "lc_taken i s'" by (cases rule: lc_step.cases) (auto simp: lc_taken_def lc_ops split: option.splits if_splits)
qed

text \<open>Once \<open>Stop\<close> has begun, a goroutine that had nothing to report reports nothing.\<close>

interpretation quiet: step_invariant lc_step "\<lambda>s. lc_stopping s \<and> lc_aborted s = [] \<and> (\<forall>e. lc_serve s \<noteq> SvAborting e)"
proof unfold_locales
  fix s s' assume "lc_stopping s \<and> lc_aborted s = [] \<and> (\<forall>e. lc_serve s \<noteq> SvAborting e)" "lc_step s s'"
  from this(2,1) show "lc_stopping s' \<and> lc_aborted s' = [] \<and> (\<forall>e. lc_serve s' \<noteq> SvAborting e)"
    by (cases rule: lc_step.cases) (auto simp: lc_ops split: option.splits)
qed

section \<open>Properties\<close>

text \<open>
  C22. The abort function is called at most once, and only when it was given and the gateway failed: with the one failure that was
  logged, once the goroutine is over. After \<open>Stop\<close> has begun, a failure that was not already being reported is not reported at all.
\<close>

theorem abort_once:
  assumes "lc_reachable s" "lc_step\<^sup>*\<^sup>* s s'"
  shows "length (lc_aborted s') \<le> 1 \<and> (lc_aborted s' \<noteq> [] \<longrightarrow> lc_abort s')
    \<and> (lc_serve s' = SvOver \<and> lc_abort s' \<longrightarrow> map Error (lc_aborted s') = map (\<lambda>e. ''gateway stopped serving: '' @ Error e) (lc_logged s'))
    \<and> (lc_stopping s \<and> lc_aborted s = [] \<and> (\<forall>e. lc_serve s \<noteq> SvAborting e) \<longrightarrow> lc_aborted s' = [])"
proof -
  have "lc_inv s'" using lc.reachable_step [OF assms] .
  then have ok: "abort_ok s'" by (simp add: lc_inv_def)
  have "lc_stopping s \<and> lc_aborted s = [] \<and> (\<forall>e. lc_serve s \<noteq> SvAborting e) \<longrightarrow> lc_aborted s' = []"
    using quiet.steps_keep [OF assms(2)] by blast
  moreover have "length (lc_aborted s') \<le> 1 \<and> (lc_aborted s' \<noteq> [] \<longrightarrow> lc_abort s')
    \<and> (lc_serve s' = SvOver \<and> lc_abort s' \<longrightarrow> map Error (lc_aborted s') = map (\<lambda>e. ''gateway stopped serving: '' @ Error e) (lc_logged s'))"
    using ok by (auto simp: abort_ok_def comp_def split: serve_at.splits if_splits)
  ultimately show ?thesis by blast
qed

text \<open>
  C23. Stopping leaves nothing bound. When \<open>Stop\<close> is called after \<open>Start\<close> returned, successfully or not, then once every caller of \<open>Stop\<close> has returned no
  listener is open and none is kept, whatever other callers of \<open>Stop\<close> and the gateway's own end did meanwhile.
\<close>

theorem stop_leaves_nothing:
  assumes "lc_reachable s" "lc_start s = StReturned err" "lc_stops s i = None" "lc_step\<^sup>*\<^sup>* s s'"
    and "lc_stops s' i \<noteq> None" "\<And>j at. lc_stops s' j = Some at \<Longrightarrow> \<exists>e. at = StopReturned e"
  shows "lc_open s' = {} \<and> lc_lis s' = None"
proof -
  have "lc_taken i s" using assms(2,3) by (simp add: lc_taken_def)
  from taken.steps_keep [OF assms(4) this] assms(5) have t: "lc_lis s' = None" "\<exists>err. lc_start s' = StReturned err" by (auto simp: lc_taken_def)
  have "\<forall>n\<in>lc_open s'. held_listener s' n" using lc.reachable_step [OF assms(1,4)] by (simp add: lc_inv_def)
  moreover have "\<not> held_listener s' n" for n using t assms(6) by (fastforce simp: held_listener_def stops_hold_def)
  ultimately show ?thesis using t by blast
qed

section \<open>Witnesses\<close>

text \<open>A start, a gateway that fails, and a stop.\<close>

definition ex_serving :: lifecycle where
  "ex_serving = start_registers 0 (start_listens (lc_new True))"

definition ex_failed :: lifecycle where
  "ex_failed = serve_aborts EOF (serve_reads (Some EOF) (ex_serving\<lparr>lc_serve := SvEnded (Some EOF)\<rparr>))"

definition ex_stopped :: "lifecycle \<Rightarrow> lifecycle" where
  "ex_stopped s = stop_closes 1 (Some 0) [] None (stop_drains 1 (Some 0) None (stop_takes 1 s))"

lemma ex_serving_reachable: "lc_reachable ex_serving"
proof -
  have "lc_reachable (lc_new True)" by (rule runs_from_start) blast
  then have "lc_reachable (start_listens (lc_new True))" by (rule runs_from_step) (rule lc_step.listens, simp add: lc_new_def)
  then show ?thesis unfolding ex_serving_def
    by (rule runs_from_step) (rule lc_step.registers, simp add: start_listens_def lc_new_def)
qed

lemma ex_failed_run: "lc_step\<^sup>*\<^sup>* ex_serving ex_failed"
proof -
  let ?s1 = "ex_serving\<lparr>lc_serve := SvEnded (Some EOF)\<rparr>"
  have 1: "lc_step ex_serving ?s1" by (rule lc_step.serve_ends) (simp add: ex_serving_def start_registers_def)
  have 2: "lc_step ?s1 (serve_reads (Some EOF) ?s1)" by (rule lc_step.reads) simp
  have 3: "lc_step (serve_reads (Some EOF) ?s1) ex_failed" unfolding ex_failed_def
    by (rule lc_step.aborts) (simp add: serve_reads_def ex_serving_def start_registers_def start_listens_def lc_new_def)
  from 1 2 3 show ?thesis by (meson converse_rtranclp_into_rtranclp rtranclp.rtrancl_refl)
qed

lemma ex_stopped_run:
  assumes "lc_stops s 1 = None" "lc_lis s = Some 0"
  shows "lc_step\<^sup>*\<^sup>* s (ex_stopped s)"
proof -
  have 1: "lc_step s (stop_takes 1 s)" using assms by (intro lc_step.takes) simp_all
  have 2: "lc_step (stop_takes 1 s) (stop_drains 1 (Some 0) None (stop_takes 1 s))"
    using assms by (intro lc_step.drains) (simp add: stop_takes_def)
  have 3: "lc_step (stop_drains 1 (Some 0) None (stop_takes 1 s)) (ex_stopped s)" unfolding ex_stopped_def
    by (rule lc_step.closes) (simp add: stop_drains_def stop_takes_def)
  from 1 2 3 show ?thesis by (meson converse_rtranclp_into_rtranclp rtranclp.rtrancl_refl)
qed

lemmas ex_lc_defs = ex_serving_def ex_failed_def ex_stopped_def lc_ops lc_new_def

theorem abort_once_witness:
  "lc_reachable ex_serving \<and> lc_step\<^sup>*\<^sup>* ex_serving ex_failed \<and> length (lc_aborted ex_failed) \<le> 1
   \<and> map Error (lc_aborted ex_failed) = [''gateway stopped serving: '' @ Error EOF]"
proof -
  have "lc_serve ex_failed = SvOver" "lc_abort ex_failed" "lc_logged ex_failed = [EOF]" by (simp_all add: ex_lc_defs)
  with abort_once [OF ex_serving_reachable ex_failed_run] show ?thesis using ex_serving_reachable ex_failed_run by simp
qed

theorem stop_leaves_nothing_witness:
  "lc_open ex_serving = {0} \<and> lc_step\<^sup>*\<^sup>* ex_serving (ex_stopped ex_serving) \<and> lc_open (ex_stopped ex_serving) = {} \<and> lc_lis (ex_stopped ex_serving) = None"
proof -
  have s: "lc_start ex_serving = StReturned None" "lc_stops ex_serving 1 = None" "lc_lis ex_serving = Some 0" "lc_open ex_serving = {0}"
    by (simp_all add: ex_lc_defs)
  have st: "lc_stops (ex_stopped ex_serving) = [1 \<mapsto> StopReturned None]" by (simp add: ex_lc_defs errors_Join_def)
  have "lc_open (ex_stopped ex_serving) = {} \<and> lc_lis (ex_stopped ex_serving) = None"
    by (rule stop_leaves_nothing [OF ex_serving_reachable s(1,2) ex_stopped_run [OF s(2,3)]]) (auto simp: st split: if_splits)
  then show ?thesis using s(4) ex_stopped_run [OF s(2,3)] by simp
qed

end
