(* ===== verification/Spec2Isabelle.thy ===== *)
theory Spec2Isabelle
  imports Match Vault_Concurrent Translation Router Shared_Pool Codec_Server Forward Cloud_Methods Creds Ext_Kit Failures Http_Server Dataplane Lifecycle
begin

text \<open>
  A verification development of the Temporal proxy: a gateway between workers and clients on one
  side and Temporal services (the upstreams) on the other. It routes a request by what it asks for,
  translates namespace names, seals payloads on their way out and opens them on their way back, and
  serves the payload codecs over HTTP. All paths below are under \<open>src/\<close>.

  \<^bold>\<open>A request, part by part.\<close>

  \<^enum> The listener authenticates the stream (\<open>internal/auth\<close>, \<open>internal/api/auth.go\<close>: theory
    \<open>Auth\<close>) and stamps what the request is about on its context (\<open>internal/transport/meta\<close>, \<open>internal/rpc\<close>:
    \<open>Rpc\<close>).
  \<^enum> The gateway peeks at the first message for its namespace (\<open>internal/protoutil/extractor.go\<close>:
    \<open>Protoutil\<close>; \<open>internal/router/peek.go\<close>: \<open>Router\<close>), refuses services that are not allowed
    (\<open>internal/services\<close>: \<open>Services\<close>), and the mux compiled from the routing table (\<open>internal/config/routing.go\<close>:
    \<open>Routing\<close>; \<open>internal/router\<close>: \<open>Router\<close>; globs of \<open>pkg/match\<close>: \<open>Match\<close>) picks the upstream.
  \<^enum> The forwarder of the upstream finds the method, builds the outbound context and relays
    (\<open>internal/proxy/forward.go\<close>: \<open>Forward\<close>), a stream through the pump with a goroutine per
    direction (\<open>internal/rpc/pump.go\<close>: \<open>Pump\<close>).
  \<^enum> Client interceptors translate names (\<open>internal/proxy/translation.go\<close>: \<open>Translation\<close>, with the
    rules of \<open>internal/config/upstream.go\<close>: \<open>Namespace_Rules\<close>, and the plans of \<open>internal/protoutil\<close>:
    \<open>Protoutil\<close>) and seal or open payloads (\<open>internal/proxy/codec.go\<close>, \<open>encryption.go\<close>:
    \<open>Proxy_Codec\<close>; \<open>pkg/codec\<close>: \<open>Codec\<close>, \<open>Failures\<close>; \<open>pkg/crypto\<close>: \<open>Dek\<close>, \<open>Kek\<close>, \<open>Vault\<close>), put the outbound
    credential in place of what the client sent and stamp the version (\<open>internal/auth/outbound\<close>, \<open>internal/proxy/version.go\<close>: \<open>Outbound\<close>).
  \<^enum> The call leaves over a pooled connection that the upstream's resolver names
    (\<open>internal/transport/connect\<close>: \<open>Pool\<close>, \<open>Connect\<close>; \<open>internal/proxy/resolver.go\<close>: \<open>Connect\<close>; SRV targets, \<open>internal/transport/resolve\<close>:
    \<open>Srv\<close>), under TLS from files that are reloaded (\<open>internal/transport/creds\<close>: \<open>Creds\<close>; \<open>pkg/validation/certs\<close>: \<open>Certs\<close>). Methods a Cloud
    frontend does not serve are answered from the Cloud API (\<open>internal/cloud/translation\<close>: \<open>Method_Translation\<close>, \<open>Cloud_Methods\<close>).
  \<^enum> Beside this path the codec server applies the same codecs to payloads posted by the UI and the
    command line (\<open>internal/codecserver\<close>: \<open>Codec_Server\<close>), on an HTTP server that it shares with the profiles
    (\<open>internal/httpserver\<close>, \<open>internal/pprofserver\<close>: \<open>Http_Server\<close>).
  \<^enum> All of it is put together by \<open>internal/dataplane\<close>: \<open>Outbound\<close> has the dial options, resolver and connection of every upstream, of its
    control plane and of the extension servers (\<open>internal/api/fx.go\<close>), \<open>Dataplane\<close> has \<open>New\<close> and the chain of interceptors that a stream
    passes, \<open>Lifecycle\<close> has starting, serving and stopping; \<open>Server\<close> is the gRPC server itself with its health check (\<open>internal/server\<close>). What is counted on the way,
    and under which labels, is in \<open>Metrics_Reporters\<close> (\<open>internal/metrics\<close> and the \<open>reporter.go\<close> of each package).
  \<^enum> On the other side of an extension key or authenticator stands a server built with the extension kit (\<open>pkg/ext\<close>: \<open>Ext_Kit\<close>).
  \<^enum> Before any of it the configuration is loaded, validated and compiled (\<open>internal/config\<close>: \<open>Bytesize\<close>, \<open>Services\<close>, \<open>Routing\<close>,
    \<open>Namespace_Rules\<close>, \<open>Config_Sections\<close>, \<open>Config_Keys\<close> and, for the whole, \<open>Config\<close>; \<open>internal/template\<close>), and its key policies become
    the registry and the vault (\<open>internal/kms\<close>, \<open>internal/api/kms.go\<close>, \<open>pkg/crypto/keys.go\<close>: \<open>Kms\<close>).

  \<^bold>\<open>How the model reads.\<close> \<open>Go_Prelude\<close>, \<open>Go_Strings\<close>, \<open>Decimal\<close> and \<open>Base64\<close> hold the parts of Go and its
  standard library the sources use: strings and byte slices are byte lists, maps are association
  lists, errors are a datatype with wrapping (\<open>errors.Is\<close> and \<open>errors.As\<close> walk it), a fallible function
  returns a sum. A struct is a record and an operation a function from the old to the new state;
  the operations keep their Go names, prefixed by their type where two share one. \<open>Validation\<close> is
  \<open>pkg/validation\<close>, with the contract of a \<open>Validate\<close> method as the locale \<open>validator\<close>; every
  modelled configuration section interprets it. \<open>Transition\<close> holds the locales for step relations
  and their invariants.

  \<^bold>\<open>State and concurrency.\<close> The vault is a record of slots, of the cache of opened DEKs and of its
  binding mode; \<open>Vault\<close> has its operations one after the other, \<open>Vault_Concurrent\<close> has \<open>Seal\<close> and
  \<open>Refresh\<close> as goroutines whose steps are the regions between locks and KEK calls. \<open>Pool\<close> has the
  connections by key, also with any number of callers of \<open>ConnOrCreate\<close> that interleave between
  its locked regions. \<open>Pump\<close> has the three goroutines of \<open>Forward\<close>. \<open>Srv\<close> has the goroutine of a resolver with its
  timer and its callers, \<open>Creds\<close> the reloader with the dialers and listeners that share its materials, \<open>Server\<close> the health loop beside \<open>Start\<close> and \<open>Stop\<close>,
  \<open>Lifecycle\<close> the data plane's \<open>Start\<close>, its serving goroutine and any number of \<open>Stop\<close>s. In each, every interleaving is a
  run of the step relation and the properties hold of every reachable state.

  \<^bold>\<open>What is shown.\<close>

  \<^item> Envelope encryption (\<open>Vault_Props\<close>, \<open>Vault_Theorems\<close>, \<open>Vault_Concurrent\<close>): sealing and opening
    round-trip across rotation, eviction and restart; a bound message opens under no other label;
    strict binding refuses before any key is used; DEKs are rotated exactly when expired; and
    sealing under any interleaving yields messages that open.
  \<^item> Codecs (\<open>Codec\<close>, \<open>Proxy_Codec\<close>, \<open>Codec_Server\<close>): payloads survive the codecs of an upstream and
    the HTTP routes; nothing leaves unsealed; strict decoding holds for every payload; only Nexus
    messages cross namespaces; a route acts on the namespace the authenticator admitted; no answer
    is a 5xx; names that clients send find the policy they belong to. The text of a failure leaves sealed and comes back (\<open>Failures\<close>).
  \<^item> Routing (\<open>Match\<close>, \<open>Routing\<close>, \<open>Router\<close>): validation accepts the well-formed tables and those compile;
    the compiled mux refines a first-match reading of the table; a prepared configuration never
    routes to a missing upstream; peeking is invisible to the handler.
  \<^item> Translation (\<open>Namespace_Rules\<close>, \<open>Protoutil\<close>, \<open>Translation\<close>): the pruned and cached plans rewrite
    exactly the namespace names of a message; what is translated out comes back, for names the
    rules can tell apart, and a counterexample where they cannot.
  \<^item> Forwarding (\<open>Forward\<close>, \<open>Pump\<close>, \<open>Rpc\<close>): the headers the upstream sees, what a caller gets back on every
    branch, the order of a stream and what of it can be missing on each end, and that forwarding returns.
  \<^item> Connections (\<open>Pool\<close>, \<open>Connect\<close>, \<open>Shared_Pool\<close>): racing callers share one connection and the losers' are closed;
    over the pool that all hops share, a call of an upstream that is not templated goes out on a connection dialed with its own options,
    and that of a templated one on a connection dialed to the address it rendered; calls go round the connections across
    the wrap-around of the 64-bit counter; and two templated upstreams that render the same pool key share a connection,
    with the options of the first.
  \<^item> Authentication (\<open>Auth\<close>): nothing passes unauthenticated or with its credential attached, and
    every authenticator fails closed.
  \<^item> Credentials (\<open>Certs\<close>, \<open>Creds\<close>): which handshakes a listener and a dialer complete, over files that change, each with what its own
    configured paths held at one moment, and that the reloader's tick serves the files' current content.
  \<^item> The Cloud API (\<open>Method_Translation\<close>, \<open>Cloud_Methods\<close>): a translated method makes only the calls its mapping lists, and
    listing namespaces page by page gives all of them.
  \<^item> SRV targets (\<open>Srv\<close>): lookups keep their distance and their deadline, and only usable backends are reported.
  \<^item> Configuration (\<open>Bytesize\<close>, \<open>Cloud\<close>, \<open>Config_Sections\<close>, \<open>Config_Keys\<close>, \<open>Config\<close>): \<open>Prepare\<close> accepts exactly the configurations
    whose sections are acceptable (each section interprets \<open>validator\<close>) and leaves nothing compiled otherwise; a prepared one
    sends no credential of an upstream in plaintext and serves no HTTP group openly; parsed sizes are exact or refused, and print back.
  \<^item> The whole path (\<open>Outbound\<close>, \<open>Dataplane\<close>): a data plane that \<open>New\<close> built calls a forwarder only for an allowed service and an admitted
    caller, with the namespace that was authenticated, on the upstream of the table; it is not built without a vault that the configuration needs; what an upstream gets in its headers; and which
    hops share no key of the pool.
  \<^item> Servers (\<open>Server\<close>, \<open>Lifecycle\<close>, \<open>Http_Server\<close>): health is consistent and never \<open>SERVING\<close> once stopping; an unexpected end is reported at most once,
    and nothing stays open after a stop; no HTTP route acts for a caller it did not authenticate.
  \<^item> Metrics (\<open>Metrics_Reporters\<close>, \<open>Dataplane\<close>): label values are bounded and valid, every event is counted once under its labels; and that a method
    name that is not valid UTF-8 makes the request reporter panic outside the recovery of panics.
  \<^item> Extension servers (\<open>Ext_Kit\<close>): a key over a server of the kit opens what it wrapped, relabelled key material is refused, and what passes the guard of a server.
  \<^item> Keys (\<open>Kms\<close>): which registry and which vault a validated encryption section gives, and when none; and what a failure leaves open.

  \<^bold>\<open>Code outside the repository\<close> is a parameter, and what is relied on is a named hypothesis:
  \<open>aead_correct\<close>, \<open>aead_auth\<close>, \<open>rand_ok\<close> (AES-GCM and the random source), \<open>lru_ok\<close> (the cache library),
  \<open>registry_opens\<close> (a KEK driver unwraps what it wrapped), \<open>marshal_ok\<close> and \<open>json_doc\<close> (protobuf on the wire
  and as JSON), \<open>metadata_doc\<close>, \<open>status_doc\<close>, \<open>stream_doc\<close> and \<open>pump_doc\<close> (gRPC), \<open>jwt_doc\<close> (the JWT parser),
  \<open>pem_doc\<close> and \<open>fs_ok\<close> (PEM decoding and the file system), \<open>lru_total\<close> (the cache library takes a
  positive size), \<open>metrics_doc\<close> (Prometheus takes as many label values as there are labels, each valid UTF-8, and panics otherwise), \<open>health_doc\<close> (gRPC's health server),
  and for an extension server \<open>material_doc\<close> (protobuf), \<open>aeads_open\<close> and \<open>aeads_authentic\<close> (its ciphers), \<open>lookup_keeps\<close> and \<open>sealer_ok\<close> (its own keys). The record \<open>config_env\<close> has what validation calls: X.509, the files, the clock, the URL and template parsers and the
  protobuf registry; \<open>key_env\<close> has the key drivers and the extension servers' clients; \<open>dp_env\<close> has all that \<open>New\<close> depends on. How listening, serving, draining and forwarding end is an input of the steps that wait for it. Each property that uses one has a witness with a concrete instance.

  \<^bold>\<open>Bounds and fuel.\<close> \<open>buildNode\<close> follows message types with fuel one above
  the number of types of the schema: it stops at a type it has already entered, so its depth is
  at most that number, and \<open>Translate_rewrites\<close> has the built plan on every message of the schema.
  The fixpoint of \<open>pruneDead\<close> ends because each round adds a type. \<open>awaitReady\<close> takes the finite
  list of states the connection goes through until the context is done. The loops over PEM blocks
  carry the length of the data as fuel, since each block consumes some of it, and the loop of the IPv6
  parser the length of the text. \<open>runRotation\<close> takes the number of ticks until it is stopped. All other loops are
  structural or have a measure. Changing the case of a text (\<open>ToLower\<close>, \<open>EqualFold\<close>) is modelled for ASCII, the alphabet of header names, schemes and
  labels. A data plane is started once, as documented. \<open>int64\<close> and the counter of calls are 64-bit words; \<open>int\<close> is used where Go's \<open>int\<close> holds a length.

  \<^bold>\<open>Not modelled.\<close> The wiring with the fx container and the command line (\<open>cmd\<close>, the \<open>fx.go\<close> files but for the constructors named above), which only
  call what is modelled here; logging (\<open>pkg/logger\<close>) and the values of durations; compression (\<open>pkg/compress\<close>), wrappers of libraries; the drivers
  behind the keys, calls of cloud SDKs; generated code, examples and test helpers.
\<close>

end
